(* ===== verification/Prelude.thy ===== *)
theory Prelude
  imports Main "HOL-Library.Word"
begin

text \<open>
  Shared vocabulary of the development: the machine types of the i386 target, the kernel's
  return codes (\<^verbatim>\<open>Includes/lib/stddef.h\<close>), the outcome type of a kernel routine, typed object
  stores addressed by pointers, and the theory of doubly linked chains that the kernel queue
  and the page allocator use.

  A routine returns an \<open>outcome\<close>:
    \<^item> \<open>Ok x\<close>: it returned \<open>x\<close>;
    \<^item> \<open>Panic e\<close>: it called \<^verbatim>\<open>kernel_panic(e)\<close>, which does not return;
    \<^item> \<open>Fault\<close>: it dereferenced a pointer that is not a live object of its type (\<^verbatim>\<open>NULL\<close>
      included), undefined behaviour in C;
    \<^item> \<open>Diverged\<close>: one of its loops does not end.
\<close>

unbundle bit_operations_syntax

section \<open>Machine types\<close>

type_synonym u8 = "8 word"
type_synonym u16 = "16 word"
type_synonym u32 = "32 word"
type_synonym u64 = "64 word"

text \<open>Pointers and \<^verbatim>\<open>uintptr_t\<close> are 32 bits wide on i386.\<close>

type_synonym ptr = "32 word"

abbreviation NULL :: ptr where
  "NULL \<equiv> 0"

named_theorems outcome_simps \<open>rewriting of outcomes\<close>
named_theorems store_simps \<open>reads and writes of typed stores\<close>

section \<open>Return codes\<close>

datatype OS_RETURN_E =
    OS_NO_ERR
  | OS_ERR_NULL_POINTER
  | OS_ERR_OUT_OF_BOUND
  | OR_ERR_UNAUTHORIZED_INTERRUPT_LINE
  | OS_ERR_INTERRUPT_ALREADY_REGISTERED
  | OS_ERR_INTERRUPT_NOT_REGISTERED
  | OS_ERR_NO_SUCH_IRQ_LINE
  | OS_ERR_NO_MORE_FREE_EVENT
  | OS_ERR_NO_SUCH_ID
  | OS_ERR_MALLOC
  | OS_ERR_UNAUTHORIZED_ACTION
  | OS_ERR_FORBIDEN_PRIORITY
  | OS_ERR_MUTEX_UNINITIALIZED
  | OS_ERR_SEM_UNINITIALIZED
  | OS_ERR_MAILBOX_NON_INITIALIZED
  | OS_ERR_QUEUE_NON_INITIALIZED
  | OS_ERR_NO_SEM_BLOCKED
  | OS_ERR_NO_MUTEX_BLOCKED
  | OS_MUTEX_LOCKED
  | OS_SEM_LOCKED
  | OS_ERR_CHECKSUM_FAILED
  | OS_ERR_ACPI_UNSUPPORTED
  | OS_ACPI_NOT_INITIALIZED
  | OS_ERR_NO_SUCH_LAPIC_ID
  | OS_ERR_ATA_DEVICE_NOT_PRESENT
  | OS_ERR_ATA_DEVICE_ERROR
  | OS_ERR_ATA_BAD_SECTOR_NUMBER
  | OS_ERR_ATA_SIZE_TO_HUGE
  | OS_ERR_VESA_NOT_SUPPORTED
  | OS_ERR_VESA_MODE_NOT_SUPPORTED
  | OS_ERR_VESA_NOT_INIT
  | OS_ERR_NO_MORE_FREE_MEM
  | OS_ERR_PAGING_NOT_INIT
  | OS_ERR_MAPPING_ALREADY_EXISTS
  | OS_ERR_MEMORY_NOT_MAPPED
  | OS_ERR_NOT_SUPPORTED
  | OS_ERR_HANDLER_ALREADY_EXISTS

text \<open>The enumerators' values; \<^verbatim>\<open>mailbox_destroy\<close> and \<^verbatim>\<open>queue_destroy\<close> combine two of them with
  \<^verbatim>\<open>|=\<close>.\<close>

fun os_code :: "OS_RETURN_E \<Rightarrow> u32" where
  "os_code OS_NO_ERR = 0"
| "os_code OS_ERR_NULL_POINTER = 1"
| "os_code OS_ERR_OUT_OF_BOUND = 2"
| "os_code OR_ERR_UNAUTHORIZED_INTERRUPT_LINE = 3"
| "os_code OS_ERR_INTERRUPT_ALREADY_REGISTERED = 4"
| "os_code OS_ERR_INTERRUPT_NOT_REGISTERED = 5"
| "os_code OS_ERR_NO_SUCH_IRQ_LINE = 6"
| "os_code OS_ERR_NO_MORE_FREE_EVENT = 7"
| "os_code OS_ERR_NO_SUCH_ID = 8"
| "os_code OS_ERR_MALLOC = 9"
| "os_code OS_ERR_UNAUTHORIZED_ACTION = 10"
| "os_code OS_ERR_FORBIDEN_PRIORITY = 11"
| "os_code OS_ERR_MUTEX_UNINITIALIZED = 12"
| "os_code OS_ERR_SEM_UNINITIALIZED = 13"
| "os_code OS_ERR_MAILBOX_NON_INITIALIZED = 14"
| "os_code OS_ERR_QUEUE_NON_INITIALIZED = 15"
| "os_code OS_ERR_NO_SEM_BLOCKED = 16"
| "os_code OS_ERR_NO_MUTEX_BLOCKED = 17"
| "os_code OS_MUTEX_LOCKED = 20"
| "os_code OS_SEM_LOCKED = 21"
| "os_code OS_ERR_CHECKSUM_FAILED = 22"
| "os_code OS_ERR_ACPI_UNSUPPORTED = 23"
| "os_code OS_ACPI_NOT_INITIALIZED = 24"
| "os_code OS_ERR_NO_SUCH_LAPIC_ID = 25"
| "os_code OS_ERR_ATA_DEVICE_NOT_PRESENT = 28"
| "os_code OS_ERR_ATA_DEVICE_ERROR = 29"
| "os_code OS_ERR_ATA_BAD_SECTOR_NUMBER = 30"
| "os_code OS_ERR_ATA_SIZE_TO_HUGE = 31"
| "os_code OS_ERR_VESA_NOT_SUPPORTED = 32"
| "os_code OS_ERR_VESA_MODE_NOT_SUPPORTED = 33"
| "os_code OS_ERR_VESA_NOT_INIT = 34"
| "os_code OS_ERR_NO_MORE_FREE_MEM = 35"
| "os_code OS_ERR_PAGING_NOT_INIT = 36"
| "os_code OS_ERR_MAPPING_ALREADY_EXISTS = 37"
| "os_code OS_ERR_MEMORY_NOT_MAPPED = 38"
| "os_code OS_ERR_NOT_SUPPORTED = 59"
| "os_code OS_ERR_HANDLER_ALREADY_EXISTS = 61"

section \<open>Outcomes of a kernel routine\<close>

datatype 'a outcome = Ok 'a | Panic OS_RETURN_E | Fault | Diverged

primrec andthen :: "'a outcome \<Rightarrow> ('a \<Rightarrow> 'b outcome) \<Rightarrow> 'b outcome" where
  "andthen (Ok x) f = f x"
| "andthen (Panic e) f = Panic e"
| "andthen Fault f = Fault"
| "andthen Diverged f = Diverged"

text \<open>A test of a call on an example, as the evaluation of the witnesses computes it.\<close>

lemma returns_test: "(case f of Ok (r, s) \<Rightarrow> P r s | _ \<Rightarrow> False) \<longleftrightarrow> (\<exists>r s. f = Ok (r, s) \<and> P r s)"
  by (cases f) auto

lemma andthen_eq_Ok [outcome_simps]:
  "andthen r f = Ok y \<longleftrightarrow> (\<exists>x. r = Ok x \<and> f x = Ok y)"
  by (cases r) auto

lemma andthen_assoc: "andthen (andthen r f) g = andthen r (\<lambda>x. andthen (f x) g)"
  by (cases r) auto

lemma andthen_if: "andthen (if b then r else r') f = (if b then andthen r f else andthen r' f)"
  by simp

text \<open>The idiom \<^verbatim>\<open>err = f(); if(err != OS_NO_ERR) kernel_panic(err);\<close>.\<close>

definition or_panic ::
    "(OS_RETURN_E \<times> 's) outcome \<Rightarrow> ('s \<Rightarrow> 'b outcome) \<Rightarrow> 'b outcome" where
  "or_panic r f = andthen r (\<lambda>(err, s). if err \<noteq> OS_NO_ERR then Panic err else f s)"

lemma or_panic_simps [simp]:
  "or_panic (Ok (OS_NO_ERR, s)) f = f s"
  "err \<noteq> OS_NO_ERR \<Longrightarrow> or_panic (Ok (err, s)) f = Panic err"
  "or_panic (Panic err) f = Panic err"
  "or_panic Fault f = Fault"
  "or_panic Diverged f = Diverged"
  by (simp_all add: or_panic_def)

lemma or_panic_eq_Ok [outcome_simps]: "or_panic r f = Ok y \<longleftrightarrow> (\<exists>s. r = Ok (OS_NO_ERR, s) \<and> f s = Ok y)"
  by (auto simp: or_panic_def outcome_simps split: if_splits prod.splits)

text \<open>The idiom \<^verbatim>\<open>err = f(); if(err != OS_NO_ERR) return err;\<close> and the call through a function
  pointer, \<open>None\<close> standing for \<^verbatim>\<open>NULL\<close>.\<close>

definition on_ok ::
    "(OS_RETURN_E \<times> 's) outcome \<Rightarrow> ('s \<Rightarrow> (OS_RETURN_E \<times> 's) outcome) \<Rightarrow> (OS_RETURN_E \<times> 's) outcome"
where
  "on_ok r f = andthen r (\<lambda>(err, s). if err \<noteq> OS_NO_ERR then Ok (err, s) else f s)"

definition call_ptr :: "'f option \<Rightarrow> ('f \<Rightarrow> 'a outcome) \<Rightarrow> 'a outcome" where
  "call_ptr fp k = (case fp of None \<Rightarrow> Fault | Some f \<Rightarrow> k f)"

lemma on_ok_simps [simp]:
  "on_ok (Ok (OS_NO_ERR, s)) f = f s"
  "err \<noteq> OS_NO_ERR \<Longrightarrow> on_ok (Ok (err, s)) f = Ok (err, s)"
  "on_ok (Panic err) f = Panic err"
  "on_ok Fault f = Fault"
  "on_ok Diverged f = Diverged"
  by (simp_all add: on_ok_def)

lemma call_ptr_simps [simp]:
  "call_ptr None k = Fault"
  "call_ptr (Some f) k = k f"
  by (simp_all add: call_ptr_def)

text \<open>A loop that does not return has the value \<open>None\<close> in the option order.\<close>

definition returned :: "'a outcome option \<Rightarrow> 'a outcome" where
  "returned r = (case r of None \<Rightarrow> Diverged | Some x \<Rightarrow> x)"

lemma returned_simps [simp]:
  "returned None = Diverged"
  "returned (Some x) = x"
  by (simp_all add: returned_def)

section \<open>Typed stores\<close>

definition deref :: "(ptr \<rightharpoonup> 'n) \<Rightarrow> ptr \<Rightarrow> 'n outcome" where
  "deref m p = (case m p of None \<Rightarrow> Fault | Some n \<Rightarrow> Ok n)"

definition modify :: "(ptr \<rightharpoonup> 'n) \<Rightarrow> ptr \<Rightarrow> ('n \<Rightarrow> 'n) \<Rightarrow> (ptr \<rightharpoonup> 'n) outcome" where
  "modify m p f = (case m p of None \<Rightarrow> Fault | Some n \<Rightarrow> Ok (m(p \<mapsto> f n)))"

lemma deref_Some [store_simps]: "m p = Some n \<Longrightarrow> deref m p = Ok n"
  by (simp add: deref_def)

lemma deref_None [store_simps]: "m p = None \<Longrightarrow> deref m p = Fault"
  by (simp add: deref_def)

lemma modify_Some [store_simps]: "m p = Some n \<Longrightarrow> modify m p f = Ok (m(p \<mapsto> f n))"
  by (simp add: modify_def)

lemma modify_None [store_simps]: "m p = None \<Longrightarrow> modify m p f = Fault"
  by (simp add: modify_def)

lemma deref_eq_Ok [outcome_simps]: "deref m p = Ok n \<longleftrightarrow> m p = Some n"
  by (simp add: deref_def split: option.splits)

lemma modify_eq_Ok [outcome_simps]:
  "modify m p f = Ok m' \<longleftrightarrow> (\<exists>n. m p = Some n \<and> m' = m(p \<mapsto> f n))"
  by (auto simp: modify_def split: option.splits)

section \<open>Doubly linked chains\<close>

text \<open>\<open>hdp xs q\<close> is the first element of a chain segment followed by \<open>q\<close>, \<open>lastp p xs\<close> the last
  element of a segment preceded by \<open>p\<close>.\<close>

primrec hdp :: "ptr list \<Rightarrow> ptr \<Rightarrow> ptr" where
  "hdp [] q = q"
| "hdp (x # xs) q = x"

definition lastp :: "ptr \<Rightarrow> ptr list \<Rightarrow> ptr" where
  "lastp p xs = (if xs = [] then p else last xs)"

lemma hdp_append [simp]: "hdp (xs @ ys) q = hdp xs (hdp ys q)"
  by (cases xs) auto

lemma lastp_simps [simp]:
  "lastp p [] = p"
  "lastp p (x # xs) = lastp x xs"
  "lastp p (xs @ ys) = lastp (lastp p xs) ys"
  by (auto simp: lastp_def)

lemma hdp_in_set: "xs \<noteq> [] \<Longrightarrow> hdp xs q \<in> set xs"
  by (cases xs) auto

lemma lastp_in_set: "xs \<noteq> [] \<Longrightarrow> lastp p xs \<in> set xs"
  by (simp add: lastp_def)

text \<open>\<open>dseg nx pv m p xs q\<close>: in the store \<open>m\<close> whose objects are linked by the fields \<open>nx\<close> and
  \<open>pv\<close>, the objects \<open>xs\<close> form a segment whose first \<open>pv\<close> is \<open>p\<close> and whose last \<open>nx\<close> is \<open>q\<close>.\<close>

fun dseg :: "('n \<Rightarrow> ptr) \<Rightarrow> ('n \<Rightarrow> ptr) \<Rightarrow> (ptr \<rightharpoonup> 'n) \<Rightarrow> ptr \<Rightarrow> ptr list \<Rightarrow> ptr \<Rightarrow> bool" where
  "dseg nx pv m p [] q \<longleftrightarrow> True"
| "dseg nx pv m p (x # xs) q \<longleftrightarrow>
     x \<noteq> NULL \<and> (\<exists>n. m x = Some n \<and> pv n = p \<and> nx n = hdp xs q) \<and> dseg nx pv m x xs q"

lemma dseg_append [simp]:
  "dseg nx pv m p (xs @ ys) q \<longleftrightarrow>
     dseg nx pv m p xs (hdp ys q) \<and> dseg nx pv m (lastp p xs) ys q"
  by (induction xs arbitrary: p) auto

lemma dseg_fun_upd [simp]:
  "x \<notin> set xs \<Longrightarrow> dseg nx pv (m(x := v)) p xs q = dseg nx pv m p xs q"
  by (induction xs arbitrary: p) auto

lemma dseg_cong:
  "(\<And>x. x \<in> set xs \<Longrightarrow> m' x = m x) \<Longrightarrow> dseg nx pv m' p xs q = dseg nx pv m p xs q"
  by (induction xs arbitrary: p) auto

lemma dseg_not_NULL: "dseg nx pv m p xs q \<Longrightarrow> x \<in> set xs \<Longrightarrow> x \<noteq> NULL"
  by (induction xs arbitrary: p) auto

lemma dseg_mapped: "dseg nx pv m p xs q \<Longrightarrow> x \<in> set xs \<Longrightarrow> \<exists>n. m x = Some n"
  by (induction xs arbitrary: p) auto

lemma dseg_hdp_NULL: "dseg nx pv m p xs q \<Longrightarrow> hdp xs NULL = NULL \<longleftrightarrow> xs = []"
  by (cases xs) auto

lemma dseg_lastp_NULL: "dseg nx pv m p xs q \<Longrightarrow> lastp NULL xs = NULL \<longleftrightarrow> xs = []"
  by (cases xs rule: rev_cases) auto

section \<open>Cursor loops\<close>

text \<open>The kernel's list loops \<^verbatim>\<open>while(cursor != NULL && P(cursor)) cursor = cursor->next;\<close>.\<close>

partial_function (option) walk ::
    "('n \<Rightarrow> ptr) \<Rightarrow> (ptr \<Rightarrow> 'n \<Rightarrow> bool) \<Rightarrow> (ptr \<rightharpoonup> 'n) \<Rightarrow> ptr \<Rightarrow> ptr outcome option" where
  "walk nx P m c =
     (if c = NULL then Some (Ok NULL)
      else case m c of
             None \<Rightarrow> Some Fault
           | Some n \<Rightarrow> if P c n then walk nx P m (nx n) else Some (Ok c))"

text \<open>On a well-formed chain the loop ends, at the first element that fails the test.\<close>

lemma walk_dseg:
  "dseg nx pv m p xs NULL \<Longrightarrow>
     walk nx P m (hdp xs NULL) = Some (Ok (hdp (dropWhile (\<lambda>x. P x (the (m x))) xs) NULL))"
proof (induction xs arbitrary: p)
  case Nil
  then show ?case by (simp add: walk.simps)
next
  case (Cons x xs)
  from Cons.prems obtain n where n: "m x = Some n" "nx n = hdp xs NULL" "x \<noteq> NULL"
    and seg: "dseg nx pv m x xs NULL" by auto
  from Cons.IH [OF seg] n show ?case
    by (simp add: walk.simps [of _ _ _ x])
qed

text \<open>General loops: a body returns whether to go on, and the new state.\<close>

partial_function (option) loop :: "('s \<Rightarrow> (bool \<times> 's) outcome) \<Rightarrow> 's \<Rightarrow> 's outcome option" where
  "loop body s =
     (case body s of
        Ok r \<Rightarrow> (case r of (more, s') \<Rightarrow> if more then loop body s' else Some (Ok s'))
      | Panic e \<Rightarrow> Some (Panic e)
      | Fault \<Rightarrow> Some Fault
      | Diverged \<Rightarrow> Some Diverged)"

definition while_do :: "('s \<Rightarrow> (bool \<times> 's) outcome) \<Rightarrow> 's \<Rightarrow> 's outcome" where
  "while_do body s = returned (loop body s)"

lemma while_do_unfold:
  "while_do body s = andthen (body s) (\<lambda>(more, s'). if more then while_do body s' else Ok s')"
  by (subst while_do_def, subst loop.simps) (auto simp: while_do_def split: outcome.splits)

text \<open>A loop whose body keeps an invariant, never fails, and decreases a measure when it goes on
  returns, in a state that the last pass of the body produced.\<close>

lemma while_do_total:
  assumes "I s"
    and "\<And>s. I s \<Longrightarrow> \<exists>more s'. body s = Ok (more, s') \<and>
           (if more then I s' \<and> \<mu> s' < (\<mu> s :: nat) else Q s')"
  shows "\<exists>s'. while_do body s = Ok s' \<and> Q s'"
  using assms(1)
proof (induction "\<mu> s" arbitrary: s rule: less_induct)
  case less
  from assms(2) [OF less.prems] obtain more s' where b: "body s = Ok (more, s')"
    "if more then I s' \<and> \<mu> s' < \<mu> s else Q s'" by blast
  show ?case
  proof (cases more)
    case True
    with b less.hyps [of s'] show ?thesis by (subst while_do_unfold) simp
  next
    case False
    with b show ?thesis by (subst while_do_unfold) simp
  qed
qed

text \<open>Singly linked segments, and the loop that looks for the place of a new element of an ordered list:
  \<open>save\<close> trails \<open>cursor\<close>, except that both start at the head.\<close>

fun sseg :: "('n \<Rightarrow> ptr) \<Rightarrow> (ptr \<rightharpoonup> 'n) \<Rightarrow> ptr list \<Rightarrow> ptr \<Rightarrow> bool" where
  "sseg nx m [] q \<longleftrightarrow> True"
| "sseg nx m (x # xs) q \<longleftrightarrow> x \<noteq> NULL \<and> (\<exists>n. m x = Some n \<and> nx n = hdp xs q) \<and> sseg nx m xs q"

lemma sseg_append [simp]: "sseg nx m (xs @ ys) q \<longleftrightarrow> sseg nx m xs (hdp ys q) \<and> sseg nx m ys q"
  by (induction xs) auto

lemma sseg_fun_upd [simp]: "x \<notin> set xs \<Longrightarrow> sseg nx (m(x := v)) xs q = sseg nx m xs q"
  by (induction xs) auto

lemma sseg_not_NULL: "sseg nx m xs q \<Longrightarrow> x \<in> set xs \<Longrightarrow> x \<noteq> NULL"
  by (induction xs) auto

lemma sseg_mapped: "sseg nx m xs q \<Longrightarrow> x \<in> set xs \<Longrightarrow> \<exists>n. m x = Some n"
  by (induction xs) auto

lemma walk_sseg:
  "sseg nx m xs NULL \<Longrightarrow>
     walk nx P m (hdp xs NULL) = Some (Ok (hdp (dropWhile (\<lambda>x. P x (the (m x))) xs) NULL))"
proof (induction xs)
  case Nil
  then show ?case by (simp add: walk.simps)
next
  case (Cons x xs)
  then obtain n where "m x = Some n" "nx n = hdp xs NULL" "x \<noteq> NULL" by auto
  then show ?case using Cons by (simp add: walk.simps [of _ _ _ x])
qed

definition trail_pass ::
    "('n \<Rightarrow> ptr) \<Rightarrow> ('n \<Rightarrow> bool) \<Rightarrow> (ptr \<rightharpoonup> 'n) \<Rightarrow> ptr \<times> ptr \<Rightarrow> (bool \<times> ptr \<times> ptr) outcome" where
  "trail_pass nx P m = (\<lambda>(save, cursor).
     if cursor = NULL then Ok (False, save, cursor)
     else andthen (deref m cursor) (\<lambda>n. if P n then Ok (True, cursor, nx n) else Ok (False, save, cursor)))"

definition trail :: "('n \<Rightarrow> ptr) \<Rightarrow> ('n \<Rightarrow> bool) \<Rightarrow> (ptr \<rightharpoonup> 'n) \<Rightarrow> ptr \<Rightarrow> (ptr \<times> ptr) outcome" where
  "trail nx P m c = while_do (trail_pass nx P m) (c, c)"

lemma trail_from:
  assumes "sseg nx m (xs @ ys) NULL" "\<forall>x \<in> set xs. P (the (m x))" "ys = [] \<or> \<not> P (the (m (hd ys)))"
  shows "while_do (trail_pass nx P m) (sv, hdp (xs @ ys) NULL) = Ok (lastp sv xs, hdp ys NULL)"
  using assms(1,2)
proof (induction xs arbitrary: sv)
  case Nil
  show ?case
  proof (cases ys)
    case (Cons y zs)
    then show ?thesis using Nil assms(3) by (subst while_do_unfold) (auto simp: trail_pass_def deref_def)
  qed (simp add: while_do_unfold [of _ "(sv, NULL)"] trail_pass_def)
next
  case (Cons x xs)
  then obtain n where "x \<noteq> NULL" "m x = Some n" "nx n = hdp (xs @ ys) NULL" "P n" by auto
  then show ?case
    using Cons.IH [of x] Cons.prems by (subst while_do_unfold) (simp add: trail_pass_def deref_def)
qed

lemma trail_split:
  assumes "sseg nx m (xs @ ys) NULL" "\<forall>x \<in> set xs. P (the (m x))" "ys = [] \<or> \<not> P (the (m (hd ys)))"
  shows "trail nx P m (hdp (xs @ ys) NULL) = Ok (lastp (hdp (xs @ ys) NULL) xs, hdp ys NULL)"
  unfolding trail_def by (rule trail_from [OF assms])

text \<open>What every pass of the body keeps holds when the loop returns.\<close>

lemma loop_keeps:
  "loop body s = Some r \<Longrightarrow> (\<And>s m s'. body s = Ok (m, s') \<Longrightarrow> P s \<Longrightarrow> P s') \<Longrightarrow> P s \<Longrightarrow> r = Ok s' \<Longrightarrow> P s'"
proof (induction body s r rule: loop.raw_induct [rotated, consumes 1])
  case (1 lp body s r)
  show ?case
  proof (cases "body s")
    case (Ok x)
    obtain m t where x: "x = (m, t)" by fastforce
    have "P t" using 1(3,4) Ok x by blast
    with 1 Ok x show ?thesis by (auto split: if_splits)
  qed (use 1(2,5) in auto)
qed

lemma while_do_keeps:
  assumes "while_do body s = Ok s'" and "\<And>s m s'. body s = Ok (m, s') \<Longrightarrow> P s \<Longrightarrow> P s'" and "P s"
  shows "P s'"
proof -
  have "loop body s = Some (Ok s')" using assms(1)
    by (auto simp: while_do_def returned_def split: option.splits)
  from loop_keeps [OF this, of P] assms(2,3) show ?thesis by simp
qed

text \<open>A loop whose body always goes on, within an invariant, does not end.\<close>

lemma loop_diverges:
  "loop body s = Some r \<Longrightarrow> (\<And>s. I s \<Longrightarrow> \<exists>s'. body s = Ok (True, s') \<and> I s') \<Longrightarrow> \<not> I s"
proof (induction body s r rule: loop.raw_induct [rotated, consumes 1])
  case (1 lp body s r)
  show ?case
  proof
    assume "I s"
    from 1(3) [OF this] obtain s' where s': "body s = Ok (True, s')" "I s'" by (elim exE conjE)
    have "lp body s' = Some r" using 1(2) s'(1) by simp
    from 1(1) [OF this 1(3)] s'(2) show False by simp
  qed
qed

lemma while_do_diverges:
  assumes "I s" and "\<And>s. I s \<Longrightarrow> \<exists>s'. body s = Ok (True, s') \<and> I s'"
  shows "while_do body s = Diverged"
proof (cases "loop body s")
  case None
  then show ?thesis by (simp add: while_do_def returned_def)
next
  case (Some r)
  from loop_diverges [of body s r I, OF Some assms(2)] assms(1) show ?thesis by simp
qed

text \<open>Loops over a range that is known when they start.\<close>

primrec for_each :: "'a list \<Rightarrow> ('a \<Rightarrow> 's \<Rightarrow> 's outcome) \<Rightarrow> 's \<Rightarrow> 's outcome" where
  "for_each [] body s = Ok s"
| "for_each (x # xs) body s = andthen (body x s) (for_each xs body)"

lemma for_each_append: "for_each (xs @ ys) body s = andthen (for_each xs body s) (for_each ys body)"
proof (induction xs arbitrary: s)
  case (Cons x xs)
  then show ?case by (cases "body x s") simp_all
qed simp

lemma for_each_map: "for_each (map f xs) body s = for_each xs (\<lambda>x. body (f x)) s"
proof (induction xs arbitrary: s)
  case (Cons x xs)
  then show ?case by (cases "body (f x) s") simp_all
qed simp

lemma for_each_cong: "(\<And>x s. x \<in> set xs \<Longrightarrow> body x s = body' x s) \<Longrightarrow> for_each xs body s = for_each xs body' s"
proof (induction xs arbitrary: s)
  case (Cons x xs)
  then show ?case by (cases "body' x s") simp_all
qed simp

lemma for_each_Nil: "for_each [] body = Ok"
  by (simp add: fun_eq_iff)

lemma andthen_Ok: "andthen r Ok = r"
  by (cases r) simp_all

lemma for_each_cong_inv:
  assumes "\<And>x s. x \<in> set xs \<Longrightarrow> I s \<Longrightarrow> body x s = body' x s"
    and "\<And>x s s'. x \<in> set xs \<Longrightarrow> I s \<Longrightarrow> body' x s = Ok s' \<Longrightarrow> I s'" and "I s"
  shows "for_each xs body s = for_each xs body' s"
  using assms
proof (induction xs arbitrary: s)
  case (Cons x xs)
  have e: "body x s = body' x s" using Cons.prems by simp
  show ?case
  proof (cases "body' x s")
    case (Ok s')
    have "for_each xs body s' = for_each xs body' s'"
    proof (rule Cons.IH)
      show "I s'" using Cons.prems(2) [of x s s'] Cons.prems(3) Ok by simp
      show "\<And>y t t'. y \<in> set xs \<Longrightarrow> I t \<Longrightarrow> body' y t = Ok t' \<Longrightarrow> I t'" by (rule Cons.prems(2)) simp_all
    qed (use Cons.prems(1) in simp)
    then show ?thesis using e Ok by simp
  qed (use e in simp_all)
qed simp

lemma for_each_nested: "for_each xs (\<lambda>x. for_each ys (body x)) s = for_each (List.product xs ys) (\<lambda>(x, y). body x y) s"
proof (induction xs arbitrary: s)
  case (Cons x xs)
  then show ?case by (cases "for_each ys (body x) s") (simp_all add: for_each_append for_each_map)
qed simp

section \<open>Lists\<close>

lemma dropWhile_split:
  "dropWhile P xs = c # bs \<Longrightarrow> xs = takeWhile P xs @ c # bs"
  by (metis takeWhile_dropWhile_id)

lemma dropWhile_head: "dropWhile P xs = c # bs \<Longrightarrow> \<not> P c"
  using hd_dropWhile [of P xs] by simp

lemma takeWhile_all: "\<forall>x \<in> set (takeWhile P xs). P x"
  using set_takeWhileD by metis

lemma remove1_append_notin: "x \<notin> set xs \<Longrightarrow> remove1 x (xs @ x # ys) = xs @ ys"
  by (simp add: remove1_append)

lemma find_dropWhile: "find P xs = (case dropWhile (\<lambda>x. \<not> P x) xs of [] \<Rightarrow> None | x # _ \<Rightarrow> Some x)"
  by (induction xs) auto

lemma find_map_list: "find P (map f xs) = map_option f (find (\<lambda>x. P (f x)) xs)"
  by (induction xs) auto

lemma find_append: "find P (xs @ ys) = (case find P xs of None \<Rightarrow> find P ys | Some x \<Rightarrow> Some x)"
  by (induction xs) auto

section \<open>Options\<close>

lemma case_option_FalseE:
  assumes "case r of None \<Rightarrow> False | Some x \<Rightarrow> P x"
  obtains x where "r = Some x" "P x"
  using assms by (cases r) auto

section \<open>Words\<close>

lemma sint_small: "unat w < 2 ^ 31 \<Longrightarrow> sint w = int (unat w)" for w :: u32
proof -
  assume "unat w < 2 ^ 31"
  then have "int (unat w) < int (2 ^ 31)" by (simp only: of_nat_less_iff)
  then have "uint w < 2 ^ 31" by simp
  moreover have "- (2 ^ 31) \<le> uint w" by (rule order_trans [OF _ uint_ge_0]) simp
  ultimately have "signed_take_bit 31 (uint w) = uint w" by (intro signed_take_bit_int_eq_self)
  then show ?thesis by (simp add: sint_uint)
qed

end
