(* ===== verification/Kheap.thy ===== *)
theory Kheap
  imports Prelude
begin

text \<open>
  The kernel heap allocator, \<^verbatim>\<open>Sources/memory/kheap.c\<close>. A chunk is a header \<open>all\<close> (its links in the
  ring of all chunks, at offset 0), a flag \<open>used\<close> and, at offset \<^verbatim>\<open>HEADER_SIZE\<close>, a union of the
  payload and the links \<open>free\<close> of the ring of free chunks of its size class. Both kinds of links
  are \<^verbatim>\<open>list_t\<close> objects in one raw memory \<open>lists\<close>, addressed by the address of the \<^verbatim>\<open>list_t\<close>, so
  that the ring primitives are shared, as in the code, and the \<^verbatim>\<open>CONTAINER\<close> macro is pointer
  arithmetic. The linker symbols \<^verbatim>\<open>_kernel_heap_start\<close> and \<^verbatim>\<open>_kernel_heap_end\<close> are arguments of
  \<open>kheap_init\<close>.
\<close>

section \<open>State\<close>

record list_t =
  lnext :: ptr
  lprev :: ptr

record kheap =
  kh_init :: u32
  lists :: "ptr \<Rightarrow> list_t"
  used :: "ptr \<Rightarrow> u8"
  free_chunk :: "int \<Rightarrow> ptr"
  first_chunk :: ptr
  last_chunk :: ptr
  mem_free :: u32
  kheap_mem_used :: u32
  mem_meta :: u32

text \<open>\<^verbatim>\<open>enum heap_enum\<close> and \<^verbatim>\<open>sizeof(mem_chunk_t)\<close> on i386.\<close>

definition NUM_SIZES :: int where "NUM_SIZES = 32"
definition ALIGN :: u32 where "ALIGN = 4"
definition MIN_SIZE :: u32 where "MIN_SIZE = 8"
definition HEADER_SIZE :: u32 where "HEADER_SIZE = 12"
definition sizeof_mem_chunk :: u32 where "sizeof_mem_chunk = 20"

lemmas heap_enum_defs = NUM_SIZES_def ALIGN_def MIN_SIZE_def HEADER_SIZE_def sizeof_mem_chunk_def

section \<open>Ring primitives\<close>

definition set_lnext :: "(ptr \<Rightarrow> list_t) \<Rightarrow> ptr \<Rightarrow> ptr \<Rightarrow> (ptr \<Rightarrow> list_t)" where
  "set_lnext L p v = L(p := (L p)\<lparr>lnext := v\<rparr>)"

definition set_lprev :: "(ptr \<Rightarrow> list_t) \<Rightarrow> ptr \<Rightarrow> ptr \<Rightarrow> (ptr \<Rightarrow> list_t)" where
  "set_lprev L p v = L(p := (L p)\<lparr>lprev := v\<rparr>)"

definition list_init :: "(ptr \<Rightarrow> list_t) \<Rightarrow> ptr \<Rightarrow> (ptr \<Rightarrow> list_t)" where
  "list_init L node = set_lprev (set_lnext L node node) node node"

definition insert_before :: "(ptr \<Rightarrow> list_t) \<Rightarrow> ptr \<Rightarrow> ptr \<Rightarrow> (ptr \<Rightarrow> list_t)" where
  "insert_before L current new =
     (let current_prev = lprev (L current);
          new_prev = lprev (L new);
          L1 = set_lnext L current_prev new;
          L2 = set_lprev L1 new current_prev;
          L3 = set_lnext L2 new_prev current
      in set_lprev L3 current new_prev)"

definition insert_after :: "(ptr \<Rightarrow> list_t) \<Rightarrow> ptr \<Rightarrow> ptr \<Rightarrow> (ptr \<Rightarrow> list_t)" where
  "insert_after L current new =
     (let current_next = lnext (L current);
          new_prev = lprev (L new);
          L1 = set_lnext L current new;
          L2 = set_lprev L1 new current;
          L3 = set_lnext L2 new_prev current_next
      in set_lprev L3 current_next new_prev)"

definition list_remove :: "(ptr \<Rightarrow> list_t) \<Rightarrow> ptr \<Rightarrow> (ptr \<Rightarrow> list_t)" where
  "list_remove L node =
     (let L1 = set_lnext L (lprev (L node)) (lnext (L node));
          L2 = set_lprev L1 (lnext (L1 node)) (lprev (L1 node));
          L3 = set_lnext L2 node node
      in set_lprev L3 node node)"

text \<open>\<^verbatim>\<open>push\<close>, \<^verbatim>\<open>pop\<close> and \<^verbatim>\<open>remove_from\<close> update the list head through a \<^verbatim>\<open>list_t**\<close>: the new head is
  part of the result.\<close>

definition list_push :: "(ptr \<Rightarrow> list_t) \<Rightarrow> ptr \<Rightarrow> ptr \<Rightarrow> (ptr \<Rightarrow> list_t) \<times> ptr" where
  "list_push L list node =
     ((if list \<noteq> NULL then insert_before L list node else L), node)"

definition list_pop :: "(ptr \<Rightarrow> list_t) \<Rightarrow> ptr \<Rightarrow> (ptr \<Rightarrow> list_t) \<times> ptr \<times> ptr" where
  "list_pop L list =
     (let top = list;
          next_top = lnext (L top);
          L1 = list_remove L top
      in (L1, (if top = next_top then NULL else next_top), top))"

definition remove_from :: "(ptr \<Rightarrow> list_t) \<Rightarrow> ptr \<Rightarrow> ptr \<Rightarrow> (ptr \<Rightarrow> list_t) \<times> ptr" where
  "remove_from L list node =
     (if list = node then (let (L1, list', _) = list_pop L list in (L1, list'))
      else (list_remove L node, list))"

section \<open>The list macros on the free rings\<close>

text \<open>\<^verbatim>\<open>&chunk->free\<close> and \<^verbatim>\<open>CONTAINER(mem_chunk_t, free, l)\<close>.\<close>

definition free_of :: "ptr \<Rightarrow> ptr" where
  "free_of chunk = chunk + HEADER_SIZE"

definition chunk_of_free :: "ptr \<Rightarrow> ptr" where
  "chunk_of_free l = l - HEADER_SIZE"

definition LIST_REMOVE_FROM :: "(ptr \<Rightarrow> list_t) \<Rightarrow> ptr \<Rightarrow> ptr \<Rightarrow> (ptr \<Rightarrow> list_t) \<times> ptr" where
  "LIST_REMOVE_FROM L h d =
     (let (L1, head) = remove_from L (free_of h) (free_of d)
      in (L1, if head = NULL then NULL else chunk_of_free head))"

definition LIST_PUSH :: "(ptr \<Rightarrow> list_t) \<Rightarrow> ptr \<Rightarrow> ptr \<Rightarrow> (ptr \<Rightarrow> list_t) \<times> ptr" where
  "LIST_PUSH L h v =
     (let head0 = (if h = NULL then NULL else free_of h);
          (L1, head) = list_push L head0 (free_of v)
      in (L1, chunk_of_free head))"

definition LIST_POP :: "(ptr \<Rightarrow> list_t) \<Rightarrow> ptr \<Rightarrow> (ptr \<Rightarrow> list_t) \<times> ptr \<times> ptr" where
  "LIST_POP L h =
     (let (L1, head, res) = list_pop L (free_of h)
      in (L1, (if head = NULL then NULL else chunk_of_free head), chunk_of_free res))"

section \<open>Chunks\<close>

definition memory_chunk_init :: "ptr \<Rightarrow> kheap \<Rightarrow> kheap" where
  "memory_chunk_init chunk h =
     (let h1 = h\<lparr>lists := list_init (lists h) chunk, used := (used h)(chunk := 0)\<rparr>
      in h1\<lparr>lists := list_init (lists h1) (free_of chunk)\<rparr>)"

definition memory_chunk_size :: "kheap \<Rightarrow> ptr \<Rightarrow> u32" where
  "memory_chunk_size h chunk = (lnext (lists h chunk) - chunk) - HEADER_SIZE"

lemma unat_div2_less: "0 < s \<Longrightarrow> unat (s div 2) < unat s" for s :: u32
  by (simp add: unat_div unat_gt_0)

function slot_loop :: "u32 \<Rightarrow> int \<Rightarrow> int" where
  "slot_loop sz n = (if sz > 0 then slot_loop (sz div 2) (n + 1) else n)"
  by pat_completeness auto
termination
  by (relation "measure (\<lambda>(sz, n). unat sz)") (auto simp: unat_div2_less)

declare slot_loop.simps [simp del]

definition memory_chunk_slot :: "u32 \<Rightarrow> int" where
  "memory_chunk_slot sz = slot_loop sz (-1)"

definition remove_free :: "ptr \<Rightarrow> kheap \<Rightarrow> kheap" where
  "remove_free chunk h =
     (let len = memory_chunk_size h chunk;
          n = memory_chunk_slot len;
          (L1, hd') = LIST_REMOVE_FROM (lists h) (free_chunk h n) chunk
      in h\<lparr>lists := L1, free_chunk := (free_chunk h)(n := hd'),
           mem_free := mem_free h - (len - HEADER_SIZE)\<rparr>)"

definition push_free :: "ptr \<Rightarrow> kheap \<Rightarrow> kheap" where
  "push_free chunk h =
     (let len = memory_chunk_size h chunk;
          n = memory_chunk_slot len;
          (L1, hd') = LIST_PUSH (lists h) (free_chunk h n) chunk
      in h\<lparr>lists := L1, free_chunk := (free_chunk h)(n := hd'),
           mem_free := mem_free h + (len - HEADER_SIZE)\<rparr>)"

definition kheap_init :: "ptr \<Rightarrow> ptr \<Rightarrow> kheap \<Rightarrow> OS_RETURN_E \<times> kheap" where
  "kheap_init heap_start heap_end h =
     (let size = heap_end - heap_start;
          mem_start = (heap_start + ALIGN - 1) AND NOT (ALIGN - 1);
          mem_end = (heap_start + size) AND NOT (ALIGN - 1);
          first = mem_start;
          second = first + sizeof_mem_chunk;
          last = mem_end - sizeof_mem_chunk;
          h1 = h\<lparr>first_chunk := first, last_chunk := last\<rparr>;
          h2 = memory_chunk_init last (memory_chunk_init second (memory_chunk_init first h1));
          h3 = h2\<lparr>lists := insert_after (lists h2) first second\<rparr>;
          h4 = h3\<lparr>lists := insert_after (lists h3) second last\<rparr>;
          h5 = h4\<lparr>used := (used h4)(first := 1, last := 1)\<rparr>;
          len = memory_chunk_size h5 second;
          n = memory_chunk_slot len;
          (L6, hd') = LIST_PUSH (lists h5) (free_chunk h5 n) second
      in (OS_NO_ERR,
          h5\<lparr>lists := L6, free_chunk := (free_chunk h5)(n := hd'),
             mem_free := len - HEADER_SIZE, kheap_mem_used := 0,
             mem_meta := sizeof_mem_chunk * 2 + HEADER_SIZE, kh_init := 1\<rparr>))"

section \<open>Allocation and release\<close>

text \<open>The size actually searched for: rounded up to \<^verbatim>\<open>ALIGN\<close>, at least \<^verbatim>\<open>MIN_SIZE\<close>.\<close>

definition request_size :: "u32 \<Rightarrow> u32" where
  "request_size sz =
     (let s = (sz + ALIGN - 1) AND NOT (ALIGN - 1)
      in if s < MIN_SIZE then MIN_SIZE else s)"

text \<open>The search for a non-empty size class, \<open>None\<close> once \<^verbatim>\<open>n >= NUM_SIZES\<close>.\<close>

function find_slot :: "(int \<Rightarrow> ptr) \<Rightarrow> int \<Rightarrow> int option" where
  "find_slot fc n =
     (if n \<ge> NUM_SIZES then None
      else if fc n = NULL then find_slot fc (n + 1) else Some n)"
  by pat_completeness auto
termination
  by (relation "measure (\<lambda>(fc, n). nat (NUM_SIZES - n))") auto

declare find_slot.simps [simp del]

definition kmalloc :: "u32 \<Rightarrow> kheap \<Rightarrow> ptr \<times> kheap" where
  "kmalloc size0 h =
     (if kh_init h = 0 then (NULL, h)
      else
        let size = request_size size0
        in case find_slot (free_chunk h) (memory_chunk_slot (size - 1) + 1) of
             None \<Rightarrow> (NULL, h)
           | Some n \<Rightarrow>
               let (L1, hd', chunk) = LIST_POP (lists h) (free_chunk h n);
                   h1 = h\<lparr>lists := L1, free_chunk := (free_chunk h)(n := hd')\<rparr>;
                   size2 = memory_chunk_size h1 chunk;
                   (h2, len) =
                     (if size + sizeof_mem_chunk \<le> size2
                      then
                        let chunk2 = chunk + HEADER_SIZE + size;
                            g1 = memory_chunk_init chunk2 h1;
                            g2 = g1\<lparr>lists := insert_after (lists g1) chunk chunk2\<rparr>;
                            l = memory_chunk_size g2 chunk2;
                            k = memory_chunk_slot l;
                            (L3, hd3) = LIST_PUSH (lists g2) (free_chunk g2 k) chunk2
                        in (g2\<lparr>lists := L3, free_chunk := (free_chunk g2)(k := hd3),
                               mem_meta := mem_meta g2 + HEADER_SIZE,
                               mem_free := mem_free g2 + (l - HEADER_SIZE)\<rparr>, l)
                      else (h1, 0));
                   h3 = h2\<lparr>used := (used h2)(chunk := 1),
                           mem_free := mem_free h2 - size2,
                           kheap_mem_used := kheap_mem_used h2 + (size2 - len - HEADER_SIZE)\<rparr>
               in (lnext (lists h3 (free_of chunk)), h3))"

definition kfree :: "ptr \<Rightarrow> kheap \<Rightarrow> kheap" where
  "kfree p h =
     (if kh_init h = 0 \<or> p = NULL then h
      else
        let chunk = p - HEADER_SIZE;
            nxt = lnext (lists h chunk);
            prv = lprev (lists h chunk);
            used_size = memory_chunk_size h chunk;
            h1 = h\<lparr>kheap_mem_used := kheap_mem_used h - used_size\<rparr>;
            h2 = (if used h1 nxt = 0
                  then let g = remove_free nxt h1
                       in g\<lparr>lists := list_remove (lists g) nxt,
                            mem_meta := mem_meta g - HEADER_SIZE,
                            mem_free := mem_free g + HEADER_SIZE\<rparr>
                  else h1)
        in if used h2 prv = 0
           then let g1 = remove_free prv h2;
                    g2 = g1\<lparr>lists := list_remove (lists g1) chunk\<rparr>;
                    g3 = push_free prv g2
                in g3\<lparr>mem_meta := mem_meta g3 - HEADER_SIZE,
                      mem_free := mem_free g3 + HEADER_SIZE\<rparr>
           else let g1 = h2\<lparr>used := (used h2)(chunk := 0)\<rparr>;
                    g2 = g1\<lparr>lists := list_init (lists g1) (free_of chunk)\<rparr>
                in push_free chunk g2)"

section \<open>Size classes\<close>

text \<open>The size-class loop computes the binary logarithm.\<close>

lemma slot_loop_log:
  "0 < sz \<Longrightarrow> \<exists>k. slot_loop sz n = n + 1 + int k \<and> 2 ^ k \<le> unat sz \<and> unat sz < 2 ^ Suc k"
proof (induction sz n rule: slot_loop.induct)
  case (1 sz n)
  show ?case
  proof (cases "0 < sz div 2")
    case True
    with 1 obtain k where k: "slot_loop (sz div 2) (n + 1) = n + 1 + 1 + int k"
      "2 ^ k \<le> unat (sz div 2)" "unat (sz div 2) < 2 ^ Suc k" by blast
    then have "slot_loop sz n = n + 1 + int (Suc k)"
      using 1 by (simp add: slot_loop.simps [of sz n])
    moreover have "2 ^ Suc k \<le> unat sz" "unat sz < 2 ^ Suc (Suc k)"
      using k(2,3) by (simp_all add: unat_div)
    ultimately show ?thesis by blast
  next
    case False
    then have z: "sz div 2 = 0" by (simp add: word_gt_0)
    then have "unat (sz div 2) = 0" by simp
    then have "unat sz div 2 = 0" by (simp add: unat_div)
    moreover have "unat sz \<noteq> 0" using 1(2) by (simp add: unat_eq_0)
    ultimately have "unat sz = 1" by linarith
    then show ?thesis using 1(2) z
      by (intro exI [of _ 0]) (simp add: slot_loop.simps [of sz n] slot_loop.simps [of 0])
  qed
qed

section \<open>Rings\<close>

definition store_of :: "(ptr \<Rightarrow> list_t) \<Rightarrow> (ptr \<rightharpoonup> list_t)" where
  "store_of L = (\<lambda>p. Some (L p))"

lemma store_of_upd [simp]: "store_of (L(p := v)) = (store_of L)(p \<mapsto> v)"
  by (auto simp: store_of_def)

lemma store_of_apply [simp]: "store_of L p = Some (L p)"
  by (simp add: store_of_def)

text \<open>\<open>ring L xs\<close>: the nodes \<open>xs\<close>, in this order, form a circular doubly linked list.\<close>

definition ring :: "(ptr \<Rightarrow> list_t) \<Rightarrow> ptr list \<Rightarrow> bool" where
  "ring L xs \<longleftrightarrow> distinct xs \<and>
     (xs \<noteq> [] \<longrightarrow> dseg lnext lprev (store_of L) (last xs) xs (hd xs))"

lemma ring_Nil [simp]: "ring L []"
  by (simp add: ring_def)

lemma ring_Cons:
  "ring L (x # xs) \<longleftrightarrow>
     distinct (x # xs) \<and> x \<noteq> NULL \<and> lprev (L x) = lastp x xs \<and> lnext (L x) = hdp xs x \<and>
     dseg lnext lprev (store_of L) x xs x"
  by (auto simp: ring_def lastp_def)

lemma ring_rotate: "ring L (xs @ [x]) \<longleftrightarrow> ring L (x # xs)"
proof (cases xs)
  case (Cons y ys)
  then show ?thesis by (auto simp: ring_def lastp_def)
qed simp

lemma ring_rotate_append: "ring L (xs @ ys) \<longleftrightarrow> ring L (ys @ xs)"
proof (induction xs arbitrary: ys)
  case (Cons x xs)
  from Cons [of "ys @ [x]"] show ?case
    by (simp add: ring_rotate [of L "xs @ ys" x, symmetric])
qed simp

lemma ring_cong: "(\<And>x. x \<in> set xs \<Longrightarrow> L' x = L x) \<Longrightarrow> ring L' xs = ring L xs"
  by (simp add: ring_def dseg_cong [of xs "store_of L'" "store_of L"] cong: conj_cong)

lemmas list_prim_defs = set_lnext_def set_lprev_def list_init_def insert_before_def
  insert_after_def list_remove_def Let_def

lemma ring_list_init: "n \<noteq> NULL \<Longrightarrow> ring (list_init L n) [n]"
  by (simp add: ring_Cons list_prim_defs)

text \<open>Linking a lone node into a ring, before or after one of its nodes.\<close>

lemma ring_insert_before:
  assumes "ring L (c # xs)" "ring L [n]" "n \<notin> set (c # xs)"
  shows "ring (insert_before L c n) (n # c # xs)"
proof (cases xs rule: rev_cases)
  case Nil
  with assms show ?thesis by (auto simp: ring_Cons list_prim_defs)
next
  case (snoc ys l)
  with assms show ?thesis by (auto simp: ring_Cons list_prim_defs)
qed

lemma ring_insert_after:
  assumes "ring L (c # xs)" "ring L [n]" "n \<notin> set (c # xs)"
  shows "ring (insert_after L c n) (c # n # xs)"
proof (cases xs)
  case Nil
  with assms show ?thesis by (auto simp: ring_Cons list_prim_defs)
next
  case (Cons y ys)
  with assms show ?thesis by (auto simp: ring_Cons list_prim_defs)
qed

text \<open>Unlinking a node leaves the ring of the others and the node alone.\<close>

lemma ring_list_remove:
  assumes "ring L (x # xs)"
  shows "ring (list_remove L x) xs \<and> ring (list_remove L x) [x]"
proof (cases xs)
  case Nil
  with assms show ?thesis by (auto simp: ring_Cons list_prim_defs)
next
  case (Cons y ys)
  show ?thesis
  proof (cases ys rule: rev_cases)
    case Nil
    with Cons assms show ?thesis by (auto simp: ring_Cons list_prim_defs)
  next
    case (snoc zs l)
    with Cons assms show ?thesis by (auto simp: ring_Cons list_prim_defs)
  qed
qed

lemma list_remove_frame:
  assumes "ring L (x # xs)" "p \<notin> set (x # xs)"
  shows "list_remove L x p = L p"
proof -
  have "lprev (L x) \<in> set (x # xs)" "lnext (L x) \<in> set (x # xs)"
    using assms(1) lastp_in_set [of xs x] hdp_in_set [of xs x]
    by (cases "xs = []"; simp add: ring_Cons)+
  with assms show ?thesis by (auto simp: list_prim_defs)
qed

text \<open>Memory before \<^verbatim>\<open>kheap_init\<close>: the allocator's globals are zero.\<close>

definition blank_heap :: kheap where
  "blank_heap = \<lparr>kh_init = 0, lists = (\<lambda>_. \<lparr>lnext = 0, lprev = 0\<rparr>), used = (\<lambda>_. 0),
     free_chunk = (\<lambda>_. 0), first_chunk = 0, last_chunk = 0,
     mem_free = 0, kheap_mem_used = 0, mem_meta = 0\<rparr>"

section \<open>Properties\<close>

text \<open>The size class of a chunk is the binary logarithm of its size: a non-empty chunk of
  \<open>sz\<close> bytes goes to a class \<open>n\<close> of the 32-entry table with \<open>2^n \<le> sz < 2^(n+1)\<close>.\<close>

theorem memory_chunk_slot_log2:
  assumes "0 < sz"
  shows "0 \<le> memory_chunk_slot sz \<and> memory_chunk_slot sz < NUM_SIZES \<and>
         2 ^ nat (memory_chunk_slot sz) \<le> unat sz \<and> unat sz < 2 ^ Suc (nat (memory_chunk_slot sz))"
proof -
  obtain k where k: "memory_chunk_slot sz = int k" "2 ^ k \<le> unat sz" "unat sz < 2 ^ Suc k"
    using slot_loop_log [OF assms, of "-1"] by (auto simp: memory_chunk_slot_def)
  have "(2::nat) ^ k < 2 ^ 32" using k(2) unsigned_less [of sz, where 'a = nat] by simp
  then have "k < 32" by (rule power_less_imp_less_exp [rotated]) simp
  with k show ?thesis by (simp add: NUM_SIZES_def)
qed

theorem memory_chunk_slot_log2_witness:
  "0 < (200 :: u32) \<and> 2 ^ nat (memory_chunk_slot 200) \<le> unat (200 :: u32)"
  using memory_chunk_slot_log2 [of 200] by simp

text \<open>Popping the head of a ring of free chunks returns that chunk, leaves the ring of the
  others as the free list, and leaves the chunk's \<open>free\<close> links pointing at themselves, so that the
  first word of the payload holds the payload's own address, which is what \<^verbatim>\<open>kmalloc\<close> returns when
  it reads \<^verbatim>\<open>chunk->data\<close>.\<close>

theorem LIST_POP_free_ring:
  assumes "ring L (map free_of (c # cs))"
  shows "\<exists>L'. LIST_POP L c = (L', hdp cs NULL, c) \<and> ring L' (map free_of cs) \<and>
           lnext (L' (free_of c)) = free_of c \<and>
           (\<forall>p. p \<notin> free_of ` set (c # cs) \<longrightarrow> L' p = L p)"
proof (intro exI conjI allI impI)
  let ?L' = "list_remove L (free_of c)"
  have r: "ring L (free_of c # map free_of cs)" using assms by simp
  from ring_list_remove [OF this] show "ring ?L' (map free_of cs)" by simp
  from ring_list_remove [OF r] show "lnext (?L' (free_of c)) = free_of c"
    by (simp add: ring_Cons)
  show "?L' p = L p" if "p \<notin> free_of ` set (c # cs)" for p
    using list_remove_frame [OF r, of p] that by auto
  show "LIST_POP L c = (?L', hdp cs NULL, c)"
    using r by (cases cs) (auto simp: ring_Cons LIST_POP_def list_pop_def chunk_of_free_def free_of_def Let_def)
qed

theorem LIST_POP_free_ring_witness:
  "\<exists>L'. LIST_POP (list_init (\<lambda>_. \<lparr>lnext = 0, lprev = 0\<rparr>) 0x1020) 0x1014 = (L', NULL, 0x1014)"
  using LIST_POP_free_ring [of "list_init (\<lambda>_. \<lparr>lnext = 0, lprev = 0\<rparr>) 0x1020" "0x1014" "[]"]
    ring_list_init [of "0x1020"] by (auto simp: free_of_def HEADER_SIZE_def)

text \<open>The rounding in \<^verbatim>\<open>kmalloc\<close> overflows: a request of more than \<open>2^32 - 4\<close> bytes is served as
  a request for the minimal size instead of being refused.\<close>

theorem kmalloc_request_overflow:
  assumes "0xFFFFFFFD \<le> sz"
  shows "kmalloc sz h = kmalloc 8 h"
proof -
  have "unat (0xFFFFFFFD :: u32) \<le> unat sz" using assms by (simp add: word_le_nat_alt)
  then have "unat sz \<in> {4294967293, 4294967294, 4294967295}" using unsigned_less [of sz, where 'a = nat] by auto
  then have "sz \<in> {0xFFFFFFFD, 0xFFFFFFFE, 0xFFFFFFFF}"
    by (auto simp: word_unat_eq_iff)
  then have "request_size sz = request_size 8"
    by (auto simp: request_size_def Let_def heap_enum_defs)
  then show ?thesis by (simp add: kmalloc_def)
qed

theorem kmalloc_request_overflow_witness:
  "(0xFFFFFFFD :: u32) \<le> 0xFFFFFFFF \<and> kmalloc 0xFFFFFFFF blank_heap = kmalloc 8 blank_heap"
  using kmalloc_request_overflow [of "0xFFFFFFFF" blank_heap] by simp

text \<open>The usage counter drifts: on a fresh heap whose only free chunk has 132 bytes, allocating
  128 bytes (too little is left to split the chunk) and releasing them again brings
  \<^verbatim>\<open>kheap_mem_used\<close> from 0 to \<open>2^32 - 12\<close>, because \<^verbatim>\<open>kmalloc\<close> adds the chunk size less the header
  while \<^verbatim>\<open>kfree\<close> subtracts the whole chunk size.\<close>

theorem kheap_mem_used_drift:
  "let h = snd (kheap_init 0x1000 0x10B8 blank_heap);
       (p, h1) = kmalloc 128 h;
       h2 = kfree p h1
   in kheap_mem_used h = 0 \<and> p = 0x1020 \<and> kheap_mem_used h2 = - 12"
  by code_simp

end
