(* ===== verification/Fifo.thy ===== *)
theory Fifo
  imports Prelude
begin

text \<open>
  The FIFO contract, which the linked kernel queue (\<^verbatim>\<open>core/kernel_queue.c\<close>, elements are nodes) promises to the
  scheduler and the synchronisation objects. A provider gives a representation relation (the list is
  oldest first), a predicate saying which elements may still be inserted, and the two operations; what a
  client may conclude, that elements come out in the order they went in, is proved once here.
\<close>

locale fifo =
  fixes repr :: "'s \<Rightarrow> 'a list \<Rightarrow> bool"
    and can_enq :: "'s \<Rightarrow> 'a list \<Rightarrow> bool"
    and enq :: "'a \<Rightarrow> 's \<Rightarrow> 's outcome"
    and deq :: "'s \<Rightarrow> ('a \<times> 's) outcome"
  assumes enq_law: "repr s xs \<Longrightarrow> can_enq s (z # zs) \<Longrightarrow>
      \<exists>s'. enq z s = Ok s' \<and> repr s' (xs @ [z]) \<and> can_enq s' zs"
    and deq_law: "repr s (x # xs) \<Longrightarrow> \<exists>s'. deq s = Ok (x, s') \<and> repr s' xs"
begin

primrec enq_all :: "'a list \<Rightarrow> 's \<Rightarrow> 's outcome" where
  "enq_all [] s = Ok s"
| "enq_all (z # zs) s = andthen (enq z s) (enq_all zs)"

primrec deq_many :: "nat \<Rightarrow> 's \<Rightarrow> ('a list \<times> 's) outcome" where
  "deq_many 0 s = Ok ([], s)"
| "deq_many (Suc k) s =
     andthen (deq s) (\<lambda>(x, s1). andthen (deq_many k s1) (\<lambda>(xs, s2). Ok (x # xs, s2)))"

lemma enq_all_repr:
  "repr s xs \<Longrightarrow> can_enq s zs \<Longrightarrow> \<exists>s'. enq_all zs s = Ok s' \<and> repr s' (xs @ zs)"
proof (induction zs arbitrary: s xs)
  case (Cons z zs)
  from enq_law [OF Cons.prems] obtain s1
    where s1: "enq z s = Ok s1" "repr s1 (xs @ [z])" "can_enq s1 zs" by blast
  from Cons.IH [OF s1(2,3)] s1(1) show ?case by simp
qed auto

lemma deq_many_repr:
  "repr s (xs @ ys) \<Longrightarrow> \<exists>s'. deq_many (length xs) s = Ok (xs, s') \<and> repr s' ys"
proof (induction xs arbitrary: s)
  case (Cons x xs)
  then have "repr s (x # (xs @ ys))" by simp
  from deq_law [OF this] obtain s1 where s1: "deq s = Ok (x, s1)" "repr s1 (xs @ ys)" by blast
  from Cons.IH [OF s1(2)] s1(1) show ?case by auto
qed auto

text \<open>First in, first out.\<close>

lemma enq_deq_order:
  assumes "repr s xs" "can_enq s zs"
  shows "\<exists>s' s''. enq_all zs s = Ok s' \<and> deq_many (length xs + length zs) s' = Ok (xs @ zs, s'') \<and>
           repr s'' []"
proof -
  from enq_all_repr [OF assms] obtain s' where s': "enq_all zs s = Ok s'" "repr s' (xs @ zs)" by blast
  from deq_many_repr [of s' "xs @ zs" "[]"] s' show ?thesis by auto
qed

end

end
