(* ===== verification/KernelQueue.thy ===== *)
theory KernelQueue
  imports Kheap Fifo
begin

text \<open>
  The kernel queues, \<^verbatim>\<open>Sources/core/kernel_queue.c\<close>: doubly linked lists of nodes used by the
  scheduler and by the synchronisation objects, either as FIFO queues (\<open>kernel_queue_push\<close>,
  \<open>kernel_queue_pop\<close>) or as queues ordered by decreasing priority (\<open>kernel_queue_push_prio\<close>).
  Nodes and queues live in stores addressed by pointers, so aliasing and dangling pointers are
  visible; the heap allocator of \<open>Kheap\<close> hands out the addresses. The bodies between
  \<^verbatim>\<open>ENTER_CRITICAL\<close> and \<^verbatim>\<open>EXIT_CRITICAL\<close> are one atomic step (theory \<open>Critical\<close> models the locks).

  The abstraction is \<open>kq_rel s L\<close>: every queue \<open>q\<close> of the state represents the list \<open>L q\<close> of its
  nodes from head to tail, and no node is in two queues. Each operation refines a list operation.
\<close>

section \<open>State\<close>

record kq_node =
  kq_next :: ptr
  kq_prev :: ptr
  enlisted :: u16
  priority :: u32
  kq_data :: ptr

record kernel_queue =
  head :: ptr
  tail :: ptr
  kq_size :: u32

record kq_state =
  heap :: kheap
  nodes :: "ptr \<rightharpoonup> kq_node"
  queues :: "ptr \<rightharpoonup> kernel_queue"

text \<open>Object sizes on i386 (the queue holds a three-word spinlock).\<close>

definition sizeof_kernel_queue_node :: u32 where "sizeof_kernel_queue_node = 20"
definition sizeof_kernel_queue :: u32 where "sizeof_kernel_queue = 24"

section \<open>Operations\<close>

definition kernel_queue_create_node :: "ptr \<Rightarrow> kq_state \<Rightarrow> ptr \<times> OS_RETURN_E \<times> kq_state" where
  "kernel_queue_create_node data s =
     (let (new_node, h) = kmalloc sizeof_kernel_queue_node (heap s);
          s1 = s\<lparr>heap := h\<rparr>
      in if new_node = NULL then (NULL, OS_ERR_MALLOC, s1)
         else (new_node, OS_NO_ERR,
               s1\<lparr>nodes := (nodes s1)(new_node \<mapsto>
                    \<lparr>kq_next = NULL, kq_prev = NULL, enlisted = 0, priority = 0,
                     kq_data = data\<rparr>)\<rparr>))"

text \<open>\<^verbatim>\<open>kernel_queue_delete_node(&node)\<close>: the argument is the value of the caller's variable, its new
  value is part of the result.\<close>

definition kernel_queue_delete_node ::
    "ptr \<Rightarrow> kq_state \<Rightarrow> (OS_RETURN_E \<times> ptr \<times> kq_state) outcome" where
  "kernel_queue_delete_node node s =
     (if node = NULL then Ok (OS_ERR_NULL_POINTER, node, s)
      else andthen (deref (nodes s) node) (\<lambda>n.
        if enlisted n \<noteq> 0 then Ok (OS_ERR_UNAUTHORIZED_ACTION, node, s)
        else Ok (OS_NO_ERR, NULL,
                 s\<lparr>heap := kfree node (heap s), nodes := (nodes s)(node := None)\<rparr>)))"

definition kernel_queue_create_queue :: "kq_state \<Rightarrow> ptr \<times> OS_RETURN_E \<times> kq_state" where
  "kernel_queue_create_queue s =
     (let (newqueue, h) = kmalloc sizeof_kernel_queue (heap s);
          s1 = s\<lparr>heap := h\<rparr>
      in if newqueue = NULL then (NULL, OS_ERR_MALLOC, s1)
         else (newqueue, OS_NO_ERR,
               s1\<lparr>queues := (queues s1)(newqueue \<mapsto>
                    \<lparr>head = NULL, tail = NULL, kq_size = 0\<rparr>)\<rparr>))"

definition kernel_queue_delete_queue ::
    "ptr \<Rightarrow> kq_state \<Rightarrow> (OS_RETURN_E \<times> ptr \<times> kq_state) outcome" where
  "kernel_queue_delete_queue queue s =
     (if queue = NULL then Ok (OS_ERR_NULL_POINTER, queue, s)
      else andthen (deref (queues s) queue) (\<lambda>q.
        if head q \<noteq> NULL \<or> tail q \<noteq> NULL then Ok (OS_ERR_UNAUTHORIZED_ACTION, queue, s)
        else Ok (OS_NO_ERR, NULL,
                 s\<lparr>heap := kfree queue (heap s), queues := (queues s)(queue := None)\<rparr>)))"

text \<open>The end of both insertions: count the node, mark it enlisted, and panic when its two links
  are the same node.\<close>

definition kq_enlist ::
    "ptr \<Rightarrow> ptr \<Rightarrow> kq_state \<Rightarrow> (ptr \<rightharpoonup> kq_node) \<times> kernel_queue \<Rightarrow> (OS_RETURN_E \<times> kq_state) outcome"
where
  "kq_enlist node queue s = (\<lambda>(ns, q).
     andthen (modify ns node (\<lambda>n. n\<lparr>enlisted := 1\<rparr>)) (\<lambda>ns'.
     andthen (deref ns' node) (\<lambda>n.
       if kq_next n \<noteq> NULL \<and> kq_prev n \<noteq> NULL \<and> kq_next n = kq_prev n
       then Panic OS_ERR_UNAUTHORIZED_ACTION
       else Ok (OS_NO_ERR,
                s\<lparr>nodes := ns',
                  queues := (queues s)(queue \<mapsto> q\<lparr>kq_size := kq_size q + 1\<rparr>)\<rparr>))))"

definition kernel_queue_push ::
    "ptr \<Rightarrow> ptr \<Rightarrow> kq_state \<Rightarrow> (OS_RETURN_E \<times> kq_state) outcome" where
  "kernel_queue_push node queue s =
     (if node = NULL \<or> queue = NULL then Ok (OS_ERR_NULL_POINTER, s)
      else andthen (deref (queues s) queue) (\<lambda>q.
        andthen
          (if head q = NULL
           then andthen (modify (nodes s) node (\<lambda>n. n\<lparr>kq_next := NULL, kq_prev := NULL\<rparr>)) (\<lambda>ns.
                Ok (ns, q\<lparr>head := node, tail := node\<rparr>))
           else andthen (modify (nodes s) node (\<lambda>n. n\<lparr>kq_next := head q, kq_prev := NULL\<rparr>)) (\<lambda>ns.
                andthen (modify ns (head q) (\<lambda>n. n\<lparr>kq_prev := node\<rparr>)) (\<lambda>ns'.
                Ok (ns', q\<lparr>head := node\<rparr>))))
          (kq_enlist node queue s)))"

definition kernel_queue_push_prio ::
    "ptr \<Rightarrow> ptr \<Rightarrow> u32 \<Rightarrow> kq_state \<Rightarrow> (OS_RETURN_E \<times> kq_state) outcome" where
  "kernel_queue_push_prio node queue prio s =
     (if node = NULL \<or> queue = NULL then Ok (OS_ERR_NULL_POINTER, s)
      else andthen (deref (queues s) queue) (\<lambda>q.
        andthen (modify (nodes s) node (\<lambda>n. n\<lparr>priority := prio\<rparr>)) (\<lambda>ns0.
        andthen
          (if head q = NULL
           then andthen (modify ns0 node (\<lambda>n. n\<lparr>kq_next := NULL, kq_prev := NULL\<rparr>)) (\<lambda>ns.
                Ok (ns, q\<lparr>head := node, tail := node\<rparr>))
           else andthen (returned (walk kq_next (\<lambda>_ n. priority n > prio) ns0 (head q))) (\<lambda>cursor.
             if cursor \<noteq> NULL
             then andthen (deref ns0 cursor) (\<lambda>c.
                  andthen (modify ns0 node (\<lambda>n. n\<lparr>kq_next := cursor, kq_prev := kq_prev c\<rparr>)) (\<lambda>ns1.
                  andthen (modify ns1 cursor (\<lambda>n. n\<lparr>kq_prev := node\<rparr>)) (\<lambda>ns2.
                  andthen (deref ns2 node) (\<lambda>n2.
                    if kq_prev n2 \<noteq> NULL
                    then andthen (modify ns2 (kq_prev n2) (\<lambda>n. n\<lparr>kq_next := node\<rparr>)) (\<lambda>ns3.
                         Ok (ns3, q))
                    else Ok (ns2, q\<lparr>head := node\<rparr>)))))
             else andthen (modify ns0 node (\<lambda>n. n\<lparr>kq_next := NULL, kq_prev := tail q\<rparr>)) (\<lambda>ns1.
                  andthen (modify ns1 (tail q) (\<lambda>n. n\<lparr>kq_next := node\<rparr>)) (\<lambda>ns2.
                  Ok (ns2, q\<lparr>tail := node\<rparr>)))))
          (kq_enlist node queue s))))"

definition kernel_queue_pop ::
    "ptr \<Rightarrow> kq_state \<Rightarrow> (ptr \<times> OS_RETURN_E \<times> kq_state) outcome" where
  "kernel_queue_pop queue s =
     (if queue = NULL then Ok (NULL, OS_ERR_NULL_POINTER, s)
      else andthen (deref (queues s) queue) (\<lambda>q.
        if head q = NULL then Ok (NULL, OS_NO_ERR, s)
        else
          let node = tail q
          in andthen (deref (nodes s) node) (\<lambda>n.
             andthen
               (if kq_prev n \<noteq> NULL
                then andthen (modify (nodes s) (kq_prev n) (\<lambda>m. m\<lparr>kq_next := NULL\<rparr>)) (\<lambda>ns.
                     Ok (ns, q\<lparr>tail := kq_prev n\<rparr>))
                else Ok (nodes s, q\<lparr>head := NULL, tail := NULL\<rparr>))
               (\<lambda>(ns, q1).
             andthen (modify ns node (\<lambda>m. m\<lparr>kq_next := NULL, kq_prev := NULL, enlisted := 0\<rparr>)) (\<lambda>ns'.
             Ok (node, OS_NO_ERR,
                 s\<lparr>nodes := ns',
                   queues := (queues s)(queue \<mapsto> q1\<lparr>kq_size := kq_size q1 - 1\<rparr>)\<rparr>))))))"

definition kernel_queue_find ::
    "ptr \<Rightarrow> ptr \<Rightarrow> kq_state \<Rightarrow> (ptr \<times> OS_RETURN_E) outcome" where
  "kernel_queue_find queue data s =
     (if queue = NULL then Ok (NULL, OS_ERR_NULL_POINTER)
      else andthen (deref (queues s) queue) (\<lambda>q.
        andthen (returned (walk kq_next (\<lambda>_ n. kq_data n \<noteq> data) (nodes s) (head q))) (\<lambda>node.
          if node = NULL then Ok (NULL, OS_ERR_NO_SUCH_ID) else Ok (node, OS_NO_ERR))))"

definition kernel_queue_remove ::
    "ptr \<Rightarrow> ptr \<Rightarrow> kq_state \<Rightarrow> (OS_RETURN_E \<times> kq_state) outcome" where
  "kernel_queue_remove queue node s =
     (if queue = NULL \<or> node = NULL then Ok (OS_ERR_NULL_POINTER, s)
      else andthen (deref (queues s) queue) (\<lambda>q.
        andthen (returned (walk kq_next (\<lambda>x _. x \<noteq> node) (nodes s) (head q))) (\<lambda>cursor.
          if cursor = NULL then Ok (OS_ERR_NO_SUCH_ID, s)
          else andthen (deref (nodes s) cursor) (\<lambda>c.
            andthen
              (if kq_prev c \<noteq> NULL \<and> kq_next c \<noteq> NULL
               then andthen (modify (nodes s) (kq_prev c) (\<lambda>m. m\<lparr>kq_next := kq_next c\<rparr>)) (\<lambda>ns.
                    andthen (modify ns (kq_next c) (\<lambda>m. m\<lparr>kq_prev := kq_prev c\<rparr>)) (\<lambda>ns'.
                    Ok (ns', q)))
               else if kq_prev c = NULL \<and> kq_next c \<noteq> NULL
               then andthen (modify (nodes s) (kq_next c) (\<lambda>m. m\<lparr>kq_prev := NULL\<rparr>)) (\<lambda>ns.
                    Ok (ns, q\<lparr>head := kq_next c\<rparr>))
               else if kq_prev c \<noteq> NULL \<and> kq_next c = NULL
               then andthen (modify (nodes s) (kq_prev c) (\<lambda>m. m\<lparr>kq_next := NULL\<rparr>)) (\<lambda>ns.
                    Ok (ns, q\<lparr>tail := kq_prev c\<rparr>))
               else Ok (nodes s, q\<lparr>head := NULL, tail := NULL\<rparr>))
              (\<lambda>(ns, q1).
            andthen (modify ns node (\<lambda>m. m\<lparr>kq_next := NULL, kq_prev := NULL, enlisted := 0\<rparr>)) (\<lambda>ns'.
            Ok (OS_NO_ERR, s\<lparr>nodes := ns', queues := (queues s)(queue \<mapsto> q1)\<rparr>)))))))"

section \<open>Abstraction to lists\<close>

definition kq_repr :: "(ptr \<rightharpoonup> kq_node) \<Rightarrow> kernel_queue \<Rightarrow> ptr list \<Rightarrow> bool" where
  "kq_repr m q xs \<longleftrightarrow>
     distinct xs \<and> dseg kq_next kq_prev m NULL xs NULL \<and>
     head q = hdp xs NULL \<and> tail q = lastp NULL xs"

definition kq_rel :: "kq_state \<Rightarrow> (ptr \<rightharpoonup> ptr list) \<Rightarrow> bool" where
  "kq_rel s L \<longleftrightarrow>
     dom L = dom (queues s) \<and> queues s NULL = None \<and> nodes s NULL = None \<and>
     (\<forall>q xs. L q = Some xs \<longrightarrow> kq_repr (nodes s) (the (queues s q)) xs) \<and>
     (\<forall>q q' xs xs'. L q = Some xs \<longrightarrow> L q' = Some xs' \<longrightarrow> q \<noteq> q' \<longrightarrow> set xs \<inter> set xs' = {}) \<and>
     (\<forall>x n. nodes s x = Some n \<longrightarrow>
        (enlisted n \<noteq> 0 \<longleftrightarrow> (\<exists>q xs. L q = Some xs \<and> x \<in> set xs)))"

text \<open>What insertions, removals and searches never change: the payloads of the nodes and the heap.\<close>

definition kq_frame :: "kq_state \<Rightarrow> kq_state \<Rightarrow> bool" where
  "kq_frame s s' \<longleftrightarrow>
     heap s' = heap s \<and>
     (\<forall>x. map_option kq_data (nodes s' x) = map_option kq_data (nodes s x)) \<and>
     dom (queues s') = dom (queues s)"

text \<open>The position at which \<open>kernel_queue_push_prio\<close> inserts.\<close>

definition prio_insert :: "(ptr \<Rightarrow> u32) \<Rightarrow> u32 \<Rightarrow> ptr \<Rightarrow> ptr list \<Rightarrow> ptr list" where
  "prio_insert pr p n xs =
     takeWhile (\<lambda>x. pr x > p) xs @ n # dropWhile (\<lambda>x. pr x > p) xs"

definition node_prio :: "kq_state \<Rightarrow> ptr \<Rightarrow> u32" where
  "node_prio s x = (case nodes s x of None \<Rightarrow> 0 | Some n \<Rightarrow> priority n)"

section \<open>Refinement of the operations\<close>

lemma kq_relE:
  assumes "kq_rel s L" "L q = Some xs"
  obtains r where "queues s q = Some r" "kq_repr (nodes s) r xs" "q \<noteq> NULL"
    "distinct xs" "dseg kq_next kq_prev (nodes s) NULL xs NULL"
    "head r = hdp xs NULL" "tail r = lastp NULL xs" "NULL \<notin> set xs"
proof -
  from assms obtain r where r: "queues s q = Some r"
    unfolding kq_rel_def by (metis domD domI)
  with assms have rep: "kq_repr (nodes s) r xs"
    unfolding kq_rel_def by (metis option.sel)
  moreover from assms r have "q \<noteq> NULL" unfolding kq_rel_def by auto
  moreover from rep have "NULL \<notin> set xs"
    unfolding kq_repr_def by (metis dseg_not_NULL)
  ultimately show thesis using r that by (auto simp: kq_repr_def)
qed

lemma kq_rel_enlisted:
  "kq_rel s L \<Longrightarrow> nodes s x = Some n \<Longrightarrow> enlisted n = 0 \<Longrightarrow> L q = Some xs \<Longrightarrow> x \<notin> set xs"
  unfolding kq_rel_def by blast

lemma kq_rel_member:
  "kq_rel s L \<Longrightarrow> L q = Some xs \<Longrightarrow> x \<in> set xs \<Longrightarrow>
     \<exists>n. nodes s x = Some n \<and> enlisted n \<noteq> 0 \<and> x \<noteq> NULL"
  using dseg_mapped [of kq_next kq_prev "nodes s" NULL xs NULL x] dseg_not_NULL [of kq_next kq_prev "nodes s" NULL xs NULL x]
  unfolding kq_rel_def kq_repr_def by fastforce

lemma kq_rel_disjoint:
  "kq_rel s L \<Longrightarrow> L q = Some xs \<Longrightarrow> L q' = Some ys \<Longrightarrow> q \<noteq> q' \<Longrightarrow> set xs \<inter> set ys = {}"
  unfolding kq_rel_def by blast

lemma kq_repr_frame:
  "(\<And>x. x \<in> set xs \<Longrightarrow> m' x = m x) \<Longrightarrow> kq_repr m' q xs = kq_repr m q xs"
  unfolding kq_repr_def by (simp add: dseg_cong [of xs m' m])

text \<open>Replacing the list of one queue keeps the abstraction when the new list takes in only nodes
  that were in no queue and the \<open>enlisted\<close> flags of the nodes involved are right.\<close>

lemma kq_rel_upd:
  assumes rel: "kq_rel s L" and Lq: "L q = Some xs"
    and rep: "kq_repr ns r xs'"
    and fr: "\<And>x. x \<notin> set xs \<union> set xs' \<Longrightarrow> ns x = nodes s x"
    and new: "\<And>x. x \<in> set xs' \<Longrightarrow> x \<notin> set xs \<Longrightarrow> \<exists>n. nodes s x = Some n \<and> enlisted n = 0"
    and enl: "\<And>x n. x \<in> set xs \<union> set xs' \<Longrightarrow> ns x = Some n \<Longrightarrow> enlisted n \<noteq> 0 \<longleftrightarrow> x \<in> set xs'"
  shows "kq_rel (s\<lparr>nodes := ns, queues := (queues s)(q \<mapsto> r)\<rparr>) (L(q \<mapsto> xs'))"
proof -
  have disj: "set ys \<inter> (set xs \<union> set xs') = {}" if "L q' = Some ys" "q' \<noteq> q" for q' ys
    using kq_rel_disjoint [OF rel that(1) Lq that(2)] kq_rel_enlisted [OF rel _ _ that(1)] new
    by fastforce
  have notin: "NULL \<notin> set xs \<union> set xs'"
    using kq_relE [OF rel Lq] rep unfolding kq_repr_def by (metis Un_iff dseg_not_NULL)
  have dom: "dom (L(q \<mapsto> xs')) = dom ((queues s)(q \<mapsto> r))" "q \<noteq> NULL"
    "((queues s)(q \<mapsto> r)) NULL = None"
    using rel kq_relE [OF rel Lq] by (auto simp: kq_rel_def)
  have nul: "ns NULL = None" using fr [OF notin] rel by (simp add: kq_rel_def)
  have reps: "kq_repr ns (the (((queues s)(q \<mapsto> r)) q')) ys" if "(L(q \<mapsto> xs')) q' = Some ys" for q' ys
  proof (cases "q' = q")
    case True
    with that rep show ?thesis by simp
  next
    case False
    with that have Lq': "L q' = Some ys" by simp
    have "ns x = nodes s x" if "x \<in> set ys" for x
      using disj [OF Lq' False] that by (intro fr) auto
    with False kq_relE [OF rel Lq'] show ?thesis
      by (metis fun_upd_apply kq_repr_frame option.sel)
  qed
  have inter: "set ys \<inter> set zs = {}"
    if "(L(q \<mapsto> xs')) q1 = Some ys" "(L(q \<mapsto> xs')) q2 = Some zs" "q1 \<noteq> q2" for q1 q2 ys zs
    using that disj kq_rel_disjoint [OF rel] by (auto split: if_splits)
  have flags: "enlisted n \<noteq> 0 \<longleftrightarrow> (\<exists>q' ys. (L(q \<mapsto> xs')) q' = Some ys \<and> x \<in> set ys)"
    if "ns x = Some n" for x n
  proof (cases "x \<in> set xs \<union> set xs'")
    case True
    with enl [OF True that] disj show ?thesis by (auto split: if_splits)
  next
    case False
    with fr that have "nodes s x = Some n" by metis
    then have "enlisted n \<noteq> 0 \<longleftrightarrow> (\<exists>q' ys. L q' = Some ys \<and> x \<in> set ys)"
      using rel unfolding kq_rel_def by blast
    moreover have "(\<exists>q' ys. (L(q \<mapsto> xs')) q' = Some ys \<and> x \<in> set ys) \<longleftrightarrow>
        (\<exists>q' ys. L q' = Some ys \<and> x \<in> set ys)"
      using False Lq by (metis Un_iff fun_upd_apply option.inject)
    ultimately show ?thesis by simp
  qed
  show ?thesis
    unfolding kq_rel_def using dom nul reps inter flags
    by simp
qed

lemma kq_push_step:
  assumes rel: "kq_rel s L" and Lq: "L q = Some xs"
    and n: "nodes s n = Some nd" "enlisted nd = 0"
  obtains s' where "kernel_queue_push n q s = Ok (OS_NO_ERR, s')"
    "kq_rel s' (L(q \<mapsto> n # xs))" "kq_frame s s'"
    "\<And>x. node_prio s' x = node_prio s x"
    "kq_size (the (queues s' q)) = kq_size (the (queues s q)) + 1"
proof -
  from kq_relE [OF rel Lq] obtain r where r: "queues s q = Some r" "q \<noteq> NULL" "distinct xs"
    "dseg kq_next kq_prev (nodes s) NULL xs NULL" "head r = hdp xs NULL"
    "tail r = lastp NULL xs" "NULL \<notin> set xs" .
  have nx: "n \<notin> set xs" using kq_rel_enlisted [OF rel n Lq] .
  have n0: "n \<noteq> NULL" using rel n by (auto simp: kq_rel_def)
  show thesis
  proof (cases xs)
    case Nil
    let ?ns = "(nodes s)(n \<mapsto> nd\<lparr>kq_next := NULL, kq_prev := NULL, enlisted := 1\<rparr>)"
    let ?r = "r\<lparr>head := n, tail := n, kq_size := kq_size r + 1\<rparr>"
    have eq: "kernel_queue_push n q s =
        Ok (OS_NO_ERR, s\<lparr>nodes := ?ns, queues := (queues s)(q \<mapsto> ?r)\<rparr>)"
      using r n n0 Nil by (simp add: kernel_queue_push_def kq_enlist_def store_simps)
    have rel': "kq_rel (s\<lparr>nodes := ?ns, queues := (queues s)(q \<mapsto> ?r)\<rparr>) (L(q \<mapsto> n # xs))"
      using n n0 Nil by (intro kq_rel_upd [OF rel Lq]) (auto simp: kq_repr_def)
    show thesis
      by (rule that [OF eq rel']) (use r n in \<open>auto simp: kq_frame_def node_prio_def\<close>)
  next
    case (Cons h ys)
    from Cons r obtain hn where hn: "nodes s h = Some hn" "h \<noteq> NULL" by auto
    have nh: "n \<noteq> h" using nx Cons by auto
    have hys: "h \<notin> set ys" using r Cons by auto
    let ?ns = "(nodes s)(n \<mapsto> nd\<lparr>kq_next := h, kq_prev := NULL, enlisted := 1\<rparr>, h \<mapsto> hn\<lparr>kq_prev := n\<rparr>)"
    let ?r = "r\<lparr>head := n, kq_size := kq_size r + 1\<rparr>"
    have eq: "kernel_queue_push n q s =
        Ok (OS_NO_ERR, s\<lparr>nodes := ?ns, queues := (queues s)(q \<mapsto> ?r)\<rparr>)"
      using r n n0 hn nh Cons
      by (simp add: kernel_queue_push_def kq_enlist_def store_simps fun_upd_twist)
    have "enlisted hn \<noteq> 0" "\<And>x m. x \<in> set ys \<Longrightarrow> nodes s x = Some m \<Longrightarrow> enlisted m \<noteq> 0"
      using kq_rel_member [OF rel Lq] Cons hn by fastforce+
    then have rel': "kq_rel (s\<lparr>nodes := ?ns, queues := (queues s)(q \<mapsto> ?r)\<rparr>) (L(q \<mapsto> n # xs))"
      using n n0 nx hys Cons r hn by (intro kq_rel_upd [OF rel Lq]) (auto simp: kq_repr_def split: if_splits)
    show thesis
      by (rule that [OF eq rel']) (use r n hn in \<open>auto simp: kq_frame_def node_prio_def\<close>)
  qed
qed

lemma kq_pop_empty:
  assumes "kq_rel s L" "L q = Some []"
  shows "kernel_queue_pop q s = Ok (NULL, OS_NO_ERR, s)"
proof -
  from kq_relE [OF assms] obtain r where "queues s q = Some r" "q \<noteq> NULL" "head r = hdp [] NULL" .
  then show ?thesis by (simp add: kernel_queue_pop_def store_simps)
qed

lemma kq_pop_step:
  assumes rel: "kq_rel s L" and Lq: "L q = Some (xs @ [n])"
  obtains s' nd where "kernel_queue_pop q s = Ok (n, OS_NO_ERR, s')"
    "kq_rel s' (L(q \<mapsto> xs))" "kq_frame s s'"
    "nodes s' n = Some nd" "enlisted nd = 0" "n \<noteq> NULL"
    "\<And>x. node_prio s' x = node_prio s x"
    "kq_size (the (queues s' q)) = kq_size (the (queues s q)) - 1"
proof -
  from kq_relE [OF rel Lq] obtain r where r: "queues s q = Some r" "q \<noteq> NULL" "distinct (xs @ [n])"
    "dseg kq_next kq_prev (nodes s) NULL (xs @ [n]) NULL" "head r = hdp (xs @ [n]) NULL"
    "tail r = lastp NULL (xs @ [n])" "NULL \<notin> set (xs @ [n])" .
  from r obtain nd where n: "nodes s n = Some nd" "n \<noteq> NULL" "kq_next nd = NULL"
    "kq_prev nd = lastp NULL xs" by auto
  let ?nd = "nd\<lparr>kq_next := NULL, kq_prev := NULL, enlisted := 0\<rparr>"
  show thesis
  proof (cases xs rule: rev_cases)
    case Nil
    let ?ns = "(nodes s)(n \<mapsto> ?nd)"
    let ?r = "r\<lparr>head := NULL, tail := NULL, kq_size := kq_size r - 1\<rparr>"
    have eq: "kernel_queue_pop q s =
        Ok (n, OS_NO_ERR, s\<lparr>nodes := ?ns, queues := (queues s)(q \<mapsto> ?r)\<rparr>)"
      using r n Nil by (simp add: kernel_queue_pop_def store_simps)
    have rel': "kq_rel (s\<lparr>nodes := ?ns, queues := (queues s)(q \<mapsto> ?r)\<rparr>) (L(q \<mapsto> xs))"
      using n Nil by (intro kq_rel_upd [OF rel Lq]) (auto simp: kq_repr_def)
    show thesis
      by (rule that [OF eq rel', of ?nd]) (use r n in \<open>auto simp: kq_frame_def node_prio_def\<close>)
  next
    case (snoc ys l)
    from snoc r obtain ln where ln: "nodes s l = Some ln" "l \<noteq> NULL" by auto
    have nl: "n \<noteq> l" using snoc r by auto
    let ?ns = "(nodes s)(l \<mapsto> ln\<lparr>kq_next := NULL\<rparr>, n \<mapsto> ?nd)"
    let ?r = "r\<lparr>tail := l, kq_size := kq_size r - 1\<rparr>"
    have eq: "kernel_queue_pop q s =
        Ok (n, OS_NO_ERR, s\<lparr>nodes := ?ns, queues := (queues s)(q \<mapsto> ?r)\<rparr>)"
      using r n ln nl snoc by (cases ys) (auto simp: kernel_queue_pop_def store_simps)
    have "enlisted ln \<noteq> 0" "\<And>x m. x \<in> set ys \<Longrightarrow> nodes s x = Some m \<Longrightarrow> enlisted m \<noteq> 0"
      using kq_rel_member [OF rel Lq] snoc ln by fastforce+
    then have rel': "kq_rel (s\<lparr>nodes := ?ns, queues := (queues s)(q \<mapsto> ?r)\<rparr>) (L(q \<mapsto> xs))"
      using n snoc r ln nl by (intro kq_rel_upd [OF rel Lq]) (auto simp: kq_repr_def split: if_splits)
    show thesis
      by (rule that [OF eq rel', of ?nd]) (use r n ln nl in \<open>auto simp: kq_frame_def node_prio_def\<close>)
  qed
qed

lemma kq_find_step:
  assumes rel: "kq_rel s L" and Lq: "L q = Some xs"
  shows "kernel_queue_find q d s =
     (case dropWhile (\<lambda>x. map_option kq_data (nodes s x) \<noteq> Some d) xs of
        [] \<Rightarrow> Ok (NULL, OS_ERR_NO_SUCH_ID)
      | x # _ \<Rightarrow> Ok (x, OS_NO_ERR))"
proof -
  from kq_relE [OF rel Lq] obtain r where r: "queues s q = Some r" "q \<noteq> NULL"
    "dseg kq_next kq_prev (nodes s) NULL xs NULL" "head r = hdp xs NULL" "NULL \<notin> set xs" .
  have dw: "dropWhile (\<lambda>x. kq_data (the (nodes s x)) \<noteq> d) xs =
      dropWhile (\<lambda>x. map_option kq_data (nodes s x) \<noteq> Some d) xs"
    using dseg_mapped [OF r(3)] by (intro dropWhile_cong) fastforce+
  define ys where "ys = dropWhile (\<lambda>x. map_option kq_data (nodes s x) \<noteq> Some d) xs"
  have "ys \<noteq> [] \<Longrightarrow> hdp ys NULL \<noteq> NULL"
    using hdp_in_set [of ys NULL] set_dropWhileD r(5) unfolding ys_def by metis
  with r walk_dseg [OF r(3), of "\<lambda>_ n. kq_data n \<noteq> d"] show ?thesis
    unfolding dw ys_def [symmetric]
    by (cases ys) (auto simp: kernel_queue_find_def store_simps)
qed

lemma dropWhile_neq_eq:
  "dropWhile (\<lambda>x. x \<noteq> n) (as @ n # bs) = n # bs" if "n \<notin> set as"
  using that by (induction as) auto

lemma kq_remove_step:
  assumes rel: "kq_rel s L" and Lq: "L q = Some (as @ n # bs)"
  obtains s' nd where "kernel_queue_remove q n s = Ok (OS_NO_ERR, s')"
    "kq_rel s' (L(q \<mapsto> as @ bs))" "kq_frame s s'"
    "nodes s' n = Some nd" "enlisted nd = 0"
    "\<And>x. node_prio s' x = node_prio s x"
    "kq_size (the (queues s' q)) = kq_size (the (queues s q))"
proof -
  from kq_relE [OF rel Lq] obtain r where r: "queues s q = Some r" "q \<noteq> NULL" "distinct (as @ n # bs)"
    "dseg kq_next kq_prev (nodes s) NULL (as @ n # bs) NULL" "head r = hdp (as @ n # bs) NULL"
    "tail r = lastp NULL (as @ n # bs)" "NULL \<notin> set (as @ n # bs)" .
  from r obtain nd where n: "nodes s n = Some nd" "n \<noteq> NULL" "kq_next nd = hdp bs NULL"
    "kq_prev nd = lastp NULL as" by auto
  have w: "walk kq_next (\<lambda>x _. x \<noteq> n) (nodes s) (head r) = Some (Ok n)"
    using walk_dseg [OF r(4), of "\<lambda>x _. x \<noteq> n"] r dropWhile_neq_eq [of n as bs] by simp
  have enl: "\<And>x m. x \<in> set as \<union> set bs \<Longrightarrow> nodes s x = Some m \<Longrightarrow> enlisted m \<noteq> 0"
    using kq_rel_member [OF rel Lq] by fastforce
  let ?nd = "nd\<lparr>kq_next := NULL, kq_prev := NULL, enlisted := 0\<rparr>"
  note result = that
  have fin: thesis
    if eq: "kernel_queue_remove q n s = Ok (OS_NO_ERR, s\<lparr>nodes := ns(n \<mapsto> ?nd), queues := (queues s)(q \<mapsto> r')\<rparr>)"
      and rep: "kq_repr (ns(n \<mapsto> ?nd)) r' (as @ bs)" and sz: "kq_size r' = kq_size r"
      and ns: "\<And>x. x \<notin> set as \<union> set bs \<Longrightarrow> ns x = nodes s x"
        "\<And>x. map_option enlisted (ns x) = map_option enlisted (nodes s x)"
        "\<And>x. map_option kq_data (ns x) = map_option kq_data (nodes s x)"
        "\<And>x. map_option priority (ns x) = map_option priority (nodes s x)"
    for ns r'
  proof -
    have "kq_rel (s\<lparr>nodes := ns(n \<mapsto> ?nd), queues := (queues s)(q \<mapsto> r')\<rparr>) (L(q \<mapsto> as @ bs))"
    proof (rule kq_rel_upd [OF rel Lq rep])
      fix x m assume "x \<in> set (as @ n # bs) \<union> set (as @ bs)" "(ns(n \<mapsto> ?nd)) x = Some m"
      then show "(enlisted m \<noteq> 0) = (x \<in> set (as @ bs))"
        using ns(2) [of x] enl [of x] r(3) by (cases "nodes s x") (auto split: if_splits)
    qed (use ns(1) in auto)
    moreover have "node_prio (s\<lparr>nodes := ns(n \<mapsto> ?nd), queues := (queues s)(q \<mapsto> r')\<rparr>) x = node_prio s x" for x
      using ns(4) [of x] n by (auto simp: node_prio_def split: option.splits)
    moreover have "kq_frame s (s\<lparr>nodes := ns(n \<mapsto> ?nd), queues := (queues s)(q \<mapsto> r')\<rparr>)"
      using ns(3) n r by (auto simp: kq_frame_def)
    ultimately show thesis
      using result [OF eq, of ?nd] sz r by simp
  qed
  show thesis
  proof (cases as rule: rev_cases)
    case Nil
    show thesis
    proof (cases bs)
      case Nil
      with \<open>as = []\<close> show thesis using r n w
        by (intro fin [where ns = "nodes s" and r' = "r\<lparr>head := NULL, tail := NULL\<rparr>"])
          (auto simp: kernel_queue_remove_def store_simps kq_repr_def)
    next
      case (Cons b bs')
      with r obtain bn where "nodes s b = Some bn" by auto
      with Cons \<open>as = []\<close> show thesis using r n w
        by (intro fin [where ns = "(nodes s)(b \<mapsto> bn\<lparr>kq_prev := NULL\<rparr>)" and r' = "r\<lparr>head := b\<rparr>"])
          (auto simp: kernel_queue_remove_def store_simps kq_repr_def)
    qed
  next
    case (snoc as' a)
    with r obtain an where an: "nodes s a = Some an" by auto
    have pa: "kq_prev nd = a" "a \<noteq> NULL" using snoc r n by auto
    show thesis
    proof (cases bs)
      case Nil
      with snoc an pa show thesis using r n w
        by (intro fin [where ns = "(nodes s)(a \<mapsto> an\<lparr>kq_next := NULL\<rparr>)" and r' = "r\<lparr>tail := a\<rparr>"])
          (auto simp: kernel_queue_remove_def store_simps kq_repr_def)
    next
      case (Cons b bs')
      with r obtain bn where bn: "nodes s b = Some bn" by auto
      have nb: "kq_next nd = b" "b \<noteq> NULL" "a \<noteq> b" using snoc Cons r n by auto
      with Cons snoc bn an pa show thesis using r n w
        by (intro fin [where ns = "(nodes s)(a \<mapsto> an\<lparr>kq_next := b\<rparr>, b \<mapsto> bn\<lparr>kq_prev := a\<rparr>)" and r' = r])
          (auto simp: kernel_queue_remove_def store_simps kq_repr_def)
    qed
  qed
qed

lemma kq_push_prio_step:
  assumes rel: "kq_rel s L" and Lq: "L q = Some xs"
    and n: "nodes s n = Some nd" "enlisted nd = 0"
  obtains s' where "kernel_queue_push_prio n q p s = Ok (OS_NO_ERR, s')"
    "kq_rel s' (L(q \<mapsto> prio_insert (node_prio s) p n xs))" "kq_frame s s'"
    "\<And>x. node_prio s' x = (if x = n then p else node_prio s x)"
    "kq_size (the (queues s' q)) = kq_size (the (queues s q)) + 1"
proof -
  from kq_relE [OF rel Lq] obtain r where r: "queues s q = Some r" "q \<noteq> NULL" "distinct xs"
    "dseg kq_next kq_prev (nodes s) NULL xs NULL" "head r = hdp xs NULL"
    "tail r = lastp NULL xs" "NULL \<notin> set xs" .
  have nx: "n \<notin> set xs" using kq_rel_enlisted [OF rel n Lq] .
  have n0: "n \<noteq> NULL" using rel n by (auto simp: kq_rel_def)
  define as where "as = takeWhile (\<lambda>x. node_prio s x > p) xs"
  define bs where "bs = dropWhile (\<lambda>x. node_prio s x > p) xs"
  have xs: "xs = as @ bs" by (simp add: as_def bs_def)
  let ?m0 = "(nodes s)(n \<mapsto> nd\<lparr>priority := p\<rparr>)"
  have seg0: "dseg kq_next kq_prev ?m0 NULL xs NULL" using r nx by simp
  have pr: "priority (the (?m0 x)) = node_prio s x" if "x \<in> set xs" for x
    using dseg_mapped [OF r(4) that] that nx by (auto simp: node_prio_def)
  have "dropWhile (\<lambda>x. priority (the (?m0 x)) > p) xs = bs"
    unfolding bs_def by (intro dropWhile_cong refl) (simp only: pr)
  with walk_dseg [OF seg0, of "\<lambda>_ n. priority n > p"]
  have w: "walk kq_next (\<lambda>_ n. priority n > p) ?m0 (hdp xs NULL) = Some (Ok (hdp bs NULL))"
    by simp
  have enl: "\<And>x m. x \<in> set xs \<Longrightarrow> nodes s x = Some m \<Longrightarrow> enlisted m \<noteq> 0"
    using kq_rel_member [OF rel Lq] by fastforce
  have ins: "prio_insert (node_prio s) p n xs = as @ n # bs"
    by (simp add: prio_insert_def as_def bs_def)
  note result = that
  let ?nd = "nd\<lparr>priority := p, kq_next := hdp bs NULL, kq_prev := lastp NULL as, enlisted := 1\<rparr>"
  have fin: thesis
    if eq: "kernel_queue_push_prio n q p s = Ok (OS_NO_ERR, s\<lparr>nodes := ns(n \<mapsto> ?nd), queues := (queues s)(q \<mapsto> r')\<rparr>)"
      and rep: "kq_repr (ns(n \<mapsto> ?nd)) r' (as @ n # bs)" and sz: "kq_size r' = kq_size r + 1"
      and ns: "\<And>x. x \<notin> set xs \<Longrightarrow> ns x = nodes s x"
        "\<And>x. map_option enlisted (ns x) = map_option enlisted (nodes s x)"
        "\<And>x. map_option kq_data (ns x) = map_option kq_data (nodes s x)"
        "\<And>x. map_option priority (ns x) = map_option priority (nodes s x)"
    for ns r'
  proof -
    have "kq_rel (s\<lparr>nodes := ns(n \<mapsto> ?nd), queues := (queues s)(q \<mapsto> r')\<rparr>) (L(q \<mapsto> as @ n # bs))"
    proof (rule kq_rel_upd [OF rel Lq rep])
      fix x m assume "x \<in> set xs \<union> set (as @ n # bs)" "(ns(n \<mapsto> ?nd)) x = Some m"
      then show "(enlisted m \<noteq> 0) = (x \<in> set (as @ n # bs))"
        using ns(2) [of x] enl [of x] xs by (cases "nodes s x") (auto split: if_splits)
    qed (use ns(1) n xs in auto)
    moreover have "node_prio (s\<lparr>nodes := ns(n \<mapsto> ?nd), queues := (queues s)(q \<mapsto> r')\<rparr>) x =
        (if x = n then p else node_prio s x)" for x
      using ns(4) [of x] by (auto simp: node_prio_def split: option.splits)
    moreover have "kq_frame s (s\<lparr>nodes := ns(n \<mapsto> ?nd), queues := (queues s)(q \<mapsto> r')\<rparr>)"
      using ns(3) n r by (auto simp: kq_frame_def)
    ultimately show thesis
      using result [OF eq] sz r ins by simp
  qed
  show thesis
  proof (cases bs)
    case Nil
    show thesis
    proof (cases as rule: rev_cases)
      case Nil
      with \<open>bs = []\<close> xs show thesis using r n n0
        by (intro fin [where ns = "nodes s" and r' = "r\<lparr>head := n, tail := n, kq_size := kq_size r + 1\<rparr>"])
          (auto simp: kernel_queue_push_prio_def kq_enlist_def store_simps kq_repr_def)
    next
      case (snoc as' a)
      with r xs obtain an where an: "nodes s a = Some an" by auto
      have "hdp xs NULL \<noteq> NULL" "a \<noteq> n" using snoc xs r nx by (cases as'; auto)+
      with snoc an \<open>bs = []\<close> xs show thesis using r n n0 w nx
        by (intro fin [where ns = "(nodes s)(a \<mapsto> an\<lparr>kq_next := n\<rparr>)"
              and r' = "r\<lparr>tail := n, kq_size := kq_size r + 1\<rparr>"])
          (auto simp: kernel_queue_push_prio_def kq_enlist_def store_simps kq_repr_def fun_upd_twist)
    qed
  next
    case (Cons b bs')
    with r xs obtain bn where bn: "nodes s b = Some bn" "b \<noteq> NULL" "kq_prev bn = lastp NULL as" by auto
    have nb: "b \<noteq> n" "hdp xs NULL \<noteq> NULL" using Cons xs r nx by (cases as; auto)+
    show thesis
    proof (cases as rule: rev_cases)
      case Nil
      with Cons bn xs nb show thesis using r n n0 w nx
        by (intro fin [where ns = "(nodes s)(b \<mapsto> bn\<lparr>kq_prev := n\<rparr>)"
              and r' = "r\<lparr>head := n, kq_size := kq_size r + 1\<rparr>"])
          (auto simp: kernel_queue_push_prio_def kq_enlist_def store_simps kq_repr_def fun_upd_twist)
    next
      case (snoc as' a)
      with r xs obtain an where an: "nodes s a = Some an" "a \<noteq> NULL" by auto
      have ab: "a \<noteq> b" "a \<noteq> n" using snoc Cons xs r nx by auto
      have "hdp as' a \<noteq> NULL" using an r xs snoc by (cases as') auto
      with snoc Cons bn xs nb an ab show thesis using r n n0 w nx
        by (intro fin [where ns = "(nodes s)(b \<mapsto> bn\<lparr>kq_prev := n\<rparr>, a \<mapsto> an\<lparr>kq_next := n\<rparr>)"
              and r' = "r\<lparr>kq_size := kq_size r + 1\<rparr>"])
          (auto simp: kernel_queue_push_prio_def kq_enlist_def store_simps kq_repr_def fun_upd_twist)
    qed
  qed
qed

section \<open>The kernel queue as a FIFO\<close>

text \<open>\<open>kq_holds q s xs\<close>: queue \<open>q\<close> holds the nodes \<open>xs\<close>, oldest (nearest the tail) first.\<close>

definition kq_holds :: "ptr \<Rightarrow> kq_state \<Rightarrow> ptr list \<Rightarrow> bool" where
  "kq_holds q s xs \<longleftrightarrow> (\<exists>L. kq_rel s L \<and> L q = Some (rev xs))"

definition kq_loose :: "kq_state \<Rightarrow> ptr list \<Rightarrow> bool" where
  "kq_loose s zs \<longleftrightarrow> distinct zs \<and> (\<forall>z \<in> set zs. \<exists>n. nodes s z = Some n \<and> enlisted n = 0)"

definition kq_enq :: "ptr \<Rightarrow> ptr \<Rightarrow> kq_state \<Rightarrow> kq_state outcome" where
  "kq_enq q n s = andthen (kernel_queue_push n q s) (\<lambda>(err, s'). Ok s')"

definition kq_deq :: "ptr \<Rightarrow> kq_state \<Rightarrow> (ptr \<times> kq_state) outcome" where
  "kq_deq q s = andthen (kernel_queue_pop q s) (\<lambda>(n, err, s'). Ok (n, s'))"

lemma kq_push_keeps_loose:
  assumes "kq_rel s L" "kernel_queue_push n q s = Ok (OS_NO_ERR, s')" "L q = Some xs"
    "nodes s n = Some nd" "enlisted nd = 0" "kq_rel s' (L(q \<mapsto> n # xs))" "kq_frame s s'"
    "nodes s z = Some zn" "enlisted zn = 0" "z \<noteq> n"
  shows "\<exists>zn'. nodes s' z = Some zn' \<and> enlisted zn' = 0"
proof -
  obtain zn' where zn': "nodes s' z = Some zn'"
    using assms(7,8) unfolding kq_frame_def by (metis map_option_eq_Some)
  have "z \<notin> set ys" if "(L(q \<mapsto> n # xs)) q' = Some ys" for q' ys
    using that kq_rel_enlisted [OF assms(1,8,9)] assms(3,10) by (auto split: if_splits)
  with zn' assms(6) show ?thesis unfolding kq_rel_def by blast
qed

interpretation kq: fifo "kq_holds q" kq_loose "kq_enq q" "kq_deq q" for q
proof
  fix s xs z zs
  assume "kq_holds q s xs" "kq_loose s (z # zs)"
  then obtain L nd where L: "kq_rel s L" "L q = Some (rev xs)"
    and nd: "nodes s z = Some nd" "enlisted nd = 0" by (auto simp: kq_holds_def kq_loose_def)
  from kq_push_step [OF L nd] obtain s' where s': "kernel_queue_push z q s = Ok (OS_NO_ERR, s')"
    "kq_rel s' (L(q \<mapsto> z # rev xs))" "kq_frame s s'" by metis
  have "kq_loose s' zs"
    using \<open>kq_loose s (z # zs)\<close> kq_push_keeps_loose [OF L(1) s'(1) L(2) nd s'(2,3)]
    unfolding kq_loose_def by (metis distinct.simps(2) list.set_intros(2))
  moreover have "kq_holds q s' (xs @ [z])"
    unfolding kq_holds_def using s'(2) by (intro exI [of _ "L(q \<mapsto> z # rev xs)"]) simp
  ultimately show "\<exists>s'. kq_enq q z s = Ok s' \<and> kq_holds q s' (xs @ [z]) \<and> kq_loose s' zs"
    using s'(1) by (simp add: kq_enq_def)
next
  fix s x xs
  assume "kq_holds q s (x # xs)"
  then obtain L where L: "kq_rel s L" "L q = Some (rev xs @ [x])" by (auto simp: kq_holds_def)
  from kq_pop_step [OF L] obtain s' where s': "kernel_queue_pop q s = Ok (x, OS_NO_ERR, s')"
    "kq_rel s' (L(q \<mapsto> rev xs))" by metis
  then have "kq_holds q s' xs"
    unfolding kq_holds_def by (intro exI [of _ "L(q \<mapsto> rev xs)"]) simp
  with s'(1) show "\<exists>s'. kq_deq q s = Ok (x, s') \<and> kq_holds q s' xs"
    by (simp add: kq_deq_def)
qed

section \<open>Properties\<close>

text \<open>A state with one empty queue at \<open>0x100\<close> and three loose nodes, used by the witnesses.\<close>

definition loose_node :: "ptr \<Rightarrow> kq_node" where
  "loose_node d = \<lparr>kq_next = NULL, kq_prev = NULL, enlisted = 0, priority = 0, kq_data = d\<rparr>"

definition kq_example :: kq_state where
  "kq_example = \<lparr>heap = blank_heap,
     nodes = [0x10 \<mapsto> loose_node 1, 0x20 \<mapsto> loose_node 2, 0x30 \<mapsto> loose_node 3],
     queues = [0x100 \<mapsto> \<lparr>head = NULL, tail = NULL, kq_size = 0\<rparr>]\<rparr>"

lemma kq_example_rel: "kq_rel kq_example [0x100 \<mapsto> []]"
  by (auto simp: kq_rel_def kq_example_def kq_repr_def loose_node_def split: if_splits)

text \<open>C7. \<^verbatim>\<open>kernel_queue_push\<close> on a well-formed state, with a node that is in no queue, neither panics
  nor dereferences a bad pointer: it returns \<^verbatim>\<open>OS_NO_ERR\<close>, the queue's list gets the node at its
  \<^verbatim>\<open>head\<close> (the header and a comment in the code say the tail), every other queue, every payload and the
  heap are unchanged, and the size counter grows by one.\<close>

theorem kernel_queue_push_refines:
  assumes "kq_rel s L" "L q = Some xs" "nodes s n = Some nd" "enlisted nd = 0"
  shows "\<exists>s'. kernel_queue_push n q s = Ok (OS_NO_ERR, s') \<and> kq_rel s' (L(q \<mapsto> n # xs)) \<and>
           kq_frame s s' \<and> kq_size (the (queues s' q)) = kq_size (the (queues s q)) + 1"
  using kq_push_step [OF assms] by metis

theorem kernel_queue_push_refines_witness:
  "\<exists>s'. kernel_queue_push 0x10 0x100 kq_example = Ok (OS_NO_ERR, s') \<and>
     kq_rel s' ([0x100 \<mapsto> []](0x100 \<mapsto> [0x10]))"
  using kernel_queue_push_refines [OF kq_example_rel, of "0x100" "[]" "0x10" "loose_node 1"]
  by (auto simp: kq_example_def loose_node_def)

text \<open>C8. \<^verbatim>\<open>kernel_queue_pop\<close> takes the node at the \<^verbatim>\<open>tail\<close> (the header says the head, but means the same end, as
  \<^verbatim>\<open>kernel_queue_push\<close> inserts at the other one): on a queue holding \<open>xs @ [n]\<close> it returns \<open>n\<close>,
  unlinked and not enlisted any more, and leaves \<open>xs\<close>; on an empty queue it returns \<^verbatim>\<open>NULL\<close> and changes
  nothing.\<close>

theorem kernel_queue_pop_refines:
  assumes "kq_rel s L" "L q = Some xs"
  shows "(xs = [] \<longrightarrow> kernel_queue_pop q s = Ok (NULL, OS_NO_ERR, s)) \<and>
         (\<forall>ys n. xs = ys @ [n] \<longrightarrow>
            (\<exists>s' nd. kernel_queue_pop q s = Ok (n, OS_NO_ERR, s') \<and> kq_rel s' (L(q \<mapsto> ys)) \<and>
               kq_frame s s' \<and> nodes s' n = Some nd \<and> enlisted nd = 0))"
proof (intro conjI impI allI)
  show "kernel_queue_pop q s = Ok (NULL, OS_NO_ERR, s)" if "xs = []"
    using kq_pop_empty assms that by metis
  fix ys n assume "xs = ys @ [n]"
  with assms have "L q = Some (ys @ [n])" by simp
  from kq_pop_step [OF assms(1) this]
  show "\<exists>s' nd. kernel_queue_pop q s = Ok (n, OS_NO_ERR, s') \<and> kq_rel s' (L(q \<mapsto> ys)) \<and>
     kq_frame s s' \<and> nodes s' n = Some nd \<and> enlisted nd = 0" by metis
qed

text \<open>Node \<open>0x10\<close> was pushed first and \<open>0x20\<close> second.\<close>

definition kq_two :: kq_state where
  "kq_two = \<lparr>heap = blank_heap,
     nodes = [0x10 \<mapsto> (loose_node 1)\<lparr>kq_prev := 0x20, enlisted := 1\<rparr>, 0x20 \<mapsto> (loose_node 2)\<lparr>kq_next := 0x10, enlisted := 1\<rparr>],
     queues = [0x100 \<mapsto> \<lparr>head = 0x20, tail = 0x10, kq_size = 2\<rparr>]\<rparr>"

lemma kq_two_rel: "kq_rel kq_two [0x100 \<mapsto> [0x20, 0x10]]"
  by (auto simp: kq_rel_def kq_two_def kq_repr_def loose_node_def split: if_splits)

theorem kernel_queue_pop_refines_witness:
  "(\<exists>s' nd. kernel_queue_pop 0x100 kq_two = Ok (0x10, OS_NO_ERR, s') \<and> kq_rel s' [0x100 \<mapsto> [0x20]] \<and>
      nodes s' 0x10 = Some nd \<and> enlisted nd = 0) \<and>
   kernel_queue_pop 0x100 kq_example = Ok (NULL, OS_NO_ERR, kq_example)"
proof
  from kernel_queue_pop_refines [OF kq_two_rel, of "0x100" "[0x20, 0x10]"] obtain s' nd where
    "kernel_queue_pop 0x100 kq_two = Ok (0x10, OS_NO_ERR, s')" "kq_rel s' [0x100 \<mapsto> [0x20]]"
    "nodes s' 0x10 = Some nd" "enlisted nd = 0" by (auto dest: spec [of _ "[0x20]"])
  then show "\<exists>s' nd. kernel_queue_pop 0x100 kq_two = Ok (0x10, OS_NO_ERR, s') \<and> kq_rel s' [0x100 \<mapsto> [0x20]] \<and>
      nodes s' 0x10 = Some nd \<and> enlisted nd = 0" by blast
  show "kernel_queue_pop 0x100 kq_example = Ok (NULL, OS_NO_ERR, kq_example)"
    using kernel_queue_pop_refines [OF kq_example_rel, of "0x100" "[]"] by simp
qed

text \<open>C9. \<^verbatim>\<open>kernel_queue_push_prio\<close> keeps a queue ordered by decreasing priority and puts the node on
  the head side of the nodes of equal priority, so nodes of equal priority leave in the order they
  came.\<close>

theorem kernel_queue_push_prio_sorted:
  assumes "kq_rel s L" "L q = Some xs" "nodes s n = Some nd" "enlisted nd = 0"
    and "sorted_wrt (\<lambda>x y. node_prio s x \<ge> node_prio s y) xs"
  shows "\<exists>s' as bs. kernel_queue_push_prio n q p s = Ok (OS_NO_ERR, s') \<and> xs = as @ bs \<and>
           kq_rel s' (L(q \<mapsto> as @ n # bs)) \<and> kq_frame s s' \<and>
           (\<forall>x \<in> set as. node_prio s' x > p) \<and> (\<forall>x \<in> set bs. node_prio s' x \<le> p) \<and>
           node_prio s' n = p \<and>
           sorted_wrt (\<lambda>x y. node_prio s' x \<ge> node_prio s' y) (as @ n # bs)"
proof -
  define as where "as = takeWhile (\<lambda>x. node_prio s x > p) xs"
  define bs where "bs = dropWhile (\<lambda>x. node_prio s x > p) xs"
  have xs: "xs = as @ bs" by (simp add: as_def bs_def)
  have nx: "n \<notin> set as" "n \<notin> set bs" using kq_rel_enlisted [OF assms(1,3,4,2)] xs by auto
  have as: "\<forall>x \<in> set as. node_prio s x > p" unfolding as_def by (rule takeWhile_all)
  have bs: "\<forall>x \<in> set bs. node_prio s x \<le> p"
  proof (cases bs)
    case (Cons b bs')
    then have "\<not> node_prio s b > p" unfolding bs_def by (rule dropWhile_head)
    with assms(5) xs Cons show ?thesis by (fastforce simp: sorted_wrt_append)
  qed simp
  from kq_push_prio_step [OF assms(1-4), of p] obtain s' where s':
    "kernel_queue_push_prio n q p s = Ok (OS_NO_ERR, s')"
    "kq_rel s' (L(q \<mapsto> prio_insert (node_prio s) p n xs))" "kq_frame s s'"
    "\<And>x. node_prio s' x = (if x = n then p else node_prio s x)" by metis
  have same: "\<And>x. x \<in> set as \<union> set bs \<Longrightarrow> node_prio s' x = node_prio s x"
    using s'(4) nx by auto
  have keep: "sorted_wrt (\<lambda>x y. node_prio s' x \<ge> node_prio s' y) ys"
    if "sorted_wrt (\<lambda>x y. node_prio s x \<ge> node_prio s y) ys" "set ys \<subseteq> set as \<union> set bs" for ys
    using that same by (induction ys) auto
  have "sorted_wrt (\<lambda>x y. node_prio s' x \<ge> node_prio s' y) as"
    "sorted_wrt (\<lambda>x y. node_prio s' x \<ge> node_prio s' y) bs"
    using assms(5) xs by (auto intro!: keep simp: sorted_wrt_append)
  moreover have "\<forall>x \<in> set as. p \<le> node_prio s' x" "\<forall>x \<in> set bs. node_prio s' x \<le> p"
    "node_prio s' n = p"
    using as bs same s'(4) [of n] by (simp_all add: order.strict_implies_order)
  ultimately have "sorted_wrt (\<lambda>x y. node_prio s' x \<ge> node_prio s' y) (as @ n # bs)"
    by (auto simp: sorted_wrt_append intro: order_trans)
  moreover have "prio_insert (node_prio s) p n xs = as @ n # bs"
    by (simp add: prio_insert_def as_def bs_def)
  moreover have "\<forall>x \<in> set as. node_prio s' x > p" "\<forall>x \<in> set bs. node_prio s' x \<le> p"
    "node_prio s' n = p"
    using as bs same s'(4) [of n] by simp_all
  ultimately show ?thesis using s'(1-3) xs by metis
qed

theorem kernel_queue_push_prio_sorted_witness:
  "\<exists>s' as bs. kernel_queue_push_prio 0x20 0x100 7 kq_example = Ok (OS_NO_ERR, s') \<and> [] = as @ bs \<and>
     node_prio s' 0x20 = 7"
  using kernel_queue_push_prio_sorted [OF kq_example_rel, of "0x100" "[]" "0x20" "loose_node 2" 7]
  by (auto simp: kq_example_def loose_node_def)

text \<open>\<^verbatim>\<open>kernel_queue_remove\<close> unlinks exactly the given node and keeps the order of the others, but
  leaves the queue's size counter as it was: the counter no longer is the number of nodes.\<close>

theorem kernel_queue_remove_refines:
  assumes "kq_rel s L" "L q = Some (as @ n # bs)"
  shows "\<exists>s'. kernel_queue_remove q n s = Ok (OS_NO_ERR, s') \<and> kq_rel s' (L(q \<mapsto> as @ bs)) \<and>
           kq_frame s s' \<and> kq_size (the (queues s' q)) = kq_size (the (queues s q))"
  using kq_remove_step [OF assms] by metis

theorem kernel_queue_remove_refines_witness:
  "\<exists>s1 s2. kernel_queue_push 0x10 0x100 kq_example = Ok (OS_NO_ERR, s1) \<and>
     kernel_queue_remove 0x100 0x10 s1 = Ok (OS_NO_ERR, s2) \<and>
     kq_rel s2 [0x100 \<mapsto> []] \<and> kq_size (the (queues s2 0x100)) = 1"
proof -
  have n: "nodes kq_example 0x10 = Some (loose_node 1)" "enlisted (loose_node 1) = 0"
    by (simp_all add: kq_example_def loose_node_def)
  from kq_push_step [OF kq_example_rel _ n, of "0x100" "[]"] obtain s1 where s1:
    "kernel_queue_push 0x10 0x100 kq_example = Ok (OS_NO_ERR, s1)"
    "kq_rel s1 [0x100 \<mapsto> [0x10]]"
    "kq_size (the (queues s1 0x100)) = kq_size (the (queues kq_example 0x100)) + 1" by auto
  from kernel_queue_remove_refines [OF s1(2), of "0x100" "[]" "0x10" "[]"] obtain s2 where
    "kernel_queue_remove 0x100 0x10 s1 = Ok (OS_NO_ERR, s2)" "kq_rel s2 [0x100 \<mapsto> []]"
    "kq_size (the (queues s2 0x100)) = kq_size (the (queues s1 0x100))" by auto
  with s1 show ?thesis by (auto simp: kq_example_def)
qed

text \<open>First in, first out: pushing distinct loose nodes \<open>zs\<close> on a queue that holds \<open>xs\<close> (oldest
  first) and then popping as many nodes as there are returns \<open>xs @ zs\<close>, and the queue is empty.\<close>

theorem kernel_queue_fifo:
  assumes "kq_holds q s xs" "kq_loose s zs"
  shows "\<exists>s' s''. kq.enq_all q zs s = Ok s' \<and>
           kq.deq_many q (length xs + length zs) s' = Ok (xs @ zs, s'') \<and> kq_holds q s'' []"
  using kq.enq_deq_order [OF assms] .

theorem kernel_queue_fifo_witness:
  "\<exists>s' s''. kq.enq_all 0x100 [0x10, 0x20, 0x30] kq_example = Ok s' \<and>
     kq.deq_many 0x100 3 s' = Ok ([0x10, 0x20, 0x30], s'')"
proof -
  have "kq_holds 0x100 kq_example []"
    unfolding kq_holds_def using kq_example_rel by (intro exI [of _ "[0x100 \<mapsto> []]"]) simp
  moreover have "kq_loose kq_example [0x10, 0x20, 0x30]"
    by (simp add: kq_loose_def kq_example_def loose_node_def)
  ultimately show ?thesis
    using kernel_queue_fifo [of "0x100" kq_example "[]" "[0x10, 0x20, 0x30]"] by (auto simp: numeral_3_eq_3)
qed

text \<open>\<^verbatim>\<open>kernel_queue_find\<close> returns the node nearest the head that carries the data, or \<^verbatim>\<open>NULL\<close> with
  \<^verbatim>\<open>OS_ERR_NO_SUCH_ID\<close> exactly when no node of the queue carries it.\<close>

theorem kernel_queue_find_correct:
  assumes "kq_rel s L" "L q = Some xs"
  shows "(kernel_queue_find q d s = Ok (NULL, OS_ERR_NO_SUCH_ID) \<and>
            (\<forall>x \<in> set xs. map_option kq_data (nodes s x) \<noteq> Some d)) \<or>
         (\<exists>as n bs. xs = as @ n # bs \<and> kernel_queue_find q d s = Ok (n, OS_NO_ERR) \<and>
            map_option kq_data (nodes s n) = Some d \<and>
            (\<forall>x \<in> set as. map_option kq_data (nodes s x) \<noteq> Some d))"
proof (cases "dropWhile (\<lambda>x. map_option kq_data (nodes s x) \<noteq> Some d) xs")
  case Nil
  then have "\<forall>x \<in> set xs. map_option kq_data (nodes s x) \<noteq> Some d"
    by (simp add: dropWhile_eq_Nil_conv)
  moreover have "kernel_queue_find q d s = Ok (NULL, OS_ERR_NO_SUCH_ID)"
    unfolding kq_find_step [OF assms, of d] Nil by simp
  ultimately show ?thesis by blast
next
  case (Cons n bs)
  let ?as = "takeWhile (\<lambda>x. map_option kq_data (nodes s x) \<noteq> Some d) xs"
  have "xs = ?as @ n # bs" using dropWhile_split [OF Cons] .
  moreover have "map_option kq_data (nodes s n) = Some d" using dropWhile_head [OF Cons] by blast
  moreover have "\<forall>x \<in> set ?as. map_option kq_data (nodes s x) \<noteq> Some d" by (rule takeWhile_all)
  moreover have "kernel_queue_find q d s = Ok (n, OS_NO_ERR)"
    unfolding kq_find_step [OF assms, of d] Cons by simp
  ultimately show ?thesis by blast
qed

theorem kernel_queue_find_correct_witness:
  "kernel_queue_find 0x100 5 kq_example = Ok (NULL, OS_ERR_NO_SUCH_ID)"
  using kernel_queue_find_correct [OF kq_example_rel, of "0x100" "[]" 5] by simp

end
