(* ===== verification/Critical.thy ===== *)
theory Critical
  imports Prelude
begin

text \<open>
  The kernel's critical sections on a multiprocessor, the macros \<^verbatim>\<open>ENTER_CRITICAL\<close> and
  \<^verbatim>\<open>EXIT_CRITICAL\<close> of \<^verbatim>\<open>Includes/sync/critical.h\<close>, as a step relation in which the memory accesses
  of the CPUs interleave. Each CPU has a program counter inside the macros and the number of sections
  on this lock it has entered and not left. Interrupts are disabled in a section, so a CPU runs one
  activity at a time; CPU identifiers are those of \<^verbatim>\<open>cpu_get_id\<close>, and more than one CPU is booted
  (with one, the macros only touch the interrupt flag). The spin of \<^verbatim>\<open>__pause_spinlock\<close> is one atomic
  \<^verbatim>\<open>lock bts\<close> step, enabled when bit 0 of the lock word is clear.

  The other theories treat the body of a critical section as one step; the theorems here say when
  that is justified: CPUs that do not nest a section on the same lock exclude each other, and nesting
  breaks the exclusion.
\<close>

record spinlock_t =
  lock_value :: u32
  current_tid :: int
  nesting :: u32

definition SPINLOCK_INIT_VALUE :: spinlock_t where
  "SPINLOCK_INIT_VALUE = \<lparr>lock_value = 0, current_tid = -1, nesting = 0\<rparr>"

text \<open>Program counters: outside, spinning on the lock word, about to write \<^verbatim>\<open>current_tid\<close>, about to
  increment \<^verbatim>\<open>nesting\<close>, in the section, and in \<^verbatim>\<open>EXIT_CRITICAL\<close> about to test \<^verbatim>\<open>nesting\<close> or to clear
  the lock word.\<close>

datatype pc = Outside | Spinning | SetTid | Incr | Inside | Test | Clear

record lock_state =
  lock :: spinlock_t
  pcs :: "int \<Rightarrow> pc"
  depth :: "int \<Rightarrow> nat"

definition lock_initial :: lock_state where
  "lock_initial = \<lparr>lock = SPINLOCK_INIT_VALUE, pcs = (\<lambda>_. Outside), depth = (\<lambda>_. 0)\<rparr>"

text \<open>One step of CPU \<open>c\<close>. The flag \<open>nest\<close> says whether CPUs may enter a section on the lock while
  they are in one.\<close>

inductive lock_step :: "bool \<Rightarrow> int \<Rightarrow> lock_state \<Rightarrow> lock_state \<Rightarrow> bool" for nest where
  enter_other: "0 \<le> c \<Longrightarrow> pcs s c = (if depth s c = 0 then Outside else Inside) \<Longrightarrow>
      nest \<or> depth s c = 0 \<Longrightarrow> current_tid (lock s) \<noteq> c \<Longrightarrow>
      lock_step nest c s (s\<lparr>pcs := (pcs s)(c := Spinning)\<rparr>)"
| enter_again: "0 \<le> c \<Longrightarrow> pcs s c = (if depth s c = 0 then Outside else Inside) \<Longrightarrow>
      nest \<or> depth s c = 0 \<Longrightarrow> current_tid (lock s) = c \<Longrightarrow>
      lock_step nest c s (s\<lparr>pcs := (pcs s)(c := SetTid)\<rparr>)"
| acquire: "pcs s c = Spinning \<Longrightarrow> \<not> bit (lock_value (lock s)) 0 \<Longrightarrow>
      lock_step nest c s (s\<lparr>lock := (lock s)\<lparr>lock_value := set_bit 0 (lock_value (lock s))\<rparr>,
                            pcs := (pcs s)(c := SetTid)\<rparr>)"
| set_tid: "pcs s c = SetTid \<Longrightarrow>
      lock_step nest c s (s\<lparr>lock := (lock s)\<lparr>current_tid := c\<rparr>, pcs := (pcs s)(c := Incr)\<rparr>)"
| incr: "pcs s c = Incr \<Longrightarrow>
      lock_step nest c s (s\<lparr>lock := (lock s)\<lparr>nesting := nesting (lock s) + 1\<rparr>,
                            pcs := (pcs s)(c := Inside),
                            depth := (depth s)(c := depth s c + 1)\<rparr>)"
| decr: "pcs s c = Inside \<Longrightarrow> depth s c \<noteq> 0 \<Longrightarrow>
      lock_step nest c s (s\<lparr>lock := (lock s)\<lparr>nesting := nesting (lock s) - 1\<rparr>,
                            pcs := (pcs s)(c := Test)\<rparr>)"
| test: "pcs s c = Test \<Longrightarrow>
      lock_step nest c s
        (s\<lparr>lock := (if nesting (lock s) = 0 then (lock s)\<lparr>current_tid := -1\<rparr> else lock s),
           pcs := (pcs s)(c := Clear)\<rparr>)"
| clear: "pcs s c = Clear \<Longrightarrow>
      lock_step nest c s (s\<lparr>lock := (lock s)\<lparr>lock_value := 0\<rparr>,
                            pcs := (pcs s)(c := (if depth s c = 1 then Outside else Inside)),
                            depth := (depth s)(c := depth s c - 1)\<rparr>)"

inductive lock_reachable :: "bool \<Rightarrow> lock_state \<Rightarrow> bool" for nest where
  start: "lock_reachable nest lock_initial"
| step: "lock_reachable nest s \<Longrightarrow> lock_step nest c s s' \<Longrightarrow> lock_reachable nest s'"

text \<open>Executable counterpart of the relation for a schedule: the CPU that moves, and whether, in a
  section, it enters again rather than leaves.\<close>

definition lock_exec :: "int \<times> bool \<Rightarrow> lock_state \<Rightarrow> lock_state option" where
  "lock_exec = (\<lambda>(c, again) s.
     case pcs s c of
       Outside \<Rightarrow> if 0 \<le> c \<and> depth s c = 0 \<and> current_tid (lock s) \<noteq> c
                  then Some (s\<lparr>pcs := (pcs s)(c := Spinning)\<rparr>) else None
     | Spinning \<Rightarrow> if bit (lock_value (lock s)) 0 then None
                   else Some (s\<lparr>lock := (lock s)\<lparr>lock_value := set_bit 0 (lock_value (lock s))\<rparr>,
                               pcs := (pcs s)(c := SetTid)\<rparr>)
     | SetTid \<Rightarrow> Some (s\<lparr>lock := (lock s)\<lparr>current_tid := c\<rparr>, pcs := (pcs s)(c := Incr)\<rparr>)
     | Incr \<Rightarrow> Some (s\<lparr>lock := (lock s)\<lparr>nesting := nesting (lock s) + 1\<rparr>,
                      pcs := (pcs s)(c := Inside), depth := (depth s)(c := depth s c + 1)\<rparr>)
     | Inside \<Rightarrow>
         if depth s c = 0 then None
         else if again
         then if 0 \<le> c
              then Some (s\<lparr>pcs := (pcs s)(c := if current_tid (lock s) = c then SetTid else Spinning)\<rparr>)
              else None
         else Some (s\<lparr>lock := (lock s)\<lparr>nesting := nesting (lock s) - 1\<rparr>,
                      pcs := (pcs s)(c := Test)\<rparr>)
     | Test \<Rightarrow> Some (s\<lparr>lock := (if nesting (lock s) = 0 then (lock s)\<lparr>current_tid := -1\<rparr> else lock s),
                      pcs := (pcs s)(c := Clear)\<rparr>)
     | Clear \<Rightarrow> Some (s\<lparr>lock := (lock s)\<lparr>lock_value := 0\<rparr>,
                       pcs := (pcs s)(c := (if depth s c = 1 then Outside else Inside)),
                       depth := (depth s)(c := depth s c - 1)\<rparr>))"

fun lock_run :: "(int \<times> bool) list \<Rightarrow> lock_state \<Rightarrow> lock_state option" where
  "lock_run [] s = Some s"
| "lock_run (x # xs) s = (case lock_exec x s of None \<Rightarrow> None | Some s' \<Rightarrow> lock_run xs s')"

lemma lock_exec_step: "lock_exec (c, a) s = Some s' \<Longrightarrow> lock_step True c s s'"
  using lock_step.enter_other [of c s True] lock_step.enter_again [of c s True]
    lock_step.acquire [of s c True] lock_step.set_tid [of s c True] lock_step.incr [of s c True]
    lock_step.decr [of s c True] lock_step.test [of s c True] lock_step.clear [of s c True]
  by (cases "pcs s c") (simp_all add: lock_exec_def split: if_splits)

lemma lock_run_reachable:
  "lock_run xs s = Some s' \<Longrightarrow> lock_reachable True s \<Longrightarrow> lock_reachable True s'"
proof (induction xs arbitrary: s)
  case (Cons x xs)
  obtain c a where x: "x = (c, a)" by fastforce
  from Cons.prems x obtain s1 where s1: "lock_exec (c, a) s = Some s1" "lock_run xs s1 = Some s'"
    by (auto split: option.splits)
  show ?case
    using Cons.IH [OF s1(2)] lock_reachable.step [OF Cons.prems(2) lock_exec_step [OF s1(1)]] .
qed simp

section \<open>The invariant of sections that do not nest\<close>

definition holding :: "pc \<Rightarrow> bool" where
  "holding p \<longleftrightarrow> p \<notin> {Outside, Spinning}"

text \<open>What the lock fields and the depth are while a CPU is at a given point.\<close>

fun at_pc :: "pc \<Rightarrow> int \<Rightarrow> spinlock_t \<Rightarrow> nat \<Rightarrow> bool" where
  "at_pc Outside c l d \<longleftrightarrow> d = 0"
| "at_pc Spinning c l d \<longleftrightarrow> d = 0"
| "at_pc SetTid c l d \<longleftrightarrow> d = 0 \<and> nesting l = 0 \<and> current_tid l = -1"
| "at_pc Incr c l d \<longleftrightarrow> d = 0 \<and> nesting l = 0 \<and> current_tid l = c"
| "at_pc Inside c l d \<longleftrightarrow> d = 1 \<and> nesting l = 1 \<and> current_tid l = c"
| "at_pc Test c l d \<longleftrightarrow> d = 1 \<and> nesting l = 0 \<and> current_tid l = c"
| "at_pc Clear c l d \<longleftrightarrow> d = 1 \<and> nesting l = 0 \<and> current_tid l = -1"

definition lock_inv :: "lock_state \<Rightarrow> bool" where
  "lock_inv s \<longleftrightarrow>
     (\<forall>c. at_pc (pcs s c) c (lock s) (depth s c)) \<and>
     (\<forall>c. holding (pcs s c) \<longrightarrow> bit (lock_value (lock s)) 0) \<and>
     (\<forall>c d. holding (pcs s c) \<longrightarrow> holding (pcs s d) \<longrightarrow> c = d) \<and>
     ((\<forall>c. \<not> holding (pcs s c)) \<longrightarrow> nesting (lock s) = 0 \<and> current_tid (lock s) = -1)"

lemma lock_inv_initial: "lock_inv lock_initial"
  by (simp add: lock_inv_def lock_initial_def SPINLOCK_INIT_VALUE_def holding_def)

text \<open>The invariant when CPU \<open>c\<close> alone moves.\<close>

lemma lock_inv_move:
  assumes "lock_inv s"
    and "\<And>d. d \<noteq> c \<Longrightarrow> pcs s' d = pcs s d \<and> depth s' d = depth s d"
    and "at_pc (pcs s' c) c (lock s') (depth s' c)"
    and "holding (pcs s' c) \<Longrightarrow> bit (lock_value (lock s')) 0 \<and> (\<forall>d. d \<noteq> c \<longrightarrow> \<not> holding (pcs s d))"
    and "\<not> holding (pcs s' c) \<Longrightarrow>
           lock s' = lock s \<and> \<not> holding (pcs s c) \<or>
           nesting (lock s') = 0 \<and> current_tid (lock s') = -1 \<and> (\<forall>d. d \<noteq> c \<longrightarrow> \<not> holding (pcs s d))"
  shows "lock_inv s'"
proof -
  have other: "at_pc (pcs s d) d (lock s') (depth s d)" if "d \<noteq> c" for d
  proof -
    have "at_pc (pcs s d) d (lock s) (depth s d)" using assms(1) by (simp add: lock_inv_def)
    moreover have "holding (pcs s d) \<Longrightarrow> lock s' = lock s" using assms(4,5) that by blast
    ultimately show ?thesis by (cases "pcs s d") (auto simp: holding_def)
  qed
  have "at_pc (pcs s' d) d (lock s') (depth s' d)" for d
    using other assms(2,3) by (cases "d = c") auto
  moreover have "bit (lock_value (lock s')) 0" if "holding (pcs s' d)" for d
  proof (cases "holding (pcs s' c)")
    case False
    then have "d \<noteq> c" using that by auto
    with assms(1,2,5) False that show ?thesis by (auto simp: lock_inv_def)
  qed (use assms(4) in blast)
  moreover have "d = e" if "holding (pcs s' d)" "holding (pcs s' e)" for d e
    using that assms(1,2,4) unfolding lock_inv_def by metis
  moreover have "nesting (lock s') = 0 \<and> current_tid (lock s') = -1" if none: "\<forall>d. \<not> holding (pcs s' d)"
  proof -
    have "\<forall>d. \<not> holding (pcs s d)" if "\<not> holding (pcs s c)" using none that assms(2) by metis
    then show ?thesis using assms(1,5) none unfolding lock_inv_def by metis
  qed
  ultimately show ?thesis unfolding lock_inv_def by blast
qed

lemma lock_inv_at: "lock_inv s \<Longrightarrow> pcs s c = p \<Longrightarrow> at_pc p c (lock s) (depth s c)"
  by (auto simp: lock_inv_def)

lemma lock_inv_bit: "lock_inv s \<Longrightarrow> holding (pcs s c) \<Longrightarrow> bit (lock_value (lock s)) 0"
  by (auto simp: lock_inv_def)

lemma lock_inv_unique: "lock_inv s \<Longrightarrow> holding (pcs s c) \<Longrightarrow> \<forall>d. d \<noteq> c \<longrightarrow> \<not> holding (pcs s d)"
  unfolding lock_inv_def by metis

lemma lock_inv_free: "lock_inv s \<Longrightarrow> \<forall>c. \<not> holding (pcs s c) \<Longrightarrow> nesting (lock s) = 0 \<and> current_tid (lock s) = -1"
  unfolding lock_inv_def by metis

lemma lock_inv_tid: "lock_inv s \<Longrightarrow> current_tid (lock s) = c \<Longrightarrow> 0 \<le> c \<Longrightarrow> holding (pcs s c)"
proof (rule ccontr)
  assume inv: "lock_inv s" and tid: "current_tid (lock s) = c" and c: "0 \<le> c" and n: "\<not> holding (pcs s c)"
  show False
  proof (cases "\<exists>d. holding (pcs s d)")
    case True
    then obtain d where d: "holding (pcs s d)" by blast
    then have "d \<noteq> c" using n by auto
    with lock_inv_at [OF inv refl, of d] d tid c show False
      by (cases "pcs s d") (auto simp: holding_def)
  next
    case False
    then show False using lock_inv_free [OF inv] tid c by auto
  qed
qed

lemma lock_step_inv:
  "lock_step nest c s s' \<Longrightarrow> \<not> nest \<Longrightarrow> lock_inv s \<Longrightarrow> lock_inv s'"
proof (induction rule: lock_step.induct)
  case (enter_other c s)
  then have d: "depth s c = 0" by blast
  have "pcs s c = Outside" using enter_other(2) d by simp
  with \<open>lock_inv s\<close> d show ?case by - (rule lock_inv_move [of s c], simp_all add: holding_def)
next
  case (enter_again c s)
  then have "depth s c = 0" by blast
  then have "pcs s c = Outside" using enter_again(2) by simp
  moreover have "holding (pcs s c)" using lock_inv_tid [of s c] enter_again by blast
  ultimately show ?case by (simp add: holding_def)
next
  case (acquire s c)
  then have free: "\<forall>d. \<not> holding (pcs s d)" using lock_inv_bit by blast
  show ?case
    using acquire free lock_inv_free [OF acquire(4) free] lock_inv_at [OF acquire(4,1)]
    by - (rule lock_inv_move [of s c], auto simp: bit_simps)
next
  case (set_tid s c)
  have h: "holding (pcs s c)" using set_tid by (simp add: holding_def)
  show ?case
    using set_tid lock_inv_at [OF set_tid(3,1)] lock_inv_bit [OF set_tid(3) h] lock_inv_unique [OF set_tid(3) h]
    by - (rule lock_inv_move [of s c], auto simp: holding_def)
next
  case (incr s c)
  have h: "holding (pcs s c)" using incr by (simp add: holding_def)
  show ?case
    using incr lock_inv_at [OF incr(3,1)] lock_inv_bit [OF incr(3) h] lock_inv_unique [OF incr(3) h]
    by - (rule lock_inv_move [of s c], auto simp: holding_def)
next
  case (decr s c)
  have h: "holding (pcs s c)" using decr by (simp add: holding_def)
  show ?case
    using decr lock_inv_at [OF decr(4,1)] lock_inv_bit [OF decr(4) h] lock_inv_unique [OF decr(4) h]
    by - (rule lock_inv_move [of s c], auto simp: holding_def)
next
  case (test s c)
  have h: "holding (pcs s c)" using test by (simp add: holding_def)
  show ?case
    using test lock_inv_at [OF test(3,1)] lock_inv_bit [OF test(3) h] lock_inv_unique [OF test(3) h]
    by - (rule lock_inv_move [of s c], auto simp: holding_def)
next
  case (clear s c)
  have h: "holding (pcs s c)" using clear by (simp add: holding_def)
  show ?case
    using clear lock_inv_at [OF clear(3,1)] lock_inv_unique [OF clear(3) h]
    by - (rule lock_inv_move [of s c], auto simp: holding_def)
qed

lemma lock_reachable_inv: "lock_reachable False s \<Longrightarrow> lock_inv s"
  by (induction rule: lock_reachable.induct) (auto intro: lock_inv_initial lock_step_inv)

section \<open>Properties\<close>

text \<open>C2. CPUs that never enter a section on a lock while they are in one exclude each other: in
  every reachable interleaving at most one CPU is in the section.\<close>

theorem critical_mutual_exclusion:
  assumes "lock_reachable False s" "pcs s c = Inside" "pcs s d = Inside"
  shows "c = d"
  using lock_inv_unique [OF lock_reachable_inv [OF assms(1)], of d] assms(2,3)
  by (auto simp: holding_def)

theorem critical_mutual_exclusion_witness:
  "\<exists>s c d. lock_reachable False s \<and> pcs s c = Inside \<and> pcs s d = Inside \<and> c = d"
proof -
  let ?s1 = "lock_initial\<lparr>pcs := (pcs lock_initial)(0 := Spinning)\<rparr>"
  let ?s2 = "?s1\<lparr>lock := (lock ?s1)\<lparr>lock_value := set_bit 0 (lock_value (lock ?s1))\<rparr>,
                 pcs := (pcs ?s1)(0 := SetTid)\<rparr>"
  let ?s3 = "?s2\<lparr>lock := (lock ?s2)\<lparr>current_tid := 0\<rparr>, pcs := (pcs ?s2)(0 := Incr)\<rparr>"
  let ?s4 = "?s3\<lparr>lock := (lock ?s3)\<lparr>nesting := nesting (lock ?s3) + 1\<rparr>,
                 pcs := (pcs ?s3)(0 := Inside), depth := (depth ?s3)(0 := depth ?s3 0 + 1)\<rparr>"
  have "lock_reachable False ?s1"
    by (rule lock_reachable.step [OF lock_reachable.start lock_step.enter_other])
      (simp_all add: lock_initial_def SPINLOCK_INIT_VALUE_def)
  then have "lock_reachable False ?s2"
    by (rule lock_reachable.step [OF _ lock_step.acquire])
      (simp_all add: lock_initial_def SPINLOCK_INIT_VALUE_def)
  then have "lock_reachable False ?s3"
    by (rule lock_reachable.step [OF _ lock_step.set_tid]) simp
  then have "lock_reachable False ?s4"
    by (rule lock_reachable.step [OF _ lock_step.incr]) simp
  moreover have "pcs ?s4 0 = Inside" by simp
  ultimately show ?thesis using critical_mutual_exclusion by blast
qed

text \<open>Nesting breaks the exclusion: \<^verbatim>\<open>EXIT_CRITICAL\<close> clears the lock word even when the nesting
  count says the CPU is still in an outer section. CPU 0 enters twice and leaves once, CPU 1 then
  enters while CPU 0 is still in its outer section.\<close>

theorem critical_nesting_breaks_exclusion:
  "\<exists>s. lock_reachable True s \<and> pcs s 0 = Inside \<and> pcs s 1 = Inside"
proof -
  let ?sched = "[(0, False), (0, False), (0, False), (0, False), (0, True), (0, False), (0, False),
      (0, False), (0, False), (0, False), (1, False), (1, False), (1, False), (1, False)] :: (int \<times> bool) list"
  have "(case lock_run ?sched lock_initial of None \<Rightarrow> False
         | Some s \<Rightarrow> pcs s 0 = Inside \<and> pcs s 1 = Inside)"
    by code_simp
  then obtain s where "lock_run ?sched lock_initial = Some s" "pcs s 0 = Inside \<and> pcs s 1 = Inside"
    by (rule case_option_FalseE)
  then show ?thesis using lock_run_reachable [OF _ lock_reachable.start] by blast
qed

end
