(* ===== verification/Io.thy ===== *)
theory Io
  imports Prelude
begin

text \<open>
  The machine seen by the drivers: port input and output (\<^verbatim>\<open>cpu_outb\<close>, \<^verbatim>\<open>cpu_inb\<close> of
  \<^verbatim>\<open>Includes/arch/cpu/i386/cpu.h\<close>) and the interrupt flag of the executing CPU. The devices are a
  parameter of the model, a function from the history of port accesses to the value a port reads,
  carried in the \<open>world\<close>: every deterministic device is such a function, and nothing is assumed of it
  here. Writes are recorded in the history, newest first, so that theorems can say exactly which
  accesses a driver makes and in which order. \<open>statics\<close> holds the file-scope variables of the
  drivers, by name.
\<close>

datatype io_event = OutB u16 u8 | InB u16

record world =
  device :: "io_event list \<Rightarrow> u16 \<Rightarrow> u8"
  history :: "io_event list"
  eflags_if :: bool
  statics :: "string \<Rightarrow> u32"

definition set_static :: "string \<Rightarrow> u32 \<Rightarrow> world \<Rightarrow> world" where
  "set_static x v w = w\<lparr>statics := (statics w)(x := v)\<rparr>"

definition cpu_outb :: "u8 \<Rightarrow> u16 \<Rightarrow> world \<Rightarrow> world" where
  "cpu_outb v p w = w\<lparr>history := OutB p v # history w\<rparr>"

definition cpu_inb :: "u16 \<Rightarrow> world \<Rightarrow> u8 \<times> world" where
  "cpu_inb p w = (device w (history w) p, w\<lparr>history := InB p # history w\<rparr>)"

definition cpu_set_interrupt :: "world \<Rightarrow> world" where
  "cpu_set_interrupt w = w\<lparr>eflags_if := True\<rparr>"

definition cpu_clear_interrupt :: "world \<Rightarrow> world" where
  "cpu_clear_interrupt w = w\<lparr>eflags_if := False\<rparr>"

definition cpu_get_interrupt_state :: "world \<Rightarrow> u32" where
  "cpu_get_interrupt_state w = (if eflags_if w then 1 else 0)"

lemmas io_defs = cpu_outb_def cpu_inb_def cpu_set_interrupt_def cpu_clear_interrupt_def
  cpu_get_interrupt_state_def

lemma cpu_outb_frame [simp]:
  "device (cpu_outb v p w) = device w" "eflags_if (cpu_outb v p w) = eflags_if w"
  "history (cpu_outb v p w) = OutB p v # history w"
  by (simp_all add: cpu_outb_def)

lemma cpu_inb_eq: "cpu_inb p w = (device w (history w) p, w\<lparr>history := InB p # history w\<rparr>)"
  by (simp add: cpu_inb_def)

text \<open>A port is a latch, from now on and as long as only the ports of \<open>P\<close> are accessed, when it
  reads the last value written to it. This is the documented behaviour of a mask register, stated as
  a property of the device.\<close>

fun last_out :: "u16 \<Rightarrow> io_event list \<Rightarrow> u8 option" where
  "last_out p [] = None"
| "last_out p (OutB q v # h) = (if q = p then Some v else last_out p h)"
| "last_out p (InB q # h) = last_out p h"

fun event_port :: "io_event \<Rightarrow> u16" where
  "event_port (OutB p v) = p"
| "event_port (InB p) = p"

definition reads :: "u16 \<Rightarrow> world \<Rightarrow> u8" where
  "reads p w = device w (history w) p"

definition latch :: "u16 set \<Rightarrow> u16 \<Rightarrow> world \<Rightarrow> bool" where
  "latch P p w \<longleftrightarrow>
     (\<forall>es. event_port ` set es \<subseteq> P \<longrightarrow>
        device w (es @ history w) p = (case last_out p es of None \<Rightarrow> reads p w | Some v \<Rightarrow> v))"

lemma last_out_append:
  "last_out p (es @ fs) = (case last_out p es of None \<Rightarrow> last_out p fs | Some v \<Rightarrow> Some v)"
  by (induction p es rule: last_out.induct) auto

lemma latch_outb:
  assumes "latch P p w" "q \<in> P"
  shows "latch P p (cpu_outb v q w)" "reads p (cpu_outb v q w) = (if q = p then v else reads p w)"
proof -
  have r: "reads p (cpu_outb v q w) = (if q = p then v else reads p w)"
    using assms(1) [unfolded latch_def, rule_format, of "[OutB q v]"] assms(2) by (simp add: reads_def)
  moreover have "device w (es @ OutB q v # history w) p =
      (case last_out p es of None \<Rightarrow> if q = p then v else reads p w | Some v \<Rightarrow> v)"
    if "event_port ` set es \<subseteq> P" for es
    using assms(1) [unfolded latch_def, rule_format, of "es @ [OutB q v]"] assms(2) that
    by (auto simp: last_out_append split: option.splits)
  ultimately show "latch P p (cpu_outb v q w)" by (simp add: latch_def cong: option.case_cong)
  show "reads p (cpu_outb v q w) = (if q = p then v else reads p w)" by (fact r)
qed

lemma latch_inb:
  assumes "latch P p w" "q \<in> P"
  shows "latch P p (snd (cpu_inb q w))" "reads p (snd (cpu_inb q w)) = reads p w"
proof -
  have r: "reads p (snd (cpu_inb q w)) = reads p w"
    using assms(1) [unfolded latch_def, rule_format, of "[InB q]"] assms(2)
    by (simp add: reads_def cpu_inb_eq)
  moreover have "device w (es @ InB q # history w) p =
      (case last_out p es of None \<Rightarrow> reads p w | Some v \<Rightarrow> v)"
    if "event_port ` set es \<subseteq> P" for es
    using assms(1) [unfolded latch_def, rule_format, of "es @ [InB q]"] assms(2) that
    by (auto simp: last_out_append split: option.splits)
  ultimately show "latch P p (snd (cpu_inb q w))" by (simp add: latch_def cpu_inb_eq cong: option.case_cong)
  show "reads p (snd (cpu_inb q w)) = reads p w" by (fact r)
qed

lemma fst_cpu_inb: "fst (cpu_inb p w) = reads p w"
  by (simp add: cpu_inb_eq reads_def)

end
