(* ===== verification/HandlerTable.thy ===== *)
theory HandlerTable
  imports Prelude
begin

text \<open>
  The contract of a table of handlers indexed by line: a free line takes a handler, a line that has
  one keeps it until it is removed. The interrupt manager (\<^verbatim>\<open>interrupt/interrupts.c\<close>) and the
  exception manager (\<^verbatim>\<open>interrupt/exceptions.c\<close>) both promise it, on disjoint ranges of the same
  array. What clients conclude (every sequence of requests acts on the table as on a partial map, and a registered
  handler survives every sequence that does not remove it) is proved once here.
\<close>

datatype table_request = Register u32 ptr | Remove u32

text \<open>What a request does to the map of the handlers.\<close>

primrec table_step :: "(u32 \<Rightarrow> bool) \<Rightarrow> table_request \<Rightarrow> (u32 \<rightharpoonup> ptr) \<Rightarrow> u32 \<rightharpoonup> ptr" where
  "table_step valid (Register l h) m = (if valid l \<and> h \<noteq> NULL \<and> m l = None then m(l \<mapsto> h) else m)"
| "table_step valid (Remove l) m = (if valid l then m(l := None) else m)"

definition table_after :: "(u32 \<Rightarrow> bool) \<Rightarrow> table_request list \<Rightarrow> (u32 \<rightharpoonup> ptr) \<Rightarrow> u32 \<rightharpoonup> ptr" where
  "table_after valid rs m = fold (table_step valid) rs m"

locale handler_table =
  fixes inv :: "'s \<Rightarrow> bool"
    and valid :: "u32 \<Rightarrow> bool"
    and handler_of :: "'s \<Rightarrow> u32 \<Rightarrow> ptr option"
    and register :: "u32 \<Rightarrow> ptr \<Rightarrow> 's \<Rightarrow> OS_RETURN_E \<times> 's"
    and remove :: "u32 \<Rightarrow> 's \<Rightarrow> OS_RETURN_E \<times> 's"
  assumes register_free: "inv s \<Longrightarrow> valid l \<Longrightarrow> h \<noteq> NULL \<Longrightarrow> handler_of s l = None \<Longrightarrow>
      \<exists>s'. register l h s = (OS_NO_ERR, s') \<and> inv s' \<and> handler_of s' = (handler_of s)(l \<mapsto> h)"
    and register_taken: "inv s \<Longrightarrow> valid l \<Longrightarrow> h \<noteq> NULL \<Longrightarrow> handler_of s l \<noteq> None \<Longrightarrow>
      register l h s = (OS_ERR_INTERRUPT_ALREADY_REGISTERED, s)"
    and register_null: "valid l \<Longrightarrow> register l NULL s = (OS_ERR_NULL_POINTER, s)"
    and register_invalid: "\<not> valid l \<Longrightarrow> register l h s = (OR_ERR_UNAUTHORIZED_INTERRUPT_LINE, s)"
    and remove_taken: "inv s \<Longrightarrow> valid l \<Longrightarrow> handler_of s l \<noteq> None \<Longrightarrow>
      \<exists>s'. remove l s = (OS_NO_ERR, s') \<and> inv s' \<and> handler_of s' = (handler_of s)(l := None)"
    and remove_free: "inv s \<Longrightarrow> valid l \<Longrightarrow> handler_of s l = None \<Longrightarrow>
      remove l s = (OS_ERR_INTERRUPT_NOT_REGISTERED, s)"
    and remove_invalid: "\<not> valid l \<Longrightarrow> remove l s = (OR_ERR_UNAUTHORIZED_INTERRUPT_LINE, s)"
begin

primrec perform :: "table_request \<Rightarrow> 's \<Rightarrow> 's" where
  "perform (Register l h) s = snd (register l h s)"
| "perform (Remove l) s = snd (remove l s)"

primrec run :: "table_request list \<Rightarrow> 's \<Rightarrow> 's" where
  "run [] s = s"
| "run (r # rs) s = run rs (perform r s)"

lemma perform_table:
  assumes "inv s"
  shows "inv (perform r s) \<and> handler_of (perform r s) = table_step valid r (handler_of s)"
proof (cases r)
  case (Register k g)
  consider "valid k" "g \<noteq> NULL" "handler_of s k = None" | "valid k" "g \<noteq> NULL" "handler_of s k \<noteq> None"
    | "valid k" "g = NULL" | "\<not> valid k" by blast
  then show ?thesis
  proof cases
    case 1
    with register_free [OF assms, of k g] Register show ?thesis by auto
  qed (use assms Register register_taken [OF assms, of k g] register_null [of k s] register_invalid [of k g s] in auto)
next
  case (Remove k)
  consider "valid k" "handler_of s k = None" | "valid k" "handler_of s k \<noteq> None" | "\<not> valid k" by blast
  then show ?thesis
  proof cases
    case 1
    then have "(handler_of s)(k := None) = handler_of s" by auto
    with remove_free [OF assms 1] 1 assms Remove show ?thesis by simp
  next
    case 2
    with remove_taken [OF assms 2] Remove show ?thesis by auto
  qed (use assms Remove remove_invalid [of k s] in auto)
qed

lemma run_table: "inv s \<Longrightarrow> inv (run rs s) \<and> handler_of (run rs s) = table_after valid rs (handler_of s)"
  using perform_table by (induction rs arbitrary: s) (simp_all add: table_after_def)

lemma run_keeps:
  assumes "inv s" "handler_of s l = Some h" "Remove l \<notin> set rs"
  shows "inv (run rs s) \<and> handler_of (run rs s) l = Some h"
proof -
  have "fold (table_step valid) rs m l = Some h" if "m l = Some h" for m
    using that assms(3)
  proof (induction rs arbitrary: m)
    case (Cons r rs)
    have "table_step valid r m l = Some h" using Cons.prems by (cases r) auto
    then show ?case using Cons by simp
  qed simp
  then show ?thesis using run_table [OF assms(1)] assms(2) by (simp add: table_after_def)
qed

text \<open>Registering then removing gives the handlers back.\<close>

lemma register_remove:
  assumes "inv s" "valid l" "h \<noteq> NULL" "handler_of s l = None"
  shows "\<exists>s1 s2. register l h s = (OS_NO_ERR, s1) \<and> remove l s1 = (OS_NO_ERR, s2) \<and>
           inv s2 \<and> handler_of s2 = handler_of s"
proof -
  from register_free [OF assms] obtain s1 where s1: "register l h s = (OS_NO_ERR, s1)" "inv s1"
    "handler_of s1 = (handler_of s)(l \<mapsto> h)" by blast
  from remove_taken [OF s1(2) assms(2)] s1(3) obtain s2 where s2: "remove l s1 = (OS_NO_ERR, s2)"
    "inv s2" "handler_of s2 = (handler_of s1)(l := None)" by auto
  have "handler_of s2 = handler_of s" using s2(3) s1(3) assms(4) by auto
  with s1(1) s2(1,2) show ?thesis by blast
qed

end

end
