(* ===== verification/Interrupts.thy ===== *)
theory Interrupts
  imports Io HandlerTable
begin

text \<open>
  The interrupt manager, \<^verbatim>\<open>Sources/interrupt/interrupts.c\<close>, and the exception manager,
  \<^verbatim>\<open>Sources/interrupt/exceptions.c\<close>, which shares its handler array. Handlers are code addresses;
  the dispatcher \<open>kernel_interrupt_handler\<close> returns the address it calls. The interrupt controller
  driver is the \<^verbatim>\<open>interrupt_driver_t\<close> of function pointers, \<open>None\<close> for a \<^verbatim>\<open>NULL\<close> pointer; a driver
  function acts on the \<open>world\<close> of theory \<open>Io\<close>. The self tests that \<^verbatim>\<open>TEST_MODE_ENABLED\<close> adds to the
  initialisers are not modelled.
\<close>

section \<open>State\<close>

record custom_handler =
  enabled :: u32
  handler :: ptr

datatype INTERRUPT_TYPE_E = INTERRUPT_TYPE_SPURIOUS | INTERRUPT_TYPE_REGULAR

record interrupt_driver_t =
  driver_set_irq_mask :: "(u32 \<Rightarrow> u32 \<Rightarrow> world \<Rightarrow> OS_RETURN_E \<times> world) option"
  driver_set_irq_eoi :: "(u32 \<Rightarrow> world \<Rightarrow> OS_RETURN_E \<times> world) option"
  driver_handle_spurious :: "(u32 \<Rightarrow> world \<Rightarrow> INTERRUPT_TYPE_E \<times> world) option"
  driver_get_irq_int_line :: "(u32 \<Rightarrow> u32) option"

record int_state =
  kernel_interrupt_handlers :: "u32 \<Rightarrow> custom_handler"
  interrupt_driver :: interrupt_driver_t
  spurious_interrupt :: u32
  int_world :: world

definition MIN_INTERRUPT_LINE :: u32 where "MIN_INTERRUPT_LINE = 0x20"
definition INT_ENTRY_COUNT :: u32 where "INT_ENTRY_COUNT = 256"
definition MAX_INTERRUPT_LINE :: u32 where "MAX_INTERRUPT_LINE = INT_ENTRY_COUNT - 1"
definition MIN_EXCEPTION_LINE :: int where "MIN_EXCEPTION_LINE = 0"
definition MAX_EXCEPTION_LINE :: u32 where "MAX_EXCEPTION_LINE = 0x1F"
definition DIV_BY_ZERO_LINE :: u32 where "DIV_BY_ZERO_LINE = 0"
definition SCHEDULER_SW_INT_LINE :: u32 where "SCHEDULER_SW_INT_LINE = 0x21"
definition PANIC_INT_LINE :: u32 where "PANIC_INT_LINE = 0x2A"
definition CPU_EFLAGS_IF :: u32 where "CPU_EFLAGS_IF = 0x200"

lemmas int_line_defs = MIN_INTERRUPT_LINE_def INT_ENTRY_COUNT_def MAX_INTERRUPT_LINE_def
  MIN_EXCEPTION_LINE_def MAX_EXCEPTION_LINE_def DIV_BY_ZERO_LINE_def SCHEDULER_SW_INT_LINE_def
  PANIC_INT_LINE_def CPU_EFLAGS_IF_def

section \<open>The initial driver\<close>

definition init_driver_set_irq_mask :: "u32 \<Rightarrow> u32 \<Rightarrow> world \<Rightarrow> OS_RETURN_E \<times> world" where
  "init_driver_set_irq_mask irq_number en w = (OS_NO_ERR, w)"

definition init_driver_set_irq_eoi :: "u32 \<Rightarrow> world \<Rightarrow> OS_RETURN_E \<times> world" where
  "init_driver_set_irq_eoi irq_number w = (OS_NO_ERR, w)"

definition init_driver_handle_spurious :: "u32 \<Rightarrow> world \<Rightarrow> INTERRUPT_TYPE_E \<times> world" where
  "init_driver_handle_spurious int_number w = (INTERRUPT_TYPE_REGULAR, w)"

definition init_driver_get_irq_int_line :: "u32 \<Rightarrow> u32" where
  "init_driver_get_irq_int_line irq_number = 0"

section \<open>The interrupt flag\<close>

definition kernel_interrupt_get_state :: "int_state \<Rightarrow> u32" where
  "kernel_interrupt_get_state s = cpu_get_interrupt_state (int_world s)"

definition kernel_interrupt_restore :: "u32 \<Rightarrow> int_state \<Rightarrow> int_state" where
  "kernel_interrupt_restore prev_state s =
     (if prev_state \<noteq> 0 then s\<lparr>int_world := cpu_set_interrupt (int_world s)\<rparr> else s)"

definition kernel_interrupt_disable :: "int_state \<Rightarrow> u32 \<times> int_state" where
  "kernel_interrupt_disable s =
     (let old_state = kernel_interrupt_get_state s
      in if old_state = 0 then (0, s)
         else (old_state, s\<lparr>int_world := cpu_clear_interrupt (int_world s)\<rparr>))"

section \<open>Dispatch\<close>

definition spurious_handler :: "int_state \<Rightarrow> int_state" where
  "spurious_handler s = s\<lparr>spurious_interrupt := spurious_interrupt s + 1\<rparr>"

text \<open>What the dispatcher does with an interrupt: ignore it, count it as spurious, or call a
  handler. \<^verbatim>\<open>panic\<close> is the address of the panic routine, which does not return.\<close>

datatype dispatch = Blocked | Spurious | Run ptr

definition cpu_get_saved_interrupt_state :: "u32 \<Rightarrow> u32" where
  "cpu_get_saved_interrupt_state eflags = eflags AND CPU_EFLAGS_IF"

definition kernel_interrupt_handler ::
    "ptr \<Rightarrow> u32 \<Rightarrow> u32 \<Rightarrow> int_state \<Rightarrow> (dispatch \<times> int_state) outcome" where
  "kernel_interrupt_handler panic eflags int_id s =
     (if cpu_get_saved_interrupt_state eflags = 0 \<and> int_id \<noteq> PANIC_INT_LINE \<and>
         int_id \<noteq> SCHEDULER_SW_INT_LINE \<and> int_id \<ge> MIN_INTERRUPT_LINE
      then Ok (Blocked, s)
      else if int_id = PANIC_INT_LINE then Ok (Run panic, s)
      else case driver_handle_spurious (interrupt_driver s) of
             None \<Rightarrow> Fault
           | Some f \<Rightarrow>
               let (ty, w) = f int_id (int_world s);
                   s1 = s\<lparr>int_world := w\<rparr>
               in if ty = INTERRUPT_TYPE_SPURIOUS then Ok (Spurious, spurious_handler s1)
                  else if int_id < INT_ENTRY_COUNT \<and>
                          enabled (kernel_interrupt_handlers s1 int_id) = 1 \<and>
                          handler (kernel_interrupt_handlers s1 int_id) \<noteq> NULL
                  then Ok (Run (handler (kernel_interrupt_handlers s1 int_id)), s1)
                  else Ok (Run panic, s1))"

section \<open>Management\<close>

definition kernel_interrupt_init :: "ptr \<Rightarrow> int_state \<Rightarrow> OS_RETURN_E \<times> int_state" where
  "kernel_interrupt_init panic s =
     (let blank = (\<lambda>_. \<lparr>enabled = 0, handler = NULL\<rparr>);
          s1 = s\<lparr>kernel_interrupt_handlers := blank(PANIC_INT_LINE := \<lparr>enabled = 1, handler = panic\<rparr>)\<rparr>;
          (_, s2) = kernel_interrupt_disable s1
      in (OS_NO_ERR,
          s2\<lparr>interrupt_driver :=
               \<lparr>driver_set_irq_mask = Some init_driver_set_irq_mask,
                driver_set_irq_eoi = Some init_driver_set_irq_eoi,
                driver_handle_spurious = Some init_driver_handle_spurious,
                driver_get_irq_int_line = Some init_driver_get_irq_int_line\<rparr>,
             spurious_interrupt := 0\<rparr>))"

definition kernel_interrupt_set_driver ::
    "interrupt_driver_t option \<Rightarrow> int_state \<Rightarrow> OS_RETURN_E \<times> int_state" where
  "kernel_interrupt_set_driver driver s =
     (case driver of
        None \<Rightarrow> (OS_ERR_NULL_POINTER, s)
      | Some d \<Rightarrow>
          if driver_set_irq_eoi d = None \<or> driver_set_irq_mask d = None \<or>
             driver_handle_spurious d = None \<or> driver_get_irq_int_line d = None
          then (OS_ERR_NULL_POINTER, s)
          else (OS_NO_ERR, s\<lparr>interrupt_driver := d\<rparr>))"

definition set_handler :: "u32 \<Rightarrow> custom_handler \<Rightarrow> int_state \<Rightarrow> int_state" where
  "set_handler line c s =
     s\<lparr>kernel_interrupt_handlers := (kernel_interrupt_handlers s)(line := c)\<rparr>"

definition kernel_interrupt_register_int_handler ::
    "u32 \<Rightarrow> ptr \<Rightarrow> int_state \<Rightarrow> OS_RETURN_E \<times> int_state" where
  "kernel_interrupt_register_int_handler interrupt_line h s =
     (if interrupt_line < MIN_INTERRUPT_LINE \<or> interrupt_line > MAX_INTERRUPT_LINE
      then (OR_ERR_UNAUTHORIZED_INTERRUPT_LINE, s)
      else if h = NULL then (OS_ERR_NULL_POINTER, s)
      else if handler (kernel_interrupt_handlers s interrupt_line) \<noteq> NULL
      then (OS_ERR_INTERRUPT_ALREADY_REGISTERED, s)
      else (OS_NO_ERR, set_handler interrupt_line \<lparr>enabled = 1, handler = h\<rparr> s))"

definition kernel_interrupt_remove_int_handler ::
    "u32 \<Rightarrow> int_state \<Rightarrow> OS_RETURN_E \<times> int_state" where
  "kernel_interrupt_remove_int_handler interrupt_line s =
     (if interrupt_line < MIN_INTERRUPT_LINE \<or> interrupt_line > MAX_INTERRUPT_LINE
      then (OR_ERR_UNAUTHORIZED_INTERRUPT_LINE, s)
      else if handler (kernel_interrupt_handlers s interrupt_line) = NULL
      then (OS_ERR_INTERRUPT_NOT_REGISTERED, s)
      else (OS_NO_ERR, set_handler interrupt_line \<lparr>enabled = 0, handler = NULL\<rparr> s))"

text \<open>The IRQ variants ask the driver for the line; a negative \<^verbatim>\<open>int32_t\<close> is an error.\<close>

definition kernel_interrupt_register_irq_handler ::
    "u32 \<Rightarrow> ptr \<Rightarrow> int_state \<Rightarrow> (OS_RETURN_E \<times> int_state) outcome" where
  "kernel_interrupt_register_irq_handler irq_number h s =
     (case driver_get_irq_int_line (interrupt_driver s) of
        None \<Rightarrow> Fault
      | Some f \<Rightarrow>
          let int_line = f irq_number
          in if sint int_line < 0 then Ok (OS_ERR_NO_SUCH_IRQ_LINE, s)
             else Ok (kernel_interrupt_register_int_handler int_line h s))"

definition kernel_interrupt_remove_irq_handler ::
    "u32 \<Rightarrow> int_state \<Rightarrow> (OS_RETURN_E \<times> int_state) outcome" where
  "kernel_interrupt_remove_irq_handler irq_number s =
     (case driver_get_irq_int_line (interrupt_driver s) of
        None \<Rightarrow> Fault
      | Some f \<Rightarrow>
          let int_line = f irq_number
          in if sint int_line < 0 then Ok (OS_ERR_NO_SUCH_IRQ_LINE, s)
             else Ok (kernel_interrupt_remove_int_handler int_line s))"

definition kernel_interrupt_set_irq_mask ::
    "u32 \<Rightarrow> u32 \<Rightarrow> int_state \<Rightarrow> (OS_RETURN_E \<times> int_state) outcome" where
  "kernel_interrupt_set_irq_mask irq_number en s =
     (case driver_set_irq_mask (interrupt_driver s) of
        None \<Rightarrow> Fault
      | Some f \<Rightarrow> let (e, w) = f irq_number en (int_world s) in Ok (e, s\<lparr>int_world := w\<rparr>))"

definition kernel_interrupt_set_irq_eoi ::
    "u32 \<Rightarrow> int_state \<Rightarrow> (OS_RETURN_E \<times> int_state) outcome" where
  "kernel_interrupt_set_irq_eoi irq_number s =
     (case driver_set_irq_eoi (interrupt_driver s) of
        None \<Rightarrow> Fault
      | Some f \<Rightarrow> let (e, w) = f irq_number (int_world s) in Ok (e, s\<lparr>int_world := w\<rparr>))"

section \<open>Exceptions\<close>

definition kernel_exception_register_handler ::
    "u32 \<Rightarrow> ptr \<Rightarrow> int_state \<Rightarrow> OS_RETURN_E \<times> int_state" where
  "kernel_exception_register_handler exception_line h s =
     (if sint exception_line < MIN_EXCEPTION_LINE \<or> exception_line > MAX_EXCEPTION_LINE
      then (OR_ERR_UNAUTHORIZED_INTERRUPT_LINE, s)
      else if h = NULL then (OS_ERR_NULL_POINTER, s)
      else if handler (kernel_interrupt_handlers s exception_line) \<noteq> NULL
      then (OS_ERR_INTERRUPT_ALREADY_REGISTERED, s)
      else (OS_NO_ERR, set_handler exception_line \<lparr>enabled = 1, handler = h\<rparr> s))"

definition kernel_exception_remove_handler :: "u32 \<Rightarrow> int_state \<Rightarrow> OS_RETURN_E \<times> int_state" where
  "kernel_exception_remove_handler exception_line s =
     (if sint exception_line < MIN_EXCEPTION_LINE \<or> exception_line > MAX_EXCEPTION_LINE
      then (OR_ERR_UNAUTHORIZED_INTERRUPT_LINE, s)
      else if handler (kernel_interrupt_handlers s exception_line) = NULL
      then (OS_ERR_INTERRUPT_NOT_REGISTERED, s)
      else (OS_NO_ERR, set_handler exception_line \<lparr>enabled = 0, handler = NULL\<rparr> s))"

definition kernel_exception_init :: "ptr \<Rightarrow> int_state \<Rightarrow> OS_RETURN_E \<times> int_state" where
  "kernel_exception_init div_by_zero_handler s =
     (let (err, s1) = kernel_exception_register_handler DIV_BY_ZERO_LINE div_by_zero_handler s
      in if err \<noteq> OS_NO_ERR then (err, s1) else (OS_NO_ERR, s1))"

section \<open>The handler table as a partial map\<close>

text \<open>Every entry is enabled exactly when it has a handler.\<close>

definition handlers_ok :: "int_state \<Rightarrow> bool" where
  "handlers_ok s \<longleftrightarrow>
     (\<forall>l. enabled (kernel_interrupt_handlers s l) =
            (if handler (kernel_interrupt_handlers s l) = NULL then 0 else 1))"

definition handler_at :: "int_state \<Rightarrow> u32 \<Rightarrow> ptr option" where
  "handler_at s l =
     (let h = handler (kernel_interrupt_handlers s l) in if h = NULL then None else Some h)"

definition valid_interrupt :: "u32 \<Rightarrow> bool" where
  "valid_interrupt l \<longleftrightarrow> MIN_INTERRUPT_LINE \<le> l \<and> l \<le> MAX_INTERRUPT_LINE"

definition valid_exception :: "u32 \<Rightarrow> bool" where
  "valid_exception l \<longleftrightarrow> l \<le> MAX_EXCEPTION_LINE"

lemma set_handler_ok:
  "handlers_ok s \<Longrightarrow> h \<noteq> NULL \<Longrightarrow> handlers_ok (set_handler l \<lparr>enabled = 1, handler = h\<rparr> s)"
  "handlers_ok s \<Longrightarrow> handlers_ok (set_handler l \<lparr>enabled = 0, handler = NULL\<rparr> s)"
  by (simp_all add: handlers_ok_def set_handler_def)

lemma handler_at_set:
  "h \<noteq> NULL \<Longrightarrow> handler_at (set_handler l \<lparr>enabled = 1, handler = h\<rparr> s) = (handler_at s)(l \<mapsto> h)"
  "handler_at (set_handler l \<lparr>enabled = 0, handler = NULL\<rparr> s) = (handler_at s)(l := None)"
  by (auto simp: handler_at_def set_handler_def)

lemma handler_at_None: "handler_at s l = None \<longleftrightarrow> handler (kernel_interrupt_handlers s l) = NULL"
  by (simp add: handler_at_def Let_def)

lemma driver_update_frame [simp]:
  "handlers_ok (s\<lparr>interrupt_driver := d\<rparr>) = handlers_ok s"
  "handler_at (s\<lparr>interrupt_driver := d\<rparr>) = handler_at s"
  by (simp_all add: handlers_ok_def handler_at_def fun_eq_iff)

lemma valid_exception_sint: "l \<le> MAX_EXCEPTION_LINE \<Longrightarrow> \<not> sint l < MIN_EXCEPTION_LINE"
  by (simp add: int_line_defs word_le_nat_alt sint_small)

interpretation ints: handler_table handlers_ok valid_interrupt handler_at
    kernel_interrupt_register_int_handler kernel_interrupt_remove_int_handler
proof unfold_locales
  fix s l h
  let ?reg = "kernel_interrupt_register_int_handler l h s"
  let ?rem = "kernel_interrupt_remove_int_handler l s"
  show "\<exists>s'. ?reg = (OS_NO_ERR, s') \<and> handlers_ok s' \<and> handler_at s' = (handler_at s)(l \<mapsto> h)"
    if "handlers_ok s" "valid_interrupt l" "h \<noteq> NULL" "handler_at s l = None"
    using that by (auto simp: kernel_interrupt_register_int_handler_def valid_interrupt_def
        handler_at_None set_handler_ok handler_at_set)
  show "?reg = (OS_ERR_INTERRUPT_ALREADY_REGISTERED, s)"
    if "handlers_ok s" "valid_interrupt l" "h \<noteq> NULL" "handler_at s l \<noteq> None"
    using that by (auto simp: kernel_interrupt_register_int_handler_def valid_interrupt_def handler_at_None)
  show "kernel_interrupt_register_int_handler l NULL s = (OS_ERR_NULL_POINTER, s)" if "valid_interrupt l"
    using that by (auto simp: kernel_interrupt_register_int_handler_def valid_interrupt_def)
  show "?reg = (OR_ERR_UNAUTHORIZED_INTERRUPT_LINE, s)" if "\<not> valid_interrupt l"
    using that by (auto simp: kernel_interrupt_register_int_handler_def valid_interrupt_def)
  show "\<exists>s'. ?rem = (OS_NO_ERR, s') \<and> handlers_ok s' \<and> handler_at s' = (handler_at s)(l := None)"
    if "handlers_ok s" "valid_interrupt l" "handler_at s l \<noteq> None"
    using that by (auto simp: kernel_interrupt_remove_int_handler_def valid_interrupt_def
        handler_at_None set_handler_ok handler_at_set)
  show "?rem = (OS_ERR_INTERRUPT_NOT_REGISTERED, s)"
    if "handlers_ok s" "valid_interrupt l" "handler_at s l = None"
    using that by (auto simp: kernel_interrupt_remove_int_handler_def valid_interrupt_def handler_at_None)
  show "?rem = (OR_ERR_UNAUTHORIZED_INTERRUPT_LINE, s)" if "\<not> valid_interrupt l"
    using that by (auto simp: kernel_interrupt_remove_int_handler_def valid_interrupt_def)
qed

lemmas exception_simps = kernel_exception_register_handler_def kernel_exception_remove_handler_def
  valid_exception_def handler_at_None set_handler_ok handler_at_set

interpretation excs: handler_table handlers_ok valid_exception handler_at
    kernel_exception_register_handler kernel_exception_remove_handler
proof unfold_locales
  fix s l h
  let ?reg = "kernel_exception_register_handler l h s"
  let ?rem = "kernel_exception_remove_handler l s"
  show "\<exists>s'. ?reg = (OS_NO_ERR, s') \<and> handlers_ok s' \<and> handler_at s' = (handler_at s)(l \<mapsto> h)"
    if "handlers_ok s" "valid_exception l" "h \<noteq> NULL" "handler_at s l = None"
    using that valid_exception_sint [of l] by (auto simp: exception_simps)
  show "?reg = (OS_ERR_INTERRUPT_ALREADY_REGISTERED, s)"
    if "handlers_ok s" "valid_exception l" "h \<noteq> NULL" "handler_at s l \<noteq> None"
    using that valid_exception_sint [of l] by (auto simp: exception_simps)
  show "kernel_exception_register_handler l NULL s = (OS_ERR_NULL_POINTER, s)" if "valid_exception l"
    using that valid_exception_sint [of l] by (auto simp: exception_simps)
  show "?reg = (OR_ERR_UNAUTHORIZED_INTERRUPT_LINE, s)" if "\<not> valid_exception l"
    using that by (auto simp: exception_simps)
  show "\<exists>s'. ?rem = (OS_NO_ERR, s') \<and> handlers_ok s' \<and> handler_at s' = (handler_at s)(l := None)"
    if "handlers_ok s" "valid_exception l" "handler_at s l \<noteq> None"
    using that valid_exception_sint [of l] by (auto simp: exception_simps)
  show "?rem = (OS_ERR_INTERRUPT_NOT_REGISTERED, s)"
    if "handlers_ok s" "valid_exception l" "handler_at s l = None"
    using that valid_exception_sint [of l] by (auto simp: exception_simps)
  show "?rem = (OR_ERR_UNAUTHORIZED_INTERRUPT_LINE, s)" if "\<not> valid_exception l"
    using that by (auto simp: exception_simps)
qed

lemma kernel_interrupt_init_ok:
  assumes "panic \<noteq> NULL"
  shows "fst (kernel_interrupt_init panic s) = OS_NO_ERR"
    and "handlers_ok (snd (kernel_interrupt_init panic s))"
    and "handler_at (snd (kernel_interrupt_init panic s)) = [PANIC_INT_LINE \<mapsto> panic]"
  using assms
  by (auto simp: kernel_interrupt_init_def handlers_ok_def handler_at_def kernel_interrupt_disable_def
      Let_def split: prod.splits if_splits)

lemma saved_flag: "cpu_get_saved_interrupt_state eflags = 0 \<longleftrightarrow> \<not> bit eflags 9"
proof -
  have "CPU_EFLAGS_IF = 2 ^ 9" by (simp add: CPU_EFLAGS_IF_def)
  then show ?thesis using and_exp_eq_0_iff_not_bit [of eflags 9] unfolding cpu_get_saved_interrupt_state_def by metis
qed

text \<open>The dispatcher on an interrupt that is neither blocked, nor the panic line, nor spurious.\<close>

lemma dispatch_regular:
  assumes "handlers_ok s" "int_id < INT_ENTRY_COUNT" "int_id \<noteq> PANIC_INT_LINE"
    and "eflags AND CPU_EFLAGS_IF \<noteq> 0 \<or> int_id = SCHEDULER_SW_INT_LINE \<or> int_id < MIN_INTERRUPT_LINE"
    and "driver_handle_spurious (interrupt_driver s) = Some f"
    and "f int_id (int_world s) = (INTERRUPT_TYPE_REGULAR, w)"
  shows "kernel_interrupt_handler panic eflags int_id s =
     Ok (Run (case handler_at s int_id of None \<Rightarrow> panic | Some h \<Rightarrow> h), s\<lparr>int_world := w\<rparr>)"
proof -
  have en: "enabled (kernel_interrupt_handlers s int_id) = 1"
    if "handler (kernel_interrupt_handlers s int_id) \<noteq> NULL"
    using assms(1) that unfolding handlers_ok_def by simp
  have "\<not> (cpu_get_saved_interrupt_state eflags = 0 \<and> int_id \<noteq> PANIC_INT_LINE \<and>
         int_id \<noteq> SCHEDULER_SW_INT_LINE \<and> int_id \<ge> MIN_INTERRUPT_LINE)"
    using assms(4) by (auto simp: cpu_get_saved_interrupt_state_def)
  then show ?thesis
    using assms(2,3,5,6) en
    by (simp add: kernel_interrupt_handler_def handler_at_def Let_def)
qed

section \<open>Properties\<close>

definition blank_ints :: int_state where
  "blank_ints =
     \<lparr>kernel_interrupt_handlers = (\<lambda>_. \<lparr>enabled = 0, handler = NULL\<rparr>),
      interrupt_driver = \<lparr>driver_set_irq_mask = None, driver_set_irq_eoi = None,
                          driver_handle_spurious = None, driver_get_irq_int_line = None\<rparr>,
      spurious_interrupt = 0,
      int_world = \<lparr>device = (\<lambda>_ _. 0), history = [], eflags_if = True,
        statics = (\<lambda>_. 0)\<rparr>\<rparr>"

lemma perform_frame:
  "interrupt_driver (ints.perform r s) = interrupt_driver s"
  "int_world (ints.perform r s) = int_world s"
  by (cases r; simp add: kernel_interrupt_register_int_handler_def
      kernel_interrupt_remove_int_handler_def set_handler_def)+

lemma run_frame:
  "interrupt_driver (ints.run rs s) = interrupt_driver s"
  "int_world (ints.run rs s) = int_world s"
  by (induction rs arbitrary: s) (simp_all add: perform_frame)

text \<open>Once a handler is registered on a free line, it is the one called for every interrupt of
  that line that is delivered with interrupts enabled and is not spurious, whatever other handlers
  are registered or removed in between, as long as nobody removes the line's own handler: a second
  registration cannot take a line over.\<close>

theorem kernel_interrupt_registered_runs:
  assumes "handlers_ok s" "MIN_INTERRUPT_LINE \<le> l" "l \<le> MAX_INTERRUPT_LINE" "l \<noteq> PANIC_INT_LINE"
    and "h \<noteq> NULL" "handler_at s l = None" "Remove l \<notin> set rs"
    and "eflags AND CPU_EFLAGS_IF \<noteq> 0"
    and "driver_handle_spurious (interrupt_driver s) = Some f"
    and "f l (int_world s) = (INTERRUPT_TYPE_REGULAR, w)"
  shows "\<exists>s1. kernel_interrupt_register_int_handler l h s = (OS_NO_ERR, s1) \<and>
           kernel_interrupt_handler panic eflags l (ints.run rs s1) =
             Ok (Run h, (ints.run rs s1)\<lparr>int_world := w\<rparr>)"
proof -
  have v: "valid_interrupt l" using assms(2,3) by (simp add: valid_interrupt_def)
  from ints.register_free [OF assms(1) v assms(5,6)] obtain s1 where s1:
    "kernel_interrupt_register_int_handler l h s = (OS_NO_ERR, s1)" "handlers_ok s1"
    "handler_at s1 = (handler_at s)(l \<mapsto> h)" by blast
  have fr: "interrupt_driver s1 = interrupt_driver s" "int_world s1 = int_world s"
    using perform_frame [of "Register l h" s] s1(1) by simp_all
  have k: "handlers_ok (ints.run rs s1)" "handler_at (ints.run rs s1) l = Some h"
    using ints.run_keeps [OF s1(2) _ assms(7), of h] s1(3) by auto
  have "l < INT_ENTRY_COUNT" using assms(3) by (simp add: int_line_defs word_le_nat_alt word_less_nat_alt)
  from dispatch_regular [OF k(1) this assms(4), of eflags f w panic] assms(8-10) k(2) s1(1)
  show ?thesis by (simp add: run_frame fr)
qed

theorem kernel_interrupt_registered_runs_witness:
  "\<exists>s1. kernel_interrupt_register_int_handler 0x30 0xBEEF (snd (kernel_interrupt_init 0xDEAD blank_ints)) =
          (OS_NO_ERR, s1) \<and>
        (\<exists>s2. kernel_interrupt_handler 0xDEAD 0x202 0x30
                (ints.run [Register 0x30 0x66, Register 0x31 0x77, Remove 0x31] s1) = Ok (Run 0xBEEF, s2))"
proof -
  let ?s = "snd (kernel_interrupt_init 0xDEAD blank_ints)"
  have "handlers_ok ?s" "handler_at ?s 0x30 = None"
    using kernel_interrupt_init_ok [of "0xDEAD" blank_ints] by (simp_all add: int_line_defs)
  moreover have "driver_handle_spurious (interrupt_driver ?s) = Some init_driver_handle_spurious"
    by (simp add: kernel_interrupt_init_def Let_def split: prod.splits)
  moreover have "(0x202 :: u32) AND CPU_EFLAGS_IF \<noteq> 0" "MIN_INTERRUPT_LINE \<le> 0x30"
    "0x30 \<le> MAX_INTERRUPT_LINE" "0x30 \<noteq> PANIC_INT_LINE" "(0xBEEF :: ptr) \<noteq> NULL"
    "Remove 0x30 \<notin> set [Register 0x30 0x66, Register 0x31 0x77, Remove 0x31]"
    by (simp_all add: int_line_defs)
  moreover have "init_driver_handle_spurious 0x30 (int_world ?s) = (INTERRUPT_TYPE_REGULAR, int_world ?s)"
    by (simp add: init_driver_handle_spurious_def)
  ultimately show ?thesis using kernel_interrupt_registered_runs by blast
qed

text \<open>C21. The dispatcher, after any sequence of registrations and removals of interrupt handlers: the panic line calls the
  panic routine whatever the interrupt flag was; with the flag (bit 9 of the saved flags) clear every other
  line above the 32 exceptions but the software interrupt 0x21 of the scheduler is ignored and changes
  nothing; what is let through and is spurious is counted and not handled; and the rest calls the
  handler its line has by the requests (a line keeps its first handler until it is removed), or the panic routine when it has none.\<close>

theorem kernel_interrupt_masking:
  assumes "handlers_ok s" "int_id < 256"
    and "driver_handle_spurious (interrupt_driver s) = Some f" "f int_id (int_world s) = (ty, w)"
  shows "kernel_interrupt_handler panic eflags int_id (ints.run rs s) =
     (let s' = ints.run rs s
      in if int_id = 0x2A then Ok (Run panic, s')
         else if \<not> bit eflags 9 \<and> 32 \<le> int_id \<and> int_id \<noteq> 0x21 then Ok (Blocked, s')
         else if ty = INTERRUPT_TYPE_SPURIOUS
         then Ok (Spurious, s'\<lparr>int_world := w, spurious_interrupt := spurious_interrupt s' + 1\<rparr>)
         else Ok (Run (case table_after valid_interrupt rs (handler_at s) int_id of None \<Rightarrow> panic | Some h \<Rightarrow> h),
                  s'\<lparr>int_world := w\<rparr>))"
proof -
  let ?s = "ints.run rs s"
  from ints.run_table [OF assms(1), of rs] have t: "handlers_ok ?s" "handler_at ?s = table_after valid_interrupt rs (handler_at s)"
    by simp_all
  have flag: "cpu_get_saved_interrupt_state eflags = 0 \<longleftrightarrow> \<not> bit eflags 9" by (rule saved_flag)
  have l: "int_id < INT_ENTRY_COUNT" using assms(2) by (simp add: int_line_defs)
  consider "int_id = 0x2A" | "int_id \<noteq> 0x2A" "\<not> bit eflags 9 \<and> 32 \<le> int_id \<and> int_id \<noteq> 0x21"
    | "int_id \<noteq> 0x2A" "bit eflags 9 \<or> int_id < 32 \<or> int_id = 0x21" "ty = INTERRUPT_TYPE_SPURIOUS"
    | "int_id \<noteq> 0x2A" "bit eflags 9 \<or> int_id < 32 \<or> int_id = 0x21" "ty = INTERRUPT_TYPE_REGULAR"
    by (cases ty) fastforce+
  then show ?thesis
  proof cases
    case 4
    then have "f int_id (int_world ?s) = (INTERRUPT_TYPE_REGULAR, w)" "driver_handle_spurious (interrupt_driver ?s) = Some f"
      using assms(3,4) by (simp_all add: run_frame)
    moreover have "eflags AND CPU_EFLAGS_IF \<noteq> 0 \<or> int_id = SCHEDULER_SW_INT_LINE \<or> int_id < MIN_INTERRUPT_LINE"
      using 4(2) flag by (auto simp: int_line_defs cpu_get_saved_interrupt_state_def)
    moreover have "int_id \<noteq> PANIC_INT_LINE" using 4(1) by (simp add: int_line_defs)
    ultimately have "kernel_interrupt_handler panic eflags int_id ?s =
        Ok (Run (case handler_at ?s int_id of None \<Rightarrow> panic | Some h \<Rightarrow> h), ?s\<lparr>int_world := w\<rparr>)"
      using dispatch_regular [OF t(1) l] by blast
    with 4 t(2) show ?thesis by (auto simp: Let_def)
  qed (use assms(3,4) flag in \<open>auto simp: kernel_interrupt_handler_def int_line_defs Let_def run_frame spurious_handler_def not_le\<close>)
qed

theorem kernel_interrupt_masking_witness:
  "let s = snd (kernel_interrupt_init 0xDEAD blank_ints); s' = ints.run [Register 0x30 0xBEEF, Register 0x30 0x66] s
   in kernel_interrupt_handler 0xDEAD 0x2 0x30 s' = Ok (Blocked, s') \<and>
      kernel_interrupt_handler 0xDEAD 0x202 0x30 s' = Ok (Run 0xBEEF, s') \<and>
      kernel_interrupt_handler 0xDEAD 0x2 0x2A s' = Ok (Run 0xDEAD, s')"
proof -
  let ?s = "snd (kernel_interrupt_init 0xDEAD blank_ints)" and ?rs = "[Register 0x30 0xBEEF, Register 0x30 0x66]"
  have h: "handlers_ok ?s" "handler_at ?s = [PANIC_INT_LINE \<mapsto> 0xDEAD]"
    using kernel_interrupt_init_ok [of "0xDEAD" blank_ints] by simp_all
  have d: "driver_handle_spurious (interrupt_driver ?s) = Some init_driver_handle_spurious"
    by (simp add: kernel_interrupt_init_def Let_def split: prod.splits)
  have f: "init_driver_handle_spurious l (int_world ?s) = (INTERRUPT_TYPE_REGULAR, int_world ?s)" for l
    by (simp add: init_driver_handle_spurious_def)
  have w: "(ints.run ?rs ?s)\<lparr>int_world := int_world ?s\<rparr> = ints.run ?rs ?s" using run_frame(2) [of ?rs ?s] by simp
  have t: "table_after valid_interrupt ?rs (handler_at ?s) 0x30 = Some 0xBEEF"
    by (simp add: table_after_def h(2) valid_interrupt_def int_line_defs)
  have b: "\<not> bit (0x2 :: u32) 9" "bit (0x202 :: u32) 9" by (simp_all add: bit_simps)
  show ?thesis
    using kernel_interrupt_masking [OF h(1) _ d f, of "0x30" "0xDEAD" _ ?rs] kernel_interrupt_masking [OF h(1) _ d f, of "0x2A" "0xDEAD" _ ?rs] w t b
    by (simp add: Let_def)
qed

text \<open>\<^verbatim>\<open>kernel_interrupt_disable\<close> clears the interrupt flag and \<^verbatim>\<open>kernel_interrupt_restore\<close> of the
  value it returned gives the state back exactly, so sections that disable interrupts nest.\<close>

theorem kernel_interrupt_disable_restore:
  "let (old, s1) = kernel_interrupt_disable s
   in kernel_interrupt_get_state s1 = 0 \<and> kernel_interrupt_restore old s1 = s"
  by (cases "int_world s")
    (simp add: kernel_interrupt_disable_def kernel_interrupt_restore_def
      kernel_interrupt_get_state_def io_defs Let_def)

text \<open>An IRQ handler is registered on the line the driver gives, and removing it restores the
  handler table; an IRQ the driver does not know (a negative line) is refused with
  \<^verbatim>\<open>OS_ERR_NO_SUCH_IRQ_LINE\<close> and changes nothing.\<close>

theorem kernel_interrupt_irq_roundtrip:
  assumes "handlers_ok s" "driver_get_irq_int_line (interrupt_driver s) = Some f" "h \<noteq> NULL"
    and "sint (f irq) \<ge> 0 \<Longrightarrow> valid_interrupt (f irq) \<and> handler_at s (f irq) = None"
  shows "if sint (f irq) < 0
         then kernel_interrupt_register_irq_handler irq h s = Ok (OS_ERR_NO_SUCH_IRQ_LINE, s)
         else \<exists>s1 s2. kernel_interrupt_register_irq_handler irq h s = Ok (OS_NO_ERR, s1) \<and>
                handler_at s1 = (handler_at s)(f irq \<mapsto> h) \<and>
                kernel_interrupt_remove_irq_handler irq s1 = Ok (OS_NO_ERR, s2) \<and>
                handlers_ok s2 \<and> handler_at s2 = handler_at s"
proof (cases "sint (f irq) < 0")
  case True
  then show ?thesis using assms(2) by (simp add: kernel_interrupt_register_irq_handler_def Let_def)
next
  case False
  then have v: "valid_interrupt (f irq)" "handler_at s (f irq) = None" using assms(4) by auto
  from ints.register_free [OF assms(1) v(1) assms(3) v(2)] ints.register_remove [OF assms(1) v(1) assms(3) v(2)]
  obtain s1 s2 where s12: "kernel_interrupt_register_int_handler (f irq) h s = (OS_NO_ERR, s1)"
    "handler_at s1 = (handler_at s)(f irq \<mapsto> h)"
    "kernel_interrupt_remove_int_handler (f irq) s1 = (OS_NO_ERR, s2)"
    "handlers_ok s2" "handler_at s2 = handler_at s" by auto
  moreover have "interrupt_driver s1 = interrupt_driver s"
    using perform_frame(1) [of "Register (f irq) h" s] s12(1) by simp
  ultimately show ?thesis using False assms(2)
    by (auto simp: kernel_interrupt_register_irq_handler_def kernel_interrupt_remove_irq_handler_def Let_def)
qed

theorem kernel_interrupt_irq_roundtrip_witness:
  "let s = (snd (kernel_interrupt_init 0xDEAD blank_ints))
             \<lparr>interrupt_driver := \<lparr>driver_set_irq_mask = None, driver_set_irq_eoi = None,
                 driver_handle_spurious = None, driver_get_irq_int_line = Some (\<lambda>i. i + 0x30)\<rparr>\<rparr>
   in \<exists>s1. kernel_interrupt_register_irq_handler 1 0xBEEF s = Ok (OS_NO_ERR, s1)"
proof -
  let ?d = "\<lparr>driver_set_irq_mask = None, driver_set_irq_eoi = None,
                 driver_handle_spurious = None, driver_get_irq_int_line = Some (\<lambda>i. i + 0x30)\<rparr>"
  let ?s = "(snd (kernel_interrupt_init 0xDEAD blank_ints))\<lparr>interrupt_driver := ?d\<rparr>"
  have "handlers_ok ?s" "handler_at ?s 0x31 = None"
    using kernel_interrupt_init_ok [of "0xDEAD" blank_ints]
    by (simp_all add: int_line_defs)
  then show ?thesis
    using kernel_interrupt_irq_roundtrip [of ?s "\<lambda>i. i + 0x30" "0xBEEF" 1]
    by (auto simp: valid_interrupt_def int_line_defs sint_small Let_def)
qed

end
