(* ===== verification/Pic.thy ===== *)
theory Pic
  imports Interrupts
begin

text \<open>
  The 8259A interrupt controllers, \<^verbatim>\<open>Sources/arch/x86/pic.c\<close>, as a driver of theory \<open>Interrupts\<close>
  acting on the ports of theory \<open>Io\<close>. The self test is not modelled.
\<close>

section \<open>Constants\<close>

definition PIC_MASTER_COMM_PORT :: u16 where "PIC_MASTER_COMM_PORT = 0x20"
definition PIC_MASTER_DATA_PORT :: u16 where "PIC_MASTER_DATA_PORT = 0x21"
definition PIC_SLAVE_COMM_PORT :: u16 where "PIC_SLAVE_COMM_PORT = 0xA0"
definition PIC_SLAVE_DATA_PORT :: u16 where "PIC_SLAVE_DATA_PORT = 0xA1"
definition PIC_EOI :: u8 where "PIC_EOI = 0x20"
definition PIC_READ_ISR :: u8 where "PIC_READ_ISR = 0x0B"
definition PIC_SPURIOUS_IRQ_MASK :: u8 where "PIC_SPURIOUS_IRQ_MASK = 0x80"
definition PIC_ICW1_ICW4 :: u8 where "PIC_ICW1_ICW4 = 0x01"
definition PIC_ICW1_INIT :: u8 where "PIC_ICW1_INIT = 0x10"
definition PIC_ICW4_8086 :: u8 where "PIC_ICW4_8086 = 0x01"
definition INT_PIC_IRQ_OFFSET :: u32 where "INT_PIC_IRQ_OFFSET = 0x30"
definition PIC_MAX_IRQ_LINE :: u32 where "PIC_MAX_IRQ_LINE = 15"
definition PIC_CASCADING_IRQ :: nat where "PIC_CASCADING_IRQ = 2"
definition PIC_SPURIOUS_IRQ_MASTER :: u32 where "PIC_SPURIOUS_IRQ_MASTER = 0x07"
definition PIC_SPURIOUS_IRQ_SLAVE :: u32 where "PIC_SPURIOUS_IRQ_SLAVE = 0x0F"

lemmas pic_consts = PIC_MASTER_COMM_PORT_def PIC_MASTER_DATA_PORT_def PIC_SLAVE_COMM_PORT_def
  PIC_SLAVE_DATA_PORT_def PIC_EOI_def PIC_READ_ISR_def PIC_SPURIOUS_IRQ_MASK_def PIC_ICW1_ICW4_def
  PIC_ICW1_INIT_def PIC_ICW4_8086_def INT_PIC_IRQ_OFFSET_def PIC_MAX_IRQ_LINE_def
  PIC_CASCADING_IRQ_def PIC_SPURIOUS_IRQ_MASTER_def PIC_SPURIOUS_IRQ_SLAVE_def

section \<open>Operations\<close>

definition pic_init :: "world \<Rightarrow> OS_RETURN_E \<times> world" where
  "pic_init w =
     (let w = cpu_outb (PIC_ICW1_ICW4 OR PIC_ICW1_INIT) PIC_MASTER_COMM_PORT w;
          w = cpu_outb (ucast INT_PIC_IRQ_OFFSET) PIC_MASTER_DATA_PORT w;
          w = cpu_outb 0x4 PIC_MASTER_DATA_PORT w;
          w = cpu_outb PIC_ICW4_8086 PIC_MASTER_DATA_PORT w;
          w = cpu_outb (PIC_ICW1_ICW4 OR PIC_ICW1_INIT) PIC_SLAVE_COMM_PORT w;
          w = cpu_outb (ucast (INT_PIC_IRQ_OFFSET + 8)) PIC_SLAVE_DATA_PORT w;
          w = cpu_outb 0x2 PIC_SLAVE_DATA_PORT w;
          w = cpu_outb PIC_ICW4_8086 PIC_SLAVE_DATA_PORT w;
          w = cpu_outb PIC_EOI PIC_MASTER_COMM_PORT w;
          w = cpu_outb PIC_EOI PIC_SLAVE_COMM_PORT w;
          w = cpu_outb 0xFF PIC_MASTER_DATA_PORT w;
          w = cpu_outb 0xFF PIC_SLAVE_DATA_PORT w
      in (OS_NO_ERR, w))"

text \<open>The new value of a mask register: the bit is set to disable the line.\<close>

definition new_mask :: "u8 \<Rightarrow> nat \<Rightarrow> u32 \<Rightarrow> u8" where
  "new_mask init_mask i en =
     (if en = 0 then init_mask OR push_bit i 1 else init_mask AND NOT (push_bit i 1))"

definition pic_set_irq_mask :: "u32 \<Rightarrow> u32 \<Rightarrow> world \<Rightarrow> OS_RETURN_E \<times> world" where
  "pic_set_irq_mask irq_number en w =
     (if irq_number > PIC_MAX_IRQ_LINE then (OS_ERR_NO_SUCH_IRQ_LINE, w)
      else if irq_number < 8 then
        let (init_mask, w) = cpu_inb PIC_MASTER_DATA_PORT w;
            w = cpu_outb (new_mask init_mask (unat irq_number) en) PIC_MASTER_DATA_PORT w
        in (OS_NO_ERR, w)
      else
        let cascading_number = irq_number - 8;
            (init_mask, w) = cpu_inb PIC_MASTER_DATA_PORT w;
            w = cpu_outb (init_mask AND NOT (push_bit PIC_CASCADING_IRQ 1)) PIC_MASTER_DATA_PORT w;
            (init_mask, w) = cpu_inb PIC_SLAVE_DATA_PORT w;
            init_mask = new_mask init_mask (unat cascading_number) en;
            w = cpu_outb init_mask PIC_SLAVE_DATA_PORT w
        in if init_mask = 0xFF
           then let (init_mask, w) = cpu_inb PIC_MASTER_DATA_PORT w;
                    w = cpu_outb (init_mask OR push_bit PIC_CASCADING_IRQ 1) PIC_MASTER_DATA_PORT w
                in (OS_NO_ERR, w)
           else (OS_NO_ERR, w))"

definition pic_set_irq_eoi :: "u32 \<Rightarrow> world \<Rightarrow> OS_RETURN_E \<times> world" where
  "pic_set_irq_eoi irq_number w =
     (if irq_number > PIC_MAX_IRQ_LINE then (OS_ERR_NO_SUCH_IRQ_LINE, w)
      else
        let w = (if irq_number > 7 then cpu_outb PIC_EOI PIC_SLAVE_COMM_PORT w else w)
        in (OS_NO_ERR, cpu_outb PIC_EOI PIC_MASTER_COMM_PORT w))"

definition pic_handle_spurious_irq :: "u32 \<Rightarrow> world \<Rightarrow> INTERRUPT_TYPE_E \<times> world" where
  "pic_handle_spurious_irq int_number w =
     (let irq_number = int_number - INT_PIC_IRQ_OFFSET
      in if irq_number > PIC_MAX_IRQ_LINE then (INTERRUPT_TYPE_REGULAR, w)
         else if irq_number > 7 then
           (if irq_number \<noteq> PIC_SPURIOUS_IRQ_SLAVE then (INTERRUPT_TYPE_REGULAR, w)
            else
              let w = cpu_outb PIC_READ_ISR PIC_SLAVE_COMM_PORT w;
                  (isr_val, w) = cpu_inb PIC_SLAVE_COMM_PORT w
              in if isr_val AND PIC_SPURIOUS_IRQ_MASK \<noteq> 0 then (INTERRUPT_TYPE_REGULAR, w)
                 else (INTERRUPT_TYPE_SPURIOUS, snd (pic_set_irq_eoi (of_nat PIC_CASCADING_IRQ) w)))
         else
           (if irq_number \<noteq> PIC_SPURIOUS_IRQ_MASTER then (INTERRUPT_TYPE_REGULAR, w)
            else
              let w = cpu_outb PIC_READ_ISR PIC_MASTER_COMM_PORT w;
                  (isr_val, w) = cpu_inb PIC_MASTER_COMM_PORT w
              in if isr_val AND PIC_SPURIOUS_IRQ_MASK \<noteq> 0 then (INTERRUPT_TYPE_REGULAR, w)
                 else (INTERRUPT_TYPE_SPURIOUS, w)))"

definition pic_disable :: "world \<Rightarrow> OS_RETURN_E \<times> world" where
  "pic_disable w =
     (OS_NO_ERR, cpu_outb 0xFF PIC_SLAVE_DATA_PORT (cpu_outb 0xFF PIC_MASTER_DATA_PORT w))"

definition pic_get_irq_int_line :: "u32 \<Rightarrow> u32" where
  "pic_get_irq_int_line irq_number =
     (if irq_number > PIC_MAX_IRQ_LINE then - 1 else irq_number + INT_PIC_IRQ_OFFSET)"

definition pic_driver :: interrupt_driver_t where
  "pic_driver =
     \<lparr>driver_set_irq_mask = Some pic_set_irq_mask,
      driver_set_irq_eoi = Some pic_set_irq_eoi,
      driver_handle_spurious = Some pic_handle_spurious_irq,
      driver_get_irq_int_line = Some pic_get_irq_int_line\<rparr>"

section \<open>Mask registers\<close>

definition pic_data_ports :: "u16 set" where
  "pic_data_ports = {PIC_MASTER_DATA_PORT, PIC_SLAVE_DATA_PORT}"

definition pic_quiet_ports :: "u16 set" where
  "pic_quiet_ports = - {PIC_MASTER_COMM_PORT, PIC_SLAVE_COMM_PORT}"

text \<open>The mask registers behave as documented: they read the last value written, whatever is done to the
  ports of other devices, as long as no command is given to a controller.\<close>

definition pic_ready :: "world \<Rightarrow> bool" where
  "pic_ready w \<longleftrightarrow> latch pic_quiet_ports PIC_MASTER_DATA_PORT w \<and> latch pic_quiet_ports PIC_SLAVE_DATA_PORT w"

definition irq_masked :: "world \<Rightarrow> nat \<Rightarrow> bool" where
  "irq_masked w i \<longleftrightarrow>
     (if i < 8 then bit (reads PIC_MASTER_DATA_PORT w) i else bit (reads PIC_SLAVE_DATA_PORT w) (i - 8))"

lemma bit_new_mask: "i < 8 \<Longrightarrow> bit (new_mask m i en) j \<longleftrightarrow> j < 8 \<and> (if j = i then en = 0 else bit m j)"
  by (auto simp: new_mask_def bit_simps dest: bit_imp_le_length)

lemma pic_ready_steps:
  assumes "pic_ready w"
  shows "q \<in> pic_quiet_ports \<Longrightarrow> pic_ready (cpu_outb v q w)"
    and "q \<in> pic_quiet_ports \<Longrightarrow> pic_ready (snd (cpu_inb q w))"
    and "p \<in> pic_data_ports \<Longrightarrow> q \<in> pic_quiet_ports \<Longrightarrow>
           reads p (cpu_outb v q w) = (if q = p then v else reads p w)"
    and "p \<in> pic_data_ports \<Longrightarrow> q \<in> pic_quiet_ports \<Longrightarrow> reads p (snd (cpu_inb q w)) = reads p w"
  using assms latch_outb latch_inb by (auto simp: pic_ready_def pic_data_ports_def)

lemma pic_ports:
  "PIC_MASTER_DATA_PORT \<in> pic_data_ports" "PIC_SLAVE_DATA_PORT \<in> pic_data_ports"
  "PIC_MASTER_DATA_PORT \<in> pic_quiet_ports" "PIC_SLAVE_DATA_PORT \<in> pic_quiet_ports"
  "PIC_MASTER_DATA_PORT \<noteq> PIC_SLAVE_DATA_PORT" "PIC_SLAVE_DATA_PORT \<noteq> PIC_MASTER_DATA_PORT"
  by (simp_all add: pic_data_ports_def pic_quiet_ports_def pic_consts)

lemma pic_master_mask:
  assumes "pic_ready w" "irq < 8"
  obtains w' where "pic_set_irq_mask irq en w = (OS_NO_ERR, w')" "pic_ready w'"
    "reads PIC_MASTER_DATA_PORT w' = new_mask (reads PIC_MASTER_DATA_PORT w) (unat irq) en"
    "reads PIC_SLAVE_DATA_PORT w' = reads PIC_SLAVE_DATA_PORT w"
proof -
  let ?w1 = "snd (cpu_inb PIC_MASTER_DATA_PORT w)"
  let ?w2 = "cpu_outb (new_mask (reads PIC_MASTER_DATA_PORT w) (unat irq) en) PIC_MASTER_DATA_PORT ?w1"
  have r1: "pic_ready ?w1" using pic_ready_steps(2) [OF assms(1)] pic_ports by blast
  have "\<not> PIC_MAX_IRQ_LINE < irq"
    using assms(2) by (simp add: pic_consts word_less_nat_alt)
  then have "pic_set_irq_mask irq en w = (OS_NO_ERR, ?w2)"
    using assms(2) by (simp add: pic_set_irq_mask_def Let_def case_prod_beta fst_cpu_inb)
  then show thesis
    using that [of ?w2] pic_ready_steps(1,3) [OF r1] pic_ready_steps(4) [OF assms(1)] pic_ports by simp
qed

lemma and_not_or: "(a AND NOT b) OR b = a OR b" for a b :: "'a::len word"
  by (rule bit_eqI) (auto simp: bit_or_iff bit_and_iff bit_not_iff)

lemma pic_slave_mask:
  assumes "pic_ready w" "8 \<le> irq" "irq \<le> 15"
  obtains w' where "pic_set_irq_mask irq en w = (OS_NO_ERR, w')" "pic_ready w'"
    "reads PIC_SLAVE_DATA_PORT w' = new_mask (reads PIC_SLAVE_DATA_PORT w) (unat (irq - 8)) en"
    "reads PIC_MASTER_DATA_PORT w' =
       new_mask (reads PIC_MASTER_DATA_PORT w) 2 (if reads PIC_SLAVE_DATA_PORT w' = 0xFF then 0 else 1)"
proof -
  let ?M = PIC_MASTER_DATA_PORT and ?S = PIC_SLAVE_DATA_PORT
  let ?m = "reads ?M w AND NOT (push_bit PIC_CASCADING_IRQ 1)"
  let ?s = "new_mask (reads ?S w) (unat (irq - 8)) en"
  define w1 where "w1 = snd (cpu_inb ?M w)"
  define w2 where "w2 = cpu_outb ?m ?M w1"
  define w3 where "w3 = snd (cpu_inb ?S w2)"
  define w4 where "w4 = cpu_outb ?s ?S w3"
  define w5 where "w5 = snd (cpu_inb ?M w4)"
  define w6 where "w6 = cpu_outb (?m OR push_bit PIC_CASCADING_IRQ 1) ?M w5"
  note step = pic_ready_steps pic_ports
  have r1: "pic_ready w1" "reads ?M w1 = reads ?M w" "reads ?S w1 = reads ?S w"
    using step(2,4) [OF assms(1)] pic_ports by (simp_all add: w1_def)
  have r2: "pic_ready w2" "reads ?M w2 = ?m" "reads ?S w2 = reads ?S w"
    using step(1,3) [OF r1(1)] r1 pic_ports by (simp_all add: w2_def)
  have r3: "pic_ready w3" "reads ?M w3 = ?m" "reads ?S w3 = reads ?S w"
    using step(2,4) [OF r2(1)] r2 pic_ports by (simp_all add: w3_def)
  have r4: "pic_ready w4" "reads ?M w4 = ?m" "reads ?S w4 = ?s"
    using step(1,3) [OF r3(1)] r3 pic_ports by (simp_all add: w4_def)
  have r5: "pic_ready w5" "reads ?M w5 = ?m" "reads ?S w5 = ?s"
    using step(2,4) [OF r4(1)] r4 pic_ports by (simp_all add: w5_def)
  have r6: "pic_ready w6" "reads ?M w6 = ?m OR push_bit PIC_CASCADING_IRQ 1" "reads ?S w6 = ?s"
    using step(1,3) [OF r5(1)] r5 pic_ports by (simp_all add: w6_def)
  have lim: "\<not> PIC_MAX_IRQ_LINE < irq" "\<not> irq < 8" using assms(2,3) by (auto simp: pic_consts)
  have eq: "pic_set_irq_mask irq en w = (OS_NO_ERR, if ?s = 0xFF then w6 else w4)"
  proof -
    have i: "cpu_inb ?M w = (reads ?M w, w1)" "cpu_inb ?S w2 = (reads ?S w, w3)"
      "cpu_inb ?M w4 = (?m, w5)"
      using r2(3) r4(2) by (simp_all add: prod_eq_iff fst_cpu_inb w1_def w3_def w5_def)
    show ?thesis unfolding pic_set_irq_mask_def Let_def i case_prod_conv
        w2_def [symmetric] i case_prod_conv w4_def [symmetric] i case_prod_conv w6_def [symmetric]
      using lim by simp
  qed
  have "?m OR push_bit PIC_CASCADING_IRQ 1 = new_mask (reads ?M w) 2 0" "?m = new_mask (reads ?M w) 2 1"
    using and_not_or [of "reads ?M w" "push_bit 2 1"] by (simp_all add: new_mask_def PIC_CASCADING_IRQ_def)
  then show thesis using that [OF eq] r4 r6 by (cases "?s = 0xFF") simp_all
qed

lemma all_ones_u8: "m = 0xFF \<longleftrightarrow> (\<forall>j < 8. bit m j)" for m :: u8
proof -
  have "(0xFF :: u8) = mask 8" by (simp add: mask_eq_exp_minus_1)
  then show ?thesis by (simp add: bit_eq_iff bit_mask_iff)
qed

text \<open>What a device driver sees of the controllers when it masks or unmasks its line. A line is open when its
  interrupts reach the processor: an IRQ of the slave also needs the cascade line.\<close>

definition on_pic :: "int_state \<Rightarrow> bool" where
  "on_pic s \<longleftrightarrow> interrupt_driver s = pic_driver \<and> pic_ready (int_world s)"

definition irq_open :: "u32 \<Rightarrow> int_state \<Rightarrow> bool" where
  "irq_open irq s \<longleftrightarrow>
     \<not> irq_masked (int_world s) (unat irq) \<and> (8 \<le> irq \<longrightarrow> \<not> irq_masked (int_world s) PIC_CASCADING_IRQ)"

lemma pic_mask_statics: "statics (snd (pic_set_irq_mask irq en w)) = statics w"
  by (simp add: pic_set_irq_mask_def Let_def case_prod_beta cpu_outb_def cpu_inb_def)

lemma irq_open_master: "i < 8 \<Longrightarrow> irq_open i s \<longleftrightarrow> \<not> bit (reads PIC_MASTER_DATA_PORT (int_world s)) (unat i)"
  by (simp add: irq_open_def irq_masked_def word_less_nat_alt word_le_nat_alt)

lemma irq_open_slave:
  "8 \<le> i \<Longrightarrow> irq_open i s \<longleftrightarrow> \<not> bit (reads PIC_SLAVE_DATA_PORT (int_world s)) (unat i - 8) \<and>
     \<not> bit (reads PIC_MASTER_DATA_PORT (int_world s)) 2"
  by (simp add: irq_open_def irq_masked_def word_le_nat_alt PIC_CASCADING_IRQ_def)

lemma pic_mask_world:
  assumes "pic_ready (int_world s)" "irq \<le> 15"
  obtains w where "pic_set_irq_mask irq en (int_world s) = (OS_NO_ERR, w)" "pic_ready w"
    "irq_open irq (s\<lparr>int_world := w\<rparr>) \<longleftrightarrow> en \<noteq> 0"
    "\<And>j. (j < 8) \<noteq> (irq < 8) \<Longrightarrow> j \<noteq> 2 \<Longrightarrow> irq \<noteq> 2 \<Longrightarrow> irq_open j (s\<lparr>int_world := w\<rparr>) = irq_open j s"
proof (cases "irq < 8")
  case True
  then have u: "unat irq < 8" by (simp add: word_less_nat_alt)
  have ne: "irq \<noteq> 2 \<Longrightarrow> unat irq \<noteq> 2" by (simp add: word_unat_eq_iff)
  from pic_master_mask [OF assms(1) True, of en] obtain w where w:
    "pic_set_irq_mask irq en (int_world s) = (OS_NO_ERR, w)" "pic_ready w"
    "reads PIC_MASTER_DATA_PORT w = new_mask (reads PIC_MASTER_DATA_PORT (int_world s)) (unat irq) en"
    "reads PIC_SLAVE_DATA_PORT w = reads PIC_SLAVE_DATA_PORT (int_world s)" .
  show thesis
  proof (rule that [OF w(1,2)])
    show "irq_open irq (s\<lparr>int_world := w\<rparr>) \<longleftrightarrow> en \<noteq> 0"
      using True u by (simp add: irq_open_master w(3) bit_new_mask)
    fix j :: u32 assume "(j < 8) \<noteq> (irq < 8)" "irq \<noteq> 2"
    then show "irq_open j (s\<lparr>int_world := w\<rparr>) = irq_open j s"
      using True u ne by (simp add: irq_open_slave w(3,4) bit_new_mask)
  qed
next
  case False
  then have ge: "8 \<le> irq" by simp
  have u: "8 \<le> unat irq" "unat (irq - 8) = unat irq - 8" "unat irq - 8 < 8"
    using ge assms(2) by (simp_all add: word_le_nat_alt unat_sub_if')
  from pic_slave_mask [OF assms(1) ge assms(2), of en] obtain w where w:
    "pic_set_irq_mask irq en (int_world s) = (OS_NO_ERR, w)" "pic_ready w"
    "reads PIC_SLAVE_DATA_PORT w = new_mask (reads PIC_SLAVE_DATA_PORT (int_world s)) (unat (irq - 8)) en"
    "reads PIC_MASTER_DATA_PORT w = new_mask (reads PIC_MASTER_DATA_PORT (int_world s)) 2
       (if reads PIC_SLAVE_DATA_PORT w = 0xFF then 0 else 1)" .
  have line: "bit (reads PIC_SLAVE_DATA_PORT w) (unat irq - 8) \<longleftrightarrow> en = 0" using u by (simp add: w(3) bit_new_mask)
  then have all: "en \<noteq> 0 \<Longrightarrow> reads PIC_SLAVE_DATA_PORT w \<noteq> 0xFF" using u(3) unfolding all_ones_u8 by blast
  show thesis
  proof (rule that [OF w(1,2)])
    show "irq_open irq (s\<lparr>int_world := w\<rparr>) \<longleftrightarrow> en \<noteq> 0"
      using ge line all by (auto simp: irq_open_slave w(4) bit_new_mask)
    fix j :: u32 assume j: "(j < 8) \<noteq> (irq < 8)" "j \<noteq> 2"
    then have "unat j \<noteq> 2" by (simp add: word_unat_eq_iff)
    then show "irq_open j (s\<lparr>int_world := w\<rparr>) = irq_open j s"
      using False j(1) by (simp add: irq_open_master w(4) bit_new_mask word_less_nat_alt)
  qed
qed

lemma pic_mask_line:
  assumes "on_pic s" "irq \<le> 15"
  obtains s' where "kernel_interrupt_set_irq_mask irq en s = Ok (OS_NO_ERR, s')" "on_pic s'"
    "statics (int_world s') = statics (int_world s)" "kernel_interrupt_handlers s' = kernel_interrupt_handlers s"
    "irq_open irq s' \<longleftrightarrow> en \<noteq> 0"
    "\<And>j. (j < 8) \<noteq> (irq < 8) \<Longrightarrow> j \<noteq> 2 \<Longrightarrow> irq \<noteq> 2 \<Longrightarrow> irq_open j s' = irq_open j s"
proof -
  have s: "interrupt_driver s = pic_driver" "pic_ready (int_world s)" using assms(1) by (simp_all add: on_pic_def)
  obtain w where w: "pic_set_irq_mask irq en (int_world s) = (OS_NO_ERR, w)" "pic_ready w"
    "irq_open irq (s\<lparr>int_world := w\<rparr>) \<longleftrightarrow> en \<noteq> 0"
    "\<And>j. (j < 8) \<noteq> (irq < 8) \<Longrightarrow> j \<noteq> 2 \<Longrightarrow> irq \<noteq> 2 \<Longrightarrow> irq_open j (s\<lparr>int_world := w\<rparr>) = irq_open j s"
    using pic_mask_world [OF s(2) assms(2), of en] by blast
  have "statics w = statics (int_world s)" using pic_mask_statics [of irq en "int_world s"] w(1) by simp
  moreover have "kernel_interrupt_set_irq_mask irq en s = Ok (OS_NO_ERR, s\<lparr>int_world := w\<rparr>)"
    using s(1) w(1) by (simp add: kernel_interrupt_set_irq_mask_def pic_driver_def)
  ultimately show thesis using that [of "s\<lparr>int_world := w\<rparr>"] s(1) w(2-4) by (simp add: on_pic_def)
qed

section \<open>Properties\<close>

lemma all_8_15: "(\<forall>i \<in> {8..15}. P (i - 8)) \<longleftrightarrow> (\<forall>j < 8. P j)" for P :: "nat \<Rightarrow> bool"
proof
  assume a: "\<forall>i \<in> {8..15}. P (i - 8)"
  show "\<forall>j < 8. P j"
  proof (intro allI impI)
    fix j :: nat assume "j < 8"
    then show "P j" using a [rule_format, of "j + 8"] by simp
  qed
qed auto

text \<open>Masking on the 8259A pair is exact: enabling or disabling an IRQ changes the mask bit of
  that IRQ and of no other, the cascade line apart, which an operation on an IRQ of the slave leaves
  open exactly when some IRQ of the slave is enabled. Numbers above 15 are refused and touch no
  port.\<close>

theorem pic_set_irq_mask_exact:
  assumes "pic_ready w" "irq \<le> PIC_MAX_IRQ_LINE"
  shows "\<exists>w'. pic_set_irq_mask irq en w = (OS_NO_ERR, w') \<and> pic_ready w' \<and>
           (\<forall>i < 16. i \<noteq> PIC_CASCADING_IRQ \<or> irq < 8 \<longrightarrow>
              irq_masked w' i = (if i = unat irq then en = 0 else irq_masked w i)) \<and>
           (8 \<le> irq \<longrightarrow>
              irq_masked w' PIC_CASCADING_IRQ = (\<forall>i \<in> {8..15}. irq_masked w' i))"
proof (cases "irq < 8")
  case True
  then have u: "unat irq < 8" by (simp add: word_less_nat_alt)
  from pic_master_mask [OF assms(1) True, of en] obtain w' where w':
    "pic_set_irq_mask irq en w = (OS_NO_ERR, w')" "pic_ready w'"
    "reads PIC_MASTER_DATA_PORT w' = new_mask (reads PIC_MASTER_DATA_PORT w) (unat irq) en"
    "reads PIC_SLAVE_DATA_PORT w' = reads PIC_SLAVE_DATA_PORT w" .
  have "irq_masked w' i = (if i = unat irq then en = 0 else irq_masked w i)" if "i < 16" for i
    using u by (auto simp: irq_masked_def w'(3,4) bit_new_mask)
  then show ?thesis using w'(1,2) True by (auto simp: not_le)
next
  case False
  then have ge: "8 \<le> irq" and le: "irq \<le> 15" using assms(2) by (auto simp: pic_consts not_less)
  have u: "8 \<le> unat irq" "unat irq \<le> 15" "unat (irq - 8) = unat irq - 8"
    using ge le by (simp_all add: word_le_nat_alt unat_sub_if')
  from pic_slave_mask [OF assms(1) ge le, of en] obtain w' where w':
    "pic_set_irq_mask irq en w = (OS_NO_ERR, w')" "pic_ready w'"
    "reads PIC_SLAVE_DATA_PORT w' = new_mask (reads PIC_SLAVE_DATA_PORT w) (unat (irq - 8)) en"
    "reads PIC_MASTER_DATA_PORT w' =
       new_mask (reads PIC_MASTER_DATA_PORT w) 2 (if reads PIC_SLAVE_DATA_PORT w' = 0xFF then 0 else 1)" .
  have "irq_masked w' i = (if i = unat irq then en = 0 else irq_masked w i)"
    if "i < 16" "i \<noteq> PIC_CASCADING_IRQ" for i
    using u that by (auto simp: irq_masked_def w'(4) bit_new_mask PIC_CASCADING_IRQ_def)
      (auto simp: w'(3) bit_new_mask)
  moreover have "(reads PIC_SLAVE_DATA_PORT w' = 0xFF) = (\<forall>j<8. bit (reads PIC_SLAVE_DATA_PORT w') j)"
    by (rule all_ones_u8)
  moreover have "(\<forall>i \<in> {8..15}. irq_masked w' i) = (\<forall>j<8. bit (reads PIC_SLAVE_DATA_PORT w') j)"
    using all_8_15 [of "bit (reads PIC_SLAVE_DATA_PORT w')"] by (simp add: irq_masked_def)
  moreover have "irq_masked w' PIC_CASCADING_IRQ = (reads PIC_SLAVE_DATA_PORT w' = 0xFF)"
    by (simp add: irq_masked_def PIC_CASCADING_IRQ_def w'(4) bit_new_mask)
  ultimately show ?thesis using w'(1,2) False by blast
qed

text \<open>A pair of controllers with every line masked, whose data ports are latches.\<close>

definition pic_example :: world where
  "pic_example =
     \<lparr>device = (\<lambda>h p. case last_out p h of None \<Rightarrow> 0xFF | Some v \<Rightarrow> v), history = [], eflags_if = True,
        statics = (\<lambda>_. 0)\<rparr>"

lemma pic_example_ready: "pic_ready pic_example"
  by (simp add: pic_ready_def latch_def reads_def pic_example_def cong: option.case_cong)

theorem pic_set_irq_mask_exact_witness:
  "\<exists>w'. pic_set_irq_mask 12 1 pic_example = (OS_NO_ERR, w') \<and> pic_ready w' \<and> \<not> irq_masked w' 12"
  using pic_set_irq_mask_exact [OF pic_example_ready, of 12 1]
  by (auto simp: pic_consts)

text \<open>A spurious interrupt is recognised exactly on the lowest-priority line of a controller, IRQ
  7 or 15, when bit 7 of the in-service register is clear, and only the spurious IRQ 15 is
  acknowledged, on the master alone. The only other accesses are the two that read the register.\<close>

theorem pic_spurious_correct:
  "pic_handle_spurious_irq int_number w =
     (let irq = int_number - INT_PIC_IRQ_OFFSET;
          port = (if irq = PIC_SPURIOUS_IRQ_SLAVE then PIC_SLAVE_COMM_PORT else PIC_MASTER_COMM_PORT);
          h = OutB port PIC_READ_ISR # history w;
          real = bit (device w h port) 7
      in if irq \<noteq> PIC_SPURIOUS_IRQ_MASTER \<and> irq \<noteq> PIC_SPURIOUS_IRQ_SLAVE
         then (INTERRUPT_TYPE_REGULAR, w)
         else if real then (INTERRUPT_TYPE_REGULAR, w\<lparr>history := InB port # h\<rparr>)
         else (INTERRUPT_TYPE_SPURIOUS,
               w\<lparr>history := (if irq = PIC_SPURIOUS_IRQ_SLAVE
                            then OutB PIC_MASTER_COMM_PORT PIC_EOI # InB port # h else InB port # h)\<rparr>))"
proof -
  have b: "(v AND PIC_SPURIOUS_IRQ_MASK = 0) \<longleftrightarrow> \<not> bit v 7" for v :: u8
    by (simp add: PIC_SPURIOUS_IRQ_MASK_def and_exp_eq_0_iff_not_bit [of v 7, simplified])
  let ?irq = "int_number - INT_PIC_IRQ_OFFSET"
  consider "?irq = 7" | "?irq = 15" | "?irq \<noteq> 7" "?irq \<noteq> 15" by blast
  then show ?thesis
  proof cases
    case 1
    then show ?thesis
      by (simp add: pic_handle_spurious_irq_def Let_def b case_prod_beta cpu_inb_eq)
        (simp add: pic_consts cpu_outb_def)
  next
    case 2
    then show ?thesis
      by (simp add: pic_handle_spurious_irq_def Let_def b case_prod_beta cpu_inb_eq)
        (simp add: pic_consts cpu_outb_def pic_set_irq_eoi_def)
  next
    case 3
    then show ?thesis
      by (simp add: pic_handle_spurious_irq_def Let_def PIC_SPURIOUS_IRQ_MASTER_def PIC_SPURIOUS_IRQ_SLAVE_def)
  qed
qed

end
