(* ===== verification/Time.thy ===== *)
theory Time
  imports Interrupts
begin

text \<open>
  The time manager, \<^verbatim>\<open>Sources/time/time_management.c\<close>: tick counters per CPU, the uptime, the active
  wait used before scheduling starts, and the timer drivers, \<^verbatim>\<open>kernel_timer_t\<close> structures of function
  pointers (\<open>None\<close> for \<^verbatim>\<open>NULL\<close>) acting on the interrupt manager's state. The addresses of the handlers
  are arguments of \<open>time_init\<close>. The main timer handler calls the scheduler between its two parts,
  \<open>time_main_timer_tick\<close> and \<open>time_main_timer_eoi\<close>; theory \<open>Scheduler\<close> puts the three together.
\<close>

section \<open>State\<close>

record kernel_timer_t =
  get_frequency :: "(int_state \<Rightarrow> u32) option"
  set_frequency :: "(u32 \<Rightarrow> int_state \<Rightarrow> (OS_RETURN_E \<times> int_state) outcome) option"
  timer_enable :: "(int_state \<Rightarrow> (OS_RETURN_E \<times> int_state) outcome) option"
  timer_disable :: "(int_state \<Rightarrow> (OS_RETURN_E \<times> int_state) outcome) option"
  timer_set_handler :: "(ptr \<Rightarrow> int_state \<Rightarrow> (OS_RETURN_E \<times> int_state) outcome) option"
  timer_remove_handler :: "(int_state \<Rightarrow> (OS_RETURN_E \<times> int_state) outcome) option"
  get_irq :: "(int_state \<Rightarrow> u32) option"

definition null_timer :: kernel_timer_t where
  "null_timer =
     \<lparr>get_frequency = None, set_frequency = None, timer_enable = None, timer_disable = None,
      timer_set_handler = None, timer_remove_handler = None, get_irq = None\<rparr>"

record time_state =
  sys_tick_count :: "nat \<Rightarrow> u64"
  sys_main_timer :: kernel_timer_t
  sys_rtc_timer :: kernel_timer_t
  sys_aux_timer :: kernel_timer_t
  active_wait :: u32
  schedule_routine :: ptr
  ints :: int_state

definition KERNEL_MAIN_TIMER_FREQ :: u32 where "KERNEL_MAIN_TIMER_FREQ = 200"
definition KERNEL_AUX_TIMER_FREQ :: u32 where "KERNEL_AUX_TIMER_FREQ = 20"
definition KERNEL_RTC_TIMER_FREQ :: u32 where "KERNEL_RTC_TIMER_FREQ = 16"

text \<open>A driver call on the interrupt state inside the time state.\<close>

definition on_ints ::
    "(int_state \<Rightarrow> (OS_RETURN_E \<times> int_state) outcome) \<Rightarrow> time_state \<Rightarrow> (OS_RETURN_E \<times> time_state) outcome"
where
  "on_ints f s = andthen (f (ints s)) (\<lambda>(err, i). Ok (err, s\<lparr>ints := i\<rparr>))"

section \<open>Initialisation\<close>

definition timer_has_all :: "kernel_timer_t \<Rightarrow> bool" where
  "timer_has_all t \<longleftrightarrow>
     get_frequency t \<noteq> None \<and> set_frequency t \<noteq> None \<and> timer_enable t \<noteq> None \<and>
     timer_disable t \<noteq> None \<and> timer_set_handler t \<noteq> None \<and> timer_remove_handler t \<noteq> None \<and>
     get_irq t \<noteq> None"

definition timer_has_any :: "kernel_timer_t \<Rightarrow> bool" where
  "timer_has_any t \<longleftrightarrow>
     get_frequency t \<noteq> None \<or> set_frequency t \<noteq> None \<or> timer_enable t \<noteq> None \<or>
     timer_disable t \<noteq> None \<or> timer_set_handler t \<noteq> None \<or> timer_remove_handler t \<noteq> None \<or>
     get_irq t \<noteq> None"

text \<open>Setting up one timer, and enabling it; the optional timers are skipped when their
  \<^verbatim>\<open>set_frequency\<close> pointer is \<^verbatim>\<open>NULL\<close>.\<close>

definition setup_timer ::
    "kernel_timer_t \<Rightarrow> u32 \<Rightarrow> ptr \<Rightarrow> time_state \<Rightarrow> (OS_RETURN_E \<times> time_state) outcome" where
  "setup_timer t freq h s =
     on_ok (call_ptr (set_frequency t) (\<lambda>f. on_ints (f freq) s)) (\<lambda>s.
       call_ptr (timer_set_handler t) (\<lambda>f. on_ints (f h) s))"

definition time_init ::
    "ptr \<Rightarrow> ptr \<Rightarrow> ptr \<Rightarrow> kernel_timer_t option \<Rightarrow> kernel_timer_t option \<Rightarrow> kernel_timer_t option \<Rightarrow>
     time_state \<Rightarrow> (OS_RETURN_E \<times> time_state) outcome" where
  "time_init main_handler rtc_handler aux_handler main_timer rtc_timer aux_timer s =
     (case main_timer of
        None \<Rightarrow> Ok (OS_ERR_NULL_POINTER, s)
      | Some mt \<Rightarrow>
          if \<not> timer_has_all mt then Ok (OS_ERR_NULL_POINTER, s)
          else
            let s = s\<lparr>sys_main_timer := mt\<rparr>
            in on_ok (case rtc_timer of
                        None \<Rightarrow> Ok (OS_NO_ERR, s)
                      | Some rt \<Rightarrow> if timer_has_all rt then Ok (OS_NO_ERR, s\<lparr>sys_rtc_timer := rt\<rparr>)
                                  else Ok (OS_ERR_NULL_POINTER, s)) (\<lambda>s.
               on_ok (case aux_timer of
                        None \<Rightarrow> Ok (OS_NO_ERR, s)
                      | Some at \<Rightarrow> if timer_has_any at then Ok (OS_NO_ERR, s\<lparr>sys_aux_timer := at\<rparr>)
                                  else Ok (OS_ERR_NULL_POINTER, s)) (\<lambda>s.
               on_ok (setup_timer (sys_main_timer s) KERNEL_MAIN_TIMER_FREQ main_handler
                        (s\<lparr>sys_tick_count := (\<lambda>_. 0)\<rparr>)) (\<lambda>s.
               on_ok (if set_frequency (sys_rtc_timer s) \<noteq> None
                      then setup_timer (sys_rtc_timer s) KERNEL_RTC_TIMER_FREQ rtc_handler s
                      else Ok (OS_NO_ERR, s)) (\<lambda>s.
               on_ok (if set_frequency (sys_aux_timer s) \<noteq> None
                      then setup_timer (sys_aux_timer s) KERNEL_AUX_TIMER_FREQ aux_handler s
                      else Ok (OS_NO_ERR, s)) (\<lambda>s.
               on_ok (call_ptr (timer_enable (sys_main_timer s)) (\<lambda>f. on_ints f s)) (\<lambda>s.
               on_ok (if set_frequency (sys_rtc_timer s) \<noteq> None
                      then call_ptr (timer_enable (sys_rtc_timer s)) (\<lambda>f. on_ints f s)
                      else Ok (OS_NO_ERR, s)) (\<lambda>s.
               if set_frequency (sys_aux_timer s) \<noteq> None
               then call_ptr (timer_enable (sys_aux_timer s)) (\<lambda>f. on_ints f s)
               else Ok (OS_NO_ERR, s)))))))))"

section \<open>Ticks and time\<close>

text \<open>\<^verbatim>\<open>1000 / get_frequency()\<close>, which traps when the frequency is 0.\<close>

definition time_slice_of :: "time_state \<Rightarrow> u32 outcome" where
  "time_slice_of s =
     call_ptr (get_frequency (sys_main_timer s)) (\<lambda>f.
       if f (ints s) = 0 then Fault else Ok (1000 div f (ints s)))"

definition time_main_timer_tick :: "nat \<Rightarrow> time_state \<Rightarrow> time_state outcome" where
  "time_main_timer_tick cpu_id s =
     (let s = s\<lparr>sys_tick_count := (sys_tick_count s)(cpu_id := sys_tick_count s cpu_id + 1)\<rparr>
      in if schedule_routine s \<noteq> NULL then Ok s
         else if active_wait s > 0
         then andthen (time_slice_of s) (\<lambda>time_slice.
                if active_wait s \<ge> time_slice then Ok (s\<lparr>active_wait := active_wait s - time_slice\<rparr>)
                else Ok (s\<lparr>active_wait := 0\<rparr>))
         else Ok s)"

definition timer_eoi :: "kernel_timer_t \<Rightarrow> time_state \<Rightarrow> time_state outcome" where
  "timer_eoi t s =
     call_ptr (get_irq t) (\<lambda>f.
       andthen (kernel_interrupt_set_irq_eoi (f (ints s)) (ints s)) (\<lambda>(_, i). Ok (s\<lparr>ints := i\<rparr>)))"

definition time_main_timer_eoi :: "time_state \<Rightarrow> time_state outcome" where
  "time_main_timer_eoi s = timer_eoi (sys_main_timer s) s"

definition time_aux_timer_handler :: "time_state \<Rightarrow> time_state outcome" where
  "time_aux_timer_handler s = timer_eoi (sys_aux_timer s) s"

definition time_get_current_uptime :: "nat \<Rightarrow> time_state \<Rightarrow> u64 outcome" where
  "time_get_current_uptime cpu_id s =
     (if get_frequency (sys_main_timer s) = None then Ok 0
      else andthen (time_slice_of s) (\<lambda>time_slice. Ok (ucast time_slice * sys_tick_count s cpu_id)))"

definition time_get_tick_count :: "nat \<Rightarrow> time_state \<Rightarrow> u64" where
  "time_get_tick_count cpu_id s = sys_tick_count s cpu_id"

definition time_register_scheduler :: "ptr \<Rightarrow> time_state \<Rightarrow> OS_RETURN_E \<times> time_state" where
  "time_register_scheduler scheduler_call s =
     (if scheduler_call = NULL then (OS_ERR_NULL_POINTER, s)
      else (OS_NO_ERR, s\<lparr>schedule_routine := scheduler_call\<rparr>))"

text \<open>\<^verbatim>\<open>time_wait_no_sched\<close> writes the counter and spins until the ticks have brought it to 0: it has
  returned after \<open>n\<close> ticks when \<open>n\<close> is the first number of ticks that does.\<close>

definition time_wait_start :: "u32 \<Rightarrow> time_state \<Rightarrow> time_state" where
  "time_wait_start ms s = (if schedule_routine s \<noteq> NULL then s else s\<lparr>active_wait := ms\<rparr>)"

primrec after_ticks :: "nat \<Rightarrow> nat \<Rightarrow> time_state \<Rightarrow> time_state outcome" where
  "after_ticks cpu_id 0 s = Ok s"
| "after_ticks cpu_id (Suc n) s = andthen (time_main_timer_tick cpu_id s) (after_ticks cpu_id n)"

section \<open>Ticks\<close>

text \<open>The main timer runs at frequency \<open>f\<close>, whatever happens to the tick counters.\<close>

definition runs_at :: "u32 \<Rightarrow> time_state \<Rightarrow> bool" where
  "runs_at f s \<longleftrightarrow> 0 < f \<and> (\<exists>g. get_frequency (sys_main_timer s) = Some g \<and> g (ints s) = f)"

lemma runs_at_slice: "runs_at f s \<Longrightarrow> time_slice_of s = Ok (1000 div f)"
  by (auto simp: runs_at_def time_slice_of_def)

lemma runs_at_update [simp]:
  "runs_at f (s\<lparr>sys_tick_count := t\<rparr>) = runs_at f s"
  "runs_at f (s\<lparr>active_wait := a\<rparr>) = runs_at f s"
  by (simp_all add: runs_at_def)

lemma time_slice_of_update [simp]:
  "time_slice_of (s\<lparr>sys_tick_count := t\<rparr>) = time_slice_of s"
  "time_slice_of (s\<lparr>active_wait := a\<rparr>) = time_slice_of s"
  by (simp_all add: time_slice_of_def cong: if_cong)

lemma tick_step:
  assumes "runs_at f s"
  obtains s' where "time_main_timer_tick c s = Ok s'" "runs_at f s'"
    "schedule_routine s' = schedule_routine s"
    "sys_tick_count s' = (sys_tick_count s)(c := sys_tick_count s c + 1)"
    "schedule_routine s = NULL \<Longrightarrow> unat (active_wait s') = unat (active_wait s) - unat (1000 div f)"
proof -
  have le: "unat (1000 div f) \<le> unat (active_wait s) \<Longrightarrow>
      unat (active_wait s - 1000 div f) = unat (active_wait s) - unat (1000 div f)"
    by (simp add: unat_sub word_le_nat_alt)
  show thesis
    using that assms le
    by (cases "schedule_routine s = NULL"; cases "active_wait s > 0"; cases "1000 div f \<le> active_wait s")
      (simp_all add: time_main_timer_tick_def Let_def runs_at_slice word_le_nat_alt word_less_nat_alt)
qed

lemma after_ticks_step:
  assumes "runs_at f s"
  shows "\<exists>s'. after_ticks c n s = Ok s' \<and> runs_at f s' \<and>
           schedule_routine s' = schedule_routine s \<and>
           sys_tick_count s' = (sys_tick_count s)(c := sys_tick_count s c + of_nat n) \<and>
           (schedule_routine s = NULL \<longrightarrow>
              unat (active_wait s') = unat (active_wait s) - n * unat (1000 div f))"
  using assms
proof (induction n arbitrary: s)
  case (Suc n)
  from tick_step [OF Suc.prems, of c] obtain s1 where s1: "time_main_timer_tick c s = Ok s1"
    "runs_at f s1" "schedule_routine s1 = schedule_routine s"
    "sys_tick_count s1 = (sys_tick_count s)(c := sys_tick_count s c + 1)"
    "schedule_routine s = NULL \<Longrightarrow> unat (active_wait s1) = unat (active_wait s) - unat (1000 div f)"
    by metis
  from Suc.IH [OF s1(2)] show ?case using s1 by (auto simp: algebra_simps fun_upd_def fun_eq_iff)
qed simp

lemma setup_timer_frame:
  "setup_timer t f h s = Ok (e, s') \<Longrightarrow>
     sys_aux_timer s' = sys_aux_timer s \<and> sys_rtc_timer s' = sys_rtc_timer s \<and>
     sys_main_timer s' = sys_main_timer s"
  by (auto simp: setup_timer_def on_ok_def on_ints_def call_ptr_def outcome_simps
      split: option.splits if_splits)

section \<open>Properties\<close>

definition time_example :: time_state where
  "time_example =
     \<lparr>sys_tick_count = (\<lambda>_. 0),
      sys_main_timer = null_timer\<lparr>get_frequency := Some (\<lambda>_. 200)\<rparr>,
      sys_rtc_timer = null_timer, sys_aux_timer = null_timer,
      active_wait = 0, schedule_routine = NULL, ints = blank_ints\<rparr>"

lemma time_example_runs: "runs_at 200 time_example"
  by (simp add: runs_at_def time_example_def)

text \<open>The uptime counts milliseconds: when the timer's frequency divides 1000, the uptime of a CPU
  after \<open>n\<close> ticks from boot is exactly \<open>1000 n / f\<close> milliseconds, with no drift, and the tick counters
  of the other CPUs do not move.\<close>

theorem time_uptime_exact:
  assumes "runs_at f s" "unat f dvd 1000" "sys_tick_count s = (\<lambda>_. 0)" "n * 1000 < 2 ^ 64"
  shows "\<exists>s' u. after_ticks c n s = Ok s' \<and> time_get_current_uptime c s' = Ok u \<and>
           unat u * unat f = 1000 * n \<and> (\<forall>d. d \<noteq> c \<longrightarrow> sys_tick_count s' d = 0)"
proof -
  from after_ticks_step [OF assms(1), of c n] obtain s' where s': "after_ticks c n s = Ok s'"
    "runs_at f s'" "sys_tick_count s' = (sys_tick_count s)(c := sys_tick_count s c + of_nat n)" by auto
  obtain k where k: "1000 = unat f * k" using assms(2) by (rule dvdE)
  have f0: "0 < unat f" using assms(1) by (simp add: runs_at_def word_less_nat_alt)
  have sl: "unat (1000 div f) = k" using k f0
    by (simp add: unat_div) (metis nonzero_mult_div_cancel_left less_numeral_extra(3))
  have k1: "k \<le> 1000" using k f0 by (metis le_add1 mult.commute mult_le_mono2 mult_1_right Suc_leI One_nat_def)
  have nk: "k * n < 2 ^ 64" using assms(4) k1 by (metis le_less_trans mult.commute mult_le_mono2)
  have n64: "n < 2 ^ 64" using assms(4) by simp
  have u: "time_get_current_uptime c s' = Ok (ucast (1000 div f) * of_nat n)"
    using s' assms(3) runs_at_slice [OF s'(2)]
    by (auto simp: time_get_current_uptime_def runs_at_def)
  have "unat (ucast (1000 div f) :: u64) = k"
    using sl k1 by (simp add: unsigned_ucast_eq take_bit_nat_eq_self)
  then have "unat (ucast (1000 div f) * of_nat n :: u64) = k * n"
    using nk n64 by (simp add: unat_word_ariths unsigned_of_nat take_bit_nat_eq_self)
  with k have "unat (ucast (1000 div f) * of_nat n :: u64) * unat f = 1000 * n" by (simp add: mult.commute)
  with s' u assms(3) show ?thesis by auto
qed

theorem time_uptime_exact_witness:
  "\<exists>s' u. after_ticks 1 30 time_example = Ok s' \<and> time_get_current_uptime 1 s' = Ok u \<and> unat u * 200 = 30000"
proof -
  have "unat (200 :: u32) dvd 1000" by (simp add: dvd_def)
  then show ?thesis
    using time_uptime_exact [OF time_example_runs, of 30 1] by (auto simp: time_example_def)
qed

text \<open>C22. The active wait ends: before scheduling starts and at a frequency of at most 1000,
  \<^verbatim>\<open>time_wait_no_sched(ms)\<close> sees its counter reach 0 after exactly \<open>ms / slice\<close> ticks, rounded up.\<close>

theorem time_wait_no_sched_ends:
  assumes "runs_at f s" "f \<le> 1000" "schedule_routine s = NULL"
    and "per_tick = unat (1000 div f)" "need = (unat ms + per_tick - 1) div per_tick"
  shows "(\<exists>s'. after_ticks c need (time_wait_start ms s) = Ok s' \<and> active_wait s' = 0) \<and>
         (\<forall>m < need. \<exists>s'. after_ticks c m (time_wait_start ms s) = Ok s' \<and> 0 < active_wait s')"
proof -
  let ?s = "time_wait_start ms s"
  have r: "runs_at f ?s" "schedule_routine ?s = NULL" "active_wait ?s = ms"
    using assms(1,3) by (simp_all add: time_wait_start_def)
  have f0: "0 < unat f" "unat f \<le> 1000"
    using assms(1,2) by (simp_all add: runs_at_def word_less_nat_alt word_le_nat_alt)
  have pos: "0 < per_tick" using f0 by (simp add: assms(4) unat_div div_greater_zero_iff)
  have st: "\<exists>s'. after_ticks c n ?s = Ok s' \<and> unat (active_wait s') = unat ms - n * per_tick" for n
    using after_ticks_step [OF r(1), of c n] r(2,3) by (auto simp: assms(4))
  have "unat ms \<le> need * per_tick"
    using div_mult_mod_eq [of "unat ms + per_tick - 1" per_tick]
      mod_less_divisor [OF pos, of "unat ms + per_tick - 1"]
    unfolding assms(5) by linarith
  with st [of need] have "\<exists>s'. after_ticks c need ?s = Ok s' \<and> active_wait s' = 0"
    by (auto simp: unat_eq_zero)
  moreover have "\<exists>s'. after_ticks c m ?s = Ok s' \<and> 0 < active_wait s'" if "m < need" for m
  proof -
    have "Suc m * per_tick \<le> need * per_tick" using that by (intro mult_le_mono1) simp
    also have "\<dots> \<le> unat ms + per_tick - 1" unfolding assms(5) by (rule div_times_less_eq_dividend)
    finally have "m * per_tick < unat ms" using pos by simp
    with st [of m] show ?thesis by (auto simp: word_less_nat_alt)
  qed
  ultimately show ?thesis by blast
qed

theorem time_wait_no_sched_ends_witness:
  "\<exists>s'. after_ticks 0 3 (time_wait_start 12 time_example) = Ok s' \<and> active_wait s' = 0"
  using time_wait_no_sched_ends [OF time_example_runs, of 5 3 12 0]
  by (simp add: time_example_def)

text \<open>Above 1000 Hz the time slice \<^verbatim>\<open>1000 / frequency\<close> is 0: the uptime stays at 0 for ever and a
  non-zero active wait never ends.\<close>

theorem time_stops_above_1000_hz:
  assumes "runs_at f s" "1000 < f" "schedule_routine s = NULL" "0 < ms"
  shows "\<exists>s'. after_ticks c n (time_wait_start ms s) = Ok s' \<and> active_wait s' = ms \<and>
           time_get_current_uptime c s' = Ok 0"
proof -
  have "unat (1000 div f) = 0" using assms(2) by (simp add: unat_div word_less_nat_alt)
  then have z: "1000 div f = 0" by (simp add: unat_eq_zero)
  have "runs_at f (time_wait_start ms s)" "schedule_routine (time_wait_start ms s) = NULL"
    "active_wait (time_wait_start ms s) = ms"
    using assms(1,3) by (simp_all add: time_wait_start_def)
  with after_ticks_step [of f "time_wait_start ms s" c n] z obtain s' where s':
    "after_ticks c n (time_wait_start ms s) = Ok s'" "runs_at f s'" "active_wait s' = ms"
    by (auto simp: word_unat_eq_iff)
  then show ?thesis using runs_at_slice [OF s'(2)] z
    by (auto simp: time_get_current_uptime_def runs_at_def)
qed

theorem time_stops_above_1000_hz_witness:
  "\<exists>s'. after_ticks 0 100
       (time_wait_start 1 (time_example\<lparr>sys_main_timer := null_timer\<lparr>get_frequency := Some (\<lambda>_. 2000)\<rparr>\<rparr>)) = Ok s' \<and>
     active_wait s' = 1"
  using time_stops_above_1000_hz
    [of 2000 "time_example\<lparr>sys_main_timer := null_timer\<lparr>get_frequency := Some (\<lambda>_. 2000)\<rparr>\<rparr>" 1 0 100]
  by (auto simp: runs_at_def time_example_def)

text \<open>A real-time clock driver with a missing function pointer is refused with
  \<^verbatim>\<open>OS_ERR_NULL_POINTER\<close>, but the check of the auxiliary timer joins its tests with \<^verbatim>\<open>||\<close>: an auxiliary
  driver that has a \<^verbatim>\<open>set_frequency\<close> and no \<^verbatim>\<open>set_handler\<close> is accepted, and \<^verbatim>\<open>time_init\<close> then calls through
  the \<^verbatim>\<open>NULL\<close> pointer, whatever the drivers do.\<close>

theorem time_init_aux_null_call:
  assumes "timer_has_all mt" "set_frequency at = Some sf" "timer_set_handler at = None"
    and "\<forall>i. \<exists>i'. sf KERNEL_AUX_TIMER_FREQ i = Ok (OS_NO_ERR, i')"
    and "\<forall>t. \<exists>t'. setup_timer mt KERNEL_MAIN_TIMER_FREQ mh t = Ok (OS_NO_ERR, t')"
    and "set_frequency (sys_rtc_timer s) = None"
  shows "time_init mh rh ah (Some mt) None (Some at) s = Fault \<and>
         time_init mh rh ah (Some mt) (Some at) None s =
           Ok (OS_ERR_NULL_POINTER, s\<lparr>sys_main_timer := mt\<rparr>)"
proof
  let ?s = "s\<lparr>sys_main_timer := mt, sys_aux_timer := at\<rparr>"
  from assms(5) obtain s1 where
    s1: "setup_timer mt KERNEL_MAIN_TIMER_FREQ mh (?s\<lparr>sys_tick_count := (\<lambda>_. 0)\<rparr>) = Ok (OS_NO_ERR, s1)"
    by blast
  from setup_timer_frame [OF s1]
  have fr: "sys_aux_timer s1 = at" "set_frequency (sys_rtc_timer s1) = None"
    using assms(6) by simp_all
  obtain i where "sf KERNEL_AUX_TIMER_FREQ (ints s1) = Ok (OS_NO_ERR, i)" using assms(4) by blast
  then have "setup_timer at KERNEL_AUX_TIMER_FREQ ah s1 = Fault"
    using assms(2,3) by (simp add: setup_timer_def on_ints_def)
  moreover have "timer_has_any at" using assms(2) by (simp add: timer_has_any_def)
  ultimately show "time_init mh rh ah (Some mt) None (Some at) s = Fault"
    using assms(1,2) s1 fr by (simp add: time_init_def Let_def)
  have "\<not> timer_has_all at" using assms(3) by (simp add: timer_has_all_def)
  then show "time_init mh rh ah (Some mt) (Some at) None s =
      Ok (OS_ERR_NULL_POINTER, s\<lparr>sys_main_timer := mt\<rparr>)"
    using assms(1) by (simp add: time_init_def Let_def)
qed

theorem time_init_aux_null_call_witness:
  "let ok = (\<lambda>i. Ok (OS_NO_ERR, i));
       mt = \<lparr>get_frequency = Some (\<lambda>_. 200), set_frequency = Some (\<lambda>_. ok), timer_enable = Some ok,
             timer_disable = Some ok, timer_set_handler = Some (\<lambda>_. ok), timer_remove_handler = Some ok,
             get_irq = Some (\<lambda>_. 0)\<rparr>
   in time_init 1 2 3 (Some mt) None (Some (mt\<lparr>timer_set_handler := None\<rparr>)) time_example = Fault"
  unfolding Let_def
  by (rule time_init_aux_null_call [THEN conjunct1])
    (auto simp: timer_has_all_def setup_timer_def on_ints_def time_example_def null_timer_def)

end
