(* ===== verification/Thread.thy ===== *)
theory Thread
  imports KernelQueue Time
begin

text \<open>
  Threads and the scheduler's state: \<^verbatim>\<open>struct kernel_thread\<close> of \<^verbatim>\<open>Includes/core/thread.h\<close>, the i386
  context of \<^verbatim>\<open>Sources/arch/cpu/i386/cpu.c\<close>, and the file-scope variables of
  \<^verbatim>\<open>Sources/core/scheduler.c\<close>. Threads live in a store addressed by pointers, their queue nodes in the
  kernel queue state; the scheduler's tables hold the addresses of queues. Arrays indexed by the CPU
  number are functions. The stack contents are words of a memory \<open>words\<close>; \<open>cpu_esp\<close> and \<open>cpu_cr3\<close> are
  the registers the context switch reads and writes.
\<close>

section \<open>Threads\<close>

datatype THREAD_STATE_E =
    THREAD_STATE_RUNNING | THREAD_STATE_READY | THREAD_STATE_SLEEPING | THREAD_STATE_DEAD
  | THREAD_STATE_ZOMBIE | THREAD_STATE_JOINING | THREAD_STATE_WAITING

datatype THREAD_WAIT_TYPE_E =
    THREAD_WAIT_TYPE_SEM | THREAD_WAIT_TYPE_MUTEX | THREAD_WAIT_TYPE_IO_KEYBOARD

datatype THREAD_RETURN_STATE_E = THREAD_RETURN_STATE_RETURNED | THREAD_RETURN_STATE_KILLED

datatype THREAD_TERMINATE_CAUSE_E =
    THREAD_TERMINATE_CORRECTLY | THREAD_TERMINATE_CAUSE_DIV_BY_ZERO | THREAD_TERMINATE_CAUSE_PANIC

datatype SYSTEM_STATE_E = SYSTEM_STATE_BOOTING | SYSTEM_STATE_RUNNING | SYSTEM_STATE_HALTED

record virtual_cpu_context =
  esp :: u32
  ebp :: u32
  eip :: u32
  cr3 :: u32

record kernel_thread =
  tid :: u32
  ptid :: u32
  th_name :: string
  init_prio :: u32
  th_priority :: u32
  th_state :: THREAD_STATE_E
  block_type :: THREAD_WAIT_TYPE_E
  return_state :: THREAD_RETURN_STATE_E
  return_cause :: THREAD_TERMINATE_CAUSE_E
  th_args :: ptr
  th_function :: ptr
  ret_val :: ptr
  cpu_context :: virtual_cpu_context
  stack :: ptr
  stack_size :: u32
  free_page_table :: ptr
  wakeup_time :: u64
  joining_thread :: ptr
  children :: ptr
  start_time :: u64
  end_time :: u64
  cpu_affinity :: u32

text \<open>The thread after \<^verbatim>\<open>memset(thread, 0, sizeof(kernel_thread_t))\<close>.\<close>

definition zero_thread :: kernel_thread where
  "zero_thread =
     \<lparr>tid = 0, ptid = 0, th_name = '''', init_prio = 0, th_priority = 0,
      th_state = THREAD_STATE_RUNNING, block_type = THREAD_WAIT_TYPE_SEM,
      return_state = THREAD_RETURN_STATE_RETURNED, return_cause = THREAD_TERMINATE_CORRECTLY,
      th_args = NULL, th_function = NULL, ret_val = NULL,
      cpu_context = \<lparr>esp = 0, ebp = 0, eip = 0, cr3 = 0\<rparr>,
      stack = NULL, stack_size = 0, free_page_table = NULL, wakeup_time = 0,
      joining_thread = NULL, children = NULL, start_time = 0, end_time = 0, cpu_affinity = 0\<rparr>"

definition MAX_CPU_COUNT :: nat where "MAX_CPU_COUNT = 4"
definition KERNEL_LOWEST_PRIORITY :: u32 where "KERNEL_LOWEST_PRIORITY = 63"
definition KERNEL_HIGHEST_PRIORITY :: u32 where "KERNEL_HIGHEST_PRIORITY = 0"
definition IDLE_THREAD_PRIORITY :: u32 where "IDLE_THREAD_PRIORITY = KERNEL_LOWEST_PRIORITY"
definition THREAD_MAX_NAME_LENGTH :: nat where "THREAD_MAX_NAME_LENGTH = 32"
definition sizeof_kernel_thread :: u32 where "sizeof_kernel_thread = 1180"
definition SCHEDULER_IDLE_STACK_SIZE :: u32 where "SCHEDULER_IDLE_STACK_SIZE = 0x1000"
definition SCHEDULER_INIT_STACK_SIZE :: u32 where "SCHEDULER_INIT_STACK_SIZE = 0x2000"

lemmas sched_consts = MAX_CPU_COUNT_def KERNEL_LOWEST_PRIORITY_def KERNEL_HIGHEST_PRIORITY_def
  IDLE_THREAD_PRIORITY_def THREAD_MAX_NAME_LENGTH_def sizeof_kernel_thread_def
  SCHEDULER_IDLE_STACK_SIZE_def SCHEDULER_INIT_STACK_SIZE_def

section \<open>The state\<close>

record sched_state =
  kq :: kq_state
  threads :: "ptr \<rightharpoonup> kernel_thread"
  words :: "ptr \<Rightarrow> u32"
  time :: time_state
  cpu_esp :: "nat \<Rightarrow> u32"
  cpu_cr3 :: "nat \<Rightarrow> u32"
  kernel_free_pages :: ptr
  last_given_tid :: u32
  thread_count :: u32
  first_sched :: "nat \<Rightarrow> u32"
  idle_thread :: "nat \<Rightarrow> ptr"
  idle_thread_node :: "nat \<Rightarrow> ptr"
  init_thread :: ptr
  init_thread_node :: ptr
  active_thread :: "nat \<Rightarrow> ptr"
  active_thread_node :: "nat \<Rightarrow> ptr"
  prev_thread :: "nat \<Rightarrow> ptr"
  prev_thread_node :: "nat \<Rightarrow> ptr"
  system_state :: SYSTEM_STATE_E
  schedule_count :: "nat \<Rightarrow> u64"
  idle_sched_count :: "nat \<Rightarrow> u64"
  active_threads_table :: "nat \<Rightarrow> nat \<Rightarrow> ptr"
  sleeping_threads_table :: "nat \<Rightarrow> ptr"
  zombie_threads_table :: ptr
  global_threads_table :: ptr

text \<open>Addresses of code, given by the linker.\<close>

record sched_syms =
  sym_thread_wrapper :: ptr
  sym_idle_sys :: ptr
  sym_init_func :: ptr
  sym_schedule_int :: ptr

section \<open>Access to threads, nodes and tables\<close>

definition get_thread :: "ptr \<Rightarrow> sched_state \<Rightarrow> kernel_thread outcome" where
  "get_thread p s = deref (threads s) p"

definition set_thread ::
    "ptr \<Rightarrow> (kernel_thread \<Rightarrow> kernel_thread) \<Rightarrow> sched_state \<Rightarrow> sched_state outcome" where
  "set_thread p f s = andthen (modify (threads s) p f) (\<lambda>t. Ok (s\<lparr>threads := t\<rparr>))"

text \<open>\<^verbatim>\<open>node->data\<close>.\<close>

definition node_data :: "ptr \<Rightarrow> sched_state \<Rightarrow> ptr outcome" where
  "node_data n s = andthen (deref (nodes (kq s)) n) (\<lambda>nd. Ok (kq_data nd))"

text \<open>\<^verbatim>\<open>active_threads_table[cpu][prio]\<close>; an index out of range is undefined behaviour.\<close>

definition active_table :: "nat \<Rightarrow> u32 \<Rightarrow> sched_state \<Rightarrow> ptr outcome" where
  "active_table cpu prio s =
     (if cpu < MAX_CPU_COUNT \<and> prio \<le> KERNEL_LOWEST_PRIORITY
      then Ok (active_threads_table s cpu (unat prio)) else Fault)"

definition on_kq ::
    "(kq_state \<Rightarrow> (OS_RETURN_E \<times> kq_state) outcome) \<Rightarrow> sched_state \<Rightarrow> (OS_RETURN_E \<times> sched_state) outcome"
where
  "on_kq f s = andthen (f (kq s)) (\<lambda>(err, k). Ok (err, s\<lparr>kq := k\<rparr>))"

text \<open>\<^verbatim>\<open>kernel_queue_pop\<close> on the scheduler's state.\<close>

definition sched_pop :: "ptr \<Rightarrow> sched_state \<Rightarrow> (ptr \<times> OS_RETURN_E \<times> sched_state) outcome" where
  "sched_pop q s = andthen (kernel_queue_pop q (kq s)) (\<lambda>(n, err, k). Ok (n, err, s\<lparr>kq := k\<rparr>))"

definition sched_kmalloc :: "u32 \<Rightarrow> sched_state \<Rightarrow> ptr \<times> sched_state" where
  "sched_kmalloc n s =
     (let (p, h) = kmalloc n (heap (kq s)) in (p, s\<lparr>kq := (kq s)\<lparr>heap := h\<rparr>\<rparr>))"

definition sched_kfree :: "ptr \<Rightarrow> sched_state \<Rightarrow> sched_state" where
  "sched_kfree p s = s\<lparr>kq := (kq s)\<lparr>heap := kfree p (heap (kq s))\<rparr>\<rparr>"

text \<open>\<^verbatim>\<open>kfree(thread)\<close>: the thread object is gone.\<close>

definition free_thread :: "ptr \<Rightarrow> sched_state \<Rightarrow> sched_state" where
  "free_thread p s = (sched_kfree p s)\<lparr>threads := (threads s)(p := None)\<rparr>"

definition uptime :: "nat \<Rightarrow> sched_state \<Rightarrow> u64 outcome" where
  "uptime cpu_id s = time_get_current_uptime cpu_id (time s)"

section \<open>Contexts\<close>

text \<open>\<^verbatim>\<open>cpu_init_thread_context\<close>: the initial stack frame, popped by the first switch to the thread.\<close>

definition stack_word :: "ptr \<Rightarrow> u32 \<Rightarrow> u32 \<Rightarrow> ptr" where
  "stack_word stk stack_index k = stk + 4 * (stack_index - k)"

definition THREAD_INIT_EFLAGS :: u32 where "THREAD_INIT_EFLAGS = 0x202"
definition THREAD_KERNEL_CS :: u32 where "THREAD_KERNEL_CS = 0x08"
definition THREAD_KERNEL_DS :: u32 where "THREAD_KERNEL_DS = 0x10"

definition cpu_init_thread_context ::
    "ptr \<Rightarrow> u32 \<Rightarrow> ptr \<Rightarrow> ptr \<Rightarrow> ptr \<Rightarrow> sched_state \<Rightarrow> sched_state outcome" where
  "cpu_init_thread_context entry_point stack_index free_table_page page_table_address thread s =
     andthen (get_thread thread s) (\<lambda>t.
     let at = stack_word (stack t) stack_index;
         ctx = \<lparr>esp = at 17, ebp = at 1, eip = entry_point, cr3 = page_table_address\<rparr>;
         w = (words s)
               (at 1 := THREAD_INIT_EFLAGS, at 2 := THREAD_KERNEL_CS, at 3 := entry_point,
                at 4 := 0, at 5 := 0, at 6 := THREAD_KERNEL_DS, at 7 := THREAD_KERNEL_DS,
                at 8 := THREAD_KERNEL_DS, at 9 := THREAD_KERNEL_DS, at 10 := THREAD_KERNEL_DS,
                at 11 := 0, at 12 := 0, at 13 := 0, at 14 := 0, at 15 := 0, at 16 := 0,
                at 17 := at 1, at 18 := at 17)
     in set_thread thread (\<lambda>t. t\<lparr>cpu_context := ctx, free_page_table := free_table_page\<rparr>)
          (s\<lparr>words := w\<rparr>))"

definition cpu_save_context :: "nat \<Rightarrow> ptr \<Rightarrow> sched_state \<Rightarrow> sched_state outcome" where
  "cpu_save_context cpu_id thread s =
     (if first_sched s cpu_id = 1
      then set_thread thread (\<lambda>t. t\<lparr>cpu_context := (cpu_context t)\<lparr>esp := cpu_esp s cpu_id\<rparr>\<rparr>) s
      else Ok s)"

definition cpu_restore_context :: "nat \<Rightarrow> ptr \<Rightarrow> sched_state \<Rightarrow> sched_state outcome" where
  "cpu_restore_context cpu_id thread s =
     andthen (get_thread thread s) (\<lambda>t.
       Ok (s\<lparr>cpu_esp := (cpu_esp s)(cpu_id := esp (cpu_context t))\<rparr>))"

definition cpu_update_pgdir :: "nat \<Rightarrow> u32 \<Rightarrow> sched_state \<Rightarrow> sched_state" where
  "cpu_update_pgdir cpu_id new_pgdir s = s\<lparr>cpu_cr3 := (cpu_cr3 s)(cpu_id := new_pgdir)\<rparr>"

end
