(* ===== verification/Scheduler.thy ===== *)
theory Scheduler
  imports Thread
begin

text \<open>
  The scheduler, \<^verbatim>\<open>Sources/core/scheduler.c\<close>. Every operation takes the number of the CPU it runs on,
  \<open>cpu_id\<close> (\<^verbatim>\<open>cpu_get_id\<close>, with \<open>-1\<close> already replaced by 0). A section between \<^verbatim>\<open>ENTER_CRITICAL\<close> and
  \<^verbatim>\<open>EXIT_CRITICAL\<close> is one step. \<^verbatim>\<open>sched_schedule\<close> raises the scheduling interrupt; the model runs
  \<open>schedule_int\<close>, the handler registered on that line, in its place. An operation that switches is cut
  at its call of \<^verbatim>\<open>sched_schedule\<close>: \<open>Yielded v\<close> means the calling thread has been switched out and its
  call returns \<open>v\<close> as soon as the thread is elected again; \<open>Switched\<close> means it has been switched out and
  more code runs when it is elected again, a second definition \<open>..._resume\<close>. The interrupt flag of the
  thread that is switched in is not tracked. The bodies of the idle and init threads are not modelled.
\<close>

datatype 'a call = Returned 'a | Yielded 'a | Switched

section \<open>Election\<close>

definition requeue_prev :: "nat \<Rightarrow> sched_state \<Rightarrow> sched_state outcome" where
  "requeue_prev cpu_id s0 =
     (let s = s0\<lparr>prev_thread := (prev_thread s0)(cpu_id := active_thread s0 cpu_id),
                 prev_thread_node := (prev_thread_node s0)(cpu_id := active_thread_node s0 cpu_id)\<rparr>
      in andthen (get_thread (prev_thread s cpu_id) s) (\<lambda>t.
         if th_state t = THREAD_STATE_RUNNING
         then andthen (set_thread (prev_thread s cpu_id) (\<lambda>t. t\<lparr>th_state := THREAD_STATE_READY\<rparr>) s) (\<lambda>s.
              andthen (active_table cpu_id (th_priority t) s) (\<lambda>q.
              or_panic (on_kq (kernel_queue_push (prev_thread_node s cpu_id) q) s) Ok))
         else if th_state t = THREAD_STATE_SLEEPING
         then or_panic (on_kq (kernel_queue_push_prio (prev_thread_node s cpu_id)
                                 (sleeping_threads_table s cpu_id) (ucast (wakeup_time t))) s) Ok
         else Ok s))"

text \<open>One pass of the loop that wakes sleeping threads.\<close>

definition wake_body :: "nat \<Rightarrow> u64 \<Rightarrow> sched_state \<Rightarrow> (bool \<times> sched_state) outcome" where
  "wake_body cpu_id current_time s =
     andthen (sched_pop (sleeping_threads_table s cpu_id) s) (\<lambda>(sleeping_node, err, s).
       if err \<noteq> OS_NO_ERR then Panic err
       else if sleeping_node = NULL then Ok (False, s)
       else andthen (node_data sleeping_node s) (\<lambda>sleeping.
         if sleeping = NULL then Ok (True, s)
         else andthen (get_thread sleeping s) (\<lambda>t.
           if wakeup_time t < current_time
           then andthen (set_thread sleeping (\<lambda>t. t\<lparr>th_state := THREAD_STATE_READY\<rparr>) s) (\<lambda>s.
                andthen (active_table cpu_id (th_priority t) s) (\<lambda>q.
                or_panic (on_kq (kernel_queue_push sleeping_node q) s) (\<lambda>s. Ok (True, s))))
           else or_panic (on_kq (kernel_queue_push_prio sleeping_node
                                   (sleeping_threads_table s cpu_id) (ucast (wakeup_time t))) s)
                  (\<lambda>s. Ok (False, s)))))"

text \<open>The scan of the ready queues, from the highest priority down.\<close>

primrec elect_loop :: "nat \<Rightarrow> nat list \<Rightarrow> sched_state \<Rightarrow> sched_state outcome" where
  "elect_loop cpu_id [] s = Ok s"
| "elect_loop cpu_id (i # is) s =
     andthen (sched_pop (active_threads_table s cpu_id i) s) (\<lambda>(node, err, s).
       let s = s\<lparr>active_thread_node := (active_thread_node s)(cpu_id := node)\<rparr>
       in if err \<noteq> OS_NO_ERR then Panic err
          else if node \<noteq> NULL then Ok s
          else elect_loop cpu_id is s)"

definition elect :: "nat \<Rightarrow> sched_state \<Rightarrow> sched_state outcome" where
  "elect cpu_id s =
     andthen (elect_loop cpu_id [0 ..< unat KERNEL_LOWEST_PRIORITY + 1] s) (\<lambda>s.
     if active_thread_node s cpu_id = NULL then Panic OS_NO_ERR
     else andthen (node_data (active_thread_node s cpu_id) s) (\<lambda>th.
       let s = s\<lparr>active_thread := (active_thread s)(cpu_id := th)\<rparr>
       in if th = NULL then Panic OS_NO_ERR
          else set_thread th (\<lambda>t. t\<lparr>th_state := THREAD_STATE_RUNNING\<rparr>) s))"

definition select_thread :: "nat \<Rightarrow> sched_state \<Rightarrow> sched_state outcome" where
  "select_thread cpu_id s =
     andthen (uptime cpu_id s) (\<lambda>current_time.
     andthen (requeue_prev cpu_id s) (\<lambda>s.
     andthen (while_do (wake_body cpu_id current_time) s) (elect cpu_id)))"

definition schedule_int :: "nat \<Rightarrow> sched_state \<Rightarrow> sched_state outcome" where
  "schedule_int cpu_id s =
     andthen (cpu_save_context cpu_id (active_thread s cpu_id) s) (\<lambda>s.
     andthen (select_thread cpu_id s) (\<lambda>s.
     let s = s\<lparr>schedule_count := (schedule_count s)(cpu_id := schedule_count s cpu_id + 1)\<rparr>
     in andthen (get_thread (active_thread s cpu_id) s) (\<lambda>t.
        andthen (cpu_restore_context cpu_id (active_thread s cpu_id)
                   (cpu_update_pgdir cpu_id (cr3 (cpu_context t)) s)) (\<lambda>s.
        Ok (s\<lparr>first_sched := (first_sched s)(cpu_id := 1)\<rparr>)))))"

definition sched_schedule :: "nat \<Rightarrow> sched_state \<Rightarrow> sched_state outcome" where
  "sched_schedule cpu_id s = schedule_int cpu_id s"

text \<open>The main timer handler of \<^verbatim>\<open>time_management.c\<close> with its call of the scheduler.\<close>

definition time_main_timer_handler :: "nat \<Rightarrow> sched_state \<Rightarrow> sched_state outcome" where
  "time_main_timer_handler cpu_id s =
     andthen (time_main_timer_tick cpu_id (time s)) (\<lambda>t.
     andthen (if schedule_routine t \<noteq> NULL then schedule_int cpu_id (s\<lparr>time := t\<rparr>)
              else Ok (s\<lparr>time := t\<rparr>)) (\<lambda>s.
     andthen (time_main_timer_eoi (time s)) (\<lambda>t. Ok (s\<lparr>time := t\<rparr>))))"

section \<open>Sleeping, blocking and unblocking\<close>

definition sched_sleep :: "nat \<Rightarrow> u32 \<Rightarrow> sched_state \<Rightarrow> (OS_RETURN_E call \<times> sched_state) outcome" where
  "sched_sleep cpu_id time_ms s =
     (if active_thread s cpu_id = idle_thread s cpu_id
      then Ok (Returned OS_ERR_UNAUTHORIZED_ACTION, s)
      else andthen (uptime cpu_id s) (\<lambda>now.
        andthen (set_thread (active_thread s cpu_id)
                   (\<lambda>t. t\<lparr>wakeup_time := now + ucast time_ms - ucast (1000 div KERNEL_MAIN_TIMER_FREQ),
                         th_state := THREAD_STATE_SLEEPING\<rparr>) s) (\<lambda>s.
        andthen (sched_schedule cpu_id s) (\<lambda>s. Ok (Yielded OS_NO_ERR, s)))))"

definition sched_lock_thread :: "nat \<Rightarrow> THREAD_WAIT_TYPE_E \<Rightarrow> sched_state \<Rightarrow> (ptr \<times> sched_state) outcome" where
  "sched_lock_thread cpu_id bt s =
     (if active_thread s cpu_id = idle_thread s cpu_id then Ok (NULL, s)
      else andthen (set_thread (active_thread s cpu_id)
                      (\<lambda>t. t\<lparr>th_state := THREAD_STATE_WAITING, block_type := bt\<rparr>) s) (\<lambda>s'.
           Ok (active_thread_node s cpu_id, s')))"

text \<open>\<^verbatim>\<open>sched_unlock_thread\<close> without its final \<^verbatim>\<open>sched_schedule\<close>, and with it.\<close>

definition unlock_error :: "THREAD_WAIT_TYPE_E \<Rightarrow> OS_RETURN_E" where
  "unlock_error bt =
     (case bt of THREAD_WAIT_TYPE_SEM \<Rightarrow> OS_ERR_NO_SEM_BLOCKED
      | THREAD_WAIT_TYPE_MUTEX \<Rightarrow> OS_ERR_NO_MUTEX_BLOCKED
      | _ \<Rightarrow> OS_ERR_NULL_POINTER)"

definition sched_unlock_ready ::
    "nat \<Rightarrow> ptr \<Rightarrow> THREAD_WAIT_TYPE_E \<Rightarrow> sched_state \<Rightarrow> (OS_RETURN_E \<times> sched_state) outcome" where
  "sched_unlock_ready cpu_id node bt s =
     andthen (node_data node s) (\<lambda>thread.
     if thread = NULL \<or> thread = idle_thread s cpu_id then Ok (OS_ERR_NO_SUCH_ID, s)
     else andthen (get_thread thread s) (\<lambda>t.
       if th_state t \<noteq> THREAD_STATE_WAITING \<or> block_type t \<noteq> bt then Ok (unlock_error bt, s)
       else andthen (set_thread thread (\<lambda>t. t\<lparr>th_state := THREAD_STATE_READY\<rparr>) s) (\<lambda>s.
            andthen (active_table (unat (cpu_affinity t)) (th_priority t) s) (\<lambda>q.
            or_panic (on_kq (kernel_queue_push node q) s) (\<lambda>s. Ok (OS_NO_ERR, s))))))"

definition sched_unlock_thread ::
    "nat \<Rightarrow> ptr \<Rightarrow> THREAD_WAIT_TYPE_E \<Rightarrow> bool \<Rightarrow> sched_state \<Rightarrow> (OS_RETURN_E call \<times> sched_state) outcome"
where
  "sched_unlock_thread cpu_id node bt do_schedule s =
     andthen (sched_unlock_ready cpu_id node bt s) (\<lambda>(err, s).
       if err = OS_NO_ERR \<and> do_schedule
       then andthen (sched_schedule cpu_id s) (\<lambda>s. Ok (Yielded OS_NO_ERR, s))
       else Ok (Returned err, s))"

section \<open>Accessors\<close>

definition sched_get_thread_count :: "sched_state \<Rightarrow> u32" where
  "sched_get_thread_count s = thread_count s"

definition sched_get_tid :: "nat \<Rightarrow> sched_state \<Rightarrow> u32 outcome" where
  "sched_get_tid cpu_id s =
     (if first_sched s cpu_id = 0 then Ok 0
      else andthen (get_thread (active_thread s cpu_id) s) (\<lambda>t. Ok (tid t)))"

definition sched_get_self :: "nat \<Rightarrow> sched_state \<Rightarrow> ptr" where
  "sched_get_self cpu_id s = (if first_sched s cpu_id = 0 then NULL else active_thread s cpu_id)"

definition sched_get_ptid :: "nat \<Rightarrow> sched_state \<Rightarrow> u32 outcome" where
  "sched_get_ptid cpu_id s = andthen (get_thread (active_thread s cpu_id) s) (\<lambda>t. Ok (ptid t))"

definition sched_get_priority :: "nat \<Rightarrow> sched_state \<Rightarrow> u32 outcome" where
  "sched_get_priority cpu_id s =
     andthen (get_thread (active_thread s cpu_id) s) (\<lambda>t. Ok (th_priority t))"

definition sched_set_priority :: "nat \<Rightarrow> u32 \<Rightarrow> sched_state \<Rightarrow> (OS_RETURN_E \<times> sched_state) outcome" where
  "sched_set_priority cpu_id prio s =
     (if prio > KERNEL_LOWEST_PRIORITY then Ok (OS_ERR_FORBIDEN_PRIORITY, s)
      else andthen (set_thread (active_thread s cpu_id) (\<lambda>t. t\<lparr>th_priority := prio\<rparr>) s) (\<lambda>s.
           Ok (OS_NO_ERR, s)))"

definition sched_set_thread_termination_cause ::
    "nat \<Rightarrow> THREAD_TERMINATE_CAUSE_E \<Rightarrow> sched_state \<Rightarrow> sched_state outcome" where
  "sched_set_thread_termination_cause cpu_id cause s =
     set_thread (active_thread s cpu_id) (\<lambda>t. t\<lparr>return_cause := cause\<rparr>) s"

definition sched_get_schedule_count :: "nat \<Rightarrow> sched_state \<Rightarrow> u64" where
  "sched_get_schedule_count cpu_id s = schedule_count s cpu_id"

definition sched_get_idle_schedule_count :: "nat \<Rightarrow> sched_state \<Rightarrow> u64" where
  "sched_get_idle_schedule_count cpu_id s = idle_sched_count s cpu_id"

definition sched_get_thread_free_page_table :: "nat \<Rightarrow> sched_state \<Rightarrow> ptr outcome" where
  "sched_get_thread_free_page_table cpu_id s =
     (if first_sched s cpu_id = 1 then Ok (kernel_free_pages s)
      else andthen (get_thread (active_thread s cpu_id) s) (\<lambda>t. Ok (free_page_table t)))"

section \<open>Thread exit\<close>

text \<open>One pass of the loop that gives the children of the exiting thread to init.\<close>

definition exit_child :: "nat \<Rightarrow> sched_state \<Rightarrow> (bool \<times> sched_state) outcome" where
  "exit_child cpu_id s =
     andthen (get_thread (active_thread s cpu_id) s) (\<lambda>me.
     andthen (sched_pop (children me) s) (\<lambda>(node, err, s).
       if err \<noteq> OS_NO_ERR then Panic err
       else if node = NULL then Ok (False, s)
       else andthen (node_data node s) (\<lambda>thread.
         andthen (get_thread (init_thread s) s) (\<lambda>init.
         andthen (set_thread thread (\<lambda>t. t\<lparr>ptid := tid init\<rparr>) s) (\<lambda>s.
         andthen (get_thread thread s) (\<lambda>t.
         andthen (node_data (joining_thread t) s) (\<lambda>joiner.
         andthen (if joiner = active_thread s cpu_id
                  then andthen (modify (nodes (kq s)) (joining_thread t) (\<lambda>n. n\<lparr>kq_data := NULL\<rparr>)) (\<lambda>ns.
                       Ok (s\<lparr>kq := (kq s)\<lparr>nodes := ns\<rparr>\<rparr>))
                  else Ok s) (\<lambda>s.
         andthen (get_thread (init_thread s) s) (\<lambda>init.
         or_panic (on_kq (kernel_queue_push node (children init)) s) (\<lambda>s. Ok (True, s)))))))))))"

text \<open>The end of \<^verbatim>\<open>thread_exit\<close>: the thread that joins the exiting one becomes ready.\<close>

definition exit_wake_joiner :: "nat \<Rightarrow> sched_state \<Rightarrow> sched_state outcome" where
  "exit_wake_joiner cpu_id s =
     andthen (get_thread (active_thread s cpu_id) s) (\<lambda>me.
     if joining_thread me = NULL then Ok s
     else andthen (node_data (joining_thread me) s) (\<lambda>joiner.
       if joiner = NULL then Ok s
       else andthen (get_thread joiner s) (\<lambda>j.
         if th_state j = THREAD_STATE_JOINING
         then andthen (set_thread joiner (\<lambda>t. t\<lparr>th_state := THREAD_STATE_READY\<rparr>) s) (\<lambda>s.
              andthen (active_table (unat (cpu_affinity j)) (th_priority j) s) (\<lambda>q.
              or_panic (on_kq (kernel_queue_push (joining_thread me) q) s) Ok))
         else Ok s)))"

definition thread_exit :: "nat \<Rightarrow> sched_state \<Rightarrow> sched_state outcome" where
  "thread_exit cpu_id s =
     (if active_thread s cpu_id = idle_thread s cpu_id then Panic OS_ERR_UNAUTHORIZED_ACTION
      else andthen (set_thread (active_thread s cpu_id) (\<lambda>t. t\<lparr>th_state := THREAD_STATE_ZOMBIE\<rparr>) s) (\<lambda>s.
        if active_thread s cpu_id = init_thread s then sched_schedule cpu_id s
        else
          or_panic (on_kq (kernel_queue_push (active_thread_node s cpu_id) (zombie_threads_table s)) s) (\<lambda>s.
          andthen (while_do (exit_child cpu_id) s) (\<lambda>s.
          andthen (get_thread (active_thread s cpu_id) s) (\<lambda>me.
          andthen (kernel_queue_delete_queue (children me) (kq s)) (\<lambda>(err, q, k).
          andthen (set_thread (active_thread s cpu_id) (\<lambda>t. t\<lparr>children := q\<rparr>) (s\<lparr>kq := k\<rparr>)) (\<lambda>s.
            if err \<noteq> OS_NO_ERR then Panic err
            else andthen (exit_wake_joiner cpu_id s) (sched_schedule cpu_id))))))))"

definition sched_terminate_thread :: "nat \<Rightarrow> sched_state \<Rightarrow> sched_state outcome" where
  "sched_terminate_thread cpu_id s =
     andthen (set_thread (active_thread s cpu_id) (\<lambda>t. t\<lparr>return_state := THREAD_RETURN_STATE_KILLED\<rparr>) s) (\<lambda>s.
     andthen (uptime cpu_id s) (\<lambda>now.
     andthen (set_thread (active_thread s cpu_id) (\<lambda>t. t\<lparr>end_time := now\<rparr>) s) (thread_exit cpu_id)))"

text \<open>\<^verbatim>\<open>thread_wrapper\<close> up to the call of the thread's routine, whose address and argument it returns,
  and after the routine has returned \<open>r\<close>.\<close>

definition thread_wrapper_begin :: "nat \<Rightarrow> sched_state \<Rightarrow> (ptr \<times> ptr \<times> sched_state) outcome" where
  "thread_wrapper_begin cpu_id s =
     andthen (uptime cpu_id s) (\<lambda>now.
     andthen (set_thread (active_thread s cpu_id) (\<lambda>t. t\<lparr>start_time := now\<rparr>) s) (\<lambda>s.
     andthen (get_thread (active_thread s cpu_id) s) (\<lambda>t.
       if th_function t = NULL then Panic OS_ERR_UNAUTHORIZED_ACTION
       else Ok (th_function t, th_args t, s))))"

definition thread_wrapper_end :: "nat \<Rightarrow> ptr \<Rightarrow> sched_state \<Rightarrow> sched_state outcome" where
  "thread_wrapper_end cpu_id r s =
     andthen (set_thread (active_thread s cpu_id)
                (\<lambda>t. t\<lparr>return_state := THREAD_RETURN_STATE_RETURNED, ret_val := r\<rparr>) s) (\<lambda>s.
     andthen (uptime cpu_id s) (\<lambda>now.
     andthen (set_thread (active_thread s cpu_id) (\<lambda>t. t\<lparr>end_time := now\<rparr>) s) (thread_exit cpu_id)))"

section \<open>Joining\<close>

text \<open>Finding a thread's node in a table, unlinking it and deleting it.\<close>

definition drop_node :: "ptr \<Rightarrow> ptr \<Rightarrow> sched_state \<Rightarrow> sched_state outcome" where
  "drop_node q thread s =
     andthen (kernel_queue_find q thread (kq s)) (\<lambda>(node, err).
       if err \<noteq> OS_NO_ERR \<and> err \<noteq> OS_ERR_NO_SUCH_ID then Panic err
       else if node \<noteq> NULL \<and> err = OS_NO_ERR
       then or_panic (on_kq (kernel_queue_remove q node) s) (\<lambda>s.
            andthen (kernel_queue_delete_node node (kq s)) (\<lambda>(err, _, k).
              if err \<noteq> OS_NO_ERR then Panic err else Ok (s\<lparr>kq := k\<rparr>)))
       else Ok s)"

definition sched_clean_joined_thread :: "nat \<Rightarrow> ptr \<Rightarrow> sched_state \<Rightarrow> sched_state outcome" where
  "sched_clean_joined_thread cpu_id thread s =
     andthen (get_thread (active_thread s cpu_id) s) (\<lambda>me.
     andthen (drop_node (children me) thread s) (\<lambda>s.
     andthen (drop_node (zombie_threads_table s) thread s) (\<lambda>s.
     andthen (drop_node (global_threads_table s) thread s) (\<lambda>s.
     andthen (get_thread thread s) (\<lambda>t.
     let s = free_thread thread (sched_kfree (stack t) s)
     in Ok (s\<lparr>thread_count := thread_count s - 1\<rparr>))))))"

text \<open>\<^verbatim>\<open>sched_wait_thread\<close>: the joined thread's return value is \<open>Some\<close> in the result when the function
  stores it, the termination cause likewise. \<open>sched_wait_check\<close> is the part before the caller marks
  itself as joining, \<open>sched_wait_block\<close> the rest up to the switch: nothing keeps another thread from
  running between the two.\<close>

datatype wait_result = Wait_done OS_RETURN_E "ptr option" | Wait_block

definition sched_wait_check :: "nat \<Rightarrow> ptr \<Rightarrow> sched_state \<Rightarrow> (wait_result \<times> sched_state) outcome" where
  "sched_wait_check cpu_id thread s =
     (if thread = NULL then Ok (Wait_done OS_ERR_NULL_POINTER None, s)
      else andthen (get_thread thread s) (\<lambda>t.
        if th_state t = THREAD_STATE_DEAD then Ok (Wait_done OS_ERR_NO_SUCH_ID None, s)
        else if th_state t = THREAD_STATE_ZOMBIE
        then andthen (set_thread thread (\<lambda>t. t\<lparr>th_state := THREAD_STATE_DEAD\<rparr>) s) (\<lambda>s.
             andthen (sched_clean_joined_thread cpu_id thread s) (\<lambda>s.
             Ok (Wait_done OS_NO_ERR (Some (ret_val t)), s)))
        else Ok (Wait_block, s)))"

definition sched_wait_block :: "nat \<Rightarrow> ptr \<Rightarrow> sched_state \<Rightarrow> sched_state outcome" where
  "sched_wait_block cpu_id thread s =
     andthen (set_thread (active_thread s cpu_id) (\<lambda>t. t\<lparr>th_state := THREAD_STATE_JOINING\<rparr>) s) (\<lambda>s.
     andthen (set_thread thread (\<lambda>t. t\<lparr>joining_thread := active_thread_node s cpu_id\<rparr>) s)
       (sched_schedule cpu_id))"

definition sched_wait_thread ::
    "nat \<Rightarrow> ptr \<Rightarrow> sched_state \<Rightarrow> ((OS_RETURN_E \<times> ptr option) call \<times> sched_state) outcome" where
  "sched_wait_thread cpu_id thread s =
     andthen (sched_wait_check cpu_id thread s) (\<lambda>(r, s).
       case r of
         Wait_done err v \<Rightarrow> Ok (Returned (err, v), s)
       | Wait_block \<Rightarrow> andthen (sched_wait_block cpu_id thread s) (\<lambda>s. Ok (Switched, s)))"

definition sched_wait_thread_resume ::
    "nat \<Rightarrow> ptr \<Rightarrow> sched_state \<Rightarrow>
     ((OS_RETURN_E \<times> ptr \<times> THREAD_TERMINATE_CAUSE_E) \<times> sched_state) outcome" where
  "sched_wait_thread_resume cpu_id thread s =
     andthen (get_thread thread s) (\<lambda>t.
     andthen (sched_clean_joined_thread cpu_id thread s) (\<lambda>s.
     Ok ((OS_NO_ERR, ret_val t, return_cause t), s)))"

section \<open>Thread creation\<close>

definition sched_create_node :: "ptr \<Rightarrow> sched_state \<Rightarrow> ptr \<times> OS_RETURN_E \<times> sched_state" where
  "sched_create_node data s =
     (let (n, err, k) = kernel_queue_create_node data (kq s) in (n, err, s\<lparr>kq := k\<rparr>))"

definition sched_create_queue :: "sched_state \<Rightarrow> ptr \<times> OS_RETURN_E \<times> sched_state" where
  "sched_create_queue s =
     (let (q, err, k) = kernel_queue_create_queue (kq s) in (q, err, s\<lparr>kq := k\<rparr>))"

text \<open>The clean-up calls of the error paths, whose results the code ignores.\<close>

definition discard_node :: "ptr \<Rightarrow> sched_state \<Rightarrow> sched_state outcome" where
  "discard_node n s = andthen (kernel_queue_delete_node n (kq s)) (\<lambda>(_, _, k). Ok (s\<lparr>kq := k\<rparr>))"

definition discard_children :: "ptr \<Rightarrow> sched_state \<Rightarrow> sched_state outcome" where
  "discard_children thread s =
     andthen (get_thread thread s) (\<lambda>t.
     andthen (kernel_queue_delete_queue (children t) (kq s)) (\<lambda>(_, q, k).
     set_thread thread (\<lambda>t. t\<lparr>children := q\<rparr>) (s\<lparr>kq := k\<rparr>)))"

definition discard_link :: "ptr \<Rightarrow> ptr \<Rightarrow> sched_state \<Rightarrow> sched_state outcome" where
  "discard_link q n s = andthen (on_kq (kernel_queue_remove q n) s) (\<lambda>(_, s). Ok s)"

definition discard_thread :: "ptr \<Rightarrow> sched_state \<Rightarrow> sched_state outcome" where
  "discard_thread thread s =
     andthen (get_thread thread s) (\<lambda>t. Ok (free_thread thread (sched_kfree (stack t) s)))"

text \<open>The stack size rounded up to whole words.\<close>

definition stack_words :: "u32 \<Rightarrow> u32" where
  "stack_words size0 = ((size0 + ALIGN - 1) AND NOT (ALIGN - 1)) div 4"

text \<open>The linking of a new thread into the global table, its parent's children and a ready queue, each
  failure undoing what the code undoes.\<close>

definition create_link ::
    "nat \<Rightarrow> u32 \<Rightarrow> u32 \<Rightarrow> ptr \<Rightarrow> ptr \<Rightarrow> ptr \<Rightarrow> ptr \<Rightarrow> sched_state \<Rightarrow> (OS_RETURN_E \<times> sched_state) outcome"
where
  "create_link cpu_id affinity prio new_thread node second child s =
     andthen (on_kq (kernel_queue_push second (global_threads_table s)) s) (\<lambda>(err, s).
     if err \<noteq> OS_NO_ERR
     then andthen (discard_children new_thread s) (\<lambda>s.
          andthen (discard_node child s) (\<lambda>s.
          andthen (discard_node node s) (\<lambda>s.
          andthen (discard_node second s) (\<lambda>s.
          andthen (discard_thread new_thread s) (\<lambda>s. Ok (err, s))))))
     else andthen (get_thread (active_thread s cpu_id) s) (\<lambda>me.
       andthen (on_kq (kernel_queue_push child (children me)) s) (\<lambda>(err, s).
       if err \<noteq> OS_NO_ERR
       then andthen (discard_children new_thread s) (\<lambda>s.
            andthen (discard_node child s) (\<lambda>s.
            andthen (discard_node node s) (\<lambda>s.
            andthen (discard_node second s) (\<lambda>s.
            andthen (discard_link (global_threads_table s) second s) (\<lambda>s.
            andthen (discard_thread new_thread s) (\<lambda>s. Ok (err, s)))))))
       else andthen (active_table (unat affinity) prio s) (\<lambda>q.
         andthen (on_kq (kernel_queue_push node q) s) (\<lambda>(err, s).
         if err \<noteq> OS_NO_ERR
         then andthen (discard_children new_thread s) (\<lambda>s.
              andthen (discard_node child s) (\<lambda>s.
              andthen (discard_node node s) (\<lambda>s.
              andthen (discard_node second s) (\<lambda>s.
              andthen (discard_link (global_threads_table s) second s) (\<lambda>s.
              andthen (discard_link (children me) child s) (\<lambda>s.
              andthen (discard_thread new_thread s) (\<lambda>s. Ok (err, s))))))))
         else Ok (OS_NO_ERR, s\<lparr>thread_count := thread_count s + 1\<rparr>))))))"

text \<open>\<^verbatim>\<open>sched_create_kernel_thread\<close>; the result carries the value stored in \<^verbatim>\<open>*thread\<close>, \<open>NULL\<close> on
  failure (the affinity check comes before \<^verbatim>\<open>*thread\<close> is written).\<close>

definition sched_create_kernel_thread ::
    "sched_syms \<Rightarrow> nat \<Rightarrow> u32 \<Rightarrow> string \<Rightarrow> u32 \<Rightarrow> u32 \<Rightarrow> ptr \<Rightarrow> ptr \<Rightarrow> sched_state \<Rightarrow>
     (OS_RETURN_E \<times> ptr option \<times> sched_state) outcome" where
  "sched_create_kernel_thread syms cpu_id prio name0 stk_size affinity func args0 s =
     (if affinity > of_nat MAX_CPU_COUNT - 1 then Ok (OS_ERR_UNAUTHORIZED_ACTION, None, s)
      else if prio > KERNEL_LOWEST_PRIORITY then Ok (OS_ERR_FORBIDEN_PRIORITY, Some NULL, s)
      else
        let (new_thread, s) = sched_kmalloc sizeof_kernel_thread s;
            (node, err, s) = sched_create_node new_thread s
        in if err \<noteq> OS_NO_ERR \<or> new_thread = NULL \<or> node = NULL
           then if new_thread \<noteq> NULL then Ok (err, Some NULL, sched_kfree new_thread s)
                else Ok (OS_ERR_MALLOC, Some NULL, s)
           else
             andthen (get_thread (active_thread s cpu_id) s) (\<lambda>me.
             let s = s\<lparr>last_given_tid := last_given_tid s + 1\<rparr>;
                 t0 = zero_thread\<lparr>tid := last_given_tid s, ptid := tid me,
                        th_priority := prio, init_prio := prio, th_args := args0, th_function := func,
                        joining_thread := NULL, th_state := THREAD_STATE_READY,
                        stack_size := stk_size, cpu_affinity := affinity\<rparr>;
                 (q, err, s) = sched_create_queue s;
                 s = s\<lparr>threads := (threads s)(new_thread \<mapsto> t0\<lparr>children := q\<rparr>)\<rparr>
             in if err \<noteq> OS_NO_ERR
                then andthen (discard_node node s) (\<lambda>s. Ok (err, Some NULL, free_thread new_thread s))
                else
                  let stack_index = stack_words stk_size;
                      (stk, s) = sched_kmalloc (stack_index * 4) s
                  in andthen (set_thread new_thread (\<lambda>t. t\<lparr>stack := stk\<rparr>) s) (\<lambda>s.
                     if stk = NULL
                     then andthen (discard_node node s) (\<lambda>s.
                          andthen (discard_children new_thread s) (\<lambda>s.
                          Ok (OS_ERR_MALLOC, Some NULL, free_thread new_thread s)))
                     else
                       andthen (cpu_init_thread_context (sym_thread_wrapper syms) stack_index
                                  (free_page_table me) (cr3 (cpu_context me)) new_thread s) (\<lambda>s.
                       andthen (set_thread new_thread
                                  (\<lambda>t. t\<lparr>th_name := take THREAD_MAX_NAME_LENGTH name0\<rparr>) s) (\<lambda>s.
                       let (second, err, s) = sched_create_node new_thread s
                       in if err \<noteq> OS_NO_ERR
                          then andthen (discard_children new_thread s) (\<lambda>s.
                               andthen (discard_node node s) (\<lambda>s.
                               andthen (discard_thread new_thread s) (\<lambda>s. Ok (err, Some NULL, s))))
                          else
                            let (child, err, s) = sched_create_node new_thread s
                            in if err \<noteq> OS_NO_ERR
                               then andthen (discard_children new_thread s) (\<lambda>s.
                                    andthen (discard_node node s) (\<lambda>s.
                                    andthen (discard_node second s) (\<lambda>s.
                                    andthen (discard_thread new_thread s) (\<lambda>s. Ok (err, Some NULL, s)))))
                               else
                                 andthen (create_link cpu_id affinity prio new_thread node second child s)
                                   (\<lambda>(err, s).
                                    Ok (err, Some (if err = OS_NO_ERR then new_thread else NULL), s)))))))"

definition create_idle :: "sched_syms \<Rightarrow> nat \<Rightarrow> u32 \<Rightarrow> sched_state \<Rightarrow> (OS_RETURN_E \<times> sched_state) outcome"
where
  "create_idle syms cpu_id idle_stack_size s =
     (let (th, s) = sched_kmalloc sizeof_kernel_thread s;
          s = s\<lparr>idle_thread := (idle_thread s)(cpu_id := th)\<rparr>;
          (node, err, s) = sched_create_node th s;
          s = s\<lparr>idle_thread_node := (idle_thread_node s)(cpu_id := node)\<rparr>
      in if err \<noteq> OS_NO_ERR \<or> th = NULL \<or> node = NULL
         then if th \<noteq> NULL then Ok (err, sched_kfree th s) else Ok (OS_ERR_MALLOC, s)
         else
           let t0 = zero_thread\<lparr>tid := last_given_tid s, ptid := last_given_tid s,
                      th_priority := IDLE_THREAD_PRIORITY, init_prio := IDLE_THREAD_PRIORITY,
                      th_args := 0, th_function := sym_idle_sys syms, joining_thread := NULL,
                      th_state := THREAD_STATE_RUNNING, stack_size := idle_stack_size,
                      cpu_affinity := of_nat cpu_id\<rparr>;
               (q, err, s) = sched_create_queue s;
               s = s\<lparr>threads := (threads s)(th \<mapsto> t0\<lparr>children := q\<rparr>)\<rparr>
           in if err \<noteq> OS_NO_ERR then Ok (err, free_thread th s)
              else
                let stack_index = stack_words idle_stack_size;
                    (stk, s) = sched_kmalloc (stack_index * 4) s
                in andthen (set_thread th (\<lambda>t. t\<lparr>stack := stk\<rparr>) s) (\<lambda>s.
                   if stk = NULL then Ok (OS_ERR_MALLOC, free_thread th s)
                   else
                     andthen (cpu_init_thread_context (sym_thread_wrapper syms) stack_index
                                (kernel_free_pages s) (cpu_cr3 s cpu_id) th s) (\<lambda>s.
                     andthen (set_thread th (\<lambda>t. t\<lparr>th_name := ''Idle''\<rparr>) s) (\<lambda>s.
                     let (second, err, s) = sched_create_node th s
                     in if err \<noteq> OS_NO_ERR \<or> second = NULL
                        then andthen (discard_thread th s) (\<lambda>s. Ok (err, s))
                        else andthen (on_kq (kernel_queue_push second (global_threads_table s)) s) (\<lambda>(err, s).
                          if err \<noteq> OS_NO_ERR then andthen (discard_thread th s) (\<lambda>s. Ok (err, s))
                          else Ok (OS_NO_ERR,
                                   s\<lparr>thread_count := thread_count s + 1,
                                     last_given_tid := last_given_tid s + 1,
                                     active_thread := (active_thread s)(cpu_id := th),
                                     active_thread_node := (active_thread_node s)(cpu_id := node),
                                     prev_thread := (prev_thread s)(cpu_id := th),
                                     prev_thread_node := (prev_thread_node s)(cpu_id := node)\<rparr>))))))"

section \<open>Initialisation\<close>

text \<open>Creating a queue and storing its address; a failure is a panic.\<close>

definition create_table :: "(ptr \<Rightarrow> sched_state \<Rightarrow> sched_state) \<Rightarrow> sched_state \<Rightarrow> sched_state outcome" where
  "create_table store s =
     (let (q, err, s) = sched_create_queue s;
          s = store q s
      in if err \<noteq> OS_NO_ERR then Panic err else Ok s)"

primrec create_tables ::
    "(ptr \<Rightarrow> sched_state \<Rightarrow> sched_state) list \<Rightarrow> sched_state \<Rightarrow> sched_state outcome" where
  "create_tables [] s = Ok s"
| "create_tables (f # fs) s = andthen (create_table f s) (create_tables fs)"

definition store_active :: "nat \<Rightarrow> nat \<Rightarrow> ptr \<Rightarrow> sched_state \<Rightarrow> sched_state" where
  "store_active i j q s =
     s\<lparr>active_threads_table :=
         (active_threads_table s)(i := (active_threads_table s i)(j := q))\<rparr>"

definition store_sleeping :: "nat \<Rightarrow> ptr \<Rightarrow> sched_state \<Rightarrow> sched_state" where
  "store_sleeping i q s = s\<lparr>sleeping_threads_table := (sleeping_threads_table s)(i := q)\<rparr>"

definition sched_init :: "sched_syms \<Rightarrow> nat \<Rightarrow> sched_state \<Rightarrow> (OS_RETURN_E \<times> sched_state) outcome" where
  "sched_init syms cpu_id s =
     (let s = s\<lparr>last_given_tid := 0, thread_count := 0,
                schedule_count := (schedule_count s)(0 := 0),
                idle_sched_count := (idle_sched_count s)(0 := 0),
                init_thread := NULL, init_thread_node := NULL, first_sched := (\<lambda>_. 0)\<rparr>
      in andthen (create_tables
           ([\<lambda>q s. s\<lparr>global_threads_table := q\<rparr>] @
            [store_active i j. i \<leftarrow> [0 ..< MAX_CPU_COUNT], j \<leftarrow> [0 ..< unat KERNEL_LOWEST_PRIORITY + 1]] @
            [\<lambda>q s. s\<lparr>zombie_threads_table := q\<rparr>] @
            [store_sleeping i. i \<leftarrow> [0 ..< MAX_CPU_COUNT]]) s) (\<lambda>s.
         or_panic (create_idle syms cpu_id SCHEDULER_IDLE_STACK_SIZE s) (\<lambda>s.
         let (err, i) = kernel_interrupt_register_int_handler SCHEDULER_SW_INT_LINE
                          (sym_schedule_int syms) (ints (time s));
             s = s\<lparr>time := (time s)\<lparr>ints := i\<rparr>\<rparr>
         in if err \<noteq> OS_NO_ERR then Ok (err, s)
            else
              let (err, t) = time_register_scheduler (sym_schedule_int syms) (time s);
                  s = s\<lparr>time := t\<rparr>
              in if err \<noteq> OS_NO_ERR then Ok (err, s)
                 else
                   andthen (sched_create_kernel_thread syms cpu_id KERNEL_HIGHEST_PRIORITY ''init''
                              SCHEDULER_INIT_STACK_SIZE 0 (sym_init_func syms) 0 s) (\<lambda>(err, th, s).
                   let s = (case th of None \<Rightarrow> s | Some p \<Rightarrow> s\<lparr>init_thread := p\<rparr>)
                   in if err \<noteq> OS_NO_ERR then Ok (err, s)
                      else Ok (OS_NO_ERR, s\<lparr>system_state := SYSTEM_STATE_RUNNING\<rparr>)))))"

text \<open>\<^verbatim>\<open>sched_init_ap\<close> waits for the first schedule on CPU 0, then starts its own idle thread.\<close>

definition sched_init_ap :: "sched_syms \<Rightarrow> nat \<Rightarrow> sched_state \<Rightarrow> sched_state outcome" where
  "sched_init_ap syms cpu_id s =
     (if first_sched s 0 = 0 then Diverged
      else or_panic (create_idle syms cpu_id SCHEDULER_IDLE_STACK_SIZE s) (\<lambda>s.
           sched_schedule cpu_id
             (s\<lparr>time := (time s)\<lparr>ints := kernel_interrupt_restore 1 (ints (time s))\<rparr>\<rparr>)))"

section \<open>Thread information and the division handler\<close>

record thread_info =
  info_tid :: u32
  info_ptid :: u32
  info_name :: string
  info_priority :: u32
  info_state :: THREAD_STATE_E
  info_start_time :: u64
  info_end_time :: u64

text \<open>The walk of \<^verbatim>\<open>get_threads_info\<close>; it loads \<^verbatim>\<open>cursor->data\<close> right after every advance of the
  cursor, before the loop tests it. \<open>n\<close> is the number of entries still to fill.\<close>

primrec info_loop ::
    "nat \<Rightarrow> nat \<Rightarrow> ptr \<Rightarrow> ptr \<Rightarrow> sched_state \<Rightarrow> thread_info list outcome" where
  "info_loop cpu_id 0 cursor cursor_thread s = Ok []"
| "info_loop cpu_id (Suc n) cursor cursor_thread s =
     (if cursor = NULL then Ok []
      else andthen (get_thread cursor_thread s) (\<lambda>t.
        andthen (uptime cpu_id s) (\<lambda>now.
        andthen (deref (nodes (kq s)) cursor) (\<lambda>c.
        andthen (node_data (kq_next c) s) (\<lambda>d.
        andthen (info_loop cpu_id n (kq_next c) d s) (\<lambda>is.
          Ok (\<lparr>info_tid = tid t, info_ptid = ptid t, info_name = th_name t,
               info_priority = th_priority t, info_state = th_state t, info_start_time = start_time t,
               info_end_time = (if th_state t \<noteq> THREAD_STATE_ZOMBIE then now else end_time t)\<rparr> # is)))))))"

text \<open>\<open>size0\<close> is the caller's \<^verbatim>\<open>*size\<close>, an \<^verbatim>\<open>int32_t\<close>; the result gives its new value.\<close>

definition get_threads_info ::
    "nat \<Rightarrow> int option \<Rightarrow> bool \<Rightarrow> sched_state \<Rightarrow> (OS_RETURN_E \<times> int \<times> thread_info list) outcome" where
  "get_threads_info cpu_id size0 threads_null s =
     (case size0 of
        None \<Rightarrow> Ok (OS_ERR_NULL_POINTER, 0, [])
      | Some n \<Rightarrow>
          if threads_null then Ok (OS_ERR_NULL_POINTER, n, [])
          else
            let n = (if n > sint (thread_count s) then sint (thread_count s) else n)
            in andthen (deref (queues (kq s)) (global_threads_table s)) (\<lambda>g.
               andthen (node_data (head g) s) (\<lambda>d.
               andthen (info_loop cpu_id (nat n) (head g) d s) (\<lambda>is. Ok (OS_NO_ERR, n, is)))))"

text \<open>\<^verbatim>\<open>div_by_zero_handler\<close> of \<^verbatim>\<open>exceptions.c\<close>; the result is the address the interrupted thread
  resumes at, \<open>None\<close> when the handler calls the panic routine, which does not return.\<close>

definition div_by_zero_handler ::
    "ptr \<Rightarrow> nat \<Rightarrow> u32 \<Rightarrow> sched_state \<Rightarrow> (ptr option \<times> sched_state) outcome" where
  "div_by_zero_handler sym_terminate cpu_id int_id s =
     (if int_id \<noteq> DIV_BY_ZERO_LINE then Ok (None, s)
      else andthen (sched_set_thread_termination_cause cpu_id THREAD_TERMINATE_CAUSE_DIV_BY_ZERO s) (\<lambda>s.
           Ok (Some sym_terminate, s)))"

end
