(* ===== verification/Election.thy ===== *)
theory Election
  imports Scheduler "HOL-Library.Multiset"
begin

text \<open>
  Correctness of the election of the next thread (\<open>select_thread\<close> of theory \<open>Scheduler\<close>), for one CPU.
  \<open>sched_ok cpu s L\<close> says that the CPU's 64 ready queues and its queue of sleeping threads are
  well-formed, distinct kernel queues, represented by the lists \<open>L\<close>, whose nodes carry threads of
  valid priority. The lemmas describe the effect of each phase on the lists; the properties at the
  end say which thread is elected.
\<close>

section \<open>Views\<close>

text \<open>The thread that a queue node carries.\<close>

definition thread_at :: "sched_state \<Rightarrow> ptr \<Rightarrow> kernel_thread option" where
  "thread_at s n =
     (case nodes (kq s) n of None \<Rightarrow> None
      | Some nd \<Rightarrow> if kq_data nd = NULL then None else threads s (kq_data nd))"

definition runnable :: "sched_state \<Rightarrow> ptr \<Rightarrow> bool" where
  "runnable s n \<longleftrightarrow> (\<exists>t. thread_at s n = Some t \<and> th_priority t \<le> KERNEL_LOWEST_PRIORITY)"

definition prio_of :: "sched_state \<Rightarrow> ptr \<Rightarrow> nat" where
  "prio_of s n = (case thread_at s n of None \<Rightarrow> 0 | Some t \<Rightarrow> unat (th_priority t))"

definition wake_of :: "sched_state \<Rightarrow> ptr \<Rightarrow> u64" where
  "wake_of s n = (case thread_at s n of None \<Rightarrow> 0 | Some t \<Rightarrow> wakeup_time t)"

text \<open>The number of ready queues of a CPU.\<close>

abbreviation levels :: nat where
  "levels \<equiv> unat KERNEL_LOWEST_PRIORITY + 1"

definition sched_ok :: "nat \<Rightarrow> sched_state \<Rightarrow> (ptr \<rightharpoonup> ptr list) \<Rightarrow> bool" where
  "sched_ok cpu s L \<longleftrightarrow>
     kq_rel (kq s) L \<and> cpu < MAX_CPU_COUNT \<and>
     (\<forall>i < levels. L (active_threads_table s cpu i) \<noteq> None) \<and>
     L (sleeping_threads_table s cpu) \<noteq> None \<and>
     inj_on (active_threads_table s cpu) {..<levels} \<and>
     (\<forall>i < levels. active_threads_table s cpu i \<noteq> sleeping_threads_table s cpu) \<and>
     (\<forall>i < levels. \<forall>xs. L (active_threads_table s cpu i) = Some xs \<longrightarrow> (\<forall>n \<in> set xs. runnable s n)) \<and>
     (\<forall>xs. L (sleeping_threads_table s cpu) = Some xs \<longrightarrow> (\<forall>n \<in> set xs. runnable s n))"

text \<open>What the phases of the election leave alone: everything about threads but their state, the data
  of the nodes, the tables, the clock.\<close>

definition strip :: "kernel_thread \<Rightarrow> kernel_thread" where
  "strip t = t\<lparr>th_state := THREAD_STATE_READY\<rparr>"

definition sched_frame :: "sched_state \<Rightarrow> sched_state \<Rightarrow> bool" where
  "sched_frame s s' \<longleftrightarrow>
     kq_frame (kq s) (kq s') \<and>
     (\<forall>p. map_option strip (threads s' p) = map_option strip (threads s p)) \<and>
     active_threads_table s' = active_threads_table s \<and>
     sleeping_threads_table s' = sleeping_threads_table s \<and>
     idle_thread s' = idle_thread s \<and> time s' = time s"

lemma sched_frame_refl [simp]: "sched_frame s s"
  by (simp add: sched_frame_def kq_frame_def)

lemma sched_frame_trans: "sched_frame s s' \<Longrightarrow> sched_frame s' s'' \<Longrightarrow> sched_frame s s''"
  by (simp add: sched_frame_def kq_frame_def)

lemma strip_simps [simp]:
  "th_priority (strip t) = th_priority t" "wakeup_time (strip t) = wakeup_time t"
  "strip (t\<lparr>th_state := x\<rparr>) = strip t"
  by (simp_all add: strip_def)

lemma strip_eqD: "strip t = strip t' \<Longrightarrow> th_priority t = th_priority t' \<and> wakeup_time t = wakeup_time t'"
  by (metis strip_simps(1,2))

lemma thread_at_frame:
  assumes "sched_frame s s'"
  shows "map_option strip (thread_at s' n) = map_option strip (thread_at s n)"
proof -
  have k: "map_option kq_data (nodes (kq s') n) = map_option kq_data (nodes (kq s) n)"
    using assms by (simp add: sched_frame_def kq_frame_def)
  have t: "map_option strip (threads s' p) = map_option strip (threads s p)" for p
    using assms by (simp add: sched_frame_def)
  show ?thesis using k t
    by (cases "nodes (kq s) n"; cases "nodes (kq s') n") (simp_all add: thread_at_def)
qed

lemma frame_views:
  assumes "sched_frame s s'"
  shows "runnable s' n = runnable s n" "prio_of s' n = prio_of s n" "wake_of s' n = wake_of s n"
proof -
  note e = thread_at_frame [OF assms, of n]
  show "runnable s' n = runnable s n" using e
    by (cases "thread_at s n"; cases "thread_at s' n") (auto simp: runnable_def dest: strip_eqD)
  show "prio_of s' n = prio_of s n" "wake_of s' n = wake_of s n" using e
    by (cases "thread_at s n"; cases "thread_at s' n"; auto simp: prio_of_def wake_of_def dest: strip_eqD)+
qed

lemma sched_frame_kq: "kq_frame (kq s) k \<Longrightarrow> sched_frame s (s\<lparr>kq := k\<rparr>)"
  by (simp add: sched_frame_def)

lemma sched_frame_state:
  "threads s p = Some t \<Longrightarrow> sched_frame s (s\<lparr>threads := (threads s)(p \<mapsto> t\<lparr>th_state := x\<rparr>)\<rparr>)"
  by (simp add: sched_frame_def kq_frame_def)

text \<open>A node in no queue is not enlisted.\<close>

lemma kq_rel_loose:
  assumes "kq_rel k L" "nodes k n = Some nd" "\<And>q xs. L q = Some xs \<Longrightarrow> n \<notin> set xs"
  shows "enlisted nd = 0"
  using assms unfolding kq_rel_def by blast

lemma runnableE:
  assumes "runnable s n"
  obtains nd t where "nodes (kq s) n = Some nd" "kq_data nd \<noteq> NULL" "threads s (kq_data nd) = Some t"
    "th_priority t \<le> KERNEL_LOWEST_PRIORITY" "thread_at s n = Some t"
    "prio_of s n = unat (th_priority t)" "wake_of s n = wakeup_time t" "prio_of s n < levels"
proof -
  from assms obtain t where t: "thread_at s n = Some t" "th_priority t \<le> KERNEL_LOWEST_PRIORITY"
    by (auto simp: runnable_def)
  then obtain nd where "nodes (kq s) n = Some nd" "kq_data nd \<noteq> NULL" "threads s (kq_data nd) = Some t"
    by (auto simp: thread_at_def split: option.splits if_splits)
  moreover have "unat (th_priority t) < levels" using t(2) by (simp add: word_le_nat_alt)
  ultimately show thesis using that t by (simp add: prio_of_def wake_of_def)
qed

text \<open>Replacing the lists of the CPU's own queues keeps \<open>sched_ok\<close> when every node of the new lists is
  runnable.\<close>

lemma sched_ok_upd:
  assumes "sched_ok cpu s L" "sched_frame s s'" "kq_rel (kq s') L'"
    and "\<And>q. L q \<noteq> None \<Longrightarrow> L' q \<noteq> None"
    and "\<And>i xs. i < levels \<Longrightarrow> L' (active_threads_table s cpu i) = Some xs \<Longrightarrow> \<forall>n \<in> set xs. runnable s n"
    and "\<And>xs. L' (sleeping_threads_table s cpu) = Some xs \<Longrightarrow> \<forall>n \<in> set xs. runnable s n"
  shows "sched_ok cpu s' L'"
proof -
  have t: "active_threads_table s' = active_threads_table s"
    "sleeping_threads_table s' = sleeping_threads_table s"
    using assms(2) by (simp_all add: sched_frame_def)
  show ?thesis
    using assms(1,3-6) frame_views(1) [OF assms(2)]
    unfolding sched_ok_def t by (metis (no_types, lifting))
qed

section \<open>Scanning the ready queues\<close>

lemma elect_loop_empty:
  assumes "kq_rel (kq s) L" "\<And>i. i \<in> set is \<Longrightarrow> L (active_threads_table s cpu i) = Some []"
  shows "elect_loop cpu is s =
     Ok (if is = [] then s else s\<lparr>active_thread_node := (active_thread_node s)(cpu := NULL)\<rparr>)"
  using assms
proof (induction "is" arbitrary: s)
  case (Cons i "is")
  let ?s = "s\<lparr>active_thread_node := (active_thread_node s)(cpu := NULL)\<rparr>"
  have "kernel_queue_pop (active_threads_table s cpu i) (kq s) = Ok (NULL, OS_NO_ERR, kq s)"
    using kq_pop_empty [OF Cons.prems(1)] Cons.prems(2) by simp
  then have "elect_loop cpu (i # is) s = elect_loop cpu is ?s"
    by (simp add: sched_pop_def Let_def)
  also have "\<dots> = Ok ?s" using Cons.IH [of ?s] Cons.prems by simp
  finally show ?case by simp
qed simp

lemma elect_loop_first:
  assumes "kq_rel (kq s) L" "L (active_threads_table s cpu i) = Some (xs @ [n])"
    and "\<And>j. j \<in> set pre \<Longrightarrow> L (active_threads_table s cpu j) = Some []"
  shows "\<exists>k. elect_loop cpu (pre @ i # post) s =
             Ok (s\<lparr>kq := k, active_thread_node := (active_thread_node s)(cpu := n)\<rparr>) \<and>
           kq_rel k (L(active_threads_table s cpu i \<mapsto> xs)) \<and> kq_frame (kq s) k \<and> n \<noteq> NULL"
  using assms
proof (induction pre arbitrary: s)
  case Nil
  from kq_pop_step [OF Nil(1,2)] obtain k where
    k: "kernel_queue_pop (active_threads_table s cpu i) (kq s) = Ok (n, OS_NO_ERR, k)"
    "kq_rel k (L(active_threads_table s cpu i \<mapsto> xs))" "kq_frame (kq s) k" "n \<noteq> NULL" by metis
  have "elect_loop cpu ([] @ i # post) s =
      Ok (s\<lparr>kq := k, active_thread_node := (active_thread_node s)(cpu := n)\<rparr>)"
    using k(1,4) by (simp add: sched_pop_def Let_def)
  with k(2-4) show ?case by blast
next
  case (Cons j pre)
  let ?s = "s\<lparr>active_thread_node := (active_thread_node s)(cpu := NULL)\<rparr>"
  have "kernel_queue_pop (active_threads_table s cpu j) (kq s) = Ok (NULL, OS_NO_ERR, kq s)"
    using kq_pop_empty [OF Cons.prems(1)] Cons.prems(3) by simp
  then have eq: "elect_loop cpu ((j # pre) @ i # post) s = elect_loop cpu (pre @ i # post) ?s"
    by (simp add: sched_pop_def Let_def)
  have "\<exists>k. elect_loop cpu (pre @ i # post) ?s =
             Ok (?s\<lparr>kq := k, active_thread_node := (active_thread_node ?s)(cpu := n)\<rparr>) \<and>
           kq_rel k (L(active_threads_table ?s cpu i \<mapsto> xs)) \<and> kq_frame (kq ?s) k \<and> n \<noteq> NULL"
    by (rule Cons.IH) (use Cons.prems in simp_all)
  then obtain k where k: "elect_loop cpu (pre @ i # post) ?s =
        Ok (s\<lparr>kq := k, active_thread_node := (active_thread_node s)(cpu := n)\<rparr>)"
      "kq_rel k (L(active_threads_table s cpu i \<mapsto> xs))" "kq_frame (kq s) k" "n \<noteq> NULL"
    by auto
  from k(2-4) eq [unfolded k(1)] show ?case by blast
qed

lemma upt_split: "i < m \<Longrightarrow> [0 ..< m] = [0 ..< i] @ i # [Suc i ..< m]"
  by (metis less_imp_le_nat upt_add_eq_append upt_conv_Cons zero_le le_add_diff_inverse add_0)

text \<open>The election takes the node nearest the tail of the first non-empty ready queue.\<close>

lemma elect_step:
  assumes ok: "sched_ok cpu s L" and i: "i < levels"
    and Li: "L (active_threads_table s cpu i) = Some (xs @ [n])"
    and pre: "\<And>j. j < i \<Longrightarrow> L (active_threads_table s cpu j) = Some []"
  shows "\<exists>s' t. elect cpu s = Ok s' \<and> sched_ok cpu s' (L(active_threads_table s cpu i \<mapsto> xs)) \<and>
           sched_frame s s' \<and> active_thread_node s' cpu = n \<and> thread_at s n = Some t \<and>
           threads s' (active_thread s' cpu) = Some (t\<lparr>th_state := THREAD_STATE_RUNNING\<rparr>) \<and>
           map_option kq_data (nodes (kq s') n) = Some (active_thread s' cpu)"
proof -
  have rel: "kq_rel (kq s) L" using ok by (simp add: sched_ok_def)
  from elect_loop_first [OF rel Li, of "[0 ..< i]" "[Suc i ..< levels]"] pre
  obtain k where k: "elect_loop cpu [0 ..< levels] s =
        Ok (s\<lparr>kq := k, active_thread_node := (active_thread_node s)(cpu := n)\<rparr>)"
      "kq_rel k (L(active_threads_table s cpu i \<mapsto> xs))" "kq_frame (kq s) k" "n \<noteq> NULL"
    using upt_split [OF i] by auto
  have run: "runnable s n" using ok i Li unfolding sched_ok_def by fastforce
  then obtain nd t where nt: "nodes (kq s) n = Some nd" "kq_data nd \<noteq> NULL"
    "threads s (kq_data nd) = Some t" "thread_at s n = Some t" by (rule runnableE)
  have nd': "map_option kq_data (nodes k n) = Some (kq_data nd)"
    using k(3) nt(1) by (simp add: kq_frame_def)
  then obtain nd2 where nd2: "nodes k n = Some nd2" "kq_data nd2 = kq_data nd" by auto
  let ?s1 = "s\<lparr>kq := k, active_thread_node := (active_thread_node s)(cpu := n),
               active_thread := (active_thread s)(cpu := kq_data nd)\<rparr>"
  let ?s' = "?s1\<lparr>threads := (threads s)(kq_data nd \<mapsto> t\<lparr>th_state := THREAD_STATE_RUNNING\<rparr>)\<rparr>"
  have eq: "elect cpu s = Ok ?s'"
    using k(1,4) nd2 nt(2,3)
    by (simp add: elect_def node_data_def set_thread_def store_simps Let_def)
  have fr: "sched_frame s ?s'" using k(3) nt(3) by (simp add: sched_frame_def)
  have "sched_ok cpu ?s' (L(active_threads_table s cpu i \<mapsto> xs))"
  proof (rule sched_ok_upd [OF ok fr])
    show "kq_rel (kq ?s') (L(active_threads_table s cpu i \<mapsto> xs))" using k(2) by simp
  qed (use ok Li i in \<open>auto simp: sched_ok_def split: if_splits\<close>)
  with eq fr nt(4) nd' show ?thesis by (intro exI [of _ ?s'] exI [of _ t]) simp
qed

lemma elect_none:
  assumes "sched_ok cpu s L" "\<And>i. i < levels \<Longrightarrow> L (active_threads_table s cpu i) = Some []"
  shows "elect cpu s = Panic OS_NO_ERR"
proof -
  have "kq_rel (kq s) L" using assms(1) by (simp add: sched_ok_def)
  then have "elect_loop cpu [0 ..< levels] s =
      Ok (if [0 ..< levels] = [] then s else s\<lparr>active_thread_node := (active_thread_node s)(cpu := NULL)\<rparr>)"
    by (rule elect_loop_empty) (use assms(2) in auto)
  then have "elect_loop cpu [0 ..< levels] s = Ok (s\<lparr>active_thread_node := (active_thread_node s)(cpu := NULL)\<rparr>)"
    by simp
  then show ?thesis unfolding elect_def by (simp del: upt_Suc)
qed

section \<open>Waking the sleeping threads\<close>

text \<open>The queue of sleeping threads is sorted by decreasing wake-up time, and the wake-up times fit in
  the 32-bit priorities of the nodes.\<close>

definition sleep_ok :: "sched_state \<Rightarrow> ptr list \<Rightarrow> bool" where
  "sleep_ok s xs \<longleftrightarrow>
     sorted_wrt (\<lambda>x y. node_prio (kq s) x \<ge> node_prio (kq s) y) xs \<and>
     (\<forall>n \<in> set xs. node_prio (kq s) n = ucast (wake_of s n) \<and> wake_of s n < 2 ^ 32)"

lemma wake_pass_move:
  assumes ok: "sched_ok cpu s L" and Ls: "L (sleeping_threads_table s cpu) = Some (xs @ [n])"
    and early: "wake_of s n < now"
  shows "\<exists>s' ys. wake_body cpu now s = Ok (True, s') \<and> sched_frame s s' \<and>
           L (active_threads_table s cpu (prio_of s n)) = Some ys \<and>
           sched_ok cpu s' (L(sleeping_threads_table s cpu \<mapsto> xs,
                              active_threads_table s cpu (prio_of s n) \<mapsto> n # ys)) \<and>
           (\<forall>x. node_prio (kq s') x = node_prio (kq s) x)"
proof -
  let ?sl = "sleeping_threads_table s cpu" and ?rq = "active_threads_table s cpu (prio_of s n)"
  have rel: "kq_rel (kq s) L" and cpu: "cpu < MAX_CPU_COUNT" using ok by (simp_all add: sched_ok_def)
  have "runnable s n" using ok Ls unfolding sched_ok_def by fastforce
  then obtain nd t where nt: "nodes (kq s) n = Some nd" "kq_data nd \<noteq> NULL"
    "threads s (kq_data nd) = Some t" "th_priority t \<le> KERNEL_LOWEST_PRIORITY"
    "prio_of s n = unat (th_priority t)" "wake_of s n = wakeup_time t" "prio_of s n < levels"
    by (rule runnableE)
  have neq: "?rq \<noteq> ?sl" using ok nt(7) by (simp add: sched_ok_def)
  obtain ys where ys: "L ?rq = Some ys" using ok nt(7) unfolding sched_ok_def by fastforce
  from kq_pop_step [OF rel Ls] obtain k nd1 where k: "kernel_queue_pop ?sl (kq s) = Ok (n, OS_NO_ERR, k)"
    "kq_rel k (L(?sl \<mapsto> xs))" "kq_frame (kq s) k" "nodes k n = Some nd1" "enlisted nd1 = 0" "n \<noteq> NULL"
    "\<And>x. node_prio k x = node_prio (kq s) x" by metis
  have d1: "kq_data nd1 = kq_data nd"
    using k(3,4) nt(1) by (metis kq_frame_def option.inject option.map(2))
  have "(L(?sl \<mapsto> xs)) ?rq = Some ys" using neq ys by simp
  from kq_push_step [OF k(2) this k(4,5)] obtain k2 where k2: "kernel_queue_push n ?rq k = Ok (OS_NO_ERR, k2)"
    "kq_rel k2 (L(?sl \<mapsto> xs, ?rq \<mapsto> n # ys))" "kq_frame k k2" "\<And>x. node_prio k2 x = node_prio k x"
    by metis
  let ?s' = "s\<lparr>kq := k2, threads := (threads s)(kq_data nd \<mapsto> t\<lparr>th_state := THREAD_STATE_READY\<rparr>)\<rparr>"
  have eq: "wake_body cpu now s = Ok (True, ?s')"
    using k(1,4,6) nt early d1 k2(1) cpu
    by (simp add: wake_body_def sched_pop_def node_data_def get_thread_def set_thread_def store_simps
        active_table_def on_kq_def)
  have fr: "sched_frame s ?s'"
    using k(3) k2(3) nt(3) by (simp add: sched_frame_def kq_frame_def)
  have "sched_ok cpu ?s' (L(?sl \<mapsto> xs, ?rq \<mapsto> n # ys))"
  proof (rule sched_ok_upd [OF ok fr])
    show "kq_rel (kq ?s') (L(?sl \<mapsto> xs, ?rq \<mapsto> n # ys))" using k2(2) by simp
  qed (use ok Ls ys \<open>runnable s n\<close> nt(7) in \<open>auto simp: sched_ok_def split: if_splits\<close>)
  with eq fr ys k(7) k2(4) show ?thesis by (intro exI [of _ ?s'] exI [of _ ys]) simp
qed

lemma wake_pass_stop:
  assumes ok: "sched_ok cpu s L" and Ls: "L (sleeping_threads_table s cpu) = Some (xs @ [n])"
    and late: "\<not> wake_of s n < now" and np: "node_prio (kq s) n = ucast (wake_of s n)"
  shows "\<exists>s'. wake_body cpu now s = Ok (False, s') \<and> sched_frame s s' \<and>
           sched_ok cpu s' (L(sleeping_threads_table s cpu \<mapsto>
             prio_insert (node_prio (kq s)) (node_prio (kq s) n) n xs)) \<and>
           (\<forall>x. node_prio (kq s') x = node_prio (kq s) x)"
proof -
  let ?sl = "sleeping_threads_table s cpu" and ?p = "node_prio (kq s) n"
  let ?ys = "prio_insert (node_prio (kq s)) ?p n xs"
  have rel: "kq_rel (kq s) L" using ok by (simp add: sched_ok_def)
  have run: "runnable s n" using ok Ls unfolding sched_ok_def by fastforce
  then obtain nd t where nt: "nodes (kq s) n = Some nd" "kq_data nd \<noteq> NULL"
    "threads s (kq_data nd) = Some t" "wake_of s n = wakeup_time t"
    by (rule runnableE)
  from kq_pop_step [OF rel Ls] obtain k nd1 where k: "kernel_queue_pop ?sl (kq s) = Ok (n, OS_NO_ERR, k)"
    "kq_rel k (L(?sl \<mapsto> xs))" "kq_frame (kq s) k" "nodes k n = Some nd1" "enlisted nd1 = 0" "n \<noteq> NULL"
    "\<And>x. node_prio k x = node_prio (kq s) x" by metis
  have kp: "node_prio k = node_prio (kq s)" using k(7) by (rule ext)
  have d1: "kq_data nd1 = kq_data nd"
    using k(3,4) nt(1) by (metis kq_frame_def option.inject option.map(2))
  have "(L(?sl \<mapsto> xs)) ?sl = Some xs" by simp
  from kq_push_prio_step [OF k(2) this k(4,5), of ?p] obtain k2 where
    k2: "kernel_queue_push_prio n ?sl ?p k = Ok (OS_NO_ERR, k2)"
    "kq_rel k2 ((L(?sl \<mapsto> xs))(?sl \<mapsto> prio_insert (node_prio k) ?p n xs))" "kq_frame k k2"
    "\<And>x. node_prio k2 x = (if x = n then ?p else node_prio k x)" by metis
  let ?s' = "s\<lparr>kq := k2\<rparr>"
  have eq: "wake_body cpu now s = Ok (False, ?s')"
    using k(1,4,6) nt late d1 k2(1) np
    by (simp add: wake_body_def sched_pop_def node_data_def get_thread_def store_simps on_kq_def)
  have fr: "sched_frame s ?s'"
    using k(3) k2(3) by (simp add: sched_frame_def kq_frame_def)
  have set: "set ?ys = insert n (set xs)"
    unfolding prio_insert_def by (metis (no_types) Un_insert_right set_append list.set(2) takeWhile_dropWhile_id)
  have "sched_ok cpu ?s' (L(?sl \<mapsto> ?ys))"
  proof (rule sched_ok_upd [OF ok fr])
    show "kq_rel (kq ?s') (L(?sl \<mapsto> ?ys))" using k2(2) kp by simp
  qed (use ok Ls run set in \<open>auto simp: sched_ok_def split: if_splits\<close>)
  moreover have "\<forall>x. node_prio (kq ?s') x = node_prio (kq s) x" using k2(4) k(7) by simp
  ultimately show ?thesis using eq fr by blast
qed

lemma wake_pass_empty:
  assumes "sched_ok cpu s L" "L (sleeping_threads_table s cpu) = Some []"
  shows "wake_body cpu now s = Ok (False, s)"
proof -
  have "kq_rel (kq s) L" using assms(1) by (simp add: sched_ok_def)
  from kq_pop_empty [OF this assms(2)] show ?thesis
    by (simp add: wake_body_def sched_pop_def)
qed

text \<open>Insertion by priority into a sorted list.\<close>

lemma prio_insert_sorted:
  assumes "sorted_wrt (\<lambda>x y. f x \<ge> f y) xs"
  shows "sorted_wrt (\<lambda>x y. f x \<ge> f y) (prio_insert f (f n) n xs)"
proof -
  let ?as = "takeWhile (\<lambda>x. f x > f n) xs" and ?bs = "dropWhile (\<lambda>x. f x > f n) xs"
  have s: "sorted_wrt (\<lambda>x y. f x \<ge> f y) (?as @ ?bs)" using assms by simp
  have a: "\<forall>x \<in> set ?as. f n \<le> f x" using takeWhile_all [of "\<lambda>x. f x > f n" xs] by auto
  have b: "\<forall>x \<in> set ?bs. f x \<le> f n"
  proof (cases ?bs)
    case Nil
    show ?thesis unfolding Nil by simp
  next
    case (Cons b bs')
    then have "\<not> f b > f n" by (rule dropWhile_head)
    with s Cons show ?thesis by (fastforce simp: sorted_wrt_append)
  qed
  show ?thesis using s a b unfolding prio_insert_def by (auto simp: sorted_wrt_append intro: order_trans)
qed

lemma mset_prio_insert: "mset (prio_insert f p n xs) = add_mset n (mset xs)"
  unfolding prio_insert_def by (metis mset.simps(2) mset_append takeWhile_dropWhile_id union_mset_add_mset_right)

lemma sleep_ok_frame:
  assumes "sleep_ok s xs" "sched_frame s s'" "\<forall>x. node_prio (kq s') x = node_prio (kq s) x"
  shows "sleep_ok s' xs"
  using assms(1,3) frame_views(3) [OF assms(2)] by (simp add: sleep_ok_def)

text \<open>When the last thread of the queue is not due, none is.\<close>

lemma sleep_ok_last_late:
  assumes "sleep_ok s (xs @ [n])" "\<not> wake_of s n < now" "x \<in> set (xs @ [n])"
  shows "\<not> wake_of s x < now"
proof -
  have x: "node_prio (kq s) x = ucast (wake_of s x)" "wake_of s x < 2 ^ 32"
    and n: "node_prio (kq s) n = ucast (wake_of s n)" "wake_of s n < 2 ^ 32"
    using assms(1,3) by (auto simp: sleep_ok_def)
  have "node_prio (kq s) n \<le> node_prio (kq s) x"
    using assms(1,3) by (auto simp: sleep_ok_def sorted_wrt_append)
  then have "unat (ucast (wake_of s n) :: u32) \<le> unat (ucast (wake_of s x) :: u32)"
    using x n by (simp add: word_le_nat_alt)
  moreover have "unat (ucast w :: u32) = unat w" if "w < 2 ^ 32" for w :: u64
  proof -
    have "unat w < 2 ^ 32" using that by (simp add: word_less_nat_alt)
    then show ?thesis by (simp add: unsigned_ucast_eq take_bit_nat_eq_self)
  qed
  ultimately have "wake_of s n \<le> wake_of s x" using x n by (simp add: word_le_nat_alt)
  with assms(2) show ?thesis by simp
qed

text \<open>The whole loop: exactly the threads that are due leave the queue of sleeping threads, each for
  the ready queue of its priority, in the order of their wake-up times; the others keep sleeping.\<close>

definition woken :: "sched_state \<Rightarrow> u64 \<Rightarrow> nat \<Rightarrow> ptr list \<Rightarrow> ptr list" where
  "woken s now i xs = filter (\<lambda>n. wake_of s n < now \<and> prio_of s n = i) xs"

lemma wake_loop:
  assumes "sched_ok cpu s L" "L (sleeping_threads_table s cpu) = Some xs" "sleep_ok s xs"
  shows "\<exists>s' L' xs'. while_do (wake_body cpu now) s = Ok s' \<and> sched_ok cpu s' L' \<and> sched_frame s s' \<and>
           L' (sleeping_threads_table s cpu) = Some xs' \<and> sleep_ok s' xs' \<and>
           mset xs' = mset (filter (\<lambda>n. \<not> wake_of s n < now) xs) \<and>
           (\<forall>i < levels. L' (active_threads_table s cpu i) =
              map_option (\<lambda>ys. woken s now i xs @ ys) (L (active_threads_table s cpu i))) \<and>
           (\<forall>x. node_prio (kq s') x = node_prio (kq s) x)"
  using assms
proof (induction xs arbitrary: s L rule: rev_induct)
  case Nil
  have "while_do (wake_body cpu now) s = Ok s"
    by (subst while_do_unfold) (simp add: wake_pass_empty [OF Nil(1,2)])
  with Nil show ?case
    by (intro exI [of _ s] exI [of _ L] exI [of _ "[]"]) (auto simp: woken_def option.map_ident)
next
  case (snoc n xs)
  let ?sl = "sleeping_threads_table s cpu"
  show ?case
  proof (cases "wake_of s n < now")
    case True
    let ?rq = "active_threads_table s cpu (prio_of s n)"
    from wake_pass_move [OF snoc.prems(1,2) True] obtain s1 ys where s1:
      "wake_body cpu now s = Ok (True, s1)" "sched_frame s s1" "L ?rq = Some ys"
      "sched_ok cpu s1 (L(?sl \<mapsto> xs, ?rq \<mapsto> n # ys))"
      "\<forall>x. node_prio (kq s1) x = node_prio (kq s) x" by blast
    have tab: "active_threads_table s1 = active_threads_table s" "sleeping_threads_table s1 = sleeping_threads_table s"
      using s1(2) by (simp_all add: sched_frame_def)
    have "runnable s n" using snoc.prems(1,2) unfolding sched_ok_def by fastforce
    then have lt: "prio_of s n < levels" by (rule runnableE)
    have neq: "?rq \<noteq> ?sl" using snoc.prems(1) lt by (simp add: sched_ok_def)
    have inj: "active_threads_table s cpu i = ?rq \<longleftrightarrow> i = prio_of s n" if "i < levels" for i
      using snoc.prems(1) lt that unfolding sched_ok_def by (metis inj_on_eq_iff lessThan_iff)
    have ne: "active_threads_table s cpu i \<noteq> ?sl" if "i < levels" for i
      using snoc.prems(1) that by (simp add: sched_ok_def)
    have so: "sleep_ok s1 xs"
      using sleep_ok_frame [OF snoc.prems(3) s1(2,5)] by (simp add: sleep_ok_def sorted_wrt_append)
    have "(L(?sl \<mapsto> xs, ?rq \<mapsto> n # ys)) (sleeping_threads_table s1 cpu) = Some xs" using tab neq by simp
    from snoc.IH [OF s1(4) this so] obtain s' L' xs' where IH:
      "while_do (wake_body cpu now) s1 = Ok s'" "sched_ok cpu s' L'" "sched_frame s1 s'"
      "L' (sleeping_threads_table s1 cpu) = Some xs'" "sleep_ok s' xs'"
      "mset xs' = mset (filter (\<lambda>n. \<not> wake_of s1 n < now) xs)"
      "\<forall>i < levels. L' (active_threads_table s1 cpu i) =
         map_option (\<lambda>zs. woken s1 now i xs @ zs) ((L(?sl \<mapsto> xs, ?rq \<mapsto> n # ys)) (active_threads_table s1 cpu i))"
      "\<forall>x. node_prio (kq s') x = node_prio (kq s1) x" by blast
    note v = frame_views [OF s1(2)]
    have "while_do (wake_body cpu now) s = Ok s'"
      using IH(1) s1(1) by (subst while_do_unfold) simp
    moreover have "L' (active_threads_table s cpu i) =
        map_option (\<lambda>zs. woken s now i (xs @ [n]) @ zs) (L (active_threads_table s cpu i))" if "i < levels" for i
      using IH(7) [rule_format, OF that] tab that inj [OF that] ne [OF that] s1(3) True
      by (auto simp: woken_def v)
    ultimately show ?thesis
      using IH(2,4,5,6,8) sched_frame_trans [OF s1(2) IH(3)] True tab s1(5)
      by (intro exI [of _ s'] exI [of _ L'] exI [of _ xs']) (simp add: v)
  next
    case False
    have np: "node_prio (kq s) n = ucast (wake_of s n)" using snoc.prems(3) by (simp add: sleep_ok_def)
    let ?ys = "prio_insert (node_prio (kq s)) (node_prio (kq s) n) n xs"
    from wake_pass_stop [OF snoc.prems(1,2) False np] obtain s' where s':
      "wake_body cpu now s = Ok (False, s')" "sched_frame s s'" "sched_ok cpu s' (L(?sl \<mapsto> ?ys))"
      "\<forall>x. node_prio (kq s') x = node_prio (kq s) x" by blast
    have late: "\<not> wake_of s x < now" if "x \<in> set (xs @ [n])" for x
      using sleep_ok_last_late [OF snoc.prems(3) False that] .
    have fil: "filter (\<lambda>n. \<not> wake_of s n < now) (xs @ [n]) = xs @ [n]" "woken s now i (xs @ [n]) = []" for i
      using late by (auto simp: woken_def filter_id_conv filter_empty_conv)
    have set: "set ?ys = set (xs @ [n])" using mset_prio_insert [of "node_prio (kq s)" "node_prio (kq s) n" n xs]
      by (metis mset_append mset.simps(1,2) add_mset_add_single set_mset_mset)
    have "sleep_ok s ?ys"
      using snoc.prems(3) set prio_insert_sorted [of "node_prio (kq s)" xs n]
      by (simp add: sleep_ok_def sorted_wrt_append)
    then have "sleep_ok s' ?ys" using sleep_ok_frame s'(2,4) by blast
    moreover have "while_do (wake_body cpu now) s = Ok s'"
      using s'(1) by (subst while_do_unfold) simp
    moreover have "\<forall>i < levels. (L(?sl \<mapsto> ?ys)) (active_threads_table s cpu i) =
        map_option (\<lambda>zs. woken s now i (xs @ [n]) @ zs) (L (active_threads_table s cpu i))"
      using snoc.prems(1) by (auto simp: fil sched_ok_def option.map_ident)
    moreover have "mset ?ys = mset (filter (\<lambda>n. \<not> wake_of s n < now) (xs @ [n]))"
      unfolding fil mset_prio_insert by simp
    moreover have "(L(?sl \<mapsto> ?ys)) ?sl = Some ?ys" by simp
    ultimately show ?thesis using s'(2-4) by blast
  qed
qed

section \<open>Putting the previous thread back\<close>

text \<open>The CPU runs thread \<open>t\<close>, whose node \<open>n\<close> is in no queue.\<close>

definition running_node :: "nat \<Rightarrow> sched_state \<Rightarrow> (ptr \<rightharpoonup> ptr list) \<Rightarrow> ptr \<Rightarrow> kernel_thread \<Rightarrow> bool" where
  "running_node cpu s L n t \<longleftrightarrow>
     active_thread_node s cpu = n \<and> active_thread s cpu \<noteq> NULL \<and>
     map_option kq_data (nodes (kq s) n) = Some (active_thread s cpu) \<and>
     threads s (active_thread s cpu) = Some t \<and> th_priority t \<le> KERNEL_LOWEST_PRIORITY \<and>
     (\<forall>q xs. L q = Some xs \<longrightarrow> n \<notin> set xs)"

lemma running_nodeE:
  assumes "running_node cpu s L n t" "kq_rel (kq s) L"
  obtains nd where "nodes (kq s) n = Some nd" "enlisted nd = 0" "kq_data nd = active_thread s cpu"
    "threads s (active_thread s cpu) = Some t" "active_thread_node s cpu = n"
    "active_thread s cpu \<noteq> NULL" "thread_at s n = Some t" "runnable s n"
    "prio_of s n = unat (th_priority t)" "wake_of s n = wakeup_time t"
proof -
  from assms(1) obtain nd where nd: "nodes (kq s) n = Some nd" "kq_data nd = active_thread s cpu"
    by (auto simp: running_node_def)
  have "enlisted nd = 0"
    by (rule kq_rel_loose [OF assms(2) nd(1)]) (use assms(1) in \<open>auto simp: running_node_def\<close>)
  then show thesis using that nd assms(1)
    by (simp add: running_node_def thread_at_def runnable_def prio_of_def wake_of_def)
qed

text \<open>Where the previous thread goes: the ready queue of its priority when it was running, the queue
  of sleeping threads when it called \<^verbatim>\<open>sched_sleep\<close>, nowhere when it is blocked or dead.\<close>

definition back_ready :: "kernel_thread \<Rightarrow> ptr \<Rightarrow> nat \<Rightarrow> ptr list" where
  "back_ready t n i =
     (if th_state t = THREAD_STATE_RUNNING \<and> i = unat (th_priority t) then [n] else [])"

definition back_asleep :: "sched_state \<Rightarrow> kernel_thread \<Rightarrow> ptr \<Rightarrow> ptr list \<Rightarrow> ptr list" where
  "back_asleep s t n zs =
     (if th_state t = THREAD_STATE_SLEEPING
      then prio_insert (node_prio (kq s)) (ucast (wakeup_time t)) n zs else zs)"

lemma set_prev_frame:
  "sched_frame s (s\<lparr>prev_thread := a, prev_thread_node := b\<rparr>)"
  by (simp add: sched_frame_def kq_frame_def)

lemma requeue_running:
  assumes ok: "sched_ok cpu s L" and cur: "running_node cpu s L n t"
    and run: "th_state t = THREAD_STATE_RUNNING"
  shows "\<exists>s' ys. requeue_prev cpu s = Ok s' \<and> sched_frame s s' \<and>
           L (active_threads_table s cpu (unat (th_priority t))) = Some ys \<and>
           sched_ok cpu s' (L(active_threads_table s cpu (unat (th_priority t)) \<mapsto> n # ys)) \<and>
           (\<forall>x. node_prio (kq s') x = node_prio (kq s) x)"
proof -
  have rel: "kq_rel (kq s) L" and cpu: "cpu < MAX_CPU_COUNT" using ok by (simp_all add: sched_ok_def)
  let ?i = "unat (th_priority t)" and ?rq = "active_threads_table s cpu (unat (th_priority t))"
  from running_nodeE [OF cur rel] obtain nd where nd: "nodes (kq s) n = Some nd" "enlisted nd = 0"
    "threads s (active_thread s cpu) = Some t" "active_thread_node s cpu = n" "runnable s n" by metis
  have le: "th_priority t \<le> KERNEL_LOWEST_PRIORITY" using cur by (simp add: running_node_def)
  then have i: "?i < levels" by (simp add: word_le_nat_alt)
  obtain ys where ys: "L ?rq = Some ys" using ok i unfolding sched_ok_def by fastforce
  from kq_push_step [OF rel ys nd(1,2)] obtain k where k: "kernel_queue_push n ?rq (kq s) = Ok (OS_NO_ERR, k)"
    "kq_rel k (L(?rq \<mapsto> n # ys))" "kq_frame (kq s) k" "\<And>x. node_prio k x = node_prio (kq s) x" by metis
  let ?s' = "s\<lparr>prev_thread := (prev_thread s)(cpu := active_thread s cpu),
               prev_thread_node := (prev_thread_node s)(cpu := n),
               threads := (threads s)(active_thread s cpu \<mapsto> t\<lparr>th_state := THREAD_STATE_READY\<rparr>), kq := k\<rparr>"
  have eq: "requeue_prev cpu s = Ok ?s'"
    using nd(3,4) run le cpu k(1)
    by (simp add: requeue_prev_def get_thread_def set_thread_def store_simps active_table_def on_kq_def Let_def)
  have fr: "sched_frame s ?s'" using k(3) nd(3) by (simp add: sched_frame_def)
  have "sched_ok cpu ?s' (L(?rq \<mapsto> n # ys))"
  proof (rule sched_ok_upd [OF ok fr])
    show "kq_rel (kq ?s') (L(?rq \<mapsto> n # ys))" using k(2) by simp
  qed (use ok ys i nd(5) in \<open>auto simp: sched_ok_def split: if_splits\<close>)
  with eq fr ys k(4) show ?thesis by (intro exI [of _ ?s'] exI [of _ ys]) simp
qed

lemma requeue_sleeping:
  assumes ok: "sched_ok cpu s L" and cur: "running_node cpu s L n t"
    and sl: "th_state t = THREAD_STATE_SLEEPING" and Ls: "L (sleeping_threads_table s cpu) = Some zs"
  shows "\<exists>s'. requeue_prev cpu s = Ok s' \<and> sched_frame s s' \<and>
           sched_ok cpu s' (L(sleeping_threads_table s cpu \<mapsto>
             prio_insert (node_prio (kq s)) (ucast (wakeup_time t)) n zs)) \<and>
           (\<forall>x. node_prio (kq s') x = (if x = n then ucast (wakeup_time t) else node_prio (kq s) x))"
proof -
  have rel: "kq_rel (kq s) L" using ok by (simp add: sched_ok_def)
  let ?sl = "sleeping_threads_table s cpu" and ?p = "ucast (wakeup_time t) :: u32"
  let ?ys = "prio_insert (node_prio (kq s)) ?p n zs"
  from running_nodeE [OF cur rel] obtain nd where nd: "nodes (kq s) n = Some nd" "enlisted nd = 0"
    "threads s (active_thread s cpu) = Some t" "active_thread_node s cpu = n" "runnable s n" by metis
  from kq_push_prio_step [OF rel Ls nd(1,2), of ?p] obtain k where
    k: "kernel_queue_push_prio n ?sl ?p (kq s) = Ok (OS_NO_ERR, k)"
    "kq_rel k (L(?sl \<mapsto> ?ys))" "kq_frame (kq s) k"
    "\<And>x. node_prio k x = (if x = n then ?p else node_prio (kq s) x)" by metis
  let ?s' = "s\<lparr>prev_thread := (prev_thread s)(cpu := active_thread s cpu),
               prev_thread_node := (prev_thread_node s)(cpu := n), kq := k\<rparr>"
  have eq: "requeue_prev cpu s = Ok ?s'"
    using nd(3,4) sl k(1)
    by (simp add: requeue_prev_def get_thread_def store_simps on_kq_def Let_def)
  have fr: "sched_frame s ?s'" using k(3) by (simp add: sched_frame_def)
  have set: "set ?ys = insert n (set zs)"
    unfolding prio_insert_def by (metis (no_types) Un_insert_right set_append list.set(2) takeWhile_dropWhile_id)
  have "sched_ok cpu ?s' (L(?sl \<mapsto> ?ys))"
  proof (rule sched_ok_upd [OF ok fr])
    show "kq_rel (kq ?s') (L(?sl \<mapsto> ?ys))" using k(2) by simp
  qed (use ok Ls set nd(5) in \<open>auto simp: sched_ok_def split: if_splits\<close>)
  with eq fr k(4) show ?thesis by (intro exI [of _ ?s']) simp
qed

lemma requeue_other:
  assumes ok: "sched_ok cpu s L" and cur: "running_node cpu s L n t"
    and st: "th_state t \<noteq> THREAD_STATE_RUNNING" "th_state t \<noteq> THREAD_STATE_SLEEPING"
  shows "\<exists>s'. requeue_prev cpu s = Ok s' \<and> sched_frame s s' \<and> sched_ok cpu s' L \<and>
           (\<forall>x. node_prio (kq s') x = node_prio (kq s) x)"
proof -
  let ?s' = "s\<lparr>prev_thread := (prev_thread s)(cpu := active_thread s cpu),
               prev_thread_node := (prev_thread_node s)(cpu := active_thread_node s cpu)\<rparr>"
  have "requeue_prev cpu s = Ok ?s'"
    using cur st by (simp add: requeue_prev_def running_node_def get_thread_def store_simps Let_def)
  moreover have fr: "sched_frame s ?s'" by (rule set_prev_frame)
  moreover have "sched_ok cpu ?s' L"
    by (rule sched_ok_upd [OF ok fr]) (use ok in \<open>auto simp: sched_ok_def\<close>)
  ultimately show ?thesis by (intro exI [of _ ?s']) simp
qed

lemma prio_insert_cong:
  "(\<And>x. x \<in> set xs \<Longrightarrow> f x = g x) \<Longrightarrow> prio_insert f p n xs = prio_insert g p n xs"
  unfolding prio_insert_def by (simp cong: takeWhile_cong dropWhile_cong)

lemma requeue_step:
  assumes ok: "sched_ok cpu s L" and cur: "running_node cpu s L n t"
    and Ls: "L (sleeping_threads_table s cpu) = Some zs" and so: "sleep_ok s zs"
    and lim: "th_state t = THREAD_STATE_SLEEPING \<longrightarrow> wakeup_time t < 2 ^ 32"
  shows "\<exists>s' L'. requeue_prev cpu s = Ok s' \<and> sched_ok cpu s' L' \<and> sched_frame s s' \<and>
           L' (sleeping_threads_table s cpu) = Some (back_asleep s t n zs) \<and>
           sleep_ok s' (back_asleep s t n zs) \<and>
           (\<forall>i < levels. L' (active_threads_table s cpu i) =
              map_option (\<lambda>ys. back_ready t n i @ ys) (L (active_threads_table s cpu i)))"
proof -
  have rel: "kq_rel (kq s) L" using ok by (simp add: sched_ok_def)
  have tabs: "active_threads_table s cpu i \<noteq> sleeping_threads_table s cpu" if "i < levels" for i
    using ok that by (simp add: sched_ok_def)
  consider (r) "th_state t = THREAD_STATE_RUNNING" | (s) "th_state t = THREAD_STATE_SLEEPING"
    | (o) "th_state t \<noteq> THREAD_STATE_RUNNING" "th_state t \<noteq> THREAD_STATE_SLEEPING" by blast
  then show ?thesis
  proof cases
    case r
    let ?rq = "active_threads_table s cpu (unat (th_priority t))"
    from requeue_running [OF ok cur r] obtain s' ys where s': "requeue_prev cpu s = Ok s'"
      "sched_frame s s'" "L ?rq = Some ys" "sched_ok cpu s' (L(?rq \<mapsto> n # ys))"
      "\<forall>x. node_prio (kq s') x = node_prio (kq s) x" by blast
    have "unat (th_priority t) < levels" using cur by (simp add: running_node_def word_le_nat_alt)
    then have inj: "active_threads_table s cpu i = ?rq \<longleftrightarrow> i = unat (th_priority t)" if "i < levels" for i
      using ok that unfolding sched_ok_def by (metis inj_on_eq_iff lessThan_iff)
    have "(L(?rq \<mapsto> n # ys)) (active_threads_table s cpu i) =
        map_option (\<lambda>ys. back_ready t n i @ ys) (L (active_threads_table s cpu i))" if "i < levels" for i
      using inj [OF that] r s'(3) by (auto simp: back_ready_def option.map_ident)
    moreover have "(L(?rq \<mapsto> n # ys)) (sleeping_threads_table s cpu) = Some (back_asleep s t n zs)"
      using Ls r tabs [OF \<open>unat (th_priority t) < levels\<close>] by (auto simp: back_asleep_def)
    moreover have "sleep_ok s' (back_asleep s t n zs)"
      using sleep_ok_frame [OF so s'(2,5)] r by (simp add: back_asleep_def)
    ultimately show ?thesis using s'(1,2,4) by blast
  next
    case s
    let ?sl = "sleeping_threads_table s cpu" and ?p = "ucast (wakeup_time t) :: u32"
    let ?ys = "prio_insert (node_prio (kq s)) ?p n zs"
    from requeue_sleeping [OF ok cur s Ls] obtain s' where s': "requeue_prev cpu s = Ok s'"
      "sched_frame s s'" "sched_ok cpu s' (L(?sl \<mapsto> ?ys))"
      "\<forall>x. node_prio (kq s') x = (if x = n then ?p else node_prio (kq s) x)" by blast
    have nz: "n \<notin> set zs" using cur Ls by (auto simp: running_node_def)
    have same: "node_prio (kq s') x = node_prio (kq s) x" if "x \<in> set zs" for x using that nz s'(4) by auto
    have wn: "wake_of s' n = wakeup_time t"
      using running_nodeE [OF cur rel] frame_views(3) [OF s'(2)] by metis
    have ys: "?ys = prio_insert (node_prio (kq s')) (node_prio (kq s') n) n zs"
      using same s'(4) by (simp add: prio_insert_cong [of zs "node_prio (kq s)" "node_prio (kq s')"])
    have "sorted_wrt (\<lambda>x y. node_prio (kq s') x \<ge> node_prio (kq s') y) zs"
      using so same by (auto simp: sleep_ok_def elim: sorted_wrt_mono_rel [rotated])
    from prio_insert_sorted [OF this, of n]
    have srt: "sorted_wrt (\<lambda>x y. node_prio (kq s') x \<ge> node_prio (kq s') y) ?ys" by (simp only: ys)
    have set: "set ?ys = insert n (set zs)"
      using mset_prio_insert [of "node_prio (kq s)" ?p n zs] by (metis set_mset_add_mset_insert set_mset_mset)
    have "node_prio (kq s') x = ucast (wake_of s' x) \<and> wake_of s' x < 2 ^ 32" if "x \<in> set ?ys" for x
    proof (cases "x = n")
      case True
      then show ?thesis using s'(4) wn lim s by simp
    next
      case False
      then have "x \<in> set zs" using that set by simp
      then show ?thesis using so same [of x] frame_views(3) [OF s'(2), of x] by (simp add: sleep_ok_def)
    qed
    with srt have "sleep_ok s' ?ys" unfolding sleep_ok_def by blast
    moreover have "\<forall>i < levels. (L(?sl \<mapsto> ?ys)) (active_threads_table s cpu i) =
        map_option (\<lambda>ys. back_ready t n i @ ys) (L (active_threads_table s cpu i))"
      using tabs s by (auto simp: back_ready_def option.map_ident)
    moreover have "back_asleep s t n zs = ?ys" using s by (simp add: back_asleep_def)
    ultimately show ?thesis using s'(1-3) by (intro exI [of _ s'] exI [of _ "L(?sl \<mapsto> ?ys)"]) simp
  next
    case o
    from requeue_other [OF ok cur o] obtain s' where s': "requeue_prev cpu s = Ok s'"
      "sched_frame s s'" "sched_ok cpu s' L" "\<forall>x. node_prio (kq s') x = node_prio (kq s) x" by blast
    moreover have "sleep_ok s' zs" using sleep_ok_frame [OF so s'(2,4)] .
    ultimately show ?thesis using o Ls
      by (intro exI [of _ s'] exI [of _ L]) (simp add: back_ready_def back_asleep_def option.map_ident)
  qed
qed

section \<open>The election\<close>

text \<open>The ready queue of level \<open>i\<close> at the moment of the election: the threads whose sleep is over, the
  previous thread if it is still ready, and the threads that were there.\<close>

definition candidates ::
    "nat \<Rightarrow> sched_state \<Rightarrow> (ptr \<rightharpoonup> ptr list) \<Rightarrow> u64 \<Rightarrow> kernel_thread \<Rightarrow> ptr \<Rightarrow> ptr list \<Rightarrow> nat \<Rightarrow> ptr list"
where
  "candidates cpu s L now t n zs i =
     woken s now i (back_asleep s t n zs) @ back_ready t n i @ the (L (active_threads_table s cpu i))"

lemma select_phases:
  assumes ok: "sched_ok cpu s L" and cur: "running_node cpu s L n t"
    and Ls: "L (sleeping_threads_table s cpu) = Some zs" and so: "sleep_ok s zs"
    and lim: "th_state t = THREAD_STATE_SLEEPING \<longrightarrow> wakeup_time t < 2 ^ 32"
    and now: "uptime cpu s = Ok now"
  shows "\<exists>s' L' zs'. select_thread cpu s = elect cpu s' \<and> sched_ok cpu s' L' \<and> sched_frame s s' \<and>
           L' (sleeping_threads_table s cpu) = Some zs' \<and>
           mset zs' = mset (filter (\<lambda>n. \<not> wake_of s n < now) (back_asleep s t n zs)) \<and>
           (\<forall>i < levels. L' (active_threads_table s cpu i) = Some (candidates cpu s L now t n zs i)) \<and>
           sleep_ok s' zs'"
proof -
  from requeue_step [OF ok cur Ls so lim] obtain s1 L1 where s1:
    "requeue_prev cpu s = Ok s1" "sched_ok cpu s1 L1" "sched_frame s s1"
    "L1 (sleeping_threads_table s cpu) = Some (back_asleep s t n zs)"
    "sleep_ok s1 (back_asleep s t n zs)"
    "\<forall>i < levels. L1 (active_threads_table s cpu i) =
       map_option (\<lambda>ys. back_ready t n i @ ys) (L (active_threads_table s cpu i))" by blast
  have tab: "active_threads_table s1 = active_threads_table s" "sleeping_threads_table s1 = sleeping_threads_table s"
    using s1(3) by (simp_all add: sched_frame_def)
  note v = frame_views [OF s1(3)]
  have "L1 (sleeping_threads_table s1 cpu) = Some (back_asleep s t n zs)" using s1(4) tab by simp
  from wake_loop [OF s1(2) this s1(5), of now] obtain s2 L2 zs' where s2:
    "while_do (wake_body cpu now) s1 = Ok s2" "sched_ok cpu s2 L2" "sched_frame s1 s2"
    "L2 (sleeping_threads_table s1 cpu) = Some zs'" "sleep_ok s2 zs'"
    "mset zs' = mset (filter (\<lambda>n. \<not> wake_of s1 n < now) (back_asleep s t n zs))"
    "\<forall>i < levels. L2 (active_threads_table s1 cpu i) =
       map_option (\<lambda>ys. woken s1 now i (back_asleep s t n zs) @ ys) (L1 (active_threads_table s1 cpu i))"
    by blast
  have "L2 (active_threads_table s cpu i) = Some (candidates cpu s L now t n zs i)" if "i < levels" for i
  proof -
    obtain ys where "L (active_threads_table s cpu i) = Some ys" using ok \<open>i < levels\<close> unfolding sched_ok_def by fastforce
    then show ?thesis using s2(7) s1(6) that tab by (simp add: candidates_def woken_def v)
  qed
  moreover have "select_thread cpu s = elect cpu s2"
    using now s1(1) s2(1) by (simp add: select_thread_def)
  ultimately show ?thesis using s2 sched_frame_trans [OF s1(3) s2(3)] tab v(3)
    by (intro exI [of _ s2] exI [of _ L2] exI [of _ zs']) simp
qed

section \<open>An example state\<close>

text \<open>CPU 0 with its 64 empty ready queues at \<open>0x1000 + i\<close>, the queue of sleeping threads at \<open>0x1040\<close>,
  and one thread of priority 5 at \<open>0x20\<close>, running, whose node is at \<open>0x10\<close>.\<close>

definition ex_queues :: "ptr set" where
  "ex_queues = {0x1000 .. 0x1040}"

definition ex_lists :: "ptr \<rightharpoonup> ptr list" where
  "ex_lists q = (if q \<in> ex_queues then Some [] else None)"

definition ex_thread :: kernel_thread where
  "ex_thread = zero_thread\<lparr>tid := 1, th_priority := 5, init_prio := 5\<rparr>"

definition ex_sched :: sched_state where
  "ex_sched =
     \<lparr>kq = \<lparr>heap = blank_heap, nodes = [0x10 \<mapsto> loose_node 0x20],
           queues = (\<lambda>q. if q \<in> ex_queues then Some \<lparr>head = NULL, tail = NULL, kq_size = 0\<rparr> else None)\<rparr>,
      threads = [0x20 \<mapsto> ex_thread], words = (\<lambda>_. 0), time = time_example,
      cpu_esp = (\<lambda>_. 0), cpu_cr3 = (\<lambda>_. 0), kernel_free_pages = 0, last_given_tid = 1, thread_count = 1,
      first_sched = (\<lambda>_. 1), idle_thread = (\<lambda>_. 0x30), idle_thread_node = (\<lambda>_. 0x31),
      init_thread = 0x32, init_thread_node = 0x33, active_thread = (\<lambda>_. 0x20),
      active_thread_node = (\<lambda>_. 0x10), prev_thread = (\<lambda>_. 0x20), prev_thread_node = (\<lambda>_. 0x10),
      system_state = SYSTEM_STATE_RUNNING, schedule_count = (\<lambda>_. 0), idle_sched_count = (\<lambda>_. 0),
      active_threads_table = (\<lambda>_ i. 0x1000 + of_nat i), sleeping_threads_table = (\<lambda>_. 0x1040),
      zombie_threads_table = 0, global_threads_table = 0\<rparr>"

lemma unat_ready: "i < 64 \<Longrightarrow> unat (0x1000 + of_nat i :: ptr) = 0x1000 + i"
  by (subst unat_add_lem [THEN iffD1]) (simp_all add: unsigned_of_nat take_bit_nat_eq_self)

lemma ex_ready_queue: "i < 64 \<Longrightarrow> 0x1000 + of_nat i \<in> ex_queues \<and> 0x1000 + of_nat i \<noteq> (0x1040 :: ptr)"
  using unat_ready [of i] by (auto simp: ex_queues_def word_le_nat_alt word_unat_eq_iff)

lemma ex_lists_rel: "kq_rel (kq ex_sched) ex_lists"
  by (auto simp: kq_rel_def ex_sched_def ex_lists_def kq_repr_def loose_node_def ex_queues_def
      word_le_nat_alt split: if_splits)

lemma levels_64 [simp]: "unat KERNEL_LOWEST_PRIORITY = 63"
  by (simp add: KERNEL_LOWEST_PRIORITY_def)

lemma ex_sched_ok: "sched_ok 0 ex_sched ex_lists"
proof -
  have "inj_on (\<lambda>i. 0x1000 + of_nat i :: ptr) {..<64}"
    by (rule inj_onI) (metis add_left_cancel lessThan_iff unat_ready)
  moreover have "(0x1040 :: ptr) \<in> ex_queues" by (simp add: ex_queues_def)
  ultimately show ?thesis
    using ex_lists_rel ex_ready_queue
    by (auto simp: sched_ok_def ex_lists_def MAX_CPU_COUNT_def ex_sched_def)
qed

lemma ex_running: "running_node 0 ex_sched ex_lists 0x10 ex_thread"
  by (auto simp: running_node_def ex_sched_def ex_lists_def loose_node_def ex_thread_def
      KERNEL_LOWEST_PRIORITY_def split: if_splits)

lemma ex_asleep: "ex_lists (sleeping_threads_table ex_sched 0) = Some []" "sleep_ok ex_sched []"
  by (simp_all add: ex_sched_def ex_lists_def ex_queues_def sleep_ok_def)

lemma ex_uptime: "uptime 0 ex_sched = Ok 0"
  by (simp add: uptime_def ex_sched_def time_get_current_uptime_def time_example_def time_slice_of_def)

lemma ex_thread_state: "th_state ex_thread = THREAD_STATE_RUNNING"
  by (simp add: ex_thread_def zero_thread_def)

section \<open>Properties\<close>

text \<open>C1. The scheduler elects, among the threads that are ready once the previous thread has been put
  back and the sleeping threads that are due have been woken, one of the highest priority, and among
  those the one that has waited longest (the last of its queue). That thread becomes the running
  thread of the CPU, only it leaves its ready queue, and the threads that are not due keep sleeping.\<close>

theorem select_thread_elects:
  assumes "sched_ok cpu s L" "running_node cpu s L n t"
    and "L (sleeping_threads_table s cpu) = Some zs" "sleep_ok s zs"
    and "th_state t = THREAD_STATE_SLEEPING \<longrightarrow> wakeup_time t < 2 ^ 32"
    and "uptime cpu s = Ok now"
    and "m \<le> unat KERNEL_LOWEST_PRIORITY" "candidates cpu s L now t n zs m \<noteq> []"
    and "\<forall>j < m. candidates cpu s L now t n zs j = []"
  shows "\<exists>s' L' zs' e.
           select_thread cpu s = Ok s' \<and> sched_ok cpu s' L' \<and>
           active_thread_node s' cpu = last (candidates cpu s L now t n zs m) \<and>
           threads s' (active_thread s' cpu) = Some e \<and> th_state e = THREAD_STATE_RUNNING \<and>
           map_option kq_data (nodes (kq s') (active_thread_node s' cpu)) = Some (active_thread s' cpu) \<and>
           (\<forall>i \<le> unat KERNEL_LOWEST_PRIORITY. L' (active_threads_table s cpu i) =
              Some (if i = m then butlast (candidates cpu s L now t n zs m)
                    else candidates cpu s L now t n zs i)) \<and>
           L' (sleeping_threads_table s cpu) = Some zs' \<and>
           mset zs' = mset (filter (\<lambda>n. \<not> wake_of s n < now) (back_asleep s t n zs))"
proof -
  let ?C = "candidates cpu s L now t n zs"
  from select_phases [OF assms(1-6)] obtain s1 L1 zs' where s1:
    "select_thread cpu s = elect cpu s1" "sched_ok cpu s1 L1" "sched_frame s s1"
    "L1 (sleeping_threads_table s cpu) = Some zs'"
    "mset zs' = mset (filter (\<lambda>n. \<not> wake_of s n < now) (back_asleep s t n zs))"
    "\<forall>i < levels. L1 (active_threads_table s cpu i) = Some (?C i)" by blast
  have tab: "active_threads_table s1 = active_threads_table s" using s1(3) by (simp add: sched_frame_def)
  have m: "m < levels" using assms(7) by simp
  let ?rq = "active_threads_table s cpu m"
  have "L1 (active_threads_table s1 cpu m) = Some (butlast (?C m) @ [last (?C m)])"
    using s1(6) m tab assms(8) by simp
  from elect_step [OF s1(2) m this] s1(6) assms(9) m tab obtain s' e where s':
    "elect cpu s1 = Ok s'" "sched_ok cpu s' (L1(?rq \<mapsto> butlast (?C m)))"
    "active_thread_node s' cpu = last (?C m)"
    "threads s' (active_thread s' cpu) = Some (e\<lparr>th_state := THREAD_STATE_RUNNING\<rparr>)"
    "map_option kq_data (nodes (kq s') (last (?C m))) = Some (active_thread s' cpu)" by auto
  have inj: "active_threads_table s cpu i = ?rq \<longleftrightarrow> i = m" if "i < levels" for i
    using assms(1) that m unfolding sched_ok_def by (metis inj_on_eq_iff lessThan_iff)
  have neq: "?rq \<noteq> sleeping_threads_table s cpu" using assms(1) m by (simp add: sched_ok_def)
  have "\<forall>i \<le> unat KERNEL_LOWEST_PRIORITY. (L1(?rq \<mapsto> butlast (?C m))) (active_threads_table s cpu i) =
      Some (if i = m then butlast (?C m) else ?C i)"
    using inj s1(6) by (simp add: less_Suc_eq_le)
  moreover have "(L1(?rq \<mapsto> butlast (?C m))) (sleeping_threads_table s cpu) = Some zs'"
    using neq s1(4) by simp
  moreover have "th_state (e\<lparr>th_state := THREAD_STATE_RUNNING\<rparr>) = THREAD_STATE_RUNNING" by simp
  moreover have "select_thread cpu s = Ok s'" using s1(1) s'(1) by simp
  moreover have "map_option kq_data (nodes (kq s') (active_thread_node s' cpu)) = Some (active_thread s' cpu)"
    using s'(3,5) by simp
  ultimately show ?thesis using s1(5) s'(2-4) by blast
qed

theorem select_thread_elects_witness:
  "\<exists>s'. select_thread 0 ex_sched = Ok s' \<and> active_thread_node s' 0 = 0x10"
proof -
  have c: "candidates 0 ex_sched ex_lists 0 ex_thread 0x10 [] i = (if i = 5 then [0x10] else [])"
    if "i < 64" for i
    using that ex_ready_queue [OF that] ex_thread_state
    by (simp add: candidates_def woken_def back_asleep_def back_ready_def ex_lists_def ex_sched_def)
      (simp add: ex_thread_def)
  show ?thesis
    using select_thread_elects [OF ex_sched_ok ex_running ex_asleep _ ex_uptime, of 5] ex_thread_state
    by (auto simp: c)
qed

text \<open>Somebody can run: the thread that was running, or one whose sleep is over, or one in a ready queue.\<close>

definition somebody_ready ::
    "nat \<Rightarrow> sched_state \<Rightarrow> (ptr \<rightharpoonup> ptr list) \<Rightarrow> u64 \<Rightarrow> kernel_thread \<Rightarrow> ptr list \<Rightarrow> bool" where
  "somebody_ready cpu s L now t zs \<longleftrightarrow>
     th_state t = THREAD_STATE_RUNNING \<or> th_state t = THREAD_STATE_SLEEPING \<and> wakeup_time t < now \<or>
     (\<exists>z \<in> set zs. wake_of s z < now) \<or>
     (\<exists>i \<le> unat KERNEL_LOWEST_PRIORITY. L (active_threads_table s cpu i) \<noteq> Some [])"

lemma set_back_asleep:
  "set (back_asleep s t n zs) = (if th_state t = THREAD_STATE_SLEEPING then insert n (set zs) else set zs)"
  by (simp add: back_asleep_def flip: set_mset_mset) (simp add: mset_prio_insert)

lemma some_candidate:
  assumes "sched_ok cpu s L" "running_node cpu s L n t" "L (sleeping_threads_table s cpu) = Some zs"
  shows "(\<exists>i < levels. candidates cpu s L now t n zs i \<noteq> []) \<longleftrightarrow> somebody_ready cpu s L now t zs"
proof -
  have rel: "kq_rel (kq s) L" using assms(1) by (simp add: sched_ok_def)
  from running_nodeE [OF assms(2) rel] have n: "wake_of s n = wakeup_time t" "prio_of s n = unat (th_priority t)" "runnable s n"
    by metis+
  have zs: "\<forall>z \<in> set zs. runnable s z" using assms(1,3) by (simp add: sched_ok_def)
  have lev: "prio_of s z < levels" if "z \<in> set (back_asleep s t n zs)" for z
    using that zs n(3) by (metis insertE runnableE set_back_asleep)
  have L: "the (L (active_threads_table s cpu i)) \<noteq> [] \<longleftrightarrow> L (active_threads_table s cpu i) \<noteq> Some []" if "i < levels" for i
    using assms(1) that by (auto simp: sched_ok_def)
  have "(\<exists>i < levels. woken s now i (back_asleep s t n zs) \<noteq> []) \<longleftrightarrow> (\<exists>z \<in> set (back_asleep s t n zs). wake_of s z < now)"
    unfolding woken_def filter_empty_conv using lev by blast
  moreover have "(\<exists>i < levels. back_ready t n i \<noteq> []) \<longleftrightarrow> th_state t = THREAD_STATE_RUNNING"
    using assms(2) by (auto simp: back_ready_def running_node_def word_le_nat_alt)
  ultimately have "(\<exists>i < levels. candidates cpu s L now t n zs i \<noteq> []) \<longleftrightarrow>
      (\<exists>z \<in> set (back_asleep s t n zs). wake_of s z < now) \<or> th_state t = THREAD_STATE_RUNNING \<or>
      (\<exists>i < levels. L (active_threads_table s cpu i) \<noteq> Some [])"
    unfolding candidates_def append_is_Nil_conv using L by blast
  then show ?thesis using n(1) by (auto simp: somebody_ready_def set_back_asleep less_Suc_eq_le)
qed

text \<open>C19. The election always ends, whatever the state of the previous thread: its loops terminate and it dereferences
  no bad pointer. When somebody can run (the previous thread was running, the sleep of somebody is over, or a ready
  queue of the CPU is not empty) it returns with a running thread, and otherwise, and only then, the kernel panics. The wake-up
  times of the sleepers must fit in the 32 bits by which they are sorted.\<close>

theorem select_thread_returns:
  assumes "sched_ok cpu s L" "running_node cpu s L n t"
    and "L (sleeping_threads_table s cpu) = Some zs" "sleep_ok s zs"
    and "th_state t = THREAD_STATE_SLEEPING \<longrightarrow> wakeup_time t < 2 ^ 32"
    and "uptime cpu s = Ok now"
  shows "if somebody_ready cpu s L now t zs
         then \<exists>s' e. select_thread cpu s = Ok s' \<and> threads s' (active_thread s' cpu) = Some e \<and>
                th_state e = THREAD_STATE_RUNNING
         else select_thread cpu s = Panic OS_NO_ERR"
proof -
  let ?C = "candidates cpu s L now t n zs"
  from select_phases [OF assms] obtain s1 L1 where s1:
    "select_thread cpu s = elect cpu s1" "sched_ok cpu s1 L1" "sched_frame s s1"
    "\<forall>i < levels. L1 (active_threads_table s cpu i) = Some (?C i)" by blast
  have tab: "active_threads_table s1 = active_threads_table s" using s1(3) by (simp add: sched_frame_def)
  note some = some_candidate [OF assms(1-3), of now]
  show ?thesis
  proof (cases "somebody_ready cpu s L now t zs")
    case False
    then have "elect cpu s1 = Panic OS_NO_ERR" using elect_none [OF s1(2)] some s1(4) tab by auto
    then show ?thesis using False s1(1) by simp
  next
    case True
    then have ex: "\<exists>i. i < levels \<and> ?C i \<noteq> []" using some by simp
    define m where "m = (LEAST i. i < levels \<and> ?C i \<noteq> [])"
    from LeastI_ex [OF ex] have m: "m < levels" "?C m \<noteq> []" by (simp_all add: m_def)
    have pre: "\<forall>j < m. ?C j = []" using not_less_Least [of _ "\<lambda>i. i < levels \<and> ?C i \<noteq> []"] m(1) unfolding m_def by (meson less_trans)
    have "L1 (active_threads_table s1 cpu m) = Some (butlast (?C m) @ [last (?C m)])"
      using s1(4) m tab by simp
    from elect_step [OF s1(2) m(1) this] s1(4) pre m(1) tab obtain s' e where
      "elect cpu s1 = Ok s'" "threads s' (active_thread s' cpu) = Some (e\<lparr>th_state := THREAD_STATE_RUNNING\<rparr>)" by auto
    then show ?thesis using True s1(1) by simp
  qed
qed

text \<open>The example state, and the same one with its only thread blocked.\<close>

definition ex_blocked :: sched_state where
  "ex_blocked = ex_sched\<lparr>threads := [0x20 \<mapsto> ex_thread\<lparr>th_state := THREAD_STATE_WAITING\<rparr>]\<rparr>"

lemma ex_blocked_ok:
  "sched_ok 0 ex_blocked ex_lists" "running_node 0 ex_blocked ex_lists 0x10 (ex_thread\<lparr>th_state := THREAD_STATE_WAITING\<rparr>)"
  "ex_lists (sleeping_threads_table ex_blocked 0) = Some []" "sleep_ok ex_blocked []" "uptime 0 ex_blocked = Ok 0"
  "\<not> somebody_ready 0 ex_blocked ex_lists 0 (ex_thread\<lparr>th_state := THREAD_STATE_WAITING\<rparr>) []"
proof -
  have q: "ex_lists (active_threads_table ex_sched 0 i) = Some []" if "i \<le> 63" for i
    using ex_ready_queue [of i] that by (simp add: ex_sched_def ex_lists_def)
  show "sched_ok 0 ex_blocked ex_lists"
    using ex_sched_ok ex_asleep(1) q by (simp add: sched_ok_def ex_blocked_def less_Suc_eq_le)
  show "running_node 0 ex_blocked ex_lists 0x10 (ex_thread\<lparr>th_state := THREAD_STATE_WAITING\<rparr>)"
    using ex_running by (simp add: running_node_def ex_blocked_def) (simp add: ex_sched_def)
  show "ex_lists (sleeping_threads_table ex_blocked 0) = Some []" "sleep_ok ex_blocked []"
    using ex_asleep(1) by (simp_all add: ex_blocked_def sleep_ok_def)
  show "uptime 0 ex_blocked = Ok 0" using ex_uptime by (simp add: uptime_def ex_blocked_def)
  show "\<not> somebody_ready 0 ex_blocked ex_lists 0 (ex_thread\<lparr>th_state := THREAD_STATE_WAITING\<rparr>) []"
    using q by (simp add: somebody_ready_def ex_blocked_def)
qed

theorem select_thread_returns_witness:
  "(\<exists>s'. select_thread 0 ex_sched = Ok s') \<and> select_thread 0 ex_blocked = Panic OS_NO_ERR"
proof
  have "somebody_ready 0 ex_sched ex_lists 0 ex_thread []" by (simp add: somebody_ready_def ex_thread_state)
  then show "\<exists>s'. select_thread 0 ex_sched = Ok s'"
    using select_thread_returns [OF ex_sched_ok ex_running ex_asleep _ ex_uptime] ex_thread_state by auto
  show "select_thread 0 ex_blocked = Panic OS_NO_ERR"
    using select_thread_returns [OF ex_blocked_ok(1-4) _ ex_blocked_ok(5)] ex_blocked_ok(6) by simp
qed

end
