(* ===== verification/Blocking.thy ===== *)
theory Blocking
  imports Election
begin

text \<open>
  Blocking and unblocking threads: what \<open>sched_lock_thread\<close> and \<open>sched_unlock_thread\<close> promise to the
  semaphores and mutexes that keep blocked threads in their own queues, and the behaviour of the
  operations that a thread may not call or that fail.
\<close>

section \<open>Parked threads\<close>

text \<open>The thread of node \<open>n\<close> is blocked on an object of type \<open>bt\<close> and may be made ready again.\<close>

definition parked :: "THREAD_WAIT_TYPE_E \<Rightarrow> sched_state \<Rightarrow> ptr \<Rightarrow> bool" where
  "parked bt s n \<longleftrightarrow>
     (\<exists>nd t. nodes (kq s) n = Some nd \<and> kq_data nd \<noteq> NULL \<and> threads s (kq_data nd) = Some t \<and>
        (\<forall>c. idle_thread s c \<noteq> kq_data nd) \<and>
        th_state t = THREAD_STATE_WAITING \<and> block_type t = bt \<and>
        unat (cpu_affinity t) < MAX_CPU_COUNT \<and> th_priority t \<le> KERNEL_LOWEST_PRIORITY)"

text \<open>Every ready queue of every CPU exists.\<close>

definition tables_ok :: "sched_state \<Rightarrow> (ptr \<rightharpoonup> ptr list) \<Rightarrow> bool" where
  "tables_ok s L \<longleftrightarrow> (\<forall>c < MAX_CPU_COUNT. \<forall>i < levels. L (active_threads_table s c i) \<noteq> None)"

text \<open>The ready queue a thread belongs to.\<close>

definition home_queue :: "sched_state \<Rightarrow> kernel_thread \<Rightarrow> ptr" where
  "home_queue s t = active_threads_table s (unat (cpu_affinity t)) (unat (th_priority t))"

lemma unlock_step:
  assumes rel: "kq_rel (kq s) L" and tab: "tables_ok s L" and pk: "parked bt s n"
    and out: "\<forall>q xs. L q = Some xs \<longrightarrow> n \<notin> set xs"
  obtains s' t ys where "thread_at s n = Some t" "L (home_queue s t) = Some ys"
    "sched_unlock_ready c n bt s = Ok (OS_NO_ERR, s')" "kq_rel (kq s') (L(home_queue s t \<mapsto> n # ys))"
    "thread_at s' n = Some (t\<lparr>th_state := THREAD_STATE_READY\<rparr>)" "sched_frame s s'"
    "\<And>q. q \<noteq> the (map_option kq_data (nodes (kq s) n)) \<Longrightarrow> threads s' q = threads s q"
    "\<And>x. node_prio (kq s') x = node_prio (kq s) x"
proof -
  from pk obtain nd t where nt: "nodes (kq s) n = Some nd" "kq_data nd \<noteq> NULL"
    "threads s (kq_data nd) = Some t" "\<forall>c. idle_thread s c \<noteq> kq_data nd"
    "th_state t = THREAD_STATE_WAITING" "block_type t = bt"
    "unat (cpu_affinity t) < MAX_CPU_COUNT" "th_priority t \<le> KERNEL_LOWEST_PRIORITY"
    unfolding parked_def by blast
  have enl: "enlisted nd = 0" by (rule kq_rel_loose [OF rel nt(1)]) (use out in blast)
  have at: "thread_at s n = Some t" using nt(1-3) by (simp add: thread_at_def)
  have i: "unat (th_priority t) < levels" using nt(8) by (simp add: word_le_nat_alt)
  obtain ys where ys: "L (home_queue s t) = Some ys"
    using tab nt(7) i unfolding tables_ok_def home_queue_def by blast
  from kq_push_step [OF rel ys nt(1) enl] obtain k where k:
    "kernel_queue_push n (home_queue s t) (kq s) = Ok (OS_NO_ERR, k)"
    "kq_rel k (L(home_queue s t \<mapsto> n # ys))" "kq_frame (kq s) k"
    "\<And>x. node_prio k x = node_prio (kq s) x" by metis
  let ?s' = "s\<lparr>threads := (threads s)(kq_data nd \<mapsto> t\<lparr>th_state := THREAD_STATE_READY\<rparr>), kq := k\<rparr>"
  have idle: "kq_data nd \<noteq> idle_thread s c" using nt(4) by metis
  have eq: "sched_unlock_ready c n bt s = Ok (OS_NO_ERR, ?s')"
    using nt(1-3,5-8) idle k(1)
    by (simp add: sched_unlock_ready_def node_data_def get_thread_def set_thread_def store_simps
        active_table_def on_kq_def home_queue_def)
  have "map_option kq_data (nodes k n) = Some (kq_data nd)" using k(3) nt(1) by (simp add: kq_frame_def)
  then have "thread_at ?s' n = Some (t\<lparr>th_state := THREAD_STATE_READY\<rparr>)"
    using nt(2) by (auto simp: thread_at_def)
  moreover have "sched_frame s ?s'" using k(3) nt(3) by (simp add: sched_frame_def)
  ultimately show thesis using that [OF at ys eq] k(2,4) nt(1) by simp
qed

lemma unlock_refused:
  assumes "thread_at s n = Some t" "th_state t \<noteq> THREAD_STATE_WAITING \<or> block_type t \<noteq> bt"
    and "map_option kq_data (nodes (kq s) n) \<noteq> Some (idle_thread s c)"
  shows "sched_unlock_ready c n bt s = Ok (unlock_error bt, s)"
  using assms
  by (auto simp: thread_at_def sched_unlock_ready_def node_data_def get_thread_def store_simps
      split: option.splits if_splits)

lemma lock_step:
  assumes rel: "kq_rel (kq s) L" and cur: "running_node cpu s L n t"
    and idle: "\<forall>c. idle_thread s c \<noteq> active_thread s cpu"
    and aff: "unat (cpu_affinity t) < MAX_CPU_COUNT"
  obtains s' where "sched_lock_thread cpu bt s = Ok (n, s')" "parked bt s' n"
    "thread_at s' n = Some (t\<lparr>th_state := THREAD_STATE_WAITING, block_type := bt\<rparr>)"
    "kq s' = kq s" "active_threads_table s' = active_threads_table s" "idle_thread s' = idle_thread s"
    "time s' = time s" "active_thread s' = active_thread s" "active_thread_node s' = active_thread_node s"
    "sleeping_threads_table s' = sleeping_threads_table s"
proof -
  from running_nodeE [OF cur rel] obtain nd where nd: "nodes (kq s) n = Some nd"
    "kq_data nd = active_thread s cpu" "threads s (active_thread s cpu) = Some t"
    "active_thread_node s cpu = n" "active_thread s cpu \<noteq> NULL" by metis
  have pr: "th_priority t \<le> KERNEL_LOWEST_PRIORITY" using cur by (simp add: running_node_def)
  let ?s' = "s\<lparr>threads := (threads s)(active_thread s cpu \<mapsto>
       t\<lparr>th_state := THREAD_STATE_WAITING, block_type := bt\<rparr>)\<rparr>"
  have "active_thread s cpu \<noteq> idle_thread s cpu" using idle by metis
  then have eq: "sched_lock_thread cpu bt s = Ok (n, ?s')"
    using nd by (simp add: sched_lock_thread_def set_thread_def store_simps)
  show thesis
    by (rule that [OF eq]) (use nd idle aff pr in \<open>auto simp: parked_def thread_at_def\<close>)
qed

section \<open>Waiting threads\<close>

lemma pop_keeps_parked:
  assumes "parked bt s n" "kq_frame (kq s) k"
  shows "parked bt (s\<lparr>kq := k\<rparr>) n"
proof -
  from assms(1) obtain nd t where nt: "nodes (kq s) n = Some nd" "kq_data nd \<noteq> NULL"
    "threads s (kq_data nd) = Some t" "\<forall>c. idle_thread s c \<noteq> kq_data nd"
    "th_state t = THREAD_STATE_WAITING" "block_type t = bt"
    "unat (cpu_affinity t) < MAX_CPU_COUNT" "th_priority t \<le> KERNEL_LOWEST_PRIORITY"
    unfolding parked_def by blast
  have "map_option kq_data (nodes k n) = Some (kq_data nd)" using assms(2) nt(1) by (simp add: kq_frame_def)
  then obtain nd' where "nodes k n = Some nd'" "kq_data nd' = kq_data nd" by auto
  then show ?thesis using nt unfolding parked_def by auto
qed

lemma thread_at_kq: "kq_frame (kq s) k \<Longrightarrow> thread_at (s\<lparr>kq := k\<rparr>) n = thread_at s n"
proof -
  assume "kq_frame (kq s) k"
  then have "map_option kq_data (nodes k n) = map_option kq_data (nodes (kq s) n)" by (simp add: kq_frame_def)
  then show ?thesis by (cases "nodes k n"; cases "nodes (kq s) n") (simp_all add: thread_at_def)
qed

text \<open>Popping the oldest parked thread of a waiting queue and making it ready.\<close>

lemma pop_unlock_step:
  assumes rel: "kq_rel (kq s) L" and tab: "tables_ok s L" and W: "L w = Some (xs @ [n])"
    and pk: "parked bt s n"
    and sep: "\<forall>c < MAX_CPU_COUNT. \<forall>i < levels. active_threads_table s c i \<noteq> w"
  obtains k s' t ys where "sched_pop w s = Ok (n, OS_NO_ERR, s\<lparr>kq := k\<rparr>)" "n \<noteq> NULL"
    "sched_unlock_ready c n bt (s\<lparr>kq := k\<rparr>) = Ok (OS_NO_ERR, s')" "thread_at s n = Some t"
    "L (home_queue s t) = Some ys"
    "kq_rel (kq s') (L(w \<mapsto> xs, home_queue s t \<mapsto> n # ys))"
    "thread_at s' n = Some (t\<lparr>th_state := THREAD_STATE_READY\<rparr>)" "sched_frame s s'"
proof -
  from kq_pop_step [OF rel W] obtain k where k: "kernel_queue_pop w (kq s) = Ok (n, OS_NO_ERR, k)"
    "kq_rel k (L(w \<mapsto> xs))" "kq_frame (kq s) k" "n \<noteq> NULL" by metis
  let ?s1 = "s\<lparr>kq := k\<rparr>"
  from kq_relE [OF rel W] have nx: "n \<notin> set xs" by auto
  have out: "\<forall>q ys. (L(w \<mapsto> xs)) q = Some ys \<longrightarrow> n \<notin> set ys"
    using nx kq_rel_disjoint [OF rel W] by (auto split: if_splits)
  have rel1: "kq_rel (kq ?s1) (L(w \<mapsto> xs))" and tab1: "tables_ok ?s1 (L(w \<mapsto> xs))"
    using k(2) tab by (simp_all add: tables_ok_def)
  from unlock_step [OF rel1 tab1 pop_keeps_parked [OF pk k(3)] out, where c = c] obtain s' t ys where u:
    "thread_at ?s1 n = Some t" "(L(w \<mapsto> xs)) (home_queue ?s1 t) = Some ys"
    "sched_unlock_ready c n bt ?s1 = Ok (OS_NO_ERR, s')"
    "kq_rel (kq s') ((L(w \<mapsto> xs))(home_queue ?s1 t \<mapsto> n # ys))"
    "thread_at s' n = Some (t\<lparr>th_state := THREAD_STATE_READY\<rparr>)" "sched_frame ?s1 s'" .
  have at: "thread_at s n = Some t" using u(1) thread_at_kq [OF k(3)] by simp
  have home: "home_queue ?s1 t = home_queue s t" by (simp add: home_queue_def)
  from pk at have "unat (cpu_affinity t) < MAX_CPU_COUNT" "unat (th_priority t) < levels"
    by (auto simp: parked_def thread_at_def word_le_nat_alt)
  then have "home_queue s t \<noteq> w" using sep by (simp add: home_queue_def)
  then have "L (home_queue s t) = Some ys" using u(2) home by simp
  moreover have "sched_frame s s'"
    using sched_frame_trans [OF sched_frame_kq [OF k(3)] u(6)] .
  moreover have "sched_pop w s = Ok (n, OS_NO_ERR, ?s1)" using k(1) by (simp add: sched_pop_def)
  ultimately show thesis using that [of k s' t ys] u(3-5) at home k(4) by metis
qed

section \<open>Properties\<close>

text \<open>C20. Blocking and unblocking are inverse: a running thread that blocks on a semaphore or a mutex
  and is then unblocked is in the ready queue of its own CPU and priority, at the head, exactly as it
  was apart from its state, and a second unblocking, or one for the wrong kind of object, is refused
  with the documented error and changes nothing.\<close>

theorem sched_lock_unlock_roundtrip:
  assumes "kq_rel (kq s) L" "tables_ok s L" "running_node cpu s L n t"
    and "\<forall>c. idle_thread s c \<noteq> active_thread s cpu" "unat (cpu_affinity t) < MAX_CPU_COUNT"
    and "bt' \<noteq> bt"
  shows "\<exists>s1 s2 ys.
           sched_lock_thread cpu bt s = Ok (n, s1) \<and>
           sched_unlock_ready c n bt' s1 = Ok (unlock_error bt', s1) \<and>
           sched_unlock_ready c n bt s1 = Ok (OS_NO_ERR, s2) \<and>
           L (home_queue s t) = Some ys \<and> kq_rel (kq s2) (L(home_queue s t \<mapsto> n # ys)) \<and>
           thread_at s2 n = Some (t\<lparr>th_state := THREAD_STATE_READY, block_type := bt\<rparr>) \<and>
           sched_unlock_ready c n bt s2 = Ok (unlock_error bt, s2)"
proof -
  let ?t1 = "t\<lparr>th_state := THREAD_STATE_WAITING, block_type := bt\<rparr>"
  from lock_step [OF assms(1,3-5), of bt] obtain s1 where s1: "sched_lock_thread cpu bt s = Ok (n, s1)"
    "parked bt s1 n" "thread_at s1 n = Some ?t1" "kq s1 = kq s"
    "active_threads_table s1 = active_threads_table s" "idle_thread s1 = idle_thread s" .
  have out: "\<forall>q xs. L q = Some xs \<longrightarrow> n \<notin> set xs" using assms(3) by (simp add: running_node_def)
  have "kq_rel (kq s1) L" "tables_ok s1 L" using assms(1,2) s1(4,5) by (simp_all add: tables_ok_def)
  from unlock_step [OF this s1(2) out, where c = c] obtain s2 t' ys where s2:
    "thread_at s1 n = Some t'" "L (home_queue s1 t') = Some ys"
    "sched_unlock_ready c n bt s1 = Ok (OS_NO_ERR, s2)" "kq_rel (kq s2) (L(home_queue s1 t' \<mapsto> n # ys))"
    "thread_at s2 n = Some (t'\<lparr>th_state := THREAD_STATE_READY\<rparr>)" "sched_frame s1 s2" by metis
  have t': "t' = ?t1" using s2(1) s1(3) by simp
  have home: "home_queue s1 t' = home_queue s t" using s1(5) t' by (simp add: home_queue_def)
  have nd: "map_option kq_data (nodes (kq s) n) = Some (active_thread s cpu)"
    using assms(3) by (simp add: running_node_def)
  have "sched_unlock_ready c n bt' s1 = Ok (unlock_error bt', s1)"
    by (rule unlock_refused [OF s1(3)]) (use assms(4,6) s1(4,6) nd in auto)
  moreover have "sched_unlock_ready c n bt s2 = Ok (unlock_error bt, s2)"
  proof (rule unlock_refused [OF s2(5)])
    have "map_option kq_data (nodes (kq s2) n) = Some (active_thread s cpu)" "idle_thread s2 = idle_thread s"
      using s2(6) s1(4,6) nd by (simp_all add: sched_frame_def kq_frame_def)
    then show "map_option kq_data (nodes (kq s2) n) \<noteq> Some (idle_thread s2 c)" using assms(4) by auto
  qed simp
  moreover have "thread_at s2 n = Some (t\<lparr>th_state := THREAD_STATE_READY, block_type := bt\<rparr>)"
    using s2(5) t' by simp
  ultimately show ?thesis using s1(1) s2(2-4) unfolding home by blast
qed

lemma ex_tables: "tables_ok ex_sched ex_lists"
  using ex_ready_queue by (auto simp: tables_ok_def ex_lists_def ex_sched_def)

theorem sched_lock_unlock_roundtrip_witness:
  "\<exists>s1 s2. sched_lock_thread 0 THREAD_WAIT_TYPE_SEM ex_sched = Ok (0x10, s1) \<and>
     sched_unlock_ready 1 0x10 THREAD_WAIT_TYPE_SEM s1 = Ok (OS_NO_ERR, s2)"
proof -
  have "\<forall>c. idle_thread ex_sched c \<noteq> active_thread ex_sched 0" "unat (cpu_affinity ex_thread) < MAX_CPU_COUNT"
    by (simp_all add: ex_sched_def ex_thread_def zero_thread_def MAX_CPU_COUNT_def)
  from sched_lock_unlock_roundtrip [OF ex_lists_rel ex_tables ex_running this,
      of THREAD_WAIT_TYPE_MUTEX THREAD_WAIT_TYPE_SEM 1]
  show ?thesis by auto
qed

text \<open>The idle thread of a CPU can neither sleep nor block nor exit: \<^verbatim>\<open>sched_sleep\<close> and
  \<^verbatim>\<open>sched_lock_thread\<close> refuse without changing the state, \<^verbatim>\<open>thread_exit\<close> panics; and no operation makes it
  ready a second time.\<close>

theorem idle_thread_protected:
  assumes "active_thread s cpu = idle_thread s cpu"
    and "map_option kq_data (nodes (kq s) n) = Some (idle_thread s cpu)"
  shows "sched_sleep cpu ms s = Ok (Returned OS_ERR_UNAUTHORIZED_ACTION, s) \<and>
         sched_lock_thread cpu bt s = Ok (NULL, s) \<and>
         thread_exit cpu s = Panic OS_ERR_UNAUTHORIZED_ACTION \<and>
         sched_unlock_ready cpu n bt s = Ok (OS_ERR_NO_SUCH_ID, s)"
  using assms
  by (auto simp: sched_sleep_def sched_lock_thread_def thread_exit_def sched_unlock_ready_def
      node_data_def store_simps)

theorem idle_thread_protected_witness:
  "thread_exit 0 (ex_sched\<lparr>idle_thread := (\<lambda>_. 0x20)\<rparr>) = Panic OS_ERR_UNAUTHORIZED_ACTION"
  using idle_thread_protected [of "ex_sched\<lparr>idle_thread := (\<lambda>_. 0x20)\<rparr>" 0 "0x10" 1 THREAD_WAIT_TYPE_SEM]
  by (simp add: ex_sched_def loose_node_def)

text \<open>\<^verbatim>\<open>sched_sleep\<close> asks to be woken one timer period (5 ms) early. The subtraction wraps: when the
  uptime plus the requested time is below 5 ms, the wake-up time is within 5 of \<open>2^64\<close> and the thread
  sleeps for ever; otherwise it is the uptime plus the requested time minus 5.\<close>

theorem sched_sleep_wakeup:
  assumes "active_thread s cpu \<noteq> idle_thread s cpu" "threads s (active_thread s cpu) = Some t"
    and "uptime cpu s = Ok now" "unat now + unat ms < 2 ^ 64"
  shows "\<exists>s1 t'. sched_sleep cpu ms s = andthen (sched_schedule cpu s1) (\<lambda>s. Ok (Yielded OS_NO_ERR, s)) \<and>
           threads s1 (active_thread s cpu) = Some t' \<and> th_state t' = THREAD_STATE_SLEEPING \<and>
           unat (wakeup_time t') =
             (if 5 \<le> unat now + unat ms then unat now + unat ms - 5 else 2 ^ 64 + unat now + unat ms - 5)"
proof -
  let ?w = "now + ucast ms - ucast (1000 div KERNEL_MAIN_TIMER_FREQ)"
  let ?t = "t\<lparr>wakeup_time := ?w, th_state := THREAD_STATE_SLEEPING\<rparr>"
  let ?s1 = "s\<lparr>threads := (threads s)(active_thread s cpu \<mapsto> ?t)\<rparr>"
  have five: "(ucast (1000 div KERNEL_MAIN_TIMER_FREQ) :: u64) = 5"
    by (simp add: KERNEL_MAIN_TIMER_FREQ_def)
  have "unat (ucast ms :: u64) = unat ms"
    using unsigned_less [of ms, where 'a = nat] by (simp add: unsigned_ucast_eq take_bit_nat_eq_self)
  then have sum: "unat (now + ucast ms) = unat now + unat ms"
    using assms(4) by (simp add: unat_word_ariths)
  have "unat ?w = (if 5 \<le> unat now + unat ms then unat now + unat ms - 5
                   else 2 ^ 64 + unat now + unat ms - 5)"
    unfolding five using sum by (simp add: unat_sub_if')
  moreover have "sched_sleep cpu ms s = andthen (sched_schedule cpu ?s1) (\<lambda>s. Ok (Yielded OS_NO_ERR, s))"
    using assms(1-3) by (simp add: sched_sleep_def set_thread_def store_simps)
  ultimately show ?thesis by (intro exI [of _ ?s1] exI [of _ ?t]) simp
qed

theorem sched_sleep_wakeup_witness:
  "\<exists>s1 t'. sched_sleep 0 3 ex_sched = andthen (sched_schedule 0 s1) (\<lambda>s. Ok (Yielded OS_NO_ERR, s)) \<and>
     threads s1 0x20 = Some t' \<and> unat (wakeup_time t') = 2 ^ 64 - 2"
proof -
  have "active_thread ex_sched 0 = 0x20" "active_thread ex_sched 0 \<noteq> idle_thread ex_sched 0"
    "threads ex_sched (active_thread ex_sched 0) = Some ex_thread"
    by (simp_all add: ex_sched_def)
  with sched_sleep_wakeup [OF _ _ ex_uptime, of ex_thread 3] show ?thesis by auto
qed

section \<open>Exit\<close>

lemma set_thread_step: "threads s p = Some t \<Longrightarrow> set_thread p f s = Ok (s\<lparr>threads := (threads s)(p \<mapsto> f t)\<rparr>)"
  by (simp add: set_thread_def store_simps)

text \<open>A thread that exits while one of its children has not been joined dereferences a null pointer:
  the loop that hands the children over to init reads \<^verbatim>\<open>thread->joining_thread->data\<close> without testing
  \<^verbatim>\<open>joining_thread\<close>, which is \<^verbatim>\<open>NULL\<close> in a thread nobody waits for.\<close>

theorem thread_exit_unjoined_child_faults:
  assumes "kq_rel (kq s) L" "running_node cpu s L n t"
    and "active_thread s cpu \<noteq> idle_thread s cpu" "active_thread s cpu \<noteq> init_thread s"
    and "L (zombie_threads_table s) = Some zs" "children t \<noteq> zombie_threads_table s"
    and "L (children t) = Some (xs @ [c])"
    and "thread_at s c = Some ct" "map_option kq_data (nodes (kq s) c) \<noteq> Some (active_thread s cpu)"
    and "joining_thread ct = NULL" "threads s (init_thread s) \<noteq> None"
  shows "thread_exit cpu s = Fault"
proof -
  let ?a = "active_thread s cpu" and ?z = "zombie_threads_table s"
  from running_nodeE [OF assms(2,1)] obtain nd where nd: "nodes (kq s) n = Some nd" "enlisted nd = 0"
    "threads s ?a = Some t" "active_thread_node s cpu = n" by metis
  from kq_push_step [OF assms(1,5) nd(1,2)] obtain k where k: "kernel_queue_push n ?z (kq s) = Ok (OS_NO_ERR, k)"
    "kq_rel k (L(?z \<mapsto> n # zs))" "kq_frame (kq s) k" by metis
  have "(L(?z \<mapsto> n # zs)) (children t) = Some (xs @ [c])" using assms(6,7) by simp
  from kq_pop_step [OF k(2) this] obtain k2 where k2: "kernel_queue_pop (children t) k = Ok (c, OS_NO_ERR, k2)"
    "kq_rel k2 ((L(?z \<mapsto> n # zs))(children t \<mapsto> xs))" "kq_frame k k2" "c \<noteq> NULL" by metis
  obtain cd where cd: "map_option kq_data (nodes (kq s) c) = Some cd" "threads s cd = Some ct" "cd \<noteq> ?a"
    using assms(8,9) by (auto simp: thread_at_def split: option.splits if_splits)
  have "map_option kq_data (nodes k2 c) = Some cd" using cd(1) k(3) k2(3) by (simp add: kq_frame_def)
  then obtain nd2 where nd2: "nodes k2 c = Some nd2" "kq_data nd2 = cd" by auto
  obtain it where it: "threads s (init_thread s) = Some it" using assms(11) by blast
  let ?s1 = "s\<lparr>threads := (threads s)(?a \<mapsto> t\<lparr>th_state := THREAD_STATE_ZOMBIE\<rparr>), kq := k\<rparr>"
  have "nodes k2 NULL = None" using k2(2) by (simp add: kq_rel_def)
  then have "exit_child cpu ?s1 = Fault"
    using k2(1,4) nd2 cd(2,3) it assms(4,10)
    by (simp add: exit_child_def get_thread_def sched_pop_def node_data_def set_thread_step store_simps)
  then have "while_do (exit_child cpu) ?s1 = Fault" by (subst while_do_unfold) simp
  then show ?thesis
    using assms(3,4) nd(3,4) k(1) by (simp add: thread_exit_def set_thread_step on_kq_def)
qed

text \<open>A parent (thread \<open>0x20\<close>) with one child (thread \<open>0x28\<close>, node \<open>0x18\<close>) that nobody waits for.\<close>

definition ex_family :: sched_state where
  "ex_family = ex_sched
     \<lparr>kq := \<lparr>heap = blank_heap,
            nodes = [0x10 \<mapsto> loose_node 0x20, 0x18 \<mapsto> (loose_node 0x28)\<lparr>enlisted := 1\<rparr>],
            queues = [0x1100 \<mapsto> \<lparr>head = 0x18, tail = 0x18, kq_size = 1\<rparr>,
                      0x1200 \<mapsto> \<lparr>head = NULL, tail = NULL, kq_size = 0\<rparr>]\<rparr>,
      threads := [0x20 \<mapsto> ex_thread\<lparr>children := 0x1100\<rparr>, 0x28 \<mapsto> zero_thread, 0x32 \<mapsto> zero_thread],
      zombie_threads_table := 0x1200\<rparr>"

lemma ex_family_rel: "kq_rel (kq ex_family) [0x1100 \<mapsto> [0x18], 0x1200 \<mapsto> []]"
  by (auto simp: kq_rel_def ex_family_def kq_repr_def loose_node_def split: if_splits)

theorem thread_exit_unjoined_child_faults_witness: "thread_exit 0 ex_family = Fault"
proof (rule thread_exit_unjoined_child_faults
    [OF ex_family_rel, where c = "0x18" and xs = "[]" and zs = "[]" and ct = zero_thread])
  show "running_node 0 ex_family [0x1100 \<mapsto> [0x18], 0x1200 \<mapsto> []] 0x10 (ex_thread\<lparr>children := 0x1100\<rparr>)"
    by (auto simp: running_node_def ex_family_def ex_sched_def loose_node_def ex_thread_def
        KERNEL_LOWEST_PRIORITY_def split: if_splits)
qed (simp_all add: ex_family_def ex_sched_def thread_at_def loose_node_def zero_thread_def)

end
