(* ===== verification/Semaphore.thy ===== *)
theory Semaphore
  imports Blocking
begin

text \<open>
  The semaphores, \<^verbatim>\<open>Sources/sync/semaphore.c\<close>, on top of the scheduler. Semaphores live in a store
  addressed by pointers (they are embedded in mailboxes and message queues, at fixed offsets). The
  level is a 32-bit two's complement number. \<open>sem_pend\<close> is cut at its \<^verbatim>\<open>sched_schedule\<close>;
  \<open>sem_pend_resume\<close> is the loop test that runs when the thread is elected again.
\<close>

section \<open>State\<close>

record semaphore_t =
  sem_waiting :: ptr
  sem_level :: u32
  sem_initialized :: u32

record sem_state =
  sched :: sched_state
  sems :: "ptr \<rightharpoonup> semaphore_t"

definition on_sched ::
    "(sched_state \<Rightarrow> ('a \<times> sched_state) outcome) \<Rightarrow> sem_state \<Rightarrow> ('a \<times> sem_state) outcome" where
  "on_sched f s = andthen (f (sched s)) (\<lambda>(r, k). Ok (r, s\<lparr>sched := k\<rparr>))"

definition set_sem :: "ptr \<Rightarrow> (semaphore_t \<Rightarrow> semaphore_t) \<Rightarrow> sem_state \<Rightarrow> sem_state outcome" where
  "set_sem p f s = andthen (modify (sems s) p f) (\<lambda>m. Ok (s\<lparr>sems := m\<rparr>))"

section \<open>Operations\<close>

definition sem_init :: "ptr \<Rightarrow> u32 \<Rightarrow> sem_state \<Rightarrow> (OS_RETURN_E \<times> sem_state)" where
  "sem_init sem init_level s =
     (if sem = NULL then (OS_ERR_NULL_POINTER, s)
      else
        let (q, err, k) = sched_create_queue (sched s);
            s = s\<lparr>sched := k, sems := (sems s)(sem \<mapsto>
                  \<lparr>sem_waiting = q, sem_level = init_level,
                   sem_initialized = (if err = OS_NO_ERR then 1 else 0)\<rparr>)\<rparr>
        in (err, s))"

text \<open>One pass of the loop of \<^verbatim>\<open>sem_destroy\<close>.\<close>

definition sem_release_one :: "nat \<Rightarrow> ptr \<Rightarrow> sem_state \<Rightarrow> (bool \<times> sem_state) outcome" where
  "sem_release_one cpu_id sem s =
     andthen (deref (sems s) sem) (\<lambda>sm.
     andthen (sched_pop (sem_waiting sm) (sched s)) (\<lambda>(node, err, k).
     let s = s\<lparr>sched := k\<rparr>
     in if node = NULL then (if err \<noteq> OS_NO_ERR then Panic err else Ok (False, s))
        else if err \<noteq> OS_NO_ERR then Panic err
        else or_panic (on_sched (sched_unlock_ready cpu_id node THREAD_WAIT_TYPE_SEM) s) (\<lambda>s. Ok (True, s))))"

definition sem_destroy :: "nat \<Rightarrow> ptr \<Rightarrow> sem_state \<Rightarrow> (OS_RETURN_E \<times> sem_state) outcome" where
  "sem_destroy cpu_id sem s =
     (if sem = NULL then Ok (OS_ERR_NULL_POINTER, s)
      else andthen (deref (sems s) sem) (\<lambda>sm.
        if sem_initialized sm \<noteq> 1 then Ok (OS_ERR_SEM_UNINITIALIZED, s)
        else andthen (set_sem sem (\<lambda>x. x\<lparr>sem_initialized := 0\<rparr>) s) (\<lambda>s.
             andthen (while_do (sem_release_one cpu_id sem) s) (\<lambda>s. Ok (OS_NO_ERR, s)))))"

definition sem_pend_resume :: "nat \<Rightarrow> ptr \<Rightarrow> sem_state \<Rightarrow> (OS_RETURN_E call \<times> sem_state) outcome" where
  "sem_pend_resume cpu_id sem s =
     andthen (deref (sems s) sem) (\<lambda>sm.
     if sem_initialized sm = 1 \<and> sint (sem_level sm) < 1
     then andthen (on_sched (sched_lock_thread cpu_id THREAD_WAIT_TYPE_SEM) s) (\<lambda>(node, s).
          if node = NULL then Panic OS_ERR_NULL_POINTER
          else or_panic (on_sched (on_kq (kernel_queue_push node (sem_waiting sm))) s) (\<lambda>s.
               andthen (sched_schedule cpu_id (sched s)) (\<lambda>k. Ok (Switched, s\<lparr>sched := k\<rparr>))))
     else if sem_initialized sm \<noteq> 1 then Ok (Returned OS_ERR_SEM_UNINITIALIZED, s)
     else andthen (set_sem sem (\<lambda>x. x\<lparr>sem_level := sem_level x - 1\<rparr>) s) (\<lambda>s. Ok (Returned OS_NO_ERR, s)))"

definition sem_pend :: "nat \<Rightarrow> ptr \<Rightarrow> sem_state \<Rightarrow> (OS_RETURN_E call \<times> sem_state) outcome" where
  "sem_pend cpu_id sem s =
     (if sem = NULL then Ok (Returned OS_ERR_NULL_POINTER, s)
      else andthen (deref (sems s) sem) (\<lambda>sm.
        if sem_initialized sm \<noteq> 1 then Ok (Returned OS_ERR_SEM_UNINITIALIZED, s)
        else sem_pend_resume cpu_id sem s))"

text \<open>\<^verbatim>\<open>sem_post\<close> reads the interrupt flag after it has left its critical section, that is, as it was on
  entry.\<close>

definition sem_post :: "nat \<Rightarrow> ptr \<Rightarrow> sem_state \<Rightarrow> (OS_RETURN_E call \<times> sem_state) outcome" where
  "sem_post cpu_id sem s =
     (if sem = NULL then Ok (Returned OS_ERR_NULL_POINTER, s)
      else andthen (deref (sems s) sem) (\<lambda>sm.
        if sem_initialized sm \<noteq> 1 then Ok (Returned OS_ERR_SEM_UNINITIALIZED, s)
        else andthen (set_sem sem (\<lambda>x. x\<lparr>sem_level := sem_level x + 1\<rparr>) s) (\<lambda>s.
          if sint (sem_level sm + 1) > 0
          then andthen (sched_pop (sem_waiting sm) (sched s)) (\<lambda>(node, err, k).
               let s = s\<lparr>sched := k\<rparr>
               in if node \<noteq> NULL
                  then if err \<noteq> OS_NO_ERR then Panic err
                       else andthen (on_sched (sched_unlock_thread cpu_id node THREAD_WAIT_TYPE_SEM
                                (\<not> kernel_interrupt_get_state (ints (time (sched s))) > 0)) s) (\<lambda>(r, s).
                            case r of
                              Returned e \<Rightarrow> if e \<noteq> OS_NO_ERR then Panic e else Ok (Returned OS_NO_ERR, s)
                            | Yielded e \<Rightarrow> Ok (Yielded OS_NO_ERR, s)
                            | Switched \<Rightarrow> Ok (Switched, s))
                  else if err \<noteq> OS_NO_ERR then Panic err
                  else Ok (Returned OS_NO_ERR, s))
          else Ok (Returned OS_NO_ERR, s))))"

text \<open>The result carries the value stored in \<^verbatim>\<open>*value\<close>, if any.\<close>

definition sem_try_pend :: "ptr \<Rightarrow> bool \<Rightarrow> sem_state \<Rightarrow> (OS_RETURN_E \<times> u32 option \<times> sem_state) outcome" where
  "sem_try_pend sem value_null s =
     (if sem = NULL \<or> value_null then Ok (OS_ERR_NULL_POINTER, None, s)
      else andthen (deref (sems s) sem) (\<lambda>sm.
        if sem_initialized sm \<noteq> 1 then Ok (OS_ERR_SEM_UNINITIALIZED, None, s)
        else if sint (sem_level sm) < 1 then Ok (OS_SEM_LOCKED, Some (sem_level sm), s)
        else andthen (set_sem sem (\<lambda>x. x\<lparr>sem_level := sem_level x - 1\<rparr>) s) (\<lambda>s.
             Ok (OS_NO_ERR, Some (sem_level sm - 1), s))))"

text \<open>The interrupt half of a critical section around a semaphore operation (its spinlock half is in
  the theory \<^verbatim>\<open>Critical\<close>), and a post inside one, as mailboxes and message queues call it: when the
  post switches to the thread it wakes, the end of the section runs later.\<close>

definition critical_enter :: "sem_state \<Rightarrow> u32 \<times> sem_state" where
  "critical_enter s =
     (let (x, i) = kernel_interrupt_disable (ints (time (sched s)))
      in (x, s\<lparr>sched := (sched s)\<lparr>time := (time (sched s))\<lparr>ints := i\<rparr>\<rparr>\<rparr>))"

definition critical_exit :: "u32 \<Rightarrow> sem_state \<Rightarrow> sem_state" where
  "critical_exit x s =
     s\<lparr>sched := (sched s)\<lparr>time := (time (sched s))\<lparr>ints := kernel_interrupt_restore x (ints (time (sched s)))\<rparr>\<rparr>\<rparr>"

definition sem_post_critical :: "nat \<Rightarrow> ptr \<Rightarrow> sem_state \<Rightarrow> (OS_RETURN_E call \<times> sem_state) outcome" where
  "sem_post_critical cpu_id sem s =
     (let (x, s) = critical_enter s
      in andthen (sem_post cpu_id sem s) (\<lambda>(r, s).
         case r of Returned e \<Rightarrow> Ok (Returned e, critical_exit x s) | _ \<Rightarrow> Ok (r, s)))"

definition zero_sem :: semaphore_t where
  "zero_sem = \<lparr>sem_waiting = NULL, sem_level = 0, sem_initialized = 0\<rparr>"

section \<open>The level\<close>

lemma on_sched_sems: "on_sched f s = Ok (r, s') \<Longrightarrow> sems s' = sems s"
  by (auto simp: on_sched_def outcome_simps)

text \<open>A pend either acquires, and then the level was positive and goes down by one, or leaves the
  semaphores alone; a post adds one to the level.\<close>

definition level_down :: "ptr \<Rightarrow> sem_state \<Rightarrow> sem_state \<Rightarrow> bool" where
  "level_down p s s' \<longleftrightarrow>
     (\<exists>sm. sems s p = Some sm \<and> 1 \<le> sint (sem_level sm) \<and>
           sems s' = (sems s)(p \<mapsto> sm\<lparr>sem_level := sem_level sm - 1\<rparr>))"

definition level_up :: "ptr \<Rightarrow> sem_state \<Rightarrow> sem_state \<Rightarrow> bool" where
  "level_up p s s' \<longleftrightarrow>
     (\<exists>sm. sems s p = Some sm \<and> sems s' = (sems s)(p \<mapsto> sm\<lparr>sem_level := sem_level sm + 1\<rparr>))"

lemma sem_pend_resume_level:
  assumes "sem_pend_resume c p s = Ok (r, s')"
  shows "if r = Returned OS_NO_ERR then level_down p s s' else sems s' = sems s"
proof -
  obtain sm where sm: "sems s p = Some sm"
    using assms by (auto simp: sem_pend_resume_def outcome_simps)
  consider (block) "sem_initialized sm = 1" "sint (sem_level sm) < 1"
    | (dead) "sem_initialized sm \<noteq> 1" | (go) "sem_initialized sm = 1" "1 \<le> sint (sem_level sm)" by linarith
  then show ?thesis
  proof cases
    case block
    then obtain n s1 s2 k where "on_sched (sched_lock_thread c THREAD_WAIT_TYPE_SEM) s = Ok (n, s1)"
      "on_sched (on_kq (kernel_queue_push n (sem_waiting sm))) s1 = Ok (OS_NO_ERR, s2)"
      "r = Switched" "s' = s2\<lparr>sched := k\<rparr>"
      using assms sm
      by (auto simp: sem_pend_resume_def deref_def andthen_eq_Ok or_panic_eq_Ok split: if_splits)
    then show ?thesis by (auto dest!: on_sched_sems)
  next
    case dead
    then show ?thesis using assms sm by (auto simp: sem_pend_resume_def deref_def)
  next
    case go
    then show ?thesis using assms sm
      by (auto simp: sem_pend_resume_def deref_def set_sem_def modify_def level_down_def)
  qed
qed

lemma sem_pend_level:
  assumes "sem_pend c p s = Ok (r, s')"
  shows "if r = Returned OS_NO_ERR then level_down p s s' else sems s' = sems s"
proof -
  from assms have "sem_pend_resume c p s = Ok (r, s') \<or> r \<noteq> Returned OS_NO_ERR \<and> s' = s"
    by (auto simp: sem_pend_def andthen_eq_Ok split: if_splits)
  then show ?thesis using sem_pend_resume_level [of c p s r s'] by auto
qed

lemma sem_try_pend_level:
  assumes "sem_try_pend p b s = Ok (e, v, s')"
  shows "if e = OS_NO_ERR then level_down p s s' else sems s' = sems s"
  using assms
  by (auto simp: sem_try_pend_def set_sem_def andthen_eq_Ok deref_eq_Ok modify_eq_Ok level_down_def split: if_splits)

lemma sem_post_succeeds:
  assumes "sem_post c p s = Ok (r, s')" and sm: "sems s p = Some sm" "p \<noteq> NULL" "sem_initialized sm = 1"
  shows "sems s' = (sems s)(p \<mapsto> sm\<lparr>sem_level := sem_level sm + 1\<rparr>) \<and>
         (r = Returned OS_NO_ERR \<or> r = Yielded OS_NO_ERR)"
proof -
  let ?s1 = "s\<lparr>sems := (sems s)(p \<mapsto> sm\<lparr>sem_level := sem_level sm + 1\<rparr>)\<rparr>"
  have no_switch: "x \<noteq> Switched \<and> sems t' = sems t \<and> (\<forall>e. x = Yielded e \<longrightarrow> e = OS_NO_ERR)"
    if "on_sched (sched_unlock_thread c n b d) t = Ok (x, t')" for n b d t x t'
    using that by (auto simp: on_sched_def sched_unlock_thread_def andthen_eq_Ok split: if_splits)
  show ?thesis
  proof (cases "sint (sem_level sm + 1) > 0")
    case False
    then show ?thesis using assms sm by (auto simp: sem_post_def deref_def set_sem_def modify_def)
  next
    case True
    then obtain n err k where pop: "sched_pop (sem_waiting sm) (sched ?s1) = Ok (n, err, k)"
      using assms sm by (auto simp: sem_post_def deref_def set_sem_def modify_def andthen_eq_Ok)
    show ?thesis
    proof (cases "n = NULL")
      case nul: True
      then show ?thesis using assms sm True pop
        by (auto simp: sem_post_def deref_def set_sem_def modify_def Let_def split: if_splits)
    next
      case nn: False
      obtain x t' where x: "on_sched (sched_unlock_thread c n THREAD_WAIT_TYPE_SEM
           (\<not> kernel_interrupt_get_state (ints (time k)) > 0)) (?s1\<lparr>sched := k\<rparr>) = Ok (x, t')"
        using assms sm True pop nn
        by (auto simp: sem_post_def deref_def set_sem_def modify_def andthen_eq_Ok Let_def split: if_splits)
      then show ?thesis using assms sm True pop nn no_switch [OF x]
        by (cases x) (auto simp: sem_post_def deref_def set_sem_def modify_def Let_def split: if_splits)
    qed
  qed
qed

lemma sem_post_level:
  assumes "sem_post c p s = Ok (r, s')"
  shows "if r = Returned OS_NO_ERR \<or> r = Yielded OS_NO_ERR then level_up p s s' else sems s' = sems s"
proof (cases "p = NULL \<or> (\<exists>sm. sems s p = Some sm \<and> sem_initialized sm \<noteq> 1)")
  case True
  then have "s' = s \<and> r \<noteq> Returned OS_NO_ERR \<and> r \<noteq> Yielded OS_NO_ERR"
    using assms by (cases "p = NULL") (auto simp: sem_post_def deref_def)
  then show ?thesis by simp
next
  case False
  then obtain sm where sm: "sems s p = Some sm" "p \<noteq> NULL" "sem_initialized sm = 1"
    using assms by (auto simp: sem_post_def andthen_eq_Ok deref_eq_Ok)
  from sem_post_succeeds [OF assms sm] show ?thesis using sm(1) by (auto simp: level_up_def)
qed

lemma critical_sems [simp]: "sems (snd (critical_enter s)) = sems s" "sems (critical_exit x s) = sems s"
  by (simp_all add: critical_enter_def critical_exit_def case_prod_beta Let_def)

lemma sem_post_critical_level:
  assumes "sem_post_critical c p s = Ok (r, s')" "sems s p = Some sm" "p \<noteq> NULL" "sem_initialized sm = 1"
  shows "sems s' = (sems s)(p \<mapsto> sm\<lparr>sem_level := sem_level sm + 1\<rparr>) \<and>
         (r = Returned OS_NO_ERR \<or> r = Yielded OS_NO_ERR)"
proof -
  obtain x s0 where ce: "critical_enter s = (x, s0)" by fastforce
  then have s0: "sems s0 = sems s" using critical_sems(1) [of s] by simp
  obtain r1 s1 where s1: "sem_post c p s0 = Ok (r1, s1)"
    and e: "(case r1 of Returned e \<Rightarrow> Ok (Returned e, critical_exit x s1) | _ \<Rightarrow> Ok (r1, s1)) = Ok (r, s')"
    using assms(1) ce by (auto simp: sem_post_critical_def andthen_eq_Ok)
  have "r = r1" "sems s' = sems s1" using e by (cases r1; auto)+
  with sem_post_succeeds [OF s1, of sm] assms(2-4) s0 show ?thesis by simp
qed

lemma sem_release_sems:
  assumes "sem_release_one c p s = Ok (m, s')"
  shows "sems s' = sems s"
  using assms
  by (auto simp: sem_release_one_def outcome_simps Let_def split: if_splits dest!: on_sched_sems)

lemma sem_destroy_level:
  assumes "sem_destroy c p s = Ok (e, s')" "sems s p = Some sm"
  shows "\<exists>sm'. sems s' p = Some sm' \<and> sem_level sm' = sem_level sm"
proof -
  let ?P = "\<lambda>t. \<exists>sm'. sems t p = Some sm' \<and> sem_level sm' = sem_level sm"
  let ?s1 = "s\<lparr>sems := (sems s)(p \<mapsto> sm\<lparr>sem_initialized := 0\<rparr>)\<rparr>"
  have "s' = s \<or> while_do (sem_release_one c p) ?s1 = Ok s'"
    using assms by (auto simp: sem_destroy_def set_sem_def outcome_simps split: if_splits)
  then show ?thesis
  proof
    assume "s' = s"
    then show ?thesis using assms(2) by simp
  next
    assume w: "while_do (sem_release_one c p) ?s1 = Ok s'"
    show ?thesis
      by (rule while_do_keeps [OF w, of ?P]) (use sem_release_sems in auto)
  qed
qed

text \<open>The histories of one semaphore: it is initialised at a level \<open>i\<close> that is not negative (\<^verbatim>\<open>sem_init\<close> takes negative
  ones too), then pends, posts, tries and
  destructions happen in any order on any CPU, interleaved with arbitrary activity of the rest of the
  kernel, which does not write the semaphore. \<open>po\<close> counts the posts that succeeded, \<open>ac\<close> the pends that
  acquired.\<close>

inductive sem_history :: "ptr \<Rightarrow> nat \<Rightarrow> nat \<Rightarrow> nat \<Rightarrow> sem_state \<Rightarrow> bool" for p i where
  init: "sem_init p (of_nat i) s = (OS_NO_ERR, s') \<Longrightarrow> sem_history p i 0 0 s'"
| others: "sem_history p i po ac s \<Longrightarrow> sems s' p = sems s p \<Longrightarrow> sem_history p i po ac s'"
| pend: "sem_history p i po ac s \<Longrightarrow> sem_pend c p s = Ok (r, s') \<Longrightarrow>
    sem_history p i po (if r = Returned OS_NO_ERR then ac + 1 else ac) s'"
| resume: "sem_history p i po ac s \<Longrightarrow> sem_pend_resume c p s = Ok (r, s') \<Longrightarrow>
    sem_history p i po (if r = Returned OS_NO_ERR then ac + 1 else ac) s'"
| try_pend: "sem_history p i po ac s \<Longrightarrow> sem_try_pend p b s = Ok (e, v, s') \<Longrightarrow>
    sem_history p i po (if e = OS_NO_ERR then ac + 1 else ac) s'"
| post: "sem_history p i po ac s \<Longrightarrow> sem_post c p s = Ok (r, s') \<Longrightarrow>
    sem_history p i (if r = Returned OS_NO_ERR \<or> r = Yielded OS_NO_ERR then po + 1 else po) ac s'"
| destroy: "sem_history p i po ac s \<Longrightarrow> sem_destroy c p s = Ok (e, s') \<Longrightarrow> sem_history p i po ac s'"

lemma sint_of_nat_small: "k < 2 ^ 31 \<Longrightarrow> sint (of_nat k :: u32) = int k"
  by (subst sint_small) (simp_all add: unsigned_of_nat take_bit_nat_eq_self)

lemma sint_pred: "1 \<le> sint w \<Longrightarrow> sint (w - 1) = sint w - 1" for w :: u32
proof -
  assume pos: "1 \<le> sint w"
  then obtain k where k: "sint w = int k" "1 \<le> k" by (metis nonneg_int_cases order_trans zero_le_one of_nat_1 of_nat_le_iff)
  have lt: "k < 2 ^ 31" using k(1) sint_lt [of w] by (simp add: )
  have "of_int (sint w) = w" by simp
  then have "w = of_nat k" using k(1) by simp
  then have "w - 1 = of_nat (k - 1)" using k(2) by (simp add: of_nat_diff)
  then show ?thesis using sint_of_nat_small [of "k - 1"] lt k by simp
qed

lemma sint_succ: "0 \<le> sint w \<Longrightarrow> sint w + 1 < 2 ^ 31 \<Longrightarrow> sint (w + 1) = sint w + 1" for w :: u32
proof -
  assume a: "0 \<le> sint w" "sint w + 1 < 2 ^ 31"
  then obtain k where k: "sint w = int k" by (metis nonneg_int_cases)
  have "of_int (sint w) = w" by simp
  then have "w = of_nat k" using k by simp
  then have "w + 1 = of_nat (k + 1)" by simp
  then show ?thesis using sint_of_nat_small [of "k + 1"] a k by (simp add: add.commute)
qed

lemma sem_history_level:
  "sem_history p i po ac s \<Longrightarrow> i + po < 2 ^ 31 \<Longrightarrow>
     \<exists>sm. sems s p = Some sm \<and> sint (sem_level sm) = int (i + po) - int ac \<and> ac \<le> i + po"
proof (induction rule: sem_history.induct)
  case (init s s')
  then show ?case
    by (auto simp: sem_init_def Let_def sint_of_nat_small split: if_splits prod.splits)
next
  case (others po ac s s')
  then show ?case by simp
next
  case (pend po ac s c r s')
  then show ?case using sem_pend_level [OF pend(2)]
    by (auto simp: sint_pred level_down_def split: if_splits)
next
  case (resume po ac s c r s')
  then show ?case using sem_pend_resume_level [OF resume(2)]
    by (auto simp: sint_pred level_down_def split: if_splits)
next
  case (try_pend po ac s b e v s')
  then show ?case using sem_try_pend_level [OF try_pend(2)]
    by (auto simp: sint_pred level_down_def split: if_splits)
next
  case (post po ac s c r s')
  show ?case
  proof (cases "r = Returned OS_NO_ERR \<or> r = Yielded OS_NO_ERR")
    case True
    then have po: "i + po + 1 < 2 ^ 31" using post(4) by auto
    with post.IH obtain sm where "sems s p = Some sm" "sint (sem_level sm) = int (i + po) - int ac" "ac \<le> i + po"
      by auto
    with sem_post_level [OF post(2)] True po show ?thesis by (auto simp: sint_succ level_up_def)
  next
    case False
    then show ?thesis using post sem_post_level [OF post(2)] by auto
  qed
next
  case (destroy po ac s c e s')
  then show ?case by (auto dest: sem_destroy_level)
qed

section \<open>Interface for the channels\<close>

text \<open>What mailboxes and message queues rely on: a live semaphore and its level as a number.\<close>

definition sem_live :: "ptr \<Rightarrow> sem_state \<Rightarrow> bool" where
  "sem_live p s \<longleftrightarrow> p \<noteq> NULL \<and> (\<exists>sm. sems s p = Some sm \<and> sem_initialized sm = 1)"

definition sem_count :: "ptr \<Rightarrow> sem_state \<Rightarrow> int" where
  "sem_count p s = sint (sem_level (the (sems s p)))"

lemma sem_view_sched [simp]:
  "sem_live p (s\<lparr>sched := k\<rparr>) = sem_live p s" "sem_count p (s\<lparr>sched := k\<rparr>) = sem_count p s"
  by (simp_all add: sem_live_def sem_count_def)

lemma sem_acquired:
  assumes "sem_pend c p s = Ok (Returned OS_NO_ERR, s') \<or> sem_pend_resume c p s = Ok (Returned OS_NO_ERR, s')"
  shows "1 \<le> sem_count p s \<and>
         (\<forall>q. sem_live q s' = sem_live q s \<and>
              sem_count q s' = (if q = p then sem_count q s - 1 else sem_count q s))"
proof -
  from assms have "level_down p s s'" by (auto dest!: sem_pend_level sem_pend_resume_level)
  then obtain sm where sm: "sems s p = Some sm" "1 \<le> sint (sem_level sm)"
    "sems s' = (sems s)(p \<mapsto> sm\<lparr>sem_level := sem_level sm - 1\<rparr>)" by (auto simp: level_down_def)
  then show ?thesis by (auto simp: sem_live_def sem_count_def sint_pred)
qed

lemma sem_pend_live_result:
  assumes "sem_pend c p s = Ok (r, s') \<or> sem_pend_resume c p s = Ok (r, s')" "sem_live p s"
  shows "r = Returned OS_NO_ERR \<or> r = Switched"
proof -
  from assms(2) obtain sm where sm: "p \<noteq> NULL" "sems s p = Some sm" "sem_initialized sm = 1"
    by (auto simp: sem_live_def)
  then have "sem_pend_resume c p s = Ok (r, s')" using assms(1) by (auto simp: sem_pend_def deref_def)
  then show ?thesis using sm
    by (auto simp: sem_pend_resume_def deref_def andthen_eq_Ok or_panic_eq_Ok split: if_splits)
qed

text \<open>On a live semaphore a pend acquires a unit or is switched out.\<close>

lemma sem_pended:
  assumes "sem_pend c p s = Ok (r, s') \<or> sem_pend_resume c p s = Ok (r, s')" "sem_live p s"
  shows "(\<forall>q. sem_live q s' = sem_live q s \<and> (q \<noteq> p \<longrightarrow> sem_count q s' = sem_count q s)) \<and>
         (r = Returned OS_NO_ERR \<and> 1 \<le> sem_count p s \<and> sem_count p s' = sem_count p s - 1 \<or>
          r = Switched \<and> sem_count p s' = sem_count p s)"
proof (cases "r = Returned OS_NO_ERR")
  case True
  then show ?thesis using sem_acquired [of c p s s'] assms(1) by auto
next
  case False
  then have "r = Switched" "sems s' = sems s"
    using sem_pend_live_result [OF assms] assms(1) sem_pend_level [of c p s r s'] sem_pend_resume_level [of c p s r s'] by auto
  then show ?thesis by (simp add: sem_live_def sem_count_def)
qed

lemma sem_posted:
  assumes "sem_post_critical c p s = Ok (r, s')" "sem_live p s" "0 \<le> sem_count p s" "sem_count p s + 1 < 2 ^ 31"
  shows "(r = Returned OS_NO_ERR \<or> r = Yielded OS_NO_ERR) \<and>
         (\<forall>q. sem_live q s' = sem_live q s \<and>
              sem_count q s' = (if q = p then sem_count q s + 1 else sem_count q s))"
proof -
  from assms(2) obtain sm where sm: "p \<noteq> NULL" "sems s p = Some sm" "sem_initialized sm = 1"
    by (auto simp: sem_live_def)
  from sem_post_critical_level [OF assms(1) sm(2,1,3)] sm assms(3,4) show ?thesis
    by (auto simp: sem_live_def sem_count_def sint_succ)
qed

lemma sem_init_live:
  assumes "sem_init p l s = (OS_NO_ERR, s')"
  shows "sem_live p s' \<and> sem_count p s' = sint l \<and>
         (\<forall>q. q \<noteq> p \<longrightarrow> sem_live q s' = sem_live q s \<and> sem_count q s' = sem_count q s)"
  using assms by (auto simp: sem_init_def sem_live_def sem_count_def Let_def split: if_splits prod.splits)

section \<open>Making and unmaking\<close>


lemma sem_destroy_empty:
  assumes "p \<noteq> NULL" "sems s p = Some sm" "sem_initialized sm = 1"
    and "sched_pop (sem_waiting sm) (sched s) = Ok (NULL, OS_NO_ERR, sched s)"
  shows "sem_destroy c p s = Ok (OS_NO_ERR, s\<lparr>sems := (sems s)(p \<mapsto> sm\<lparr>sem_initialized := 0\<rparr>)\<rparr>)"
  using assms
  by (simp add: sem_destroy_def set_sem_def store_simps, subst while_do_unfold)
     (simp add: sem_release_one_def store_simps)

text \<open>A semaphore made just before another one could not be made is destroyed without an error.\<close>

lemma sem_destroy_fresh:
  assumes "sem_init p l s = (OS_NO_ERR, s1)" "sem_init p' l' s1 = (OS_ERR_MALLOC, s2)" "p \<noteq> p'"
  shows "\<exists>s3. sem_destroy c p s2 = Ok (OS_NO_ERR, s3)"
proof -
  from assms(1) obtain q k where q: "p \<noteq> NULL" "sched_create_queue (sched s) = (q, OS_NO_ERR, k)"
    "s1 = s\<lparr>sched := k, sems := (sems s)(p \<mapsto> \<lparr>sem_waiting = q, sem_level = l, sem_initialized = 1\<rparr>)\<rparr>"
    by (auto simp: sem_init_def Let_def split: if_splits prod.splits)
  have k: "q \<noteq> NULL" "queues (kq k) q = Some \<lparr>head = NULL, tail = NULL, kq_size = 0\<rparr>"
    using q(2) by (auto simp: sched_create_queue_def kernel_queue_create_queue_def Let_def split: prod.splits if_splits)
  from assms(2,3) obtain h where h: "sched s2 = k\<lparr>kq := (kq k)\<lparr>heap := h\<rparr>\<rparr>" "sems s2 p = sems s1 p"
    by (auto simp: sem_init_def sched_create_queue_def kernel_queue_create_queue_def Let_def q(3)
        split: prod.splits if_splits)
  have "sched_pop q (sched s2) = Ok (NULL, OS_NO_ERR, sched s2)"
    using h(1) k by (simp add: sched_pop_def kernel_queue_pop_def deref_def)
  then show ?thesis using sem_destroy_empty [of p s2] q(1,3) h(2) by simp
qed

section \<open>Properties\<close>

text \<open>C3. A semaphore never lets through more pends than its initial level plus the posts: in every
  history from an initial level that is not negative, on any number of CPUs, the level is exactly the initial level plus the successful posts
  minus the acquisitions, and never negative (as long as that sum fits in the 31 bits of the level).\<close>

theorem sem_level_conserved:
  assumes "sem_history p i po ac s" "i + po < 2 ^ 31"
  shows "\<exists>sm. sems s p = Some sm \<and> sint (sem_level sm) = int (i + po) - int ac \<and>
           0 \<le> sint (sem_level sm) \<and> ac \<le> i + po"
  using sem_history_level [OF assms] by auto

text \<open>A state with an initialised heap and no queue yet.\<close>

definition ex_boot :: sem_state where
  "ex_boot =
     \<lparr>sched = ex_sched\<lparr>kq := \<lparr>heap = snd (kheap_init 0x100000 0x101000 blank_heap),
                             nodes = Map.empty, queues = Map.empty\<rparr>\<rparr>,
      sems = Map.empty\<rparr>"

lemma ex_boot_runs:
  "case sem_init 0x2000 (of_nat 2) ex_boot of (e, s) \<Rightarrow> e = OS_NO_ERR \<and>
     (case sem_pend 0 0x2000 s of Ok (r, s1) \<Rightarrow> r = Returned OS_NO_ERR \<and>
        (case sem_pend 1 0x2000 s1 of Ok (r, s2) \<Rightarrow> r = Returned OS_NO_ERR \<and>
           (case sem_post 0 0x2000 s2 of Ok (r, s3) \<Rightarrow> r = Returned OS_NO_ERR | _ \<Rightarrow> False) | _ \<Rightarrow> False) | _ \<Rightarrow> False)"
  by code_simp

text \<open>A semaphore of level 2, two pends on two CPUs and a post.\<close>

theorem sem_level_conserved_witness:
  "\<exists>s sm. sem_history 0x2000 2 1 2 s \<and> sems s 0x2000 = Some sm \<and> sint (sem_level sm) = 1"
proof -
  obtain e s where i: "sem_init 0x2000 (of_nat 2) ex_boot = (e, s)" by fastforce
  from ex_boot_runs obtain s1 s2 s3 where e: "e = OS_NO_ERR" and p1: "sem_pend 0 0x2000 s = Ok (Returned OS_NO_ERR, s1)"
    and p2: "sem_pend 1 0x2000 s1 = Ok (Returned OS_NO_ERR, s2)" and p3: "sem_post 0 0x2000 s2 = Ok (Returned OS_NO_ERR, s3)"
    unfolding returns_test i prod.case by (elim exE conjE, hypsubst) (rule that)
  have "sem_history 0x2000 2 0 0 s" using i e by (intro sem_history.init [of _ _ ex_boot]) simp
  from sem_history.post [OF sem_history.pend [OF sem_history.pend [OF this p1] p2] p3]
  have h: "sem_history 0x2000 2 1 2 s3" by (simp add: numeral_2_eq_2)
  from sem_level_conserved [OF h] h show ?thesis by auto
qed

section \<open>Properties of waiting\<close>

text \<open>Threads waiting on a semaphore are woken first come, first served: a post on an initialised
  semaphore with waiting threads raises the level by one and makes exactly the thread that has waited
  longest ready, on its own CPU and at its own priority; with interrupts enabled it returns to the
  caller. With no waiting thread it only raises the level.\<close>

theorem sem_post_wakes_oldest:
  assumes "sems s p = Some sm" "p \<noteq> NULL" "sem_initialized sm = 1"
    and "0 \<le> sint (sem_level sm)" "sint (sem_level sm) + 1 < 2 ^ 31"
    and "kq_rel (kq (sched s)) L" "tables_ok (sched s) L"
    and "L (sem_waiting sm) = Some xs" "\<forall>n \<in> set xs. parked THREAD_WAIT_TYPE_SEM (sched s) n"
    and "\<forall>c < MAX_CPU_COUNT. \<forall>i \<le> unat KERNEL_LOWEST_PRIORITY.
           active_threads_table (sched s) c i \<noteq> sem_waiting sm"
    and "0 < kernel_interrupt_get_state (ints (time (sched s)))"
  shows "\<exists>s'. sem_post cpu p s = Ok (Returned OS_NO_ERR, s') \<and>
           sems s' = (sems s)(p \<mapsto> sm\<lparr>sem_level := sem_level sm + 1\<rparr>) \<and>
           (if xs = [] then sched s' = sched s
            else \<exists>t ys. thread_at (sched s) (last xs) = Some t \<and> L (home_queue (sched s) t) = Some ys \<and>
                   kq_rel (kq (sched s')) (L(sem_waiting sm \<mapsto> butlast xs,
                                              home_queue (sched s) t \<mapsto> last xs # ys)) \<and>
                   thread_at (sched s') (last xs) = Some (t\<lparr>th_state := THREAD_STATE_READY\<rparr>))"
proof -
  let ?s1 = "s\<lparr>sems := (sems s)(p \<mapsto> sm\<lparr>sem_level := sem_level sm + 1\<rparr>)\<rparr>"
  have pos: "sint (sem_level sm + 1) > 0" using sint_succ [OF assms(4,5)] assms(4) by simp
  show ?thesis
  proof (cases "xs = []")
    case True
    with kq_pop_empty [OF assms(6)] assms(8)
    have "sched_pop (sem_waiting sm) (sched s) = Ok (NULL, OS_NO_ERR, sched s)"
      by (simp add: sched_pop_def)
    then have "sem_post cpu p s = Ok (Returned OS_NO_ERR, ?s1)"
      using assms(1-3) pos by (simp add: sem_post_def store_simps set_sem_def Let_def)
    then show ?thesis using True by (intro exI [of _ ?s1]) simp
  next
    case False
    then have W: "L (sem_waiting sm) = Some (butlast xs @ [last xs])" using assms(8) by simp
    have pk: "parked THREAD_WAIT_TYPE_SEM (sched s) (last xs)" using assms(9) False by simp
    have sep: "\<forall>c < MAX_CPU_COUNT. \<forall>i < levels. active_threads_table (sched s) c i \<noteq> sem_waiting sm"
      using assms(10) by (simp add: less_Suc_eq_le)
    from pop_unlock_step [OF assms(6,7) W pk sep, where c = cpu] obtain k s' t ys where u:
      "sched_pop (sem_waiting sm) (sched s) = Ok (last xs, OS_NO_ERR, (sched s)\<lparr>kq := k\<rparr>)" "last xs \<noteq> NULL"
      "sched_unlock_ready cpu (last xs) THREAD_WAIT_TYPE_SEM ((sched s)\<lparr>kq := k\<rparr>) = Ok (OS_NO_ERR, s')"
      "thread_at (sched s) (last xs) = Some t" "L (home_queue (sched s) t) = Some ys"
      "kq_rel (kq s') (L(sem_waiting sm \<mapsto> butlast xs, home_queue (sched s) t \<mapsto> last xs # ys))"
      "thread_at s' (last xs) = Some (t\<lparr>th_state := THREAD_STATE_READY\<rparr>)" by metis
    have "sem_post cpu p s = Ok (Returned OS_NO_ERR, ?s1\<lparr>sched := s'\<rparr>)"
      using assms(1-3,11) pos u(1-3)
      by (simp add: sem_post_def store_simps set_sem_def Let_def on_sched_def sched_unlock_thread_def)
    then show ?thesis using False u(4-7) by (intro exI [of _ "?s1\<lparr>sched := s'\<rparr>"]) auto
  qed
qed

theorem sem_post_wakes_oldest_witness:
  "\<exists>s'. sem_post 0 0x2000 \<lparr>sched = ex_sched,
          sems = [0x2000 \<mapsto> \<lparr>sem_waiting = 0x1040, sem_level = 0, sem_initialized = 1\<rparr>]\<rparr> =
        Ok (Returned OS_NO_ERR, s')"
proof -
  let ?sm = "\<lparr>sem_waiting = 0x1040, sem_level = 0, sem_initialized = 1\<rparr>"
  let ?s = "\<lparr>sched = ex_sched, sems = [0x2000 \<mapsto> ?sm]\<rparr>"
  have w: "ex_lists 0x1040 = Some []" by (simp add: ex_lists_def ex_queues_def)
  have sep: "\<forall>c < MAX_CPU_COUNT. \<forall>i \<le> unat KERNEL_LOWEST_PRIORITY. active_threads_table ex_sched c i \<noteq> 0x1040"
    using ex_ready_queue by (auto simp: ex_sched_def less_Suc_eq_le [symmetric])
  have ie: "0 < kernel_interrupt_get_state (ints (time ex_sched))"
    by (simp add: ex_sched_def time_example_def blank_ints_def kernel_interrupt_get_state_def
        cpu_get_interrupt_state_def)
  from sem_post_wakes_oldest [of ?s "0x2000" ?sm ex_lists "[]" 0] ex_lists_rel ex_tables w sep ie
  show ?thesis by auto
qed

text \<open>A pend on a semaphore whose level is positive takes one unit and touches nothing else; on a
  level of 0 the calling thread is parked, its node becomes the newest of the semaphore's waiting
  queue, and the scheduler is called.\<close>

theorem sem_pend_behaviour:
  assumes "sems s p = Some sm" "p \<noteq> NULL" "sem_initialized sm = 1"
    and "kq_rel (kq (sched s)) L" "L (sem_waiting sm) = Some xs" "running_node cpu (sched s) L n t"
    and "\<forall>c. idle_thread (sched s) c \<noteq> active_thread (sched s) cpu"
    and "unat (cpu_affinity t) < MAX_CPU_COUNT"
  shows "if 1 \<le> sint (sem_level sm)
         then sem_pend cpu p s = Ok (Returned OS_NO_ERR,
                s\<lparr>sems := (sems s)(p \<mapsto> sm\<lparr>sem_level := sem_level sm - 1\<rparr>)\<rparr>)
         else \<exists>k. sem_pend cpu p s =
                    andthen (sched_schedule cpu k) (\<lambda>k'. Ok (Switched, s\<lparr>sched := k'\<rparr>)) \<and>
                  kq_rel (kq k) (L(sem_waiting sm \<mapsto> n # xs)) \<and> parked THREAD_WAIT_TYPE_SEM k n"
proof (cases "1 \<le> sint (sem_level sm)")
  case True
  then show ?thesis using assms(1-3)
    by (simp add: sem_pend_def sem_pend_resume_def store_simps set_sem_def)
next
  case False
  from lock_step [OF assms(4,6-8), of THREAD_WAIT_TYPE_SEM] obtain s1 where s1:
    "sched_lock_thread cpu THREAD_WAIT_TYPE_SEM (sched s) = Ok (n, s1)" "parked THREAD_WAIT_TYPE_SEM s1 n"
    "kq s1 = kq (sched s)" .
  from running_nodeE [OF assms(6,4)] obtain nd where nd: "nodes (kq (sched s)) n = Some nd" "enlisted nd = 0"
    by metis
  then have n0: "n \<noteq> NULL" using assms(4) by (auto simp: kq_rel_def)
  from kq_push_step [OF assms(4,5) nd] obtain k where k:
    "kernel_queue_push n (sem_waiting sm) (kq (sched s)) = Ok (OS_NO_ERR, k)"
    "kq_rel k (L(sem_waiting sm \<mapsto> n # xs))" "kq_frame (kq (sched s)) k" by metis
  have "sem_pend cpu p s = andthen (sched_schedule cpu (s1\<lparr>kq := k\<rparr>)) (\<lambda>k'. Ok (Switched, s\<lparr>sched := k'\<rparr>))"
    using False assms(1-3) s1(1,3) k(1) n0
    by (simp add: sem_pend_def sem_pend_resume_def store_simps on_sched_def on_kq_def)
  moreover have "parked THREAD_WAIT_TYPE_SEM (s1\<lparr>kq := k\<rparr>) n"
    by (rule pop_keeps_parked [OF s1(2)]) (simp add: s1(3) k(3))
  ultimately have "\<exists>k. sem_pend cpu p s = andthen (sched_schedule cpu k) (\<lambda>k'. Ok (Switched, s\<lparr>sched := k'\<rparr>)) \<and>
      kq_rel (kq k) (L(sem_waiting sm \<mapsto> n # xs)) \<and> parked THREAD_WAIT_TYPE_SEM k n"
    using k(2) by (intro exI [of _ "s1\<lparr>kq := k\<rparr>"]) simp
  then show ?thesis using False by (simp only: if_False)
qed


theorem sem_pend_behaviour_witness:
  "\<exists>k. sem_pend 0 0x2000 \<lparr>sched = ex_sched,
          sems = [0x2000 \<mapsto> \<lparr>sem_waiting = 0x1040, sem_level = 0, sem_initialized = 1\<rparr>]\<rparr> =
        andthen (sched_schedule 0 k) (\<lambda>k'. Ok (Switched, \<lparr>sched = k',
          sems = [0x2000 \<mapsto> \<lparr>sem_waiting = 0x1040, sem_level = 0, sem_initialized = 1\<rparr>]\<rparr>)) \<and>
        kq_rel (kq k) (ex_lists(0x1040 \<mapsto> [0x10])) \<and> parked THREAD_WAIT_TYPE_SEM k 0x10"
proof -
  let ?sm = "\<lparr>sem_waiting = 0x1040, sem_level = 0, sem_initialized = 1\<rparr>"
  let ?s = "\<lparr>sched = ex_sched, sems = [0x2000 \<mapsto> ?sm]\<rparr>"
  have w: "ex_lists 0x1040 = Some []" by (simp add: ex_lists_def ex_queues_def)
  have i: "\<forall>c. idle_thread ex_sched c \<noteq> active_thread ex_sched 0" "unat (cpu_affinity ex_thread) < MAX_CPU_COUNT"
    by (simp_all add: ex_sched_def ex_thread_def zero_thread_def MAX_CPU_COUNT_def)
  from sem_pend_behaviour [of ?s "0x2000" ?sm ex_lists "[]" 0 "0x10" ex_thread] ex_lists_rel w ex_running i
  show ?thesis by simp
qed

end
