(* ===== verification/Mutex.thy ===== *)
theory Mutex
  imports Blocking
begin

unbundle bit_operations_syntax

text \<open>
  The mutexes, \<^verbatim>\<open>Sources/sync/mutex.c\<close>, on top of the scheduler: recursion, priority elevation of the
  holder, and its restoration by the post. \<open>mutex_pend\<close> is cut at its \<^verbatim>\<open>sched_schedule\<close>;
  \<open>mutex_pend_resume\<close> is the loop test that runs when the thread is elected again.
\<close>

section \<open>State\<close>

record mutex_t =
  mutex_waiting :: ptr
  mutex_lock_state :: u32
  mutex_flags :: u32
  acquired_thread_priority :: u32
  locker_tid :: u32
  mutex_initialized :: u32

record mutex_state =
  m_sched :: sched_state
  mutexes :: "ptr \<rightharpoonup> mutex_t"

definition MUTEX_FLAG_NONE :: u32 where "MUTEX_FLAG_NONE = 0"
definition MUTEX_FLAG_RECURSIVE :: u32 where "MUTEX_FLAG_RECURSIVE = 1"
definition MUTEX_PRIORITY_ELEVATION_NONE :: u32 where "MUTEX_PRIORITY_ELEVATION_NONE = 0xFFFF"

definition on_msched ::
    "(sched_state \<Rightarrow> ('a \<times> sched_state) outcome) \<Rightarrow> mutex_state \<Rightarrow> ('a \<times> mutex_state) outcome" where
  "on_msched f s = andthen (f (m_sched s)) (\<lambda>(r, k). Ok (r, s\<lparr>m_sched := k\<rparr>))"

definition set_mutex :: "ptr \<Rightarrow> (mutex_t \<Rightarrow> mutex_t) \<Rightarrow> mutex_state \<Rightarrow> mutex_state outcome" where
  "set_mutex p f s = andthen (modify (mutexes s) p f) (\<lambda>m. Ok (s\<lparr>mutexes := m\<rparr>))"

section \<open>Operations\<close>

definition mutex_init :: "ptr \<Rightarrow> u32 \<Rightarrow> 16 word \<Rightarrow> mutex_state \<Rightarrow> (OS_RETURN_E \<times> mutex_state)" where
  "mutex_init mutex flags prio s =
     (if mutex = NULL then (OS_ERR_NULL_POINTER, s)
      else if ucast prio > KERNEL_LOWEST_PRIORITY \<and> ucast prio \<noteq> MUTEX_PRIORITY_ELEVATION_NONE
      then (OS_ERR_FORBIDEN_PRIORITY, s)
      else
        let (q, err, k) = sched_create_queue (m_sched s);
            s = s\<lparr>m_sched := k, mutexes := (mutexes s)(mutex \<mapsto>
                  \<lparr>mutex_waiting = q, mutex_lock_state = 1,
                   mutex_flags = flags OR push_bit 8 (ucast prio),
                   acquired_thread_priority = 0, locker_tid = 0,
                   mutex_initialized = (if err = OS_NO_ERR then 1 else 0)\<rparr>)\<rparr>
        in (err, s))"

text \<open>One pass of the loop of \<^verbatim>\<open>mutex_destroy\<close>.\<close>

definition mutex_release_one :: "nat \<Rightarrow> ptr \<Rightarrow> mutex_state \<Rightarrow> (bool \<times> mutex_state) outcome" where
  "mutex_release_one cpu_id mutex s =
     andthen (deref (mutexes s) mutex) (\<lambda>mx.
     andthen (sched_pop (mutex_waiting mx) (m_sched s)) (\<lambda>(node, err, k).
     let s = s\<lparr>m_sched := k\<rparr>
     in if node = NULL then (if err \<noteq> OS_NO_ERR then Panic err else Ok (False, s))
        else if err \<noteq> OS_NO_ERR then Panic err
        else or_panic (on_msched (sched_unlock_ready cpu_id node THREAD_WAIT_TYPE_MUTEX) s) (\<lambda>s. Ok (True, s))))"

definition mutex_destroy :: "nat \<Rightarrow> ptr \<Rightarrow> mutex_state \<Rightarrow> (OS_RETURN_E \<times> mutex_state) outcome" where
  "mutex_destroy cpu_id mutex s =
     (if mutex = NULL then Ok (OS_ERR_NULL_POINTER, s)
      else andthen (deref (mutexes s) mutex) (\<lambda>mx.
        if mutex_initialized mx \<noteq> 1 then Ok (OS_ERR_MUTEX_UNINITIALIZED, s)
        else andthen (while_do (mutex_release_one cpu_id mutex) s) (\<lambda>s.
             andthen (deref (mutexes s) mutex) (\<lambda>mx.
             andthen (kernel_queue_delete_queue (mutex_waiting mx) (kq (m_sched s))) (\<lambda>(_, q, k).
             andthen (set_mutex mutex (\<lambda>x. x\<lparr>mutex_waiting := q, mutex_initialized := 0\<rparr>)
                       (s\<lparr>m_sched := (m_sched s)\<lparr>kq := k\<rparr>\<rparr>)) (\<lambda>s.
             Ok (OS_NO_ERR, s)))))))"

definition mutex_prio :: "mutex_t \<Rightarrow> u32" where
  "mutex_prio mx = drop_bit 8 (mutex_flags mx) AND MUTEX_PRIORITY_ELEVATION_NONE"

text \<open>The end of \<^verbatim>\<open>mutex_pend\<close>, after its loop: the mutex is taken and the priority of the holder raised.\<close>

definition mutex_acquire :: "nat \<Rightarrow> ptr \<Rightarrow> mutex_state \<Rightarrow> (OS_RETURN_E call \<times> mutex_state) outcome" where
  "mutex_acquire cpu_id mutex s =
     andthen (sched_get_tid cpu_id (m_sched s)) (\<lambda>me.
     andthen (set_mutex mutex (\<lambda>x. x\<lparr>mutex_lock_state := 0, locker_tid := me\<rparr>) s) (\<lambda>s.
     andthen (deref (mutexes s) mutex) (\<lambda>mx.
     if mutex_prio mx \<noteq> MUTEX_PRIORITY_ELEVATION_NONE
     then andthen (sched_get_priority cpu_id (m_sched s)) (\<lambda>old.
          andthen (set_mutex mutex (\<lambda>x. x\<lparr>acquired_thread_priority := old\<rparr>) s) (\<lambda>s.
          or_panic (on_msched (sched_set_priority cpu_id (drop_bit 8 (mutex_prio mx))) s) (\<lambda>s.
          Ok (Returned OS_NO_ERR, s))))
     else Ok (Returned OS_NO_ERR, s))))"

definition mutex_block :: "nat \<Rightarrow> ptr \<Rightarrow> mutex_state \<Rightarrow> (OS_RETURN_E call \<times> mutex_state) outcome" where
  "mutex_block cpu_id mutex s =
     andthen (deref (mutexes s) mutex) (\<lambda>mx.
     andthen (on_msched (sched_lock_thread cpu_id THREAD_WAIT_TYPE_MUTEX) s) (\<lambda>(node, s).
     if node = NULL then Panic OS_ERR_NULL_POINTER
     else or_panic (on_msched (on_kq (kernel_queue_push node (mutex_waiting mx))) s) (\<lambda>s.
          andthen (sched_schedule cpu_id (m_sched s)) (\<lambda>k. Ok (Switched, s\<lparr>m_sched := k\<rparr>)))))"

definition mutex_pend_resume :: "nat \<Rightarrow> ptr \<Rightarrow> mutex_state \<Rightarrow> (OS_RETURN_E call \<times> mutex_state) outcome" where
  "mutex_pend_resume cpu_id mutex s =
     andthen (deref (mutexes s) mutex) (\<lambda>mx.
     if mutex_initialized mx = 1 \<and> mutex_lock_state mx \<noteq> 1
     then if mutex_flags mx AND MUTEX_FLAG_RECURSIVE \<noteq> 0
          then andthen (sched_get_tid cpu_id (m_sched s)) (\<lambda>me.
               if me = locker_tid mx then mutex_acquire cpu_id mutex s else mutex_block cpu_id mutex s)
          else mutex_block cpu_id mutex s
     else if mutex_initialized mx \<noteq> 1 then Ok (Returned OS_ERR_MUTEX_UNINITIALIZED, s)
     else mutex_acquire cpu_id mutex s)"

definition mutex_pend :: "nat \<Rightarrow> ptr \<Rightarrow> mutex_state \<Rightarrow> (OS_RETURN_E call \<times> mutex_state) outcome" where
  "mutex_pend cpu_id mutex s =
     (if mutex = NULL then Ok (Returned OS_ERR_NULL_POINTER, s)
      else andthen (deref (mutexes s) mutex) (\<lambda>mx.
        if mutex_initialized mx \<noteq> 1 then Ok (Returned OS_ERR_MUTEX_UNINITIALIZED, s)
        else mutex_pend_resume cpu_id mutex s))"

text \<open>The first half of \<^verbatim>\<open>mutex_post\<close>: the mutex is freed and the priority of the caller restored; the
  boolean is \<^verbatim>\<open>do_sched\<close>.\<close>

definition mutex_release :: "nat \<Rightarrow> ptr \<Rightarrow> mutex_state \<Rightarrow> (bool \<times> mutex_state) outcome" where
  "mutex_release cpu_id mutex s =
     andthen (set_mutex mutex (\<lambda>x. x\<lparr>mutex_lock_state := 1\<rparr>) s) (\<lambda>s.
     andthen (deref (mutexes s) mutex) (\<lambda>mx.
     if mutex_prio mx \<noteq> MUTEX_PRIORITY_ELEVATION_NONE
     then or_panic (on_msched (sched_set_priority cpu_id (acquired_thread_priority mx)) s) (\<lambda>s.
          andthen (set_mutex mutex (\<lambda>x. x\<lparr>acquired_thread_priority := KERNEL_LOWEST_PRIORITY\<rparr>) s) (\<lambda>s.
          Ok (True, s)))
     else Ok (False, s)))"

definition mutex_post :: "nat \<Rightarrow> ptr \<Rightarrow> mutex_state \<Rightarrow> (OS_RETURN_E call \<times> mutex_state) outcome" where
  "mutex_post cpu_id mutex s =
     (if mutex = NULL then Ok (Returned OS_ERR_NULL_POINTER, s)
      else andthen (deref (mutexes s) mutex) (\<lambda>mx.
        if mutex_initialized mx \<noteq> 1 then Ok (Returned OS_ERR_MUTEX_UNINITIALIZED, s)
        else andthen (mutex_release cpu_id mutex s) (\<lambda>(do_sched, s).
             andthen (sched_pop (mutex_waiting mx) (m_sched s)) (\<lambda>(node, err, k).
             let s = s\<lparr>m_sched := k\<rparr>
             in if node \<noteq> NULL
                then if err \<noteq> OS_NO_ERR then Panic err
                     else andthen (on_msched (sched_unlock_thread cpu_id node THREAD_WAIT_TYPE_MUTEX True) s) (\<lambda>(r, s).
                          case r of
                            Returned e \<Rightarrow> if e \<noteq> OS_NO_ERR then Panic e else Ok (Returned OS_NO_ERR, s)
                          | Yielded e \<Rightarrow> Ok (Yielded OS_NO_ERR, s)
                          | Switched \<Rightarrow> Ok (Switched, s))
                else if err \<noteq> OS_NO_ERR then Panic err
                else if do_sched
                then andthen (sched_schedule cpu_id (m_sched s)) (\<lambda>k. Ok (Yielded OS_NO_ERR, s\<lparr>m_sched := k\<rparr>))
                else Ok (Returned OS_NO_ERR, s)))))"

text \<open>The result carries the value stored in \<^verbatim>\<open>*value\<close>, if any.\<close>

definition mutex_try_pend :: "ptr \<Rightarrow> bool \<Rightarrow> mutex_state \<Rightarrow> (OS_RETURN_E \<times> u32 option \<times> mutex_state) outcome" where
  "mutex_try_pend mutex value_null s =
     (if mutex = NULL \<or> value_null then Ok (OS_ERR_NULL_POINTER, None, s)
      else andthen (deref (mutexes s) mutex) (\<lambda>mx.
        if mutex_initialized mx \<noteq> 1 then Ok (OS_ERR_MUTEX_UNINITIALIZED, None, s)
        else if mutex_lock_state mx \<noteq> 1 then Ok (OS_MUTEX_LOCKED, Some (mutex_lock_state mx), s)
        else andthen (set_mutex mutex (\<lambda>x. x\<lparr>mutex_lock_state := 0\<rparr>) s) (\<lambda>s.
             Ok (OS_NO_ERR, None, s))))"

section \<open>The lock\<close>

lemma on_msched_mutexes: "on_msched f s = Ok (r, s') \<Longrightarrow> mutexes s' = mutexes s"
  by (auto simp: on_msched_def outcome_simps)

text \<open>What acquiring and releasing do to the mutex itself: \<open>lock_written v p s s'\<close> when the state of the
  mutex at \<open>p\<close> becomes \<open>v\<close> and its flags and initialisation are kept.\<close>

definition lock_written :: "u32 \<Rightarrow> ptr \<Rightarrow> mutex_state \<Rightarrow> mutex_state \<Rightarrow> bool" where
  "lock_written v p s s' \<longleftrightarrow>
     (\<exists>mx mx'. mutexes s p = Some mx \<and> mutexes s' p = Some mx' \<and> mutex_lock_state mx' = v \<and>
        mutex_flags mx' = mutex_flags mx \<and> mutex_initialized mx' = mutex_initialized mx)"

lemma mutex_acquire_lock:
  assumes "mutex_acquire c p s = Ok (r, s')"
  shows "r = Returned OS_NO_ERR \<and> lock_written 0 p s s' \<and>
         (\<exists>me mx'. sched_get_tid c (m_sched s) = Ok me \<and> mutexes s' p = Some mx' \<and> locker_tid mx' = me)"
proof -
  obtain me mx where me: "sched_get_tid c (m_sched s) = Ok me" "mutexes s p = Some mx"
    using assms by (auto simp: mutex_acquire_def set_mutex_def andthen_eq_Ok modify_eq_Ok)
  let ?mx = "mx\<lparr>mutex_lock_state := 0, locker_tid := me\<rparr>"
  have pr: "mutex_prio ?mx = mutex_prio mx" by (simp add: mutex_prio_def)
  have "r = Returned OS_NO_ERR \<and>
     (\<exists>old. mutexes s' p = Some (?mx\<lparr>acquired_thread_priority := old\<rparr>) \<or> mutexes s' p = Some ?mx)"
  proof (cases "mutex_prio mx = MUTEX_PRIORITY_ELEVATION_NONE")
    case True
    then show ?thesis using assms me pr by (auto simp: mutex_acquire_def set_mutex_def deref_def modify_def)
  next
    case False
    then obtain old s1 where "on_msched (sched_set_priority c (drop_bit 8 (mutex_prio mx)))
        (s\<lparr>mutexes := (mutexes s)(p \<mapsto> ?mx\<lparr>acquired_thread_priority := old\<rparr>)\<rparr>) = Ok (OS_NO_ERR, s')"
      "r = Returned OS_NO_ERR"
      using assms me pr
      by (auto simp: mutex_acquire_def set_mutex_def deref_def modify_def andthen_eq_Ok or_panic_eq_Ok)
    then show ?thesis by (auto dest!: on_msched_mutexes)
  qed
  then show ?thesis using me by (auto simp: lock_written_def)
qed

lemma mutex_block_lock:
  assumes "mutex_block c p s = Ok (r, s')"
  shows "r = Switched \<and> mutexes s' = mutexes s"
  using assms
  by (auto simp: mutex_block_def andthen_eq_Ok or_panic_eq_Ok split: if_splits dest!: on_msched_mutexes)

text \<open>A pend acquires the mutex only when it is free or, if it is recursive, when the caller is the
  recorded locker.\<close>

lemma mutex_pend_resume_lock:
  assumes "mutex_pend_resume c p s = Ok (r, s')"
  shows "if r = Returned OS_NO_ERR
         then lock_written 0 p s s' \<and>
              (\<exists>mx. mutexes s p = Some mx \<and>
                (mutex_lock_state mx = 1 \<or>
                 mutex_flags mx AND MUTEX_FLAG_RECURSIVE \<noteq> 0 \<and>
                 sched_get_tid c (m_sched s) = Ok (locker_tid mx)))
         else mutexes s' = mutexes s"
proof -
  obtain mx where mx: "mutexes s p = Some mx"
    using assms by (auto simp: mutex_pend_resume_def outcome_simps)
  have "mutex_acquire c p s = Ok (r, s') \<and> (mutex_lock_state mx = 1 \<or>
          mutex_flags mx AND MUTEX_FLAG_RECURSIVE \<noteq> 0 \<and> sched_get_tid c (m_sched s) = Ok (locker_tid mx)) \<or>
        mutex_block c p s = Ok (r, s') \<or> r = Returned OS_ERR_MUTEX_UNINITIALIZED \<and> s' = s"
    using assms mx by (auto simp: mutex_pend_resume_def deref_def andthen_eq_Ok split: if_splits)
  then show ?thesis using mx by (auto dest: mutex_acquire_lock mutex_block_lock)
qed

lemma mutex_pend_lock:
  assumes "mutex_pend c p s = Ok (r, s')"
  shows "mutex_pend_resume c p s = Ok (r, s') \<or> r \<noteq> Returned OS_NO_ERR \<and> s' = s"
  using assms by (auto simp: mutex_pend_def andthen_eq_Ok split: if_splits)

lemma mutex_try_pend_lock:
  assumes "mutex_try_pend p b s = Ok (e, v, s')"
  shows "if e = OS_NO_ERR
         then lock_written 0 p s s' \<and> (\<exists>mx. mutexes s p = Some mx \<and> mutex_lock_state mx = 1)
         else mutexes s' = mutexes s"
  using assms
  by (auto simp: mutex_try_pend_def set_mutex_def andthen_eq_Ok deref_eq_Ok modify_eq_Ok lock_written_def
      split: if_splits)

lemma mutex_release_lock: "mutex_release c p s = Ok (d, s') \<Longrightarrow> lock_written 1 p s s'"
  by (auto simp: mutex_release_def set_mutex_def andthen_eq_Ok deref_eq_Ok modify_eq_Ok or_panic_eq_Ok
      lock_written_def split: if_splits dest!: on_msched_mutexes)

lemma mutex_post_lock:
  assumes "mutex_post c p s = Ok (r, s')"
  shows "if r = Returned OS_NO_ERR \<or> r = Yielded OS_NO_ERR then lock_written 1 p s s' else mutexes s' = mutexes s"
proof (cases "p = NULL \<or> (\<exists>mx. mutexes s p = Some mx \<and> mutex_initialized mx \<noteq> 1)")
  case True
  then have "s' = s \<and> r \<noteq> Returned OS_NO_ERR \<and> r \<noteq> Yielded OS_NO_ERR"
    using assms by (cases "p = NULL") (auto simp: mutex_post_def deref_def)
  then show ?thesis by simp
next
  case False
  then obtain mx d s1 n err k where s1: "mutexes s p = Some mx" "p \<noteq> NULL" "mutex_initialized mx = 1"
    "mutex_release c p s = Ok (d, s1)" "sched_pop (mutex_waiting mx) (m_sched s1) = Ok (n, err, k)"
    using assms by (auto simp: mutex_post_def andthen_eq_Ok deref_eq_Ok split: if_splits)
  have "mutexes s' = mutexes s1 \<and> (r = Returned OS_NO_ERR \<or> r = Yielded OS_NO_ERR)"
  proof (cases "n = NULL")
    case True
    then show ?thesis using assms s1
      by (auto simp: mutex_post_def deref_def Let_def andthen_eq_Ok split: if_splits)
  next
    case nn: False
    then obtain x t where x:
      "on_msched (sched_unlock_thread c n THREAD_WAIT_TYPE_MUTEX True) (s1\<lparr>m_sched := k\<rparr>) = Ok (x, t)"
      using assms s1 by (auto simp: mutex_post_def deref_def Let_def andthen_eq_Ok split: if_splits)
    have "x \<noteq> Switched"
      using x by (auto simp: on_msched_def sched_unlock_thread_def andthen_eq_Ok split: if_splits)
    then show ?thesis using assms s1 nn x on_msched_mutexes [OF x]
      by (cases x) (auto simp: mutex_post_def deref_def Let_def split: if_splits)
  qed
  then show ?thesis using mutex_release_lock [OF s1(4)] by (auto simp: lock_written_def)
qed

lemma mutex_release_one_mutexes:
  assumes "mutex_release_one c p s = Ok (m, s')"
  shows "mutexes s' = mutexes s"
  using assms
  by (auto simp: mutex_release_one_def outcome_simps Let_def split: if_splits dest!: on_msched_mutexes)

lemma mutex_destroy_lock:
  assumes "mutex_destroy c p s = Ok (e, s')" "mutexes s p = Some mx"
  shows "\<exists>mx'. mutexes s' p = Some mx' \<and> mutex_lock_state mx' = mutex_lock_state mx \<and> mutex_flags mx' = mutex_flags mx"
proof -
  have "s' = s \<or> (\<exists>s1. while_do (mutex_release_one c p) s = Ok s1 \<and>
      (\<exists>mx1 q. mutexes s1 p = Some mx1 \<and>
         mutexes s' = (mutexes s1)(p \<mapsto> mx1\<lparr>mutex_waiting := q, mutex_initialized := 0\<rparr>)))"
    using assms by (auto simp: mutex_destroy_def set_mutex_def deref_eq_Ok modify_eq_Ok andthen_eq_Ok split: if_splits)
  then show ?thesis
  proof
    assume "\<exists>s1. while_do (mutex_release_one c p) s = Ok s1 \<and>
      (\<exists>mx1 q. mutexes s1 p = Some mx1 \<and>
         mutexes s' = (mutexes s1)(p \<mapsto> mx1\<lparr>mutex_waiting := q, mutex_initialized := 0\<rparr>))"
    then obtain s1 mx1 q where s1: "while_do (mutex_release_one c p) s = Ok s1" "mutexes s1 p = Some mx1"
      "mutexes s' = (mutexes s1)(p \<mapsto> mx1\<lparr>mutex_waiting := q, mutex_initialized := 0\<rparr>)" by blast
    have "mutexes s1 = mutexes s"
      by (rule while_do_keeps [OF s1(1), of "\<lambda>t. mutexes t = mutexes s"]) (use mutex_release_one_mutexes in auto)
    then show ?thesis using s1(2,3) assms(2) by simp
  qed (use assms(2) in simp)
qed

text \<open>The histories of one mutex, initialised with the flags \<open>fl\<close> and the priority \<open>pr\<close>: pends, tries,
  posts and destructions in any order on any CPU, interleaved with activity that does not write the
  mutex. The trace lists the events, the newest first.\<close>

datatype lock_event = Acquired | Released

inductive mutex_history :: "ptr \<Rightarrow> u32 \<Rightarrow> 16 word \<Rightarrow> lock_event list \<Rightarrow> mutex_state \<Rightarrow> bool" for p fl pr where
  init: "mutex_init p fl pr s = (OS_NO_ERR, s') \<Longrightarrow> mutex_history p fl pr [] s'"
| others: "mutex_history p fl pr tr s \<Longrightarrow> mutexes s' p = mutexes s p \<Longrightarrow> mutex_history p fl pr tr s'"
| pend: "mutex_history p fl pr tr s \<Longrightarrow> mutex_pend c p s = Ok (r, s') \<Longrightarrow>
    mutex_history p fl pr (if r = Returned OS_NO_ERR then Acquired # tr else tr) s'"
| resume: "mutex_history p fl pr tr s \<Longrightarrow> mutex_pend_resume c p s = Ok (r, s') \<Longrightarrow>
    mutex_history p fl pr (if r = Returned OS_NO_ERR then Acquired # tr else tr) s'"
| try_pend: "mutex_history p fl pr tr s \<Longrightarrow> mutex_try_pend p b s = Ok (e, v, s') \<Longrightarrow>
    mutex_history p fl pr (if e = OS_NO_ERR then Acquired # tr else tr) s'"
| post: "mutex_history p fl pr tr s \<Longrightarrow> mutex_post c p s = Ok (r, s') \<Longrightarrow>
    mutex_history p fl pr (if r = Returned OS_NO_ERR \<or> r = Yielded OS_NO_ERR then Released # tr else tr) s'"
| destroy: "mutex_history p fl pr tr s \<Longrightarrow> mutex_destroy c p s = Ok (e, s') \<Longrightarrow> mutex_history p fl pr tr s'"

text \<open>No two acquisitions without a release between them.\<close>

fun exclusive :: "lock_event list \<Rightarrow> bool" where
  "exclusive (Acquired # Acquired # tr) = False"
| "exclusive (e # tr) = exclusive tr"
| "exclusive [] = True"

lemma exclusive_Released [simp]: "exclusive (Released # tr) = exclusive tr"
  by (cases tr) auto

lemma exclusive_Acquired: "exclusive (Acquired # tr) \<longleftrightarrow> exclusive tr \<and> (tr = [] \<or> hd tr = Released)"
  by (cases tr; cases "hd tr") auto

lemma exclusive_between:
  "exclusive (us @ Acquired # vs @ Acquired # ws) \<Longrightarrow> Released \<in> set vs"
proof (induction us)
  case Nil
  then show ?case
  proof (induction vs)
    case (Cons e vs)
    then show ?case by (cases e) auto
  qed simp
next
  case (Cons e us)
  then show ?case by (cases e) (auto simp: exclusive_Acquired)
qed

text \<open>The state is 0 exactly while the mutex is held.\<close>

definition lock_matches :: "ptr \<Rightarrow> u32 \<Rightarrow> mutex_state \<Rightarrow> lock_event list \<Rightarrow> bool" where
  "lock_matches p fl s tr \<longleftrightarrow>
     (\<exists>mx. mutexes s p = Some mx \<and> mutex_flags mx AND MUTEX_FLAG_RECURSIVE = fl AND MUTEX_FLAG_RECURSIVE \<and>
           mutex_lock_state mx = (if tr \<noteq> [] \<and> hd tr = Acquired then 0 else 1))"

lemma lock_matches_written:
  assumes "lock_matches p fl s tr" "lock_written v p s s'"
  shows "v = 0 \<Longrightarrow> lock_matches p fl s' (Acquired # tr)" "v = 1 \<Longrightarrow> lock_matches p fl s' (Released # tr)"
  using assms by (auto simp: lock_matches_def lock_written_def)

lemma lock_matches_mutexes: "lock_matches p fl s tr \<Longrightarrow> mutexes s' = mutexes s \<Longrightarrow> lock_matches p fl s' tr"
  by (simp add: lock_matches_def)

text \<open>An acquisition that found the mutex free.\<close>

lemma acquire_exclusive:
  assumes "lock_matches p fl s tr" "exclusive tr" "mutexes s p = Some mx" "mutex_lock_state mx = 1"
  shows "exclusive (Acquired # tr)"
  using assms by (cases tr; cases "hd tr") (auto simp: lock_matches_def exclusive_Acquired)

lemma recursive_flag: "(fl OR push_bit 8 x) AND MUTEX_FLAG_RECURSIVE = fl AND MUTEX_FLAG_RECURSIVE"
  by (rule bit_eqI) (auto simp: MUTEX_FLAG_RECURSIVE_def bit_simps)

lemma init_flags:
  "mutex_init p fl pr s = (OS_NO_ERR, s') \<Longrightarrow> lock_matches p fl s' []"
  by (auto simp: mutex_init_def lock_matches_def Let_def recursive_flag split: if_splits prod.splits)

lemma resume_exclusive:
  assumes "mutex_pend_resume c p s = Ok (r, s')" "lock_matches p fl s tr" "exclusive tr"
    and "fl AND MUTEX_FLAG_RECURSIVE = 0"
  shows "if r = Returned OS_NO_ERR then lock_matches p fl s' (Acquired # tr) \<and> exclusive (Acquired # tr)
         else lock_matches p fl s' tr"
proof (cases "r = Returned OS_NO_ERR")
  case True
  with mutex_pend_resume_lock [OF assms(1)] assms(2,4) obtain mx
    where "lock_written 0 p s s'" "mutexes s p = Some mx" "mutex_lock_state mx = 1"
    by (auto simp: lock_matches_def)
  then show ?thesis using True assms(2,3) acquire_exclusive lock_matches_written by simp
next
  case False
  then show ?thesis using mutex_pend_resume_lock [OF assms(1)] assms(2) lock_matches_mutexes by simp
qed

lemma mutex_history_exclusive:
  assumes "fl AND MUTEX_FLAG_RECURSIVE = 0"
  shows "mutex_history p fl pr tr s \<Longrightarrow> lock_matches p fl s tr \<and> exclusive tr"
proof (induction rule: mutex_history.induct)
  case (init s s')
  then show ?case by (simp add: init_flags)
next
  case (others tr s s')
  then show ?case by (simp add: lock_matches_def)
next
  case (pend tr s c r s')
  from mutex_pend_lock [OF pend(2)] show ?case
  proof
    assume "mutex_pend_resume c p s = Ok (r, s')"
    from resume_exclusive [OF this _ _ assms] pend(3) show ?thesis by (auto split: if_splits)
  qed (use pend(3) in simp)
next
  case (resume tr s c r s')
  from resume_exclusive [OF resume(2) _ _ assms] resume(3) show ?case by (auto split: if_splits)
next
  case (try_pend tr s b e v s')
  from mutex_try_pend_lock [OF try_pend(2)] try_pend(3) show ?case
    by (auto simp: lock_matches_written intro: acquire_exclusive lock_matches_mutexes split: if_splits)
next
  case (post tr s c r s')
  from mutex_post_lock [OF post(2)] post(3) show ?case
    by (auto simp: lock_matches_written intro: lock_matches_mutexes split: if_splits)
next
  case (destroy tr s c e s')
  then show ?case by (auto simp: lock_matches_def dest: mutex_destroy_lock)
qed

section \<open>Properties\<close>

text \<open>C4. A mutex that is not recursive excludes: in every history of pends, tries, posts and
  destructions, on any number of CPUs, between two acquisitions there is a release; and its state word
  is 0 exactly while it is held.\<close>

theorem mutex_exclusion:
  assumes "mutex_history p fl pr tr s" "fl AND MUTEX_FLAG_RECURSIVE = 0"
  shows "(\<forall>us vs ws. tr = us @ Acquired # vs @ Acquired # ws \<longrightarrow> Released \<in> set vs) \<and>
         (\<exists>mx. mutexes s p = Some mx \<and>
               mutex_lock_state mx = (if tr \<noteq> [] \<and> hd tr = Acquired then 0 else 1))"
  using mutex_history_exclusive [OF assms(2,1)]
  by (auto simp: lock_matches_def intro: exclusive_between)

text \<open>A scheduler state with an initialised heap and no queue yet, and a queue made in it.\<close>

definition ex_mboot :: mutex_state where
  "ex_mboot =
     \<lparr>m_sched = ex_sched\<lparr>kq := \<lparr>heap = snd (kheap_init 0x100000 0x101000 blank_heap),
                             nodes = Map.empty, queues = Map.empty\<rparr>\<rparr>,
      mutexes = Map.empty\<rparr>"

lemma ex_mboot_queue:
  "case kernel_queue_create_queue \<lparr>heap = snd (kheap_init 0x100000 0x101000 blank_heap),
                             nodes = Map.empty, queues = Map.empty\<rparr> of
     (q, err, k) \<Rightarrow> err = OS_NO_ERR \<and>
       (case kernel_queue_pop q k of Ok (n, e, k') \<Rightarrow> n = NULL \<and> e = OS_NO_ERR | _ \<Rightarrow> False)"
  by code_simp

theorem mutex_exclusion_witness:
  "\<exists>s. mutex_history 0x3000 MUTEX_FLAG_NONE 0xFFFF [Acquired, Released, Acquired] s \<and>
       (\<exists>mx. mutexes s 0x3000 = Some mx \<and> mutex_lock_state mx = 0)"
proof -
  let ?k0 = "\<lparr>heap = snd (kheap_init 0x100000 0x101000 blank_heap), nodes = Map.empty, queues = Map.empty\<rparr>"
  obtain q err k where q: "kernel_queue_create_queue ?k0 = (q, err, k)" by (metis prod_cases3)
  with ex_mboot_queue obtain k' where k: "err = OS_NO_ERR" "kernel_queue_pop q k = Ok (NULL, OS_NO_ERR, k')"
    by (auto split: outcome.splits)
  let ?K = "(m_sched ex_mboot)\<lparr>kq := k\<rparr>" and ?K' = "(m_sched ex_mboot)\<lparr>kq := k'\<rparr>"
  let ?mx = "\<lambda>v. \<lparr>mutex_waiting = q, mutex_lock_state = v, mutex_flags = 0xFFFF00,
                 acquired_thread_priority = 0, locker_tid = 0, mutex_initialized = 1\<rparr>"
  let ?s = "\<lambda>K v. \<lparr>m_sched = K, mutexes = [0x3000 \<mapsto> ?mx v]\<rparr>"
  have "mutex_init 0x3000 MUTEX_FLAG_NONE 0xFFFF ex_mboot = (OS_NO_ERR, ?s ?K 1)"
    using q k(1) by (simp add: mutex_init_def ex_mboot_def sched_create_queue_def Let_def
        MUTEX_PRIORITY_ELEVATION_NONE_def MUTEX_FLAG_NONE_def)
  from mutex_history.init [OF this] have h0: "mutex_history 0x3000 MUTEX_FLAG_NONE 0xFFFF [] (?s ?K 1)" .
  have "mutex_try_pend 0x3000 False (?s ?K 1) = Ok (OS_NO_ERR, None, ?s ?K 0)"
    by (simp add: mutex_try_pend_def set_mutex_def store_simps)
  from mutex_history.try_pend [OF h0 this]
  have h1: "mutex_history 0x3000 MUTEX_FLAG_NONE 0xFFFF [Acquired] (?s ?K 0)" by simp
  have "mutex_post 0 0x3000 (?s ?K 0) = Ok (Returned OS_NO_ERR, ?s ?K' 1)"
    using k(2) by (simp add: mutex_post_def mutex_release_def set_mutex_def store_simps sched_pop_def
        mutex_prio_def MUTEX_PRIORITY_ELEVATION_NONE_def Let_def)
  from mutex_history.post [OF h1 this]
  have h2: "mutex_history 0x3000 MUTEX_FLAG_NONE 0xFFFF [Released, Acquired] (?s ?K' 1)" by simp
  have "mutex_try_pend 0x3000 False (?s ?K' 1) = Ok (OS_NO_ERR, None, ?s ?K' 0)"
    by (simp add: mutex_try_pend_def set_mutex_def store_simps)
  from mutex_history.try_pend [OF h2 this]
  have h3: "mutex_history 0x3000 MUTEX_FLAG_NONE 0xFFFF [Acquired, Released, Acquired] (?s ?K' 0)" by simp
  from mutex_exclusion [OF h3] h3 show ?thesis by (auto simp: MUTEX_FLAG_NONE_def)
qed

text \<open>Trying a recursive mutex breaks its exclusion: \<^verbatim>\<open>mutex_try_pend\<close> does not record the locker, so
  after any thread has taken the mutex by a try, the thread that held it last before takes it too, by
  a plain pend and without waiting.\<close>

theorem mutex_try_pend_breaks_exclusion:
  assumes "mutexes s p = Some mx" "p \<noteq> NULL" "mutex_initialized mx = 1" "mutex_lock_state mx = 1"
    and "mutex_flags mx AND MUTEX_FLAG_RECURSIVE \<noteq> 0" "mutex_prio mx = MUTEX_PRIORITY_ELEVATION_NONE"
    and "sched_get_tid c (m_sched s) = Ok (locker_tid mx)"
  shows "\<exists>s1 s2. mutex_try_pend p False s = Ok (OS_NO_ERR, None, s1) \<and>
           mutex_pend c p s1 = Ok (Returned OS_NO_ERR, s2)"
proof -
  let ?s1 = "s\<lparr>mutexes := (mutexes s)(p \<mapsto> mx\<lparr>mutex_lock_state := 0\<rparr>)\<rparr>"
  have "mutex_try_pend p False s = Ok (OS_NO_ERR, None, ?s1)"
    using assms(1-4) by (simp add: mutex_try_pend_def set_mutex_def store_simps)
  moreover have "\<exists>s2. mutex_pend c p ?s1 = Ok (Returned OS_NO_ERR, s2)"
    using assms
    by (simp add: mutex_pend_def mutex_pend_resume_def mutex_acquire_def set_mutex_def store_simps mutex_prio_def)
  ultimately show ?thesis by blast
qed

text \<open>A free mutex with the given flags, last locked by the thread that runs on CPU 0.\<close>

definition ex_mutex :: "u32 \<Rightarrow> mutex_t" where
  "ex_mutex fl = \<lparr>mutex_waiting = 0x1040, mutex_lock_state = 1, mutex_flags = fl, acquired_thread_priority = 0,
                 locker_tid = tid ex_thread, mutex_initialized = 1\<rparr>"

lemma ex_tid: "sched_get_tid 0 ex_sched = Ok (tid ex_thread)"
  by (simp add: sched_get_tid_def get_thread_def store_simps ex_sched_def)

theorem mutex_try_pend_breaks_exclusion_witness:
  "\<exists>s1 s2. mutex_try_pend 0x3000 False \<lparr>m_sched = ex_sched, mutexes = [0x3000 \<mapsto> ex_mutex 0xFFFF01]\<rparr> =
             Ok (OS_NO_ERR, None, s1) \<and>
           mutex_pend 0 0x3000 s1 = Ok (Returned OS_NO_ERR, s2)"
  by (rule mutex_try_pend_breaks_exclusion [where mx = "ex_mutex 0xFFFF01"])
     (simp_all add: ex_mutex_def MUTEX_FLAG_RECURSIVE_def MUTEX_PRIORITY_ELEVATION_NONE_def mutex_prio_def ex_tid)

text \<open>C29. Taking a free mutex with priority elevation raises the holder to priority 0, whatever ceiling
  (at most 63) the mutex was given, because the ceiling is shifted twice; the release that follows gives
  the holder exactly its priority back. After a try instead of a pend, the release gives it whatever
  priority the mutex last recorded, not its own.\<close>

theorem mutex_priority_restored:
  assumes "mutexes s p = Some mx" "p \<noteq> NULL" "mutex_initialized mx = 1" "mutex_lock_state mx = 1"
    and "mutex_prio mx \<le> KERNEL_LOWEST_PRIORITY" "acquired_thread_priority mx \<le> KERNEL_LOWEST_PRIORITY"
    and "threads (m_sched s) (active_thread (m_sched s) c) = Some t" "th_priority t \<le> KERNEL_LOWEST_PRIORITY"
    and "sched_get_tid c (m_sched s) = Ok me"
  shows "(\<exists>s1 s2. mutex_pend c p s = Ok (Returned OS_NO_ERR, s1) \<and>
            threads (m_sched s1) (active_thread (m_sched s1) c) = Some (t\<lparr>th_priority := 0\<rparr>) \<and>
            mutex_release c p s1 = Ok (True, s2) \<and> threads (m_sched s2) = threads (m_sched s)) \<and>
         (\<exists>s1 s2. mutex_try_pend p False s = Ok (OS_NO_ERR, None, s1) \<and> mutex_release c p s1 = Ok (True, s2) \<and>
            threads (m_sched s2) (active_thread (m_sched s2) c) =
              Some (t\<lparr>th_priority := acquired_thread_priority mx\<rparr>))"
    (is "?by_pend \<and> ?by_trying")
proof
  have ne: "mutex_prio mx \<noteq> MUTEX_PRIORITY_ELEVATION_NONE"
    using assms(5) by (auto simp: MUTEX_PRIORITY_ELEVATION_NONE_def KERNEL_LOWEST_PRIORITY_def)
  have z: "drop_bit 8 (mutex_prio mx) = 0"
  proof -
    have "unat (mutex_prio mx) < 2 ^ 8"
      using assms(5) by (simp add: KERNEL_LOWEST_PRIORITY_def word_le_nat_alt)
    then show ?thesis by (simp add: word_eq_iff_unsigned [where 'a = nat] drop_bit_eq_div unat_div)
  qed
  have t: "t\<lparr>th_priority := 0, th_priority := th_priority t\<rparr> = t" by simp
  show ?by_pend
    using assms ne z t
    by (simp add: mutex_pend_def mutex_pend_resume_def mutex_acquire_def mutex_release_def set_mutex_def
        store_simps on_msched_def sched_set_priority_def sched_get_priority_def set_thread_def get_thread_def
        mutex_prio_def fun_upd_idem)
  show ?by_trying
    using assms ne
    by (simp add: mutex_try_pend_def mutex_release_def set_mutex_def store_simps on_msched_def
        sched_set_priority_def set_thread_def mutex_prio_def)
qed

theorem mutex_priority_restored_witness:
  "\<exists>s1 s2. mutex_pend 0 0x3000 \<lparr>m_sched = ex_sched, mutexes = [0x3000 \<mapsto> ex_mutex 0x500]\<rparr> =
             Ok (Returned OS_NO_ERR, s1) \<and>
           threads (m_sched s1) (active_thread (m_sched s1) 0) = Some (ex_thread\<lparr>th_priority := 0\<rparr>) \<and>
           mutex_release 0 0x3000 s1 = Ok (True, s2) \<and> threads (m_sched s2) = threads ex_sched"
proof -
  let ?mx = "ex_mutex 0x500"
  have mx: "mutex_initialized ?mx = 1" "mutex_lock_state ?mx = 1" "mutex_prio ?mx \<le> KERNEL_LOWEST_PRIORITY"
    "acquired_thread_priority ?mx \<le> KERNEL_LOWEST_PRIORITY"
    by (simp_all add: ex_mutex_def mutex_prio_def MUTEX_PRIORITY_ELEVATION_NONE_def KERNEL_LOWEST_PRIORITY_def)
  have th: "threads ex_sched (active_thread ex_sched 0) = Some ex_thread"
    "th_priority ex_thread \<le> KERNEL_LOWEST_PRIORITY"
    by (simp_all add: ex_sched_def ex_thread_def KERNEL_LOWEST_PRIORITY_def)
  from mutex_priority_restored [of "\<lparr>m_sched = ex_sched, mutexes = [0x3000 \<mapsto> ?mx]\<rparr>" "0x3000"
      ?mx 0 ex_thread "tid ex_thread"] mx th ex_tid
  show ?thesis by simp
qed

text \<open>A post hands the mutex over first come, first served: with waiting threads (and no priority
  elevation) it frees the mutex, makes exactly the thread that has waited longest ready, on its own CPU
  and at its own priority, and calls the scheduler; with none it only frees the mutex.\<close>

theorem mutex_post_wakes_oldest:
  assumes "mutexes s p = Some mx" "p \<noteq> NULL" "mutex_initialized mx = 1"
    and "mutex_prio mx = MUTEX_PRIORITY_ELEVATION_NONE"
    and "kq_rel (kq (m_sched s)) L" "tables_ok (m_sched s) L"
    and "L (mutex_waiting mx) = Some xs" "\<forall>n \<in> set xs. parked THREAD_WAIT_TYPE_MUTEX (m_sched s) n"
    and "\<forall>c < MAX_CPU_COUNT. \<forall>i \<le> unat KERNEL_LOWEST_PRIORITY.
           active_threads_table (m_sched s) c i \<noteq> mutex_waiting mx"
  shows "let s1 = s\<lparr>mutexes := (mutexes s)(p \<mapsto> mx\<lparr>mutex_lock_state := 1\<rparr>)\<rparr>
         in if xs = [] then mutex_post cpu p s = Ok (Returned OS_NO_ERR, s1)
            else \<exists>k t ys. mutex_post cpu p s =
                     andthen (sched_schedule cpu k) (\<lambda>k'. Ok (Yielded OS_NO_ERR, s1\<lparr>m_sched := k'\<rparr>)) \<and>
                   thread_at (m_sched s) (last xs) = Some t \<and> L (home_queue (m_sched s) t) = Some ys \<and>
                   kq_rel (kq k) (L(mutex_waiting mx \<mapsto> butlast xs, home_queue (m_sched s) t \<mapsto> last xs # ys)) \<and>
                   thread_at k (last xs) = Some (t\<lparr>th_state := THREAD_STATE_READY\<rparr>)"
proof -
  let ?s1 = "s\<lparr>mutexes := (mutexes s)(p \<mapsto> mx\<lparr>mutex_lock_state := 1\<rparr>)\<rparr>"
  have rl: "mutex_release cpu p s = Ok (False, ?s1)"
    using assms(1,4) by (simp add: mutex_release_def set_mutex_def store_simps mutex_prio_def)
  show ?thesis
  proof (cases "xs = []")
    case True
    with kq_pop_empty [OF assms(5)] assms(7)
    have "sched_pop (mutex_waiting mx) (m_sched s) = Ok (NULL, OS_NO_ERR, m_sched s)"
      by (simp add: sched_pop_def)
    then show ?thesis using assms(1-3) rl True by (simp add: mutex_post_def store_simps Let_def)
  next
    case False
    then have W: "L (mutex_waiting mx) = Some (butlast xs @ [last xs])" using assms(7) by simp
    have pk: "parked THREAD_WAIT_TYPE_MUTEX (m_sched s) (last xs)" using assms(8) False by simp
    have sep: "\<forall>c < MAX_CPU_COUNT. \<forall>i < levels. active_threads_table (m_sched s) c i \<noteq> mutex_waiting mx"
      using assms(9) by (simp add: less_Suc_eq_le)
    from pop_unlock_step [OF assms(5,6) W pk sep, where c = cpu] obtain k s' t ys where u:
      "sched_pop (mutex_waiting mx) (m_sched s) = Ok (last xs, OS_NO_ERR, (m_sched s)\<lparr>kq := k\<rparr>)" "last xs \<noteq> NULL"
      "sched_unlock_ready cpu (last xs) THREAD_WAIT_TYPE_MUTEX ((m_sched s)\<lparr>kq := k\<rparr>) = Ok (OS_NO_ERR, s')"
      "thread_at (m_sched s) (last xs) = Some t" "L (home_queue (m_sched s) t) = Some ys"
      "kq_rel (kq s') (L(mutex_waiting mx \<mapsto> butlast xs, home_queue (m_sched s) t \<mapsto> last xs # ys))"
      "thread_at s' (last xs) = Some (t\<lparr>th_state := THREAD_STATE_READY\<rparr>)" by metis
    have "mutex_post cpu p s = andthen (sched_schedule cpu s') (\<lambda>k'. Ok (Yielded OS_NO_ERR, ?s1\<lparr>m_sched := k'\<rparr>))"
      using assms(1-3) rl u(1-3)
      by (cases "sched_schedule cpu s'")
         (simp_all add: mutex_post_def store_simps Let_def on_msched_def sched_unlock_thread_def)
    with u(4-7) False show ?thesis unfolding Let_def by (simp only: if_False) blast
  qed
qed

theorem mutex_post_wakes_oldest_witness:
  "mutex_post 0 0x3000 \<lparr>m_sched = ex_sched, mutexes = [0x3000 \<mapsto> ex_mutex 0xFFFF00]\<rparr> =
     Ok (Returned OS_NO_ERR, \<lparr>m_sched = ex_sched, mutexes = [0x3000 \<mapsto> (ex_mutex 0xFFFF00)\<lparr>mutex_lock_state := 1\<rparr>]\<rparr>)"
proof -
  let ?mx = "ex_mutex 0xFFFF00"
  let ?s = "\<lparr>m_sched = ex_sched, mutexes = [0x3000 \<mapsto> ?mx]\<rparr>"
  have mx: "mutex_waiting ?mx = 0x1040" "mutex_initialized ?mx = 1" "mutex_prio ?mx = MUTEX_PRIORITY_ELEVATION_NONE"
    by (simp_all add: ex_mutex_def mutex_prio_def MUTEX_PRIORITY_ELEVATION_NONE_def)
  have w: "ex_lists 0x1040 = Some []" by (simp add: ex_lists_def ex_queues_def)
  have sep: "\<forall>c < MAX_CPU_COUNT. \<forall>i \<le> unat KERNEL_LOWEST_PRIORITY. active_threads_table ex_sched c i \<noteq> 0x1040"
    using ex_ready_queue by (auto simp: ex_sched_def less_Suc_eq_le [symmetric])
  from mutex_post_wakes_oldest [of ?s "0x3000" ?mx ex_lists "[]" 0] ex_lists_rel ex_tables w sep mx
  show ?thesis by (simp add: Let_def)
qed

end
