(* ===== verification/Channel.thy ===== *)
theory Channel
  imports Scheduler
begin

text \<open>
  The contract of a bounded channel guarded by two counting semaphores, as the mailboxes and the message
  queues of \<^verbatim>\<open>Sources/comm\<close> use it. A call has two parts: the first one checks its arguments and pends a semaphore, where the thread may be
  switched out, and the second one is the critical section that moves an element and posts the other semaphore. Between
  the two parts, and while it is blocked in the first, any other thread may run.
\<close>

section \<open>Calls and histories\<close>

text \<open>The calls of one channel on one CPU: the whole call, the same call continued after its thread was blocked, and the two parts of both.\<close>

record ('a, 's) channel_ops =
  post_call :: "'a \<Rightarrow> 's \<Rightarrow> (OS_RETURN_E call \<times> 's) outcome"
  post_again :: "'a \<Rightarrow> 's \<Rightarrow> (OS_RETURN_E call \<times> 's) outcome"
  post_first :: "'s \<Rightarrow> (OS_RETURN_E call \<times> 's) outcome"
  post_wake :: "'s \<Rightarrow> (OS_RETURN_E call \<times> 's) outcome"
  post_second :: "'a \<Rightarrow> 's \<Rightarrow> (OS_RETURN_E call \<times> 's) outcome"
  pend_call :: "'s \<Rightarrow> (('a \<times> OS_RETURN_E) call \<times> 's) outcome"
  pend_again :: "'s \<Rightarrow> (('a \<times> OS_RETURN_E) call \<times> 's) outcome"
  pend_first :: "'s \<Rightarrow> (OS_RETURN_E call \<times> 's) outcome"
  pend_wake :: "'s \<Rightarrow> (OS_RETURN_E call \<times> 's) outcome"
  pend_second :: "'s \<Rightarrow> (('a \<times> OS_RETURN_E) call \<times> 's) outcome"

text \<open>Where a thread is: outside, blocked in the first part of a call, or interrupted between the two parts.\<close>

datatype 'a chan_pc = Idle | Post_blocked 'a | Post_past 'a | Pend_blocked | Pend_past

text \<open>What the calls that are over have returned, in the order in which they moved their elements.\<close>

datatype 'a chan_event = Posted 'a | Pended 'a | Failed OS_RETURN_E

fun post_log :: "'a \<Rightarrow> OS_RETURN_E call \<Rightarrow> 'a chan_event list" where
  "post_log v (Returned e) = [if e = OS_NO_ERR then Posted v else Failed e]"
| "post_log v (Yielded e) = [if e = OS_NO_ERR then Posted v else Failed e]"
| "post_log v Switched = []"

fun pend_log :: "('a \<times> OS_RETURN_E) call \<Rightarrow> 'a chan_event list" where
  "pend_log (Returned (v, e)) = [if e = OS_NO_ERR then Pended v else Failed e]"
| "pend_log (Yielded (v, e)) = [if e = OS_NO_ERR then Pended v else Failed e]"
| "pend_log Switched = []"

fun first_log :: "OS_RETURN_E call \<Rightarrow> 'a chan_event list" where
  "first_log (Returned e) = (if e = OS_NO_ERR then [] else [Failed e])"
| "first_log r = []"

fun call_pc :: "'a chan_pc \<Rightarrow> 'b call \<Rightarrow> 'a chan_pc" where
  "call_pc blocked Switched = blocked"
| "call_pc blocked r = Idle"

fun first_pc :: "'a chan_pc \<Rightarrow> 'a chan_pc \<Rightarrow> OS_RETURN_E call \<Rightarrow> 'a chan_pc" where
  "first_pc past blocked (Returned e) = (if e = OS_NO_ERR then past else Idle)"
| "first_pc past blocked r = blocked"

definition sent :: "'a chan_event list \<Rightarrow> 'a list" where
  "sent h = List.map_filter (\<lambda>e. case e of Posted v \<Rightarrow> Some v | _ \<Rightarrow> None) h"

definition taken :: "'a chan_event list \<Rightarrow> 'a list" where
  "taken h = List.map_filter (\<lambda>e. case e of Pended v \<Rightarrow> Some v | _ \<Rightarrow> None) h"

text \<open>The histories: any number of threads call the operations, and each call either runs through, blocks, or is interrupted
  between its two parts. A blocked thread may go on at any time.\<close>

inductive chan_history ::
    "('a, 's) channel_ops \<Rightarrow> ('s \<Rightarrow> bool) \<Rightarrow> ('s \<Rightarrow> 's \<Rightarrow> bool) \<Rightarrow> (nat \<Rightarrow> 'a chan_pc) \<Rightarrow> 'a chan_event list \<Rightarrow> 's \<Rightarrow> bool"
  for ops start others where
  start: "start s \<Longrightarrow> chan_history ops start others (\<lambda>_. Idle) [] s"
| others: "chan_history ops start others pcs h s \<Longrightarrow> others s s' \<Longrightarrow> chan_history ops start others pcs h s'"
| post: "chan_history ops start others pcs h s \<Longrightarrow> pcs t = Idle \<Longrightarrow> post_call ops v s = Ok (r, s') \<Longrightarrow>
    chan_history ops start others (pcs(t := call_pc (Post_blocked v) r)) (h @ post_log v r) s'"
| post_again: "chan_history ops start others pcs h s \<Longrightarrow> pcs t = Post_blocked v \<Longrightarrow> post_again ops v s = Ok (r, s') \<Longrightarrow>
    chan_history ops start others (pcs(t := call_pc (Post_blocked v) r)) (h @ post_log v r) s'"
| post_first: "chan_history ops start others pcs h s \<Longrightarrow> pcs t = Idle \<Longrightarrow> post_first ops s = Ok (r, s') \<Longrightarrow>
    chan_history ops start others (pcs(t := first_pc (Post_past v) (Post_blocked v) r)) (h @ first_log r) s'"
| post_wake: "chan_history ops start others pcs h s \<Longrightarrow> pcs t = Post_blocked v \<Longrightarrow> post_wake ops s = Ok (r, s') \<Longrightarrow>
    chan_history ops start others (pcs(t := first_pc (Post_past v) (Post_blocked v) r)) (h @ first_log r) s'"
| post_second: "chan_history ops start others pcs h s \<Longrightarrow> pcs t = Post_past v \<Longrightarrow> post_second ops v s = Ok (r, s') \<Longrightarrow>
    chan_history ops start others (pcs(t := call_pc (Post_blocked v) r)) (h @ post_log v r) s'"
| pend: "chan_history ops start others pcs h s \<Longrightarrow> pcs t = Idle \<Longrightarrow> pend_call ops s = Ok (q, s') \<Longrightarrow>
    chan_history ops start others (pcs(t := call_pc Pend_blocked q)) (h @ pend_log q) s'"
| pend_again: "chan_history ops start others pcs h s \<Longrightarrow> pcs t = Pend_blocked \<Longrightarrow> pend_again ops s = Ok (q, s') \<Longrightarrow>
    chan_history ops start others (pcs(t := call_pc Pend_blocked q)) (h @ pend_log q) s'"
| pend_first: "chan_history ops start others pcs h s \<Longrightarrow> pcs t = Idle \<Longrightarrow> pend_first ops s = Ok (r, s') \<Longrightarrow>
    chan_history ops start others (pcs(t := first_pc Pend_past Pend_blocked r)) (h @ first_log r) s'"
| pend_wake: "chan_history ops start others pcs h s \<Longrightarrow> pcs t = Pend_blocked \<Longrightarrow> pend_wake ops s = Ok (r, s') \<Longrightarrow>
    chan_history ops start others (pcs(t := first_pc Pend_past Pend_blocked r)) (h @ first_log r) s'"
| pend_second: "chan_history ops start others pcs h s \<Longrightarrow> pcs t = Pend_past \<Longrightarrow> pend_second ops s = Ok (q, s') \<Longrightarrow>
    chan_history ops start others (pcs(t := call_pc Pend_blocked q)) (h @ pend_log q) s'"

section \<open>Counting\<close>

lemma sent_append [simp]: "sent (a @ b) = sent a @ sent b" by (simp add: sent_def map_filter_def)

lemma taken_append [simp]: "taken (a @ b) = taken a @ taken b" by (simp add: taken_def map_filter_def)

lemma sent_one [simp]: "sent [] = []" "sent [Posted v] = [v]" "sent [Pended v] = []" "sent [Failed e] = []"
  by (simp_all add: sent_def map_filter_def)

lemma taken_one [simp]: "taken [] = []" "taken [Pended v] = [v]" "taken [Posted v] = []" "taken [Failed e] = []"
  by (simp_all add: taken_def map_filter_def)

definition at_pc :: "('a chan_pc \<Rightarrow> bool) \<Rightarrow> (nat \<Rightarrow> 'a chan_pc) \<Rightarrow> nat" where
  "at_pc P pcs = card {t. P (pcs t)}"

fun reads :: "'a chan_pc \<Rightarrow> bool" where
  "reads Pend_past = True"
| "reads _ = False"

fun writes :: "'a chan_pc \<Rightarrow> bool" where
  "writes (Post_past v) = True"
| "writes _ = False"

text \<open>The readers and the writers that are interrupted between the two parts of their calls.\<close>

abbreviation readers :: "(nat \<Rightarrow> 'a chan_pc) \<Rightarrow> nat" where "readers \<equiv> at_pc reads"

abbreviation writers :: "(nat \<Rightarrow> 'a chan_pc) \<Rightarrow> nat" where "writers \<equiv> at_pc writes"

lemma at_pc_upd:
  assumes "finite {t. pcs t \<noteq> Idle}" "\<not> P Idle"
  shows "at_pc P (pcs(t := x)) + of_bool (P (pcs t)) = at_pc P pcs + of_bool (P x)"
proof -
  let ?A = "{u. P (pcs u)} - {t}"
  have "finite {u. P (pcs u)}" by (rule finite_subset [OF _ assms(1)]) (use assms(2) in auto)
  then have fin: "finite ?A" by simp
  have "at_pc P p = card ?A + of_bool (P (p t))" if "\<forall>u. u \<noteq> t \<longrightarrow> p u = pcs u" for p
  proof (cases "P (p t)")
    case True
    then have "{u. P (p u)} = insert t ?A" using that by force
    then have "at_pc P p = card (insert t ?A)" unfolding at_pc_def by (rule arg_cong)
    also have "\<dots> = Suc (card ?A)" by (rule card_insert_disjoint [OF fin]) simp
    finally show ?thesis using True by simp
  next
    case False
    then have "{u. P (p u)} = ?A" using that by force
    then have "at_pc P p = card ?A" unfolding at_pc_def by (rule arg_cong)
    then show ?thesis using False by simp
  qed
  from this [of pcs] this [of "pcs(t := x)"] show ?thesis by simp
qed

lemma at_pc_Idle: "\<not> P Idle \<Longrightarrow> at_pc P (\<lambda>_. Idle) = 0"
  by (simp add: at_pc_def)

lemma busy_upd: "finite {t. pcs t \<noteq> Idle} \<Longrightarrow> finite {u. (pcs(t := x)) u \<noteq> Idle}"
  by (rule finite_subset [of _ "insert t {t. pcs t \<noteq> Idle}"]) auto

section \<open>The contract\<close>

locale channel =
  fixes cap :: nat
    and rl wl :: "'s \<Rightarrow> int"
    and repr :: "'s \<Rightarrow> 'a list \<Rightarrow> bool"
    and ops :: "('a, 's) channel_ops"
    and start :: "'s \<Rightarrow> bool"
    and others :: "'s \<Rightarrow> 's \<Rightarrow> bool"
    and null :: 'a
  assumes start_law: "start s \<Longrightarrow> repr s [] \<and> rl s = 0 \<and> wl s = int cap"
    and others_law: "others s s' \<Longrightarrow> repr s xs \<Longrightarrow> repr s' xs \<and> rl s' = rl s \<and> wl s' = wl s"
    and post_split: "post_call ops v s = andthen (post_first ops s) (\<lambda>(r, s). case r of
        Returned e \<Rightarrow> if e \<noteq> OS_NO_ERR then Ok (Returned e, s) else post_second ops v s | _ \<Rightarrow> Ok (Switched, s))"
    and again_split: "post_again ops v s = andthen (post_wake ops s) (\<lambda>(r, s). case r of
        Returned e \<Rightarrow> if e \<noteq> OS_NO_ERR then Ok (Returned e, s) else post_second ops v s | _ \<Rightarrow> Ok (Switched, s))"
    and pend_split: "pend_call ops s = andthen (pend_first ops s) (\<lambda>(r, s). case r of
        Returned e \<Rightarrow> if e \<noteq> OS_NO_ERR then Ok (Returned (null, e), s) else pend_second ops s | _ \<Rightarrow> Ok (Switched, s))"
    and pend_again_split: "pend_again ops s = andthen (pend_wake ops s) (\<lambda>(r, s). case r of
        Returned e \<Rightarrow> if e \<noteq> OS_NO_ERR then Ok (Returned (null, e), s) else pend_second ops s | _ \<Rightarrow> Ok (Switched, s))"
    and write_law: "post_first ops s = Ok (r, s') \<or> post_wake ops s = Ok (r, s') \<Longrightarrow> repr s xs \<Longrightarrow> repr s' xs \<and> rl s' = rl s \<and>
      (r = Returned OS_NO_ERR \<and> 1 \<le> wl s \<and> wl s' = wl s - 1 \<or> r = Switched \<and> wl s' = wl s)"
    and read_law: "pend_first ops s = Ok (r, s') \<or> pend_wake ops s = Ok (r, s') \<Longrightarrow> repr s xs \<Longrightarrow> repr s' xs \<and> wl s' = wl s \<and>
      (r = Returned OS_NO_ERR \<and> 1 \<le> rl s \<and> rl s' = rl s - 1 \<or> r = Switched \<and> rl s' = rl s)"
    and put_law: "post_second ops v s = Ok (r, s') \<Longrightarrow> repr s xs \<Longrightarrow> length xs < cap \<Longrightarrow> 0 \<le> rl s \<Longrightarrow> rl s < int cap \<Longrightarrow>
      (r = Returned OS_NO_ERR \<or> r = Yielded OS_NO_ERR) \<and> repr s' (xs @ [v]) \<and> rl s' = rl s + 1 \<and> wl s' = wl s"
    and take_law: "pend_second ops s = Ok (q, s') \<Longrightarrow> repr s (x # xs) \<Longrightarrow> 0 \<le> wl s \<Longrightarrow> wl s < int cap \<Longrightarrow>
      (q = Returned (x, OS_NO_ERR) \<or> q = Yielded (x, OS_NO_ERR)) \<and> repr s' xs \<and> wl s' = wl s + 1 \<and> rl s' = rl s"
begin

text \<open>The elements in the channel are the units of the read semaphore plus the readers on their way, the
  free places are the units of the write semaphore plus the writers on their way.\<close>

definition chan_ok :: "(nat \<Rightarrow> 'a chan_pc) \<Rightarrow> 'a chan_event list \<Rightarrow> 's \<Rightarrow> bool" where
  "chan_ok pcs h s \<longleftrightarrow> finite {t. pcs t \<noteq> Idle} \<and> (\<forall>e. Failed e \<notin> set h) \<and>
     (\<exists>xs. repr s xs \<and> sent h = taken h @ xs \<and> int (length xs) = rl s + int (readers pcs) \<and>
        int cap - int (length xs) = wl s + int (writers pcs) \<and> 0 \<le> rl s \<and> 0 \<le> wl s)"

lemma write_step:
  assumes "chan_ok pcs h s" "pcs t = Idle \<or> pcs t = Post_blocked v" "post_first ops s = Ok (r, s') \<or> post_wake ops s = Ok (r, s')"
  shows "(r = Returned OS_NO_ERR \<or> r = Switched) \<and> chan_ok (pcs(t := first_pc (Post_past v) (Post_blocked v) r)) (h @ first_log r) s'"
proof -
  from assms(1) obtain xs where fin: "finite {t. pcs t \<noteq> Idle}" and h: "\<forall>e. Failed e \<notin> set h"
    and xs: "repr s xs" "sent h = taken h @ xs" "int (length xs) = rl s + int (readers pcs)"
    "int cap - int (length xs) = wl s + int (writers pcs)" "0 \<le> rl s" "0 \<le> wl s" unfolding chan_ok_def by blast
  note n = at_pc_upd [OF fin, of reads t "first_pc (Post_past v) (Post_blocked v) r"]
    at_pc_upd [OF fin, of writes t "first_pc (Post_past v) (Post_blocked v) r"]
  from write_law [OF assms(3) xs(1)] have w: "repr s' xs" "rl s' = rl s"
    "r = Returned OS_NO_ERR \<and> 1 \<le> wl s \<and> wl s' = wl s - 1 \<or> r = Switched \<and> wl s' = wl s" by simp_all
  show ?thesis unfolding chan_ok_def using w(3) assms(2)
    by (elim disjE conjE; intro conjI exI [of _ xs] busy_upd [OF fin]) (use n w(1,2) h xs in simp_all)
qed

lemma read_step:
  assumes "chan_ok pcs h s" "pcs t = Idle \<or> pcs t = Pend_blocked" "pend_first ops s = Ok (r, s') \<or> pend_wake ops s = Ok (r, s')"
  shows "(r = Returned OS_NO_ERR \<or> r = Switched) \<and> chan_ok (pcs(t := first_pc Pend_past Pend_blocked r)) (h @ first_log r) s'"
proof -
  from assms(1) obtain xs where fin: "finite {t. pcs t \<noteq> Idle}" and h: "\<forall>e. Failed e \<notin> set h"
    and xs: "repr s xs" "sent h = taken h @ xs" "int (length xs) = rl s + int (readers pcs)"
    "int cap - int (length xs) = wl s + int (writers pcs)" "0 \<le> rl s" "0 \<le> wl s" unfolding chan_ok_def by blast
  note n = at_pc_upd [OF fin, of reads t "first_pc Pend_past Pend_blocked r"] at_pc_upd [OF fin, of writes t "first_pc Pend_past Pend_blocked r"]
  from read_law [OF assms(3) xs(1)] have w: "repr s' xs" "wl s' = wl s"
    "r = Returned OS_NO_ERR \<and> 1 \<le> rl s \<and> rl s' = rl s - 1 \<or> r = Switched \<and> rl s' = rl s" by simp_all
  show ?thesis unfolding chan_ok_def using w(3) assms(2)
    by (elim disjE conjE; intro conjI exI [of _ xs] busy_upd [OF fin]) (use n w(1,2) h xs in simp_all)
qed

lemma put_step:
  assumes "chan_ok pcs h s" "pcs t = Post_past v" "post_second ops v s = Ok (r, s')"
  shows "chan_ok (pcs(t := call_pc (Post_blocked v) r)) (h @ post_log v r) s'"
proof -
  from assms(1) obtain xs where fin: "finite {t. pcs t \<noteq> Idle}" and h: "\<forall>e. Failed e \<notin> set h"
    and xs: "repr s xs" "sent h = taken h @ xs" "int (length xs) = rl s + int (readers pcs)"
    "int cap - int (length xs) = wl s + int (writers pcs)" "0 \<le> rl s" "0 \<le> wl s" unfolding chan_ok_def by blast
  have n: "readers (pcs(t := Idle)) = readers pcs" "writers (pcs(t := Idle)) + 1 = writers pcs"
    using at_pc_upd [OF fin, of reads t Idle] at_pc_upd [OF fin, of writes t Idle] assms(2) by simp_all
  have "length xs < cap" "rl s < int cap" using xs(3-6) n(2) by linarith+
  from put_law [OF assms(3) xs(1) this(1) xs(5) this(2)] have p: "repr s' (xs @ [v])" "rl s' = rl s + 1" "wl s' = wl s"
    and r: "call_pc (Post_blocked v) r = Idle" "post_log v r = [Posted v]" by auto
  show ?thesis unfolding chan_ok_def r
    by (intro conjI exI [of _ "xs @ [v]"] busy_upd [OF fin]) (use n p h xs in simp_all)
qed

lemma take_step:
  assumes "chan_ok pcs h s" "pcs t = Pend_past" "pend_second ops s = Ok (q, s')"
  shows "chan_ok (pcs(t := call_pc Pend_blocked q)) (h @ pend_log q) s'"
proof -
  from assms(1) obtain xs where fin: "finite {t. pcs t \<noteq> Idle}" and h: "\<forall>e. Failed e \<notin> set h"
    and xs: "repr s xs" "sent h = taken h @ xs" "int (length xs) = rl s + int (readers pcs)"
    "int cap - int (length xs) = wl s + int (writers pcs)" "0 \<le> rl s" "0 \<le> wl s" unfolding chan_ok_def by blast
  have n: "readers (pcs(t := Idle)) + 1 = readers pcs" "writers (pcs(t := Idle)) = writers pcs"
    using at_pc_upd [OF fin, of reads t Idle] at_pc_upd [OF fin, of writes t Idle] assms(2) by simp_all
  then obtain y ys where ys: "xs = y # ys" using xs(3,5) by (cases xs) auto
  have "wl s < int cap" using xs(3-6) ys by simp
  from take_law [OF assms(3) xs(1) [unfolded ys] xs(6) this] have p: "repr s' ys" "wl s' = wl s + 1" "rl s' = rl s"
    and r: "call_pc Pend_blocked q = Idle" "pend_log q = [Pended y]" by auto
  show ?thesis unfolding chan_ok_def r
    by (intro conjI exI [of _ ys] busy_upd [OF fin]) (use n p h xs ys in simp_all)
qed

text \<open>A call that runs through is its two parts in a row.\<close>

lemma post_step:
  assumes "chan_ok pcs h s" "pcs t = Idle \<or> pcs t = Post_blocked v" "f s = Ok (r1, s1)" "f = post_first ops \<or> f = post_wake ops"
    and "(case r1 of Returned e \<Rightarrow> if e \<noteq> OS_NO_ERR then Ok (Returned e, s1) else post_second ops v s1 | _ \<Rightarrow> Ok (Switched, s1)) = Ok (r, s')"
  shows "chan_ok (pcs(t := call_pc (Post_blocked v) r)) (h @ post_log v r) s'"
proof -
  have "post_first ops s = Ok (r1, s1) \<or> post_wake ops s = Ok (r1, s1)" using assms(3,4) by auto
  from write_step [OF assms(1,2) this] consider
      "r1 = Returned OS_NO_ERR" "chan_ok (pcs(t := Post_past v)) h s1" | "r1 = Switched" "chan_ok (pcs(t := Post_blocked v)) h s1" by auto
  then show ?thesis
  proof cases
    case 1
    then have "post_second ops v s1 = Ok (r, s')" using assms(5) by simp
    from put_step [OF 1(2) _ this, of t] show ?thesis by simp
  next
    case 2
    then show ?thesis using assms(5) by auto
  qed
qed

lemma pend_step:
  assumes "chan_ok pcs h s" "pcs t = Idle \<or> pcs t = Pend_blocked" "f s = Ok (r1, s1)" "f = pend_first ops \<or> f = pend_wake ops"
    and "(case r1 of Returned e \<Rightarrow> if e \<noteq> OS_NO_ERR then Ok (Returned (null, e), s1) else pend_second ops s1 | _ \<Rightarrow> Ok (Switched, s1)) = Ok (q, s')"
  shows "chan_ok (pcs(t := call_pc Pend_blocked q)) (h @ pend_log q) s'"
proof -
  have "pend_first ops s = Ok (r1, s1) \<or> pend_wake ops s = Ok (r1, s1)" using assms(3,4) by auto
  from read_step [OF assms(1,2) this] consider
      "r1 = Returned OS_NO_ERR" "chan_ok (pcs(t := Pend_past)) h s1" | "r1 = Switched" "chan_ok (pcs(t := Pend_blocked)) h s1" by auto
  then show ?thesis
  proof cases
    case 1
    then have "pend_second ops s1 = Ok (q, s')" using assms(5) by simp
    from take_step [OF 1(2) _ this, of t] show ?thesis by simp
  next
    case 2
    then show ?thesis using assms(5) by auto
  qed
qed

lemma history_exact: "chan_history ops start others pcs h s \<Longrightarrow> chan_ok pcs h s"
proof (induction rule: chan_history.induct)
  case (start s)
  then show ?case using start_law [OF start] by (auto simp: chan_ok_def at_pc_Idle)
next
  case (others pcs h s s')
  then show ?case using others_law by (fastforce simp: chan_ok_def)
next
  case (post pcs h s t v r s')
  then obtain r1 s1 where "post_first ops s = Ok (r1, s1)"
    "(case r1 of Returned e \<Rightarrow> if e \<noteq> OS_NO_ERR then Ok (Returned e, s1) else post_second ops v s1 | _ \<Rightarrow> Ok (Switched, s1)) = Ok (r, s')"
    unfolding post_split by (auto simp: andthen_eq_Ok)
  then show ?case using post_step [OF post.IH, of t v "post_first ops" r1 s1 r s'] post.hyps by blast
next
  case (post_again pcs h s t v r s')
  then obtain r1 s1 where "post_wake ops s = Ok (r1, s1)"
    "(case r1 of Returned e \<Rightarrow> if e \<noteq> OS_NO_ERR then Ok (Returned e, s1) else post_second ops v s1 | _ \<Rightarrow> Ok (Switched, s1)) = Ok (r, s')"
    unfolding again_split by (auto simp: andthen_eq_Ok)
  then show ?case using post_step [OF post_again.IH, of t v "post_wake ops" r1 s1 r s'] post_again.hyps by blast
next
  case (post_first pcs h s t r s' v)
  then show ?case using write_step [OF post_first.IH] by blast
next
  case (post_wake pcs h s t v r s')
  then show ?case using write_step [OF post_wake.IH] by blast
next
  case (post_second pcs h s t v r s')
  then show ?case using put_step [OF post_second.IH] by blast
next
  case (pend pcs h s t q s')
  then obtain r1 s1 where "pend_first ops s = Ok (r1, s1)"
    "(case r1 of Returned e \<Rightarrow> if e \<noteq> OS_NO_ERR then Ok (Returned (null, e), s1) else pend_second ops s1 | _ \<Rightarrow> Ok (Switched, s1)) = Ok (q, s')"
    unfolding pend_split by (auto simp: andthen_eq_Ok)
  then show ?case using pend_step [OF pend.IH, of t "pend_first ops" r1 s1 q s'] pend.hyps by blast
next
  case (pend_again pcs h s t q s')
  then obtain r1 s1 where "pend_wake ops s = Ok (r1, s1)"
    "(case r1 of Returned e \<Rightarrow> if e \<noteq> OS_NO_ERR then Ok (Returned (null, e), s1) else pend_second ops s1 | _ \<Rightarrow> Ok (Switched, s1)) = Ok (q, s')"
    unfolding pend_again_split by (auto simp: andthen_eq_Ok)
  then show ?case using pend_step [OF pend_again.IH, of t "pend_wake ops" r1 s1 q s'] pend_again.hyps by blast
next
  case (pend_first pcs h s t r s')
  then show ?case using read_step [OF pend_first.IH] by blast
next
  case (pend_wake pcs h s t r s')
  then show ?case using read_step [OF pend_wake.IH] by blast
next
  case (pend_second pcs h s t q s')
  then show ?case using take_step [OF pend_second.IH] by blast
qed

end

end
