(* ===== verification/Mailbox.thy ===== *)
theory Mailbox
  imports Semaphore Channel
begin

unbundle bit_operations_syntax

text \<open>
  The mailboxes, \<^verbatim>\<open>Sources/comm/mailbox.c\<close>: a one-place channel between threads, guarded by two
  semaphores embedded in the structure. Pends and posts are cut where the thread may be switched
  out: \<open>mailbox_post_first\<close> and \<open>mailbox_pend_first\<close> are the calls up to the return of \<^verbatim>\<open>sem_pend\<close>,
  \<open>mailbox_post_wake\<close> and \<open>mailbox_pend_wake\<close> what runs of \<^verbatim>\<open>sem_pend\<close> when the blocked thread is elected again, \<open>mailbox_put\<close> and
  \<open>mailbox_take\<close> the second critical sections. Those run with interrupts disabled, which makes the
  \<^verbatim>\<open>sem_post\<close> in them switch to the thread it wakes; then the result is \<open>Yielded\<close>, and what is left of
  the call, leaving the critical section and returning that value, runs when the thread is elected again.
  By then all accesses of the call to the mailbox are over, but its spinlock is not left: another thread of
  the same CPU enters the section as a nested one and leaves it open for the other CPUs (\<^verbatim>\<open>critical.h\<close>, see
  \<open>critical_nesting_breaks_exclusion\<close> in the theory \<^verbatim>\<open>Critical\<close>). The property of the channel below is
  therefore stated for the threads of one CPU, where the disabled interrupts alone make the second part one step.
\<close>

section \<open>State\<close>

record mailbox_t =
  mb_value :: ptr
  mb_init :: "16 word"
  mb_state :: "16 word"

record mbox_state =
  mb_sys :: sem_state
  mailboxes :: "ptr \<rightharpoonup> mailbox_t"

text \<open>The addresses of the embedded semaphores.\<close>

definition mailbox_sem_read :: "ptr \<Rightarrow> ptr" where "mailbox_sem_read m = m + 8"
definition mailbox_sem_write :: "ptr \<Rightarrow> ptr" where "mailbox_sem_write m = m + 32"

definition on_mb_sys ::
    "(sem_state \<Rightarrow> ('a \<times> sem_state) outcome) \<Rightarrow> mbox_state \<Rightarrow> ('a \<times> mbox_state) outcome" where
  "on_mb_sys f s = andthen (f (mb_sys s)) (\<lambda>(r, k). Ok (r, s\<lparr>mb_sys := k\<rparr>))"

definition set_mailbox :: "ptr \<Rightarrow> (mailbox_t \<Rightarrow> mailbox_t) \<Rightarrow> mbox_state \<Rightarrow> mbox_state outcome" where
  "set_mailbox p f s = andthen (modify (mailboxes s) p f) (\<lambda>m. Ok (s\<lparr>mailboxes := m\<rparr>))"

section \<open>Operations\<close>

definition mailbox_clear :: "ptr \<Rightarrow> mbox_state \<Rightarrow> mbox_state" where
  "mailbox_clear m s =
     s\<lparr>mb_sys := (mb_sys s)\<lparr>sems := (sems (mb_sys s))(mailbox_sem_read m \<mapsto> zero_sem, mailbox_sem_write m \<mapsto> zero_sem)\<rparr>,
       mailboxes := (mailboxes s)(m \<mapsto> \<lparr>mb_value = NULL, mb_init = 0, mb_state = 0\<rparr>)\<rparr>"

text \<open>When the second semaphore cannot be made, the code returns the result of destroying the first.\<close>

definition mailbox_init :: "nat \<Rightarrow> ptr \<Rightarrow> mbox_state \<Rightarrow> (OS_RETURN_E \<times> mbox_state) outcome" where
  "mailbox_init cpu_id m s =
     (if m = NULL then Ok (OS_ERR_NULL_POINTER, s)
      else let s = mailbox_clear m s;
               (err, k) = sem_init (mailbox_sem_read m) 0 (mb_sys s);
               s = s\<lparr>mb_sys := k\<rparr>
           in if err \<noteq> OS_NO_ERR then Ok (err, s)
              else let (err, k) = sem_init (mailbox_sem_write m) 1 (mb_sys s);
                       s = s\<lparr>mb_sys := k\<rparr>
                   in if err \<noteq> OS_NO_ERR then on_mb_sys (sem_destroy cpu_id (mailbox_sem_read m)) s
                      else andthen (set_mailbox m (\<lambda>x. x\<lparr>mb_init := 1\<rparr>) s) (\<lambda>s. Ok (OS_NO_ERR, s)))"

text \<open>The result is the bitwise or of the two error codes.\<close>

definition mailbox_destroy :: "nat \<Rightarrow> ptr \<Rightarrow> mbox_state \<Rightarrow> (u32 \<times> mbox_state) outcome" where
  "mailbox_destroy cpu_id m s =
     (if m = NULL then Ok (os_code OS_ERR_NULL_POINTER, s)
      else andthen (deref (mailboxes s) m) (\<lambda>mb.
        if mb_init mb \<noteq> 1 then Ok (os_code OS_ERR_MAILBOX_NON_INITIALIZED, s)
        else andthen (set_mailbox m (\<lambda>x. x\<lparr>mb_init := 0\<rparr>) s) (\<lambda>s.
             andthen (on_mb_sys (sem_destroy cpu_id (mailbox_sem_read m)) s) (\<lambda>(e1, s).
             andthen (on_mb_sys (sem_destroy cpu_id (mailbox_sem_write m)) s) (\<lambda>(e2, s).
             Ok (os_code e1 OR os_code e2, s))))))"

text \<open>The second critical section of \<^verbatim>\<open>mailbox_pend\<close>. The result is the value and the error stored in
  \<^verbatim>\<open>*error\<close>.\<close>

definition mailbox_take ::
    "nat \<Rightarrow> ptr \<Rightarrow> mbox_state \<Rightarrow> ((ptr \<times> OS_RETURN_E) call \<times> mbox_state) outcome" where
  "mailbox_take cpu_id m s =
     andthen (deref (mailboxes s) m) (\<lambda>mb.
     if mb_init mb \<noteq> 1 then Ok (Returned (NULL, OS_ERR_MAILBOX_NON_INITIALIZED), s)
     else let answer = (\<lambda>err. if err \<noteq> OS_NO_ERR then (NULL, OS_ERR_MAILBOX_NON_INITIALIZED)
                              else (mb_value mb, OS_NO_ERR))
          in andthen (on_mb_sys (sem_post_critical cpu_id (mailbox_sem_write m)) s) (\<lambda>(r, s).
             Ok (map_call answer r, s)))"

text \<open>Every error of \<^verbatim>\<open>sem_pend\<close> is reported as the mailbox not being initialised.\<close>

definition mailbox_pended :: "OS_RETURN_E call \<Rightarrow> OS_RETURN_E call" where
  "mailbox_pended = map_call (\<lambda>err. if err \<noteq> OS_NO_ERR then OS_ERR_MAILBOX_NON_INITIALIZED else OS_NO_ERR)"

definition mailbox_pend_first :: "nat \<Rightarrow> ptr \<Rightarrow> mbox_state \<Rightarrow> (OS_RETURN_E call \<times> mbox_state) outcome" where
  "mailbox_pend_first cpu_id m s =
     (if m = NULL then Ok (Returned OS_ERR_NULL_POINTER, s)
      else andthen (deref (mailboxes s) m) (\<lambda>mb.
        if mb_init mb \<noteq> 1 then Ok (Returned OS_ERR_MAILBOX_NON_INITIALIZED, s)
        else andthen (on_mb_sys (sem_pend cpu_id (mailbox_sem_read m)) s) (\<lambda>(r, s). Ok (mailbox_pended r, s))))"

definition mailbox_pend_wake :: "nat \<Rightarrow> ptr \<Rightarrow> mbox_state \<Rightarrow> (OS_RETURN_E call \<times> mbox_state) outcome" where
  "mailbox_pend_wake cpu_id m s =
     andthen (on_mb_sys (sem_pend_resume cpu_id (mailbox_sem_read m)) s) (\<lambda>(r, s). Ok (mailbox_pended r, s))"

definition mailbox_pend_after ::
    "nat \<Rightarrow> ptr \<Rightarrow> OS_RETURN_E call \<times> mbox_state \<Rightarrow> ((ptr \<times> OS_RETURN_E) call \<times> mbox_state) outcome" where
  "mailbox_pend_after cpu_id m = (\<lambda>(r, s).
     case r of
       Returned e \<Rightarrow> if e \<noteq> OS_NO_ERR then Ok (Returned (NULL, e), s) else mailbox_take cpu_id m s
     | Yielded e \<Rightarrow> Ok (Switched, s)
     | Switched \<Rightarrow> Ok (Switched, s))"

definition mailbox_pend ::
    "nat \<Rightarrow> ptr \<Rightarrow> mbox_state \<Rightarrow> ((ptr \<times> OS_RETURN_E) call \<times> mbox_state) outcome" where
  "mailbox_pend cpu_id m s = andthen (mailbox_pend_first cpu_id m s) (mailbox_pend_after cpu_id m)"

definition mailbox_pend_resume ::
    "nat \<Rightarrow> ptr \<Rightarrow> mbox_state \<Rightarrow> ((ptr \<times> OS_RETURN_E) call \<times> mbox_state) outcome" where
  "mailbox_pend_resume cpu_id m s = andthen (mailbox_pend_wake cpu_id m s) (mailbox_pend_after cpu_id m)"

text \<open>The second critical section of \<^verbatim>\<open>mailbox_post\<close>. Unlike the one of \<^verbatim>\<open>mailbox_pend\<close> it does not look at
  the initialisation again.\<close>

definition mailbox_put ::
    "nat \<Rightarrow> ptr \<Rightarrow> ptr \<Rightarrow> mbox_state \<Rightarrow> (OS_RETURN_E call \<times> mbox_state) outcome" where
  "mailbox_put cpu_id m element s =
     andthen (set_mailbox m (\<lambda>x. x\<lparr>mb_value := element\<rparr>) s) (\<lambda>s.
     andthen (on_mb_sys (sem_post_critical cpu_id (mailbox_sem_read m)) s) (\<lambda>(r, s).
     Ok (map_call (\<lambda>err. if err \<noteq> OS_NO_ERR then OS_ERR_MAILBOX_NON_INITIALIZED else OS_NO_ERR) r, s)))"

definition mailbox_post_first :: "nat \<Rightarrow> ptr \<Rightarrow> mbox_state \<Rightarrow> (OS_RETURN_E call \<times> mbox_state) outcome" where
  "mailbox_post_first cpu_id m s =
     (if m = NULL then Ok (Returned OS_ERR_NULL_POINTER, s)
      else andthen (deref (mailboxes s) m) (\<lambda>mb.
        if mb_init mb \<noteq> 1 then Ok (Returned OS_ERR_MAILBOX_NON_INITIALIZED, s)
        else andthen (on_mb_sys (sem_pend cpu_id (mailbox_sem_write m)) s) (\<lambda>(r, s). Ok (mailbox_pended r, s))))"

definition mailbox_post_wake :: "nat \<Rightarrow> ptr \<Rightarrow> mbox_state \<Rightarrow> (OS_RETURN_E call \<times> mbox_state) outcome" where
  "mailbox_post_wake cpu_id m s =
     andthen (on_mb_sys (sem_pend_resume cpu_id (mailbox_sem_write m)) s) (\<lambda>(r, s). Ok (mailbox_pended r, s))"

definition mailbox_post_after ::
    "nat \<Rightarrow> ptr \<Rightarrow> ptr \<Rightarrow> OS_RETURN_E call \<times> mbox_state \<Rightarrow> (OS_RETURN_E call \<times> mbox_state) outcome" where
  "mailbox_post_after cpu_id m element = (\<lambda>(r, s).
     case r of
       Returned e \<Rightarrow> if e \<noteq> OS_NO_ERR then Ok (Returned e, s) else mailbox_put cpu_id m element s
     | Yielded e \<Rightarrow> Ok (Switched, s)
     | Switched \<Rightarrow> Ok (Switched, s))"

definition mailbox_post ::
    "nat \<Rightarrow> ptr \<Rightarrow> ptr \<Rightarrow> mbox_state \<Rightarrow> (OS_RETURN_E call \<times> mbox_state) outcome" where
  "mailbox_post cpu_id m element s = andthen (mailbox_post_first cpu_id m s) (mailbox_post_after cpu_id m element)"

definition mailbox_post_resume ::
    "nat \<Rightarrow> ptr \<Rightarrow> ptr \<Rightarrow> mbox_state \<Rightarrow> (OS_RETURN_E call \<times> mbox_state) outcome" where
  "mailbox_post_resume cpu_id m element s = andthen (mailbox_post_wake cpu_id m s) (mailbox_post_after cpu_id m element)"

definition mailbox_isempty :: "ptr \<Rightarrow> mbox_state \<Rightarrow> (int \<times> OS_RETURN_E) outcome" where
  "mailbox_isempty m s =
     (if m = NULL then Ok (-1, OS_ERR_NULL_POINTER)
      else andthen (deref (mailboxes s) m) (\<lambda>mb.
        if mb_init mb \<noteq> 1 then Ok (-1, OS_ERR_MAILBOX_NON_INITIALIZED)
        else andthen (deref (sems (mb_sys s)) (mailbox_sem_read m)) (\<lambda>sm.
             Ok (of_bool (sem_level sm = 0), OS_NO_ERR))))"

section \<open>The channel\<close>

text \<open>The threads of CPU \<open>c\<close> that use one mailbox, from its initialisation on; everything else leaves it alone.\<close>

definition mailbox_start :: "ptr \<Rightarrow> mbox_state \<Rightarrow> bool" where
  "mailbox_start m s \<longleftrightarrow>
     (\<exists>c s0 mb. mailbox_init c m s0 = Ok (OS_NO_ERR, s) \<and> mailboxes s m = Some mb \<and> mb_init mb = 1)"

definition mailbox_others :: "ptr \<Rightarrow> mbox_state \<Rightarrow> mbox_state \<Rightarrow> bool" where
  "mailbox_others m s s' \<longleftrightarrow>
     mailboxes s' m = mailboxes s m \<and>
     (\<forall>p \<in> {mailbox_sem_read m, mailbox_sem_write m}. sems (mb_sys s') p = sems (mb_sys s) p)"

definition mailbox_ops :: "nat \<Rightarrow> ptr \<Rightarrow> (ptr, mbox_state) channel_ops" where
  "mailbox_ops c m =
     \<lparr>post_call = mailbox_post c m, post_again = mailbox_post_resume c m,
      post_first = mailbox_post_first c m, post_wake = mailbox_post_wake c m, post_second = mailbox_put c m,
      pend_call = mailbox_pend c m, pend_again = mailbox_pend_resume c m,
      pend_first = mailbox_pend_first c m, pend_wake = mailbox_pend_wake c m, pend_second = mailbox_take c m\<rparr>"

definition mailbox_history ::
    "nat \<Rightarrow> ptr \<Rightarrow> (nat \<Rightarrow> ptr chan_pc) \<Rightarrow> ptr chan_event list \<Rightarrow> mbox_state \<Rightarrow> bool" where
  "mailbox_history c m = chan_history (mailbox_ops c m) (mailbox_start m) (mailbox_others m)"

text \<open>A live mailbox that holds nothing or its value.\<close>

definition mb_repr :: "ptr \<Rightarrow> mbox_state \<Rightarrow> ptr list \<Rightarrow> bool" where
  "mb_repr m s xs \<longleftrightarrow>
     m \<noteq> NULL \<and> sem_live (mailbox_sem_read m) (mb_sys s) \<and> sem_live (mailbox_sem_write m) (mb_sys s) \<and>
     (\<exists>mb. mailboxes s m = Some mb \<and> mb_init mb = 1 \<and> (xs = [] \<or> xs = [mb_value mb]))"

lemma mailbox_sems_differ [simp]:
  "mailbox_sem_read m \<noteq> mailbox_sem_write m" "mailbox_sem_write m \<noteq> mailbox_sem_read m"
  by (simp_all add: mailbox_sem_read_def mailbox_sem_write_def)

lemma on_mb_sys_Ok:
  "on_mb_sys f s = Ok (r, s') \<longleftrightarrow> (\<exists>k. f (mb_sys s) = Ok (r, k) \<and> s' = s\<lparr>mb_sys := k\<rparr>)"
  by (auto simp: on_mb_sys_def andthen_eq_Ok)

lemma mailbox_start_law:
  assumes "mailbox_start m s"
  shows "mb_repr m s [] \<and> sem_count (mailbox_sem_read m) (mb_sys s) = 0 \<and> sem_count (mailbox_sem_write m) (mb_sys s) = 1"
proof -
  from assms obtain c s0 mb where i: "mailbox_init c m s0 = Ok (OS_NO_ERR, s)" "mailboxes s m = Some mb" "mb_init mb = 1"
    by (auto simp: mailbox_start_def)
  let ?s1 = "mailbox_clear m s0"
  obtain e1 k1 e2 k2 where k: "sem_init (mailbox_sem_read m) 0 (mb_sys ?s1) = (e1, k1)"
    "sem_init (mailbox_sem_write m) 1 k1 = (e2, k2)" by fastforce
  have m: "mailboxes ?s1 m = Some \<lparr>mb_value = NULL, mb_init = 0, mb_state = 0\<rparr>" by (simp add: mailbox_clear_def)
  have ok: "m \<noteq> NULL \<and> e1 = OS_NO_ERR \<and> e2 = OS_NO_ERR \<and> mb_sys s = k2"
    using i k m
    by (auto simp: mailbox_init_def Let_def set_mailbox_def on_mb_sys_Ok andthen_eq_Ok modify_eq_Ok split: if_splits)
  have "sem_live (mailbox_sem_read m) k1 \<and> sem_count (mailbox_sem_read m) k1 = 0"
    using sem_init_live [of "mailbox_sem_read m" 0 "mb_sys ?s1" k1] k(1) ok by simp
  moreover have "sem_live (mailbox_sem_write m) k2 \<and> sem_count (mailbox_sem_write m) k2 = 1 \<and>
      (\<forall>q. q \<noteq> mailbox_sem_write m \<longrightarrow> sem_live q k2 = sem_live q k1 \<and> sem_count q k2 = sem_count q k1)"
    using sem_init_live [of "mailbox_sem_write m" 1 k1 k2] k(2) ok by simp
  ultimately show ?thesis using i(2,3) ok by (simp add: mb_repr_def)
qed

lemma mailbox_others_law:
  "mailbox_others m s s' \<Longrightarrow> mb_repr m s xs \<Longrightarrow>
     mb_repr m s' xs \<and> sem_count (mailbox_sem_read m) (mb_sys s') = sem_count (mailbox_sem_read m) (mb_sys s) \<and>
     sem_count (mailbox_sem_write m) (mb_sys s') = sem_count (mailbox_sem_write m) (mb_sys s)"
  by (simp add: mailbox_others_def mb_repr_def sem_live_def sem_count_def)

lemma mailbox_pended_simps [simp]:
  "mailbox_pended (Returned OS_NO_ERR) = Returned OS_NO_ERR" "mailbox_pended Switched = Switched"
  by (simp_all add: mailbox_pended_def)

text \<open>The first part of a call on a live mailbox is the pend on its semaphore.\<close>

lemma mailbox_pend_split:
  assumes "andthen (on_mb_sys f s) (\<lambda>(r, s). Ok (mailbox_pended r, s)) = Ok (r, s')" "mb_repr m s xs" "sem_live p (mb_sys s)"
    and "f = sem_pend c p \<or> f = sem_pend_resume c p"
  shows "mb_repr m s' xs \<and> (\<forall>q. q \<noteq> p \<longrightarrow> sem_count q (mb_sys s') = sem_count q (mb_sys s)) \<and>
         (r = Returned OS_NO_ERR \<and> 1 \<le> sem_count p (mb_sys s) \<and> sem_count p (mb_sys s') = sem_count p (mb_sys s) - 1 \<or>
          r = Switched \<and> sem_count p (mb_sys s') = sem_count p (mb_sys s))"
proof -
  from assms(1) obtain r1 k where k: "f (mb_sys s) = Ok (r1, k)" "s' = s\<lparr>mb_sys := k\<rparr>" "r = mailbox_pended r1"
    by (auto simp: andthen_eq_Ok on_mb_sys_Ok)
  have "sem_pend c p (mb_sys s) = Ok (r1, k) \<or> sem_pend_resume c p (mb_sys s) = Ok (r1, k)" using assms(4) k(1) by auto
  from sem_pended [OF this assms(3)] k(2,3) assms(2) show ?thesis by (auto simp: mb_repr_def)
qed

lemma mailbox_write_law:
  assumes "mailbox_post_first c m s = Ok (r, s') \<or> mailbox_post_wake c m s = Ok (r, s')" "mb_repr m s xs"
  shows "mb_repr m s' xs \<and> sem_count (mailbox_sem_read m) (mb_sys s') = sem_count (mailbox_sem_read m) (mb_sys s) \<and>
         (r = Returned OS_NO_ERR \<and> 1 \<le> sem_count (mailbox_sem_write m) (mb_sys s) \<and>
            sem_count (mailbox_sem_write m) (mb_sys s') = sem_count (mailbox_sem_write m) (mb_sys s) - 1 \<or>
          r = Switched \<and> sem_count (mailbox_sem_write m) (mb_sys s') = sem_count (mailbox_sem_write m) (mb_sys s))"
proof -
  from assms(2) obtain mb where mb: "mailboxes s m = Some mb" "mb_init mb = 1" "sem_live (mailbox_sem_write m) (mb_sys s)" "m \<noteq> NULL"
    by (auto simp: mb_repr_def)
  obtain f where "f = sem_pend c (mailbox_sem_write m) \<or> f = sem_pend_resume c (mailbox_sem_write m)"
    "andthen (on_mb_sys f s) (\<lambda>(r, s). Ok (mailbox_pended r, s)) = Ok (r, s')"
    using assms(1) mb by (auto simp: mailbox_post_first_def mailbox_post_wake_def deref_def)
  from mailbox_pend_split [OF this(2) assms(2) mb(3) this(1)] show ?thesis by simp
qed

lemma mailbox_read_law:
  assumes "mailbox_pend_first c m s = Ok (r, s') \<or> mailbox_pend_wake c m s = Ok (r, s')" "mb_repr m s xs"
  shows "mb_repr m s' xs \<and> sem_count (mailbox_sem_write m) (mb_sys s') = sem_count (mailbox_sem_write m) (mb_sys s) \<and>
         (r = Returned OS_NO_ERR \<and> 1 \<le> sem_count (mailbox_sem_read m) (mb_sys s) \<and>
            sem_count (mailbox_sem_read m) (mb_sys s') = sem_count (mailbox_sem_read m) (mb_sys s) - 1 \<or>
          r = Switched \<and> sem_count (mailbox_sem_read m) (mb_sys s') = sem_count (mailbox_sem_read m) (mb_sys s))"
proof -
  from assms(2) obtain mb where mb: "mailboxes s m = Some mb" "mb_init mb = 1" "sem_live (mailbox_sem_read m) (mb_sys s)" "m \<noteq> NULL"
    by (auto simp: mb_repr_def)
  obtain f where "f = sem_pend c (mailbox_sem_read m) \<or> f = sem_pend_resume c (mailbox_sem_read m)"
    "andthen (on_mb_sys f s) (\<lambda>(r, s). Ok (mailbox_pended r, s)) = Ok (r, s')"
    using assms(1) mb by (auto simp: mailbox_pend_first_def mailbox_pend_wake_def deref_def)
  from mailbox_pend_split [OF this(2) assms(2) mb(3) this(1)] show ?thesis by simp
qed

lemma mailbox_put_law:
  assumes "mailbox_put c m v s = Ok (r, s')" "mb_repr m s xs" "length xs < 1"
    and "0 \<le> sem_count (mailbox_sem_read m) (mb_sys s)" "sem_count (mailbox_sem_read m) (mb_sys s) < 1"
  shows "(r = Returned OS_NO_ERR \<or> r = Yielded OS_NO_ERR) \<and> mb_repr m s' (xs @ [v]) \<and>
         sem_count (mailbox_sem_read m) (mb_sys s') = sem_count (mailbox_sem_read m) (mb_sys s) + 1 \<and>
         sem_count (mailbox_sem_write m) (mb_sys s') = sem_count (mailbox_sem_write m) (mb_sys s)"
proof -
  from assms(2) obtain mb where mb: "mailboxes s m = Some mb" "mb_init mb = 1" by (auto simp: mb_repr_def)
  let ?s1 = "s\<lparr>mailboxes := (mailboxes s)(m \<mapsto> mb\<lparr>mb_value := v\<rparr>)\<rparr>"
  from assms(1) mb obtain r1 k where k: "sem_post_critical c (mailbox_sem_read m) (mb_sys ?s1) = Ok (r1, k)"
    "s' = ?s1\<lparr>mb_sys := k\<rparr>" "r = map_call (\<lambda>err. if err \<noteq> OS_NO_ERR then OS_ERR_MAILBOX_NON_INITIALIZED else OS_NO_ERR) r1"
    by (auto simp: mailbox_put_def set_mailbox_def modify_def andthen_eq_Ok on_mb_sys_Ok)
  have "sem_live (mailbox_sem_read m) (mb_sys ?s1)" using assms(2) by (simp add: mb_repr_def)
  from sem_posted [OF k(1) this] assms(4,5)
  have p: "r1 = Returned OS_NO_ERR \<or> r1 = Yielded OS_NO_ERR"
    "\<forall>q. sem_live q (mb_sys s') = sem_live q (mb_sys s) \<and> sem_count q (mb_sys s') =
      (if q = mailbox_sem_read m then sem_count q (mb_sys s) + 1 else sem_count q (mb_sys s))"
    using k(2) by simp_all
  moreover have "r = r1" using p(1) k(3) by auto
  moreover have "mailboxes s' m = Some (mb\<lparr>mb_value := v\<rparr>)" using k(2) by simp
  ultimately show ?thesis using assms(2,3) mb by (simp add: mb_repr_def)
qed

lemma mailbox_take_law:
  assumes "mailbox_take c m s = Ok (q, s')" "mb_repr m s (x # xs)"
    and "0 \<le> sem_count (mailbox_sem_write m) (mb_sys s)" "sem_count (mailbox_sem_write m) (mb_sys s) < 1"
  shows "(q = Returned (x, OS_NO_ERR) \<or> q = Yielded (x, OS_NO_ERR)) \<and> mb_repr m s' xs \<and>
         sem_count (mailbox_sem_write m) (mb_sys s') = sem_count (mailbox_sem_write m) (mb_sys s) + 1 \<and>
         sem_count (mailbox_sem_read m) (mb_sys s') = sem_count (mailbox_sem_read m) (mb_sys s)"
proof -
  from assms(2) obtain mb where mb: "mailboxes s m = Some mb" "mb_init mb = 1" "x = mb_value mb" "xs = []"
    by (auto simp: mb_repr_def)
  from assms(1) mb(1,2) obtain r k where k: "sem_post_critical c (mailbox_sem_write m) (mb_sys s) = Ok (r, k)"
    "s' = s\<lparr>mb_sys := k\<rparr>"
    "q = map_call (\<lambda>err. if err \<noteq> OS_NO_ERR then (NULL, OS_ERR_MAILBOX_NON_INITIALIZED) else (mb_value mb, OS_NO_ERR)) r"
    by (auto simp: mailbox_take_def deref_def andthen_eq_Ok on_mb_sys_Ok Let_def)
  have "sem_live (mailbox_sem_write m) (mb_sys s)" using assms(2) by (simp add: mb_repr_def)
  from sem_posted [OF k(1) this assms(3)] assms(4)
  have p: "r = Returned OS_NO_ERR \<or> r = Yielded OS_NO_ERR"
    "\<forall>p. sem_live p (mb_sys s') = sem_live p (mb_sys s) \<and> sem_count p (mb_sys s') =
      (if p = mailbox_sem_write m then sem_count p (mb_sys s) + 1 else sem_count p (mb_sys s))"
    using k(2) by simp_all
  have "q = Returned (x, OS_NO_ERR) \<or> q = Yielded (x, OS_NO_ERR)" using k(3) p(1) mb(3) by auto
  moreover have "mailboxes s' = mailboxes s" using k(2) by simp
  ultimately show ?thesis using assms(2) p(2) mb by (simp add: mb_repr_def)
qed

interpretation mailbox_chan: channel 1 "\<lambda>s. sem_count (mailbox_sem_read m) (mb_sys s)"
    "\<lambda>s. sem_count (mailbox_sem_write m) (mb_sys s)" "mb_repr m" "mailbox_ops c m"
    "mailbox_start m" "mailbox_others m" NULL for c m
proof unfold_locales
  fix s s' :: mbox_state and xs x v r q
  show "mailbox_start m s \<Longrightarrow> mb_repr m s [] \<and> sem_count (mailbox_sem_read m) (mb_sys s) = 0 \<and>
      sem_count (mailbox_sem_write m) (mb_sys s) = int 1" using mailbox_start_law by simp
  show "mailbox_others m s s' \<Longrightarrow> mb_repr m s xs \<Longrightarrow> mb_repr m s' xs \<and>
      sem_count (mailbox_sem_read m) (mb_sys s') = sem_count (mailbox_sem_read m) (mb_sys s) \<and>
      sem_count (mailbox_sem_write m) (mb_sys s') = sem_count (mailbox_sem_write m) (mb_sys s)"
    by (rule mailbox_others_law)
qed (unfold mailbox_ops_def channel_ops.select_convs mailbox_post_def mailbox_post_resume_def mailbox_pend_def mailbox_pend_resume_def
      mailbox_post_after_def mailbox_pend_after_def,
     simp_all add: mailbox_write_law [of c m] mailbox_read_law [of c m] mailbox_put_law [of c m]
       mailbox_put_law [of c m _ _ _ _ "[]", simplified] mailbox_take_law [of c m])

section \<open>Properties\<close>

text \<open>C5. A mailbox delivers: in every history of whole, blocked, continued and interrupted calls of
  \<^verbatim>\<open>mailbox_post\<close> and \<^verbatim>\<open>mailbox_pend\<close> by any number of threads of one CPU, no call fails and the values
  the pends return are exactly the values of the posts, in order, none lost and none twice, apart from at most one
  value still in the box; at most one thread is past its semaphore, and with no reader on its
  way \<^verbatim>\<open>mailbox_isempty\<close> tells whether everything was taken.\<close>

theorem mailbox_delivers:
  assumes "mailbox_history c m pcs h s"
  shows "\<exists>mb. mailboxes s m = Some mb \<and> (\<forall>e. Failed e \<notin> set h) \<and>
              (sent h = taken h \<or> sent h = taken h @ [mb_value mb]) \<and>
              readers pcs + writers pcs \<le> 1 \<and> (readers pcs = 1 \<longrightarrow> sent h \<noteq> taken h) \<and> (writers pcs = 1 \<longrightarrow> sent h = taken h) \<and>
              (readers pcs = 0 \<longrightarrow> mailbox_isempty m s = Ok (of_bool (sent h = taken h), OS_NO_ERR))"
proof -
  from mailbox_chan.history_exact [OF assms [unfolded mailbox_history_def]] obtain xs where
    h: "\<forall>e. Failed e \<notin> set h" and
    xs: "mb_repr m s xs" "sent h = taken h @ xs" "int (length xs) = sem_count (mailbox_sem_read m) (mb_sys s) + int (readers pcs)"
    "1 - int (length xs) = sem_count (mailbox_sem_write m) (mb_sys s) + int (writers pcs)"
    "0 \<le> sem_count (mailbox_sem_read m) (mb_sys s)" "0 \<le> sem_count (mailbox_sem_write m) (mb_sys s)"
    unfolding mailbox_chan.chan_ok_def by (elim exE conjE) simp
  from xs(1) obtain mb sm where mb: "m \<noteq> NULL" "mailboxes s m = Some mb" "mb_init mb = 1" "xs = [] \<or> xs = [mb_value mb]"
    "sems (mb_sys s) (mailbox_sem_read m) = Some sm" by (auto simp: mb_repr_def sem_live_def)
  have "mailbox_isempty m s = Ok (of_bool (sent h = taken h), OS_NO_ERR)" if "readers pcs = 0"
  proof -
    have "sint (sem_level sm) = int (length xs)" using xs(3) that mb(5) by (simp add: sem_count_def)
    then have "sem_level sm = 0 \<longleftrightarrow> xs = []" using mb(4) by (auto simp: signed_eq_0_iff)
    then show ?thesis using mb(1-3,5) xs(2) by (simp add: mailbox_isempty_def deref_def)
  qed
  with xs(2-6) mb(2,4) h show ?thesis by auto
qed

text \<open>An address space with an initialised heap of the given end and no queue yet.\<close>

definition ex_mbox :: "u32 \<Rightarrow> mbox_state" where
  "ex_mbox hi =
     \<lparr>mb_sys = \<lparr>sched = ex_sched\<lparr>kq := \<lparr>heap = snd (kheap_init 0x100000 hi blank_heap),
                                    nodes = Map.empty, queues = Map.empty\<rparr>\<rparr>,
                sems = Map.empty\<rparr>,
      mailboxes = Map.empty\<rparr>"

lemma ex_mbox_runs:
  "case mailbox_init 0 0x2000 (ex_mbox 0x101000) of
     Ok (e, s) \<Rightarrow> e = OS_NO_ERR \<and> (case mailboxes s 0x2000 of Some mb \<Rightarrow> mb_init mb = 1 | None \<Rightarrow> False) \<and>
       (case mailbox_post 0 0x2000 0x1234 s of
          Ok (r, s1) \<Rightarrow> r = Returned OS_NO_ERR \<and>
            (case mailbox_pend 0 0x2000 s1 of
               Ok (q, s2) \<Rightarrow> q = Returned (0x1234, OS_NO_ERR) \<and>
                 (case mailbox_post_first 0 0x2000 s2 of Ok (r', s3) \<Rightarrow> r' = Returned OS_NO_ERR | _ \<Rightarrow> False)
             | _ \<Rightarrow> False)
        | _ \<Rightarrow> False)
   | _ \<Rightarrow> False"
  by code_simp

text \<open>Thread 1 posts, thread 2 pends, thread 3 is interrupted in its post.\<close>

theorem mailbox_delivers_witness:
  "\<exists>pcs s mb. mailbox_history 0 0x2000 pcs [Posted 0x1234, Pended 0x1234] s \<and> pcs 3 = Post_past 5 \<and>
     mailboxes s 0x2000 = Some mb \<and> mailbox_isempty 0x2000 s = Ok (1, OS_NO_ERR)"
proof -
  let ?H = "mailbox_history 0 0x2000" and ?pcs = "(\<lambda>_. Idle)(1 := Idle, 2 := Idle, 3 := Post_past 5)"
  from ex_mbox_runs obtain s s1 s2 s3 where i: "mailbox_init 0 0x2000 (ex_mbox 0x101000) = Ok (OS_NO_ERR, s)"
    "case mailboxes s 0x2000 of Some mb \<Rightarrow> mb_init mb = 1 | None \<Rightarrow> False"
    and p1: "mailbox_post 0 0x2000 0x1234 s = Ok (Returned OS_NO_ERR, s1)"
    and p2: "mailbox_pend 0 0x2000 s1 = Ok (Returned (0x1234, OS_NO_ERR), s2)"
    and p3: "mailbox_post_first 0 0x2000 s2 = Ok (Returned OS_NO_ERR, s3)"
    unfolding returns_test by (elim exE conjE, hypsubst) (rule that)
  have st: "mailbox_start 0x2000 s" using i by (auto simp: mailbox_start_def split: option.splits)
  have "?H (\<lambda>_. Idle) [] s" using st by (simp add: mailbox_history_def chan_history.start)
  from chan_history.post [OF this [unfolded mailbox_history_def], where t = 1 and v = "0x1234" and s' = s1]
  have h1: "?H ((\<lambda>_. Idle)(1 := Idle)) [Posted 0x1234] s1" using p1 by (simp add: mailbox_history_def mailbox_ops_def)
  from chan_history.pend [OF h1 [unfolded mailbox_history_def], where t = 2 and s' = s2]
  have h2: "?H ((\<lambda>_. Idle)(1 := Idle, 2 := Idle)) [Posted 0x1234, Pended 0x1234] s2"
    using p2 by (simp add: mailbox_history_def mailbox_ops_def)
  from chan_history.post_first [OF h2 [unfolded mailbox_history_def], where t = 3 and v = 5 and s' = s3]
  have h3: "?H ?pcs [Posted 0x1234, Pended 0x1234] s3"
    using p3 by (simp add: mailbox_history_def mailbox_ops_def)
  have "readers ?pcs = 0" by (simp add: at_pc_def)
  with mailbox_delivers [OF h3] obtain mb where "mailboxes s3 0x2000 = Some mb" "mailbox_isempty 0x2000 s3 = Ok (1, OS_NO_ERR)"
    by (auto simp: sent_def taken_def map_filter_def)
  with h3 show ?thesis by (intro exI [of _ ?pcs] exI [of _ s3] exI [of _ mb]) simp
qed

text \<open>\<^verbatim>\<open>mailbox_init\<close> hides a failure: when the second semaphore cannot be allocated, the error is
  overwritten by the result of destroying the first one, so the call returns \<^verbatim>\<open>OS_NO_ERR\<close> for a mailbox that
  is not initialised and that every later pend refuses.\<close>

theorem mailbox_init_hides_failure:
  assumes "m \<noteq> NULL" "sem_init (mailbox_sem_read m) 0 (mb_sys (mailbox_clear m s)) = (OS_NO_ERR, k1)"
    and "sem_init (mailbox_sem_write m) 1 k1 = (OS_ERR_MALLOC, k2)"
  shows "\<exists>s'. mailbox_init cpu m s = Ok (OS_NO_ERR, s') \<and>
              mailbox_pend c m s' = Ok (Returned (NULL, OS_ERR_MAILBOX_NON_INITIALIZED), s')"
proof -
  from sem_destroy_fresh [OF assms(2,3)] obtain k3
    where k3: "sem_destroy cpu (mailbox_sem_read m) k2 = Ok (OS_NO_ERR, k3)" by auto
  let ?s' = "(mailbox_clear m s)\<lparr>mb_sys := k3\<rparr>"
  have "mailbox_init cpu m s = Ok (OS_NO_ERR, ?s')"
    using assms k3 by (simp add: mailbox_init_def Let_def on_mb_sys_def)
  moreover have "mailbox_pend c m ?s' = Ok (Returned (NULL, OS_ERR_MAILBOX_NON_INITIALIZED), ?s')"
    using assms(1) by (simp add: mailbox_pend_def mailbox_pend_first_def mailbox_pend_after_def mailbox_clear_def deref_def)
  ultimately show ?thesis by blast
qed

lemma ex_mbox_short:
  "case sem_init 0x2008 0 (mb_sys (mailbox_clear 0x2000 (ex_mbox 0x100070))) of
     (e1, k1) \<Rightarrow> e1 = OS_NO_ERR \<and> fst (sem_init 0x2020 1 k1) = OS_ERR_MALLOC"
  by code_simp

theorem mailbox_init_hides_failure_witness:
  "\<exists>s'. mailbox_init 0 0x2000 (ex_mbox 0x100070) = Ok (OS_NO_ERR, s') \<and>
        mailbox_pend 0 0x2000 s' = Ok (Returned (NULL, OS_ERR_MAILBOX_NON_INITIALIZED), s')"
proof -
  obtain k1 k2 where k: "sem_init (mailbox_sem_read 0x2000) 0 (mb_sys (mailbox_clear 0x2000 (ex_mbox 0x100070))) = (OS_NO_ERR, k1)"
    "sem_init (mailbox_sem_write 0x2000) 1 k1 = (OS_ERR_MALLOC, k2)"
    using ex_mbox_short by (auto simp: mailbox_sem_read_def mailbox_sem_write_def prod_eq_iff split: prod.splits)
  show ?thesis by (rule mailbox_init_hides_failure [OF _ k]) simp
qed

end
