(* ===== verification/UserQueue.thy ===== *)
theory UserQueue
  imports Semaphore Channel
begin

unbundle bit_operations_syntax

text \<open>
  The message queues, \<^verbatim>\<open>Sources/comm/queue.c\<close>: a bounded channel between threads, a circular array
  guarded by two semaphores embedded in the structure. The operations are cut where the thread may be
  switched out, as in the theory \<^verbatim>\<open>Mailbox\<close>: \<open>queue_post_first\<close> and \<open>queue_pend_first\<close> end with \<^verbatim>\<open>sem_pend\<close>,
  \<open>queue_take\<close> and \<open>queue_put\<close> are the second critical sections. As there, the \<^verbatim>\<open>sem_post\<close> at the end of a section
  switches threads with the spinlock held and the lock does not protect the indices from other CPUs any more, so
  the property of the channel is one of the threads of one CPU. The array is an object of its own in the store \<open>cells\<close>, as long as the number of whole
  elements in the bytes that were asked for; using it out of its bounds or after it was freed is a
  \<open>Fault\<close>.
\<close>

section \<open>State\<close>

record queue_t =
  container :: ptr
  uq_size :: u32
  max_size :: u32
  index_top :: u32
  index_bot :: u32
  uq_init :: u32

record uq_state =
  uq_sys :: sem_state
  uqs :: "ptr \<rightharpoonup> queue_t"
  cells :: "ptr \<rightharpoonup> ptr list"

definition queue_sem_read :: "ptr \<Rightarrow> ptr" where "queue_sem_read q = q + 24"
definition queue_sem_write :: "ptr \<Rightarrow> ptr" where "queue_sem_write q = q + 48"

definition on_uq_sys ::
    "(sem_state \<Rightarrow> ('a \<times> sem_state) outcome) \<Rightarrow> uq_state \<Rightarrow> ('a \<times> uq_state) outcome" where
  "on_uq_sys f s = andthen (f (uq_sys s)) (\<lambda>(r, k). Ok (r, s\<lparr>uq_sys := k\<rparr>))"

definition set_uq :: "ptr \<Rightarrow> (queue_t \<Rightarrow> queue_t) \<Rightarrow> uq_state \<Rightarrow> uq_state outcome" where
  "set_uq p f s = andthen (modify (uqs s) p f) (\<lambda>m. Ok (s\<lparr>uqs := m\<rparr>))"

definition cell_read :: "ptr \<Rightarrow> u32 \<Rightarrow> uq_state \<Rightarrow> ptr outcome" where
  "cell_read p i s =
     andthen (deref (cells s) p) (\<lambda>cs. if unat i < length cs then Ok (cs ! unat i) else Fault)"

definition cell_write :: "ptr \<Rightarrow> u32 \<Rightarrow> ptr \<Rightarrow> uq_state \<Rightarrow> uq_state outcome" where
  "cell_write p i v s =
     andthen (deref (cells s) p) (\<lambda>cs.
       if unat i < length cs then Ok (s\<lparr>cells := (cells s)(p \<mapsto> cs[unat i := v])\<rparr>) else Fault)"

text \<open>The next index in the circular array; a division by zero traps.\<close>

definition next_index :: "u32 \<Rightarrow> u32 \<Rightarrow> u32 outcome" where
  "next_index i n = (if n = 0 then Fault else Ok ((i + 1) mod n))"

section \<open>Operations\<close>

definition queue_clear :: "ptr \<Rightarrow> uq_state \<Rightarrow> uq_state" where
  "queue_clear q s =
     s\<lparr>uq_sys := (uq_sys s)\<lparr>sems := (sems (uq_sys s))(queue_sem_read q \<mapsto> zero_sem, queue_sem_write q \<mapsto> zero_sem)\<rparr>,
       uqs := (uqs s)(q \<mapsto> \<lparr>container = NULL, uq_size = 0, max_size = 0, index_top = 0, index_bot = 0, uq_init = 0\<rparr>)\<rparr>"

text \<open>The elements of the array are whatever the memory held; the model writes \<^verbatim>\<open>NULL\<close>.\<close>

definition queue_make_array :: "nat \<Rightarrow> ptr \<Rightarrow> u32 \<Rightarrow> uq_state \<Rightarrow> (OS_RETURN_E \<times> uq_state) outcome" where
  "queue_make_array cpu_id q n s =
     (let (p, k) = sched_kmalloc (4 * n) (sched (uq_sys s));
          s = s\<lparr>uq_sys := (uq_sys s)\<lparr>sched := k\<rparr>\<rparr>
      in andthen (set_uq q (\<lambda>x. x\<lparr>container := p\<rparr>) s) (\<lambda>s.
         if p = NULL
         then andthen (on_uq_sys (sem_destroy cpu_id (queue_sem_read q)) s) (\<lambda>(err, s).
              if err \<noteq> OS_NO_ERR then Ok (err, s)
              else andthen (on_uq_sys (sem_destroy cpu_id (queue_sem_write q)) s) (\<lambda>(err, s).
                   if err \<noteq> OS_NO_ERR then Ok (err, s) else Ok (OS_ERR_MALLOC, s)))
         else let s = s\<lparr>cells := (cells s)(p \<mapsto> replicate (unat (4 * n) div 4) NULL)\<rparr>
              in andthen (set_uq q (\<lambda>x. x\<lparr>max_size := n, uq_init := 1\<rparr>) s) (\<lambda>s. Ok (OS_NO_ERR, s))))"

definition queue_init :: "nat \<Rightarrow> ptr \<Rightarrow> u32 \<Rightarrow> uq_state \<Rightarrow> (OS_RETURN_E \<times> uq_state) outcome" where
  "queue_init cpu_id q n s =
     (if q = NULL then Ok (OS_ERR_NULL_POINTER, s)
      else let s = queue_clear q s;
               (err, k) = sem_init (queue_sem_read q) 0 (uq_sys s);
               s = s\<lparr>uq_sys := k\<rparr>
           in if err \<noteq> OS_NO_ERR then Ok (err, s)
              else let (err, k) = sem_init (queue_sem_write q) n (uq_sys s);
                       s = s\<lparr>uq_sys := k\<rparr>
                   in if err \<noteq> OS_NO_ERR then on_uq_sys (sem_destroy cpu_id (queue_sem_read q)) s
                      else queue_make_array cpu_id q n s)"

definition queue_destroy :: "nat \<Rightarrow> ptr \<Rightarrow> uq_state \<Rightarrow> (u32 \<times> uq_state) outcome" where
  "queue_destroy cpu_id q s =
     (if q = NULL then Ok (os_code OS_ERR_NULL_POINTER, s)
      else andthen (deref (uqs s) q) (\<lambda>qu.
        if uq_init qu \<noteq> 1 then Ok (os_code OS_ERR_QUEUE_NON_INITIALIZED, s)
        else let s = s\<lparr>uq_sys := (uq_sys s)\<lparr>sched := sched_kfree (container qu) (sched (uq_sys s))\<rparr>,
                       cells := (cells s)(container qu := None)\<rparr>
             in andthen (set_uq q (\<lambda>x. x\<lparr>uq_init := 0\<rparr>) s) (\<lambda>s.
                andthen (on_uq_sys (sem_destroy cpu_id (queue_sem_read q)) s) (\<lambda>(e1, s).
                andthen (on_uq_sys (sem_destroy cpu_id (queue_sem_write q)) s) (\<lambda>(e2, s).
                Ok (os_code e1 OR os_code e2, s))))))"

text \<open>The second critical section of \<^verbatim>\<open>queue_pend\<close>.\<close>

definition queue_take :: "nat \<Rightarrow> ptr \<Rightarrow> uq_state \<Rightarrow> ((ptr \<times> OS_RETURN_E) call \<times> uq_state) outcome" where
  "queue_take cpu_id q s =
     andthen (deref (uqs s) q) (\<lambda>qu.
     if uq_init qu \<noteq> 1 then Ok (Returned (NULL, OS_ERR_QUEUE_NON_INITIALIZED), s)
     else andthen (cell_read (container qu) (index_bot qu) s) (\<lambda>ret_val.
          andthen (next_index (index_bot qu) (max_size qu)) (\<lambda>bot.
          andthen (set_uq q (\<lambda>x. x\<lparr>index_bot := bot, uq_size := uq_size x - 1\<rparr>) s) (\<lambda>s.
          andthen (on_uq_sys (sem_post_critical cpu_id (queue_sem_write q)) s) (\<lambda>(r, s).
          Ok (map_call (\<lambda>err. if err \<noteq> OS_NO_ERR then (NULL, OS_ERR_QUEUE_NON_INITIALIZED)
                              else (ret_val, OS_NO_ERR)) r, s))))))"

text \<open>Every error of \<^verbatim>\<open>sem_pend\<close> is reported as the queue not being initialised.\<close>

definition queue_pended :: "OS_RETURN_E call \<Rightarrow> OS_RETURN_E call" where
  "queue_pended = map_call (\<lambda>err. if err \<noteq> OS_NO_ERR then OS_ERR_QUEUE_NON_INITIALIZED else OS_NO_ERR)"

definition queue_pend_first :: "nat \<Rightarrow> ptr \<Rightarrow> uq_state \<Rightarrow> (OS_RETURN_E call \<times> uq_state) outcome" where
  "queue_pend_first cpu_id q s =
     (if q = NULL then Ok (Returned OS_ERR_NULL_POINTER, s)
      else andthen (deref (uqs s) q) (\<lambda>qu.
        if uq_init qu \<noteq> 1 then Ok (Returned OS_ERR_QUEUE_NON_INITIALIZED, s)
        else andthen (on_uq_sys (sem_pend cpu_id (queue_sem_read q)) s) (\<lambda>(r, s). Ok (queue_pended r, s))))"

definition queue_pend_wake :: "nat \<Rightarrow> ptr \<Rightarrow> uq_state \<Rightarrow> (OS_RETURN_E call \<times> uq_state) outcome" where
  "queue_pend_wake cpu_id q s =
     andthen (on_uq_sys (sem_pend_resume cpu_id (queue_sem_read q)) s) (\<lambda>(r, s). Ok (queue_pended r, s))"

definition queue_pend_after ::
    "nat \<Rightarrow> ptr \<Rightarrow> OS_RETURN_E call \<times> uq_state \<Rightarrow> ((ptr \<times> OS_RETURN_E) call \<times> uq_state) outcome" where
  "queue_pend_after cpu_id q = (\<lambda>(r, s).
     case r of
       Returned e \<Rightarrow> if e \<noteq> OS_NO_ERR then Ok (Returned (NULL, e), s) else queue_take cpu_id q s
     | Yielded e \<Rightarrow> Ok (Switched, s)
     | Switched \<Rightarrow> Ok (Switched, s))"

definition queue_pend ::
    "nat \<Rightarrow> ptr \<Rightarrow> uq_state \<Rightarrow> ((ptr \<times> OS_RETURN_E) call \<times> uq_state) outcome" where
  "queue_pend cpu_id q s = andthen (queue_pend_first cpu_id q s) (queue_pend_after cpu_id q)"

definition queue_pend_resume ::
    "nat \<Rightarrow> ptr \<Rightarrow> uq_state \<Rightarrow> ((ptr \<times> OS_RETURN_E) call \<times> uq_state) outcome" where
  "queue_pend_resume cpu_id q s = andthen (queue_pend_wake cpu_id q s) (queue_pend_after cpu_id q)"

text \<open>The second critical section of \<^verbatim>\<open>queue_post\<close>. Unlike the one of \<^verbatim>\<open>queue_pend\<close> it does not look at
  the initialisation again.\<close>

definition queue_put :: "nat \<Rightarrow> ptr \<Rightarrow> ptr \<Rightarrow> uq_state \<Rightarrow> (OS_RETURN_E call \<times> uq_state) outcome" where
  "queue_put cpu_id q element s =
     andthen (deref (uqs s) q) (\<lambda>qu.
     andthen (cell_write (container qu) (index_top qu) element s) (\<lambda>s.
     andthen (next_index (index_top qu) (max_size qu)) (\<lambda>top.
     andthen (set_uq q (\<lambda>x. x\<lparr>index_top := top, uq_size := uq_size x + 1\<rparr>) s) (\<lambda>s.
     andthen (on_uq_sys (sem_post_critical cpu_id (queue_sem_read q)) s) (\<lambda>(r, s).
     Ok (map_call (\<lambda>err. if err \<noteq> OS_NO_ERR then OS_ERR_QUEUE_NON_INITIALIZED else OS_NO_ERR) r, s))))))"

definition queue_post_first :: "nat \<Rightarrow> ptr \<Rightarrow> uq_state \<Rightarrow> (OS_RETURN_E call \<times> uq_state) outcome" where
  "queue_post_first cpu_id q s =
     (if q = NULL then Ok (Returned OS_ERR_NULL_POINTER, s)
      else andthen (deref (uqs s) q) (\<lambda>qu.
        if uq_init qu \<noteq> 1 then Ok (Returned OS_ERR_QUEUE_NON_INITIALIZED, s)
        else andthen (on_uq_sys (sem_pend cpu_id (queue_sem_write q)) s) (\<lambda>(r, s). Ok (queue_pended r, s))))"

definition queue_post_wake :: "nat \<Rightarrow> ptr \<Rightarrow> uq_state \<Rightarrow> (OS_RETURN_E call \<times> uq_state) outcome" where
  "queue_post_wake cpu_id q s =
     andthen (on_uq_sys (sem_pend_resume cpu_id (queue_sem_write q)) s) (\<lambda>(r, s). Ok (queue_pended r, s))"

definition queue_post_after ::
    "nat \<Rightarrow> ptr \<Rightarrow> ptr \<Rightarrow> OS_RETURN_E call \<times> uq_state \<Rightarrow> (OS_RETURN_E call \<times> uq_state) outcome" where
  "queue_post_after cpu_id q element = (\<lambda>(r, s).
     case r of
       Returned e \<Rightarrow> if e \<noteq> OS_NO_ERR then Ok (Returned e, s) else queue_put cpu_id q element s
     | Yielded e \<Rightarrow> Ok (Switched, s)
     | Switched \<Rightarrow> Ok (Switched, s))"

definition queue_post ::
    "nat \<Rightarrow> ptr \<Rightarrow> ptr \<Rightarrow> uq_state \<Rightarrow> (OS_RETURN_E call \<times> uq_state) outcome" where
  "queue_post cpu_id q element s = andthen (queue_post_first cpu_id q s) (queue_post_after cpu_id q element)"

definition queue_post_resume ::
    "nat \<Rightarrow> ptr \<Rightarrow> ptr \<Rightarrow> uq_state \<Rightarrow> (OS_RETURN_E call \<times> uq_state) outcome" where
  "queue_post_resume cpu_id q element s = andthen (queue_post_wake cpu_id q s) (queue_post_after cpu_id q element)"

definition queue_size :: "ptr \<Rightarrow> uq_state \<Rightarrow> (int \<times> OS_RETURN_E) outcome" where
  "queue_size q s =
     (if q = NULL then Ok (-1, OS_ERR_NULL_POINTER)
      else andthen (deref (uqs s) q) (\<lambda>qu.
        if uq_init qu \<noteq> 1 then Ok (-1, OS_ERR_QUEUE_NON_INITIALIZED)
        else Ok (sint (uq_size qu), OS_NO_ERR)))"

definition queue_isempty :: "ptr \<Rightarrow> uq_state \<Rightarrow> (int \<times> OS_RETURN_E) outcome" where
  "queue_isempty q s =
     andthen (queue_size q s) (\<lambda>(n, err). if n < 0 then Ok (-1, err) else Ok (of_bool (n = 0), err))"

section \<open>The circular array\<close>

text \<open>The array of a queue holds \<open>xs\<close>, oldest first, from the bottom index on and around the end.\<close>

definition ring_holds :: "nat \<Rightarrow> queue_t \<Rightarrow> ptr list \<Rightarrow> ptr list \<Rightarrow> bool" where
  "ring_holds cap qu cs xs \<longleftrightarrow>
     0 < cap \<and> cap < 2 ^ 30 \<and> length cs = cap \<and> unat (max_size qu) = cap \<and>
     unat (index_bot qu) < cap \<and> unat (index_top qu) = (unat (index_bot qu) + length xs) mod cap \<and>
     unat (uq_size qu) = length xs \<and> length xs \<le> cap \<and>
     (\<forall>i < length xs. cs ! ((unat (index_bot qu) + i) mod cap) = xs ! i)"

lemma next_index_step:
  assumes "unat n = cap" "cap < 2 ^ 30" "unat i < cap"
  shows "\<exists>j. next_index i n = Ok j \<and> unat j = (unat i + 1) mod cap"
proof -
  have "n \<noteq> 0" using assms by auto
  moreover have "unat (i + 1) = unat i + 1"
    using assms by (simp add: unat_word_ariths)
  ultimately show ?thesis using assms by (simp add: next_index_def unat_mod)
qed

lemma mod_add_inj:
  fixes b :: nat
  assumes "i < cap" "j < cap" "(b + i) mod cap = (b + j) mod cap"
  shows "i = j"
proof -
  have "k = l" if "k \<le> l" "l < cap" "(b + k) mod cap = (b + l) mod cap" for k l :: nat
  proof -
    have "cap dvd (b + l) - (b + k)" 
      using that(1,3) mod_eq_dvd_iff_nat [of "b + k" "b + l" cap] by fastforce
    then have "cap dvd l - k" by simp
    then show ?thesis using that(1,2) by (auto dest: dvd_imp_le)
  qed
  from this [of i j] this [of j i] assms show ?thesis by (cases "i \<le> j") auto
qed

lemma ring_put:
  assumes "ring_holds cap qu cs xs" "length xs < cap" "next_index (index_top qu) (max_size qu) = Ok j"
  shows "unat (index_top qu) < length cs"
    "ring_holds cap (qu\<lparr>index_top := j, uq_size := uq_size qu + 1\<rparr>) (cs[unat (index_top qu) := v]) (xs @ [v])"
proof -
  let ?b = "unat (index_bot qu)" and ?n = "length xs"
  note r = assms(1) [unfolded ring_holds_def]
  show top: "unat (index_top qu) < length cs" using r by simp
  have j: "unat j = (?b + (?n + 1)) mod cap"
    using next_index_step [of "max_size qu" cap "index_top qu"] r assms(3) top by (auto simp: mod_Suc_eq)
  have sz: "unat (uq_size qu + 1) = ?n + 1" using r by (simp add: unat_word_ariths)
  have "(cs[unat (index_top qu) := v]) ! ((?b + i) mod cap) = (xs @ [v]) ! i" if i: "i < ?n + 1" for i
  proof (cases "i = ?n")
    case True
    then show ?thesis using r by (simp add: nth_append)
  next
    case False
    then have "i < ?n" using i by simp
    then have "(?b + i) mod cap \<noteq> unat (index_top qu)"
      using mod_add_inj [of i cap ?n ?b] r assms(2) by auto
    then show ?thesis using r \<open>i < ?n\<close> by (simp add: nth_append)
  qed
  then show "ring_holds cap (qu\<lparr>index_top := j, uq_size := uq_size qu + 1\<rparr>) (cs[unat (index_top qu) := v]) (xs @ [v])"
    using r j sz assms(2) by (simp add: ring_holds_def)
qed

lemma ring_take:
  assumes "ring_holds cap qu cs (x # xs)" "next_index (index_bot qu) (max_size qu) = Ok j"
  shows "unat (index_bot qu) < length cs" "cs ! unat (index_bot qu) = x"
    "ring_holds cap (qu\<lparr>index_bot := j, uq_size := uq_size qu - 1\<rparr>) cs xs"
proof -
  let ?b = "unat (index_bot qu)" and ?n = "length xs"
  note r = assms(1) [unfolded ring_holds_def]
  show "?b < length cs" using r by simp
  have at: "cs ! ((?b + i) mod cap) = (x # xs) ! i" if "i < Suc ?n" for i using r that by simp
  show "cs ! ?b = x" using at [of 0] r by simp
  have j: "unat j = (?b + 1) mod cap"
    using next_index_step [of "max_size qu" cap "index_bot qu"] r assms(2) by auto
  have sz: "unat (uq_size qu - 1) = ?n" using r by (simp add: unat_sub_if')
  have "(unat j + i) mod cap = (?b + Suc i) mod cap" for i using j by (simp add: mod_simps)
  then show "ring_holds cap (qu\<lparr>index_bot := j, uq_size := uq_size qu - 1\<rparr>) cs xs"
    using r j sz at [of "Suc _"] by (simp add: ring_holds_def)
qed

section \<open>The channel\<close>

text \<open>The threads of CPU \<open>c\<close> that use one queue, from its initialisation on; everything else leaves it alone.\<close>

definition queue_start :: "nat \<Rightarrow> ptr \<Rightarrow> uq_state \<Rightarrow> bool" where
  "queue_start cap q s \<longleftrightarrow>
     0 < cap \<and> cap < 2 ^ 30 \<and>
     (\<exists>c s0 qu. queue_init c q (of_nat cap) s0 = Ok (OS_NO_ERR, s) \<and> uqs s q = Some qu \<and> uq_init qu = 1)"

definition queue_others :: "ptr \<Rightarrow> uq_state \<Rightarrow> uq_state \<Rightarrow> bool" where
  "queue_others q s s' \<longleftrightarrow>
     uqs s' q = uqs s q \<and>
     (\<forall>qu. uqs s q = Some qu \<longrightarrow> cells s' (container qu) = cells s (container qu)) \<and>
     (\<forall>p \<in> {queue_sem_read q, queue_sem_write q}. sems (uq_sys s') p = sems (uq_sys s) p)"

definition queue_ops :: "nat \<Rightarrow> ptr \<Rightarrow> (ptr, uq_state) channel_ops" where
  "queue_ops c q =
     \<lparr>post_call = queue_post c q, post_again = queue_post_resume c q,
      post_first = queue_post_first c q, post_wake = queue_post_wake c q, post_second = queue_put c q,
      pend_call = queue_pend c q, pend_again = queue_pend_resume c q,
      pend_first = queue_pend_first c q, pend_wake = queue_pend_wake c q, pend_second = queue_take c q\<rparr>"

definition queue_history ::
    "nat \<Rightarrow> nat \<Rightarrow> ptr \<Rightarrow> (nat \<Rightarrow> ptr chan_pc) \<Rightarrow> ptr chan_event list \<Rightarrow> uq_state \<Rightarrow> bool" where
  "queue_history c cap q = chan_history (queue_ops c q) (queue_start cap q) (queue_others q)"

definition uq_repr :: "nat \<Rightarrow> ptr \<Rightarrow> uq_state \<Rightarrow> ptr list \<Rightarrow> bool" where
  "uq_repr cap q s xs \<longleftrightarrow>
     q \<noteq> NULL \<and> sem_live (queue_sem_read q) (uq_sys s) \<and> sem_live (queue_sem_write q) (uq_sys s) \<and>
     (\<exists>qu cs. uqs s q = Some qu \<and> uq_init qu = 1 \<and> cells s (container qu) = Some cs \<and> ring_holds cap qu cs xs)"

lemma queue_sems_differ [simp]:
  "queue_sem_read q \<noteq> queue_sem_write q" "queue_sem_write q \<noteq> queue_sem_read q"
  by (simp_all add: queue_sem_read_def queue_sem_write_def)

lemma on_uq_sys_Ok:
  "on_uq_sys f s = Ok (r, s') \<longleftrightarrow> (\<exists>k. f (uq_sys s) = Ok (r, k) \<and> s' = s\<lparr>uq_sys := k\<rparr>)"
  by (auto simp: on_uq_sys_def andthen_eq_Ok)

lemma queue_others_law:
  "queue_others q s s' \<Longrightarrow> uq_repr cap q s xs \<Longrightarrow>
     uq_repr cap q s' xs \<and> sem_count (queue_sem_read q) (uq_sys s') = sem_count (queue_sem_read q) (uq_sys s) \<and>
     sem_count (queue_sem_write q) (uq_sys s') = sem_count (queue_sem_write q) (uq_sys s)"
  by (auto simp: queue_others_def uq_repr_def sem_live_def sem_count_def)

lemma queue_pended_simps [simp]:
  "queue_pended (Returned OS_NO_ERR) = Returned OS_NO_ERR" "queue_pended Switched = Switched"
  by (simp_all add: queue_pended_def)

text \<open>The first part of a call on a live queue is the pend on its semaphore.\<close>

lemma queue_pend_split:
  assumes "andthen (on_uq_sys f s) (\<lambda>(r, s). Ok (queue_pended r, s)) = Ok (r, s')" "uq_repr cap q s xs" "sem_live p (uq_sys s)"
    and "f = sem_pend c p \<or> f = sem_pend_resume c p"
  shows "uq_repr cap q s' xs \<and> (\<forall>p'. p' \<noteq> p \<longrightarrow> sem_count p' (uq_sys s') = sem_count p' (uq_sys s)) \<and>
         (r = Returned OS_NO_ERR \<and> 1 \<le> sem_count p (uq_sys s) \<and> sem_count p (uq_sys s') = sem_count p (uq_sys s) - 1 \<or>
          r = Switched \<and> sem_count p (uq_sys s') = sem_count p (uq_sys s))"
proof -
  from assms(1) obtain r1 k where k: "f (uq_sys s) = Ok (r1, k)" "s' = s\<lparr>uq_sys := k\<rparr>" "r = queue_pended r1"
    by (auto simp: andthen_eq_Ok on_uq_sys_Ok)
  have "sem_pend c p (uq_sys s) = Ok (r1, k) \<or> sem_pend_resume c p (uq_sys s) = Ok (r1, k)" using assms(4) k(1) by auto
  from sem_pended [OF this assms(3)] k(2,3) assms(2) show ?thesis by (auto simp: uq_repr_def)
qed

lemma queue_write_law:
  assumes "queue_post_first c q s = Ok (r, s') \<or> queue_post_wake c q s = Ok (r, s')" "uq_repr cap q s xs"
  shows "uq_repr cap q s' xs \<and> sem_count (queue_sem_read q) (uq_sys s') = sem_count (queue_sem_read q) (uq_sys s) \<and>
         (r = Returned OS_NO_ERR \<and> 1 \<le> sem_count (queue_sem_write q) (uq_sys s) \<and>
            sem_count (queue_sem_write q) (uq_sys s') = sem_count (queue_sem_write q) (uq_sys s) - 1 \<or>
          r = Switched \<and> sem_count (queue_sem_write q) (uq_sys s') = sem_count (queue_sem_write q) (uq_sys s))"
proof -
  from assms(2) obtain qu where qu: "uqs s q = Some qu" "uq_init qu = 1" "sem_live (queue_sem_write q) (uq_sys s)" "q \<noteq> NULL"
    by (auto simp: uq_repr_def)
  obtain f where "f = sem_pend c (queue_sem_write q) \<or> f = sem_pend_resume c (queue_sem_write q)"
    "andthen (on_uq_sys f s) (\<lambda>(r, s). Ok (queue_pended r, s)) = Ok (r, s')"
    using assms(1) qu by (auto simp: queue_post_first_def queue_post_wake_def deref_def)
  from queue_pend_split [OF this(2) assms(2) qu(3) this(1)] show ?thesis by simp
qed

lemma queue_read_law:
  assumes "queue_pend_first c q s = Ok (r, s') \<or> queue_pend_wake c q s = Ok (r, s')" "uq_repr cap q s xs"
  shows "uq_repr cap q s' xs \<and> sem_count (queue_sem_write q) (uq_sys s') = sem_count (queue_sem_write q) (uq_sys s) \<and>
         (r = Returned OS_NO_ERR \<and> 1 \<le> sem_count (queue_sem_read q) (uq_sys s) \<and>
            sem_count (queue_sem_read q) (uq_sys s') = sem_count (queue_sem_read q) (uq_sys s) - 1 \<or>
          r = Switched \<and> sem_count (queue_sem_read q) (uq_sys s') = sem_count (queue_sem_read q) (uq_sys s))"
proof -
  from assms(2) obtain qu where qu: "uqs s q = Some qu" "uq_init qu = 1" "sem_live (queue_sem_read q) (uq_sys s)" "q \<noteq> NULL"
    by (auto simp: uq_repr_def)
  obtain f where "f = sem_pend c (queue_sem_read q) \<or> f = sem_pend_resume c (queue_sem_read q)"
    "andthen (on_uq_sys f s) (\<lambda>(r, s). Ok (queue_pended r, s)) = Ok (r, s')"
    using assms(1) qu by (auto simp: queue_pend_first_def queue_pend_wake_def deref_def)
  from queue_pend_split [OF this(2) assms(2) qu(3) this(1)] show ?thesis by simp
qed

lemma queue_put_law:
  assumes "queue_put c q v s = Ok (r, s')" "uq_repr cap q s xs" "length xs < cap"
    and "0 \<le> sem_count (queue_sem_read q) (uq_sys s)" "sem_count (queue_sem_read q) (uq_sys s) < int cap"
  shows "(r = Returned OS_NO_ERR \<or> r = Yielded OS_NO_ERR) \<and> uq_repr cap q s' (xs @ [v]) \<and>
         sem_count (queue_sem_read q) (uq_sys s') = sem_count (queue_sem_read q) (uq_sys s) + 1 \<and>
         sem_count (queue_sem_write q) (uq_sys s') = sem_count (queue_sem_write q) (uq_sys s)"
proof -
  from assms(2) obtain qu cs where qu: "uqs s q = Some qu" "uq_init qu = 1" "cells s (container qu) = Some cs"
    "ring_holds cap qu cs xs" "sem_live (queue_sem_read q) (uq_sys s)" by (auto simp: uq_repr_def)
  let ?cs = "cs[unat (index_top qu) := v]"
  from qu(4) have "unat (index_top qu) < cap" "unat (max_size qu) = cap" "cap < 2 ^ 30" by (auto simp: ring_holds_def)
  then obtain j where j: "next_index (index_top qu) (max_size qu) = Ok j" using next_index_step by blast
  note ring = ring_put [OF qu(4) assms(3) j]
  let ?qu = "qu\<lparr>index_top := j, uq_size := uq_size qu + 1\<rparr>"
  let ?s1 = "s\<lparr>cells := (cells s)(container qu \<mapsto> ?cs), uqs := (uqs s)(q \<mapsto> ?qu)\<rparr>"
  from assms(1) qu(1,3) j ring(1) obtain r1 k where
    k: "sem_post_critical c (queue_sem_read q) (uq_sys s) = Ok (r1, k)" "s' = ?s1\<lparr>uq_sys := k\<rparr>"
    "r = map_call (\<lambda>err. if err \<noteq> OS_NO_ERR then OS_ERR_QUEUE_NON_INITIALIZED else OS_NO_ERR) r1"
    by (auto simp: queue_put_def cell_write_def set_uq_def store_simps andthen_eq_Ok on_uq_sys_Ok)
  have "sem_count (queue_sem_read q) (uq_sys s) + 1 < 2 ^ 31"
    using assms(5) qu(4) by (simp add: ring_holds_def)
  note p = sem_posted [OF k(1) qu(5) assms(4) this]
  have "r = r1" using k(3) p by auto
  with p k(2) assms(2) qu(2) ring(2) show ?thesis by (simp add: uq_repr_def)
qed

lemma queue_take_law:
  assumes "queue_take c q s = Ok (r, s')" "uq_repr cap q s (x # xs)"
    and "0 \<le> sem_count (queue_sem_write q) (uq_sys s)" "sem_count (queue_sem_write q) (uq_sys s) < int cap"
  shows "(r = Returned (x, OS_NO_ERR) \<or> r = Yielded (x, OS_NO_ERR)) \<and> uq_repr cap q s' xs \<and>
         sem_count (queue_sem_write q) (uq_sys s') = sem_count (queue_sem_write q) (uq_sys s) + 1 \<and>
         sem_count (queue_sem_read q) (uq_sys s') = sem_count (queue_sem_read q) (uq_sys s)"
proof -
  from assms(2) obtain qu cs where qu: "uqs s q = Some qu" "uq_init qu = 1" "cells s (container qu) = Some cs"
    "ring_holds cap qu cs (x # xs)" "sem_live (queue_sem_write q) (uq_sys s)" by (auto simp: uq_repr_def)
  from qu(4) have "unat (index_bot qu) < cap" "unat (max_size qu) = cap" "cap < 2 ^ 30" by (auto simp: ring_holds_def)
  then obtain j where j: "next_index (index_bot qu) (max_size qu) = Ok j" using next_index_step by blast
  note ring = ring_take [OF qu(4) j]
  let ?s1 = "s\<lparr>uqs := (uqs s)(q \<mapsto> qu\<lparr>index_bot := j, uq_size := uq_size qu - 1\<rparr>)\<rparr>"
  from assms(1) qu(1-3) j ring(1,2) obtain r1 k where
    k: "sem_post_critical c (queue_sem_write q) (uq_sys s) = Ok (r1, k)" "s' = ?s1\<lparr>uq_sys := k\<rparr>"
    "r = map_call (\<lambda>err. if err \<noteq> OS_NO_ERR then (NULL, OS_ERR_QUEUE_NON_INITIALIZED) else (x, OS_NO_ERR)) r1"
    by (auto simp: queue_take_def cell_read_def set_uq_def store_simps andthen_eq_Ok on_uq_sys_Ok)
  have "sem_count (queue_sem_write q) (uq_sys s) + 1 < 2 ^ 31"
    using assms(4) qu(4) by (simp add: ring_holds_def)
  note p = sem_posted [OF k(1) qu(5) assms(3) this]
  have "r = Returned (x, OS_NO_ERR) \<or> r = Yielded (x, OS_NO_ERR)" using k(3) p by auto
  with p k(2) assms(2) qu(2,3) ring(3) show ?thesis by (simp add: uq_repr_def)
qed

lemma queue_start_law:
  assumes "queue_start cap q s"
  shows "uq_repr cap q s [] \<and> sem_count (queue_sem_read q) (uq_sys s) = 0 \<and>
         sem_count (queue_sem_write q) (uq_sys s) = int cap"
proof -
  from assms obtain c s0 qu where i: "queue_init c q (of_nat cap) s0 = Ok (OS_NO_ERR, s)" "uqs s q = Some qu"
    "uq_init qu = 1" "0 < cap" "cap < 2 ^ 30" by (auto simp: queue_start_def)
  let ?s1 = "queue_clear q s0" and ?n = "of_nat cap :: u32"
  obtain e1 k1 e2 k2 where k: "sem_init (queue_sem_read q) 0 (uq_sys ?s1) = (e1, k1)"
    "sem_init (queue_sem_write q) ?n k1 = (e2, k2)" by fastforce
  let ?q0 = "\<lparr>container = NULL, uq_size = 0, max_size = 0, index_top = 0, index_bot = 0, uq_init = 0\<rparr>"
  have q0: "uqs ?s1 q = Some ?q0" by (simp add: queue_clear_def)
  have ok: "q \<noteq> NULL \<and> e1 = OS_NO_ERR \<and> e2 = OS_NO_ERR" and
    mk: "queue_make_array c q ?n (?s1\<lparr>uq_sys := k2\<rparr>) = Ok (OS_NO_ERR, s)"
    using i(1-3) k q0 by (auto simp: queue_init_def Let_def on_uq_sys_Ok split: if_splits)
  obtain p k3 where p: "sched_kmalloc (4 * ?n) (sched k2) = (p, k3)" by fastforce
  have s: "s = ?s1\<lparr>uq_sys := k2\<lparr>sched := k3\<rparr>, cells := (cells ?s1)(p \<mapsto> replicate (unat (4 * ?n) div 4) NULL),
      uqs := (uqs ?s1)(q \<mapsto> ?q0\<lparr>container := p, max_size := ?n, uq_init := 1\<rparr>)\<rparr>"
    using mk p q0 i(2,3)
    by (auto simp: queue_make_array_def set_uq_def store_simps on_uq_sys_Ok Let_def andthen_eq_Ok split: if_splits)
  have n: "unat ?n = cap" "unat (4 * ?n) = 4 * cap"
    using i(5) by (simp_all add: unat_word_ariths unsigned_of_nat take_bit_nat_eq_self)
  have live: "sem_live (queue_sem_read q) k1 \<and> sem_count (queue_sem_read q) k1 = 0"
    using sem_init_live [of "queue_sem_read q" 0 "uq_sys ?s1" k1] k(1) ok by simp
  have "sem_live (queue_sem_write q) k2 \<and> sem_count (queue_sem_write q) k2 = int cap \<and>
      (\<forall>r. r \<noteq> queue_sem_write q \<longrightarrow> sem_live r k2 = sem_live r k1 \<and> sem_count r k2 = sem_count r k1)"
    using sem_init_live [of "queue_sem_write q" ?n k1 k2] k(2) ok i(5) by (simp add: sint_of_nat_small)
  moreover have "ring_holds cap (?q0\<lparr>container := p, max_size := ?n, uq_init := 1\<rparr>) (replicate cap NULL) []"
    using i(4,5) n(1) by (simp add: ring_holds_def)
  ultimately show ?thesis using ok live n(2) unfolding s
    by (simp add: uq_repr_def)
qed

interpretation queue_chan: channel cap "\<lambda>s. sem_count (queue_sem_read q) (uq_sys s)"
    "\<lambda>s. sem_count (queue_sem_write q) (uq_sys s)" "uq_repr cap q" "queue_ops c q"
    "queue_start cap q" "queue_others q" NULL for c cap q
proof unfold_locales
  fix s s' :: uq_state and xs x v r q
  show "queue_start cap q s \<Longrightarrow> uq_repr cap q s [] \<and> sem_count (queue_sem_read q) (uq_sys s) = 0 \<and>
      sem_count (queue_sem_write q) (uq_sys s) = int cap" using queue_start_law by simp
  show "queue_others q s s' \<Longrightarrow> uq_repr cap q s xs \<Longrightarrow> uq_repr cap q s' xs \<and>
      sem_count (queue_sem_read q) (uq_sys s') = sem_count (queue_sem_read q) (uq_sys s) \<and>
      sem_count (queue_sem_write q) (uq_sys s') = sem_count (queue_sem_write q) (uq_sys s)"
    by (rule queue_others_law)
qed (unfold queue_ops_def channel_ops.select_convs queue_post_def queue_post_resume_def queue_pend_def queue_pend_resume_def
      queue_post_after_def queue_pend_after_def,
     simp_all add: queue_write_law queue_read_law queue_put_law
       queue_take_law)

section \<open>Properties\<close>

text \<open>C6. A message queue of capacity \<open>cap\<close> (below \<open>2^30\<close>) delivers: in every history of whole, blocked, continued
  and interrupted calls of \<^verbatim>\<open>queue_post\<close> and \<^verbatim>\<open>queue_pend\<close> by any number of threads of one CPU, no call fails
  and the messages the pends return are exactly the messages of the posts, in order, none lost and none
  twice, apart from the at most \<open>cap\<close> messages still in the circular array; \<^verbatim>\<open>queue_size\<close> gives their number,
  every reader past its semaphore finds a message and every writer past its semaphore a free cell.\<close>

theorem queue_delivers:
  assumes "queue_history c cap q pcs h s"
  shows "(\<forall>e. Failed e \<notin> set h) \<and>
         (\<exists>xs. sent h = taken h @ xs \<and> readers pcs \<le> length xs \<and> length xs + writers pcs \<le> cap \<and>
               queue_size q s = Ok (int (length xs), OS_NO_ERR) \<and>
               queue_isempty q s = Ok (of_bool (xs = []), OS_NO_ERR))"
proof -
  from queue_chan.history_exact [OF assms [unfolded queue_history_def]] obtain xs where
    h: "\<forall>e. Failed e \<notin> set h" and
    xs: "uq_repr cap q s xs" "sent h = taken h @ xs" "int (length xs) = sem_count (queue_sem_read q) (uq_sys s) + int (readers pcs)"
    "int cap - int (length xs) = sem_count (queue_sem_write q) (uq_sys s) + int (writers pcs)"
    "0 \<le> sem_count (queue_sem_read q) (uq_sys s)" "0 \<le> sem_count (queue_sem_write q) (uq_sys s)"
    unfolding queue_chan.chan_ok_def by (elim exE conjE) simp
  from xs(1) obtain qu where qu: "uqs s q = Some qu" "uq_init qu = 1" "unat (uq_size qu) = length xs"
    "length xs < 2 ^ 31" "q \<noteq> NULL" by (auto simp: uq_repr_def ring_holds_def)
  then have "queue_size q s = Ok (int (length xs), OS_NO_ERR)"
    using sint_small [of "uq_size qu"] by (simp add: queue_size_def deref_def)
  moreover from this have "queue_isempty q s = Ok (of_bool (xs = []), OS_NO_ERR)" by (simp add: queue_isempty_def)
  moreover have "readers pcs \<le> length xs" "length xs + writers pcs \<le> cap" using xs(3-6) by linarith+
  ultimately show ?thesis using xs(2) h by blast
qed

definition ex_uq :: uq_state where
  "ex_uq =
     \<lparr>uq_sys = \<lparr>sched = ex_sched\<lparr>kq := \<lparr>heap = snd (kheap_init 0x100000 0x101000 blank_heap),
                                    nodes = Map.empty, queues = Map.empty\<rparr>\<rparr>,
                sems = Map.empty\<rparr>,
      uqs = Map.empty, cells = Map.empty\<rparr>"

lemma ex_uq_runs:
  "case queue_init 0 0x2000 4 ex_uq of
     Ok (e, s) \<Rightarrow> e = OS_NO_ERR \<and> (case uqs s 0x2000 of Some qu \<Rightarrow> uq_init qu = 1 | None \<Rightarrow> False) \<and>
       (case queue_post 0 0x2000 0x1234 s of
          Ok (r, s1) \<Rightarrow> r = Returned OS_NO_ERR \<and>
            (case queue_post 0 0x2000 0x5678 s1 of
               Ok (r', s2) \<Rightarrow> r' = Returned OS_NO_ERR \<and>
                 (case queue_pend 0 0x2000 s2 of Ok (p, s3) \<Rightarrow> p = Returned (0x1234, OS_NO_ERR) | _ \<Rightarrow> False)
             | _ \<Rightarrow> False)
        | _ \<Rightarrow> False)
   | _ \<Rightarrow> False"
  by code_simp

text \<open>Two posts and a pend by three threads: one message is left.\<close>

theorem queue_delivers_witness:
  "\<exists>pcs s. queue_history 0 4 0x2000 pcs [Posted 0x1234, Posted 0x5678, Pended 0x1234] s \<and>
     queue_size 0x2000 s = Ok (1, OS_NO_ERR)"
proof -
  let ?H = "queue_history 0 4 0x2000"
  from ex_uq_runs obtain s s1 s2 s3 where i: "queue_init 0 0x2000 4 ex_uq = Ok (OS_NO_ERR, s)"
    "case uqs s 0x2000 of Some qu \<Rightarrow> uq_init qu = 1 | None \<Rightarrow> False"
    and p1: "queue_post 0 0x2000 0x1234 s = Ok (Returned OS_NO_ERR, s1)"
    and p2: "queue_post 0 0x2000 0x5678 s1 = Ok (Returned OS_NO_ERR, s2)"
    and p3: "queue_pend 0 0x2000 s2 = Ok (Returned (0x1234, OS_NO_ERR), s3)"
    unfolding returns_test by (elim exE conjE, hypsubst) (rule that)
  have st: "queue_start 4 0x2000 s" using i by (auto simp: queue_start_def split: option.splits)
  have "?H (\<lambda>_. Idle) [] s" using st by (simp add: queue_history_def chan_history.start)
  from chan_history.post [OF this [unfolded queue_history_def], where t = 1 and v = "0x1234" and s' = s1]
  have h1: "?H ((\<lambda>_. Idle)(1 := Idle)) [Posted 0x1234] s1" using p1 by (simp add: queue_history_def queue_ops_def)
  from chan_history.post [OF h1 [unfolded queue_history_def], where t = 2 and v = "0x5678" and s' = s2]
  have h2: "?H ((\<lambda>_. Idle)(1 := Idle, 2 := Idle)) [Posted 0x1234, Posted 0x5678] s2"
    using p2 by (simp add: queue_history_def queue_ops_def)
  from chan_history.pend [OF h2 [unfolded queue_history_def], where t = 3 and s' = s3]
  have h3: "?H ((\<lambda>_. Idle)(1 := Idle, 2 := Idle, 3 := Idle)) [Posted 0x1234, Posted 0x5678, Pended 0x1234] s3"
    using p3 by (simp add: queue_history_def queue_ops_def)
  from queue_delivers [OF h3] have "queue_size 0x2000 s3 = Ok (1, OS_NO_ERR)"
    by (auto simp: sent_def taken_def map_filter_def)
  with h3 show ?thesis by blast
qed

text \<open>A post that loses the race against a destruction writes freed memory: after a writer has
  passed its semaphore, \<^verbatim>\<open>queue_destroy\<close> frees the array, and the writer's second critical section, which
  does not look at the initialisation again, stores its message in it. A reader in the same place is
  refused.\<close>

theorem queue_post_after_destroy_faults:
  assumes "q \<noteq> NULL" "uqs s q = Some qu" "uq_init qu = 1" "queue_destroy c q s = Ok (e, s')"
  shows "queue_put c' q v s' = Fault \<and>
         queue_take c' q s' = Ok (Returned (NULL, OS_ERR_QUEUE_NON_INITIALIZED), s')"
proof -
  obtain k where "s' = s\<lparr>cells := (cells s)(container qu := None), uqs := (uqs s)(q \<mapsto> qu\<lparr>uq_init := 0\<rparr>), uq_sys := k\<rparr>"
    using assms
    by (auto simp: queue_destroy_def set_uq_def store_simps on_uq_sys_Ok Let_def andthen_eq_Ok split: if_splits)
  then show ?thesis by (simp add: queue_put_def queue_take_def cell_write_def store_simps)
qed

text \<open>A queue of four cells whose semaphores have no waiting thread.\<close>

definition ex_live_uq :: uq_state where
  "ex_live_uq =
     \<lparr>uq_sys = \<lparr>sched = ex_sched,
                sems = [0x2018 \<mapsto> \<lparr>sem_waiting = 0x1040, sem_level = 0, sem_initialized = 1\<rparr>,
                        0x2030 \<mapsto> \<lparr>sem_waiting = 0x1040, sem_level = 4, sem_initialized = 1\<rparr>]\<rparr>,
      uqs = [0x2000 \<mapsto> \<lparr>container = 0x3000, uq_size = 0, max_size = 4, index_top = 0, index_bot = 0, uq_init = 1\<rparr>],
      cells = [0x3000 \<mapsto> replicate 4 NULL]\<rparr>"

lemma ex_pop_waiting: "sched_pop 0x1040 (sched_kfree p ex_sched) = Ok (NULL, OS_NO_ERR, sched_kfree p ex_sched)"
  by (simp add: sched_pop_def sched_kfree_def kernel_queue_pop_def deref_def ex_sched_def ex_queues_def)

theorem queue_post_after_destroy_faults_witness:
  "\<exists>e s'. queue_destroy 0 0x2000 ex_live_uq = Ok (e, s') \<and> queue_put 0 0x2000 1 s' = Fault"
proof -
  obtain e s' where d: "queue_destroy 0 0x2000 ex_live_uq = Ok (e, s')"
    by (simp add: queue_destroy_def ex_live_uq_def set_uq_def store_simps on_uq_sys_def sem_destroy_empty
        queue_sem_read_def queue_sem_write_def ex_pop_waiting)
  have "queue_put 0 0x2000 1 s' = Fault"
    using queue_post_after_destroy_faults [OF _ _ _ d, of _ 0 1] by (simp add: ex_live_uq_def)
  then show ?thesis using d by blast
qed

end
