(* ===== verification/Memalloc.thy ===== *)
theory Memalloc
  imports Kheap
begin

text \<open>
  The allocator of physical frames and virtual pages, \<^verbatim>\<open>Sources/memory/memalloc.c\<close>: two lists of free
  areas, sorted by address, whose descriptors live in the kernel heap. A descriptor is an object of the
  store \<open>areas\<close>; \<^verbatim>\<open>kfree\<close> removes it, so that a later use is a \<open>Fault\<close>. The pointer to the head of a
  list is always the address of a global variable, so its test against \<^verbatim>\<open>NULL\<close> never succeeds; functions
  take the head and return the new one.
\<close>

section \<open>State\<close>

record mem_area =
  ma_start :: u32
  ma_size :: u32
  ma_next :: ptr
  ma_prev :: ptr

record mem_range =
  base :: u32
  limit :: u32
  range_type :: u32

record mem_pool =
  mheap :: kheap
  areas :: "ptr \<rightharpoonup> mem_area"

record mem_state =
  pool :: mem_pool
  free_frames :: ptr
  free_pages :: ptr

definition KERNEL_PAGE_SIZE :: u32 where "KERNEL_PAGE_SIZE = 4096"
definition KERNEL_MEM_OFFSET :: u32 where "KERNEL_MEM_OFFSET = 0xE0000000"
definition ARCH_MAX_ADDRESS :: u32 where "ARCH_MAX_ADDRESS = 0xFFFFFFFF"
definition sizeof_mem_area :: u32 where "sizeof_mem_area = 16"

definition set_area :: "ptr \<Rightarrow> (mem_area \<Rightarrow> mem_area) \<Rightarrow> mem_pool \<Rightarrow> mem_pool outcome" where
  "set_area p f s = andthen (modify (areas s) p f) (\<lambda>m. Ok (s\<lparr>areas := m\<rparr>))"

definition free_area :: "ptr \<Rightarrow> mem_pool \<Rightarrow> mem_pool" where
  "free_area p s = s\<lparr>mheap := kfree p (mheap s), areas := (areas s)(p := None)\<rparr>"

section \<open>The lists of free areas\<close>

text \<open>The loop that looks for the place of a new area.\<close>

definition find_place :: "u32 \<Rightarrow> ptr \<Rightarrow> mem_pool \<Rightarrow> (ptr \<times> ptr) outcome" where
  "find_place start list s =
     trail ma_next (\<lambda>cursor. \<not> ma_start cursor > start) (areas s) list"

text \<open>A new descriptor between \<open>save\<close> and \<open>cursor\<close>, \<open>NULL\<close> standing for none; the result is the error and
  the descriptor.\<close>

definition link_area ::
    "u32 \<Rightarrow> u32 \<Rightarrow> ptr \<Rightarrow> ptr \<Rightarrow> mem_pool \<Rightarrow> (OS_RETURN_E \<times> ptr \<times> mem_pool) outcome" where
  "link_area start sz save cursor s =
     (let (p, h) = kmalloc sizeof_mem_area (mheap s);
          s = s\<lparr>mheap := h\<rparr>
      in if p = NULL then Ok (OS_ERR_MALLOC, NULL, s)
         else let s = s\<lparr>areas := (areas s)(p \<mapsto>
                          \<lparr>ma_start = start, ma_size = sz, ma_next = cursor, ma_prev = save\<rparr>)\<rparr>
              in andthen (if save = NULL then Ok s else set_area save (\<lambda>a. a\<lparr>ma_next := p\<rparr>) s) (\<lambda>s.
                 andthen (if cursor = NULL then Ok s else set_area cursor (\<lambda>a. a\<lparr>ma_prev := p\<rparr>) s) (\<lambda>s.
                 Ok (OS_NO_ERR, p, s))))"

definition add_free :: "u32 \<Rightarrow> u32 \<Rightarrow> ptr \<Rightarrow> mem_pool \<Rightarrow> (OS_RETURN_E \<times> ptr \<times> mem_pool) outcome" where
  "add_free start sz list s =
     (if list = NULL
      then let (p, h) = kmalloc sizeof_mem_area (mheap s);
               s = s\<lparr>mheap := h\<rparr>
           in if p = NULL then Fault
              else Ok (OS_NO_ERR, p, s\<lparr>areas := (areas s)(p \<mapsto>
                     \<lparr>ma_start = start, ma_size = sz, ma_next = NULL, ma_prev = NULL\<rparr>)\<rparr>)
      else
        andthen (find_place start list s) (\<lambda>(save, cursor).
        andthen (deref (areas s) save) (\<lambda>sv.
        if save \<noteq> cursor \<and> ma_start sv + ma_size sv > start
        then Ok (OS_ERR_UNAUTHORIZED_ACTION, list, s)
        else if cursor = NULL
        then if ma_start sv + ma_size sv \<noteq> start
             then andthen (link_area start sz save NULL s) (\<lambda>(err, _, s). Ok (err, list, s))
             else andthen (set_area save (\<lambda>a. a\<lparr>ma_size := ma_size a + sz\<rparr>) s) (\<lambda>s. Ok (OS_NO_ERR, list, s))
        else
          andthen (deref (areas s) cursor) (\<lambda>cu.
          if save \<noteq> cursor \<and> start + sz > ma_start cu
          then Ok (OS_ERR_UNAUTHORIZED_ACTION, list, s)
          else if cursor = save
          then if start + sz = ma_start cu
               then andthen (set_area cursor (\<lambda>a. a\<lparr>ma_size := ma_size a + sz, ma_start := start\<rparr>) s) (\<lambda>s.
                    Ok (OS_NO_ERR, list, s))
               else andthen (link_area start sz NULL cursor s) (\<lambda>(err, p, s).
                    Ok (err, if err = OS_NO_ERR then p else list, s))
          else if ma_start sv + ma_size sv = start
          then if start + sz = ma_start cu
               then andthen (set_area save (\<lambda>a. a\<lparr>ma_size := ma_size a + (sz + ma_size cu), ma_next := ma_next cu\<rparr>) s) (\<lambda>s.
                    Ok (OS_NO_ERR, list, free_area cursor s))
               else andthen (set_area save (\<lambda>a. a\<lparr>ma_size := ma_size a + sz\<rparr>) s) (\<lambda>s. Ok (OS_NO_ERR, list, s))
          else if start + sz = ma_start cu
          then andthen (set_area cursor (\<lambda>a. a\<lparr>ma_size := ma_size a + sz, ma_start := start\<rparr>) s) (\<lambda>s.
               Ok (OS_NO_ERR, list, s))
          else andthen (link_area start sz save cursor s) (\<lambda>(err, _, s). Ok (err, list, s))))))"

definition remove_free_area :: "ptr \<Rightarrow> ptr \<Rightarrow> mem_pool \<Rightarrow> (ptr \<times> mem_pool) outcome" where
  "remove_free_area node list s =
     andthen (deref (areas s) node) (\<lambda>n.
     if ma_next n = NULL
     then if ma_prev n = NULL then Ok (NULL, free_area node s)
          else andthen (set_area (ma_prev n) (\<lambda>a. a\<lparr>ma_next := NULL\<rparr>) s) (\<lambda>s. Ok (list, free_area node s))
     else if ma_prev n = NULL
     then andthen (set_area (ma_next n) (\<lambda>a. a\<lparr>ma_prev := NULL\<rparr>) s) (\<lambda>s. Ok (ma_next n, free_area node s))
     else andthen (set_area (ma_next n) (\<lambda>a. a\<lparr>ma_prev := ma_prev n\<rparr>) s) (\<lambda>s.
          andthen (set_area (ma_prev n) (\<lambda>a. a\<lparr>ma_next := ma_next n\<rparr>) s) (\<lambda>s.
          Ok (list, free_area node s))))"

text \<open>The result is the address, the error stored in \<^verbatim>\<open>*err\<close>, and the head.\<close>

definition get_block ::
    "ptr \<Rightarrow> u32 \<Rightarrow> mem_pool \<Rightarrow> (ptr \<times> OS_RETURN_E \<times> ptr \<times> mem_pool) outcome" where
  "get_block list block_count s =
     (let n = KERNEL_PAGE_SIZE * block_count
      in andthen (returned (walk ma_next (\<lambda>_ a. \<not> ma_size a \<ge> n) (areas s) list)) (\<lambda>selected.
         if selected = NULL then Ok (NULL, OS_ERR_NO_MORE_FREE_MEM, list, s)
         else andthen (deref (areas s) selected) (\<lambda>a.
              andthen (set_area selected (\<lambda>a. a\<lparr>ma_size := ma_size a - n, ma_start := ma_start a + n\<rparr>) s) (\<lambda>s.
              andthen (if ma_size a - n = 0 then remove_free_area selected list s else Ok (list, s)) (\<lambda>(list, s).
              Ok (ma_start a, OS_NO_ERR, list, s))))))"

section \<open>Operations\<close>

definition memalloc_alloc_kframes :: "u32 \<Rightarrow> mem_state \<Rightarrow> (ptr \<times> OS_RETURN_E \<times> mem_state) outcome" where
  "memalloc_alloc_kframes frame_count s =
     andthen (get_block (free_frames s) frame_count (pool s)) (\<lambda>(p, err, l, k).
     Ok (p, err, s\<lparr>pool := k, free_frames := l\<rparr>))"

definition memalloc_free_kframes :: "ptr \<Rightarrow> u32 \<Rightarrow> mem_state \<Rightarrow> (OS_RETURN_E \<times> mem_state) outcome" where
  "memalloc_free_kframes frame_addr frame_count s =
     andthen (add_free frame_addr (frame_count * KERNEL_PAGE_SIZE) (free_frames s) (pool s)) (\<lambda>(err, l, k).
     Ok (err, s\<lparr>pool := k, free_frames := l\<rparr>))"

definition memalloc_alloc_kpages :: "u32 \<Rightarrow> mem_state \<Rightarrow> (ptr \<times> OS_RETURN_E \<times> mem_state) outcome" where
  "memalloc_alloc_kpages page_count s =
     andthen (get_block (free_pages s) page_count (pool s)) (\<lambda>(p, err, l, k).
     Ok (p, err, s\<lparr>pool := k, free_pages := l\<rparr>))"

text \<open>\<open>kernel_end\<close> is the address of the linker symbol.\<close>

definition memalloc_free_kpages :: "u32 \<Rightarrow> ptr \<Rightarrow> u32 \<Rightarrow> mem_state \<Rightarrow> (OS_RETURN_E \<times> mem_state) outcome" where
  "memalloc_free_kpages kernel_end page_addr page_count s =
     (if page_addr < KERNEL_MEM_OFFSET + kernel_end then Ok (OS_ERR_UNAUTHORIZED_ACTION, s)
      else andthen (add_free page_addr (page_count * KERNEL_PAGE_SIZE) (free_pages s) (pool s)) (\<lambda>(err, l, k).
           Ok (err, s\<lparr>pool := k, free_pages := l\<rparr>)))"

text \<open>The two loops of \<^verbatim>\<open>memalloc_init\<close> over the memory map.\<close>

primrec init_frames :: "u32 \<Rightarrow> mem_range list \<Rightarrow> mem_state \<Rightarrow> (OS_RETURN_E \<times> mem_state) outcome" where
  "init_frames kernel_end [] s = Ok (OS_NO_ERR, s)"
| "init_frames kernel_end (r # rs) s =
     (let bottom = kernel_end - KERNEL_MEM_OFFSET
      in if range_type r = 1 \<and> limit r > bottom
         then let start = (if bottom < base r then base r else bottom)
              in andthen (add_free start (limit r - start) (free_frames s) (pool s)) (\<lambda>(err, l, k).
                 let s = s\<lparr>pool := k, free_frames := l\<rparr>
                 in if err \<noteq> OS_NO_ERR then Ok (err, s) else init_frames kernel_end rs s)
         else init_frames kernel_end rs s)"

text \<open>One pass of the loop over the pages; the state is the error, \<^verbatim>\<open>start\<close>, \<^verbatim>\<open>next_start\<close> and the memory.\<close>

definition init_pages_pass ::
    "mem_range list \<Rightarrow> OS_RETURN_E \<times> u32 \<times> u32 \<times> mem_state \<Rightarrow>
     (bool \<times> OS_RETURN_E \<times> u32 \<times> u32 \<times> mem_state) outcome" where
  "init_pages_pass map_data = (\<lambda>(err, start, next_start, s).
     if start = 0 then Ok (False, OS_NO_ERR, start, next_start, s)
     else
       let next_limit = (case find (\<lambda>r. range_type r \<noteq> 1 \<and> base r > start) map_data of
                           Some r \<Rightarrow> base r | None \<Rightarrow> ARCH_MAX_ADDRESS);
           next_start = (case find (\<lambda>r. range_type r = 1 \<and> base r > next_limit) map_data of
                           Some r \<Rightarrow> base r | None \<Rightarrow> next_start)
       in andthen (add_free start (next_limit - start) (free_pages s) (pool s)) (\<lambda>(err, l, k).
          let s = s\<lparr>pool := k, free_pages := l\<rparr>
          in if err \<noteq> OS_NO_ERR then Ok (False, err, start, next_start, s)
             else Ok (True, OS_NO_ERR, if next_limit = ARCH_MAX_ADDRESS then 0 else next_start, next_start, s)))"

definition memalloc_init ::
    "u32 \<Rightarrow> u32 \<Rightarrow> mem_range list \<Rightarrow> mem_state \<Rightarrow> (OS_RETURN_E \<times> mem_state) outcome" where
  "memalloc_init kernel_start_phys kernel_end map_data s =
     on_ok (init_frames kernel_end map_data (s\<lparr>free_frames := NULL, free_pages := NULL\<rparr>)) (\<lambda>s.
     andthen (while_do (init_pages_pass map_data) (OS_NO_ERR, kernel_start_phys, 0, s)) (\<lambda>(err, _, _, s).
     Ok (err, s)))"

section \<open>Free ranges\<close>

text \<open>The addresses of a range, and of a list of ranges.\<close>

definition span :: "u32 \<times> u32 \<Rightarrow> nat set" where
  "span r = {unat (fst r) ..< unat (fst r) + unat (snd r)}"

definition spans :: "(u32 \<times> u32) list \<Rightarrow> nat set" where
  "spans rs = (\<Union>r \<in> set rs. span r)"

lemma spans_simps [simp]: "spans [] = {}" "spans (r # rs) = span r \<union> spans rs" "spans (rs @ ss) = spans rs \<union> spans ss"
  by (auto simp: spans_def)

text \<open>Ranges in increasing order from \<open>lo\<close> on, not empty, not touching, below the end of the address space.\<close>

fun gaps :: "nat \<Rightarrow> (u32 \<times> u32) list \<Rightarrow> bool" where
  "gaps lo [] \<longleftrightarrow> True"
| "gaps lo ((b, z) # rs) \<longleftrightarrow>
     lo \<le> unat b \<and> 0 < unat z \<and> unat b + unat z < 2 ^ 32 \<and> gaps (unat b + unat z + 1) rs"

definition after_range :: "u32 \<times> u32 \<Rightarrow> nat" where
  "after_range r = unat (fst r) + unat (snd r) + 1"

lemma gaps_append: "gaps lo (rs @ ss) \<longleftrightarrow> gaps lo rs \<and> gaps (if rs = [] then lo else after_range (last rs)) ss"
  by (induction lo rs rule: gaps.induct) (auto simp: after_range_def)

lemma gaps_mono: "gaps lo rs \<Longrightarrow> lo' \<le> lo \<Longrightarrow> gaps lo' rs"
  by (cases "(lo, rs)" rule: gaps.cases) auto

lemma gaps_above: "gaps lo rs \<Longrightarrow> a \<in> spans rs \<Longrightarrow> lo \<le> a"
proof (induction lo rs rule: gaps.induct)
  case (2 lo b z rs)
  then have "lo \<le> a \<or> unat b + unat z + 1 \<le> a" by (auto simp: span_def)
  then show ?case using 2(2) by auto
qed simp

lemma gaps_below: "gaps lo (rs @ (b, z) # ss) \<Longrightarrow> a \<in> spans rs \<Longrightarrow> a < unat b"
proof (induction lo rs rule: gaps.induct)
  case (2 lo b' z' rs)
  have "unat b' + unat z' < unat b"
    using 2(2) gaps_above [of "unat b' + unat z' + 1" "rs @ (b, z) # ss" "unat b"] by (auto simp: span_def gaps_append)
  then show ?case using 2 by (auto simp: span_def)
qed simp

text \<open>The list \<open>xs\<close> of descriptors, up to \<open>q\<close>, describes the ranges \<open>rs\<close>; \<open>backlinks\<close> says the same of the links
  to the previous descriptor.\<close>

fun aseg :: "(ptr \<rightharpoonup> mem_area) \<Rightarrow> ptr list \<Rightarrow> (u32 \<times> u32) list \<Rightarrow> ptr \<Rightarrow> bool" where
  "aseg m [] [] q \<longleftrightarrow> True"
| "aseg m (x # xs) (r # rs) q \<longleftrightarrow>
     x \<noteq> NULL \<and> (\<exists>a. m x = Some a \<and> (ma_start a, ma_size a) = r \<and> ma_next a = hdp xs q) \<and> aseg m xs rs q"
| "aseg m _ _ q \<longleftrightarrow> False"

fun backlinks :: "(ptr \<rightharpoonup> mem_area) \<Rightarrow> ptr \<Rightarrow> ptr list \<Rightarrow> bool" where
  "backlinks m p [] \<longleftrightarrow> True"
| "backlinks m p (x # xs) \<longleftrightarrow> (\<exists>a. m x = Some a \<and> ma_prev a = p) \<and> backlinks m x xs"

lemma aseg_Cons1: "aseg m (x # xs) rs q \<longleftrightarrow>
    (\<exists>a rs'. rs = (ma_start a, ma_size a) # rs' \<and> x \<noteq> NULL \<and> m x = Some a \<and> ma_next a = hdp xs q \<and> aseg m xs rs' q)"
  by (cases rs) auto

lemma aseg_length: "aseg m xs rs q \<Longrightarrow> length xs = length rs"
  by (induction m xs rs q rule: aseg.induct) auto

lemma aseg_append:
  "length xs = length rs \<Longrightarrow> aseg m (xs @ ys) (rs @ ss) q \<longleftrightarrow> aseg m xs rs (hdp ys q) \<and> aseg m ys ss q"
  by (induction xs rs rule: list_induct2) auto

lemma aseg_fun_upd [simp]: "x \<notin> set xs \<Longrightarrow> aseg (m(x := v)) xs rs q = aseg m xs rs q"
  by (induction m xs rs q rule: aseg.induct) auto

lemma aseg_set_prev:
  "m x = Some a \<Longrightarrow> aseg (m(x \<mapsto> a\<lparr>ma_prev := p\<rparr>)) xs rs q = aseg m xs rs q"
  by (induction m xs rs q rule: aseg.induct) auto

lemma backlinks_fun_upd [simp]: "x \<notin> set xs \<Longrightarrow> backlinks (m(x := v)) p xs = backlinks m p xs"
  by (induction m p xs rule: backlinks.induct) auto

lemma backlinks_append: "backlinks m p (xs @ ys) \<longleftrightarrow> backlinks m p xs \<and> backlinks m (lastp p xs) ys"
  by (induction m p xs rule: backlinks.induct) auto

lemma aseg_not_NULL: "aseg m xs rs q \<Longrightarrow> x \<in> set xs \<Longrightarrow> x \<noteq> NULL"
  by (induction m xs rs q rule: aseg.induct) auto

section \<open>Finding the place\<close>

text \<open>The loop stops at the first area above the address.\<close>

lemma aseg_sseg: "aseg m xs rs q \<Longrightarrow> sseg ma_next m xs q"
  by (induction m xs rs q rule: aseg.induct) auto

lemma aseg_starts: "aseg m xs rs q \<Longrightarrow> map (\<lambda>x. ma_start (the (m x))) xs = map fst rs"
  by (induction m xs rs q rule: aseg.induct) auto

lemma find_place_split:
  assumes "aseg (areas s) (xs @ ys) (rs @ ss) NULL" "length xs = length rs"
    and "\<forall>r \<in> set rs. fst r \<le> start" "ss = [] \<or> fst (hd ss) > start"
  shows "find_place start (hdp (xs @ ys) NULL) s = Ok (lastp (hdp (xs @ ys) NULL) xs, hdp ys NULL)"
  unfolding find_place_def
proof (rule trail_split [OF aseg_sseg [OF assms(1)]])
  have seg: "aseg (areas s) xs rs (hdp ys NULL)" "aseg (areas s) ys ss NULL"
    using assms(1,2) by (simp_all add: aseg_append)
  have "(\<lambda>x. ma_start (the (areas s x))) ` set xs = fst ` set rs" using aseg_starts [OF seg(1)] by (metis set_map)
  then show "\<forall>x \<in> set xs. \<not> ma_start (the (areas s x)) > start" using assms(3) by (metis (no_types, lifting) image_iff not_less)
  show "ys = [] \<or> \<not> \<not> ma_start (the (areas s (hd ys))) > start"
    using aseg_starts [OF seg(2)] aseg_length [OF seg(2)] assms(4) by (cases ys; cases ss) auto
qed

section \<open>Adding a free range\<close>

lemma unat_sum: "unat b + unat z < 2 ^ 32 \<Longrightarrow> unat (b + z) = unat b + unat z" for b :: u32
  by (simp add: unat_word_ariths)

lemma span_join:
  "unat b + unat z < 2 ^ 32 \<Longrightarrow> b + z = b' \<Longrightarrow> unat z + unat z' < 2 ^ 32 \<Longrightarrow> span (b, z + z') = span (b, z) \<union> span (b', z')"
  by (auto simp: span_def unat_sum)

text \<open>The neighbours of a range that is disjoint from all the others.\<close>

lemma neighbours:
  assumes "gaps 0 (rs @ ss)" "\<forall>r \<in> set rs. fst r \<le> start" "ss = [] \<or> fst (hd ss) > start"
    and "spans (rs @ ss) \<inter> span (start, sz) = {}" "0 < unat sz" "unat start + unat sz < 2 ^ 32"
  shows "rs = rs' @ [(b, z)] \<Longrightarrow> unat b + unat z \<le> unat start"
    and "ss = (b', z') # ss' \<Longrightarrow> unat start + unat sz \<le> unat b'"
proof -
  assume rs: "rs = rs' @ [(b, z)]"
  then have "unat b \<le> unat start" using assms(2) by (simp add: word_le_nat_alt)
  moreover have "unat start \<notin> span (b, z)" using assms(4,5) rs by (auto simp: span_def)
  ultimately show "unat b + unat z \<le> unat start" by (simp add: span_def)
next
  assume ss: "ss = (b', z') # ss'"
  then have "unat start < unat b'" "0 < unat z'"
    using assms(1,3) by (auto simp: word_less_nat_alt gaps_append)
  moreover have "unat b' \<in> spans (rs @ ss)" using ss \<open>0 < unat z'\<close> by (simp add: span_def)
  then have "unat b' \<notin> span (start, sz)" using assms(4) by blast
  ultimately show "unat start + unat sz \<le> unat b'" by (simp add: span_def)
qed

definition added :: "u32 \<Rightarrow> u32 \<Rightarrow> ptr list \<Rightarrow> (u32 \<times> u32) list \<Rightarrow> mem_pool \<Rightarrow> bool" where
  "added start sz xs rs s \<longleftrightarrow>
     (\<exists>xs' rs' s'. add_free start sz (hdp xs NULL) s = Ok (OS_NO_ERR, hdp xs' NULL, s') \<and>
        aseg (areas s') xs' rs' NULL \<and> distinct xs' \<and> gaps 0 rs' \<and> spans rs' = spans rs \<union> span (start, sz))"

lemma addedI:
  "add_free start sz (hdp xs NULL) s = Ok (OS_NO_ERR, hdp xs' NULL, s') \<Longrightarrow> aseg (areas s') xs' rs' NULL \<Longrightarrow>
   distinct xs' \<Longrightarrow> gaps 0 rs' \<Longrightarrow> spans rs' = spans rs \<union> span (start, sz) \<Longrightarrow> added start sz xs rs s"
  by (auto simp: added_def)

text \<open>The area below is at the end of the list.\<close>

lemma added_last:
  assumes seg: "aseg (areas s) (xs @ [x]) (rs @ [(b, z)]) NULL" and d: "distinct (xs @ [x])"
    and g: "gaps 0 (rs @ [(b, z)])" and len: "length xs = length rs"
    and le: "\<forall>r \<in> set (rs @ [(b, z)]). fst r \<le> start"
    and low: "unat b + unat z \<le> unat start" and sz: "0 < unat sz" "unat start + unat sz < 2 ^ 32"
    and new: "kmalloc sizeof_mem_area (mheap s) = (p, h)" "p \<noteq> NULL" "p \<notin> set (xs @ [x])"
  shows "added start sz (xs @ [x]) (rs @ [(b, z)]) s"
proof -
  let ?L = "hdp (xs @ [x]) NULL"
  have fp: "find_place start ?L s = Ok (x, NULL)"
    using find_place_split [of s "xs @ [x]" "[]" "rs @ [(b, z)]" "[]" start] seg len le by simp
  from seg len obtain a where a: "areas s x = Some a" "ma_start a = b" "ma_size a = z" "ma_next a = NULL" "x \<noteq> NULL"
    "aseg (areas s) xs rs x" by (auto simp: aseg_append)
  have L: "?L \<noteq> NULL" using aseg_not_NULL [OF seg] by (cases xs) auto
  have e: "unat (b + z) = unat b + unat z" using low sz by (simp add: unat_sum)
  have nlt: "\<not> b + z > start" using low e by (simp add: word_less_nat_alt)
  have px: "x \<noteq> p" using new(3) by auto
  show ?thesis
  proof (cases "b + z = start")
    case True
    let ?s = "s\<lparr>areas := (areas s)(x \<mapsto> a\<lparr>ma_size := z + sz\<rparr>)\<rparr>"
    have "add_free start sz ?L s = Ok (OS_NO_ERR, ?L, ?s)"
      using fp L a True nlt by (simp add: add_free_def set_area_def store_simps)
    moreover have "aseg (areas ?s) (xs @ [x]) (rs @ [(b, z + sz)]) NULL"
      using a d len by (simp add: aseg_append)
    moreover have zz: "unat (z + sz) = unat z + unat sz" using sz e True by (simp add: unat_sum)
    then have "gaps 0 (rs @ [(b, z + sz)])" using g sz e True by (simp add: gaps_append)
    moreover have "span (b, z + sz) = span (b, z) \<union> span (start, sz)"
      using span_join [of b z start sz] True e sz zz low by simp
    ultimately show ?thesis using d by (intro addedI [of _ _ _ _ "xs @ [x]" ?s "rs @ [(b, z + sz)]"]) auto
  next
    case False
    let ?n = "\<lparr>ma_start = start, ma_size = sz, ma_next = NULL, ma_prev = x\<rparr>"
    let ?s = "s\<lparr>mheap := h, areas := (areas s)(p \<mapsto> ?n, x \<mapsto> a\<lparr>ma_next := p\<rparr>)\<rparr>"
    have "add_free start sz ?L s = Ok (OS_NO_ERR, hdp (xs @ [x, p]) NULL, ?s)"
      using fp L a False nlt new(1,2) px by (simp add: add_free_def link_area_def set_area_def store_simps)
    moreover have "aseg (areas ?s) (xs @ [x, p]) (rs @ [(b, z), (start, sz)]) NULL"
      using a d len new by (simp add: aseg_append)
    moreover have "gaps 0 (rs @ [(b, z), (start, sz)])"
    proof -
      have "unat b + unat z \<noteq> unat start" using False e by (auto simp: word_unat_eq_iff)
      then show ?thesis using g low sz by (simp add: gaps_append)
    qed
    ultimately show ?thesis using d new(3) by (intro addedI [of _ _ _ _ "xs @ [x, p]" ?s "rs @ [(b, z), (start, sz)]"]) auto
  qed
qed

text \<open>The range comes before every area.\<close>

lemma added_first:
  assumes seg: "aseg (areas s) (y # ys) ((b, z) # ss) NULL" and d: "distinct (y # ys)"
    and g: "gaps 0 ((b, z) # ss)" and gt: "b > start"
    and high: "unat start + unat sz \<le> unat b" and sz: "0 < unat sz" "unat start + unat sz < 2 ^ 32"
    and new: "kmalloc sizeof_mem_area (mheap s) = (p, h)" "p \<noteq> NULL" "p \<notin> set (y # ys)"
  shows "added start sz (y # ys) ((b, z) # ss) s"
proof -
  have fp: "find_place start y s = Ok (y, y)"
    using find_place_split [of s "[]" "y # ys" "[]" "(b, z) # ss" start] seg gt by simp
  from seg obtain a where a: "areas s y = Some a" "ma_start a = b" "ma_size a = z" "ma_next a = hdp ys NULL" "y \<noteq> NULL"
    "aseg (areas s) ys ss NULL" by auto
  have e: "unat (start + sz) = unat start + unat sz" using sz by (simp add: unat_sum)
  have py: "y \<noteq> p" using new(3) by auto
  show ?thesis
  proof (cases "start + sz = b")
    case True
    let ?s = "s\<lparr>areas := (areas s)(y \<mapsto> a\<lparr>ma_size := z + sz, ma_start := start\<rparr>)\<rparr>"
    have "add_free start sz y s = Ok (OS_NO_ERR, y, ?s)"
      using fp a True by (simp add: add_free_def set_area_def store_simps)
    moreover have "aseg (areas ?s) (y # ys) ((start, z + sz) # ss) NULL" using a d by simp
    moreover have zz: "unat (z + sz) = unat z + unat sz" "unat b = unat start + unat sz"
      using g sz e True by (auto simp: unat_sum)
    then have "gaps 0 ((start, z + sz) # ss)" using g sz by (auto simp: algebra_simps)
    moreover have "span (start, z + sz) = span (start, sz) \<union> span (b, z)" using zz by (auto simp: span_def)
    ultimately show ?thesis using d by (intro addedI [of _ _ _ _ "y # ys" ?s "(start, z + sz) # ss"]) auto
  next
    case False
    let ?n = "\<lparr>ma_start = start, ma_size = sz, ma_next = y, ma_prev = NULL\<rparr>"
    let ?s = "s\<lparr>mheap := h, areas := (areas s)(p \<mapsto> ?n, y \<mapsto> a\<lparr>ma_prev := p\<rparr>)\<rparr>"
    have "add_free start sz y s = Ok (OS_NO_ERR, p, ?s)"
      using fp a False new(1,2) py by (simp add: add_free_def link_area_def set_area_def store_simps)
    moreover have "aseg (areas ?s) (p # y # ys) ((start, sz) # (b, z) # ss) NULL" using a d new by auto
    moreover have "gaps 0 ((start, sz) # (b, z) # ss)"
    proof -
      have "unat start + unat sz \<noteq> unat b" using False e by (auto simp: word_unat_eq_iff)
      then show ?thesis using g high sz by simp
    qed
    ultimately show ?thesis using d new(3) by (intro addedI [of _ _ _ _ "p # y # ys" ?s "(start, sz) # (b, z) # ss"]) auto
  qed
qed

text \<open>The range comes between two areas: it may touch both, the lower, the upper, or none.\<close>

lemma added_between:
  assumes seg: "aseg (areas s) (xs @ x # y # ys) (rs @ (b, z) # (b', z') # ss) NULL"
    and d: "distinct (xs @ x # y # ys)" and g: "gaps 0 (rs @ (b, z) # (b', z') # ss)" and len: "length xs = length rs"
    and le: "\<forall>r \<in> set (rs @ [(b, z)]). fst r \<le> start" and gt: "b' > start"
    and low: "unat b + unat z \<le> unat start" and high: "unat start + unat sz \<le> unat b'"
    and sz: "0 < unat sz" "unat start + unat sz < 2 ^ 32"
    and new: "kmalloc sizeof_mem_area (mheap s) = (p, h)" "p \<noteq> NULL" "p \<notin> set (xs @ x # y # ys)"
  shows "added start sz (xs @ x # y # ys) (rs @ (b, z) # (b', z') # ss) s"
proof -
  let ?L = "hdp (xs @ x # y # ys) NULL"
  have fp: "find_place start ?L s = Ok (x, y)"
    using find_place_split [of s "xs @ [x]" "y # ys" "rs @ [(b, z)]" "(b', z') # ss" start] seg len le gt by simp
  from seg len obtain a c where a: "areas s x = Some a" "ma_start a = b" "ma_size a = z" "ma_next a = y" "x \<noteq> NULL"
    and c: "areas s y = Some c" "ma_start c = b'" "ma_size c = z'" "ma_next c = hdp ys NULL" "y \<noteq> NULL"
    and segs: "aseg (areas s) xs rs x" "aseg (areas s) ys ss NULL" by (auto simp: aseg_append)
  have L: "?L \<noteq> NULL" using aseg_not_NULL [OF seg] by (cases xs) auto
  have e: "unat (b + z) = unat b + unat z" "unat (start + sz) = unat start + unat sz"
    using low sz by (simp_all add: unat_sum)
  have z': "0 < unat z'" "unat b' + unat z' < 2 ^ 32" using g by (auto simp: gaps_append)
  have nlt: "\<not> b + z > start" "\<not> start + sz > b'" using low high e by (simp_all add: word_less_nat_alt)
  have ne: "x \<noteq> y" "y \<noteq> x" "x \<noteq> p" "y \<noteq> p" using d new(3) by auto
  note run = fp L a c nlt ne
  consider (both) "b + z = start" "start + sz = b'" | (lower) "b + z = start" "start + sz \<noteq> b'"
    | (upper) "b + z \<noteq> start" "start + sz = b'" | (none) "b + z \<noteq> start" "start + sz \<noteq> b'" by blast
  then show ?thesis
  proof cases
    case both
    let ?s = "free_area y (s\<lparr>areas := (areas s)(x \<mapsto> a\<lparr>ma_size := z + (sz + z'), ma_next := hdp ys NULL\<rparr>)\<rparr>)"
    have "add_free start sz ?L s = Ok (OS_NO_ERR, hdp (xs @ x # ys) NULL, ?s)"
      using run both by (simp add: add_free_def set_area_def store_simps)
    moreover have "aseg (areas ?s) (xs @ x # ys) (rs @ (b, z + (sz + z')) # ss) NULL"
      using a segs d len ne by (simp add: aseg_append free_area_def)
    moreover have u: "unat (z + (sz + z')) = unat z + unat sz + unat z'" "unat start = unat b + unat z"
        "unat b' = unat b + unat z + unat sz"
      using e both sz z' by (auto simp: unat_sum)
    then have "gaps 0 (rs @ (b, z + (sz + z')) # ss)" using g sz by (auto simp: gaps_append algebra_simps)
    moreover have "span (b, z + (sz + z')) = span (b, z) \<union> span (start, sz) \<union> span (b', z')"
      using u by (auto simp: span_def)
    ultimately show ?thesis using d by (intro addedI [of _ _ _ _ "xs @ x # ys" ?s "rs @ (b, z + (sz + z')) # ss"]) auto
  next
    case lower
    let ?s = "s\<lparr>areas := (areas s)(x \<mapsto> a\<lparr>ma_size := z + sz\<rparr>)\<rparr>"
    have "add_free start sz ?L s = Ok (OS_NO_ERR, ?L, ?s)"
      using run lower by (simp add: add_free_def set_area_def store_simps)
    moreover have "aseg (areas ?s) (xs @ x # y # ys) (rs @ (b, z + sz) # (b', z') # ss) NULL"
      using a c segs d len ne by (simp add: aseg_append)
    moreover have u: "unat (z + sz) = unat z + unat sz" "unat start = unat b + unat z"
      using e lower sz by (auto simp: unat_sum)
    have "unat start + unat sz \<noteq> unat b'" using lower(2) e(2) by (auto simp: word_unat_eq_iff)
    then have "gaps 0 (rs @ (b, z + sz) # (b', z') # ss)" using g sz high u by (auto simp: gaps_append algebra_simps)
    moreover have "span (b, z + sz) = span (b, z) \<union> span (start, sz)" using u by (auto simp: span_def)
    ultimately show ?thesis using d
      by (intro addedI [of _ _ _ _ "xs @ x # y # ys" ?s "rs @ (b, z + sz) # (b', z') # ss"]) auto
  next
    case upper
    let ?s = "s\<lparr>areas := (areas s)(y \<mapsto> c\<lparr>ma_size := z' + sz, ma_start := start\<rparr>)\<rparr>"
    have "add_free start sz ?L s = Ok (OS_NO_ERR, ?L, ?s)"
      using run upper by (simp add: add_free_def set_area_def store_simps)
    moreover have "aseg (areas ?s) (xs @ x # y # ys) (rs @ (b, z) # (start, z' + sz) # ss) NULL"
      using a c segs d len ne by (simp add: aseg_append)
    moreover have u: "unat (z' + sz) = unat z' + unat sz" "unat b' = unat start + unat sz"
      using e upper z' by (auto simp: unat_sum)
    have "unat b + unat z \<noteq> unat start" using upper(1) e(1) by (auto simp: word_unat_eq_iff)
    then have "gaps 0 (rs @ (b, z) # (start, z' + sz) # ss)" using g sz low u z' by (auto simp: gaps_append algebra_simps)
    moreover have "span (start, z' + sz) = span (start, sz) \<union> span (b', z')" using u by (auto simp: span_def)
    ultimately show ?thesis using d
      by (intro addedI [of _ _ _ _ "xs @ x # y # ys" ?s "rs @ (b, z) # (start, z' + sz) # ss"]) auto
  next
    case none
    let ?n = "\<lparr>ma_start = start, ma_size = sz, ma_next = y, ma_prev = x\<rparr>"
    let ?s = "s\<lparr>mheap := h, areas := (areas s)(p \<mapsto> ?n, x \<mapsto> a\<lparr>ma_next := p\<rparr>, y \<mapsto> c\<lparr>ma_prev := p\<rparr>)\<rparr>"
    have "add_free start sz ?L s = Ok (OS_NO_ERR, hdp (xs @ x # p # y # ys) NULL, ?s)"
      using run none new(1,2) by (simp add: add_free_def link_area_def set_area_def store_simps)
    moreover have "aseg (areas ?s) (xs @ x # p # y # ys) (rs @ (b, z) # (start, sz) # (b', z') # ss) NULL"
      using a c segs d len ne new by (simp add: aseg_append)
    moreover have "unat b + unat z \<noteq> unat start" "unat start + unat sz \<noteq> unat b'"
      using none e by (auto simp: word_unat_eq_iff)
    then have "gaps 0 (rs @ (b, z) # (start, sz) # (b', z') # ss)" using g sz low high by (auto simp: gaps_append)
    ultimately show ?thesis using d new(3)
      by (intro addedI [of _ _ _ _ "xs @ x # p # y # ys" ?s "rs @ (b, z) # (start, sz) # (b', z') # ss"]) auto
  qed
qed

lemma added_empty:
  assumes "0 < unat sz" "unat start + unat sz < 2 ^ 32" "kmalloc sizeof_mem_area (mheap s) = (p, h)" "p \<noteq> NULL"
  shows "added start sz [] [] s"
proof -
  let ?s = "s\<lparr>mheap := h, areas := (areas s)(p \<mapsto> \<lparr>ma_start = start, ma_size = sz, ma_next = NULL, ma_prev = NULL\<rparr>)\<rparr>"
  have "add_free start sz NULL s = Ok (OS_NO_ERR, p, ?s)" using assms(3,4) by (simp add: add_free_def)
  then show ?thesis using assms by (intro addedI [of _ _ _ _ "[p]" ?s "[(start, sz)]"]) auto
qed

text \<open>The split of the list at the place of a range.\<close>

lemma place_split:
  fixes start :: u32
  obtains rs1 rs2 where "rs = rs1 @ rs2" "\<forall>r \<in> set rs1. fst r \<le> start" "rs2 = [] \<or> fst (hd rs2) > start"
proof -
  have "\<forall>r \<in> set (takeWhile (\<lambda>r. fst r \<le> start) rs). fst r \<le> start" by (auto dest: set_takeWhileD)
  moreover have "dropWhile (\<lambda>r. fst r \<le> start) rs = [] \<or> fst (hd (dropWhile (\<lambda>r. fst r \<le> start) rs)) > start"
    using hd_dropWhile [of "\<lambda>r. fst r \<le> start" rs] by (metis not_le)
  ultimately show thesis using that [of "takeWhile (\<lambda>r. fst r \<le> start) rs" "dropWhile (\<lambda>r. fst r \<le> start) rs"] by simp
qed

lemma aseg_split:
  assumes "aseg m zs (rs @ ss) q"
  obtains xs ys where "zs = xs @ ys" "length xs = length rs" "length ys = length ss"
proof -
  have "length zs = length rs + length ss" using aseg_length [OF assms] by simp
  then show thesis using that [of "take (length rs) zs" "drop (length rs) zs"] by simp
qed

lemma add_free_adds:
  assumes seg: "aseg (areas s) zs rs NULL" and d: "distinct zs" and g: "gaps 0 rs"
    and sz: "0 < unat sz" "unat start + unat sz < 2 ^ 32" and dis: "spans rs \<inter> span (start, sz) = {}"
    and new: "kmalloc sizeof_mem_area (mheap s) = (p, h)" "p \<noteq> NULL" "p \<notin> set zs"
  shows "added start sz zs rs s"
proof -
  obtain rs1 rs2 where r: "rs = rs1 @ rs2" "\<forall>r \<in> set rs1. fst r \<le> start" "rs2 = [] \<or> fst (hd rs2) > start"
    by (rule place_split)
  from seg obtain xs ys where z: "zs = xs @ ys" "length xs = length rs1" "length ys = length rs2"
    unfolding r(1) by (rule aseg_split)
  note nb = neighbours [OF g [unfolded r(1)] r(2,3) dis [unfolded r(1)] sz]
  consider (empty) "rs1 = []" "rs2 = []" | (first) b z ss where "rs1 = []" "rs2 = (b, z) # ss"
    | (last) rs' b z where "rs1 = rs' @ [(b, z)]" "rs2 = []"
    | (between) rs' b z b' z' ss where "rs1 = rs' @ [(b, z)]" "rs2 = (b', z') # ss"
    by (metis list.exhaust rev_exhaust surj_pair)
  then show ?thesis
  proof cases
    case empty
    then show ?thesis using added_empty [OF sz new(1,2)] r z by simp
  next
    case first
    then obtain y ys' where y: "zs = y # ys'" using z by (cases ys) auto
    show ?thesis
      using added_first [of s y ys' b z ss start sz p h] seg d g r sz new nb(2) [OF first(2)] first y by simp
  next
    case last
    then obtain xs' x where x: "zs = xs' @ [x]" "length xs' = length rs'" using z by (cases xs rule: rev_cases) auto
    show ?thesis
      using added_last [of s xs' x rs' b z start sz p h] seg d g r sz new nb(1) [OF last(1)] last x by simp
  next
    case between
    then obtain xs' x y ys' where x: "xs = xs' @ [x]" "length xs' = length rs'" "ys = y # ys'"
      using z by (cases xs rule: rev_cases; cases ys) auto
    show ?thesis
      using added_between [of s xs' x y ys' rs' b z b' z' ss start sz p h] seg d g r sz new
        nb(1) [OF between(1)] nb(2) [OF between(2)] between x z by simp
  qed
qed

section \<open>Taking a block\<close>

lemma aseg_dseg: "aseg m xs rs q \<Longrightarrow> backlinks m p xs \<Longrightarrow> dseg ma_next ma_prev m p xs q"
  by (induction xs arbitrary: rs p) (auto simp: aseg_Cons1)

lemma aseg_all:
  "aseg m xs rs q \<Longrightarrow> (\<forall>x \<in> set xs. P (ma_start (the (m x)), ma_size (the (m x)))) \<longleftrightarrow> (\<forall>r \<in> set rs. P r)"
  by (induction m xs rs q rule: aseg.induct) auto

text \<open>Unlinking a descriptor whose links are right.\<close>

lemma remove_area_step:
  assumes seg: "aseg (areas s) (xs @ x # ys) (rs @ r # ss) NULL" and bk: "backlinks (areas s) NULL (xs @ x # ys)"
    and d: "distinct (xs @ x # ys)" and len: "length xs = length rs"
  shows "\<exists>s'. remove_free_area x (hdp (xs @ x # ys) NULL) s = Ok (hdp (xs @ ys) NULL, s') \<and>
              aseg (areas s') (xs @ ys) (rs @ ss) NULL \<and> backlinks (areas s') NULL (xs @ ys)"
proof -
  from seg bk len obtain a where a: "areas s x = Some a" "ma_next a = hdp ys NULL" "ma_prev a = lastp NULL xs" "x \<noteq> NULL"
    and segs: "aseg (areas s) xs rs x" "aseg (areas s) ys ss NULL"
    and bks: "backlinks (areas s) NULL xs" "backlinks (areas s) x ys"
    by (auto simp: aseg_append backlinks_append)
  have nn: "y \<noteq> NULL" if "y \<in> set (xs @ x # ys)" for y using aseg_not_NULL [OF seg that] .
  show ?thesis
  proof (cases xs rule: rev_cases)
    case xs: Nil
    show ?thesis
    proof (cases ys)
      case Nil
      then show ?thesis using xs a len segs by (simp add: remove_free_area_def store_simps free_area_def)
    next
      case (Cons y ys')
      then obtain c where c: "areas s y = Some c" using bks(2) by auto
      have "y \<noteq> NULL" "x \<noteq> y" using nn d Cons by auto
      then show ?thesis using xs Cons a len segs bks c d
        by (simp add: remove_free_area_def set_area_def store_simps free_area_def aseg_set_prev)
    qed
  next
    case xs: (snoc xs' w)
    then obtain rs' r' where rs: "rs = rs' @ [r']" "length xs' = length rs'"
      using len by (cases rs rule: rev_cases) auto
    obtain v where v: "areas s w = Some v" using bks(1) xs by (auto simp: backlinks_append)
    have w: "w \<noteq> NULL" "x \<noteq> w" using nn d xs by auto
    show ?thesis
    proof (cases ys)
      case Nil
      then show ?thesis using xs rs v w a segs bks d
        by (auto simp: remove_free_area_def set_area_def store_simps free_area_def aseg_append backlinks_append
            aseg_set_prev)
    next
      case (Cons y ys')
      then obtain c where c: "areas s y = Some c" using bks(2) by auto
      have "y \<noteq> NULL" "x \<noteq> y" "w \<noteq> y" "y \<noteq> w" using nn d xs Cons by auto
      then show ?thesis using xs Cons rs v w c a segs bks d
        by (auto simp: remove_free_area_def set_area_def store_simps free_area_def aseg_append backlinks_append
            aseg_set_prev)
    qed
  qed
qed

lemma get_block_none:
  assumes "aseg (areas s) zs rs NULL" "backlinks (areas s) NULL zs"
    and "\<forall>r \<in> set rs. snd r < KERNEL_PAGE_SIZE * n"
  shows "get_block (hdp zs NULL) n s = Ok (NULL, OS_ERR_NO_MORE_FREE_MEM, hdp zs NULL, s)"
proof -
  let ?P = "\<lambda>x. \<not> ma_size (the (areas s x)) \<ge> KERNEL_PAGE_SIZE * n"
  have "\<forall>x \<in> set zs. ?P x"
    using aseg_all [OF assms(1), of "\<lambda>r. snd r < KERNEL_PAGE_SIZE * n"] assms(3) by (simp add: not_le)
  then have "dropWhile ?P zs = []" by simp
  with walk_dseg [OF aseg_dseg [OF assms(1,2)], of "\<lambda>_ a. \<not> ma_size a \<ge> KERNEL_PAGE_SIZE * n"]
  show ?thesis by (simp add: get_block_def Let_def)
qed

lemma get_block_first:
  assumes seg: "aseg (areas s) zs (rs @ (b, z) # ss) NULL" and bk: "backlinks (areas s) NULL zs" and d: "distinct zs"
    and g: "gaps 0 (rs @ (b, z) # ss)" and n: "m = KERNEL_PAGE_SIZE * n" "0 < unat m"
    and skip: "\<forall>r \<in> set rs. snd r < m" and fit: "m \<le> z"
  shows "\<exists>s' zs' rs'. get_block (hdp zs NULL) n s = Ok (b, OS_NO_ERR, hdp zs' NULL, s') \<and>
           aseg (areas s') zs' rs' NULL \<and> backlinks (areas s') NULL zs' \<and> distinct zs' \<and> gaps 0 rs' \<and>
           spans rs' = spans (rs @ (b, z) # ss) - span (b, m) \<and> set rs' \<subseteq> insert (b + m, z - m) (set (rs @ ss))"
proof -
  from seg obtain xs ys' where z: "zs = xs @ ys'" "length xs = length rs" "length ys' = length ((b, z) # ss)"
    by (rule aseg_split)
  then obtain x ys where ys: "ys' = x # ys" by (cases ys') auto
  note seg' = seg [unfolded z(1) ys] and bk' = bk [unfolded z(1) ys] and d' = d [unfolded z(1) ys]
  from seg' z(2) obtain a where a: "areas s x = Some a" "ma_start a = b" "ma_size a = z" "x \<noteq> NULL"
    "ma_next a = hdp ys NULL" "aseg (areas s) xs rs x" "aseg (areas s) ys ss NULL" by (auto simp: aseg_append)
  let ?P = "\<lambda>x. \<not> ma_size (the (areas s x)) \<ge> m"
  have "\<forall>x \<in> set xs. ?P x" using aseg_all [OF a(6), of "\<lambda>r. snd r < m"] skip by (simp add: not_le)
  then have "dropWhile ?P (xs @ x # ys) = x # ys" using a fit by simp
  with walk_dseg [OF aseg_dseg [OF seg' bk'], of "\<lambda>_ a. \<not> ma_size a \<ge> m"]
  have w: "walk ma_next (\<lambda>_ a. \<not> ma_size a \<ge> m) (areas s) (hdp (xs @ x # ys) NULL) = Some (Ok x)" by simp
  let ?a = "a\<lparr>ma_size := z - m, ma_start := b + m\<rparr>"
  let ?s = "s\<lparr>areas := (areas s)(x \<mapsto> ?a)\<rparr>"
  have run: "get_block (hdp (xs @ x # ys) NULL) n s =
      andthen (if z - m = 0 then remove_free_area x (hdp (xs @ x # ys) NULL) ?s else Ok (hdp (xs @ x # ys) NULL, ?s))
        (\<lambda>(list, s). Ok (b, OS_NO_ERR, list, s))"
    using w a n(1) by (simp add: get_block_def set_area_def store_simps Let_def del: hdp_append)
  have seg1: "aseg (areas ?s) (xs @ x # ys) (rs @ (b + m, z - m) # ss) NULL"
    using a d' z(2) by (simp add: aseg_append)
  have bk1: "backlinks (areas ?s) NULL (xs @ x # ys)" using bk' a d' by (simp add: backlinks_append)
  have g': "gaps 0 rs" "unat b + unat z < 2 ^ 32" "gaps (unat b + unat z + 1) ss"
    "if rs = [] then True else after_range (last rs) \<le> unat b" using g by (auto simp: gaps_append)
  have u: "unat m \<le> unat z" "unat (z - m) = unat z - unat m" "unat (b + m) = unat b + unat m"
    using fit g'(2) by (simp_all add: word_le_nat_alt unat_sub unat_sum)
  have out: "spans rs \<inter> span (b, m) = {}" "spans ss \<inter> span (b, m) = {}"
  proof -
    show "spans rs \<inter> span (b, m) = {}" using gaps_below [OF g] by (fastforce simp: span_def)
    show "spans ss \<inter> span (b, m) = {}" using gaps_above [OF g'(3)] u(1) by (fastforce simp: span_def)
  qed
  show ?thesis
  proof (cases "z = m")
    case True
    from remove_area_step [OF seg1 bk1 d' z(2)] obtain s' where s':
      "remove_free_area x (hdp (xs @ x # ys) NULL) ?s = Ok (hdp (xs @ ys) NULL, s')"
      "aseg (areas s') (xs @ ys) (rs @ ss) NULL" "backlinks (areas s') NULL (xs @ ys)" by blast
    have "get_block (hdp zs NULL) n s = Ok (b, OS_NO_ERR, hdp (xs @ ys) NULL, s')"
      using run s'(1) True z(1) ys by simp
    moreover have "gaps 0 (rs @ ss)" using g'(1,3,4) gaps_mono [OF g'(3)] by (auto simp: gaps_append)
    moreover have "spans (rs @ ss) = spans (rs @ (b, z) # ss) - span (b, m)" using out True by auto
    ultimately show ?thesis using s'(2,3) d' by (intro exI [of _ s'] exI [of _ "xs @ ys"] exI [of _ "rs @ ss"]) (simp, blast)
  next
    case False
    then have "get_block (hdp zs NULL) n s = Ok (b, OS_NO_ERR, hdp (xs @ x # ys) NULL, ?s)"
      using run z(1) ys by simp
    moreover have lt: "unat m < unat z" using False u(1) by (metis le_neq_implies_less word_unat_eq_iff)
    then have "gaps 0 (rs @ (b + m, z - m) # ss)" using g'(1-4) u by (auto simp: gaps_append)
    moreover have "span (b + m, z - m) = span (b, z) - span (b, m)" using u by (auto simp: span_def)
    then have "spans (rs @ (b + m, z - m) # ss) = spans (rs @ (b, z) # ss) - span (b, m)" using out by auto
    ultimately show ?thesis using seg1 bk1 d'
      by (intro exI [of _ ?s] exI [of _ "xs @ x # ys"] exI [of _ "rs @ (b + m, z - m) # ss"]) auto
  qed
qed

section \<open>Properties\<close>

text \<open>The free frames are described by the ranges \<open>rs\<close>, in the descriptors \<open>zs\<close>.\<close>

definition frames_are :: "mem_state \<Rightarrow> ptr list \<Rightarrow> (u32 \<times> u32) list \<Rightarrow> bool" where
  "frames_are s zs rs \<longleftrightarrow>
     free_frames s = hdp zs NULL \<and> aseg (areas (pool s)) zs rs NULL \<and> distinct zs \<and> gaps 0 rs"

lemma unat_pages: "unat n * 4096 < 2 ^ 32 \<Longrightarrow> unat (n * KERNEL_PAGE_SIZE) = unat n * 4096"
  by (simp add: KERNEL_PAGE_SIZE_def unat_word_ariths)

text \<open>C11. Freeing frames adds exactly their addresses to the free memory: for frames none of which is
  free, the call returns \<^verbatim>\<open>OS_NO_ERR\<close>, the free ranges stay sorted, disjoint and maximal (areas that touch
  are merged), and the set of free addresses grows by exactly the freed ones.\<close>

theorem memalloc_free_kframes_adds:
  assumes "frames_are s zs rs" "0 < unat n" "unat p + unat n * 4096 < 2 ^ 32"
    and "spans rs \<inter> span (p, n * KERNEL_PAGE_SIZE) = {}"
    and "kmalloc sizeof_mem_area (mheap (pool s)) = (q, h)" "q \<noteq> NULL" "q \<notin> set zs"
  shows "\<exists>s' zs' rs'. memalloc_free_kframes p n s = Ok (OS_NO_ERR, s') \<and> frames_are s' zs' rs' \<and>
           spans rs' = spans rs \<union> {unat p ..< unat p + unat n * 4096}"
proof -
  have u: "unat (n * KERNEL_PAGE_SIZE) = unat n * 4096" using assms(3) by (simp add: unat_pages)
  from add_free_adds [of "pool s" zs rs "n * KERNEL_PAGE_SIZE" p q h] assms u obtain xs' rs' s' where a:
    "add_free p (n * KERNEL_PAGE_SIZE) (hdp zs NULL) (pool s) = Ok (OS_NO_ERR, hdp xs' NULL, s')"
    "aseg (areas s') xs' rs' NULL" "distinct xs'" "gaps 0 rs'"
    "spans rs' = spans rs \<union> span (p, n * KERNEL_PAGE_SIZE)"
    by (auto simp: added_def frames_are_def)
  let ?s = "s\<lparr>pool := s', free_frames := hdp xs' NULL\<rparr>"
  have "memalloc_free_kframes p n s = Ok (OS_NO_ERR, ?s)"
    using a(1) assms(1) by (simp add: memalloc_free_kframes_def frames_are_def)
  moreover have "frames_are ?s xs' rs'" using a(2-4) by (simp add: frames_are_def)
  ultimately show ?thesis using a(5) u by (auto simp: span_def)
qed

text \<open>Two areas of 16 pages with a gap of 16 pages between them.\<close>

definition ex_mem :: mem_state where
  "ex_mem =
     \<lparr>pool = \<lparr>mheap = snd (kheap_init 0x100000 0x101000 blank_heap),
             areas = [0x50 \<mapsto> \<lparr>ma_start = 0x10000, ma_size = 0x10000, ma_next = 0x60, ma_prev = NULL\<rparr>,
                      0x60 \<mapsto> \<lparr>ma_start = 0x30000, ma_size = 0x10000, ma_next = NULL, ma_prev = 0x50\<rparr>]\<rparr>,
      free_frames = 0x50, free_pages = NULL\<rparr>"

lemma ex_mem_frames: "frames_are ex_mem [0x50, 0x60] [(0x10000, 0x10000), (0x30000, 0x10000)]"
  by (simp add: frames_are_def ex_mem_def)

lemma ex_mem_heap: "fst (kmalloc sizeof_mem_area (mheap (pool ex_mem))) \<notin> {NULL, 0x50, 0x60}"
  by code_simp

theorem memalloc_free_kframes_adds_witness:
  "\<exists>s' zs' rs'. memalloc_free_kframes 0x20000 16 ex_mem = Ok (OS_NO_ERR, s') \<and> frames_are s' zs' rs' \<and>
     spans rs' = {0x10000 ..< 0x40000}"
proof -
  obtain q h where q: "kmalloc sizeof_mem_area (mheap (pool ex_mem)) = (q, h)" by fastforce
  have new: "q \<noteq> NULL" "q \<notin> set [0x50, 0x60]" using ex_mem_heap q by auto
  have dis: "spans [(0x10000, 0x10000), (0x30000, 0x10000)] \<inter> span (0x20000, 16 * KERNEL_PAGE_SIZE) = {}"
    by (auto simp: span_def KERNEL_PAGE_SIZE_def)
  from memalloc_free_kframes_adds [OF ex_mem_frames _ _ dis q new] obtain s' zs' rs' where
    "memalloc_free_kframes 0x20000 16 ex_mem = Ok (OS_NO_ERR, s')" "frames_are s' zs' rs'"
    "spans rs' = spans [(0x10000, 0x10000), (0x30000, 0x10000)] \<union> {0x20000 ..< 0x30000}" by auto
  moreover have "spans [(0x10000, 0x10000), (0x30000, 0x10000)] \<union> {0x20000 ..< 0x30000} = {0x10000 ..< 0x40000}"
    by (auto simp: span_def)
  ultimately show ?thesis by auto
qed

text \<open>Every range starts at a page.\<close>

definition page_starts :: "(u32 \<times> u32) list \<Rightarrow> bool" where
  "page_starts rs \<longleftrightarrow> (\<forall>r \<in> set rs. unat (fst r) mod 4096 = 0)"

lemma gaps_bound: "gaps lo rs \<Longrightarrow> (b, z) \<in> set rs \<Longrightarrow> unat b + unat z < 2 ^ 32"
  by (induction lo rs rule: gaps.induct) auto

lemma alloc_kframes_cases:
  assumes "frames_are s zs rs" "backlinks (areas (pool s)) NULL zs" "0 < unat n" "unat n * 4096 < 2 ^ 32"
  shows "(case find (\<lambda>r. unat n * 4096 \<le> unat (snd r)) rs of
            None \<Rightarrow> memalloc_alloc_kframes n s = Ok (NULL, OS_ERR_NO_MORE_FREE_MEM, s)
          | Some r \<Rightarrow> \<exists>s' zs' rs'.
              memalloc_alloc_kframes n s = Ok (fst r, OS_NO_ERR, s') \<and>
              frames_are s' zs' rs' \<and> backlinks (areas (pool s')) NULL zs' \<and>
              {unat (fst r) ..< unat (fst r) + unat n * 4096} \<subseteq> spans rs \<and>
              spans rs' = spans rs - {unat (fst r) ..< unat (fst r) + unat n * 4096} \<and>
              (page_starts rs \<longrightarrow> page_starts rs'))"
proof -
  have u: "unat (KERNEL_PAGE_SIZE * n) = unat n * 4096" using unat_pages [OF assms(4)] by (simp add: mult.commute)
  have sp: "span (b, KERNEL_PAGE_SIZE * n) = {unat b ..< unat b + unat n * 4096}" for b using u by (simp add: span_def)
  note f = assms(1) [unfolded frames_are_def]
  show ?thesis
  proof (cases "find (\<lambda>r. unat n * 4096 \<le> unat (snd r)) rs")
    case None
    then have "\<forall>r \<in> set rs. snd r < KERNEL_PAGE_SIZE * n"
      using u by (fastforce simp: find_None_iff word_less_nat_alt not_le)
    from get_block_none [of "pool s" zs rs n] this f assms(2) show ?thesis
      using None by (simp add: memalloc_alloc_kframes_def)
  next
    case (Some r)
    obtain b z where r: "r = (b, z)" by fastforce
    from Some obtain i where i: "i < length rs" "unat n * 4096 \<le> unat z" "rs ! i = (b, z)"
      "\<forall>j < i. \<not> unat n * 4096 \<le> unat (snd (rs ! j))" 
      using r by (auto simp: find_Some_iff) (metis snd_conv)
    have split: "rs = take i rs @ (b, z) # drop (Suc i) rs" using i(1,3) by (metis id_take_nth_drop)
    have skip: "\<forall>q \<in> set (take i rs). snd q < KERNEL_PAGE_SIZE * n"
    proof
      fix q assume "q \<in> set (take i rs)"
      then obtain j where "j < i" "q = rs ! j" by (auto simp: in_set_conv_nth)
      then show "snd q < KERNEL_PAGE_SIZE * n" using i(4) u by (simp add: word_less_nat_alt not_le)
    qed
    have fit: "KERNEL_PAGE_SIZE * n \<le> z" using i(2) u by (simp add: word_le_nat_alt)
    from get_block_first [of "pool s" zs "take i rs" b z "drop (Suc i) rs" "KERNEL_PAGE_SIZE * n" n]
      f assms(2,3) split skip fit u obtain s' zs' rs' where g:
      "get_block (hdp zs NULL) n (pool s) = Ok (b, OS_NO_ERR, hdp zs' NULL, s')"
      "aseg (areas s') zs' rs' NULL" "backlinks (areas s') NULL zs'" "distinct zs'" "gaps 0 rs'"
      "spans rs' = spans rs - span (b, KERNEL_PAGE_SIZE * n)"
      "set rs' \<subseteq> insert (b + KERNEL_PAGE_SIZE * n, z - KERNEL_PAGE_SIZE * n) (set (take i rs @ drop (Suc i) rs))" by auto
    let ?s = "s\<lparr>pool := s', free_frames := hdp zs' NULL\<rparr>"
    have "memalloc_alloc_kframes n s = Ok (b, OS_NO_ERR, ?s)" "frames_are ?s zs' rs'"
      "backlinks (areas (pool ?s)) NULL zs'"
      using g f by (simp_all add: memalloc_alloc_kframes_def frames_are_def)
    moreover have "(b, z) \<in> set rs" using i(1,3) by (metis nth_mem)
    then have "{unat b ..< unat b + unat n * 4096} \<subseteq> spans rs" using i(2) by (force simp: spans_def span_def)
    moreover have "page_starts rs \<longrightarrow> page_starts rs'"
    proof
      assume ps: "page_starts rs"
      then have "unat b mod 4096 = 0" using \<open>(b, z) \<in> set rs\<close> by (auto simp: page_starts_def)
      moreover have "unat b + unat n * 4096 < 2 ^ 32" using gaps_bound [of 0 rs b z] f \<open>(b, z) \<in> set rs\<close> i(2) by auto
      then have "unat (b + KERNEL_PAGE_SIZE * n) = unat b + unat n * 4096" using u by (simp add: unat_word_ariths)
      moreover have "set (take i rs @ drop (Suc i) rs) \<subseteq> set rs" using set_take_subset set_drop_subset by fastforce
      ultimately show "page_starts rs'" using ps g(7) by (fastforce simp: page_starts_def)
    qed
    ultimately show ?thesis using Some r g(6) sp by auto
  qed
qed

text \<open>C10. Allocating frames is first fit and never hands out a frame twice: the block starts at the first
  area that is large enough, all its addresses were free, and exactly they are no longer free; when no
  area is large enough the call returns \<^verbatim>\<open>NULL\<close> with \<^verbatim>\<open>OS_ERR_NO_MORE_FREE_MEM\<close> and changes nothing.\<close>

theorem memalloc_alloc_kframes_first_fit:
  assumes "frames_are s zs rs" "backlinks (areas (pool s)) NULL zs" "0 < unat n" "unat n * 4096 < 2 ^ 32"
  shows "(case find (\<lambda>r. unat n * 4096 \<le> unat (snd r)) rs of
            None \<Rightarrow> memalloc_alloc_kframes n s = Ok (NULL, OS_ERR_NO_MORE_FREE_MEM, s)
          | Some r \<Rightarrow> \<exists>s' zs' rs'.
              memalloc_alloc_kframes n s = Ok (fst r, OS_NO_ERR, s') \<and>
              frames_are s' zs' rs' \<and> backlinks (areas (pool s')) NULL zs' \<and>
              {unat (fst r) ..< unat (fst r) + unat n * 4096} \<subseteq> spans rs \<and>
              spans rs' = spans rs - {unat (fst r) ..< unat (fst r) + unat n * 4096})"
proof (cases "find (\<lambda>r. unat n * 4096 \<le> unat (snd r)) rs")
  case None
  with alloc_kframes_cases [OF assms] show ?thesis by simp
next
  case (Some r)
  with alloc_kframes_cases [OF assms] show ?thesis by simp blast
qed

theorem memalloc_alloc_kframes_first_fit_witness:
  "\<exists>s' zs' rs'. memalloc_alloc_kframes 4 ex_mem = Ok (0x10000, OS_NO_ERR, s') \<and>
     frames_are s' zs' rs' \<and> backlinks (areas (pool s')) NULL zs'"
proof -
  have "backlinks (areas (pool ex_mem)) NULL [0x50, 0x60]" by (simp add: ex_mem_def)
  from memalloc_alloc_kframes_first_fit [OF ex_mem_frames this, of 4] show ?thesis by auto
qed

text \<open>Merging leaves a link to freed memory: when freed memory fills the gap between two areas and
  a third follows, the second descriptor is freed but still is the predecessor of the third; allocating
  the third area exactly then writes through that link.\<close>

theorem add_free_merge_dangles:
  assumes "aseg (areas s) [x, y, w] [(b, z), (b', z'), (b'', z'')] NULL" "backlinks (areas s) NULL [x, y, w]"
    and "distinct [x, y, w]" "b \<le> start" "start < b'" "b + z = start" "start + sz = b'"
    and "z + (sz + z') < KERNEL_PAGE_SIZE * n" "z'' = KERNEL_PAGE_SIZE * n"
  shows "\<exists>s'. add_free start sz x s = Ok (OS_NO_ERR, x, s') \<and> areas s' y = None \<and> get_block x n s' = Fault"
proof -
  from assms(1-3) obtain ax ay aw where
    x: "areas s x = Some ax" "ma_start ax = b" "ma_size ax = z" "ma_next ax = y" "x \<noteq> NULL" and
    y: "areas s y = Some ay" "ma_start ay = b'" "ma_size ay = z'" "ma_next ay = w" "y \<noteq> NULL" and
    w: "areas s w = Some aw" "ma_start aw = b''" "ma_size aw = z''" "ma_next aw = NULL" "ma_prev aw = y" "w \<noteq> NULL"
    and d: "x \<noteq> y" "x \<noteq> w" "y \<noteq> w" "w \<noteq> x" "y \<noteq> x" "w \<noteq> y" by auto
  have fp: "find_place start x s = Ok (x, y)"
    using find_place_split [of s "[x]" "[y, w]" "[(b, z)]" "[(b', z'), (b'', z'')]" start] assms(1,4,5) by simp
  let ?s = "free_area y (s\<lparr>areas := (areas s)(x \<mapsto> ax\<lparr>ma_size := z + (sz + z'), ma_next := w\<rparr>)\<rparr>)"
  have add: "add_free start sz x s = Ok (OS_NO_ERR, x, ?s)"
    using fp x y d assms(6,7) by (simp add: add_free_def set_area_def store_simps)
  have at: "areas ?s x = Some (ax\<lparr>ma_size := z + (sz + z'), ma_next := w\<rparr>)" "areas ?s w = Some aw" "areas ?s y = None"
    using x w d by (simp_all add: free_area_def)
  have "walk ma_next (\<lambda>_ a. \<not> ma_size a \<ge> KERNEL_PAGE_SIZE * n) (areas ?s) x = Some (Ok w)"
    using at x w assms(8,9) by (simp add: walk.simps [of _ _ _ x] walk.simps [of _ _ _ w] not_le)
  then have "get_block x n ?s = Fault"
    using at w d assms(9) y(5) by (simp add: get_block_def set_area_def store_simps remove_free_area_def Let_def)
  then show ?thesis using add at(3) by blast
qed

theorem add_free_merge_dangles_witness:
  "\<exists>s'. add_free 0x2000 0x1000 0x50 \<lparr>mheap = blank_heap, areas =
          [0x50 \<mapsto> \<lparr>ma_start = 0x1000, ma_size = 0x1000, ma_next = 0x60, ma_prev = NULL\<rparr>,
           0x60 \<mapsto> \<lparr>ma_start = 0x3000, ma_size = 0x1000, ma_next = 0x70, ma_prev = 0x50\<rparr>,
           0x70 \<mapsto> \<lparr>ma_start = 0x10000, ma_size = 0x4000, ma_next = NULL, ma_prev = 0x60\<rparr>]\<rparr> = Ok (OS_NO_ERR, 0x50, s') \<and>
        areas s' 0x60 = None \<and> get_block 0x50 4 s' = Fault"
  by (rule add_free_merge_dangles [where w = "0x70" and b = "0x1000" and z = "0x1000" and b' = "0x3000"
        and z' = "0x1000" and b'' = "0x10000" and z'' = "0x4000"]) (simp_all add: KERNEL_PAGE_SIZE_def)

text \<open>A request of \<open>2^20\<close> frames asks for 0 bytes, because the product wraps: it returns the first free
  address and reserves nothing.\<close>

lemma alloc_kframes_wraps:
  assumes "free_frames s = x" "x \<noteq> NULL" "areas (pool s) x = Some a" "ma_size a \<noteq> 0"
  shows "\<exists>s'. memalloc_alloc_kframes 0x100000 s = Ok (ma_start a, OS_NO_ERR, s') \<and>
              areas (pool s') = areas (pool s) \<and> free_frames s' = free_frames s"
proof -
  have n: "KERNEL_PAGE_SIZE * 0x100000 = 0" by (simp add: KERNEL_PAGE_SIZE_def word_eq_iff_unsigned)
  then show ?thesis using assms unfolding memalloc_alloc_kframes_def get_block_def n Let_def
    by (simp add: walk.simps set_area_def store_simps fun_upd_idem)
qed

text \<open>A range that overlaps the first area from below is accepted, although every other overlap is
  refused; part of the memory is then free twice.\<close>

lemma add_free_front_overlap:
  assumes "areas s x = Some a" "x \<noteq> NULL" "start < ma_start a" "start + sz > ma_start a"
    and "kmalloc sizeof_mem_area (mheap s) = (p, h)" "p \<noteq> NULL" "p \<noteq> x"
  shows "\<exists>s'. add_free start sz x s = Ok (OS_NO_ERR, p, s') \<and> areas s' x = Some (a\<lparr>ma_prev := p\<rparr>) \<and>
              areas s' p = Some \<lparr>ma_start = start, ma_size = sz, ma_next = x, ma_prev = NULL\<rparr>"
proof -
  have "find_place start x s = Ok (x, x)"
    using assms(1-3) by (simp add: find_place_def trail_def trail_pass_def while_do_unfold deref_def)
  then show ?thesis
    using assms by (auto simp: add_free_def link_area_def set_area_def deref_def modify_def)
qed

end
