(* ===== verification/Conversion.thy ===== *)
theory Conversion
  imports Prelude
begin

unbundle bit_operations_syntax

text \<open>
  The arithmetic of the kernel's library: the 64-bit division \<^verbatim>\<open>__udivmoddi4\<close> that the compiler calls on
  a 32-bit machine, and the conversions \<^verbatim>\<open>uitoa\<close> and \<^verbatim>\<open>itoa\<close> (\<^verbatim>\<open>Sources/lib\<close>).
\<close>

section \<open>Division\<close>

text \<open>One pass of each of the two loops; the state of the second one is the remaining numerator, the
  shifted denominator, the bit of the quotient and the quotient.\<close>

definition justify_pass :: "u64 \<times> u64 \<Rightarrow> (bool \<times> u64 \<times> u64) outcome" where
  "justify_pass = (\<lambda>(den, qbit).
     if sint den \<ge> 0 then Ok (True, push_bit 1 den, push_bit 1 qbit) else Ok (False, den, qbit))"

definition divide_pass :: "u64 \<times> u64 \<times> u64 \<times> u64 \<Rightarrow> (bool \<times> u64 \<times> u64 \<times> u64 \<times> u64) outcome" where
  "divide_pass = (\<lambda>(num, den, qbit, quot).
     if qbit \<noteq> 0
     then let (num, quot) = (if den \<le> num then (num - den, quot + qbit) else (num, quot))
          in Ok (True, num, drop_bit 1 den, drop_bit 1 qbit, quot)
     else Ok (False, num, den, qbit, quot))"

text \<open>The result is the quotient and the remainder; a zero denominator traps.\<close>

definition udivmoddi4 :: "u64 \<Rightarrow> u64 \<Rightarrow> (u64 \<times> u64) outcome" where
  "udivmoddi4 num den =
     (if den = 0 then Fault
      else andthen (while_do justify_pass (den, 1)) (\<lambda>(den, qbit).
           andthen (while_do divide_pass (num, den, qbit, 0)) (\<lambda>(num, _, _, quot).
           Ok (quot, num))))"

section \<open>Conversion to digits\<close>

definition hex_table :: string where "hex_table = ''0123456789ABCDEF''"

text \<open>The loop that fills \<^verbatim>\<open>tmp\<close>, with \<open>n\<close> cells of it left; writing past it is a \<open>Fault\<close>.\<close>

primrec uitoa_digits :: "nat \<Rightarrow> u64 \<Rightarrow> u32 \<Rightarrow> string outcome" where
  "uitoa_digits 0 i base = (if i = 0 then Ok [] else Fault)"
| "uitoa_digits (Suc n) i base =
     (if i = 0 then Ok []
      else if base = 0 then Fault
      else andthen (uitoa_digits n (i div ucast base) base) (\<lambda>tmp.
           Ok (hex_table ! unat (i mod ucast base) # tmp)))"

text \<open>The text stored in the buffer, without the terminating zero.\<close>

definition uitoa :: "u64 \<Rightarrow> u32 \<Rightarrow> string outcome" where
  "uitoa i base =
     (if i = 0 \<or> base > 16 then Ok ''0''
      else andthen (uitoa_digits 128 i base) (\<lambda>tmp. Ok (rev tmp)))"

text \<open>\<open>None\<close> when the buffer is not written.\<close>

definition itoa :: "u64 \<Rightarrow> u32 \<Rightarrow> string option outcome" where
  "itoa i base =
     (if base > 16 then Ok None
      else if base = 10 \<and> sint i < 0
      then andthen (uitoa (i * -1) base) (\<lambda>s. Ok (Some (CHR ''-'' # s)))
      else andthen (uitoa i base) (\<lambda>s. Ok (Some s)))"

section \<open>The division is the division\<close>

lemma sint_neg_iff: "sint w < 0 \<longleftrightarrow> 2 ^ 63 \<le> unat w" for w :: u64
proof -
  have "sint w < 0 \<longleftrightarrow> bit w 63" using bit_last_iff [of w] by simp
  also have "\<dots> \<longleftrightarrow> bit (unat w) 63" by (simp add: bit_unsigned_iff)
  also have "\<dots> \<longleftrightarrow> odd (unat w div 2 ^ 63)" by (simp add: bit_iff_odd)
  also have "\<dots> \<longleftrightarrow> 2 ^ 63 \<le> unat w"
  proof -
    have lt: "unat w < 2 ^ 64" using unsigned_less [of w, where 'a = nat] by simp
    show ?thesis
    proof (cases "2 ^ 63 \<le> unat w")
      case True
      then have "unat w div 2 ^ 63 = 1" using lt by (intro div_nat_eqI) simp_all
      then show ?thesis using True by simp
    qed simp
  qed
  finally show ?thesis .
qed

lemma sint_unat: "sint w = int (unat w) - (if sint w < 0 then 2 ^ 64 else 0)" for w :: u64
proof -
  have t: "take_bit 64 (uint w) = uint w" using unsigned_less [of w, where 'a = int] by (simp add: take_bit_int_eq_self)
  have n: "sint w < 0 \<longleftrightarrow> bit (uint w) 63" using bit_last_iff [of w] by (simp add: bit_unsigned_iff)
  have e: "sint w = take_bit 64 (uint w) - 2 ^ 64 * of_bool (bit (uint w) 63)"
    unfolding sint_uint using signed_take_bit_eq_take_bit_minus [of 63 "uint w"] by simp
  have "sint w = uint w - (if bit (uint w) 63 then 2 ^ 64 else 0)" unfolding e t by simp
  then show ?thesis unfolding n by (simp only: uint_nat)
qed

lemma unat_push: "unat w < 2 ^ 63 \<Longrightarrow> unat (push_bit 1 w) = 2 * unat w" for w :: u64
  by (simp add: push_bit_eq_mult unat_word_ariths)

lemma unat_drop: "unat (drop_bit 1 w) = unat w div 2" for w :: u64
  by (simp add: drop_bit_eq_div unat_div)

text \<open>The first loop: after it the denominator is shifted by some \<open>k\<close> up to the top bit, and the quotient
  bit is \<open>2^k\<close>.\<close>

lemma justify_total:
  assumes "den \<noteq> 0"
  shows "\<exists>d q k. while_do justify_pass (den, 1) = Ok (d, q) \<and> k < 64 \<and>
           unat d = unat den * 2 ^ k \<and> 2 ^ 63 \<le> unat d \<and> unat q = 2 ^ k"
proof -
  let ?I = "\<lambda>(d, q). \<exists>k < 64. unat d = unat den * 2 ^ k \<and> unat (q :: u64) = 2 ^ k \<and> d \<noteq> (0 :: u64)"
  let ?Q = "\<lambda>(d, q). \<exists>k < 64. unat d = unat den * 2 ^ k \<and> unat (q :: u64) = 2 ^ k \<and> 2 ^ 63 \<le> unat (d :: u64)"
  have "\<exists>s'. while_do justify_pass (den, 1) = Ok s' \<and> ?Q s'"
  proof (rule while_do_total [where I = ?I and \<mu> = "\<lambda>(d, q). 2 ^ 64 - unat d"])
    show "?I (den, 1)" using assms by (auto intro!: exI [of _ 0])
  next
    fix s assume "?I s"
    then obtain d q k where s: "s = (d, q)" "k < 64" "unat d = unat den * 2 ^ k" "unat q = 2 ^ k" "d \<noteq> 0"
      by auto
    show "\<exists>m s'. justify_pass s = Ok (m, s') \<and>
        (if m then ?I s' \<and> (\<lambda>(d, q). 2 ^ 64 - unat d) s' < (\<lambda>(d, q). 2 ^ 64 - unat d) s else ?Q s')"
    proof (cases "2 ^ 63 \<le> unat d")
      case True
      then show ?thesis using s sint_neg_iff [of d] by (auto simp: justify_pass_def)
    next
      case False
      then have d2: "unat d < 2 ^ 63" by simp
      have d: "unat (push_bit 1 d) = 2 * unat d" "unat d < 2 ^ 63" by (rule unat_push [OF d2], rule d2)
      have pos: "0 < unat d" "0 < unat den" using s(5) assms by (simp_all add: unat_gt_0)
      have "(2 :: nat) ^ k \<le> unat d" using s(3) pos by simp
      then have "(2 :: nat) ^ k < 2 ^ 63" using d(2) by linarith
      note k63 = this
      then have k: "k < 63" by (rule power_less_imp_less_exp [rotated]) simp
      then have q: "unat (push_bit 1 q) = 2 * unat q" using s(4) k63 by (intro unat_push) (simp only:)
      have "push_bit 1 d \<noteq> 0" using d(1) pos by auto
      then have "?I (push_bit 1 d, push_bit 1 q)"
        using d(1) q s(3,4) k by (auto intro!: exI [of _ "Suc k"])
      moreover have "2 ^ 64 - unat (push_bit 1 d) < 2 ^ 64 - unat d" using d pos by simp
      ultimately show ?thesis using s(1) False sint_neg_iff [of d] by (intro exI [of _ True]) (simp add: justify_pass_def)
    qed
  qed
  then show ?thesis by auto
qed

text \<open>The second loop is the schoolbook division, bit by bit.\<close>

definition div_inv :: "nat \<Rightarrow> nat \<Rightarrow> u64 \<times> u64 \<times> u64 \<times> u64 \<Rightarrow> bool" where
  "div_inv N D = (\<lambda>(num, den, qbit, quot).
     unat num + unat quot * D = N \<and>
     (if qbit = 0 then unat num < D
      else \<exists>j < 64. unat qbit = 2 ^ j \<and> unat den = D * 2 ^ j \<and> unat num < D * 2 ^ Suc j))"

lemma divide_step:
  assumes "div_inv N D (num, den, qbit, quot)" "0 < D" "N < 2 ^ 64" "qbit \<noteq> 0"
  shows "\<exists>s'. divide_pass (num, den, qbit, quot) = Ok (True, s') \<and> div_inv N D s' \<and> unat (fst (snd (snd s'))) < unat qbit"
proof -
  from assms(1,4) obtain j where j: "j < 64" "unat qbit = 2 ^ j" "unat den = D * 2 ^ j" "unat num < D * 2 ^ Suc j"
    and sum: "unat num + unat quot * D = N" by (auto simp: div_inv_def)
  let ?le = "den \<le> num"
  let ?num = "if ?le then num - den else num" and ?quot = "if ?le then quot + qbit else quot"
  have num: "unat ?num < D * 2 ^ j" "unat ?num + unat ?quot * D = N"
  proof -
    have "D * 2 ^ Suc j = D * 2 ^ j + D * 2 ^ j" by simp
    then show "unat ?num < D * 2 ^ j" using j(3,4) by (cases ?le) (simp_all add: word_le_nat_alt unat_sub)
    show "unat ?num + unat ?quot * D = N"
    proof (cases ?le)
      case True
      then have le: "D * 2 ^ j \<le> unat num" using j(3) by (simp add: word_le_nat_alt)
      have "(unat quot + 2 ^ j) * D \<le> N" using sum le by (simp add: algebra_simps)
      moreover have "(unat quot + 2 ^ j) \<le> (unat quot + 2 ^ j) * D" using assms(2) by simp
      ultimately have "unat quot + 2 ^ j < 2 ^ 64" using assms(3) by linarith
      then have "unat (quot + qbit) = unat quot + 2 ^ j" using j(2) by (simp add: unat_word_ariths)
      then show ?thesis using True le sum j(3) by (simp add: unat_sub algebra_simps)
    qed (use sum in simp)
  qed
  let ?s = "(?num, drop_bit 1 den, drop_bit 1 qbit, ?quot)"
  have "divide_pass (num, den, qbit, quot) = Ok (True, ?s)"
    using assms(4) by (simp add: divide_pass_def Let_def)
  moreover have "div_inv N D ?s"
  proof (cases j)
    case 0
    then have "unat (drop_bit 1 qbit) = 0" using j(2) by (subst unat_drop) simp
    then have "drop_bit 1 qbit = 0" by (simp only: unat_eq_0)
    then show ?thesis using num 0 by (simp add: div_inv_def)
  next
    case (Suc i)
    then have q: "unat (drop_bit 1 qbit) = 2 ^ i" and d: "unat (drop_bit 1 den) = D * 2 ^ i"
      using j by (simp_all add: unat_drop [unfolded One_nat_def])
    then have "drop_bit 1 qbit \<noteq> 0" by auto
    then show ?thesis using num Suc q d j(1) by (auto simp: div_inv_def intro!: exI [of _ i])
  qed
  moreover have "unat (drop_bit 1 qbit) < unat qbit" using j(2) by (simp add: unat_drop [unfolded One_nat_def])
  ultimately show ?thesis by auto
qed

lemma divide_total:
  assumes "div_inv N D s" "0 < D" "N < 2 ^ 64"
  shows "\<exists>num den quot. while_do divide_pass s = Ok (num, den, 0, quot) \<and> unat num + unat quot * D = N \<and> unat num < D"
proof -
  let ?Q = "\<lambda>(num, den, qbit, quot). qbit = (0 :: u64) \<and> unat (num :: u64) + unat (quot :: u64) * D = N \<and> unat num < D"
  have "\<exists>s'. while_do divide_pass s = Ok s' \<and> ?Q s'"
  proof (rule while_do_total [where I = "div_inv N D" and \<mu> = "\<lambda>(_, _, qbit, _). unat qbit"])
    show "div_inv N D s" by (rule assms(1))
  next
    fix s assume I: "div_inv N D s"
    obtain num den qbit quot where s: "s = (num, den, qbit, quot)" by (cases s) auto
    show "\<exists>m s'. divide_pass s = Ok (m, s') \<and>
        (if m then div_inv N D s' \<and> (\<lambda>(_, _, qbit, _). unat qbit) s' < (\<lambda>(_, _, qbit, _). unat qbit) s else ?Q s')"
    proof (cases "qbit = 0")
      case True
      then show ?thesis using I s by (intro exI [of _ False]) (simp add: divide_pass_def div_inv_def)
    next
      case False
      from divide_step [OF I [unfolded s] assms(2,3) False] obtain s' where
        "divide_pass s = Ok (True, s')" "div_inv N D s'" "unat (fst (snd (snd s'))) < unat qbit"
        unfolding s by (elim exE conjE)
      then show ?thesis using s by (intro exI [of _ True] exI [of _ s']) (simp add: case_prod_beta)
    qed
  qed
  then show ?thesis by auto
qed

section \<open>The digits denote the number\<close>

text \<open>The value of a digit and of a text in a base: what a reader of the text computes.\<close>

definition digit_value :: "char \<Rightarrow> nat" where
  "digit_value c = length (takeWhile (\<lambda>x. x \<noteq> c) hex_table)"

definition text_value :: "nat \<Rightarrow> string \<Rightarrow> nat" where
  "text_value b s = foldl (\<lambda>v c. v * b + digit_value c) 0 s"

lemma text_value_snoc [simp]: "text_value b (s @ [c]) = text_value b s * b + digit_value c"
  by (simp add: text_value_def)

lemma digit_value_nth: "d < 16 \<Longrightarrow> digit_value (hex_table ! d) = d"
proof -
  have "\<forall>d \<in> set [0 ..< 16]. digit_value (hex_table ! d) = d" by code_simp
  then show "d < 16 \<Longrightarrow> digit_value (hex_table ! d) = d" by simp
qed

lemma uitoa_digits_value:
  assumes "2 \<le> base" "base \<le> 16" "unat i < unat base ^ n" "n \<le> cells"
  shows "\<exists>tmp. uitoa_digits cells i base = Ok tmp \<and> length tmp \<le> n \<and>
           set tmp \<subseteq> set (take (unat base) hex_table) \<and> text_value (unat base) (rev tmp) = unat i"
  using assms
proof (induction n arbitrary: i cells)
  case 0
  then show ?case by (cases cells) (auto simp: text_value_def unat_eq_zero)
next
  case (Suc n)
  then obtain m where cells: "cells = Suc m" "n \<le> m" by (cases cells) auto
  show ?case
  proof (cases "i = 0")
    case True
    then show ?thesis using cells by (simp add: text_value_def)
  next
    case False
    have b: "2 \<le> unat base" "unat base \<le> 16" using Suc.prems(1,2) by (simp_all add: word_le_nat_alt)
    let ?b = "ucast base :: u64"
    have ub: "unat ?b = unat base" 
      using b(2) by (simp add: unsigned_ucast_eq take_bit_nat_eq_self)
    have q: "unat (i div ?b) = unat i div unat base" and r: "unat (i mod ?b) = unat i mod unat base"
      by (simp_all add: unat_div unat_mod ub)
    have lt: "unat i mod unat base < unat base" using b(1) by simp
    have "unat (i div ?b) < unat base ^ n"
      unfolding q using Suc.prems(3) b(1) by (simp add: div_less_iff_less_mult mult.commute)
    from Suc.IH [OF Suc.prems(1,2) this cells(2)] obtain tmp where IH: "uitoa_digits m (i div ?b) base = Ok tmp"
      "length tmp \<le> n" "set tmp \<subseteq> set (take (unat base) hex_table)"
      "text_value (unat base) (rev tmp) = unat (i div ?b)" by (elim exE conjE)
    let ?c = "hex_table ! (unat i mod unat base)"
    have "length hex_table = 16" by (simp add: hex_table_def)
    then have c: "?c \<in> set (take (unat base) hex_table)"
      using lt b by (auto simp: in_set_conv_nth intro!: exI [of _ "unat i mod unat base"])
    have "digit_value ?c = unat i mod unat base" using lt b(2) by (intro digit_value_nth) linarith
    then have "text_value (unat base) (rev (?c # tmp)) = unat i" using IH(4) q by simp
    moreover have "base \<noteq> 0" using b by auto
    ultimately show ?thesis using False IH c cells r by (intro exI [of _ "?c # tmp"]) simp
  qed
qed

lemma uitoa_value:
  assumes "2 \<le> base" "base \<le> 16" "unat i < unat base ^ n" "0 < n" "n \<le> 64"
  shows "\<exists>s. uitoa i base = Ok s \<and> s \<noteq> [] \<and> length s \<le> n \<and>
           set s \<subseteq> set (take (unat base) hex_table) \<and> text_value (unat base) s = unat i"
proof (cases "i = 0")
  case True
  have b: "2 \<le> unat base" using assms(1) by (simp add: word_le_nat_alt)
  have "CHR ''0'' \<in> set (take (unat base) hex_table)" using b by (cases "unat base") (auto simp: hex_table_def)
  moreover have "text_value (unat base) ''0'' = 0" by (simp add: text_value_def digit_value_def hex_table_def)
  ultimately show ?thesis using True assms(4) by (simp add: uitoa_def)
next
  case False
  from uitoa_digits_value [OF assms(1-3), of 128] assms(5) obtain tmp where t: "uitoa_digits 128 i base = Ok tmp"
    "length tmp \<le> n" "set tmp \<subseteq> set (take (unat base) hex_table)" "text_value (unat base) (rev tmp) = unat i"
    by auto
  have "tmp \<noteq> []" using t(4) False by (auto simp: text_value_def unat_eq_zero)
  moreover have "\<not> 16 < base" using assms(2) by (simp add: not_less)
  ultimately show ?thesis using False t by (simp add: uitoa_def)
qed

section \<open>Properties\<close>

text \<open>C27. \<^verbatim>\<open>__udivmoddi4\<close> computes the 64-bit quotient and remainder for every numerator and every
  denominator but 0, where it traps; in particular both of its loops end.\<close>

theorem udivmoddi4_correct:
  "udivmoddi4 num den = (if den = 0 then Fault else Ok (num div den, num mod den))"
proof (cases "den = 0")
  case False
  then have pos: "0 < unat den" by (simp add: unat_gt_0)
  from justify_total [OF False] obtain d q k where j: "while_do justify_pass (den, 1) = Ok (d, q)" "k < 64"
    "unat d = unat den * 2 ^ k" "2 ^ 63 \<le> unat d" "unat q = 2 ^ k" by blast
  have N: "unat num < 2 ^ 64" using unsigned_less [of num, where 'a = nat] by simp
  have "q \<noteq> 0" using j(5) by auto
  then have "div_inv (unat num) (unat den) (num, d, q, 0)"
    using j N by (auto simp: div_inv_def intro!: exI [of _ k])
  from divide_total [OF this pos N] obtain r e quot where w: "while_do divide_pass (num, d, q, 0) = Ok (r, e, 0, quot)"
    "unat r + unat quot * unat den = unat num" "unat r < unat den" by blast
  have "unat quot = unat num div unat den" "unat r = unat num mod unat den"
    using w(2,3) by (metis add.commute div_mult_self3 div_less add_0 pos mult.commute not_less0 less_irrefl,
      metis mod_mult_self3 add.commute mod_less)
  then have "quot = num div den" "r = num mod den"
    by (simp_all add: word_eq_iff_unsigned [where 'a = nat] unat_div unat_mod)
  then show ?thesis using False j(1) w(1) by (simp add: udivmoddi4_def)
qed (simp add: udivmoddi4_def)

text \<open>In every base from 2 to 16, \<^verbatim>\<open>uitoa\<close> ends inside its 128-byte scratch array and stores at most
  64 digits of that base, whose value is the number that was given.\<close>

theorem uitoa_roundtrip:
  assumes "2 \<le> base" "base \<le> 16"
  shows "\<exists>s. uitoa i base = Ok s \<and> s \<noteq> [] \<and> length s \<le> 64 \<and>
           set s \<subseteq> set (take (unat base) hex_table) \<and> text_value (unat base) s = unat i"
proof -
  have "unat i < 2 ^ 64" using unsigned_less [of i, where 'a = nat] by simp
  also have "(2 :: nat) ^ 64 \<le> unat base ^ 64"
    by (rule power_mono) (use assms(1) in \<open>simp_all add: word_le_nat_alt\<close>)
  finally show ?thesis using uitoa_value [OF assms, of i 64] by simp
qed

theorem uitoa_roundtrip_witness:
  "(2 :: u32) \<le> 16 \<and> (\<exists>s. uitoa 48879 16 = Ok s \<and> s \<noteq> [] \<and> length s \<le> 64 \<and>
     set s \<subseteq> set (take (unat (16 :: u32)) hex_table) \<and> text_value (unat (16 :: u32)) s = unat (48879 :: u64))"
proof (intro conjI)
  show "(2 :: u32) \<le> 16" by simp
qed (rule uitoa_roundtrip; simp)

text \<open>In base 10, \<^verbatim>\<open>itoa\<close> stores the signed value of the number in at most 20 characters, for every
  64-bit input, the most negative one included.\<close>

theorem itoa_decimal:
  "\<exists>s. itoa i 10 = Ok (Some s) \<and> length s \<le> 20 \<and>
     (if sint i < 0 then \<exists>t. s = CHR ''-'' # t \<and> - int (text_value 10 t) = sint i
      else int (text_value 10 s) = sint i)"
proof (cases "sint i < 0")
  case True
  have lt: "unat i < 2 ^ 64" using unsigned_less [of i, where 'a = nat] by simp
  have hi: "2 ^ 63 \<le> unat i" using True by (simp only: sint_neg_iff)
  then have "i \<noteq> 0" by auto
  moreover have "uint i mod 2 ^ 64 = uint i" using unsigned_less [of i, where 'a = int] by simp
  ultimately have "uint (i * -1) = 2 ^ 64 - uint i" by (simp add: uint_word_ariths zmod_zminus1_eq_if uint_0_iff)
  then have "int (unat (i * -1)) = 2 ^ 64 - int (unat i)" by (simp only: uint_nat)
  also have "\<dots> = int (2 ^ 64 - unat i)" using lt by (simp add: of_nat_diff)
  finally have neg: "unat (i * -1) = 2 ^ 64 - unat i" by (simp only: of_nat_eq_iff)
  have small: "(2 :: nat) ^ 64 - unat i < 10 ^ 19" using hi by simp
  from uitoa_value [of 10 "i * -1" 19] small neg obtain t where
    t: "uitoa (i * -1) 10 = Ok t" "length t \<le> 19" "text_value 10 t = 2 ^ 64 - unat i" by auto
  have "sint i = int (unat i) - 2 ^ 64" using True sint_unat [of i] by simp
  then show ?thesis using True t lt by (simp add: itoa_def)
next
  case False
  have lt: "unat i < 2 ^ 63" using False sint_neg_iff [of i] by linarith
  then have "unat i < unat (10 :: u32) ^ 20" by simp
  from uitoa_value [of 10, OF _ _ this] obtain s where
    s: "uitoa i 10 = Ok s" "length s \<le> 20" "text_value 10 s = unat i" by auto
  have "sint i = int (unat i)" using False sint_unat [of i] by simp
  then show ?thesis using False s by (simp add: itoa_def)
qed

end
