(* ===== verification/FaultHandlers.thy ===== *)
theory FaultHandlers
  imports Kheap
begin

text \<open>
  The page fault handlers: \<^verbatim>\<open>Sources/memory/paging.c\<close> keeps a list of address ranges, each with its handler,
  sorted by address, and \<^verbatim>\<open>paging_fault_general_handler\<close> of \<^verbatim>\<open>Sources/arch/cpu/i386/paging.c\<close>, the handler of the
  page fault exception, looks the faulting address up in it. Handlers are code addresses; the dispatcher
  returns the one it calls.
\<close>

section \<open>State and operations\<close>

record mem_handler =
  mh_start :: u32
  mh_end :: u32
  mh_handler :: ptr
  mh_next :: ptr

record fault_state =
  fheap :: kheap
  handlers :: "ptr \<rightharpoonup> mem_handler"
  handler_list :: ptr

definition sizeof_mem_handler :: u32 where "sizeof_mem_handler = 16"

definition paging_register_fault_handler ::
    "ptr \<Rightarrow> u32 \<Rightarrow> u32 \<Rightarrow> fault_state \<Rightarrow> (OS_RETURN_E \<times> fault_state) outcome" where
  "paging_register_fault_handler h range_start range_end s =
     (if h = NULL then Ok (OS_ERR_NULL_POINTER, s)
      else if range_end \<le> range_start then Ok (OS_ERR_UNAUTHORIZED_ACTION, s)
      else
        let (new_range, k) = kmalloc sizeof_mem_handler (fheap s);
            s = s\<lparr>fheap := k\<rparr>
        in if new_range = NULL then Ok (OS_ERR_MALLOC, s)
           else
             let new = \<lparr>mh_start = range_start, mh_end = range_end, mh_handler = h, mh_next = NULL\<rparr>;
                 refuse = Ok (OS_ERR_HANDLER_ALREADY_EXISTS, s\<lparr>fheap := kfree new_range k\<rparr>)
             in if handler_list s \<noteq> NULL
                then andthen (trail mh_next (\<lambda>c. mh_start c \<le> range_start) (handlers s) (handler_list s))
                       (\<lambda>(cursor_pre, cursor).
                     if cursor \<noteq> NULL
                     then andthen (deref (handlers s) cursor) (\<lambda>c.
                          if cursor = handler_list s
                          then if mh_start c < range_end then refuse
                               else Ok (OS_NO_ERR, s\<lparr>handlers := (handlers s)(new_range \<mapsto> new\<lparr>mh_next := cursor\<rparr>),
                                                   handler_list := new_range\<rparr>)
                          else andthen (deref (handlers s) cursor_pre) (\<lambda>c'.
                               if mh_end c' > range_start \<or> mh_start c < range_end then refuse
                               else Ok (OS_NO_ERR, s\<lparr>handlers := (handlers s)
                                      (new_range \<mapsto> new\<lparr>mh_next := mh_next c'\<rparr>,
                                       cursor_pre \<mapsto> c'\<lparr>mh_next := new_range\<rparr>)\<rparr>)))
                     else andthen (deref (handlers s) cursor_pre) (\<lambda>c'.
                          if mh_end c' > range_start then refuse
                          else Ok (OS_NO_ERR, s\<lparr>handlers := (handlers s)
                                 (new_range \<mapsto> new, cursor_pre \<mapsto> c'\<lparr>mh_next := new_range\<rparr>)\<rparr>)))
                else Ok (OS_NO_ERR, s\<lparr>handlers := (handlers s)(new_range \<mapsto> new), handler_list := new_range\<rparr>))"

definition paging_get_handler_list :: "fault_state \<Rightarrow> ptr" where
  "paging_get_handler_list s = handler_list s"

text \<open>\<open>None\<close> when the panic routine is called; \<open>fault_address\<close> is what \<^verbatim>\<open>CR2\<close> holds.\<close>

definition PAGE_FAULT_LINE :: u32 where "PAGE_FAULT_LINE = 0x0E"

definition paging_fault_general_handler :: "u32 \<Rightarrow> u32 \<Rightarrow> fault_state \<Rightarrow> (ptr \<times> u32) option outcome" where
  "paging_fault_general_handler int_id fault_address s =
     (if int_id \<noteq> PAGE_FAULT_LINE then Ok None
      else andthen (returned (walk mh_next (\<lambda>_ c. \<not> (mh_start c \<le> fault_address \<and> mh_end c > fault_address))
                      (handlers s) (paging_get_handler_list s))) (\<lambda>cursor.
           if cursor = NULL then Ok None
           else andthen (deref (handlers s) cursor) (\<lambda>c. Ok (Some (mh_handler c, fault_address)))))"

section \<open>The list of ranges\<close>

text \<open>The list represents the ranges with their handlers; they are sorted and disjoint.\<close>

definition range_of :: "(ptr \<rightharpoonup> mem_handler) \<Rightarrow> ptr \<Rightarrow> u32 \<times> u32 \<times> ptr" where
  "range_of m x = (mh_start (the (m x)), mh_end (the (m x)), mh_handler (the (m x)))"

fun ranges_ok :: "u32 \<Rightarrow> (u32 \<times> u32 \<times> ptr) list \<Rightarrow> bool" where
  "ranges_ok lo [] \<longleftrightarrow> True"
| "ranges_ok lo ((a, b, h) # rs) \<longleftrightarrow> lo \<le> a \<and> a < b \<and> h \<noteq> NULL \<and> ranges_ok b rs"

definition handlers_are :: "fault_state \<Rightarrow> ptr list \<Rightarrow> (u32 \<times> u32 \<times> ptr) list \<Rightarrow> bool" where
  "handlers_are s xs rs \<longleftrightarrow> handler_list s = hdp xs NULL \<and> sseg mh_next (handlers s) xs NULL \<and> distinct xs \<and>
     rs = map (range_of (handlers s)) xs \<and> ranges_ok 0 rs"

lemma handlers_are_heap [simp]: "handlers_are (s\<lparr>fheap := k\<rparr>) = handlers_are s"
  by (simp add: fun_eq_iff handlers_are_def)

definition covers :: "u32 \<times> u32 \<times> ptr \<Rightarrow> u32 \<Rightarrow> bool" where
  "covers r a \<longleftrightarrow> fst r \<le> a \<and> a < fst (snd r)"

definition overlaps :: "u32 \<times> u32 \<times> ptr \<Rightarrow> u32 \<Rightarrow> u32 \<Rightarrow> bool" where
  "overlaps r a b \<longleftrightarrow> fst r < b \<and> a < fst (snd r)"

lemma ranges_ok_append:
  "ranges_ok lo (rs @ ss) \<longleftrightarrow> ranges_ok lo rs \<and> ranges_ok (if rs = [] then lo else fst (snd (last rs))) ss"
  by (induction lo rs rule: ranges_ok.induct) auto

lemma ranges_ok_mono: "ranges_ok lo rs \<Longrightarrow> lo' \<le> lo \<Longrightarrow> ranges_ok lo' rs"
  by (cases "(lo, rs)" rule: ranges_ok.cases) auto

lemma ranges_ok_above: "ranges_ok lo rs \<Longrightarrow> r \<in> set rs \<Longrightarrow> lo \<le> fst r"
proof (induction lo rs rule: ranges_ok.induct)
  case (2 lo a b h rs)
  then show ?case by (cases "r = (a, b, h)") (force dest: less_imp_le order_trans)+
qed simp

lemma ranges_ok_below: "ranges_ok lo (rs @ [(a, b, h)]) \<Longrightarrow> r \<in> set rs \<Longrightarrow> fst (snd r) \<le> a"
proof (induction lo rs rule: ranges_ok.induct)
  case (2 lo a' b' h' rs)
  have "b' \<le> a" using ranges_ok_above [of b' "rs @ [(a, b, h)]" "(a, b, h)"] 2(2) by simp
  then show ?case using 2 by auto
qed simp

section \<open>Registration\<close>

text \<open>The tests on the two neighbours of the new range decide whether it overlaps any range.\<close>

lemma overlap_neighbours:
  assumes ok: "ranges_ok 0 (rs @ ss)" and ab: "a < b"
    and rs: "\<forall>r \<in> set rs. fst r \<le> a" and ss: "ss = [] \<or> a < fst (hd ss)"
  shows "(\<exists>r \<in> set (rs @ ss). overlaps r a b) \<longleftrightarrow>
    (rs \<noteq> [] \<and> a < fst (snd (last rs))) \<or> (ss \<noteq> [] \<and> fst (hd ss) < b)" (is "?L \<longleftrightarrow> ?R")
proof
  assume ?L
  then obtain r where r: "r \<in> set rs \<or> r \<in> set ss" "overlaps r a b" by auto
  from r(1) show ?R
  proof
    assume m: "r \<in> set rs"
    then obtain qs c d h where q: "rs = qs @ [(c, d, h)]" by (cases rs rule: rev_cases) auto
    have "fst (snd r) \<le> d"
    proof (cases "r \<in> set qs")
      case True
      have "ranges_ok 0 (qs @ [(c, d, h)])" using ok q by (auto simp: ranges_ok_append)
      from ranges_ok_below [OF this True] this show ?thesis by (auto simp: ranges_ok_append)
    qed (use m q in auto)
    then have "a < d" using r(2) by (auto simp: overlaps_def)
    then show ?R using q by simp
  next
    assume m: "r \<in> set ss"
    then obtain c d h qs where q: "ss = (c, d, h) # qs" by (cases ss) auto
    have "ranges_ok c ss" using ok q by (auto simp: ranges_ok_append)
    then have "c \<le> fst r" using m by (rule ranges_ok_above)
    then show ?R using r(2) q by (auto simp: overlaps_def)
  qed
next
  assume ?R
  then show ?L
  proof
    assume l: "rs \<noteq> [] \<and> a < fst (snd (last rs))"
    then have "fst (last rs) \<le> a" using rs by simp
    then have "overlaps (last rs) a b" using l ab by (auto simp: overlaps_def)
    then show ?L using l by (intro bexI [of _ "last rs"]) simp_all
  next
    assume f: "ss \<noteq> [] \<and> fst (hd ss) < b"
    then obtain c d h qs where q: "ss = (c, d, h) # qs" by (cases ss) auto
    then have "c < d" using ok by (auto simp: ranges_ok_append)
    then have "overlaps (hd ss) a b" using f ss q by (auto simp: overlaps_def)
    then show ?L using f by (intro bexI [of _ "hd ss"]) simp_all
  qed
qed

lemma ranges_ok_insert:
  assumes "ranges_ok 0 (rs @ ss)" "a < b" "h \<noteq> NULL"
    and "rs = [] \<or> \<not> a < fst (snd (last rs))" "ss = [] \<or> \<not> fst (hd ss) < b"
  shows "ranges_ok 0 (rs @ (a, b, h) # ss)"
proof -
  have "ranges_ok b ss" using assms(1,5) by (cases ss) (auto simp: ranges_ok_append)
  then show ?thesis using assms by (auto simp: ranges_ok_append)
qed

text \<open>The new node between \<open>ys\<close> and \<open>zs\<close>.\<close>

lemma register_run:
  assumes l: "handler_list s = hdp (ys @ zs) NULL" "sseg mh_next (handlers s) (ys @ zs) NULL" "distinct (ys @ zs)"
    and ys: "\<forall>y \<in> set ys. fst (range_of (handlers s) y) \<le> a"
    and zs: "zs = [] \<or> a < fst (range_of (handlers s) (hd zs))"
    and hab: "h \<noteq> NULL" "a < b" and k: "kmalloc sizeof_mem_handler (fheap s) = (q, k)" "q \<noteq> NULL" "q \<notin> set (ys @ zs)"
  shows "\<exists>s'. paging_register_fault_handler h a b s =
      (if (ys \<noteq> [] \<and> a < fst (snd (range_of (handlers s) (last ys)))) \<or> (zs \<noteq> [] \<and> fst (range_of (handlers s) (hd zs)) < b)
       then Ok (OS_ERR_HANDLER_ALREADY_EXISTS, s\<lparr>fheap := kfree q k\<rparr>) else Ok (OS_NO_ERR, s')) \<and>
    handler_list s' = hdp (ys @ q # zs) NULL \<and> sseg mh_next (handlers s') (ys @ q # zs) NULL \<and>
    map (range_of (handlers s')) (ys @ q # zs) = map (range_of (handlers s)) ys @ (a, b, h) # map (range_of (handlers s)) zs"
proof -
  let ?new = "\<lparr>mh_start = a, mh_end = b, mh_handler = h, mh_next = hdp zs NULL\<rparr>"
  have tr: "trail mh_next (\<lambda>c. mh_start c \<le> a) (handlers s) (hdp (ys @ zs) NULL) =
      Ok (lastp (hdp (ys @ zs) NULL) ys, hdp zs NULL)"
    by (rule trail_split [OF l(2)]) (use ys zs in \<open>auto simp: range_of_def\<close>)
  show ?thesis
  proof (cases ys rule: rev_cases)
    case Nil
    let ?s = "s\<lparr>fheap := k, handlers := (handlers s)(q \<mapsto> ?new), handler_list := q\<rparr>"
    have "sseg mh_next (handlers ?s) (q # zs) NULL" using l(2) k Nil by simp
    moreover have "map (range_of (handlers ?s)) (q # zs) = (a, b, h) # map (range_of (handlers s)) zs"
      using k(3) by (auto simp: range_of_def)
    ultimately show ?thesis using l tr hab k Nil
      by (intro exI [of _ ?s]) (cases zs; auto simp: paging_register_fault_handler_def range_of_def deref_def Let_def)
  next
    case (snoc us y)
    obtain c where c: "handlers s y = Some c" "mh_next c = hdp zs NULL" "y \<noteq> NULL" using l(2) snoc by auto
    have y: "q \<noteq> y" "y \<noteq> q" "y \<notin> set us" "y \<notin> set zs" "q \<notin> set us" "q \<notin> set zs" using l(3) k(3) snoc by auto
    let ?s = "s\<lparr>fheap := k, handlers := (handlers s)(q \<mapsto> ?new, y \<mapsto> c\<lparr>mh_next := q\<rparr>)\<rparr>"
    have "sseg mh_next (handlers ?s) (us @ y # q # zs) NULL" using l(2) k(2) snoc y c by simp
    moreover have "map (range_of (handlers ?s)) (us @ y # q # zs) =
        map (range_of (handlers s)) us @ range_of (handlers s) y # (a, b, h) # map (range_of (handlers s)) zs"
      using y c(1) by (auto simp: range_of_def)
    moreover have "hdp us y \<noteq> NULL" "hdp zs NULL = hdp us y \<longleftrightarrow> False" if "zs \<noteq> []"
      using l(2,3) snoc that by (cases us; cases zs; auto)+
    moreover have "hdp us y \<noteq> NULL" using l(2) snoc by (cases us) auto
    ultimately show ?thesis using l tr hab k snoc c y
      by (intro exI [of _ ?s]) (cases zs; auto simp: paging_register_fault_handler_def range_of_def deref_def Let_def)
  qed
qed

section \<open>Dispatch\<close>

text \<open>The dispatcher calls the handler of the first range that covers the address.\<close>

lemma dispatch_find:
  assumes "handlers_are s xs rs"
  shows "paging_fault_general_handler PAGE_FAULT_LINE a s =
    Ok (map_option (\<lambda>r. (snd (snd r), a)) (find (\<lambda>r. covers r a) rs))"
proof -
  let ?P = "\<lambda>_ c. \<not> (mh_start c \<le> a \<and> mh_end c > a)" and ?m = "handlers s"
  have h: "handler_list s = hdp xs NULL" "sseg mh_next ?m xs NULL" "rs = map (range_of ?m) xs"
    using assms by (simp_all add: handlers_are_def)
  define ds where "ds = dropWhile (\<lambda>x. ?P x (the (?m x))) xs"
  have w: "walk mh_next ?P ?m (hdp xs NULL) = Some (Ok (hdp ds NULL))" using walk_sseg [OF h(2), of ?P] by (simp only: ds_def)
  have "find (\<lambda>x. covers (range_of ?m x) a) xs = (case ds of [] \<Rightarrow> None | x # _ \<Rightarrow> Some x)"
    unfolding find_dropWhile ds_def by (simp add: covers_def range_of_def)
  then have f: "find (\<lambda>r. covers r a) rs = (case ds of [] \<Rightarrow> None | x # _ \<Rightarrow> Some (range_of ?m x))"
    using h(3) by (simp add: find_map_list split: list.splits)
  show ?thesis
  proof (cases ds)
    case Nil
    then show ?thesis using w f h(1) by (simp add: paging_fault_general_handler_def paging_get_handler_list_def)
  next
    case (Cons x ys)
    then have "x \<in> set ds" by simp
    then have "x \<in> set xs" unfolding ds_def by (rule set_dropWhileD)
    then obtain c where "x \<noteq> NULL" "?m x = Some c" using sseg_not_NULL [OF h(2)] sseg_mapped [OF h(2)] by blast
    then have "paging_fault_general_handler PAGE_FAULT_LINE a s = Ok (Some (mh_handler c, a))"
      unfolding paging_fault_general_handler_def paging_get_handler_list_def h(1) w Cons by (simp add: deref_def)
    moreover have "find (\<lambda>r. covers r a) rs = Some (mh_start c, mh_end c, mh_handler c)"
      unfolding f Cons using \<open>?m x = Some c\<close> by (simp add: range_of_def)
    ultimately show ?thesis by simp
  qed
qed

lemma find_covers:
  assumes "ranges_ok lo rs" "r \<in> set rs" "covers r a"
  shows "find (\<lambda>r. covers r a) rs = Some r"
  using assms
proof (induction lo rs rule: ranges_ok.induct)
  case (2 lo c d h rs)
  show ?case
  proof (cases "r = (c, d, h)")
    case False
    then have "r \<in> set rs" using 2 by simp
    moreover have "d \<le> fst r" using ranges_ok_above [of d rs r] 2(2) \<open>r \<in> set rs\<close> by simp
    ultimately show ?thesis using 2 by (auto simp: covers_def)
  qed (use 2(4) in simp)
qed simp

section \<open>Properties\<close>

text \<open>C14. Registering a page fault handler: with memory for the node, a range that overlaps none of the
  registered ones is added, the list stays sorted and disjoint, and from then on a fault at an address of the
  range runs the new handler while a fault anywhere else is handled as before; a range that overlaps a
  registered one is refused with \<^verbatim>\<open>OS_ERR_HANDLER_ALREADY_EXISTS\<close> and the list does not change.\<close>

theorem paging_register_fault_handler_exact:
  assumes hs: "handlers_are s xs rs" and hab: "h \<noteq> NULL" "a < b"
    and k: "kmalloc sizeof_mem_handler (fheap s) = (q, k)" "q \<noteq> NULL" "q \<notin> set xs"
  shows "\<exists>s'. if \<exists>r \<in> set rs. overlaps r a b
    then paging_register_fault_handler h a b s = Ok (OS_ERR_HANDLER_ALREADY_EXISTS, s') \<and> handlers_are s' xs rs
    else paging_register_fault_handler h a b s = Ok (OS_NO_ERR, s') \<and>
      (\<exists>xs' rs'. handlers_are s' xs' rs' \<and> set rs' = insert (a, b, h) (set rs)) \<and>
      (\<forall>f. paging_fault_general_handler PAGE_FAULT_LINE f s' =
         (if a \<le> f \<and> f < b then Ok (Some (h, f)) else paging_fault_general_handler PAGE_FAULT_LINE f s))"
proof -
  let ?m = "handlers s" and ?P = "\<lambda>x. fst (range_of (handlers s) x) \<le> a"
  define ys zs where yz: "ys = takeWhile ?P xs" "zs = dropWhile ?P xs"
  then have xs: "xs = ys @ zs" by simp
  note h = hs [unfolded handlers_are_def]
  have ys: "\<forall>y \<in> set ys. fst (range_of ?m y) \<le> a" using yz takeWhile_all [of ?P xs] by simp
  have "zs \<noteq> [] \<Longrightarrow> \<not> ?P (hd zs)" unfolding yz(2) by (rule hd_dropWhile)
  then have zs: "zs = [] \<or> a < fst (range_of ?m (hd zs))" by (auto simp: not_le)
  let ?rs = "map (range_of ?m) ys" and ?ss = "map (range_of ?m) zs"
  have rs: "rs = ?rs @ ?ss" using h xs by simp
  have ok: "ranges_ok 0 (?rs @ ?ss)" unfolding rs [symmetric] using h by blast
  have ov: "(\<exists>r \<in> set rs. overlaps r a b) \<longleftrightarrow>
      (ys \<noteq> [] \<and> a < fst (snd (range_of ?m (last ys)))) \<or> (zs \<noteq> [] \<and> fst (range_of ?m (hd zs)) < b)"
  proof -
    have "\<forall>r \<in> set ?rs. fst r \<le> a" "?ss = [] \<or> a < fst (hd ?ss)" using ys zs by (auto, cases zs, auto)
    from overlap_neighbours [OF ok hab(2) this] show ?thesis
      unfolding rs [symmetric] by (simp add: last_map hd_map cong: conj_cong)
  qed
  from register_run [of s ys zs a h b q k] h xs ys zs hab k obtain s' where run:
    "paging_register_fault_handler h a b s =
      (if (ys \<noteq> [] \<and> a < fst (snd (range_of ?m (last ys)))) \<or> (zs \<noteq> [] \<and> fst (range_of ?m (hd zs)) < b)
       then Ok (OS_ERR_HANDLER_ALREADY_EXISTS, s\<lparr>fheap := kfree q k\<rparr>) else Ok (OS_NO_ERR, s'))"
    "handler_list s' = hdp (ys @ q # zs) NULL" "sseg mh_next (handlers s') (ys @ q # zs) NULL"
    "map (range_of (handlers s')) (ys @ q # zs) = ?rs @ (a, b, h) # ?ss" by auto
  show ?thesis
  proof (cases "\<exists>r \<in> set rs. overlaps r a b")
    case True
    then have "paging_register_fault_handler h a b s = Ok (OS_ERR_HANDLER_ALREADY_EXISTS, s\<lparr>fheap := kfree q k\<rparr>)"
      using run(1) ov by simp
    moreover have "handlers_are (s\<lparr>fheap := kfree q k\<rparr>) xs rs" using hs by simp
    ultimately show ?thesis using True by auto
  next
    case False
    then have "?rs = [] \<or> \<not> a < fst (snd (last ?rs))" "?ss = [] \<or> \<not> fst (hd ?ss) < b"
      using ov by (cases ys rule: rev_cases; cases zs; simp)+
    then have "ranges_ok 0 (?rs @ (a, b, h) # ?ss)" by (rule ranges_ok_insert [OF ok hab(2,1)])
    then have hs': "handlers_are s' (ys @ q # zs) (?rs @ (a, b, h) # ?ss)"
      using run(2-4) h xs k(3) by (auto simp: handlers_are_def)
    have "find (\<lambda>r. covers r f) (?rs @ (a, b, h) # ?ss) =
        (if a \<le> f \<and> f < b then Some (a, b, h) else find (\<lambda>r. covers r f) rs)" for f
      using find_covers [OF hs' [unfolded handlers_are_def, THEN conjunct2, THEN conjunct2, THEN conjunct2, THEN conjunct2], of "(a, b, h)" f]
      unfolding rs by (auto simp: covers_def find_append split: option.splits)
    then have "paging_fault_general_handler PAGE_FAULT_LINE f s' =
        (if a \<le> f \<and> f < b then Ok (Some (h, f)) else paging_fault_general_handler PAGE_FAULT_LINE f s)" for f
      unfolding dispatch_find [OF hs'] dispatch_find [OF hs] by simp
    then show ?thesis using False run(1) ov hs' unfolding rs
      by (intro exI [of _ s']) (auto intro!: exI [of _ "ys @ q # zs"] exI [of _ "?rs @ (a, b, h) # ?ss"])
  qed
qed

definition ex_faults :: fault_state where
  "ex_faults =
     \<lparr>fheap = snd (kheap_init 0x100000 0x101000 blank_heap),
      handlers = [0x50 \<mapsto> \<lparr>mh_start = 0x1000, mh_end = 0x2000, mh_handler = 0xC0, mh_next = 0x60\<rparr>,
                  0x60 \<mapsto> \<lparr>mh_start = 0x4000, mh_end = 0x5000, mh_handler = 0xC1, mh_next = NULL\<rparr>],
      handler_list = 0x50\<rparr>"

lemma ex_faults_are: "handlers_are ex_faults [0x50, 0x60] [(0x1000, 0x2000, 0xC0), (0x4000, 0x5000, 0xC1)]"
  by (simp add: handlers_are_def ex_faults_def range_of_def)

lemma ex_faults_heap: "fst (kmalloc sizeof_mem_handler (fheap ex_faults)) \<notin> {NULL, 0x50, 0x60}"
  by code_simp

theorem paging_register_fault_handler_exact_witness:
  "\<exists>s'. paging_register_fault_handler 0xC2 0x2000 0x4000 ex_faults = Ok (OS_NO_ERR, s') \<and>
     paging_fault_general_handler PAGE_FAULT_LINE 0x3FFF s' = Ok (Some (0xC2, 0x3FFF))"
proof -
  obtain q k where q: "kmalloc sizeof_mem_handler (fheap ex_faults) = (q, k)" by fastforce
  then have n: "q \<noteq> NULL" "q \<notin> set [0x50, 0x60]" using ex_faults_heap by auto
  have free: "\<not> (\<exists>r \<in> set [(0x1000, 0x2000, 0xC0), (0x4000, 0x5000, 0xC1)]. overlaps r 0x2000 0x4000)"
    by (simp add: overlaps_def)
  from paging_register_fault_handler_exact [OF ex_faults_are _ _ q n, of "0xC2" "0x2000" "0x4000"]
  obtain s' where "paging_register_fault_handler 0xC2 0x2000 0x4000 ex_faults = Ok (OS_NO_ERR, s')"
    "\<forall>f. paging_fault_general_handler PAGE_FAULT_LINE f s' =
       (if 0x2000 \<le> f \<and> f < 0x4000 then Ok (Some (0xC2, f)) else paging_fault_general_handler PAGE_FAULT_LINE f ex_faults)"
    unfolding if_not_P [OF free] by auto
  then show ?thesis by auto
qed

end
