(* ===== verification/Paging.thy ===== *)
theory Paging
  imports Interrupts Memalloc FaultHandlers
begin

unbundle bit_operations_syntax

text \<open>
  Paging on i386, \<^verbatim>\<open>Sources/arch/cpu/i386/paging.c\<close>. The machine is the two-level page walk of the
  processor over a physical memory of 32-bit words: a load or store goes through the translation of its
  address when \<^verbatim>\<open>CR0.PG\<close> is set, and one that the tables do not allow is a \<open>Fault\<close>. The code reaches the
  directory and the tables through the recursive entry 1023 of the directory, and so does the model. Entries
  with the 4 MiB bit are never written by the code and not part of the model; translations are not cached
  (\<^verbatim>\<open>INVAL_PAGE\<close> has no effect here). The frames come from theory \<open>Memalloc\<close>, the interrupt flag that the
  critical sections save and restore from theory \<open>Interrupts\<close>.
\<close>

section \<open>The machine\<close>

record vm =
  phys :: "u32 \<Rightarrow> u32"
  cr3 :: u32
  cr0 :: u32
  frames :: mem_state
  pg_ints :: int_state
  pg_init :: u32
  pg_enabled :: u32

definition KERNEL_PGDIR_SIZE :: nat where "KERNEL_PGDIR_SIZE = 1024"
definition PAGE_ALIGN_MASK :: u32 where "PAGE_ALIGN_MASK = NOT (KERNEL_PAGE_SIZE - 1)"
definition PG_ENTRY_MASK :: u32 where "PG_ENTRY_MASK = 0xFFFFF000"
definition PG_DIR_OFFSET :: nat where "PG_DIR_OFFSET = 22"
definition PG_TABLE_OFFSET :: nat where "PG_TABLE_OFFSET = 12"
definition PAGING_RECUR_PG_DIR :: u32 where "PAGING_RECUR_PG_DIR = 0xFFFFF000"
definition PAGING_RECUR_PG_TABLE :: u32 where "PAGING_RECUR_PG_TABLE = 0xFFC00000"
definition PAGE_FLAG_PRESENT :: u32 where "PAGE_FLAG_PRESENT = 1"
definition PAGE_FLAG_READ_WRITE :: u32 where "PAGE_FLAG_READ_WRITE = 2"
definition PAGE_FLAG_READ_ONLY :: u32 where "PAGE_FLAG_READ_ONLY = 0"
definition PAGE_FLAG_CACHE_WB :: u32 where "PAGE_FLAG_CACHE_WB = 0"
definition PAGE_FLAG_CACHE_DISABLED :: u32 where "PAGE_FLAG_CACHE_DISABLED = 0x10"
definition PAGE_FLAG_HARDWARE :: u32 where "PAGE_FLAG_HARDWARE = 0x200"

lemmas paging_consts = KERNEL_PGDIR_SIZE_def PG_DIR_OFFSET_def PG_TABLE_OFFSET_def PAGING_RECUR_PG_DIR_def
  PAGING_RECUR_PG_TABLE_def PAGE_FLAG_PRESENT_def PAGE_FLAG_READ_WRITE_def PAGE_FLAG_READ_ONLY_def
  PAGE_FLAG_CACHE_WB_def PAGE_FLAG_CACHE_DISABLED_def PAGE_FLAG_HARDWARE_def

definition dir_index :: "u32 \<Rightarrow> u32" where "dir_index v = drop_bit PG_DIR_OFFSET v"
definition table_index :: "u32 \<Rightarrow> u32" where "table_index v = drop_bit PG_TABLE_OFFSET v AND 0x3FF"

text \<open>The walk: the physical address and whether both levels allow writing.\<close>

definition translate :: "u32 \<Rightarrow> vm \<Rightarrow> (u32 \<times> bool) option" where
  "translate v s =
     (let pde = phys s ((cr3 s AND PG_ENTRY_MASK) + 4 * dir_index v);
          pte = phys s ((pde AND PG_ENTRY_MASK) + 4 * table_index v)
      in if bit pde 0 \<and> bit pte 0
         then Some ((pte AND PG_ENTRY_MASK) + (v AND 0xFFF), bit pde 1 \<and> bit pte 1) else None)"

definition vload :: "u32 \<Rightarrow> vm \<Rightarrow> u32 outcome" where
  "vload v s =
     (if bit (cr0 s) 31
      then (case translate v s of None \<Rightarrow> Fault | Some (a, _) \<Rightarrow> Ok (phys s a))
      else Ok (phys s v))"

definition vstore :: "u32 \<Rightarrow> u32 \<Rightarrow> vm \<Rightarrow> vm outcome" where
  "vstore v x s =
     (if bit (cr0 s) 31
      then (case translate v s of
              None \<Rightarrow> Fault
            | Some (a, w) \<Rightarrow> if bit (cr0 s) 16 \<and> \<not> w then Fault else Ok (s\<lparr>phys := (phys s)(a := x)\<rparr>))
      else Ok (s\<lparr>phys := (phys s)(v := x)\<rparr>))"

section \<open>Critical sections\<close>

definition pg_enter :: "vm \<Rightarrow> u32 \<times> vm" where
  "pg_enter s = (let (x, i) = kernel_interrupt_disable (pg_ints s) in (x, s\<lparr>pg_ints := i\<rparr>))"

definition pg_exit :: "u32 \<Rightarrow> vm \<Rightarrow> vm" where
  "pg_exit x s = s\<lparr>pg_ints := kernel_interrupt_restore x (pg_ints s)\<rparr>"

section \<open>Mapping\<close>

text \<open>One pass of the loop of \<^verbatim>\<open>is_mapped\<close>: what is found, the address and the bytes that are left.\<close>

definition mapped_pass :: "vm \<Rightarrow> u32 \<times> u32 \<times> u32 \<Rightarrow> (bool \<times> u32 \<times> u32 \<times> u32) outcome" where
  "mapped_pass s = (\<lambda>(found, start_align, to_check).
     if to_check = 0 then Ok (False, found, start_align, to_check)
     else
       let pgdir_entry = dir_index start_align;
           pgtable_entry = table_index start_align;
           onwards = Ok (True, found, start_align + KERNEL_PAGE_SIZE,
                         if to_check \<ge> KERNEL_PAGE_SIZE then to_check - KERNEL_PAGE_SIZE else 0)
       in andthen (vload (PAGING_RECUR_PG_DIR + 4 * pgdir_entry) s) (\<lambda>pde.
          if pde AND PAGE_FLAG_PRESENT \<noteq> 0
          then andthen (vload (PAGING_RECUR_PG_TABLE + KERNEL_PAGE_SIZE * pgdir_entry + 4 * pgtable_entry) s) (\<lambda>pte.
               if pte AND PAGE_FLAG_PRESENT \<noteq> 0 then Ok (False, 1, start_align, to_check) else onwards)
          else onwards))"

definition is_mapped :: "u32 \<Rightarrow> u32 \<Rightarrow> vm \<Rightarrow> (u32 \<times> vm) outcome" where
  "is_mapped start_addr sz s =
     (let (int_state, s) = pg_enter s;
          start_align = start_addr AND PAGE_ALIGN_MASK
      in andthen (while_do (mapped_pass s) (0, start_align, sz + (start_addr - start_align))) (\<lambda>(found, _, _).
         Ok (found, pg_exit int_state s)))"

primrec zero_table :: "nat \<Rightarrow> u32 \<Rightarrow> vm \<Rightarrow> vm outcome" where
  "zero_table 0 a s = Ok s"
| "zero_table (Suc n) a s = andthen (vstore a 0 s) (zero_table n (a + 4))"

definition map_flags :: "u8 \<Rightarrow> u8 \<Rightarrow> u8 \<Rightarrow> u32" where
  "map_flags read_only cache_enabled hardware =
     (if read_only \<noteq> 0 then PAGE_FLAG_READ_ONLY else PAGE_FLAG_READ_WRITE) OR
     (if cache_enabled \<noteq> 0 then PAGE_FLAG_CACHE_WB else PAGE_FLAG_CACHE_DISABLED) OR
     (if hardware \<noteq> 0 then PAGE_FLAG_HARDWARE else 0) OR PAGE_FLAG_PRESENT"

text \<open>The table of a directory entry, made when there is none; the result is the error of the allocation.\<close>

definition page_table :: "u32 \<Rightarrow> vm \<Rightarrow> (OS_RETURN_E \<times> vm) outcome" where
  "page_table pgdir_entry s =
     andthen (vload (PAGING_RECUR_PG_DIR + 4 * pgdir_entry) s) (\<lambda>pde.
     if pde AND PAGE_FLAG_PRESENT = 0
     then andthen (memalloc_alloc_kframes 1 (frames s)) (\<lambda>(pgtable, err, m).
          let s = s\<lparr>frames := m\<rparr>
          in if err \<noteq> OS_NO_ERR then Ok (err, s)
             else andthen (vstore (PAGING_RECUR_PG_DIR + 4 * pgdir_entry)
                             (pgtable OR PAGE_FLAG_READ_WRITE OR PAGE_FLAG_PRESENT) s) (\<lambda>s.
                  andthen (zero_table KERNEL_PGDIR_SIZE (PAGING_RECUR_PG_TABLE + KERNEL_PAGE_SIZE * pgdir_entry) s) (\<lambda>s.
                  Ok (OS_NO_ERR, s))))
     else Ok (OS_NO_ERR, s))"

text \<open>One pass of the loop of \<^verbatim>\<open>kernel_mmap_internal\<close>.\<close>

definition map_pass :: "u32 \<Rightarrow> OS_RETURN_E \<times> u32 \<times> u32 \<times> u32 \<times> vm \<Rightarrow>
    (bool \<times> OS_RETURN_E \<times> u32 \<times> u32 \<times> u32 \<times> vm) outcome" where
  "map_pass flags = (\<lambda>(err, virt_align, phys_align, to_map, s).
     if to_map = 0 then Ok (False, err, virt_align, phys_align, to_map, s)
     else
       let pgdir_entry = dir_index virt_align;
           pgtable_entry = table_index virt_align
       in andthen (page_table pgdir_entry s) (\<lambda>(err, s).
          if err \<noteq> OS_NO_ERR then Ok (False, err, virt_align, phys_align, to_map, s)
          else andthen (vstore (PAGING_RECUR_PG_TABLE + KERNEL_PAGE_SIZE * pgdir_entry + 4 * pgtable_entry)
                          (phys_align OR flags) s) (\<lambda>s.
               Ok (True, err, virt_align + KERNEL_PAGE_SIZE, phys_align + KERNEL_PAGE_SIZE,
                   if to_map \<ge> KERNEL_PAGE_SIZE then to_map - KERNEL_PAGE_SIZE else 0, s))))"

text \<open>The early return leaves the critical section entered, as in the code.\<close>

definition kernel_mmap_internal ::
    "u32 \<Rightarrow> u32 \<Rightarrow> u32 \<Rightarrow> u8 \<Rightarrow> u8 \<Rightarrow> u8 \<Rightarrow> u8 \<Rightarrow> vm \<Rightarrow> (OS_RETURN_E \<times> vm) outcome" where
  "kernel_mmap_internal virt_addr phys_addr mapping_size read_only exec cache_enabled hardware s =
     (let (int_state, s) = pg_enter s;
          virt_align = virt_addr AND PAGE_ALIGN_MASK;
          phys_align = phys_addr AND PAGE_ALIGN_MASK;
          to_map = mapping_size + (virt_addr - virt_align)
      in andthen (is_mapped virt_align to_map s) (\<lambda>(found, s).
         if found \<noteq> 0 then Ok (OS_ERR_MAPPING_ALREADY_EXISTS, s)
         else andthen (while_do (map_pass (map_flags read_only cache_enabled hardware))
                         (OS_NO_ERR, virt_align, phys_align, to_map, s)) (\<lambda>(err, _, _, _, s).
              Ok (err, pg_exit int_state s))))"

definition kernel_mmap_hw :: "u32 \<Rightarrow> u32 \<Rightarrow> u32 \<Rightarrow> u8 \<Rightarrow> u8 \<Rightarrow> vm \<Rightarrow> (OS_RETURN_E \<times> vm) outcome" where
  "kernel_mmap_hw virt_addr phys_addr mapping_size read_only exec s =
     kernel_mmap_internal virt_addr phys_addr mapping_size read_only exec 0 1 s"

text \<open>The bounds of the pages of a region, as \<^verbatim>\<open>kernel_mmap\<close> and \<^verbatim>\<open>kernel_munmap\<close> compute them.\<close>

definition page_bounds :: "u32 \<Rightarrow> u32 \<Rightarrow> u32 \<times> u32" where
  "page_bounds virt_addr mapping_size =
     (let end_map = virt_addr + mapping_size
      in (virt_addr AND PAGE_ALIGN_MASK,
          if end_map mod KERNEL_PAGE_SIZE \<noteq> 0 then (end_map AND PAGE_ALIGN_MASK) + KERNEL_PAGE_SIZE else end_map))"

definition kernel_mmap :: "u32 \<Rightarrow> u32 \<Rightarrow> u8 \<Rightarrow> u8 \<Rightarrow> vm \<Rightarrow> (OS_RETURN_E \<times> vm) outcome" where
  "kernel_mmap virt_addr mapping_size read_only exec s =
     (let (start_map, end_map) = page_bounds virt_addr mapping_size;
          page_count = (end_map - start_map) div KERNEL_PAGE_SIZE
      in andthen (memalloc_alloc_kframes page_count (frames s)) (\<lambda>(p, err, m).
         let s = s\<lparr>frames := m\<rparr>
         in if err \<noteq> OS_NO_ERR then Ok (err, s)
            else andthen (kernel_mmap_internal virt_addr p mapping_size read_only exec 1 0 s) (\<lambda>(err, s).
                 if err \<noteq> OS_NO_ERR
                 then andthen (memalloc_free_kframes p page_count (frames s)) (\<lambda>(_, m). Ok (err, s\<lparr>frames := m\<rparr>))
                 else Ok (err, s))))"

text \<open>The loop that looks for a present entry in a table.\<close>

primrec any_present :: "nat \<Rightarrow> u32 \<Rightarrow> vm \<Rightarrow> bool outcome" where
  "any_present 0 a s = Ok False"
| "any_present (Suc n) a s =
     andthen (vload a s) (\<lambda>e. if e AND PAGE_FLAG_PRESENT \<noteq> 0 then Ok True else any_present n (a + 4) s)"

definition free_frame :: "u32 \<Rightarrow> vm \<Rightarrow> vm outcome" where
  "free_frame p s = andthen (memalloc_free_kframes p 1 (frames s)) (\<lambda>(_, m). Ok (s\<lparr>frames := m\<rparr>))"

definition unmap_pass :: "u32 \<times> u32 \<times> vm \<Rightarrow> (bool \<times> u32 \<times> u32 \<times> vm) outcome" where
  "unmap_pass = (\<lambda>(start_map, to_unmap, s).
     if to_unmap = 0 then Ok (False, start_map, to_unmap, s)
     else
       let pgdir_entry = dir_index start_map;
           pgtable_entry = table_index start_map;
           pgtable = PAGING_RECUR_PG_TABLE + KERNEL_PAGE_SIZE * pgdir_entry
       in andthen (vload (PAGING_RECUR_PG_DIR + 4 * pgdir_entry) s) (\<lambda>pde.
          andthen
            (if pde AND PAGE_FLAG_PRESENT \<noteq> 0
             then andthen (vload (pgtable + 4 * pgtable_entry) s) (\<lambda>pte.
                  andthen (if pte AND PAGE_FLAG_PRESENT \<noteq> 0
                           then andthen (if pte AND PAGE_FLAG_HARDWARE = 0 then free_frame (pte AND PG_ENTRY_MASK) s
                                         else Ok s)
                                  (vstore (pgtable + 4 * pgtable_entry) 0)
                           else Ok s) (\<lambda>s.
                  andthen (any_present KERNEL_PGDIR_SIZE pgtable s) (\<lambda>acc.
                  if acc then Ok s
                  else andthen (vload (PAGING_RECUR_PG_DIR + 4 * pgdir_entry) s) (\<lambda>pde.
                       andthen (free_frame (pde AND PG_ENTRY_MASK) s)
                         (vstore (PAGING_RECUR_PG_DIR + 4 * pgdir_entry) 0)))))
             else Ok s) (\<lambda>s.
          Ok (True, start_map + KERNEL_PAGE_SIZE,
              if to_unmap \<ge> KERNEL_PAGE_SIZE then to_unmap - KERNEL_PAGE_SIZE else 0, s))))"

definition kernel_munmap :: "u32 \<Rightarrow> u32 \<Rightarrow> vm \<Rightarrow> (OS_RETURN_E \<times> vm) outcome" where
  "kernel_munmap virt_addr mapping_size s =
     (let (int_state, s) = pg_enter s;
          (start_map, end_map) = page_bounds virt_addr mapping_size
      in andthen (while_do unmap_pass (start_map, end_map - start_map, s)) (\<lambda>(_, _, s).
         Ok (OS_NO_ERR, pg_exit int_state s)))"

section \<open>Start-up\<close>

text \<open>The addresses that the linker gives to the directory, the reserved tables and the kernel's sections.
  Before \<^verbatim>\<open>CR3\<close> is set the boot code maps the kernel at a fixed offset, so its arrays are written at their
  virtual address less that offset.\<close>

record kernel_layout =
  pgdir_addr :: u32
  min_pgtable_addr :: u32
  code_bounds :: "u32 \<times> u32"
  rodata_bounds :: "u32 \<times> u32"
  data_bounds :: "u32 \<times> u32"
  bss_bounds :: "u32 \<times> u32"
  struct_bounds :: "u32 \<times> u32"
  heap_bounds :: "u32 \<times> u32"
  page_fault_handler :: ptr

definition KERNEL_RESERVED_PAGING :: u32 where "KERNEL_RESERVED_PAGING = 4"

definition set_pgdir :: "kernel_layout \<Rightarrow> u32 \<Rightarrow> u32 \<Rightarrow> vm \<Rightarrow> vm" where
  "set_pgdir L d x s = s\<lparr>phys := (phys s)(pgdir_addr L - KERNEL_MEM_OFFSET + 4 * d := x)\<rparr>"

definition set_min_pgtable :: "kernel_layout \<Rightarrow> u32 \<Rightarrow> u32 \<Rightarrow> u32 \<Rightarrow> vm \<Rightarrow> vm outcome" where
  "set_min_pgtable L e i x s =
     (if e < KERNEL_RESERVED_PAGING
      then Ok (s\<lparr>phys := (phys s)(min_pgtable_addr L + 0x1000 * e - KERNEL_MEM_OFFSET + 4 * i := x)\<rparr>)
      else Fault)"

definition section_pass :: "kernel_layout \<Rightarrow> u8 \<Rightarrow> u32 \<times> int \<times> vm \<Rightarrow> (bool \<times> u32 \<times> int \<times> vm) outcome" where
  "section_pass L read_only = (\<lambda>(a, to_map, s).
     if to_map > 0
     then let min_pgtable_entry = drop_bit PG_DIR_OFFSET (a - KERNEL_MEM_OFFSET) AND 0x3FF
          in andthen (set_min_pgtable L min_pgtable_entry (table_index a)
                ((a - KERNEL_MEM_OFFSET) OR
                 (if read_only \<noteq> 0 then PAGE_FLAG_READ_ONLY else PAGE_FLAG_READ_WRITE) OR PAGE_FLAG_PRESENT) s) (\<lambda>s.
             Ok (True, a + KERNEL_PAGE_SIZE, to_map - 4096,
                 set_pgdir L (dir_index a)
                   ((min_pgtable_addr L + 0x1000 * min_pgtable_entry - KERNEL_MEM_OFFSET) OR
                    PAGE_FLAG_READ_WRITE OR PAGE_FLAG_PRESENT) s))
     else Ok (False, a, to_map, s))"

definition map_kernel_section :: "kernel_layout \<Rightarrow> u32 \<times> u32 \<Rightarrow> u8 \<Rightarrow> vm \<Rightarrow> vm outcome" where
  "map_kernel_section L bounds read_only s =
     (let start_addr = fst bounds;
          sz = snd bounds - fst bounds;
          start_addr_align = start_addr AND PAGE_ALIGN_MASK
      in andthen (while_do (section_pass L read_only)
                    (start_addr_align, uint (start_addr - start_addr_align + sz), s)) (\<lambda>(_, _, s). Ok s))"

primrec zero_pgdir :: "kernel_layout \<Rightarrow> nat \<Rightarrow> vm \<Rightarrow> vm" where
  "zero_pgdir L 0 s = s"
| "zero_pgdir L (Suc n) s = set_pgdir L (of_nat n) 0 (zero_pgdir L n s)"

definition paging_init :: "kernel_layout \<Rightarrow> vm \<Rightarrow> (OS_RETURN_E \<times> vm) outcome" where
  "paging_init L s =
     (let s = set_pgdir L 1023 ((pgdir_addr L - KERNEL_MEM_OFFSET) OR PAGE_FLAG_READ_WRITE OR PAGE_FLAG_PRESENT)
                (zero_pgdir L KERNEL_PGDIR_SIZE s)
      in andthen (map_kernel_section L (code_bounds L) 1 s) (\<lambda>s.
         andthen (map_kernel_section L (rodata_bounds L) 1 s) (\<lambda>s.
         andthen (map_kernel_section L (data_bounds L) 0 s) (\<lambda>s.
         andthen (map_kernel_section L (bss_bounds L) 0 s) (\<lambda>s.
         andthen (map_kernel_section L (struct_bounds L) 1 s) (\<lambda>s.
         andthen (map_kernel_section L (heap_bounds L) 0 s) (\<lambda>s.
         let (err, i) = kernel_exception_register_handler PAGE_FAULT_LINE (page_fault_handler L) (pg_ints s)
         in Ok (err, s\<lparr>pg_ints := i, cr3 := pgdir_addr L - KERNEL_MEM_OFFSET, pg_init := 1\<rparr>))))))))"

definition paging_enable :: "vm \<Rightarrow> OS_RETURN_E \<times> vm" where
  "paging_enable s =
     (if pg_init s = 0 then (OS_ERR_PAGING_NOT_INIT, s)
      else if pg_enabled s = 1 then (OS_NO_ERR, s)
      else (OS_NO_ERR, s\<lparr>cr0 := cr0 s OR 0x80010000, pg_enabled := 1\<rparr>))"

definition paging_disable :: "vm \<Rightarrow> OS_RETURN_E \<times> vm" where
  "paging_disable s =
     (if pg_init s = 0 then (OS_ERR_PAGING_NOT_INIT, s)
      else if pg_enabled s = 0 then (OS_NO_ERR, s)
      else (OS_NO_ERR, s\<lparr>cr0 := cr0 s AND 0x7FF7FFFF, pg_enabled := 0\<rparr>))"

end
