(* ===== verification/AddressSpace.thy ===== *)
theory AddressSpace
  imports Paging
begin

unbundle bit_operations_syntax

text \<open>
  What the paging code does to the address space. The invariant \<open>vm_ok\<close> says that the code can reach its tables
  through the recursive window, that no two directory entries share a table and that no table is free memory;
  under it the mapping loops are described by the entry \<open>pte s v\<close> of each virtual address, and the properties by
  the translation of each address.
\<close>

section \<open>Pages and entries\<close>

text \<open>Addresses of frames: the low 12 bits are zero.\<close>

definition aligned :: "u32 \<Rightarrow> bool" where "aligned a \<longleftrightarrow> take_bit 12 a = 0"

lemma aligned_unat: "aligned a \<longleftrightarrow> unat a mod 4096 = 0"
proof -
  have "aligned a \<longleftrightarrow> a mod 4096 = 0" by (simp add: aligned_def take_bit_eq_mod)
  also have "\<dots> \<longleftrightarrow> unat (a mod 4096) = 0" by (simp only: unat_eq_0)
  also have "unat (a mod 4096) = unat a mod 4096" by (simp add: unat_mod)
  finally show ?thesis .
qed

lemma aligned_bit: "aligned a \<Longrightarrow> bit a n \<Longrightarrow> 12 \<le> n"
  by (metis aligned_def bit_0_eq bit_take_bit_iff bot_apply bot_bool_def not_le)

lemma entry_mask: "PG_ENTRY_MASK = NOT (mask 12)" "PAGE_ALIGN_MASK = NOT (mask 12)"
  by (simp_all add: PG_ENTRY_MASK_def PAGE_ALIGN_MASK_def KERNEL_PAGE_SIZE_def mask_eq_decr_exp)

lemma aligned_and: "aligned (a AND PG_ENTRY_MASK)" "aligned (a AND PAGE_ALIGN_MASK)"
  by (auto simp: aligned_def entry_mask bit_eq_iff bit_simps)

text \<open>The address and the flags of an entry.\<close>

lemma entry_parts:
  assumes "aligned a" "take_bit 12 f = f"
  shows "(a OR f) AND PG_ENTRY_MASK = a" "n < 12 \<Longrightarrow> bit (a OR f) n = bit f n"
proof -
  have f: "bit f n \<Longrightarrow> n < 12" for n using assms(2) by (metis bit_take_bit_iff)
  show "(a OR f) AND PG_ENTRY_MASK = a"
    by (rule bit_eqI) (use f aligned_bit [OF assms(1)] in \<open>fastforce simp: entry_mask bit_simps not_less\<close>)
  show "n < 12 \<Longrightarrow> bit (a OR f) n = bit f n" using aligned_bit [OF assms(1), of n] by (auto simp: bit_simps)
qed

lemma aligned_mask: "aligned a \<Longrightarrow> a AND PG_ENTRY_MASK = a" "aligned a \<Longrightarrow> a AND PAGE_ALIGN_MASK = a"
  using entry_parts(1) [of a 0] by (simp_all add: entry_mask)

lemma present_bit: "e AND PAGE_FLAG_PRESENT \<noteq> 0 \<longleftrightarrow> bit e 0" "e AND PAGE_FLAG_PRESENT = 0 \<longleftrightarrow> \<not> bit e 0"
  by (simp_all add: PAGE_FLAG_PRESENT_def and_one_eq bit_0 odd_iff_mod_2_eq_one even_iff_mod_2_eq_zero)

text \<open>A virtual address and its two indices.\<close>

lemma unat_1024: "d < (1024 :: u32) \<longleftrightarrow> unat d < 1024" by (simp add: word_less_nat_alt)

lemma vaddr_parts:
  fixes a b c :: u32
  assumes "a < 1024" "b < 1024" "c < 4096"
  shows "dir_index (0x400000 * a + 0x1000 * b + c) = a" (is "dir_index ?v = _")
    and "table_index (0x400000 * a + 0x1000 * b + c) = b"
    and "(0x400000 * a + 0x1000 * b + c) AND 0xFFF = c"
proof -
  have n: "unat a < 1024" "unat b < 1024" "unat c < 4096" using assms by (simp_all add: word_less_nat_alt)
  have v: "unat ?v = 4194304 * unat a + 4096 * unat b + unat c" using n by (simp add: unat_word_ariths)
  have "unat (dir_index ?v) = unat a"
    unfolding dir_index_def PG_DIR_OFFSET_def using n v by (simp add: drop_bit_eq_div unat_div)
  then show "dir_index ?v = a" by (simp only: word_unat_eq_iff)
  have "drop_bit 12 ?v AND 0x3FF = take_bit 10 (drop_bit 12 ?v)" by (simp add: take_bit_eq_mask mask_eq_decr_exp)
  then have "unat (table_index ?v) = unat ?v div 4096 mod 1024"
    unfolding table_index_def PG_TABLE_OFFSET_def by (simp add: take_bit_eq_mod drop_bit_eq_div unat_div unat_mod)
  also have "unat ?v div 4096 = 1024 * unat a + unat b" using n v by simp
  finally have "unat (table_index ?v) = unat b" using n by simp
  then show "table_index ?v = b" by (simp only: word_unat_eq_iff)
  have "?v AND 0xFFF = take_bit 12 ?v" by (simp add: take_bit_eq_mask mask_eq_decr_exp)
  then have "unat (?v AND 0xFFF) = unat ?v mod 4096" by (simp add: take_bit_eq_mod unat_mod)
  also have "\<dots> = (4096 * (1024 * unat a + unat b) + unat c) mod 4096" using v by simp
  also have "\<dots> = unat c" using n(3) by (simp only: mod_mult_self4 mod_less)
  finally have "unat (?v AND 0xFFF) = unat c" .
  then show "?v AND 0xFFF = c" by (simp only: word_unat_eq_iff)
qed

lemma index_bounds: "dir_index v < 1024" "table_index v < 1024"
proof -
  show "dir_index v < 1024"
    using unsigned_less [of v, where 'a = nat]
    by (simp add: word_less_nat_alt dir_index_def PG_DIR_OFFSET_def drop_bit_eq_div unat_div)
  have "drop_bit 12 v AND 0x3FF = take_bit 10 (drop_bit 12 v)" by (simp add: take_bit_eq_mask mask_eq_decr_exp)
  then show "table_index v < 1024"
    by (simp add: word_less_nat_alt table_index_def PG_TABLE_OFFSET_def take_bit_eq_mod unat_mod)
qed

text \<open>Words of different frames, or at different indices, are different.\<close>

lemma unat_frame_word:
  assumes "aligned a" "i < 1024"
  shows "\<exists>q. unat a = 4096 * q \<and> unat (a + 4 * i) = 4096 * q + 4 * unat i \<and> unat i < 1024"
proof -
  from assms(1) obtain q where q: "unat a = 4096 * q" by (auto simp: aligned_unat)
  have i: "unat i < 1024" using assms(2) by (simp add: unat_1024)
  have "4096 * q < 4294967296" using unsigned_less [of a, where 'a = nat] q by simp
  then have "q \<le> 1048575" by simp
  then have "unat a + 4 * unat i < 4294967296" using q i by linarith
  then have "unat (a + 4 * i) = unat a + 4 * unat i" using i by (simp add: unat_word_ariths)
  then show ?thesis using q i by auto
qed

lemma frame_word_inj:
  assumes "aligned a" "aligned b" "i < 1024" "j < 1024"
  shows "a + 4 * i = b + 4 * j \<longleftrightarrow> a = b \<and> i = j"
proof
  assume e: "a + 4 * i = b + 4 * j"
  from unat_frame_word [OF assms(1,3)] obtain q where q: "unat a = 4096 * q"
    "unat (a + 4 * i) = 4096 * q + 4 * unat i" "unat i < 1024" by blast
  from unat_frame_word [OF assms(2,4)] obtain r where r: "unat b = 4096 * r"
    "unat (b + 4 * j) = 4096 * r + 4 * unat j" "unat j < 1024" by blast
  have eq: "4096 * q + 4 * unat i = 4096 * r + 4 * unat j" using e q(2) r(2) by simp
  have "q = r"
  proof (rule ccontr)
    assume "q \<noteq> r"
    then have "q + 1 \<le> r \<or> r + 1 \<le> q" by linarith
    then show False using eq q(3) r(3) by linarith
  qed
  then have "unat a = unat b \<and> unat i = unat j" using eq q(1) r(1) by simp
  then show "a = b \<and> i = j" by (simp add: word_unat_eq_iff)
qed simp

section \<open>The recursive window\<close>

text \<open>The entry of the directory, the table it points to, and the entry for a virtual address, 0 when there is
  no table.\<close>

definition pdir :: "vm \<Rightarrow> u32 \<Rightarrow> u32" where "pdir s d = phys s (cr3 s + 4 * d)"

definition tbl :: "vm \<Rightarrow> u32 \<Rightarrow> u32" where "tbl s d = pdir s d AND PG_ENTRY_MASK"

definition pte :: "vm \<Rightarrow> u32 \<Rightarrow> u32" where
  "pte s v = (if bit (pdir s (dir_index v)) 0 then phys s (tbl s (dir_index v) + 4 * table_index v) else 0)"

lemma aligned_tbl [simp]: "aligned (tbl s d)" by (simp add: tbl_def aligned_and)

text \<open>What the code needs to reach its tables: paging is on and the last entry of the directory is the
  directory itself.\<close>

definition rec_ok :: "vm \<Rightarrow> bool" where
  "rec_ok s \<longleftrightarrow> bit (cr0 s) 31 \<and> aligned (cr3 s) \<and> pdir s 1023 = cr3 s OR 3"

lemma flags_3: "take_bit 12 (3 :: u32) = 3" "bit (3 :: u32) 0" "bit (3 :: u32) (Suc 0)"
  by (simp_all add: bit_numeral_rec)

lemma rec_okD:
  assumes "rec_ok s"
  shows "bit (cr0 s) 31" "aligned (cr3 s)" "tbl s 1023 = cr3 s" "bit (pdir s 1023) 0" "bit (pdir s 1023) 1"
    "phys s (cr3 s + 4092) = pdir s 1023"
proof -
  show a: "bit (cr0 s) 31" "aligned (cr3 s)" using assms by (simp_all add: rec_ok_def)
  show "tbl s 1023 = cr3 s" using assms entry_parts(1) [OF a(2) flags_3(1)] by (simp add: tbl_def rec_ok_def)
  show "bit (pdir s 1023) 0" "bit (pdir s 1023) 1"
    using assms entry_parts(2) [OF a(2) flags_3(1)] flags_3 by (simp_all add: rec_ok_def)
  show "phys s (cr3 s + 4092) = pdir s 1023" by (simp add: pdir_def)
qed

text \<open>The translation in terms of entries.\<close>

lemma translate_pte:
  assumes "aligned (cr3 s)"
  shows "translate v s = (if bit (pte s v) 0
           then Some ((pte s v AND PG_ENTRY_MASK) + (v AND 0xFFF), bit (pdir s (dir_index v)) 1 \<and> bit (pte s v) 1)
           else None)"
  using assms by (simp add: translate_def pte_def pdir_def tbl_def aligned_mask Let_def)

lemma small_words: "d < (1024 :: u32) \<Longrightarrow> 4 * d < (4096 :: u32)"
  by (simp add: word_less_nat_alt unat_word_ariths)

lemma lt_1024: "(1023 :: u32) < 1024" by simp

lemma window_dir:
  assumes "rec_ok s" "d < 1024"
  shows "vload (PAGING_RECUR_PG_DIR + 4 * d) s = Ok (pdir s d)"
    and "vstore (PAGING_RECUR_PG_DIR + 4 * d) x s = Ok (s\<lparr>phys := (phys s)(cr3 s + 4 * d := x)\<rparr>)"
proof -
  note r = rec_okD [OF assms(1)]
  have v: "PAGING_RECUR_PG_DIR + 4 * d = 0x400000 * 1023 + 0x1000 * 1023 + 4 * d"
    by (simp add: paging_consts)
  note p = vaddr_parts [of 1023 1023 "4 * d", folded v, OF lt_1024 lt_1024 small_words [OF assms(2)]]
  have e: "pte s (PAGING_RECUR_PG_DIR + 4 * d) = pdir s 1023"
    using p r by (simp add: pte_def)
  have t: "translate (PAGING_RECUR_PG_DIR + 4 * d) s = Some (cr3 s + 4 * d, True)"
    unfolding translate_pte [OF r(2)] e p using r(3-5) by (simp add: tbl_def)
  show "vload (PAGING_RECUR_PG_DIR + 4 * d) s = Ok (pdir s d)" using t r(1) by (simp add: vload_def pdir_def)
  show "vstore (PAGING_RECUR_PG_DIR + 4 * d) x s = Ok (s\<lparr>phys := (phys s)(cr3 s + 4 * d := x)\<rparr>)"
    using t r(1) by (simp add: vstore_def)
qed

lemma window_table:
  assumes "rec_ok s" "d < 1024" "i < 1024" "bit (pdir s d) 0"
  shows "vload (PAGING_RECUR_PG_TABLE + KERNEL_PAGE_SIZE * d + 4 * i) s = Ok (phys s (tbl s d + 4 * i))"
    and "bit (pdir s d) 1 \<Longrightarrow> vstore (PAGING_RECUR_PG_TABLE + KERNEL_PAGE_SIZE * d + 4 * i) x s =
           Ok (s\<lparr>phys := (phys s)(tbl s d + 4 * i := x)\<rparr>)"
proof -
  note r = rec_okD [OF assms(1)]
  have v: "PAGING_RECUR_PG_TABLE + KERNEL_PAGE_SIZE * d + 4 * i = 0x400000 * 1023 + 0x1000 * d + 4 * i" (is "?v = _")
    by (simp add: paging_consts KERNEL_PAGE_SIZE_def)
  note p = vaddr_parts [of 1023 d "4 * i", folded v, OF lt_1024 assms(2) small_words [OF assms(3)]]
  have e: "pte s ?v = pdir s d"
    unfolding pte_def p using r(3,4) by (simp add: pdir_def [of s d])
  have t: "translate ?v s = Some (tbl s d + 4 * i, bit (pdir s d) 1)"
    unfolding translate_pte [OF r(2)] e p using r(3-5) assms(4) by (simp add: tbl_def)
  show "vload ?v s = Ok (phys s (tbl s d + 4 * i))" using t r(1) by (simp add: vload_def)
  show "bit (pdir s d) 1 \<Longrightarrow> vstore ?v x s = Ok (s\<lparr>phys := (phys s)(tbl s d + 4 * i := x)\<rparr>)"
    using t r(1) by (simp add: vstore_def)
qed

section \<open>The invariant\<close>

definition frames_ok :: "mem_state \<Rightarrow> (u32 \<times> u32) list \<Rightarrow> bool" where
  "frames_ok m rs \<longleftrightarrow> (\<exists>zs. frames_are m zs rs \<and> backlinks (areas (pool m)) NULL zs \<and> page_starts rs)"

text \<open>Every table that is present can be written and is not free memory, and no two entries of the directory
  share a table; entry 1023 makes the directory one of these tables.\<close>

definition vm_ok :: "vm \<Rightarrow> (u32 \<times> u32) list \<Rightarrow> bool" where
  "vm_ok s rs \<longleftrightarrow> rec_ok s \<and> frames_ok (frames s) rs \<and>
     (\<forall>d < 1024. bit (pdir s d) 0 \<longrightarrow> bit (pdir s d) 1 \<and> unat (tbl s d) \<notin> spans rs) \<and>
     (\<forall>d < 1024. \<forall>e < 1024. bit (pdir s d) 0 \<longrightarrow> bit (pdir s e) 0 \<longrightarrow> tbl s d = tbl s e \<longrightarrow> d = e)"

lemma vm_okD:
  assumes "vm_ok s rs"
  shows "rec_ok s" "frames_ok (frames s) rs"
    "d < 1024 \<Longrightarrow> bit (pdir s d) 0 \<Longrightarrow> bit (pdir s d) 1"
    "d < 1024 \<Longrightarrow> bit (pdir s d) 0 \<Longrightarrow> unat (tbl s d) \<notin> spans rs"
    "d < 1024 \<Longrightarrow> e < 1024 \<Longrightarrow> bit (pdir s d) 0 \<Longrightarrow> bit (pdir s e) 0 \<Longrightarrow> tbl s d = tbl s e \<Longrightarrow> d = e"
  using assms by (auto simp: vm_ok_def)

text \<open>The parts of the state that mapping leaves alone.\<close>

definition same_regs :: "vm \<Rightarrow> vm \<Rightarrow> bool" where
  "same_regs s s' \<longleftrightarrow> cr3 s' = cr3 s \<and> cr0 s' = cr0 s \<and> pg_ints s' = pg_ints s \<and>
     pg_init s' = pg_init s \<and> pg_enabled s' = pg_enabled s"

lemma same_regs_simps [simp]:
  "same_regs s s" "same_regs s (s\<lparr>phys := m\<rparr>)" "same_regs s (s\<lparr>frames := f\<rparr>)"
  by (simp_all add: same_regs_def)

lemma same_regs_trans: "same_regs s s' \<Longrightarrow> same_regs s' s'' \<Longrightarrow> same_regs s s''"
  by (simp add: same_regs_def)

text \<open>A single frame.\<close>

lemma alloc_frame:
  assumes "frames_ok m rs"
  shows "memalloc_alloc_kframes 1 m = Ok (NULL, OS_ERR_NO_MORE_FREE_MEM, m) \<or>
    (\<exists>p m' rs'. memalloc_alloc_kframes 1 m = Ok (p, OS_NO_ERR, m') \<and> frames_ok m' rs' \<and> aligned p \<and>
       unat p \<in> spans rs \<and> spans rs' = spans rs - {unat p ..< unat p + 4096})"
proof -
  from assms obtain zs where z: "frames_are m zs rs" "backlinks (areas (pool m)) NULL zs" "page_starts rs"
    by (auto simp: frames_ok_def)
  note c = alloc_kframes_cases [OF z(1,2), of 1]
  show ?thesis
  proof (cases "find (\<lambda>r. unat (1 :: u32) * 4096 \<le> unat (snd r)) rs")
    case None
    then show ?thesis using c by simp
  next
    case (Some r)
    then have "r \<in> set rs" by (auto simp: find_Some_iff)
    then have "aligned (fst r)" using z(3) by (simp add: page_starts_def aligned_unat)
    moreover from c Some obtain s' zs' rs' where
      "memalloc_alloc_kframes 1 m = Ok (fst r, OS_NO_ERR, s')" "frames_are s' zs' rs'"
      "backlinks (areas (pool s')) NULL zs'" "{unat (fst r) ..< unat (fst r) + 4096} \<subseteq> spans rs"
      "spans rs' = spans rs - {unat (fst r) ..< unat (fst r) + 4096}" "page_starts rs'" using z(3) by auto
    moreover from this(4) have "unat (fst r) \<in> spans rs" by auto
    ultimately show ?thesis unfolding frames_ok_def by blast
  qed
qed

section \<open>Making a table\<close>

lemma pdir_upd:
  assumes "aligned (cr3 s)" "aligned t" "i < 1024" "e < 1024"
  shows "pdir (s\<lparr>phys := (phys s)(t + 4 * i := x)\<rparr>) e = (if t = cr3 s \<and> e = i then x else pdir s e)"
  using frame_word_inj [OF assms(1,2,4,3)] by (auto simp: pdir_def)

lemma zero_table_run:
  assumes "rec_ok s" "d < 1023" "bit (pdir s d) 0" "bit (pdir s d) 1" "tbl s d \<noteq> cr3 s" "k + n \<le> 1024"
  shows "zero_table n (PAGING_RECUR_PG_TABLE + KERNEL_PAGE_SIZE * d + 4 * of_nat k) s =
    Ok (s\<lparr>phys := (\<lambda>a. if a \<in> (\<lambda>j. tbl s d + 4 * of_nat j) ` {k ..< k + n} then 0 else phys s a)\<rparr>)"
  using assms
proof (induction n arbitrary: k s)
  case (Suc n)
  let ?t = "tbl s d" and ?i = "of_nat k :: u32"
  have i: "?i < 1024" using Suc.prems(6) by (simp add: word_less_nat_alt unat_of_nat)
  have d: "d < 1024" using Suc.prems(2) by (rule order_less_trans) simp
  let ?s = "s\<lparr>phys := (phys s)(?t + 4 * ?i := 0)\<rparr>"
  have p: "pdir ?s e = pdir s e" if "e < 1024" for e
    using pdir_upd [of s ?t ?i e 0] rec_okD(2) [OF Suc.prems(1)] i that Suc.prems(5) by simp
  have ok: "rec_ok ?s" using Suc.prems(1) p [OF lt_1024] by (simp add: rec_ok_def)
  have t: "tbl ?s d = ?t" using p [OF d] by (simp add: tbl_def)
  have "zero_table n (PAGING_RECUR_PG_TABLE + KERNEL_PAGE_SIZE * d + 4 * of_nat (Suc k)) ?s =
      Ok (?s\<lparr>phys := (\<lambda>a. if a \<in> (\<lambda>j. tbl ?s d + 4 * of_nat j) ` {Suc k ..< Suc k + n} then 0 else phys ?s a)\<rparr>)"
    by (rule Suc.IH) (use Suc.prems ok p [OF d] t in simp_all)
  moreover have "{k ..< k + Suc n} = insert k {Suc k ..< Suc k + n}" by auto
  then have "(\<lambda>a. if a \<in> (\<lambda>j. ?t + 4 * of_nat j) ` {Suc k ..< Suc k + n} then 0 else phys ?s a) =
      (\<lambda>a. if a \<in> (\<lambda>j. ?t + 4 * of_nat j) ` {k ..< k + Suc n} then 0 else phys s a)"
    by (auto simp: fun_eq_iff)
  ultimately show ?case
    using window_table(2) [OF Suc.prems(1) d i Suc.prems(3,4), of 0] t by (simp add: algebra_simps)
qed simp

definition tables_kept :: "vm \<Rightarrow> vm \<Rightarrow> bool" where
  "tables_kept s s' \<longleftrightarrow> (\<forall>e < 1024. bit (pdir s e) 0 \<longrightarrow> bit (pdir s' e) 0)"

text \<open>A new table is empty, and the entries of every other directory entry stay.\<close>

lemma new_table:
  assumes ok: "vm_ok s rs" and d: "d < 1023" "\<not> bit (pdir s d) 0"
    and p: "aligned p" "unat p \<in> spans rs"
    and m: "frames_ok m rs'" "spans rs' = spans rs - {unat p ..< unat p + 4096}"
    and s': "s' = s\<lparr>frames := m, phys := (\<lambda>a. if a \<in> (\<lambda>j. p + 4 * of_nat j) ` {0 ..< 1024} then 0
                     else ((phys s)(cr3 s + 4 * d := p OR 3)) a)\<rparr>"
  shows "vm_ok s' rs'" "bit (pdir s' d) 0" "dir_index v < 1023 \<Longrightarrow> pte s' v = pte s v"
    "e < 1024 \<Longrightarrow> bit (pdir s e) 0 \<Longrightarrow> bit (pdir s' e) 0"
proof -
  note r = rec_okD [OF vm_okD(1) [OF ok]]
  have d': "d < 1024" using d(1) by (rule order_less_trans) simp
  have word: "i < 1024 \<Longrightarrow> p + 4 * i \<in> (\<lambda>j. p + 4 * of_nat j) ` {0 ..< 1024}" for i :: u32
    by (rule image_eqI [of _ _ "unat i"]) (simp_all add: word_less_nat_alt)
  have other: "aligned t \<Longrightarrow> t \<noteq> p \<Longrightarrow> i < 1024 \<Longrightarrow> t + 4 * i \<notin> (\<lambda>j. p + 4 * of_nat j) ` {0 ..< 1024}" for t i
  proof
    assume t: "aligned t" "t \<noteq> p" "i < 1024" and "t + 4 * i \<in> (\<lambda>j. p + 4 * of_nat j) ` {0 ..< 1024}"
    then obtain j where j: "t + 4 * i = p + 4 * of_nat j" "j < 1024" by auto
    then have "(of_nat j :: u32) < 1024" by (simp add: word_less_nat_alt unat_of_nat)
    with frame_word_inj [OF t(1) p(1) t(3) this] j t(2) show False by simp
  qed
  have fresh: "p \<noteq> tbl s e" if "e < 1024" "bit (pdir s e) 0" for e
    using vm_okD(4) [OF ok that] p(2) by auto
  have pc: "p \<noteq> cr3 s" using fresh [OF lt_1024 r(4)] r(3) by simp
  have pd: "pdir s' e = (if e = d then p OR 3 else pdir s e)" if "e < 1024" for e
    using other [OF r(2) pc [symmetric] that] frame_word_inj [OF r(2) r(2) that d'] by (auto simp: pdir_def s')
  have flags: "(p OR 3) AND PG_ENTRY_MASK = p" "bit (p OR 3) 0" "bit (p OR 3) 1"
    using entry_parts [OF p(1) flags_3(1)] flags_3 by simp_all
  show "bit (pdir s' d) 0" using pd [OF d'] flags by simp
  show "e < 1024 \<Longrightarrow> bit (pdir s e) 0 \<Longrightarrow> bit (pdir s' e) 0" using pd flags by simp
  have tb: "tbl s' e = (if e = d then p else tbl s e)" if "e < 1024" for e using pd [OF that] flags by (simp add: tbl_def)
  have "d \<noteq> 1023" using d(1) by auto
  then have "rec_ok s'" using vm_okD(1) [OF ok] pd [OF lt_1024] by (auto simp: rec_ok_def s')
  moreover have "unat p \<notin> spans rs'" using m(2) by auto
  moreover have "bit (pdir s' e) 1 \<and> unat (tbl s' e) \<notin> spans rs'" if "e < 1024" "bit (pdir s' e) 0" for e
    using that pd [OF that(1)] tb [OF that(1)] vm_okD(3,4) [OF ok that(1)] flags m(2) by auto
  moreover have "e = f" if "e < 1024" "f < 1024" "bit (pdir s' e) 0" "bit (pdir s' f) 0" "tbl s' e = tbl s' f" for e f
    using that pd [OF that(1)] pd [OF that(2)] tb [OF that(1)] tb [OF that(2)] fresh vm_okD(5) [OF ok that(1,2)]
    by (metis (full_types))
  ultimately show "vm_ok s' rs'" using m(1) by (auto simp: vm_ok_def s')
  assume v: "dir_index v < 1023"
  have dv: "dir_index v < 1024" by (rule index_bounds)
  show "pte s' v = pte s v"
  proof (cases "dir_index v = d")
    case True
    then show ?thesis using pd [OF d'] tb [OF d'] flags(2) d(2) word [OF index_bounds(2) [of v]] by (simp add: pte_def s')
  next
    case False
    have "tbl s (dir_index v) \<noteq> cr3 s" if "bit (pdir s (dir_index v)) 0"
      using vm_okD(5) [OF ok dv lt_1024 that r(4)] r(3) v by auto
    moreover have "tbl s (dir_index v) + 4 * table_index v \<noteq> cr3 s + 4 * d" if "tbl s (dir_index v) \<noteq> cr3 s"
      using frame_word_inj [OF aligned_tbl r(2) index_bounds(2) d'] that by simp
    ultimately show ?thesis
      using False pd [OF dv] tb [OF dv] fresh [OF dv] other [OF aligned_tbl _ index_bounds(2) [of v], of s "dir_index v"]
      by (auto simp: pte_def s')
  qed
qed

lemma table_flags: "p OR PAGE_FLAG_READ_WRITE OR PAGE_FLAG_PRESENT = p OR 3"
  by (simp add: paging_consts)

lemma page_table_step:
  assumes ok: "vm_ok s rs" and d: "d < 1023"
  shows "page_table d s = Ok (OS_ERR_NO_MORE_FREE_MEM, s) \<and> \<not> bit (pdir s d) 0 \<or>
    (\<exists>s' rs'. page_table d s = Ok (OS_NO_ERR, s') \<and> vm_ok s' rs' \<and> spans rs' \<subseteq> spans rs \<and> same_regs s s' \<and>
       bit (pdir s' d) 0 \<and> (\<forall>v. dir_index v < 1023 \<longrightarrow> pte s' v = pte s v) \<and> tables_kept s s')"
proof (cases "bit (pdir s d) 0")
  case True
  have d': "d < 1024" using d by (rule order_less_trans) simp
  show ?thesis using True ok window_dir(1) [OF vm_okD(1) [OF ok] d']
    by (intro disjI2 exI [of _ s] exI [of _ rs]) (simp add: page_table_def present_bit tables_kept_def)
next
  case False
  note r = rec_okD [OF vm_okD(1) [OF ok]]
  have d': "d < 1024" using d by (rule order_less_trans) simp
  note ld = window_dir(1) [OF vm_okD(1) [OF ok] d']
  from alloc_frame [OF vm_okD(2) [OF ok]] show ?thesis
  proof (elim disjE exE conjE)
    assume "memalloc_alloc_kframes 1 (frames s) = Ok (NULL, OS_ERR_NO_MORE_FREE_MEM, frames s)"
    then show ?thesis using False ld by (simp add: page_table_def present_bit)
  next
    fix p m rs' assume a: "memalloc_alloc_kframes 1 (frames s) = Ok (p, OS_NO_ERR, m)" "frames_ok m rs'" "aligned p"
      "unat p \<in> spans rs" "spans rs' = spans rs - {unat p ..< unat p + 4096}"
    let ?s = "s\<lparr>frames := m, phys := (phys s)(cr3 s + 4 * d := p OR 3)\<rparr>"
    let ?t = "s\<lparr>frames := m, phys := (\<lambda>a. if a \<in> (\<lambda>j. p + 4 * of_nat j) ` {0 ..< 1024} then 0
                     else ((phys s)(cr3 s + 4 * d := p OR 3)) a)\<rparr>"
    have rm: "rec_ok (s\<lparr>frames := m\<rparr>)" using vm_okD(1) [OF ok] by (simp add: rec_ok_def pdir_def)
    have st: "vstore (PAGING_RECUR_PG_DIR + 4 * d) (p OR 3) (s\<lparr>frames := m\<rparr>) = Ok ?s"
      using window_dir(2) [OF rm d'] by simp
    have pc: "p \<noteq> cr3 s" using vm_okD(4) [OF ok lt_1024 r(4)] r(3) a(4) by auto
    have pd: "pdir ?s e = (if e = d then p OR 3 else pdir s e)" if "e < 1024" for e
      using frame_word_inj [OF r(2) r(2) that d'] by (auto simp: pdir_def)
    have flags: "(p OR 3) AND PG_ENTRY_MASK = p" "bit (p OR 3) 0" "bit (p OR 3) 1"
      using entry_parts [OF a(3) flags_3(1)] flags_3 by simp_all
    have "d \<noteq> 1023" using d by auto
    then have rs: "rec_ok ?s" using vm_okD(1) [OF ok] pd [OF lt_1024] by (auto simp: rec_ok_def)
    have t: "tbl ?s d = p" "tbl ?s d \<noteq> cr3 ?s" using pd [OF d'] flags(1) pc by (simp_all add: tbl_def)
    have "zero_table 1024 (PAGING_RECUR_PG_TABLE + KERNEL_PAGE_SIZE * d) ?s = Ok ?t"
      using zero_table_run [OF rs d _ _ t(2), of 0 1024] pd [OF d'] flags t(1) by (simp cong: if_cong)
    then have "page_table d s = Ok (OS_NO_ERR, ?t)"
      using False ld a(1) st by (simp add: page_table_def present_bit table_flags KERNEL_PGDIR_SIZE_def Let_def)
    moreover have "spans rs' \<subseteq> spans rs" using a(5) by auto
    moreover have "same_regs s ?t" by (simp add: same_regs_def)
    ultimately show ?thesis using new_table [OF ok d False a(3,4,2,5) refl]
      by (intro disjI2 exI [of _ ?t] exI [of _ rs']) (simp add: tables_kept_def)
  qed
qed

section \<open>Mapping a page\<close>

lemma page_of: "dir_index v = dir_index w \<and> table_index v = table_index w \<longleftrightarrow> unat v div 4096 = unat w div 4096"
proof -
  have d: "unat (dir_index v) = unat v div 4096 div 1024" for v
    by (simp add: dir_index_def PG_DIR_OFFSET_def drop_bit_eq_div unat_div flip: div_mult2_eq)
  have "drop_bit 12 v AND 0x3FF = take_bit 10 (drop_bit 12 v)" for v :: u32
    by (simp add: take_bit_eq_mask mask_eq_decr_exp)
  then have t: "unat (table_index v) = unat v div 4096 mod 1024" for v
    unfolding table_index_def PG_TABLE_OFFSET_def by (simp add: take_bit_eq_mod drop_bit_eq_div unat_div unat_mod)
  show ?thesis unfolding word_unat_eq_iff [of "dir_index v"] word_unat_eq_iff [of "table_index v"] d t
    by (metis div_mod_decomp)
qed

lemma set_entry:
  assumes ok: "vm_ok s rs" and v: "dir_index v < 1023" "bit (pdir s (dir_index v)) 0"
    and s': "s' = s\<lparr>phys := (phys s)(tbl s (dir_index v) + 4 * table_index v := x)\<rparr>"
  shows "vm_ok s' rs" "dir_index w < 1023 \<Longrightarrow> pte s' w = (if unat w div 4096 = unat v div 4096 then x else pte s w)"
    "e < 1024 \<Longrightarrow> pdir s' e = pdir s e"
proof -
  note r = rec_okD [OF vm_okD(1) [OF ok]] and iv = index_bounds [of v]
  have nc: "tbl s (dir_index v) \<noteq> cr3 s"
    using vm_okD(5) [OF ok iv(1) lt_1024 v(2) r(4)] r(3) v(1) by auto
  have pd: "pdir s' e = pdir s e" if "e < 1024" for e
    using pdir_upd [OF r(2) aligned_tbl iv(2) that] nc by (simp add: s')
  show "e < 1024 \<Longrightarrow> pdir s' e = pdir s e" by (rule pd)
  have tb: "tbl s' e = tbl s e" if "e < 1024" for e using pd [OF that] by (simp add: tbl_def)
  have "rec_ok s'" using vm_okD(1) [OF ok] pd [OF lt_1024] by (simp add: rec_ok_def s')
  then show "vm_ok s' rs" using ok pd tb by (simp add: vm_ok_def s')
  assume "dir_index w < 1023"
  note iw = index_bounds [of w]
  have "tbl s (dir_index w) + 4 * table_index w = tbl s (dir_index v) + 4 * table_index v \<longleftrightarrow>
      dir_index w = dir_index v \<and> table_index w = table_index v" if "bit (pdir s (dir_index w)) 0"
    using frame_word_inj [OF aligned_tbl aligned_tbl iw(2) iv(2)] vm_okD(5) [OF ok iw(1) iv(1) that v(2)] by auto
  then show "pte s' w = (if unat w div 4096 = unat v div 4096 then x else pte s w)"
    using pd [OF iw(1)] tb [OF iw(1)] v(2) by (auto simp: pte_def s' simp flip: page_of)
qed

section \<open>Mapping a region\<close>

text \<open>The region of \<open>n\<close> pages from \<open>V\<close> on is mapped to the frames from \<open>P\<close> on, with the flags \<open>f\<close>; every other
  address below the window keeps its entry.\<close>

definition in_pages :: "u32 \<Rightarrow> nat \<Rightarrow> u32 \<Rightarrow> bool" where
  "in_pages V n w \<longleftrightarrow> unat V \<le> unat w \<and> unat w < unat V + 4096 * n"

definition mapped_to :: "vm \<Rightarrow> vm \<Rightarrow> u32 \<Rightarrow> u32 \<Rightarrow> nat \<Rightarrow> u32 \<Rightarrow> bool" where
  "mapped_to s s' V P n f \<longleftrightarrow>
     (\<forall>w. dir_index w < 1023 \<longrightarrow>
        pte s' w = (if in_pages V n w then (P + ((w AND PAGE_ALIGN_MASK) - V)) OR f else pte s w))"

definition pages :: "u32 \<Rightarrow> nat" where "pages z = (unat z + 4095) div 4096"

lemma pages_0 [simp]: "pages 0 = 0" by (simp add: pages_def)

lemma pages_step:
  assumes "z \<noteq> 0"
  shows "pages z = Suc (pages (if z \<ge> KERNEL_PAGE_SIZE then z - KERNEL_PAGE_SIZE else 0))"
proof (cases "z \<ge> KERNEL_PAGE_SIZE")
  case True
  then have "4096 \<le> unat z" "unat (z - KERNEL_PAGE_SIZE) = unat z - 4096"
    by (simp_all add: KERNEL_PAGE_SIZE_def word_le_nat_alt unat_sub)
  then show ?thesis using True by (simp add: pages_def le_div_geq)
next
  case False
  then have "unat z < 4096" "0 < unat z"
    using assms by (simp_all add: KERNEL_PAGE_SIZE_def word_le_nat_alt unat_gt_0)
  then have "(unat z + 4095) div 4096 = 1" by (intro div_nat_eqI) simp_all
  then show ?thesis using False by (simp add: pages_def)
qed

lemma in_pages_Suc:
  assumes "unat V + 4096 * Suc n < 2 ^ 32" "aligned V"
  shows "in_pages V (Suc n) w \<longleftrightarrow> unat w div 4096 = unat V div 4096 \<or> in_pages (V + KERNEL_PAGE_SIZE) n w"
proof -
  have V: "unat (V + KERNEL_PAGE_SIZE) = unat V + 4096"
    using assms(1) by (simp add: KERNEL_PAGE_SIZE_def unat_word_ariths)
  obtain q where q: "unat V = 4096 * q" using assms(2) by (auto simp: aligned_unat)
  have "unat w div 4096 = q \<longleftrightarrow> 4096 * q \<le> unat w \<and> unat w < 4096 * q + 4096"
    by (auto simp: div_nat_eqI intro: order_trans [OF _ mult_div_mod_eq [THEN eq_refl]])
  then show ?thesis using V q by (auto simp: in_pages_def)
qed

lemma unat_base: "unat (w AND PAGE_ALIGN_MASK) = 4096 * (unat w div 4096)"
proof -
  have "w AND PAGE_ALIGN_MASK = push_bit 12 (drop_bit 12 w)" by (auto simp: entry_mask bit_eq_iff bit_simps)
  then have "unat (w AND PAGE_ALIGN_MASK) = unat w div 4096 * 4096"
    using unsigned_less [of w, where 'a = nat]
    by (simp add: push_bit_eq_mult drop_bit_eq_div unat_word_ariths unat_div)
  then show ?thesis by simp
qed

lemma same_page_base:
  assumes "aligned V" "unat w div 4096 = unat V div 4096"
  shows "w AND PAGE_ALIGN_MASK = V"
proof -
  have "unat (w AND PAGE_ALIGN_MASK) = unat V" unfolding unat_base using assms by (auto simp: aligned_unat)
  then show ?thesis by (simp only: word_unat_eq_iff)
qed

lemma aligned_next: "aligned V \<Longrightarrow> aligned (V + KERNEL_PAGE_SIZE)"
  unfolding aligned_unat KERNEL_PAGE_SIZE_def by (simp add: unat_word_ariths mod_mod_cancel)

lemma below_window: "unat w < 0xFFC00000 \<longleftrightarrow> dir_index w < 1023"
  by (simp add: word_less_nat_alt dir_index_def PG_DIR_OFFSET_def drop_bit_eq_div unat_div div_less_iff_less_mult)

lemma mapped_to_Suc:
  assumes "mapped_to t s' (V + KERNEL_PAGE_SIZE) (P + KERNEL_PAGE_SIZE) n f"
    and "\<And>w. dir_index w < 1023 \<Longrightarrow> pte t w = (if unat w div 4096 = unat V div 4096 then P OR f else pte s w)"
    and "unat V + 4096 * Suc n < 2 ^ 32" "aligned V"
  shows "mapped_to s s' V P (Suc n) f"
  unfolding mapped_to_def
proof (intro allI impI)
  fix w assume w: "dir_index w < 1023"
  have V: "unat (V + KERNEL_PAGE_SIZE) = unat V + 4096"
    using assms(3) by (simp add: KERNEL_PAGE_SIZE_def unat_word_ariths)
  have ex: "\<not> in_pages (V + KERNEL_PAGE_SIZE) n w" if "unat w div 4096 = unat V div 4096"
  proof -
    have "unat w < unat V + 4096" using that assms(4) by (simp add: aligned_unat)
    then show ?thesis using V by (simp add: in_pages_def)
  qed
  have "P + KERNEL_PAGE_SIZE + (x - (V + KERNEL_PAGE_SIZE)) = P + (x - V)" for x by simp
  then show "pte s' w = (if in_pages V (Suc n) w then (P + ((w AND PAGE_ALIGN_MASK) - V)) OR f else pte s w)"
    using assms(1) [unfolded mapped_to_def, rule_format, OF w] assms(2) [OF w] in_pages_Suc [OF assms(3,4), of w] ex
      same_page_base [OF assms(4), of w] by auto
qed

lemma map_loop:
  assumes "vm_ok s rs" "aligned V" "unat V + 4096 * pages z \<le> 0xFFC00000"
  shows "\<exists>err v p z' s' rs' k. while_do (map_pass f) (OS_NO_ERR, V, P, z, s) = Ok (err, v, p, z', s') \<and>
    vm_ok s' rs' \<and> spans rs' \<subseteq> spans rs \<and> same_regs s s' \<and> mapped_to s s' V P k f \<and>
    (err = OS_NO_ERR \<and> k = pages z \<or> err = OS_ERR_NO_MORE_FREE_MEM \<and> k < pages z \<and>
       (\<exists>w. in_pages V (pages z) w \<and> \<not> bit (pdir s (dir_index w)) 0))"
  using assms
proof (induction "pages z" arbitrary: s rs V P z)
  case 0
  then have "z = 0" using pages_step [of z] by fastforce
  then show ?case using 0 by (subst while_do_unfold) (auto simp: map_pass_def mapped_to_def in_pages_def)
next
  case (Suc n)
  then have z: "z \<noteq> 0" by auto
  let ?z = "if z \<ge> KERNEL_PAGE_SIZE then z - KERNEL_PAGE_SIZE else 0" and ?d = "dir_index V"
  have n: "n = pages ?z" using pages_step [OF z] Suc.hyps(2) by simp
  have lim: "unat V + 4096 * Suc n < 2 ^ 32" "unat V < 0xFFC00000" using Suc.prems(3) Suc.hyps(2) by simp_all
  then have d: "?d < 1023" by (simp add: below_window)
  from page_table_step [OF Suc.prems(1) d] show ?case
  proof (elim disjE exE conjE)
    assume none: "page_table ?d s = Ok (OS_ERR_NO_MORE_FREE_MEM, s)" "\<not> bit (pdir s ?d) 0"
    then have "while_do (map_pass f) (OS_NO_ERR, V, P, z, s) = Ok (OS_ERR_NO_MORE_FREE_MEM, V, P, z, s)"
      using z by (subst while_do_unfold) (simp add: map_pass_def)
    moreover have "mapped_to s s V P 0 f" by (auto simp: mapped_to_def in_pages_def)
    moreover have "in_pages V (pages z) V" using Suc.hyps(2) by (simp add: in_pages_def flip: Suc.hyps(2))
    ultimately show ?thesis using Suc.prems(1) Suc.hyps(2) none(2)
      by (metis same_regs_simps(1) subset_refl zero_less_Suc)
  next
    fix t rt assume t: "page_table ?d s = Ok (OS_NO_ERR, t)" "vm_ok t rt" "spans rt \<subseteq> spans rs" "same_regs s t"
      "bit (pdir t ?d) 0" "\<forall>v. dir_index v < 1023 \<longrightarrow> pte t v = pte s v" "tables_kept s t"
    let ?u = "t\<lparr>phys := (phys t)(tbl t ?d + 4 * table_index V := P OR f)\<rparr>"
    have st: "vstore (PAGING_RECUR_PG_TABLE + KERNEL_PAGE_SIZE * ?d + 4 * table_index V) (P OR f) t = Ok ?u"
      by (rule window_table(2) [OF vm_okD(1) [OF t(2)] index_bounds t(5) vm_okD(3) [OF t(2) index_bounds(1) t(5)]])
    note u = set_entry [OF t(2) d t(5) refl, where x = "P OR f"]
    have V: "unat (V + KERNEL_PAGE_SIZE) = unat V + 4096"
      using lim(1) by (simp add: KERNEL_PAGE_SIZE_def unat_word_ariths)
    have "unat (V + KERNEL_PAGE_SIZE) + 4096 * pages ?z \<le> 0xFFC00000" using Suc.prems(3) Suc.hyps(2) n V by simp
    from Suc.hyps(1) [OF n u(1) aligned_next [OF Suc.prems(2)] this, of "P + KERNEL_PAGE_SIZE"]
    obtain err v p z' s' rs' k where IH:
      "while_do (map_pass f) (OS_NO_ERR, V + KERNEL_PAGE_SIZE, P + KERNEL_PAGE_SIZE, ?z, ?u) = Ok (err, v, p, z', s')"
      "vm_ok s' rs'" "spans rs' \<subseteq> spans rt" "same_regs ?u s'"
      "mapped_to ?u s' (V + KERNEL_PAGE_SIZE) (P + KERNEL_PAGE_SIZE) k f"
      "err = OS_NO_ERR \<and> k = pages ?z \<or> err = OS_ERR_NO_MORE_FREE_MEM \<and> k < pages ?z \<and>
        (\<exists>w. in_pages (V + KERNEL_PAGE_SIZE) (pages ?z) w \<and> \<not> bit (pdir ?u (dir_index w)) 0)" by (elim exE conjE)
    have "map_pass f (OS_NO_ERR, V, P, z, s) =
        Ok (True, OS_NO_ERR, V + KERNEL_PAGE_SIZE, P + KERNEL_PAGE_SIZE, ?z, ?u)"
      using z t(1) st by (simp add: map_pass_def Let_def)
    then have run: "while_do (map_pass f) (OS_NO_ERR, V, P, z, s) = Ok (err, v, p, z', s')"
      using IH(1) by (subst while_do_unfold) simp
    have inc: "in_pages V (pages z) w" if "in_pages (V + KERNEL_PAGE_SIZE) n w" for w
      using that in_pages_Suc [OF lim(1) Suc.prems(2), of w] Suc.hyps(2) by simp
    have "\<not> bit (pdir s (dir_index w)) 0" if "\<not> bit (pdir ?u (dir_index w)) 0" for w
      using that u(3) [OF index_bounds(1) [of w]] t(7) index_bounds(1) [of w] by (auto simp: tables_kept_def)
    then have k: "err = OS_NO_ERR \<and> Suc k = pages z \<or> err = OS_ERR_NO_MORE_FREE_MEM \<and> Suc k < pages z \<and>
        (\<exists>w. in_pages V (pages z) w \<and> \<not> bit (pdir s (dir_index w)) 0)"
      using IH(6) inc Suc.hyps(2) unfolding n [symmetric] by fastforce
    then have "unat V + 4096 * Suc k < 2 ^ 32" using lim(1) Suc.hyps(2) by auto
    then have "mapped_to s s' V P (Suc k) f"
      by (intro mapped_to_Suc [OF IH(5) _ _ Suc.prems(2)]) (use u(2) t(6) in simp_all)
    moreover have "same_regs s s'" using t(4) IH(4) by (simp add: same_regs_def)
    ultimately show ?thesis using run IH(2,3) t(3) k by blast
  qed
qed

section \<open>Looking for a mapping\<close>

lemma pte_same_page: "unat w div 4096 = unat v div 4096 \<Longrightarrow> pte s w = pte s v"
  using page_of [of w v] by (simp add: pte_def)

lemma mapped_loop:
  assumes "vm_ok s rs" "aligned V" "unat V + 4096 * pages z \<le> 0xFFC00000"
  shows "\<exists>v z'. while_do (mapped_pass s) (0, V, z) =
           Ok (if \<exists>w. in_pages V (pages z) w \<and> bit (pte s w) 0 then 1 else 0, v, z')"
  using assms(2,3)
proof (induction "pages z" arbitrary: V z)
  case 0
  then have "z = 0" using pages_step [of z] by fastforce
  moreover have "\<not> in_pages V 0 w" for w by (simp add: in_pages_def)
  ultimately show ?case by (subst while_do_unfold) (simp add: mapped_pass_def)
next
  case (Suc n)
  then have z: "z \<noteq> 0" by auto
  let ?z = "if z \<ge> KERNEL_PAGE_SIZE then z - KERNEL_PAGE_SIZE else 0" and ?d = "dir_index V"
  have n: "n = pages ?z" using pages_step [OF z] Suc.hyps(2) by simp
  have lim: "unat V + 4096 * Suc n < 2 ^ 32" using Suc.prems(2) Suc.hyps(2) by simp
  note r = vm_okD(1) [OF assms(1)]
  have "mapped_pass s (0, V, z) = (if bit (pte s V) 0 then Ok (False, 1, V, z)
      else Ok (True, 0, V + KERNEL_PAGE_SIZE, ?z))"
    using z window_dir(1) [OF r index_bounds(1) [of V]] window_table(1) [OF r index_bounds [of V]]
    by (simp add: mapped_pass_def pte_def present_bit Let_def)
  then have run: "while_do (mapped_pass s) (0, V, z) = (if bit (pte s V) 0 then Ok (1, V, z)
      else while_do (mapped_pass s) (0, V + KERNEL_PAGE_SIZE, ?z))"
    by (subst while_do_unfold) simp
  have split: "(\<exists>w. in_pages V (pages z) w \<and> bit (pte s w) 0) \<longleftrightarrow>
      bit (pte s V) 0 \<or> (\<exists>w. in_pages (V + KERNEL_PAGE_SIZE) (pages ?z) w \<and> bit (pte s w) 0)"
    using in_pages_Suc [OF lim Suc.prems(1)] pte_same_page [of _ V s] Suc.hyps(2) n by metis
  show ?case
  proof (cases "bit (pte s V) 0")
    case True
    then show ?thesis using run split by simp
  next
    case False
    have "unat (V + KERNEL_PAGE_SIZE) + 4096 * pages ?z \<le> 0xFFC00000"
      using Suc.prems(2) Suc.hyps(2) n lim by (simp add: KERNEL_PAGE_SIZE_def unat_word_ariths)
    from Suc.hyps(1) [OF n aligned_next [OF Suc.prems(1)] this] show ?thesis using run split False by simp
  qed
qed

text \<open>Critical sections change nothing but the interrupt flag, and leaving one restores it.\<close>

lemma pg_enter_exit:
  assumes "pg_enter s = (x, t)"
  shows "pg_exit x t = s" "vm_ok t = vm_ok s" "pte t = pte s" "same_regs t u \<Longrightarrow> same_regs s (pg_exit x u)"
    "vm_ok (pg_exit x u) = vm_ok u" "pte (pg_exit x u) = pte u"
proof -
  obtain i where t: "t = s\<lparr>pg_ints := i\<rparr>" "kernel_interrupt_disable (pg_ints s) = (x, i)"
    using assms by (auto simp: pg_enter_def split: prod.splits)
  have i: "kernel_interrupt_restore x i = pg_ints s"
    using kernel_interrupt_disable_restore [of "pg_ints s"] t(2) by simp
  show "pg_exit x t = s" using i t(1) by (simp add: pg_exit_def)
  show "vm_ok t = vm_ok s" "pte t = pte s"
    using t(1) by (simp_all add: fun_eq_iff vm_ok_def rec_ok_def pdir_def tbl_def pte_def)
  show "vm_ok (pg_exit x u) = vm_ok u" "pte (pg_exit x u) = pte u"
    by (simp_all add: fun_eq_iff vm_ok_def rec_ok_def pdir_def tbl_def pte_def pg_exit_def)
  show "same_regs t u \<Longrightarrow> same_regs s (pg_exit x u)" using i t(1) by (simp add: same_regs_def pg_exit_def)
qed

lemma is_mapped_correct:
  assumes "vm_ok s rs" "aligned V" "unat V + 4096 * pages z \<le> 0xFFC00000"
  shows "is_mapped V z s = Ok (if \<exists>w. in_pages V (pages z) w \<and> bit (pte s w) 0 then 1 else 0, s)"
proof -
  obtain x t where e: "pg_enter s = (x, t)" by fastforce
  note p = pg_enter_exit [OF e]
  from mapped_loop [of t rs V z] assms p(2) obtain v z' where
    "while_do (mapped_pass t) (0, V, z) = Ok (if \<exists>w. in_pages V (pages z) w \<and> bit (pte t w) 0 then 1 else 0, v, z')"
    by auto
  then show ?thesis using e p(1,3) assms(2) by (simp add: is_mapped_def aligned_mask)
qed

section \<open>Translations\<close>

lemma translate_ok:
  assumes "vm_ok s rs"
  shows "translate w s = (if bit (pte s w) 0 then Some ((pte s w AND PG_ENTRY_MASK) + (w AND 0xFFF), bit (pte s w) 1)
                          else None)"
proof -
  have "bit (pdir s (dir_index w)) 1" if "bit (pte s w) 0"
    using that vm_okD(3) [OF assms index_bounds(1)] by (auto simp: pte_def split: if_splits)
  then show ?thesis using translate_pte [OF rec_okD(2) [OF vm_okD(1) [OF assms]]] by auto
qed

lemma offset_add: "(w AND PAGE_ALIGN_MASK) + (w AND 0xFFF) = w" for w :: u32
proof -
  have m: "(0xFFF :: u32) = mask 12" by (simp add: mask_eq_decr_exp)
  have "(w AND PAGE_ALIGN_MASK) + (w AND mask 12) = (w AND PAGE_ALIGN_MASK) OR (w AND mask 12)"
    by (rule disjunctive_add) (auto simp: entry_mask bit_simps)
  also have "\<dots> = w" by (auto simp: entry_mask bit_eq_iff bit_simps)
  finally show ?thesis unfolding m .
qed

lemma aligned_add: "aligned a \<Longrightarrow> aligned b \<Longrightarrow> aligned (a + b)"
  unfolding aligned_unat by (auto simp: unat_word_ariths mod_mod_cancel)

lemma aligned_mult: "aligned a \<longleftrightarrow> (\<exists>x. a = 4096 * x)"
proof
  assume "aligned a"
  then have "a = push_bit 12 (drop_bit 12 a)"
    using aligned_bit [of a] by (auto simp: bit_eq_iff bit_simps)
  then show "\<exists>x. a = 4096 * x" by (auto simp: push_bit_eq_mult mult.commute)
next
  assume "\<exists>x. a = 4096 * x"
  then obtain x where "a = push_bit 12 x" by (auto simp: push_bit_eq_mult mult.commute)
  then show "aligned a" by (auto simp: aligned_def bit_eq_iff bit_simps)
qed

lemma aligned_diff: "aligned a \<Longrightarrow> aligned b \<Longrightarrow> aligned (a - b)"
  unfolding aligned_mult by (metis right_diff_distrib)

lemma map_flags_bits:
  "take_bit 12 (map_flags ro c h) = map_flags ro c h" "bit (map_flags ro c h) 0" "bit (map_flags ro c h) 1 \<longleftrightarrow> ro = 0"
  by (auto simp: map_flags_def paging_consts bit_numeral_rec bit_simps)

text \<open>Mapping below the window, when nothing is mapped in the region yet.\<close>

lemma mmap_internal_maps:
  assumes ok: "vm_ok s rs" and V: "V = virt AND PAGE_ALIGN_MASK" and n: "n = pages (sz + (virt - V))"
    and lim: "unat V + 4096 * n \<le> 0xFFC00000" and free: "\<And>w. in_pages V n w \<Longrightarrow> translate w s = None"
  shows "\<exists>err s' rs'. kernel_mmap_internal virt ph sz ro ex c h s = Ok (err, s') \<and> vm_ok s' rs' \<and>
    spans rs' \<subseteq> spans rs \<and> same_regs s s' \<and>
    (err = OS_NO_ERR \<and>
      (\<forall>w. dir_index w < 1023 \<longrightarrow> translate w s' =
        (if in_pages V n w then Some ((ph AND PAGE_ALIGN_MASK) + (w - V), ro = 0) else translate w s)) \<or>
     err = OS_ERR_NO_MORE_FREE_MEM \<and> (\<exists>w. in_pages V n w \<and> \<not> bit (pdir s (dir_index w)) 0))"
proof -
  let ?P = "ph AND PAGE_ALIGN_MASK" and ?f = "map_flags ro c h" and ?z = "sz + (virt - V)"
  have al: "aligned V" "aligned ?P" by (simp_all add: V aligned_and)
  obtain x t where e: "pg_enter s = (x, t)" by fastforce
  note pe = pg_enter_exit [OF e]
  have okt: "vm_ok t rs" using ok pe(2) by simp
  have none: "\<not> (\<exists>w. in_pages V n w \<and> bit (pte t w) 0)"
    using free [unfolded translate_ok [OF ok]] pe(3) by (metis option.distinct(1))
  from map_loop [OF okt al(1) lim [unfolded n], of ?f ?P] obtain err v p z' s' rs' k where L:
    "while_do (map_pass ?f) (OS_NO_ERR, V, ?P, ?z, t) = Ok (err, v, p, z', s')" "vm_ok s' rs'"
    "spans rs' \<subseteq> spans rs" "same_regs t s'" "mapped_to t s' V ?P k ?f"
    "err = OS_NO_ERR \<and> k = pages ?z \<or> err = OS_ERR_NO_MORE_FREE_MEM \<and> k < pages ?z \<and>
       (\<exists>w. in_pages V (pages ?z) w \<and> \<not> bit (pdir t (dir_index w)) 0)" by (elim exE conjE)
  have run: "kernel_mmap_internal virt ph sz ro ex c h s = Ok (err, pg_exit x s')"
    using e is_mapped_correct [OF okt al(1) lim [unfolded n], folded n, unfolded if_not_P [OF none]] L(1)
    by (simp add: kernel_mmap_internal_def Let_def flip: V)
  have oks: "vm_ok (pg_exit x s') rs'" using L(2) pe(5) by simp
  have "translate w (pg_exit x s') = (if in_pages V n w then Some (?P + (w - V), ro = 0) else translate w s)"
    if k: "k = n" and w: "dir_index w < 1023" for w
  proof -
    have pw: "pte (pg_exit x s') w = (if in_pages V n w then (?P + ((w AND PAGE_ALIGN_MASK) - V)) OR ?f else pte s w)"
      using L(5) w k pe(3,6) by (simp add: mapped_to_def)
    have "aligned (?P + ((w AND PAGE_ALIGN_MASK) - V))"
      by (intro aligned_add aligned_diff al aligned_and)
    note en = entry_parts [OF this map_flags_bits(1) [of ro c h]]
    have "?P + ((w AND PAGE_ALIGN_MASK) - V) + (w AND 0xFFF) = ?P + (w - V)"
      using offset_add [of w] by (metis add.assoc add_diff_eq diff_add_eq)
    then show ?thesis
      unfolding translate_ok [OF oks] translate_ok [OF ok] pw using en map_flags_bits(2,3) [of ro c h] by simp
  qed
  moreover have "pdir t = pdir s" using e by (auto simp: pg_enter_def pdir_def fun_eq_iff split: prod.splits)
  ultimately show ?thesis using run oks L(3,6) pe(4) [OF L(4)] n by auto
qed

section \<open>Unmapping\<close>

lemma any_present_run:
  assumes "rec_ok s" "d < 1024" "bit (pdir s d) 0" "k + n \<le> 1024"
  shows "any_present n (PAGING_RECUR_PG_TABLE + KERNEL_PAGE_SIZE * d + 4 * of_nat k) s =
    Ok (\<exists>j \<in> {k ..< k + n}. bit (phys s (tbl s d + 4 * of_nat j)) 0)"
  using assms(4)
proof (induction n arbitrary: k)
  case (Suc n)
  have i: "(of_nat k :: u32) < 1024" using Suc.prems by (simp add: word_less_nat_alt unat_of_nat)
  have "{k ..< k + Suc n} = insert k {Suc k ..< Suc k + n}" by auto
  then show ?case
    using Suc.IH [of "Suc k"] Suc.prems window_table(1) [OF assms(1,2) i assms(3)]
    by (simp add: present_bit algebra_simps)
qed simp

lemma any_present_pte:
  assumes "rec_ok s" "bit (pdir s (dir_index v)) 0" "dir_index w = dir_index v" "bit (pte s w) 0"
  shows "any_present KERNEL_PGDIR_SIZE (PAGING_RECUR_PG_TABLE + KERNEL_PAGE_SIZE * dir_index v) s = Ok True"
proof -
  have "unat (table_index w) \<in> {0 ..< 0 + 1024}" using index_bounds(2) [of w] by (simp add: word_less_nat_alt)
  moreover have "bit (phys s (tbl s (dir_index v) + 4 * of_nat (unat (table_index w)))) 0"
    using assms(2-4) by (simp add: pte_def)
  ultimately have "\<exists>j \<in> {0 ..< 0 + 1024}. bit (phys s (tbl s (dir_index v) + 4 * of_nat j)) 0" by (rule bexI [rotated])
  then show ?thesis
    using any_present_run [OF assms(1) index_bounds(1) assms(2), of 0 1024] by (simp add: KERNEL_PGDIR_SIZE_def)
qed

text \<open>A page that is not mapped or mapped to hardware, in a table that has another page.\<close>

lemma unmap_page:
  assumes ok: "vm_ok s rs" and d: "dir_index V < 1023" and z: "z \<noteq> 0"
    and hw: "bit (pte s V) 0 \<Longrightarrow> pte s V AND PAGE_FLAG_HARDWARE \<noteq> 0"
    and other: "bit (pdir s (dir_index V)) 0 \<Longrightarrow>
      \<exists>w. dir_index w = dir_index V \<and> unat w div 4096 \<noteq> unat V div 4096 \<and> bit (pte s w) 0"
  shows "\<exists>s'. unmap_pass (V, z, s) =
      Ok (True, V + KERNEL_PAGE_SIZE, if z \<ge> KERNEL_PAGE_SIZE then z - KERNEL_PAGE_SIZE else 0, s') \<and>
    vm_ok s' rs \<and> same_regs s s' \<and> frames s' = frames s \<and> (\<forall>e < 1024. pdir s' e = pdir s e) \<and>
    (\<forall>w. dir_index w < 1023 \<longrightarrow>
       pte s' w = (if unat w div 4096 = unat V div 4096 \<and> bit (pte s w) 0 then 0 else pte s w))"
proof (cases "bit (pdir s (dir_index V)) 0")
  case False
  then have "pte s w = 0" if "unat w div 4096 = unat V div 4096" for w
    using pte_same_page [OF that, of s] by (simp add: pte_def)
  then show ?thesis
    using ok z False window_dir(1) [OF vm_okD(1) [OF ok] index_bounds(1) [of V]]
    by (intro exI [of _ s]) (auto simp: unmap_pass_def present_bit Let_def)
next
  case True
  note r = vm_okD(1) [OF ok]
  let ?s = "s\<lparr>phys := (phys s)(tbl s (dir_index V) + 4 * table_index V := 0)\<rparr>"
  let ?t = "if bit (pte s V) 0 then ?s else s"
  note u = set_entry [OF ok d True refl, where x = 0]
  have t: "vm_ok ?t rs" "pdir ?t (dir_index V) = pdir s (dir_index V)" "\<forall>e < 1024. pdir ?t e = pdir s e"
    using ok u(1) u(3) [OF index_bounds(1)] u(3) by auto
  have pt: "pte ?t w = (if unat w div 4096 = unat V div 4096 \<and> bit (pte s w) 0 then 0 else pte s w)"
    if "dir_index w < 1023" for w
    using u(2) [OF that] pte_same_page [of w V s] by auto
  obtain w where w: "dir_index w = dir_index V" "unat w div 4096 \<noteq> unat V div 4096" "bit (pte s w) 0"
    using other [OF True] by blast
  have "bit (pte ?t w) 0" using pt [of w] w d by simp
  from any_present_pte [OF vm_okD(1) [OF t(1)] _ w(1) this]
  have any: "any_present KERNEL_PGDIR_SIZE (PAGING_RECUR_PG_TABLE + KERNEL_PAGE_SIZE * dir_index V) ?t = Ok True"
    using True t(2) by simp
  have e: "phys s (tbl s (dir_index V) + 4 * table_index V) = pte s V" using True by (simp add: pte_def)
  have "unmap_pass (V, z, s) =
      Ok (True, V + KERNEL_PAGE_SIZE, if z \<ge> KERNEL_PAGE_SIZE then z - KERNEL_PAGE_SIZE else 0, ?t)"
    using z True hw any window_dir(1) [OF r index_bounds(1) [of V]] window_table(1) [OF r index_bounds [of V] True]
      window_table(2) [OF r index_bounds [of V] True vm_okD(3) [OF ok index_bounds(1) True], of 0] e
    by (cases "bit (pte s V) 0") (simp_all add: unmap_pass_def present_bit Let_def)
  then show ?thesis using t(1,3) pt by (intro exI [of _ ?t]) auto
qed

text \<open>Only hardware pages are mapped in the region, and every table it touches has a page outside it.\<close>

definition hw_region :: "vm \<Rightarrow> u32 \<Rightarrow> nat \<Rightarrow> bool" where
  "hw_region s V n \<longleftrightarrow>
     (\<forall>w. in_pages V n w \<longrightarrow> (bit (pte s w) 0 \<longrightarrow> pte s w AND PAGE_FLAG_HARDWARE \<noteq> 0) \<and>
        (bit (pdir s (dir_index w)) 0 \<longrightarrow> (\<exists>v. dir_index v = dir_index w \<and> \<not> in_pages V n v \<and> bit (pte s v) 0)))"

lemma unmap_loop:
  assumes "vm_ok s rs" "aligned V" "unat V + 4096 * pages z \<le> 0xFFC00000" "hw_region s V (pages z)"
  shows "\<exists>v z' s'. while_do unmap_pass (V, z, s) = Ok (v, z', s') \<and> vm_ok s' rs \<and> same_regs s s' \<and>
    frames s' = frames s \<and>
    (\<forall>w. dir_index w < 1023 \<longrightarrow> pte s' w = (if in_pages V (pages z) w \<and> bit (pte s w) 0 then 0 else pte s w))"
  using assms
proof (induction "pages z" arbitrary: s V z)
  case 0
  then have "z = 0" using pages_step [of z] by fastforce
  then show ?case using 0 by (subst while_do_unfold) (auto simp: unmap_pass_def in_pages_def)
next
  case (Suc n)
  then have z: "z \<noteq> 0" by auto
  let ?z = "if z \<ge> KERNEL_PAGE_SIZE then z - KERNEL_PAGE_SIZE else 0" and ?V = "V + KERNEL_PAGE_SIZE"
  have n: "n = pages ?z" using pages_step [OF z] Suc.hyps(2) by simp
  have lim: "unat V + 4096 * Suc n < 2 ^ 32" "unat V < 0xFFC00000" using Suc.prems(3) Suc.hyps(2) by simp_all
  then have d: "dir_index V < 1023" by (simp add: below_window)
  note split = in_pages_Suc [OF lim(1) Suc.prems(2)]
  note hw = Suc.prems(4) [folded Suc.hyps(2), unfolded hw_region_def, rule_format]
  have inV: "in_pages V (Suc n) V" by (simp add: in_pages_def)
  have "\<exists>w. dir_index w = dir_index V \<and> unat w div 4096 \<noteq> unat V div 4096 \<and> bit (pte s w) 0"
    if "bit (pdir s (dir_index V)) 0" using hw [OF inV] that split by blast
  from unmap_page [OF Suc.prems(1) d z _ this] hw [OF inV] obtain t where t:
    "unmap_pass (V, z, s) = Ok (True, ?V, ?z, t)" "vm_ok t rs" "same_regs s t" "frames t = frames s"
    "\<forall>e < 1024. pdir t e = pdir s e"
    "\<forall>w. dir_index w < 1023 \<longrightarrow>
       pte t w = (if unat w div 4096 = unat V div 4096 \<and> bit (pte s w) 0 then 0 else pte s w)" by blast
  have V: "unat ?V = unat V + 4096" using lim(1) by (simp add: KERNEL_PAGE_SIZE_def unat_word_ariths)
  have lim': "unat ?V + 4096 * pages ?z \<le> 0xFFC00000" using Suc.prems(3) Suc.hyps(2) n V by simp
  have below: "dir_index w < 1023" if "in_pages V (Suc n) w" for w
    using that Suc.prems(3) Suc.hyps(2) by (simp add: in_pages_def flip: below_window)
  have "hw_region t ?V n" unfolding hw_region_def
  proof (intro allI impI conjI)
    fix w assume w: "in_pages ?V n w"
    then have w': "in_pages V (Suc n) w" using split by blast
    note dw = below [OF w']
    show "pte t w AND PAGE_FLAG_HARDWARE \<noteq> 0" if "bit (pte t w) 0"
      using that t(6) [rule_format, OF dw] hw [OF w'] by (auto split: if_splits)
    show "\<exists>v. dir_index v = dir_index w \<and> \<not> in_pages ?V n v \<and> bit (pte t v) 0" if "bit (pdir t (dir_index w)) 0"
    proof -
      from that hw [OF w'] t(5) index_bounds(1) [of w] obtain v where
        v: "dir_index v = dir_index w" "\<not> in_pages V (Suc n) v" "bit (pte s v) 0" by auto
      then have "pte t v = pte s v" using t(6) [rule_format, of v] dw split [of v] by simp
      then show ?thesis using v split [of v] by auto
    qed
  qed
  from Suc.hyps(1) [OF n t(2) aligned_next [OF Suc.prems(2)] lim' this [unfolded n]] obtain v z' s' where IH:
    "while_do unmap_pass (?V, ?z, t) = Ok (v, z', s')" "vm_ok s' rs" "same_regs t s'" "frames s' = frames t"
    "\<forall>w. dir_index w < 1023 \<longrightarrow> pte s' w = (if in_pages ?V (pages ?z) w \<and> bit (pte t w) 0 then 0 else pte t w)"
    by (elim exE conjE)
  have run: "while_do unmap_pass (V, z, s) = Ok (v, z', s')" using t(1) IH(1) by (subst while_do_unfold) simp
  have "pte s' w = (if in_pages V (pages z) w \<and> bit (pte s w) 0 then 0 else pte s w)" if "dir_index w < 1023" for w
    using IH(5) [rule_format, OF that] t(6) [rule_format, OF that] split [of w]
    unfolding n [symmetric] Suc.hyps(2) [symmetric] by auto
  then show ?case using run IH(2,4) t(4) same_regs_trans [OF t(3) IH(3)] by auto
qed

section \<open>Properties\<close>

text \<open>The pages of a region, from its first page on, and their number.\<close>

definition first_page :: "u32 \<Rightarrow> u32" where "first_page virt = virt AND PAGE_ALIGN_MASK"

definition page_span :: "u32 \<Rightarrow> u32 \<Rightarrow> nat" where "page_span virt sz = pages (sz + (virt - first_page virt))"

text \<open>C12. Mapping hardware memory: for a region below the recursive window in which nothing is mapped, the
  call returns \<^verbatim>\<open>OS_NO_ERR\<close> and then every address of the region's pages translates to the address at the same
  distance in the physical memory, writable unless read-only was asked for, while every other address below
  the window translates as before; or it runs out of frames for page tables, which only happens when a table
  is missing. The invariant of the page tables and the interrupt flag are kept in both cases.\<close>

theorem kernel_mmap_hw_maps:
  assumes "vm_ok s rs" "unat (first_page virt) + 4096 * page_span virt sz \<le> 0xFFC00000"
    and "\<forall>w. in_pages (first_page virt) (page_span virt sz) w \<longrightarrow> translate w s = None"
  shows "\<exists>err s' rs'. kernel_mmap_hw virt ph sz ro ex s = Ok (err, s') \<and> vm_ok s' rs' \<and> same_regs s s' \<and>
    (err = OS_NO_ERR \<and>
      (\<forall>w. unat w < 0xFFC00000 \<longrightarrow> translate w s' =
        (if in_pages (first_page virt) (page_span virt sz) w
         then Some ((ph AND PAGE_ALIGN_MASK) + (w - first_page virt), ro = 0) else translate w s)) \<or>
     err = OS_ERR_NO_MORE_FREE_MEM \<and>
      (\<exists>w. in_pages (first_page virt) (page_span virt sz) w \<and> \<not> bit (pdir s (dir_index w)) 0))"
proof -
  from mmap_internal_maps [OF assms(1) first_page_def page_span_def assms(2), of ph ro ex 0 1] assms(3)
  obtain err s' rs' where
    "kernel_mmap_internal virt ph sz ro ex 0 1 s = Ok (err, s')" "vm_ok s' rs'" "same_regs s s'"
    "err = OS_NO_ERR \<and>
      (\<forall>w. dir_index w < 1023 \<longrightarrow> translate w s' =
        (if in_pages (first_page virt) (page_span virt sz) w
         then Some ((ph AND PAGE_ALIGN_MASK) + (w - first_page virt), ro = 0) else translate w s)) \<or>
     err = OS_ERR_NO_MORE_FREE_MEM \<and>
      (\<exists>w. in_pages (first_page virt) (page_span virt sz) w \<and> \<not> bit (pdir s (dir_index w)) 0)" by blast
  then show ?thesis unfolding kernel_mmap_hw_def below_window by blast
qed

text \<open>A directory at \<^verbatim>\<open>0x1000\<close> with one empty table, at \<^verbatim>\<open>0x2000\<close>, for the addresses from \<^verbatim>\<open>0xE0000000\<close> on.\<close>

definition ex_vm :: vm where
  "ex_vm =
     \<lparr>phys = (\<lambda>_. 0)(0x1FFC := 0x1003, 0x1E00 := 0x2003), cr3 = 0x1000, cr0 = 0x80010000,
      frames = ex_mem, pg_ints = blank_ints, pg_init = 1, pg_enabled = 1\<rparr>"

lemma ex_pdir: "d < 1024 \<Longrightarrow> pdir ex_vm d = (if d = 1023 then 0x1003 else if d = 896 then 0x2003 else 0)"
proof -
  assume d: "d < 1024"
  have a: "aligned 0x1000" by (simp add: aligned_def)
  have "(0x1FFC :: u32) = 0x1000 + 4 * 1023" "(0x1E00 :: u32) = 0x1000 + 4 * 896" by simp_all
  then show ?thesis
    using frame_word_inj [OF a a d, of 1023] frame_word_inj [OF a a d, of 896] by (simp add: pdir_def ex_vm_def)
qed

lemma ex_tbl: "tbl ex_vm 896 = 0x2000" "tbl ex_vm 1023 = 0x1000"
  by (simp_all add: tbl_def ex_pdir PG_ENTRY_MASK_def)

lemma ex_vm_ok: "vm_ok ex_vm [(0x10000, 0x10000), (0x30000, 0x10000)]"
proof -
  have odd: "bit (pdir ex_vm d) 0 \<Longrightarrow> d < 1024 \<Longrightarrow> d = 1023 \<or> d = 896" for d
    using ex_pdir [of d] by (auto split: if_splits)
  have A: "rec_ok ex_vm"
    using ex_pdir [of 1023] by (simp add: rec_ok_def) (simp add: ex_vm_def aligned_def)
  have B: "frames_ok (frames ex_vm) [(0x10000, 0x10000), (0x30000, 0x10000)]"
    unfolding frames_ok_def
    by (intro exI [of _ "[0x50, 0x60]"] conjI) (use ex_mem_frames in \<open>simp_all add: ex_vm_def ex_mem_def page_starts_def\<close>)
  have C: "bit (pdir ex_vm d) 1" if "d = 1023 \<or> d = 896" for d
    using that ex_pdir [of d] by (auto simp: bit_numeral_rec)
  have D: "unat (tbl ex_vm d) \<notin> spans [(0x10000, 0x10000), (0x30000, 0x10000)]" if "d = 1023 \<or> d = 896" for d
    using that ex_tbl by (auto simp: span_def)
  have E: "d = e" if "d = 1023 \<or> d = 896" "e = 1023 \<or> e = 896" "tbl ex_vm d = tbl ex_vm e" for d e
    using that ex_tbl by auto
  show ?thesis unfolding vm_ok_def
  proof (intro conjI allI impI A B)
    show "bit (pdir ex_vm d) 1" "unat (tbl ex_vm d) \<notin> spans [(0x10000, 0x10000), (0x30000, 0x10000)]"
      if "d < 1024" "bit (pdir ex_vm d) 0" for d using C D odd [OF that(2,1)] by blast+
    show "d = e" if "d < 1024" "e < 1024" "bit (pdir ex_vm d) 0" "bit (pdir ex_vm e) 0" "tbl ex_vm d = tbl ex_vm e" for d e
      using E [OF odd [OF that(3,1)] odd [OF that(4,2)] that(5)] .
  qed
qed

lemma ex_unmapped: "unat w < 0xFFC00000 \<Longrightarrow> translate w ex_vm = None"
proof -
  assume "unat w < 0xFFC00000"
  then have w: "dir_index w \<noteq> 1023" "dir_index w < 1024" using below_window [of w] index_bounds(1) [of w] by auto
  have a: "aligned 0x2000" "aligned 0x1000" by (simp_all add: aligned_def)
  have "(0x1FFC :: u32) = 0x1000 + 4 * 1023" "(0x1E00 :: u32) = 0x1000 + 4 * 896" by simp_all
  then have "phys ex_vm (0x2000 + 4 * table_index w) = 0"
    using frame_word_inj [OF a index_bounds(2) [of w], of 1023] frame_word_inj [OF a index_bounds(2) [of w], of 896]
    by (simp add: ex_vm_def)
  then have "pte ex_vm w = 0" using w ex_pdir [OF w(2)] ex_tbl(1) by (simp add: pte_def)
  then show ?thesis by (simp add: translate_ok [OF ex_vm_ok])
qed

lemma ex_region: "in_pages 0xE0005000 2 w \<Longrightarrow> dir_index w = 896"
proof -
  assume "in_pages 0xE0005000 2 w"
  then have "unat w div 4194304 = 896" by (intro div_nat_eqI) (simp_all add: in_pages_def)
  then have "unat (dir_index w) = 896" by (simp add: dir_index_def PG_DIR_OFFSET_def drop_bit_eq_div unat_div)
  then show ?thesis by (simp add: word_unat_eq_iff)
qed

theorem kernel_mmap_hw_maps_witness:
  "\<exists>s'. kernel_mmap_hw 0xE0005000 0xFEE00000 0x2000 0 0 ex_vm = Ok (OS_NO_ERR, s') \<and>
     translate 0xE0006123 s' = Some (0xFEE01123, True)"
proof -
  have fp: "first_page 0xE0005000 = 0xE0005000" "page_span 0xE0005000 0x2000 = 2"
    by (simp_all add: first_page_def page_span_def pages_def entry_mask mask_eq_decr_exp)
  have "\<forall>w. in_pages 0xE0005000 2 w \<longrightarrow> translate w ex_vm = None"
    using ex_unmapped by (auto simp: in_pages_def)
  from kernel_mmap_hw_maps [OF ex_vm_ok, of "0xE0005000" "0x2000" "0xFEE00000" 0 0, unfolded fp, OF _ this]
  obtain err s' where r: "kernel_mmap_hw 0xE0005000 0xFEE00000 0x2000 0 0 ex_vm = Ok (err, s')"
    "err = OS_NO_ERR \<and>
      (\<forall>w. unat w < 0xFFC00000 \<longrightarrow> translate w s' =
        (if in_pages 0xE0005000 2 w
         then Some ((0xFEE00000 AND PAGE_ALIGN_MASK) + (w - 0xE0005000), True) else translate w ex_vm)) \<or>
     err = OS_ERR_NO_MORE_FREE_MEM \<and> (\<exists>w. in_pages 0xE0005000 2 w \<and> \<not> bit (pdir ex_vm (dir_index w)) 0)"
    by auto
  have "bit (pdir ex_vm 896) 0" by (simp add: ex_pdir)
  with r(2) ex_region have e: "err = OS_NO_ERR"
    "\<forall>w. unat w < 0xFFC00000 \<longrightarrow> translate w s' =
        (if in_pages 0xE0005000 2 w
         then Some ((0xFEE00000 AND PAGE_ALIGN_MASK) + (w - 0xE0005000), True) else translate w ex_vm)" by auto
  from e(2) [rule_format, of "0xE0006123"] have "translate 0xE0006123 s' = Some (0xFEE01123, True)"
    by (simp add: in_pages_def entry_mask mask_eq_decr_exp)
  then show ?thesis using r(1) e(1) by blast
qed

lemma round_up: "x mod 4096 \<noteq> 0 \<Longrightarrow> (x + 4095) div 4096 = x div 4096 + 1" for x :: nat
proof -
  assume m: "x mod 4096 \<noteq> 0"
  define q r where qr: "q = x div 4096" "r = x mod 4096"
  then have x: "x = 4096 * q + r" and r: "0 < r" "r < 4096" using m by simp_all
  have "(r + 4095) div 4096 = 1" using r by (intro div_nat_eqI) simp_all
  then have "(4096 * q + (r + 4095)) div 4096 = q + 1" by simp
  then show ?thesis using x unfolding qr(1) [symmetric] by (metis add.assoc)
qed

lemma page_bounds_span:
  assumes "0 < unat sz" "unat virt + unat sz \<le> 0xFFC00000"
  shows "\<exists>e. page_bounds virt sz = (first_page virt, e) \<and> unat (e - first_page virt) = 4096 * page_span virt sz"
    "unat (first_page virt) + 4096 * page_span virt sz \<le> 0xFFC00000" "0 < page_span virt sz"
proof -
  let ?a = "unat virt" and ?b = "unat sz" and ?V = "first_page virt"
  let ?n = "(?a mod 4096 + ?b + 4095) div 4096"
  have V: "unat ?V = 4096 * (?a div 4096)" by (simp add: first_page_def unat_base)
  have le: "?V \<le> virt" using V by (simp add: word_le_nat_alt)
  have am: "?a = 4096 * (?a div 4096) + ?a mod 4096" by simp
  have "unat (virt - ?V) = ?a mod 4096" using V le am by (simp add: unat_sub) (metis add_diff_cancel_left' am)
  then have "unat (sz + (virt - ?V)) = ?a mod 4096 + ?b"
    using assms(2) am by (simp add: unat_word_ariths)
  then have n: "page_span virt sz = ?n" by (simp add: page_span_def pages_def)
  have "(4096 * k + m) div 4096 = k + m div 4096" for k m :: nat by simp
  from this [of "?a div 4096" "?a mod 4096 + ?b + 4095"] am
  have sum: "(?a + ?b + 4095) div 4096 = ?a div 4096 + ?n" by (metis add.assoc)
  have top: "4096 * ((?a + ?b + 4095) div 4096) \<le> 0xFFC00000" using assms(2) by simp
  show "unat ?V + 4096 * page_span virt sz \<le> 0xFFC00000" using V n sum top by simp
  show "0 < page_span virt sz" using n assms(1) by simp
  have ab: "unat (virt + sz) = ?a + ?b" using assms(2) by (simp add: unat_word_ariths)
  define e where "e = snd (page_bounds virt sz)"
  have "unat e = 4096 * ((?a + ?b + 4095) div 4096)"
  proof (cases "(virt + sz) mod KERNEL_PAGE_SIZE \<noteq> 0")
    case True
    then have m: "(?a + ?b) mod 4096 \<noteq> 0" using ab by (simp add: KERNEL_PAGE_SIZE_def unat_eq_0 [symmetric] unat_mod)
    have "(?a + ?b + 4095) div 4096 = (?a + ?b) div 4096 + 1"
      using m by (rule round_up)
    moreover have "unat e = 4096 * ((?a + ?b) div 4096) + 4096"
      using True top calculation ab by (simp add: e_def page_bounds_def unat_base KERNEL_PAGE_SIZE_def unat_word_ariths)
    ultimately show ?thesis by simp
  next
    case False
    then have m: "(?a + ?b) mod 4096 = 0" using ab by (simp add: KERNEL_PAGE_SIZE_def unat_eq_0 [symmetric] unat_mod)
    then obtain q where q: "?a + ?b = 4096 * q" by auto
    moreover have "(4096 * q + 4095) div 4096 = q" by simp
    ultimately show ?thesis using False ab by (simp add: e_def page_bounds_def)
  qed
  then have e: "unat e = unat ?V + 4096 * ?n" using sum V by simp
  then have "unat (e - ?V) = 4096 * ?n" by (simp add: unat_sub word_le_nat_alt)
  then show "\<exists>e. page_bounds virt sz = (?V, e) \<and> unat (e - ?V) = 4096 * page_span virt sz"
    using n by (intro exI [of _ e]) (simp add: e_def page_bounds_def first_page_def Let_def)
qed

lemma pages_exact:
  assumes "unat z = 4096 * n"
  shows "z div KERNEL_PAGE_SIZE = of_nat n" "pages z = n"
proof -
  have "unat (z div KERNEL_PAGE_SIZE) = n" using assms by (simp add: unat_div KERNEL_PAGE_SIZE_def)
  then show "z div KERNEL_PAGE_SIZE = of_nat n" by (metis of_nat_unat ucast_id)
  show "pages z = n" using assms by (simp add: pages_def)
qed

text \<open>C13. Mapping ordinary memory, in a region below the recursive window whose tables exist and in which
  nothing is mapped: when a free block is large enough, the first one gives its first frames to the region, and
  then they are no longer free; otherwise the call returns \<^verbatim>\<open>OS_ERR_NO_MORE_FREE_MEM\<close> and changes nothing.\<close>

theorem kernel_mmap_maps:
  assumes ok: "vm_ok s rs" and sz: "0 < unat sz" "unat virt + unat sz \<le> 0xFFC00000"
    and tabs: "\<forall>w. in_pages (first_page virt) (page_span virt sz) w \<longrightarrow> bit (pdir s (dir_index w)) 0"
    and free: "\<forall>w. in_pages (first_page virt) (page_span virt sz) w \<longrightarrow> translate w s = None"
  shows "case find (\<lambda>r. page_span virt sz * 4096 \<le> unat (snd r)) rs of
      None \<Rightarrow> kernel_mmap virt sz ro ex s = Ok (OS_ERR_NO_MORE_FREE_MEM, s)
    | Some r \<Rightarrow> \<exists>s' rs'. kernel_mmap virt sz ro ex s = Ok (OS_NO_ERR, s') \<and> vm_ok s' rs' \<and> same_regs s s' \<and>
        {unat (fst r) ..< unat (fst r) + page_span virt sz * 4096} \<subseteq> spans rs - spans rs' \<and>
        (\<forall>w. unat w < 0xFFC00000 \<longrightarrow> translate w s' =
          (if in_pages (first_page virt) (page_span virt sz) w
           then Some (fst r + (w - first_page virt), ro = 0) else translate w s))"
proof -
  let ?n = "page_span virt sz"
  from page_bounds_span [OF sz] obtain e where e: "page_bounds virt sz = (first_page virt, e)"
    "unat (e - first_page virt) = 4096 * ?n" and lim: "unat (first_page virt) + 4096 * ?n \<le> 0xFFC00000"
    and n0: "0 < ?n" by blast
  have pc: "(e - first_page virt) div KERNEL_PAGE_SIZE = of_nat ?n" by (rule pages_exact(1) [OF e(2)])
  have un: "unat (of_nat ?n :: u32) = ?n" using lim by (simp add: unat_of_nat)
  from vm_okD(2) [OF ok] obtain zs where z: "frames_are (frames s) zs rs"
    "backlinks (areas (pool (frames s))) NULL zs" "page_starts rs" by (auto simp: frames_ok_def)
  have nn: "0 < unat (of_nat ?n :: u32)" "unat (of_nat ?n :: u32) * 4096 < 2 ^ 32" using un n0 lim by simp_all
  note c = alloc_kframes_cases [OF z(1,2) nn, unfolded un]
  show ?thesis
  proof (cases "find (\<lambda>r. ?n * 4096 \<le> unat (snd r)) rs")
    case None
    then show ?thesis using c e(1) pc by (simp add: kernel_mmap_def)
  next
    case (Some r)
    from c Some z(3) obtain m zs' rs1 where m: "memalloc_alloc_kframes (of_nat ?n) (frames s) = Ok (fst r, OS_NO_ERR, m)"
      "frames_are m zs' rs1" "backlinks (areas (pool m)) NULL zs'" "page_starts rs1"
      "{unat (fst r) ..< unat (fst r) + ?n * 4096} \<subseteq> spans rs"
      "spans rs1 = spans rs - {unat (fst r) ..< unat (fst r) + ?n * 4096}" by auto
    let ?t = "s\<lparr>frames := m\<rparr>"
    have same: "pdir ?t = pdir s" "tbl ?t = tbl s" "translate w ?t = translate w s" for w
      by (simp_all add: fun_eq_iff pdir_def tbl_def translate_def)
    have "frames_ok m rs1" using m(2-4) by (auto simp: frames_ok_def)
    then have okt: "vm_ok ?t rs1" using ok same m(6) by (auto simp: vm_ok_def rec_ok_def)
    have freet: "\<And>w. in_pages (first_page virt) ?n w \<Longrightarrow> translate w ?t = None" using free same(3) by simp
    from mmap_internal_maps [OF okt first_page_def page_span_def lim freet, of "fst r" ro ex 1 0]
    obtain err s' rs' where i: "kernel_mmap_internal virt (fst r) sz ro ex 1 0 ?t = Ok (err, s')" "vm_ok s' rs'"
      "spans rs' \<subseteq> spans rs1" "same_regs ?t s'" and
      "err = OS_NO_ERR \<and>
        (\<forall>w. dir_index w < 1023 \<longrightarrow> translate w s' =
          (if in_pages (first_page virt) ?n w
           then Some ((fst r AND PAGE_ALIGN_MASK) + (w - first_page virt), ro = 0) else translate w ?t)) \<or>
       err = OS_ERR_NO_MORE_FREE_MEM \<and> (\<exists>w. in_pages (first_page virt) ?n w \<and> \<not> bit (pdir ?t (dir_index w)) 0)"
      by blast
    then have i2: "err = OS_NO_ERR"
      "\<forall>w. dir_index w < 1023 \<longrightarrow> translate w s' =
          (if in_pages (first_page virt) ?n w
           then Some ((fst r AND PAGE_ALIGN_MASK) + (w - first_page virt), ro = 0) else translate w s)"
      using tabs same by auto
    have "r \<in> set rs" using Some by (auto simp: find_Some_iff)
    then have "fst r AND PAGE_ALIGN_MASK = fst r" using z(3) by (simp add: page_starts_def aligned_mask aligned_unat)
    moreover have "kernel_mmap virt sz ro ex s = Ok (OS_NO_ERR, s')" using e(1) pc m(1) i(1) i2(1) by (simp add: kernel_mmap_def)
    moreover have "same_regs s s'" using i(4) by (simp add: same_regs_def)
    moreover have "{unat (fst r) ..< unat (fst r) + ?n * 4096} \<subseteq> spans rs - spans rs'" using m(5,6) i(3) by auto
    ultimately show ?thesis using Some i(2) i2(2) unfolding below_window
      by (simp only: option.case) (intro exI [of _ s'] exI [of _ rs'], simp)
  qed
qed

theorem kernel_mmap_maps_witness:
  "\<exists>s' rs'. kernel_mmap 0xE0005010 0x1000 1 0 ex_vm = Ok (OS_NO_ERR, s') \<and> vm_ok s' rs' \<and>
     translate 0xE0006123 s' = Some (0x11123, False) \<and> 0x11123 \<notin> spans rs'"
proof -
  have fp: "first_page 0xE0005010 = 0xE0005000" "page_span 0xE0005010 0x1000 = 2"
    by (simp_all add: first_page_def page_span_def pages_def entry_mask mask_eq_decr_exp)
  have tabs: "\<forall>w. in_pages 0xE0005000 2 w \<longrightarrow> bit (pdir ex_vm (dir_index w)) 0"
    using ex_region by (simp add: ex_pdir)
  have free: "\<forall>w. in_pages 0xE0005000 2 w \<longrightarrow> translate w ex_vm = None"
    using ex_unmapped by (auto simp: in_pages_def)
  from kernel_mmap_maps [OF ex_vm_ok, of "0x1000" "0xE0005010" 1 0, unfolded fp, OF _ _ tabs free]
  obtain s' rs' where r: "kernel_mmap 0xE0005010 0x1000 1 0 ex_vm = Ok (OS_NO_ERR, s')" "vm_ok s' rs'"
    "{0x10000 ..< 0x12000} \<subseteq> spans [(0x10000, 0x10000), (0x30000, 0x10000)] - spans rs'"
    "\<forall>w. unat w < 0xFFC00000 \<longrightarrow> translate w s' =
        (if in_pages 0xE0005000 2 w then Some (0x10000 + (w - 0xE0005000), False) else translate w ex_vm)"
    by auto
  from r(4) [rule_format, of "0xE0006123"] have "translate 0xE0006123 s' = Some (0x11123, False)"
    by (simp add: in_pages_def)
  moreover have "0x11123 \<in> {0x10000 ..< 0x12000 :: nat}" by simp
  then have "0x11123 \<notin> spans rs'" using r(3) by blast
  ultimately show ?thesis using r(1,2) by blast
qed

text \<open>C28. Mapping over a mapping is refused: when a page of the region is mapped, the call returns
  \<^verbatim>\<open>OS_ERR_MAPPING_ALREADY_EXISTS\<close> and no translation and no frame changes; but it returns from inside its
  critical section, so interrupts are disabled afterwards.\<close>

theorem kernel_mmap_hw_refuses:
  assumes "vm_ok s rs" "unat (first_page virt) + 4096 * page_span virt sz \<le> 0xFFC00000"
    and "in_pages (first_page virt) (page_span virt sz) w" "translate w s \<noteq> None"
  shows "\<exists>s'. kernel_mmap_hw virt ph sz ro ex s = Ok (OS_ERR_MAPPING_ALREADY_EXISTS, s') \<and>
    phys s' = phys s \<and> cr3 s' = cr3 s \<and> frames s' = frames s \<and> kernel_interrupt_get_state (pg_ints s') = 0"
proof -
  obtain x t where e: "pg_enter s = (x, t)" by fastforce
  note pe = pg_enter_exit [OF e]
  obtain i where t: "t = s\<lparr>pg_ints := i\<rparr>" "kernel_interrupt_disable (pg_ints s) = (x, i)"
    using e by (auto simp: pg_enter_def split: prod.splits)
  have i: "kernel_interrupt_get_state i = 0" using kernel_interrupt_disable_restore [of "pg_ints s"] t(2) by simp
  have okt: "vm_ok t rs" using assms(1) pe(2) by simp
  have some: "\<exists>w. in_pages (first_page virt) (page_span virt sz) w \<and> bit (pte t w) 0"
    using assms(3,4) translate_ok [OF assms(1)] pe(3) by (intro exI [of _ w]) (simp split: if_splits)
  have al: "aligned (first_page virt)" by (simp add: first_page_def aligned_and)
  have "is_mapped (first_page virt) (sz + (virt - first_page virt)) t = Ok (1, t)"
    using is_mapped_correct [OF okt al assms(2) [unfolded page_span_def]] some by (simp add: page_span_def)
  then have "kernel_mmap_hw virt ph sz ro ex s = Ok (OS_ERR_MAPPING_ALREADY_EXISTS, t)"
    using e by (simp add: kernel_mmap_hw_def kernel_mmap_internal_def first_page_def Let_def)
  then show ?thesis using t(1) i by simp
qed

text \<open>The table at \<^verbatim>\<open>0x2000\<close> with its first two pages mapped to hardware.\<close>

definition ex_vm_mapped :: vm where
  "ex_vm_mapped = ex_vm\<lparr>phys := (phys ex_vm)(0x2000 := 0xB8213, 0x2004 := 0xB9213)\<rparr>"

lemma ex_vm_mapped_ok:
  "vm_ok ex_vm_mapped [(0x10000, 0x10000), (0x30000, 0x10000)]"
  "pte ex_vm_mapped 0xE0000000 = 0xB8213" "pte ex_vm_mapped 0xE0001000 = 0xB9213"
proof -
  have i: "dir_index 0xE0000000 = 896" "table_index 0xE0000000 = 0" "dir_index 0xE0001000 = 896" "table_index 0xE0001000 = 1"
    by (simp_all add: dir_index_def table_index_def PG_DIR_OFFSET_def PG_TABLE_OFFSET_def)
  let ?s = "ex_vm\<lparr>phys := (phys ex_vm)(tbl ex_vm (dir_index 0xE0000000) + 4 * table_index 0xE0000000 := 0xB8213)\<rparr>"
  have d: "dir_index 0xE0000000 < 1023" "bit (pdir ex_vm (dir_index 0xE0000000)) 0" using i by (simp_all add: ex_pdir)
  note one = set_entry [OF ex_vm_ok d refl, where x = "0xB8213"]
  have pd: "pdir ?s 896 = 0x2003" using one(3) [of 896] by (simp add: ex_pdir)
  have d': "dir_index 0xE0001000 < 1023" "bit (pdir ?s (dir_index 0xE0001000)) 0" using i pd by simp_all
  have "tbl ?s 896 = 0x2000" using pd by (simp add: tbl_def PG_ENTRY_MASK_def)
  then have m: "ex_vm_mapped = ?s\<lparr>phys := (phys ?s)(tbl ?s (dir_index 0xE0001000) + 4 * table_index 0xE0001000 := 0xB9213)\<rparr>"
    unfolding i by (simp add: ex_vm_mapped_def ex_tbl)
  note two = set_entry(2) [OF one(1) d' m]
  show "vm_ok ex_vm_mapped [(0x10000, 0x10000), (0x30000, 0x10000)]" by (rule set_entry(1) [OF one(1) d' m])
  show "pte ex_vm_mapped 0xE0001000 = 0xB9213" using two [of "0xE0001000"] d' by simp
  show "pte ex_vm_mapped 0xE0000000 = 0xB8213" using two [of "0xE0000000"] one(2) [of "0xE0000000"] d by simp
qed

theorem kernel_mmap_hw_refuses_witness:
  "\<exists>s'. kernel_mmap_hw 0xE0000000 0xFEE00000 0x1000 0 0 ex_vm_mapped = Ok (OS_ERR_MAPPING_ALREADY_EXISTS, s') \<and>
     phys s' = phys ex_vm_mapped \<and> cr3 s' = cr3 ex_vm_mapped \<and> frames s' = frames ex_vm_mapped \<and>
     kernel_interrupt_get_state (pg_ints s') = 0"
  by (rule kernel_mmap_hw_refuses [OF ex_vm_mapped_ok(1), where w = "0xE0000000"])
    (simp_all add: first_page_def page_span_def pages_def entry_mask mask_eq_decr_exp in_pages_def
      translate_ok [OF ex_vm_mapped_ok(1)] ex_vm_mapped_ok(2))

text \<open>Unmapping a region of hardware pages, each of whose tables also has a page outside the region: no
  address of the region's pages translates afterwards, every other address below the window translates as
  before, no frame is given back, and the page tables stay well-formed.\<close>

theorem kernel_munmap_hw:
  assumes ok: "vm_ok s rs" and sz: "0 < unat sz" "unat virt + unat sz \<le> 0xFFC00000"
    and hw: "hw_region s (first_page virt) (page_span virt sz)"
  shows "\<exists>s'. kernel_munmap virt sz s = Ok (OS_NO_ERR, s') \<and> vm_ok s' rs \<and> same_regs s s' \<and> frames s' = frames s \<and>
    (\<forall>w. unat w < 0xFFC00000 \<longrightarrow> translate w s' =
       (if in_pages (first_page virt) (page_span virt sz) w then None else translate w s))"
proof -
  from page_bounds_span [OF sz] obtain e where e: "page_bounds virt sz = (first_page virt, e)"
    and u: "unat (e - first_page virt) = 4096 * page_span virt sz"
    and lim: "unat (first_page virt) + 4096 * page_span virt sz \<le> 0xFFC00000" by blast
  note n = pages_exact(2) [OF u]
  obtain x t where en: "pg_enter s = (x, t)" by fastforce
  note pe = pg_enter_exit [OF en]
  have "vm_ok t rs" using ok pe(2) by simp
  moreover have "pdir t = pdir s" using en by (auto simp: pg_enter_def pdir_def fun_eq_iff split: prod.splits)
  then have "hw_region t (first_page virt) (page_span virt sz)" using hw pe(3) by (simp add: hw_region_def)
  moreover have "aligned (first_page virt)" by (simp add: first_page_def aligned_and)
  ultimately obtain v z' s' where L: "while_do unmap_pass (first_page virt, e - first_page virt, t) = Ok (v, z', s')"
    "vm_ok s' rs" "same_regs t s'" "frames s' = frames t"
    "\<forall>w. dir_index w < 1023 \<longrightarrow>
       pte s' w = (if in_pages (first_page virt) (page_span virt sz) w \<and> bit (pte t w) 0 then 0 else pte t w)"
    using unmap_loop [of t rs "first_page virt" "e - first_page virt"] lim n by auto
  have "kernel_munmap virt sz s = Ok (OS_NO_ERR, pg_exit x s')" using en e L(1) by (simp add: kernel_munmap_def)
  moreover have oks: "vm_ok (pg_exit x s') rs" using L(2) pe(5) by simp
  moreover have "frames (pg_exit x s') = frames s"
    using L(4) en by (auto simp: pg_exit_def pg_enter_def split: prod.splits)
  moreover have "translate w (pg_exit x s') =
      (if in_pages (first_page virt) (page_span virt sz) w then None else translate w s)" if "dir_index w < 1023" for w
    unfolding translate_ok [OF oks] translate_ok [OF ok] using L(5) [rule_format, OF that] pe(3,6) by auto
  ultimately show ?thesis using pe(4) [OF L(3)] unfolding below_window by blast
qed

theorem kernel_munmap_hw_witness:
  "\<exists>s'. kernel_munmap 0xE0000000 0x1000 ex_vm_mapped = Ok (OS_NO_ERR, s') \<and>
     translate 0xE0000004 s' = None \<and> translate 0xE0001004 s' = Some (0xB9004, True)"
proof -
  have fp: "first_page 0xE0000000 = 0xE0000000" "page_span 0xE0000000 0x1000 = 1"
    by (simp_all add: first_page_def page_span_def pages_def entry_mask mask_eq_decr_exp)
  have page: "unat w div 4096 = unat (0xE0000000 :: u32) div 4096" if "in_pages 0xE0000000 1 w" for w
    using that by (intro div_nat_eqI) (simp_all add: in_pages_def)
  have other: "dir_index 0xE0001000 = dir_index 0xE0000000" by (simp add: dir_index_def PG_DIR_OFFSET_def)
  have "hw_region ex_vm_mapped 0xE0000000 1" unfolding hw_region_def
  proof (intro allI impI)
    fix w assume w: "in_pages 0xE0000000 1 w"
    have "dir_index w = dir_index 0xE0000000" using page_of [of w "0xE0000000"] page [OF w] by blast
    moreover have "\<not> in_pages 0xE0000000 1 0xE0001000" by (simp add: in_pages_def)
    moreover have "pte ex_vm_mapped w = 0xB8213" using pte_same_page [OF page [OF w]] ex_vm_mapped_ok(2) by simp
    ultimately show "(bit (pte ex_vm_mapped w) 0 \<longrightarrow> pte ex_vm_mapped w AND PAGE_FLAG_HARDWARE \<noteq> 0) \<and>
        (bit (pdir ex_vm_mapped (dir_index w)) 0 \<longrightarrow>
           (\<exists>v. dir_index v = dir_index w \<and> \<not> in_pages 0xE0000000 1 v \<and> bit (pte ex_vm_mapped v) 0))"
      using other ex_vm_mapped_ok(3) by (auto simp: PAGE_FLAG_HARDWARE_def intro!: exI [of _ "0xE0001000"])
  qed
  from kernel_munmap_hw [OF ex_vm_mapped_ok(1), of "0x1000" "0xE0000000", unfolded fp, OF _ _ this]
  obtain s' where r: "kernel_munmap 0xE0000000 0x1000 ex_vm_mapped = Ok (OS_NO_ERR, s')"
    "\<forall>w. unat w < 0xFFC00000 \<longrightarrow> translate w s' = (if in_pages 0xE0000000 1 w then None else translate w ex_vm_mapped)"
    by auto
  have "pte ex_vm_mapped 0xE0001004 = 0xB9213" using pte_same_page [of "0xE0001004" "0xE0001000"] ex_vm_mapped_ok(3) by simp
  then have "translate 0xE0001004 ex_vm_mapped = Some (0xB9004, True)"
    by (simp add: translate_ok [OF ex_vm_mapped_ok(1)] PG_ENTRY_MASK_def bit_numeral_rec)
  then show ?thesis
    using r(1) r(2) [rule_format, of "0xE0000004"] r(2) [rule_format, of "0xE0001004"] by (simp add: in_pages_def)
qed

text \<open>\<^verbatim>\<open>paging_disable\<close> clears bit 19 of \<^verbatim>\<open>CR0\<close> instead of bit 16: write protection, which \<^verbatim>\<open>paging_enable\<close>
  turned on, stays on.\<close>

lemma paging_disable_keeps_wp:
  assumes "pg_init s \<noteq> 0" "pg_enabled s = 0"
  shows "paging_disable (snd (paging_enable s)) = (OS_NO_ERR, s') \<Longrightarrow> \<not> bit (cr0 s') 31 \<and> bit (cr0 s') 16"
  using assms by (auto simp: paging_enable_def paging_disable_def bit_simps bit_numeral_rec)

end
