(* ===== verification/TimerDriver.thy ===== *)
theory TimerDriver
  imports Pic Time
begin

text \<open>
  The timer drivers seen by the time manager. A timer is specified by the nesting of the requests that disabled
  it, whether its interrupts reach the processor, its frequency and its handler; \<open>timer_spec\<close> says what each
  request does to these and which code it returns. The locale \<open>timer_driver\<close> is the contract of a
  \<^verbatim>\<open>kernel_timer_t\<close>: it refines the specification and leaves everything else of the system alone. What a
  client may conclude from any sequence of requests is proved once here. The drivers of the board,
  \<^verbatim>\<open>Sources/arch/x86/pit.c\<close> and \<^verbatim>\<open>Sources/arch/x86/rtc.c\<close>, are in the theories \<open>Pit\<close> and \<open>Rtc\<close>; the code they
  share and their file-scope variables are at the end of this theory.
\<close>

section \<open>Specification\<close>

record timer_view =
  level :: nat
  opened :: bool
  tfreq :: u32
  thandler :: "ptr option"

datatype timer_request = Enable | Disable | SetFrequency u32 | SetHandler ptr | RemoveHandler

definition spec_enable :: "timer_view \<Rightarrow> timer_view" where
  "spec_enable v = v\<lparr>level := level v - 1, opened := (level v \<le> 1 \<or> opened v)\<rparr>"

definition spec_disable :: "timer_view \<Rightarrow> timer_view" where
  "spec_disable v = v\<lparr>level := min (Suc (level v)) (2 ^ 32 - 1), opened := False\<rparr>"

definition spec_pulse :: "timer_view \<Rightarrow> timer_view" where
  "spec_pulse v = spec_enable (spec_disable v)"

text \<open>The frequencies accepted, and the one a timer really runs at when it is asked for one.\<close>

record timer_limits =
  lowest :: u32
  highest :: u32
  effective :: "u32 \<Rightarrow> u32"

definition spec_handler :: "ptr \<Rightarrow> timer_view \<Rightarrow> OS_RETURN_E \<times> timer_view" where
  "spec_handler h v =
     (if h = NULL then (OS_ERR_NULL_POINTER, v)
      else if thandler v = None then (OS_ERR_INTERRUPT_NOT_REGISTERED, spec_pulse v)
      else (OS_NO_ERR, (spec_pulse v)\<lparr>thandler := Some h\<rparr>))"

primrec timer_spec :: "timer_limits \<Rightarrow> ptr \<Rightarrow> timer_request \<Rightarrow> timer_view \<Rightarrow> OS_RETURN_E \<times> timer_view" where
  "timer_spec l dummy Enable v = (OS_NO_ERR, spec_enable v)"
| "timer_spec l dummy Disable v = (OS_NO_ERR, spec_disable v)"
| "timer_spec l dummy (SetFrequency f) v =
     (if f < lowest l \<or> f > highest l then (OS_ERR_OUT_OF_BOUND, v)
      else (OS_NO_ERR, (spec_pulse v)\<lparr>tfreq := effective l f\<rparr>))"
| "timer_spec l dummy (SetHandler h) v = spec_handler h v"
| "timer_spec l dummy RemoveHandler v = spec_handler dummy v"

primrec timer_spec_all :: "timer_limits \<Rightarrow> ptr \<Rightarrow> timer_request list \<Rightarrow> timer_view \<Rightarrow> OS_RETURN_E list \<times> timer_view" where
  "timer_spec_all l dummy [] v = ([], v)"
| "timer_spec_all l dummy (r # rs) v =
     (let (e, v) = timer_spec l dummy r v; (es, v) = timer_spec_all l dummy rs v in (e # es, v))"

text \<open>Interrupts reach the processor exactly when every request that disabled the timer has been undone.\<close>

definition gate_ok :: "timer_view \<Rightarrow> bool" where
  "gate_ok v \<longleftrightarrow> (opened v \<longleftrightarrow> level v = 0)"

lemma spec_gate [simp]: "gate_ok v \<Longrightarrow> gate_ok (spec_enable v)" "gate_ok (spec_disable v)" "gate_ok v \<Longrightarrow> gate_ok (spec_pulse v)"
  by (auto simp: gate_ok_def spec_enable_def spec_disable_def spec_pulse_def)

lemma gate_ok_update [simp]: "gate_ok (v\<lparr>tfreq := f\<rparr>) = gate_ok v" "gate_ok (v\<lparr>thandler := h\<rparr>) = gate_ok v"
  by (simp_all add: gate_ok_def)

lemma spec_handler_gate: "gate_ok v \<Longrightarrow> gate_ok (snd (spec_handler h v))"
  by (simp add: spec_handler_def)

lemma timer_spec_gate: "gate_ok v \<Longrightarrow> gate_ok (snd (timer_spec l dummy r v))"
  by (cases r) (simp_all add: spec_handler_gate)

lemma timer_spec_all_gate: "gate_ok v \<Longrightarrow> gate_ok (snd (timer_spec_all l dummy rs v))"
proof (induction rs arbitrary: v)
  case (Cons r rs)
  then show ?case using timer_spec_gate [of v l dummy r]
    by (auto simp: Let_def case_prod_beta)
qed simp

text \<open>A request that disables and enables again keeps the nesting, unless the counter was saturated.\<close>

lemma spec_pulse_simps [simp]:
  "level v < 2 ^ 32 - 1 \<Longrightarrow> level (spec_pulse v) = level v"
  "tfreq (spec_pulse v) = tfreq v" "thandler (spec_pulse v) = thandler v"
  by (simp_all add: spec_pulse_def spec_enable_def spec_disable_def)

section \<open>The contract\<close>

definition serve :: "kernel_timer_t \<Rightarrow> timer_request \<Rightarrow> int_state \<Rightarrow> (OS_RETURN_E \<times> int_state) outcome" where
  "serve drv r s =
     (case r of
        Enable \<Rightarrow> call_ptr (timer_enable drv) (\<lambda>f. f s)
      | Disable \<Rightarrow> call_ptr (timer_disable drv) (\<lambda>f. f s)
      | SetFrequency f \<Rightarrow> call_ptr (set_frequency drv) (\<lambda>g. g f s)
      | SetHandler h \<Rightarrow> call_ptr (timer_set_handler drv) (\<lambda>g. g h s)
      | RemoveHandler \<Rightarrow> call_ptr (timer_remove_handler drv) (\<lambda>g. g s))"

primrec serve_all :: "kernel_timer_t \<Rightarrow> timer_request list \<Rightarrow> int_state \<Rightarrow> (OS_RETURN_E list \<times> int_state) outcome" where
  "serve_all drv [] s = Ok ([], s)"
| "serve_all drv (r # rs) s =
     andthen (serve drv r s) (\<lambda>(e, s). andthen (serve_all drv rs s) (\<lambda>(es, s). Ok (e # es, s)))"

locale timer_driver =
  fixes drv :: kernel_timer_t
    and limits :: timer_limits
    and dummy :: ptr
    and ready :: "int_state \<Rightarrow> bool"
    and view :: "int_state \<Rightarrow> timer_view"
    and outside :: "int_state \<Rightarrow> 'o"
  assumes complete: "timer_has_all drv"
    and frequency: "get_frequency drv = Some g \<Longrightarrow> g s = tfreq (view s)"
    and serve_refines: "ready s \<Longrightarrow>
      \<exists>s'. serve drv r s = Ok (fst (timer_spec limits dummy r (view s)), s') \<and> ready s' \<and>
           view s' = snd (timer_spec limits dummy r (view s)) \<and> outside s' = outside s"
begin

lemma serve_all_refines:
  "ready s \<Longrightarrow> \<exists>s'. serve_all drv rs s = Ok (fst (timer_spec_all limits dummy rs (view s)), s') \<and> ready s' \<and>
     view s' = snd (timer_spec_all limits dummy rs (view s)) \<and> outside s' = outside s"
proof (induction rs arbitrary: s)
  case (Cons r rs)
  from serve_refines [OF Cons.prems, of r] obtain t where t:
    "serve drv r s = Ok (fst (timer_spec limits dummy r (view s)), t)" "ready t"
    "view t = snd (timer_spec limits dummy r (view s))" "outside t = outside s" by blast
  from Cons.IH [OF t(2)] obtain s' where "serve_all drv rs t = Ok (fst (timer_spec_all limits dummy rs (view t)), s')"
    "ready s'" "view s' = snd (timer_spec_all limits dummy rs (view t))" "outside s' = outside t" by blast
  then show ?case using t(1,3,4) by (intro exI [of _ s']) (simp add: Let_def case_prod_beta)
qed simp

lemma serve_all_gate:
  assumes "ready s" "gate_ok (view s)" "serve_all drv rs s = Ok (es, s')"
  shows "gate_ok (view s')"
  using serve_all_refines [OF assms(1), of rs] timer_spec_all_gate [OF assms(2), of limits dummy rs] assms(3) by auto

text \<open>What the time manager needs of a driver: setting a frequency and a handler, then enabling.\<close>

lemma set_frequency_handler:
  assumes "ready s" "lowest limits \<le> f" "f \<le> highest limits" "thandler (view s) \<noteq> None" "h \<noteq> NULL" "level (view s) < 2 ^ 32 - 1"
  obtains g1 g2 s1 s2 where "set_frequency drv = Some g1" "g1 f s = Ok (OS_NO_ERR, s1)"
    "timer_set_handler drv = Some g2" "g2 h s1 = Ok (OS_NO_ERR, s2)" "ready s2" "outside s2 = outside s"
    "level (view s2) = level (view s)" "tfreq (view s2) = effective limits f" "thandler (view s2) = Some h"
proof -
  obtain g1 g2 where g: "set_frequency drv = Some g1" "timer_set_handler drv = Some g2"
    using complete by (auto simp: timer_has_all_def)
  have "timer_spec limits dummy (SetFrequency f) (view s) = (OS_NO_ERR, (spec_pulse (view s))\<lparr>tfreq := effective limits f\<rparr>)"
    using assms(2,3) by (simp add: not_less)
  with serve_refines [OF assms(1), of "SetFrequency f"] g(1) obtain s1 where s1:
    "g1 f s = Ok (OS_NO_ERR, s1)" "ready s1" "view s1 = (spec_pulse (view s))\<lparr>tfreq := effective limits f\<rparr>"
    "outside s1 = outside s" by (auto simp: serve_def simp del: timer_spec.simps)
  have lv: "level (view s1) = level (view s)" "thandler (view s1) \<noteq> None" using assms(4,6) by (simp_all add: s1(3))
  from serve_refines [OF s1(2), of "SetHandler h"] g(2) assms(5) lv(2) obtain s2 where s2:
    "g2 h s1 = Ok (OS_NO_ERR, s2)" "ready s2" "view s2 = (spec_pulse (view s1))\<lparr>thandler := Some h\<rparr>"
    "outside s2 = outside s1" by (auto simp: serve_def spec_handler_def)
  show thesis
    by (rule that [OF g(1) s1(1) g(2) s2(1,2)]) (use s1(3,4) s2(3,4) lv assms(6) in simp_all)
qed

lemma enable_opens:
  assumes "ready s" "level (view s) \<le> 1"
  obtains g s' where "timer_enable drv = Some g" "g s = Ok (OS_NO_ERR, s')" "ready s'" "outside s' = outside s"
    "view s' = (view s)\<lparr>level := 0, opened := True\<rparr>"
proof -
  obtain g where g: "timer_enable drv = Some g" using complete by (auto simp: timer_has_all_def)
  from serve_refines [OF assms(1), of Enable] g obtain s' where
    "g s = Ok (OS_NO_ERR, s')" "ready s'" "view s' = spec_enable (view s)" "outside s' = outside s"
    by (auto simp: serve_def)
  then show thesis using that [OF g] assms(2) by (simp add: spec_enable_def)
qed

end

section \<open>The timers of the board\<close>

text \<open>File-scope variables of the drivers: \<^verbatim>\<open>disabled_nesting\<close> and \<^verbatim>\<open>tick_freq\<close> of the PIT, \<^verbatim>\<open>disabled_nesting\<close> and
  \<^verbatim>\<open>rtc_frequency\<close> of the RTC.\<close>

definition pit_nesting :: string where "pit_nesting = ''pit.disabled_nesting''"
definition pit_freq :: string where "pit_freq = ''pit.tick_freq''"
definition rtc_nesting :: string where "rtc_nesting = ''rtc.disabled_nesting''"
definition rtc_freq :: string where "rtc_freq = ''rtc.rtc_frequency''"

definition PIT_IRQ_LINE :: u32 where "PIT_IRQ_LINE = 0"
definition RTC_IRQ_LINE :: u32 where "RTC_IRQ_LINE = 8"

definition stat :: "string \<Rightarrow> int_state \<Rightarrow> u32" where
  "stat x s = statics (int_world s) x"

definition set_stat :: "string \<Rightarrow> u32 \<Rightarrow> int_state \<Rightarrow> int_state" where
  "set_stat x v s = s\<lparr>int_world := set_static x v (int_world s)\<rparr>"

text \<open>The bodies of \<^verbatim>\<open>pit_enable\<close> and \<^verbatim>\<open>rtc_enable\<close>, and of \<^verbatim>\<open>pit_disable\<close> and \<^verbatim>\<open>rtc_disable\<close>, which differ only in
  the variable and the line.\<close>

definition gate_enable :: "string \<Rightarrow> u32 \<Rightarrow> int_state \<Rightarrow> (OS_RETURN_E \<times> int_state) outcome" where
  "gate_enable disabled_nesting irq s =
     (let n = stat disabled_nesting s;
          n = (if n > 0 then n - 1 else n);
          s = set_stat disabled_nesting n s
      in if n = 0 then kernel_interrupt_set_irq_mask irq 1 s else Ok (OS_NO_ERR, s))"

definition gate_disable :: "string \<Rightarrow> u32 \<Rightarrow> int_state \<Rightarrow> (OS_RETURN_E \<times> int_state) outcome" where
  "gate_disable disabled_nesting irq s =
     (let n = stat disabled_nesting s
      in kernel_interrupt_set_irq_mask irq 0 (set_stat disabled_nesting (if n < 0xFFFFFFFF then n + 1 else n) s))"

definition timer_at :: "string \<Rightarrow> string \<Rightarrow> u32 \<Rightarrow> int_state \<Rightarrow> timer_view" where
  "timer_at x f irq s =
     \<lparr>level = unat (stat x s), opened = irq_open irq s, tfreq = stat f s,
      thandler = handler_at s (pic_get_irq_int_line irq)\<rparr>"

definition bus_ready :: "int_state \<Rightarrow> bool" where
  "bus_ready s \<longleftrightarrow> on_pic s \<and> handlers_ok s"

text \<open>Two timers with their own variables, one on each controller.\<close>

definition apart :: "string \<Rightarrow> string \<Rightarrow> u32 \<Rightarrow> string \<Rightarrow> string \<Rightarrow> u32 \<Rightarrow> bool" where
  "apart x f irq y k j \<longleftrightarrow>
     distinct [x, f, y, k] \<and> irq \<le> 15 \<and> j \<le> 15 \<and> (j < 8) \<noteq> (irq < 8) \<and> irq \<noteq> 2 \<and> j \<noteq> 2"

definition yields ::
    "string \<Rightarrow> string \<Rightarrow> u32 \<Rightarrow> string \<Rightarrow> string \<Rightarrow> u32 \<Rightarrow> (OS_RETURN_E \<times> int_state) outcome \<Rightarrow>
     OS_RETURN_E \<Rightarrow> timer_view \<Rightarrow> timer_view \<Rightarrow> bool" where
  "yields x f irq y k j res e v u \<longleftrightarrow>
     (\<exists>s'. res = Ok (e, s') \<and> bus_ready s' \<and> timer_at x f irq s' = v \<and> timer_at y k j s' = u)"

lemma stat_simps [simp]:
  "stat x (set_stat y v s) = (if x = y then v else stat x s)"
  "interrupt_driver (set_stat x v s) = interrupt_driver s"
  "kernel_interrupt_handlers (set_stat x v s) = kernel_interrupt_handlers s"
  "reads p (int_world (set_stat x v s)) = reads p (int_world s)"
  "pic_ready (int_world (set_stat x v s)) = pic_ready (int_world s)"
  by (simp_all add: stat_def set_stat_def set_static_def reads_def pic_ready_def latch_def cong: option.case_cong)

lemma on_pic_stat [simp]:
  "on_pic (set_stat x v s) = on_pic s" "irq_open irq (set_stat x v s) = irq_open irq s"
  "handlers_ok (set_stat x v s) = handlers_ok s" "handler_at (set_stat x v s) = handler_at s"
  by (simp_all add: on_pic_def irq_open_def irq_masked_def handlers_ok_def handler_at_def fun_eq_iff)

lemma handlers_cong:
  "kernel_interrupt_handlers s = kernel_interrupt_handlers t \<Longrightarrow> handlers_ok s = handlers_ok t"
  "kernel_interrupt_handlers s = kernel_interrupt_handlers t \<Longrightarrow> handler_at s = handler_at t"
  by (simp_all add: handlers_ok_def handler_at_def fun_eq_iff)

lemma mask_view:
  assumes s: "bus_ready s" and ap: "apart x f irq y k j"
  obtains s' where "kernel_interrupt_set_irq_mask irq en s = Ok (OS_NO_ERR, s')" "bus_ready s'"
    "timer_at x f irq s' = (timer_at x f irq s)\<lparr>opened := (en \<noteq> 0)\<rparr>" "timer_at y k j s' = timer_at y k j s"
proof -
  have pre: "on_pic s" "irq \<le> 15" and ne: "(j < 8) \<noteq> (irq < 8)" "j \<noteq> 2" "irq \<noteq> 2"
    using s ap unfolding bus_ready_def apart_def by blast+
  show thesis
  proof (rule pic_mask_line [OF pre, of en])
    fix s' assume t: "kernel_interrupt_set_irq_mask irq en s = Ok (OS_NO_ERR, s')" "on_pic s'"
      "statics (int_world s') = statics (int_world s)" "kernel_interrupt_handlers s' = kernel_interrupt_handlers s"
      "irq_open irq s' \<longleftrightarrow> en \<noteq> 0"
      "\<And>j. (j < 8) \<noteq> (irq < 8) \<Longrightarrow> j \<noteq> 2 \<Longrightarrow> irq \<noteq> 2 \<Longrightarrow> irq_open j s' = irq_open j s"
    show thesis using that [OF t(1)] s t(2,3,5) t(6) [OF ne] handlers_cong [OF t(4)]
      by (simp add: bus_ready_def timer_at_def stat_def)
  qed
qed

lemma gate_enable_view:
  assumes s: "bus_ready s" and ap: "apart x f irq y k j"
  shows "yields x f irq y k j (gate_enable x irq s) OS_NO_ERR (spec_enable (timer_at x f irq s)) (timer_at y k j s)"
proof -
  let ?n = "stat x s"
  let ?m = "if ?n > 0 then ?n - 1 else ?n"
  let ?s = "set_stat x ?m s"
  have m: "unat ?m = unat ?n - 1" by (simp add: unat_sub_if' word_less_nat_alt unat_gt_0 Suc_le_eq)
  have zero: "?m = 0 \<longleftrightarrow> unat ?n \<le> 1" using unat_eq_0 [of ?m] unfolding m by linarith
  have view: "timer_at x f irq ?s = (timer_at x f irq s)\<lparr>level := unat ?n - 1\<rparr>" "timer_at y k j ?s = timer_at y k j s"
    using ap m by (auto simp: timer_at_def apart_def simp del: distinct.simps) (auto simp: apart_def)
  have bs: "bus_ready ?s" using s by (simp add: bus_ready_def)
  obtain t where t: "kernel_interrupt_set_irq_mask irq 1 ?s = Ok (OS_NO_ERR, t)" "bus_ready t"
    "timer_at x f irq t = (timer_at x f irq ?s)\<lparr>opened := True\<rparr>" "timer_at y k j t = timer_at y k j ?s"
    using mask_view [OF bs ap, of 1] by auto
  have eq: "gate_enable x irq s = (if ?m = 0 then Ok (OS_NO_ERR, t) else Ok (OS_NO_ERR, ?s))"
    unfolding gate_enable_def Let_def t(1) ..
  have l: "level (timer_at x f irq s) = unat ?n" by (simp add: timer_at_def)
  show ?thesis
  proof (cases "?m = 0")
    case True
    then show ?thesis using eq t zero unfolding yields_def
      by (intro exI [of _ t]) (simp add: view spec_enable_def l)
  next
    case False
    then show ?thesis using eq bs zero unfolding yields_def
      by (intro exI [of _ ?s]) (simp add: view spec_enable_def l)
  qed
qed

lemma gate_disable_view:
  assumes s: "bus_ready s" and ap: "apart x f irq y k j"
  shows "yields x f irq y k j (gate_disable x irq s) OS_NO_ERR (spec_disable (timer_at x f irq s)) (timer_at y k j s)"
proof -
  let ?n = "stat x s"
  let ?m = "if ?n < 0xFFFFFFFF then ?n + 1 else ?n"
  let ?s = "set_stat x ?m s"
  have m: "unat ?m = min (Suc (unat ?n)) (2 ^ 32 - 1)"
    using unsigned_less [of ?n, where 'a = nat] by (auto simp: word_less_nat_alt unat_word_ariths min_def)
  have view: "timer_at x f irq ?s = (timer_at x f irq s)\<lparr>level := min (Suc (unat ?n)) (2 ^ 32 - 1)\<rparr>"
    "timer_at y k j ?s = timer_at y k j s"
    unfolding m [symmetric] using ap by (auto simp: timer_at_def apart_def)
  have bs: "bus_ready ?s" using s by (simp add: bus_ready_def)
  obtain t where t: "kernel_interrupt_set_irq_mask irq 0 ?s = Ok (OS_NO_ERR, t)" "bus_ready t"
    "timer_at x f irq t = (timer_at x f irq ?s)\<lparr>opened := False\<rparr>" "timer_at y k j t = timer_at y k j ?s"
    using mask_view [OF bs ap, of 0] by auto
  have "gate_disable x irq s = Ok (OS_NO_ERR, t)" unfolding gate_disable_def Let_def t(1) ..
  then show ?thesis using t(2-4) unfolding yields_def view
    by (intro exI [of _ t]) (simp add: spec_disable_def timer_at_def)
qed


text \<open>A step that the interrupt controllers do not see, and what the drivers do between disabling and enabling
  their timer.\<close>

definition undisturbed :: "world \<Rightarrow> world \<Rightarrow> bool" where
  "undisturbed w w' \<longleftrightarrow> statics w' = statics w \<and>
     (pic_ready w \<longrightarrow> pic_ready w' \<and> (\<forall>p \<in> pic_data_ports. reads p w' = reads p w))"

lemma undisturbed_trans: "undisturbed w w' \<Longrightarrow> undisturbed w' w'' \<Longrightarrow> undisturbed w w''"
  by (auto simp: undisturbed_def)

lemma undisturbed_io:
  assumes "p \<in> pic_quiet_ports" "p \<notin> pic_data_ports"
  shows "undisturbed w (cpu_outb v p w)" "undisturbed w (snd (cpu_inb p w))"
proof -
  have "reads q (cpu_outb v p w) = reads q w" "reads q (snd (cpu_inb p w)) = reads q w"
    if "pic_ready w" "q \<in> pic_data_ports" for q
    using pic_ready_steps(3,4) [OF that assms(1)] assms(2) that(2) by auto
  then show "undisturbed w (cpu_outb v p w)" "undisturbed w (snd (cpu_inb p w))"
    using pic_ready_steps(1,2) [OF _ assms(1)]
    by (simp_all add: undisturbed_def cpu_inb_def) (simp add: cpu_outb_def)
qed

lemma undisturbed_view:
  assumes "undisturbed (int_world s) w" "bus_ready s"
  shows "bus_ready (s\<lparr>int_world := w\<rparr>)" "timer_at x f irq (s\<lparr>int_world := w\<rparr>) = timer_at x f irq s"
  using assms handlers_cong [of "s\<lparr>int_world := w\<rparr>" s] pic_ports(1,2)
  by (simp_all add: undisturbed_def bus_ready_def on_pic_def timer_at_def stat_def irq_open_def irq_masked_def)

lemma set_freq_view:
  "bus_ready s \<Longrightarrow> apart x f irq y k j \<Longrightarrow>
     bus_ready (set_stat f v s) \<and> timer_at x f irq (set_stat f v s) = (timer_at x f irq s)\<lparr>tfreq := v\<rparr> \<and>
     timer_at y k j (set_stat f v s) = timer_at y k j s"
  by (auto simp: bus_ready_def timer_at_def apart_def)

lemma pulse_view:
  assumes s: "bus_ready s" and ap: "apart x f irq y k j"
    and mid: "\<And>t. bus_ready t \<Longrightarrow> bus_ready (m t) \<and>
      timer_at x f irq (m t) = (timer_at x f irq t)\<lparr>tfreq := v\<rparr> \<and> timer_at y k j (m t) = timer_at y k j t"
  shows "yields x f irq y k j (on_ok (gate_disable x irq s) (\<lambda>t. gate_enable x irq (m t))) OS_NO_ERR
    ((spec_pulse (timer_at x f irq s))\<lparr>tfreq := v\<rparr>) (timer_at y k j s)"
proof -
  obtain t where t: "gate_disable x irq s = Ok (OS_NO_ERR, t)" "bus_ready t"
    "timer_at x f irq t = spec_disable (timer_at x f irq s)" "timer_at y k j t = timer_at y k j s"
    using gate_disable_view [OF s ap] unfolding yields_def by (elim exE conjE)
  note m = mid [OF t(2)]
  have "spec_enable ((spec_disable u)\<lparr>tfreq := v\<rparr>) = (spec_pulse u)\<lparr>tfreq := v\<rparr>" for u
    by (simp add: spec_enable_def spec_disable_def spec_pulse_def)
  then show ?thesis using gate_enable_view [OF m [THEN conjunct1] ap] m t by simp
qed

text \<open>The accesses to some ports, newest first; masking an interrupt makes none on ports of other devices.\<close>

definition port_trace :: "u16 set \<Rightarrow> int_state \<Rightarrow> io_event list" where
  "port_trace P s = filter (\<lambda>e. event_port e \<in> P) (history (int_world s))"

lemma port_trace_stat [simp]: "port_trace P (set_stat x v s) = port_trace P s"
  by (simp add: port_trace_def set_stat_def set_static_def)

lemma pic_mask_port_trace:
  assumes "on_pic s" "pic_data_ports \<inter> P = {}" "kernel_interrupt_set_irq_mask irq en s = Ok (e, s')"
  shows "port_trace P s' = port_trace P s"
proof -
  have n: "PIC_MASTER_DATA_PORT \<notin> P" "PIC_SLAVE_DATA_PORT \<notin> P" using assms(2) pic_ports by blast+
  have "s' = s\<lparr>int_world := snd (pic_set_irq_mask irq en (int_world s))\<rparr>"
    using assms(1,3) by (auto simp: on_pic_def kernel_interrupt_set_irq_mask_def pic_driver_def case_prod_beta)
  then show ?thesis using n
    by (simp add: port_trace_def pic_set_irq_mask_def Let_def case_prod_beta cpu_inb_eq)
qed

lemma gate_port_trace:
  assumes "on_pic s" "pic_data_ports \<inter> P = {}"
  shows "gate_enable x irq s = Ok (e, s') \<Longrightarrow> port_trace P s' = port_trace P s"
    and "gate_disable x irq s = Ok (e, s') \<Longrightarrow> port_trace P s' = port_trace P s"
proof -
  have "kernel_interrupt_set_irq_mask irq en (set_stat x v s) = Ok (e, s') \<Longrightarrow> port_trace P s' = port_trace P s" for en v
    using pic_mask_port_trace [of "set_stat x v s" P irq en e s'] assms by simp
  then show "gate_enable x irq s = Ok (e, s') \<Longrightarrow> port_trace P s' = port_trace P s"
    "gate_disable x irq s = Ok (e, s') \<Longrightarrow> port_trace P s' = port_trace P s"
    by (auto simp: gate_enable_def gate_disable_def Let_def split: if_splits)
qed

lemma irq_line:
  "irq \<le> 15 \<Longrightarrow> pic_get_irq_int_line irq = irq + 0x30" "irq \<le> 15 \<Longrightarrow> valid_interrupt (irq + 0x30)"
  "irq \<le> 15 \<Longrightarrow> \<not> sint (irq + 0x30) < 0" for irq :: u32
proof -
  assume le: "irq \<le> 15"
  then have u: "unat irq \<le> 15" by (simp add: word_le_nat_alt)
  then have a: "unat (irq + 0x30) = unat irq + 0x30" by (simp add: unat_word_ariths)
  show "pic_get_irq_int_line irq = irq + 0x30" using leD [OF le] by (simp add: pic_get_irq_int_line_def pic_consts)
  show "valid_interrupt (irq + 0x30)" using u a by (simp add: valid_interrupt_def int_line_defs word_le_nat_alt)
  show "\<not> sint (irq + 0x30) < 0" using u a uint_ge_0 [of irq] by (simp add: sint_small not_less)
qed

lemma register_view:
  assumes s: "bus_ready s" and ap: "apart x f irq y k j" and h: "h \<noteq> NULL" and free: "thandler (timer_at x f irq s) = None"
  shows "yields x f irq y k j (kernel_interrupt_register_irq_handler irq h s) OS_NO_ERR
    ((timer_at x f irq s)\<lparr>thandler := Some h\<rparr>) (timer_at y k j s)"
proof -
  have i: "irq \<le> 15" "j \<le> 15" "j \<noteq> irq" using ap by (auto simp: apart_def)
  have d: "driver_get_irq_int_line (interrupt_driver s) = Some pic_get_irq_int_line" and ok: "handlers_ok s"
    using s by (simp_all add: bus_ready_def on_pic_def pic_driver_def)
  let ?l = "irq + 0x30"
  note line = irq_line [OF i(1)]
  have "handler_at s ?l = None" using free line by (simp add: timer_at_def)
  from ints.register_free [OF ok line(2) h this] obtain s' where s':
    "kernel_interrupt_register_int_handler ?l h s = (OS_NO_ERR, s')" "handlers_ok s'" "handler_at s' = (handler_at s)(?l \<mapsto> h)"
    by blast
  have fr: "interrupt_driver s' = interrupt_driver s" "int_world s' = int_world s"
    using perform_frame [of "Register ?l h" s] s'(1) by simp_all
  have "kernel_interrupt_register_irq_handler irq h s = Ok (OS_NO_ERR, s')"
    using d line s'(1) by (simp add: kernel_interrupt_register_irq_handler_def Let_def)
  then show ?thesis unfolding yields_def using s s'(2,3) fr line irq_line(1) [OF i(2)] i(3)
    by (intro exI [of _ s']) (simp add: bus_ready_def on_pic_def timer_at_def stat_def irq_open_def)
qed

lemma handler_change:
  assumes s: "bus_ready s" and ap: "apart x f irq y k j"
  shows "thandler (timer_at x f irq s) = None \<Longrightarrow>
      kernel_interrupt_remove_irq_handler irq s = Ok (OS_ERR_INTERRUPT_NOT_REGISTERED, s)"
    and "thandler (timer_at x f irq s) \<noteq> None \<Longrightarrow> h \<noteq> NULL \<Longrightarrow>
      \<exists>s1 s2. kernel_interrupt_remove_irq_handler irq s = Ok (OS_NO_ERR, s1) \<and>
        kernel_interrupt_register_irq_handler irq h s1 = Ok (OS_NO_ERR, s2) \<and> bus_ready s2 \<and>
        timer_at x f irq s2 = (timer_at x f irq s)\<lparr>thandler := Some h\<rparr> \<and> timer_at y k j s2 = timer_at y k j s"
proof -
  have i: "irq \<le> 15" "j \<le> 15" "j \<noteq> irq" using ap by (auto simp: apart_def)
  have d: "driver_get_irq_int_line (interrupt_driver s) = Some pic_get_irq_int_line" and h: "handlers_ok s"
    using s by (simp_all add: bus_ready_def on_pic_def pic_driver_def)
  let ?l = "irq + 0x30"
  note line = irq_line [OF i(1)]
  show "kernel_interrupt_remove_irq_handler irq s = Ok (OS_ERR_INTERRUPT_NOT_REGISTERED, s)"
    if "thandler (timer_at x f irq s) = None"
    using that ints.remove_free [OF h line(2)] line d
    by (simp add: timer_at_def kernel_interrupt_remove_irq_handler_def Let_def)
  show "\<exists>s1 s2. kernel_interrupt_remove_irq_handler irq s = Ok (OS_NO_ERR, s1) \<and>
        kernel_interrupt_register_irq_handler irq h s1 = Ok (OS_NO_ERR, s2) \<and> bus_ready s2 \<and>
        timer_at x f irq s2 = (timer_at x f irq s)\<lparr>thandler := Some h\<rparr> \<and> timer_at y k j s2 = timer_at y k j s"
    if "thandler (timer_at x f irq s) \<noteq> None" "h \<noteq> NULL"
  proof -
    have "handler_at s ?l \<noteq> None" using that(1) line by (simp add: timer_at_def)
    from ints.remove_taken [OF h line(2) this] obtain s1 where s1:
      "kernel_interrupt_remove_int_handler ?l s = (OS_NO_ERR, s1)" "handlers_ok s1" "handler_at s1 = (handler_at s)(?l := None)"
      by blast
    have fr: "interrupt_driver s1 = interrupt_driver s" "int_world s1 = int_world s"
      using perform_frame [of "Remove ?l" s] s1(1) by simp_all
    have rem: "kernel_interrupt_remove_irq_handler irq s = Ok (OS_NO_ERR, s1)"
      using d line s1(1) by (simp add: kernel_interrupt_remove_irq_handler_def Let_def)
    have v: "bus_ready s1" "timer_at x f irq s1 = (timer_at x f irq s)\<lparr>thandler := None\<rparr>" "timer_at y k j s1 = timer_at y k j s"
      using s s1(2,3) fr line irq_line(1) [OF i(2)] i(3)
      by (simp_all add: bus_ready_def on_pic_def timer_at_def stat_def irq_open_def)
    then have "thandler (timer_at x f irq s1) = None" by simp
    from register_view [OF v(1) ap that(2) this] show ?thesis using rem v(2,3) by (auto simp: yields_def)
  qed
qed

lemma timers_apart:
  "apart pit_nesting pit_freq PIT_IRQ_LINE rtc_nesting rtc_freq RTC_IRQ_LINE"
  "apart rtc_nesting rtc_freq RTC_IRQ_LINE pit_nesting pit_freq PIT_IRQ_LINE"
  by (simp_all add: apart_def pit_nesting_def pit_freq_def rtc_nesting_def rtc_freq_def PIT_IRQ_LINE_def RTC_IRQ_LINE_def)

text \<open>The two views the drivers act on.\<close>

definition pit_view :: "int_state \<Rightarrow> timer_view" where
  "pit_view = timer_at pit_nesting pit_freq PIT_IRQ_LINE"

definition rtc_view :: "int_state \<Rightarrow> timer_view" where
  "rtc_view = timer_at rtc_nesting rtc_freq RTC_IRQ_LINE"


text \<open>The handler change of both drivers; they differ in what they do when the new handler is refused, \<open>refused\<close>,
  which does not happen since the old one was just removed.\<close>

lemma handler_view:
  assumes s: "bus_ready s" and ap: "apart x f irq y k j" and h: "h \<noteq> NULL"
  shows "yields x f irq y k j
    (on_ok (gate_disable x irq s) (\<lambda>s.
       andthen (kernel_interrupt_remove_irq_handler irq s) (\<lambda>(err, s).
         if err \<noteq> OS_NO_ERR then andthen (gate_enable x irq s) (\<lambda>(_, s). Ok (err, s))
         else andthen (kernel_interrupt_register_irq_handler irq h s) (\<lambda>(err, s).
           if err \<noteq> OS_NO_ERR then refused err s else gate_enable x irq s))))
    (fst (spec_handler h (timer_at x f irq s))) (snd (spec_handler h (timer_at x f irq s))) (timer_at y k j s)"
    (is "yields x f irq y k j ?op _ _ _")
proof -
  let ?v = "timer_at x f irq s"
  obtain t where t: "gate_disable x irq s = Ok (OS_NO_ERR, t)" "bus_ready t"
    "timer_at x f irq t = spec_disable ?v" "timer_at y k j t = timer_at y k j s"
    using gate_disable_view [OF s ap] unfolding yields_def by (elim exE conjE)
  have same: "thandler (timer_at x f irq t) = thandler ?v" by (simp add: t(3) spec_disable_def)
  show ?thesis
  proof (cases "thandler ?v = None")
    case True
    obtain s' where s': "gate_enable x irq t = Ok (OS_NO_ERR, s')" "bus_ready s'"
      "timer_at x f irq s' = spec_enable (timer_at x f irq t)" "timer_at y k j s' = timer_at y k j t"
      using gate_enable_view [OF t(2) ap] unfolding yields_def by (elim exE conjE)
    have "?op = Ok (OS_ERR_INTERRUPT_NOT_REGISTERED, s')"
      using t(1) handler_change(1) [OF t(2) ap] same True s'(1) by simp
    then show ?thesis using True h s'(2-4) t(3,4) by (simp add: yields_def spec_handler_def spec_pulse_def)
  next
    case False
    then obtain s1 s2 where c: "kernel_interrupt_remove_irq_handler irq t = Ok (OS_NO_ERR, s1)"
      "kernel_interrupt_register_irq_handler irq h s1 = Ok (OS_NO_ERR, s2)" "bus_ready s2"
      "timer_at x f irq s2 = (timer_at x f irq t)\<lparr>thandler := Some h\<rparr>" "timer_at y k j s2 = timer_at y k j t"
      using handler_change(2) [OF t(2) ap _ h] same by auto
    have "?op = gate_enable x irq s2" using t(1) c(1,2) by simp
    moreover have "spec_enable ((spec_disable ?v)\<lparr>thandler := Some h\<rparr>) = (spec_pulse ?v)\<lparr>thandler := Some h\<rparr>"
      by (simp add: spec_enable_def spec_disable_def spec_pulse_def)
    moreover have "spec_handler h ?v = (OS_NO_ERR, (spec_pulse ?v)\<lparr>thandler := Some h\<rparr>)"
      using False h by (auto simp: spec_handler_def)
    ultimately show ?thesis using gate_enable_view [OF c(3) ap] by (simp add: c(4,5) t(3,4))
  qed
qed

text \<open>An example: every line masked, no handler registered, both timers disabled once.\<close>

definition timers_example :: int_state where
  "timers_example = blank_ints\<lparr>interrupt_driver := pic_driver, int_world := set_static pit_nesting 1 (set_static rtc_nesting 1 pic_example)\<rparr>"

lemma timers_example_ok:
  "bus_ready timers_example"
  "pit_view timers_example = \<lparr>level = 1, opened = False, tfreq = 0, thandler = None\<rparr>"
  "rtc_view timers_example = \<lparr>level = 1, opened = False, tfreq = 0, thandler = None\<rparr>"
proof -
  have w: "pic_ready (int_world timers_example)" "reads p (int_world timers_example) = 0xFF" for p
    using pic_example_ready
    by (simp_all add: timers_example_def set_static_def pic_ready_def latch_def reads_def pic_example_def cong: option.case_cong)
  show "bus_ready timers_example" using w(1)
    by (simp add: bus_ready_def on_pic_def handlers_ok_def) (simp add: timers_example_def blank_ints_def)
  have h: "handler_at timers_example l = None" for l by (simp add: handler_at_None timers_example_def blank_ints_def)
  have v: "stat pit_nesting timers_example = 1" "stat rtc_nesting timers_example = 1"
    "stat pit_freq timers_example = 0" "stat rtc_freq timers_example = 0"
    by (simp_all add: stat_def timers_example_def set_static_def pic_example_def
        pit_nesting_def pit_freq_def rtc_nesting_def rtc_freq_def)
  have b: "bit (0xFF :: u8) 0" by simp
  show "pit_view timers_example = \<lparr>level = 1, opened = False, tfreq = 0, thandler = None\<rparr>"
    "rtc_view timers_example = \<lparr>level = 1, opened = False, tfreq = 0, thandler = None\<rparr>"
    using w(2) v h b by (simp_all add: pit_view_def rtc_view_def timer_at_def irq_open_def irq_masked_def PIT_IRQ_LINE_def RTC_IRQ_LINE_def)
qed

end
