(* ===== verification/Pit.thy ===== *)
theory Pit
  imports TimerDriver
begin

unbundle bit_operations_syntax

text \<open>
  The programmable interval timer, \<^verbatim>\<open>Sources/arch/x86/pit.c\<close>, a driver of theory \<open>Time\<close>. The address
  of its dummy handler is an argument. The self test is not modelled.
\<close>

section \<open>Operations\<close>

definition PIT_COMM_PORT :: u16 where "PIT_COMM_PORT = 0x34"
definition PIT_DATA_PORT :: u16 where "PIT_DATA_PORT = 0x40"
definition PIT_COMM_SET_FREQ :: u8 where "PIT_COMM_SET_FREQ = 0x43"
definition PIT_QUARTZ_FREQ :: u32 where "PIT_QUARTZ_FREQ = 0x1234DD"
definition PIT_INIT_FREQ :: u32 where "PIT_INIT_FREQ = 100"
definition PIT_MIN_FREQ :: u32 where "PIT_MIN_FREQ = 20"
definition PIT_MAX_FREQ :: u32 where "PIT_MAX_FREQ = 8000"

definition pit_dummy_handler :: "int_state \<Rightarrow> int_state outcome" where
  "pit_dummy_handler s = andthen (kernel_interrupt_set_irq_eoi PIT_IRQ_LINE s) (\<lambda>(_, s). Ok s)"

definition pit_enable :: "int_state \<Rightarrow> (OS_RETURN_E \<times> int_state) outcome" where
  "pit_enable = gate_enable pit_nesting PIT_IRQ_LINE"

definition pit_disable :: "int_state \<Rightarrow> (OS_RETURN_E \<times> int_state) outcome" where
  "pit_disable = gate_disable pit_nesting PIT_IRQ_LINE"

text \<open>The divider is written low byte first.\<close>

definition pit_divider :: "u32 \<Rightarrow> u16" where
  "pit_divider freq = ucast (PIT_QUARTZ_FREQ div freq)"

definition pit_program :: "u32 \<Rightarrow> world \<Rightarrow> world" where
  "pit_program freq w =
     (let d = pit_divider freq;
          w = cpu_outb PIT_COMM_SET_FREQ PIT_COMM_PORT w;
          w = cpu_outb (ucast (d AND 0x00FF)) PIT_DATA_PORT w
      in cpu_outb (ucast (drop_bit 8 d)) PIT_DATA_PORT w)"

definition pit_set_frequency :: "u32 \<Rightarrow> int_state \<Rightarrow> (OS_RETURN_E \<times> int_state) outcome" where
  "pit_set_frequency freq s =
     (if freq < PIT_MIN_FREQ \<or> freq > PIT_MAX_FREQ then Ok (OS_ERR_OUT_OF_BOUND, s)
      else on_ok (pit_disable s) (\<lambda>s.
           let s = set_stat pit_freq freq s
           in pit_enable (s\<lparr>int_world := pit_program freq (int_world s)\<rparr>)))"

definition pit_get_frequency :: "int_state \<Rightarrow> u32" where
  "pit_get_frequency s = stat pit_freq s"

text \<open>On an error after the timer was disabled it is enabled again, and the error returned.\<close>

definition pit_set_handler :: "ptr \<Rightarrow> int_state \<Rightarrow> (OS_RETURN_E \<times> int_state) outcome" where
  "pit_set_handler h s =
     (if h = NULL then Ok (OS_ERR_NULL_POINTER, s)
      else on_ok (pit_disable s) (\<lambda>s.
           andthen (kernel_interrupt_remove_irq_handler PIT_IRQ_LINE s) (\<lambda>(err, s).
           if err \<noteq> OS_NO_ERR then andthen (pit_enable s) (\<lambda>(_, s). Ok (err, s))
           else andthen (kernel_interrupt_register_irq_handler PIT_IRQ_LINE h s) (\<lambda>(err, s).
                if err \<noteq> OS_NO_ERR then andthen (pit_enable s) (\<lambda>(_, s). Ok (err, s))
                else pit_enable s))))"

definition pit_remove_handler :: "ptr \<Rightarrow> int_state \<Rightarrow> (OS_RETURN_E \<times> int_state) outcome" where
  "pit_remove_handler dummy_handler s = pit_set_handler dummy_handler s"

definition pit_get_irq :: "int_state \<Rightarrow> u32" where
  "pit_get_irq s = PIT_IRQ_LINE"

definition pit_init :: "ptr \<Rightarrow> int_state \<Rightarrow> (OS_RETURN_E \<times> int_state) outcome" where
  "pit_init dummy_handler s =
     on_ok (pit_set_frequency PIT_INIT_FREQ (set_stat pit_nesting 1 s)) (\<lambda>s.
     on_ok (kernel_interrupt_register_irq_handler PIT_IRQ_LINE dummy_handler s) pit_enable)"

definition pit_driver :: "ptr \<Rightarrow> kernel_timer_t" where
  "pit_driver dummy_handler =
     \<lparr>get_frequency = Some pit_get_frequency, set_frequency = Some pit_set_frequency,
      timer_enable = Some pit_enable, timer_disable = Some pit_disable,
      timer_set_handler = Some pit_set_handler, timer_remove_handler = Some (pit_remove_handler dummy_handler),
      get_irq = Some pit_get_irq\<rparr>"

section \<open>The driver refines the specification\<close>

definition pit_limits :: timer_limits where
  "pit_limits = \<lparr>lowest = PIT_MIN_FREQ, highest = PIT_MAX_FREQ, effective = (\<lambda>f. f)\<rparr>"

lemma pit_ports: "p \<in> {PIT_COMM_PORT, PIT_DATA_PORT} \<Longrightarrow> p \<in> pic_quiet_ports \<and> p \<notin> pic_data_ports"
  by (auto simp: PIT_COMM_PORT_def PIT_DATA_PORT_def pic_quiet_ports_def pic_data_ports_def pic_consts)

lemma pit_program_undisturbed: "undisturbed w (pit_program freq w)"
proof -
  have p: "undisturbed w (cpu_outb v p w)" if "p \<in> {PIT_COMM_PORT, PIT_DATA_PORT}" for v p w
    using undisturbed_io(1) pit_ports [OF that] by blast
  show ?thesis unfolding pit_program_def Let_def
    by (intro undisturbed_trans [OF undisturbed_trans [OF p p] p]) simp_all
qed

lemmas pit_apart = timers_apart(1)

lemma pit_set_frequency_view:
  assumes "bus_ready s"
  shows "yields pit_nesting pit_freq PIT_IRQ_LINE rtc_nesting rtc_freq RTC_IRQ_LINE (pit_set_frequency f s)
    (fst (timer_spec pit_limits d (SetFrequency f) (pit_view s))) (snd (timer_spec pit_limits d (SetFrequency f) (pit_view s)))
    (rtc_view s)"
proof (cases "f < PIT_MIN_FREQ \<or> f > PIT_MAX_FREQ")
  case True
  then show ?thesis using assms by (simp add: pit_set_frequency_def yields_def pit_limits_def pit_view_def rtc_view_def)
next
  case False
  have "yields pit_nesting pit_freq PIT_IRQ_LINE rtc_nesting rtc_freq RTC_IRQ_LINE
      (on_ok (gate_disable pit_nesting PIT_IRQ_LINE s) (\<lambda>s. gate_enable pit_nesting PIT_IRQ_LINE
         (set_stat pit_freq f s\<lparr>int_world := pit_program f (int_world (set_stat pit_freq f s))\<rparr>)))
      OS_NO_ERR ((spec_pulse (pit_view s))\<lparr>tfreq := f\<rparr>) (rtc_view s)"
    unfolding pit_view_def rtc_view_def
    by (rule pulse_view [OF assms pit_apart])
      (simp add: set_freq_view [OF _ pit_apart] undisturbed_view [OF pit_program_undisturbed])
  then show ?thesis using False by (simp add: pit_set_frequency_def pit_disable_def pit_enable_def Let_def pit_limits_def)
qed

lemma pit_set_handler_view:
  assumes "bus_ready s"
  shows "yields pit_nesting pit_freq PIT_IRQ_LINE rtc_nesting rtc_freq RTC_IRQ_LINE (pit_set_handler h s)
    (fst (spec_handler h (pit_view s))) (snd (spec_handler h (pit_view s))) (rtc_view s)"
proof (cases "h = NULL")
  case True
  then show ?thesis using assms by (simp add: pit_set_handler_def spec_handler_def yields_def pit_view_def rtc_view_def)
next
  case False
  show ?thesis
    using handler_view [OF assms pit_apart False, of "\<lambda>err s. andthen (pit_enable s) (\<lambda>(_, s). Ok (err, s))"]
    unfolding pit_set_handler_def pit_enable_def pit_disable_def pit_view_def rtc_view_def if_not_P [OF False] .
qed

lemma pit_serve_view:
  assumes "bus_ready s"
  shows "yields pit_nesting pit_freq PIT_IRQ_LINE rtc_nesting rtc_freq RTC_IRQ_LINE (serve (pit_driver d) r s)
    (fst (timer_spec pit_limits d r (pit_view s))) (snd (timer_spec pit_limits d r (pit_view s))) (rtc_view s)"
  using gate_enable_view [OF assms pit_apart] gate_disable_view [OF assms pit_apart]
    pit_set_frequency_view [OF assms, of _ d] pit_set_handler_view [OF assms]
  by (cases r) (simp_all add: serve_def pit_driver_def pit_enable_def pit_disable_def pit_remove_handler_def
      pit_view_def rtc_view_def del: timer_spec.simps(3))

interpretation pit: timer_driver "pit_driver d" pit_limits d bus_ready pit_view rtc_view
proof unfold_locales
  fix s g r
  show "timer_has_all (pit_driver d)" by (simp add: timer_has_all_def pit_driver_def)
  show "g s = tfreq (pit_view s)" if "get_frequency (pit_driver d) = Some g"
    using that by (auto simp: pit_driver_def pit_get_frequency_def pit_view_def timer_at_def)
  assume "bus_ready s"
  from pit_serve_view [OF this, of d r]
  show "\<exists>s'. serve (pit_driver d) r s = Ok (fst (timer_spec pit_limits d r (pit_view s)), s') \<and> bus_ready s' \<and>
      pit_view s' = snd (timer_spec pit_limits d r (pit_view s)) \<and> rtc_view s' = rtc_view s"
    by (simp only: yields_def pit_view_def rtc_view_def)
qed


lemma pit_init_view:
  assumes "bus_ready s" "thandler (pit_view s) = None" "d \<noteq> NULL"
  obtains s' where "pit_init d s = Ok (OS_NO_ERR, s')" "bus_ready s'" "rtc_view s' = rtc_view s"
    "pit_view s' = \<lparr>level = 0, opened = True, tfreq = PIT_INIT_FREQ, thandler = Some d\<rparr>"
proof -
  let ?s = "set_stat pit_nesting 1 s"
  have v0: "bus_ready ?s" "pit_view ?s = (pit_view s)\<lparr>level := 1\<rparr>" "rtc_view ?s = rtc_view s"
    using assms(1) pit_apart by (auto simp: bus_ready_def pit_view_def rtc_view_def timer_at_def apart_def)
  from pit_set_frequency_view [OF v0(1), of PIT_INIT_FREQ d] v0 obtain s1 where s1:
    "pit_set_frequency PIT_INIT_FREQ ?s = Ok (OS_NO_ERR, s1)" "bus_ready s1"
    "pit_view s1 = (spec_pulse ((pit_view s)\<lparr>level := 1\<rparr>))\<lparr>tfreq := PIT_INIT_FREQ\<rparr>" "rtc_view s1 = rtc_view s"
    by (auto simp: yields_def pit_limits_def PIT_INIT_FREQ_def PIT_MIN_FREQ_def PIT_MAX_FREQ_def pit_view_def rtc_view_def)
  have "thandler (pit_view s1) = None" using assms(2) by (simp add: s1(3))
  from register_view [OF s1(2) pit_apart assms(3) this [unfolded pit_view_def]] obtain s2 where s2:
    "kernel_interrupt_register_irq_handler PIT_IRQ_LINE d s1 = Ok (OS_NO_ERR, s2)" "bus_ready s2"
    "pit_view s2 = (pit_view s1)\<lparr>thandler := Some d\<rparr>" "rtc_view s2 = rtc_view s1"
    unfolding yields_def pit_view_def rtc_view_def by (elim exE conjE)
  have "level (pit_view s2) \<le> 1" by (simp add: s2(3) s1(3))
  from pit.enable_opens [OF s2(2) this, of d] obtain s' where s': "pit_enable s2 = Ok (OS_NO_ERR, s')" "bus_ready s'"
    "rtc_view s' = rtc_view s2" "pit_view s' = (pit_view s2)\<lparr>level := 0, opened := True\<rparr>"
    by (auto simp: pit_driver_def)
  show thesis
  proof (rule that)
    show "pit_init d s = Ok (OS_NO_ERR, s')" using s1(1) s2(1) s'(1) by (simp add: pit_init_def)
    show "pit_view s' = \<lparr>level = 0, opened = True, tfreq = PIT_INIT_FREQ, thandler = Some d\<rparr>"
      by (simp add: s'(4) s2(3) s1(3))
  qed (use s'(2,3) s1(4) s2(4) in simp_all)
qed

section \<open>The divider on the ports\<close>

definition pit_trace :: "int_state \<Rightarrow> io_event list" where
  "pit_trace = port_trace {PIT_COMM_PORT, PIT_DATA_PORT}"

lemma gate_pit_trace:
  "on_pic s \<Longrightarrow> gate_enable x irq s = Ok (e, s') \<Longrightarrow> pit_trace s' = pit_trace s"
  "on_pic s \<Longrightarrow> gate_disable x irq s = Ok (e, s') \<Longrightarrow> pit_trace s' = pit_trace s"
  unfolding pit_trace_def using gate_port_trace [of _ "{PIT_COMM_PORT, PIT_DATA_PORT}"] pit_ports by auto

lemma pit_divider_exact:
  assumes "20 \<le> f" "f \<le> 8000"
  shows "unat (pit_divider f) = 1193181 div unat f" "unat f * unat (pit_divider f) \<le> 1193181"
    "1193181 < unat f * (unat (pit_divider f) + 1)"
proof -
  have f: "20 \<le> unat f" using assms by (simp add: word_le_nat_alt)
  have "(1193181 :: nat) div unat f \<le> 1193181 div 20" using f by (intro div_le_mono2) simp_all
  then have "(1193181 :: nat) div unat f < 2 ^ 16" by simp
  then show d: "unat (pit_divider f) = 1193181 div unat f"
    by (simp add: pit_divider_def PIT_QUARTZ_FREQ_def unsigned_ucast_eq take_bit_eq_mod unat_div_distrib)
  show "unat f * unat (pit_divider f) \<le> 1193181" unfolding d by (rule times_div_less_eq_dividend)
  have "0 < unat f" using f by simp
  from dividend_less_times_div [OF this] show "1193181 < unat f * (unat (pit_divider f) + 1)" unfolding d by simp
qed

lemma u16_bytes: "unat (ucast (v AND 0x00FF) :: u8) + 256 * unat (ucast (drop_bit 8 v) :: u8) = unat v" for v :: u16
proof -
  have b: "unat v < 65536" using unsigned_less [of v, where 'a = nat] by simp
  have "v AND 0x00FF = take_bit 8 v" by (simp add: take_bit_eq_mask mask_eq_exp_minus_1)
  then have "unat (ucast (v AND 0x00FF) :: u8) = unat v mod 256"
    by (simp add: unsigned_ucast_eq take_bit_eq_mod unat_mod_distrib)
  moreover have "unat v div 256 < 256" using b by linarith
  then have "unat (ucast (drop_bit 8 v) :: u8) = unat v div 256"
    by (simp add: unsigned_ucast_eq take_bit_eq_mod drop_bit_eq_div unat_div_distrib)
  ultimately show ?thesis by simp
qed

section \<open>Properties\<close>

text \<open>C16. The PIT driver keeps the contract of a timer for every sequence of requests through its
  \<^verbatim>\<open>kernel_timer_t\<close>: the codes returned, the nesting count, the frequency and the handler are those of the
  specification, the RTC is left alone, and IRQ 0 reaches the processor exactly when every request that
  disabled the timer has been undone.\<close>

theorem pit_driver_refines:
  assumes "bus_ready s" "gate_ok (pit_view s)"
  shows "\<exists>s'. serve_all (pit_driver d) rs s = Ok (fst (timer_spec_all pit_limits d rs (pit_view s)), s') \<and>
           pit_view s' = snd (timer_spec_all pit_limits d rs (pit_view s)) \<and> rtc_view s' = rtc_view s \<and>
           (irq_open PIT_IRQ_LINE s' \<longleftrightarrow> stat pit_nesting s' = 0)"
proof -
  obtain s' where s': "serve_all (pit_driver d) rs s = Ok (fst (timer_spec_all pit_limits d rs (pit_view s)), s')"
    "pit_view s' = snd (timer_spec_all pit_limits d rs (pit_view s))" "rtc_view s' = rtc_view s"
    using pit.serve_all_refines [OF assms(1), of d rs] by blast
  have "gate_ok (pit_view s')" by (rule pit.serve_all_gate [OF assms s'(1)])
  then show ?thesis using s' by (auto simp: gate_ok_def pit_view_def timer_at_def unat_eq_0)
qed

theorem pit_driver_refines_witness:
  "\<exists>s'. serve_all (pit_driver 0x1000) [Disable, SetFrequency 9000, SetHandler 0x2000, Enable, Enable] timers_example =
          Ok ([OS_NO_ERR, OS_ERR_OUT_OF_BOUND, OS_ERR_INTERRUPT_NOT_REGISTERED, OS_NO_ERR, OS_NO_ERR], s') \<and>
        irq_open PIT_IRQ_LINE s'"
proof -
  let ?s = timers_example
  let ?rs = "[Disable, SetFrequency 9000, SetHandler 0x2000, Enable, Enable]"
  note v = timers_example_ok(2)
  have g: "gate_ok (pit_view ?s)" by (simp add: v gate_ok_def)
  have "timer_spec_all pit_limits 0x1000 ?rs (pit_view ?s) =
      ([OS_NO_ERR, OS_ERR_OUT_OF_BOUND, OS_ERR_INTERRUPT_NOT_REGISTERED, OS_NO_ERR, OS_NO_ERR],
       \<lparr>level = 0, opened = True, tfreq = 0, thandler = None\<rparr>)"
    by (simp add: v Let_def spec_handler_def spec_pulse_def spec_enable_def spec_disable_def pit_limits_def
        PIT_MIN_FREQ_def PIT_MAX_FREQ_def)
  with pit_driver_refines [OF timers_example_ok(1) g, of "0x1000" ?rs] show ?thesis
    by (auto simp: pit_view_def timer_at_def)
qed

text \<open>Setting a frequency \<open>f\<close> of the accepted range programs the counter exactly: besides the masking of
  its IRQ, the driver makes three writes, the command and then the two bytes, low first, of the divider,
  which is the largest \<open>d\<close> with \<open>f * d\<close> at most the quartz frequency; it always fits in 16 bits.\<close>

theorem pit_set_frequency_programs:
  assumes "bus_ready s" "PIT_MIN_FREQ \<le> f" "f \<le> PIT_MAX_FREQ"
  shows "\<exists>s' lo hi. pit_set_frequency f s = Ok (OS_NO_ERR, s') \<and> pit_get_frequency s' = f \<and>
           pit_trace s' = [OutB PIT_DATA_PORT hi, OutB PIT_DATA_PORT lo, OutB PIT_COMM_PORT PIT_COMM_SET_FREQ] @ pit_trace s \<and>
           (let d = unat lo + 256 * unat hi in unat f * d \<le> unat PIT_QUARTZ_FREQ \<and> unat PIT_QUARTZ_FREQ < unat f * (d + 1))"
proof -
  have f: "20 \<le> f" "f \<le> 8000" using assms(2,3) by (simp_all add: PIT_MIN_FREQ_def PIT_MAX_FREQ_def)
  obtain t where t: "pit_disable s = Ok (OS_NO_ERR, t)" "bus_ready t"
    using gate_disable_view [OF assms(1) pit_apart] by (auto simp: yields_def pit_disable_def)
  let ?u = "set_stat pit_freq f t" let ?m = "?u\<lparr>int_world := pit_program f (int_world ?u)\<rparr>"
  have u: "bus_ready ?u" using set_freq_view [OF t(2) pit_apart] by blast
  note m1 = undisturbed_view [OF pit_program_undisturbed u]
  have m: "bus_ready ?m" "tfreq (pit_view ?m) = f"
    using m1 set_freq_view [OF t(2) pit_apart, of f] by (simp_all add: pit_view_def)
  obtain s' where s': "pit_enable ?m = Ok (OS_NO_ERR, s')" "pit_view s' = spec_enable (pit_view ?m)"
    using gate_enable_view [OF m(1) pit_apart] by (auto simp: yields_def pit_enable_def pit_view_def)
  have e: "pit_set_frequency f s = Ok (OS_NO_ERR, s')"
    using assms(2,3) t(1) s'(1) by (simp add: pit_set_frequency_def Let_def not_less)
  have "tfreq (pit_view s') = f" using s'(2) m(2) by (simp add: spec_enable_def)
  then have g: "pit_get_frequency s' = f" by (simp add: pit_view_def timer_at_def pit_get_frequency_def)
  have "on_pic s" "on_pic ?m" using assms(1) m(1) by (simp_all add: bus_ready_def)
  then have tr: "pit_trace ?u = pit_trace s" "pit_trace s' = pit_trace ?m"
    using gate_pit_trace(2) [OF _ t(1) [unfolded pit_disable_def]] gate_pit_trace(1) [OF _ s'(1) [unfolded pit_enable_def]]
    by (simp_all add: pit_trace_def)
  have "pit_trace ?m = [OutB PIT_DATA_PORT (ucast (drop_bit 8 (pit_divider f))), OutB PIT_DATA_PORT (ucast (pit_divider f AND 0x00FF)),
      OutB PIT_COMM_PORT PIT_COMM_SET_FREQ] @ pit_trace ?u"
    by (simp add: pit_trace_def port_trace_def pit_program_def Let_def)
  then show ?thesis using e g tr u16_bytes [of "pit_divider f"] pit_divider_exact(2,3) [OF f]
    by (intro exI [of _ s'] exI [of _ "ucast (pit_divider f AND 0x00FF)"] exI [of _ "ucast (drop_bit 8 (pit_divider f))"])
      (simp add: PIT_QUARTZ_FREQ_def)
qed

theorem pit_set_frequency_programs_witness:
  "\<exists>s' lo hi. pit_set_frequency 200 timers_example = Ok (OS_NO_ERR, s') \<and> pit_get_frequency s' = 200 \<and>
     pit_trace s' = [OutB PIT_DATA_PORT hi, OutB PIT_DATA_PORT lo, OutB PIT_COMM_PORT PIT_COMM_SET_FREQ] \<and>
     unat lo + 256 * unat hi = 5965"
proof -
  have "pit_trace timers_example = []"
    by (simp add: pit_trace_def port_trace_def timers_example_def set_static_def pic_example_def)
  then show ?thesis using pit_set_frequency_programs [OF timers_example_ok(1), of 200]
    by (auto simp: PIT_MIN_FREQ_def PIT_MAX_FREQ_def PIT_QUARTZ_FREQ_def Let_def)
qed

end
