(* ===== verification/Rtc.thy ===== *)
theory Rtc
  imports TimerDriver
begin

unbundle bit_operations_syntax

text \<open>
  The real time clock, \<^verbatim>\<open>Sources/arch/x86/rtc.c\<close>: a driver of theory \<open>Time\<close> and the reader of the date and the
  time of day from the CMOS registers, also the RTC interrupt handler of
  \<^verbatim>\<open>Sources/time/time_management.c\<close>. The address of the dummy handler is an argument. The self test is not modelled.
\<close>

section \<open>Constants and variables\<close>

definition RTC_INIT_RATE :: u32 where "RTC_INIT_RATE = 10"
definition RTC_MIN_FREQ :: u32 where "RTC_MIN_FREQ = 2"
definition RTC_MAX_FREQ :: u32 where "RTC_MAX_FREQ = 8192"
definition RTC_QUARTZ_FREQ :: u32 where "RTC_QUARTZ_FREQ = 32768"

definition CMOS_SECONDS_REGISTER :: u8 where "CMOS_SECONDS_REGISTER = 0x00"
definition CMOS_MINUTES_REGISTER :: u8 where "CMOS_MINUTES_REGISTER = 0x02"
definition CMOS_HOURS_REGISTER :: u8 where "CMOS_HOURS_REGISTER = 0x04"
definition CMOS_DAY_REGISTER :: u8 where "CMOS_DAY_REGISTER = 0x07"
definition CMOS_MONTH_REGISTER :: u8 where "CMOS_MONTH_REGISTER = 0x08"
definition CMOS_YEAR_REGISTER :: u8 where "CMOS_YEAR_REGISTER = 0x09"
definition CMOS_CENTURY_REGISTER :: u8 where "CMOS_CENTURY_REGISTER = 0x00"
definition CMOS_NMI_DISABLE_BIT :: u8 where "CMOS_NMI_DISABLE_BIT = 0x01"
definition CMOS_ENABLE_RTC :: u8 where "CMOS_ENABLE_RTC = 0x40"
definition CMOS_REG_A :: u8 where "CMOS_REG_A = 0x0A"
definition CMOS_REG_B :: u8 where "CMOS_REG_B = 0x0B"
definition CMOS_REG_C :: u8 where "CMOS_REG_C = 0x0C"
definition CMOS_COMM_PORT :: u16 where "CMOS_COMM_PORT = 0x70"
definition CMOS_DATA_PORT :: u16 where "CMOS_DATA_PORT = 0x71"
definition CURRENT_YEAR :: u32 where "CURRENT_YEAR = 2020"

lemmas cmos_consts = CMOS_SECONDS_REGISTER_def CMOS_MINUTES_REGISTER_def CMOS_HOURS_REGISTER_def CMOS_DAY_REGISTER_def
  CMOS_MONTH_REGISTER_def CMOS_YEAR_REGISTER_def CMOS_CENTURY_REGISTER_def CMOS_REG_A_def CMOS_REG_B_def CMOS_REG_C_def

record date_t =
  weekday :: u16
  day :: u16
  month :: u16
  year :: u16

text \<open>The variables \<^verbatim>\<open>day_time\<close> and \<^verbatim>\<open>date\<close>.\<close>

definition put_time :: "u32 \<Rightarrow> date_t \<Rightarrow> world \<Rightarrow> world" where
  "put_time t d w =
     set_static ''rtc.day_time'' t (set_static ''rtc.date.weekday'' (ucast (weekday d))
       (set_static ''rtc.date.day'' (ucast (day d)) (set_static ''rtc.date.month'' (ucast (month d))
         (set_static ''rtc.date.year'' (ucast (year d)) w))))"

definition rtc_get_current_daytime :: "int_state \<Rightarrow> u32" where
  "rtc_get_current_daytime s = stat ''rtc.day_time'' s"

definition rtc_get_current_date :: "int_state \<Rightarrow> date_t" where
  "rtc_get_current_date s =
     \<lparr>weekday = ucast (stat ''rtc.date.weekday'' s), day = ucast (stat ''rtc.date.day'' s),
      month = ucast (stat ''rtc.date.month'' s), year = ucast (stat ''rtc.date.year'' s)\<rparr>"

section \<open>Reading the clock\<close>

definition cmos_read :: "u8 \<Rightarrow> world \<Rightarrow> u8 \<times> world" where
  "cmos_read r w = cpu_inb CMOS_DATA_PORT (cpu_outb r CMOS_COMM_PORT w)"

text \<open>The registers in the order they are read, and the conversions on them: seconds, minutes and century are
  8-bit variables, the hours a 32-bit one, the fields of the date 16-bit; the arithmetic is on 32 bits.\<close>

record cmos_sample =
  c_seconds :: u8
  c_minutes :: u8
  c_hours :: u32
  c_day :: u16
  c_month :: u16
  c_year :: u16
  c_century :: u8
  c_reg_b :: u8

definition cmos_sampled :: "world \<Rightarrow> cmos_sample \<times> world" where
  "cmos_sampled w =
     (let (s, w) = cmos_read CMOS_SECONDS_REGISTER w;
          (m, w) = cmos_read CMOS_MINUTES_REGISTER w;
          (h, w) = cmos_read CMOS_HOURS_REGISTER w;
          (d, w) = cmos_read CMOS_DAY_REGISTER w;
          (mo, w) = cmos_read CMOS_MONTH_REGISTER w;
          (y, w) = cmos_read CMOS_YEAR_REGISTER w;
          (c, w) = (if CMOS_CENTURY_REGISTER \<noteq> 0 then cmos_read CMOS_CENTURY_REGISTER w
                    else (ucast (CURRENT_YEAR div 100), w));
          (b, w) = cmos_read CMOS_REG_B w
      in (\<lparr>c_seconds = s, c_minutes = m, c_hours = ucast h, c_day = ucast d, c_month = ucast mo, c_year = ucast y,
           c_century = c, c_reg_b = b\<rparr>, w))"

definition bcd_to_bin :: "u32 \<Rightarrow> u32" where
  "bcd_to_bin v = (v AND 0x0F) + (v div 16) * 10"

definition cmos_from_bcd :: "cmos_sample \<Rightarrow> cmos_sample" where
  "cmos_from_bcd c =
     (if c_reg_b c AND 0x04 = 0
      then c\<lparr>c_seconds := ucast (bcd_to_bin (ucast (c_seconds c))),
             c_minutes := ucast (bcd_to_bin (ucast (c_minutes c))),
             c_hours := ((c_hours c AND 0x0F) + ((c_hours c AND 0x70) div 16) * 10) OR (c_hours c AND 0x80),
             c_day := ucast (bcd_to_bin (ucast (c_day c))),
             c_month := ucast (bcd_to_bin (ucast (c_month c))),
             c_year := ucast (bcd_to_bin (ucast (c_year c))),
             c_century := (if CMOS_CENTURY_REGISTER \<noteq> 0 then ucast (bcd_to_bin (ucast (c_century c))) else c_century c)\<rparr>
      else c)"

definition cmos_to_24h :: "cmos_sample \<Rightarrow> cmos_sample" where
  "cmos_to_24h c =
     (if c_reg_b c AND 0x02 = 0 \<and> c_hours c AND 0x80 \<ge> 1
      then c\<lparr>c_hours := ((c_hours c AND 0x7F) + 12) mod 24\<rparr> else c)"

definition cmos_full_year :: "cmos_sample \<Rightarrow> u16" where
  "cmos_full_year c =
     (if CMOS_CENTURY_REGISTER \<noteq> 0 then ucast (ucast (c_year c) + ucast (c_century c) * (100 :: u32))
      else ucast (ucast (c_year c) + (2000 :: u32)))"

definition cmos_weekday :: "u16 \<Rightarrow> u16 \<Rightarrow> u16 \<Rightarrow> u16" where
  "cmos_weekday d m y = ucast ((ucast d + ucast m + ucast y + ucast y div 4 + 1) mod 7 + (1 :: u32))"

definition cmos_day_time :: "cmos_sample \<Rightarrow> u32" where
  "cmos_day_time c = ucast (c_seconds c) + 60 * ucast (c_minutes c) + 3600 * c_hours c"

definition rtc_update_time :: "int_state \<Rightarrow> int_state" where
  "rtc_update_time s =
     (let (c, w) = cmos_sampled (int_world s);
          c = cmos_to_24h (cmos_from_bcd c);
          y = cmos_full_year c;
          w = put_time (cmos_day_time c)
                \<lparr>weekday = cmos_weekday (c_day c) (c_month c) y, day = c_day c, month = c_month c, year = y\<rparr> w;
          (_, w) = cmos_read CMOS_REG_C w
      in s\<lparr>int_world := w\<rparr>)"

section \<open>The driver\<close>

definition rtc_dummy_handler :: "int_state \<Rightarrow> int_state outcome" where
  "rtc_dummy_handler s = andthen (kernel_interrupt_set_irq_eoi RTC_IRQ_LINE (rtc_update_time s)) (\<lambda>(_, s). Ok s)"

definition rtc_enable :: "int_state \<Rightarrow> (OS_RETURN_E \<times> int_state) outcome" where
  "rtc_enable = gate_enable rtc_nesting RTC_IRQ_LINE"

definition rtc_disable :: "int_state \<Rightarrow> (OS_RETURN_E \<times> int_state) outcome" where
  "rtc_disable = gate_disable rtc_nesting RTC_IRQ_LINE"

text \<open>Changing a register: it is selected with the NMI bit set, read, selected again and written.\<close>

definition cmos_update :: "u8 \<Rightarrow> (u8 \<Rightarrow> u8) \<Rightarrow> world \<Rightarrow> world" where
  "cmos_update r g w =
     (let sel = push_bit 7 CMOS_NMI_DISABLE_BIT OR r;
          w = cpu_outb sel CMOS_COMM_PORT w;
          (prev, w) = cpu_inb CMOS_DATA_PORT w;
          w = cpu_outb sel CMOS_COMM_PORT w
      in cpu_outb (g prev) CMOS_DATA_PORT w)"

definition rtc_rate :: "u32 \<Rightarrow> u32" where
  "rtc_rate frequency =
     (if frequency < 4 then 15 else if frequency < 8 then 14 else if frequency < 16 then 13
      else if frequency < 32 then 12 else if frequency < 64 then 11 else if frequency < 128 then 10
      else if frequency < 256 then 9 else if frequency < 512 then 8 else if frequency < 1024 then 7
      else if frequency < 2048 then 6 else if frequency < 4096 then 5 else if frequency < 8192 then 4 else 3)"

definition rtc_rate_freq :: "u32 \<Rightarrow> u32" where
  "rtc_rate_freq rate = drop_bit (unat (rate - 1)) RTC_QUARTZ_FREQ"

definition cmos_set_rate :: "u32 \<Rightarrow> world \<Rightarrow> world" where
  "cmos_set_rate rate = cmos_update CMOS_REG_A (\<lambda>prev. (prev AND 0xF0) OR ucast rate)"

definition rtc_set_frequency :: "u32 \<Rightarrow> int_state \<Rightarrow> (OS_RETURN_E \<times> int_state) outcome" where
  "rtc_set_frequency frequency s =
     (if frequency < RTC_MIN_FREQ \<or> frequency > RTC_MAX_FREQ then Ok (OS_ERR_OUT_OF_BOUND, s)
      else let rate = rtc_rate frequency
           in on_ok (rtc_disable s) (\<lambda>s.
                rtc_enable (set_stat rtc_freq (rtc_rate_freq rate) (s\<lparr>int_world := cmos_set_rate rate (int_world s)\<rparr>))))"

definition rtc_get_frequency :: "int_state \<Rightarrow> u32" where
  "rtc_get_frequency s = stat rtc_freq s"

definition rtc_set_handler :: "ptr \<Rightarrow> int_state \<Rightarrow> (OS_RETURN_E \<times> int_state) outcome" where
  "rtc_set_handler h s =
     (if h = NULL then Ok (OS_ERR_NULL_POINTER, s)
      else on_ok (rtc_disable s) (\<lambda>s.
           andthen (kernel_interrupt_remove_irq_handler RTC_IRQ_LINE s) (\<lambda>(err, s).
           if err \<noteq> OS_NO_ERR then andthen (rtc_enable s) (\<lambda>(_, s). Ok (err, s))
           else andthen (kernel_interrupt_register_irq_handler RTC_IRQ_LINE h s) (\<lambda>(err, s).
                if err \<noteq> OS_NO_ERR then Ok (err, s) else rtc_enable s))))"

definition rtc_remove_handler :: "ptr \<Rightarrow> int_state \<Rightarrow> (OS_RETURN_E \<times> int_state) outcome" where
  "rtc_remove_handler dummy_handler s = rtc_set_handler dummy_handler s"

definition rtc_get_irq :: "int_state \<Rightarrow> u32" where
  "rtc_get_irq s = RTC_IRQ_LINE"

definition rtc_init :: "ptr \<Rightarrow> int_state \<Rightarrow> (OS_RETURN_E \<times> int_state) outcome" where
  "rtc_init dummy_handler s =
     (let w = put_time 0 \<lparr>weekday = 0, day = 0, month = 0, year = 0\<rparr> (int_world s);
          w = cmos_update CMOS_REG_B (\<lambda>prev_ored. prev_ored OR CMOS_ENABLE_RTC) w;
          w = cmos_set_rate RTC_INIT_RATE w;
          s = set_stat rtc_freq (rtc_rate_freq RTC_INIT_RATE) (s\<lparr>int_world := w\<rparr>)
      in on_ok (kernel_interrupt_register_irq_handler RTC_IRQ_LINE dummy_handler s) (\<lambda>s.
         on_ok (kernel_interrupt_set_irq_mask RTC_IRQ_LINE 1 s) (\<lambda>s.
         let (_, w) = cmos_read CMOS_REG_C (int_world s)
         in andthen (rtc_enable (set_stat rtc_nesting 1 (s\<lparr>int_world := w\<rparr>))) (\<lambda>(err, s).
              Ok (err, rtc_update_time s)))))"

definition rtc_driver :: "ptr \<Rightarrow> kernel_timer_t" where
  "rtc_driver dummy_handler =
     \<lparr>get_frequency = Some rtc_get_frequency, set_frequency = Some rtc_set_frequency,
      timer_enable = Some rtc_enable, timer_disable = Some rtc_disable,
      timer_set_handler = Some rtc_set_handler, timer_remove_handler = Some (rtc_remove_handler dummy_handler),
      get_irq = Some rtc_get_irq\<rparr>"

text \<open>The handler the time manager installs on the RTC.\<close>

definition time_rtc_timer_handler :: "time_state \<Rightarrow> time_state outcome" where
  "time_rtc_timer_handler s = timer_eoi (sys_rtc_timer s) (s\<lparr>ints := rtc_update_time (ints s)\<rparr>)"

section \<open>The driver refines the specification\<close>

definition rtc_limits :: timer_limits where
  "rtc_limits = \<lparr>lowest = RTC_MIN_FREQ, highest = RTC_MAX_FREQ, effective = (\<lambda>f. rtc_rate_freq (rtc_rate f))\<rparr>"

lemma cmos_ports: "p \<in> {CMOS_COMM_PORT, CMOS_DATA_PORT} \<Longrightarrow> p \<in> pic_quiet_ports \<and> p \<notin> pic_data_ports"
  by (auto simp: CMOS_COMM_PORT_def CMOS_DATA_PORT_def pic_quiet_ports_def pic_data_ports_def pic_consts)

lemmas cmos_io = undisturbed_io [of CMOS_COMM_PORT] undisturbed_io [of CMOS_DATA_PORT]

lemma cmos_undisturbed: "undisturbed w (snd (cmos_read r w))" "undisturbed w (cmos_update r g w)" "undisturbed w (cmos_set_rate rate w)"
proof -
  have p: "undisturbed w (cpu_outb v CMOS_COMM_PORT w)" "undisturbed w (cpu_outb v CMOS_DATA_PORT w)"
    "undisturbed w (snd (cpu_inb CMOS_DATA_PORT w))" for v w
    using cmos_io cmos_ports by auto
  show "undisturbed w (snd (cmos_read r w))" unfolding cmos_read_def by (rule undisturbed_trans [OF p(1,3)])
  have u: "undisturbed w (cmos_update r g w)" for r g
    unfolding cmos_update_def Let_def case_prod_beta
    by (rule undisturbed_trans [OF undisturbed_trans [OF undisturbed_trans [OF p(1) p(3)] p(1)] p(2)])
  show "undisturbed w (cmos_update r g w)" "undisturbed w (cmos_set_rate rate w)"
    unfolding cmos_set_rate_def by (rule u)+
qed

lemmas rtc_apart = timers_apart(2)

lemma rtc_set_frequency_view:
  assumes "bus_ready s"
  shows "yields rtc_nesting rtc_freq RTC_IRQ_LINE pit_nesting pit_freq PIT_IRQ_LINE (rtc_set_frequency f s)
    (fst (timer_spec rtc_limits d (SetFrequency f) (rtc_view s))) (snd (timer_spec rtc_limits d (SetFrequency f) (rtc_view s)))
    (pit_view s)"
proof (cases "f < RTC_MIN_FREQ \<or> f > RTC_MAX_FREQ")
  case True
  then show ?thesis using assms by (simp add: rtc_set_frequency_def yields_def rtc_limits_def pit_view_def rtc_view_def)
next
  case False
  let ?v = "rtc_rate_freq (rtc_rate f)"
  have "yields rtc_nesting rtc_freq RTC_IRQ_LINE pit_nesting pit_freq PIT_IRQ_LINE
      (on_ok (gate_disable rtc_nesting RTC_IRQ_LINE s) (\<lambda>s. gate_enable rtc_nesting RTC_IRQ_LINE
         (set_stat rtc_freq ?v (s\<lparr>int_world := cmos_set_rate (rtc_rate f) (int_world s)\<rparr>))))
      OS_NO_ERR ((spec_pulse (rtc_view s))\<lparr>tfreq := ?v\<rparr>) (pit_view s)"
    unfolding pit_view_def rtc_view_def
    by (rule pulse_view [OF assms rtc_apart])
      (simp add: set_freq_view [OF _ rtc_apart] undisturbed_view [OF cmos_undisturbed(3)])
  then show ?thesis using False by (simp add: rtc_set_frequency_def rtc_disable_def rtc_enable_def Let_def rtc_limits_def)
qed

lemma rtc_set_handler_view:
  assumes "bus_ready s"
  shows "yields rtc_nesting rtc_freq RTC_IRQ_LINE pit_nesting pit_freq PIT_IRQ_LINE (rtc_set_handler h s)
    (fst (spec_handler h (rtc_view s))) (snd (spec_handler h (rtc_view s))) (pit_view s)"
proof (cases "h = NULL")
  case True
  then show ?thesis using assms by (simp add: rtc_set_handler_def spec_handler_def yields_def pit_view_def rtc_view_def)
next
  case False
  show ?thesis
    using handler_view [OF assms rtc_apart False, of "\<lambda>err s. Ok (err, s)"]
    unfolding rtc_set_handler_def rtc_enable_def rtc_disable_def pit_view_def rtc_view_def if_not_P [OF False] .
qed

lemma rtc_serve_view:
  assumes "bus_ready s"
  shows "yields rtc_nesting rtc_freq RTC_IRQ_LINE pit_nesting pit_freq PIT_IRQ_LINE (serve (rtc_driver d) r s)
    (fst (timer_spec rtc_limits d r (rtc_view s))) (snd (timer_spec rtc_limits d r (rtc_view s))) (pit_view s)"
  using gate_enable_view [OF assms rtc_apart] gate_disable_view [OF assms rtc_apart]
    rtc_set_frequency_view [OF assms, of _ d] rtc_set_handler_view [OF assms]
  by (cases r) (simp_all add: serve_def rtc_driver_def rtc_enable_def rtc_disable_def rtc_remove_handler_def
      pit_view_def rtc_view_def del: timer_spec.simps(3))

interpretation rtc: timer_driver "rtc_driver d" rtc_limits d bus_ready rtc_view pit_view
proof unfold_locales
  fix s g r
  show "timer_has_all (rtc_driver d)" by (simp add: timer_has_all_def rtc_driver_def)
  show "g s = tfreq (rtc_view s)" if "get_frequency (rtc_driver d) = Some g"
    using that by (auto simp: rtc_driver_def rtc_get_frequency_def rtc_view_def timer_at_def)
  assume "bus_ready s"
  from rtc_serve_view [OF this, of d r]
  show "\<exists>s'. serve (rtc_driver d) r s = Ok (fst (timer_spec rtc_limits d r (rtc_view s)), s') \<and> bus_ready s' \<and>
      rtc_view s' = snd (timer_spec rtc_limits d r (rtc_view s)) \<and> pit_view s' = pit_view s"
    by (simp only: yields_def pit_view_def rtc_view_def)
qed

section \<open>Initialisation\<close>

definition time_names :: "string set" where
  "time_names = {''rtc.day_time'', ''rtc.date.weekday'', ''rtc.date.day'', ''rtc.date.month'', ''rtc.date.year''}"

lemma put_time_frame:
  "x \<notin> time_names \<Longrightarrow> statics (put_time t d w) x = statics w x" "device (put_time t d w) = device w"
  "history (put_time t d w) = history w"
  by (simp_all add: put_time_def set_static_def time_names_def)

lemma put_time_ready:
  "reads p (put_time t d w) = reads p w" "pic_ready (put_time t d w) = pic_ready w"
  by (simp_all add: reads_def pic_ready_def latch_def put_time_frame cong: option.case_cong)

lemma timer_names: "x \<in> {pit_nesting, pit_freq, rtc_nesting, rtc_freq} \<Longrightarrow> x \<notin> time_names"
  by (auto simp: time_names_def pit_nesting_def pit_freq_def rtc_nesting_def rtc_freq_def)

lemma put_time_view:
  assumes "bus_ready s"
  shows "bus_ready (s\<lparr>int_world := put_time t d (int_world s)\<rparr>)"
    "pit_view (s\<lparr>int_world := put_time t d (int_world s)\<rparr>) = pit_view s"
    "rtc_view (s\<lparr>int_world := put_time t d (int_world s)\<rparr>) = rtc_view s"
  using assms handlers_cong [of "s\<lparr>int_world := put_time t d (int_world s)\<rparr>" s] timer_names
  by (simp_all add: bus_ready_def on_pic_def put_time_ready pit_view_def rtc_view_def timer_at_def stat_def
      put_time_frame irq_open_def irq_masked_def)

lemma cmos_sampled_undisturbed: "undisturbed w (snd (cmos_sampled w))"
  unfolding cmos_sampled_def Let_def case_prod_beta CMOS_CENTURY_REGISTER_def
  by (simp, intro undisturbed_trans [OF _ cmos_undisturbed(1)]) (simp add: undisturbed_def)

lemma rtc_update_view:
  assumes "bus_ready s"
  shows "bus_ready (rtc_update_time s)" "pit_view (rtc_update_time s) = pit_view s" "rtc_view (rtc_update_time s) = rtc_view s"
proof -
  define w1 where "w1 = snd (cmos_sampled (int_world s))"
  obtain t d where e: "rtc_update_time s = s\<lparr>int_world := snd (cmos_read CMOS_REG_C (put_time t d w1))\<rparr>"
    unfolding rtc_update_time_def w1_def Let_def case_prod_beta by blast
  let ?s1 = "s\<lparr>int_world := w1\<rparr>"
  have s1: "bus_ready ?s1" "pit_view ?s1 = pit_view s" "rtc_view ?s1 = rtc_view s"
    using undisturbed_view [OF cmos_sampled_undisturbed assms] by (simp_all add: w1_def pit_view_def rtc_view_def)
  let ?s2 = "s\<lparr>int_world := put_time t d w1\<rparr>"
  have s2: "bus_ready ?s2" "pit_view ?s2 = pit_view s" "rtc_view ?s2 = rtc_view s"
    using put_time_view [OF s1(1), of t d] s1 by simp_all
  have "undisturbed (int_world ?s2) (snd (cmos_read CMOS_REG_C (put_time t d w1)))" using cmos_undisturbed(1) by simp
  from undisturbed_view [OF this s2(1)] show "bus_ready (rtc_update_time s)" "pit_view (rtc_update_time s) = pit_view s"
    "rtc_view (rtc_update_time s) = rtc_view s" using s2 by (simp_all add: e pit_view_def rtc_view_def)
qed

lemma rtc_init_view:
  assumes "bus_ready s" "thandler (rtc_view s) = None" "d \<noteq> NULL"
  obtains s' where "rtc_init d s = Ok (OS_NO_ERR, s')" "bus_ready s'" "pit_view s' = pit_view s"
    "rtc_view s' = \<lparr>level = 0, opened = True, tfreq = 64, thandler = Some d\<rparr>"
proof -
  define w0 where "w0 = put_time 0 \<lparr>weekday = 0, day = 0, month = 0, year = 0\<rparr> (int_world s)"
  define w1 where "w1 = cmos_set_rate RTC_INIT_RATE (cmos_update CMOS_REG_B (\<lambda>prev_ored. prev_ored OR CMOS_ENABLE_RTC) w0)"
  define s1 where "s1 = set_stat rtc_freq (rtc_rate_freq RTC_INIT_RATE) (s\<lparr>int_world := w1\<rparr>)"
  have s0: "bus_ready (s\<lparr>int_world := w0\<rparr>)" "pit_view (s\<lparr>int_world := w0\<rparr>) = pit_view s" "rtc_view (s\<lparr>int_world := w0\<rparr>) = rtc_view s"
    unfolding w0_def by (rule put_time_view [OF assms(1)])+
  have "undisturbed (int_world (s\<lparr>int_world := w0\<rparr>)) w1"
    unfolding w1_def by simp (rule undisturbed_trans [OF cmos_undisturbed(2,3)])
  note u1 = undisturbed_view [OF this s0(1)]
  then have b1: "bus_ready (s\<lparr>int_world := w1\<rparr>)" "pit_view (s\<lparr>int_world := w1\<rparr>) = pit_view s"
    "rtc_view (s\<lparr>int_world := w1\<rparr>) = rtc_view s" using s0 by (simp_all add: pit_view_def rtc_view_def)
  have v1: "bus_ready s1" "pit_view s1 = pit_view s" "rtc_view s1 = (rtc_view s)\<lparr>tfreq := 64\<rparr>"
    using set_freq_view [OF b1(1) rtc_apart, of "rtc_rate_freq RTC_INIT_RATE"] b1
    by (simp_all add: s1_def pit_view_def rtc_view_def)
      (simp_all add: rtc_rate_freq_def RTC_INIT_RATE_def RTC_QUARTZ_FREQ_def)
  have "thandler (rtc_view s1) = None" using assms(2) by (simp add: v1)
  from register_view [OF v1(1) rtc_apart assms(3) this [unfolded rtc_view_def]] obtain s2 where s2:
    "kernel_interrupt_register_irq_handler RTC_IRQ_LINE d s1 = Ok (OS_NO_ERR, s2)" "bus_ready s2"
    "rtc_view s2 = (rtc_view s1)\<lparr>thandler := Some d\<rparr>" "pit_view s2 = pit_view s1"
    unfolding yields_def pit_view_def rtc_view_def by (elim exE conjE)
  obtain s3 where s3: "kernel_interrupt_set_irq_mask RTC_IRQ_LINE 1 s2 = Ok (OS_NO_ERR, s3)" "bus_ready s3"
    "rtc_view s3 = (rtc_view s2)\<lparr>opened := True\<rparr>" "pit_view s3 = pit_view s2"
    using mask_view [OF s2(2) rtc_apart, of 1] unfolding pit_view_def rtc_view_def by auto
  define s4 where "s4 = set_stat rtc_nesting 1 (s3\<lparr>int_world := snd (cmos_read CMOS_REG_C (int_world s3))\<rparr>)"
  note u4 = undisturbed_view [OF cmos_undisturbed(1) s3(2)]
  have v4: "bus_ready s4" "rtc_view s4 = (rtc_view s3)\<lparr>level := 1\<rparr>" "pit_view s4 = pit_view s3"
    using u4 rtc_apart by (auto simp: s4_def bus_ready_def pit_view_def rtc_view_def timer_at_def apart_def)
  have "level (rtc_view s4) \<le> 1" by (simp add: v4)
  from rtc.enable_opens [OF v4(1) this, of d] obtain s5 where s5: "rtc_enable s4 = Ok (OS_NO_ERR, s5)" "bus_ready s5"
    "pit_view s5 = pit_view s4" "rtc_view s5 = (rtc_view s4)\<lparr>level := 0, opened := True\<rparr>"
    by (auto simp: rtc_driver_def)
  have e: "rtc_init d s = Ok (OS_NO_ERR, rtc_update_time s5)"
    using s2(1) s3(1) s5(1) by (simp add: rtc_init_def Let_def case_prod_beta flip: w0_def w1_def s1_def s4_def)
  show thesis
    by (rule that [OF e]) (simp_all add: rtc_update_view [OF s5(2)] s5 v4 s3 s2 v1)
qed

section \<open>The rate\<close>

text \<open>A rate stands for the largest power of two that is not above the frequency asked for.\<close>

definition rate_fits :: "u32 \<Rightarrow> u32 \<Rightarrow> bool" where
  "rate_fits f r \<longleftrightarrow> 3 \<le> r \<and> r \<le> 15 \<and> 2 ^ (16 - unat r) \<le> unat f \<and> unat f < 2 ^ (17 - unat r)"

lemma rtc_rate_fits:
  assumes "RTC_MIN_FREQ \<le> f" "f \<le> RTC_MAX_FREQ"
  shows "rate_fits f (rtc_rate f)"
proof -
  have u: "2 \<le> unat f" "unat f \<le> 8192" using assms by (simp_all add: word_le_nat_alt RTC_MIN_FREQ_def RTC_MAX_FREQ_def)
  then show ?thesis unfolding rtc_rate_def word_less_nat_alt
    by (simp split: if_split) (simp add: rate_fits_def)
qed

lemma rtc_rate_freq_power:
  assumes "3 \<le> r" "r \<le> 15"
  shows "rtc_rate_freq r = 2 ^ (16 - unat r)"
proof -
  have u: "3 \<le> unat r" "unat r \<le> 15" "unat (r - 1) = unat r - 1"
    using assms by (simp_all add: word_le_nat_alt unat_sub_if')
  have "drop_bit n (2 ^ 15 :: u32) = 2 ^ (15 - n)" if "n \<le> 15" for n
    unfolding drop_bit_exp_eq using that by simp
  from this [of "unat r - 1"] show ?thesis using u by (simp add: rtc_rate_freq_def RTC_QUARTZ_FREQ_def)
qed

section \<open>The clock\<close>

text \<open>A clock chip as documented: after a register is selected, the data port reads it, and it does not change
  while the time is read (the driver accesses only the two ports of the chip).\<close>

definition cmos_shows :: "(u8 \<Rightarrow> u8) \<Rightarrow> world \<Rightarrow> bool" where
  "cmos_shows regs w \<longleftrightarrow>
     (\<forall>es r. event_port ` set es \<subseteq> {CMOS_COMM_PORT, CMOS_DATA_PORT} \<longrightarrow>
        device w (OutB CMOS_COMM_PORT r # es @ history w) CMOS_DATA_PORT = regs r)"

lemma cmos_read_shows:
  assumes "cmos_shows regs w"
  obtains w' where "cmos_read r w = (regs r, w')" "cmos_shows regs w'" "statics w' = statics w"
proof -
  let ?w = "snd (cmos_read r w)"
  have dev: "device w (OutB CMOS_COMM_PORT q # es @ history w) CMOS_DATA_PORT = regs q"
    if "event_port ` set es \<subseteq> {CMOS_COMM_PORT, CMOS_DATA_PORT}" for es q
    using assms that unfolding cmos_shows_def by blast
  have "cmos_read r w = (regs r, ?w)" using dev [of "[]" r] by (simp add: cmos_read_def cpu_inb_eq)
  moreover have "cmos_shows regs ?w"
    using dev [of "es @ [InB CMOS_DATA_PORT, OutB CMOS_COMM_PORT r]" for es]
    by (simp add: cmos_shows_def cmos_read_def cpu_inb_eq)
  moreover have "statics ?w = statics w" by (simp add: cmos_read_def cpu_inb_def cpu_outb_def)
  ultimately show thesis by (rule that)
qed

lemma cmos_sampled_shows:
  assumes "cmos_shows regs w"
  obtains w' where "cmos_sampled w =
      (\<lparr>c_seconds = regs CMOS_SECONDS_REGISTER, c_minutes = regs CMOS_MINUTES_REGISTER,
        c_hours = ucast (regs CMOS_HOURS_REGISTER), c_day = ucast (regs CMOS_DAY_REGISTER),
        c_month = ucast (regs CMOS_MONTH_REGISTER), c_year = ucast (regs CMOS_YEAR_REGISTER),
        c_century = 20, c_reg_b = regs CMOS_REG_B\<rparr>, w')" "cmos_shows regs w'"
proof -
  obtain w1 where 1: "cmos_read CMOS_SECONDS_REGISTER w = (regs CMOS_SECONDS_REGISTER, w1)" "cmos_shows regs w1"
    using cmos_read_shows [OF assms] by blast
  obtain w2 where 2: "cmos_read CMOS_MINUTES_REGISTER w1 = (regs CMOS_MINUTES_REGISTER, w2)" "cmos_shows regs w2"
    using cmos_read_shows [OF 1(2)] by blast
  obtain w3 where 3: "cmos_read CMOS_HOURS_REGISTER w2 = (regs CMOS_HOURS_REGISTER, w3)" "cmos_shows regs w3"
    using cmos_read_shows [OF 2(2)] by blast
  obtain w4 where 4: "cmos_read CMOS_DAY_REGISTER w3 = (regs CMOS_DAY_REGISTER, w4)" "cmos_shows regs w4"
    using cmos_read_shows [OF 3(2)] by blast
  obtain w5 where 5: "cmos_read CMOS_MONTH_REGISTER w4 = (regs CMOS_MONTH_REGISTER, w5)" "cmos_shows regs w5"
    using cmos_read_shows [OF 4(2)] by blast
  obtain w6 where 6: "cmos_read CMOS_YEAR_REGISTER w5 = (regs CMOS_YEAR_REGISTER, w6)" "cmos_shows regs w6"
    using cmos_read_shows [OF 5(2)] by blast
  obtain w7 where 7: "cmos_read CMOS_REG_B w6 = (regs CMOS_REG_B, w7)" "cmos_shows regs w7"
    using cmos_read_shows [OF 6(2)] by blast
  show thesis
    by (rule that [OF _ 7(2)])
      (simp add: cmos_sampled_def 1 2 3 4 5 6 7 CMOS_CENTURY_REGISTER_def CURRENT_YEAR_def)
qed

text \<open>How a chip encodes a number below 100 and an hour: in binary or in two decimal digits, and the hour of a
  12-hour clock from 1 to 12 with bit 7 set in the afternoon.\<close>

definition cmos_number :: "bool \<Rightarrow> nat \<Rightarrow> u8" where
  "cmos_number binary v = (if binary then of_nat v else of_nat (16 * (v div 10) + v mod 10))"

definition cmos_hour :: "bool \<Rightarrow> bool \<Rightarrow> nat \<Rightarrow> u8" where
  "cmos_hour binary full h =
     (if full then cmos_number binary h
      else cmos_number binary (if h mod 12 = 0 then 12 else h mod 12) OR (if 12 \<le> h then 0x80 else 0))"

lemma bcd_to_bin_number: "v < 100 \<Longrightarrow> bcd_to_bin (ucast (cmos_number False v)) = of_nat v"
proof -
  have "\<forall>v \<in> set [0..<100]. bcd_to_bin (ucast (cmos_number False v)) = of_nat v" by code_simp
  then show "v < 100 \<Longrightarrow> bcd_to_bin (ucast (cmos_number False v)) = of_nat v" by simp
qed

lemma cmos_hours_value:
  assumes "h < 24"
  shows "(let v = ucast (cmos_hour binary full h) :: u32;
              v = (if binary then v else ((v AND 0x0F) + ((v AND 0x70) div 16) * 10) OR (v AND 0x80))
          in if \<not> full \<and> v AND 0x80 \<ge> 1 then ((v AND 0x7F) + 12) mod 24 else v) =
         of_nat (if \<not> full \<and> h mod 12 = 0 then (h + 12) mod 24 else h)"
proof -
  have all: "\<forall>b \<in> set [False, True]. \<forall>f \<in> set [False, True]. \<forall>h \<in> set [0..<24].
     (let v = ucast (cmos_hour b f h) :: u32;
          v = (if b then v else ((v AND 0x0F) + ((v AND 0x70) div 16) * 10) OR (v AND 0x80))
      in if \<not> f \<and> v AND 0x80 \<ge> 1 then ((v AND 0x7F) + 12) mod 24 else v) =
     of_nat (if \<not> f \<and> h mod 12 = 0 then (h + 12) mod 24 else h)" by code_simp
  have m: "binary \<in> set [False, True]" "full \<in> set [False, True]" "h \<in> set [0..<24]" using assms by auto
  show ?thesis by (rule bspec [OF bspec [OF bspec [OF all m(1)] m(2)] m(3)])
qed

lemma rtc_update_reads:
  assumes "cmos_shows regs (int_world s)"
    and c: "c = cmos_to_24h (cmos_from_bcd \<lparr>c_seconds = regs CMOS_SECONDS_REGISTER, c_minutes = regs CMOS_MINUTES_REGISTER,
        c_hours = ucast (regs CMOS_HOURS_REGISTER), c_day = ucast (regs CMOS_DAY_REGISTER),
        c_month = ucast (regs CMOS_MONTH_REGISTER), c_year = ucast (regs CMOS_YEAR_REGISTER),
        c_century = 20, c_reg_b = regs CMOS_REG_B\<rparr>)"
  shows "rtc_get_current_daytime (rtc_update_time s) = cmos_day_time c"
    "rtc_get_current_date (rtc_update_time s) =
       \<lparr>weekday = cmos_weekday (c_day c) (c_month c) (cmos_full_year c), day = c_day c, month = c_month c, year = cmos_full_year c\<rparr>"
proof -
  obtain w where w: "cmos_sampled (int_world s) =
      (\<lparr>c_seconds = regs CMOS_SECONDS_REGISTER, c_minutes = regs CMOS_MINUTES_REGISTER,
        c_hours = ucast (regs CMOS_HOURS_REGISTER), c_day = ucast (regs CMOS_DAY_REGISTER),
        c_month = ucast (regs CMOS_MONTH_REGISTER), c_year = ucast (regs CMOS_YEAR_REGISTER),
        c_century = 20, c_reg_b = regs CMOS_REG_B\<rparr>, w)" using cmos_sampled_shows [OF assms(1)] by blast
  have st: "statics (snd (cmos_read r v)) = statics v" for r v by (simp add: cmos_read_def cpu_inb_def cpu_outb_def)
  have id: "ucast (ucast x :: u32) = x" for x :: u16 by (rule bit_eqI) (auto simp: bit_simps)
  show "rtc_get_current_daytime (rtc_update_time s) = cmos_day_time c"
    unfolding rtc_update_time_def w Let_def case_prod_beta fst_conv snd_conv c [symmetric]
    by (simp add: rtc_get_current_daytime_def stat_def st) (simp add: put_time_def set_static_def)
  show "rtc_get_current_date (rtc_update_time s) =
       \<lparr>weekday = cmos_weekday (c_day c) (c_month c) (cmos_full_year c), day = c_day c, month = c_month c, year = cmos_full_year c\<rparr>"
    unfolding rtc_update_time_def w Let_def case_prod_beta fst_conv snd_conv c [symmetric]
    by (simp add: rtc_get_current_date_def stat_def st) (simp add: put_time_def set_static_def id)
qed

text \<open>The registers of a chip that shows the given time, in one of its four modes.\<close>

definition cmos_holds :: "bool \<Rightarrow> bool \<Rightarrow> (u8 \<Rightarrow> u8) \<Rightarrow> nat \<times> nat \<times> nat \<Rightarrow> nat \<times> nat \<times> nat \<Rightarrow> bool" where
  "cmos_holds binary full regs = (\<lambda>(h, m, s) (d, mo, y).
     h < 24 \<and> m < 60 \<and> s < 60 \<and> d \<le> 31 \<and> mo \<le> 12 \<and> y < 100 \<and>
     regs CMOS_HOURS_REGISTER = cmos_hour binary full h \<and> regs CMOS_MINUTES_REGISTER = cmos_number binary m \<and>
     regs CMOS_SECONDS_REGISTER = cmos_number binary s \<and> regs CMOS_DAY_REGISTER = cmos_number binary d \<and>
     regs CMOS_MONTH_REGISTER = cmos_number binary mo \<and> regs CMOS_YEAR_REGISTER = cmos_number binary y \<and>
     (regs CMOS_REG_B AND 0x04 \<noteq> 0) = binary \<and> (regs CMOS_REG_B AND 0x02 \<noteq> 0) = full)"

definition cmos_field :: "bool \<Rightarrow> u8 \<Rightarrow> u32" where
  "cmos_field binary r = (if binary then ucast r else bcd_to_bin (ucast r))"

lemma cmos_field_number: "v < 100 \<Longrightarrow> cmos_field binary (cmos_number binary v) = of_nat v"
proof (cases binary)
  case True
  assume "v < 100"
  then have "unat (of_nat v :: u8) = v" by (simp add: unat_of_nat)
  then have "ucast (of_nat v :: u8) = (of_nat v :: u32)" by (metis of_nat_unat)
  then show ?thesis using True by (simp add: cmos_field_def cmos_number_def)
qed (simp add: cmos_field_def bcd_to_bin_number)

lemma cmos_fields:
  fixes regs :: "u8 \<Rightarrow> u8"
  assumes c: "c = cmos_to_24h (cmos_from_bcd \<lparr>c_seconds = regs CMOS_SECONDS_REGISTER, c_minutes = regs CMOS_MINUTES_REGISTER,
        c_hours = ucast (regs CMOS_HOURS_REGISTER), c_day = ucast (regs CMOS_DAY_REGISTER),
        c_month = ucast (regs CMOS_MONTH_REGISTER), c_year = ucast (regs CMOS_YEAR_REGISTER),
        c_century = 20, c_reg_b = regs CMOS_REG_B\<rparr>)"
    and b: "(regs CMOS_REG_B AND 0x04 \<noteq> 0) = binary" and f: "(regs CMOS_REG_B AND 0x02 \<noteq> 0) = full"
  shows "c_seconds c = ucast (cmos_field binary (regs CMOS_SECONDS_REGISTER))"
    "c_minutes c = ucast (cmos_field binary (regs CMOS_MINUTES_REGISTER))"
    "c_day c = ucast (cmos_field binary (regs CMOS_DAY_REGISTER))"
    "c_month c = ucast (cmos_field binary (regs CMOS_MONTH_REGISTER))"
    "c_year c = ucast (cmos_field binary (regs CMOS_YEAR_REGISTER))"
    "c_hours c =
       (let v = ucast (regs CMOS_HOURS_REGISTER) :: u32;
            v = (if binary then v else ((v AND 0x0F) + ((v AND 0x70) div 16) * 10) OR (v AND 0x80))
        in if \<not> full \<and> v AND 0x80 \<ge> 1 then ((v AND 0x7F) + 12) mod 24 else v)"
proof -
  have u: "ucast (ucast r :: u32) = r" "ucast (ucast r :: u32) = (ucast r :: u16)" "ucast (ucast r :: u16) = (ucast r :: u32)" for r :: u8
    by (rule bit_eqI; auto simp: bit_simps dest: bit_imp_le_length)+
  show "c_seconds c = ucast (cmos_field binary (regs CMOS_SECONDS_REGISTER))"
    "c_minutes c = ucast (cmos_field binary (regs CMOS_MINUTES_REGISTER))"
    "c_day c = ucast (cmos_field binary (regs CMOS_DAY_REGISTER))"
    "c_month c = ucast (cmos_field binary (regs CMOS_MONTH_REGISTER))"
    "c_year c = ucast (cmos_field binary (regs CMOS_YEAR_REGISTER))"
    unfolding b [symmetric] by (simp_all add: c cmos_to_24h_def cmos_from_bcd_def cmos_field_def u)
  show "c_hours c =
       (let v = ucast (regs CMOS_HOURS_REGISTER) :: u32;
            v = (if binary then v else ((v AND 0x0F) + ((v AND 0x70) div 16) * 10) OR (v AND 0x80))
        in if \<not> full \<and> v AND 0x80 \<ge> 1 then ((v AND 0x7F) + 12) mod 24 else v)"
    unfolding b [symmetric] f [symmetric] by (simp add: c cmos_to_24h_def cmos_from_bcd_def Let_def)
qed

lemma ucast_small: "v < 100 \<Longrightarrow> ucast (of_nat v :: u32) = (of_nat v :: u8)" "v < 100 \<Longrightarrow> ucast (of_nat v :: u32) = (of_nat v :: u16)"
  "v < 100 \<Longrightarrow> ucast (of_nat v :: u8) = (of_nat v :: u32)" "v < 100 \<Longrightarrow> ucast (of_nat v :: u16) = (of_nat v :: u32)"
proof -
  have "unat (of_nat v :: u32) = v" "unat (of_nat v :: u16) = v" "unat (of_nat v :: u8) = v" if "v < 100"
    using that by (simp_all add: unat_of_nat)
  then show "v < 100 \<Longrightarrow> ucast (of_nat v :: u32) = (of_nat v :: u8)" "v < 100 \<Longrightarrow> ucast (of_nat v :: u32) = (of_nat v :: u16)"
    "v < 100 \<Longrightarrow> ucast (of_nat v :: u8) = (of_nat v :: u32)" "v < 100 \<Longrightarrow> ucast (of_nat v :: u16) = (of_nat v :: u32)"
    by (metis of_nat_unat)+
qed

section \<open>Properties\<close>

text \<open>C18. The time of day and the date read from the clock chip are those it shows, in binary and in
  decimal mode and on a 24-hour and on a 12-hour clock, with one exception: on a 12-hour clock the hours
  that start at noon and at midnight are read 12 hours off.\<close>

theorem rtc_update_time_correct:
  assumes "cmos_shows regs (int_world s)" "cmos_holds binary full regs (h, m, sec) (d, mo, y)"
  shows "rtc_get_current_daytime (rtc_update_time s) =
           of_nat (3600 * (if \<not> full \<and> h mod 12 = 0 then (h + 12) mod 24 else h) + 60 * m + sec) \<and>
         day (rtc_get_current_date (rtc_update_time s)) = of_nat d \<and>
         month (rtc_get_current_date (rtc_update_time s)) = of_nat mo \<and>
         year (rtc_get_current_date (rtc_update_time s)) = of_nat (2000 + y)"
proof (intro conjI)
  have a: "h < 24" "m < 100" "sec < 100" "d < 100" "mo < 100" "y < 100" "regs CMOS_HOURS_REGISTER = cmos_hour binary full h"
    "regs CMOS_MINUTES_REGISTER = cmos_number binary m" "regs CMOS_SECONDS_REGISTER = cmos_number binary sec"
    "regs CMOS_DAY_REGISTER = cmos_number binary d" "regs CMOS_MONTH_REGISTER = cmos_number binary mo"
    "regs CMOS_YEAR_REGISTER = cmos_number binary y"
    "(regs CMOS_REG_B AND 0x04 \<noteq> 0) = binary" "(regs CMOS_REG_B AND 0x02 \<noteq> 0) = full"
    using assms(2) by (simp_all add: cmos_holds_def)
  define c where "c = cmos_to_24h (cmos_from_bcd \<lparr>c_seconds = regs CMOS_SECONDS_REGISTER, c_minutes = regs CMOS_MINUTES_REGISTER,
        c_hours = ucast (regs CMOS_HOURS_REGISTER), c_day = ucast (regs CMOS_DAY_REGISTER),
        c_month = ucast (regs CMOS_MONTH_REGISTER), c_year = ucast (regs CMOS_YEAR_REGISTER),
        c_century = 20, c_reg_b = regs CMOS_REG_B\<rparr>)"
  note f = cmos_fields [OF c_def a(13,14), unfolded a(7-12) cmos_field_number [OF a(2)] cmos_field_number [OF a(3)]
      cmos_field_number [OF a(4)] cmos_field_number [OF a(5)] cmos_field_number [OF a(6)] cmos_hours_value [OF a(1)]]
  note r = rtc_update_reads [OF assms(1) c_def]
  show "rtc_get_current_daytime (rtc_update_time s) =
      of_nat (3600 * (if \<not> full \<and> h mod 12 = 0 then (h + 12) mod 24 else h) + 60 * m + sec)"
    unfolding r cmos_day_time_def f using a(2,3) by (simp add: ucast_small)
  show "day (rtc_get_current_date (rtc_update_time s)) = of_nat d" "month (rtc_get_current_date (rtc_update_time s)) = of_nat mo"
    unfolding r using a(4,5) by (simp_all add: f ucast_small)
  have "unat (of_nat y + 2000 :: u32) = y + 2000" using a(6) by (simp add: unat_word_ariths unat_of_nat)
  then have "ucast (of_nat y + 2000 :: u32) = (of_nat (2000 + y) :: u16)"
    by (metis add.commute of_nat_unat)
  then show "year (rtc_get_current_date (rtc_update_time s)) = of_nat (2000 + y)"
    unfolding r using a(6) by (simp add: cmos_full_year_def CMOS_CENTURY_REGISTER_def f ucast_small)
qed

text \<open>A clock that shows 14:35:07 on the 23rd of November 2020, on a 12-hour clock in decimal mode.\<close>

definition clock_example :: int_state where
  "clock_example = blank_ints\<lparr>int_world := (int_world blank_ints)\<lparr>device := (\<lambda>hs p.
     case hs of OutB q r # _ \<Rightarrow>
       (if r = CMOS_HOURS_REGISTER then 0x82 else if r = CMOS_MINUTES_REGISTER then 0x35
        else if r = CMOS_SECONDS_REGISTER then 0x07 else if r = CMOS_DAY_REGISTER then 0x23
        else if r = CMOS_MONTH_REGISTER then 0x11 else if r = CMOS_YEAR_REGISTER then 0x20 else 0)
     | _ \<Rightarrow> 0)\<rparr>\<rparr>"

theorem rtc_update_time_correct_witness:
  "rtc_get_current_daytime (rtc_update_time clock_example) = 52507 \<and>
   day (rtc_get_current_date (rtc_update_time clock_example)) = 23"
proof -
  let ?regs = "\<lambda>r :: u8. (if r = CMOS_HOURS_REGISTER then 0x82 else if r = CMOS_MINUTES_REGISTER then 0x35
        else if r = CMOS_SECONDS_REGISTER then 0x07 else if r = CMOS_DAY_REGISTER then 0x23
        else if r = CMOS_MONTH_REGISTER then 0x11 else if r = CMOS_YEAR_REGISTER then 0x20 else 0 :: u8)"
  have "cmos_shows ?regs (int_world clock_example)" by (simp add: cmos_shows_def clock_example_def)
  moreover have "cmos_holds False False ?regs (14, 35, 7) (23, 11, 20)"
    by (simp add: cmos_holds_def cmos_hour_def cmos_number_def cmos_consts)
  ultimately show ?thesis using rtc_update_time_correct [of ?regs clock_example False False 14 35 7 23 11 20] by simp
qed

text \<open>C17. The RTC driver keeps the contract of a timer for every sequence of requests through its
  \<^verbatim>\<open>kernel_timer_t\<close>: the codes returned, the nesting count, the frequency and the handler are those of the
  specification, the PIT is left alone, and IRQ 8 reaches the processor, through the cascade line, exactly
  when every request that disabled the timer has been undone.\<close>

theorem rtc_driver_refines:
  assumes "bus_ready s" "gate_ok (rtc_view s)"
  shows "\<exists>s'. serve_all (rtc_driver d) rs s = Ok (fst (timer_spec_all rtc_limits d rs (rtc_view s)), s') \<and>
           rtc_view s' = snd (timer_spec_all rtc_limits d rs (rtc_view s)) \<and> pit_view s' = pit_view s \<and>
           (irq_open RTC_IRQ_LINE s' \<longleftrightarrow> stat rtc_nesting s' = 0)"
proof -
  obtain s' where s': "serve_all (rtc_driver d) rs s = Ok (fst (timer_spec_all rtc_limits d rs (rtc_view s)), s')"
    "rtc_view s' = snd (timer_spec_all rtc_limits d rs (rtc_view s))" "pit_view s' = pit_view s"
    using rtc.serve_all_refines [OF assms(1), of d rs] by blast
  have "gate_ok (rtc_view s')" by (rule rtc.serve_all_gate [OF assms s'(1)])
  then show ?thesis using s' by (auto simp: gate_ok_def rtc_view_def timer_at_def unat_eq_0)
qed

theorem rtc_driver_refines_witness:
  "\<exists>s'. serve_all (rtc_driver 0x1000) [SetFrequency 100, Disable, Enable] timers_example =
          Ok ([OS_NO_ERR, OS_NO_ERR, OS_NO_ERR], s') \<and> \<not> irq_open RTC_IRQ_LINE s' \<and> rtc_get_frequency s' = 64"
proof -
  let ?rs = "[SetFrequency 100, Disable, Enable]"
  note v = timers_example_ok(3)
  have g: "gate_ok (rtc_view timers_example)" by (simp add: v gate_ok_def)
  have "timer_spec_all rtc_limits 0x1000 ?rs (rtc_view timers_example) =
      ([OS_NO_ERR, OS_NO_ERR, OS_NO_ERR], \<lparr>level = 1, opened = False, tfreq = 64, thandler = None\<rparr>)"
    by (simp add: v Let_def spec_pulse_def spec_enable_def spec_disable_def rtc_limits_def
        RTC_MIN_FREQ_def RTC_MAX_FREQ_def rtc_rate_def rtc_rate_freq_def RTC_QUARTZ_FREQ_def)
  with rtc_driver_refines [OF timers_example_ok(1) g, of "0x1000" ?rs] show ?thesis
    by (auto simp: rtc_view_def timer_at_def rtc_get_frequency_def)
qed

text \<open>For every accepted frequency the RTC driver programs the rate of the largest power of two that
  is not above it, and reports that power as its frequency: besides the masking of its IRQ, it selects
  register A, reads it, selects it again and writes it with its high half kept.\<close>

theorem rtc_set_frequency_programs:
  assumes "bus_ready s" "RTC_MIN_FREQ \<le> f" "f \<le> RTC_MAX_FREQ"
  shows "\<exists>s' prev k. rtc_set_frequency f s = Ok (OS_NO_ERR, s') \<and> rtc_get_frequency s' = 2 ^ k \<and>
           2 ^ k \<le> unat f \<and> unat f < 2 ^ (k + 1) \<and>
           port_trace {CMOS_COMM_PORT, CMOS_DATA_PORT} s' =
             [OutB CMOS_DATA_PORT ((prev AND 0xF0) OR (16 - of_nat k)), OutB CMOS_COMM_PORT 0x8A, InB CMOS_DATA_PORT,
              OutB CMOS_COMM_PORT 0x8A] @ port_trace {CMOS_COMM_PORT, CMOS_DATA_PORT} s"
proof -
  let ?P = "{CMOS_COMM_PORT, CMOS_DATA_PORT}" and ?r = "rtc_rate f"
  define k where "k = 16 - unat ?r"
  have fit: "3 \<le> ?r" "?r \<le> 15" "2 ^ k \<le> unat f" "unat f < 2 ^ (17 - unat ?r)"
    using rtc_rate_fits [OF assms(2,3)] by (simp_all add: rate_fits_def k_def)
  have rn: "3 \<le> unat ?r" "unat ?r \<le> 15" using fit(1,2) by (simp_all add: word_le_nat_alt)
  then have k1: "17 - unat ?r = k + 1" "unat ?r = 16 - k" "k \<le> 16" by (auto simp: k_def)
  obtain t where t: "rtc_disable s = Ok (OS_NO_ERR, t)" "bus_ready t"
    using gate_disable_view [OF assms(1) rtc_apart] by (auto simp: yields_def rtc_disable_def)
  define u where "u = t\<lparr>int_world := cmos_set_rate ?r (int_world t)\<rparr>"
  have bu: "bus_ready u" using undisturbed_view(1) [OF cmos_undisturbed(3) t(2)] by (simp add: u_def)
  define v where "v = set_stat rtc_freq (rtc_rate_freq ?r) u"
  have bv: "bus_ready v" "tfreq (rtc_view v) = rtc_rate_freq ?r"
    using set_freq_view [OF bu rtc_apart] by (simp_all add: v_def rtc_view_def)
  obtain s' where s': "rtc_enable v = Ok (OS_NO_ERR, s')" "rtc_view s' = spec_enable (rtc_view v)"
    using gate_enable_view [OF bv(1) rtc_apart] by (auto simp: yields_def rtc_enable_def rtc_view_def)
  have e: "rtc_set_frequency f s = Ok (OS_NO_ERR, s')"
    using assms(2,3) t(1) s'(1) by (simp add: rtc_set_frequency_def Let_def not_less flip: u_def v_def)
  have "tfreq (rtc_view s') = 2 ^ k" using s'(2) bv(2) rtc_rate_freq_power [OF fit(1,2)] by (simp add: spec_enable_def k_def)
  then have g: "rtc_get_frequency s' = 2 ^ k" by (simp add: rtc_view_def timer_at_def rtc_get_frequency_def)
  have on: "on_pic s" "on_pic v" and dis: "pic_data_ports \<inter> ?P = {}"
    using assms(1) bv(1) cmos_ports by (auto simp: bus_ready_def)
  have tr: "port_trace ?P t = port_trace ?P s" "port_trace ?P s' = port_trace ?P u"
    using gate_port_trace(2) [OF on(1) dis t(1) [unfolded rtc_disable_def]]
      gate_port_trace(1) [OF on(2) dis s'(1) [unfolded rtc_enable_def]] by (simp_all add: v_def)
  let ?prev = "device (int_world t) (OutB CMOS_COMM_PORT 0x8A # history (int_world t)) CMOS_DATA_PORT"
  have "ucast ?r = (16 - of_nat k :: u8)"
    using k1 by (metis of_nat_diff of_nat_numeral of_nat_unat)
  then have "port_trace ?P u = [OutB CMOS_DATA_PORT ((?prev AND 0xF0) OR (16 - of_nat k)), OutB CMOS_COMM_PORT 0x8A, InB CMOS_DATA_PORT,
              OutB CMOS_COMM_PORT 0x8A] @ port_trace ?P t"
    by (simp add: u_def port_trace_def cmos_set_rate_def cmos_update_def CMOS_NMI_DISABLE_BIT_def CMOS_REG_A_def cpu_inb_eq)
  then show ?thesis using e g tr fit(3,4) k1(1)
    by (intro exI [of _ s'] exI [of _ ?prev] exI [of _ k]) simp
qed

theorem rtc_set_frequency_programs_witness:
  "\<exists>s' k. rtc_set_frequency 100 timers_example = Ok (OS_NO_ERR, s') \<and> rtc_get_frequency s' = 2 ^ k \<and>
     2 ^ k \<le> (100 :: nat) \<and> 100 < (2 :: nat) ^ (k + 1)"
  using rtc_set_frequency_programs [OF timers_example_ok(1), of 100]
  by (auto simp: RTC_MIN_FREQ_def RTC_MAX_FREQ_def)

text \<open>The day of the week does not advance from the last day of January to the first of February.\<close>

lemma rtc_weekday_steps_down: "cmos_weekday 31 1 2020 = 4 \<and> cmos_weekday 1 2 2020 = 3"
  by (simp add: cmos_weekday_def)

end
