(* ===== verification/TimerStart.thy ===== *)
theory TimerStart
  imports Pit Rtc
begin

text \<open>
  Starting the clocks of a machine without IO-APIC: the part of \<^verbatim>\<open>kernel_kickstart\<close>
  (\<^verbatim>\<open>Sources/arch/cpu/i386/kernel_kickstart.c\<close>) that starts the PIT, the RTC and the time manager on them. The addresses
  of the two dummy handlers and of the handlers of the time manager are arguments.
\<close>

text \<open>The macro \<^verbatim>\<open>INIT_MSG\<close> with its last argument 1; what it prints is not modelled.\<close>

definition INIT_MSG :: "(OS_RETURN_E \<times> 's) outcome \<Rightarrow> ('s \<Rightarrow> 'a outcome) \<Rightarrow> 'a outcome" where
  "INIT_MSG r k = andthen r (\<lambda>(err, s). if err \<noteq> OS_NO_ERR then Panic err else k s)"

definition start_clocks :: "ptr \<Rightarrow> ptr \<Rightarrow> ptr \<Rightarrow> ptr \<Rightarrow> ptr \<Rightarrow> time_state \<Rightarrow> time_state outcome" where
  "start_clocks pit_dummy rtc_dummy main_handler rtc_handler aux_handler s =
     INIT_MSG (on_ints (pit_init pit_dummy) s) (\<lambda>s.
     INIT_MSG (on_ints (rtc_init rtc_dummy) s) (\<lambda>s.
     INIT_MSG (time_init main_handler rtc_handler aux_handler (Some (pit_driver pit_dummy)) (Some (rtc_driver rtc_dummy)) None s)
       (\<lambda>s. Ok s)))"

lemma INIT_MSG_simps [simp]: "INIT_MSG (Ok (OS_NO_ERR, s)) k = k s"
  by (simp add: INIT_MSG_def)

lemma on_ints_Ok: "f (ints s) = Ok (e, i) \<Longrightarrow> on_ints f s = Ok (e, s\<lparr>ints := i\<rparr>)"
  by (simp add: on_ints_def)

lemma time_init_two_timers:
  assumes pt: "pt = pit_driver d" and rt: "rt = rtc_driver d'"
    and i: "bus_ready i" "thandler (pit_view i) \<noteq> None" "level (pit_view i) \<le> 1"
      "thandler (rtc_view i) \<noteq> None" "level (rtc_view i) \<le> 1"
    and h: "mh \<noteq> NULL" "rh \<noteq> NULL" and s: "ints s = i" "set_frequency (sys_aux_timer s) = None"
  obtains i' where "time_init mh rh ah (Some pt) (Some rt) None s =
      Ok (OS_NO_ERR, s\<lparr>sys_main_timer := pt, sys_rtc_timer := rt, sys_tick_count := (\<lambda>_. 0), ints := i'\<rparr>)"
    "bus_ready i'"
    "pit_view i' = \<lparr>level = 0, opened = True, tfreq = 200, thandler = Some mh\<rparr>"
    "rtc_view i' = \<lparr>level = 0, opened = True, tfreq = 16, thandler = Some rh\<rparr>"
proof -
  have lim: "lowest pit_limits \<le> KERNEL_MAIN_TIMER_FREQ" "KERNEL_MAIN_TIMER_FREQ \<le> highest pit_limits"
    "lowest rtc_limits \<le> KERNEL_RTC_TIMER_FREQ" "KERNEL_RTC_TIMER_FREQ \<le> highest rtc_limits"
    and eff: "effective pit_limits KERNEL_MAIN_TIMER_FREQ = 200" "effective rtc_limits KERNEL_RTC_TIMER_FREQ = 16"
    by (simp_all add: pit_limits_def rtc_limits_def KERNEL_MAIN_TIMER_FREQ_def KERNEL_RTC_TIMER_FREQ_def PIT_MIN_FREQ_def
        PIT_MAX_FREQ_def RTC_MIN_FREQ_def RTC_MAX_FREQ_def rtc_rate_def rtc_rate_freq_def RTC_QUARTZ_FREQ_def)
  have lv: "level (pit_view i) < 2 ^ 32 - 1" using i(3) by simp
  obtain g1 g2 i1 i2 where m: "set_frequency pt = Some g1" "g1 KERNEL_MAIN_TIMER_FREQ i = Ok (OS_NO_ERR, i1)"
    "timer_set_handler pt = Some g2" "g2 mh i1 = Ok (OS_NO_ERR, i2)" "bus_ready i2" "rtc_view i2 = rtc_view i"
    "level (pit_view i2) = level (pit_view i)" "tfreq (pit_view i2) = 200" "thandler (pit_view i2) = Some mh"
    by (rule pit.set_frequency_handler [OF i(1) lim(1,2) i(2) h(1) lv, of d, folded pt, unfolded eff])
  have r2: "thandler (rtc_view i2) \<noteq> None" "level (rtc_view i2) < 2 ^ 32 - 1" using i(4,5) m(6) by simp_all
  obtain g3 g4 i3 i4 where r: "set_frequency rt = Some g3" "g3 KERNEL_RTC_TIMER_FREQ i2 = Ok (OS_NO_ERR, i3)"
    "timer_set_handler rt = Some g4" "g4 rh i3 = Ok (OS_NO_ERR, i4)" "bus_ready i4" "pit_view i4 = pit_view i2"
    "level (rtc_view i4) = level (rtc_view i2)" "tfreq (rtc_view i4) = 16" "thandler (rtc_view i4) = Some rh"
    by (rule rtc.set_frequency_handler [OF m(5) lim(3,4) r2(1) h(2) r2(2), of d', folded rt, unfolded eff])
  have l4: "level (pit_view i4) \<le> 1" using r(6) m(7) i(3) by simp
  obtain g5 i5 where e1: "timer_enable pt = Some g5" "g5 i4 = Ok (OS_NO_ERR, i5)" "bus_ready i5" "rtc_view i5 = rtc_view i4"
    "pit_view i5 = (pit_view i4)\<lparr>level := 0, opened := True\<rparr>"
    by (rule pit.enable_opens [OF r(5) l4, of d, folded pt])
  have l5: "level (rtc_view i5) \<le> 1" using e1(4) r(7) m(6) i(5) by simp
  obtain g6 i6 where e2: "timer_enable rt = Some g6" "g6 i5 = Ok (OS_NO_ERR, i6)" "bus_ready i6" "pit_view i6 = pit_view i5"
    "rtc_view i6 = (rtc_view i5)\<lparr>level := 0, opened := True\<rparr>"
    by (rule rtc.enable_opens [OF e1(3) l5, of d', folded rt])
  have all: "timer_has_all pt" "timer_has_all rt" unfolding pt rt by (rule pit.complete rtc.complete)+
  have "time_init mh rh ah (Some pt) (Some rt) None s =
      Ok (OS_NO_ERR, s\<lparr>sys_main_timer := pt, sys_rtc_timer := rt, sys_tick_count := (\<lambda>_. 0), ints := i6\<rparr>)"
    using all s m(1-4) r(1-4) e1(1,2) e2(1,2)
    by (simp add: time_init_def Let_def setup_timer_def on_ints_Ok)
  moreover have "pit_view i6 = \<lparr>level = 0, opened = True, tfreq = 200, thandler = Some mh\<rparr>"
    by (simp add: e2(4) e1(5) r(6) m)
  moreover have "rtc_view i6 = \<lparr>level = 0, opened = True, tfreq = 16, thandler = Some rh\<rparr>"
    by (simp add: e2(5) e1(4) r)
  ultimately show thesis using that e2(3) by blast
qed

text \<open>C15. On a machine without IO-APIC the clocks start: from controllers whose lines for the PIT and the RTC
  are free, the start-up returns without panic and leaves both timers enabled, the PIT at 200 Hz with the main
  handler of the time manager and the RTC at 16 Hz with its RTC handler, and after \<open>n\<close> ticks of the main timer
  on a CPU the uptime there is \<open>5 n\<close> milliseconds.\<close>

theorem start_clocks_ok:
  assumes "bus_ready (ints s)" "thandler (pit_view (ints s)) = None" "thandler (rtc_view (ints s)) = None"
    and "pd \<noteq> NULL" "rd \<noteq> NULL" "mh \<noteq> NULL" "rh \<noteq> NULL" "sys_aux_timer s = null_timer" "n < 2 ^ 61"
  shows "\<exists>s'. start_clocks pd rd mh rh ah s = Ok s' \<and>
           pit_view (ints s') = \<lparr>level = 0, opened = True, tfreq = 200, thandler = Some mh\<rparr> \<and>
           rtc_view (ints s') = \<lparr>level = 0, opened = True, tfreq = 16, thandler = Some rh\<rparr> \<and>
           (\<exists>s'' u. after_ticks c n s' = Ok s'' \<and> time_get_current_uptime c s'' = Ok u \<and> unat u = 5 * n)"
proof -
  obtain i1 where i1: "pit_init pd (ints s) = Ok (OS_NO_ERR, i1)" "bus_ready i1" "rtc_view i1 = rtc_view (ints s)"
    "pit_view i1 = \<lparr>level = 0, opened = True, tfreq = PIT_INIT_FREQ, thandler = Some pd\<rparr>"
    using pit_init_view [OF assms(1,2,4)] by metis
  have r1: "thandler (rtc_view i1) = None" using i1(3) assms(3) by simp
  obtain i2 where i2: "rtc_init rd i1 = Ok (OS_NO_ERR, i2)" "bus_ready i2" "pit_view i2 = pit_view i1"
    "rtc_view i2 = \<lparr>level = 0, opened = True, tfreq = 64, thandler = Some rd\<rparr>"
    using rtc_init_view [OF i1(2) r1 assms(5)] by metis
  have v2: "thandler (pit_view i2) \<noteq> None" "level (pit_view i2) \<le> 1" "thandler (rtc_view i2) \<noteq> None" "level (rtc_view i2) \<le> 1"
    by (simp_all add: i2 i1)
  have aux: "set_frequency (sys_aux_timer (s\<lparr>ints := i2\<rparr>)) = None" using assms(8) by (simp add: null_timer_def)
  have "ints (s\<lparr>ints := i2\<rparr>) = i2" by simp
  from time_init_two_timers [OF refl refl i2(2) v2 assms(6,7) this aux, of ah pd rd] obtain i3 where i3:
    "time_init mh rh ah (Some (pit_driver pd)) (Some (rtc_driver rd)) None (s\<lparr>ints := i2\<rparr>) =
      Ok (OS_NO_ERR, s\<lparr>ints := i2, sys_main_timer := pit_driver pd, sys_rtc_timer := rtc_driver rd, sys_tick_count := (\<lambda>_. 0), ints := i3\<rparr>)"
    "pit_view i3 = \<lparr>level = 0, opened = True, tfreq = 200, thandler = Some mh\<rparr>"
    "rtc_view i3 = \<lparr>level = 0, opened = True, tfreq = 16, thandler = Some rh\<rparr>" by metis
  define s' where "s' = s\<lparr>ints := i2, sys_main_timer := pit_driver pd, sys_rtc_timer := rtc_driver rd, sys_tick_count := (\<lambda>_. 0), ints := i3\<rparr>"
  have start: "start_clocks pd rd mh rh ah s = Ok s'"
    using i1(1) i2(1) i3(1) by (simp add: start_clocks_def on_ints_Ok s'_def)
  have runs: "runs_at 200 s'"
    using pit.frequency [of pd pit_get_frequency i3] by (simp add: runs_at_def s'_def pit_driver_def i3(2))
  from after_ticks_step [OF this, of c n] obtain s'' where s'': "after_ticks c n s' = Ok s''" "runs_at 200 s''"
    "sys_tick_count s'' = (sys_tick_count s')(c := sys_tick_count s' c + of_nat n)" by auto
  have "time_get_current_uptime c s'' = Ok (of_nat (5 * n))"
    using s''(2,3) runs_at_slice [OF s''(2)] by (auto simp: time_get_current_uptime_def runs_at_def s'_def)
  moreover have "unat (of_nat (5 * n) :: u64) = 5 * n" using assms(9) by (simp add: unat_of_nat del: of_nat_mult)
  ultimately show ?thesis using start s''(1) i3(2,3) by (auto simp: s'_def)
qed

theorem start_clocks_ok_witness:
  "\<exists>s'. start_clocks 0x1000 0x2000 0x3000 0x4000 0x5000 (time_example\<lparr>ints := timers_example\<rparr>) = Ok s' \<and>
     (\<exists>s'' u. after_ticks 0 30 s' = Ok s'' \<and> time_get_current_uptime 0 s'' = Ok u \<and> unat u = 150)"
  using start_clocks_ok [of "time_example\<lparr>ints := timers_example\<rparr>" "0x1000" "0x2000" "0x3000" "0x4000" 30 "0x5000" 0]
    timers_example_ok by (auto simp: time_example_def)

end
