(* ===== verification/MemLib.thy ===== *)
theory MemLib
  imports Prelude
begin

unbundle bit_operations_syntax

text \<open>
  The memory functions of the kernel's library (\<^verbatim>\<open>Sources/lib/mem*.c\<close>) on a memory of bytes: an address that is
  not mapped is a \<open>Fault\<close>. On i386 \<^verbatim>\<open>memcpy\<close>, \<^verbatim>\<open>memmove\<close> and \<^verbatim>\<open>memset\<close> are string instructions, modelled one
  transfer at a time, so that the theorems cover overlapping regions. A counted loop \<^verbatim>\<open>while(n--)\<close> is a
  recursion on \<open>n\<close>.
\<close>

section \<open>Memory\<close>

type_synonym bytes = "ptr \<rightharpoonup> u8"

definition load :: "bytes \<Rightarrow> ptr \<Rightarrow> u8 outcome" where
  "load m p = deref m p"

definition store :: "bytes \<Rightarrow> ptr \<Rightarrow> u8 \<Rightarrow> bytes outcome" where
  "store m p v = modify m p (\<lambda>_. v)"

text \<open>A 32-bit access is four bytes, lowest first.\<close>

definition load4 :: "bytes \<Rightarrow> ptr \<Rightarrow> u32 outcome" where
  "load4 m p =
     andthen (load m p) (\<lambda>b0. andthen (load m (p + 1)) (\<lambda>b1. andthen (load m (p + 2)) (\<lambda>b2. andthen (load m (p + 3)) (\<lambda>b3.
     Ok (ucast b0 OR push_bit 8 (ucast b1) OR push_bit 16 (ucast b2) OR push_bit 24 (ucast b3))))))"

definition store4 :: "bytes \<Rightarrow> ptr \<Rightarrow> u32 \<Rightarrow> bytes outcome" where
  "store4 m p v =
     andthen (store m p (ucast v)) (\<lambda>m. andthen (store m (p + 1) (ucast (drop_bit 8 v))) (\<lambda>m.
     andthen (store m (p + 2) (ucast (drop_bit 16 v))) (\<lambda>m. store m (p + 3) (ucast (drop_bit 24 v)))))"

section \<open>String instructions\<close>

text \<open>\<^verbatim>\<open>rep movsb\<close>, \<^verbatim>\<open>rep movsl\<close>, \<^verbatim>\<open>rep stosb\<close> and \<^verbatim>\<open>rep stosl\<close>, upwards after \<^verbatim>\<open>cld\<close> and downwards after \<^verbatim>\<open>std\<close>;
  the registers are the source and the destination.\<close>

primrec rep_movsb :: "nat \<Rightarrow> ptr \<Rightarrow> ptr \<Rightarrow> bytes \<Rightarrow> (ptr \<times> ptr \<times> bytes) outcome" where
  "rep_movsb 0 p q m = Ok (p, q, m)"
| "rep_movsb (Suc n) p q m = andthen (load m p) (\<lambda>v. andthen (store m q v) (rep_movsb n (p + 1) (q + 1)))"

primrec rep_movsb_down :: "nat \<Rightarrow> ptr \<Rightarrow> ptr \<Rightarrow> bytes \<Rightarrow> (ptr \<times> ptr \<times> bytes) outcome" where
  "rep_movsb_down 0 p q m = Ok (p, q, m)"
| "rep_movsb_down (Suc n) p q m = andthen (load m p) (\<lambda>v. andthen (store m q v) (rep_movsb_down n (p - 1) (q - 1)))"

primrec rep_movsl :: "nat \<Rightarrow> ptr \<Rightarrow> ptr \<Rightarrow> bytes \<Rightarrow> (ptr \<times> ptr \<times> bytes) outcome" where
  "rep_movsl 0 p q m = Ok (p, q, m)"
| "rep_movsl (Suc n) p q m = andthen (load4 m p) (\<lambda>v. andthen (store4 m q v) (rep_movsl n (p + 4) (q + 4)))"

primrec rep_stosb :: "nat \<Rightarrow> ptr \<Rightarrow> u32 \<Rightarrow> bytes \<Rightarrow> (ptr \<times> bytes) outcome" where
  "rep_stosb 0 q v m = Ok (q, m)"
| "rep_stosb (Suc n) q v m = andthen (store m q (ucast v)) (rep_stosb n (q + 1) v)"

primrec rep_stosl :: "nat \<Rightarrow> ptr \<Rightarrow> u32 \<Rightarrow> bytes \<Rightarrow> (ptr \<times> bytes) outcome" where
  "rep_stosl 0 q v m = Ok (q, m)"
| "rep_stosl (Suc n) q v m = andthen (store4 m q v) (rep_stosl n (q + 4) v)"

section \<open>The functions\<close>

definition memcpy :: "ptr \<Rightarrow> ptr \<Rightarrow> u32 \<Rightarrow> bytes \<Rightarrow> (ptr \<times> bytes) outcome" where
  "memcpy dst src n m =
     andthen (rep_movsl (unat (drop_bit 2 n)) src dst m) (\<lambda>(p, q, m).
     andthen (rep_movsb (unat (n AND 3)) p q m) (\<lambda>(p, q, m). Ok (dst, m)))"

definition memmove :: "ptr \<Rightarrow> ptr \<Rightarrow> u32 \<Rightarrow> bytes \<Rightarrow> (ptr \<times> bytes) outcome" where
  "memmove dst src n m =
     andthen (if dst < src then rep_movsb (unat n) src dst m
              else rep_movsb_down (unat n) (src + (n - 1)) (dst + (n - 1)) m) (\<lambda>(p, q, m). Ok (dst, m))"

definition memset :: "ptr \<Rightarrow> u32 \<Rightarrow> u32 \<Rightarrow> bytes \<Rightarrow> (ptr \<times> bytes) outcome" where
  "memset dst c n m =
     (let v = ucast (ucast c :: u8) * 0x01010101 :: u32
      in andthen (rep_stosl (unat (drop_bit 2 n)) dst v m) (\<lambda>(q, m).
         andthen (rep_stosb (unat (n AND 3)) q v m) (\<lambda>(q, m). Ok (dst, m))))"

text \<open>\<^verbatim>\<open>memcmp\<close> returns an \<^verbatim>\<open>int\<close>.\<close>

primrec memcmp_loop :: "nat \<Rightarrow> ptr \<Rightarrow> ptr \<Rightarrow> bytes \<Rightarrow> int outcome" where
  "memcmp_loop 0 c1 c2 m = Ok 0"
| "memcmp_loop (Suc n) c1 c2 m =
     andthen (load m c1) (\<lambda>x. andthen (load m c2) (\<lambda>y.
       let d = uint x - uint y in if d \<noteq> 0 then Ok d else memcmp_loop n (c1 + 1) (c2 + 1) m))"

definition memcmp :: "ptr \<Rightarrow> ptr \<Rightarrow> u32 \<Rightarrow> bytes \<Rightarrow> int outcome" where
  "memcmp s1 s2 n m = memcmp_loop (unat n) s1 s2 m"

primrec memchr_loop :: "nat \<Rightarrow> ptr \<Rightarrow> u8 \<Rightarrow> bytes \<Rightarrow> ptr outcome" where
  "memchr_loop 0 sp c m = Ok NULL"
| "memchr_loop (Suc n) sp c m = andthen (load m sp) (\<lambda>x. if x = c then Ok sp else memchr_loop n (sp + 1) c m)"

definition memchr :: "ptr \<Rightarrow> u32 \<Rightarrow> u32 \<Rightarrow> bytes \<Rightarrow> ptr outcome" where
  "memchr s c n m = memchr_loop (unat n) s (ucast c) m"

primrec memrchr_loop :: "nat \<Rightarrow> ptr \<Rightarrow> u8 \<Rightarrow> bytes \<Rightarrow> ptr outcome" where
  "memrchr_loop 0 sp c m = Ok NULL"
| "memrchr_loop (Suc n) sp c m = andthen (load m sp) (\<lambda>x. if x = c then Ok sp else memrchr_loop n (sp - 1) c m)"

definition memrchr :: "ptr \<Rightarrow> u32 \<Rightarrow> u32 \<Rightarrow> bytes \<Rightarrow> ptr outcome" where
  "memrchr s c n m = memrchr_loop (unat n) (s + n - 1) (ucast c) m"

primrec memccpy_loop :: "nat \<Rightarrow> ptr \<Rightarrow> ptr \<Rightarrow> u8 \<Rightarrow> bytes \<Rightarrow> (ptr \<times> bytes) outcome" where
  "memccpy_loop 0 q p c m = Ok (NULL, m)"
| "memccpy_loop (Suc n) q p c m =
     andthen (load m p) (\<lambda>ch. andthen (store m q ch) (\<lambda>m.
       if ch = c then Ok (q + 1, m) else memccpy_loop n (q + 1) (p + 1) c m))"

definition memccpy :: "ptr \<Rightarrow> ptr \<Rightarrow> u32 \<Rightarrow> u32 \<Rightarrow> bytes \<Rightarrow> (ptr \<times> bytes) outcome" where
  "memccpy dst src c n m = memccpy_loop (unat n) dst src (ucast c) m"

primrec memswap_loop :: "nat \<Rightarrow> ptr \<Rightarrow> ptr \<Rightarrow> bytes \<Rightarrow> bytes outcome" where
  "memswap_loop 0 p q m = Ok m"
| "memswap_loop (Suc n) p q m =
     andthen (load m p) (\<lambda>tmp. andthen (load m q) (\<lambda>v. andthen (store m p v) (\<lambda>m.
     andthen (store m q tmp) (memswap_loop n (p + 1) (q + 1)))))"

definition memswap :: "ptr \<Rightarrow> ptr \<Rightarrow> u32 \<Rightarrow> bytes \<Rightarrow> bytes outcome" where
  "memswap m1 m2 n m = memswap_loop (unat n) m1 m2 m"

text \<open>The two searches of \<^verbatim>\<open>memmem\<close>: with a needle of one byte, and with the two skips \<open>k\<close> and \<open>l\<close>, whose loop ends
  because both are positive.\<close>

primrec memmem_one :: "nat \<Rightarrow> ptr \<Rightarrow> ptr \<Rightarrow> bytes \<Rightarrow> ptr outcome" where
  "memmem_one 0 y x m = Ok NULL"
| "memmem_one (Suc n) y x m =
     andthen (load m y) (\<lambda>a. andthen (load m x) (\<lambda>b. if a = b then Ok y else memmem_one n (y + 1) x m))"

definition memmem_pass :: "ptr \<Rightarrow> u32 \<Rightarrow> ptr \<Rightarrow> u32 \<Rightarrow> u32 \<Rightarrow> u32 \<Rightarrow> bytes \<Rightarrow> u32 \<times> ptr option \<Rightarrow> (bool \<times> u32 \<times> ptr option) outcome" where
  "memmem_pass y n x nm k l m = (\<lambda>(j, r).
     if j \<le> n - nm
     then andthen (load m (x + 1)) (\<lambda>x1. andthen (load m (y + (j + 1))) (\<lambda>y1.
            if x1 \<noteq> y1 then Ok (True, j + k, r)
            else andthen (memcmp (x + 2) (y + j + 2) (nm - 2) m) (\<lambda>d.
                 andthen (if d = 0 then andthen (load m x) (\<lambda>x0. andthen (load m (y + j)) (\<lambda>y0. Ok (x0 = y0))) else Ok False)
                   (\<lambda>found. if found then Ok (False, j, Some (y + j)) else Ok (True, j + l, r)))))
     else Ok (False, j, r))"

definition memmem :: "ptr \<Rightarrow> u32 \<Rightarrow> ptr \<Rightarrow> u32 \<Rightarrow> bytes \<Rightarrow> ptr outcome" where
  "memmem y n x nm m =
     (if nm > n \<or> nm = 0 \<or> n = 0 then Ok NULL
      else if nm \<noteq> 1
      then andthen (load m x) (\<lambda>x0. andthen (load m (x + 1)) (\<lambda>x1.
           let (k, l) = (if x0 = x1 then (2, 1) else (1, 2))
           in andthen (while_do (memmem_pass y n x nm k l m) (0, None)) (\<lambda>(_, r).
              Ok (case r of None \<Rightarrow> NULL | Some q \<Rightarrow> q))))
      else memmem_one (unat n) y x m)"

section \<open>Regions\<close>

text \<open>The memory holds \<open>xs\<close> at \<open>p\<close>; a region can be written; the memory after \<open>xs\<close> was written at \<open>q\<close>.\<close>

definition bytes_at :: "bytes \<Rightarrow> ptr \<Rightarrow> u8 list \<Rightarrow> bool" where
  "bytes_at m p xs \<longleftrightarrow> (\<forall>i < length xs. m (p + of_nat i) = Some (xs ! i))"

definition writable :: "bytes \<Rightarrow> ptr \<Rightarrow> nat \<Rightarrow> bool" where
  "writable m q n \<longleftrightarrow> (\<forall>i < n. m (q + of_nat i) \<noteq> None)"

definition wrote :: "bytes \<Rightarrow> ptr \<Rightarrow> u8 list \<Rightarrow> bytes" where
  "wrote m q xs = (\<lambda>a. if unat (a - q) < length xs then Some (xs ! unat (a - q)) else m a)"

lemma bytes_at_simps [simp]:
  "bytes_at m p []"
  "bytes_at m p (x # xs) \<longleftrightarrow> m p = Some x \<and> bytes_at m (p + 1) xs"
  by (auto simp: bytes_at_def less_Suc_eq_0_disj algebra_simps)

lemma bytes_at_append [simp]: "bytes_at m p (xs @ ys) \<longleftrightarrow> bytes_at m p xs \<and> bytes_at m (p + of_nat (length xs)) ys"
  by (induction xs arbitrary: p) (auto simp: algebra_simps)

lemma writable_simps [simp]:
  "writable m q 0"
  "writable m q (Suc n) \<longleftrightarrow> m q \<noteq> None \<and> writable m (q + 1) n"
  by (auto simp: writable_def less_Suc_eq_0_disj algebra_simps)

lemma writable_add: "writable m q (a + b) \<longleftrightarrow> writable m q a \<and> writable m (q + of_nat a) b"
  by (induction a arbitrary: q) (auto simp: algebra_simps)

lemma writable_mono [simp]: "writable m q n \<Longrightarrow> writable (m(a \<mapsto> v)) q n"
  by (auto simp: writable_def)

lemma wrote_Nil [simp]: "wrote m q [] = m"
  by (simp add: wrote_def)

lemma wrote_Cons:
  assumes "length xs < 2 ^ 32"
  shows "wrote m q (x # xs) = wrote (m(q \<mapsto> x)) (q + 1) xs"
proof
  fix a
  show "wrote m q (x # xs) a = wrote (m(q \<mapsto> x)) (q + 1) xs a"
  proof (cases "a = q")
    case True
    have "unat (- 1 :: u32) = 2 ^ 32 - 1" by (simp add: unsigned_minus_1_eq_mask mask_eq_exp_minus_1)
    then show ?thesis using True assms by (simp add: wrote_def)
  next
    case False
    have "unat (a - q) = Suc (unat (a - (q + 1)))"
    proof -
      have "a - q \<noteq> 0" using False by simp
      then have "unat (a - q - 1) = unat (a - q) - 1" "0 < unat (a - q)"
        by (simp_all add: unat_minus_one unat_gt_0)
      then show ?thesis by (simp add: algebra_simps)
    qed
    then show ?thesis using False by (simp add: wrote_def)
  qed
qed

lemma wrote_append:
  "length (xs @ ys) \<le> 2 ^ 32 \<Longrightarrow> wrote (wrote m q xs) (q + of_nat (length xs)) ys = wrote m q (xs @ ys)"
proof (induction xs arbitrary: m q)
  case (Cons x xs)
  have e: "q + of_nat (length (x # xs)) = (q + 1) + of_nat (length xs)" by simp
  show ?case unfolding e using Cons by (simp add: wrote_Cons del: fun_upd_apply)
qed simp

lemma wrote_bytes_at: "length xs \<le> 2 ^ 32 \<Longrightarrow> bytes_at (wrote m q xs) q xs"
  by (auto simp: bytes_at_def wrote_def unat_of_nat)

lemma wrote_outside: "\<not> unat (a - q) < length xs \<Longrightarrow> wrote m q xs a = m a"
  by (simp add: wrote_def)

lemma writable_wrote [simp]: "writable m p n \<Longrightarrow> writable (wrote m q xs) p n"
  by (auto simp: writable_def wrote_def)

lemma bytes_at_upd:
  "bytes_at m p xs \<Longrightarrow> length xs \<le> unat (a - p) \<Longrightarrow> bytes_at (m(a \<mapsto> v)) p xs"
proof -
  assume b: "bytes_at m p xs" and le: "length xs \<le> unat (a - p)"
  have "p + of_nat i \<noteq> a" if "i < length xs" for i
  proof
    assume "p + of_nat i = a"
    then have "a - p = of_nat i" by auto
    then have "unat (a - p) \<le> i" by (simp add: unat_of_nat)
    then show False using that le by simp
  qed
  then show ?thesis using b by (simp add: bytes_at_def)
qed

text \<open>Copying upwards is right when the destination does not start inside the unread part of the source.\<close>

definition clear_of :: "ptr \<Rightarrow> nat \<Rightarrow> ptr \<Rightarrow> bool" where
  "clear_of p n q \<longleftrightarrow> p = q \<or> n \<le> unat (q - p)"

lemma copy_step:
  assumes "bytes_at m p (x # xs)" "clear_of p (Suc (length xs)) q"
  shows "bytes_at (m(q \<mapsto> x)) (p + 1) xs" "clear_of (p + 1) (length xs) (q + 1)"
proof -
  have m: "m p = Some x" "bytes_at m (p + 1) xs" using assms(1) by simp_all
  show "clear_of (p + 1) (length xs) (q + 1)" using assms(2) by (auto simp: clear_of_def)
  show "bytes_at (m(q \<mapsto> x)) (p + 1) xs"
  proof (cases "p = q")
    case True
    then show ?thesis using m by (simp add: fun_upd_idem)
  next
    case False
    then have "unat (q - p) = Suc (unat (q - (p + 1)))"
      using unat_minus_one [of "q - p"] unat_gt_0 [of "q - p"] by (simp add: diff_diff_eq)
    then have "length xs \<le> unat (q - (p + 1))" using assms(2) False by (simp add: clear_of_def)
    then show ?thesis by (rule bytes_at_upd [OF m(2)])
  qed
qed

lemma rep_movsb_ok:
  "bytes_at m p xs \<Longrightarrow> writable m q (length xs) \<Longrightarrow> length xs \<le> 2 ^ 32 \<Longrightarrow> clear_of p (length xs) q \<Longrightarrow>
     rep_movsb (length xs) p q m = Ok (p + of_nat (length xs), q + of_nat (length xs), wrote m q xs)"
proof (induction xs arbitrary: p q m)
  case (Cons x xs)
  have m: "m p = Some x" and q: "m q \<noteq> None" "writable m (q + 1) (length xs)" using Cons.prems by auto
  have "clear_of p (Suc (length xs)) q" using Cons.prems(4) by simp
  note step = copy_step [OF Cons.prems(1) this]
  from Cons.IH [OF step(1) _ _ step(2)] q m Cons.prems(3) show ?case
    by (simp add: load_def store_def deref_def modify_def wrote_Cons add.assoc split: option.splits del: fun_upd_apply)
qed simp

lemma bytes_at_drop: "bytes_at m p xs \<Longrightarrow> k \<le> length xs \<Longrightarrow> bytes_at m (p + of_nat k) (drop k xs)"
  using bytes_at_append [of m p "take k xs" "drop k xs"] by simp

lemma wrote_one: "wrote m q [x] = m(q \<mapsto> x)"
  by (simp add: wrote_Cons)

lemma wrote_upd_commute:
  assumes "length xs < 2 ^ 32"
  shows "wrote (m(q + of_nat (length xs) \<mapsto> x)) q xs = wrote m q (xs @ [x])"
proof -
  have "wrote (m(q + of_nat (length xs) \<mapsto> x)) q xs = (wrote m q xs)(q + of_nat (length xs) \<mapsto> x)"
    using assms by (auto simp: wrote_def fun_eq_iff unat_of_nat)
  also have "\<dots> = wrote m q (xs @ [x])" using wrote_append [of xs "[x]" m q] assms by (simp add: wrote_one)
  finally show ?thesis .
qed

lemma rep_movsb_down_ok:
  "bytes_at m p xs \<Longrightarrow> writable m q (length xs) \<Longrightarrow> length xs \<le> 2 ^ 32 \<Longrightarrow> p = q \<or> length xs \<le> unat (p - q) \<Longrightarrow>
     rep_movsb_down (length xs) (p + of_nat (length xs) - 1) (q + of_nat (length xs) - 1) m = Ok (p - 1, q - 1, wrote m q xs)"
proof (induction xs arbitrary: m rule: rev_induct)
  case (snoc x xs)
  let ?n = "length xs" let ?m = "m(q + of_nat ?n \<mapsto> x)"
  have m: "m (p + of_nat ?n) = Some x" "bytes_at m p xs" and q: "m (q + of_nat ?n) \<noteq> None" "writable m q ?n"
    using snoc.prems(1,2) writable_add [of m q ?n 1] by auto
  have n: "?n < 2 ^ 32" using snoc.prems(3) by simp
  have "bytes_at ?m p xs"
  proof (rule bytes_at_upd [OF m(2)], rule ccontr)
    let ?e = "q + of_nat ?n - p"
    assume "\<not> ?n \<le> unat ?e"
    then have lt: "unat ?e < ?n" by simp
    have "p - q = of_nat (?n - unat ?e)" using lt by (simp add: of_nat_diff)
    then have "unat (p - q) = ?n - unat ?e" using n by (simp add: unat_of_nat)
    moreover have "p \<noteq> q" using lt n by (auto simp: unat_of_nat)
    ultimately show False using snoc.prems(4) lt by simp
  qed
  moreover have "p = q \<or> ?n \<le> unat (p - q)" using snoc.prems(4) by auto
  ultimately have ih: "rep_movsb_down ?n (p + of_nat ?n - 1) (q + of_nat ?n - 1) ?m = Ok (p - 1, q - 1, wrote ?m q xs)"
    using q(2) n by (intro snoc.IH) (simp_all del: fun_upd_apply)
  have e: "p + of_nat (length (xs @ [x])) - 1 = p + of_nat ?n" "q + of_nat (length (xs @ [x])) - 1 = q + of_nat ?n" by simp_all
  show ?case unfolding e using ih m(1) q(1) wrote_upd_commute [OF n]
    by (auto simp: load_def store_def deref_def modify_def simp del: fun_upd_apply)
qed simp

definition dword :: "u8 \<Rightarrow> u8 \<Rightarrow> u8 \<Rightarrow> u8 \<Rightarrow> u32" where
  "dword a b c d = ucast a OR push_bit 8 (ucast b) OR push_bit 16 (ucast c) OR push_bit 24 (ucast d)"

lemma dword_bytes:
  "ucast (dword a b c d) = a" "ucast (drop_bit 8 (dword a b c d)) = b"
  "ucast (drop_bit 16 (dword a b c d)) = c" "ucast (drop_bit 24 (dword a b c d)) = d"
  unfolding dword_def by (rule bit_eqI; auto simp: bit_simps dest: bit_imp_le_length)+

lemma load4_ok: "bytes_at m p [a, b, c, d] \<Longrightarrow> load4 m p = Ok (dword a b c d)"
  by (simp add: load4_def load_def deref_def dword_def add.assoc)

lemma store4_ok:
  assumes "writable m q 4"
  shows "store4 m q (dword a b c d) = Ok (wrote m q [a, b, c, d])"
proof -
  have "m q \<noteq> None" "m (q + 1) \<noteq> None" "m (q + 2) \<noteq> None" "m (q + 3) \<noteq> None"
    using assms [unfolded writable_def, rule_format, of 0] assms [unfolded writable_def, rule_format, of 1]
      assms [unfolded writable_def, rule_format, of 2] assms [unfolded writable_def, rule_format, of 3] by simp_all
  moreover have "wrote m q [a, b, c, d] = m(q \<mapsto> a, q + 1 \<mapsto> b, q + 2 \<mapsto> c, q + 3 \<mapsto> d)"
    by (simp add: wrote_Cons add.assoc)
  ultimately show ?thesis
    unfolding store4_def store_def dword_bytes by (auto simp: modify_def)
qed

lemma bytes_at_wrote:
  assumes "bytes_at m p xs" "length xs + length ys \<le> 2 ^ 32" "\<forall>i < length xs. \<forall>j < length ys. p + of_nat i \<noteq> q + of_nat j"
  shows "bytes_at (wrote m q ys) p xs"
proof -
  have "\<not> unat (p + of_nat i - q) < length ys" if "i < length xs" for i
  proof
    assume lt: "unat (p + of_nat i - q) < length ys"
    have "p + of_nat i = q + of_nat (unat (p + of_nat i - q))" by simp
    then show False using assms(3) that lt by blast
  qed
  then show ?thesis using assms(1) by (simp add: bytes_at_def wrote_outside)
qed

text \<open>Writing below the unread part of the source does not change it.\<close>

lemma ahead_kept:
  assumes "bytes_at m (p + of_nat k) ys" "length xs = k" "k + length ys \<le> 2 ^ 32" "p = q \<and> bytes_at m p xs \<or> k + length ys \<le> unat (q - p)"
  shows "bytes_at (wrote m q xs) (p + of_nat k) ys"
proof (cases "p = q \<and> bytes_at m p xs")
  case True
  then have "wrote m q xs = m"
    by (auto simp: wrote_def bytes_at_def fun_eq_iff)
  then show ?thesis using assms(1) by simp
next
  case False
  then have d: "k + length ys \<le> unat (q - p)" using assms(4) by blast
  show ?thesis
  proof (rule bytes_at_wrote [OF assms(1)])
    show "length ys + length xs \<le> 2 ^ 32" using assms(2,3) by simp
    show "\<forall>i < length ys. \<forall>j < length xs. p + of_nat k + of_nat i \<noteq> q + of_nat j"
    proof (intro allI impI notI)
      fix i j assume i: "i < length ys" and j: "j < length xs" and e: "p + of_nat k + of_nat i = q + of_nat j"
      have "q - p = of_nat (k + i - j)" using e j assms(2) by (simp add: of_nat_diff algebra_simps)
      then have "unat (q - p) \<le> k + i - j" by (simp add: unat_of_nat)
      then show False using d i by simp
    qed
  qed
qed

lemma rep_movsl_ok:
  "bytes_at m p xs \<Longrightarrow> length xs = 4 * k \<Longrightarrow> writable m q (length xs) \<Longrightarrow> length xs \<le> 2 ^ 32 \<Longrightarrow> p = q \<or> length xs \<le> unat (q - p) \<Longrightarrow>
     rep_movsl k p q m = Ok (p + of_nat (length xs), q + of_nat (length xs), wrote m q xs)"
proof (induction k arbitrary: p q m xs)
  case (Suc k)
  obtain a b c d ys where xs: "xs = [a, b, c, d] @ ys" "length ys = 4 * k"
    using Suc.prems(2) by (cases xs; cases "tl xs"; cases "tl (tl xs)"; cases "tl (tl (tl xs))") auto
  let ?m = "wrote m q [a, b, c, d]"
  have h: "bytes_at m p [a, b, c, d]" "bytes_at m (p + of_nat 4) ys" using Suc.prems(1) unfolding xs bytes_at_append by simp_all
  have l: "length xs = 4 + length ys" by (simp add: xs)
  have w: "writable m q 4" "writable m (q + 4) (length ys)"
    using Suc.prems(3) [unfolded l writable_add] by simp_all
  have "bytes_at ?m (p + of_nat 4) ys"
    by (rule ahead_kept [OF h(2)]) (use Suc.prems(4,5) h(1) xs in auto)
  then have ih: "rep_movsl k (p + 4) (q + 4) ?m = Ok (p + 4 + of_nat (length ys), q + 4 + of_nat (length ys), wrote ?m (q + 4) ys)"
    using w(2) Suc.prems(4,5) xs by (intro Suc.IH) auto
  have "wrote ?m (q + 4) ys = wrote m q xs" using wrote_append [of "[a, b, c, d]" ys m q] Suc.prems(4) by (simp add: xs)
  then show ?case using ih load4_ok [OF h(1)] store4_ok [OF w(1), of a b c d] by (simp add: xs algebra_simps)
qed simp

section \<open>Properties\<close>

lemma split_count: "unat n = 4 * unat (drop_bit 2 n) + unat (n AND 3)" for n :: u32
proof -
  have "n AND 3 = take_bit 2 n" by (simp add: take_bit_eq_mask mask_eq_exp_minus_1)
  then have "unat (n AND 3) = unat n mod 4" by (simp add: take_bit_eq_mod unat_mod_distrib)
  moreover have "unat (drop_bit 2 n) = unat n div 4" by (simp add: drop_bit_eq_div unat_div_distrib)
  ultimately show ?thesis by simp
qed

text \<open>C24. \<^verbatim>\<open>memmove\<close> copies also between overlapping regions, whichever way they overlap: the destination then
  holds what the source held before, and no other byte changes.\<close>

theorem memmove_correct:
  assumes "bytes_at m src xs" "length xs = unat n" "writable m dst (unat n)"
    and "unat src + unat n \<le> 2 ^ 32" "unat dst + unat n \<le> 2 ^ 32"
  shows "\<exists>m'. memmove dst src n m = Ok (dst, m') \<and> bytes_at m' dst xs \<and>
           (\<forall>a. \<not> (dst \<le> a \<and> unat a < unat dst + unat n) \<longrightarrow> m' a = m a)"
proof -
  have len: "length xs \<le> 2 ^ 32" using assms(2) unsigned_less [of n, where 'a = nat] by simp
  have "memmove dst src n m = Ok (dst, wrote m dst xs)"
  proof (cases "dst < src")
    case True
    then have "unat (dst - src) = 2 ^ 32 - (unat src - unat dst)"
      by (auto simp: unat_sub_if' word_less_nat_alt)
    then have "length xs \<le> unat (dst - src)" using assms(2,4) by arith
    then have "clear_of src (length xs) dst" by (simp add: clear_of_def)
    from rep_movsb_ok [OF assms(1) _ len this] show ?thesis using True assms(2,3) by (simp add: memmove_def)
  next
    case False
    have "src = dst \<or> length xs \<le> unat (src - dst)"
    proof (cases "src = dst")
      case ne: False
      then have "unat src < unat dst" using False by (simp add: word_less_nat_alt not_less) (metis le_neq_implies_less word_unat_eq_iff)
      then have "unat (src - dst) = 2 ^ 32 - (unat dst - unat src)" by (auto simp: unat_sub_if')
      then have "length xs \<le> unat (src - dst)" using assms(2,5) by arith
      then show ?thesis ..
    qed simp
    from rep_movsb_down_ok [OF assms(1) _ len this] assms(3)
    have "rep_movsb_down (unat n) (src + n - 1) (dst + n - 1) m = Ok (src - 1, dst - 1, wrote m dst xs)"
      by (simp add: assms(2))
    then show ?thesis using False by (simp add: memmove_def add_diff_eq)
  qed
  moreover have "wrote m dst xs a = m a" if "\<not> (dst \<le> a \<and> unat a < unat dst + unat n)" for a
  proof (rule wrote_outside)
    show "\<not> unat (a - dst) < length xs"
      using that assms(2,5) by (auto simp: unat_sub_if' word_le_nat_alt split: if_splits)
  qed
  ultimately show ?thesis using wrote_bytes_at [OF len] by blast
qed

text \<open>An example: a memory mapped everywhere that counts, for the witnesses.\<close>

definition ramp :: bytes where
  "ramp a = Some (ucast a)"

lemma ramp_simps [simp]: "ramp a = Some (ucast a)" "writable ramp q n"
  by (simp_all add: ramp_def writable_def)

theorem memmove_correct_witness:
  "\<exists>m'. memmove 0x1003 0x1000 5 ramp = Ok (0x1003, m') \<and> bytes_at m' 0x1003 [0, 1, 2, 3, 4] \<and> m' 0x1008 = Some 8"
  using memmove_correct [of ramp "0x1000" "[0, 1, 2, 3, 4]" 5 "0x1003"] by (auto simp: word_le_nat_alt)

lemma memcpy_wrote:
  assumes "bytes_at m src xs" "length xs = unat n" "writable m dst (unat n)" "src = dst \<or> length xs \<le> unat (dst - src)"
  shows "memcpy dst src n m = Ok (dst, wrote m dst xs)"
proof -
  let ?k = "unat (drop_bit 2 n)" and ?r = "unat (n AND 3)"
  let ?ys = "take (4 * ?k) xs" and ?zs = "drop (4 * ?k) xs"
  have len: "length xs \<le> 2 ^ 32" using assms(2) unsigned_less [of n, where 'a = nat] by simp
  have l: "length ?ys = 4 * ?k" "length ?zs = ?r" "4 * ?k + ?r \<le> 2 ^ 32" "unat n = 4 * ?k + ?r"
    using assms(2) len split_count [of n] by simp_all
  have b: "bytes_at m src ?ys" "bytes_at m (src + of_nat (4 * ?k)) ?zs"
    using assms(1) bytes_at_append [of m src ?ys ?zs] l(1) by simp_all
  have w: "writable m dst (4 * ?k)" "writable m (dst + of_nat (4 * ?k)) ?r"
    using assms(3) unfolding l(4) writable_add by simp_all
  have 1: "rep_movsl ?k src dst m = Ok (src + of_nat (4 * ?k), dst + of_nat (4 * ?k), wrote m dst ?ys)"
    using rep_movsl_ok [OF b(1) l(1) _ _ ] w(1) l assms(2,4) by fastforce
  have kept: "bytes_at (wrote m dst ?ys) (src + of_nat (4 * ?k)) ?zs"
    by (rule ahead_kept [OF b(2) l(1)]) (use l assms(2,4) b(1) in auto)
  have "src + of_nat (4 * ?k) = dst + of_nat (4 * ?k) \<or>
      length ?zs \<le> unat ((dst + of_nat (4 * ?k)) - (src + of_nat (4 * ?k)))" using assms(4) by auto
  from rep_movsb_ok [OF kept _ _ this [folded clear_of_def]] w(2) l
  have 2: "rep_movsb ?r (src + of_nat (4 * ?k)) (dst + of_nat (4 * ?k)) (wrote m dst ?ys) =
      Ok (src + of_nat (4 * ?k) + of_nat ?r, dst + of_nat (4 * ?k) + of_nat ?r, wrote (wrote m dst ?ys) (dst + of_nat (4 * ?k)) ?zs)"
    by simp
  have "wrote (wrote m dst ?ys) (dst + of_nat (4 * ?k)) ?zs = wrote m dst xs"
    using wrote_append [of ?ys ?zs m dst] len l(1) by simp
  then show ?thesis using 1 2 by (simp add: memcpy_def)
qed

lemma dword_sum: "dword a b c d = ucast a + ucast b * 2 ^ 8 + ucast c * 2 ^ 16 + ucast d * 2 ^ 24"
proof -
  have d: "ucast a AND push_bit 8 (ucast b) = (0 :: u32)" "(ucast a OR push_bit 8 (ucast b)) AND push_bit 16 (ucast c) = (0 :: u32)"
    "(ucast a OR push_bit 8 (ucast b) OR push_bit 16 (ucast c)) AND push_bit 24 (ucast d) = (0 :: u32)"
    by (rule bit_eqI; auto simp: bit_simps dest: bit_imp_le_length)+
  have "dword a b c d = ((ucast a OR push_bit 8 (ucast b)) OR push_bit 16 (ucast c)) OR push_bit 24 (ucast d)"
    by (simp add: dword_def or.assoc)
  also have "\<dots> = ((ucast a OR push_bit 8 (ucast b)) OR push_bit 16 (ucast c)) + push_bit 24 (ucast d)"
    by (rule disjunctive_add_eq_or [symmetric]) (use d(3) in \<open>simp add: or.assoc\<close>)
  also have "\<dots> = ucast a + push_bit 8 (ucast b) + push_bit 16 (ucast c) + push_bit 24 (ucast d)"
    by (simp only: disjunctive_add_eq_or [OF d(1)] disjunctive_add_eq_or [OF d(2)])
  finally show ?thesis by (simp add: push_bit_eq_mult)
qed

lemma dword_repeat: "ucast c * 0x01010101 = dword c c c c" for c :: u8
proof -
  have "ucast c * 0x01010101 = ucast c * (1 + 2 ^ 8 + 2 ^ 16 + 2 ^ 24 :: u32)" by simp
  then show ?thesis unfolding dword_sum by (simp only: distrib_left mult_1_right)
qed

lemma rep_stosl_ok:
  "writable m q (4 * k) \<Longrightarrow> 4 * k \<le> 2 ^ 32 \<Longrightarrow>
     rep_stosl k q (dword c c c c) m = Ok (q + of_nat (4 * k), wrote m q (replicate (4 * k) c))"
proof (induction k arbitrary: q m)
  case (Suc k)
  have e: "4 * Suc k = Suc (Suc (Suc (Suc (4 * k))))" by simp
  have w: "writable m q 4" "writable m (q + 4) (4 * k)"
    using Suc.prems(1) writable_add [of m q 4 "4 * k"] by (simp_all add: add.commute)
  have "rep_stosl k (q + 4) (dword c c c c) (wrote m q [c, c, c, c]) =
      Ok (q + 4 + of_nat (4 * k), wrote (wrote m q [c, c, c, c]) (q + 4) (replicate (4 * k) c))"
    using w(2) Suc.prems(2) by (intro Suc.IH) simp_all
  moreover have "wrote (wrote m q [c, c, c, c]) (q + 4) (replicate (4 * k) c) = wrote m q (replicate (4 * Suc k) c)"
    using wrote_append [of "[c, c, c, c]" "replicate (4 * k) c" m q] Suc.prems(2) unfolding e by simp
  ultimately show ?case using store4_ok [OF w(1), of c c c c] by (simp add: algebra_simps)
qed simp

lemma rep_stosb_ok:
  "writable m q k \<Longrightarrow> k \<le> 2 ^ 32 \<Longrightarrow> rep_stosb k q v m = Ok (q + of_nat k, wrote m q (replicate k (ucast v)))"
proof (induction k arbitrary: q m)
  case (Suc k)
  have "rep_stosb k (q + 1) v (m(q \<mapsto> ucast v)) = Ok (q + 1 + of_nat k, wrote (m(q \<mapsto> ucast v)) (q + 1) (replicate k (ucast v)))"
    using Suc.prems by (intro Suc.IH) (simp_all del: fun_upd_apply)
  then show ?case using Suc.prems by (auto simp: store_def modify_def wrote_Cons algebra_simps simp del: fun_upd_apply)
qed simp

lemma memset_wrote:
  assumes "writable m dst (unat n)"
  shows "memset dst c n m = Ok (dst, wrote m dst (replicate (unat n) (ucast c)))"
proof -
  let ?k = "unat (drop_bit 2 n)" and ?r = "unat (n AND 3)" and ?c = "ucast c :: u8"
  have l: "unat n = 4 * ?k + ?r" "4 * ?k + ?r \<le> 2 ^ 32" using split_count [of n] unsigned_less [of n, where 'a = nat] by simp_all
  have w: "writable m dst (4 * ?k)" "writable m (dst + of_nat (4 * ?k)) ?r"
    using assms unfolding l(1) writable_add by simp_all
  have 1: "rep_stosl ?k dst (ucast ?c * 0x01010101) m = Ok (dst + of_nat (4 * ?k), wrote m dst (replicate (4 * ?k) ?c))"
    using rep_stosl_ok [OF w(1), of ?c] l(2) by (simp add: dword_repeat)
  have b: "ucast (ucast ?c * 0x01010101 :: u32) = ?c" unfolding dword_repeat by (rule dword_bytes)
  have 2: "rep_stosb ?r (dst + of_nat (4 * ?k)) (ucast ?c * 0x01010101) (wrote m dst (replicate (4 * ?k) ?c)) =
      Ok (dst + of_nat (4 * ?k) + of_nat ?r, wrote (wrote m dst (replicate (4 * ?k) ?c)) (dst + of_nat (4 * ?k)) (replicate ?r ?c))"
    using rep_stosb_ok [of "wrote m dst (replicate (4 * ?k) ?c)" "dst + of_nat (4 * ?k)" ?r "ucast ?c * 0x01010101"] w(2) l(2)
    by (simp add: b)
  have "wrote (wrote m dst (replicate (4 * ?k) ?c)) (dst + of_nat (4 * ?k)) (replicate ?r ?c) = wrote m dst (replicate (unat n) ?c)"
    using wrote_append [of "replicate (4 * ?k) ?c" "replicate ?r ?c" m dst] l by (simp add: replicate_add)
  then show ?thesis using 1 2 by (simp add: memset_def Let_def)
qed

lemma memcmp_loop_ok:
  "bytes_at m p xs \<Longrightarrow> bytes_at m q ys \<Longrightarrow> length xs = length ys \<Longrightarrow>
     \<exists>d. memcmp_loop (length xs) p q m = Ok d \<and> (d = 0 \<longleftrightarrow> xs = ys) \<and> (d < 0 \<longleftrightarrow> (xs, ys) \<in> lexord {(a, b). a < b})"
proof (induction xs arbitrary: p q ys)
  case (Cons x xs)
  then obtain y zs where ys: "ys = y # zs" "length xs = length zs" by (cases ys) auto
  have d: "uint x - uint y = 0 \<longleftrightarrow> x = y" "uint x - uint y < 0 \<longleftrightarrow> x < y" by (simp_all add: word_less_def word_uint_eq_iff)
  show ?case
  proof (cases "x = y")
    case True
    then show ?thesis using Cons.IH [of "p + 1" "q + 1" zs] Cons.prems ys
      by (auto simp: load_def deref_def Let_def)
  next
    case False
    then show ?thesis using Cons.prems ys d by (auto simp: load_def deref_def Let_def)
  qed
qed simp

text \<open>Where a needle occurs.\<close>

definition occurs :: "'a list \<Rightarrow> 'a list \<Rightarrow> nat \<Rightarrow> bool" where
  "occurs nd hs j \<longleftrightarrow> j + length nd \<le> length hs \<and> take (length nd) (drop j hs) = nd"

definition first_at :: "'a list \<Rightarrow> 'a list \<Rightarrow> nat \<Rightarrow> bool" where
  "first_at nd hs j \<longleftrightarrow> occurs nd hs j \<and> (\<forall>i < j. \<not> occurs nd hs i)"

lemma occurs_nth: "occurs nd hs j \<longleftrightarrow> j + length nd \<le> length hs \<and> (\<forall>i < length nd. hs ! (j + i) = nd ! i)"
  by (auto simp: occurs_def list_eq_iff_nth_eq)

text \<open>The answer of a search: the address of the first occurrence, or \<^verbatim>\<open>NULL\<close>.\<close>

definition found_at :: "ptr \<Rightarrow> 'a list \<Rightarrow> 'a list \<Rightarrow> ptr \<Rightarrow> bool" where
  "found_at y nd hs r \<longleftrightarrow> (\<exists>j. first_at nd hs j \<and> r = y + of_nat j) \<or> (\<forall>j. \<not> occurs nd hs j) \<and> r = NULL"

lemma memmem_one_ok:
  "bytes_at m y hs \<Longrightarrow> m x = Some c \<Longrightarrow> \<exists>r. memmem_one (length hs) y x m = Ok r \<and> found_at y [c] hs r"
proof (induction hs arbitrary: y)
  case Nil
  then show ?case by (simp add: found_at_def occurs_def)
next
  case (Cons h hs)
  have z: "occurs [c] (h # hs) 0 \<longleftrightarrow> h = c" and s: "occurs [c] (h # hs) (Suc j) \<longleftrightarrow> occurs [c] hs j" for j
    by (simp_all add: occurs_def)
  show ?case
  proof (cases "h = c")
    case True
    then have "first_at [c] (h # hs) 0" using z by (simp add: first_at_def)
    then show ?thesis using True Cons.prems by (auto simp: load_def deref_def found_at_def intro: exI [of _ 0])
  next
    case False
    obtain r where r: "memmem_one (length hs) (y + 1) x m = Ok r" "found_at (y + 1) [c] hs r"
      using Cons by auto
    have f: "first_at [c] (h # hs) (Suc j)" if "first_at [c] hs j" for j
      using that False z s by (auto simp: first_at_def less_Suc_eq_0_disj)
    have "\<not> occurs [c] (h # hs) j" if "\<forall>j. \<not> occurs [c] hs j" for j
      using that False z s by (cases j) auto
    moreover have "y + 1 + of_nat j = y + of_nat (Suc j)" for j by simp
    ultimately have "found_at y [c] (h # hs) r" using r(2) f unfolding found_at_def by metis
    then show ?thesis using False Cons.prems r(1) by (simp add: load_def deref_def)
  qed
qed

lemma bytes_at_nth: "bytes_at m p xs \<Longrightarrow> i < length xs \<Longrightarrow> m (p + of_nat i) = Some (xs ! i)"
  by (simp add: bytes_at_def)

lemma bytes_at_slice:
  assumes "bytes_at m p xs" "i + n \<le> length xs"
  shows "bytes_at m (p + of_nat i) (take n (drop i xs))"
  using assms by (auto simp: bytes_at_def add.assoc simp flip: of_nat_add)

lemma occurs_two:
  assumes "2 \<le> length nd" "J + length nd \<le> length hs"
  shows "occurs nd hs J \<longleftrightarrow> hs ! J = nd ! 0 \<and> hs ! (J + 1) = nd ! 1 \<and> drop 2 nd = take (length nd - 2) (drop (J + 2) hs)"
proof -
  obtain a b t where nd: "nd = a # b # t" using assms(1) by (cases nd; cases "tl nd") auto
  have "drop J hs = hs ! J # hs ! (J + 1) # drop (J + 2) hs"
    using assms nd Cons_nth_drop_Suc [of J hs] Cons_nth_drop_Suc [of "Suc J" hs] by simp
  then show ?thesis using assms(2) by (auto simp: occurs_def nd)
qed

lemma occurs_bound: "occurs nd hs i \<Longrightarrow> i \<le> length hs - length nd" "occurs nd hs i \<Longrightarrow> nd \<noteq> [] \<Longrightarrow> hs ! i = nd ! 0"
  by (auto simp: occurs_nth)

text \<open>What one pass reads: the comparison of the tails, and the two first characters.\<close>

lemma memmem_reads:
  assumes hs: "bytes_at m y hs" "length hs = unat n" and nd: "bytes_at m x nd" "length nd = unat nm"
    and le: "2 \<le> length nd" "unat j + length nd \<le> length hs"
  obtains d where "memcmp (x + 2) (y + j + 2) (nm - 2) m = Ok d"
    "d = 0 \<longleftrightarrow> drop 2 nd = take (length nd - 2) (drop (unat j + 2) hs)"
    "m x = Some (nd ! 0)" "m (x + 1) = Some (nd ! 1)"
    "m (y + j) = Some (hs ! unat j)" "m (y + (j + 1)) = Some (hs ! (unat j + 1))"
proof -
  let ?t = "drop 2 nd" and ?h = "take (length nd - 2) (drop (unat j + 2) hs)"
  have ne: "nd \<noteq> []" using le(1) by auto
  have len: "unat (nm - 2) = length ?t" using nd(2) le(1) by (simp add: unat_sub word_le_nat_alt)
  have bt: "bytes_at m (x + 2) ?t" using bytes_at_drop [OF nd(1), of 2] le(1) by simp
  have bh: "bytes_at m (y + j + 2) ?h"
    using bytes_at_slice [OF hs(1), of "unat j + 2" "length nd - 2"] le by (simp add: algebra_simps)
  have lh: "length ?t = length ?h" using le by simp
  obtain d where "memcmp (x + 2) (y + j + 2) (nm - 2) m = Ok d" "d = 0 \<longleftrightarrow> ?t = ?h"
    using memcmp_loop_ok [OF bt bh lh] by (auto simp: memcmp_def len)
  moreover have "m x = Some (nd ! 0)" "m (x + 1) = Some (nd ! 1)"
    using bytes_at_nth [OF nd(1), of 0] bytes_at_nth [OF nd(1), of 1] le(1) ne by simp_all
  moreover have "m (y + j) = Some (hs ! unat j)" "m (y + (j + 1)) = Some (hs ! (unat j + 1))"
    using bytes_at_nth [OF hs(1), of "unat j"] bytes_at_nth [OF hs(1), of "unat j + 1"] le by (simp_all add: add.commute)
  ultimately show thesis by (rule that)
qed

text \<open>One pass of the search: it moves on past places where the needle does not occur, or stops at one where it does.\<close>

lemma memmem_pass_ok:
  assumes hs: "bytes_at m y hs" "length hs = unat n" and nd: "bytes_at m x nd" "length nd = unat nm"
    and le: "2 \<le> length nd" "length nd \<le> length hs"
    and kl: "(k, l) = (if nd ! 0 = nd ! 1 then (2, 1) else (1, 2))"
    and j: "\<forall>i < unat j. \<not> occurs nd hs i"
  shows "\<exists>goon j' r'. memmem_pass y n x nm k l m (j, None) = Ok (goon, j', r') \<and>
           (if goon then r' = None \<and> (\<forall>i < unat j'. \<not> occurs nd hs i) \<and> unat n - unat j' < unat n - unat j
            else (\<exists>i. first_at nd hs i \<and> r' = Some (y + of_nat i)) \<or> (\<forall>i. \<not> occurs nd hs i) \<and> r' = None)"
proof -
  have sub: "unat (n - nm) = length hs - length nd" using hs(2) nd(2) le(2) by (simp add: unat_sub word_le_nat_alt)
  show ?thesis
  proof (cases "j \<le> n - nm")
    case False
    then have "length hs - length nd < unat j" using sub by (simp add: word_le_nat_alt)
    then have "\<not> occurs nd hs i" for i using j occurs_bound(1) [of nd hs i] by (cases "i < unat j") auto
    then show ?thesis using False by (intro exI [of _ False] exI [of _ j] exI [of _ None]) (simp add: memmem_pass_def)
  next
    case True
    then have J: "unat j + length nd \<le> length hs" using sub le(2) by (simp add: word_le_nat_alt)
    have lim: "length hs < 2 ^ 32" using hs(2) unsigned_less [of n, where 'a = nat] by simp
    have up: "unat (j + 1) = unat j + 1" "unat (j + 2) = unat j + 2" using J lim le(1) by (simp_all add: unat_word_ariths)
    have dec: "unat n - unat (j + 1) < unat n - unat j" "unat n - unat (j + 2) < unat n - unat j"
      using J le(1) hs(2) unfolding up by arith+
    from memmem_reads [OF hs nd le(1) J] obtain d where d: "memcmp (x + 2) (y + j + 2) (nm - 2) m = Ok d"
      "d = 0 \<longleftrightarrow> drop 2 nd = take (length nd - 2) (drop (unat j + 2) hs)" "m x = Some (nd ! 0)" "m (x + 1) = Some (nd ! 1)"
      "m (y + j) = Some (hs ! unat j)" "m (y + (j + 1)) = Some (hs ! (unat j + 1))" .
    note here = occurs_two [OF le(1) J]
    have "nd \<noteq> []" using le(1) by auto
    then have after: "occurs nd hs (unat j + 1) \<Longrightarrow> hs ! (unat j + 1) = nd ! 0" by (rule occurs_bound(2) [rotated])
    have skip: "\<forall>i < unat j + 1. \<not> occurs nd hs i" if "\<not> occurs nd hs (unat j)" using j that by (auto simp: less_Suc_eq)
    have skip2: "\<forall>i < unat j + 2. \<not> occurs nd hs i" if "\<not> occurs nd hs (unat j)" "\<not> occurs nd hs (unat j + 1)"
      using j that by (auto simp: less_Suc_eq numeral_2_eq_2)
    show ?thesis
    proof (cases "occurs nd hs (unat j)")
      case True
      then have "first_at nd hs (unat j)" using j by (simp add: first_at_def)
      moreover have "memmem_pass y n x nm k l m (j, None) = Ok (False, j, Some (y + of_nat (unat j)))"
        using True here d \<open>j \<le> n - nm\<close> by (simp add: memmem_pass_def load_def deref_def)
      ultimately show ?thesis
        by (intro exI [of _ False] exI [of _ j] exI [of _ "Some (y + of_nat (unat j))"]) auto
    next
      case no: False
      let ?s = "if hs ! (unat j + 1) \<noteq> nd ! 1 then k else l"
      have "memmem_pass y n x nm k l m (j, None) = Ok (True, j + ?s, None)"
        using no here d True by (auto simp: memmem_pass_def load_def deref_def)
      moreover have "?s = 1 \<or> ?s = 2 \<and> \<not> occurs nd hs (unat j + 1)" using kl after by (auto split: if_splits)
      ultimately show ?thesis using skip [OF no] skip2 [OF no] dec up
        by (intro exI [of _ True] exI [of _ "j + ?s"] exI [of _ None]) (elim disjE conjE; simp)
    qed
  qed
qed

lemma memmem_ok:
  assumes "bytes_at m y hs" "length hs = unat n" "bytes_at m x nd" "length nd = unat nm" "nd \<noteq> []"
  shows "\<exists>r. memmem y n x nm m = Ok r \<and> found_at y nd hs r"
proof (cases "length nd \<le> length hs")
  case False
  then have "\<not> occurs nd hs j" for j by (simp add: occurs_def)
  moreover have "nm > n" using False assms(2,4) by (simp add: word_less_nat_alt)
  ultimately show ?thesis by (auto simp: memmem_def found_at_def)
next
  case le: True
  have pos: "\<not> nm > n" "nm \<noteq> 0" "n \<noteq> 0" using le assms(2,4,5) by (auto simp: word_less_nat_alt)
  show ?thesis
  proof (cases "length nd = 1")
    case True
    then obtain c where nd: "nd = [c]" by (cases nd) auto
    have "unat nm = unat (1 :: u32)" using assms(4) nd by simp
    then have "nm = 1" by (simp only: word_unat_eq_iff)
    then show ?thesis using memmem_one_ok [OF assms(1), of x c] assms(2,3) pos nd by (simp add: memmem_def)
  next
    case False
    then have two: "2 \<le> length nd" using assms(5) by (cases nd; cases "tl nd") auto
    obtain k l :: u32 where kl: "(k, l) = (if nd ! 0 = nd ! 1 then (2, 1) else (1, 2))" by fastforce
    let ?body = "memmem_pass y n x nm k l m"
    let ?I = "\<lambda>(j :: u32, r :: ptr option). r = None \<and> (\<forall>i < unat j. \<not> occurs nd hs i)"
    let ?Q = "\<lambda>(j :: u32, r). (\<exists>i. first_at nd hs i \<and> r = Some (y + of_nat i)) \<or> (\<forall>i. \<not> occurs nd hs i) \<and> r = None"
    have "\<exists>s'. while_do ?body (0, None) = Ok s' \<and> ?Q s'"
    proof (rule while_do_total [where I = ?I and \<mu> = "\<lambda>(j, r). unat n - unat j"])
      fix s assume "?I s"
      then obtain j where s: "s = (j, None)" and j: "\<forall>i < unat j. \<not> occurs nd hs i" by auto
      from memmem_pass_ok [OF assms(1-4) two le kl j]
      show "\<exists>goon s'. ?body s = Ok (goon, s') \<and> (if goon then ?I s' \<and> (case s' of (j, r) \<Rightarrow> unat n - unat j) <
          (case s of (j, r) \<Rightarrow> unat n - unat j) else ?Q s')" unfolding s by fastforce
    qed simp
    then obtain j r where r: "while_do ?body (0, None) = Ok (j, r)" "?Q (j, r)" by auto
    have "nm \<noteq> 1" using False assms(4) by auto
    moreover have "m x = Some (nd ! 0)" "m (x + 1) = Some (nd ! 1)"
      using bytes_at_nth [OF assms(3), of 0] bytes_at_nth [OF assms(3), of 1] two assms(5) by simp_all
    ultimately have "memmem y n x nm m = Ok (case r of None \<Rightarrow> NULL | Some q \<Rightarrow> q)"
      using pos r(1) kl by (auto simp: memmem_def load_def deref_def split: if_splits)
    then show ?thesis using r(2) by (auto simp: found_at_def)
  qed
qed

text \<open>C23. The search of \<^verbatim>\<open>memmem\<close>, which skips one or two places at a time, finds what a naive search finds:
  the first occurrence of the needle, or \<^verbatim>\<open>NULL\<close> exactly when there is none. Its loop always ends.\<close>

theorem memmem_finds_first:
  assumes "bytes_at m y hs" "length hs = unat n" "bytes_at m x nd" "length nd = unat nm" "nd \<noteq> []"
  shows "\<exists>r. memmem y n x nm m = Ok r \<and> found_at y nd hs r"
  using assms by (rule memmem_ok)

theorem memmem_finds_first_witness:
  "\<exists>r. memmem 0x1000 7 0x2002 2 (wrote ramp 0x1000 [2, 2, 3, 2, 3, 9, 9]) = Ok r \<and> found_at 0x1000 [2, 3 :: u8] [2, 2, 3, 2, 3, 9, 9] r"
  by (rule memmem_finds_first) (simp_all add: wrote_def)

text \<open>\<^verbatim>\<open>memcpy\<close> copies its source when the destination does not start inside it, and \<^verbatim>\<open>memset\<close> fills a region;
  no other byte changes. Both end with the bytes left over by the transfers of four bytes.\<close>

theorem memcpy_memset_correct:
  assumes "bytes_at m src xs" "length xs = unat n" "writable m dst (unat n)" "src = dst \<or> unat n \<le> unat (dst - src)"
  shows "memcpy dst src n m = Ok (dst, wrote m dst xs) \<and>
         memset dst c n m = Ok (dst, wrote m dst (replicate (unat n) (ucast c)))"
  using memcpy_wrote [OF assms(1-3)] memset_wrote [OF assms(3)] assms(2,4) by simp

theorem memcpy_memset_correct_witness:
  "memcpy 0x2000 0x1000 3 ramp = Ok (0x2000, wrote ramp 0x2000 [0, 1, 2]) \<and>
   memset 0x2000 7 3 ramp = Ok (0x2000, wrote ramp 0x2000 (replicate 3 7))"
  using memcpy_memset_correct [of ramp "0x1000" "[0, 1, 2]" 3 "0x2000" 7] by simp

end
