(* ===== verification/StrLib.thy ===== *)
theory StrLib
  imports MemLib
begin

unbundle bit_operations_syntax

text \<open>
  The string functions of the kernel's library (\<^verbatim>\<open>Sources/lib/str*.c\<close>) on the memory of theory \<open>MemLib\<close>. A loop
  up to the terminating zero is a \<open>while_do\<close>, a counted loop a recursion. \<^verbatim>\<open>strsep\<close> takes and returns the pointer
  that \<^verbatim>\<open>stringp\<close> points to, and the static \<^verbatim>\<open>holder\<close> of \<^verbatim>\<open>strtok\<close> is an argument and a result.
\<close>

section \<open>The functions\<close>

definition strlen_pass :: "bytes \<Rightarrow> ptr \<Rightarrow> (bool \<times> ptr) outcome" where
  "strlen_pass m ss = andthen (load m ss) (\<lambda>c. if c \<noteq> 0 then Ok (True, ss + 1) else Ok (False, ss))"

definition strlen :: "ptr \<Rightarrow> bytes \<Rightarrow> u32 outcome" where
  "strlen s m = andthen (while_do (strlen_pass m) s) (\<lambda>ss. Ok (ss - s))"

primrec strnlen_loop :: "nat \<Rightarrow> ptr \<Rightarrow> bytes \<Rightarrow> ptr outcome" where
  "strnlen_loop 0 ss m = Ok ss"
| "strnlen_loop (Suc n) ss m = andthen (load m ss) (\<lambda>c. if c \<noteq> 0 then strnlen_loop n (ss + 1) m else Ok ss)"

definition strnlen :: "ptr \<Rightarrow> u32 \<Rightarrow> bytes \<Rightarrow> u32 outcome" where
  "strnlen s maxlen m = andthen (strnlen_loop (unat maxlen) s m) (\<lambda>ss. Ok (ss - s))"

text \<open>The second component of the state is what \<^verbatim>\<open>strchr\<close> and \<^verbatim>\<open>strrchr\<close> return.\<close>

definition strchr_pass :: "u8 \<Rightarrow> bytes \<Rightarrow> ptr \<times> ptr \<Rightarrow> (bool \<times> ptr \<times> ptr) outcome" where
  "strchr_pass c m = (\<lambda>(s, r). andthen (load m s) (\<lambda>x.
     if x \<noteq> c then (if x = 0 then Ok (False, s, NULL) else Ok (True, s + 1, r)) else Ok (False, s, s)))"

definition strchr :: "ptr \<Rightarrow> u32 \<Rightarrow> bytes \<Rightarrow> ptr outcome" where
  "strchr s c m = andthen (while_do (strchr_pass (ucast c) m) (s, NULL)) (\<lambda>(_, r). Ok r)"

definition strrchr_pass :: "u8 \<Rightarrow> bytes \<Rightarrow> ptr \<times> ptr \<Rightarrow> (bool \<times> ptr \<times> ptr) outcome" where
  "strrchr_pass c m = (\<lambda>(s, found). andthen (load m s) (\<lambda>x.
     if x \<noteq> 0 then Ok (True, s + 1, if x = c then s else found) else Ok (False, s, found)))"

definition strrchr :: "ptr \<Rightarrow> u32 \<Rightarrow> bytes \<Rightarrow> ptr outcome" where
  "strrchr s c m = andthen (while_do (strrchr_pass (ucast c) m) (s, NULL)) (\<lambda>(_, found). Ok found)"

definition strcmp_pass :: "bytes \<Rightarrow> ptr \<times> ptr \<times> int \<Rightarrow> (bool \<times> ptr \<times> ptr \<times> int) outcome" where
  "strcmp_pass m = (\<lambda>(c1, c2, d). andthen (load m c1) (\<lambda>ch. andthen (load m c2) (\<lambda>y.
     let d = uint ch - uint y in Ok (\<not> (d \<noteq> 0 \<or> ch = 0), c1 + 1, c2 + 1, d))))"

definition strcmp :: "ptr \<Rightarrow> ptr \<Rightarrow> bytes \<Rightarrow> int outcome" where
  "strcmp s1 s2 m = andthen (while_do (strcmp_pass m) (s1, s2, 0)) (\<lambda>(_, _, d). Ok d)"

primrec strncmp_loop :: "nat \<Rightarrow> ptr \<Rightarrow> ptr \<Rightarrow> bytes \<Rightarrow> int outcome" where
  "strncmp_loop 0 c1 c2 m = Ok 0"
| "strncmp_loop (Suc n) c1 c2 m = andthen (load m c1) (\<lambda>ch. andthen (load m c2) (\<lambda>y.
     let d = uint ch - uint y in if d \<noteq> 0 \<or> ch = 0 then Ok d else strncmp_loop n (c1 + 1) (c2 + 1) m))"

definition strncmp :: "ptr \<Rightarrow> ptr \<Rightarrow> u32 \<Rightarrow> bytes \<Rightarrow> int outcome" where
  "strncmp s1 s2 n m = strncmp_loop (unat n) s1 s2 m"

definition strcpy_pass :: "ptr \<times> ptr \<times> bytes \<Rightarrow> (bool \<times> ptr \<times> ptr \<times> bytes) outcome" where
  "strcpy_pass = (\<lambda>(q, p, m). andthen (load m p) (\<lambda>ch. andthen (store m q ch) (\<lambda>m. Ok (ch \<noteq> 0, q + 1, p + 1, m))))"

definition strcpy :: "ptr \<Rightarrow> ptr \<Rightarrow> bytes \<Rightarrow> (ptr \<times> bytes) outcome" where
  "strcpy dst src m = andthen (while_do strcpy_pass (dst, src, m)) (\<lambda>(_, _, m). Ok (dst, m))"

definition strcat :: "ptr \<Rightarrow> ptr \<Rightarrow> bytes \<Rightarrow> (ptr \<times> bytes) outcome" where
  "strcat dst src m = andthen (strchr dst 0 m) (\<lambda>e. andthen (strcpy e src m) (\<lambda>(_, m). Ok (dst, m)))"

text \<open>The loop of \<^verbatim>\<open>strncpy\<close> returns the place and the count for the final \<^verbatim>\<open>memset\<close>.\<close>

primrec strncpy_loop :: "nat \<Rightarrow> ptr \<Rightarrow> ptr \<Rightarrow> bytes \<Rightarrow> (nat \<times> ptr \<times> bytes) outcome" where
  "strncpy_loop 0 q p m = Ok (0, q, m)"
| "strncpy_loop (Suc n) q p m = andthen (load m p) (\<lambda>ch. andthen (store m q ch) (\<lambda>m.
     if ch = 0 then Ok (n, q + 1, m) else strncpy_loop n (q + 1) (p + 1) m))"

definition strncpy :: "ptr \<Rightarrow> ptr \<Rightarrow> u32 \<Rightarrow> bytes \<Rightarrow> (ptr \<times> bytes) outcome" where
  "strncpy dst src n m =
     andthen (strncpy_loop (unat n) dst src m) (\<lambda>(n, q, m). andthen (memset q 0 (of_nat n) m) (\<lambda>(_, m). Ok (dst, m)))"

primrec strncat_loop :: "nat \<Rightarrow> ptr \<Rightarrow> ptr \<Rightarrow> bytes \<Rightarrow> bytes outcome" where
  "strncat_loop 0 q p m = store m q 0"
| "strncat_loop (Suc n) q p m = andthen (load m p) (\<lambda>ch. andthen (store m q ch) (\<lambda>m.
     if ch = 0 then Ok m else strncat_loop n (q + 1) (p + 1) m))"

definition strncat :: "ptr \<Rightarrow> ptr \<Rightarrow> u32 \<Rightarrow> bytes \<Rightarrow> (ptr \<times> bytes) outcome" where
  "strncat dst src n m = andthen (strchr dst 0 m) (\<lambda>q. andthen (strncat_loop (unat n) q src m) (\<lambda>m. Ok (dst, m)))"

text \<open>The two loops of \<^verbatim>\<open>strlcat\<close>.\<close>

definition strlcat_end_pass :: "u32 \<Rightarrow> bytes \<Rightarrow> u32 \<times> ptr \<Rightarrow> (bool \<times> u32 \<times> ptr) outcome" where
  "strlcat_end_pass sz m = (\<lambda>(bytes, q).
     if bytes < sz then andthen (load m q) (\<lambda>c. if c \<noteq> 0 then Ok (True, bytes + 1, q + 1) else Ok (False, bytes, q))
     else Ok (False, bytes, q))"

definition strlcat_copy_pass :: "u32 \<Rightarrow> u32 \<times> ptr \<times> ptr \<times> bytes \<Rightarrow> (bool \<times> u32 \<times> ptr \<times> ptr \<times> bytes) outcome" where
  "strlcat_copy_pass sz = (\<lambda>(bytes, q, p, m). andthen (load m p) (\<lambda>ch.
     if ch \<noteq> 0
     then if bytes + 1 < sz then andthen (store m q ch) (\<lambda>m. Ok (True, bytes + 1, q + 1, p + 1, m))
          else Ok (True, bytes + 1, q, p + 1, m)
     else Ok (False, bytes, q, p + 1, m)))"

definition strlcat :: "ptr \<Rightarrow> ptr \<Rightarrow> u32 \<Rightarrow> bytes \<Rightarrow> (u32 \<times> bytes) outcome" where
  "strlcat dst src sz m =
     andthen (while_do (strlcat_end_pass sz m) (0, dst)) (\<lambda>(bytes, q).
     if bytes = sz then andthen (strlen src m) (\<lambda>l. Ok (bytes + l, m))
     else andthen (while_do (strlcat_copy_pass sz) (bytes, q, src, m)) (\<lambda>(bytes, q, _, m).
          andthen (store m q 0) (\<lambda>m. Ok (bytes, m))))"

text \<open>The bitmap of \<^verbatim>\<open>__strxspn\<close> is an array indexed by every byte.\<close>

definition matchmap_pass :: "bytes \<Rightarrow> ptr \<times> (u8 \<Rightarrow> u8) \<Rightarrow> (bool \<times> ptr \<times> (u8 \<Rightarrow> u8)) outcome" where
  "matchmap_pass m = (\<lambda>(map, matchmap). andthen (load m map) (\<lambda>c.
     if c \<noteq> 0 then Ok (True, map + 1, matchmap(c := 1)) else Ok (False, map, matchmap)))"

definition span_pass :: "(u8 \<Rightarrow> u8) \<Rightarrow> u8 \<Rightarrow> bytes \<Rightarrow> ptr \<times> u32 \<Rightarrow> (bool \<times> ptr \<times> u32) outcome" where
  "span_pass matchmap parity m = (\<lambda>(s, n). andthen (load m s) (\<lambda>c.
     if matchmap c XOR parity \<noteq> 0 then Ok (True, s + 1, n + 1) else Ok (False, s + 1, n)))"

definition strxspn :: "ptr \<Rightarrow> ptr \<Rightarrow> u8 \<Rightarrow> bytes \<Rightarrow> u32 outcome" where
  "strxspn s mp parity m =
     andthen (while_do (matchmap_pass m) (mp, \<lambda>_. 0)) (\<lambda>(_, matchmap).
     andthen (while_do (span_pass (matchmap(0 := parity)) parity m) (s, 0)) (\<lambda>(_, n). Ok n))"

definition strspn :: "ptr \<Rightarrow> ptr \<Rightarrow> bytes \<Rightarrow> u32 outcome" where
  "strspn s accept m = strxspn s accept 0 m"

definition strcspn :: "ptr \<Rightarrow> ptr \<Rightarrow> bytes \<Rightarrow> u32 outcome" where
  "strcspn s reject m = strxspn s reject 1 m"

definition strpbrk :: "ptr \<Rightarrow> ptr \<Rightarrow> bytes \<Rightarrow> ptr outcome" where
  "strpbrk s accept m =
     andthen (strxspn s accept 1 m) (\<lambda>n. andthen (load m (s + n)) (\<lambda>c. Ok (if c \<noteq> 0 then s + n else NULL)))"

definition strsep :: "ptr \<Rightarrow> ptr \<Rightarrow> bytes \<Rightarrow> (ptr \<times> ptr \<times> bytes) outcome" where
  "strsep stringp delim m =
     (if stringp = NULL then Ok (NULL, stringp, m)
      else andthen (strpbrk stringp delim m) (\<lambda>e.
           if e \<noteq> NULL then andthen (store m e 0) (\<lambda>m. Ok (stringp, e + 1, m)) else Ok (stringp, e, m)))"

definition strtok :: "ptr \<Rightarrow> ptr \<Rightarrow> ptr \<Rightarrow> bytes \<Rightarrow> (ptr \<times> ptr \<times> bytes) outcome" where
  "strtok holder s delim m = strsep (if s \<noteq> NULL then s else holder) delim m"

definition strstr :: "ptr \<Rightarrow> ptr \<Rightarrow> bytes \<Rightarrow> ptr outcome" where
  "strstr haystack needle m =
     andthen (strlen haystack m) (\<lambda>n. andthen (strlen needle m) (\<lambda>k. memmem haystack n needle k m))"

section \<open>Scanning a string\<close>

text \<open>The memory holds the string \<open>xs\<close> with its terminating zero.\<close>

definition string_at :: "bytes \<Rightarrow> ptr \<Rightarrow> u8 list \<Rightarrow> bool" where
  "string_at m p xs \<longleftrightarrow> bytes_at m p xs \<and> m (p + of_nat (length xs)) = Some 0 \<and> 0 \<notin> set xs \<and> length xs < 2 ^ 32"

lemma string_at_simps [simp]:
  "string_at m p [] \<longleftrightarrow> m p = Some 0"
  "string_at m p (x # xs) \<longleftrightarrow> m p = Some x \<and> x \<noteq> 0 \<and> string_at m (p + 1) xs \<and> length xs + 1 < 2 ^ 32"
  by (auto simp: string_at_def add.assoc)

lemma string_at_bytes: "string_at m p xs \<Longrightarrow> bytes_at m p xs" "string_at m p xs \<Longrightarrow> bytes_at m p (xs @ [0])"
  by (simp_all add: string_at_def)

lemma strlen_loop_ok: "string_at m p xs \<Longrightarrow> while_do (strlen_pass m) p = Ok (p + of_nat (length xs))"
proof (induction xs arbitrary: p)
  case Nil
  then show ?case by (subst while_do_unfold) (simp add: strlen_pass_def load_def deref_def)
next
  case (Cons x xs)
  then show ?case by (subst while_do_unfold) (simp add: strlen_pass_def [of m p] load_def deref_def add.assoc)
qed

lemma strlen_ok: "string_at m p xs \<Longrightarrow> strlen p m = Ok (of_nat (length xs))"
  by (simp add: strlen_def strlen_loop_ok)

lemma strchr_loop_ok:
  "string_at m p xs \<Longrightarrow>
     while_do (strchr_pass c m) (p, r) =
       (let e = p + of_nat (length (takeWhile (\<lambda>x. x \<noteq> c) xs)) in Ok (e, if c \<in> set xs \<or> c = 0 then e else NULL))"
proof (induction xs arbitrary: p)
  case Nil
  then show ?case by (subst while_do_unfold) (simp add: strchr_pass_def load_def deref_def Let_def)
next
  case (Cons x xs)
  then show ?case by (subst while_do_unfold) (simp add: strchr_pass_def load_def deref_def Let_def add.assoc)
qed

lemma strchr_end: "string_at m p xs \<Longrightarrow> strchr p 0 m = Ok (p + of_nat (length xs))"
proof -
  assume s: "string_at m p xs"
  then have "takeWhile (\<lambda>x. x \<noteq> 0) xs = xs" by (auto simp: string_at_def takeWhile_eq_all_conv)
  then show ?thesis by (simp add: strchr_def strchr_loop_ok [OF s] Let_def del: takeWhile_eq_all_conv)
qed

lemma strcmp_loop_ok:
  "string_at m p xs \<Longrightarrow> string_at m q ys \<Longrightarrow>
     \<exists>p' q' d. while_do (strcmp_pass m) (p, q, d0) = Ok (p', q', d) \<and> (d = 0 \<longleftrightarrow> xs = ys) \<and>
       (d < 0 \<longleftrightarrow> (xs, ys) \<in> lexord {(a, b). a < b})"
proof (induction xs arbitrary: p q ys d0)
  case Nil
  show ?case
  proof (cases ys)
    case Nil
    then show ?thesis using \<open>string_at m p []\<close> \<open>string_at m q ys\<close>
      by (subst while_do_unfold) (simp add: strcmp_pass_def load_def deref_def)
  next
    case (Cons y zs)
    then have "0 < uint y" using \<open>string_at m q ys\<close> by (auto simp: word_neq_0_conv word_less_def)
    then show ?thesis using \<open>string_at m p []\<close> \<open>string_at m q ys\<close> Cons
      by (subst while_do_unfold) (simp add: strcmp_pass_def load_def deref_def)
  qed
next
  case (Cons x xs)
  have "0 < uint x" using Cons.prems(1) by (auto simp: word_neq_0_conv word_less_def)
  show ?case
  proof (cases ys)
    case Nil
    then show ?thesis using Cons.prems \<open>0 < uint x\<close>
      by (subst while_do_unfold) (simp add: strcmp_pass_def load_def deref_def)
  next
    case ys: (Cons y zs)
    have d: "uint x - uint y = 0 \<longleftrightarrow> x = y" "uint x - uint y < 0 \<longleftrightarrow> x < y" by (simp_all add: word_less_def word_uint_eq_iff)
    show ?thesis
    proof (cases "x = y")
      case True
      then show ?thesis using Cons.IH [of "p + 1" "q + 1" zs 0] Cons.prems ys
        by (subst while_do_unfold) (simp add: strcmp_pass_def load_def deref_def)
    next
      case False
      then show ?thesis using Cons.prems ys d by (subst while_do_unfold) (simp add: strcmp_pass_def load_def deref_def Let_def)
    qed
  qed
qed

lemma store_ok: "m q \<noteq> None \<Longrightarrow> store m q v = Ok (m(q \<mapsto> v))"
  by (auto simp: store_def modify_def)

lemma load_ok: "m p = Some x \<Longrightarrow> load m p = Ok x"
  by (simp add: load_def deref_def)

lemma string_at_step:
  assumes "string_at m p (x # xs)" "clear_of p (Suc (Suc (length xs))) q"
  shows "string_at (m(q \<mapsto> x)) (p + 1) xs" "clear_of (p + 1) (Suc (length xs)) (q + 1)" "load m p = Ok x" "x \<noteq> 0"
proof -
  have "bytes_at m p (x # xs @ [0])" using string_at_bytes(2) [OF assms(1)] by simp
  note step = copy_step [OF this, of q]
  show "string_at (m(q \<mapsto> x)) (p + 1) xs" using step(1) assms by (simp add: string_at_def del: fun_upd_apply)
  show "clear_of (p + 1) (Suc (length xs)) (q + 1)" using step(2) assms(2) by simp
qed (use assms in \<open>simp_all add: load_ok\<close>)

lemma strcpy_loop_ok:
  "string_at m p xs \<Longrightarrow> writable m q (Suc (length xs)) \<Longrightarrow> clear_of p (Suc (length xs)) q \<Longrightarrow>
     \<exists>q' p'. while_do strcpy_pass (q, p, m) = Ok (q', p', wrote m q (xs @ [0]))"
proof (induction xs arbitrary: p q m)
  case Nil
  then show ?case by (subst while_do_unfold) (simp add: strcpy_pass_def load_ok store_ok wrote_one)
next
  case (Cons x xs)
  let ?m = "m(q \<mapsto> x)"
  have "clear_of p (Suc (Suc (length xs))) q" using Cons.prems(3) by simp
  note step = string_at_step [OF Cons.prems(1) this]
  have q: "m q \<noteq> None" "writable m (q + 1) (Suc (length xs))" using Cons.prems(2) unfolding list.size by simp_all
  from Cons.IH [OF step(1) writable_mono [OF q(2)] step(2)] have
    "\<exists>q' p'. while_do strcpy_pass (q + 1, p + 1, ?m) = Ok (q', p', wrote ?m (q + 1) (xs @ [0]))" .
  moreover have "wrote m q (x # xs @ [0]) = wrote ?m (q + 1) (xs @ [0])" using Cons.prems(1) by (intro wrote_Cons) simp
  ultimately show ?case using step(3,4) q(1)
    by (subst while_do_unfold) (simp add: strcpy_pass_def store_ok del: fun_upd_apply)
qed

lemma strcpy_ok:
  "string_at m src xs \<Longrightarrow> writable m dst (Suc (length xs)) \<Longrightarrow> clear_of src (Suc (length xs)) dst \<Longrightarrow>
     strcpy dst src m = Ok (dst, wrote m dst (xs @ [0]))"
  using strcpy_loop_ok [of m src xs dst] by (auto simp: strcpy_def)

text \<open>The loop of \<^verbatim>\<open>strncpy\<close> stops at the zero or when the count is used up.\<close>

lemma strncpy_loop_ok:
  "string_at m p xs \<Longrightarrow> writable m q n \<Longrightarrow> n < 2 ^ 32 \<Longrightarrow> clear_of p (Suc (length xs)) q \<Longrightarrow>
     strncpy_loop n q p m =
       Ok (n - Suc (length xs), q + of_nat (min n (Suc (length xs))), wrote m q (take n (xs @ [0])))"
proof (induction n arbitrary: p q m xs)
  case (Suc n)
  have q: "m q \<noteq> None" "writable m (q + 1) n" using Suc.prems(2) by simp_all
  show ?case
  proof (cases xs)
    case Nil
    then show ?thesis using Suc.prems(1) q by (simp add: load_ok store_ok wrote_one del: fun_upd_apply)
  next
    case (Cons x ys)
    let ?m = "m(q \<mapsto> x)"
    have "clear_of p (Suc (Suc (length ys))) q" using Suc.prems(4) Cons by simp
    note step = string_at_step [OF Suc.prems(1) [unfolded Cons] this]
    have "strncpy_loop n (q + 1) (p + 1) ?m =
        Ok (n - Suc (length ys), q + 1 + of_nat (min n (Suc (length ys))), wrote ?m (q + 1) (take n (ys @ [0])))"
      using Suc.prems(3) by (intro Suc.IH [OF step(1) writable_mono [OF q(2)]] step(2)) simp
    moreover have "wrote m q (x # take n (ys @ [0])) = wrote ?m (q + 1) (take n (ys @ [0]))"
      using Suc.prems(3) by (intro wrote_Cons) simp
    moreover have "take (Suc n) (xs @ [0]) = x # take n (ys @ [0])" using Cons by simp
    ultimately show ?thesis using step(3,4) q(1) Cons
      by (simp add: store_ok add.assoc del: fun_upd_apply take_append)
  qed
qed simp

lemma take_pad: "take n (xs @ [0]) @ replicate (n - Suc (length xs)) 0 = take n (xs @ replicate n (0 :: u8))"
proof (cases "n \<le> length xs")
  case False
  then have "replicate (n - length xs) (0 :: u8) = 0 # replicate (n - Suc (length xs)) 0"
    by (simp add: Suc_diff_Suc flip: replicate_Suc)
  then show ?thesis using False by (simp add: min_def)
qed simp

text \<open>\<^verbatim>\<open>strncpy(dst, src, n)\<close> writes exactly \<open>n\<close> bytes: the string, cut to \<open>n\<close> bytes or padded with zeros, and
  nothing else, so that a string of \<open>n\<close> or more characters is left without its terminating zero.\<close>

theorem strncpy_exact:
  assumes "string_at m src xs" "writable m dst (unat n)" "clear_of src (Suc (length xs)) dst"
  shows "strncpy dst src n m = Ok (dst, wrote m dst (take (unat n) (xs @ replicate (unat n) 0)))"
proof -
  let ?n = "unat n" and ?l = "length xs" let ?k = "?n - Suc ?l"
  have n32: "?n < 2 ^ 32" using unsigned_less [of n, where 'a = nat] by simp
  have len: "length (take ?n (xs @ [0])) = min ?n (Suc ?l)" by simp
  let ?m = "wrote m dst (take ?n (xs @ [0]))" and ?q = "dst + of_nat (min ?n (Suc ?l))"
  have "writable m dst (min ?n (Suc ?l) + ?k)" using assms(2) by (auto simp: min_def)
  then have "writable ?m ?q ?k" unfolding writable_add by simp
  moreover have "unat (of_nat ?k :: u32) = ?k" using n32 by (simp add: unat_of_nat)
  ultimately have "memset ?q 0 (of_nat ?k) ?m = Ok (?q, wrote ?m ?q (replicate ?k 0))"
    using memset_wrote [of ?m ?q "of_nat ?k" 0] by simp
  moreover have "wrote ?m ?q (replicate ?k 0) = wrote m dst (take ?n (xs @ [0]) @ replicate ?k 0)"
    using wrote_append [of "take ?n (xs @ [0])" "replicate ?k 0" m dst] n32
    unfolding len by (simp add: min_def split: if_splits del: take_append)
  ultimately show ?thesis using strncpy_loop_ok [OF assms(1,2) n32 assms(3)]
    by (simp add: strncpy_def del: take_append flip: take_pad)
qed

text \<open>A memory that holds \<open>Hello\<close> at \<^verbatim>\<open>0x1000\<close>, \<open>Help\<close> at \<^verbatim>\<open>0x1100\<close> and \<open>lp\<close> at \<^verbatim>\<open>0x1200\<close>, and \<open>a\<close> everywhere else.\<close>

definition texts :: bytes where
  "texts = wrote (wrote (wrote (\<lambda>_. Some 97) 0x1000 [72, 101, 108, 108, 111, 0]) 0x1100 [72, 101, 108, 112, 0]) 0x1200 [108, 112, 0]"

lemma texts_strings:
  "string_at texts 0x1000 [72, 101, 108, 108, 111]" "string_at texts 0x1100 [72, 101, 108, 112]"
  "string_at texts 0x1200 [108, 112]" "writable texts q n"
  by (simp_all add: texts_def wrote_def writable_def)

theorem strncpy_exact_witness:
  "strncpy 0x3000 0x1000 8 texts = Ok (0x3000, wrote texts 0x3000 [72, 101, 108, 108, 111, 0, 0, 0])"
proof -
  have "replicate 3 (0 :: u8) = [0, 0, 0]" by (simp add: numeral_3_eq_3)
  then show ?thesis using strncpy_exact [OF texts_strings(1,4), of "0x3000" 8] by (simp add: clear_of_def)
qed

text \<open>\<^verbatim>\<open>strcmp\<close> orders strings as words of unsigned bytes: its result is zero exactly on equal strings and
  negative exactly when the first comes first.\<close>

theorem strcmp_order:
  assumes "string_at m s1 xs" "string_at m s2 ys"
  shows "\<exists>d. strcmp s1 s2 m = Ok d \<and> (d = 0 \<longleftrightarrow> xs = ys) \<and> (d < 0 \<longleftrightarrow> (xs, ys) \<in> lexord {(a, b). a < b})"
  using strcmp_loop_ok [OF assms, of 0] by (elim exE conjE) (simp add: strcmp_def)

theorem strcmp_order_witness:
  "\<exists>d. strcmp 0x1000 0x1100 texts = Ok d \<and> (d = 0 \<longleftrightarrow> [72, 101, 108, 108, 111] = [72, 101, 108, 112 :: u8]) \<and>
     (d < 0 \<longleftrightarrow> ([72, 101, 108, 108, 111], [72, 101, 108, 112 :: u8]) \<in> lexord {(a, b). a < b})"
  by (rule strcmp_order) (rule texts_strings)+

section \<open>Spans and tokens\<close>

lemma matchmap_loop_ok:
  "string_at m p cs \<Longrightarrow>
     while_do (matchmap_pass m) (p, f) = Ok (p + of_nat (length cs), \<lambda>c. if c \<in> set cs then 1 else f c)"
proof (induction cs arbitrary: p f)
  case Nil
  then show ?case by (subst while_do_unfold) (simp add: matchmap_pass_def load_ok)
next
  case (Cons x cs)
  then show ?case by (subst while_do_unfold) (auto simp: matchmap_pass_def load_ok add.assoc)
qed

lemma span_loop_ok:
  "string_at m p xs \<Longrightarrow> f 0 XOR parity = 0 \<Longrightarrow>
     \<exists>p'. while_do (span_pass f parity m) (p, n) =
       Ok (p', n + of_nat (length (takeWhile (\<lambda>c. f c XOR parity \<noteq> 0) xs)))"
proof (induction xs arbitrary: p n)
  case Nil
  then show ?case by (subst while_do_unfold) (simp add: span_pass_def load_ok)
next
  case (Cons x xs)
  have "span_pass f parity m (p, n) = (if f x XOR parity \<noteq> 0 then Ok (True, p + 1, n + 1) else Ok (False, p + 1, n))"
    using Cons.prems by (simp add: span_pass_def load_ok)
  then show ?case using Cons.IH [of "p + 1" "n + 1"] Cons.prems by (subst while_do_unfold) (simp add: add.assoc)
qed

lemma strxspn_ok:
  assumes "string_at m s xs" "string_at m mp cs" "parity \<in> {0, 1}"
  shows "strxspn s mp parity m = Ok (of_nat (length (takeWhile (\<lambda>c. (c \<in> set cs) = (parity = 0)) xs)))"
proof -
  let ?f = "(\<lambda>c. if c \<in> set cs then 1 else 0)(0 := parity)"
  have "takeWhile (\<lambda>c. ?f c XOR parity \<noteq> 0) xs = takeWhile (\<lambda>c. (c \<in> set cs) = (parity = 0)) xs"
    using assms(1,3) by (intro takeWhile_cong) (auto simp: string_at_def)
  then show ?thesis using span_loop_ok [OF assms(1), of ?f parity 0] matchmap_loop_ok [OF assms(2)]
    by (auto simp: strxspn_def)
qed

text \<open>\<^verbatim>\<open>strspn\<close> and \<^verbatim>\<open>strcspn\<close>, computed with one table of the 256 bytes, give the length of the longest prefix of
  accepted, respectively of not rejected, characters.\<close>

theorem strspn_strcspn_prefix:
  assumes "string_at m s xs" "string_at m d cs"
  shows "strspn s d m = Ok (of_nat (length (takeWhile (\<lambda>c. c \<in> set cs) xs))) \<and>
         strcspn s d m = Ok (of_nat (length (takeWhile (\<lambda>c. c \<notin> set cs) xs)))"
  using strxspn_ok [OF assms] by (simp add: strspn_def strcspn_def)

theorem strspn_strcspn_prefix_witness:
  "strspn 0x1000 0x1200 texts = Ok 0 \<and> strcspn 0x1000 0x1200 texts = Ok 2"
  using strspn_strcspn_prefix [OF texts_strings(1,3)] by simp

lemma strpbrk_ok:
  assumes "string_at m s xs" "string_at m d cs"
  shows "strpbrk s d m =
    Ok (if set xs \<inter> set cs = {} then NULL else s + of_nat (length (takeWhile (\<lambda>c. c \<notin> set cs) xs)))"
proof -
  let ?k = "length (takeWhile (\<lambda>c. c \<notin> set cs) xs)"
  have n: "strxspn s d 1 m = Ok (of_nat ?k)" using strxspn_ok [OF assms, of 1] by simp
  show ?thesis
  proof (cases "set xs \<inter> set cs = {}")
    case True
    then have "takeWhile (\<lambda>c. c \<notin> set cs) xs = xs" by (auto simp: takeWhile_eq_all_conv)
    then have "m (s + of_nat ?k) = Some 0" using assms(1) by (simp only: string_at_def)
    then show ?thesis using True by (simp add: strpbrk_def n load_ok)
  next
    case False
    then have "takeWhile (\<lambda>c. c \<notin> set cs) xs \<noteq> xs" by (auto simp: takeWhile_eq_all_conv)
    then have k: "?k < length xs" by (metis le_neq_implies_less length_takeWhile_le take_all_iff takeWhile_eq_take)
    then have "m (s + of_nat ?k) = Some (xs ! ?k)" using assms(1) by (simp add: string_at_def bytes_at_def)
    moreover have "xs ! ?k \<noteq> 0" using assms(1) nth_mem [OF k] by (auto simp: string_at_def)
    ultimately show ?thesis using False by (simp add: strpbrk_def n load_ok)
  qed
qed

lemma word_of_nat_inj: "a < 2 ^ 32 \<Longrightarrow> b < 2 ^ 32 \<Longrightarrow> (of_nat a :: u32) = of_nat b \<longleftrightarrow> a = b"
  by (simp add: word_unat_eq_iff unat_of_nat)

text \<open>One step of \<^verbatim>\<open>strsep\<close>, and so of \<^verbatim>\<open>strtok\<close>: the string before the first delimiter is returned, cut by a
  zero, and the rest is left for the next call; without a delimiter the whole string is the last token. Nothing
  else is written.\<close>

theorem strsep_token:
  assumes "string_at m s xs" "string_at m d cs" "s \<noteq> NULL" "length xs < unat (- s)"
  defines "tok \<equiv> takeWhile (\<lambda>c. c \<notin> set cs) xs" and "e \<equiv> s + of_nat (length (takeWhile (\<lambda>c. c \<notin> set cs) xs))"
  shows "(set xs \<inter> set cs = {} \<longrightarrow> strtok h s d m = Ok (s, NULL, m)) \<and>
         (set xs \<inter> set cs \<noteq> {} \<longrightarrow>
            strtok h s d m = Ok (s, e + 1, m(e \<mapsto> 0)) \<and>
            string_at (m(e \<mapsto> 0)) s tok \<and> string_at (m(e \<mapsto> 0)) (e + 1) (drop (Suc (length tok)) xs))"
proof (intro conjI impI)
  show "strtok h s d m = Ok (s, NULL, m)" if "set xs \<inter> set cs = {}"
    using that assms(3) strpbrk_ok [OF assms(1,2)] by (simp add: strtok_def strsep_def)
next
  assume hit: "set xs \<inter> set cs \<noteq> {}"
  let ?k = "length tok"
  have b: "bytes_at m s xs" "0 \<notin> set xs" "length xs < 2 ^ 32" "m (s + of_nat (length xs)) = Some 0"
    using assms(1) by (simp_all add: string_at_def)
  have "tok \<noteq> xs" using hit by (auto simp: tok_def takeWhile_eq_all_conv)
  then have k: "?k < length xs" unfolding tok_def by (metis le_neq_implies_less length_takeWhile_le take_all_iff takeWhile_eq_take)
  have nth: "tok ! i = xs ! i" if "i < ?k" for i using that unfolding tok_def by (rule takeWhile_nth)
  have sub: "0 \<notin> set tok" "0 \<notin> set (drop (Suc ?k) xs)"
    using b(2) by (auto simp: tok_def dest: set_takeWhileD in_set_dropD)
  have e: "e = s + of_nat ?k" by (simp add: e_def tok_def)
  have "m e \<noteq> None" using b(1) k by (simp add: e bytes_at_def)
  moreover have "e \<noteq> NULL"
  proof
    assume "e = NULL"
    then have "of_nat ?k = - s" by (simp add: e add_eq_0_iff)
    then have "unat (- s) = unat (of_nat ?k :: u32)" by simp
    then have "unat (- s) = ?k" using k b(3) by (simp add: unat_of_nat)
    then show False using k assms(4) by simp
  qed
  ultimately show "strtok h s d m = Ok (s, e + 1, m(e \<mapsto> 0))"
    using hit assms(3) strpbrk_ok [OF assms(1,2)] by (simp add: strtok_def strsep_def store_ok e_def tok_def)
  have far: "s + of_nat i = e \<longleftrightarrow> i = ?k" if "i \<le> length xs" for i
  proof -
    have "(of_nat i :: u32) = of_nat ?k \<longleftrightarrow> i = ?k" using that k b(3) by (intro word_of_nat_inj) simp_all
    then show ?thesis by (simp add: e)
  qed
  have keep: "(m(e \<mapsto> 0)) (s + of_nat i) = (if i < length xs then Some (xs ! i) else Some 0)" if "i \<le> length xs" "i \<noteq> ?k" for i
    using that far [OF that(1)] b(1,4) by (auto simp: bytes_at_def)
  show "string_at (m(e \<mapsto> 0)) s tok"
    using k b(3) keep nth sub(1) by (auto simp: string_at_def bytes_at_def e)
  show "string_at (m(e \<mapsto> 0)) (e + 1) (drop (Suc ?k) xs)"
  proof -
    have addr: "e + 1 + of_nat i = s + of_nat (Suc ?k + i)" for i by (simp add: e)
    have len: "Suc ?k + (length xs - Suc ?k) = length xs" using k by simp
    show ?thesis unfolding string_at_def bytes_at_def length_drop addr len using k b(3) keep sub(2)
      by (auto simp del: fun_upd_apply of_nat_add of_nat_Suc)
  qed
qed

theorem strsep_token_witness:
  "strtok 0 0x1000 0x1200 texts = Ok (0x1000, 0x1003, texts(0x1002 \<mapsto> 0)) \<and>
   string_at (texts(0x1002 \<mapsto> 0)) 0x1000 [72, 101] \<and> string_at (texts(0x1002 \<mapsto> 0)) 0x1003 [108, 111]"
  using strsep_token [OF texts_strings(1,3), of 0] by simp

section \<open>Bounded concatenation\<close>

lemma writable_le: "writable m q n \<Longrightarrow> k \<le> n \<Longrightarrow> writable m q k"
  by (simp add: writable_def)

lemma strlcat_end_ok:
  "string_at m q xs \<Longrightarrow> b \<le> sz \<Longrightarrow>
     while_do (strlcat_end_pass sz m) (b, q) =
       (let k = min (unat sz - unat b) (length xs) in Ok (b + of_nat k, q + of_nat k))"
proof (induction xs arbitrary: b q)
  case Nil
  then show ?case by (subst while_do_unfold) (simp add: strlcat_end_pass_def load_ok)
next
  case (Cons x xs)
  show ?case
  proof (cases "b < sz")
    case True
    then have up: "unat (b + 1) = Suc (unat b)" "b + 1 \<le> sz" using unsigned_less [of sz, where 'a = nat]
      by (auto simp: word_less_nat_alt word_le_nat_alt unat_word_ariths)
    have "unat b < unat sz" using True by (simp add: word_less_nat_alt)
    then have "min (unat sz - unat b) (Suc (length xs)) = Suc (min (unat sz - unat (b + 1)) (length xs))"
      by (simp add: up)
    moreover have "strlcat_end_pass sz m (b, q) = Ok (True, b + 1, q + 1)"
      using Cons.prems(1) True by (simp add: strlcat_end_pass_def load_ok)
    ultimately show ?thesis using Cons.IH [OF _ up(2)] Cons.prems(1)
      by (subst while_do_unfold) (simp add: Let_def add.assoc)
  next
    case False
    then have "b = sz" using Cons.prems(2) by simp
    then show ?thesis by (subst while_do_unfold) (simp add: strlcat_end_pass_def)
  qed
qed

lemma strlcat_copy_full:
  "string_at m p ys \<Longrightarrow> unat sz \<le> Suc (unat b) \<Longrightarrow> unat b + length ys < 2 ^ 32 \<Longrightarrow>
     \<exists>p'. while_do (strlcat_copy_pass sz) (b, q, p, m) = Ok (b + of_nat (length ys), q, p', m)"
proof (induction ys arbitrary: b p)
  case Nil
  then show ?case by (subst while_do_unfold) (simp add: strlcat_copy_pass_def load_ok)
next
  case (Cons y ys)
  have up: "unat (b + 1) = Suc (unat b)" using Cons.prems(3) by (simp add: unat_word_ariths)
  then have "\<not> b + 1 < sz" using Cons.prems(2) by (simp add: word_less_nat_alt)
  then have "strlcat_copy_pass sz (b, q, p, m) = Ok (True, b + 1, q, p + 1, m)"
    using Cons.prems(1) by (simp add: strlcat_copy_pass_def load_ok)
  then show ?case using Cons.IH [of "p + 1" "b + 1"] Cons.prems up
    by (subst while_do_unfold) (simp add: add.assoc)
qed

lemma strlcat_copy_ok:
  "string_at m p ys \<Longrightarrow> unat sz = Suc (unat b + r) \<Longrightarrow> unat b + length ys < 2 ^ 32 \<Longrightarrow> writable m q r \<Longrightarrow>
   clear_of p (Suc (length ys)) q \<Longrightarrow>
     \<exists>p'. while_do (strlcat_copy_pass sz) (b, q, p, m) =
       Ok (b + of_nat (length ys), q + of_nat (min r (length ys)), p', wrote m q (take r ys))"
proof (induction ys arbitrary: b q p m r)
  case Nil
  then show ?case by (subst while_do_unfold) (simp add: strlcat_copy_pass_def load_ok)
next
  case (Cons y ys)
  have up: "unat (b + 1) = Suc (unat b)" using Cons.prems(3) by (simp add: unat_word_ariths)
  show ?case
  proof (cases r)
    case 0
    then show ?thesis using strlcat_copy_full [OF Cons.prems(1), of sz b q] Cons.prems(2,3) by simp
  next
    case (Suc r')
    let ?m = "m(q \<mapsto> y)"
    have "clear_of p (Suc (Suc (length ys))) q" using Cons.prems(5) by simp
    note step = string_at_step [OF Cons.prems(1) this]
    have q: "m q \<noteq> None" "writable m (q + 1) r'" using Cons.prems(4) unfolding Suc by simp_all
    have "\<exists>p'. while_do (strlcat_copy_pass sz) (b + 1, q + 1, p + 1, ?m) =
        Ok (b + 1 + of_nat (length ys), q + 1 + of_nat (min r' (length ys)), p', wrote ?m (q + 1) (take r' ys))"
      using Cons.prems(2,3) Suc up by (intro Cons.IH [OF step(1) _ _ writable_mono [OF q(2)] step(2)]) simp_all
    moreover have "wrote m q (y # take r' ys) = wrote ?m (q + 1) (take r' ys)"
      using Cons.prems(3) by (intro wrote_Cons) simp
    moreover have "b + 1 < sz" using Cons.prems(2) Suc up by (simp add: word_less_nat_alt)
    then have "strlcat_copy_pass sz (b, q, p, m) = Ok (True, b + 1, q + 1, p + 1, ?m)"
      using step(3,4) q(1) by (simp add: strlcat_copy_pass_def store_ok)
    ultimately show ?thesis using Suc by (subst while_do_unfold) (simp add: add.assoc del: fun_upd_apply)
  qed
qed

text \<open>\<^verbatim>\<open>strlcat(dst, src, size)\<close> never writes outside the \<open>size\<close> bytes of its buffer, always leaves a terminated
  string there when there was one, and returns the length it tried to create, so that a result of \<open>size\<close> or more tells
  that the string was cut.\<close>

theorem strlcat_bounded:
  assumes "string_at m dst xs" "string_at m src ys" "writable m dst (unat sz)"
    and "length xs + length ys < 2 ^ 32" "unat sz + length ys < 2 ^ 32"
    and "clear_of src (Suc (length ys)) (dst + of_nat (length xs))"
  shows "strlcat dst src sz m =
     (if length xs < unat sz
      then Ok (of_nat (length xs + length ys), wrote m (dst + of_nat (length xs)) (take (unat sz - Suc (length xs)) ys @ [0]))
      else Ok (sz + of_nat (length ys), m))"
proof (cases "length xs < unat sz")
  case False
  then show ?thesis using strlcat_end_ok [OF assms(1), of 0 sz] strlen_ok [OF assms(2)] by (simp add: strlcat_def)
next
  case True
  let ?l = "length xs" let ?r = "unat sz - Suc ?l" let ?q = "dst + of_nat ?l"
  let ?e = "?q + of_nat (min ?r (length ys))" and ?m = "wrote m ?q (take ?r ys)"
  have b: "unat (of_nat ?l :: u32) = ?l" using assms(4) by (simp add: unat_of_nat)
  then have ne: "(of_nat ?l :: u32) \<noteq> sz" using True by auto
  have w: "writable m ?q (unat sz - ?l)" using assms(3) writable_add [of m dst ?l "unat sz - ?l"] True by simp
  have "min ?r (length ys) + 1 \<le> unat sz - ?l" using True by arith
  note room = writable_le [OF w this] writable_le [OF w, of ?r]
  have "\<exists>p'. while_do (strlcat_copy_pass sz) (of_nat ?l, ?q, src, m) = Ok (of_nat ?l + of_nat (length ys), ?e, p', ?m)"
    using strlcat_copy_ok [OF assms(2) _ _ room(2) assms(6), of sz "of_nat ?l"] True assms(4) b by simp
  moreover have "writable m ?e 1" using room(1) unfolding writable_add by simp
  then have "?m ?e \<noteq> None" using writable_wrote [of m ?e 1] by simp
  then have "store ?m ?e 0 = Ok (wrote m ?q (take ?r ys @ [0]))"
    using wrote_append [of "take ?r ys" "[0]" m ?q] assms(4,5) by (simp add: store_ok wrote_one min.commute del: fun_upd_apply)
  ultimately show ?thesis using strlcat_end_ok [OF assms(1), of 0 sz] True ne by (auto simp: strlcat_def Let_def)
qed

theorem strlcat_bounded_witness:
  "strlcat 0x1100 0x1000 8 texts = Ok (9, wrote texts 0x1104 [72, 101, 108, 0])"
  using strlcat_bounded [OF texts_strings(2,1,4), of 8] by (simp add: clear_of_def)

text \<open>\<^verbatim>\<open>strstr\<close> finds the first occurrence of a non-empty string in another; an empty needle gives \<^verbatim>\<open>NULL\<close>, where the C
  standard asks for the haystack.\<close>

theorem strstr_finds_first:
  assumes "string_at m y hs" "string_at m x nd"
  shows "(nd \<noteq> [] \<longrightarrow> (\<exists>r. strstr y x m = Ok r \<and> found_at y nd hs r)) \<and> (nd = [] \<longrightarrow> strstr y x m = Ok NULL)"
proof -
  have "length hs = unat (of_nat (length hs) :: u32)" "length nd = unat (of_nat (length nd) :: u32)"
    using assms by (simp_all add: string_at_def unat_of_nat)
  then show ?thesis using memmem_ok [of m y hs "of_nat (length hs)" x nd "of_nat (length nd)"]
      string_at_bytes(1) [OF assms(1)] string_at_bytes(1) [OF assms(2)]
    by (auto simp: strstr_def strlen_ok [OF assms(1)] strlen_ok [OF assms(2)] memmem_def)
qed

theorem strstr_finds_first_witness:
  "(\<exists>r. strstr 0x1100 0x1200 texts = Ok r \<and> found_at 0x1100 [108, 112 :: u8] [72, 101, 108, 112] r)"
  using strstr_finds_first [OF texts_strings(2,3)] by simp

end
