(* ===== verification/Format.thy ===== *)
theory Format
  imports Conversion
begin

unbundle bit_operations_syntax

text \<open>
  The format interpreter \<^verbatim>\<open>formater\<close> of \<^verbatim>\<open>Sources/io/kernel_output.c\<close>, over the handlers of an output. The
  arguments are the 32-bit words of the caller's stack, as \<^verbatim>\<open>__builtin_va_arg\<close> reads them on i386, and
  \<open>strs\<close> gives the text that a \<^verbatim>\<open>char*\<close> points to. A theory of pieces says what a format prints.
\<close>

section \<open>Outputs\<close>

record 'w output_t =
  putc :: "char \<Rightarrow> 'w \<Rightarrow> 'w outcome"
  puts :: "string \<Rightarrow> 'w \<Rightarrow> 'w outcome"

section \<open>The interpreter\<close>

record fmt_mods =
  modifier :: bool
  length_mod :: u8
  padding_mod :: u8
  upper_mod :: bool
  pad_char_mod :: char

definition fmt_init :: fmt_mods where
  "fmt_init = \<lparr>modifier = False, length_mod = 4, padding_mod = 0, upper_mod = False, pad_char_mod = CHR '' ''\<rparr>"

text \<open>\<^verbatim>\<open>__builtin_va_arg\<close> of one and of two words; there is nothing to read after the last argument.\<close>

fun va_arg32 :: "u32 list \<Rightarrow> (u32 \<times> u32 list) outcome" where
  "va_arg32 [] = Fault"
| "va_arg32 (a # as) = Ok (a, as)"

fun va_arg64 :: "u32 list \<Rightarrow> (u64 \<times> u32 list) outcome" where
  "va_arg64 (lo # hi # as) = Ok (ucast lo OR push_bit 32 (ucast hi), as)"
| "va_arg64 _ = Fault"

text \<open>The value is assigned to a \<^verbatim>\<open>size_t\<close>, which has 32 bits.\<close>

definition GET_SEQ_VAL :: "u8 \<Rightarrow> u32 list \<Rightarrow> (u32 \<times> u32 list) outcome" where
  "GET_SEQ_VAL len args =
     (let len = if len > 8 then 8 else len
      in if len = 1 then andthen (va_arg32 args) (\<lambda>(v, args). Ok (v AND 0xFF, args))
         else if len = 2 then andthen (va_arg32 args) (\<lambda>(v, args). Ok (v AND 0xFFFF, args))
         else if len = 4 then va_arg32 args
         else if len = 8 then andthen (va_arg64 args) (\<lambda>(v, args). Ok (ucast v, args))
         else va_arg32 args)"

primrec pad_loop :: "nat \<Rightarrow> 'w output_t \<Rightarrow> char \<Rightarrow> 'w \<Rightarrow> 'w outcome" where
  "pad_loop 0 out c w = Ok w"
| "pad_loop (Suc n) out c w = andthen (putc out c w) (pad_loop n out c)"

definition PAD_SEQ :: "'w output_t \<Rightarrow> fmt_mods \<Rightarrow> string \<Rightarrow> 'w \<Rightarrow> 'w outcome" where
  "PAD_SEQ out fm tmp_seq w = pad_loop (unat (padding_mod fm) - length tmp_seq) out (pad_char_mod fm) w"

definition toupper :: "string \<Rightarrow> string" where
  "toupper s = map (\<lambda>c. if of_char c > (96 :: nat) \<and> of_char c < (123 :: nat) then char_of (of_char c - 32 :: nat) else c) s"

definition tolower :: "string \<Rightarrow> string" where
  "tolower s = map (\<lambda>c. if of_char c > (64 :: nat) \<and> of_char c < (91 :: nat) then char_of (of_char c + 32 :: nat) else c) s"

text \<open>The cases of the conversions; the text is what \<^verbatim>\<open>tmp_seq\<close> holds.\<close>

definition conv_signed :: "'w output_t \<Rightarrow> fmt_mods \<Rightarrow> u32 list \<Rightarrow> 'w \<Rightarrow> (u32 list \<times> 'w) outcome" where
  "conv_signed out fm args w =
     andthen (GET_SEQ_VAL (length_mod fm) args) (\<lambda>(seq_val, args).
     andthen (itoa (ucast seq_val) 10) (\<lambda>t. let tmp_seq = (case t of None \<Rightarrow> [] | Some t \<Rightarrow> t) in
     andthen (PAD_SEQ out fm tmp_seq w) (\<lambda>w. andthen (puts out tmp_seq w) (\<lambda>w. Ok (args, w)))))"

definition conv_unsigned :: "'w output_t \<Rightarrow> fmt_mods \<Rightarrow> u32 list \<Rightarrow> 'w \<Rightarrow> (u32 list \<times> 'w) outcome" where
  "conv_unsigned out fm args w =
     andthen (GET_SEQ_VAL (length_mod fm) args) (\<lambda>(seq_val, args).
     andthen (uitoa (ucast seq_val) 10) (\<lambda>tmp_seq.
     andthen (PAD_SEQ out fm tmp_seq w) (\<lambda>w. andthen (puts out tmp_seq w) (\<lambda>w. Ok (args, w)))))"

definition conv_hex :: "'w output_t \<Rightarrow> fmt_mods \<Rightarrow> u32 list \<Rightarrow> 'w \<Rightarrow> (u32 list \<times> 'w) outcome" where
  "conv_hex out fm args w =
     andthen (GET_SEQ_VAL (length_mod fm) args) (\<lambda>(seq_val, args).
     andthen (uitoa (ucast seq_val) 16) (\<lambda>tmp_seq.
     andthen (PAD_SEQ out fm tmp_seq w) (\<lambda>w.
     andthen (puts out (if upper_mod fm then toupper tmp_seq else tolower tmp_seq) w) (\<lambda>w. Ok (args, w)))))"

definition conv_pointer :: "'w output_t \<Rightarrow> fmt_mods \<Rightarrow> u32 list \<Rightarrow> 'w \<Rightarrow> (u32 list \<times> 'w) outcome" where
  "conv_pointer out fm args w = conv_hex out (fm\<lparr>padding_mod := 8, pad_char_mod := CHR ''0'', length_mod := 4\<rparr>) args w"

definition conv_char :: "'w output_t \<Rightarrow> u32 list \<Rightarrow> 'w \<Rightarrow> (u32 list \<times> 'w) outcome" where
  "conv_char out args w =
     andthen (GET_SEQ_VAL 1 args) (\<lambda>(v, args). andthen (putc out (char_of (unat v)) w) (\<lambda>w. Ok (args, w)))"

definition conv_string :: "(ptr \<rightharpoonup> string) \<Rightarrow> 'w output_t \<Rightarrow> u32 list \<Rightarrow> 'w \<Rightarrow> (u32 list \<times> 'w) outcome" where
  "conv_string strs current_output args w =
     andthen (va_arg32 args) (\<lambda>(p, args). andthen (deref strs p) (\<lambda>s. andthen (puts current_output s w) (\<lambda>w. Ok (args, w))))"

text \<open>The digit cases: the padding is an unsigned byte.\<close>

definition padding_digit :: "char \<Rightarrow> fmt_mods \<Rightarrow> fmt_mods" where
  "padding_digit c fm =
     (if c = CHR ''0'' \<and> padding_mod fm = 0 then fm\<lparr>pad_char_mod := CHR ''0''\<rparr>
      else fm\<lparr>padding_mod := padding_mod fm * 10 + of_nat (of_char c - 48)\<rparr>)"

text \<open>One character of the format. The modifiers are kept by \<^verbatim>\<open>continue\<close> and reset otherwise.\<close>

definition done_with :: "(u32 list \<times> 'w) outcome \<Rightarrow> (fmt_mods \<times> u32 list \<times> 'w) outcome" where
  "done_with r = andthen r (\<lambda>(args, w). Ok (fmt_init, args, w))"

definition formater_step ::
    "(ptr \<rightharpoonup> string) \<Rightarrow> 'w output_t \<Rightarrow> 'w output_t \<Rightarrow> char \<Rightarrow> fmt_mods \<times> u32 list \<times> 'w \<Rightarrow> (fmt_mods \<times> u32 list \<times> 'w) outcome" where
  "formater_step strs current_output used_output c = (\<lambda>(fm, args, w).
     if c = CHR ''%''
     then if \<not> modifier fm then Ok (fm\<lparr>modifier := True\<rparr>, args, w)
          else done_with (andthen (putc used_output c w) (\<lambda>w. Ok (args, w)))
     else if modifier fm
     then if c = CHR ''h'' then Ok (fm\<lparr>length_mod := length_mod fm div 2\<rparr>, args, w)
          else if c = CHR ''l'' then Ok (fm\<lparr>length_mod := length_mod fm * 2\<rparr>, args, w)
          else if c = CHR ''s'' then done_with (conv_string strs current_output args w)
          else if c = CHR ''d'' \<or> c = CHR ''i'' then done_with (conv_signed used_output fm args w)
          else if c = CHR ''u'' then done_with (conv_unsigned used_output fm args w)
          else if c = CHR ''X'' then done_with (conv_hex used_output (fm\<lparr>upper_mod := True\<rparr>) args w)
          else if c = CHR ''x'' then done_with (conv_hex used_output fm args w)
          else if c = CHR ''P'' then done_with (conv_pointer used_output (fm\<lparr>upper_mod := True\<rparr>) args w)
          else if c = CHR ''p'' then done_with (conv_pointer used_output fm args w)
          else if c = CHR ''c'' then done_with (conv_char used_output args w)
          else if c \<in> set ''0123456789'' then Ok (padding_digit c fm, args, w)
          else Ok (fm, args, w)
     else done_with (andthen (putc used_output c w) (\<lambda>w. Ok (args, w))))"

primrec formater_loop ::
    "(ptr \<rightharpoonup> string) \<Rightarrow> 'w output_t \<Rightarrow> 'w output_t \<Rightarrow> string \<Rightarrow> fmt_mods \<times> u32 list \<times> 'w \<Rightarrow> (fmt_mods \<times> u32 list \<times> 'w) outcome" where
  "formater_loop strs cur used [] s = Ok s"
| "formater_loop strs cur used (c # cs) s = andthen (formater_step strs cur used c s) (formater_loop strs cur used cs)"

definition formater ::
    "(ptr \<rightharpoonup> string) \<Rightarrow> 'w output_t \<Rightarrow> string \<Rightarrow> u32 list \<Rightarrow> 'w output_t \<Rightarrow> 'w \<Rightarrow> 'w outcome" where
  "formater strs current_output str args used_output w =
     andthen (formater_loop strs current_output used_output str (fmt_init, args, w)) (\<lambda>(_, _, w). Ok w)"

section \<open>The contract of an output\<close>

primrec put_all :: "(char \<Rightarrow> 'w \<Rightarrow> 'w outcome) \<Rightarrow> string \<Rightarrow> 'w \<Rightarrow> 'w outcome" where
  "put_all f [] w = Ok w"
| "put_all f (c # cs) w = andthen (f c w) (put_all f cs)"

text \<open>The equations with the state left out, for rewriting under \<open>andthen\<close>.\<close>

lemma put_all_append: "put_all f (a @ b) = (\<lambda>w. andthen (put_all f a w) (put_all f b))"
  by (induction a) (rule ext, simp add: andthen_assoc)+

lemma put_all_one: "put_all f [c] w = f c w"
  by (cases "f c w") simp_all

lemma pad_loop_all: "pad_loop n out c = put_all (putc out) (replicate n c)"
  by (induction n) (rule ext, simp)+

lemma formater_loop_append:
  "formater_loop strs cur used (a @ b) = (\<lambda>s. andthen (formater_loop strs cur used a s) (formater_loop strs cur used b))"
  by (induction a) (rule ext, simp add: andthen_assoc)+

section \<open>Numerals\<close>

text \<open>The numeral of a number in a base, and in lower case for base 16.\<close>

function numeral_text :: "nat \<Rightarrow> nat \<Rightarrow> string" where
  "numeral_text b n = (if b < 2 \<or> n < b then [hex_table ! n] else numeral_text b (n div b) @ [hex_table ! (n mod b)])"
  by auto
termination by (relation "measure snd") auto

declare numeral_text.simps [simp del]

lemma uitoa_digits_numeral:
  "2 \<le> unat base \<Longrightarrow> i \<noteq> 0 \<Longrightarrow> unat i < unat base ^ n \<Longrightarrow>
     uitoa_digits n i base = Ok (rev (numeral_text (unat base) (unat i)))"
proof (induction n arbitrary: i)
  case 0
  then show ?case by (simp add: unat_eq_zero)
next
  case (Suc n)
  let ?b = "ucast base :: u64"
  have ub: "unat ?b = unat base" using unsigned_less [of base, where 'a = nat] by (simp add: unsigned_ucast_eq take_bit_nat_eq_self)
  have q: "unat (i div ?b) = unat i div unat base" and r: "unat (i mod ?b) = unat i mod unat base"
    by (simp_all add: unat_div unat_mod ub)
  have base: "base \<noteq> 0" using Suc.prems(1) by auto
  show ?case
  proof (cases "unat i < unat base")
    case True
    then have "i div ?b = 0" using q by (simp add: word_unat_eq_iff)
    moreover have "uitoa_digits n 0 base = Ok []" by (cases n) simp_all
    ultimately show ?thesis using True Suc.prems(1,2) base r by (simp add: numeral_text.simps [of "unat base"])
  next
    case False
    have "i div ?b \<noteq> 0" using False q Suc.prems(1) by (auto simp: word_unat_eq_iff div_eq_0_iff)
    moreover have "unat (i div ?b) < unat base ^ n"
      unfolding q using Suc.prems(1,3) by (simp add: div_less_iff_less_mult mult.commute)
    ultimately have "uitoa_digits n (i div ?b) base = Ok (rev (numeral_text (unat base) (unat i div unat base)))"
      using Suc.IH [OF Suc.prems(1)] by (simp add: q)
    then show ?thesis using False Suc.prems(1,2) base r by (simp add: numeral_text.simps [of "unat base" "unat i"])
  qed
qed

lemma uitoa_numeral:
  assumes "2 \<le> base" "base \<le> 16"
  shows "uitoa i base = Ok (numeral_text (unat base) (unat i))"
proof (cases "i = 0")
  case True
  then show ?thesis using assms(1) by (simp add: uitoa_def numeral_text.simps [of _ 0] hex_table_def word_le_nat_alt)
next
  case False
  have b: "2 \<le> unat base" "\<not> 16 < base" using assms by (simp_all add: word_le_nat_alt not_less)
  have "unat i < 2 ^ 64" using unsigned_less [of i, where 'a = nat] by simp
  also have "(2 :: nat) ^ 64 \<le> unat base ^ 64" using b(1) by (intro power_mono) simp_all
  also have "\<dots> \<le> unat base ^ 128" using b(1) by (intro power_increasing) simp_all
  finally show ?thesis using uitoa_digits_numeral [OF b(1) False, of 128] b(2) False by (simp add: uitoa_def)
qed

definition lower_digit :: "nat \<Rightarrow> char" where
  "lower_digit d = ''0123456789abcdef'' ! d"

lemma digits_case: "d < 16 \<Longrightarrow> tolower [hex_table ! d] = [lower_digit d] \<and> toupper [hex_table ! d] = [hex_table ! d]"
proof -
  have "\<forall>d \<in> set [0 ..< 16]. tolower [hex_table ! d] = [lower_digit d] \<and> toupper [hex_table ! d] = [hex_table ! d]"
    by code_simp
  then show "d < 16 \<Longrightarrow> ?thesis" by simp
qed

lemma case_append [simp]: "tolower (a @ b) = tolower a @ tolower b" "toupper (a @ b) = toupper a @ toupper b"
  by (simp_all add: tolower_def toupper_def)

lemma toupper_numeral: "toupper (numeral_text 16 n) = numeral_text 16 n"
proof (induction n rule: less_induct)
  case (less n)
  then show ?case using digits_case [of n] digits_case [of "n mod 16"] by (simp add: numeral_text.simps [of 16 n])
qed

function lower_text :: "nat \<Rightarrow> string" where
  "lower_text n = (if n < 16 then [lower_digit n] else lower_text (n div 16) @ [lower_digit (n mod 16)])"
  by auto
termination by (relation "measure id") auto

declare lower_text.simps [simp del]

lemma tolower_numeral: "tolower (numeral_text 16 n) = lower_text n"
proof (induction n rule: less_induct)
  case (less n)
  then show ?case using digits_case [of n] digits_case [of "n mod 16"]
    by (simp add: numeral_text.simps [of 16 n] lower_text.simps [of n])
qed

lemma case_length [simp]: "length (tolower t) = length t" "length (toupper t) = length t"
  by (simp_all add: tolower_def toupper_def)

section \<open>What a format prints\<close>

text \<open>A format is a sequence of pieces. \<open>fmt_of\<close> writes them as a format string and \<open>text_of\<close> says what they print
  for the given arguments: a number is its numeral, filled up to the width with spaces or zeros.\<close>

datatype piece = Text string | Percent | Str | Character | Dec bool nat | Uns bool nat | Hex bool bool nat | Pointer bool

function width_text :: "nat \<Rightarrow> string" where
  "width_text n = (if n = 0 then [] else width_text (n div 10) @ [hex_table ! (n mod 10)])"
  by auto
termination by (relation "measure id") auto

declare width_text.simps [simp del]

definition width_fmt :: "bool \<Rightarrow> nat \<Rightarrow> string" where
  "width_fmt zero w = (if zero then ''0'' else []) @ width_text w"

fun fmt_of :: "piece \<Rightarrow> string" where
  "fmt_of (Text s) = s"
| "fmt_of Percent = ''%%''"
| "fmt_of Str = ''%s''"
| "fmt_of Character = ''%c''"
| "fmt_of (Dec zero w) = ''%'' @ width_fmt zero w @ ''d''"
| "fmt_of (Uns zero w) = ''%'' @ width_fmt zero w @ ''u''"
| "fmt_of (Hex upper zero w) = ''%'' @ width_fmt zero w @ (if upper then ''X'' else ''x'')"
| "fmt_of (Pointer upper) = (if upper then ''%P'' else ''%p'')"

fun piece_ok :: "piece \<Rightarrow> bool" where
  "piece_ok (Text s) \<longleftrightarrow> CHR ''%'' \<notin> set s"
| "piece_ok (Dec zero w) \<longleftrightarrow> w < 256"
| "piece_ok (Uns zero w) \<longleftrightarrow> w < 256"
| "piece_ok (Hex upper zero w) \<longleftrightarrow> w < 256"
| "piece_ok _ \<longleftrightarrow> True"

definition fill :: "bool \<Rightarrow> nat \<Rightarrow> string \<Rightarrow> string" where
  "fill zero w t = replicate (w - length t) (if zero then CHR ''0'' else CHR '' '') @ t"

definition hex_text :: "bool \<Rightarrow> u32 \<Rightarrow> string" where
  "hex_text upper a = (if upper then numeral_text 16 (unat a) else lower_text (unat a))"

fun text_of :: "(ptr \<rightharpoonup> string) \<Rightarrow> piece \<Rightarrow> u32 list \<Rightarrow> (string \<times> u32 list) option" where
  "text_of strs (Text s) as = Some (s, as)"
| "text_of strs Percent as = Some (''%'', as)"
| "text_of strs Str (a # as) = (case strs a of None \<Rightarrow> None | Some s \<Rightarrow> Some (s, as))"
| "text_of strs Character (a # as) = Some ([char_of (unat a mod 256)], as)"
| "text_of strs (Dec zero w) (a # as) = Some (fill zero w (numeral_text 10 (unat a)), as)"
| "text_of strs (Uns zero w) (a # as) = Some (fill zero w (numeral_text 10 (unat a)), as)"
| "text_of strs (Hex upper zero w) (a # as) = Some (fill zero w (hex_text upper a), as)"
| "text_of strs (Pointer upper) (a # as) = Some (fill True 8 (hex_text upper a), as)"
| "text_of _ _ [] = None"

fun texts_of :: "(ptr \<rightharpoonup> string) \<Rightarrow> piece list \<Rightarrow> u32 list \<Rightarrow> (string \<times> u32 list) option" where
  "texts_of strs [] as = Some ([], as)"
| "texts_of strs (p # ps) as =
     (case text_of strs p as of None \<Rightarrow> None
      | Some (t, as) \<Rightarrow> (case texts_of strs ps as of None \<Rightarrow> None | Some (u, as) \<Rightarrow> Some (t @ u, as)))"

text \<open>Reading a width.\<close>

lemma digit_char:
  assumes "d < 10"
  shows "hex_table ! d \<in> set ''0123456789''" "hex_table ! d \<notin> set ''%hlsdiuXxPpc''"
    "of_char (hex_table ! d) = 48 + d" "hex_table ! d = CHR ''0'' \<longleftrightarrow> d = 0"
proof -
  have "\<forall>d \<in> set [0 ..< 10]. hex_table ! d \<in> set ''0123456789'' \<and> hex_table ! d \<notin> set ''%hlsdiuXxPpc'' \<and>
      of_char (hex_table ! d) = 48 + d \<and> (hex_table ! d = CHR ''0'' \<longleftrightarrow> d = 0)"
    by code_simp
  then have *: "hex_table ! d \<in> set ''0123456789'' \<and> hex_table ! d \<notin> set ''%hlsdiuXxPpc'' \<and>
      of_char (hex_table ! d) = 48 + d \<and> (hex_table ! d = CHR ''0'' \<longleftrightarrow> d = 0)"
    by (rule bspec) (simp add: assms)
  from * [THEN conjunct1] * [THEN conjunct2, THEN conjunct1] * [THEN conjunct2, THEN conjunct2, THEN conjunct1]
    * [THEN conjunct2, THEN conjunct2, THEN conjunct2]
  show "hex_table ! d \<in> set ''0123456789''" "hex_table ! d \<notin> set ''%hlsdiuXxPpc''"
    "of_char (hex_table ! d) = 48 + d" "hex_table ! d = CHR ''0'' \<longleftrightarrow> d = 0" .
qed

lemma digit_step:
  assumes "modifier fm" "d < 10"
  shows "formater_step strs cur used (hex_table ! d) (fm, args, w) = Ok (padding_digit (hex_table ! d) fm, args, w)"
proof -
  have c: "c \<in> set ''0123456789'' \<Longrightarrow> c \<notin> set ''%hlsdiuXxPpc'' \<Longrightarrow>
      formater_step strs cur used c (fm, args, w) = Ok (padding_digit c fm, args, w)" for c
    using assms(1) unfolding formater_step_def by (simp only: list.set insert_iff empty_iff prod.case if_True if_False simp_thms de_Morgan_disj)
  show ?thesis using digit_char(1,2) [OF assms(2)] by (rule c)
qed

lemma width_read:
  "modifier fm \<Longrightarrow> padding_mod fm = 0 \<Longrightarrow> n < 256 \<Longrightarrow>
     formater_loop strs cur used (width_text n) (fm, args, w) = Ok (fm\<lparr>padding_mod := of_nat n\<rparr>, args, w)"
proof (induction n rule: less_induct)
  case (less n)
  show ?case
  proof (cases "n = 0")
    case False
    let ?fm = "fm\<lparr>padding_mod := of_nat (n div 10) :: u8\<rparr>"
    have IH: "formater_loop strs cur used (width_text (n div 10)) (fm, args, w) = Ok (?fm, args, w)"
      using False less.prems by (intro less.IH) simp_all
    have "(of_nat (n div 10) :: u8) = 0 \<longleftrightarrow> n div 10 = 0" using less.prems(3) by (simp add: word_unat_eq_iff unat_of_nat)
    moreover have "(of_nat (n div 10) * 10 + of_nat (n mod 10) :: u8) = of_nat n"
      by (metis (no_types) div_mult_mod_eq of_nat_add of_nat_mult of_nat_numeral)
    ultimately have "padding_digit (hex_table ! (n mod 10)) ?fm = fm\<lparr>padding_mod := of_nat n\<rparr>"
      using digit_char(3,4) [of "n mod 10"] False by (auto simp: padding_digit_def div_eq_0_iff)
    moreover have "formater_step strs cur used (hex_table ! (n mod 10)) (?fm, args, w) = Ok (padding_digit (hex_table ! (n mod 10)) ?fm, args, w)"
      using less.prems(1) by (intro digit_step) simp_all
    ultimately show ?thesis using False IH by (simp add: width_text.simps [of n] formater_loop_append)
  qed (use less.prems in \<open>simp add: width_text.simps [of 0]\<close>)
qed

lemma width_fmt_read:
  assumes "n < 256"
  shows "formater_loop strs cur used (''%'' @ width_fmt zero n) (fmt_init, args, w) =
     Ok (fmt_init\<lparr>modifier := True, padding_mod := of_nat n, pad_char_mod := if zero then CHR ''0'' else CHR '' ''\<rparr>, args, w)"
proof -
  let ?z = "fmt_init\<lparr>modifier := True, pad_char_mod := if zero then CHR ''0'' else CHR '' ''\<rparr>"
  have "formater_loop strs cur used (''%'' @ (if zero then ''0'' else [])) (fmt_init, args, w) = Ok (?z, args, w)"
    by (simp add: formater_step_def fmt_init_def padding_digit_def)
  moreover have "formater_loop strs cur used (width_text n) (?z, args, w) = Ok (?z\<lparr>padding_mod := of_nat n\<rparr>, args, w)"
    by (rule width_read) (simp_all add: fmt_init_def assms)
  ultimately show ?thesis unfolding width_fmt_def append_assoc [symmetric] formater_loop_append by (simp add: fmt_init_def)
qed

definition shown :: "'w output_t \<Rightarrow> fmt_mods \<Rightarrow> string \<Rightarrow> u32 list \<Rightarrow> 'w \<Rightarrow> (u32 list \<times> 'w) outcome" where
  "shown out fm t args w =
     andthen (put_all (putc out) (replicate (unat (padding_mod fm) - length t) (pad_char_mod fm) @ t) w) (\<lambda>w. Ok (args, w))"

locale text_output =
  fixes out :: "'w output_t"
  assumes puts_all: "puts out s w = put_all (putc out) s w"
begin

lemma directive:
  assumes "n < 256"
  shows "formater_loop strs cur out (CHR ''%'' # width_fmt zero n @ [c]) (fmt_init, args, w) =
     formater_step strs cur out c
       (fmt_init\<lparr>modifier := True, padding_mod := of_nat n, pad_char_mod := if zero then CHR ''0'' else CHR '' ''\<rparr>, args, w)"
  using formater_loop_append [of strs cur out "''%'' @ width_fmt zero n" "[c]"] width_fmt_read [OF assms, of strs cur out zero args w]
  by (cases "formater_step strs cur out c (fmt_init\<lparr>modifier := True, padding_mod := of_nat n, pad_char_mod := if zero then CHR ''0'' else CHR '' ''\<rparr>, args, w)")
     (simp_all del: formater_loop.simps(2) add: formater_loop.simps(2) [of strs cur out c "[]"])

lemma pad_then_puts:
  "andthen (PAD_SEQ out fm t w) (\<lambda>w. andthen (puts out u w) (\<lambda>w. Ok (args, w))) =
     andthen (put_all (putc out) (replicate (unat (padding_mod fm) - length t) (pad_char_mod fm) @ u) w) (\<lambda>w. Ok (args, w))"
  by (simp add: PAD_SEQ_def pad_loop_all puts_all put_all_append andthen_assoc)

lemma number_texts:
  "itoa (ucast (a :: u32)) 10 = Ok (Some (numeral_text 10 (unat a)))" "uitoa (ucast a) 10 = Ok (numeral_text 10 (unat a))"
  "uitoa (ucast a) 16 = Ok (numeral_text 16 (unat a))"
proof -
  have u: "unat (ucast a :: u64) = unat a" using unsigned_less [of a, where 'a = nat]
    by (simp add: unsigned_ucast_eq take_bit_nat_eq_self)
  then have "\<not> sint (ucast a :: u64) < 0" using unsigned_less [of a, where 'a = nat] by (simp only: sint_neg_iff) simp
  then show "itoa (ucast a) 10 = Ok (Some (numeral_text 10 (unat a)))" by (simp add: itoa_def uitoa_numeral u)
  show "uitoa (ucast a) 10 = Ok (numeral_text 10 (unat a))" "uitoa (ucast a) 16 = Ok (numeral_text 16 (unat a))"
    by (simp_all add: uitoa_numeral u)
qed

lemma conversions:
  assumes "length_mod fm = 4"
  shows "conv_signed out fm (a # as) w = shown out fm (numeral_text 10 (unat a)) as w"
    "conv_unsigned out fm (a # as) w = shown out fm (numeral_text 10 (unat a)) as w"
    "conv_hex out fm (a # as) w = shown out fm (hex_text (upper_mod fm) a) as w"
proof -
  have g: "GET_SEQ_VAL (length_mod fm) (a # as) = Ok (a, as)" using assms by (simp add: GET_SEQ_VAL_def)
  have h: "(if upper_mod fm then toupper (numeral_text 16 (unat a)) else tolower (numeral_text 16 (unat a))) = hex_text (upper_mod fm) a"
    by (simp add: hex_text_def toupper_numeral tolower_numeral)
  have l: "length (numeral_text 16 (unat a)) = length (hex_text (upper_mod fm) a)" unfolding h [symmetric] by simp
  show "conv_signed out fm (a # as) w = shown out fm (numeral_text 10 (unat a)) as w"
    "conv_unsigned out fm (a # as) w = shown out fm (numeral_text 10 (unat a)) as w"
    by (simp_all add: conv_signed_def conv_unsigned_def g number_texts pad_then_puts shown_def Let_def)
  show "conv_hex out fm (a # as) w = shown out fm (hex_text (upper_mod fm) a) as w"
    by (simp only: conv_hex_def g number_texts pad_then_puts andthen.simps prod.case h l shown_def)
qed

lemma text_loop:
  "CHR ''%'' \<notin> set s \<Longrightarrow>
     formater_loop strs cur out s (fmt_init, args, w) = andthen (put_all (putc out) s w) (\<lambda>w. Ok (fmt_init, args, w))"
proof (induction s arbitrary: w)
  case (Cons c s)
  have "c \<noteq> CHR ''%''" using Cons.prems by auto
  then have "formater_step strs cur out c (fmt_init, args, w) = andthen (putc out c w) (\<lambda>w. Ok (fmt_init, args, w))"
    by (simp add: formater_step_def fmt_init_def done_with_def andthen_assoc)
  then show ?case using Cons by (simp add: andthen_assoc)
qed simp

lemma shown_done:
  "done_with (shown out fm t as w) =
     andthen (put_all (putc out) (replicate (unat (padding_mod fm) - length t) (pad_char_mod fm) @ t) w) (\<lambda>w. Ok (fmt_init, as, w))"
  by (simp add: done_with_def shown_def andthen_assoc)

text \<open>One piece, and a sequence of pieces.\<close>

lemma piece_loop:
  assumes "piece_ok p" "text_of strs p args = Some (t, rest)" "p = Str \<longrightarrow> cur = out"
  shows "formater_loop strs cur out (fmt_of p) (fmt_init, args, w) =
     andthen (put_all (putc out) t w) (\<lambda>w. Ok (fmt_init, rest, w))"
proof (cases p)
  case (Text s)
  then show ?thesis using assms text_loop by simp
next
  case Percent
  then show ?thesis using assms by (cases "putc out CHR ''%'' w") (auto simp: formater_step_def fmt_init_def done_with_def)
next
  case Str
  then obtain a where "args = a # rest" "strs a = Some t" using assms(2) by (cases args) (auto split: option.splits)
  then show ?thesis using Str assms(3)
    by (simp add: formater_step_def fmt_init_def done_with_def conv_string_def deref_def puts_all andthen_assoc)
next
  case Character
  then obtain a where a: "args = a # rest" "t = [char_of (unat a mod 256)]" using assms(2) by (cases args) auto
  have "unat (a AND 0xFF) = unat a mod 256"
    using take_bit_eq_mask [of 8 a] unsigned_take_bit_eq [of 8 a, where 'a = nat] by (simp add: take_bit_eq_mod mask_eq_exp_minus_1)
  then show ?thesis using Character a
    by (simp add: formater_step_def fmt_init_def done_with_def conv_char_def GET_SEQ_VAL_def put_all_one andthen_assoc del: put_all.simps)
next
  case (Pointer upper)
  then obtain a where "args = a # rest" "t = fill True 8 (hex_text upper a)" using assms(2) by (cases args) auto
  then show ?thesis using Pointer
    by (simp add: formater_step_def fmt_init_def conv_pointer_def conversions shown_done fill_def andthen_assoc)
next
  case (Dec zero n)
  then obtain a where "args = a # rest" "t = fill zero n (numeral_text 10 (unat a))" using assms(2) by (cases args) auto
  then show ?thesis using Dec assms(1)
    by (simp add: directive del: formater_loop.simps)
       (simp add: formater_step_def conversions shown_done fill_def unat_of_nat fmt_init_def)
next
  case (Uns zero n)
  then obtain a where "args = a # rest" "t = fill zero n (numeral_text 10 (unat a))" using assms(2) by (cases args) auto
  then show ?thesis using Uns assms(1)
    by (simp add: directive del: formater_loop.simps)
       (simp add: formater_step_def conversions shown_done fill_def unat_of_nat fmt_init_def)
next
  case (Hex upper zero n)
  then obtain a where "args = a # rest" "t = fill zero n (hex_text upper a)" using assms(2) by (cases args) auto
  then show ?thesis using Hex assms(1)
    by (simp add: directive del: formater_loop.simps)
       (simp add: formater_step_def conversions shown_done fill_def unat_of_nat fmt_init_def)
qed

lemma pieces_loop:
  "\<forall>p \<in> set ps. piece_ok p \<and> (p = Str \<longrightarrow> cur = out) \<Longrightarrow> texts_of strs ps args = Some (t, rest) \<Longrightarrow>
     formater_loop strs cur out (concat (map fmt_of ps)) (fmt_init, args, w) =
       andthen (put_all (putc out) t w) (\<lambda>w. Ok (fmt_init, rest, w))"
proof (induction ps arbitrary: args t w)
  case (Cons p ps)
  obtain u as' v where p: "text_of strs p args = Some (u, as')" and v: "texts_of strs ps as' = Some (v, rest)" "t = u @ v"
    using Cons.prems(2) by (auto split: option.splits)
  have "formater_loop strs cur out (concat (map fmt_of ps)) (fmt_init, as', w) =
      andthen (put_all (putc out) v w) (\<lambda>w. Ok (fmt_init, rest, w))" for w
    using Cons.IH [OF _ v(1)] Cons.prems(1) by simp
  then show ?case using piece_loop [OF _ p, of cur] Cons.prems(1) v(2)
    by (simp add: formater_loop_append put_all_append andthen_assoc)
qed simp

lemma formater_pieces:
  assumes "\<forall>p \<in> set ps. piece_ok p \<and> (p = Str \<longrightarrow> cur = out)" "texts_of strs ps args = Some (t, rest)"
  shows "formater strs cur (concat (map fmt_of ps)) args out w = put_all (putc out) t w"
  unfolding formater_def pieces_loop [OF assms] by (cases "put_all (putc out) t w") simp_all

end

end
