(* ===== verification/Console.thy ===== *)
theory Console
  imports Io Format
begin

text \<open>
  The console: the state of the display drivers and the switch between them (\<^verbatim>\<open>Includes/io/graphic.h\<close>,
  \<^verbatim>\<open>Sources/io/graphic.c\<close>). A function pointer is \<open>None\<close> when it is \<^verbatim>\<open>NULL\<close>. A buffer passed by pointer is an option,
  \<open>None\<close> being \<^verbatim>\<open>NULL\<close>, and comes back with what was stored in it.
\<close>

section \<open>State\<close>

record cursor_t =
  cursor_x :: u32
  cursor_y :: u32

record colorscheme_t =
  foreground :: u32
  background :: u32
  vga_color :: u32

datatype SCROLL_DIRECTION_E = SCROLL_DOWN | SCROLL_UP

text \<open>The ports, the file-scope variables of \<^verbatim>\<open>serial.c\<close> and \<^verbatim>\<open>vga_text.c\<close>, and the cells of the frame buffer.\<close>

record console =
  ports :: world
  serial_init_done :: u8
  framebuffer :: "u16 list"
  screen_scheme :: colorscheme_t
  screen_cursor :: cursor_t
  last_printed_cursor :: cursor_t
  last_columns :: "u8 list"

definition con_outb :: "u8 \<Rightarrow> u16 \<Rightarrow> console \<Rightarrow> console" where
  "con_outb v p c = c\<lparr>ports := cpu_outb v p (ports c)\<rparr>"

definition con_inb :: "u16 \<Rightarrow> console \<Rightarrow> u8 \<times> console" where
  "con_inb p c = (case cpu_inb p (ports c) of (v, w) \<Rightarrow> (v, c\<lparr>ports := w\<rparr>))"

section \<open>Drivers\<close>

record 'w kernel_graphic_driver_t =
  clear_screen :: "('w \<Rightarrow> 'w outcome) option"
  put_cursor_at :: "(u32 \<Rightarrow> u32 \<Rightarrow> 'w \<Rightarrow> (OS_RETURN_E \<times> 'w) outcome) option"
  save_cursor :: "(cursor_t option \<Rightarrow> 'w \<Rightarrow> (OS_RETURN_E \<times> cursor_t option \<times> 'w) outcome) option"
  restore_cursor :: "(cursor_t \<Rightarrow> 'w \<Rightarrow> (OS_RETURN_E \<times> 'w) outcome) option"
  scroll :: "(SCROLL_DIRECTION_E \<Rightarrow> u32 \<Rightarrow> 'w \<Rightarrow> 'w outcome) option"
  set_color_scheme :: "(colorscheme_t \<Rightarrow> 'w \<Rightarrow> 'w outcome) option"
  save_color_scheme :: "(colorscheme_t option \<Rightarrow> 'w \<Rightarrow> (OS_RETURN_E \<times> colorscheme_t option \<times> 'w) outcome) option"
  put_string :: "(string \<Rightarrow> 'w \<Rightarrow> 'w outcome) option"
  put_char :: "(char \<Rightarrow> 'w \<Rightarrow> 'w outcome) option"
  console_write_keyboard :: "(string \<Rightarrow> u32 \<Rightarrow> 'w \<Rightarrow> 'w outcome) option"

text \<open>A call through a function pointer.\<close>

definition through :: "'f option \<Rightarrow> ('f \<Rightarrow> 'b outcome) \<Rightarrow> 'b outcome" where
  "through f k = (case f of None \<Rightarrow> Fault | Some g \<Rightarrow> k g)"

lemma through_Some [simp]: "through (Some g) k = k g"
  by (simp add: through_def)

text \<open>The result carries the selected driver.\<close>

definition graphic_set_selected_driver ::
    "'w kernel_graphic_driver_t option \<Rightarrow> 'w kernel_graphic_driver_t \<Rightarrow> OS_RETURN_E \<times> 'w kernel_graphic_driver_t" where
  "graphic_set_selected_driver driver graphic_driver =
     (case driver of
        None \<Rightarrow> (OS_ERR_NULL_POINTER, graphic_driver)
      | Some d \<Rightarrow>
          if Option.is_none (clear_screen d) \<or> Option.is_none (put_cursor_at d) \<or> Option.is_none (save_cursor d) \<or> Option.is_none (restore_cursor d) \<or>
             Option.is_none (scroll d) \<or> Option.is_none (set_color_scheme d) \<or> Option.is_none (save_color_scheme d) \<or> Option.is_none (put_string d) \<or>
             Option.is_none (put_char d) \<or> Option.is_none (console_write_keyboard d)
          then (OS_ERR_NULL_POINTER, graphic_driver) else (OS_NO_ERR, d))"

definition graphic_get_selected_driver :: "'w kernel_graphic_driver_t \<Rightarrow> 'w kernel_graphic_driver_t" where
  "graphic_get_selected_driver graphic_driver = graphic_driver"

definition graphic_clear_screen :: "'w kernel_graphic_driver_t \<Rightarrow> 'w \<Rightarrow> 'w outcome" where
  "graphic_clear_screen d w = through (clear_screen d) (\<lambda>f. f w)"

definition graphic_put_cursor_at :: "'w kernel_graphic_driver_t \<Rightarrow> u32 \<Rightarrow> u32 \<Rightarrow> 'w \<Rightarrow> (OS_RETURN_E \<times> 'w) outcome" where
  "graphic_put_cursor_at d line column w = through (put_cursor_at d) (\<lambda>f. f line column w)"

definition graphic_save_cursor ::
    "'w kernel_graphic_driver_t \<Rightarrow> cursor_t option \<Rightarrow> 'w \<Rightarrow> (OS_RETURN_E \<times> cursor_t option \<times> 'w) outcome" where
  "graphic_save_cursor d buffer w = through (save_cursor d) (\<lambda>f. f buffer w)"

definition graphic_restore_cursor :: "'w kernel_graphic_driver_t \<Rightarrow> cursor_t \<Rightarrow> 'w \<Rightarrow> (OS_RETURN_E \<times> 'w) outcome" where
  "graphic_restore_cursor d buffer w = through (restore_cursor d) (\<lambda>f. f buffer w)"

definition graphic_scroll :: "'w kernel_graphic_driver_t \<Rightarrow> SCROLL_DIRECTION_E \<Rightarrow> u32 \<Rightarrow> 'w \<Rightarrow> 'w outcome" where
  "graphic_scroll d direction lines_count w = through (scroll d) (\<lambda>f. f direction lines_count w)"

definition graphic_set_color_scheme :: "'w kernel_graphic_driver_t \<Rightarrow> colorscheme_t \<Rightarrow> 'w \<Rightarrow> 'w outcome" where
  "graphic_set_color_scheme d scheme w = through (set_color_scheme d) (\<lambda>f. f scheme w)"

definition graphic_save_color_scheme ::
    "'w kernel_graphic_driver_t \<Rightarrow> colorscheme_t option \<Rightarrow> 'w \<Rightarrow> (OS_RETURN_E \<times> colorscheme_t option \<times> 'w) outcome" where
  "graphic_save_color_scheme d buffer w = through (save_color_scheme d) (\<lambda>f. f buffer w)"

definition graphic_put_string :: "'w kernel_graphic_driver_t \<Rightarrow> string \<Rightarrow> 'w \<Rightarrow> 'w outcome" where
  "graphic_put_string d str w = through (put_string d) (\<lambda>f. f str w)"

definition graphic_put_char :: "'w kernel_graphic_driver_t \<Rightarrow> char \<Rightarrow> 'w \<Rightarrow> 'w outcome" where
  "graphic_put_char d character w = through (put_char d) (\<lambda>f. f character w)"

definition graphic_console_write_keyboard :: "'w kernel_graphic_driver_t \<Rightarrow> string \<Rightarrow> u32 \<Rightarrow> 'w \<Rightarrow> 'w outcome" where
  "graphic_console_write_keyboard d str len w = through (console_write_keyboard d) (\<lambda>f. f str len w)"

lemmas graphic_defs = graphic_clear_screen_def graphic_put_cursor_at_def graphic_save_cursor_def graphic_restore_cursor_def
  graphic_scroll_def graphic_set_color_scheme_def graphic_save_color_scheme_def graphic_put_string_def
  graphic_put_char_def graphic_console_write_keyboard_def

text \<open>A driver whose ten functions are all there. The selected driver stays complete whatever drivers are
  offered: it is the last complete one.\<close>

definition complete :: "'w kernel_graphic_driver_t \<Rightarrow> bool" where
  "complete d \<longleftrightarrow> clear_screen d \<noteq> None \<and> put_cursor_at d \<noteq> None \<and> save_cursor d \<noteq> None \<and> restore_cursor d \<noteq> None \<and>
     scroll d \<noteq> None \<and> set_color_scheme d \<noteq> None \<and> save_color_scheme d \<noteq> None \<and> put_string d \<noteq> None \<and>
     put_char d \<noteq> None \<and> console_write_keyboard d \<noteq> None"

definition offer_drivers :: "'w kernel_graphic_driver_t option list \<Rightarrow> 'w kernel_graphic_driver_t \<Rightarrow> 'w kernel_graphic_driver_t" where
  "offer_drivers ds d = fold (\<lambda>x d. snd (graphic_set_selected_driver x d)) ds d"

lemma set_selected_exact:
  "graphic_set_selected_driver x d =
     (case x of None \<Rightarrow> (OS_ERR_NULL_POINTER, d)
      | Some d' \<Rightarrow> if complete d' then (OS_NO_ERR, d') else (OS_ERR_NULL_POINTER, d))"
  unfolding graphic_set_selected_driver_def complete_def Option.is_none_def by (cases x) simp_all

lemma offer_exact:
  "offer_drivers ds d = last (d # filter complete (List.map_filter (\<lambda>x. x) ds))"
proof (induction ds arbitrary: d)
  case Nil
  show ?case by (simp add: offer_drivers_def map_filter_def)
next
  case (Cons x ds)
  have "offer_drivers (x # ds) d = offer_drivers ds (snd (graphic_set_selected_driver x d))" by (simp add: offer_drivers_def)
  then show ?case using Cons.IH by (cases x) (auto simp: set_selected_exact map_filter_def)
qed

lemma offer_complete: "complete d \<Longrightarrow> complete (offer_drivers ds d)"
  unfolding offer_exact using last_in_set [of "d # filter complete (List.map_filter (\<lambda>x. x) ds)"] by auto

end
