(* ===== verification/Serial.thy ===== *)
theory Serial
  imports Console
begin

unbundle bit_operations_syntax

text \<open>
  The serial line driver (\<^verbatim>\<open>Sources/arch/x86/serial.c\<close>), with the traces of the configuration
  (\<^verbatim>\<open>SERIAL_KERNEL_DEBUG\<close>), which print through \<^verbatim>\<open>kernel_serial_debug\<close> of \<^verbatim>\<open>io/kernel_output.c\<close>. \<open>strs\<close> and \<open>cur\<close> are the
  strings in memory and the current output of that file.
\<close>

definition SERIAL_COM1_BASE :: u32 where "SERIAL_COM1_BASE = 0x3F8"

definition SERIAL_COM2_BASE :: u32 where "SERIAL_COM2_BASE = 0x2F8"

definition SERIAL_COM3_BASE :: u32 where "SERIAL_COM3_BASE = 0x3E8"

definition SERIAL_COM4_BASE :: u32 where "SERIAL_COM4_BASE = 0x2E8"

definition SERIAL_DEBUG_PORT :: u32 where "SERIAL_DEBUG_PORT = SERIAL_COM1_BASE"

lemmas serial_bases [simp] = SERIAL_COM1_BASE_def SERIAL_COM2_BASE_def SERIAL_COM3_BASE_def SERIAL_COM4_BASE_def SERIAL_DEBUG_PORT_def

section \<open>Sending and receiving\<close>

text \<open>The wait for an empty transmitter.\<close>

definition transmit_pass :: "u32 \<Rightarrow> console \<Rightarrow> (bool \<times> console) outcome" where
  "transmit_pass port c = (case con_inb (ucast (port + 5)) c of (v, c) \<Rightarrow> Ok (v AND 0x20 = 0, c))"

function serial_write :: "u32 \<Rightarrow> u8 \<Rightarrow> console \<Rightarrow> console outcome" where
  "serial_write port data c =
     (if serial_init_done c = 0 then Ok c
      else if port \<noteq> SERIAL_COM1_BASE \<and> port \<noteq> SERIAL_COM2_BASE \<and> port \<noteq> SERIAL_COM3_BASE \<and> port \<noteq> SERIAL_COM4_BASE then Ok c
      else andthen (while_do (transmit_pass port) c) (\<lambda>c.
           andthen (if data = 10 then andthen (serial_write port 13 c) (\<lambda>c. Ok (con_outb 10 (ucast port) c))
                    else Ok (con_outb data (ucast port) c)) (\<lambda>c.
           while_do (transmit_pass port) c)))"
  by auto
termination by (relation "measure (\<lambda>(_, data, _). if data = 10 then 1 else 0)") auto

declare serial_write.simps [simp del]

primrec line_feeds :: "nat \<Rightarrow> console \<Rightarrow> console outcome" where
  "line_feeds 0 c = Ok c"
| "line_feeds (Suc n) c = andthen (serial_write SERIAL_DEBUG_PORT 10 c) (line_feeds n)"

definition serial_clear_screen :: "console \<Rightarrow> console outcome" where
  "serial_clear_screen c = line_feeds 25 c"

definition serial_put_cursor_at :: "u32 \<Rightarrow> u32 \<Rightarrow> console \<Rightarrow> (OS_RETURN_E \<times> console) outcome" where
  "serial_put_cursor_at line column c = Ok (OS_ERR_NOT_SUPPORTED, c)"

definition serial_save_cursor :: "cursor_t option \<Rightarrow> console \<Rightarrow> (OS_RETURN_E \<times> cursor_t option \<times> console) outcome" where
  "serial_save_cursor buffer c = Ok (OS_ERR_NOT_SUPPORTED, buffer, c)"

definition serial_restore_cursor :: "cursor_t \<Rightarrow> console \<Rightarrow> (OS_RETURN_E \<times> console) outcome" where
  "serial_restore_cursor buffer c = Ok (OS_ERR_NOT_SUPPORTED, c)"

definition serial_scroll :: "SCROLL_DIRECTION_E \<Rightarrow> u32 \<Rightarrow> console \<Rightarrow> console outcome" where
  "serial_scroll direction lines_count c =
     (case direction of SCROLL_DOWN \<Rightarrow> line_feeds (unat lines_count) c | SCROLL_UP \<Rightarrow> Ok c)"

definition serial_set_color_scheme :: "colorscheme_t \<Rightarrow> console \<Rightarrow> console outcome" where
  "serial_set_color_scheme color_scheme c = Ok c"

definition serial_save_color_scheme ::
    "colorscheme_t option \<Rightarrow> console \<Rightarrow> (OS_RETURN_E \<times> colorscheme_t option \<times> console) outcome" where
  "serial_save_color_scheme buffer c = Ok (OS_ERR_NOT_SUPPORTED, buffer, c)"

primrec write_keyboard_loop :: "string \<Rightarrow> nat \<Rightarrow> console \<Rightarrow> console outcome" where
  "write_keyboard_loop str 0 c = Ok c"
| "write_keyboard_loop str (Suc n) c =
     (case str of [] \<Rightarrow> Fault
      | x # xs \<Rightarrow> andthen (serial_write SERIAL_DEBUG_PORT (of_char x) c) (write_keyboard_loop xs n))"

definition serial_console_write_keyboard :: "string \<Rightarrow> u32 \<Rightarrow> console \<Rightarrow> console outcome" where
  "serial_console_write_keyboard str len c = write_keyboard_loop str (unat len) c"

definition serial_received :: "u32 \<Rightarrow> console \<Rightarrow> u8 \<times> console" where
  "serial_received port c = (case con_inb (ucast (port + 5)) c of (v, c) \<Rightarrow> (v AND 1, c))"

definition receive_pass :: "u32 \<Rightarrow> console \<Rightarrow> (bool \<times> console) outcome" where
  "receive_pass port c = (case serial_received port c of (v, c) \<Rightarrow> Ok (v = 0, c))"

definition serial_read :: "u32 \<Rightarrow> console \<Rightarrow> (u8 \<times> console) outcome" where
  "serial_read port c = andthen (while_do (receive_pass port) c) (\<lambda>c. Ok (con_inb (ucast port) c))"

definition serial_put_char :: "char \<Rightarrow> console \<Rightarrow> console outcome" where
  "serial_put_char character c = serial_write SERIAL_DEBUG_PORT (of_char character) c"

primrec serial_put_string :: "string \<Rightarrow> console \<Rightarrow> console outcome" where
  "serial_put_string [] c = Ok c"
| "serial_put_string (x # xs) c = andthen (serial_write SERIAL_DEBUG_PORT (of_char x) c) (serial_put_string xs)"

definition serial_text_driver :: "console kernel_graphic_driver_t" where
  "serial_text_driver =
     \<lparr>clear_screen = Some serial_clear_screen, put_cursor_at = Some serial_put_cursor_at,
      save_cursor = Some serial_save_cursor, restore_cursor = Some serial_restore_cursor,
      scroll = Some serial_scroll, set_color_scheme = Some serial_set_color_scheme,
      save_color_scheme = Some serial_save_color_scheme, put_string = Some serial_put_string,
      put_char = Some serial_put_char, console_write_keyboard = Some serial_console_write_keyboard\<rparr>"

section \<open>Traces and initialisation\<close>

definition ser_out :: "console output_t" where
  "ser_out = \<lparr>putc = serial_put_char, puts = serial_put_string\<rparr>"

definition kprint_fmt_serial ::
    "(ptr \<rightharpoonup> string) \<Rightarrow> console output_t \<Rightarrow> string \<Rightarrow> u32 list \<Rightarrow> console \<Rightarrow> console outcome" where
  "kprint_fmt_serial strs cur str args c = formater strs cur str args ser_out c"

text \<open>The format is a string or \<^verbatim>\<open>NULL\<close>.\<close>

definition kernel_serial_debug ::
    "(ptr \<rightharpoonup> string) \<Rightarrow> console output_t \<Rightarrow> string option \<Rightarrow> u32 list \<Rightarrow> console \<Rightarrow> console outcome" where
  "kernel_serial_debug strs cur fmt args c =
     (case fmt of None \<Rightarrow> Ok c
      | Some fmt \<Rightarrow> andthen (kprint_fmt_serial strs cur ''[DEBUG] '' args c) (kprint_fmt_serial strs cur fmt args))"

definition newline :: string where
  "newline = [CHR 0x0A]"

definition set_line ::
    "(ptr \<rightharpoonup> string) \<Rightarrow> console output_t \<Rightarrow> u8 \<Rightarrow> u8 \<Rightarrow> console \<Rightarrow> (OS_RETURN_E \<times> console) outcome" where
  "set_line strs cur attr com c =
     andthen (kernel_serial_debug strs cur (Some (''[SERIAL] Set line attributes of port 0x%04x to %u'' @ newline))
                [ucast com, ucast attr] (con_outb attr (ucast com + 3) c)) (\<lambda>c. Ok (OS_NO_ERR, c))"

definition set_buffer ::
    "(ptr \<rightharpoonup> string) \<Rightarrow> console output_t \<Rightarrow> u8 \<Rightarrow> u8 \<Rightarrow> console \<Rightarrow> (OS_RETURN_E \<times> console) outcome" where
  "set_buffer strs cur attr com c =
     andthen (kernel_serial_debug strs cur (Some (''[SERIAL] Set buffer attributes of port 0x%04x to %u'' @ newline))
                [ucast com, ucast attr] (con_outb attr (ucast com + 2) c)) (\<lambda>c. Ok (OS_NO_ERR, c))"

definition BAUDRATE_9600 :: u32 where "BAUDRATE_9600 = 12"

definition set_baudrate ::
    "(ptr \<rightharpoonup> string) \<Rightarrow> console output_t \<Rightarrow> u32 \<Rightarrow> u8 \<Rightarrow> console \<Rightarrow> (OS_RETURN_E \<times> console) outcome" where
  "set_baudrate strs cur rate com c =
     (let c = con_outb 0x80 (ucast com + 3) c;
          c = con_outb (ucast (drop_bit 8 rate AND 0xFF)) (ucast com) c;
          c = con_outb (ucast (rate AND 0xFF)) (ucast com + 1) c
      in andthen (kernel_serial_debug strs cur (Some (''[SERIAL] Set baud rate of port 0x%04x to %u'' @ newline))
                    [ucast com, rate] c) (\<lambda>c. Ok (OS_NO_ERR, c)))"

text \<open>One pass of the loop of \<^verbatim>\<open>serial_init\<close>, and the loop.\<close>

definition com_base :: "u8 \<Rightarrow> u32" where
  "com_base i =
     (if i = 0 then SERIAL_COM1_BASE else if i = 1 then SERIAL_COM2_BASE else if i = 2 then SERIAL_COM3_BASE
      else if i = 3 then SERIAL_COM4_BASE else SERIAL_COM1_BASE)"

definition init_com :: "(ptr \<rightharpoonup> string) \<Rightarrow> console output_t \<Rightarrow> u8 \<Rightarrow> console \<Rightarrow> (OS_RETURN_E \<times> console) outcome" where
  "init_com strs cur i c =
     (let com = com_base i;
          attr = 0x03 OR 0x00;
          c = con_outb (if com = SERIAL_COM1_BASE \<or> com = SERIAL_COM2_BASE then 1 else 0) (ucast (com + 1)) c
      in on_ok (set_baudrate strs cur BAUDRATE_9600 (ucast com) c) (\<lambda>c.
         on_ok (set_line strs cur attr (ucast com) c) (\<lambda>c.
         on_ok (set_buffer strs cur (0xC0 OR 0x01 OR 0x02 OR 0x04 OR 0x00) (ucast com) c) (\<lambda>c.
         Ok (OS_NO_ERR, con_outb 0x0B (ucast (com + 4)) c)))))"

definition serial_init :: "(ptr \<rightharpoonup> string) \<Rightarrow> console output_t \<Rightarrow> console \<Rightarrow> (OS_RETURN_E \<times> console) outcome" where
  "serial_init strs cur c =
     on_ok (init_com strs cur 0 c) (\<lambda>c. on_ok (init_com strs cur 1 c) (\<lambda>c.
     on_ok (init_com strs cur 2 c) (\<lambda>c. on_ok (init_com strs cur 3 c) (\<lambda>c.
     andthen (kernel_serial_debug strs cur (Some (''[SERIAL] Serial initialization end'' @ newline)) [] (c\<lparr>serial_init_done := 1\<rparr>))
       (\<lambda>c. Ok (OS_NO_ERR, c))))))"

section \<open>What goes over the line\<close>

text \<open>The port writes of a history, oldest first, and the effect of an operation that only accesses ports.\<close>

fun outs :: "io_event list \<Rightarrow> (u16 \<times> u8) list" where
  "outs [] = []"
| "outs (OutB p v # h) = outs h @ [(p, v)]"
| "outs (InB p # h) = outs h"

definition wrote_ports :: "console \<Rightarrow> (u16 \<times> u8) list \<Rightarrow> console \<Rightarrow> bool" where
  "wrote_ports c xs c' \<longleftrightarrow>
     (\<exists>h. c' = c\<lparr>ports := (ports c)\<lparr>history := h\<rparr>\<rparr> \<and> outs h = outs (history (ports c)) @ xs)"

lemma wrote_ports_refl [simp]: "wrote_ports c [] c"
  by (auto simp: wrote_ports_def intro!: exI [of _ "history (ports c)"])

lemma wrote_ports_trans: "wrote_ports c xs c' \<Longrightarrow> wrote_ports c' ys c'' \<Longrightarrow> wrote_ports c (xs @ ys) c''"
  by (auto simp: wrote_ports_def)

lemma wrote_ports_outb: "wrote_ports c [(p, v)] (con_outb v p c)"
  by (auto simp: wrote_ports_def con_outb_def cpu_outb_def intro!: exI [of _ "OutB p v # history (ports c)"])

lemma wrote_ports_inb: "wrote_ports c [] (snd (con_inb p c))"
  by (auto simp: wrote_ports_def con_inb_def cpu_inb_def intro!: exI [of _ "InB p # history (ports c)"])

lemma wrote_ports_keeps:
  "wrote_ports c xs c' \<Longrightarrow> serial_init_done c' = serial_init_done c"
  "wrote_ports c xs c' \<Longrightarrow> device (ports c') = device (ports c)"
  by (auto simp: wrote_ports_def)

text \<open>The transmitter of a line empties: after at most \<open>n\<close> reads of the status register the bit is set. This is
  all that the driver relies on.\<close>

definition drains :: "nat \<Rightarrow> u32 \<Rightarrow> console \<Rightarrow> bool" where
  "drains n port c \<longleftrightarrow>
     (\<forall>h. \<exists>k \<le> n. device (ports c) (replicate k (InB (ucast (port + 5))) @ h) (ucast (port + 5)) AND 0x20 \<noteq> 0)"

lemma drains_after: "wrote_ports c xs c' \<Longrightarrow> drains n port c' \<longleftrightarrow> drains n port c"
  by (simp add: drains_def wrote_ports_keeps(2))

lemma transmit_wait_k:
  "device (ports c) (replicate k (InB (ucast (port + 5))) @ history (ports c)) (ucast (port + 5)) AND 0x20 \<noteq> 0 \<Longrightarrow>
     \<exists>c'. while_do (transmit_pass port) c = Ok c' \<and> wrote_ports c [] c'"
proof (induction k arbitrary: c)
  case 0
  then show ?case
    using wrote_ports_inb [of c "ucast (port + 5)"] by (subst while_do_unfold) (simp add: transmit_pass_def con_inb_def cpu_inb_def)
next
  case (Suc k)
  let ?p = "ucast (port + 5) :: u16"
  let ?c = "snd (con_inb ?p c)"
  have pass: "transmit_pass port c = Ok (device (ports c) (history (ports c)) ?p AND 0x20 = 0, ?c)"
    by (simp add: transmit_pass_def con_inb_def cpu_inb_def)
  have w: "wrote_ports c [] ?c" by (rule wrote_ports_inb)
  have "\<exists>c'. while_do (transmit_pass port) ?c = Ok c' \<and> wrote_ports ?c [] c'"
    using Suc.prems by (intro Suc.IH) (simp add: con_inb_def cpu_inb_def replicate_app_Cons_same)
  then show ?case using pass w wrote_ports_trans [OF w] by (subst while_do_unfold) fastforce
qed

lemma transmit_wait:
  assumes "drains n port c"
  obtains c' where "while_do (transmit_pass port) c = Ok c'" "wrote_ports c [] c'"
proof -
  obtain k where "device (ports c) (replicate k (InB (ucast (port + 5))) @ history (ports c)) (ucast (port + 5)) AND 0x20 \<noteq> 0"
    using assms unfolding drains_def by blast
  from transmit_wait_k [OF this] that show thesis by blast
qed

text \<open>A line feed goes out as carriage return and line feed.\<close>

definition crlf :: "u8 \<Rightarrow> u8 list" where
  "crlf v = (if v = 10 then [13, 10] else [v])"

definition com_port :: "u32 \<Rightarrow> bool" where
  "com_port port \<longleftrightarrow> port \<in> {SERIAL_COM1_BASE, SERIAL_COM2_BASE, SERIAL_COM3_BASE, SERIAL_COM4_BASE}"

lemma serial_write_plain:
  assumes "drains n port c" "serial_init_done c \<noteq> 0" "com_port port" "v \<noteq> 10"
  obtains c' where "serial_write port v c = Ok c'" "wrote_ports c [(ucast port, v)] c'"
proof -
  from transmit_wait [OF assms(1)] obtain c1 where 1: "while_do (transmit_pass port) c = Ok c1" "wrote_ports c [] c1" .
  let ?c2 = "con_outb v (ucast port) c1"
  have 2: "wrote_ports c [(ucast port, v)] ?c2" using wrote_ports_trans [OF 1(2) wrote_ports_outb] by simp
  have "drains n port ?c2" using assms(1) drains_after [OF 2] by simp
  from transmit_wait [OF this] obtain c3 where 3: "while_do (transmit_pass port) ?c2 = Ok c3" "wrote_ports ?c2 [] c3" .
  show thesis
  proof (rule that)
    show "serial_write port v c = Ok c3" using assms(2-4) 1(1) 3(1) by (auto simp: serial_write.simps [of port v] com_port_def)
    show "wrote_ports c [(ucast port, v)] c3" using wrote_ports_trans [OF 2 3(2)] by simp
  qed
qed

lemma serial_write_sends:
  assumes "drains n port c" "serial_init_done c \<noteq> 0" "com_port port"
  obtains c' where "serial_write port v c = Ok c'" "wrote_ports c (map (Pair (ucast port)) (crlf v)) c'"
proof (cases "v = 10")
  case False
  then show thesis using serial_write_plain [OF assms False] that by (auto simp: crlf_def)
next
  case True
  from transmit_wait [OF assms(1)] obtain c1 where 1: "while_do (transmit_pass port) c = Ok c1" "wrote_ports c [] c1" .
  have "drains n port c1" "serial_init_done c1 \<noteq> 0" using assms(1,2) drains_after [OF 1(2)] wrote_ports_keeps(1) [OF 1(2)] by simp_all
  from serial_write_plain [OF this assms(3), of 13] obtain c2 where
    2: "serial_write port 13 c1 = Ok c2" "wrote_ports c1 [(ucast port, 13)] c2" by auto
  let ?c3 = "con_outb 10 (ucast port) c2"
  have 3: "wrote_ports c [(ucast port, 13), (ucast port, 10)] ?c3"
    using wrote_ports_trans [OF wrote_ports_trans [OF 1(2) 2(2)] wrote_ports_outb] by simp
  have "drains n port ?c3" using assms(1) drains_after [OF 3] by simp
  from transmit_wait [OF this] obtain c4 where 4: "while_do (transmit_pass port) ?c3 = Ok c4" "wrote_ports ?c3 [] c4" .
  show thesis
  proof (rule that)
    show "serial_write port v c = Ok c4"
      using assms(2,3) 1(1) 2(1) 4(1) True by (auto simp: serial_write.simps [of port 10] com_port_def)
    show "wrote_ports c (map (Pair (ucast port)) (crlf v)) c4" using wrote_ports_trans [OF 3 4(2)] True by (simp add: crlf_def)
  qed
qed

definition line_bytes :: "string \<Rightarrow> u8 list" where
  "line_bytes s = concat (map (\<lambda>x. crlf (of_char x)) s)"

lemma serial_text_sends:
  "drains n 0x3F8 c \<Longrightarrow> serial_init_done c \<noteq> 0 \<Longrightarrow>
     \<exists>c'. put_all serial_put_char s c = Ok c' \<and> wrote_ports c (map (Pair 0x3F8) (line_bytes s)) c'"
proof (induction s arbitrary: c)
  case (Cons x s)
  have "com_port 0x3F8" by (simp add: com_port_def)
  from serial_write_sends [OF Cons.prems this, of "of_char x"] obtain c1 where
    1: "serial_write 0x3F8 (of_char x) c = Ok c1" "wrote_ports c (map (Pair 0x3F8) (crlf (of_char x))) c1" by auto
  have "drains n 0x3F8 c1" "serial_init_done c1 \<noteq> 0"
    using Cons.prems drains_after [OF 1(2)] wrote_ports_keeps(1) [OF 1(2)] by simp_all
  from Cons.IH [OF this] obtain c2 where
    2: "put_all serial_put_char s c1 = Ok c2" "wrote_ports c1 (map (Pair 0x3F8) (line_bytes s)) c2" by (elim exE conjE)
  show ?case using 1(1) 2(1) wrote_ports_trans [OF 1(2) 2(2)] by (simp add: serial_put_char_def [of x] line_bytes_def)
qed (simp add: line_bytes_def)

lemma serial_text_off: "serial_init_done c = 0 \<Longrightarrow> put_all serial_put_char s c = Ok c"
  by (induction s) (simp_all add: serial_put_char_def serial_write.simps)

text \<open>The serial line is an output in the sense of \<open>Format\<close>.\<close>

lemma serial_put_string_all: "serial_put_string s = put_all serial_put_char s"
  by (induction s) (rule ext, simp add: serial_put_char_def)+

interpretation ser: text_output ser_out
  by unfold_locales (simp add: ser_out_def serial_put_string_all)

lemma serial_complete: "complete serial_text_driver"
  by (simp add: complete_def serial_text_driver_def)

text \<open>A trace of pieces without \<^verbatim>\<open>%s\<close> goes over the line; before the initialisation nothing is sent.\<close>

lemma kprint_serial_pieces:
  assumes "\<forall>p \<in> set ps. piece_ok p \<and> p \<noteq> Str" "texts_of strs ps args = Some (t, rest)"
  shows "kprint_fmt_serial strs cur (concat (map fmt_of ps)) args = put_all serial_put_char t"
proof
  fix c
  show "kprint_fmt_serial strs cur (concat (map fmt_of ps)) args c = put_all serial_put_char t c"
    using ser.formater_pieces [of ps cur strs args t rest c] assms by (simp add: kprint_fmt_serial_def ser_out_def)
qed

lemma serial_debug_pieces:
  assumes "\<forall>p \<in> set ps. piece_ok p \<and> p \<noteq> Str" "texts_of strs ps args = Some (t, rest)"
  shows "kernel_serial_debug strs cur (Some (concat (map fmt_of ps))) args = put_all serial_put_char (''[DEBUG] '' @ t)"
  using kprint_serial_pieces [OF assms] kprint_serial_pieces [of "[Text ''[DEBUG] '']" strs args "''[DEBUG] ''" args cur]
  unfolding kernel_serial_debug_def put_all_append by simp

text \<open>The traces of the driver.\<close>

lemma port_trace:
  assumes "CHR ''%'' \<notin> set s"
  shows "\<exists>t. kernel_serial_debug strs cur (Some (s @ ''%04x to %u'' @ newline)) [a, b] = put_all serial_put_char t"
proof -
  have w: "width_fmt True 4 = ''04''" "width_fmt False 0 = []"
    by (simp_all add: width_fmt_def width_text.simps hex_table_def)
  let ?ps = "[Text s, Hex False True 4, Text '' to '', Uns False 0, Text newline]"
  have f: "s @ ''%04x to %u'' @ newline = concat (map fmt_of ?ps)" by (simp add: w)
  obtain t rest where t: "texts_of strs ?ps [a, b] = Some (t, rest)" by simp
  have "kernel_serial_debug strs cur (Some (concat (map fmt_of ?ps))) [a, b] = put_all serial_put_char (''[DEBUG] '' @ t)"
    by (rule serial_debug_pieces [OF _ t]) (use assms in \<open>simp add: newline_def\<close>)
  then show ?thesis unfolding f by (rule exI)
qed

lemma set_ok:
  assumes "serial_init_done c = 0"
  shows "set_line strs cur attr com c = Ok (OS_NO_ERR, con_outb attr (ucast com + 3) c)"
    "set_buffer strs cur attr com c = Ok (OS_NO_ERR, con_outb attr (ucast com + 2) c)"
    "set_baudrate strs cur rate com c =
       Ok (OS_NO_ERR, con_outb (ucast (rate AND 0xFF)) (ucast com + 1)
         (con_outb (ucast (drop_bit 8 rate AND 0xFF)) (ucast com) (con_outb 0x80 (ucast com + 3) c)))"
proof -
  have k: "serial_init_done (con_outb v p x) = serial_init_done x" for v p x by (simp add: con_outb_def)
  have quiet: "kernel_serial_debug strs cur (Some (s @ ''%04x to %u'' @ newline)) [a, b] x = Ok x"
    if "CHR ''%'' \<notin> set s" "serial_init_done x = 0" for s a b x
    using port_trace [OF that(1), of strs cur a b] serial_text_off [OF that(2)] by auto
  show "set_line strs cur attr com c = Ok (OS_NO_ERR, con_outb attr (ucast com + 3) c)"
    using quiet [of "''[SERIAL] Set line attributes of port 0x''"] by (simp add: set_line_def k assms)
  show "set_buffer strs cur attr com c = Ok (OS_NO_ERR, con_outb attr (ucast com + 2) c)"
    using quiet [of "''[SERIAL] Set buffer attributes of port 0x''"] by (simp add: set_buffer_def k assms)
  show "set_baudrate strs cur rate com c =
       Ok (OS_NO_ERR, con_outb (ucast (rate AND 0xFF)) (ucast com + 1)
         (con_outb (ucast (drop_bit 8 rate AND 0xFF)) (ucast com) (con_outb 0x80 (ucast com + 3) c)))"
    using quiet [of "''[SERIAL] Set baud rate of port 0x''"] by (simp add: set_baudrate_def k assms)
qed

text \<open>What the set-up of a line writes: the line control, divider and queue registers are addressed with the low byte of
  the port number only, and the high byte of the divider goes first.\<close>

definition init_writes :: "u8 \<Rightarrow> (u16 \<times> u8) list" where
  "init_writes i =
     (let com = ucast (com_base i) :: u16; low = com AND 0xFF
      in [(com + 1, if i < 2 then 1 else 0), (low + 3, 0x80), (low, 0), (low + 1, 12), (low + 3, 3), (low + 2, 0xC7), (com + 4, 0x0B)])"

lemma init_com_writes:
  assumes "serial_init_done c = 0" "i \<in> {0, 1, 2, 3}"
  obtains c' where "init_com strs cur i c = Ok (OS_NO_ERR, c')" "wrote_ports c (init_writes i) c'"
proof -
  have k: "serial_init_done (con_outb v p x) = serial_init_done x" for v p x by (simp add: con_outb_def)
  have o: "wrote_ports x xs y \<Longrightarrow> wrote_ports x (xs @ [(p, v)]) (con_outb v p y)" for x xs y p v
    by (rule wrote_ports_trans [OF _ wrote_ports_outb])
  have "wrote_ports c [(p1, v1), (p2, v2), (p3, v3), (p4, v4), (p5, v5), (p6, v6), (p7, v7)]
      (con_outb v7 p7 (con_outb v6 p6 (con_outb v5 p5 (con_outb v4 p4 (con_outb v3 p3 (con_outb v2 p2 (con_outb v1 p1 c)))))))"
    for p1 v1 p2 v2 p3 v3 p4 v4 p5 v5 p6 v6 p7 v7
    using o [OF o [OF o [OF o [OF o [OF o [OF o [OF wrote_ports_refl]]]]]]] by simp
  note seven = this
  show thesis
    using assms by (intro that [OF _ seven [THEN subst [of _ _ "\<lambda>l. wrote_ports c l _", rotated]]])
      (auto simp: init_com_def set_ok k com_base_def init_writes_def Let_def on_ok_def BAUDRATE_9600_def)
qed

section \<open>Properties\<close>

text \<open>What \<^verbatim>\<open>kernel_serial_debug\<close> prints: for every format of text, numbers, pointers, characters and percent signs, once
  the line is set up and its transmitter empties in bounded time, the call returns and exactly the tag and the
  printed text go out on the first line, each line feed as carriage return and line feed; nothing else changes.\<close>

theorem serial_debug_text:
  assumes "\<forall>p \<in> set ps. piece_ok p \<and> p \<noteq> Str" "texts_of strs ps args = Some (t, rest)"
    and "drains n 0x3F8 c" "serial_init_done c \<noteq> 0"
  shows "\<exists>c'. kernel_serial_debug strs cur (Some (concat (map fmt_of ps))) args c = Ok c' \<and>
           wrote_ports c (map (Pair 0x3F8) (line_bytes (''[DEBUG] '' @ t))) c'"
  unfolding serial_debug_pieces [OF assms(1,2)] by (rule serial_text_sends [OF assms(3,4)])

text \<open>A console after the start, on a line that is always ready.\<close>

definition ready_console :: "u8 \<Rightarrow> console" where
  "ready_console done =
     \<lparr>ports = \<lparr>device = \<lambda>_ _. 0x20, history = [], eflags_if = False, statics = \<lambda>_. 0\<rparr>, serial_init_done = done,
      framebuffer = replicate 2000 0, screen_scheme = \<lparr>foreground = 0x0F, background = 0, vga_color = 0\<rparr>,
      screen_cursor = \<lparr>cursor_x = 0, cursor_y = 0\<rparr>, last_printed_cursor = \<lparr>cursor_x = 0, cursor_y = 0\<rparr>,
      last_columns = replicate 25 0\<rparr>"

lemma ready_drains [simp]: "drains 0 p (ready_console d)" "serial_init_done (ready_console d) = d"
  by (simp_all add: drains_def ready_console_def)

theorem serial_debug_text_witness:
  "\<exists>c'. kernel_serial_debug (\<lambda>_. None) ser_out (Some (concat (map fmt_of [Text ''irq '', Uns False 0, Text newline]))) [14] (ready_console 1) = Ok c' \<and>
     wrote_ports (ready_console 1) (map (Pair 0x3F8) (line_bytes (''[DEBUG] '' @ ''irq '' @ fill False 0 (numeral_text 10 14) @ newline))) c'"
  by (rule serial_debug_text) (simp_all add: newline_def, rule ready_drains)

text \<open>The first \<^verbatim>\<open>serial_init\<close> returns and writes exactly these values: for each line the set-up \<open>init_writes\<close>, in
  which the line control, divider and queue registers are addressed with the low byte of the port number (\<^verbatim>\<open>0xFB\<close> for
  \<^verbatim>\<open>0x3FB\<close>), and then its closing trace on the first line.\<close>

theorem serial_init_writes:
  assumes "serial_init_done c = 0" "drains n 0x3F8 c"
  shows "\<exists>c'. serial_init strs cur c = Ok (OS_NO_ERR, c') \<and> serial_init_done c' = 1 \<and>
           outs (history (ports c')) = outs (history (ports c)) @ concat (map init_writes [0, 1, 2, 3]) @
             map (Pair 0x3F8) (line_bytes (''[DEBUG] [SERIAL] Serial initialization end'' @ newline))"
proof -
  from init_com_writes [OF assms(1), of 0] obtain c0 where 0: "init_com strs cur 0 c = Ok (OS_NO_ERR, c0)" "wrote_ports c (init_writes 0) c0" by auto
  have z0: "serial_init_done c0 = 0" using wrote_ports_keeps(1) [OF 0(2)] assms(1) by simp
  from init_com_writes [OF this, of 1] obtain c1 where 1: "init_com strs cur 1 c0 = Ok (OS_NO_ERR, c1)" "wrote_ports c0 (init_writes 1) c1" by auto
  have z1: "serial_init_done c1 = 0" using wrote_ports_keeps(1) [OF 1(2)] z0 by simp
  from init_com_writes [OF this, of 2] obtain c2 where 2: "init_com strs cur 2 c1 = Ok (OS_NO_ERR, c2)" "wrote_ports c1 (init_writes 2) c2" by auto
  have z2: "serial_init_done c2 = 0" using wrote_ports_keeps(1) [OF 2(2)] z1 by simp
  from init_com_writes [OF this, of 3] obtain c3 where 3: "init_com strs cur 3 c2 = Ok (OS_NO_ERR, c3)" "wrote_ports c2 (init_writes 3) c3" by auto
  note w = wrote_ports_trans [OF wrote_ports_trans [OF wrote_ports_trans [OF 0(2) 1(2)] 2(2)] 3(2)]
  let ?c = "c3\<lparr>serial_init_done := 1\<rparr>" and ?t = "''[SERIAL] Serial initialization end'' @ newline"
  have "drains n 0x3F8 ?c" using assms(2) wrote_ports_keeps(2) [OF w] by (simp add: drains_def)
  from serial_text_sends [OF this, of "''[DEBUG] '' @ ?t"] obtain c4 where
    4: "put_all serial_put_char (''[DEBUG] '' @ ?t) ?c = Ok c4" "wrote_ports ?c (map (Pair 0x3F8) (line_bytes (''[DEBUG] '' @ ?t))) c4"
    by auto
  have "kernel_serial_debug strs cur (Some (concat (map fmt_of [Text ?t]))) [] = put_all serial_put_char (''[DEBUG] '' @ ?t)"
    by (rule serial_debug_pieces) (simp_all add: newline_def)
  then have "serial_init strs cur c = Ok (OS_NO_ERR, c4)" using 0(1) 1(1) 2(1) 3(1) 4(1) by (simp add: serial_init_def on_ok_def)
  moreover have "outs (history (ports c4)) = outs (history (ports c3)) @ map (Pair 0x3F8) (line_bytes (''[DEBUG] '' @ ?t))"
    using 4(2) by (auto simp: wrote_ports_def)
  moreover have "outs (history (ports c3)) = outs (history (ports c)) @ ((init_writes 0 @ init_writes 1) @ init_writes 2) @ init_writes 3"
    using w by (auto simp: wrote_ports_def)
  ultimately show ?thesis using wrote_ports_keeps(1) [OF 4(2)] by simp
qed

theorem serial_init_writes_witness:
  "\<exists>c'. serial_init (\<lambda>_. None) ser_out (ready_console 0) = Ok (OS_NO_ERR, c') \<and> serial_init_done c' = 1 \<and>
     outs (history (ports c')) = [] @ concat (map init_writes [0, 1, 2, 3]) @
       map (Pair 0x3F8) (line_bytes (''[DEBUG] [SERIAL] Serial initialization end'' @ newline))"
  using serial_init_writes [OF ready_drains(2,1), of "\<lambda>_. None" ser_out] by (simp add: ready_console_def)

end
