(* ===== verification/Vga.thy ===== *)
theory Vga
  imports Serial
begin

unbundle bit_operations_syntax

text \<open>
  The VGA text driver (\<^verbatim>\<open>Sources/arch/x86/vga_text.c\<close>), with \<^verbatim>\<open>KERNEL_DEBUG\<close> set as in the configuration: every
  character also goes to the first serial line. The frame buffer is the list of its 2000 cells; writing past
  \<^verbatim>\<open>last_columns\<close> is a \<open>Fault\<close>.
\<close>

definition VGA_TEXT_SCREEN_COL_SIZE :: u32 where "VGA_TEXT_SCREEN_COL_SIZE = 80"

definition VGA_TEXT_SCREEN_LINE_SIZE :: u32 where "VGA_TEXT_SCREEN_LINE_SIZE = 25"

lemmas vga_sizes [simp] = VGA_TEXT_SCREEN_COL_SIZE_def VGA_TEXT_SCREEN_LINE_SIZE_def

section \<open>Cells and cursor\<close>

text \<open>The index of a cell in the frame buffer.\<close>

definition vga_get_framebuffer :: "u32 \<Rightarrow> u32 \<Rightarrow> u32" where
  "vga_get_framebuffer line column =
     (if line > VGA_TEXT_SCREEN_LINE_SIZE - 1 \<or> column > VGA_TEXT_SCREEN_COL_SIZE - 1 then 0
      else column + line * VGA_TEXT_SCREEN_COL_SIZE)"

definition vga_cell :: "colorscheme_t \<Rightarrow> char \<Rightarrow> u16" where
  "vga_cell s character =
     ucast (of_char character OR (push_bit 8 (background s) AND 0xF000) OR (push_bit 8 (foreground s) AND 0x0F00) :: u32)"

definition write_cell :: "u32 \<Rightarrow> u16 \<Rightarrow> console \<Rightarrow> console outcome" where
  "write_cell i v c = (if unat i < length (framebuffer c) then Ok (c\<lparr>framebuffer := (framebuffer c)[unat i := v]\<rparr>) else Fault)"

definition vga_print_char :: "u32 \<Rightarrow> u32 \<Rightarrow> char \<Rightarrow> console \<Rightarrow> (OS_RETURN_E \<times> console) outcome" where
  "vga_print_char line column character c =
     (if line > VGA_TEXT_SCREEN_LINE_SIZE - 1 \<or> column > VGA_TEXT_SCREEN_COL_SIZE - 1 then Ok (OS_ERR_OUT_OF_BOUND, c)
      else andthen (write_cell (vga_get_framebuffer line column) (vga_cell (screen_scheme c) character) c) (\<lambda>c. Ok (OS_NO_ERR, c)))"

definition vga_put_cursor_at :: "u32 \<Rightarrow> u32 \<Rightarrow> console \<Rightarrow> OS_RETURN_E \<times> console" where
  "vga_put_cursor_at line column c =
     (if column > VGA_TEXT_SCREEN_COL_SIZE \<or> line > VGA_TEXT_SCREEN_LINE_SIZE then (OS_ERR_OUT_OF_BOUND, c)
      else let c = c\<lparr>screen_cursor := \<lparr>cursor_x = column, cursor_y = line\<rparr>\<rparr>;
               cursor_position = ucast (column + line * VGA_TEXT_SCREEN_COL_SIZE) :: u16;
               c = con_outb 0x0F 0x3D4 c;
               c = con_outb (ucast (cursor_position AND 0x00FF)) 0x3D5 c;
               c = con_outb 0x0E 0x3D4 c;
               c = con_outb (ucast (drop_bit 8 (cursor_position AND 0xFF00))) 0x3D5 c
           in (OS_NO_ERR, c))"

text \<open>The call of it whose result is ignored.\<close>

definition move_cursor :: "u32 \<Rightarrow> u32 \<Rightarrow> console \<Rightarrow> console" where
  "move_cursor line column c = snd (vga_put_cursor_at line column c)"

text \<open>The assignment \<^verbatim>\<open>last_columns[screen_cursor.y] = screen_cursor.x\<close>.\<close>

definition note_column :: "console \<Rightarrow> console outcome" where
  "note_column c =
     (let y = unat (cursor_y (screen_cursor c))
      in if y < length (last_columns c) then Ok (c\<lparr>last_columns := (last_columns c)[y := ucast (cursor_x (screen_cursor c))]\<rparr>)
         else Fault)"

section \<open>Scrolling and clearing\<close>

text \<open>Line \<open>i + 1\<close> is copied over line \<open>i\<close>, by \<^verbatim>\<open>memmove\<close> on the 160 bytes of a line.\<close>

definition scroll_row :: "nat \<Rightarrow> console \<Rightarrow> console" where
  "scroll_row i c =
     c\<lparr>framebuffer := take (80 * i) (framebuffer c) @ take 80 (drop (80 * (i + 1)) (framebuffer c)) @ drop (80 * (i + 1)) (framebuffer c),
       last_columns := (last_columns c)[i := last_columns c ! (i + 1)]\<rparr>"

definition scroll_once :: "console \<Rightarrow> console" where
  "scroll_once c = (let c = fold scroll_row [0 ..< 24] c in c\<lparr>last_columns := (last_columns c)[24 := 0]\<rparr>)"

primrec clear_cells :: "u32 \<Rightarrow> nat \<Rightarrow> console \<Rightarrow> console outcome" where
  "clear_cells line 0 c = Ok c"
| "clear_cells line (Suc n) c =
     andthen (clear_cells line n c) (\<lambda>c. andthen (vga_print_char line (of_nat n) CHR '' '' c) (\<lambda>(_, c). Ok c))"

definition vga_scroll :: "SCROLL_DIRECTION_E \<Rightarrow> u32 \<Rightarrow> console \<Rightarrow> console outcome" where
  "vga_scroll direction lines_count c =
     (let to_scroll = (if VGA_TEXT_SCREEN_LINE_SIZE < lines_count then VGA_TEXT_SCREEN_LINE_SIZE else lines_count)
      in andthen (case direction of
                    SCROLL_DOWN \<Rightarrow> clear_cells (VGA_TEXT_SCREEN_LINE_SIZE - 1) 80 ((scroll_once ^^ unat to_scroll) c)
                  | SCROLL_UP \<Rightarrow> Ok c) (\<lambda>c.
         let c = move_cursor (VGA_TEXT_SCREEN_LINE_SIZE - to_scroll) 0 c;
             lp = last_printed_cursor c
         in Ok (c\<lparr>last_printed_cursor :=
                   if to_scroll \<le> cursor_y lp then lp\<lparr>cursor_y := cursor_y lp - to_scroll\<rparr> else \<lparr>cursor_x = 0, cursor_y = 0\<rparr>\<rparr>)))"

text \<open>All cells are visited in order; \<^verbatim>\<open>last_columns[i]\<close> is cleared with each line.\<close>

definition vga_clear_screen :: "console \<Rightarrow> console outcome" where
  "vga_clear_screen c =
     Ok (c\<lparr>framebuffer := map (\<lambda>_. vga_cell (screen_scheme c) CHR '' '') (framebuffer c), last_columns := map (\<lambda>_. 0) (last_columns c)\<rparr>)"

section \<open>Characters\<close>

definition vga_put_printable :: "char \<Rightarrow> console \<Rightarrow> console outcome" where
  "vga_put_printable character c =
     (let x = cursor_x (screen_cursor c); y = cursor_y (screen_cursor c)
      in andthen (vga_print_char y x character (c\<lparr>screen_cursor := \<lparr>cursor_x = x + 1, cursor_y = y\<rparr>\<rparr>)) (\<lambda>(_, c).
         andthen (if cursor_x (screen_cursor c) > VGA_TEXT_SCREEN_COL_SIZE - 1
                  then note_column (move_cursor (cursor_y (screen_cursor c) + 1) 0 c) else Ok c) (\<lambda>c.
         if cursor_y (screen_cursor c) \<ge> VGA_TEXT_SCREEN_LINE_SIZE then vga_scroll SCROLL_DOWN 1 c
         else note_column (move_cursor (cursor_y (screen_cursor c)) (cursor_x (screen_cursor c)) c))))"

definition erase_here :: "console \<Rightarrow> console outcome" where
  "erase_here c =
     andthen (vga_print_char (cursor_y (screen_cursor c)) (cursor_x (screen_cursor c)) CHR '' '' c) (\<lambda>(_, c). Ok c)"

definition vga_backspace :: "console \<Rightarrow> console outcome" where
  "vga_backspace c =
     (let x = cursor_x (screen_cursor c); y = cursor_y (screen_cursor c); lp = last_printed_cursor c
      in if cursor_y lp = y
         then if x > cursor_x lp then andthen (note_column (move_cursor y (x - 1) c)) erase_here else Ok c
         else if cursor_y lp < y
         then if x > 0 then andthen (note_column (move_cursor y (x - 1) c)) erase_here
              else if \<not> unat (y - 1) < length (last_columns c) then Fault
              else let k = last_columns c ! unat (y - 1);
                       k = if ucast k \<ge> VGA_TEXT_SCREEN_COL_SIZE then ucast (VGA_TEXT_SCREEN_COL_SIZE - 1) else k;
                       c = c\<lparr>last_columns := (last_columns c)[unat (y - 1) := k]\<rparr>
                   in erase_here (move_cursor (y - 1) (ucast k) c)
         else Ok c)"

definition vga_tab :: "console \<Rightarrow> console outcome" where
  "vga_tab c =
     (let x = cursor_x (screen_cursor c); y = cursor_y (screen_cursor c)
      in note_column (if x + 8 < VGA_TEXT_SCREEN_COL_SIZE - 1 then move_cursor y (x + (8 - x mod 8)) c
                      else move_cursor y (VGA_TEXT_SCREEN_COL_SIZE - 1) c))"

definition vga_line_feed :: "console \<Rightarrow> console outcome" where
  "vga_line_feed c =
     (if cursor_y (screen_cursor c) < VGA_TEXT_SCREEN_LINE_SIZE - 1
      then note_column (move_cursor (cursor_y (screen_cursor c) + 1) 0 c) else vga_scroll SCROLL_DOWN 1 c)"

definition vga_process_char :: "char \<Rightarrow> console \<Rightarrow> console outcome" where
  "vga_process_char character c =
     andthen (serial_write SERIAL_COM1_BASE (of_char character) c) (\<lambda>c.
     let k = of_char character :: nat
     in if k > 31 \<and> k < 127 then vga_put_printable character c
        else if k = 8 then vga_backspace c
        else if k = 9 then vga_tab c
        else if k = 10 then vga_line_feed c
        else if k = 12 then vga_clear_screen c
        else if k = 13 then note_column (move_cursor (cursor_y (screen_cursor c)) 0 c)
        else Ok c)"

definition vga_put_char :: "char \<Rightarrow> console \<Rightarrow> console outcome" where
  "vga_put_char character c = andthen (vga_process_char character c) (\<lambda>c. Ok (c\<lparr>last_printed_cursor := screen_cursor c\<rparr>))"

primrec vga_put_string :: "string \<Rightarrow> console \<Rightarrow> console outcome" where
  "vga_put_string [] c = Ok c"
| "vga_put_string (x # xs) c = andthen (vga_put_char x c) (vga_put_string xs)"

primrec vga_keyboard_loop :: "string \<Rightarrow> nat \<Rightarrow> console \<Rightarrow> console outcome" where
  "vga_keyboard_loop str 0 c = Ok c"
| "vga_keyboard_loop str (Suc n) c =
     (case str of [] \<Rightarrow> Fault | x # xs \<Rightarrow> andthen (vga_process_char x c) (vga_keyboard_loop xs n))"

definition vga_console_write_keyboard :: "string \<Rightarrow> u32 \<Rightarrow> console \<Rightarrow> console outcome" where
  "vga_console_write_keyboard str len c = vga_keyboard_loop str (unat len) c"

section \<open>The other operations\<close>

definition vga_save_cursor :: "cursor_t option \<Rightarrow> console \<Rightarrow> (OS_RETURN_E \<times> cursor_t option \<times> console) outcome" where
  "vga_save_cursor buffer c =
     (case buffer of None \<Rightarrow> Ok (OS_ERR_NULL_POINTER, None, c) | Some _ \<Rightarrow> Ok (OS_NO_ERR, Some (screen_cursor c), c))"

definition vga_restore_cursor :: "cursor_t \<Rightarrow> console \<Rightarrow> (OS_RETURN_E \<times> console) outcome" where
  "vga_restore_cursor buffer c =
     (if cursor_x buffer \<ge> VGA_TEXT_SCREEN_COL_SIZE \<or> cursor_y buffer \<ge> VGA_TEXT_SCREEN_LINE_SIZE then Ok (OS_ERR_OUT_OF_BOUND, c)
      else Ok (OS_NO_ERR, move_cursor (cursor_y buffer) (cursor_x buffer) c))"

definition vga_set_color_scheme :: "colorscheme_t \<Rightarrow> console \<Rightarrow> console outcome" where
  "vga_set_color_scheme s c =
     Ok (c\<lparr>screen_scheme := (screen_scheme c)\<lparr>foreground := foreground s, background := background s\<rparr>\<rparr>)"

definition vga_save_color_scheme ::
    "colorscheme_t option \<Rightarrow> console \<Rightarrow> (OS_RETURN_E \<times> colorscheme_t option \<times> console) outcome" where
  "vga_save_color_scheme buffer c =
     (case buffer of None \<Rightarrow> Ok (OS_ERR_NULL_POINTER, None, c)
      | Some b \<Rightarrow> Ok (OS_NO_ERR, Some (b\<lparr>foreground := foreground (screen_scheme c), background := background (screen_scheme c)\<rparr>), c))"

definition vga_text_driver :: "console kernel_graphic_driver_t" where
  "vga_text_driver =
     \<lparr>clear_screen = Some vga_clear_screen, put_cursor_at = Some (\<lambda>l k c. Ok (vga_put_cursor_at l k c)),
      save_cursor = Some vga_save_cursor, restore_cursor = Some vga_restore_cursor,
      scroll = Some vga_scroll, set_color_scheme = Some vga_set_color_scheme,
      save_color_scheme = Some vga_save_color_scheme, put_string = Some vga_put_string,
      put_char = Some vga_put_char, console_write_keyboard = Some vga_console_write_keyboard\<rparr>"

section \<open>The invariant\<close>

text \<open>The serial line is not set up or its transmitter empties; the arrays have their sizes and the cursor is on the
  screen.\<close>

definition talks :: "console \<Rightarrow> bool" where
  "talks c \<longleftrightarrow> serial_init_done c = 0 \<or> (\<exists>n. drains n 0x3F8 c)"

definition vga_ok :: "console \<Rightarrow> bool" where
  "vga_ok c \<longleftrightarrow> talks c \<and> length (framebuffer c) = 2000 \<and> length (last_columns c) = 25 \<and>
     cursor_x (screen_cursor c) < 80 \<and> cursor_y (screen_cursor c) < 25"

lemma con_outb_fields [simp]:
  "framebuffer (con_outb v p c) = framebuffer c" "last_columns (con_outb v p c) = last_columns c"
  "screen_scheme (con_outb v p c) = screen_scheme c" "screen_cursor (con_outb v p c) = screen_cursor c"
  "last_printed_cursor (con_outb v p c) = last_printed_cursor c" "serial_init_done (con_outb v p c) = serial_init_done c"
  "device (ports (con_outb v p c)) = device (ports c)"
  by (simp_all add: con_outb_def)

lemma move_cursor_fields [simp]:
  "framebuffer (move_cursor l k c) = framebuffer c" "last_columns (move_cursor l k c) = last_columns c"
  "screen_scheme (move_cursor l k c) = screen_scheme c" "last_printed_cursor (move_cursor l k c) = last_printed_cursor c"
  "serial_init_done (move_cursor l k c) = serial_init_done c" "device (ports (move_cursor l k c)) = device (ports c)"
  by (simp_all add: move_cursor_def vga_put_cursor_at_def Let_def)

lemma move_cursor_cursor: "l \<le> 25 \<Longrightarrow> k \<le> 80 \<Longrightarrow> screen_cursor (move_cursor l k c) = \<lparr>cursor_x = k, cursor_y = l\<rparr>"
  by (simp add: move_cursor_def vga_put_cursor_at_def Let_def not_less)

lemma talks_cong: "serial_init_done c' = serial_init_done c \<Longrightarrow> device (ports c') = device (ports c) \<Longrightarrow> talks c' \<longleftrightarrow> talks c"
  by (simp add: talks_def drains_def)

lemma note_column_ok:
  assumes "talks c" "length (framebuffer c) = 2000" "length (last_columns c) = 25" "l < 25" "k < 80"
  shows "\<exists>c'. note_column (move_cursor l k c) = Ok c' \<and> vga_ok c' \<and> framebuffer c' = framebuffer c \<and>
           screen_cursor c' = \<lparr>cursor_x = k, cursor_y = l\<rparr> \<and> screen_scheme c' = screen_scheme c"
proof -
  have "screen_cursor (move_cursor l k c) = \<lparr>cursor_x = k, cursor_y = l\<rparr>" using assms(4,5) by (intro move_cursor_cursor) auto
  moreover have "unat l < 25" using assms(4) by (simp add: word_less_nat_alt)
  moreover have "talks ((move_cursor l k c)\<lparr>last_columns := ls\<rparr>)" for ls
    using assms(1) by (subst talks_cong [of _ c]) simp_all
  ultimately show ?thesis using assms by (simp add: note_column_def vga_ok_def)
qed

lemma cell_index: "l < 25 \<Longrightarrow> k < 80 \<Longrightarrow> unat (vga_get_framebuffer l k) = unat k + unat l * 80 \<and> unat k + unat l * 80 < 2000"
proof -
  assume "l < 25" "k < 80"
  then have lk: "unat l < 25" "unat k < 80" by (simp_all add: word_less_nat_alt)
  have "\<not> l > 24" "\<not> k > 79" using lk by (simp_all add: word_less_nat_alt)
  moreover have "unat (k + l * 80) = unat k + unat l * 80" using lk by (simp add: unat_word_ariths)
  ultimately show ?thesis using lk by (simp add: vga_get_framebuffer_def)
qed

lemma print_char_ok:
  assumes "length (framebuffer c) = 2000" "l < 25" "k < 80"
  shows "vga_print_char l k ch c =
     Ok (OS_NO_ERR, c\<lparr>framebuffer := (framebuffer c)[unat k + unat l * 80 := vga_cell (screen_scheme c) ch]\<rparr>)"
proof -
  have "\<not> l > 24" "\<not> k > 79" using assms(2,3) by (simp_all add: word_less_nat_alt)
  then show ?thesis using cell_index [OF assms(2,3)] assms(1) by (simp add: vga_print_char_def write_cell_def)
qed

text \<open>Scrolling by one line.\<close>

lemma scroll_rows:
  "length (framebuffer c) = 2000 \<Longrightarrow> n \<le> 24 \<Longrightarrow>
     framebuffer (fold scroll_row [0 ..< n] c) = take (80 * n) (drop 80 (framebuffer c)) @ drop (80 * n) (framebuffer c) \<and>
     length (last_columns (fold scroll_row [0 ..< n] c)) = length (last_columns c)"
proof (induction n)
  case (Suc n)
  let ?f = "framebuffer c" and ?c = "fold scroll_row [0 ..< n] c"
  have f: "framebuffer ?c = take (80 * n) (drop 80 ?f) @ drop (80 * n) ?f" using Suc by simp
  have l: "length (take (80 * n) (drop 80 ?f)) = 80 * n" using Suc.prems by simp
  have "take 80 (drop (80 * (n + 1)) (framebuffer ?c)) = take 80 (drop (80 * (n + 1)) ?f)"
    "drop (80 * (n + 1)) (framebuffer ?c) = drop (80 * (n + 1)) ?f" "take (80 * n) (framebuffer ?c) = take (80 * n) (drop 80 ?f)"
    using l by (simp_all add: f)
  moreover have "take (80 * Suc n) (drop 80 ?f) = take (80 * n) (drop 80 ?f) @ take 80 (drop (80 * (n + 1)) ?f)"
    using take_add [of "80 * n" 80 "drop 80 ?f"] by (simp add: add.commute)
  ultimately show ?case using Suc by (simp add: scroll_row_def)
qed simp

lemma scroll_row_fields:
  "screen_scheme (fold scroll_row is c) = screen_scheme c" "screen_cursor (fold scroll_row is c) = screen_cursor c"
  "last_printed_cursor (fold scroll_row is c) = last_printed_cursor c" "serial_init_done (fold scroll_row is c) = serial_init_done c"
  "ports (fold scroll_row is c) = ports c"
  by (induction "is" arbitrary: c) (simp_all add: scroll_row_def)

lemma scroll_once_fields [simp]:
  "screen_scheme (scroll_once c) = screen_scheme c" "screen_cursor (scroll_once c) = screen_cursor c"
  "last_printed_cursor (scroll_once c) = last_printed_cursor c" "serial_init_done (scroll_once c) = serial_init_done c"
  "ports (scroll_once c) = ports c"
  by (simp_all add: scroll_once_def Let_def scroll_row_fields)

lemma scroll_once_screen:
  assumes "length (framebuffer c) = 2000"
  shows "framebuffer (scroll_once c) = drop 80 (framebuffer c) @ drop 1920 (framebuffer c)"
    "length (last_columns (scroll_once c)) = length (last_columns c)"
  using scroll_rows [OF assms, of 24] assms by (simp_all add: scroll_once_def Let_def)

lemma clear_cells_ok:
  "length (framebuffer c) = 2000 \<Longrightarrow> n \<le> 80 \<Longrightarrow>
     clear_cells 24 n c =
       Ok (c\<lparr>framebuffer := take 1920 (framebuffer c) @ replicate n (vga_cell (screen_scheme c) CHR '' '') @ drop (1920 + n) (framebuffer c)\<rparr>)"
proof (induction n)
  case 0
  then show ?case by (cases c) simp
next
  case (Suc n)
  let ?b = "vga_cell (screen_scheme c) CHR '' ''" and ?f = "framebuffer c"
  let ?g = "take 1920 ?f @ replicate n ?b @ drop (1920 + n) ?f"
  have g: "length ?g = 2000" using Suc.prems by simp
  have k: "(of_nat n :: u32) < 80" "unat (of_nat n :: u32) = n" using Suc.prems(2) by (simp_all add: word_less_nat_alt unat_of_nat)
  have "drop (1920 + n) ?f = ?f ! (1920 + n) # drop (1920 + Suc n) ?f"
    using Suc.prems Cons_nth_drop_Suc [of "1920 + n" ?f] by simp
  moreover have "length (take 1920 ?f @ replicate n ?b) = 1920 + n" using Suc.prems by simp
  ultimately have "?g[1920 + n := ?b] = take 1920 ?f @ replicate (Suc n) ?b @ drop (1920 + Suc n) ?f"
    using list_update_append [of "take 1920 ?f @ replicate n ?b" "drop (1920 + n) ?f" "1920 + n" ?b]
    by (simp add: replicate_append_same)
  moreover have "vga_print_char 24 (of_nat n) CHR '' '' (c\<lparr>framebuffer := ?g\<rparr>) =
      Ok (OS_NO_ERR, c\<lparr>framebuffer := ?g[n + 1920 := ?b]\<rparr>)"
    using print_char_ok [of "c\<lparr>framebuffer := ?g\<rparr>" 24 "of_nat n" "CHR '' ''"] g k by simp
  moreover have "clear_cells 24 n c = Ok (c\<lparr>framebuffer := ?g\<rparr>)" using Suc by simp
  ultimately show ?case by (simp add: add.commute [of n 1920])
qed

lemma scroll_down_one:
  assumes "talks c" "length (framebuffer c) = 2000" "length (last_columns c) = 25"
  shows "\<exists>c'. vga_scroll SCROLL_DOWN 1 c = Ok c' \<and> vga_ok c' \<and>
     framebuffer c' = drop 80 (framebuffer c) @ replicate 80 (vga_cell (screen_scheme c) CHR '' '') \<and>
     screen_cursor c' = \<lparr>cursor_x = 0, cursor_y = 24\<rparr> \<and> screen_scheme c' = screen_scheme c"
proof -
  let ?s = "scroll_once c" and ?b = "vga_cell (screen_scheme c) CHR '' ''"
  have s: "length (framebuffer ?s) = 2000" using scroll_once_screen(1) [OF assms(2)] assms(2) by simp
  have "clear_cells 24 80 ?s = Ok (?s\<lparr>framebuffer := drop 80 (framebuffer c) @ replicate 80 ?b\<rparr>)"
    using clear_cells_ok [OF s, of 80] assms(2) by (simp add: scroll_once_screen(1))
  then have v: "vga_scroll SCROLL_DOWN 1 c =
      (let c' = move_cursor 24 0 (?s\<lparr>framebuffer := drop 80 (framebuffer c) @ replicate 80 ?b\<rparr>); lp = last_printed_cursor c'
       in Ok (c'\<lparr>last_printed_cursor := if 1 \<le> cursor_y lp then lp\<lparr>cursor_y := cursor_y lp - 1\<rparr> else \<lparr>cursor_x = 0, cursor_y = 0\<rparr>\<rparr>))"
    by (simp add: vga_scroll_def Let_def)
  have t: "talks ((move_cursor 24 0 (?s\<lparr>framebuffer := f\<rparr>))\<lparr>last_printed_cursor := lp\<rparr>)" for f lp
    using assms(1) by (subst talks_cong [of _ c]) simp_all
  show ?thesis unfolding v Let_def using t assms(2,3) scroll_once_screen(2) [OF assms(2)]
    by (simp add: vga_ok_def move_cursor_cursor)
qed

text \<open>Each kind of character.\<close>

lemma vga_okD:
  assumes "vga_ok c"
  shows "talks c" "length (framebuffer c) = 2000" "length (last_columns c) = 25"
    "cursor_x (screen_cursor c) < 80" "cursor_y (screen_cursor c) < 25"
  using assms by (simp_all add: vga_ok_def)

lemma printable_inside:
  assumes "vga_ok c" "cursor_x (screen_cursor c) < 79"
  defines "x \<equiv> cursor_x (screen_cursor c)" and "y \<equiv> cursor_y (screen_cursor c)"
  shows "\<exists>c'. vga_put_printable ch c = Ok c' \<and> vga_ok c' \<and>
     framebuffer c' = (framebuffer c)[unat x + unat y * 80 := vga_cell (screen_scheme c) ch] \<and>
     screen_cursor c' = \<lparr>cursor_x = x + 1, cursor_y = y\<rparr> \<and> screen_scheme c' = screen_scheme c"
proof -
  note ok = vga_okD [OF assms(1)]
  have x: "x < 79" "x < 80" "\<not> 79 < x + 1" "x + 1 < 80" and y: "y < 25" "\<not> 25 \<le> y"
    using assms(2) ok(5) by (simp_all add: x_def y_def word_less_nat_alt word_le_nat_alt unat_word_ariths)
  let ?c = "c\<lparr>screen_cursor := \<lparr>cursor_x = x + 1, cursor_y = y\<rparr>\<rparr>"
  let ?d = "?c\<lparr>framebuffer := (framebuffer c)[unat x + unat y * 80 := vga_cell (screen_scheme c) ch]\<rparr>"
  have p: "vga_print_char y x ch ?c = Ok (OS_NO_ERR, ?d)" using print_char_ok [of ?c y x ch] ok(2) x(2) y(1) by simp
  have "talks ?d" using ok(1) by (subst talks_cong [of _ c]) simp_all
  then have "\<exists>c'. note_column (move_cursor y (x + 1) ?d) = Ok c' \<and> vga_ok c' \<and> framebuffer c' = framebuffer ?d \<and>
      screen_cursor c' = \<lparr>cursor_x = x + 1, cursor_y = y\<rparr> \<and> screen_scheme c' = screen_scheme ?d"
    using ok x(4) y(1) by (intro note_column_ok) simp_all
  then show ?thesis using p x(3) y(2) unfolding vga_put_printable_def x_def [symmetric] y_def [symmetric] Let_def by simp
qed

lemma printable_end:
  assumes "vga_ok c" "cursor_x (screen_cursor c) = 79"
  shows "if cursor_y (screen_cursor c) = 24 then vga_put_printable ch c = Fault
         else \<exists>c'. vga_put_printable ch c = Ok c' \<and> vga_ok c'"
proof -
  note ok = vga_okD [OF assms(1)]
  let ?y = "cursor_y (screen_cursor c)"
  let ?d = "c\<lparr>screen_cursor := \<lparr>cursor_x = 80, cursor_y = ?y\<rparr>, framebuffer := (framebuffer c)[79 + unat ?y * 80 := vga_cell (screen_scheme c) ch]\<rparr>"
  have p: "vga_print_char ?y 79 ch (c\<lparr>screen_cursor := \<lparr>cursor_x = 80, cursor_y = ?y\<rparr>\<rparr>) = Ok (OS_NO_ERR, ?d)"
    using print_char_ok [of "c\<lparr>screen_cursor := \<lparr>cursor_x = 80, cursor_y = ?y\<rparr>\<rparr>" ?y 79 ch] ok by simp
  have t: "talks ?d" using ok(1) by (subst talks_cong [of _ c]) simp_all
  show ?thesis
  proof (cases "?y = 24")
    case True
    have "screen_cursor (move_cursor 25 0 ?d) = \<lparr>cursor_x = 0, cursor_y = 25\<rparr>" by (rule move_cursor_cursor) simp_all
    then have "note_column (move_cursor 25 0 ?d) = Fault" using ok(3) by (simp add: note_column_def)
    then show ?thesis using True p assms(2) by (simp add: vga_put_printable_def Let_def)
  next
    case False
    then have y: "?y + 1 < 25" "\<not> 25 \<le> ?y + 1"
      using ok(5) by (auto simp: word_less_nat_alt word_le_nat_alt unat_word_ariths word_unat_eq_iff)
    from note_column_ok [OF t _ _ y(1), of 0] ok obtain c1 where
      1: "note_column (move_cursor (?y + 1) 0 ?d) = Ok c1" "vga_ok c1" "screen_cursor c1 = \<lparr>cursor_x = 0, cursor_y = ?y + 1\<rparr>" by auto
    note ok1 = vga_okD [OF 1(2)]
    from note_column_ok [OF ok1(1-3) y(1), of 0] obtain c2 where "note_column (move_cursor (?y + 1) 0 c1) = Ok c2" "vga_ok c2" by auto
    then show ?thesis using False p 1(1,3) y(2) assms(2) by (simp add: vga_put_printable_def Let_def)
  qed
qed

lemma erase_here_ok: "vga_ok c \<Longrightarrow> \<exists>c'. erase_here c = Ok c' \<and> vga_ok c'"
proof -
  assume "vga_ok c"
  note ok = vga_okD [OF this]
  have "talks (c\<lparr>framebuffer := f\<rparr>)" for f using ok(1) by (subst talks_cong [of _ c]) simp_all
  then show ?thesis using print_char_ok [OF ok(2,5,4), of "CHR '' ''"] ok by (simp add: erase_here_def vga_ok_def)
qed

lemma backspace_ok:
  assumes "vga_ok c"
  shows "\<exists>c'. vga_backspace c = Ok c' \<and> vga_ok c'"
proof -
  note ok = vga_okD [OF assms]
  let ?x = "cursor_x (screen_cursor c)" and ?y = "cursor_y (screen_cursor c)" and ?lp = "last_printed_cursor c"
  have left: "\<exists>c'. andthen (note_column (move_cursor ?y (?x - 1) c)) erase_here = Ok c' \<and> vga_ok c'" if "0 < ?x"
  proof -
    have "?x \<noteq> 0" using that by auto
    then have "unat (?x - 1) = unat ?x - 1" by (rule unat_minus_one)
    then have "?x - 1 < 80" using ok(4) by (simp add: word_less_nat_alt)
    from note_column_ok [OF ok(1-3,5) this] obtain c1 where 1: "note_column (move_cursor ?y (?x - 1) c) = Ok c1" "vga_ok c1" by auto
    then show ?thesis using erase_here_ok [OF 1(2)] by simp
  qed
  have up: "unat (?y - 1) < 25" "?y - 1 < 25" if "cursor_y ?lp < ?y"
  proof -
    have "?y \<noteq> 0" using that by auto
    then have "unat (?y - 1) = unat ?y - 1" by (rule unat_minus_one)
    then show "unat (?y - 1) < 25" "?y - 1 < 25" using ok(5) by (simp_all add: word_less_nat_alt)
  qed
  show ?thesis
  proof (cases "cursor_y ?lp < ?y \<and> ?x = 0")
    case False
    have "0 < ?x" if "cursor_x ?lp < ?x" using that by (simp add: word_less_nat_alt)
    then show ?thesis using False left assms unfolding vga_backspace_def Let_def by (auto simp: word_neq_0_conv)
  next
    case True
    let ?k = "last_columns c ! unat (?y - 1)"
    let ?j = "if (ucast ?k :: u32) \<ge> 80 then 79 else ?k"
    let ?c = "c\<lparr>last_columns := (last_columns c)[unat (?y - 1) := ?j]\<rparr>"
    have j: "(ucast ?j :: u32) < 80" by (simp add: not_le)
    have t: "talks (move_cursor (?y - 1) (ucast ?j) ?c)" using ok(1) by (subst talks_cong [of _ c]) simp_all
    have "vga_ok (move_cursor (?y - 1) (ucast ?j) ?c)"
      using t ok j up True by (simp add: vga_ok_def move_cursor_cursor)
    moreover have "vga_backspace c = erase_here (move_cursor (?y - 1) (ucast ?j) ?c)"
      using True up ok(3) unfolding vga_backspace_def Let_def by auto
    ultimately show ?thesis using erase_here_ok by simp
  qed
qed

lemma tab_ok:
  assumes "vga_ok c"
  shows "\<exists>c'. vga_tab c = Ok c' \<and> vga_ok c'"
proof -
  note ok = vga_okD [OF assms]
  let ?x = "cursor_x (screen_cursor c)"
  have "?x + (8 - ?x mod 8) < 80" if "?x + 8 < 79"
  proof -
    have x: "unat ?x < 80" using ok(4) by (simp add: word_less_nat_alt)
    then have "unat (?x + 8) = unat ?x + 8" by (simp add: unat_word_ariths)
    then have "unat ?x < 71" using that by (simp add: word_less_nat_alt)
    moreover have "unat (8 - ?x mod 8) = 8 - unat ?x mod 8"
      by (simp add: unat_sub word_le_nat_alt unat_mod_distrib less_imp_le)
    ultimately show ?thesis by (simp add: word_less_nat_alt unat_word_ariths)
  qed
  then show ?thesis using note_column_ok [OF ok(1-3,5), of "?x + (8 - ?x mod 8)"] note_column_ok [OF ok(1-3,5), of 79]
    by (cases "?x + 8 < 79") (auto simp: vga_tab_def Let_def)
qed

lemma line_feed_ok:
  assumes "vga_ok c"
  shows "\<exists>c'. vga_line_feed c = Ok c' \<and> vga_ok c'"
proof (cases "cursor_y (screen_cursor c) < 24")
  case True
  note ok = vga_okD [OF assms]
  have "cursor_y (screen_cursor c) + 1 < 25" using True by (simp add: word_less_nat_alt unat_word_ariths)
  then show ?thesis using True note_column_ok [OF ok(1-3), of "cursor_y (screen_cursor c) + 1" 0] by (auto simp: vga_line_feed_def)
next
  case False
  then show ?thesis using scroll_down_one [OF vga_okD(1-3) [OF assms]] by (auto simp: vga_line_feed_def)
qed

lemma clear_screen_ok: "vga_ok c \<Longrightarrow> \<exists>c'. vga_clear_screen c = Ok c' \<and> vga_ok c'"
  by (auto simp: vga_clear_screen_def vga_ok_def talks_def drains_def)

lemma serial_copy:
  assumes "talks c"
  obtains c' xs where "serial_write SERIAL_COM1_BASE v c = Ok c'" "wrote_ports c xs c'"
proof (cases "serial_init_done c = 0")
  case True
  then show thesis using that [of c "[]"] by (simp add: serial_write.simps)
next
  case False
  then obtain n where "drains n 0x3F8 c" using assms by (auto simp: talks_def)
  then show thesis using serial_write_sends [of n "0x3F8" c v] False that by (auto simp: com_port_def)
qed

lemma wrote_ports_vga:
  assumes "wrote_ports c xs c'"
  shows "screen_cursor c' = screen_cursor c" "framebuffer c' = framebuffer c" "screen_scheme c' = screen_scheme c"
    "vga_ok c' \<longleftrightarrow> vga_ok c"
proof -
  obtain h where c': "c' = c\<lparr>ports := (ports c)\<lparr>history := h\<rparr>\<rparr>" using assms by (auto simp: wrote_ports_def)
  then have "talks c' \<longleftrightarrow> talks c" by (intro talks_cong) simp_all
  then show "screen_cursor c' = screen_cursor c" "framebuffer c' = framebuffer c" "screen_scheme c' = screen_scheme c"
    "vga_ok c' \<longleftrightarrow> vga_ok c"
    unfolding vga_ok_def by (simp_all add: c')
qed

text \<open>Only printing in the last column of the last line goes wrong.\<close>

definition printable :: "char \<Rightarrow> bool" where
  "printable ch \<longleftrightarrow> 31 < (of_char ch :: nat) \<and> (of_char ch :: nat) < 127"

definition at_corner :: "console \<Rightarrow> bool" where
  "at_corner c \<longleftrightarrow> cursor_x (screen_cursor c) = 79 \<and> cursor_y (screen_cursor c) = 24"

lemma process_char_ok:
  assumes "vga_ok c"
  shows "if printable ch \<and> at_corner c then vga_process_char ch c = Fault
         else \<exists>c'. vga_process_char ch c = Ok c' \<and> vga_ok c'"
proof -
  from serial_copy [OF vga_okD(1) [OF assms]] obtain c1 xs where
    1: "serial_write SERIAL_COM1_BASE (of_char ch) c = Ok c1" "wrote_ports c xs c1" .
  note same = wrote_ports_vga [OF 1(2)]
  have ok: "vga_ok c1" using same(4) assms by simp
  note ok1 = vga_okD [OF ok]
  have cr: "\<exists>c'. note_column (move_cursor (cursor_y (screen_cursor c1)) 0 c1) = Ok c' \<and> vga_ok c'"
    using note_column_ok [OF ok1(1-3,5), of 0] by auto
  show ?thesis
  proof (cases "printable ch")
    case False
    then show ?thesis using 1(1) backspace_ok [OF ok] tab_ok [OF ok] line_feed_ok [OF ok] clear_screen_ok [OF ok] cr ok
      unfolding vga_process_char_def printable_def [symmetric] Let_def by simp
  next
    case True
    then have "vga_process_char ch c = vga_put_printable ch c1" using 1(1) by (simp add: vga_process_char_def printable_def)
    moreover have "cursor_x (screen_cursor c1) < 79 \<or> cursor_x (screen_cursor c1) = 79"
      using ok1(4) by (auto simp: word_less_nat_alt word_unat_eq_iff)
    ultimately show ?thesis using printable_inside [OF ok, of ch] printable_end [OF ok, of ch] True same(1)
      by (auto simp: at_corner_def)
  qed
qed

section \<open>Properties\<close>

text \<open>The VGA screen is an output in the sense of \<open>Format\<close>.\<close>

definition vga_out :: "console output_t" where
  "vga_out = \<lparr>putc = vga_put_char, puts = vga_put_string\<rparr>"

lemma vga_put_string_all: "vga_put_string s = put_all vga_put_char s"
  by (induction s) (rule ext, simp)+

interpretation scr: text_output vga_out
  by unfold_locales (simp add: vga_out_def vga_put_string_all)

lemma vga_complete: "complete vga_text_driver"
  by (simp add: complete_def vga_text_driver_def)

text \<open>Whatever character is printed, the driver keeps the cursor on the screen and its arrays at their sizes, and
  returns, unless a printable character is put in the last column of the last line: then \<^verbatim>\<open>last_columns[25]\<close>, past the
  end of the array, is written.\<close>

theorem vga_put_char_safe:
  assumes "vga_ok c"
  shows "if printable ch \<and> at_corner c then vga_put_char ch c = Fault
         else \<exists>c'. vga_put_char ch c = Ok c' \<and> vga_ok c' \<and> last_printed_cursor c' = screen_cursor c'"
proof (cases "printable ch \<and> at_corner c")
  case True
  then show ?thesis using process_char_ok [OF assms, of ch] by (simp add: vga_put_char_def)
next
  case False
  then obtain c1 where 1: "vga_process_char ch c = Ok c1" "vga_ok c1" using process_char_ok [OF assms, of ch] by auto
  moreover have "vga_ok (c1\<lparr>last_printed_cursor := p\<rparr>)" for p using 1(2) by (simp add: vga_ok_def talks_def drains_def)
  ultimately show ?thesis using False by (simp add: vga_put_char_def)
qed

lemma ready_vga_ok: "vga_ok (ready_console d)"
proof -
  have "talks (ready_console d)" unfolding talks_def using ready_drains(1) by blast
  then show ?thesis unfolding vga_ok_def by (simp add: ready_console_def)
qed

theorem vga_put_char_safe_witness:
  "\<exists>c'. vga_put_char CHR ''A'' (ready_console 1) = Ok c' \<and> vga_ok c' \<and> last_printed_cursor c' = screen_cursor c'"
  using vga_put_char_safe [OF ready_vga_ok [of 1], of "CHR ''A''"] by (simp add: at_corner_def ready_console_def)

lemma put_char_inside:
  assumes "vga_ok c" "printable ch" "cursor_x (screen_cursor c) < 79"
  shows "\<exists>c'. vga_put_char ch c = Ok c' \<and> vga_ok c' \<and> screen_scheme c' = screen_scheme c \<and>
     framebuffer c' = (framebuffer c)[unat (cursor_x (screen_cursor c)) + unat (cursor_y (screen_cursor c)) * 80 := vga_cell (screen_scheme c) ch] \<and>
     screen_cursor c' = \<lparr>cursor_x = cursor_x (screen_cursor c) + 1, cursor_y = cursor_y (screen_cursor c)\<rparr>"
proof -
  from serial_copy [OF vga_okD(1) [OF assms(1)]] obtain c1 xs where
    1: "serial_write SERIAL_COM1_BASE (of_char ch) c = Ok c1" "wrote_ports c xs c1" .
  note same = wrote_ports_vga [OF 1(2)]
  have ok: "vga_ok c1" using same(4) assms(1) by simp
  have x: "cursor_x (screen_cursor c1) < 79" using same(1) assms(3) by simp
  from printable_inside [OF ok x, of ch] obtain c2 where 2: "vga_put_printable ch c1 = Ok c2" "vga_ok c2"
    "framebuffer c2 = (framebuffer c1)[unat (cursor_x (screen_cursor c1)) + unat (cursor_y (screen_cursor c1)) * 80 := vga_cell (screen_scheme c1) ch]"
    "screen_cursor c2 = \<lparr>cursor_x = cursor_x (screen_cursor c1) + 1, cursor_y = cursor_y (screen_cursor c1)\<rparr>"
    "screen_scheme c2 = screen_scheme c1" by (elim exE conjE)
  have "vga_process_char ch c = Ok c2" using 1(1) 2(1) assms(2) by (simp add: vga_process_char_def printable_def)
  moreover have "vga_ok (c2\<lparr>last_printed_cursor := p\<rparr>)" for p using 2(2) by (simp add: vga_ok_def talks_def drains_def)
  ultimately show ?thesis using 2(3-5) same(1-3) by (simp add: vga_put_char_def)
qed

lemma put_string_line:
  "vga_ok c \<Longrightarrow> list_all printable s \<Longrightarrow> unat (cursor_x (screen_cursor c)) + length s < 80 \<Longrightarrow>
     \<exists>c'. vga_put_string s c = Ok c' \<and> vga_ok c' \<and> screen_scheme c' = screen_scheme c \<and>
       framebuffer c' = (let i = unat (cursor_x (screen_cursor c)) + unat (cursor_y (screen_cursor c)) * 80
                         in take i (framebuffer c) @ map (vga_cell (screen_scheme c)) s @ drop (i + length s) (framebuffer c)) \<and>
       screen_cursor c' = \<lparr>cursor_x = cursor_x (screen_cursor c) + of_nat (length s), cursor_y = cursor_y (screen_cursor c)\<rparr>"
proof (induction s arbitrary: c)
  case Nil
  then show ?case by simp
next
  case (Cons ch s)
  let ?x = "cursor_x (screen_cursor c)" and ?y = "cursor_y (screen_cursor c)" and ?v = "vga_cell (screen_scheme c)"
  let ?i = "unat ?x + unat ?y * 80"
  have x: "?x < 79" using Cons.prems(3) by (simp add: word_less_nat_alt)
  have p: "printable ch" "list_all printable s" using Cons.prems(2) by simp_all
  from put_char_inside [OF Cons.prems(1) p(1) x] obtain c1 where 1: "vga_put_char ch c = Ok c1" "vga_ok c1"
    "screen_scheme c1 = screen_scheme c" "framebuffer c1 = (framebuffer c)[?i := ?v ch]"
    "screen_cursor c1 = \<lparr>cursor_x = ?x + 1, cursor_y = ?y\<rparr>" by (elim exE conjE)
  have x1: "unat (?x + 1) = Suc (unat ?x)" using x by (simp add: word_less_nat_alt unat_word_ariths)
  have "unat (cursor_x (screen_cursor c1)) + length s < 80" using Cons.prems(3) 1(5) x1 by simp
  from Cons.IH [OF 1(2) p(2) this] obtain c2 where 2: "vga_put_string s c1 = Ok c2" "vga_ok c2" "screen_scheme c2 = screen_scheme c"
    "framebuffer c2 = take (Suc ?i) (framebuffer c1) @ map ?v s @ drop (Suc ?i + length s) (framebuffer c1)"
    "screen_cursor c2 = \<lparr>cursor_x = ?x + 1 + of_nat (length s), cursor_y = ?y\<rparr>"
    unfolding 1(3,5) Let_def by (auto simp: x1)
  have "?i < length (framebuffer c)" using cell_index [of ?y ?x] vga_okD(2,4,5) [OF Cons.prems(1)] by simp
  then have "framebuffer c2 = take ?i (framebuffer c) @ map ?v (ch # s) @ drop (?i + length (ch # s)) (framebuffer c)"
    using 2(4) 1(4) by (simp add: take_Suc_conv_app_nth)
  then show ?case using 1(1) 2(1-3,5) by (simp add: Let_def add.assoc)
qed

text \<open>A text of printable characters that fits on the line of the cursor appears there, in the current colours, the
  cursor moves behind it and no other cell changes.\<close>

theorem vga_put_string_line:
  assumes "vga_ok c" "list_all printable s" "unat (cursor_x (screen_cursor c)) + length s < 80"
  defines "i \<equiv> unat (cursor_x (screen_cursor c)) + unat (cursor_y (screen_cursor c)) * 80"
  shows "\<exists>c'. vga_put_string s c = Ok c' \<and> vga_ok c' \<and>
     framebuffer c' = take i (framebuffer c) @ map (vga_cell (screen_scheme c)) s @ drop (i + length s) (framebuffer c) \<and>
     screen_cursor c' = \<lparr>cursor_x = cursor_x (screen_cursor c) + of_nat (length s), cursor_y = cursor_y (screen_cursor c)\<rparr>"
  using put_string_line [OF assms(1-3)] by (auto simp: i_def Let_def)

theorem vga_put_string_line_witness:
  "\<exists>c'. vga_put_string ''UTK'' (ready_console 0) = Ok c' \<and> vga_ok c' \<and>
     framebuffer c' = map (vga_cell \<lparr>foreground = 0x0F, background = 0, vga_color = 0\<rparr>) ''UTK'' @ replicate 1997 0 \<and>
     screen_cursor c' = \<lparr>cursor_x = 3, cursor_y = 0\<rparr>"
proof -
  have c: "cursor_x (screen_cursor (ready_console 0)) = 0" "cursor_y (screen_cursor (ready_console 0)) = 0"
    "framebuffer (ready_console 0) = replicate 2000 0"
    "screen_scheme (ready_console 0) = \<lparr>foreground = 0x0F, background = 0, vga_color = 0\<rparr>" by (simp_all add: ready_console_def)
  show ?thesis using vga_put_string_line [OF ready_vga_ok [of 0], of "''UTK''"] unfolding c by (simp add: printable_def)
qed

text \<open>A line feed on the last line moves every line up by one, blanks the last one in the current colours and puts the
  cursor at its start; on another line it only moves the cursor.\<close>

theorem vga_line_feed_scrolls:
  assumes "vga_ok c"
  shows "\<exists>c'. vga_put_char CHR 0x0A c = Ok c' \<and> vga_ok c' \<and>
     (if cursor_y (screen_cursor c) = 24
      then framebuffer c' = drop 80 (framebuffer c) @ replicate 80 (vga_cell (screen_scheme c) CHR '' '') \<and>
           screen_cursor c' = \<lparr>cursor_x = 0, cursor_y = 24\<rparr>
      else framebuffer c' = framebuffer c \<and> screen_cursor c' = \<lparr>cursor_x = 0, cursor_y = cursor_y (screen_cursor c) + 1\<rparr>)"
proof -
  from serial_copy [OF vga_okD(1) [OF assms]] obtain c1 xs where
    1: "serial_write SERIAL_COM1_BASE 10 c = Ok c1" "wrote_ports c xs c1" .
  note same = wrote_ports_vga [OF 1(2)]
  have ok: "vga_ok c1" using same(4) assms by simp
  note ok1 = vga_okD [OF ok]
  have p: "vga_put_char CHR 0x0A c = andthen (vga_line_feed c1) (\<lambda>c. Ok (c\<lparr>last_printed_cursor := screen_cursor c\<rparr>))"
    using 1(1) by (simp add: vga_put_char_def vga_process_char_def)
  have keep: "vga_ok (c2\<lparr>last_printed_cursor := q\<rparr>) \<longleftrightarrow> vga_ok c2" for c2 q by (simp add: vga_ok_def talks_def drains_def)
  show ?thesis
  proof (cases "cursor_y (screen_cursor c) = 24")
    case True
    then show ?thesis unfolding p using scroll_down_one [OF ok1(1-3)] same keep by (auto simp: vga_line_feed_def)
  next
    case False
    then have y: "cursor_y (screen_cursor c1) < 24" using ok1(5) same(1) by (auto simp: word_less_nat_alt word_unat_eq_iff)
    then have "cursor_y (screen_cursor c1) + 1 < 25" by (simp add: word_less_nat_alt unat_word_ariths)
    from note_column_ok [OF ok1(1-3) this, of 0] show ?thesis unfolding p using False y same keep by (auto simp: vga_line_feed_def)
  qed
qed

theorem vga_line_feed_scrolls_witness:
  "\<exists>c'. vga_put_char CHR 0x0A (ready_console 0) = Ok c' \<and> vga_ok c' \<and> screen_cursor c' = \<lparr>cursor_x = 0, cursor_y = 1\<rparr>"
  using vga_line_feed_scrolls [OF ready_vga_ok [of 0]] by (simp add: ready_console_def) blast

end
