(* ===== verification/Output.thy ===== *)
theory Output
  imports Vga
begin

unbundle bit_operations_syntax

text \<open>
  The print functions of the kernel (\<^verbatim>\<open>Sources/io/kernel_output.c\<close>, \<^verbatim>\<open>Sources/lib/printf.c\<close>, \<^verbatim>\<open>Sources/lib/perror.c\<close>): they
  set the current output to the selected display, print a coloured tag and run the format interpreter. \<open>junk\<close> is
  what the uninitialised local \<^verbatim>\<open>buffer\<close> holds.
\<close>

section \<open>The functions\<close>

text \<open>The handlers of \<^verbatim>\<open>current_output\<close> are set together; at the start they are \<^verbatim>\<open>NULL\<close>.\<close>

datatype handler = NO_HANDLER | GRAPHIC

record printer =
  graphic_driver :: "console kernel_graphic_driver_t"
  current_output :: handler
  con :: console

definition handlers :: "printer \<Rightarrow> console output_t" where
  "handlers p = (case current_output p of
     NO_HANDLER \<Rightarrow> \<lparr>putc = \<lambda>_ _. Fault, puts = \<lambda>_ _. Fault\<rparr>
   | GRAPHIC \<Rightarrow> \<lparr>putc = graphic_put_char (graphic_driver p), puts = graphic_put_string (graphic_driver p)\<rparr>)"

definition on_con :: "(console \<Rightarrow> console outcome) \<Rightarrow> printer \<Rightarrow> printer outcome" where
  "on_con f p = andthen (f (con p)) (\<lambda>c. Ok (p\<lparr>con := c\<rparr>))"

definition kprint_fmt :: "(ptr \<rightharpoonup> string) \<Rightarrow> string \<Rightarrow> u32 list \<Rightarrow> printer \<Rightarrow> printer outcome" where
  "kprint_fmt strs str args p = on_con (formater strs (handlers p) str args (handlers p)) p"

definition tag_printf :: "(ptr \<rightharpoonup> string) \<Rightarrow> string option \<Rightarrow> u32 list \<Rightarrow> printer \<Rightarrow> printer outcome" where
  "tag_printf strs fmt args p = (case fmt of None \<Rightarrow> Ok p | Some fmt \<Rightarrow> kprint_fmt strs fmt args p)"

definition kernel_printf :: "(ptr \<rightharpoonup> string) \<Rightarrow> string option \<Rightarrow> u32 list \<Rightarrow> printer \<Rightarrow> printer outcome" where
  "kernel_printf strs fmt args p =
     (case fmt of None \<Rightarrow> Ok p | Some fmt \<Rightarrow> kprint_fmt strs fmt args (p\<lparr>current_output := GRAPHIC\<rparr>))"

text \<open>The common body of the functions that print a tag.\<close>

definition tagged_print ::
    "u32 \<Rightarrow> string \<Rightarrow> colorscheme_t \<Rightarrow> (ptr \<rightharpoonup> string) \<Rightarrow> string option \<Rightarrow> u32 list \<Rightarrow> printer \<Rightarrow> printer outcome" where
  "tagged_print fg tag junk strs fmt args p =
     (case fmt of None \<Rightarrow> Ok p
      | Some fmt \<Rightarrow>
          let p = p\<lparr>current_output := GRAPHIC\<rparr>; d = graphic_driver p
          in andthen (graphic_save_color_scheme d (Some junk) (con p)) (\<lambda>(_, buffer, c).
             andthen (on_con (graphic_set_color_scheme d \<lparr>foreground = fg, background = 0, vga_color = 1\<rparr>) (p\<lparr>con := c\<rparr>)) (\<lambda>p.
             andthen (tag_printf strs (Some tag) [] p) (\<lambda>p.
             andthen (on_con (graphic_set_color_scheme d (case buffer of None \<Rightarrow> junk | Some b \<Rightarrow> b)) p) (\<lambda>p.
             kprint_fmt strs fmt args p)))))"

definition kernel_error :: "colorscheme_t \<Rightarrow> (ptr \<rightharpoonup> string) \<Rightarrow> string option \<Rightarrow> u32 list \<Rightarrow> printer \<Rightarrow> printer outcome" where
  "kernel_error junk strs fmt args p = tagged_print 0x04 ''[ERROR] '' junk strs fmt args p"

definition kernel_success :: "colorscheme_t \<Rightarrow> (ptr \<rightharpoonup> string) \<Rightarrow> string option \<Rightarrow> u32 list \<Rightarrow> printer \<Rightarrow> printer outcome" where
  "kernel_success junk strs fmt args p = tagged_print 0x02 ''[OK] '' junk strs fmt args p"

definition kernel_info :: "colorscheme_t \<Rightarrow> (ptr \<rightharpoonup> string) \<Rightarrow> string option \<Rightarrow> u32 list \<Rightarrow> printer \<Rightarrow> printer outcome" where
  "kernel_info junk strs fmt args p = tagged_print 0x03 ''[INFO] '' junk strs fmt args p"

definition kernel_debug :: "colorscheme_t \<Rightarrow> (ptr \<rightharpoonup> string) \<Rightarrow> string option \<Rightarrow> u32 list \<Rightarrow> printer \<Rightarrow> printer outcome" where
  "kernel_debug junk strs fmt args p = tagged_print 0x0E ''[DEBUG] '' junk strs fmt args p"

definition kernel_doprint :: "(ptr \<rightharpoonup> string) \<Rightarrow> string option \<Rightarrow> u32 list \<Rightarrow> printer \<Rightarrow> printer outcome" where
  "kernel_doprint strs str args p =
     (case str of None \<Rightarrow> Ok p | Some str \<Rightarrow> kprint_fmt strs str args (p\<lparr>current_output := GRAPHIC\<rparr>))"

text \<open>The C library functions return an \<^verbatim>\<open>int\<close>.\<close>

definition vprintf :: "(ptr \<rightharpoonup> string) \<Rightarrow> string option \<Rightarrow> u32 list \<Rightarrow> printer \<Rightarrow> (u32 \<times> printer) outcome" where
  "vprintf strs fmt args p = andthen (kernel_doprint strs fmt args p) (\<lambda>p. Ok (0, p))"

definition printf :: "(ptr \<rightharpoonup> string) \<Rightarrow> string option \<Rightarrow> u32 list \<Rightarrow> printer \<Rightarrow> (u32 \<times> printer) outcome" where
  "printf strs fmt args p = vprintf strs fmt args p"

definition putchar :: "u32 \<Rightarrow> printer \<Rightarrow> (u32 \<times> printer) outcome" where
  "putchar c p = andthen (on_con (graphic_put_char (graphic_driver p) (char_of (unat (ucast c :: u8)))) p) (\<lambda>p. Ok (ucast (ucast c :: u8), p))"

primrec puts_loop :: "string \<Rightarrow> printer \<Rightarrow> printer outcome" where
  "puts_loop [] p = Ok p"
| "puts_loop (x # xs) p = andthen (putchar (of_char x) p) (\<lambda>(_, p). puts_loop xs p)"

definition puts_line :: "string \<Rightarrow> printer \<Rightarrow> (u32 \<times> printer) outcome" where
  "puts_line s p = andthen (puts_loop s p) (\<lambda>p. andthen (putchar 10 p) (\<lambda>(_, p). Ok (0, p)))"

definition perror_texts :: "(u32 \<times> string) list" where
  "perror_texts =
     [(2, ''Index out of bound''), (7, ''No more free event to allocate''),
      (1, ''Null pointer used''), (8, ''No such id''),
      (3, ''No such interrupt line or protected line''), (4, ''A handler is already registered for this line.''),
      (5, ''Not any handler registered for this line.''), (6, ''No such IRQ line''),
      (9, ''Malloc error''), (10, ''Unauthorized action''),
      (11, ''Forbiden priority''), (12, ''Mutex not initialized''),
      (13, ''Semaphore not initialized''), (14, ''Mailbox not initialized''),
      (15, ''Queue not initialized''), (16, ''Thread is not blocked by semaphore''),
      (17, ''Thread is not blocked by mutex''), (20, ''Mutex locked''),
      (21, ''Semaphore locked''), (19, ''Graphic mode is not supported''),
      (22, ''Checksum failed''), (23, ''ACPI unsuported''),
      (25, ''No such LAPIC id''), (26, ''Baudrate not supported''),
      (27, ''Serial parity not supported''), (28, ''ATA device is not present''),
      (29, ''ATA device error''), (30, ''ATA driver do not support this sector number''),
      (31, ''ATA driver do not support this read/write size, t'' @ ''ry to divide your request into mulstiple read/write''), (32, ''VESA is not supported''),
      (33, ''VESA mode not supported''), (34, ''VESA driver non initialized''),
      (35, ''No more free memory in the system''), (36, ''Paging has not been initialized''),
      (37, ''Address already mapped to memory''), (38, ''Address is not mapped to memory''),
      (39, ''SMBIOS structures not found''), (40, ''Bad interrupt handler''),
      (41, ''MBR Partition index too large''), (60, ''Kernel alignment error'')]"

definition perror :: "(ptr \<rightharpoonup> string) \<Rightarrow> u32 \<Rightarrow> printer \<Rightarrow> (u32 \<times> printer) outcome" where
  "perror strs error p =
     andthen (printf strs (Some (case map_of perror_texts error of None \<Rightarrow> ''Unknown error'' | Some t \<Rightarrow> t)) [] p) (\<lambda>(_, p). Ok (0, p))"

section \<open>Displays\<close>

text \<open>What the print functions need of a display: its string function prints the characters one by one. Then the
  display is an output of \<open>Format\<close>.\<close>

definition graphic_out :: "console kernel_graphic_driver_t \<Rightarrow> console output_t" where
  "graphic_out d = \<lparr>putc = graphic_put_char d, puts = graphic_put_string d\<rparr>"

locale display =
  fixes d :: "console kernel_graphic_driver_t" and pc :: "char \<Rightarrow> console \<Rightarrow> console outcome"
  assumes put_char_d: "put_char d = Some pc" and put_string_d: "put_string d = Some (put_all pc)"
begin

lemma graphic_d: "graphic_put_char d = pc" "graphic_put_string d = put_all pc"
  by (rule ext, rule ext, simp add: graphic_defs put_char_d put_string_d)+

end

sublocale display \<subseteq> text_output "graphic_out d"
  by unfold_locales (simp add: graphic_out_def graphic_d)

context display
begin

lemma handlers_graphic: "graphic_driver p = d \<Longrightarrow> current_output p = GRAPHIC \<Longrightarrow> handlers p = graphic_out d"
  by (simp add: handlers_def graphic_out_def)

lemma kprint_pieces:
  assumes "graphic_driver p = d" "current_output p = GRAPHIC"
    and "\<forall>x \<in> set ps. piece_ok x" "texts_of strs ps args = Some (t, rest)"
  shows "kprint_fmt strs (concat (map fmt_of ps)) args p = on_con (put_all pc t) p"
  using formater_pieces [of ps "graphic_out d" strs args t rest "con p"] assms
  by (simp add: kprint_fmt_def on_con_def handlers_graphic) (simp add: graphic_out_def graphic_d)

lemma printf_pieces:
  assumes "graphic_driver p = d" "\<forall>x \<in> set ps. piece_ok x" "texts_of strs ps args = Some (t, rest)"
  shows "kernel_printf strs (Some (concat (map fmt_of ps))) args p = on_con (put_all pc t) (p\<lparr>current_output := GRAPHIC\<rparr>)"
  using kprint_pieces [OF _ _ assms(2,3), of "p\<lparr>current_output := GRAPHIC\<rparr>"] assms(1) by (simp add: kernel_printf_def)

text \<open>A tag is printed as it is.\<close>

lemma kprint_tag:
  assumes "graphic_driver p = d" "current_output p = GRAPHIC" "CHR ''%'' \<notin> set tag"
  shows "tag_printf strs (Some tag) args p = on_con (put_all pc tag) p"
  using kprint_pieces [OF assms(1,2), of "[Text tag]" strs args tag args] assms(3) by (simp add: tag_printf_def)

lemma perror_prints:
  assumes "graphic_driver p = d"
  shows "perror strs e p =
     andthen (on_con (put_all pc (case map_of perror_texts e of None \<Rightarrow> ''Unknown error'' | Some t \<Rightarrow> t)) (p\<lparr>current_output := GRAPHIC\<rparr>))
       (\<lambda>p. Ok (0, p))"
proof -
  have "\<forall>x \<in> set perror_texts. CHR ''%'' \<notin> set (snd x)" by code_simp
  then have "CHR ''%'' \<notin> set (case map_of perror_texts e of None \<Rightarrow> ''Unknown error'' | Some t \<Rightarrow> t)"
    by (fastforce split: option.splits dest: map_of_SomeD)
  then show ?thesis using kprint_pieces [of "p\<lparr>current_output := GRAPHIC\<rparr>" "[Text (case map_of perror_texts e of None \<Rightarrow> ''Unknown error'' | Some t \<Rightarrow> t)]" strs "[]"] assms
    by (simp add: perror_def printf_def vprintf_def kernel_doprint_def andthen_assoc)
qed

end

interpretation serial_display: display serial_text_driver serial_put_char
  by unfold_locales (simp_all add: serial_text_driver_def serial_put_string_all fun_eq_iff)

interpretation vga_display: display vga_text_driver vga_put_char
  by unfold_locales (simp_all add: vga_text_driver_def vga_put_string_all fun_eq_iff)

section \<open>Properties\<close>

text \<open>C25. On either display \<^verbatim>\<open>kernel_printf\<close> prints exactly the text of its format: text as it is, strings, characters and
  numerals filled up to their width, pointers as eight digits. As values are held in 32 unsigned bits,
  \<^verbatim>\<open>%d\<close> prints the numeral of the unsigned value.\<close>

theorem kernel_printf_text:
  assumes "\<forall>x \<in> set ps. piece_ok x" "texts_of strs ps args = Some (t, rest)"
  shows "(graphic_driver p = serial_text_driver \<longrightarrow>
            kernel_printf strs (Some (concat (map fmt_of ps))) args p = on_con (put_all serial_put_char t) (p\<lparr>current_output := GRAPHIC\<rparr>)) \<and>
         (graphic_driver p = vga_text_driver \<longrightarrow>
            kernel_printf strs (Some (concat (map fmt_of ps))) args p = on_con (put_all vga_put_char t) (p\<lparr>current_output := GRAPHIC\<rparr>))"
  using serial_display.printf_pieces [OF _ assms] vga_display.printf_pieces [OF _ assms] by simp

definition start_printer :: printer where
  "start_printer = \<lparr>graphic_driver = vga_text_driver, current_output = NO_HANDLER, con = ready_console 0\<rparr>"

theorem kernel_printf_text_witness:
  "kernel_printf (\<lambda>_. None) (Some (concat (map fmt_of [Text ''mem '', Hex False True 8]))) [0xB8000] start_printer =
     on_con (put_all vga_put_char (''mem '' @ fill True 8 (lower_text 0xB8000))) (start_printer\<lparr>current_output := GRAPHIC\<rparr>)"
  using kernel_printf_text [of "[Text ''mem '', Hex False True 8]" "\<lambda>_. None" "[0xB8000]" _ "[]" start_printer]
  by (simp add: start_printer_def hex_text_def)

section \<open>Colours\<close>

text \<open>Printing keeps the colours of the screen.\<close>

lemma scheme_parts:
  "note_column c = Ok c' \<Longrightarrow> screen_scheme c' = screen_scheme c"
  "vga_print_char l k ch c = Ok (e, c') \<Longrightarrow> screen_scheme c' = screen_scheme c"
  "erase_here c = Ok c' \<Longrightarrow> screen_scheme c' = screen_scheme c"
  by (auto simp: note_column_def vga_print_char_def erase_here_def write_cell_def Let_def outcome_simps split: if_splits)

lemma scheme_clear: "clear_cells l n c = Ok c' \<Longrightarrow> screen_scheme c' = screen_scheme c"
  by (induction n arbitrary: c') (auto simp: outcome_simps dest: scheme_parts)

lemma scheme_scrolled: "screen_scheme ((scroll_once ^^ n) c) = screen_scheme c"
  by (induction n) simp_all

lemma scheme_scroll: "vga_scroll dir n c = Ok c' \<Longrightarrow> screen_scheme c' = screen_scheme c"
  by (cases dir) (auto simp: vga_scroll_def Let_def outcome_simps scheme_scrolled dest: scheme_clear)

lemma scheme_printable: "vga_put_printable ch c = Ok c' \<Longrightarrow> screen_scheme c' = screen_scheme c"
  by (auto simp: vga_put_printable_def Let_def outcome_simps split: if_splits dest!: scheme_parts scheme_scroll)

lemma scheme_backspace: "vga_backspace c = Ok c' \<Longrightarrow> screen_scheme c' = screen_scheme c"
  by (auto simp: vga_backspace_def Let_def outcome_simps split: if_splits dest!: scheme_parts)

lemma scheme_others:
  "vga_tab c = Ok c' \<Longrightarrow> screen_scheme c' = screen_scheme c" "vga_line_feed c = Ok c' \<Longrightarrow> screen_scheme c' = screen_scheme c"
  "vga_clear_screen c = Ok c' \<Longrightarrow> screen_scheme c' = screen_scheme c"
  by (auto simp: vga_tab_def vga_line_feed_def vga_clear_screen_def Let_def split: if_splits dest!: scheme_parts(1) scheme_scroll)

lemma put_char_scheme:
  assumes "vga_ok c" "vga_put_char ch c = Ok c'"
  shows "vga_ok c'" "screen_scheme c' = screen_scheme c"
proof -
  have "\<not> (printable ch \<and> at_corner c)" using process_char_ok [OF assms(1), of ch] assms(2) by (auto simp: vga_put_char_def)
  then obtain c2 where 2: "vga_process_char ch c = Ok c2" "vga_ok c2" using process_char_ok [OF assms(1), of ch] by auto
  have c': "c' = c2\<lparr>last_printed_cursor := screen_cursor c2\<rparr>" using assms(2) 2(1) by (simp add: vga_put_char_def)
  show "vga_ok c'" using 2(2) by (simp add: c' vga_ok_def talks_def drains_def)
  from serial_copy [OF vga_okD(1) [OF assms(1)]] obtain c1 xs where
    1: "serial_write SERIAL_COM1_BASE (of_char ch) c = Ok c1" "wrote_ports c xs c1" .
  have "screen_scheme c2 = screen_scheme c1" using 2(1) 1(1)
    by (auto simp: vga_process_char_def Let_def split: if_splits
        dest: scheme_printable scheme_backspace scheme_others scheme_parts(1))
  then show "screen_scheme c' = screen_scheme c" using wrote_ports_vga(3) [OF 1(2)] by (simp add: c')
qed

lemma put_all_scheme: "vga_ok c \<Longrightarrow> put_all vga_put_char s c = Ok c' \<Longrightarrow> vga_ok c' \<and> screen_scheme c' = screen_scheme c"
proof (induction s arbitrary: c)
  case (Cons x s)
  then obtain c1 where 1: "vga_put_char x c = Ok c1" "put_all vga_put_char s c1 = Ok c'" by (auto simp: outcome_simps)
  then show ?case using Cons.IH [OF put_char_scheme(1) [OF Cons.prems(1) 1(1)] 1(2)] put_char_scheme(2) [OF Cons.prems(1) 1(1)] by simp
qed simp

definition coloured :: "u32 \<Rightarrow> u32 \<Rightarrow> console \<Rightarrow> console" where
  "coloured fg bg c = c\<lparr>screen_scheme := (screen_scheme c)\<lparr>foreground := fg, background := bg\<rparr>\<rparr>"

text \<open>What a tagged print shows.\<close>

definition tag_then_text :: "u32 \<Rightarrow> string \<Rightarrow> string \<Rightarrow> printer \<Rightarrow> printer outcome" where
  "tag_then_text fg tag t p =
     (let s = screen_scheme (con p)
      in andthen (put_all vga_put_char tag (coloured fg 0 (con p))) (\<lambda>c.
         andthen (put_all vga_put_char t (coloured (foreground s) (background s) c)) (\<lambda>c.
         Ok (p\<lparr>current_output := GRAPHIC, con := c\<rparr>))))"

lemma tagged_print_vga:
  assumes "graphic_driver p = vga_text_driver" "\<forall>x \<in> set ps. piece_ok x" "texts_of strs ps args = Some (t, rest)" "CHR ''%'' \<notin> set tag"
  shows "tagged_print fg tag junk strs (Some (concat (map fmt_of ps))) args p = tag_then_text fg tag t p"
proof -
  let ?s = "screen_scheme (con p)"
  have scheme: "graphic_set_color_scheme vga_text_driver x c = Ok (coloured (foreground x) (background x) c)" for x c
    by (simp add: graphic_defs vga_text_driver_def vga_set_color_scheme_def coloured_def)
  have tag: "tag_printf strs (Some tag) [] q = on_con (put_all vga_put_char tag) q"
    if "graphic_driver q = vga_text_driver" "current_output q = GRAPHIC" for q
    using vga_display.kprint_tag [OF that assms(4)] .
  have body: "kprint_fmt strs (concat (map fmt_of ps)) args q = on_con (put_all vga_put_char t) q"
    if "graphic_driver q = vga_text_driver" "current_output q = GRAPHIC" for q
    using vga_display.kprint_pieces [OF that assms(2,3)] .
  have save: "graphic_save_color_scheme vga_text_driver (Some junk) c =
      Ok (OS_NO_ERR, Some (junk\<lparr>foreground := foreground (screen_scheme c), background := background (screen_scheme c)\<rparr>), c)" for c
    by (simp add: graphic_defs vga_text_driver_def vga_save_color_scheme_def)
  show ?thesis unfolding tagged_print_def Let_def option.case
    by (simp add: assms(1) save scheme tag body on_con_def tag_then_text_def andthen_assoc Let_def)
qed

lemma tag_then_text_colours:
  assumes "vga_ok (con p)" "tag_then_text fg tag t p = Ok p'"
  shows "vga_ok (con p') \<and> foreground (screen_scheme (con p')) = foreground (screen_scheme (con p)) \<and>
     background (screen_scheme (con p')) = background (screen_scheme (con p))"
proof -
  have col: "vga_ok (coloured a b c) \<longleftrightarrow> vga_ok c" for a b c by (simp add: coloured_def vga_ok_def talks_def drains_def)
  from assms(2) obtain c1 c2 where 1: "put_all vga_put_char tag (coloured fg 0 (con p)) = Ok c1" and
    2: "put_all vga_put_char t (coloured (foreground (screen_scheme (con p))) (background (screen_scheme (con p))) c1) = Ok c2"
      "con p' = c2" by (auto simp: tag_then_text_def Let_def outcome_simps)
  have "vga_ok c1" using put_all_scheme [OF _ 1] assms(1) col by simp
  then show ?thesis using put_all_scheme [OF _ 2(1)] col 2(2) by (simp add: coloured_def)
qed

text \<open>On the VGA screen \<^verbatim>\<open>kernel_error\<close>, \<^verbatim>\<open>kernel_success\<close>, \<^verbatim>\<open>kernel_info\<close> and \<^verbatim>\<open>kernel_debug\<close> print their tag in its colour
  on black and the text of the format in the colours that were set, which are the same after the call.\<close>

theorem tagged_prints:
  assumes "graphic_driver p = vga_text_driver" "\<forall>x \<in> set ps. piece_ok x" "texts_of strs ps args = Some (t, rest)" "vga_ok (con p)"
  defines "fmt \<equiv> Some (concat (map fmt_of ps))"
  shows "kernel_error junk strs fmt args p = tag_then_text 0x04 ''[ERROR] '' t p \<and>
         kernel_success junk strs fmt args p = tag_then_text 0x02 ''[OK] '' t p \<and>
         kernel_info junk strs fmt args p = tag_then_text 0x03 ''[INFO] '' t p \<and>
         kernel_debug junk strs fmt args p = tag_then_text 0x0E ''[DEBUG] '' t p \<and>
         (kernel_error junk strs fmt args p = Ok p' \<longrightarrow>
            foreground (screen_scheme (con p')) = foreground (screen_scheme (con p)) \<and>
            background (screen_scheme (con p')) = background (screen_scheme (con p)))"
  using tagged_print_vga [OF assms(1-3)] tag_then_text_colours [OF assms(4)]
  by (simp add: fmt_def kernel_error_def kernel_success_def kernel_info_def kernel_debug_def)

theorem tagged_prints_witness:
  "kernel_error \<lparr>foreground = 1, background = 2, vga_color = 3\<rparr> (\<lambda>_. None) (Some (concat (map fmt_of [Text ''irq '', Uns False 0]))) [14] start_printer =
     tag_then_text 0x04 ''[ERROR] '' (''irq '' @ fill False 0 (numeral_text 10 14)) start_printer"
  using tagged_prints [of start_printer "[Text ''irq '', Uns False 0]" "\<lambda>_. None" "[14]" _ "[]" "\<lparr>foreground = 1, background = 2, vga_color = 3\<rparr>"] ready_vga_ok [of 0]
  by (simp add: start_printer_def)

text \<open>A string argument of \<^verbatim>\<open>kernel_serial_debug\<close> goes to the current output and not to the serial line.\<close>

theorem serial_debug_string_misplaced:
  assumes "strs a = Some s"
  shows "kernel_serial_debug strs cur (Some ''%s'') [a] c = andthen (put_all serial_put_char ''[DEBUG] '' c) (puts cur s)"
proof -
  have tag: "kprint_fmt_serial strs cur ''[DEBUG] '' [a] = put_all serial_put_char ''[DEBUG] ''"
    using kprint_serial_pieces [of "[Text ''[DEBUG] '']" strs "[a]" "''[DEBUG] ''" "[a]" cur] by simp
  have "kprint_fmt_serial strs cur ''%s'' [a] = puts cur s"
  proof
    fix c
    show "kprint_fmt_serial strs cur ''%s'' [a] c = puts cur s c"
      using assms by (cases "puts cur s c") (simp_all add: kprint_fmt_serial_def formater_def formater_step_def fmt_init_def
        done_with_def conv_string_def deref_def)
  qed
  then show ?thesis unfolding kernel_serial_debug_def option.case tag by simp
qed

text \<open>C26. Whatever drivers are offered, the selected one has all its ten functions, so that no call of the display goes through a
  null pointer: it is the last of the offered drivers that is complete, or the serial line when there is none.\<close>

theorem selected_driver_complete:
  "complete (offer_drivers ds serial_text_driver) \<and>
   offer_drivers ds serial_text_driver = last (serial_text_driver # filter complete (List.map_filter (\<lambda>x. x) ds))"
  using offer_complete [OF serial_complete] offer_exact by blast

end
