(* ===== verification/Keyboard.thy ===== *)
theory Keyboard
  imports Interrupts MemLib Vga
begin

unbundle bit_operations_syntax

text \<open>
  The keyboard driver (\<^verbatim>\<open>Sources/arch/x86/keyboard.c\<close>): key codes, shift keys, the buffer of a reader in memory and the
  echo on the selected display. A scan code is a signed byte, negative when the key is released.
\<close>

section \<open>State\<close>

definition KEY_BACKSPACE :: u8 where "KEY_BACKSPACE = 8"

definition KEY_RETURN :: u8 where "KEY_RETURN = 10"

definition KEY_LSHIFT :: u16 where "KEY_LSHIFT = 0x0400"

definition KEY_RSHIFT :: u16 where "KEY_RSHIFT = 0x0500"

definition KBD_LSHIFT :: u32 where "KBD_LSHIFT = 1"

definition KBD_RSHIFT :: u32 where "KBD_RSHIFT = 2"

definition KBD_IRQ_LINE :: u32 where "KBD_IRQ_LINE = 1"

lemmas key_consts [simp] = KEY_BACKSPACE_def KEY_RETURN_def KEY_LSHIFT_def KEY_RSHIFT_def KBD_LSHIFT_def KBD_RSHIFT_def KBD_IRQ_LINE_def

text \<open>The two tables of 128 entries; what the source does not list is 0.\<close>

definition map_regular :: "u16 list" where
  "map_regular =
     [0, 0, 49, 50, 51, 52, 53, 54, 55, 56, 57, 48, 45, 61, 8, 9, 113, 119, 101, 114, 116, 121, 117, 105,
      111, 112, 0, 0, 10, 0, 97, 115, 100, 102, 103, 104, 106, 107, 108, 59, 0, 0, 1024, 60, 122, 120, 99, 118,
      98, 110, 109, 44, 46, 32, 1280, 0, 0, 32, 32, 0, 0, 0, 0, 0, 0, 0, 0, 0, 0, 0, 0, 0,
      0, 128, 0, 0, 0, 0, 0, 0, 0, 129, 0] @ replicate 45 0"

definition map_shifted :: "u16 list" where
  "map_shifted =
     [0, 0, 33, 34, 47, 36, 37, 63, 38, 42, 40, 41, 95, 43, 8, 9, 81, 87, 69, 82, 84, 89, 85, 73,
      79, 80, 0, 0, 10, 0, 65, 83, 68, 70, 71, 72, 74, 75, 76, 58, 0, 0, 1024, 62, 90, 88, 67, 86,
      66, 78, 77, 39, 46, 32, 1280, 0, 0, 32, 32, 0, 0, 0, 0, 0, 0, 0, 0, 0, 0, 0, 0, 0,
      0, 128, 0, 0, 0, 0, 0, 0, 0, 129, 0] @ replicate 45 0"

record kbd_buffer_t =
  kbd_type :: u32
  char_buf :: ptr
  read_size :: u32
  kbd_read :: u32

text \<open>The file-scope variables, the memory of the readers, the interrupt manager with the ports, and the display.\<close>

record keyboard =
  secure_input :: u32
  display_keyboard :: u32
  keyboard_flags :: u32
  kbd_buf :: kbd_buffer_t
  kbd_mem :: bytes
  kbd_int :: int_state
  kbd_driver :: "console kernel_graphic_driver_t"
  kbd_con :: console

text \<open>The display and the interrupt manager use the same ports.\<close>

definition on_display :: "(console \<Rightarrow> console outcome) \<Rightarrow> keyboard \<Rightarrow> keyboard outcome" where
  "on_display f k =
     andthen (f ((kbd_con k)\<lparr>ports := int_world (kbd_int k)\<rparr>)) (\<lambda>c.
     Ok (k\<lparr>kbd_con := c, kbd_int := (kbd_int k)\<lparr>int_world := ports c\<rparr>\<rparr>))"

section \<open>Key codes\<close>

definition table :: "u16 list \<Rightarrow> int \<Rightarrow> u16 outcome" where
  "table t i = (if 0 \<le> i \<and> nat i < length t then Ok (t ! nat i) else Fault)"

text \<open>The assignments \<^verbatim>\<open>char_buf[read++] = character\<close> and \<^verbatim>\<open>char_buf[read] = 0\<close>.\<close>

definition push_char :: "u8 \<Rightarrow> keyboard \<Rightarrow> keyboard outcome" where
  "push_char ch k =
     (let b = kbd_buf k
      in andthen (store (kbd_mem k) (char_buf b + kbd_read b) ch) (\<lambda>m.
         Ok (k\<lparr>kbd_mem := m, kbd_buf := b\<lparr>kbd_read := kbd_read b + 1\<rparr>\<rparr>)))"

definition erase_char :: "keyboard \<Rightarrow> keyboard outcome" where
  "erase_char k =
     (let b = kbd_buf k; b = (if kbd_read b > 0 then b\<lparr>kbd_read := kbd_read b - 1\<rparr> else b)
      in andthen (store (kbd_mem k) (char_buf b + kbd_read b) 0) (\<lambda>m. Ok (k\<lparr>kbd_mem := m, kbd_buf := b\<rparr>)))"

definition room :: "keyboard \<Rightarrow> bool" where
  "room k \<longleftrightarrow> kbd_read (kbd_buf k) < read_size (kbd_buf k)"

definition set_idle :: "keyboard \<Rightarrow> keyboard" where
  "set_idle k = k\<lparr>kbd_buf := (kbd_buf k)\<lparr>kbd_type := 0\<rparr>\<rparr>"

definition feed_buffer :: "u8 \<Rightarrow> keyboard \<Rightarrow> keyboard outcome" where
  "feed_buffer ch k =
     (if kbd_type (kbd_buf k) = 1
      then if ch = KEY_RETURN then andthen (if room k then push_char ch k else Ok k) (\<lambda>k. Ok (set_idle k))
           else if ch = KEY_BACKSPACE then erase_char k
           else if room k then push_char ch k else Ok k
      else if kbd_type (kbd_buf k) = 2
      then andthen (if room k then push_char ch k else Ok k) (\<lambda>k. Ok (set_idle k))
      else Ok k)"

definition echo_char :: "u8 \<Rightarrow> keyboard \<Rightarrow> keyboard outcome" where
  "echo_char ch k =
     (if display_keyboard k \<noteq> 0
      then if secure_input k \<noteq> 0 \<and> ch \<noteq> KEY_RETURN \<and> ch \<noteq> KEY_BACKSPACE
           then on_display (graphic_console_write_keyboard (kbd_driver k) ''*'' 1) k
           else on_display (graphic_console_write_keyboard (kbd_driver k) [char_of (unat ch)] 1) k
      else Ok k)"

definition key_pressed :: "int \<Rightarrow> keyboard \<Rightarrow> keyboard outcome" where
  "key_pressed keycode k =
     andthen (table map_regular keycode) (\<lambda>r. andthen (table map_shifted keycode) (\<lambda>s.
       if r = KEY_LSHIFT then Ok (k\<lparr>keyboard_flags := keyboard_flags k OR KBD_LSHIFT\<rparr>)
       else if r = KEY_RSHIFT then Ok (k\<lparr>keyboard_flags := keyboard_flags k OR KBD_RSHIFT\<rparr>)
       else if r \<noteq> 0 \<or> s \<noteq> 0
       then let shifted = (keyboard_flags k AND KBD_LSHIFT) OR (keyboard_flags k AND KBD_RSHIFT);
                ch = ucast (if shifted \<noteq> 0 then s else r) :: u8
            in andthen (feed_buffer ch k) (echo_char ch)
       else Ok k))"

definition key_released :: "int \<Rightarrow> keyboard \<Rightarrow> keyboard outcome" where
  "key_released keycode k =
     andthen (table map_regular (128 + keycode)) (\<lambda>r.
       if r = KEY_LSHIFT then Ok (k\<lparr>keyboard_flags := keyboard_flags k AND NOT KBD_LSHIFT\<rparr>)
       else if r = KEY_RSHIFT then Ok (k\<lparr>keyboard_flags := keyboard_flags k AND NOT KBD_RSHIFT\<rparr>)
       else Ok k)"

definition manage_keycode :: "int \<Rightarrow> keyboard \<Rightarrow> keyboard outcome" where
  "manage_keycode keycode k = (if keycode > 0 then key_pressed keycode k else key_released keycode k)"

definition kbd_inb :: "u16 \<Rightarrow> keyboard \<Rightarrow> u8 \<times> keyboard" where
  "kbd_inb p k = (case cpu_inb p (int_world (kbd_int k)) of (v, w) \<Rightarrow> (v, k\<lparr>kbd_int := (kbd_int k)\<lparr>int_world := w\<rparr>\<rparr>))"

definition keyboard_interrupt_handler :: "keyboard \<Rightarrow> keyboard outcome" where
  "keyboard_interrupt_handler k =
     (let (status, k) = kbd_inb 0x64 k
      in andthen (if (ucast status :: u32) AND 0x100001 = 1
                  then let (code, k) = kbd_inb 0x60 k in manage_keycode (sint code) k
                  else Ok k) (\<lambda>k.
         andthen (kernel_interrupt_set_irq_eoi KBD_IRQ_LINE (kbd_int k)) (\<lambda>(_, s). Ok (k\<lparr>kbd_int := s\<rparr>))))"

section \<open>The interface\<close>

definition no_buffer :: kbd_buffer_t where
  "no_buffer = \<lparr>kbd_type = 0, char_buf = NULL, read_size = 0, kbd_read = 0\<rparr>"

text \<open>\<open>h\<close> is the address of \<^verbatim>\<open>keyboard_interrupt_handler\<close>.\<close>

definition keyboard_init :: "ptr \<Rightarrow> keyboard \<Rightarrow> (OS_RETURN_E \<times> keyboard) outcome" where
  "keyboard_init h k =
     (let k = k\<lparr>keyboard_flags := 0, display_keyboard := 1, kbd_buf := no_buffer\<rparr>
      in andthen (kernel_interrupt_register_irq_handler KBD_IRQ_LINE h (kbd_int k)) (\<lambda>(err, s).
         if err \<noteq> OS_NO_ERR then Ok (err, k\<lparr>kbd_int := s\<rparr>)
         else andthen (kernel_interrupt_set_irq_mask KBD_IRQ_LINE 1 s) (\<lambda>(err, s). Ok (err, k\<lparr>kbd_int := s\<rparr>))))"

definition keyboard_read :: "ptr \<Rightarrow> u32 \<Rightarrow> keyboard \<Rightarrow> u32 \<times> keyboard" where
  "keyboard_read buffer sz k =
     (if buffer = NULL \<or> sz = 0 then (0, k)
      else let k = k\<lparr>kbd_buf := \<lparr>kbd_type = 1, char_buf = buffer, read_size = sz, kbd_read = 0\<rparr>\<rparr>;
               read = kbd_read (kbd_buf k)
           in (read, k\<lparr>kbd_buf := no_buffer\<rparr>))"

definition keyboard_secure_read :: "ptr \<Rightarrow> u32 \<Rightarrow> keyboard \<Rightarrow> (u32 \<times> keyboard) outcome" where
  "keyboard_secure_read buffer sz k =
     (let (new_size, k) = keyboard_read buffer sz k
      in andthen (store (kbd_mem k) (buffer + (if new_size < sz - 1 then new_size else sz - 1)) 0) (\<lambda>m.
         Ok (new_size, k\<lparr>kbd_mem := m\<rparr>)))"

definition keyboard_getch :: "ptr \<Rightarrow> keyboard \<Rightarrow> keyboard" where
  "keyboard_getch character k =
     (if character = NULL then k
      else let k = k\<lparr>kbd_buf := \<lparr>kbd_type = 2, char_buf = character, read_size = 1, kbd_read = 0\<rparr>\<rparr>
           in k\<lparr>kbd_buf := no_buffer\<rparr>)"

definition keyboard_enable_secure :: "keyboard \<Rightarrow> keyboard" where
  "keyboard_enable_secure k = k\<lparr>secure_input := 1\<rparr>"

definition keyboard_disable_secure :: "keyboard \<Rightarrow> keyboard" where
  "keyboard_disable_secure k = k\<lparr>secure_input := 0\<rparr>"

definition keyboard_enable_display :: "keyboard \<Rightarrow> keyboard" where
  "keyboard_enable_display k = k\<lparr>display_keyboard := 1\<rparr>"

definition keyboard_disable_display :: "keyboard \<Rightarrow> keyboard" where
  "keyboard_disable_display k = k\<lparr>display_keyboard := 0\<rparr>"

section \<open>What a reader gets\<close>

text \<open>The specification: which shift keys are down, the line typed so far, and whether it is still open. A line keeps at most
  \<open>n\<close> characters; backspace takes the last one away and return closes the line.\<close>

record line_spec =
  left_down :: bool
  right_down :: bool
  line :: "u8 list"
  open_line :: bool

definition key_char :: "bool \<Rightarrow> nat \<Rightarrow> u8 option" where
  "key_char shift i =
     (if map_regular ! i = 0 \<and> map_shifted ! i = 0 then None
      else Some (ucast (if shift then map_shifted ! i else map_regular ! i)))"

definition spec_type :: "nat \<Rightarrow> u8 \<Rightarrow> line_spec \<Rightarrow> line_spec" where
  "spec_type n ch sp =
     (if \<not> open_line sp then sp
      else if ch = 8 then sp\<lparr>line := butlast (line sp)\<rparr>
      else let sp = (if length (line sp) < n then sp\<lparr>line := line sp @ [ch]\<rparr> else sp)
           in if ch = 10 then sp\<lparr>open_line := False\<rparr> else sp)"

definition spec_key :: "nat \<Rightarrow> int \<Rightarrow> line_spec \<Rightarrow> line_spec" where
  "spec_key n code sp =
     (if code = 42 then sp\<lparr>left_down := True\<rparr>
      else if code = 54 then sp\<lparr>right_down := True\<rparr>
      else if code = 42 - 128 then sp\<lparr>left_down := False\<rparr>
      else if code = 54 - 128 then sp\<lparr>right_down := False\<rparr>
      else if code > 0
      then case key_char (left_down sp \<or> right_down sp) (nat code) of None \<Rightarrow> sp | Some ch \<Rightarrow> spec_type n ch sp
      else sp)"

text \<open>The driver, with its display off, and the memory \<open>m\<close> before.\<close>

definition flags_of :: "bool \<Rightarrow> bool \<Rightarrow> u32" where
  "flags_of l r = (if l then 1 else 0) OR (if r then 2 else 0)"

definition reads_line :: "bytes \<Rightarrow> ptr \<Rightarrow> nat \<Rightarrow> keyboard \<Rightarrow> line_spec \<Rightarrow> bool" where
  "reads_line m buf n k sp \<longleftrightarrow>
     0 < n \<and> n < 2 ^ 32 \<and> length (line sp) \<le> n \<and> display_keyboard k = 0 \<and>
     keyboard_flags k = flags_of (left_down sp) (right_down sp) \<and>
     kbd_buf k = \<lparr>kbd_type = if open_line sp then 1 else 0, char_buf = buf, read_size = of_nat n, kbd_read = of_nat (length (line sp))\<rparr> \<and>
     bytes_at (kbd_mem k) buf (line sp) \<and> writable (kbd_mem k) buf n \<and>
     (\<forall>a. \<not> unat (a - buf) < n \<longrightarrow> kbd_mem k a = m a)"

lemma map_length: "length map_regular = 128" "length map_shifted = 128"
  by (simp_all add: map_regular_def map_shifted_def)

lemma shift_entries:
  assumes "i < 128"
  shows "map_regular ! i = 0x400 \<longleftrightarrow> i = 42" "map_regular ! i = 0x500 \<longleftrightarrow> i = 54"
proof -
  have "\<forall>i \<in> set [0 ..< 128]. (map_regular ! i = 0x400 \<longleftrightarrow> i = 42) \<and> (map_regular ! i = 0x500 \<longleftrightarrow> i = 54)" by code_simp
  then have "(map_regular ! i = 0x400 \<longleftrightarrow> i = 42) \<and> (map_regular ! i = 0x500 \<longleftrightarrow> i = 54)" by (rule bspec) (simp add: assms)
  then show "map_regular ! i = 0x400 \<longleftrightarrow> i = 42" "map_regular ! i = 0x500 \<longleftrightarrow> i = 54" by blast+
qed

lemma table_ok: "0 \<le> i \<Longrightarrow> i < 128 \<Longrightarrow> table map_regular i = Ok (map_regular ! nat i) \<and> table map_shifted i = Ok (map_shifted ! nat i)"
  by (simp add: table_def map_length)

lemma flag_ops:
  "flags_of l r OR 1 = flags_of True r" "flags_of l r OR 2 = flags_of l True"
  "flags_of l r AND NOT 1 = flags_of False r" "flags_of l r AND NOT 2 = flags_of l False"
  "(flags_of l r AND 1) OR (flags_of l r AND 2) = 0 \<longleftrightarrow> \<not> (l \<or> r)"
  by (cases l; cases r; simp add: flags_of_def)+

text \<open>Storing at the end of the line, and taking the last character away.\<close>

lemma push_reads:
  assumes "reads_line m buf n k sp" "open_line sp" "length (line sp) < n"
  shows "\<exists>k'. push_char ch k = Ok k' \<and> reads_line m buf n k' (sp\<lparr>line := line sp @ [ch]\<rparr>) \<and> kbd_type (kbd_buf k') = 1"
proof -
  let ?xs = "line sp" and ?a = "buf + of_nat (length (line sp))"
  have r: "bytes_at (kbd_mem k) buf ?xs" "writable (kbd_mem k) buf n" "n < 2 ^ 32"
    "\<forall>a. \<not> unat (a - buf) < n \<longrightarrow> kbd_mem k a = m a" using assms(1) by (simp_all add: reads_line_def)
  have u: "unat (?a - buf) = length ?xs" using assms(3) r(3) by (simp add: unat_of_nat)
  have "kbd_mem k ?a \<noteq> None" using r(2) assms(3) unfolding writable_def by blast
  then have st: "store (kbd_mem k) ?a ch = Ok ((kbd_mem k)(?a \<mapsto> ch))" by (auto simp: store_def modify_def)
  have b: "bytes_at ((kbd_mem k)(?a \<mapsto> ch)) buf (?xs @ [ch])" using bytes_at_upd [OF r(1), of ?a ch] u by simp
  have o: "((kbd_mem k)(?a \<mapsto> ch)) x = m x" if "\<not> unat (x - buf) < n" for x
    using that r(4) u assms(3) by auto
  show ?thesis using assms st b o r(2) by (simp add: push_char_def reads_line_def Let_def add.commute)
qed

lemma erase_reads:
  assumes "reads_line m buf n k sp" "open_line sp"
  shows "\<exists>k'. erase_char k = Ok k' \<and> reads_line m buf n k' (sp\<lparr>line := butlast (line sp)\<rparr>)"
proof -
  let ?xs = "butlast (line sp)" let ?a = "buf + of_nat (length ?xs)"
  have r: "bytes_at (kbd_mem k) buf (line sp)" "writable (kbd_mem k) buf n" "n < 2 ^ 32" "0 < n" "length (line sp) \<le> n"
    "\<forall>a. \<not> unat (a - buf) < n \<longrightarrow> kbd_mem k a = m a" using assms(1) by (simp_all add: reads_line_def)
  have l: "length ?xs < n" using r(4,5) by (cases "line sp") auto
  have u: "unat (?a - buf) = length ?xs" using l r(3) by (simp add: unat_of_nat)
  have "kbd_mem k ?a \<noteq> None" using r(2) l unfolding writable_def by blast
  then have st: "store (kbd_mem k) ?a 0 = Ok ((kbd_mem k)(?a \<mapsto> 0))" by (auto simp: store_def modify_def)
  have "bytes_at (kbd_mem k) buf ?xs"
    using r(1) by (cases "line sp = []") (simp, metis append_butlast_last_id bytes_at_append)
  then have b: "bytes_at ((kbd_mem k)(?a \<mapsto> 0)) buf ?xs" using u by (intro bytes_at_upd) simp_all
  have o: "((kbd_mem k)(?a \<mapsto> 0)) x = m x" if "\<not> unat (x - buf) < n" for x
    using that r(6) u l by auto
  have len: "(of_nat (length (line sp)) :: u32) > 0 \<longleftrightarrow> line sp \<noteq> []"
    using r(3,5) by (simp add: word_less_nat_alt unat_of_nat)
  have dec: "line sp \<noteq> [] \<Longrightarrow> (of_nat (length (line sp)) :: u32) - 1 = of_nat (length ?xs)"
    by (cases "line sp") simp_all
  have "(if 0 < kbd_read (kbd_buf k) then (kbd_buf k)\<lparr>kbd_read := kbd_read (kbd_buf k) - 1\<rparr> else kbd_buf k) =
      \<lparr>kbd_type = 1, char_buf = buf, read_size = of_nat n, kbd_read = of_nat (length ?xs)\<rparr>"
    using assms len dec by (cases "line sp = []") (simp_all add: reads_line_def)
  then have "erase_char k = Ok (k\<lparr>kbd_mem := (kbd_mem k)(?a \<mapsto> 0),
      kbd_buf := \<lparr>kbd_type = 1, char_buf = buf, read_size = of_nat n, kbd_read = of_nat (length ?xs)\<rparr>\<rparr>)"
    using st by (simp add: erase_char_def Let_def)
  then show ?thesis using assms b o r(2) l by (simp add: reads_line_def)
qed

lemma room_iff: "reads_line m buf n k sp \<Longrightarrow> room k \<longleftrightarrow> length (line sp) < n"
  by (auto simp: reads_line_def room_def word_less_nat_alt unat_of_nat)

lemma set_idle_reads:
  "reads_line m buf n k sp \<Longrightarrow> reads_line m buf n (set_idle k) (sp\<lparr>open_line := False\<rparr>)"
  by (simp add: reads_line_def set_idle_def)

lemma feed_reads:
  assumes "reads_line m buf n k sp"
  shows "\<exists>k'. feed_buffer ch k = Ok k' \<and> reads_line m buf n k' (spec_type n ch sp)"
proof (cases "open_line sp")
  case False
  then have "kbd_type (kbd_buf k) = 0" using assms by (simp add: reads_line_def)
  then show ?thesis using False assms by (simp add: feed_buffer_def spec_type_def)
next
  case o: True
  then have t: "kbd_type (kbd_buf k) = 1" using assms by (simp add: reads_line_def)
  have push: "\<exists>k'. (if room k then push_char ch k else Ok k) = Ok k' \<and>
      reads_line m buf n k' (if length (line sp) < n then sp\<lparr>line := line sp @ [ch]\<rparr> else sp)"
    using push_reads [OF assms o, of ch] assms room_iff [OF assms] by auto
  show ?thesis
  proof (cases "ch = 8")
    case True
    then show ?thesis using erase_reads [OF assms o] o t by (simp add: feed_buffer_def spec_type_def)
  next
    case False
    from push obtain k1 where k1: "(if room k then push_char ch k else Ok k) = Ok k1"
      "reads_line m buf n k1 (if length (line sp) < n then sp\<lparr>line := line sp @ [ch]\<rparr> else sp)" by (elim exE conjE)
    have "feed_buffer ch k = Ok (if ch = 10 then set_idle k1 else k1)"
      unfolding feed_buffer_def t k1(1) using False by simp
    moreover have "spec_type n ch sp = (let sp' = (if length (line sp) < n then sp\<lparr>line := line sp @ [ch]\<rparr> else sp)
        in if ch = 10 then sp'\<lparr>open_line := False\<rparr> else sp')"
      using False o by (simp only: spec_type_def if_False simp_thms)
    ultimately show ?thesis using k1(2) set_idle_reads [OF k1(2)] by (simp add: Let_def)
  qed
qed

text \<open>One key code. With the display off nothing is echoed.\<close>

lemma key_reads:
  assumes "reads_line m buf n k sp" "- 128 \<le> code" "code < 128" "code \<noteq> 0"
  shows "\<exists>k'. manage_keycode code k = Ok k' \<and> reads_line m buf n k' (spec_key n code sp)"
proof (cases "code > 0")
  case False
  let ?i = "nat (128 + code)"
  have i: "?i < 128" "table map_regular (128 + code) = Ok (map_regular ! ?i)" using False assms(2,4) table_ok [of "128 + code"] by auto
  have c: "?i = 42 \<longleftrightarrow> code = 42 - 128" "?i = 54 \<longleftrightarrow> code = 54 - 128" using assms(2) by auto
  have f: "keyboard_flags k = flags_of (left_down sp) (right_down sp)" using assms(1) by (simp add: reads_line_def)
  have k: "manage_keycode code k =
      (if code = 42 - 128 then Ok (k\<lparr>keyboard_flags := flags_of False (right_down sp)\<rparr>)
       else if code = 54 - 128 then Ok (k\<lparr>keyboard_flags := flags_of (left_down sp) False\<rparr>) else Ok k)"
    using False i(2) shift_entries [OF i(1)] c flag_ops(3,4) f by (simp add: manage_keycode_def key_released_def)
  have "spec_key n code sp = (if code = 42 - 128 then sp\<lparr>left_down := False\<rparr> else if code = 54 - 128 then sp\<lparr>right_down := False\<rparr> else sp)"
    using False by (simp add: spec_key_def)
  then show ?thesis unfolding k using assms(1) by (simp add: reads_line_def)
next
  case True
  let ?i = "nat code"
  have i: "?i < 128" "table map_regular code = Ok (map_regular ! ?i)" "table map_shifted code = Ok (map_shifted ! ?i)"
    using True assms(3) table_ok [of code] by auto
  have c: "?i = 42 \<longleftrightarrow> code = 42" "?i = 54 \<longleftrightarrow> code = 54" using True by auto
  have f: "keyboard_flags k = flags_of (left_down sp) (right_down sp)" using assms(1) by (simp add: reads_line_def)
  have neg: "code \<noteq> 42 - 128" "code \<noteq> 54 - 128" using True by simp_all
  consider "code = 42" | "code = 54" | "code \<noteq> 42" "code \<noteq> 54" by blast
  then show ?thesis
  proof cases
    case 1
    then show ?thesis using assms(1) i shift_entries [OF i(1)] flag_ops(1) f
      by (simp add: manage_keycode_def key_pressed_def spec_key_def reads_line_def)
  next
    case 2
    then show ?thesis using assms(1) i shift_entries [OF i(1)] flag_ops(2) f
      by (simp add: manage_keycode_def key_pressed_def spec_key_def reads_line_def)
  next
    case 3
    have s: "spec_key n code sp = (case key_char (left_down sp \<or> right_down sp) ?i of None \<Rightarrow> sp | Some ch \<Rightarrow> spec_type n ch sp)"
      using 3 True neg by (simp add: spec_key_def)
    have m: "manage_keycode code k = (case key_char (left_down sp \<or> right_down sp) ?i of None \<Rightarrow> Ok k
        | Some ch \<Rightarrow> andthen (feed_buffer ch k) (echo_char ch))"
      using 3 True i shift_entries [OF i(1)] c flag_ops(5) [of "left_down sp" "right_down sp"] f
      by (auto simp: manage_keycode_def key_pressed_def key_char_def Let_def)
    show ?thesis
    proof (cases "key_char (left_down sp \<or> right_down sp) ?i")
      case None
      then show ?thesis using assms(1) m s by simp
    next
      case (Some ch)
      from feed_reads [OF assms(1), of ch] obtain k1 where k1: "feed_buffer ch k = Ok k1" "reads_line m buf n k1 (spec_type n ch sp)" by blast
      moreover have "echo_char ch k1 = Ok k1" using k1(2) by (simp add: echo_char_def reads_line_def)
      ultimately show ?thesis using m s Some by simp
    qed
  qed
qed

primrec manage_keycodes :: "int list \<Rightarrow> keyboard \<Rightarrow> keyboard outcome" where
  "manage_keycodes [] k = Ok k"
| "manage_keycodes (c # cs) k = andthen (manage_keycode c k) (manage_keycodes cs)"

section \<open>Properties\<close>

text \<open>While a reader waits for a line with the display off, every sequence of key codes (but the code 0) leaves in its
  buffer exactly the line that was typed: shift selects the second table while a shift key is down, backspace takes
  a character away, at most \<open>n\<close> characters are kept, return ends the line, and no byte outside the buffer changes.\<close>

theorem keyboard_line:
  assumes "reads_line m buf n k sp" "\<forall>c \<in> set cs. - 128 \<le> c \<and> c < 128 \<and> c \<noteq> 0"
  shows "\<exists>k'. manage_keycodes cs k = Ok k' \<and> reads_line m buf n k' (fold (spec_key n) cs sp)"
  using assms
proof (induction cs arbitrary: k sp)
  case (Cons c cs)
  from key_reads [OF Cons.prems(1), of c] Cons.prems(2) obtain k1 where
    1: "manage_keycode c k = Ok k1" "reads_line m buf n k1 (spec_key n c sp)" by auto
  then show ?case using Cons.IH [OF 1(2)] Cons.prems(2) by simp
qed simp

definition reader_keyboard :: keyboard where
  "reader_keyboard =
     \<lparr>secure_input = 0, display_keyboard = 0, keyboard_flags = 0,
      kbd_buf = \<lparr>kbd_type = 1, char_buf = 0x1000, read_size = 4, kbd_read = 0\<rparr>, kbd_mem = ramp,
      kbd_int = \<lparr>kernel_interrupt_handlers = \<lambda>_. \<lparr>enabled = 0, handler = NULL\<rparr>,
        interrupt_driver = \<lparr>driver_set_irq_mask = None, driver_set_irq_eoi = None, driver_handle_spurious = None, driver_get_irq_int_line = None\<rparr>,
        spurious_interrupt = 0, int_world = ports (ready_console 0)\<rparr>,
      kbd_driver = vga_text_driver, kbd_con = ready_console 0\<rparr>"

theorem keyboard_line_witness:
  "\<exists>k'. manage_keycodes [42, 35, -86, 23, 14, 24, 28] reader_keyboard = Ok k' \<and>
     reads_line ramp 0x1000 4 k' \<lparr>left_down = False, right_down = False, line = [72, 111, 10], open_line = False\<rparr>"
proof -
  have e: "fold (spec_key 4) [42, 35, -86, 23, 14, 24, 28] \<lparr>left_down = False, right_down = False, line = [], open_line = True\<rparr> =
      \<lparr>left_down = False, right_down = False, line = [72, 111, 10 :: u8], open_line = False\<rparr>"
    by code_simp
  have "reads_line ramp 0x1000 4 reader_keyboard \<lparr>left_down = False, right_down = False, line = [], open_line = True\<rparr>"
    by (simp add: reads_line_def reader_keyboard_def flags_of_def writable_def ramp_def)
  from keyboard_line [OF this, of "[42, 35, -86, 23, 14, 24, 28]"] show ?thesis unfolding e by simp
qed

text \<open>The documentation says that \<^verbatim>\<open>keyboard_read\<close> and \<^verbatim>\<open>keyboard_getch\<close> wait for input; they return at once, with nothing read
  and no buffer left for the handler. With a size of 0 \<^verbatim>\<open>keyboard_secure_read\<close> still writes a byte.\<close>

theorem keyboard_read_returns_nothing:
  "fst (keyboard_read buffer sz k) = 0 \<and>
   (buffer \<noteq> NULL \<longrightarrow> sz \<noteq> 0 \<longrightarrow> kbd_type (kbd_buf (snd (keyboard_read buffer sz k))) = 0) \<and>
   (buffer \<noteq> NULL \<longrightarrow> kbd_mem k buffer \<noteq> None \<longrightarrow>
      (\<exists>k'. keyboard_secure_read buffer 0 k = Ok (0, k') \<and> kbd_mem k' = (kbd_mem k)(buffer \<mapsto> 0)))"
proof -
  have "(0 :: u32) < - 1" by (simp add: word_gt_0)
  then show ?thesis
    by (auto simp: keyboard_read_def keyboard_secure_read_def no_buffer_def Let_def store_def modify_def)
qed

end
