(* ===== verification/Acpi.thy ===== *)
theory Acpi
  imports AddressSpace
begin

unbundle bit_operations_syntax

text \<open>
  The ACPI tables (\<^verbatim>\<open>Sources/arch/x86/acpi.c\<close>): finding, checking and walking the tables of the firmware, which are read
  through the page tables of theory \<open>Paging\<close>, so that reading a page that is not mapped is a \<open>Fault\<close>. A packed structure
  is its address, and a field an offset. The messages printed on errors are left out.
\<close>

section \<open>Reading memory\<close>

text \<open>\<^verbatim>\<open>phys\<close> holds the word at each multiple of four.\<close>

definition phys_byte :: "u32 \<Rightarrow> vm \<Rightarrow> u8" where
  "phys_byte a s = ucast (drop_bit (8 * unat (a AND 3)) (phys s (a AND NOT 3)))"

definition vbyte :: "ptr \<Rightarrow> vm \<Rightarrow> u8 outcome" where
  "vbyte v s =
     (if bit (cr0 s) 31 then (case translate v s of None \<Rightarrow> Fault | Some (a, _) \<Rightarrow> Ok (phys_byte a s)) else Ok (phys_byte v s))"

definition vword :: "ptr \<Rightarrow> vm \<Rightarrow> u32 outcome" where
  "vword v s =
     andthen (vbyte v s) (\<lambda>b0. andthen (vbyte (v + 1) s) (\<lambda>b1. andthen (vbyte (v + 2) s) (\<lambda>b2. andthen (vbyte (v + 3) s) (\<lambda>b3.
     Ok (ucast b0 OR push_bit 8 (ucast b1) OR push_bit 16 (ucast b2) OR push_bit 24 (ucast b3))))))"

definition vquad :: "ptr \<Rightarrow> vm \<Rightarrow> u64 outcome" where
  "vquad v s = andthen (vword v s) (\<lambda>lo. andthen (vword (v + 4) s) (\<lambda>hi. Ok (ucast lo OR push_bit 32 (ucast hi))))"

section \<open>State\<close>

definition APIC_TYPE_LOCAL_APIC :: u8 where "APIC_TYPE_LOCAL_APIC = 0"

definition APIC_TYPE_IO_APIC :: u8 where "APIC_TYPE_IO_APIC = 1"

definition APIC_TYPE_INTERRUPT_OVERRIDE :: u8 where "APIC_TYPE_INTERRUPT_OVERRIDE = 2"

definition ACPI_RSDP_SIG :: u64 where "ACPI_RSDP_SIG = 0x2052545020445352"

definition ACPI_RSDT_SIG :: u32 where "ACPI_RSDT_SIG = 0x54445352"

definition ACPI_XSDT_SIG :: u32 where "ACPI_XSDT_SIG = 0x54445358"

definition ACPI_FACP_SIG :: u32 where "ACPI_FACP_SIG = 0x50434146"

definition ACPI_FACS_SIG :: u32 where "ACPI_FACS_SIG = 0x53434146"

definition ACPI_APIC_SIG :: u32 where "ACPI_APIC_SIG = 0x43495041"

definition ACPI_DSDT_SIG :: u32 where "ACPI_DSDT_SIG = 0x54445344"

definition MAX_CPUS :: u32 where "MAX_CPUS = 4"

definition MAX_IO_APIC_COUNT :: u32 where "MAX_IO_APIC_COUNT = 1"

lemmas acpi_consts = APIC_TYPE_LOCAL_APIC_def APIC_TYPE_IO_APIC_def APIC_TYPE_INTERRUPT_OVERRIDE_def ACPI_RSDP_SIG_def
  ACPI_RSDT_SIG_def ACPI_XSDT_SIG_def ACPI_FACP_SIG_def ACPI_FACS_SIG_def ACPI_APIC_SIG_def ACPI_DSDT_SIG_def
  MAX_CPUS_def MAX_IO_APIC_COUNT_def

record acpi =
  cpu_count :: u32
  cpu_ids :: "u32 list"
  cpu_lapic :: "ptr list"
  io_apic_count :: u32
  io_apic_tables :: "ptr list"
  rsdp_parse_success :: u8
  rsdp :: ptr
  has_xsdt :: u8
  rsdt_parse_success :: u8
  rsdt :: ptr
  xsdt_parse_success :: u8
  xsdt :: ptr
  fadt_parse_success :: u8
  fadt :: ptr
  facs_parse_success :: u8
  facs :: ptr
  dsdt_parse_success :: u8
  dsdt :: ptr
  madt_parse_success :: u8
  madt :: ptr
  acpi_initialized :: u8
  avm :: vm

text \<open>The sizes and the offsets of the fields of the packed structures of \<^verbatim>\<open>acpi.h\<close>.\<close>

definition sizeof_acpi_header :: u32 where "sizeof_acpi_header = 36"

definition sizeof_rsdp_descriptor :: u32 where "sizeof_rsdp_descriptor = 20"

definition sizeof_rsdp_descriptor_2 :: u32 where "sizeof_rsdp_descriptor_2 = 36"

definition sizeof_rsdt_descriptor :: u32 where "sizeof_rsdt_descriptor = 40"

definition sizeof_acpi_fadt :: u32 where "sizeof_acpi_fadt = 244"

definition sizeof_acpi_madt :: u32 where "sizeof_acpi_madt = 44"

definition header_length :: "ptr \<Rightarrow> vm \<Rightarrow> u32 outcome" where "header_length p s = vword (p + 4) s"

definition entry_type :: "ptr \<Rightarrow> vm \<Rightarrow> u8 outcome" where "entry_type p s = vbyte p s"

definition entry_length :: "ptr \<Rightarrow> vm \<Rightarrow> u8 outcome" where "entry_length p s = vbyte (p + 1) s"

definition acpi_cpu_id :: "ptr \<Rightarrow> vm \<Rightarrow> u8 outcome" where "acpi_cpu_id p s = vbyte (p + 2) s"

definition apic_id :: "ptr \<Rightarrow> vm \<Rightarrow> u8 outcome" where "apic_id p s = vbyte (p + 3) s"

definition io_apic_id_field :: "ptr \<Rightarrow> vm \<Rightarrow> u8 outcome" where "io_apic_id_field p s = vbyte (p + 2) s"

definition io_apic_addr :: "ptr \<Rightarrow> vm \<Rightarrow> u32 outcome" where "io_apic_addr p s = vword (p + 4) s"

definition override_source :: "ptr \<Rightarrow> vm \<Rightarrow> u8 outcome" where "override_source p s = vbyte (p + 3) s"

definition override_interrupt :: "ptr \<Rightarrow> vm \<Rightarrow> u32 outcome" where "override_interrupt p s = vword (p + 4) s"

section \<open>Mapping and checksums\<close>

definition map_data_pass :: "u32 \<times> u32 \<times> OS_RETURN_E \<times> vm \<Rightarrow> (bool \<times> u32 \<times> u32 \<times> OS_RETURN_E \<times> vm) outcome" where
  "map_data_pass = (\<lambda>(addr_align, sz, e, s).
     if sz = 0 then Ok (False, addr_align, sz, OS_NO_ERR, s)
     else andthen (kernel_mmap_hw addr_align addr_align KERNEL_PAGE_SIZE 1 0 s) (\<lambda>(err, s).
          if err \<noteq> OS_NO_ERR \<and> err \<noteq> OS_ERR_MAPPING_ALREADY_EXISTS then Ok (False, addr_align, sz, err, s)
          else Ok (True, addr_align + KERNEL_PAGE_SIZE, if sz \<ge> KERNEL_PAGE_SIZE then sz - KERNEL_PAGE_SIZE else 0, e, s)))"

definition acpi_map_data :: "ptr \<Rightarrow> u32 \<Rightarrow> acpi \<Rightarrow> (OS_RETURN_E \<times> acpi) outcome" where
  "acpi_map_data start_addr sz a =
     (let addr_align = start_addr AND PAGE_ALIGN_MASK
      in andthen (while_do map_data_pass (addr_align, sz + start_addr - addr_align, OS_NO_ERR, avm a)) (\<lambda>(_, _, err, s).
         Ok (err, a\<lparr>avm := s\<rparr>)))"

text \<open>The checksum with a 32-bit counter, and the one with an 8-bit counter. Only the low byte of the sum is used.\<close>

primrec sum_bytes :: "nat \<Rightarrow> ptr \<Rightarrow> vm \<Rightarrow> u8 outcome" where
  "sum_bytes 0 p s = Ok 0"
| "sum_bytes (Suc n) p s = andthen (sum_bytes n p s) (\<lambda>sum. andthen (vbyte (p + of_nat n) s) (\<lambda>b. Ok (sum + b)))"

definition sum_pass :: "u32 \<Rightarrow> ptr \<Rightarrow> vm \<Rightarrow> u8 \<times> u8 \<Rightarrow> (bool \<times> u8 \<times> u8) outcome" where
  "sum_pass len p s = (\<lambda>(i, sum).
     if ucast i < len then andthen (vbyte (p + ucast i) s) (\<lambda>b. Ok (True, i + 1, sum + b)) else Ok (False, i, sum))"

definition sum_bytes_8 :: "u32 \<Rightarrow> ptr \<Rightarrow> vm \<Rightarrow> u8 outcome" where
  "sum_bytes_8 len p s = andthen (while_do (sum_pass len p s) (0, 0)) (\<lambda>(_, sum). Ok sum)"

section \<open>The tables\<close>

text \<open>One entry of the MADT; the message for an entry beyond the table reads its identifier.\<close>

definition madt_entry_step :: "ptr \<Rightarrow> acpi \<Rightarrow> acpi outcome" where
  "madt_entry_step entry a =
     andthen (entry_type entry (avm a)) (\<lambda>type.
     if type = APIC_TYPE_LOCAL_APIC
     then if cpu_count a < MAX_CPUS
          then andthen (acpi_cpu_id entry (avm a)) (\<lambda>i.
               Ok (a\<lparr>cpu_lapic := (cpu_lapic a)[unat (cpu_count a) := entry], cpu_ids := (cpu_ids a)[unat (cpu_count a) := ucast i],
                     cpu_count := cpu_count a + 1\<rparr>))
          else andthen (acpi_cpu_id entry (avm a)) (\<lambda>_. Ok a)
     else if type = APIC_TYPE_IO_APIC
     then if io_apic_count a < MAX_IO_APIC_COUNT
          then Ok (a\<lparr>io_apic_tables := (io_apic_tables a)[unat (io_apic_count a) := entry], io_apic_count := io_apic_count a + 1\<rparr>)
          else andthen (io_apic_id_field entry (avm a)) (\<lambda>_. Ok a)
     else Ok a)"

definition madt_pass :: "ptr \<Rightarrow> ptr \<times> acpi \<Rightarrow> (bool \<times> ptr \<times> acpi) outcome" where
  "madt_pass lim = (\<lambda>(entry, a).
     if entry < lim
     then andthen (madt_entry_step entry a) (\<lambda>a. andthen (entry_length entry (avm a)) (\<lambda>l. Ok (True, entry + ucast l, a)))
     else Ok (False, entry, a))"

definition acpi_parse_apic :: "ptr \<Rightarrow> acpi \<Rightarrow> (OS_RETURN_E \<times> acpi) outcome" where
  "acpi_parse_apic madt_ptr a =
     (if madt_ptr = NULL then Ok (OS_ERR_NULL_POINTER, a)
      else on_ok (acpi_map_data madt_ptr sizeof_acpi_madt a) (\<lambda>a.
           andthen (header_length madt_ptr (avm a)) (\<lambda>len.
           andthen (sum_bytes (unat len) madt_ptr (avm a)) (\<lambda>sum.
           if sum \<noteq> 0 then Ok (OS_ERR_CHECKSUM_FAILED, a)
           else andthen (vword madt_ptr (avm a)) (\<lambda>sig.
           if sig \<noteq> ACPI_APIC_SIG then Ok (OS_ERR_CHECKSUM_FAILED, a)
           else on_ok (acpi_map_data (madt_ptr + sizeof_acpi_madt) (madt_ptr + len - (madt_ptr + sizeof_acpi_madt)) a) (\<lambda>a.
                andthen (while_do (madt_pass (madt_ptr + len)) (madt_ptr + sizeof_acpi_madt, a\<lparr>cpu_count := 0, io_apic_count := 0\<rparr>))
                  (\<lambda>(_, a). Ok (OS_NO_ERR, a))))))))"

definition acpi_parse_facs :: "ptr \<Rightarrow> acpi \<Rightarrow> (OS_RETURN_E \<times> acpi) outcome" where
  "acpi_parse_facs facs_ptr a =
     (if facs_ptr = NULL then Ok (OS_ERR_NULL_POINTER, a)
      else on_ok (acpi_map_data facs_ptr sizeof_acpi_header a) (\<lambda>a.
           andthen (vword facs_ptr (avm a)) (\<lambda>sig.
           if sig \<noteq> ACPI_FACS_SIG then Ok (OS_ERR_CHECKSUM_FAILED, a) else Ok (OS_NO_ERR, a))))"

definition acpi_parse_dsdt :: "ptr \<Rightarrow> acpi \<Rightarrow> (OS_RETURN_E \<times> acpi) outcome" where
  "acpi_parse_dsdt dsdt_ptr a =
     (if dsdt_ptr = NULL then Ok (OS_ERR_NULL_POINTER, a)
      else on_ok (acpi_map_data dsdt_ptr sizeof_acpi_header a) (\<lambda>a.
           andthen (header_length dsdt_ptr (avm a)) (\<lambda>len.
           on_ok (acpi_map_data dsdt_ptr len a) (\<lambda>a.
           andthen (sum_bytes (unat len) dsdt_ptr (avm a)) (\<lambda>sum.
           if sum \<noteq> 0 then Ok (OS_ERR_CHECKSUM_FAILED, a)
           else andthen (vword dsdt_ptr (avm a)) (\<lambda>sig.
           if sig \<noteq> ACPI_DSDT_SIG then Ok (OS_ERR_CHECKSUM_FAILED, a) else Ok (OS_NO_ERR, a)))))))"

definition acpi_parse_fadt :: "ptr \<Rightarrow> acpi \<Rightarrow> (OS_RETURN_E \<times> acpi) outcome" where
  "acpi_parse_fadt fadt_ptr a =
     (if fadt_ptr = NULL then Ok (OS_ERR_NULL_POINTER, a)
      else on_ok (acpi_map_data fadt_ptr sizeof_acpi_fadt a) (\<lambda>a.
           andthen (header_length fadt_ptr (avm a)) (\<lambda>len.
           andthen (sum_bytes (unat len) fadt_ptr (avm a)) (\<lambda>sum.
           if sum \<noteq> 0 then Ok (OS_ERR_CHECKSUM_FAILED, a)
           else andthen (vword fadt_ptr (avm a)) (\<lambda>sig.
           if sig \<noteq> ACPI_FACP_SIG then Ok (OS_ERR_CHECKSUM_FAILED, a)
           else andthen (vword (fadt_ptr + 36) (avm a)) (\<lambda>fw.
                on_ok (acpi_parse_facs fw a) (\<lambda>a.
                let a = a\<lparr>facs_parse_success := 1, facs := fw\<rparr>
                in andthen (vword (fadt_ptr + 40) (avm a)) (\<lambda>d.
                   on_ok (acpi_parse_dsdt d a) (\<lambda>a. Ok (OS_NO_ERR, a\<lparr>dsdt_parse_success := 1, dsdt := d\<rparr>))))))))))"

definition acpi_parse_dt :: "ptr \<Rightarrow> acpi \<Rightarrow> (OS_RETURN_E \<times> acpi) outcome" where
  "acpi_parse_dt header a =
     (if header = NULL then Ok (OS_ERR_NULL_POINTER, a)
      else on_ok (acpi_map_data header sizeof_acpi_header a) (\<lambda>a.
           andthen (vword header (avm a)) (\<lambda>sig.
           if sig = ACPI_FACP_SIG
           then andthen (acpi_parse_fadt header a) (\<lambda>(err, a).
                Ok (err, if err = OS_NO_ERR then a\<lparr>fadt_parse_success := 1, fadt := header\<rparr> else a))
           else if sig = ACPI_APIC_SIG
           then andthen (acpi_parse_apic header a) (\<lambda>(err, a).
                Ok (err, if err = OS_NO_ERR then a\<lparr>madt_parse_success := 1, madt := header\<rparr> else a))
           else Ok (OS_NO_ERR, a))))"

text \<open>The loop over the pointers of the RSDT (\<open>step = 4\<close>) and of the XSDT (\<open>step = 8\<close>), of which the low word is used.\<close>

definition sdt_address :: "u32 \<Rightarrow> ptr \<Rightarrow> vm \<Rightarrow> u32 outcome" where
  "sdt_address step p s = (if step = 8 then andthen (vquad p s) (\<lambda>q. Ok (ucast q)) else vword p s)"

definition sdt_pass :: "u32 \<Rightarrow> ptr \<Rightarrow> ptr \<times> OS_RETURN_E \<times> acpi \<Rightarrow> (bool \<times> ptr \<times> OS_RETURN_E \<times> acpi) outcome" where
  "sdt_pass step range_end = (\<lambda>(range_begin, e, a).
     if range_begin < range_end
     then andthen (sdt_address step range_begin (avm a)) (\<lambda>address.
          andthen (acpi_parse_dt address a) (\<lambda>(err, a).
          if err \<noteq> OS_NO_ERR then Ok (False, range_begin, err, a) else Ok (True, range_begin + step, err, a)))
     else Ok (False, range_begin, e, a))"

definition parse_sdt :: "u32 \<Rightarrow> u32 \<Rightarrow> ptr \<Rightarrow> acpi \<Rightarrow> (OS_RETURN_E \<times> acpi) outcome" where
  "parse_sdt step signature p a =
     (if p = NULL then Ok (OS_ERR_NULL_POINTER, a)
      else on_ok (acpi_map_data p sizeof_rsdt_descriptor a) (\<lambda>a.
           andthen (header_length p (avm a)) (\<lambda>len.
           andthen (sum_bytes_8 len p (avm a)) (\<lambda>sum.
           if sum \<noteq> 0 then Ok (OS_ERR_CHECKSUM_FAILED, a)
           else andthen (vword p (avm a)) (\<lambda>sig.
           if sig \<noteq> signature then Ok (OS_ERR_CHECKSUM_FAILED, a)
           else on_ok (acpi_map_data (p + 36) (p + len - (p + 36)) a) (\<lambda>a.
                andthen (while_do (sdt_pass step (p + len)) (p + 36, OS_NO_ERR, a)) (\<lambda>(_, err, a). Ok (err, a))))))))"

definition acpi_parse_rsdt :: "ptr \<Rightarrow> acpi \<Rightarrow> (OS_RETURN_E \<times> acpi) outcome" where
  "acpi_parse_rsdt rsdt_ptr a = parse_sdt 4 ACPI_RSDT_SIG rsdt_ptr a"

definition acpi_parse_xsdt :: "ptr \<Rightarrow> acpi \<Rightarrow> (OS_RETURN_E \<times> acpi) outcome" where
  "acpi_parse_xsdt xsdt_ptr a = parse_sdt 8 ACPI_XSDT_SIG xsdt_ptr a"

definition acpi_parse_rsdp :: "ptr \<Rightarrow> acpi \<Rightarrow> (OS_RETURN_E \<times> acpi) outcome" where
  "acpi_parse_rsdp rsdp_desc a =
     (if rsdp_desc = NULL then Ok (OS_ERR_NULL_POINTER, a)
      else on_ok (acpi_map_data rsdp_desc sizeof_rsdp_descriptor a) (\<lambda>a.
           andthen (sum_bytes (unat sizeof_rsdp_descriptor) rsdp_desc (avm a)) (\<lambda>sum.
           if sum \<noteq> 0 then Ok (OS_ERR_CHECKSUM_FAILED, a)
           else andthen (vbyte (rsdp_desc + 15) (avm a)) (\<lambda>revision.
           andthen (vword (rsdp_desc + 16) (avm a)) (\<lambda>rsdt_address.
           if revision = 0 then on_ok (acpi_parse_rsdt rsdt_address a) (\<lambda>a. Ok (OS_NO_ERR, a\<lparr>rsdt_parse_success := 1\<rparr>))
           else if revision = 2
           then andthen (sum_bytes (unat sizeof_rsdp_descriptor_2) rsdp_desc (avm a)) (\<lambda>sum.
                if sum \<noteq> 0 then Ok (OS_ERR_CHECKSUM_FAILED, a)
                else andthen (vquad (rsdp_desc + 24) (avm a)) (\<lambda>xsdt_addr.
                     if xsdt_addr \<noteq> 0
                     then on_ok (acpi_parse_xsdt (ucast xsdt_addr) a) (\<lambda>a. Ok (OS_NO_ERR, a\<lparr>xsdt_parse_success := 1, has_xsdt := 1\<rparr>))
                     else on_ok (acpi_parse_rsdt rsdt_address a) (\<lambda>a. Ok (OS_NO_ERR, a\<lparr>rsdt_parse_success := 1\<rparr>))))
           else Ok (OS_ERR_ACPI_UNSUPPORTED, a))))))"

section \<open>Initialisation\<close>

definition acpi_reset :: "acpi \<Rightarrow> acpi" where
  "acpi_reset a =
     a\<lparr>rsdp := NULL, rsdt := NULL, xsdt := NULL, fadt := NULL, facs := NULL, dsdt := NULL, madt := NULL,
       has_xsdt := 0, rsdp_parse_success := 0, xsdt_parse_success := 0, rsdt_parse_success := 0, fadt_parse_success := 0,
       facs_parse_success := 0, dsdt_parse_success := 0, madt_parse_success := 0,
       cpu_lapic := replicate 4 NULL, cpu_ids := replicate 4 0, io_apic_tables := replicate 1 NULL,
       cpu_count := 0, io_apic_count := 0\<rparr>"

definition search_pass :: "ptr \<times> acpi \<Rightarrow> (bool \<times> ptr \<times> acpi) outcome" where
  "search_pass = (\<lambda>(p, a).
     if p < 0xFFFFF
     then andthen (vquad p (avm a)) (\<lambda>signature.
          if signature = ACPI_RSDP_SIG
          then andthen (acpi_parse_rsdp p a) (\<lambda>(err, a).
               if err = OS_NO_ERR then Ok (False, p, a\<lparr>rsdp := p, rsdp_parse_success := 1\<rparr>) else Ok (True, p + 8, a))
          else Ok (True, p + 8, a))
     else Ok (False, p, a))"

definition acpi_init_end :: "acpi \<Rightarrow> (OS_RETURN_E \<times> acpi) outcome" where
  "acpi_init_end a = andthen (kernel_munmap 0xE0000 0x20000 (avm a)) (\<lambda>(err, s).
     let a = a\<lparr>avm := s\<rparr> in if err \<noteq> OS_NO_ERR then Ok (err, a) else Ok (err, a\<lparr>acpi_initialized := 1\<rparr>))"

definition acpi_init :: "acpi \<Rightarrow> (OS_RETURN_E \<times> acpi) outcome" where
  "acpi_init a =
     (let a = acpi_reset a
      in andthen (kernel_mmap_hw 0xE0000 0xE0000 0x20000 1 0 (avm a)) (\<lambda>(err, s).
         let a = a\<lparr>avm := s\<rparr>
         in if err \<noteq> OS_NO_ERR then Ok (err, a)
            else andthen (while_do search_pass (0xE0000, a)) (\<lambda>(_, a). acpi_init_end a)))"

section \<open>Queries\<close>

text \<open>An \<^verbatim>\<open>int32_t\<close> result is its word.\<close>

definition acpi_get_io_apic_available :: "acpi \<Rightarrow> u32" where
  "acpi_get_io_apic_available a = (if acpi_initialized a \<noteq> 1 then - 1 else if io_apic_count a > 0 then 1 else 0)"

definition acpi_get_lapic_available :: "acpi \<Rightarrow> u32" where
  "acpi_get_lapic_available a = (if acpi_initialized a \<noteq> 1 then - 1 else if cpu_count a > 0 then 1 else 0)"

definition remap_pass :: "u32 \<Rightarrow> ptr \<Rightarrow> vm \<Rightarrow> ptr \<times> u32 option \<Rightarrow> (bool \<times> ptr \<times> u32 option) outcome" where
  "remap_pass irq_number lim s = (\<lambda>(base, r).
     if base < lim
     then andthen (entry_type base s) (\<lambda>type.
          andthen (if type = APIC_TYPE_INTERRUPT_OVERRIDE
                   then andthen (override_source base s) (\<lambda>source. Ok (ucast source = irq_number)) else Ok False) (\<lambda>hit.
          if hit then andthen (override_interrupt base s) (\<lambda>i. Ok (False, base, Some i))
          else andthen (entry_length base s) (\<lambda>l. Ok (True, base + ucast l, r))))
     else Ok (False, base, r))"

definition acpi_get_remmaped_irq :: "u32 \<Rightarrow> acpi \<Rightarrow> u32 outcome" where
  "acpi_get_remmaped_irq irq_number a =
     (if acpi_initialized a \<noteq> 1 then Ok (- 1)
      else if madt_parse_success a = 0 then Ok irq_number
      else andthen (header_length (madt a) (avm a)) (\<lambda>len.
           andthen (while_do (remap_pass irq_number (madt a + len) (avm a)) (madt a + sizeof_acpi_madt, None)) (\<lambda>(_, r).
           Ok (case r of None \<Rightarrow> irq_number | Some i \<Rightarrow> i))))"

definition acpi_get_io_apic_address :: "u32 \<Rightarrow> acpi \<Rightarrow> ptr outcome" where
  "acpi_get_io_apic_address io_apic_id a =
     (if acpi_initialized a \<noteq> 1 \<or> madt_parse_success a = 0 \<or> io_apic_id > io_apic_count a then Ok NULL
      else if unat io_apic_id < length (io_apic_tables a)
      then let p = io_apic_tables a ! unat io_apic_id in if p = NULL then Fault else io_apic_addr p (avm a)
      else Fault)"

definition acpi_get_lapic_addr :: "acpi \<Rightarrow> ptr outcome" where
  "acpi_get_lapic_addr a =
     (if acpi_initialized a \<noteq> 1 \<or> madt_parse_success a = 0 then Ok NULL else vword (madt a + 36) (avm a))"

primrec check_lapic_loop :: "u32 \<Rightarrow> ptr list \<Rightarrow> vm \<Rightarrow> OS_RETURN_E outcome" where
  "check_lapic_loop lapic_id [] s = Ok OS_ERR_NO_SUCH_LAPIC_ID"
| "check_lapic_loop lapic_id (p # ps) s =
     andthen (apic_id p s) (\<lambda>i. if ucast i = lapic_id then Ok OS_NO_ERR else check_lapic_loop lapic_id ps s)"

definition acpi_check_lapic_id :: "u32 \<Rightarrow> acpi \<Rightarrow> OS_RETURN_E outcome" where
  "acpi_check_lapic_id lapic_id a =
     (if acpi_initialized a \<noteq> 1 then Ok OS_ACPI_NOT_INITIALIZED
      else check_lapic_loop lapic_id (take (unat (cpu_count a)) (cpu_lapic a)) (avm a))"

definition acpi_get_detected_cpu_count :: "acpi \<Rightarrow> u32" where
  "acpi_get_detected_cpu_count a = (if cpu_count a = 0 then - 1 else cpu_count a)"

definition acpi_get_cpu_ids :: "acpi \<Rightarrow> u32 list" where
  "acpi_get_cpu_ids a = cpu_ids a"

definition acpi_get_cpu_lapics :: "acpi \<Rightarrow> ptr list" where
  "acpi_get_cpu_lapics a = cpu_lapic a"

section \<open>The tables of processors and IO-APICs stay in bounds\<close>

definition acpi_ok :: "acpi \<Rightarrow> bool" where
  "acpi_ok a \<longleftrightarrow> length (cpu_lapic a) = 4 \<and> length (cpu_ids a) = 4 \<and> length (io_apic_tables a) = 1 \<and>
     cpu_count a \<le> 4 \<and> io_apic_count a \<le> 1"

definition keeps_ok :: "(OS_RETURN_E \<times> acpi) outcome \<Rightarrow> bool" where
  "keeps_ok r \<longleftrightarrow> (case r of Ok (_, a) \<Rightarrow> acpi_ok a | _ \<Rightarrow> True)"

lemma keeps_ok_simps [simp]:
  "keeps_ok (Ok (e, a)) \<longleftrightarrow> acpi_ok a" "keeps_ok Fault" "keeps_ok Diverged" "keeps_ok (Panic e)"
  by (simp_all add: keeps_ok_def)

lemma keeps_ok_andthen: "(\<And>x. r = Ok x \<Longrightarrow> keeps_ok (f x)) \<Longrightarrow> keeps_ok (andthen r f)"
  by (cases r) simp_all

lemma keeps_ok_pair: "keeps_ok r \<Longrightarrow> (\<And>e a. acpi_ok a \<Longrightarrow> keeps_ok (f (e, a))) \<Longrightarrow> keeps_ok (andthen r f)"
  by (cases r) auto

lemma keeps_ok_on_ok: "keeps_ok r \<Longrightarrow> (\<And>a. acpi_ok a \<Longrightarrow> keeps_ok (f a)) \<Longrightarrow> keeps_ok (on_ok r f)"
  by (cases r) (auto simp: on_ok_def)

lemma acpi_ok_upd [simp]:
  "acpi_ok (a\<lparr>avm := v\<rparr>) = acpi_ok a" "acpi_ok (a\<lparr>rsdp := p\<rparr>) = acpi_ok a"
  "acpi_ok (a\<lparr>rsdp_parse_success := b\<rparr>) = acpi_ok a" "acpi_ok (a\<lparr>has_xsdt := b\<rparr>) = acpi_ok a"
  "acpi_ok (a\<lparr>rsdt_parse_success := b\<rparr>) = acpi_ok a" "acpi_ok (a\<lparr>xsdt_parse_success := b\<rparr>) = acpi_ok a"
  "acpi_ok (a\<lparr>fadt_parse_success := b\<rparr>) = acpi_ok a" "acpi_ok (a\<lparr>fadt := p\<rparr>) = acpi_ok a"
  "acpi_ok (a\<lparr>facs_parse_success := b\<rparr>) = acpi_ok a" "acpi_ok (a\<lparr>facs := p\<rparr>) = acpi_ok a"
  "acpi_ok (a\<lparr>dsdt_parse_success := b\<rparr>) = acpi_ok a" "acpi_ok (a\<lparr>dsdt := p\<rparr>) = acpi_ok a"
  "acpi_ok (a\<lparr>madt_parse_success := b\<rparr>) = acpi_ok a" "acpi_ok (a\<lparr>madt := p\<rparr>) = acpi_ok a"
  "acpi_ok (a\<lparr>acpi_initialized := b\<rparr>) = acpi_ok a"
  by (simp_all add: acpi_ok_def)

lemma acpi_map_data_ok: "acpi_ok a \<Longrightarrow> keeps_ok (acpi_map_data p n a)"
  by (auto simp: acpi_map_data_def Let_def intro!: keeps_ok_andthen)

lemma madt_entry_ok: "acpi_ok a \<Longrightarrow> madt_entry_step p a = Ok a' \<Longrightarrow> acpi_ok a'"
  by (auto simp: madt_entry_step_def acpi_ok_def acpi_consts andthen_eq_Ok inc_le split: if_splits)

lemma madt_loop_ok:
  assumes "acpi_ok a" "while_do (madt_pass lim) (p, a) = Ok (p', a')" shows "acpi_ok a'"
proof -
  have "acpi_ok (snd (p', a'))"
    by (rule while_do_keeps [OF assms(2), of "\<lambda>s. acpi_ok (snd s)"])
       (auto simp: madt_pass_def assms(1) andthen_eq_Ok elim: madt_entry_ok split: if_splits)
  then show ?thesis by simp
qed

lemma acpi_ok_counts: "acpi_ok a \<Longrightarrow> acpi_ok (a\<lparr>cpu_count := 0, io_apic_count := 0\<rparr>)"
  by (simp add: acpi_ok_def)

lemmas keeps_ok_steps = keeps_ok_on_ok keeps_ok_andthen acpi_map_data_ok

lemma acpi_parse_apic_ok: "acpi_ok a \<Longrightarrow> keeps_ok (acpi_parse_apic p a)"
  unfolding acpi_parse_apic_def
  by (auto intro!: keeps_ok_steps dest!: madt_loop_ok [rotated] simp: acpi_ok_counts)

lemma acpi_parse_facs_ok: "acpi_ok a \<Longrightarrow> keeps_ok (acpi_parse_facs p a)"
  unfolding acpi_parse_facs_def by (auto intro!: keeps_ok_steps)

lemma acpi_parse_dsdt_ok: "acpi_ok a \<Longrightarrow> keeps_ok (acpi_parse_dsdt p a)"
  unfolding acpi_parse_dsdt_def by (auto intro!: keeps_ok_steps)

lemma acpi_parse_fadt_ok: "acpi_ok a \<Longrightarrow> keeps_ok (acpi_parse_fadt p a)"
  unfolding acpi_parse_fadt_def by (auto simp: Let_def intro!: keeps_ok_steps acpi_parse_facs_ok acpi_parse_dsdt_ok)

lemma acpi_parse_dt_ok: "acpi_ok a \<Longrightarrow> keeps_ok (acpi_parse_dt p a)"
  unfolding acpi_parse_dt_def
  by (auto intro!: keeps_ok_on_ok acpi_map_data_ok keeps_ok_andthen [of "vword _ _"] keeps_ok_pair [of "acpi_parse_fadt _ _"]
      keeps_ok_pair [of "acpi_parse_apic _ _"] acpi_parse_fadt_ok acpi_parse_apic_ok)

lemma sdt_loop_ok:
  assumes "acpi_ok a" "while_do (sdt_pass step lim) (p, e, a) = Ok (p', e', a')" shows "acpi_ok a'"
proof -
  have "acpi_ok (snd (snd (p', e', a')))"
  proof (rule while_do_keeps [OF assms(2), of "\<lambda>s. acpi_ok (snd (snd s))"])
    fix s m s' assume b: "sdt_pass step lim s = Ok (m, s')" and ok: "acpi_ok (snd (snd s))"
    obtain q d b where s: "s = (q, d, b)" by (cases s)
    have "\<And>x. keeps_ok (acpi_parse_dt x b)" using ok s by (simp add: acpi_parse_dt_ok)
    then show "acpi_ok (snd (snd s'))" using b ok unfolding s
      by (auto simp: sdt_pass_def andthen_eq_Ok keeps_ok_def split: if_splits outcome.splits) (metis keeps_ok_def keeps_ok_simps(1))+
  qed (simp add: assms(1))
  then show ?thesis by simp
qed

lemma parse_sdt_ok: "acpi_ok a \<Longrightarrow> keeps_ok (parse_sdt step sig p a)"
  unfolding parse_sdt_def by (auto intro!: keeps_ok_steps dest!: sdt_loop_ok [rotated])

lemma acpi_parse_rsdp_ok: "acpi_ok a \<Longrightarrow> keeps_ok (acpi_parse_rsdp p a)"
  unfolding acpi_parse_rsdp_def
  by (auto simp: acpi_parse_rsdt_def acpi_parse_xsdt_def intro!: keeps_ok_steps parse_sdt_ok)

lemma acpi_reset_ok: "acpi_ok (acpi_reset a)"
  by (simp add: acpi_ok_def acpi_reset_def)

lemma search_loop_ok:
  assumes "acpi_ok a" "while_do search_pass (p, a) = Ok (p', a')" shows "acpi_ok a'"
proof -
  have "acpi_ok (snd (p', a'))"
  proof (rule while_do_keeps [OF assms(2), of "\<lambda>s. acpi_ok (snd s)"])
    fix s m s' assume b: "search_pass s = Ok (m, s')" and ok: "acpi_ok (snd s)"
    obtain q b where s: "s = (q, b)" by (cases s)
    have "\<And>x. keeps_ok (acpi_parse_rsdp x b)" using ok s by (simp add: acpi_parse_rsdp_ok)
    then show "acpi_ok (snd s')" using b ok unfolding s
      by (auto simp: search_pass_def andthen_eq_Ok split: if_splits) (metis keeps_ok_simps(1))+
  qed (simp add: assms(1))
  then show ?thesis by simp
qed

text \<open>C32. However the firmware tables look, the initialisation records at most four processors and one IO-APIC, and writes its tables inside their bounds.\<close>

theorem acpi_init_in_bounds: "keeps_ok (acpi_init a)"
  unfolding acpi_init_def acpi_init_end_def Let_def
  by (auto simp: acpi_reset_ok intro!: keeps_ok_andthen dest!: search_loop_ok [rotated])

section \<open>The entries of a MADT\<close>

definition byte_at :: "ptr \<Rightarrow> vm \<Rightarrow> u8" where
  "byte_at p s = (case vbyte p s of Ok b \<Rightarrow> b | _ \<Rightarrow> 0)"

definition word_at :: "ptr \<Rightarrow> vm \<Rightarrow> u32" where
  "word_at p s = (case vword p s of Ok b \<Rightarrow> b | _ \<Rightarrow> 0)"

definition readable :: "vm \<Rightarrow> ptr \<Rightarrow> bool" where
  "readable s p \<longleftrightarrow> (case vbyte p s of Ok b \<Rightarrow> True | _ \<Rightarrow> False)"

lemma readable_byte: "readable s p \<Longrightarrow> vbyte p s = Ok (byte_at p s)"
  by (auto simp: readable_def byte_at_def split: outcome.splits)

lemma vbyte_readable: "vbyte p s = Ok b \<longleftrightarrow> readable s p \<and> b = byte_at p s"
  by (auto simp: readable_def byte_at_def split: outcome.splits)

lemma vword_readable:
  "readable s p \<Longrightarrow> readable s (p + 1) \<Longrightarrow> readable s (p + 2) \<Longrightarrow> readable s (p + 3) \<Longrightarrow> vword p s = Ok (word_at p s)"
  by (simp add: word_at_def vword_def readable_byte)

text \<open>The entries that follow one another from \<open>p\<close> up to \<open>lim\<close>, by their own lengths; the first eight bytes of each
  can be read.\<close>

primrec tiled :: "vm \<Rightarrow> ptr \<Rightarrow> ptr \<Rightarrow> ptr list \<Rightarrow> bool" where
  "tiled s p lim [] \<longleftrightarrow> \<not> p < lim"
| "tiled s p lim (e # es) \<longleftrightarrow> e = p \<and> p < lim \<and> list_all (\<lambda>i. readable s (p + of_nat i)) [0..<8] \<and>
     tiled s (p + ucast (byte_at (p + 1) s)) lim es"

lemma tiled_fields:
  assumes "list_all (\<lambda>i. readable s (p + of_nat i)) [0..<8]"
  shows "vbyte p s = Ok (byte_at p s)" "vbyte (p + 1) s = Ok (byte_at (p + 1) s)" "vbyte (p + 2) s = Ok (byte_at (p + 2) s)"
    "vbyte (p + 3) s = Ok (byte_at (p + 3) s)" "vword (p + 4) s = Ok (word_at (p + 4) s)"
proof -
  have r: "readable s (p + of_nat i)" if "i < 8" for i using assms that by (simp add: list_all_iff)
  have r0: "readable s (p + of_nat 0)" "readable s (p + of_nat 1)" "readable s (p + of_nat 2)" "readable s (p + of_nat 3)"
    "readable s (p + of_nat 4)" "readable s (p + of_nat 5)" "readable s (p + of_nat 6)" "readable s (p + of_nat 7)"
    by (rule r, simp)+
  then show "vbyte p s = Ok (byte_at p s)" "vbyte (p + 1) s = Ok (byte_at (p + 1) s)" "vbyte (p + 2) s = Ok (byte_at (p + 2) s)"
    "vbyte (p + 3) s = Ok (byte_at (p + 3) s)" by (simp_all add: readable_byte)
  from r0 show "vword (p + 4) s = Ok (word_at (p + 4) s)" by (intro vword_readable) (simp_all add: add.assoc)
qed

definition overrides :: "vm \<Rightarrow> u32 \<Rightarrow> ptr \<Rightarrow> bool" where
  "overrides s irq e \<longleftrightarrow> byte_at e s = 2 \<and> ucast (byte_at (e + 3) s) = irq"

lemma remap_walk:
  assumes "tiled s p lim es"
  shows "\<exists>q. while_do (remap_pass irq lim s) (p, None) =
    Ok (q, map_option (\<lambda>e. word_at (e + 4) s) (find (overrides s irq) es))"
  using assms
proof (induction es arbitrary: p)
  case Nil
  then show ?case by (subst while_do_unfold) (simp add: remap_pass_def)
next
  case (Cons e es)
  then have e: "e = p" "p < lim" and t: "tiled s (p + ucast (byte_at (p + 1) s)) lim es"
    and f: "list_all (\<lambda>i. readable s (p + of_nat i)) [0..<8]" by auto
  note fs = tiled_fields [OF f]
  have "remap_pass irq lim s (p, None) =
      Ok (if overrides s irq p then (False, p, Some (word_at (p + 4) s)) else (True, p + ucast (byte_at (p + 1) s), None))"
    using e(2) fs
    by (simp add: remap_pass_def overrides_def entry_type_def override_source_def override_interrupt_def entry_length_def acpi_consts)
  then show ?case using Cons.IH [OF t] e(1) by (subst while_do_unfold) simp
qed

text \<open>On a MADT whose entries follow one another up to its length, an interrupt line is remapped by the first override entry for it, and to itself when there is none; the walk ends.\<close>

theorem acpi_remap_first_override:
  assumes "acpi_initialized a = 1" "madt_parse_success a \<noteq> 0" "header_length (madt a) (avm a) = Ok len"
    and "tiled (avm a) (madt a + 44) (madt a + len) es"
  shows "acpi_get_remmaped_irq irq a =
    Ok (case find (overrides (avm a) irq) es of None \<Rightarrow> irq | Some e \<Rightarrow> word_at (e + 4) (avm a))"
proof -
  from remap_walk [OF assms(4), of irq] obtain q where
    "while_do (remap_pass irq (madt a + len) (avm a)) (madt a + 44, None) =
      Ok (q, map_option (\<lambda>e. word_at (e + 4) (avm a)) (find (overrides (avm a) irq) es))" by (elim exE)
  with assms(1-3) show ?thesis
    by (simp add: acpi_get_remmaped_irq_def sizeof_acpi_madt_def split: option.splits)
qed

text \<open>What the walk of the MADT does for each entry.\<close>

definition add_entry :: "ptr \<Rightarrow> acpi \<Rightarrow> acpi" where
  "add_entry e a =
     (if byte_at e (avm a) = 0
      then if cpu_count a < 4
           then a\<lparr>cpu_lapic := (cpu_lapic a)[unat (cpu_count a) := e],
                  cpu_ids := (cpu_ids a)[unat (cpu_count a) := ucast (byte_at (e + 2) (avm a))], cpu_count := cpu_count a + 1\<rparr>
           else a
      else if byte_at e (avm a) = 1
      then if io_apic_count a < 1
           then a\<lparr>io_apic_tables := (io_apic_tables a)[unat (io_apic_count a) := e], io_apic_count := io_apic_count a + 1\<rparr>
           else a
      else a)"

lemma add_entry_avm [simp]: "avm (add_entry e a) = avm a" by (simp add: add_entry_def)

lemma madt_walk:
  assumes "tiled (avm a) p lim es"
  shows "\<exists>q. while_do (madt_pass lim) (p, a) = Ok (q, fold add_entry es a)"
  using assms
proof (induction es arbitrary: p a)
  case Nil
  then show ?case by (subst while_do_unfold) (simp add: madt_pass_def)
next
  case (Cons e es)
  then have e: "e = p" "p < lim" and t: "tiled (avm a) (p + ucast (byte_at (p + 1) (avm a))) lim es"
    and f: "list_all (\<lambda>i. readable (avm a) (p + of_nat i)) [0..<8]" by auto
  note fs = tiled_fields [OF f]
  have "madt_entry_step p a = Ok (add_entry p a)"
    using fs by (simp add: madt_entry_step_def add_entry_def entry_type_def acpi_cpu_id_def io_apic_id_field_def acpi_consts)
  then have "madt_pass lim (p, a) = Ok (True, p + ucast (byte_at (p + 1) (avm a)), add_entry p a)"
    using e(2) fs by (simp add: madt_pass_def entry_length_def)
  then show ?case using Cons.IH [of "add_entry p a"] t e(1) by (subst while_do_unfold) simp
qed

text \<open>The table holds the first entries of a list, in order.\<close>

definition first_of :: "nat \<Rightarrow> ptr list \<Rightarrow> u32 \<Rightarrow> ptr list \<Rightarrow> bool" where
  "first_of n es c tab \<longleftrightarrow> length tab = n \<and> unat c = min n (length es) \<and> take (unat c) tab = take n es"

lemma first_of_add:
  assumes "first_of n es c tab" "n < 2 ^ 32"
  shows "unat c < n \<Longrightarrow> first_of n (es @ [e]) (c + 1) (tab[unat c := e])" "\<not> unat c < n \<Longrightarrow> first_of n (es @ [e]) c tab"
proof -
  show "first_of n (es @ [e]) (c + 1) (tab[unat c := e])" if "unat c < n"
  proof -
    have "unat (c + 1) = Suc (unat c)" using that assms(2) by (simp add: unat_word_ariths)
    moreover have "unat c = length es" using that assms(1) by (simp add: first_of_def)
    ultimately show ?thesis using that assms(1)
      by (simp add: first_of_def take_Suc_conv_app_nth)
  qed
  show "first_of n (es @ [e]) c tab" if "\<not> unat c < n" using that assms(1) by (auto simp: first_of_def)
qed

definition madt_recorded :: "ptr list \<Rightarrow> acpi \<Rightarrow> bool" where
  "madt_recorded es a \<longleftrightarrow>
     (let cpus = filter (\<lambda>e. byte_at e (avm a) = 0) es
      in first_of 4 cpus (cpu_count a) (cpu_lapic a) \<and>
         first_of 4 (map (\<lambda>e. ucast (byte_at (e + 2) (avm a))) cpus) (cpu_count a) (cpu_ids a) \<and>
         first_of 1 (filter (\<lambda>e. byte_at e (avm a) = 1) es) (io_apic_count a) (io_apic_tables a))"

lemma madt_recorded_add:
  assumes "madt_recorded es a" shows "madt_recorded (es @ [e]) (add_entry e a)"
  using assms first_of_add [of 4 _ "cpu_count a"] first_of_add [of 1 _ "io_apic_count a"]
  by (simp add: madt_recorded_def add_entry_def Let_def word_less_nat_alt)

lemma madt_recorded_fold: "madt_recorded xs a \<Longrightarrow> madt_recorded (xs @ es) (fold add_entry es a)"
proof (induction es arbitrary: xs a)
  case (Cons e es)
  from Cons.IH [OF madt_recorded_add [OF Cons.prems]] show ?case by simp
qed simp

theorem acpi_madt_records_cpus:
  assumes "tiled (avm a) p lim es" "acpi_ok a"
  shows "\<exists>q a'. while_do (madt_pass lim) (p, a\<lparr>cpu_count := 0, io_apic_count := 0\<rparr>) = Ok (q, a') \<and> madt_recorded es a' \<and> avm a' = avm a"
proof -
  let ?a = "a\<lparr>cpu_count := 0, io_apic_count := 0\<rparr>"
  have "madt_recorded [] ?a" using assms(2) by (simp add: madt_recorded_def first_of_def acpi_ok_def)
  from madt_recorded_fold [OF this, of es] have "madt_recorded es (fold add_entry es ?a)" by simp
  moreover have "avm (fold add_entry es b) = avm b" for b by (induction es arbitrary: b) simp_all
  moreover have "tiled (avm ?a) p lim es" using assms(1) by simp
  ultimately show ?thesis using madt_walk [of ?a p lim es] by fastforce
qed

section \<open>Tables on which the walk does not end\<close>

text \<open>An entry of length zero.\<close>

theorem acpi_zero_length_entry:
  assumes "acpi_initialized a = 1" "madt_parse_success a \<noteq> 0" "header_length (madt a) (avm a) = Ok len"
    and "e = madt a + 44" "e < madt a + len" "list_all (\<lambda>i. readable (avm a) (e + of_nat i)) [0..<8]"
    and "byte_at (e + 1) (avm a) = 0" "\<not> overrides (avm a) irq e"
  shows "acpi_get_remmaped_irq irq a = Diverged"
proof -
  note fs = tiled_fields [OF assms(6)]
  have "remap_pass irq (madt a + len) (avm a) (e, None) = Ok (True, e, None)"
    using assms(5,7,8) fs
    by (simp add: remap_pass_def overrides_def entry_type_def override_source_def entry_length_def acpi_consts)
  then have "while_do (remap_pass irq (madt a + len) (avm a)) (e, None) = Diverged"
    by (intro while_do_diverges [of "\<lambda>s. s = (e, None)"]) auto
  then show ?thesis using assms(1-4) by (simp add: acpi_get_remmaped_irq_def sizeof_acpi_madt_def)
qed

text \<open>The checksum of a root table of 256 bytes or more: its counter has eight bits.\<close>

theorem acpi_long_root_table_diverges:
  assumes "256 \<le> len" "list_all (\<lambda>i. readable s (p + of_nat i)) [0..<256]"
  shows "sum_bytes_8 len p s = Diverged"
proof -
  have "\<exists>t. sum_pass len p s x = Ok (True, t) \<and> True" for x
  proof -
    obtain i sum where x: "x = (i, sum)" by (cases x)
    have b: "unat i < 256" using unsigned_less [of i] by simp
    then have "ucast i < len" using assms(1) by (simp add: word_less_nat_alt word_le_nat_alt unsigned_ucast_eq take_bit_nat_eq_self)
    moreover have "readable s (p + of_nat (unat i))" using assms(2) b by (simp add: list_all_iff del: of_nat_unat)
    then have "readable s (p + ucast i)" by simp
    ultimately show ?thesis using x by (simp add: sum_pass_def readable_byte)
  qed
  then have "while_do (sum_pass len p s) (0, 0) = Diverged" by (intro while_do_diverges [of "\<lambda>_. True"]) auto
  then show ?thesis by (simp add: sum_bytes_8_def)
qed

text \<open>Below 256 bytes the counter is wide enough, and the two checksums agree.\<close>

lemma sum_loop_short:
  assumes "k \<le> unat len" "len < 256"
  shows "andthen (sum_bytes k p s) (\<lambda>sum. andthen (while_do (sum_pass len p s) (of_nat k, sum)) (\<lambda>(_, sum). Ok sum)) =
    sum_bytes (unat len) p s"
  using assms(1)
proof (induction k rule: inc_induct)
  case base
  have "unat len < 256" using assms(2) by (simp add: word_less_nat_alt)
  then have "\<not> (ucast (of_nat (unat len) :: u8) :: u32) < len"
    by (simp add: word_less_nat_alt unsigned_ucast_eq unat_of_nat take_bit_nat_eq_self del: of_nat_unat)
  then show ?case by (subst while_do_unfold) (cases "sum_bytes (unat len) p s"; simp add: sum_pass_def)
next
  case (step k)
  have k: "k < 256" using step(1,2) assms(2) by (simp add: word_less_nat_alt)
  have c: "(ucast (of_nat k :: u8) :: u32) = of_nat k"
    using k by (simp add: word_unat_eq_iff unsigned_ucast_eq unat_of_nat take_bit_nat_eq_self)
  have "(of_nat k :: u32) < len" using k step(2) by (simp add: word_less_nat_alt unat_of_nat)
  then have "while_do (sum_pass len p s) (of_nat k, acc) =
      andthen (vbyte (p + of_nat k) s) (\<lambda>b. while_do (sum_pass len p s) (of_nat (Suc k), acc + b))" for acc
    by (subst while_do_unfold) (cases "vbyte (p + of_nat k) s"; simp add: sum_pass_def c add.commute [of "of_nat k"])
  note loop = this
  show ?case unfolding step(3) [symmetric] loop sum_bytes.simps
    by (cases "sum_bytes k p s"; cases "vbyte (p + of_nat k) s") simp_all
qed

lemma sum_bytes_8_short: "len < 256 \<Longrightarrow> sum_bytes_8 len p s = sum_bytes (unat len) p s"
  using sum_loop_short [of 0 len p s] by (simp add: sum_bytes_8_def)

section \<open>Results of the initialisation\<close>

text \<open>Once the search range is mapped the initialisation reports success, whether a descriptor was found or not.\<close>

lemma kernel_munmap_result: "kernel_munmap v n s = Ok (e, s') \<Longrightarrow> e = OS_NO_ERR"
  by (cases "pg_enter s"; cases "page_bounds v n") (auto simp: kernel_munmap_def andthen_eq_Ok)

lemma acpi_init_end_success: "acpi_init_end a = Ok (e, a') \<Longrightarrow> e = OS_NO_ERR \<and> acpi_initialized a' = 1"
  by (cases "kernel_munmap 0xE0000 0x20000 (avm a)") (auto simp: acpi_init_end_def Let_def dest: kernel_munmap_result split: if_splits)

lemma acpi_init_reports_success:
  assumes "acpi_init a = Ok (e, a')"
  shows "(e = OS_NO_ERR \<and> acpi_initialized a' = 1) \<or>
    (\<exists>s. kernel_mmap_hw 0xE0000 0xE0000 0x20000 1 0 (avm a) = Ok (e, s) \<and> e \<noteq> OS_NO_ERR)"
proof -
  have v: "avm (acpi_reset a) = avm a" by (simp add: acpi_reset_def)
  from assms obtain err s where m: "kernel_mmap_hw 0xE0000 0xE0000 0x20000 1 0 (avm a) = Ok (err, s)"
    unfolding acpi_init_def Let_def v andthen_eq_Ok by (auto simp only: split_paired_Ex)
  show ?thesis
  proof (cases "err = OS_NO_ERR")
    case True
    have "acpi_init a = andthen (while_do search_pass (0xE0000, acpi_reset a\<lparr>avm := s\<rparr>)) (\<lambda>(_, a). acpi_init_end a)"
      using True unfolding acpi_init_def Let_def v m by simp
    with assms show ?thesis
      by (cases "while_do search_pass (0xE0000, acpi_reset a\<lparr>avm := s\<rparr>)") (auto dest: acpi_init_end_success)
  next
    case False
    with assms show ?thesis unfolding acpi_init_def Let_def v m by simp
  qed
qed

text \<open>The identifier that equals the number of IO-APICs is not refused.\<close>

theorem acpi_io_apic_address_off_by_one:
  assumes "acpi_ok a" "acpi_initialized a = 1" "madt_parse_success a \<noteq> 0" "io_apic_count a = 1"
  shows "acpi_get_io_apic_address 1 a = Fault"
  using assms by (simp add: acpi_get_io_apic_address_def acpi_ok_def)

section \<open>An example table\<close>

text \<open>A MADT of 84 bytes at \<^verbatim>\<open>0x1000\<close>, read without paging: a processor, an IO-APIC, and the overrides of the lines 0 and 9.\<close>

definition ex_madt :: "u32 \<Rightarrow> u32" where
  "ex_madt = (\<lambda>_. 0)(0x1000 := 0x43495041, 0x1004 := 84, 0x102C := 0x07010800, 0x1034 := 0x00000C01, 0x1038 := 0xFEC00000,
     0x1040 := 0x00000A02, 0x1044 := 2, 0x1048 := 0x0A020000, 0x104C := 0x00090900, 0x1050 := 0)"

definition ex_acpi :: acpi where
  "ex_acpi =
     \<lparr>cpu_count = 0, cpu_ids = replicate 4 0, cpu_lapic = replicate 4 0, io_apic_count = 0, io_apic_tables = [0], rsdp_parse_success = 1,
      rsdp = 0xE0000, has_xsdt = 0, rsdt_parse_success = 1, rsdt = 0, xsdt_parse_success = 0, xsdt = 0, fadt_parse_success = 1,
      fadt = 0, facs_parse_success = 1, facs = 0, dsdt_parse_success = 1, dsdt = 0, madt_parse_success = 1, madt = 0x1000,
      acpi_initialized = 1, avm = ex_vm\<lparr>cr0 := 0, phys := ex_madt\<rparr>\<rparr>"

lemma ex_madt_tiled: "tiled (avm ex_acpi) (madt ex_acpi + 44) (madt ex_acpi + 84) [0x102C, 0x1034, 0x1040, 0x104A]"
  by code_simp

lemma ex_madt_length: "header_length (madt ex_acpi) (avm ex_acpi) = Ok 84" by code_simp

theorem acpi_remap_first_override_witness: "acpi_get_remmaped_irq 0 ex_acpi = Ok 2"
proof -
  have "acpi_get_remmaped_irq 0 ex_acpi = Ok (case find (overrides (avm ex_acpi) 0) [0x102C, 0x1034, 0x1040, 0x104A] of
      None \<Rightarrow> 0 | Some e \<Rightarrow> word_at (e + 4) (avm ex_acpi))"
    by (rule acpi_remap_first_override [OF _ _ ex_madt_length ex_madt_tiled]) (simp_all add: ex_acpi_def)
  also have "\<dots> = Ok 2" by code_simp
  finally show ?thesis .
qed

theorem acpi_madt_records_cpus_witness:
  "\<exists>q a'. while_do (madt_pass 0x1054) (0x102C, ex_acpi\<lparr>cpu_count := 0, io_apic_count := 0\<rparr>) = Ok (q, a') \<and>
    madt_recorded [0x102C, 0x1034, 0x1040, 0x104A] a' \<and> avm a' = avm ex_acpi"
proof -
  have "tiled (avm ex_acpi) 0x102C 0x1054 [0x102C, 0x1034, 0x1040, 0x104A]" by code_simp
  moreover have "acpi_ok ex_acpi" by (simp add: acpi_ok_def ex_acpi_def)
  ultimately show ?thesis by (rule acpi_madt_records_cpus)
qed

lemma readable_unpaged: "\<not> bit (cr0 s) 31 \<Longrightarrow> readable s p"
  by (simp add: readable_def vbyte_def)

theorem acpi_long_root_table_diverges_witness: "sum_bytes_8 300 0x1000 (avm ex_acpi) = Diverged"
  by (rule acpi_long_root_table_diverges) (simp_all add: list_all_iff readable_unpaged ex_acpi_def)

theorem acpi_zero_length_entry_witness:
  "acpi_get_remmaped_irq 0 (ex_acpi\<lparr>avm := (avm ex_acpi)\<lparr>phys := ex_madt(0x102C := 0)\<rparr>\<rparr>) = Diverged"
  by (rule acpi_zero_length_entry [of _ 84 "0x102C"]) (code_simp+)

end
