(* ===== verification/Apic.thy ===== *)
theory Apic
  imports Acpi Pit
begin

unbundle bit_operations_syntax

text \<open>
  The IO-APIC (\<^verbatim>\<open>Sources/arch/x86/io_apic.c\<close>) and the local APIC with its timer (\<^verbatim>\<open>Sources/arch/x86/lapic.c\<close>), which
  are reached by memory-mapped registers (\<^verbatim>\<open>Includes/io/mmio.h\<close>) through the page tables, with the ACPI tables of theory \<open>Acpi\<close>
  and the PIT of theory \<open>Pit\<close>. As for ports, what a register reads is a function of the accesses so far, a parameter of the
  model carried in the state. The addresses of the handlers are arguments. A division by zero is a \<open>Fault\<close>.
\<close>

section \<open>Memory-mapped registers\<close>

datatype mmio_event = MWrite u32 u32 | MRead u32

record apic =
  acpi_st :: acpi
  mmio_device :: "mmio_event list \<Rightarrow> u32 \<Rightarrow> u32"
  mmio_log :: "mmio_event list"
  io_apic_enabled :: u8
  io_apic_base_addr :: ptr
  max_redirect_count :: u32
  lapic_base_addr :: ptr
  wait_int :: u8
  global_lapic_freq :: u32
  init_lapic_timer_frequency :: u32

definition bus_addr :: "ptr \<Rightarrow> apic \<Rightarrow> (u32 \<times> bool) option" where
  "bus_addr v s = (if bit (cr0 (avm (acpi_st s))) 31 then translate v (avm (acpi_st s)) else Some (v, True))"

definition mapped_io_write_32 :: "ptr \<Rightarrow> u32 \<Rightarrow> apic \<Rightarrow> apic outcome" where
  "mapped_io_write_32 v x s =
     (case bus_addr v s of
        None \<Rightarrow> Fault
      | Some (a, w) \<Rightarrow> if bit (cr0 (avm (acpi_st s))) 16 \<and> \<not> w then Fault else Ok (s\<lparr>mmio_log := MWrite a x # mmio_log s\<rparr>))"

definition mapped_io_read_32 :: "ptr \<Rightarrow> apic \<Rightarrow> (u32 \<times> apic) outcome" where
  "mapped_io_read_32 v s =
     (case bus_addr v s of
        None \<Rightarrow> Fault
      | Some (a, _) \<Rightarrow> Ok (mmio_device s (mmio_log s) a, s\<lparr>mmio_log := MRead a # mmio_log s\<rparr>))"

definition set_vm :: "vm \<Rightarrow> apic \<Rightarrow> apic" where "set_vm v s = s\<lparr>acpi_st := (acpi_st s)\<lparr>avm := v\<rparr>\<rparr>"

definition ap_enter :: "apic \<Rightarrow> u32 \<times> apic" where
  "ap_enter s = (let (x, v) = pg_enter (avm (acpi_st s)) in (x, set_vm v s))"

definition ap_exit :: "u32 \<Rightarrow> apic \<Rightarrow> apic" where
  "ap_exit x s = set_vm (pg_exit x (avm (acpi_st s))) s"

definition on_ints :: "(int_state \<Rightarrow> (OS_RETURN_E \<times> int_state) outcome) \<Rightarrow> apic \<Rightarrow> (OS_RETURN_E \<times> apic) outcome" where
  "on_ints f s =
     andthen (f (pg_ints (avm (acpi_st s)))) (\<lambda>(err, i). Ok (err, set_vm ((avm (acpi_st s))\<lparr>pg_ints := i\<rparr>) s))"

text \<open>The test that every entry point makes; \<^verbatim>\<open>-1\<close>, which says that the ACPI was not initialised, passes it.\<close>

definition apic_missing :: "apic \<Rightarrow> bool" where
  "apic_missing s \<longleftrightarrow> acpi_get_io_apic_available (acpi_st s) = 0 \<or> acpi_get_lapic_available (acpi_st s) = 0"

section \<open>The local APIC\<close>

definition LAPIC_ID :: u32 where "LAPIC_ID = 0x20"
definition LAPIC_TPR :: u32 where "LAPIC_TPR = 0x80"
definition LAPIC_EOI :: u32 where "LAPIC_EOI = 0xB0"
definition LAPIC_LDR :: u32 where "LAPIC_LDR = 0xD0"
definition LAPIC_DFR :: u32 where "LAPIC_DFR = 0xE0"
definition LAPIC_SVR :: u32 where "LAPIC_SVR = 0xF0"
definition LAPIC_ICRLO :: u32 where "LAPIC_ICRLO = 0x300"
definition LAPIC_ICRHI :: u32 where "LAPIC_ICRHI = 0x310"
definition LAPIC_TIMER :: u32 where "LAPIC_TIMER = 0x320"
definition LAPIC_TICR :: u32 where "LAPIC_TICR = 0x380"
definition LAPIC_TCCR :: u32 where "LAPIC_TCCR = 0x390"
definition LAPIC_TDCR :: u32 where "LAPIC_TDCR = 0x3E0"
definition ICR_INIT :: u32 where "ICR_INIT = 0x500"
definition ICR_STARTUP :: u32 where "ICR_STARTUP = 0x600"
definition ICR_PHYSICAL :: u32 where "ICR_PHYSICAL = 0"
definition ICR_SEND_PENDING :: u32 where "ICR_SEND_PENDING = 0x1000"
definition ICR_ASSERT :: u32 where "ICR_ASSERT = 0x4000"
definition ICR_EDGE :: u32 where "ICR_EDGE = 0"
definition ICR_NO_SHORTHAND :: u32 where "ICR_NO_SHORTHAND = 0"
definition ICR_DESTINATION_SHIFT :: nat where "ICR_DESTINATION_SHIFT = 24"
definition LAPIC_TIMER_MODE_PERIODIC :: u32 where "LAPIC_TIMER_MODE_PERIODIC = 0x20000"
definition LAPIC_DIVIDER_16 :: u32 where "LAPIC_DIVIDER_16 = 3"
definition LAPIC_INIT_FREQ :: u32 where "LAPIC_INIT_FREQ = 100"
definition LAPIC_LVT_INT_MASKED :: u32 where "LAPIC_LVT_INT_MASKED = 0x10000"
definition LAPIC_TIMER_INTERRUPT_LINE :: u32 where "LAPIC_TIMER_INTERRUPT_LINE = 0x20"
definition LAPIC_SPURIOUS_INT_LINE :: u32 where "LAPIC_SPURIOUS_INT_LINE = MAX_INTERRUPT_LINE"

lemmas lapic_consts = LAPIC_ID_def LAPIC_TPR_def LAPIC_EOI_def LAPIC_LDR_def LAPIC_DFR_def LAPIC_SVR_def LAPIC_ICRLO_def
  LAPIC_ICRHI_def LAPIC_TIMER_def LAPIC_TICR_def LAPIC_TCCR_def LAPIC_TDCR_def ICR_INIT_def ICR_STARTUP_def ICR_PHYSICAL_def
  ICR_SEND_PENDING_def ICR_ASSERT_def ICR_EDGE_def ICR_NO_SHORTHAND_def ICR_DESTINATION_SHIFT_def LAPIC_TIMER_MODE_PERIODIC_def
  LAPIC_DIVIDER_16_def LAPIC_INIT_FREQ_def LAPIC_LVT_INT_MASKED_def LAPIC_TIMER_INTERRUPT_LINE_def LAPIC_SPURIOUS_INT_LINE_def

definition lapic_read :: "u32 \<Rightarrow> apic \<Rightarrow> (u32 \<times> apic) outcome" where
  "lapic_read reg s = mapped_io_read_32 (lapic_base_addr s + reg) s"

definition lapic_write :: "u32 \<Rightarrow> u32 \<Rightarrow> apic \<Rightarrow> apic outcome" where
  "lapic_write reg x s = mapped_io_write_32 (lapic_base_addr s + reg) x s"

definition lapic_dummy_handler :: "apic \<Rightarrow> apic outcome" where
  "lapic_dummy_handler s = andthen (on_ints (kernel_interrupt_set_irq_eoi LAPIC_TIMER_INTERRUPT_LINE) s) (\<lambda>(_, s). Ok s)"

definition lapic_init_pit_handler :: "apic \<Rightarrow> apic outcome" where
  "lapic_init_pit_handler s =
     andthen
       (if wait_int s = 1 then lapic_write LAPIC_TICR 0xFFFFFFFF (s\<lparr>wait_int := wait_int s + 1\<rparr>)
        else if wait_int s = 2
        then andthen (lapic_write LAPIC_TIMER LAPIC_LVT_INT_MASKED s) (\<lambda>s. Ok (s\<lparr>wait_int := 0\<rparr>))
        else Ok s) (\<lambda>s.
     andthen (on_ints (kernel_interrupt_set_irq_eoi PIT_IRQ_LINE) s) (\<lambda>(_, s). Ok s))"

definition lapic_init :: "apic \<Rightarrow> (OS_RETURN_E \<times> apic) outcome" where
  "lapic_init s =
     (if apic_missing s then Ok (OS_ERR_NOT_SUPPORTED, s)
      else andthen (acpi_get_lapic_addr (acpi_st s)) (\<lambda>b.
           let s = s\<lparr>lapic_base_addr := b\<rparr>
           in andthen (kernel_mmap_hw b b 0x1000 0 0 (avm (acpi_st s))) (\<lambda>(err, v).
              let s = set_vm v s
              in if err \<noteq> OS_NO_ERR \<and> err \<noteq> OS_ERR_MAPPING_ALREADY_EXISTS then Ok (err, s)
                 else andthen (lapic_write LAPIC_TPR 0 s) (\<lambda>s.
                      andthen (lapic_write LAPIC_DFR 0xFFFFFFFF s) (\<lambda>s.
                      andthen (lapic_write LAPIC_LDR 0x01000000 s) (\<lambda>s.
                      andthen (lapic_write LAPIC_SVR (0x100 OR LAPIC_SPURIOUS_INT_LINE) s) (\<lambda>s. Ok (OS_NO_ERR, s))))))))"

definition lapic_get_id :: "apic \<Rightarrow> (u32 \<times> apic) outcome" where
  "lapic_get_id s =
     (if acpi_get_io_apic_available (acpi_st s) \<noteq> 1 \<or> acpi_get_lapic_available (acpi_st s) \<noteq> 1 then Ok (- 1, s)
      else andthen (lapic_read LAPIC_ID s) (\<lambda>(x, s). Ok (drop_bit 24 x, s)))"

definition pending_pass :: "apic \<Rightarrow> (bool \<times> apic) outcome" where
  "pending_pass s = andthen (lapic_read LAPIC_ICRLO s) (\<lambda>(x, s). Ok (x AND ICR_SEND_PENDING \<noteq> 0, s))"

text \<open>The body that the three interrupts between processors share; they differ in the command.\<close>

definition send_command :: "u32 \<Rightarrow> u32 \<Rightarrow> apic \<Rightarrow> (OS_RETURN_E \<times> apic) outcome" where
  "send_command lapic_id command s =
     (if apic_missing s then Ok (OS_ERR_NOT_SUPPORTED, s)
      else let (int_state, s) = ap_enter s
           in andthen (acpi_check_lapic_id lapic_id (acpi_st s)) (\<lambda>err.
              if err \<noteq> OS_NO_ERR then Ok (err, ap_exit int_state s)
              else andthen (lapic_write LAPIC_ICRHI (push_bit ICR_DESTINATION_SHIFT lapic_id) s) (\<lambda>s.
                   andthen (lapic_write LAPIC_ICRLO command s) (\<lambda>s.
                   andthen (while_do pending_pass s) (\<lambda>s. Ok (err, ap_exit int_state s))))))"

definition lapic_send_ipi_init :: "u32 \<Rightarrow> apic \<Rightarrow> (OS_RETURN_E \<times> apic) outcome" where
  "lapic_send_ipi_init lapic_id s = send_command lapic_id (ICR_INIT OR ICR_PHYSICAL OR ICR_ASSERT OR ICR_EDGE OR ICR_NO_SHORTHAND) s"

definition lapic_send_ipi_startup :: "u32 \<Rightarrow> u32 \<Rightarrow> apic \<Rightarrow> (OS_RETURN_E \<times> apic) outcome" where
  "lapic_send_ipi_startup lapic_id vector s =
     send_command lapic_id ((vector AND 0xFF) OR ICR_STARTUP OR ICR_PHYSICAL OR ICR_ASSERT OR ICR_EDGE OR ICR_NO_SHORTHAND) s"

definition lapic_send_ipi :: "u32 \<Rightarrow> u32 \<Rightarrow> apic \<Rightarrow> (OS_RETURN_E \<times> apic) outcome" where
  "lapic_send_ipi lapic_id vector s =
     send_command lapic_id ((vector AND 0xFF) OR ICR_PHYSICAL OR ICR_ASSERT OR ICR_EDGE OR ICR_NO_SHORTHAND) s"

definition lapic_set_int_eoi :: "u32 \<Rightarrow> apic \<Rightarrow> (OS_RETURN_E \<times> apic) outcome" where
  "lapic_set_int_eoi interrupt_line s =
     (if interrupt_line > MAX_INTERRUPT_LINE then Ok (OS_ERR_NO_SUCH_IRQ_LINE, s)
      else andthen (lapic_write LAPIC_EOI 0 s) (\<lambda>s. Ok (OS_NO_ERR, s)))"

section \<open>The timer of the local APIC\<close>

text \<open>A pass of the loop that waits for the PIT is one interrupt of the PIT: nothing else changes \<^verbatim>\<open>wait_int\<close>.\<close>

definition wait_pass :: "apic \<Rightarrow> (bool \<times> apic) outcome" where
  "wait_pass s = (if wait_int s = 0 then Ok (False, s) else andthen (lapic_init_pit_handler s) (\<lambda>s. Ok (True, s)))"

definition ints_disable :: "apic \<Rightarrow> apic" where
  "ints_disable s = snd (ap_enter s)"

definition timer_calibrate :: "ptr \<Rightarrow> apic \<Rightarrow> (OS_RETURN_E \<times> apic) outcome" where
  "timer_calibrate dummy_handler s =
     andthen (lapic_read LAPIC_TCCR s) (\<lambda>(count, s).
     let lapic_timer_tick_10ms = 0xFFFFFFFF - count;
         s = s\<lparr>init_lapic_timer_frequency := 100 * lapic_timer_tick_10ms\<rparr>;
         s = s\<lparr>global_lapic_freq := init_lapic_timer_frequency s div LAPIC_INIT_FREQ\<rparr>
     in on_ok (on_ints (\<lambda>i. Ok (kernel_interrupt_register_int_handler LAPIC_TIMER_INTERRUPT_LINE dummy_handler i)) s) (\<lambda>s.
        andthen (lapic_write LAPIC_TIMER (LAPIC_TIMER_INTERRUPT_LINE OR LAPIC_TIMER_MODE_PERIODIC) s) (\<lambda>s.
        andthen (lapic_write LAPIC_TDCR LAPIC_DIVIDER_16 s) (\<lambda>s.
        andthen (lapic_write LAPIC_TICR (global_lapic_freq s) s) (\<lambda>s.
        andthen (lapic_set_int_eoi LAPIC_TIMER_INTERRUPT_LINE s) (\<lambda>(_, s). Ok (OS_NO_ERR, s)))))))"

definition lapic_timer_init :: "ptr \<Rightarrow> ptr \<Rightarrow> ptr \<Rightarrow> apic \<Rightarrow> (OS_RETURN_E \<times> apic) outcome" where
  "lapic_timer_init init_pit_handler pit_dummy dummy_handler s =
     (if apic_missing s then Ok (OS_ERR_NOT_SUPPORTED, s)
      else andthen (lapic_write LAPIC_TDCR LAPIC_DIVIDER_16 (s\<lparr>wait_int := 1\<rparr>)) (\<lambda>s.
           on_ok (on_ints (pit_set_frequency 100) s) (\<lambda>s.
           on_ok (on_ints (pit_set_handler init_pit_handler) s) (\<lambda>s.
           on_ok (on_ints pit_enable s) (\<lambda>s.
           andthen (while_do wait_pass (ap_exit 1 s)) (\<lambda>s.
           on_ok (on_ints pit_disable (ints_disable s)) (\<lambda>s.
           on_ok (on_ints (pit_remove_handler pit_dummy) s) (\<lambda>s. timer_calibrate dummy_handler s))))))))"

definition lapic_ap_timer_init :: "apic \<Rightarrow> (OS_RETURN_E \<times> apic) outcome" where
  "lapic_ap_timer_init s =
     (if apic_missing s then Ok (OS_ERR_NOT_SUPPORTED, s)
      else let (int_state, s) = ap_enter s
           in andthen (lapic_write LAPIC_TDCR LAPIC_DIVIDER_16 s) (\<lambda>s.
              andthen (lapic_write LAPIC_TIMER (LAPIC_TIMER_INTERRUPT_LINE OR LAPIC_TIMER_MODE_PERIODIC) s) (\<lambda>s.
              andthen (lapic_write LAPIC_TDCR LAPIC_DIVIDER_16 s) (\<lambda>s.
              andthen (lapic_write LAPIC_TICR (global_lapic_freq s) s) (\<lambda>s. Ok (OS_NO_ERR, ap_exit int_state s))))))"

definition lapic_timer_get_frequency :: "apic \<Rightarrow> (u32 \<times> apic) outcome" where
  "lapic_timer_get_frequency s =
     (let (int_state, s) = ap_enter s
      in if global_lapic_freq s = 0 then Fault
         else Ok (init_lapic_timer_frequency s div global_lapic_freq s, ap_exit int_state s))"

definition lapic_timer_set_frequency :: "u32 \<Rightarrow> apic \<Rightarrow> (OS_RETURN_E \<times> apic) outcome" where
  "lapic_timer_set_frequency frequency s =
     (if apic_missing s then Ok (OS_ERR_NOT_SUPPORTED, s)
      else let (int_state, s) = ap_enter s
           in if frequency = 0 then Fault
              else let s = s\<lparr>global_lapic_freq := init_lapic_timer_frequency s div frequency\<rparr>
                   in andthen (lapic_write LAPIC_TDCR LAPIC_DIVIDER_16 s) (\<lambda>s.
                      andthen (lapic_write LAPIC_TICR (global_lapic_freq s) s) (\<lambda>s. Ok (OS_NO_ERR, ap_exit int_state s))))"

definition lapic_timer_enable :: "apic \<Rightarrow> (OS_RETURN_E \<times> apic) outcome" where
  "lapic_timer_enable s =
     (if apic_missing s then Ok (OS_ERR_NOT_SUPPORTED, s)
      else let (int_state, s) = ap_enter s
           in andthen (lapic_write LAPIC_TIMER (LAPIC_TIMER_INTERRUPT_LINE OR LAPIC_TIMER_MODE_PERIODIC) s) (\<lambda>s.
              Ok (OS_NO_ERR, ap_exit int_state s)))"

definition lapic_timer_disable :: "apic \<Rightarrow> (OS_RETURN_E \<times> apic) outcome" where
  "lapic_timer_disable s =
     (if apic_missing s then Ok (OS_ERR_NOT_SUPPORTED, s)
      else let (int_state, s) = ap_enter s
           in andthen (lapic_write LAPIC_TIMER LAPIC_LVT_INT_MASKED s) (\<lambda>s. Ok (OS_NO_ERR, ap_exit int_state s)))"

definition lapic_timer_set_handler :: "ptr \<Rightarrow> apic \<Rightarrow> (OS_RETURN_E \<times> apic) outcome" where
  "lapic_timer_set_handler h s =
     (if apic_missing s then Ok (OS_ERR_NOT_SUPPORTED, s)
      else if h = NULL then Ok (OS_ERR_NULL_POINTER, s)
      else on_ok (lapic_timer_disable s) (\<lambda>s.
           let (int_state, s) = ap_enter s
           in andthen (on_ints (\<lambda>i. Ok (kernel_interrupt_remove_int_handler LAPIC_TIMER_INTERRUPT_LINE i)) s) (\<lambda>(err, s).
              if err \<noteq> OS_NO_ERR then andthen (lapic_timer_enable (ap_exit int_state s)) (\<lambda>(_, s). Ok (err, s))
              else andthen (on_ints (\<lambda>i. Ok (kernel_interrupt_register_int_handler LAPIC_TIMER_INTERRUPT_LINE h i)) s) (\<lambda>(err, s).
                   if err \<noteq> OS_NO_ERR then Ok (err, ap_exit int_state s) else lapic_timer_enable (ap_exit int_state s)))))"

definition lapic_timer_remove_handler :: "ptr \<Rightarrow> apic \<Rightarrow> (OS_RETURN_E \<times> apic) outcome" where
  "lapic_timer_remove_handler dummy_handler s =
     (if apic_missing s then Ok (OS_ERR_NOT_SUPPORTED, s) else lapic_timer_set_handler dummy_handler s)"

definition lapic_timer_get_irq :: u32 where "lapic_timer_get_irq = LAPIC_TIMER_INTERRUPT_LINE"

section \<open>The IO-APIC\<close>

definition IOREGSEL :: u32 where "IOREGSEL = 0"
definition IOWIN :: u32 where "IOWIN = 0x10"
definition IOAPICVER :: u32 where "IOAPICVER = 1"
definition IOREDTBL :: u32 where "IOREDTBL = 0x10"
definition IO_APIC_MAX_IRQ_LINE :: u32 where "IO_APIC_MAX_IRQ_LINE = 23"
definition INT_IOAPIC_IRQ_OFFSET :: u32 where "INT_IOAPIC_IRQ_OFFSET = 0x40"

lemmas io_apic_consts = IOREGSEL_def IOWIN_def IOAPICVER_def IOREDTBL_def IO_APIC_MAX_IRQ_LINE_def INT_IOAPIC_IRQ_OFFSET_def

definition io_apic_write :: "u32 \<Rightarrow> u32 \<Rightarrow> apic \<Rightarrow> apic outcome" where
  "io_apic_write reg x s =
     andthen (mapped_io_write_32 (io_apic_base_addr s + IOREGSEL) reg s) (\<lambda>s.
     mapped_io_write_32 (io_apic_base_addr s + IOWIN) x s)"

definition io_apic_read :: "u32 \<Rightarrow> apic \<Rightarrow> (u32 \<times> apic) outcome" where
  "io_apic_read reg s =
     andthen (mapped_io_write_32 (io_apic_base_addr s + IOREGSEL) reg s) (\<lambda>s.
     mapped_io_read_32 (io_apic_base_addr s + IOWIN) s)"

definition redirection :: "u32 \<Rightarrow> u32 \<Rightarrow> u32" where
  "redirection irq_number en = (irq_number + INT_IOAPIC_IRQ_OFFSET) OR push_bit 16 (NOT en AND 1)"

definition io_apic_set_irq_mask :: "u32 \<Rightarrow> u32 \<Rightarrow> apic \<Rightarrow> (OS_RETURN_E \<times> apic) outcome" where
  "io_apic_set_irq_mask irq_number en s =
     (if irq_number \<ge> max_redirect_count s then Ok (OS_ERR_NO_SUCH_IRQ_LINE, s)
      else let entry_lo = redirection irq_number en; (int_state, s) = ap_enter s
           in andthen (acpi_get_remmaped_irq irq_number (acpi_st s)) (\<lambda>actual_irq.
              andthen (io_apic_write (IOREDTBL + actual_irq * 2) entry_lo s) (\<lambda>s.
              andthen (io_apic_write (IOREDTBL + actual_irq * 2 + 1) 0 s) (\<lambda>s. Ok (OS_NO_ERR, ap_exit int_state s)))))"

definition mask_pass :: "u32 \<times> OS_RETURN_E \<times> apic \<Rightarrow> (bool \<times> u32 \<times> OS_RETURN_E \<times> apic) outcome" where
  "mask_pass = (\<lambda>(i, e, s).
     if i < max_redirect_count s
     then andthen (io_apic_set_irq_mask i 0 s) (\<lambda>(err, s). if err \<noteq> OS_NO_ERR then Ok (False, i, err, s) else Ok (True, i + 1, err, s))
     else Ok (False, i, OS_NO_ERR, s))"

definition io_apic_init :: "apic \<Rightarrow> (OS_RETURN_E \<times> apic) outcome" where
  "io_apic_init s =
     (if apic_missing s then Ok (OS_ERR_NOT_SUPPORTED, s)
      else andthen (acpi_get_io_apic_address 0 (acpi_st s)) (\<lambda>b.
           let s = s\<lparr>io_apic_base_addr := b\<rparr>
           in andthen (kernel_mmap_hw b b 0x1000 0 0 (avm (acpi_st s))) (\<lambda>(err, v).
              let s = set_vm v s
              in if err \<noteq> OS_NO_ERR then Ok (err, s)
                 else andthen (io_apic_read IOAPICVER s) (\<lambda>(read_count, s).
                      andthen (while_do mask_pass (0, OS_NO_ERR, s\<lparr>max_redirect_count := (drop_bit 16 read_count AND 0xFF) + 1\<rparr>))
                        (\<lambda>(_, err, s).
                      if err \<noteq> OS_NO_ERR
                      then andthen (kernel_munmap (io_apic_base_addr s) 0x1000 (avm (acpi_st s))) (\<lambda>(_, v). Ok (err, set_vm v s))
                      else Ok (OS_NO_ERR, s\<lparr>io_apic_enabled := 1\<rparr>))))))"

definition io_apic_set_irq_eoi :: "u32 \<Rightarrow> apic \<Rightarrow> (OS_RETURN_E \<times> apic) outcome" where
  "io_apic_set_irq_eoi irq_number s = lapic_set_int_eoi irq_number s"

text \<open>The two tests of the source, in order; the interrupt number of the second is outside the range that the first admits.\<close>

definition io_apic_handle_spurious_irq :: "u32 \<Rightarrow> apic \<Rightarrow> (INTERRUPT_TYPE_E \<times> apic) outcome" where
  "io_apic_handle_spurious_irq int_number s =
     (let irq_id = int_number - INT_PIC_IRQ_OFFSET
      in if sint irq_id \<ge> 0 \<and> sint irq_id \<le> 15
         then andthen
                (if int_number \<ge> INT_PIC_IRQ_OFFSET \<and> int_number \<ge> INT_PIC_IRQ_OFFSET + 0x0F
                 then andthen (lapic_set_int_eoi int_number s) (\<lambda>(_, s). Ok (INTERRUPT_TYPE_SPURIOUS, s))
                 else Ok (INTERRUPT_TYPE_REGULAR, s)) (\<lambda>(int_type, s).
              if int_number = LAPIC_SPURIOUS_INT_LINE
              then andthen (lapic_set_int_eoi int_number s) (\<lambda>(_, s). Ok (INTERRUPT_TYPE_SPURIOUS, s))
              else Ok (int_type, s))
         else Ok (INTERRUPT_TYPE_REGULAR, s))"

definition io_apic_get_irq_int_line :: "u32 \<Rightarrow> u32" where
  "io_apic_get_irq_int_line irq_number = (if irq_number > IO_APIC_MAX_IRQ_LINE then - 1 else irq_number + INT_IOAPIC_IRQ_OFFSET)"

definition io_apic_capable :: "apic \<Rightarrow> u8" where
  "io_apic_capable s = (if apic_missing s then 0 else 1)"

section \<open>Accesses\<close>

lemma bus_addr_log [simp]: "bus_addr v (s\<lparr>mmio_log := l\<rparr>) = bus_addr v s"
  by (simp add: bus_addr_def)

lemma pg_enter_eq: "pg_enter v = (fst (pg_enter v), v\<lparr>pg_ints := pg_ints (snd (pg_enter v))\<rparr>)"
  by (simp add: pg_enter_def split: prod.splits)

lemma ap_enter_eq: "ap_enter s =
    (fst (ap_enter s), s\<lparr>acpi_st := (acpi_st s)\<lparr>avm := (avm (acpi_st s))\<lparr>pg_ints := snd (kernel_interrupt_disable (pg_ints (avm (acpi_st s))))\<rparr>\<rparr>\<rparr>)"
  by (simp add: ap_enter_def set_vm_def pg_enter_def split: prod.splits)

lemma vbyte_ints [simp]: "vbyte p (v\<lparr>pg_ints := i\<rparr>) = vbyte p v"
  by (simp add: vbyte_def translate_def Let_def phys_byte_def split: option.splits)

lemma vword_ints [simp]: "vword p (v\<lparr>pg_ints := i\<rparr>) = vword p v"
  by (simp add: vword_def)

lemma remap_ints [simp]: "acpi_get_remmaped_irq irq (a\<lparr>avm := (avm a)\<lparr>pg_ints := i\<rparr>\<rparr>) = acpi_get_remmaped_irq irq a"
proof -
  have "remap_pass irq lim (v\<lparr>pg_ints := i\<rparr>) = remap_pass irq lim v" for lim v
    unfolding remap_pass_def entry_type_def override_source_def override_interrupt_def entry_length_def vbyte_ints vword_ints ..
  then show ?thesis by (simp add: acpi_get_remmaped_irq_def header_length_def)
qed

lemma check_ints [simp]: "acpi_check_lapic_id i (a\<lparr>avm := (avm a)\<lparr>pg_ints := x\<rparr>\<rparr>) = acpi_check_lapic_id i a"
proof -
  have "check_lapic_loop i ps (v\<lparr>pg_ints := x\<rparr>) = check_lapic_loop i ps v" for ps v
  proof (induction ps)
    case (Cons p ps)
    show ?case unfolding check_lapic_loop.simps apic_id_def vbyte_ints Cons ..
  qed simp
  then show ?thesis by (simp add: acpi_check_lapic_id_def)
qed

lemma bus_addr_ints [simp]:
  "bus_addr v (s\<lparr>acpi_st := (acpi_st s)\<lparr>avm := (avm (acpi_st s))\<lparr>pg_ints := i\<rparr>\<rparr>\<rparr>) = bus_addr v s"
  by (simp add: bus_addr_def translate_def Let_def)

lemma mmio_write_at: "bus_addr v s = Some (a, True) \<Longrightarrow> mapped_io_write_32 v x s = Ok (s\<lparr>mmio_log := MWrite a x # mmio_log s\<rparr>)"
  by (simp add: mapped_io_write_32_def)

lemma mmio_read_at:
  "bus_addr v s = Some (a, w) \<Longrightarrow> mapped_io_read_32 v s = Ok (mmio_device s (mmio_log s) a, s\<lparr>mmio_log := MRead a # mmio_log s\<rparr>)"
  by (simp add: mapped_io_read_32_def)

text \<open>The flag that a critical section saves is the one it restores.\<close>

lemma disable_restore: "kernel_interrupt_restore (fst (kernel_interrupt_disable i)) (snd (kernel_interrupt_disable i)) = i"
  by (simp add: kernel_interrupt_restore_def kernel_interrupt_disable_def kernel_interrupt_get_state_def io_defs Let_def)

lemma ap_exit_from:
  assumes "acpi_st t = (acpi_st s)\<lparr>avm := (avm (acpi_st s))\<lparr>pg_ints := snd (kernel_interrupt_disable (pg_ints (avm (acpi_st s))))\<rparr>\<rparr>"
  shows "ap_exit (fst (ap_enter s)) t = t\<lparr>acpi_st := acpi_st s\<rparr>"
  using disable_restore [of "pg_ints (avm (acpi_st s))"] assms
  by (cases "kernel_interrupt_disable (pg_ints (avm (acpi_st s)))")
     (simp add: ap_exit_def ap_enter_def set_vm_def pg_enter_def pg_exit_def)

lemma ap_exit_enter:
  "ap_exit (fst (ap_enter s)) (s\<lparr>acpi_st := (acpi_st s)\<lparr>avm := (avm (acpi_st s))\<lparr>pg_ints := snd (kernel_interrupt_disable (pg_ints (avm (acpi_st s))))\<rparr>\<rparr>, mmio_log := l\<rparr>)
     = s\<lparr>mmio_log := l\<rparr>"
  by (subst ap_exit_from) simp_all

lemma ap_exit_snd: "ap_exit (fst (ap_enter s)) (snd (ap_enter s)) = s"
proof -
  have "snd (ap_enter s) = s\<lparr>acpi_st := acpi_st (snd (ap_enter s))\<rparr>" by (subst (1 2) ap_enter_eq) simp
  moreover have "ap_exit (fst (ap_enter s)) (snd (ap_enter s)) = (snd (ap_enter s))\<lparr>acpi_st := acpi_st s\<rparr>"
    by (rule ap_exit_from, subst ap_enter_eq) simp
  ultimately show ?thesis by (metis apic.surjective apic.update_convs(1))
qed

section \<open>Programming a redirection\<close>

text \<open>The registers of an IO-APIC whose two windows are at \<open>sel\<close> and \<open>win\<close>, after the accesses of a log.\<close>

primrec selected :: "u32 \<Rightarrow> mmio_event list \<Rightarrow> u32" where
  "selected sel [] = 0"
| "selected sel (e # l) = (case e of MWrite a x \<Rightarrow> if a = sel then x else selected sel l | MRead a \<Rightarrow> selected sel l)"

primrec io_apic_file :: "u32 \<Rightarrow> u32 \<Rightarrow> mmio_event list \<Rightarrow> u32 \<Rightarrow> u32 option" where
  "io_apic_file sel win [] = (\<lambda>_. None)"
| "io_apic_file sel win (e # l) =
     (case e of MWrite a x \<Rightarrow> if a = win then (io_apic_file sel win l)(selected sel l \<mapsto> x) else io_apic_file sel win l
              | MRead a \<Rightarrow> io_apic_file sel win l)"

lemma io_apic_write_run:
  assumes "bus_addr (io_apic_base_addr s) s = Some (sel, True)" "bus_addr (io_apic_base_addr s + 0x10) s = Some (win, True)"
  shows "io_apic_write reg x s = Ok (s\<lparr>mmio_log := MWrite win x # MWrite sel reg # mmio_log s\<rparr>)"
  using assms by (simp add: io_apic_write_def mmio_write_at io_apic_consts)

lemma io_apic_set_irq_mask_run:
  assumes "irq < max_redirect_count s" "acpi_get_remmaped_irq irq (acpi_st s) = Ok actual"
    and "bus_addr (io_apic_base_addr s) s = Some (sel, True)" "bus_addr (io_apic_base_addr s + 0x10) s = Some (win, True)"
  shows "io_apic_set_irq_mask irq en s =
    Ok (OS_NO_ERR, s\<lparr>mmio_log := [MWrite win 0, MWrite sel (0x11 + 2 * actual), MWrite win (redirection irq en), MWrite sel (0x10 + 2 * actual)] @ mmio_log s\<rparr>)"
proof -
  let ?i = "snd (kernel_interrupt_disable (pg_ints (avm (acpi_st s))))"
  let ?s = "s\<lparr>acpi_st := (acpi_st s)\<lparr>avm := (avm (acpi_st s))\<lparr>pg_ints := ?i\<rparr>\<rparr>\<rparr>"
  have b: "bus_addr (io_apic_base_addr ?s) ?s = Some (sel, True)" "bus_addr (io_apic_base_addr ?s + 0x10) ?s = Some (win, True)"
    using assms(3,4) by simp_all
  have r: "IOREDTBL + actual * 2 = 0x10 + 2 * actual" "IOREDTBL + actual * 2 + 1 = 0x11 + 2 * actual"
    by (simp_all add: io_apic_consts)
  have w: "io_apic_write reg x (?s\<lparr>mmio_log := l\<rparr>) = Ok (?s\<lparr>mmio_log := MWrite win x # MWrite sel reg # l\<rparr>)" for reg x l
    using io_apic_write_run [of "?s\<lparr>mmio_log := l\<rparr>" sel win reg x] b by simp
  have w0: "io_apic_write reg x ?s = Ok (?s\<lparr>mmio_log := MWrite win x # MWrite sel reg # mmio_log s\<rparr>)" for reg x
    using io_apic_write_run [OF b] by simp
  show ?thesis using assms(1,2)
    by (subst io_apic_set_irq_mask_def, subst ap_enter_eq) (simp add: w w0 r ap_exit_enter not_le)
qed

text \<open>What an entry says: the vector in its low byte, the mask in bit 16, and nothing else.\<close>

lemma redirection_fields:
  assumes "irq < 192"
  shows "take_bit 8 (redirection irq en) = irq + 0x40" "bit (redirection irq en) 16 \<longleftrightarrow> \<not> bit en 0"
    "8 \<le> i \<Longrightarrow> i \<noteq> 16 \<Longrightarrow> \<not> bit (redirection irq en) i"
proof -
  have "unat (irq + 0x40) < 256" using assms by (simp add: word_less_nat_alt unat_word_ariths)
  then have v: "take_bit 8 (irq + 0x40) = irq + 0x40"
    by (simp add: word_unat_eq_iff unsigned_take_bit_eq take_bit_nat_eq_self)
  then have hi: "\<not> bit (irq + 0x40) k" if "8 \<le> k" for k using bit_take_bit_iff [of 8 "irq + 0x40" k] that by simp
  have "\<not> bit (push_bit 16 (NOT en AND 1)) i" if "i \<noteq> 16"
    using that unfolding bit_push_bit_iff bit_and_iff bit_1_iff by auto
  then show "\<not> bit (redirection irq en) i" if "8 \<le> i" "i \<noteq> 16"
    using hi [OF that(1)] that unfolding redirection_def io_apic_consts bit_or_iff by blast
  show "bit (redirection irq en) 16 \<longleftrightarrow> \<not> bit en 0"
    using hi [of 16] by (simp add: redirection_def io_apic_consts bit_or_iff bit_push_bit_iff bit_and_iff bit_not_iff bit_1_iff)
  have "take_bit 8 (push_bit 16 x) = 0" for x :: u32 by (rule bit_eqI) (simp add: bit_take_bit_iff bit_push_bit_iff)
  with v show "take_bit 8 (redirection irq en) = irq + 0x40" by (simp add: redirection_def io_apic_consts take_bit_or)
qed

text \<open>C31. Masking or unmasking a line whose vector fits in a byte programs exactly the redirection entry of its remapped
  line: the low word gets the vector (the line plus 64) and the mask bit 16, which is set exactly when bit 0 of the
  argument is clear, and no other bit, the high word gets 0; every other register, the critical section and the state are left as they were. A
  line the chip does not have is refused and changes nothing.\<close>

theorem io_apic_set_irq_mask_programs:
  assumes "irq < 192" "acpi_get_remmaped_irq irq (acpi_st s) = Ok actual"
    and "bus_addr (io_apic_base_addr s) s = Some (sel, True)" "bus_addr (io_apic_base_addr s + 0x10) s = Some (win, True)" "sel \<noteq> win"
  shows "if irq < max_redirect_count s
    then \<exists>s' lo. io_apic_set_irq_mask irq en s = Ok (OS_NO_ERR, s') \<and> s' = s\<lparr>mmio_log := mmio_log s'\<rparr> \<and>
      io_apic_file sel win (mmio_log s') =
        (io_apic_file sel win (mmio_log s))(0x10 + 2 * actual \<mapsto> lo, 0x11 + 2 * actual \<mapsto> 0) \<and>
      take_bit 8 lo = irq + 0x40 \<and> (bit lo 16 \<longleftrightarrow> \<not> bit en 0) \<and> (\<forall>i. 8 \<le> i \<and> i \<noteq> 16 \<longrightarrow> \<not> bit lo i)
    else io_apic_set_irq_mask irq en s = Ok (OS_ERR_NO_SUCH_IRQ_LINE, s)"
proof (cases "irq < max_redirect_count s")
  case True
  from io_apic_set_irq_mask_run [OF this assms(2-4), of en] assms(5) redirection_fields [OF assms(1)] True show ?thesis
    by (intro if_P [THEN iffD2]) (auto intro!: exI [of _ "redirection irq en"])
next
  case False
  then show ?thesis by (simp add: io_apic_set_irq_mask_def not_less)
qed

text \<open>The loop of the initialisation: every line is masked when it ends, also where two lines share an entry.\<close>

definition line_masked :: "u32 \<Rightarrow> u32 \<Rightarrow> u32 \<Rightarrow> apic \<Rightarrow> bool" where
  "line_masked sel win irq s \<longleftrightarrow> (\<exists>actual e. acpi_get_remmaped_irq irq (acpi_st s) = Ok actual \<and>
     io_apic_file sel win (mmio_log s) (0x10 + 2 * actual) = Some e \<and> bit e 16)"

lemma entry_parity: "(0x10 + 2 * a :: u32) \<noteq> 0x11 + 2 * b"
proof
  assume "(0x10 + 2 * a :: u32) = 0x11 + 2 * b"
  then have "bit (0x10 + 2 * a :: u32) 0 = bit (0x11 + 2 * b :: u32) 0" by simp
  then show False by (simp add: bit_0)
qed

lemma mask_pass_step:
  assumes "i < max_redirect_count s" "max_redirect_count s \<le> 192" "acpi_get_remmaped_irq i (acpi_st s) = Ok actual"
    and "bus_addr (io_apic_base_addr s) s = Some (sel, True)" "bus_addr (io_apic_base_addr s + 0x10) s = Some (win, True)" "sel \<noteq> win"
    and "\<forall>j < i. line_masked sel win j s"
  shows "\<exists>l. mask_pass (i, e, s) = Ok (True, i + 1, OS_NO_ERR, s\<lparr>mmio_log := l\<rparr>) \<and>
    (\<forall>j < i + 1. line_masked sel win j (s\<lparr>mmio_log := l\<rparr>))"
proof -
  let ?l = "[MWrite win 0, MWrite sel (0x11 + 2 * actual), MWrite win (redirection i 0), MWrite sel (0x10 + 2 * actual)] @ mmio_log s"
  have f: "io_apic_file sel win ?l = (io_apic_file sel win (mmio_log s))(0x10 + 2 * actual \<mapsto> redirection i 0, 0x11 + 2 * actual \<mapsto> 0)"
    using assms(6) by simp
  have m: "bit (redirection i 0) 16" using assms(1,2) by (subst redirection_fields(2)) simp_all
  have "line_masked sel win j (s\<lparr>mmio_log := ?l\<rparr>)" if "j < i + 1" for j
  proof (cases "j = i")
    case True
    then show ?thesis using assms(3) f m by (simp add: line_masked_def entry_parity del: append.simps)
  next
    case False
    have "unat i < 192" using assms(1,2) by (simp add: word_less_nat_alt word_le_nat_alt)
    then have "unat (i + 1) = unat i + 1" by (simp add: unat_word_ariths)
    then have "j < i" using that False by (simp add: word_less_nat_alt word_unat_eq_iff)
    then show ?thesis using assms(7) f m
      by (auto simp: line_masked_def entry_parity simp del: append.simps)
  qed
  then show ?thesis using assms(1) io_apic_set_irq_mask_run [OF assms(1,3-5), of 0]
    by (intro exI [of _ ?l]) (simp add: mask_pass_def)
qed

theorem io_apic_masks_every_line:
  assumes "max_redirect_count s \<le> 192" "\<And>i. i < max_redirect_count s \<Longrightarrow> \<exists>a. acpi_get_remmaped_irq i (acpi_st s) = Ok a"
    and "bus_addr (io_apic_base_addr s) s = Some (sel, True)" "bus_addr (io_apic_base_addr s + 0x10) s = Some (win, True)" "sel \<noteq> win"
  shows "\<exists>i s'. while_do mask_pass (0, OS_NO_ERR, s) = Ok (i, OS_NO_ERR, s') \<and> s' = s\<lparr>mmio_log := mmio_log s'\<rparr> \<and>
    (\<forall>j < max_redirect_count s. line_masked sel win j s')"
proof -
  let ?I = "\<lambda>(i, e :: OS_RETURN_E, t). t = s\<lparr>mmio_log := mmio_log t\<rparr> \<and> i \<le> max_redirect_count s \<and> (\<forall>j < i. line_masked sel win j t)"
  let ?Q = "\<lambda>(i :: u32, e, t). e = OS_NO_ERR \<and> t = s\<lparr>mmio_log := mmio_log t\<rparr> \<and> (\<forall>j < max_redirect_count s. line_masked sel win j t)"
  have "\<exists>x. while_do mask_pass (0, OS_NO_ERR, s) = Ok x \<and> ?Q x"
  proof (rule while_do_total [of ?I _ _ "\<lambda>(i, e, t). unat (max_redirect_count s) - unat i"])
    fix x assume I: "?I x"
    obtain i e t where x: "x = (i, e, t)" by (cases x)
    from I x have t: "t = s\<lparr>mmio_log := mmio_log t\<rparr>" and i: "i \<le> max_redirect_count s" and m: "\<forall>j < i. line_masked sel win j t" by auto
    have eq: "acpi_st t = acpi_st s" "io_apic_base_addr t = io_apic_base_addr s" "max_redirect_count t = max_redirect_count s"
      "bus_addr v t = bus_addr v s" for v by (subst t, simp)+
    show "\<exists>more y. mask_pass x = Ok (more, y) \<and>
        (if more then ?I y \<and> (case y of (i, e, t) \<Rightarrow> unat (max_redirect_count s) - unat i) < (case x of (i, e, t) \<Rightarrow> unat (max_redirect_count s) - unat i)
         else ?Q y)"
    proof (cases "i < max_redirect_count s")
      case True
      from assms(2) [OF True] obtain a where a: "acpi_get_remmaped_irq i (acpi_st t) = Ok a" unfolding eq by (elim exE)
      have "\<exists>l. mask_pass (i, e, t) = Ok (True, i + 1, OS_NO_ERR, t\<lparr>mmio_log := l\<rparr>) \<and>
          (\<forall>j < i + 1. line_masked sel win j (t\<lparr>mmio_log := l\<rparr>))"
        using True assms(1,3,4) by (intro mask_pass_step [OF _ _ a _ _ assms(5) m]) (simp_all add: eq)
      then obtain l where l: "mask_pass (i, e, t) = Ok (True, i + 1, OS_NO_ERR, t\<lparr>mmio_log := l\<rparr>)"
        "\<forall>j < i + 1. line_masked sel win j (t\<lparr>mmio_log := l\<rparr>)" by (elim exE conjE)
      have "unat (i + 1) = unat i + 1" using True assms(1) by (simp add: word_less_nat_alt word_le_nat_alt unat_word_ariths)
      moreover have "t\<lparr>mmio_log := l\<rparr> = s\<lparr>mmio_log := l\<rparr>" by (subst t) simp
      ultimately show ?thesis using l x True
        by (intro exI [of _ True] exI [of _ "(i + 1, OS_NO_ERR, t\<lparr>mmio_log := l\<rparr>)"]) (simp add: word_less_nat_alt word_le_nat_alt; linarith)
    next
      case False
      with i have "i = max_redirect_count s" by simp
      then show ?thesis using x t m False eq(3)
        by (intro exI [of _ False] exI [of _ "(i, OS_NO_ERR, t)"]) (simp add: mask_pass_def)
    qed
  qed simp
  then show ?thesis by (elim exE conjE) (simp add: split_beta; metis prod.collapse)
qed

section \<open>Spurious interrupts\<close>

text \<open>Only the last line of the PIC is reported as spurious; the spurious vector of the local APIC is not.\<close>

theorem io_apic_spurious_only_last_line:
  assumes "io_apic_handle_spurious_irq n s = Ok (ty, s')"
  shows "ty = INTERRUPT_TYPE_SPURIOUS \<longleftrightarrow> n = 0x3F"
proof -
  let ?d = "n - INT_PIC_IRQ_OFFSET"
  show ?thesis
  proof (cases "sint ?d \<ge> 0 \<and> sint ?d \<le> 15")
    case True
    then have "uint ?d \<le> 15" by (simp add: uint_sint take_bit_int_eq_self)
    then have d: "?d \<le> 15" by (simp add: word_le_def)
    have n: "n = ?d + 0x30" by (simp add: pic_consts)
    have u: "unat n = unat ?d + 0x30" using d by (subst n) (simp add: word_le_nat_alt unat_word_ariths)
    have "n \<noteq> LAPIC_SPURIOUS_INT_LINE" using u d by (auto simp: word_unat_eq_iff word_le_nat_alt lapic_consts int_line_defs)
    moreover have "n \<ge> INT_PIC_IRQ_OFFSET + 0x0F \<longleftrightarrow> n = 0x3F" "n \<ge> INT_PIC_IRQ_OFFSET"
      using u d by (auto simp: word_le_nat_alt word_unat_eq_iff pic_consts)
    ultimately show ?thesis using assms True
      by (auto simp: io_apic_handle_spurious_irq_def Let_def andthen_eq_Ok split: if_splits)
  next
    case False
    have "n = 0x3F \<Longrightarrow> sint ?d = 15" by (simp add: pic_consts)
    then show ?thesis using assms False by (auto simp: io_apic_handle_spurious_irq_def Let_def)
  qed
qed

section \<open>Interrupts between processors\<close>

text \<open>The device clears the pending bit at the read number \<open>n\<close> of the command register.\<close>

definition clears_after :: "nat \<Rightarrow> u32 \<Rightarrow> apic \<Rightarrow> bool" where
  "clears_after n a s \<longleftrightarrow>
     (\<forall>k \<le> n. (mmio_device s (replicate k (MRead a) @ mmio_log s) a AND ICR_SEND_PENDING = 0) = (k = n))"

lemma pending_run:
  "bus_addr (lapic_base_addr s + LAPIC_ICRLO) s = Some (a, True) \<Longrightarrow> clears_after n a s \<Longrightarrow>
   while_do pending_pass s = Ok (s\<lparr>mmio_log := replicate (Suc n) (MRead a) @ mmio_log s\<rparr>)"
proof (induction n arbitrary: s)
  case 0
  then show ?case by (subst while_do_unfold) (simp add: pending_pass_def lapic_read_def mmio_read_at clears_after_def)
next
  case (Suc n)
  let ?t = "s\<lparr>mmio_log := MRead a # mmio_log s\<rparr>"
  have "clears_after n a ?t"
  proof -
    show ?thesis unfolding clears_after_def
    proof (intro allI impI)
      fix k assume "k \<le> n"
      then have "(mmio_device s (replicate (Suc k) (MRead a) @ mmio_log s) a AND ICR_SEND_PENDING = 0) = (Suc k = Suc n)"
        using Suc.prems(2) unfolding clears_after_def by blast
      then show "(mmio_device ?t (replicate k (MRead a) @ mmio_log ?t) a AND ICR_SEND_PENDING = 0) = (k = n)"
        by (simp add: replicate_app_Cons_same)
    qed
  qed
  from Suc.IH [OF _ this] Suc.prems(1)
  have "while_do pending_pass ?t = Ok (?t\<lparr>mmio_log := replicate (Suc n) (MRead a) @ mmio_log ?t\<rparr>)" by simp
  moreover have "mmio_device s (mmio_log s) a AND ICR_SEND_PENDING \<noteq> 0"
    using Suc.prems(2) by (auto simp: clears_after_def dest: spec [of _ 0])
  ultimately show ?case using Suc.prems(1)
    by (subst while_do_unfold) (simp add: pending_pass_def lapic_read_def mmio_read_at replicate_app_Cons_same)
qed

lemma lapic_write_run:
  "bus_addr (lapic_base_addr s + r) s = Some (a, True) \<Longrightarrow> lapic_write r x s = Ok (s\<lparr>mmio_log := MWrite a x # mmio_log s\<rparr>)"
  by (simp add: lapic_write_def mmio_write_at)

text \<open>An interrupt between processors writes the destination, then the command, then waits until the device accepted it, for however long it is busy, and leaves the interrupt flag as it was.\<close>

theorem send_command_delivers:
  assumes "\<not> apic_missing s" "acpi_check_lapic_id dest (acpi_st s) = Ok OS_NO_ERR"
    and "bus_addr (lapic_base_addr s + LAPIC_ICRHI) s = Some (hi, True)" "bus_addr (lapic_base_addr s + LAPIC_ICRLO) s = Some (lo, True)"
    and "clears_after n lo (s\<lparr>mmio_log := MWrite lo command # MWrite hi (push_bit 24 dest) # mmio_log s\<rparr>)"
  shows "send_command dest command s =
    Ok (OS_NO_ERR, s\<lparr>mmio_log := replicate (Suc n) (MRead lo) @ MWrite lo command # MWrite hi (push_bit 24 dest) # mmio_log s\<rparr>)"
proof -
  let ?s = "s\<lparr>acpi_st := (acpi_st s)\<lparr>avm := (avm (acpi_st s))\<lparr>pg_ints := snd (kernel_interrupt_disable (pg_ints (avm (acpi_st s))))\<rparr>\<rparr>\<rparr>"
  let ?l = "MWrite lo command # MWrite hi (push_bit 24 dest) # mmio_log s"
  have "while_do pending_pass (?s\<lparr>mmio_log := ?l\<rparr>) = Ok (?s\<lparr>mmio_log := ?l\<rparr>\<lparr>mmio_log := replicate (Suc n) (MRead lo) @ mmio_log (?s\<lparr>mmio_log := ?l\<rparr>)\<rparr>)"
    using assms(4,5) by (intro pending_run) (simp_all add: clears_after_def)
  moreover have "lapic_write LAPIC_ICRHI x ?s = Ok (?s\<lparr>mmio_log := MWrite hi x # mmio_log s\<rparr>)" for x
    using assms(3) by (subst lapic_write_run [of ?s _ hi]) simp_all
  moreover have "lapic_write LAPIC_ICRLO x (?s\<lparr>mmio_log := m\<rparr>) = Ok (?s\<lparr>mmio_log := MWrite lo x # m\<rparr>)" for x m
    using assms(4) by (subst lapic_write_run [of "?s\<lparr>mmio_log := m\<rparr>" _ lo]) simp_all
  ultimately show ?thesis using assms(1,2)
    by (subst send_command_def, subst ap_enter_eq) (simp add: ap_exit_enter ICR_DESTINATION_SHIFT_def del: replicate.simps)
qed

text \<open>An unknown processor is refused before any register is written.\<close>

lemma send_command_unknown:
  assumes "\<not> apic_missing s" "acpi_check_lapic_id dest (acpi_st s) = Ok e" "e \<noteq> OS_NO_ERR"
  shows "send_command dest command s = Ok (e, s)"
  using assms ap_exit_enter [of s "mmio_log s"]
  by (subst send_command_def, subst ap_enter_eq) simp

section \<open>The frequency of the timer\<close>

lemma bus_addr_freq [simp]: "bus_addr v (s\<lparr>global_lapic_freq := f\<rparr>) = bus_addr v s"
  by (simp add: bus_addr_def)

lemma lapic_timer_set_frequency_run:
  assumes "\<not> apic_missing s" "f \<noteq> 0"
    and "bus_addr (lapic_base_addr s + LAPIC_TDCR) s = Some (d, True)" "bus_addr (lapic_base_addr s + LAPIC_TICR) s = Some (c, True)"
  shows "lapic_timer_set_frequency f s =
    Ok (OS_NO_ERR, s\<lparr>global_lapic_freq := init_lapic_timer_frequency s div f,
                     mmio_log := MWrite c (init_lapic_timer_frequency s div f) # MWrite d LAPIC_DIVIDER_16 # mmio_log s\<rparr>)"
proof -
  let ?f = "init_lapic_timer_frequency s div f"
  let ?s = "s\<lparr>acpi_st := (acpi_st s)\<lparr>avm := (avm (acpi_st s))\<lparr>pg_ints := snd (kernel_interrupt_disable (pg_ints (avm (acpi_st s))))\<rparr>\<rparr>, global_lapic_freq := ?f\<rparr>"
  have b: "bus_addr v ?s = bus_addr v s" for v by simp
  have "lapic_write LAPIC_TDCR x ?s = Ok (?s\<lparr>mmio_log := MWrite d x # mmio_log s\<rparr>)" for x
    using assms(3) lapic_write_run [of ?s LAPIC_TDCR d x] by (simp only: b) simp
  moreover have "lapic_write LAPIC_TICR x (?s\<lparr>mmio_log := m\<rparr>) = Ok (?s\<lparr>mmio_log := MWrite c x # m\<rparr>)" for x m
    using assms(4) lapic_write_run [of "?s\<lparr>mmio_log := m\<rparr>" LAPIC_TICR c x] by (simp only: b bus_addr_log) simp
  moreover have "ap_exit (fst (ap_enter s)) (?s\<lparr>mmio_log := l\<rparr>) = s\<lparr>global_lapic_freq := ?f, mmio_log := l\<rparr>" for l
    by (subst ap_exit_from) simp_all
  ultimately show ?thesis using assms(1,2)
    by (subst lapic_timer_set_frequency_def, subst ap_enter_eq) simp
qed

lemma div_div_ge:
  assumes "0 < f" "f \<le> (n :: nat)"
  shows "0 < n div f" "f \<le> n div (n div f)" "n mod f = 0 \<Longrightarrow> n div (n div f) = f"
proof -
  show p: "0 < n div f" using assms by (simp add: div_greater_zero_iff)
  have "f * (n div f) \<le> n" by (simp add: mult.commute)
  then show "f \<le> n div (n div f)" using p by (simp add: less_eq_div_iff_mult_less_eq)
  assume "n mod f = 0"
  then obtain k where k: "n = f * k" by (auto simp: mod_eq_0_iff_dvd)
  with p assms show "n div (n div f) = f" by simp
qed

lemma lapic_timer_get_frequency_run:
  "lapic_timer_get_frequency s =
    (if global_lapic_freq s = 0 then Fault else Ok (init_lapic_timer_frequency s div global_lapic_freq s, s))"
proof -
  have "global_lapic_freq (snd (ap_enter s)) = global_lapic_freq s"
    "init_lapic_timer_frequency (snd (ap_enter s)) = init_lapic_timer_frequency s" by (subst ap_enter_eq, simp)+
  then show ?thesis using ap_exit_snd [of s] by (simp add: lapic_timer_get_frequency_def split_beta)
qed

theorem lapic_frequency_read_back:
  assumes "\<not> apic_missing s" "0 < f" "f \<le> init_lapic_timer_frequency s"
    and "bus_addr (lapic_base_addr s + LAPIC_TDCR) s = Some (d, True)" "bus_addr (lapic_base_addr s + LAPIC_TICR) s = Some (c, True)"
  shows "\<exists>s' g. lapic_timer_set_frequency f s = Ok (OS_NO_ERR, s') \<and> lapic_timer_get_frequency s' = Ok (g, s') \<and> f \<le> g \<and>
    (init_lapic_timer_frequency s mod f = 0 \<longrightarrow> g = f)"
proof -
  let ?n = "init_lapic_timer_frequency s"
  let ?t = "s\<lparr>global_lapic_freq := ?n div f,
      mmio_log := MWrite c (?n div f) # MWrite d LAPIC_DIVIDER_16 # mmio_log s\<rparr>"
  have f: "0 < unat f" "unat f \<le> unat ?n" using assms(2,3) by (simp_all add: word_less_nat_alt word_le_nat_alt unat_gt_0)
  note q = div_div_ge [OF f]
  have nz: "?n div f \<noteq> 0" using q(1) by (simp add: word_unat_eq_iff unat_div)
  have "lapic_timer_get_frequency ?t = Ok (?n div (?n div f), ?t)"
    using nz lapic_timer_get_frequency_run [of ?t] by simp
  moreover have "f \<le> ?n div (?n div f)" using q(2) by (simp add: word_le_nat_alt unat_div)
  moreover have "?n mod f = 0 \<longrightarrow> ?n div (?n div f) = f" using q(3) by (simp add: word_unat_eq_iff unat_div unat_mod)
  ultimately show ?thesis using lapic_timer_set_frequency_run [OF assms(1) _ assms(4,5)] assms(2) by auto
qed

text \<open>Outside that range the timer faults: at once for zero, and at the next reading for a frequency above the timer's own.\<close>

lemma lapic_frequency_faults:
  "\<not> apic_missing s \<Longrightarrow> lapic_timer_set_frequency 0 s = Fault"
  "global_lapic_freq s = 0 \<Longrightarrow> lapic_timer_get_frequency s = Fault"
  "init_lapic_timer_frequency s < f \<Longrightarrow> init_lapic_timer_frequency s div f = 0"
  by (simp_all add: lapic_timer_set_frequency_def lapic_timer_get_frequency_run split_beta word_unat_eq_iff unat_div word_less_nat_alt)

text \<open>An ACPI that was not initialised passes the tests of the drivers.\<close>

lemma apic_uninitialised_passes: "acpi_initialized (acpi_st s) \<noteq> 1 \<Longrightarrow> io_apic_capable s = 1"
  by (simp add: io_apic_capable_def apic_missing_def acpi_get_io_apic_available_def acpi_get_lapic_available_def)

text \<open>The calibration takes two interrupts of the PIT: the first starts the counter, the second stops it.\<close>

lemma on_ints_eoi_run:
  assumes "driver_set_irq_eoi (interrupt_driver (pg_ints (avm (acpi_st s)))) = Some f"
  shows "\<exists>e i. on_ints (kernel_interrupt_set_irq_eoi n) s =
    Ok (e, s\<lparr>acpi_st := (acpi_st s)\<lparr>avm := (avm (acpi_st s))\<lparr>pg_ints := i\<rparr>\<rparr>\<rparr>) \<and> driver_set_irq_eoi (interrupt_driver i) = Some f"
  using assms by (auto simp: on_ints_def kernel_interrupt_set_irq_eoi_def set_vm_def split: prod.splits)

lemma wait_pass_run:
  assumes "driver_set_irq_eoi (interrupt_driver (pg_ints (avm (acpi_st s)))) = Some f"
    and "bus_addr (lapic_base_addr s + LAPIC_TICR) s = Some (c, True)" "bus_addr (lapic_base_addr s + LAPIC_TIMER) s = Some (t, True)"
    and "wait_int s = 1 \<and> x = MWrite c 0xFFFFFFFF \<and> n = 2 \<or> wait_int s = 2 \<and> x = MWrite t LAPIC_LVT_INT_MASKED \<and> n = 0"
  shows "\<exists>i. wait_pass s = Ok (True, s\<lparr>acpi_st := (acpi_st s)\<lparr>avm := (avm (acpi_st s))\<lparr>pg_ints := i\<rparr>\<rparr>, mmio_log := x # mmio_log s, wait_int := n\<rparr>) \<and>
    driver_set_irq_eoi (interrupt_driver i) = Some f"
proof -
  let ?s = "s\<lparr>mmio_log := x # mmio_log s, wait_int := n\<rparr>"
  have "bus_addr v (s\<lparr>wait_int := 2\<rparr>) = bus_addr v s" for v by (simp add: bus_addr_def)
  then have w: "(if wait_int s = 1 then lapic_write LAPIC_TICR 0xFFFFFFFF (s\<lparr>wait_int := wait_int s + 1\<rparr>)
        else if wait_int s = 2
        then andthen (lapic_write LAPIC_TIMER LAPIC_LVT_INT_MASKED s) (\<lambda>s. Ok (s\<lparr>wait_int := 0\<rparr>))
        else Ok s) = Ok ?s"
    using assms(2-4) lapic_write_run [of "s\<lparr>wait_int := 2\<rparr>" LAPIC_TICR c] lapic_write_run [of s LAPIC_TIMER t] by auto
  have "driver_set_irq_eoi (interrupt_driver (pg_ints (avm (acpi_st ?s)))) = Some f" using assms(1) by simp
  from on_ints_eoi_run [OF this, of PIT_IRQ_LINE] obtain e i where
    "on_ints (kernel_interrupt_set_irq_eoi PIT_IRQ_LINE) ?s = Ok (e, ?s\<lparr>acpi_st := (acpi_st ?s)\<lparr>avm := (avm (acpi_st ?s))\<lparr>pg_ints := i\<rparr>\<rparr>\<rparr>)"
    "driver_set_irq_eoi (interrupt_driver i) = Some f" by (elim exE conjE)
  then show ?thesis using assms(4) by (intro exI [of _ i]) (auto simp: wait_pass_def lapic_init_pit_handler_def w)
qed

theorem lapic_calibration_ends:
  assumes "wait_int s = 1" "driver_set_irq_eoi (interrupt_driver (pg_ints (avm (acpi_st s)))) = Some f"
    and "bus_addr (lapic_base_addr s + LAPIC_TICR) s = Some (c, True)" "bus_addr (lapic_base_addr s + LAPIC_TIMER) s = Some (t, True)"
  shows "\<exists>s'. while_do wait_pass s = Ok s' \<and> wait_int s' = 0 \<and>
    mmio_log s' = [MWrite t LAPIC_LVT_INT_MASKED, MWrite c 0xFFFFFFFF] @ mmio_log s"
proof -
  have b: "bus_addr v (r\<lparr>wait_int := n\<rparr>) = bus_addr v r" for v r n by (simp add: bus_addr_def)
  from wait_pass_run [OF assms(2-4), of "MWrite c 0xFFFFFFFF" 2] assms(1) obtain i where
    1: "wait_pass s = Ok (True, s\<lparr>acpi_st := (acpi_st s)\<lparr>avm := (avm (acpi_st s))\<lparr>pg_ints := i\<rparr>\<rparr>, mmio_log := MWrite c 0xFFFFFFFF # mmio_log s, wait_int := 2\<rparr>)"
      "driver_set_irq_eoi (interrupt_driver i) = Some f" by (auto simp only: simp_thms)
  let ?s1 = "s\<lparr>acpi_st := (acpi_st s)\<lparr>avm := (avm (acpi_st s))\<lparr>pg_ints := i\<rparr>\<rparr>, mmio_log := MWrite c 0xFFFFFFFF # mmio_log s, wait_int := 2\<rparr>"
  have "\<exists>j. wait_pass ?s1 = Ok (True, ?s1\<lparr>acpi_st := (acpi_st ?s1)\<lparr>avm := (avm (acpi_st ?s1))\<lparr>pg_ints := j\<rparr>\<rparr>,
      mmio_log := MWrite t LAPIC_LVT_INT_MASKED # mmio_log ?s1, wait_int := 0\<rparr>) \<and> driver_set_irq_eoi (interrupt_driver j) = Some f"
    using 1(2) assms(3,4) by (intro wait_pass_run) (simp_all add: b)
  then obtain s2 where 2: "wait_pass ?s1 = Ok (True, s2)" "wait_int s2 = 0"
      "mmio_log s2 = [MWrite t LAPIC_LVT_INT_MASKED, MWrite c 0xFFFFFFFF] @ mmio_log s" by (elim exE conjE) simp
  have "while_do wait_pass s = while_do wait_pass s2" by (subst while_do_unfold, simp add: 1(1), subst while_do_unfold, simp add: 2(1))
  also have "\<dots> = Ok s2" by (subst while_do_unfold) (simp add: wait_pass_def 2(2))
  finally show ?thesis using 2(2,3) by simp
qed

section \<open>An example machine\<close>

text \<open>The tables of \<open>ex_acpi\<close>, with the registers at their usual addresses; the command register is idle at its third reading.\<close>

definition ex_apic :: apic where
  "ex_apic =
     \<lparr>acpi_st = ex_acpi\<lparr>cpu_count := 1, cpu_lapic := [0x102C, 0, 0, 0], io_apic_count := 1, io_apic_tables := [0x1034]\<rparr>,
      mmio_device = (\<lambda>l a. if length l < 4 then ICR_SEND_PENDING else 0), mmio_log = [], io_apic_enabled = 0,
      io_apic_base_addr = 0xFEC00000, max_redirect_count = 24, lapic_base_addr = 0xFEE00000, wait_int = 1,
      global_lapic_freq = 1, init_lapic_timer_frequency = 100000000\<rparr>"

lemma ex_bus: "bus_addr v ex_apic = Some (v, True)"
  by (simp add: bus_addr_def ex_apic_def ex_acpi_def)

lemma ex_remap: "acpi_get_remmaped_irq 0 (acpi_st ex_apic) = Ok 2"
proof -
  have v: "avm (acpi_st ex_apic) = avm ex_acpi" "madt (acpi_st ex_apic) = 0x1000" "acpi_initialized (acpi_st ex_apic) = 1"
    "madt_parse_success (acpi_st ex_apic) = 1" by (simp_all add: ex_apic_def ex_acpi_def)
  have "tiled (avm ex_acpi) 0x102C 0x1054 [0x102C, 0x1034, 0x1040, 0x104A]" by code_simp
  note w = remap_walk [OF this, of 0]
  have "map_option (\<lambda>e. word_at (e + 4) (avm ex_acpi)) (find (overrides (avm ex_acpi) 0) [0x102C, 0x1034, 0x1040, 0x104A]) = Some 2"
    by code_simp
  with w obtain q where "while_do (remap_pass 0 0x1054 (avm ex_acpi)) (0x102C, None) = Ok (q, Some 2)" by (simp only:) (elim exE)
  moreover have "header_length 0x1000 (avm ex_acpi) = Ok 84" by code_simp
  ultimately show ?thesis by (simp add: acpi_get_remmaped_irq_def v sizeof_acpi_madt_def)
qed

theorem io_apic_set_irq_mask_programs_witness:
  "\<exists>s' lo. io_apic_set_irq_mask 0 1 ex_apic = Ok (OS_NO_ERR, s') \<and> s' = ex_apic\<lparr>mmio_log := mmio_log s'\<rparr> \<and>
    io_apic_file 0xFEC00000 0xFEC00010 (mmio_log s') = [0x14 \<mapsto> lo, 0x15 \<mapsto> 0] \<and> take_bit 8 lo = 0x40 \<and> \<not> bit lo 16"
proof -
  have b: "bus_addr (io_apic_base_addr ex_apic) ex_apic = Some (0xFEC00000, True)"
    "bus_addr (io_apic_base_addr ex_apic + 0x10) ex_apic = Some (0xFEC00010, True)" "(0xFEC00000 :: u32) \<noteq> 0xFEC00010"
    using ex_bus by (simp_all add: ex_apic_def)
  have c: "0 < max_redirect_count ex_apic" "mmio_log ex_apic = []" by (simp_all add: ex_apic_def)
  from io_apic_set_irq_mask_programs [OF _ ex_remap b, of 1] c(1) obtain s' lo where
    "io_apic_set_irq_mask 0 1 ex_apic = Ok (OS_NO_ERR, s')" "s' = ex_apic\<lparr>mmio_log := mmio_log s'\<rparr>"
    "io_apic_file 0xFEC00000 0xFEC00010 (mmio_log s') = (io_apic_file 0xFEC00000 0xFEC00010 (mmio_log ex_apic))(0x10 + 2 * 2 \<mapsto> lo, 0x11 + 2 * 2 \<mapsto> 0)"
    "take_bit 8 lo = 0 + 0x40" "bit lo 16 \<longleftrightarrow> \<not> bit (1 :: u32) 0" by auto
  then show ?thesis using c(2) by (intro exI [of _ s'] exI [of _ lo]) (simp add: bit_0)
qed

theorem send_command_delivers_witness:
  "send_command 7 0x4500 ex_apic = Ok (OS_NO_ERR, ex_apic\<lparr>mmio_log :=
     [MRead 0xFEE00300, MRead 0xFEE00300, MRead 0xFEE00300, MWrite 0xFEE00300 0x4500, MWrite 0xFEE00310 0x07000000]\<rparr>)"
proof -
  have m: "\<not> apic_missing ex_apic" "acpi_check_lapic_id 7 (acpi_st ex_apic) = Ok OS_NO_ERR" by code_simp+
  have "clears_after 2 0xFEE00300 (ex_apic\<lparr>mmio_log := MWrite 0xFEE00300 0x4500 # MWrite 0xFEE00310 (push_bit 24 7) # mmio_log ex_apic\<rparr>)"
    by (simp add: clears_after_def ex_apic_def lapic_consts)
  from send_command_delivers [OF m _ _ this] show ?thesis
    by (simp add: ex_bus numeral_2_eq_2) (simp add: ex_apic_def lapic_consts)
qed

theorem lapic_frequency_read_back_witness:
  "\<exists>s' g. lapic_timer_set_frequency 1000 ex_apic = Ok (OS_NO_ERR, s') \<and> lapic_timer_get_frequency s' = Ok (g, s') \<and> g = 1000"
proof -
  have "\<not> apic_missing ex_apic" by code_simp
  from lapic_frequency_read_back [of ex_apic 1000, OF this _ _ ex_bus ex_bus] show ?thesis by (auto simp: ex_apic_def)
qed

theorem lapic_calibration_ends_witness:
  "\<exists>s'. while_do wait_pass (set_vm ((avm (acpi_st ex_apic))\<lparr>pg_ints := snd (kernel_interrupt_init 0xDEAD blank_ints)\<rparr>) ex_apic) = Ok s' \<and>
    wait_int s' = 0 \<and> mmio_log s' = [MWrite 0xFEE00320 LAPIC_LVT_INT_MASKED, MWrite 0xFEE00380 0xFFFFFFFF]"
proof -
  let ?s = "set_vm ((avm (acpi_st ex_apic))\<lparr>pg_ints := snd (kernel_interrupt_init 0xDEAD blank_ints)\<rparr>) ex_apic"
  have "wait_int ?s = 1" "lapic_base_addr ?s = 0xFEE00000" "mmio_log ?s = []" by (simp_all add: set_vm_def ex_apic_def)
  moreover have "bus_addr v ?s = Some (v, True)" for v using ex_bus [of v] by (simp add: set_vm_def)
  moreover have "driver_set_irq_eoi (interrupt_driver (pg_ints (avm (acpi_st ?s)))) = Some init_driver_set_irq_eoi"
    by (simp add: set_vm_def kernel_interrupt_init_def Let_def split: prod.splits)
  ultimately show ?thesis using lapic_calibration_ends [of ?s "init_driver_set_irq_eoi" "0xFEE00380" "0xFEE00320"] by (simp add: lapic_consts)
qed

end
