(* ===== verification/Ata.thy ===== *)
theory Ata
  imports Interrupts
begin

unbundle bit_operations_syntax

text \<open>
  The disk driver (\<^verbatim>\<open>Sources/arch/x86/ata_pio.c\<close>), in the configuration of \<^verbatim>\<open>config.h\<close>, which looks for disks on the primary
  port. The accesses to the ports are recorded with their width, newest first, and what a port answers is a function of the
  accesses so far, a parameter of the model. A buffer is the list of its bytes; an access outside of it is a \<open>Fault\<close>. The
  messages are left out.
\<close>

section \<open>Ports of two widths\<close>

datatype ata_event = OutByte u16 u8 | InByte u16 | OutWord u16 u16 | InWord u16

record ata =
  ata_ints :: int_state
  ata_device :: "ata_event list \<Rightarrow> u16 \<Rightarrow> u16"
  ata_log :: "ata_event list"

definition out_byte :: "u8 \<Rightarrow> u16 \<Rightarrow> ata \<Rightarrow> ata" where
  "out_byte v p s = s\<lparr>ata_log := OutByte p v # ata_log s\<rparr>"

definition in_byte :: "u16 \<Rightarrow> ata \<Rightarrow> u8 \<times> ata" where
  "in_byte p s = (ucast (ata_device s (ata_log s) p), s\<lparr>ata_log := InByte p # ata_log s\<rparr>)"

definition out_word :: "u16 \<Rightarrow> u16 \<Rightarrow> ata \<Rightarrow> ata" where
  "out_word v p s = s\<lparr>ata_log := OutWord p v # ata_log s\<rparr>"

definition in_word :: "u16 \<Rightarrow> ata \<Rightarrow> u16 \<times> ata" where
  "in_word p s = (ata_device s (ata_log s) p, s\<lparr>ata_log := InWord p # ata_log s\<rparr>)"

definition ata_enter :: "ata \<Rightarrow> u32 \<times> ata" where
  "ata_enter s = (let (x, i) = kernel_interrupt_disable (ata_ints s) in (x, s\<lparr>ata_ints := i\<rparr>))"

definition ata_exit :: "u32 \<Rightarrow> ata \<Rightarrow> ata" where
  "ata_exit x s = s\<lparr>ata_ints := kernel_interrupt_restore x (ata_ints s)\<rparr>"

section \<open>Devices\<close>

datatype ATA_PIO_TYPE_E = MASTER | SLAVE

record ata_pio_device_t =
  port :: u16
  dtype :: ATA_PIO_TYPE_E

definition ATA_PIO_PRIMARY_PORT_ADDRESS :: u16 where "ATA_PIO_PRIMARY_PORT_ADDRESS = 0x1F0"
definition ATA_PIO_DATA_PORT_OFFSET :: u16 where "ATA_PIO_DATA_PORT_OFFSET = 0"
definition ATA_PIO_ERROR_PORT_OFFSET :: u16 where "ATA_PIO_ERROR_PORT_OFFSET = 1"
definition ATA_PIO_SC_PORT_OFFSET :: u16 where "ATA_PIO_SC_PORT_OFFSET = 2"
definition ATA_PIO_LBALOW_PORT_OFFSET :: u16 where "ATA_PIO_LBALOW_PORT_OFFSET = 3"
definition ATA_PIO_LBAMID_PORT_OFFSET :: u16 where "ATA_PIO_LBAMID_PORT_OFFSET = 4"
definition ATA_PIO_LBAHIG_PORT_OFFSET :: u16 where "ATA_PIO_LBAHIG_PORT_OFFSET = 5"
definition ATA_PIO_DEVICE_PORT_OFFSET :: u16 where "ATA_PIO_DEVICE_PORT_OFFSET = 6"
definition ATA_PIO_COMMAND_PORT_OFFSET :: u16 where "ATA_PIO_COMMAND_PORT_OFFSET = 7"
definition ATA_PIO_CONTROL_PORT_OFFSET :: u16 where "ATA_PIO_CONTROL_PORT_OFFSET = 0x206"
definition ATA_PIO_IDENTIFY_COMMAND :: u8 where "ATA_PIO_IDENTIFY_COMMAND = 0xEC"
definition ATA_PIO_READ_SECTOR_COMMAND :: u8 where "ATA_PIO_READ_SECTOR_COMMAND = 0x20"
definition ATA_PIO_WRITE_SECTOR_COMMAND :: u8 where "ATA_PIO_WRITE_SECTOR_COMMAND = 0x30"
definition ATA_PIO_FLUSH_SECTOR_COMMAND :: u8 where "ATA_PIO_FLUSH_SECTOR_COMMAND = 0xE7"
definition ATA_PIO_FLAG_BUSY :: u8 where "ATA_PIO_FLAG_BUSY = 0x80"
definition ATA_PIO_FLAG_ERR :: u8 where "ATA_PIO_FLAG_ERR = 1"
definition ATA_PIO_SECTOR_SIZE :: u32 where "ATA_PIO_SECTOR_SIZE = 512"

lemmas ata_consts = ATA_PIO_PRIMARY_PORT_ADDRESS_def ATA_PIO_DATA_PORT_OFFSET_def ATA_PIO_ERROR_PORT_OFFSET_def
  ATA_PIO_SC_PORT_OFFSET_def ATA_PIO_LBALOW_PORT_OFFSET_def ATA_PIO_LBAMID_PORT_OFFSET_def ATA_PIO_LBAHIG_PORT_OFFSET_def
  ATA_PIO_DEVICE_PORT_OFFSET_def ATA_PIO_COMMAND_PORT_OFFSET_def ATA_PIO_CONTROL_PORT_OFFSET_def ATA_PIO_IDENTIFY_COMMAND_def
  ATA_PIO_READ_SECTOR_COMMAND_def ATA_PIO_WRITE_SECTOR_COMMAND_def ATA_PIO_FLUSH_SECTOR_COMMAND_def ATA_PIO_FLAG_BUSY_def
  ATA_PIO_FLAG_ERR_def ATA_PIO_SECTOR_SIZE_def

section \<open>Operations\<close>

text \<open>The loop that reads the status while the device is busy and reports no error.\<close>

definition busy_pass :: "u16 \<Rightarrow> u8 \<times> ata \<Rightarrow> (bool \<times> u8 \<times> ata) outcome" where
  "busy_pass p = (\<lambda>(status, s).
     if status AND ATA_PIO_FLAG_BUSY = ATA_PIO_FLAG_BUSY \<and> status AND ATA_PIO_FLAG_ERR \<noteq> ATA_PIO_FLAG_ERR
     then let (status, s) = in_byte p s in Ok (True, status, s)
     else Ok (False, status, s))"

primrec identify_words :: "nat \<Rightarrow> u16 \<Rightarrow> ata \<Rightarrow> ata" where
  "identify_words 0 p s = s"
| "identify_words (Suc n) p s = identify_words n p (snd (in_word p s))"

definition ata_pio_identify_device :: "ata_pio_device_t \<Rightarrow> ata \<Rightarrow> (OS_RETURN_E \<times> ata) outcome" where
  "ata_pio_identify_device dev s =
     (let select = (if dtype dev = MASTER then 0xA0 else 0xB0);
          command = port dev + ATA_PIO_COMMAND_PORT_OFFSET;
          s = out_byte select (port dev + ATA_PIO_DEVICE_PORT_OFFSET) s;
          s = out_byte 0 (port dev + ATA_PIO_CONTROL_PORT_OFFSET) s;
          (status, s) = in_byte command s
      in if status = 0xFF then Ok (OS_ERR_ATA_DEVICE_NOT_PRESENT, s)
         else let s = out_byte select (port dev + ATA_PIO_DEVICE_PORT_OFFSET) s;
                  s = out_byte 0 (port dev + ATA_PIO_SC_PORT_OFFSET) s;
                  s = out_byte 0 (port dev + ATA_PIO_LBALOW_PORT_OFFSET) s;
                  s = out_byte 0 (port dev + ATA_PIO_LBAMID_PORT_OFFSET) s;
                  s = out_byte 0 (port dev + ATA_PIO_LBAHIG_PORT_OFFSET) s;
                  s = out_byte ATA_PIO_IDENTIFY_COMMAND command s;
                  (status, s) = in_byte command s
              in if status = 0 then Ok (OS_ERR_ATA_DEVICE_NOT_PRESENT, s)
                 else andthen (while_do (busy_pass command) (status, s)) (\<lambda>(status, s).
                      if status AND ATA_PIO_FLAG_ERR = ATA_PIO_FLAG_ERR then Ok (OS_ERR_ATA_DEVICE_ERROR, s)
                      else Ok (OS_NO_ERR, identify_words 256 (port dev + ATA_PIO_DATA_PORT_OFFSET) s)))"

definition ata_pio_init :: "ata \<Rightarrow> (OS_RETURN_E \<times> ata) outcome" where
  "ata_pio_init s =
     andthen (ata_pio_identify_device \<lparr>port = ATA_PIO_PRIMARY_PORT_ADDRESS, dtype = MASTER\<rparr> s) (\<lambda>(_, s).
     andthen (ata_pio_identify_device \<lparr>port = ATA_PIO_PRIMARY_PORT_ADDRESS, dtype = SLAVE\<rparr> s) (\<lambda>(err, s).
     Ok (if err = OS_ERR_ATA_DEVICE_NOT_PRESENT then OS_NO_ERR else err, s)))"

text \<open>The registers that select a sector, and the command.\<close>

definition address_sector :: "ata_pio_device_t \<Rightarrow> u32 \<Rightarrow> u8 \<Rightarrow> ata \<Rightarrow> ata" where
  "address_sector dev sector command s =
     (let s = out_byte ((if dtype dev = MASTER then 0xE0 else 0xF0) OR ucast (drop_bit 24 (sector AND 0x0F000000)))
                (port dev + ATA_PIO_DEVICE_PORT_OFFSET) s;
          s = out_byte 0 (port dev + ATA_PIO_ERROR_PORT_OFFSET) s;
          s = out_byte 1 (port dev + ATA_PIO_SC_PORT_OFFSET) s;
          s = out_byte (ucast (sector AND 0x000000FF)) (port dev + ATA_PIO_LBALOW_PORT_OFFSET) s;
          s = out_byte (ucast (drop_bit 8 (sector AND 0x0000FF00))) (port dev + ATA_PIO_LBAMID_PORT_OFFSET) s;
          s = out_byte (ucast (drop_bit 16 (sector AND 0x00FF0000))) (port dev + ATA_PIO_LBAHIG_PORT_OFFSET) s
      in out_byte command (port dev + ATA_PIO_COMMAND_PORT_OFFSET) s)"

text \<open>The loops over the words of a sector. Their counters stay below 514, so that they are natural numbers here.\<close>

function read_words :: "nat \<Rightarrow> nat \<Rightarrow> u16 \<Rightarrow> u8 list \<Rightarrow> ata \<Rightarrow> (u8 list \<times> ata) outcome" where
  "read_words i z p buffer s =
     (if i < z
      then let (w, s) = in_word p s
           in if length buffer \<le> i then Fault
              else let buffer = buffer[i := ucast (w AND 0xFF)]
                   in if i + 1 < z
                      then if length buffer \<le> i + 1 then Fault
                           else read_words (i + 2) z p (buffer[i + 1 := ucast (drop_bit 8 w AND 0xFF)]) s
                      else read_words (i + 2) z p buffer s
      else Ok (buffer, s))"
  by pat_completeness auto

termination by (relation "measure (\<lambda>(i, z, _). z - i)") auto

function skip_words :: "nat \<Rightarrow> u16 \<Rightarrow> ata \<Rightarrow> ata" where
  "skip_words i p s = (if i < 512 then skip_words (i + 2) p (snd (in_word p s)) else s)"
  by pat_completeness auto

termination by (relation "measure (\<lambda>(i, _). 512 - i)") auto

function write_words :: "nat \<Rightarrow> nat \<Rightarrow> u16 \<Rightarrow> u8 list \<Rightarrow> ata \<Rightarrow> ata outcome" where
  "write_words i z p buffer s =
     (if i < z
      then if length buffer \<le> i then Fault
           else let w = ucast (buffer ! i) AND 0x00FF
                in if i + 1 < z
                   then if length buffer \<le> i + 1 then Fault
                        else write_words (i + 2) z p buffer (out_word (w OR push_bit 8 (ucast (buffer ! (i + 1)))) p s)
                   else write_words (i + 2) z p buffer (out_word w p s)
      else Ok s)"
  by pat_completeness auto

termination by (relation "measure (\<lambda>(i, z, _). z - i)") auto

function pad_words :: "nat \<Rightarrow> u16 \<Rightarrow> ata \<Rightarrow> ata" where
  "pad_words i p s = (if i < 512 then pad_words (i + 2) p (out_word 0 p s) else s)"
  by pat_completeness auto

termination by (relation "measure (\<lambda>(i, _). 512 - i)") auto

declare read_words.simps [simp del] skip_words.simps [simp del] write_words.simps [simp del] pad_words.simps [simp del]

definition ata_pio_read_sector :: "ata_pio_device_t \<Rightarrow> u32 \<Rightarrow> u8 list \<Rightarrow> u32 \<Rightarrow> ata \<Rightarrow> (OS_RETURN_E \<times> u8 list \<times> ata) outcome" where
  "ata_pio_read_sector dev sector buffer sz s =
     (if sector > 0x0FFFFFFF then Ok (OS_ERR_ATA_BAD_SECTOR_NUMBER, buffer, s)
      else if sz > ATA_PIO_SECTOR_SIZE then Ok (OS_ERR_ATA_SIZE_TO_HUGE, buffer, s)
      else let (int_state, s) = ata_enter s;
               s = address_sector dev sector ATA_PIO_READ_SECTOR_COMMAND s;
               (status, s) = in_byte (port dev + ATA_PIO_COMMAND_PORT_OFFSET) s
           in if status = 0 then Ok (OS_ERR_ATA_DEVICE_NOT_PRESENT, buffer, ata_exit int_state s)
              else andthen (while_do (busy_pass (port dev + ATA_PIO_COMMAND_PORT_OFFSET)) (status, s)) (\<lambda>(status, s).
                   if status AND ATA_PIO_FLAG_ERR = ATA_PIO_FLAG_ERR then Ok (OS_ERR_ATA_DEVICE_ERROR, buffer, ata_exit int_state s)
                   else andthen (read_words 0 (unat sz) (port dev + ATA_PIO_DATA_PORT_OFFSET) buffer s) (\<lambda>(buffer, s).
                        let s = skip_words (unat (sz + sz mod 2)) (port dev + ATA_PIO_DATA_PORT_OFFSET) s
                        in Ok (OS_NO_ERR, buffer, ata_exit int_state s))))"

definition ata_pio_flush :: "ata_pio_device_t \<Rightarrow> ata \<Rightarrow> (OS_RETURN_E \<times> ata) outcome" where
  "ata_pio_flush dev s =
     (let (int_state, s) = ata_enter s;
          s = out_byte (if dtype dev = MASTER then 0xE0 else 0xF0) (port dev + ATA_PIO_DEVICE_PORT_OFFSET) s;
          s = out_byte ATA_PIO_FLUSH_SECTOR_COMMAND (port dev + ATA_PIO_COMMAND_PORT_OFFSET) s;
          (status, s) = in_byte (port dev + ATA_PIO_COMMAND_PORT_OFFSET) s
      in if status = 0 then Ok (OS_ERR_ATA_DEVICE_NOT_PRESENT, ata_exit int_state s)
         else if status = 0 then Ok (OS_ERR_ATA_DEVICE_ERROR, ata_exit int_state s)
         else andthen (while_do (busy_pass (port dev + ATA_PIO_COMMAND_PORT_OFFSET)) (status, s)) (\<lambda>(status, s).
              if status AND ATA_PIO_FLAG_ERR = 1 then Ok (OS_ERR_ATA_DEVICE_ERROR, ata_exit int_state s)
              else Ok (OS_NO_ERR, ata_exit int_state s)))"

definition ata_pio_write_sector :: "ata_pio_device_t \<Rightarrow> u32 \<Rightarrow> u8 list \<Rightarrow> u32 \<Rightarrow> ata \<Rightarrow> (OS_RETURN_E \<times> ata) outcome" where
  "ata_pio_write_sector dev sector buffer sz s =
     (if sector > 0x0FFFFFFF then Ok (OS_ERR_ATA_BAD_SECTOR_NUMBER, s)
      else if sz > ATA_PIO_SECTOR_SIZE then Ok (OS_ERR_ATA_SIZE_TO_HUGE, s)
      else let (int_state, s) = ata_enter s;
               s = address_sector dev sector ATA_PIO_WRITE_SECTOR_COMMAND s
           in andthen (write_words 0 (unat sz) (port dev + ATA_PIO_DATA_PORT_OFFSET) buffer s) (\<lambda>s.
              let s = pad_words (unat (sz + sz mod 2)) (port dev + ATA_PIO_DATA_PORT_OFFSET) s
              in ata_pio_flush dev (ata_exit int_state s)))"

section \<open>Loops\<close>

text \<open>The word that the port answers after \<open>k\<close> more readings, and the bytes of these words, low byte first.\<close>

definition answer :: "u16 \<Rightarrow> ata \<Rightarrow> nat \<Rightarrow> u16" where
  "answer p s k = ata_device s (replicate k (InWord p) @ ata_log s) p"

definition word_byte :: "(nat \<Rightarrow> u16) \<Rightarrow> nat \<Rightarrow> u8" where
  "word_byte ws m = (if even m then ucast (ws (m div 2)) else ucast (drop_bit 8 (ws (m div 2))))"

lemma answer_next: "answer p (s\<lparr>ata_log := InWord p # ata_log s\<rparr>) k = answer p s (Suc k)"
  by (simp add: answer_def replicate_app_Cons_same)

lemma byte_mask: "(0xFF :: u16) = mask 8" by (simp add: mask_eq_exp_minus_1)

lemma low_byte: "ucast (w AND 0xFF) = (ucast w :: u8)" "ucast (drop_bit 8 w AND 0xFF) = (ucast (drop_bit 8 w) :: u8)" for w :: u16
proof -
  have "ucast (x AND 0xFF) = (ucast x :: u8)" for x :: u16
  proof (rule bit_eqI)
    fix n assume "possible_bit TYPE(u8) n"
    then have "n < 8" by (simp add: possible_bit_def)
    then have "bit (0xFF :: u16) n" unfolding byte_mask by (simp add: bit_mask_iff)
    with \<open>n < 8\<close> show "bit (ucast (x AND 0xFF) :: u8) n = bit (ucast x :: u8) n"
      by (simp add: bit_ucast_iff bit_and_iff)
  qed
  then show "ucast (w AND 0xFF) = (ucast w :: u8)" "ucast (drop_bit 8 w AND 0xFF) = (ucast (drop_bit 8 w) :: u8)" by simp_all
qed

lemma read_words_run:
  assumes "z \<le> length buffer"
  shows "\<exists>b. read_words i z p buffer s = Ok (b, s\<lparr>ata_log := replicate ((z + 1 - i) div 2) (InWord p) @ ata_log s\<rparr>) \<and>
    length b = length buffer \<and>
    (\<forall>j < length buffer. b ! j = (if i \<le> j \<and> j < z then word_byte (answer p s) (j - i) else buffer ! j))"
  using assms
proof (induction "z - i" arbitrary: i buffer s rule: less_induct)
  case less
  let ?w = "answer p s 0" and ?s = "s\<lparr>ata_log := InWord p # ata_log s\<rparr>"
  have w: "in_word p s = (?w, ?s)" by (simp add: in_word_def answer_def)
  show ?case
  proof (cases "i < z")
    case False
    then show ?thesis by (subst read_words.simps) auto
  next
    case True
    let ?b1 = "buffer[i := ucast ?w]"
    define b2 where "b2 = (if i + 1 < z then ?b1[i + 1 := ucast (drop_bit 8 ?w)] else ?b1)"
    have st: "read_words i z p buffer s = read_words (i + 2) z p b2 ?s"
      using True less.prems by (subst read_words.simps) (simp add: w low_byte b2_def)
    have len: "length b2 = length buffer" by (simp add: b2_def)
    have "z - (i + 2) < z - i" "z \<le> length b2" using True less.prems len by simp_all
    from less.hyps [OF this, of ?s] obtain b where
      b: "read_words (i + 2) z p b2 ?s = Ok (b, ?s\<lparr>ata_log := replicate ((z + 1 - (i + 2)) div 2) (InWord p) @ ata_log ?s\<rparr>)"
        "length b = length b2"
        "\<forall>j < length b2. b ! j = (if i + 2 \<le> j \<and> j < z then word_byte (answer p ?s) (j - (i + 2)) else b2 ! j)"
      by (elim exE conjE)
    have bj: "j < length buffer \<Longrightarrow> b ! j = (if i + 2 \<le> j \<and> j < z then word_byte (answer p ?s) (j - (i + 2)) else b2 ! j)" for j
      using b(3) len by simp
    have "(z + 1 - i) div 2 = Suc ((z + 1 - (i + 2)) div 2)" using True by linarith
    then have l: "replicate ((z + 1 - (i + 2)) div 2) (InWord p) @ ata_log ?s = replicate ((z + 1 - i) div 2) (InWord p) @ ata_log s"
      by (simp add: replicate_app_Cons_same)
    have "b ! j = (if i \<le> j \<and> j < z then word_byte (answer p s) (j - i) else buffer ! j)" if j: "j < length buffer" for j
    proof -
      consider "j < i" | "j = i" | "j = i + 1" | "i + 2 \<le> j" by linarith
      then show ?thesis
      proof cases
        case 4
        then have "j - i = (j - (i + 2)) + 2" by simp
        then have "word_byte (answer p ?s) (j - (i + 2)) = word_byte (answer p s) (j - i)"
          by (simp add: word_byte_def answer_next)
        then show ?thesis using bj [OF j] 4 by (simp add: b2_def)
      qed (use bj [OF j] j True less.prems in \<open>simp_all add: word_byte_def b2_def nth_list_update\<close>)
    qed
    then show ?thesis using st b(1,2) l len by (intro exI [of _ b]) simp
  qed
qed

lemma skip_words_run: "skip_words i p s = s\<lparr>ata_log := replicate ((513 - i) div 2) (InWord p) @ ata_log s\<rparr>"
proof (induction "512 - i" arbitrary: i s rule: less_induct)
  case less
  show ?case
  proof (cases "i < 512")
    case True
    then have "(513 - i) div 2 = Suc ((513 - (i + 2)) div 2)" by linarith
    with True less.hyps [of "i + 2" "snd (in_word p s)"] show ?thesis
      by (subst skip_words.simps) (simp add: in_word_def replicate_app_Cons_same)
  qed (subst skip_words.simps, simp)
qed

text \<open>The words that a write sends: the bytes two by two, then zeros up to the size of a sector.\<close>

definition sector_word :: "nat \<Rightarrow> u8 list \<Rightarrow> nat \<Rightarrow> u16" where
  "sector_word z buffer k =
     (if 2 * k < z then ucast (buffer ! (2 * k)) OR (if 2 * k + 1 < z then push_bit 8 (ucast (buffer ! (2 * k + 1))) else 0) else 0)"

lemma ucast_low: "(ucast (b :: u8) :: u16) AND 0x00FF = ucast b"
proof (rule bit_eqI)
  fix n assume "possible_bit TYPE(u16) n"
  have "n < 8 \<Longrightarrow> bit (0xFF :: u16) n" unfolding byte_mask by (simp add: bit_mask_iff)
  then show "bit ((ucast b :: u16) AND 0x00FF) n = bit (ucast b :: u16) n"
    by (auto simp: bit_and_iff bit_ucast_iff dest: bit_imp_le_length)
qed

lemma write_words_run:
  assumes "z \<le> length buffer" "even i" "k = i div 2" "n = (z + 1 - i) div 2"
  shows "write_words i z p buffer s = Ok (s\<lparr>ata_log := rev (map (\<lambda>j. OutWord p (sector_word z buffer j)) [k..<k + n]) @ ata_log s\<rparr>)"
  using assms(2-4)
proof (induction n arbitrary: i k s)
  case 0
  then have "\<not> i < z" by linarith
  then show ?case by (subst write_words.simps) simp
next
  case (Suc n)
  then have i: "i < z" by linarith
  have k: "i = 2 * k" using Suc.prems(1,2) by simp
  have "write_words i z p buffer s = write_words (i + 2) z p buffer (out_word (sector_word z buffer k) p s)"
    using i assms(1) k by (subst write_words.simps) (simp add: sector_word_def ucast_low)
  also have "\<dots> = Ok (out_word (sector_word z buffer k) p s
      \<lparr>ata_log := rev (map (\<lambda>j. OutWord p (sector_word z buffer j)) [Suc k..<Suc k + n]) @ ata_log (out_word (sector_word z buffer k) p s)\<rparr>)"
  proof (rule Suc.IH)
    show "even (i + 2)" "Suc k = (i + 2) div 2" using Suc.prems(1,2) by simp_all
    show "n = (z + 1 - (i + 2)) div 2" using Suc.prems(3) i by linarith
  qed
  finally show ?case by (simp add: out_word_def upt_conv_Cons del: upt_Suc)
qed

lemma pad_words_run: "pad_words i p s = s\<lparr>ata_log := replicate ((513 - i) div 2) (OutWord p 0) @ ata_log s\<rparr>"
proof (induction "512 - i" arbitrary: i s rule: less_induct)
  case less
  show ?case
  proof (cases "i < 512")
    case True
    then have "(513 - i) div 2 = Suc ((513 - (i + 2)) div 2)" by linarith
    with True less.hyps [of "i + 2" "out_word 0 p s"] show ?thesis
      by (subst pad_words.simps) (simp add: out_word_def replicate_app_Cons_same)
  qed (subst pad_words.simps, simp)
qed

section \<open>Sectors\<close>

definition address_events :: "ata_pio_device_t \<Rightarrow> u32 \<Rightarrow> u8 \<Rightarrow> ata_event list" where
  "address_events dev sector command =
     [OutByte (port dev + 7) command, OutByte (port dev + 5) (ucast (drop_bit 16 (sector AND 0x00FF0000))),
      OutByte (port dev + 4) (ucast (drop_bit 8 (sector AND 0x0000FF00))), OutByte (port dev + 3) (ucast (sector AND 0x000000FF)),
      OutByte (port dev + 2) 1, OutByte (port dev + 1) 0,
      OutByte (port dev + 6) ((if dtype dev = MASTER then 0xE0 else 0xF0) OR ucast (drop_bit 24 (sector AND 0x0F000000)))]"

definition flush_events :: "ata_pio_device_t \<Rightarrow> ata_event list" where
  "flush_events dev = [OutByte (port dev + 7) 0xE7, OutByte (port dev + 6) (if dtype dev = MASTER then 0xE0 else 0xF0)]"

lemma address_sector_run: "address_sector dev sector command s = s\<lparr>ata_log := address_events dev sector command @ ata_log s\<rparr>"
  by (simp add: address_sector_def address_events_def out_byte_def ata_consts Let_def)

text \<open>The status that the device reports after \<open>k\<close> readings: it is busy for \<open>n\<close> of them, then ready.\<close>

definition status_at :: "u16 \<Rightarrow> ata \<Rightarrow> nat \<Rightarrow> u8" where
  "status_at p s k = ucast (ata_device s (replicate k (InByte p) @ ata_log s) p)"

definition settles :: "nat \<Rightarrow> u16 \<Rightarrow> ata \<Rightarrow> bool" where
  "settles n p s \<longleftrightarrow>
     list_all (\<lambda>k. status_at p s k AND 0x80 = 0x80 \<and> status_at p s k AND 1 = 0) [0..<n] \<and>
     status_at p s n \<noteq> 0 \<and> status_at p s n AND 0x80 = 0 \<and> status_at p s n AND 1 = 0"

lemma settles_iff:
  "settles n p s \<longleftrightarrow> (\<forall>k < n. status_at p s k AND 0x80 = 0x80 \<and> status_at p s k AND 1 = 0) \<and>
     status_at p s n \<noteq> 0 \<and> status_at p s n AND 0x80 = 0 \<and> status_at p s n AND 1 = 0"
  by (auto simp: settles_def list_all_iff)

lemma status_next: "status_at p (s\<lparr>ata_log := InByte p # ata_log s\<rparr>) k = status_at p s (Suc k)"
  by (simp add: status_at_def replicate_app_Cons_same)

lemma settles_next: "settles (Suc n) p s \<Longrightarrow> settles n p (s\<lparr>ata_log := InByte p # ata_log s\<rparr>)"
  by (simp add: settles_iff status_next)

lemma in_byte_status: "in_byte p s = (status_at p s 0, s\<lparr>ata_log := InByte p # ata_log s\<rparr>)"
  by (simp add: in_byte_def status_at_def)

lemma busy_run:
  "settles n p s \<Longrightarrow> while_do (busy_pass p) (in_byte p s) =
     Ok (status_at p s n, s\<lparr>ata_log := replicate (Suc n) (InByte p) @ ata_log s\<rparr>)"
proof (induction n arbitrary: s)
  case 0
  then show ?case by (subst while_do_unfold) (simp add: in_byte_status busy_pass_def settles_def ata_consts)
next
  case (Suc n)
  let ?t = "s\<lparr>ata_log := InByte p # ata_log s\<rparr>"
  have "status_at p s 0 AND 0x80 = 0x80 \<and> status_at p s 0 AND 1 = 0"
    using Suc.prems by (simp add: settles_iff)
  then have "while_do (busy_pass p) (in_byte p s) = while_do (busy_pass p) (in_byte p ?t)"
    by (subst while_do_unfold) (simp add: in_byte_status [of p s] busy_pass_def ata_consts split_beta)
  with Suc.IH [OF settles_next [OF Suc.prems]] show ?case by (simp add: status_next replicate_app_Cons_same)
qed

lemma settles_first: "settles n p s \<Longrightarrow> status_at p s 0 \<noteq> 0"
  by (cases n) (auto simp: settles_iff)

lemma settles_cong: "ata_device s = ata_device t \<Longrightarrow> ata_log s = ata_log t \<Longrightarrow> settles n p s = settles n p t"
  by (simp add: settles_def status_at_def)

lemma ata_exit_enter: "ata_exit (fst (kernel_interrupt_disable (ata_ints s))) (s\<lparr>ata_ints := snd (kernel_interrupt_disable (ata_ints s)), ata_log := l\<rparr>) = s\<lparr>ata_log := l\<rparr>"
  by (simp add: ata_exit_def kernel_interrupt_restore_def kernel_interrupt_disable_def kernel_interrupt_get_state_def io_defs Let_def)

lemma ata_enter_eq: "ata_enter s = (fst (kernel_interrupt_disable (ata_ints s)), s\<lparr>ata_ints := snd (kernel_interrupt_disable (ata_ints s))\<rparr>)"
  by (simp add: ata_enter_def split_beta)

lemma sector_words:
  assumes "sz \<le> (512 :: u32)"
  shows "unat sz \<le> 512" "unat (sz + sz mod 2) = unat sz + unat sz mod 2"
    "(513 - (unat sz + unat sz mod 2)) div 2 + (unat sz + 1) div 2 = 256"
proof -
  show z: "unat sz \<le> 512" using assms by (simp add: word_le_nat_alt)
  then show "unat (sz + sz mod 2) = unat sz + unat sz mod 2" by (simp add: unat_word_ariths unat_mod)
  have "unat sz + unat sz mod 2 = 2 * ((unat sz + 1) div 2)" by presburger
  then show "(513 - (unat sz + unat sz mod 2)) div 2 + (unat sz + 1) div 2 = 256" using z by linarith
qed

lemma answer_cong: "ata_device s = ata_device t \<Longrightarrow> ata_log s = ata_log t \<Longrightarrow> answer p s = answer p t"
  by (simp add: answer_def fun_eq_iff)

lemma ata_read_sector:
  assumes "sector \<le> 0x0FFFFFFF" "sz \<le> 512" "unat sz \<le> length buffer"
    and "settles n (port dev + 7) (s\<lparr>ata_log := address_events dev sector 0x20 @ ata_log s\<rparr>)"
  defines "l \<equiv> replicate (Suc n) (InByte (port dev + 7)) @ address_events dev sector 0x20 @ ata_log s"
  shows "\<exists>b. ata_pio_read_sector dev sector buffer sz s = Ok (OS_NO_ERR, b, s\<lparr>ata_log := replicate 256 (InWord (port dev)) @ l\<rparr>) \<and>
    length b = length buffer \<and>
    (\<forall>j < length buffer. b ! j = (if j < unat sz then word_byte (answer (port dev) (s\<lparr>ata_log := l\<rparr>)) j else buffer ! j))"
proof -
  let ?s = "s\<lparr>ata_ints := snd (kernel_interrupt_disable (ata_ints s))\<rparr>"
  let ?t = "?s\<lparr>ata_log := address_events dev sector 0x20 @ ata_log s\<rparr>"
  have st: "settles n (port dev + 7) ?t" using assms(4) by (subst settles_cong [where t = "s\<lparr>ata_log := address_events dev sector 0x20 @ ata_log s\<rparr>"]) simp_all
  note b = busy_run [OF st] and f = settles_first [OF st]
  have e: "\<not> status_at (port dev + 7) ?t n AND 1 = 1" using st by (simp add: settles_def)
  from read_words_run [OF assms(3), of 0 "port dev" "?s\<lparr>ata_log := l\<rparr>"] obtain c where
    c: "read_words 0 (unat sz) (port dev) buffer (?s\<lparr>ata_log := l\<rparr>) =
        Ok (c, ?s\<lparr>ata_log := l\<rparr>\<lparr>ata_log := replicate ((unat sz + 1 - 0) div 2) (InWord (port dev)) @ ata_log (?s\<lparr>ata_log := l\<rparr>)\<rparr>)"
      "length c = length buffer"
      "\<forall>j < length buffer. c ! j = (if 0 \<le> j \<and> j < unat sz then word_byte (answer (port dev) (?s\<lparr>ata_log := l\<rparr>)) (j - 0) else buffer ! j)"
    by (elim exE conjE)
  have a: "answer (port dev) (?s\<lparr>ata_log := l\<rparr>) = answer (port dev) (s\<lparr>ata_log := l\<rparr>)" by (rule answer_cong) simp_all
  have r: "replicate ((513 - (unat sz + unat sz mod 2)) div 2) x @ replicate ((unat sz + 1) div 2) x @ xs = replicate 256 x @ xs" for x :: ata_event and xs
    using sector_words(3) [OF assms(2)] by (simp flip: append_assoc replicate_add)
  have "ata_pio_read_sector dev sector buffer sz s =
      andthen (while_do (busy_pass (port dev + 7)) (in_byte (port dev + 7) ?t)) (\<lambda>(status, t).
        if status AND 1 = 1 then Ok (OS_ERR_ATA_DEVICE_ERROR, buffer, ata_exit (fst (kernel_interrupt_disable (ata_ints s))) t)
        else andthen (read_words 0 (unat sz) (port dev) buffer t) (\<lambda>(buffer, t).
          Ok (OS_NO_ERR, buffer, ata_exit (fst (kernel_interrupt_disable (ata_ints s))) (skip_words (unat (sz + sz mod 2)) (port dev) t))))"
    using assms(1,2) [folded not_less] f unfolding ata_pio_read_sector_def ata_enter_eq Let_def ata_consts add_0_right
    by (simp add: address_sector_run in_byte_status)
  also have "\<dots> = Ok (OS_NO_ERR, c, ata_exit (fst (kernel_interrupt_disable (ata_ints s)))
      (?s\<lparr>ata_log := replicate ((513 - (unat sz + unat sz mod 2)) div 2) (InWord (port dev)) @ replicate ((unat sz + 1) div 2) (InWord (port dev)) @ l\<rparr>))"
    unfolding b using e c(1) by (simp add: skip_words_run sector_words(2) [OF assms(2)] l_def)
  finally have "ata_pio_read_sector dev sector buffer sz s = Ok (OS_NO_ERR, c, s\<lparr>ata_log := replicate 256 (InWord (port dev)) @ l\<rparr>)"
    unfolding r ata_exit_enter .
  then show ?thesis using c(2,3) a by (intro exI [of _ c]) simp
qed

definition sector_log :: "ata_pio_device_t \<Rightarrow> (nat \<Rightarrow> u16) \<Rightarrow> ata_event list" where
  "sector_log dev ws = rev (map (\<lambda>k. OutWord (port dev) (ws k)) [0..<256])"

lemma written_words:
  assumes "m \<le> 256" "\<And>k. m \<le> k \<Longrightarrow> ws k = 0"
  shows "replicate (256 - m) (OutWord (port dev) 0) @ rev (map (\<lambda>k. OutWord (port dev) (ws k)) [0..<m]) = sector_log dev ws"
proof -
  have "map (\<lambda>k. OutWord (port dev) (ws k)) [m..<256] = replicate (256 - m) (OutWord (port dev) 0)"
    using assms(2) by (intro replicate_eqI) auto
  then have "map (\<lambda>k. OutWord (port dev) (ws k)) [0..<256] = map (\<lambda>k. OutWord (port dev) (ws k)) [0..<m] @ replicate (256 - m) (OutWord (port dev) 0)"
    using upt_add_eq_append [of 0 m "256 - m"] assms(1) by simp
  then show ?thesis by (simp add: sector_log_def)
qed

lemma ata_flush_run:
  assumes "settles n (port dev + 7) (s\<lparr>ata_log := flush_events dev @ ata_log s\<rparr>)"
  shows "ata_pio_flush dev s = Ok (OS_NO_ERR, s\<lparr>ata_log := replicate (Suc n) (InByte (port dev + 7)) @ flush_events dev @ ata_log s\<rparr>)"
proof -
  let ?s = "s\<lparr>ata_ints := snd (kernel_interrupt_disable (ata_ints s))\<rparr>"
  let ?t = "?s\<lparr>ata_log := flush_events dev @ ata_log s\<rparr>"
  have st: "settles n (port dev + 7) ?t" using assms by (subst settles_cong [where t = "s\<lparr>ata_log := flush_events dev @ ata_log s\<rparr>"]) simp_all
  note b = busy_run [OF st] and f = settles_first [OF st]
  have e: "\<not> status_at (port dev + 7) ?t n AND 1 = 1" using st by (simp add: settles_def)
  have o: "out_byte 0xE7 (port dev + 7) (out_byte (if dtype dev = MASTER then 0xE0 else 0xF0) (port dev + 6) ?s) = ?t"
    by (simp add: out_byte_def flush_events_def)
  have "ata_pio_flush dev s =
      andthen (while_do (busy_pass (port dev + 7)) (in_byte (port dev + 7) ?t)) (\<lambda>(status, t).
        if status AND 1 = 1 then Ok (OS_ERR_ATA_DEVICE_ERROR, ata_exit (fst (kernel_interrupt_disable (ata_ints s))) t)
        else Ok (OS_NO_ERR, ata_exit (fst (kernel_interrupt_disable (ata_ints s))) t))"
    using f unfolding ata_pio_flush_def ata_enter_eq Let_def ata_consts add_0_right prod.case o by (simp add: in_byte_status)
  then show ?thesis unfolding b using e by (simp add: ata_exit_enter del: replicate.simps)
qed

lemma ata_write_sector:
  assumes "sector \<le> 0x0FFFFFFF" "sz \<le> 512" "unat sz \<le> length buffer"
    and "settles n (port dev + 7)
      (s\<lparr>ata_log := flush_events dev @ sector_log dev (sector_word (unat sz) buffer) @ address_events dev sector 0x30 @ ata_log s\<rparr>)"
  shows "ata_pio_write_sector dev sector buffer sz s = Ok (OS_NO_ERR, s\<lparr>ata_log := replicate (Suc n) (InByte (port dev + 7)) @
    flush_events dev @ sector_log dev (sector_word (unat sz) buffer) @ address_events dev sector 0x30 @ ata_log s\<rparr>)"
proof -
  let ?s = "s\<lparr>ata_ints := snd (kernel_interrupt_disable (ata_ints s))\<rparr>"
  let ?t = "?s\<lparr>ata_log := address_events dev sector 0x30 @ ata_log s\<rparr>"
  let ?m = "(unat sz + 1) div 2" and ?ws = "sector_word (unat sz) buffer"
  let ?l = "sector_log dev ?ws @ address_events dev sector 0x30 @ ata_log s"
  have z: "(513 - (unat sz + unat sz mod 2)) div 2 = 256 - ?m" "?m \<le> 256" using sector_words(1,3) [OF assms(2)] by linarith+
  have ws: "?ws k = 0" if "?m \<le> k" for k 
  proof -
    have "\<not> 2 * k < unat sz" using that by linarith
    then show ?thesis by (simp add: sector_word_def)
  qed
  have "ata_pio_write_sector dev sector buffer sz s =
      andthen (write_words 0 (unat sz) (port dev) buffer ?t) (\<lambda>t.
        ata_pio_flush dev (ata_exit (fst (kernel_interrupt_disable (ata_ints s))) (pad_words (unat (sz + sz mod 2)) (port dev) t)))"
    using assms(1,2) [folded not_less] unfolding ata_pio_write_sector_def ata_enter_eq Let_def ata_consts add_0_right
    by (simp add: address_sector_run)
  also have "write_words 0 (unat sz) (port dev) buffer ?t =
      Ok (?t\<lparr>ata_log := rev (map (\<lambda>k. OutWord (port dev) (?ws k)) [0..<0 + ?m]) @ ata_log ?t\<rparr>)"
    by (rule write_words_run [OF assms(3)]) simp_all
  finally have "ata_pio_write_sector dev sector buffer sz s = ata_pio_flush dev (s\<lparr>ata_log := ?l\<rparr>)"
    using ata_exit_enter [of s ?l] written_words [of ?m ?ws dev, OF z(2) ws]
    by (simp add: pad_words_run sector_words(2) [OF assms(2)] z(1) flip: append_assoc)
  with ata_flush_run [of n dev "s\<lparr>ata_log := ?l\<rparr>"] assms(4) show ?thesis by (simp del: replicate.simps)
qed

section \<open>What a write sends\<close>

text \<open>The accesses of a command to a sector, in their order: the drive with the top four bits of the sector number, the
  error register, the number of sectors, the three low bytes of the sector number, and the command.\<close>

definition command_accesses :: "ata_pio_device_t \<Rightarrow> u32 \<Rightarrow> u8 \<Rightarrow> ata_event list" where
  "command_accesses dev sector command =
     [OutByte (port dev + 6) ((if dtype dev = MASTER then 0xE0 else 0xF0) OR ucast (drop_bit 24 sector)), OutByte (port dev + 1) 0,
      OutByte (port dev + 2) 1, OutByte (port dev + 3) (ucast sector), OutByte (port dev + 4) (ucast (drop_bit 8 sector)),
      OutByte (port dev + 5) (ucast (drop_bit 16 sector)), OutByte (port dev + 7) command]"

text \<open>The words of a sector: its bytes two by two, the low one first, filled up with zeros.\<close>

definition sector_data :: "u8 list \<Rightarrow> u16 list" where
  "sector_data bytes =
     (let full = bytes @ replicate (512 - length bytes) 0
      in map (\<lambda>k. ucast (full ! (2 * k)) OR push_bit 8 (ucast (full ! (2 * k + 1)))) [0..<256])"

definition write_accesses :: "ata_pio_device_t \<Rightarrow> u32 \<Rightarrow> u8 list \<Rightarrow> ata_event list" where
  "write_accesses dev sector bytes =
     command_accesses dev sector 0x30 @ map (OutWord (port dev)) (sector_data bytes) @
     [OutByte (port dev + 6) (if dtype dev = MASTER then 0xE0 else 0xF0), OutByte (port dev + 7) 0xE7]"

lemma masked_byte:
  "(ucast (sector AND 0x000000FF) :: u8) = ucast sector" "(ucast (drop_bit 8 (sector AND 0x0000FF00)) :: u8) = ucast (drop_bit 8 sector)"
  "(ucast (drop_bit 16 (sector AND 0x00FF0000)) :: u8) = ucast (drop_bit 16 sector)"
  "sector \<le> 0x0FFFFFFF \<Longrightarrow> (ucast (drop_bit 24 (sector AND 0x0F000000)) :: u8) = ucast (drop_bit 24 sector)" for sector :: u32
proof -
  have m: "(0x000000FF :: u32) = push_bit 0 (mask 8)" "(0x0000FF00 :: u32) = push_bit 8 (mask 8)" "(0x00FF0000 :: u32) = push_bit 16 (mask 8)"
    "(0x0F000000 :: u32) = push_bit 24 (mask 4)" by (simp_all add: mask_eq_exp_minus_1 push_bit_eq_mult)
  have b: "(ucast (drop_bit i (sector AND push_bit i (mask 8))) :: u8) = ucast (drop_bit i sector)" for i
    by (rule bit_eqI) (auto simp: bit_ucast_iff bit_drop_bit_eq bit_and_iff bit_push_bit_iff bit_mask_iff dest: bit_imp_le_length)
  show "(ucast (sector AND 0x000000FF) :: u8) = ucast sector" "(ucast (drop_bit 8 (sector AND 0x0000FF00)) :: u8) = ucast (drop_bit 8 sector)"
    "(ucast (drop_bit 16 (sector AND 0x00FF0000)) :: u8) = ucast (drop_bit 16 sector)"
    unfolding m using b [of 0] b [of 8] b [of 16] by simp_all
  show "(ucast (drop_bit 24 (sector AND 0x0F000000)) :: u8) = ucast (drop_bit 24 sector)" if "sector \<le> 0x0FFFFFFF"
  proof -
    have "unat sector < 2 ^ 28" using that by (simp add: word_le_nat_alt)
    then have "take_bit 28 sector = sector" by (simp add: word_unat_eq_iff unsigned_take_bit_eq take_bit_nat_eq_self)
    then have hi: "n < 4" if "bit sector (24 + n)" for n using bit_take_bit_iff [of 28 sector "24 + n"] that by simp
    show ?thesis unfolding m
      by (rule bit_eqI) (auto simp: bit_ucast_iff bit_drop_bit_eq bit_and_iff bit_push_bit_iff bit_mask_iff dest: hi)
  qed
qed

lemma command_events: "sector \<le> 0x0FFFFFFF \<Longrightarrow> address_events dev sector command = rev (command_accesses dev sector command)"
  unfolding address_events_def command_accesses_def masked_byte(1-3) by (subst masked_byte(4)) simp_all

lemma sector_events:
  assumes "z \<le> 512" "z \<le> length buffer"
  shows "sector_log dev (sector_word z buffer) = rev (map (OutWord (port dev)) (sector_data (take z buffer)))"
proof -
  have "sector_word z buffer k = ucast ((take z buffer @ replicate (512 - z) 0) ! (2 * k)) OR
      push_bit 8 (ucast ((take z buffer @ replicate (512 - z) 0) ! (2 * k + 1)))" if "k < 256" for k
    using that assms by (auto simp: sector_word_def nth_append)
  then show ?thesis using assms by (simp add: sector_log_def sector_data_def Let_def comp_def cong: map_cong)
qed

text \<open>C30. Writing a sector, of a number below \<open>2^28\<close> and with at most 512 bytes, sends exactly the drive, the number of the sector, the
  write command, the bytes two by two filled up with zeros to the 256 words of a sector, and the flush command; then it reads the
  status until the device is no longer busy, for however many readings that takes, and returns with the interrupts as they were. A number or a size that is too
  large is refused and sends nothing. (The driver does not wait for the device to ask for the data; what the device makes of the words is
  outside the statement.)\<close>

theorem ata_write_sector_sends:
  assumes "unat sz \<le> length buffer"
    and "settles n (port dev + 7) (s\<lparr>ata_log := rev (write_accesses dev sector (take (unat sz) buffer)) @ ata_log s\<rparr>)"
  shows "ata_pio_write_sector dev sector buffer sz s =
     (if 0x0FFFFFFF < sector then Ok (OS_ERR_ATA_BAD_SECTOR_NUMBER, s)
      else if 512 < sz then Ok (OS_ERR_ATA_SIZE_TO_HUGE, s)
      else Ok (OS_NO_ERR, s\<lparr>ata_log := replicate (Suc n) (InByte (port dev + 7)) @
             rev (write_accesses dev sector (take (unat sz) buffer)) @ ata_log s\<rparr>))"
proof -
  consider "0x0FFFFFFF < sector" | "\<not> 0x0FFFFFFF < sector" "512 < sz" | "sector \<le> 0x0FFFFFFF" "sz \<le> 512" by (meson not_less)
  then show ?thesis
  proof cases
    case 3
    then have "unat sz \<le> 512" by (simp add: word_le_nat_alt)
    then have e: "rev (write_accesses dev sector (take (unat sz) buffer)) =
        flush_events dev @ sector_log dev (sector_word (unat sz) buffer) @ address_events dev sector 0x30"
      using assms(1) 3(1) by (simp add: write_accesses_def flush_events_def sector_events command_events)
    show ?thesis using ata_write_sector [OF 3 assms(1), of n dev s] assms(2) 3 [folded not_less] unfolding e append_assoc by simp
  qed (simp_all add: ata_pio_write_sector_def ata_consts)
qed

text \<open>A device that stays busy blocks the driver, with the interrupts disabled.\<close>

lemma ata_busy_forever:
  assumes "\<And>l. (ucast (ata_device s l p) :: u8) AND 0x80 = 0x80 \<and> (ucast (ata_device s l p) :: u8) AND 1 = 0"
  shows "while_do (busy_pass p) (in_byte p s) = Diverged"
proof (rule while_do_diverges [of "\<lambda>(st, t). ata_device t = ata_device s \<and> st AND 0x80 = 0x80 \<and> st AND 1 = 0"])
  show "case in_byte p s of (st, t) \<Rightarrow> ata_device t = ata_device s \<and> st AND 0x80 = 0x80 \<and> st AND 1 = 0"
    using assms by (simp add: in_byte_def)
  fix x :: "u8 \<times> ata"
  assume "case x of (st, t) \<Rightarrow> ata_device t = ata_device s \<and> st AND 0x80 = 0x80 \<and> st AND 1 = 0"
  then show "\<exists>y. busy_pass p x = Ok (True, y) \<and> (case y of (st, t) \<Rightarrow> ata_device t = ata_device s \<and> st AND 0x80 = 0x80 \<and> st AND 1 = 0)"
    using assms by (cases x) (auto simp: busy_pass_def in_byte_def ata_consts)
qed

text \<open>The initialisation forgets the error of the first disk.\<close>

lemma ata_init_forgets_master:
  assumes "ata_pio_identify_device \<lparr>port = 0x1F0, dtype = MASTER\<rparr> s = Ok (OS_ERR_ATA_DEVICE_ERROR, s1)"
    and "ata_pio_identify_device \<lparr>port = 0x1F0, dtype = SLAVE\<rparr> s1 = Ok (OS_ERR_ATA_DEVICE_NOT_PRESENT, s2)"
  shows "ata_pio_init s = Ok (OS_NO_ERR, s2)"
  using assms by (simp add: ata_pio_init_def ata_consts)

section \<open>An example disk\<close>

text \<open>A disk that answers that it is busy twice after every command.\<close>

definition ex_disk :: "ata_event list \<Rightarrow> u16 \<Rightarrow> u16" where
  "ex_disk l p = (if length (takeWhile (\<lambda>e. e = InByte p) l) < 2 then 0x80 else 0x40)"

lemma ex_disk_settles:
  "settles 2 0x1F7 (\<lparr>ata_ints = blank_ints, ata_device = ex_disk, ata_log = OutByte 0x1F7 c # l\<rparr>)"
proof -
  have "length (takeWhile (\<lambda>e. e = InByte p) (replicate k (InByte p) @ OutByte q c # l)) = k" for k p q
    by (induction k) simp_all
  then show ?thesis by (simp add: settles_iff status_at_def ex_disk_def)
qed

theorem ata_write_sector_sends_witness:
  "\<exists>s1. ata_pio_write_sector \<lparr>port = 0x1F0, dtype = MASTER\<rparr> 0x1020304 [1, 2, 3] 3
      \<lparr>ata_ints = blank_ints, ata_device = ex_disk, ata_log = []\<rparr> = Ok (OS_NO_ERR, s1) \<and>
    take 13 (rev (ata_log s1)) =
      [OutByte 0x1F6 0xE1, OutByte 0x1F1 0, OutByte 0x1F2 1, OutByte 0x1F3 4, OutByte 0x1F4 3, OutByte 0x1F5 2, OutByte 0x1F7 0x30,
       OutWord 0x1F0 0x201, OutWord 0x1F0 3, OutWord 0x1F0 0, OutWord 0x1F0 0, OutWord 0x1F0 0, OutWord 0x1F0 0]"
proof -
  let ?d = "\<lparr>port = 0x1F0, dtype = MASTER\<rparr>" and ?s = "\<lparr>ata_ints = blank_ints, ata_device = ex_disk, ata_log = []\<rparr>"
  let ?w = "write_accesses ?d 0x1020304 [1, 2, 3]"
  obtain l where l: "rev ?w = OutByte 0x1F7 0xE7 # l" by (simp add: write_accesses_def)
  have "settles 2 (port ?d + 7) (?s\<lparr>ata_log := rev ?w @ ata_log ?s\<rparr>)"
    unfolding l using ex_disk_settles [of "0xE7" l] by simp
  then have "settles 2 (port ?d + 7) (?s\<lparr>ata_log := rev (write_accesses ?d 0x1020304 (take (unat (3 :: u32)) [1, 2, 3])) @ ata_log ?s\<rparr>)"
    by simp
  from ata_write_sector_sends [OF _ this]
  have w: "ata_pio_write_sector ?d 0x1020304 [1, 2, 3] 3 ?s = Ok (OS_NO_ERR, ?s\<lparr>ata_log := replicate (Suc 2) (InByte 0x1F7) @ rev ?w\<rparr>)"
    by (simp del: replicate.simps)
  have "take 13 ?w =
      [OutByte 0x1F6 0xE1, OutByte 0x1F1 0, OutByte 0x1F2 1, OutByte 0x1F3 4, OutByte 0x1F4 3, OutByte 0x1F5 2, OutByte 0x1F7 0x30,
       OutWord 0x1F0 0x201, OutWord 0x1F0 3, OutWord 0x1F0 0, OutWord 0x1F0 0, OutWord 0x1F0 0, OutWord 0x1F0 0]"
    by code_simp
  moreover have "13 \<le> length ?w" by (simp add: write_accesses_def command_accesses_def sector_data_def Let_def)
  ultimately show ?thesis using w by (simp del: replicate.simps)
qed

end
