(* ===== verification/Meminfo.thy ===== *)
theory Meminfo
  imports Acpi
begin

unbundle bit_operations_syntax

text \<open>
  The memory map of the boot loader (\<^verbatim>\<open>Sources/memory/meminfo.c\<close>): its entries are copied to the array of ranges that theory
  \<open>Memalloc\<close> starts from. The information of the loader is read through the page tables. A write past the end of the array
  \<^verbatim>\<open>memory_map_data\<close> of 100 ranges is a \<open>Fault\<close>. The messages are left out, and the bounds that the linker gives to the heap
  and to the kernel are arguments.
\<close>

section \<open>Operations\<close>

record meminfo =
  memory_map_size :: u32
  memory_map_data :: "mem_range list"
  multiboot_data_ptr :: ptr
  total_memory :: u64
  static_used_memory :: u64
  mvm :: vm

definition mmap_pass :: "ptr \<Rightarrow> ptr \<times> u32 \<times> meminfo \<Rightarrow> (bool \<times> ptr \<times> u32 \<times> meminfo) outcome" where
  "mmap_pass mmap_end = (\<lambda>(mmap, i, s).
     if mmap < mmap_end
     then andthen (vquad (mmap + 4) (mvm s)) (\<lambda>addr.
          if i \<noteq> 0 \<and> (ucast addr :: u32) = 0 then Ok (False, mmap, i, s)
          else andthen (vquad (mmap + 12) (mvm s)) (\<lambda>len.
               andthen (vword (mmap + 20) (mvm s)) (\<lambda>ty.
               if unat i < length (memory_map_data s)
               then let s = s\<lparr>total_memory := total_memory s + len,
                              memory_map_data := (memory_map_data s)[unat i :=
                                \<lparr>base = ucast addr, limit = ucast addr + ucast len, range_type = ty\<rparr>]\<rparr>
                    in andthen (vword mmap (mvm s)) (\<lambda>sz. Ok (True, mmap + sz + 4, i + 1, s))
               else Fault)))
     else Ok (False, mmap, i, s))"

definition memory_map_init :: "meminfo \<Rightarrow> (OS_RETURN_E \<times> meminfo) outcome" where
  "memory_map_init s =
     (let s = s\<lparr>multiboot_data_ptr := multiboot_data_ptr s + KERNEL_MEM_OFFSET\<rparr>
      in andthen (vword (multiboot_data_ptr s + 48) (mvm s)) (\<lambda>mmap_addr.
         andthen (vword (multiboot_data_ptr s + 44) (mvm s)) (\<lambda>mmap_length.
         let mmap = mmap_addr + KERNEL_MEM_OFFSET
         in andthen (while_do (mmap_pass (mmap + mmap_length)) (mmap, 0, s)) (\<lambda>(_, i, s).
            Ok (OS_NO_ERR, s\<lparr>memory_map_size := i\<rparr>)))))"

text \<open>The counter of the heap is a word of 32 bits (theory \<open>Kheap\<close>), declared here with 64: \<open>after\<close> is the word that the
  linker places after it.\<close>

definition meminfo_kernel_heap_usage :: "u32 \<Rightarrow> kheap \<Rightarrow> u64" where
  "meminfo_kernel_heap_usage after h = ucast (kheap_mem_used h) OR push_bit 32 (ucast after)"

definition meminfo_kernel_heap_size :: "ptr \<Rightarrow> ptr \<Rightarrow> u64" where
  "meminfo_kernel_heap_size kernel_heap_start kernel_heap_end = ucast (kernel_heap_end - kernel_heap_start)"

definition meminfo_kernel_memory_usage :: "u32 \<Rightarrow> kheap \<Rightarrow> meminfo \<Rightarrow> u64" where
  "meminfo_kernel_memory_usage after h s = static_used_memory s + meminfo_kernel_heap_usage after h"

definition meminfo_kernel_total_size :: "ptr \<Rightarrow> u64" where
  "meminfo_kernel_total_size kernel_end = ucast (kernel_end - KERNEL_MEM_OFFSET)"

definition meminfo_get_memory_size :: "meminfo \<Rightarrow> u64" where
  "meminfo_get_memory_size s = total_memory s"

section \<open>The entries of the boot loader\<close>

text \<open>The entries that the loop takes, from an address on: the range, the length and the address of each.\<close>

record entry =
  e_addr :: u64
  e_len :: u64
  e_type :: u32
  e_size :: u32

definition entry_at :: "ptr \<Rightarrow> vm \<Rightarrow> entry \<Rightarrow> bool" where
  "entry_at p v e \<longleftrightarrow> vquad (p + 4) v = Ok (e_addr e) \<and> vquad (p + 12) v = Ok (e_len e) \<and> vword (p + 20) v = Ok (e_type e) \<and> vword p v = Ok (e_size e)"

primrec boot_map :: "vm \<Rightarrow> ptr \<Rightarrow> ptr \<Rightarrow> entry list \<Rightarrow> bool" where
  "boot_map v p lim [] \<longleftrightarrow> \<not> p < lim"
| "boot_map v p lim (e # es) \<longleftrightarrow> p < lim \<and> entry_at p v e \<and> boot_map v (p + e_size e + 4) lim es"

definition range_of :: "entry \<Rightarrow> mem_range" where
  "range_of e = \<lparr>base = ucast (e_addr e), limit = ucast (e_addr e) + ucast (e_len e), range_type = e_type e\<rparr>"

text \<open>The first entry is always taken; after it the loop stops at the first address whose low word is zero.\<close>

definition taken :: "entry list \<Rightarrow> entry list" where
  "taken es = (case es of [] \<Rightarrow> [] | e # es \<Rightarrow> e # takeWhile (\<lambda>e. (ucast (e_addr e) :: u32) \<noteq> 0) es)"

lemma mmap_loop:
  assumes "boot_map (mvm s) p lim es" "ts = (if i = 0 then taken es else takeWhile (\<lambda>e. (ucast (e_addr e) :: u32) \<noteq> 0) es)"
    and "length (memory_map_data s) = 100" "unat i + length ts \<le> 100"
  shows "\<exists>q. while_do (mmap_pass lim) (p, i, s) = Ok (q, i + of_nat (length ts),
    s\<lparr>memory_map_data := take (unat i) (memory_map_data s) @ map range_of ts @ drop (unat i + length ts) (memory_map_data s),
      total_memory := total_memory s + sum_list (map e_len ts)\<rparr>)"
  using assms
proof (induction es arbitrary: p i s ts)
  case Nil
  then show ?case by (subst while_do_unfold) (simp add: mmap_pass_def taken_def)
next
  case (Cons e es)
  show ?case
  proof (cases "i \<noteq> 0 \<and> (ucast (e_addr e) :: u32) = 0")
    case True
    with Cons.prems show ?thesis by (subst while_do_unfold) (simp add: mmap_pass_def entry_at_def)
  next
    case False
    let ?us = "takeWhile (\<lambda>e. (ucast (e_addr e) :: u32) \<noteq> 0) es"
    have ts: "ts = e # ?us" using False Cons.prems(2) by (auto simp: taken_def)
    let ?s = "s\<lparr>total_memory := total_memory s + e_len e, memory_map_data := (memory_map_data s)[unat i := range_of e]\<rparr>"
    have i: "unat i < 100" using Cons.prems(4) unfolding ts by simp
    have n: "unat (i + 1) = unat i + 1" "i + 1 \<noteq> 0" using i by (simp_all add: unat_word_ariths word_unat_eq_iff)
    have step: "mmap_pass lim (p, i, s) = Ok (True, p + e_size e + 4, i + 1, ?s)"
      using Cons.prems(1,3) i False by (auto simp: mmap_pass_def entry_at_def range_of_def Let_def)
    have "\<exists>q. while_do (mmap_pass lim) (p + e_size e + 4, i + 1, ?s) = Ok (q, i + 1 + of_nat (length ?us),
        ?s\<lparr>memory_map_data := take (unat (i + 1)) (memory_map_data ?s) @ map range_of ?us @ drop (unat (i + 1) + length ?us) (memory_map_data ?s),
           total_memory := total_memory ?s + sum_list (map e_len ?us)\<rparr>)"
    proof (rule Cons.IH)
      show "boot_map (mvm ?s) (p + e_size e + 4) lim es" "length (memory_map_data ?s) = 100" using Cons.prems(1,3) by simp_all
      show "?us = (if i + 1 = 0 then taken es else ?us)" using n(2) by simp
      show "unat (i + 1) + length ?us \<le> 100" using Cons.prems(4) n(1) unfolding ts by simp
    qed
    then obtain q where q: "while_do (mmap_pass lim) (p + e_size e + 4, i + 1, ?s) = Ok (q, i + 1 + of_nat (length ?us),
        ?s\<lparr>memory_map_data := take (unat (i + 1)) (memory_map_data ?s) @ map range_of ?us @ drop (unat (i + 1) + length ?us) (memory_map_data ?s),
           total_memory := total_memory ?s + sum_list (map e_len ?us)\<rparr>)" by (elim exE)
    have "take (Suc (unat i)) ((memory_map_data s)[unat i := range_of e]) = take (unat i) (memory_map_data s) @ [range_of e]"
      using i Cons.prems(3) by (simp add: take_Suc_conv_app_nth)
    with q show ?thesis unfolding ts by (subst while_do_unfold) (simp add: step n add.assoc)
  qed
qed

text \<open>The memory map holds the ranges of the entries of the boot loader up to the first after the first whose address has a zero low word, in order, with their number and the sum of their lengths; the loop ends.\<close>

theorem memory_map_init_copies:
  assumes "vword (multiboot_data_ptr s + 0xE0000000 + 48) (mvm s) = Ok mmap_addr"
    and "vword (multiboot_data_ptr s + 0xE0000000 + 44) (mvm s) = Ok mmap_length"
    and "boot_map (mvm s) (mmap_addr + 0xE0000000) (mmap_addr + 0xE0000000 + mmap_length) es"
    and "length (memory_map_data s) = 100" "length (taken es) \<le> 100"
  shows "\<exists>s'. memory_map_init s = Ok (OS_NO_ERR, s') \<and> memory_map_size s' = of_nat (length (taken es)) \<and>
    memory_map_data s' = map range_of (taken es) @ drop (length (taken es)) (memory_map_data s) \<and>
    meminfo_get_memory_size s' = total_memory s + sum_list (map e_len (taken es))"
proof -
  let ?s = "s\<lparr>multiboot_data_ptr := multiboot_data_ptr s + 0xE0000000\<rparr>"
  from mmap_loop [of ?s "mmap_addr + 0xE0000000" "mmap_addr + 0xE0000000 + mmap_length" es "taken es" 0] assms(3-5)
  obtain q where "while_do (mmap_pass (mmap_addr + 0xE0000000 + mmap_length)) (mmap_addr + 0xE0000000, 0, ?s) = Ok (q, 0 + of_nat (length (taken es)),
      ?s\<lparr>memory_map_data := take (unat 0) (memory_map_data ?s) @ map range_of (taken es) @ drop (unat 0 + length (taken es)) (memory_map_data ?s),
         total_memory := total_memory ?s + sum_list (map e_len (taken es))\<rparr>)" by auto
  with assms(1,2) show ?thesis
    by (simp add: memory_map_init_def KERNEL_MEM_OFFSET_def Let_def meminfo_get_memory_size_def)
qed

text \<open>One entry more than the array holds is written past its end.\<close>

lemma memory_map_overflows:
  assumes "mmap < lim" "entry_at mmap (mvm s) e" "(ucast (e_addr e) :: u32) \<noteq> 0" "length (memory_map_data s) = 100"
  shows "mmap_pass lim (mmap, 100, s) = Fault"
  using assms by (simp add: mmap_pass_def entry_at_def)

lemma heap_usage_reads_two_words:
  "meminfo_kernel_heap_usage after h = ucast (kheap_mem_used h) \<longleftrightarrow> after = 0"
proof
  assume "meminfo_kernel_heap_usage after h = ucast (kheap_mem_used h)"
  then have eq: "bit (ucast (kheap_mem_used h) OR push_bit 32 (ucast after) :: u64) n = bit (ucast (kheap_mem_used h) :: u64) n" for n
    by (simp add: meminfo_kernel_heap_usage_def)
  show "after = 0"
  proof (rule bit_eqI)
    fix n
    have "bit (kheap_mem_used h) (n + 32) = False" using bit_imp_le_length [of "kheap_mem_used h" "n + 32"] by auto
    then show "bit after n = bit 0 n" using eq [of "n + 32"] bit_imp_le_length [of after n]
      by (auto simp: bit_or_iff bit_push_bit_iff bit_ucast_iff)
  qed
qed (simp add: meminfo_kernel_heap_usage_def)

section \<open>An example map\<close>

definition ex_boot :: "u32 \<Rightarrow> u32" where
  "ex_boot = (\<lambda>_. 0)(0xE000012C := 48, 0xE0000130 := 0x1000, 0xE0001000 := 20, 0xE000100C := 0x9FC00, 0xE0001014 := 1,
     0xE0001018 := 20, 0xE000101C := 0x100000, 0xE0001024 := 0x7F00000, 0xE000102C := 1)"

definition ex_entries :: "entry list" where
  "ex_entries = [\<lparr>e_addr = 0, e_len = 0x9FC00, e_type = 1, e_size = 20\<rparr>, \<lparr>e_addr = 0x100000, e_len = 0x7F00000, e_type = 1, e_size = 20\<rparr>]"

definition ex_meminfo :: meminfo where
  "ex_meminfo = \<lparr>memory_map_size = 0, memory_map_data = replicate 100 \<lparr>base = 0, limit = 0, range_type = 0\<rparr>, multiboot_data_ptr = 0x100,
     total_memory = 0, static_used_memory = 0, mvm = ex_vm\<lparr>cr0 := 0, phys := ex_boot\<rparr>\<rparr>"

theorem memory_map_init_copies_witness:
  "\<exists>s'. memory_map_init ex_meminfo = Ok (OS_NO_ERR, s') \<and> memory_map_size s' = 2 \<and>
    memory_map_data s' ! 1 = \<lparr>base = 0x100000, limit = 0x8000000, range_type = 1\<rparr> \<and> meminfo_get_memory_size s' = 0x7F9FC00"
proof -
  have t: "taken ex_entries = ex_entries" by code_simp
  have "\<exists>s'. memory_map_init ex_meminfo = Ok (OS_NO_ERR, s') \<and> memory_map_size s' = of_nat (length (taken ex_entries)) \<and>
      memory_map_data s' = map range_of (taken ex_entries) @ drop (length (taken ex_entries)) (memory_map_data ex_meminfo) \<and>
      meminfo_get_memory_size s' = total_memory ex_meminfo + sum_list (map e_len (taken ex_entries))"
    by (rule memory_map_init_copies [where mmap_addr = "0x1000" and mmap_length = 48]) (code_simp+)
  then show ?thesis unfolding t by (auto simp: ex_entries_def range_of_def ex_meminfo_def)
qed

end
