(* ===== verification/CpuTables.thy ===== *)
theory CpuTables
  imports Prelude
begin

unbundle bit_operations_syntax

text \<open>
  The descriptor tables of the processor (\<^verbatim>\<open>Sources/arch/cpu/i386/cpu_settings.c\<close>): the global descriptor table, the
  interrupt descriptor table and the task state segments. The addresses that the linker gives to the tables and to the 256
  interrupt stubs, which are assembly code, are arguments. Loading a table or a selector sets the register of the processor.
\<close>

section \<open>State\<close>

record cpu_tss_entry_t =
  esp0 :: u32
  ss0 :: u32
  tss_es :: u32
  tss_cs :: u32
  tss_ss :: u32
  tss_ds :: u32
  tss_fs :: u32
  tss_gs :: u32
  tss_others :: "u32 list"
  trap :: u16
  iomap_base :: u16

record table_ptr =
  table_size :: u16
  table_base :: u32

record cpu_tables =
  cpu_gdt :: "u64 list"
  cpu_gdt_ptr :: table_ptr
  cpu_idt :: "u64 list"
  cpu_idt_ptr :: table_ptr
  cpu_tss :: "cpu_tss_entry_t list"
  reg_gdtr :: table_ptr
  reg_idtr :: table_ptr
  reg_data :: u16
  reg_cs :: u16
  reg_tr :: u16

record cpu_layout =
  gdt_addr :: u32
  idt_addr :: u32
  tss_addr :: u32
  stacks_addr :: u32
  stub :: "nat \<Rightarrow> u32"

definition KERNEL_CS_32 :: u32 where "KERNEL_CS_32 = 0x08"
definition KERNEL_DS_32 :: u32 where "KERNEL_DS_32 = 0x10"
definition KERNEL_CS_16 :: u32 where "KERNEL_CS_16 = 0x18"
definition KERNEL_DS_16 :: u32 where "KERNEL_DS_16 = 0x20"
definition TSS_SEGMENT :: u32 where "TSS_SEGMENT = 0x28"
definition KERNEL_SEGMENT_BASE :: u32 where "KERNEL_SEGMENT_BASE = 0"
definition KERNEL_SEGMENT_LIMIT :: u32 where "KERNEL_SEGMENT_LIMIT = 0xFFFFF"
definition GDT_FLAG_GRANULARITY_4K :: u32 where "GDT_FLAG_GRANULARITY_4K = 0x800000"
definition GDT_FLAG_16_BIT_SEGMENT :: u32 where "GDT_FLAG_16_BIT_SEGMENT = 0"
definition GDT_FLAG_32_BIT_SEGMENT :: u32 where "GDT_FLAG_32_BIT_SEGMENT = 0x400000"
definition GDT_FLAG_SEGMENT_PRESENT :: u32 where "GDT_FLAG_SEGMENT_PRESENT = 0x8000"
definition GDT_FLAG_PL0 :: u32 where "GDT_FLAG_PL0 = 0"
definition GDT_FLAG_CODE_TYPE :: u32 where "GDT_FLAG_CODE_TYPE = 0x1000"
definition GDT_FLAG_DATA_TYPE :: u32 where "GDT_FLAG_DATA_TYPE = 0x1000"
definition GDT_TYPE_EXECUTABLE :: u8 where "GDT_TYPE_EXECUTABLE = 8"
definition GDT_TYPE_GROW_DOWN :: u8 where "GDT_TYPE_GROW_DOWN = 0"
definition GDT_TYPE_PROTECTED :: u8 where "GDT_TYPE_PROTECTED = 0"
definition GDT_TYPE_READABLE :: u8 where "GDT_TYPE_READABLE = 2"
definition GDT_TYPE_WRITABLE :: u8 where "GDT_TYPE_WRITABLE = 2"
definition GDT_TYPE_ACCESSED :: u8 where "GDT_TYPE_ACCESSED = 1"
definition IDT_FLAG_PL0 :: u32 where "IDT_FLAG_PL0 = 0"
definition IDT_FLAG_PRESENT :: u32 where "IDT_FLAG_PRESENT = 0x80"
definition IDT_TYPE_INT_GATE :: u8 where "IDT_TYPE_INT_GATE = 0x0E"
definition GDT_ENTRY_COUNT :: nat where "GDT_ENTRY_COUNT = 10"
definition IDT_ENTRY_COUNT :: nat where "IDT_ENTRY_COUNT = 256"
definition TSS_COUNT :: nat where "TSS_COUNT = 4"
definition sizeof_cpu_tss_entry :: u32 where "sizeof_cpu_tss_entry = 104"
definition KERNEL_STACK_SIZE :: u32 where "KERNEL_STACK_SIZE = 0x4000"

lemmas cpu_consts = KERNEL_CS_32_def KERNEL_DS_32_def KERNEL_CS_16_def KERNEL_DS_16_def TSS_SEGMENT_def KERNEL_SEGMENT_BASE_def
  KERNEL_SEGMENT_LIMIT_def GDT_FLAG_GRANULARITY_4K_def GDT_FLAG_16_BIT_SEGMENT_def GDT_FLAG_32_BIT_SEGMENT_def
  GDT_FLAG_SEGMENT_PRESENT_def GDT_FLAG_PL0_def GDT_FLAG_CODE_TYPE_def GDT_FLAG_DATA_TYPE_def GDT_TYPE_EXECUTABLE_def
  GDT_TYPE_GROW_DOWN_def GDT_TYPE_PROTECTED_def GDT_TYPE_READABLE_def GDT_TYPE_WRITABLE_def GDT_TYPE_ACCESSED_def
  IDT_FLAG_PL0_def IDT_FLAG_PRESENT_def IDT_TYPE_INT_GATE_def GDT_ENTRY_COUNT_def IDT_ENTRY_COUNT_def TSS_COUNT_def
  sizeof_cpu_tss_entry_def KERNEL_STACK_SIZE_def

section \<open>Operations\<close>

text \<open>The switch over the 256 interrupts; any other number has the first stub.\<close>

definition get_handler :: "(nat \<Rightarrow> u32) \<Rightarrow> nat \<Rightarrow> u32" where
  "get_handler stubs int_id = (if int_id < 256 then stubs int_id else stubs 0)"

definition format_gdt_entry :: "u32 \<Rightarrow> u32 \<Rightarrow> u8 \<Rightarrow> u32 \<Rightarrow> u64" where
  "format_gdt_entry base limit type flags =
     (let lo_part = push_bit 16 (base AND 0xFFFF) OR (limit AND 0xFFFF);
          hi_part = drop_bit 16 base AND 0xFF;
          hi_part = hi_part OR push_bit 8 (ucast type AND 0xF);
          hi_part = hi_part OR (flags AND 0x00F0F000);
          hi_part = hi_part OR (limit AND 0xF0000);
          hi_part = hi_part OR (base AND 0xFF000000)
      in ucast lo_part OR push_bit 32 (ucast hi_part))"

definition format_idt_entry :: "u32 \<Rightarrow> u8 \<Rightarrow> u32 \<Rightarrow> u64" where
  "format_idt_entry hdl type flags =
     (let lo_part = push_bit 16 KERNEL_CS_32 OR (hdl AND 0x0000FFFF);
          hi_part = (hdl AND 0xFFFF0000) OR push_bit 8 (flags AND 0xF0) OR push_bit 8 (ucast type AND 0x0F)
      in ucast lo_part OR push_bit 32 (ucast hi_part))"

definition tss_entry :: "u32 \<Rightarrow> u64" where
  "tss_entry addr =
     format_gdt_entry addr (addr + sizeof_cpu_tss_entry) (GDT_TYPE_ACCESSED OR GDT_TYPE_EXECUTABLE)
       (GDT_FLAG_32_BIT_SEGMENT OR GDT_FLAG_SEGMENT_PRESENT OR GDT_FLAG_PL0)"

definition cpu_setup_gdt :: "cpu_layout \<Rightarrow> cpu_tables \<Rightarrow> cpu_tables" where
  "cpu_setup_gdt lay s =
     (let code_flags = GDT_FLAG_GRANULARITY_4K OR GDT_FLAG_32_BIT_SEGMENT OR GDT_FLAG_PL0 OR GDT_FLAG_SEGMENT_PRESENT OR GDT_FLAG_CODE_TYPE;
          code_type = GDT_TYPE_EXECUTABLE OR GDT_TYPE_READABLE OR GDT_TYPE_PROTECTED;
          data_flags = GDT_FLAG_GRANULARITY_4K OR GDT_FLAG_32_BIT_SEGMENT OR GDT_FLAG_PL0 OR GDT_FLAG_SEGMENT_PRESENT OR GDT_FLAG_DATA_TYPE;
          data_type = GDT_TYPE_WRITABLE OR GDT_TYPE_GROW_DOWN;
          code_16_flags = GDT_FLAG_GRANULARITY_4K OR GDT_FLAG_16_BIT_SEGMENT OR GDT_FLAG_PL0 OR GDT_FLAG_SEGMENT_PRESENT OR GDT_FLAG_CODE_TYPE;
          data_16_flags = GDT_FLAG_GRANULARITY_4K OR GDT_FLAG_16_BIT_SEGMENT OR GDT_FLAG_PL0 OR GDT_FLAG_SEGMENT_PRESENT OR GDT_FLAG_DATA_TYPE;
          gdt = replicate GDT_ENTRY_COUNT 0;
          gdt = gdt[unat (KERNEL_CS_32 div 8) := format_gdt_entry KERNEL_SEGMENT_BASE KERNEL_SEGMENT_LIMIT code_type code_flags];
          gdt = gdt[unat (KERNEL_DS_32 div 8) := format_gdt_entry KERNEL_SEGMENT_BASE KERNEL_SEGMENT_LIMIT data_type data_flags];
          gdt = gdt[unat (KERNEL_CS_16 div 8) := format_gdt_entry KERNEL_SEGMENT_BASE KERNEL_SEGMENT_LIMIT code_type code_16_flags];
          gdt = gdt[unat (KERNEL_DS_16 div 8) := format_gdt_entry KERNEL_SEGMENT_BASE KERNEL_SEGMENT_LIMIT data_type data_16_flags];
          gdt = gdt[unat (TSS_SEGMENT div 8) := tss_entry (tss_addr lay)];
          gdt = fold (\<lambda>i g. g[unat ((TSS_SEGMENT + of_nat i * 8) div 8) := tss_entry (tss_addr lay + of_nat (i - 1) * sizeof_cpu_tss_entry)])
                  [1..<TSS_COUNT] gdt;
          p = \<lparr>table_size = of_nat (8 * GDT_ENTRY_COUNT - 1), table_base = gdt_addr lay\<rparr>
      in s\<lparr>cpu_gdt := gdt, cpu_gdt_ptr := p, reg_gdtr := p, reg_data := ucast KERNEL_DS_32, reg_cs := ucast KERNEL_CS_32\<rparr>)"

definition cpu_setup_idt :: "cpu_layout \<Rightarrow> cpu_tables \<Rightarrow> cpu_tables" where
  "cpu_setup_idt lay s =
     (let idt = fold (\<lambda>i t. t[i := format_idt_entry (get_handler (stub lay) i) IDT_TYPE_INT_GATE (IDT_FLAG_PRESENT OR IDT_FLAG_PL0)])
                  [0..<IDT_ENTRY_COUNT] (replicate IDT_ENTRY_COUNT 0);
          p = \<lparr>table_size = of_nat (8 * IDT_ENTRY_COUNT - 1), table_base = idt_addr lay\<rparr>
      in s\<lparr>cpu_idt := idt, cpu_idt_ptr := p, reg_idtr := p\<rparr>)"

definition blank_tss :: cpu_tss_entry_t where
  "blank_tss = \<lparr>esp0 = 0, ss0 = 0, tss_es = 0, tss_cs = 0, tss_ss = 0, tss_ds = 0, tss_fs = 0, tss_gs = 0, tss_others = replicate 17 0,
     trap = 0, iomap_base = 0\<rparr>"

definition cpu_setup_tss :: "cpu_layout \<Rightarrow> cpu_tables \<Rightarrow> cpu_tables" where
  "cpu_setup_tss lay s =
     (let tss = fold (\<lambda>i t. t[i := (t ! i)\<lparr>ss0 := KERNEL_DS_32, esp0 := stacks_addr lay + of_nat i * KERNEL_STACK_SIZE + KERNEL_STACK_SIZE,
                       tss_es := KERNEL_DS_32, tss_cs := KERNEL_CS_32, tss_ss := KERNEL_DS_32, tss_ds := KERNEL_DS_32,
                       tss_fs := KERNEL_DS_32, tss_gs := KERNEL_DS_32, iomap_base := ucast sizeof_cpu_tss_entry\<rparr>])
                  [0..<TSS_COUNT - 1] (replicate TSS_COUNT blank_tss)
      in s\<lparr>cpu_tss := tss, reg_tr := ucast TSS_SEGMENT\<rparr>)"

section \<open>What the processor reads in an entry\<close>

text \<open>The fields of a segment descriptor and of an interrupt gate, as the processor takes them apart.\<close>

definition desc_lo :: "u64 \<Rightarrow> u32" where "desc_lo e = ucast e"

definition desc_hi :: "u64 \<Rightarrow> u32" where "desc_hi e = ucast (drop_bit 32 e)"

definition seg_base :: "u64 \<Rightarrow> u32" where
  "seg_base e = drop_bit 16 (desc_lo e) OR push_bit 16 (take_bit 8 (desc_hi e)) OR push_bit 24 (drop_bit 24 (desc_hi e))"

definition seg_limit :: "u64 \<Rightarrow> u32" where
  "seg_limit e = take_bit 16 (desc_lo e) OR push_bit 16 (take_bit 4 (drop_bit 16 (desc_hi e)))"

definition seg_type :: "u64 \<Rightarrow> u8" where
  "seg_type e = ucast (take_bit 4 (drop_bit 8 (desc_hi e)))"

definition seg_flags :: "u64 \<Rightarrow> u32" where
  "seg_flags e = desc_hi e AND 0x00F0F000"

definition gate_offset :: "u64 \<Rightarrow> u32" where
  "gate_offset e = take_bit 16 (desc_lo e) OR push_bit 16 (drop_bit 16 (desc_hi e))"

definition gate_selector :: "u64 \<Rightarrow> u32" where
  "gate_selector e = drop_bit 16 (desc_lo e)"

definition gate_access :: "u64 \<Rightarrow> u8" where
  "gate_access e = ucast (take_bit 8 (drop_bit 8 (desc_hi e)))"

lemmas bits = bit_or_iff bit_and_iff bit_push_bit_iff bit_drop_bit_eq bit_take_bit_iff bit_ucast_iff bit_mask_iff

lemma no_bit: "32 \<le> n \<Longrightarrow> \<not> bit (w :: u32) n" "8 \<le> n \<Longrightarrow> \<not> bit (v :: u8) n"
  using bit_imp_le_length [of w n] bit_imp_le_length [of v n] by auto

lemma desc_parts:
  "desc_lo (ucast lo OR push_bit 32 (ucast hi)) = lo" "desc_hi (ucast lo OR push_bit 32 (ucast hi)) = hi"
proof -
  show "desc_lo (ucast lo OR push_bit 32 (ucast hi)) = lo"
    unfolding desc_lo_def by (rule bit_eqI) (auto simp: bits possible_bit_def)
  show "desc_hi (ucast lo OR push_bit 32 (ucast hi)) = hi"
    unfolding desc_hi_def by (rule bit_eqI) (auto simp: bits possible_bit_def no_bit)
qed

text \<open>Words are compared bit by bit.\<close>

lemma by_bits_32:
  assumes "list_all (\<lambda>n. bit (a :: u32) n = bit b n)
    [0, 1, 2, 3, 4, 5, 6, 7, 8, 9, 10, 11, 12, 13, 14, 15, 16, 17, 18, 19, 20, 21, 22, 23, 24, 25, 26, 27, 28, 29, 30, 31]"
  shows "a = b"
proof -
  have "[0..<32] = [0, 1, 2, 3, 4, 5, 6, 7, 8, 9, 10, 11, 12, 13, 14, 15, 16, 17, 18, 19, 20, 21, 22, 23, 24, 25, 26, 27, 28, 29, 30, 31]"
    by code_simp
  with assms have "list_all (\<lambda>n. bit a n = bit b n) [0..<32]" by (simp only:)
  then show ?thesis by (intro bit_eqI) (simp add: list_all_iff possible_bit_def)
qed

lemma by_bits_8:
  assumes "list_all (\<lambda>n. bit (a :: u8) n = bit b n) [0, 1, 2, 3, 4, 5, 6, 7]"
  shows "a = b"
proof -
  have "[0..<8] = [0, 1, 2, 3, 4, 5, 6, 7]" by code_simp
  with assms have "list_all (\<lambda>n. bit a n = bit b n) [0..<8]" by (simp only:)
  then show ?thesis by (intro bit_eqI) (simp add: list_all_iff possible_bit_def)
qed

lemma seg_base_format: "seg_base (format_gdt_entry base limit type flags) = base"
  unfolding seg_base_def format_gdt_entry_def Let_def desc_parts
  by (rule by_bits_32) (simp add: bits)

lemma seg_limit_format: "seg_limit (format_gdt_entry base limit type flags) = take_bit 20 limit"
  unfolding seg_limit_def format_gdt_entry_def Let_def desc_parts
  by (rule by_bits_32) (simp add: bits)

lemma seg_type_format: "seg_type (format_gdt_entry base limit type flags) = take_bit 4 type"
  unfolding seg_type_def format_gdt_entry_def Let_def desc_parts
  by (rule by_bits_8) (simp add: bits)

lemma seg_flags_format: "seg_flags (format_gdt_entry base limit type flags) = flags AND 0x00F0F000"
  unfolding seg_flags_def format_gdt_entry_def Let_def desc_parts
  by (rule by_bits_32) (simp add: bits)

lemmas segment_format = seg_base_format seg_limit_format seg_type_format seg_flags_format

lemma gate_format:
  "gate_offset (format_idt_entry hdl type flags) = hdl"
  "gate_selector (format_idt_entry hdl type flags) = KERNEL_CS_32"
  "gate_access (format_idt_entry hdl type flags) = ucast (flags AND 0xF0) OR (type AND 0x0F)"
proof -
  show "gate_offset (format_idt_entry hdl type flags) = hdl"
    unfolding gate_offset_def format_idt_entry_def Let_def desc_parts cpu_consts by (rule by_bits_32) (simp add: bits)
  show "gate_selector (format_idt_entry hdl type flags) = KERNEL_CS_32"
    unfolding gate_selector_def format_idt_entry_def Let_def desc_parts cpu_consts by (rule by_bits_32) (simp add: bits)
  show "gate_access (format_idt_entry hdl type flags) = ucast (flags AND 0xF0) OR (type AND 0x0F)"
    unfolding gate_access_def format_idt_entry_def Let_def desc_parts cpu_consts by (rule by_bits_8) (simp add: bits)
qed

section \<open>The tables\<close>

definition segment_of :: "u64 \<Rightarrow> u32 \<times> u32 \<times> u8 \<times> u32" where
  "segment_of e = (seg_base e, seg_limit e, seg_type e, seg_flags e)"

lemma segment_of_format: "segment_of (format_gdt_entry b l t f) = (b, take_bit 20 l, take_bit 4 t, f AND 0x00F0F000)"
  by (simp add: segment_of_def segment_format)

lemma segment_of_0: "segment_of 0 = (0, 0, 0, 0)"
  by (simp add: segment_of_def seg_base_def seg_limit_def seg_type_def seg_flags_def desc_lo_def desc_hi_def)

text \<open>The global table: the null entry, the flat code and data segments of 32 and 16 bits, and the task state segments. The
  first two of these are the same segment, and their limits are the low bits of an address.\<close>

theorem cpu_setup_gdt_segments:
  "map segment_of (cpu_gdt (cpu_setup_gdt lay s)) =
    [(0, 0, 0, 0), (0, 0xFFFFF, 0xA, 0xC09000), (0, 0xFFFFF, 2, 0xC09000), (0, 0xFFFFF, 0xA, 0x809000), (0, 0xFFFFF, 2, 0x809000),
     (tss_addr lay, take_bit 20 (tss_addr lay + 104), 9, 0x408000), (tss_addr lay, take_bit 20 (tss_addr lay + 104), 9, 0x408000),
     (tss_addr lay + 104, take_bit 20 (tss_addr lay + 104 + 104), 9, 0x408000),
     (tss_addr lay + 208, take_bit 20 (tss_addr lay + 208 + 104), 9, 0x408000), (0, 0, 0, 0)] \<and>
   reg_gdtr (cpu_setup_gdt lay s) = \<lparr>table_size = 79, table_base = gdt_addr lay\<rparr>"
proof -
  have ix: "unat (KERNEL_CS_32 div 8) = 1" "unat (KERNEL_DS_32 div 8) = 2" "unat (KERNEL_CS_16 div 8) = 3" "unat (KERNEL_DS_16 div 8) = 4"
    "unat (TSS_SEGMENT div 8) = 5" "unat ((TSS_SEGMENT + of_nat 1 * 8) div 8) = 6" "unat ((TSS_SEGMENT + of_nat 2 * 8) div 8) = 7"
    "unat ((TSS_SEGMENT + of_nat 3 * 8) div 8) = 8"
    "[1..<TSS_COUNT] = [1, 2, 3]" "replicate GDT_ENTRY_COUNT (0 :: u64) = [0, 0, 0, 0, 0, 0, 0, 0, 0, 0]" by code_simp+
  have "cpu_gdt (cpu_setup_gdt lay s) =
      [0, format_gdt_entry 0 0xFFFFF 0xA 0xC09000, format_gdt_entry 0 0xFFFFF 2 0xC09000, format_gdt_entry 0 0xFFFFF 0xA 0x809000,
       format_gdt_entry 0 0xFFFFF 2 0x809000, tss_entry (tss_addr lay), tss_entry (tss_addr lay), tss_entry (tss_addr lay + 104),
       tss_entry (tss_addr lay + 208), 0]"
    unfolding cpu_setup_gdt_def Let_def fold.simps ix o_apply by (simp add: ix) (simp add: cpu_consts)
  moreover have "segment_of (tss_entry a) = (a, take_bit 20 (a + 104), 9, 0x408000)" for a
    by (simp add: tss_entry_def segment_of_format cpu_consts)
  moreover have "take_bit 20 (0xFFFFF :: u32) = 0xFFFFF" "take_bit 4 (0xA :: u8) = 0xA" "take_bit 4 (2 :: u8) = 2" by code_simp+
  moreover have "reg_gdtr (cpu_setup_gdt lay s) = \<lparr>table_size = 79, table_base = gdt_addr lay\<rparr>"
    by (simp add: cpu_setup_gdt_def Let_def cpu_consts)
  ultimately show ?thesis by (simp add: segment_of_format segment_of_0)
qed

lemma fold_update:
  "n \<le> length t \<Longrightarrow> fold (\<lambda>i t. t[i := f i]) [0..<n] t = map f [0..<n] @ drop n t"
proof (induction n)
  case (Suc n)
  then have "fold (\<lambda>i t. t[i := f i]) [0..<Suc n] t = (map f [0..<n] @ drop n t)[n := f n]" by simp
  also have "drop n t = t ! n # drop (Suc n) t" using Suc.prems by (simp add: Cons_nth_drop_Suc)
  finally show ?case by (simp add: list_update_append)
qed simp

text \<open>C33. Every interrupt has a present interrupt gate of privilege 0 to its own stub, in the code segment of the kernel.\<close>

theorem cpu_setup_idt_gates:
  "map (\<lambda>e. (gate_offset e, gate_selector e, gate_access e)) (cpu_idt (cpu_setup_idt lay s)) = map (\<lambda>i. (stub lay i, 0x08, 0x8E)) [0..<256] \<and>
   reg_idtr (cpu_setup_idt lay s) = \<lparr>table_size = 2047, table_base = idt_addr lay\<rparr>"
proof -
  have "(\<lambda>e. (gate_offset e, gate_selector e, gate_access e)) (format_idt_entry h IDT_TYPE_INT_GATE (IDT_FLAG_PRESENT OR IDT_FLAG_PL0)) = (h, 0x08, 0x8E)" for h
    by (simp add: gate_format) (simp add: cpu_consts)
  moreover have "cpu_idt (cpu_setup_idt lay s) =
      map (\<lambda>i. format_idt_entry (get_handler (stub lay) i) IDT_TYPE_INT_GATE (IDT_FLAG_PRESENT OR IDT_FLAG_PL0)) [0..<256]"
    by (simp add: cpu_setup_idt_def Let_def IDT_ENTRY_COUNT_def fold_update)
  ultimately show ?thesis by (simp add: get_handler_def) (simp add: cpu_setup_idt_def Let_def cpu_consts)
qed

text \<open>The stacks of the task state segments: the last segment is left blank.\<close>

theorem cpu_setup_tss_stacks:
  "map (\<lambda>t. (esp0 t, ss0 t)) (cpu_tss (cpu_setup_tss lay s)) =
    [(stacks_addr lay + 0x4000, 0x10), (stacks_addr lay + 0x8000, 0x10), (stacks_addr lay + 0xC000, 0x10), (0, 0)]"
proof -
  have "[0..<TSS_COUNT - 1] = [0, 1, 2]" "replicate TSS_COUNT blank_tss = [blank_tss, blank_tss, blank_tss, blank_tss]" by code_simp+
  then show ?thesis unfolding cpu_setup_tss_def Let_def by (simp add: cpu_consts blank_tss_def)
qed

end
