(* ===== verification/Canvas.thy ===== *)
theory Canvas
  imports Prelude
begin

text \<open>
  The contract of a device on which points are drawn one at a time: drawing a point inside it returns, keeps the
  device well formed and changes that point only, by mixing the ink into what was there. The clients draw lists of
  points, which is what the nested loops of the display drivers do.
\<close>

locale canvas =
  fixes ok :: "'s \<Rightarrow> bool"
    and view :: "'s \<Rightarrow> nat \<times> nat \<Rightarrow> 'c"
    and draw :: "nat \<times> nat \<Rightarrow> 'k \<Rightarrow> 's \<Rightarrow> 's outcome"
    and mix :: "'k \<Rightarrow> 'c \<Rightarrow> 'c"
    and inside :: "nat \<times> nat \<Rightarrow> bool"
  assumes draw_inside: "ok s \<Longrightarrow> inside p \<Longrightarrow>
    \<exists>s'. draw p k s = Ok s' \<and> ok s' \<and> view s' = (view s)(p := mix k (view s p))"
begin

lemma draw_all:
  assumes "ok s" "distinct ps" "\<forall>p \<in> set ps. inside p"
  shows "\<exists>s'. for_each ps (\<lambda>p. draw p (ink p)) s = Ok s' \<and> ok s' \<and>
           view s' = (\<lambda>p. if p \<in> set ps then mix (ink p) (view s p) else view s p)"
  using assms
proof (induction ps arbitrary: s)
  case (Cons p ps)
  from draw_inside [OF Cons.prems(1), of p "ink p"] Cons.prems(3) obtain s1 where
    1: "draw p (ink p) s = Ok s1" "ok s1" "view s1 = (view s)(p := mix (ink p) (view s p))" by auto
  from Cons.IH [OF 1(2)] Cons.prems(2,3) obtain s2 where
    2: "for_each ps (\<lambda>p. draw p (ink p)) s1 = Ok s2" "ok s2"
      "view s2 = (\<lambda>q. if q \<in> set ps then mix (ink q) (view s1 q) else view s1 q)" by auto
  have "p \<notin> set ps" using Cons.prems(2) by simp
  then show ?case using 1 2 by (auto simp: fun_eq_iff)
qed simp

lemma draw_box:
  assumes "ok s" "\<And>x y. x0 \<le> x \<Longrightarrow> x < x1 \<Longrightarrow> y0 \<le> y \<Longrightarrow> y < y1 \<Longrightarrow> inside (x, y)"
  shows "\<exists>s'. for_each [x0 ..< x1] (\<lambda>x. for_each [y0 ..< y1] (\<lambda>y. draw (x, y) (ink (x, y)))) s = Ok s' \<and> ok s' \<and>
           view s' = (\<lambda>(x, y). if x0 \<le> x \<and> x < x1 \<and> y0 \<le> y \<and> y < y1 then mix (ink (x, y)) (view s (x, y)) else view s (x, y))"
proof -
  let ?ps = "List.product [x0 ..< x1] [y0 ..< y1]"
  have "\<exists>s'. for_each ?ps (\<lambda>p. draw p (ink p)) s = Ok s' \<and> ok s' \<and>
      view s' = (\<lambda>p. if p \<in> set ?ps then mix (ink p) (view s p) else view s p)"
    using assms by (intro draw_all) (auto simp: distinct_product)
  then show ?thesis by (auto simp: for_each_nested case_prod_unfold fun_eq_iff)
qed

lemma draw_rows:
  assumes "ok s" "\<And>x y. x0 \<le> x \<Longrightarrow> x < x1 \<Longrightarrow> y0 \<le> y \<Longrightarrow> y < y1 \<Longrightarrow> inside (x, y)"
  shows "\<exists>s'. for_each [y0 ..< y1] (\<lambda>y. for_each [x0 ..< x1] (\<lambda>x. draw (x, y) (ink (x, y)))) s = Ok s' \<and> ok s' \<and>
           view s' = (\<lambda>(x, y). if x0 \<le> x \<and> x < x1 \<and> y0 \<le> y \<and> y < y1 then mix (ink (x, y)) (view s (x, y)) else view s (x, y))"
proof -
  let ?ps = "map prod.swap (List.product [y0 ..< y1] [x0 ..< x1])"
  have "\<exists>s'. for_each ?ps (\<lambda>p. draw p (ink p)) s = Ok s' \<and> ok s' \<and>
      view s' = (\<lambda>p. if p \<in> set ?ps then mix (ink p) (view s p) else view s p)"
    using assms by (intro draw_all) (auto simp: distinct_product distinct_map)
  moreover have "p \<in> set ?ps \<longleftrightarrow> x0 \<le> fst p \<and> fst p < x1 \<and> y0 \<le> snd p \<and> snd p < y1" for p
    by (cases p) force
  ultimately show ?thesis by (auto simp: for_each_nested for_each_map case_prod_unfold prod.swap_def fun_eq_iff)
qed

end

end
