(* ===== verification/Vesa.thy ===== *)
theory Vesa
  imports Vga Canvas
begin

unbundle bit_operations_syntax

text \<open>
  The drawing and console part of the VESA driver (\<^verbatim>\<open>Sources/arch/x86/vesa.c\<close>), in the configuration without a second
  buffer, where \<^verbatim>\<open>virt_buffer\<close> is the mapped frame buffer. The frame buffer is a memory of bytes, indexed from
  \<^verbatim>\<open>virt_buffer\<close>, of which \<open>vram_size\<close> are mapped; an access beyond them is a \<open>Fault\<close>, as is one beyond \<^verbatim>\<open>last_columns\<close>, beyond
  \<^verbatim>\<open>vga_color_table\<close> or beyond the font. The bitmap of the font (\<^verbatim>\<open>Includes/fonts/uni_vga.h\<close>) is an argument.
\<close>

section \<open>State\<close>

record vesa_mode_t =
  mode_width :: u16
  mode_height :: u16
  mode_bpp :: u16
  mode_id :: u16
  mode_framebuffer_phy :: ptr
  mode_framebuffer :: ptr
  mode_next :: ptr

record vesa =
  vs_con :: console
  mode_store :: "ptr \<rightharpoonup> vesa_mode_t"
  saved_modes :: ptr
  current_mode :: ptr
  mode_count :: u16
  vesa_supported :: u8
  vs_cursor :: cursor_t
  vs_last_printed :: cursor_t
  vs_scheme :: colorscheme_t
  vs_last_columns :: "u32 list"
  transparent_char :: u32
  save_buff :: "u8 list"
  vram :: "nat \<Rightarrow> u8"
  vram_size :: nat

definition font_width :: u32 where "font_width = 8"

definition font_height :: u32 where "font_height = 16"

definition TAB_WIDTH :: u32 where "TAB_WIDTH = 4"

lemmas font_consts [simp] = font_width_def font_height_def TAB_WIDTH_def

definition vga_color_table :: "u32 list" where
  "vga_color_table = [0xFF000000, 0xFF0000AA, 0xFF00AA00, 0xFF00AAAA, 0xFFAA0000, 0xFFAA00AA, 0xFFAA5500, 0xFFAAAAAA,
     0xFF555555, 0xFF5555FF, 0xFF55FF55, 0xFF55FFFF, 0xFFFF5555, 0xFFFF55FF, 0xFFFFFF55, 0xFFFFFFFF]"

text \<open>The pointer \<^verbatim>\<open>current_mode\<close> followed.\<close>

definition the_mode :: "vesa \<Rightarrow> vesa_mode_t outcome" where
  "the_mode v = deref (mode_store v) (current_mode v)"

section \<open>Blocks of bytes\<close>

text \<open>The two string instructions of \<^verbatim>\<open>fast_memset\<close> store \<open>size div 4\<close> words and \<open>size mod 4\<close> bytes, all of the same byte.\<close>

definition fast_memset :: "nat \<Rightarrow> u8 \<Rightarrow> u32 \<Rightarrow> vesa \<Rightarrow> vesa outcome" where
  "fast_memset dst b sz v =
     (if unat sz = 0 \<or> dst + unat sz \<le> vram_size v
      then Ok (v\<lparr>vram := \<lambda>a. if dst \<le> a \<and> a < dst + unat sz then b else vram v a\<rparr>) else Fault)"

text \<open>\<^verbatim>\<open>memmove\<close> within the frame buffer.\<close>

definition vram_memmove :: "nat \<Rightarrow> nat \<Rightarrow> u32 \<Rightarrow> vesa \<Rightarrow> vesa outcome" where
  "vram_memmove dst src sz v =
     (if unat sz = 0 \<or> (dst + unat sz \<le> vram_size v \<and> src + unat sz \<le> vram_size v)
      then Ok (v\<lparr>vram := \<lambda>a. if dst \<le> a \<and> a < dst + unat sz then vram v (src + (a - dst)) else vram v a\<rparr>) else Fault)"

text \<open>\<^verbatim>\<open>fast_memcpy\<close> between two arrays of bytes that do not overlap, each given with its contents. With SSE
  enabled, the blocks of 16 bytes are followed by a second copy of \<open>size\<close> bytes from where the first one stopped.\<close>

definition copy_bytes :: "nat \<Rightarrow> nat \<Rightarrow> u8 list \<Rightarrow> u8 list \<Rightarrow> u8 list outcome" where
  "copy_bytes from n src dst =
     (if n = 0 then Ok dst
      else if from + n \<le> length src \<and> from + n \<le> length dst
      then Ok (take from dst @ take n (drop from src) @ drop (from + n) dst) else Fault)"

definition fast_memcpy :: "bool \<Rightarrow> u32 \<Rightarrow> u8 list \<Rightarrow> u8 list \<Rightarrow> u8 list outcome" where
  "fast_memcpy sse sz src dst =
     (let n = unat sz
      in if sse
         then andthen (copy_bytes 0 (16 * (n div 16)) src dst) (\<lambda>dst.
              if n mod 7 \<noteq> 0 then copy_bytes (16 * (n div 16)) n src dst else Ok dst)
         else copy_bytes 0 n src dst)"

section \<open>Pixels\<close>

text \<open>The offset of a pixel, computed in 32 bits.\<close>

definition pixel_offset :: "vesa_mode_t \<Rightarrow> u16 \<Rightarrow> u16 \<Rightarrow> nat" where
  "pixel_offset m x y = 4 * unat (ucast (mode_width m) * ucast y + ucast x :: u32)"

definition vesa_get_pixel ::
    "u16 \<Rightarrow> u16 \<Rightarrow> u8 option \<Rightarrow> u8 option \<Rightarrow> u8 option \<Rightarrow> u8 option \<Rightarrow> vesa \<Rightarrow>
     (OS_RETURN_E \<times> u8 option \<times> u8 option \<times> u8 option \<times> u8 option) outcome" where
  "vesa_get_pixel x y alpha red green blue v =
     (if alpha = None \<or> red = None \<or> green = None \<or> blue = None then Ok (OS_ERR_NULL_POINTER, alpha, red, green, blue)
      else if vesa_supported v = 0 then Ok (OS_ERR_VESA_NOT_SUPPORTED, alpha, red, green, blue)
      else if current_mode v = NULL then Ok (OS_ERR_VESA_NOT_INIT, alpha, red, green, blue)
      else andthen (the_mode v) (\<lambda>m.
           if x > mode_width m \<or> y > mode_height m then Ok (OS_ERR_OUT_OF_BOUND, alpha, red, green, blue)
           else let a = pixel_offset m x y
                in if a + 3 \<le> vram_size v
                   then Ok (OS_NO_ERR, Some 0xFF, Some (vram v (a + 2)), Some (vram v (a + 1)), Some (vram v a)) else Fault))"

text \<open>A colour component over the one behind it.\<close>

definition blend :: "u8 \<Rightarrow> u8 \<Rightarrow> u8 \<Rightarrow> u8" where
  "blend alpha c back = ucast (drop_bit 8 (ucast c * ucast alpha + ucast back * (255 - ucast alpha) :: u32))"

definition vesa_draw_pixel :: "u16 \<Rightarrow> u16 \<Rightarrow> u8 \<Rightarrow> u8 \<Rightarrow> u8 \<Rightarrow> u8 \<Rightarrow> vesa \<Rightarrow> (OS_RETURN_E \<times> vesa) outcome" where
  "vesa_draw_pixel x y alpha red green blue v =
     (if vesa_supported v = 0 then Ok (OS_ERR_VESA_NOT_SUPPORTED, v)
      else if current_mode v = NULL then Ok (OS_ERR_VESA_NOT_INIT, v)
      else andthen (the_mode v) (\<lambda>m.
           if x > mode_width m \<or> y > mode_height m then Ok (OS_ERR_OUT_OF_BOUND, v)
           else let a = pixel_offset m x y; f = vram v
                in if alpha = 0 then Ok (OS_NO_ERR, v)
                   else if \<not> a + 4 \<le> vram_size v then Fault
                   else if alpha = 0xFF
                   then Ok (OS_NO_ERR, v\<lparr>vram := f(a := blue, a + 1 := green, a + 2 := red, a + 3 := 0)\<rparr>)
                   else Ok (OS_NO_ERR, v\<lparr>vram := f(a := blend alpha blue (f a), a + 1 := blend alpha green (f (a + 1)),
                                                   a + 2 := blend alpha red (f (a + 2)), a + 3 := 0)\<rparr>)))"

text \<open>The call of it whose result is ignored.\<close>

definition plot :: "u16 \<Rightarrow> u16 \<Rightarrow> u8 \<Rightarrow> u8 \<Rightarrow> u8 \<Rightarrow> u8 \<Rightarrow> vesa \<Rightarrow> vesa outcome" where
  "plot x y alpha red green blue v = andthen (vesa_draw_pixel x y alpha red green blue v) (\<lambda>(_, v). Ok v)"

definition vesa_draw_rectangle ::
    "u16 \<Rightarrow> u16 \<Rightarrow> u16 \<Rightarrow> u16 \<Rightarrow> u8 \<Rightarrow> u8 \<Rightarrow> u8 \<Rightarrow> u8 \<Rightarrow> vesa \<Rightarrow> (OS_RETURN_E \<times> vesa) outcome" where
  "vesa_draw_rectangle x y width height alpha red green blue v =
     (if vesa_supported v = 0 then Ok (OS_ERR_VESA_NOT_SUPPORTED, v)
      else if current_mode v = NULL then Ok (OS_ERR_VESA_NOT_INIT, v)
      else andthen (the_mode v) (\<lambda>m.
           if unat x + unat width > unat (mode_width m) \<or> unat y + unat height > unat (mode_height m) then Ok (OS_ERR_OUT_OF_BOUND, v)
           else andthen (for_each [unat y ..< unat y + unat height] (\<lambda>i.
                         for_each [unat x ..< unat x + unat width] (\<lambda>j.
                           plot (of_nat j) (of_nat i) alpha red green blue)) v) (\<lambda>v. Ok (OS_NO_ERR, v))))"

text \<open>A colour as four bytes, and a pixel drawn in it.\<close>

definition byte_of :: "nat \<Rightarrow> u32 \<Rightarrow> u8" where
  "byte_of i c = ucast (drop_bit (8 * i) c)"

definition plot_colour :: "u16 \<Rightarrow> u16 \<Rightarrow> u32 \<Rightarrow> vesa \<Rightarrow> vesa outcome" where
  "plot_colour x y c = plot x y (byte_of 3 c) (byte_of 2 c) (byte_of 1 c) (byte_of 0 c)"

definition glyph_row :: "u8 list \<Rightarrow> char \<Rightarrow> nat \<Rightarrow> u8 outcome" where
  "glyph_row font character cy =
     (let i = (int (of_char character) - 31) * 16 + int cy
      in if 0 \<le> i \<and> nat i < length font then Ok (font ! nat i) else Fault)"

definition vesa_drawchar :: "u8 list \<Rightarrow> char \<Rightarrow> u32 \<Rightarrow> u32 \<Rightarrow> u32 \<Rightarrow> u32 \<Rightarrow> vesa \<Rightarrow> vesa outcome" where
  "vesa_drawchar font character x y fgcolor bgcolor v =
     for_each [0 ..< 16] (\<lambda>cy. for_each [0 ..< 8] (\<lambda>cx v.
       andthen (glyph_row font character cy) (\<lambda>row.
       plot_colour (ucast (x + (7 - of_nat cx))) (ucast (y + of_nat cy)) (if bit row cx then fgcolor else bgcolor) v))) v"

definition vesa_get_screen_width :: "vesa \<Rightarrow> u32 outcome" where
  "vesa_get_screen_width v =
     (if vesa_supported v = 0 \<or> current_mode v = NULL then Ok 0 else andthen (the_mode v) (\<lambda>m. Ok (ucast (mode_width m))))"

definition vesa_get_screen_height :: "vesa \<Rightarrow> u32 outcome" where
  "vesa_get_screen_height v =
     (if vesa_supported v = 0 \<or> current_mode v = NULL then Ok 0 else andthen (the_mode v) (\<lambda>m. Ok (ucast (mode_height m))))"

definition vesa_get_screen_bpp :: "vesa \<Rightarrow> u8 outcome" where
  "vesa_get_screen_bpp v =
     (if vesa_supported v = 0 then Ok 0 else if current_mode v = NULL then Ok 0
      else andthen (the_mode v) (\<lambda>m. Ok (ucast (mode_bpp m))))"

section \<open>Cursor, scrolling and colours\<close>

definition vesa_clear_screen :: "vesa \<Rightarrow> vesa outcome" where
  "vesa_clear_screen v =
     andthen (the_mode v) (\<lambda>m. fast_memset 0 0 (ucast (mode_width m) * ucast (mode_height m) * ucast (mode_bpp m div 8)) v)"

text \<open>A pixel drawn from four bytes of \<^verbatim>\<open>save_buff\<close>, and a pixel read into them.\<close>

definition plot_saved :: "u8 list \<Rightarrow> u32 \<Rightarrow> u32 \<Rightarrow> nat \<Rightarrow> vesa \<Rightarrow> vesa outcome" where
  "plot_saved sb x y index v = plot (ucast x) (ucast y) (sb ! index) (sb ! (index + 1)) (sb ! (index + 2)) (sb ! (index + 3)) v"

definition save_pixel :: "u32 \<Rightarrow> u32 \<Rightarrow> nat \<Rightarrow> vesa \<Rightarrow> vesa outcome" where
  "save_pixel x y index v =
     andthen (vesa_get_pixel (ucast x) (ucast y) (Some (save_buff v ! index)) (Some (save_buff v ! (index + 1)))
                (Some (save_buff v ! (index + 2))) (Some (save_buff v ! (index + 3))) v) (\<lambda>(_, a, r, g, b).
     Ok (v\<lparr>save_buff := (save_buff v)[index := the a, index + 1 := the r, index + 2 := the g, index + 3 := the b]\<rparr>))"

definition restore_background :: "vesa \<Rightarrow> vesa outcome" where
  "restore_background v =
     (let x = cursor_x (vs_cursor v); y = cursor_y (vs_cursor v)
      in for_each [0 ..< 16] (\<lambda>i v.
           andthen (plot_saved (save_buff v) x (y + of_nat i) (8 * i) v) (\<lambda>v.
           plot_saved (save_buff v) (x + 1) (y + of_nat i) (8 * i + 4) v)) v)"

definition draw_cursor :: "u32 \<Rightarrow> u32 \<Rightarrow> vesa \<Rightarrow> vesa outcome" where
  "draw_cursor line column v =
     for_each [0 ..< 16] (\<lambda>i v.
       let y = line + of_nat i
       in andthen (save_pixel column y (8 * i) v) (\<lambda>v.
          andthen (plot (ucast column) (ucast y) 0xFF 0xFF 0xFF 0xFF v) (\<lambda>v.
          andthen (save_pixel (column + 1) y (8 * i + 4) v) (\<lambda>v.
          plot (ucast (column + 1)) (ucast y) 0xFF 0xFF 0xFF 0xFF v)))) v"

definition vesa_put_cursor_at :: "u32 \<Rightarrow> u32 \<Rightarrow> vesa \<Rightarrow> (OS_RETURN_E \<times> vesa) outcome" where
  "vesa_put_cursor_at line column v =
     andthen (restore_background v) (\<lambda>v.
     let v = v\<lparr>vs_cursor := \<lparr>cursor_x = column, cursor_y = line\<rparr>\<rparr>
     in andthen (the_mode v) (\<lambda>m.
        andthen (if column + 2 < ucast (mode_width m) then draw_cursor line column v else Ok v) (\<lambda>v. Ok (OS_NO_ERR, v))))"

definition vesa_move_cursor :: "u32 \<Rightarrow> u32 \<Rightarrow> vesa \<Rightarrow> vesa outcome" where
  "vesa_move_cursor line column v = andthen (vesa_put_cursor_at line column v) (\<lambda>(_, v). Ok v)"

definition vesa_save_cursor :: "cursor_t option \<Rightarrow> vesa \<Rightarrow> (OS_RETURN_E \<times> cursor_t option \<times> vesa) outcome" where
  "vesa_save_cursor buffer v =
     (case buffer of None \<Rightarrow> Ok (OS_ERR_NULL_POINTER, None, v) | Some _ \<Rightarrow> Ok (OS_NO_ERR, Some (vs_cursor v), v))"

definition vesa_restore_cursor :: "cursor_t \<Rightarrow> vesa \<Rightarrow> (OS_RETURN_E \<times> vesa) outcome" where
  "vesa_restore_cursor buffer v =
     andthen (the_mode v) (\<lambda>m.
     if cursor_x buffer \<ge> ucast (mode_width m) \<or> cursor_y buffer \<ge> ucast (mode_height m) then Ok (OS_ERR_OUT_OF_BOUND, v)
     else andthen (vesa_move_cursor (cursor_y buffer) (cursor_x buffer) v) (\<lambda>v. Ok (OS_NO_ERR, v)))"

text \<open>The assignment \<^verbatim>\<open>last_columns[i] = x\<close>.\<close>

definition set_last_column :: "nat \<Rightarrow> u32 \<Rightarrow> vesa \<Rightarrow> vesa outcome" where
  "set_last_column i x v =
     (if i < length (vs_last_columns v) then Ok (v\<lparr>vs_last_columns := (vs_last_columns v)[i := x]\<rparr>) else Fault)"

definition text_line :: "vesa \<Rightarrow> nat" where
  "text_line v = unat (cursor_y (vs_cursor v) div font_height)"

definition vesa_note_column :: "vesa \<Rightarrow> vesa outcome" where
  "vesa_note_column v = set_last_column (text_line v) (cursor_x (vs_cursor v)) v"

text \<open>One pass of the inner loop of \<^verbatim>\<open>vesa_scroll\<close>, whose counter is a byte; the source of the last copy is kept.\<close>

definition scroll_pass :: "u32 \<Rightarrow> u32 \<Rightarrow> u32 \<Rightarrow> u8 \<times> nat \<times> vesa \<Rightarrow> (bool \<times> u8 \<times> nat \<times> vesa) outcome" where
  "scroll_pass q line_size line_mem_size = (\<lambda>(i, src, v).
     if int (unat i) < sint q - 1
     then let dst = 4 * unat (ucast i * line_size);
              src = dst + 4 * unat line_size
          in andthen (vram_memmove dst src line_mem_size v) (\<lambda>v.
             if unat i + 1 < length (vs_last_columns v)
             then andthen (set_last_column (unat i) (vs_last_columns v ! (unat i + 1)) v) (\<lambda>v. Ok (True, i + 1, src, v))
             else Fault)
     else Ok (False, i, src, v))"

definition scroll_down :: "u32 \<Rightarrow> u32 \<Rightarrow> u32 \<Rightarrow> u8 \<Rightarrow> vesa \<Rightarrow> vesa outcome" where
  "scroll_down q line_size line_mem_size to_scroll v =
     andthen (for_each [0 ..< unat to_scroll] (\<lambda>_ (src, v).
                andthen (while_do (scroll_pass q line_size line_mem_size) (0, src, v)) (\<lambda>(_, src, v). Ok (src, v)))
              (4 * unat line_size, v)) (\<lambda>(src, v).
     fast_memset src 0 line_mem_size v)"

definition vesa_scroll :: "SCROLL_DIRECTION_E \<Rightarrow> u32 \<Rightarrow> vesa \<Rightarrow> vesa outcome" where
  "vesa_scroll direction lines_count v =
     andthen (the_mode v) (\<lambda>md.
     let to_scroll = ucast lines_count :: u8;
         height = ucast (mode_height md);
         q = height div font_height
     in if q = 0 then Fault
        else let m = height mod (q * font_height);
                 line_size = font_height * ucast (mode_width md);
                 bpp_size = drop_bit 3 (ucast (mode_bpp md) OR 7);
                 line_mem_size = bpp_size * line_size
             in andthen (case direction of
                           SCROLL_DOWN \<Rightarrow> scroll_down q line_size line_mem_size to_scroll v
                         | SCROLL_UP \<Rightarrow> Ok v) (\<lambda>v.
                andthen (vesa_move_cursor (height - m - font_height) 0 v) (\<lambda>v.
                andthen (set_last_column (text_line v) 0 v) (\<lambda>v.
                let lp = vs_last_printed v
                in Ok (v\<lparr>vs_last_printed :=
                          if ucast to_scroll \<le> cursor_y lp then lp\<lparr>cursor_y := cursor_y lp - ucast to_scroll * font_height\<rparr>
                          else \<lparr>cursor_x = 0, cursor_y = 0\<rparr>\<rparr>)))))"

definition vesa_set_color_scheme :: "colorscheme_t \<Rightarrow> vesa \<Rightarrow> vesa outcome" where
  "vesa_set_color_scheme s v =
     (if vga_color s \<noteq> 0
      then let b = unat (drop_bit 4 (background s))
           in if b < length vga_color_table
              then Ok (v\<lparr>vs_scheme := \<lparr>foreground = vga_color_table ! unat (foreground s AND 0x0F),
                                      background = vga_color_table ! b, vga_color = vga_color s\<rparr>\<rparr>)
              else Fault
      else Ok (v\<lparr>vs_scheme := \<lparr>foreground = foreground s, background = background s, vga_color = vga_color s\<rparr>\<rparr>))"

definition vesa_save_color_scheme ::
    "colorscheme_t option \<Rightarrow> vesa \<Rightarrow> (OS_RETURN_E \<times> colorscheme_t option \<times> vesa) outcome" where
  "vesa_save_color_scheme buffer v =
     (case buffer of None \<Rightarrow> Ok (OS_ERR_NULL_POINTER, None, v) | Some _ \<Rightarrow> Ok (OS_NO_ERR, Some (vs_scheme v), v))"

definition vesa_set_transparent_char :: "u32 \<Rightarrow> vesa \<Rightarrow> vesa" where
  "vesa_set_transparent_char enabled v = v\<lparr>transparent_char := if enabled = 1 then 1 else 0\<rparr>"

section \<open>Characters\<close>

text \<open>The loops marked ``remove cursor'': the columns from the cursor to a given one, in the background colour.\<close>

definition blank_to :: "nat \<Rightarrow> vesa \<Rightarrow> vesa outcome" where
  "blank_to right v =
     for_each [unat (cursor_x (vs_cursor v)) ..< right] (\<lambda>i.
       for_each [unat (cursor_y (vs_cursor v)) ..< unat (cursor_y (vs_cursor v) + font_height)] (\<lambda>j.
         plot_colour (of_nat i) (of_nat j) (background (vs_scheme v)))) v"

definition glyph_background :: "vesa \<Rightarrow> u32" where
  "glyph_background v = (if transparent_char v \<noteq> 0 then 0 else background (vs_scheme v))"

definition draw_in_scheme :: "u8 list \<Rightarrow> char \<Rightarrow> u32 \<Rightarrow> u32 \<Rightarrow> vesa \<Rightarrow> vesa outcome" where
  "draw_in_scheme font character x y v = vesa_drawchar font character x y (foreground (vs_scheme v)) (glyph_background v) v"

definition vesa_put_printable :: "u8 list \<Rightarrow> char \<Rightarrow> vesa \<Rightarrow> vesa outcome" where
  "vesa_put_printable font character v =
     andthen (the_mode v) (\<lambda>m.
     let width = ucast (mode_width m); height = ucast (mode_height m);
         full = (\<lambda>v. cursor_x (vs_cursor v) + font_width \<ge> width);
         next_line = (\<lambda>v. andthen (blank_to (unat width) v) (\<lambda>v. vesa_move_cursor (cursor_y (vs_cursor v) + font_height) 0 v))
     in andthen (if full v then andthen (next_line v) vesa_note_column else Ok v) (\<lambda>v.
        andthen (if cursor_y (vs_cursor v) > height - font_height then vesa_scroll SCROLL_DOWN 1 v else Ok v) (\<lambda>v.
        andthen (vesa_move_cursor (cursor_y (vs_cursor v)) (cursor_x (vs_cursor v) + font_width) v) (\<lambda>v.
        andthen (draw_in_scheme font character (cursor_x (vs_cursor v) - font_width) (cursor_y (vs_cursor v)) v) (\<lambda>v.
        andthen (if full v then next_line v else Ok v) vesa_note_column)))))"

definition vesa_backspace :: "u8 list \<Rightarrow> vesa \<Rightarrow> vesa outcome" where
  "vesa_backspace font v =
     (let x = cursor_x (vs_cursor v); y = cursor_y (vs_cursor v); lp = vs_last_printed v;
          erase = andthen (draw_in_scheme font CHR '' '' x y v) (\<lambda>v.
                  andthen (draw_in_scheme font CHR '' '' (x - font_width) y v) (\<lambda>v.
                  andthen (vesa_move_cursor y (x - font_width) v) vesa_note_column))
      in if cursor_y lp = y
         then if x > cursor_x lp then erase else Ok v
         else if cursor_y lp < y
         then if x > 0 then erase
              else andthen (draw_in_scheme font CHR '' '' x y v) (\<lambda>v.
                   let i = unat (y div font_height - 1)
                   in if i < length (vs_last_columns v)
                      then andthen (draw_in_scheme font CHR '' '' (vs_last_columns v ! i) (y - font_height) v) (\<lambda>v.
                           vesa_move_cursor (y - font_height) (vs_last_columns v ! i) v)
                      else Fault)
         else Ok v)"

text \<open>The number of spaces of a tabulation: \<^verbatim>\<open>diff\<close> is signed, but \<^verbatim>\<open>diff / font_width\<close> is a division of unsigned numbers.\<close>

definition tab_spaces :: "u16 \<Rightarrow> u32 \<Rightarrow> nat" where
  "tab_spaces width x =
     (let diff = ucast width - (x + TAB_WIDTH * font_width);
          diff = if sint diff < 0 then TAB_WIDTH + diff div font_width else TAB_WIDTH
      in nat (sint diff))"

text \<open>The call of \<^verbatim>\<open>vesa_process_char\<close> by itself, for a space.\<close>

definition vesa_process_space :: "u8 list \<Rightarrow> vesa \<Rightarrow> vesa outcome" where
  "vesa_process_space font v =
     andthen (serial_write SERIAL_COM1_BASE 32 (vs_con v)) (\<lambda>c. vesa_put_printable font CHR '' '' (v\<lparr>vs_con := c\<rparr>))"

definition vesa_tab :: "u8 list \<Rightarrow> vesa \<Rightarrow> vesa outcome" where
  "vesa_tab font v =
     andthen (the_mode v) (\<lambda>m.
     andthen (for_each [0 ..< tab_spaces (mode_width m) (cursor_x (vs_cursor v))] (\<lambda>_. vesa_process_space font) v) vesa_note_column)"

definition vesa_line_feed :: "vesa \<Rightarrow> vesa outcome" where
  "vesa_line_feed v =
     andthen (the_mode v) (\<lambda>m.
     andthen (blank_to (unat (mode_width m)) v) (\<lambda>v.
     andthen (vesa_note_column v) (\<lambda>v.
     if cursor_y (vs_cursor v) + font_height \<le> ucast (mode_height m) - font_height
     then andthen (blank_to (min (unat (mode_width m)) (unat (cursor_x (vs_cursor v) + font_width))) v) (\<lambda>v.
          andthen (vesa_move_cursor (cursor_y (vs_cursor v) + font_height) 0 v) vesa_note_column)
     else vesa_scroll SCROLL_DOWN 1 v)))"

definition vesa_process_char :: "u8 list \<Rightarrow> char \<Rightarrow> vesa \<Rightarrow> vesa outcome" where
  "vesa_process_char font character v =
     andthen (serial_write SERIAL_COM1_BASE (of_char character) (vs_con v)) (\<lambda>c.
     let v = v\<lparr>vs_con := c\<rparr>; k = of_char character :: nat
     in if k > 31 \<and> k < 127 then vesa_put_printable font character v
        else if k = 8 then vesa_backspace font v
        else if k = 9 then vesa_tab font v
        else if k = 10 then vesa_line_feed v
        else if k = 12 then vesa_clear_screen v
        else if k = 13 then andthen (vesa_move_cursor (cursor_y (vs_cursor v)) 0 v) vesa_note_column
        else Ok v)"

definition vesa_put_char :: "u8 list \<Rightarrow> char \<Rightarrow> vesa \<Rightarrow> vesa outcome" where
  "vesa_put_char font character v =
     andthen (vesa_process_char font character v) (\<lambda>v. Ok (v\<lparr>vs_last_printed := vs_cursor v\<rparr>))"

definition vesa_put_string :: "u8 list \<Rightarrow> string \<Rightarrow> vesa \<Rightarrow> vesa outcome" where
  "vesa_put_string font str v = for_each str (vesa_put_char font) v"

definition vesa_console_write_keyboard :: "u8 list \<Rightarrow> string \<Rightarrow> u32 \<Rightarrow> vesa \<Rightarrow> vesa outcome" where
  "vesa_console_write_keyboard font str len v =
     for_each [0 ..< unat len] (\<lambda>i v. if i < length str then vesa_process_char font (str ! i) v else Fault) v"

definition vesa_driver :: "u8 list \<Rightarrow> vesa kernel_graphic_driver_t" where
  "vesa_driver font =
     \<lparr>clear_screen = Some vesa_clear_screen, put_cursor_at = Some vesa_put_cursor_at,
      save_cursor = Some vesa_save_cursor, restore_cursor = Some vesa_restore_cursor,
      scroll = Some vesa_scroll, set_color_scheme = Some vesa_set_color_scheme,
      save_color_scheme = Some vesa_save_color_scheme, put_string = Some (vesa_put_string font),
      put_char = Some (vesa_put_char font), console_write_keyboard = Some (vesa_console_write_keyboard font)\<rparr>"

definition vesa_fill_screen :: "bool \<Rightarrow> u8 list \<Rightarrow> vesa \<Rightarrow> vesa outcome" where
  "vesa_fill_screen sse pointer v =
     andthen (the_mode v) (\<lambda>m.
     andthen (fast_memcpy sse (ucast (mode_width m) * ucast (mode_height m) * ucast (mode_bpp m div 8)) pointer
                (map (vram v) [0 ..< vram_size v])) (\<lambda>f.
     Ok (v\<lparr>vram := \<lambda>a. if a < vram_size v then f ! a else vram v a\<rparr>)))"

section \<open>The screen as a canvas\<close>

text \<open>A screen of \<open>w\<close> by \<open>h\<close> pixels is set and its frame buffer is mapped.\<close>

definition screen :: "nat \<Rightarrow> nat \<Rightarrow> vesa \<Rightarrow> bool" where
  "screen w h v \<longleftrightarrow> vesa_supported v \<noteq> 0 \<and> current_mode v \<noteq> NULL \<and>
     (\<exists>m. mode_store v (current_mode v) = Some m \<and> unat (mode_width m) = w \<and> unat (mode_height m) = h \<and> mode_bpp m = 32) \<and>
     4 * (w * h) \<le> vram_size v \<and> vram_size v < 2 ^ 32"

definition point_offset :: "nat \<Rightarrow> nat \<Rightarrow> nat \<Rightarrow> nat" where
  "point_offset w x y = 4 * (w * y + x)"

definition picture :: "nat \<Rightarrow> nat \<Rightarrow> vesa \<Rightarrow> nat \<times> nat \<Rightarrow> u8 \<times> u8 \<times> u8" where
  "picture w h v = (\<lambda>(x, y).
     if x < w \<and> y < h
     then let a = point_offset w x y in (vram v (a + 2), vram v (a + 1), vram v a) else (0, 0, 0))"

text \<open>What a pixel becomes when ink of some opacity is drawn over it.\<close>

definition mix :: "u8 \<times> u8 \<times> u8 \<times> u8 \<Rightarrow> u8 \<times> u8 \<times> u8 \<Rightarrow> u8 \<times> u8 \<times> u8" where
  "mix = (\<lambda>(alpha, r, g, b) (r', g', b').
     if alpha = 0 then (r', g', b') else if alpha = 0xFF then (r, g, b)
     else (blend alpha r r', blend alpha g g', blend alpha b b'))"

definition draw_at :: "nat \<times> nat \<Rightarrow> u8 \<times> u8 \<times> u8 \<times> u8 \<Rightarrow> vesa \<Rightarrow> vesa outcome" where
  "draw_at = (\<lambda>(x, y) (alpha, r, g, b). plot (of_nat x) (of_nat y) alpha r g b)"

text \<open>Everything but the frame buffer.\<close>

definition rest :: "vesa \<Rightarrow> vesa" where
  "rest v = v\<lparr>vram := \<lambda>_. 0\<rparr>"

lemma screen_mode:
  assumes "screen w h v"
  obtains m where "the_mode v = Ok m" "unat (mode_width m) = w" "unat (mode_height m) = h" "mode_bpp m = 32"
    "vesa_supported v \<noteq> 0" "current_mode v \<noteq> NULL"
  using assms by (auto simp: screen_def the_mode_def deref_def)

lemma screen_bounds:
  assumes "screen w h v"
  shows "w < 65536" "h < 65536" "4 * (w * h) \<le> vram_size v" "vram_size v < 4294967296"
proof -
  from screen_mode [OF assms] obtain m where m: "the_mode v = Ok m" "unat (mode_width m) = w" "unat (mode_height m) = h"
    "mode_bpp m = 32" "vesa_supported v \<noteq> 0" "current_mode v \<noteq> NULL" .
  show "w < 65536" "h < 65536" using unsigned_less [of "mode_width m", where 'a = nat] unsigned_less [of "mode_height m", where 'a = nat] m by simp_all
qed (use assms in \<open>simp_all add: screen_def\<close>)

lemma rest_fields:
  assumes "rest v' = rest v"
  shows "vs_con v' = vs_con v" "mode_store v' = mode_store v" "saved_modes v' = saved_modes v" "current_mode v' = current_mode v"
    "mode_count v' = mode_count v" "vesa_supported v' = vesa_supported v" "vs_cursor v' = vs_cursor v"
    "vs_last_printed v' = vs_last_printed v" "vs_scheme v' = vs_scheme v" "vs_last_columns v' = vs_last_columns v"
    "transparent_char v' = transparent_char v" "save_buff v' = save_buff v" "vram_size v' = vram_size v"
  using assms by (cases v; cases v'; simp add: rest_def)+

lemma screen_rest:
  assumes "rest v' = rest v"
  shows "screen w h v' = screen w h v" "the_mode v' = the_mode v"
  unfolding screen_def the_mode_def rest_fields [OF assms] by (rule refl)+

lemma rest_vram [simp]: "rest (v\<lparr>vram := f\<rparr>) = rest v"
  by (simp add: rest_def)

lemma point_inside:
  assumes "x < w" "y < h"
  shows "point_offset w x y + 4 \<le> 4 * (w * h)"
proof -
  have "w * (y + 1) \<le> w * h" using assms(2) by (intro mult_le_mono2) simp
  then show ?thesis using assms(1) by (simp add: point_offset_def algebra_simps)
qed

lemma pixel_offset_nat:
  assumes "unat (mode_width m) = w" "x < 65536" "y < 65536" "w * y + x < 2 ^ 32"
  shows "pixel_offset m (of_nat x) (of_nat y) = point_offset w x y"
proof -
  have u: "unat (ucast (mode_width m) :: u32) = w" "unat (ucast (of_nat x :: u16) :: u32) = x" "unat (ucast (of_nat y :: u16) :: u32) = y"
    using assms(1-3) unsigned_less [of "mode_width m", where 'a = nat] by (simp_all add: unsigned_ucast_eq take_bit_nat_eq_self unat_of_nat)
  have "w * y < 2 ^ 32" using assms(4) by simp
  then have "unat (ucast (mode_width m) * ucast (of_nat y :: u16) + ucast (of_nat x :: u16) :: u32) = w * y + x"
    using u assms(4) by (simp add: unat_word_ariths)
  then show ?thesis by (simp add: pixel_offset_def point_offset_def)
qed

lemma point_offset_eq:
  assumes "x < w" "x' < w"
  shows "point_offset w x y = point_offset w x' y' \<longleftrightarrow> x = x' \<and> y = y'"
proof
  assume "point_offset w x y = point_offset w x' y'"
  then have e: "x + w * y = x' + w * y'" by (simp add: point_offset_def)
  have "x = x'" using arg_cong [OF e, of "\<lambda>n. n mod w"] assms by simp
  then show "x = x' \<and> y = y'" using e assms by auto
qed simp

lemma point_apart:
  assumes "x < w" "x' < w" "(x, y) \<noteq> (x', y')" "i < 4" "j < 4"
  shows "point_offset w x y + i \<noteq> point_offset w x' y' + j"
proof
  assume e: "point_offset w x y + i = point_offset w x' y' + j"
  have "(point_offset w x y + i) div 4 = w * y + x" "(point_offset w x' y' + j) div 4 = w * y' + x'"
    using assms(4,5) by (simp_all add: point_offset_def)
  then have "point_offset w x y = point_offset w x' y'" using e by (simp add: point_offset_def)
  then show False using assms point_offset_eq by blast
qed

lemma picture_write:
  assumes "x < w" "y < h"
  shows "picture w h (v\<lparr>vram := (vram v)(point_offset w x y := b, point_offset w x y + 1 := g, point_offset w x y + 2 := r, point_offset w x y + 3 := z)\<rparr>) =
         (picture w h v)((x, y) := (r, g, b))" (is "picture w h ?v = _")
proof
  fix p :: "nat \<times> nat"
  obtain x' y' where p: "p = (x', y')" by fastforce
  show "picture w h ?v p = ((picture w h v)((x, y) := (r, g, b))) p"
  proof (cases "p = (x, y) \<or> \<not> (x' < w \<and> y' < h)")
    case True
    then show ?thesis using assms p by (auto simp: picture_def Let_def)
  next
    case False
    let ?a = "point_offset w x y" and ?b = "point_offset w x' y'"
    have n: "?b + i \<noteq> ?a + j" if "i < 4" "j < 4" for i j
      using point_apart [OF _ assms(1), of x' y' y i j] False that p by auto
    have "vram ?v (?b + i) = vram v (?b + i)" if "i < 4" for i
      using n [OF that, of 0] n [OF that, of 1] n [OF that, of 2] n [OF that, of 3] by simp
    from this [of 0] this [of 1] this [of 2] show ?thesis using False p by (auto simp: picture_def Let_def)
  qed
qed

lemma draw_at_inside:
  assumes "screen w h v" "x < w" "y < h"
  shows "\<exists>v'. draw_at (x, y) k v = Ok v' \<and> rest v' = rest v \<and> picture w h v' = (picture w h v)((x, y) := mix k (picture w h v (x, y)))"
proof -
  obtain al r g b where k: "k = (al, r, g, b)" by (cases k) auto
  from screen_mode [OF assms(1)] obtain m where m: "the_mode v = Ok m" "unat (mode_width m) = w" "unat (mode_height m) = h"
    "mode_bpp m = 32" "vesa_supported v \<noteq> 0" "current_mode v \<noteq> NULL" .
  note b = screen_bounds [OF assms(1)]
  let ?a = "point_offset w x y"
  have a: "?a + 4 \<le> vram_size v" using point_inside [OF assms(2,3)] b(3) by simp
  then have "w * y + x < 2 ^ 32" using b(4) by (simp add: point_offset_def)
  then have off: "pixel_offset m (of_nat x) (of_nat y) = ?a" using m(2) assms(2,3) b(1,2) by (intro pixel_offset_nat) auto
  have c: "\<not> (of_nat x > mode_width m \<or> of_nat y > mode_height m)"
    using m(2,3) assms(2,3) b(1,2) by (simp add: word_less_nat_alt unat_of_nat)
  have "picture w h v (x, y) = (vram v (?a + 2), vram v (?a + 1), vram v ?a)" using assms(2,3) by (simp add: picture_def Let_def)
  then show ?thesis using m c a
    by (auto simp: draw_at_def plot_def vesa_draw_pixel_def k off Let_def mix_def picture_write [OF assms(2,3), simplified])
qed

interpretation canv: canvas "\<lambda>v. screen w h v \<and> rest v = r" "picture w h" draw_at mix "\<lambda>(x, y). x < w \<and> y < h"
proof
  fix v p k
  assume a: "screen w h v \<and> rest v = r" "case p of (x, y) \<Rightarrow> x < w \<and> y < h"
  have "\<exists>v'. draw_at (fst p, snd p) k v = Ok v' \<and> rest v' = rest v \<and> picture w h v' = (picture w h v)((fst p, snd p) := mix k (picture w h v (fst p, snd p)))"
    using a by (intro draw_at_inside) auto
  then obtain v' where v': "draw_at p k v = Ok v'" "rest v' = rest v" "picture w h v' = (picture w h v)(p := mix k (picture w h v p))"
    unfolding prod.collapse by (elim exE conjE)
  have "screen w h v' \<and> rest v' = r" using screen_rest(1) [OF v'(2), of w h] v'(2) a(1) by (elim conjE) simp
  then show "\<exists>v'. draw_at p k v = Ok v' \<and> (screen w h v' \<and> rest v' = r) \<and> picture w h v' = (picture w h v)(p := mix k (picture w h v p))"
    using v'(1,3) by (intro exI [of _ v']) simp
qed

section \<open>Shapes\<close>

definition in_box :: "nat \<Rightarrow> nat \<Rightarrow> nat \<Rightarrow> nat \<Rightarrow> nat \<times> nat \<Rightarrow> bool" where
  "in_box x y width height = (\<lambda>(i, j). x \<le> i \<and> i < x + width \<and> y \<le> j \<and> j < y + height)"

definition ink :: "u32 \<Rightarrow> u8 \<times> u8 \<times> u8 \<times> u8" where
  "ink c = (byte_of 3 c, byte_of 2 c, byte_of 1 c, byte_of 0 c)"

lemma draw_at_colour: "plot_colour (ucast x) (ucast y) c = draw_at (unat x, unat y) (ink c)" for x y :: u32
  by (simp add: plot_colour_def draw_at_def ink_def)

lemma draw_at_nat: "plot_colour (of_nat i) (of_nat j) c = draw_at (i, j) (ink c)"
  by (simp add: plot_colour_def draw_at_def ink_def)

lemma unat_near: "unat (x + of_nat n) = unat x + n" if "unat x + n < 2 ^ 32" for x :: u32
proof -
  have "unat (of_nat n :: u32) = n" using that by (simp add: unat_of_nat)
  then show ?thesis using that by (simp add: unat_word_ariths)
qed

lemma rectangle_drawn:
  assumes "screen w h v" "unat x + unat width \<le> w" "unat y + unat height \<le> h"
  shows "\<exists>v'. vesa_draw_rectangle x y width height al r g b v = Ok (OS_NO_ERR, v') \<and> rest v' = rest v \<and>
     picture w h v' = (\<lambda>p. if in_box (unat x) (unat y) (unat width) (unat height) p then mix (al, r, g, b) (picture w h v p) else picture w h v p)"
proof -
  from screen_mode [OF assms(1)] obtain m where m: "the_mode v = Ok m" "unat (mode_width m) = w" "unat (mode_height m) = h"
    "mode_bpp m = 32" "vesa_supported v \<noteq> 0" "current_mode v \<noteq> NULL" .
  have "\<exists>v'. for_each [unat y ..< unat y + unat height] (\<lambda>i. for_each [unat x ..< unat x + unat width] (\<lambda>j. draw_at (j, i) (al, r, g, b))) v = Ok v' \<and>
      (screen w h v' \<and> rest v' = rest v) \<and> picture w h v' = (\<lambda>(i, j). if unat x \<le> i \<and> i < unat x + unat width \<and> unat y \<le> j \<and> j < unat y + unat height
        then mix (al, r, g, b) (picture w h v (i, j)) else picture w h v (i, j))"
    using assms by (intro canv.draw_rows) auto
  then obtain v' where v': "for_each [unat y ..< unat y + unat height] (\<lambda>i. for_each [unat x ..< unat x + unat width] (\<lambda>j. draw_at (j, i) (al, r, g, b))) v = Ok v'"
    "rest v' = rest v" "picture w h v' = (\<lambda>(i, j). if unat x \<le> i \<and> i < unat x + unat width \<and> unat y \<le> j \<and> j < unat y + unat height
        then mix (al, r, g, b) (picture w h v (i, j)) else picture w h v (i, j))" by (elim exE conjE)
  then show ?thesis using m assms(2,3)
    by (auto simp: vesa_draw_rectangle_def draw_at_def in_box_def fun_eq_iff)
qed

lemma blank_drawn:
  assumes "screen w h v" "right \<le> w" "unat (cursor_y (vs_cursor v)) + 16 \<le> h"
  shows "\<exists>v'. blank_to right v = Ok v' \<and> rest v' = rest v \<and> picture w h v' = (\<lambda>p.
     if in_box (unat (cursor_x (vs_cursor v))) (unat (cursor_y (vs_cursor v))) (right - unat (cursor_x (vs_cursor v))) 16 p
     then mix (ink (background (vs_scheme v))) (picture w h v p) else picture w h v p)"
proof -
  let ?x = "unat (cursor_x (vs_cursor v))" and ?y = "unat (cursor_y (vs_cursor v))" and ?c = "background (vs_scheme v)"
  have y: "unat (cursor_y (vs_cursor v) + font_height) = ?y + 16"
    using unat_near [of "cursor_y (vs_cursor v)" 16] assms(3) screen_bounds(2) [OF assms(1)] by simp
  have "\<exists>v'. for_each [?x ..< right] (\<lambda>i. for_each [?y ..< ?y + 16] (\<lambda>j. draw_at (i, j) (ink ?c))) v = Ok v' \<and>
      (screen w h v' \<and> rest v' = rest v) \<and> picture w h v' = (\<lambda>(i, j). if ?x \<le> i \<and> i < right \<and> ?y \<le> j \<and> j < ?y + 16
        then mix (ink ?c) (picture w h v (i, j)) else picture w h v (i, j))"
    using assms by (intro canv.draw_box) auto
  then obtain v' where v': "for_each [?x ..< right] (\<lambda>i. for_each [?y ..< ?y + 16] (\<lambda>j. draw_at (i, j) (ink ?c))) v = Ok v'"
    "rest v' = rest v" "picture w h v' = (\<lambda>(i, j). if ?x \<le> i \<and> i < right \<and> ?y \<le> j \<and> j < ?y + 16
        then mix (ink ?c) (picture w h v (i, j)) else picture w h v (i, j))" by (elim exE conjE)
  have "blank_to right v = Ok v'" using v'(1) unfolding blank_to_def y draw_at_nat .
  moreover have "in_box ?x ?y (right - ?x) 16 (i, j) \<longleftrightarrow> ?x \<le> i \<and> i < right \<and> ?y \<le> j \<and> j < ?y + 16" for i j
    by (auto simp: in_box_def)
  ultimately show ?thesis using v'(2,3) by (auto simp: fun_eq_iff)
qed

section \<open>Glyphs\<close>

text \<open>The bit of a glyph at a column and row of its box; the leftmost column is the highest bit.\<close>

definition glyph_bit :: "u8 list \<Rightarrow> char \<Rightarrow> nat \<Rightarrow> nat \<Rightarrow> bool" where
  "glyph_bit font character col row = bit (font ! ((of_char character - 31) * 16 + row)) (7 - col)"

lemma glyph_row_ok:
  assumes "printable ch" "1536 \<le> length font" "cy < 16"
  shows "glyph_row font ch cy = Ok (font ! ((of_char ch - 31) * 16 + cy))"
proof -
  have k: "31 < (of_char ch :: nat)" "(of_char ch :: nat) < 127" using assms(1) by (simp_all add: printable_def)
  have "(int (of_char ch) - 31) * 16 + int cy = int ((of_char ch - 31) * 16 + cy)" using k(1) by simp
  moreover have "(of_char ch - 31) * 16 + cy < length font" using k(2) assms(2,3) by simp
  ultimately show ?thesis by (simp only: glyph_row_def Let_def nat_int of_nat_0_le_iff simp_thms if_True)
qed

lemma glyph_drawn:
  assumes "screen w h v" "printable ch" "1536 \<le> length font" "unat x + 8 \<le> w" "unat y + 16 \<le> h"
  shows "\<exists>v'. vesa_drawchar font ch x y fg bg v = Ok v' \<and> rest v' = rest v \<and> picture w h v' = (\<lambda>p.
     if in_box (unat x) (unat y) 8 16 p
     then mix (ink (if glyph_bit font ch (fst p - unat x) (snd p - unat y) then fg else bg)) (picture w h v p) else picture w h v p)"
proof -
  let ?c = "\<lambda>p. ink (if glyph_bit font ch (fst p - unat x) (snd p - unat y) then fg else bg)"
  let ?at = "\<lambda>(cy, cx). (unat x + (7 - cx), unat y + cy)"
  let ?ps = "map ?at (List.product [0 ..< 16] [0 ..< 8])"
  note b = screen_bounds(1,2) [OF assms(1)]
  have s: "set ?ps = Collect (in_box (unat x) (unat y) 8 16)"
  proof -
    have "p \<in> set ?ps" if "in_box (unat x) (unat y) 8 16 p" for p
    proof -
      have "p = ?at (snd p - unat y, 7 - (fst p - unat x))" using that by (cases p) (auto simp: in_box_def)
      moreover have "(snd p - unat y, 7 - (fst p - unat x)) \<in> set (List.product [0 ..< 16] [0 ..< 8])"
        using that by (cases p) (auto simp: in_box_def)
      ultimately show ?thesis unfolding set_map by (rule image_eqI)
    qed
    then show ?thesis by (auto simp: in_box_def)
  qed
  have "distinct ?ps" by (auto simp: distinct_map distinct_product inj_on_def)
  then have "\<exists>v'. for_each ?ps (\<lambda>p. draw_at p (?c p)) v = Ok v' \<and> (screen w h v' \<and> rest v' = rest v) \<and>
      picture w h v' = (\<lambda>p. if p \<in> set ?ps then mix (?c p) (picture w h v p) else picture w h v p)"
    using assms(1,4,5) by (intro canv.draw_all) (auto simp: s in_box_def)
  then obtain v' where v': "for_each ?ps (\<lambda>p. draw_at p (?c p)) v = Ok v'" "rest v' = rest v"
    "picture w h v' = (\<lambda>p. if p \<in> set ?ps then mix (?c p) (picture w h v p) else picture w h v p)" by (elim exE conjE)
  have body: "andthen (glyph_row font ch cy) (\<lambda>row. plot_colour (ucast (x + (7 - of_nat cx))) (ucast (y + of_nat cy))
      (if bit row cx then fg else bg) t) = draw_at (?at (cy, cx)) (?c (?at (cy, cx))) t" if "cy < 16" "cx < 8" for cy cx t
  proof -
    have "(7 - of_nat cx :: u32) = of_nat (7 - cx)" using that(2) by (simp add: of_nat_diff)
    then have "unat (x + (7 - of_nat cx)) = unat x + (7 - cx)" "unat (y + of_nat cy) = unat y + cy"
      using unat_near [of x "7 - cx"] unat_near [of y cy] assms(4,5) b that by simp_all
    moreover have "7 - (7 - cx) = cx" using that(2) by simp
    ultimately show ?thesis
      using that by (simp add: glyph_row_ok [OF assms(2,3)] draw_at_colour glyph_bit_def)
  qed
  have "vesa_drawchar font ch x y fg bg v = for_each ?ps (\<lambda>p. draw_at p (?c p)) v"
    unfolding vesa_drawchar_def for_each_nested for_each_map by (rule for_each_cong) (auto simp: body)
  then have "vesa_drawchar font ch x y fg bg v = Ok v'" using v'(1) by (rule trans)
  then show ?thesis using v'(2,3) unfolding s mem_Collect_eq by (intro exI conjI)
qed

section \<open>The cursor\<close>

text \<open>The ink kept in \<^verbatim>\<open>save_buff\<close>, and the picture behind the cursor.\<close>

definition saved :: "u8 list \<Rightarrow> nat \<Rightarrow> u8 \<times> u8 \<times> u8 \<times> u8" where
  "saved sb i = (sb ! i, sb ! (i + 1), sb ! (i + 2), sb ! (i + 3))"

definition cursor_box :: "vesa \<Rightarrow> nat \<times> nat \<Rightarrow> bool" where
  "cursor_box v = in_box (unat (cursor_x (vs_cursor v))) (unat (cursor_y (vs_cursor v))) 2 16"

definition behind :: "nat \<Rightarrow> nat \<Rightarrow> vesa \<Rightarrow> nat \<times> nat \<Rightarrow> u8 \<times> u8 \<times> u8" where
  "behind w h v p =
     (if cursor_box v p
      then mix (saved (save_buff v) (8 * (snd p - unat (cursor_y (vs_cursor v))) + 4 * (fst p - unat (cursor_x (vs_cursor v)))))
             (picture w h v p)
      else picture w h v p)"


lemma plot_saved_at: "plot_saved sb x y k = draw_at (unat x, unat y) (saved sb k)"
  by (simp add: fun_eq_iff plot_saved_def draw_at_def saved_def)

lemma draw_at_keeps:
  assumes "screen w h v" "x < w" "y < h" "draw_at (x, y) k v = Ok v'"
  shows "screen w h v'" "rest v' = rest v"
proof -
  from draw_at_inside [OF assms(1-3), of k] assms(4) show r: "rest v' = rest v" by auto
  from screen_rest(1) [OF this] assms(1) show "screen w h v'" by simp
qed

lemma restore_row:
  assumes "screen w h v" "unat x + 2 \<le> w" "unat y < h"
  shows "andthen (plot_saved (save_buff v) x y k v) (\<lambda>v. plot_saved (save_buff v) (x + 1) y (k + 4) v) =
     for_each [unat x ..< unat x + 2] (\<lambda>i. draw_at (i, unat y) (saved (save_buff v) (k + 4 * (i - unat x)))) v"
proof -
  have u: "unat (x + 1) = unat x + 1" using unat_near [of x 1] assms(2) screen_bounds(1) [OF assms(1)] by simp
  have r: "[unat x ..< unat x + 2] = [unat x, Suc (unat x)]" by (simp add: upt_rec [of "unat x"])
  from draw_at_inside [OF assms(1) _ assms(3), of "unat x" "saved (save_buff v) k"] assms(2) obtain t where
    t: "draw_at (unat x, unat y) (saved (save_buff v) k) v = Ok t" "rest t = rest v" by auto
  then show ?thesis using rest_fields(12) [OF t(2)] by (simp add: plot_saved_at u r for_each_Nil andthen_Ok)
qed

lemma background_restored:
  assumes "screen w h v" "unat (cursor_x (vs_cursor v)) + 2 \<le> w" "unat (cursor_y (vs_cursor v)) + 16 \<le> h"
  shows "\<exists>v'. restore_background v = Ok v' \<and> rest v' = rest v \<and> picture w h v' = behind w h v"
proof -
  let ?X = "unat (cursor_x (vs_cursor v))" and ?Y = "unat (cursor_y (vs_cursor v))"
  let ?k = "\<lambda>(x, y). saved (save_buff v) (8 * (y - ?Y) + 4 * (x - ?X))"
  let ?row = "\<lambda>y. for_each [?X ..< ?X + 2] (\<lambda>x. draw_at (x, y) (?k (x, y)))"
  have u: "unat (cursor_y (vs_cursor v) + of_nat i) = ?Y + i" if "i < 16" for i
    using unat_near [of "cursor_y (vs_cursor v)" i] assms(3) screen_bounds(2) [OF assms(1)] that by simp
  have keep: "screen w h t' \<and> rest t' = rest v" if "i < 16" "screen w h t \<and> rest t = rest v" "?row (?Y + i) t = Ok t'" for i t t'
  proof -
    have "\<exists>t'. ?row (?Y + i) t = Ok t' \<and> (screen w h t' \<and> rest t' = rest v) \<and>
        picture w h t' = (\<lambda>p. if p \<in> set (map (\<lambda>x. (x, ?Y + i)) [?X ..< ?X + 2]) then mix (?k p) (picture w h t p) else picture w h t p)"
      unfolding for_each_map [of "\<lambda>x. (x, ?Y + i)" "[?X ..< ?X + 2]" "\<lambda>p. draw_at p (?k p)", symmetric]
      using that assms(2,3) by (intro canv.draw_all) (auto simp: distinct_map inj_on_def)
    then show ?thesis using that(3) by auto
  qed
  have "restore_background v = for_each [0 ..< 16] (\<lambda>i. ?row (?Y + i)) v"
    unfolding restore_background_def Let_def
  proof (rule for_each_cong_inv [where I = "\<lambda>t. screen w h t \<and> rest t = rest v"])
    fix i t assume i: "i \<in> set [0 ..< 16]" and t: "screen w h t \<and> rest t = rest v"
    have i16: "i < 16" using i by simp
    have s: "save_buff t = save_buff v" using t by (intro rest_fields(12)) simp
    show "andthen (plot_saved (save_buff t) (cursor_x (vs_cursor v)) (cursor_y (vs_cursor v) + of_nat i) (8 * i) t)
        (\<lambda>t. plot_saved (save_buff t) (cursor_x (vs_cursor v) + 1) (cursor_y (vs_cursor v) + of_nat i) (8 * i + 4) t) = ?row (?Y + i) t"
      using restore_row [of w h t "cursor_x (vs_cursor v)" "cursor_y (vs_cursor v) + of_nat i" "8 * i"] t assms(2,3) i16
      by (simp add: u [OF i16] s)
    show "screen w h t' \<and> rest t' = rest v" if "?row (?Y + i) t = Ok t'" for t' using keep [OF i16 t that] .
  qed (use assms(1) in simp)
  also have "\<dots> = for_each [?Y ..< ?Y + 16] ?row v"
    unfolding for_each_map [of "\<lambda>i. ?Y + i" "[0 ..< 16]" ?row, symmetric] map_add_upt [of ?Y 16, unfolded add.commute [of _ ?Y]] ..
  finally have l: "restore_background v = for_each [?Y ..< ?Y + 16] ?row v" .
  have "\<exists>v'. for_each [?Y ..< ?Y + 16] ?row v = Ok v' \<and> (screen w h v' \<and> rest v' = rest v) \<and>
      picture w h v' = (\<lambda>(x, y). if ?X \<le> x \<and> x < ?X + 2 \<and> ?Y \<le> y \<and> y < ?Y + 16 then mix (?k (x, y)) (picture w h v (x, y)) else picture w h v (x, y))"
    using assms by (intro canv.draw_rows) auto
  moreover have "(\<lambda>(x, y). if ?X \<le> x \<and> x < ?X + 2 \<and> ?Y \<le> y \<and> y < ?Y + 16 then mix (?k (x, y)) (picture w h v (x, y)) else picture w h v (x, y)) = behind w h v"
    by (auto simp: behind_def cursor_box_def in_box_def fun_eq_iff)
  ultimately show ?thesis unfolding l by auto
qed

lemma get_pixel_inside:
  assumes "screen w h v" "x < w" "y < h"
  shows "vesa_get_pixel (of_nat x) (of_nat y) (Some a) (Some r) (Some g) (Some b) v =
     Ok (case picture w h v (x, y) of (r, g, b) \<Rightarrow> (OS_NO_ERR, Some 0xFF, Some r, Some g, Some b))"
proof -
  from screen_mode [OF assms(1)] obtain m where m: "the_mode v = Ok m" "unat (mode_width m) = w" "unat (mode_height m) = h"
    "mode_bpp m = 32" "vesa_supported v \<noteq> 0" "current_mode v \<noteq> NULL" .
  note b = screen_bounds [OF assms(1)]
  have a: "point_offset w x y + 4 \<le> vram_size v" using point_inside [OF assms(2,3)] b(3) by simp
  then have "w * y + x < 2 ^ 32" using b(4) by (simp add: point_offset_def)
  then have off: "pixel_offset m (of_nat x) (of_nat y) = point_offset w x y" using m(2) assms(2,3) b(1,2) by (intro pixel_offset_nat) auto
  have "\<not> (of_nat x > mode_width m \<or> of_nat y > mode_height m)"
    using m(2,3) assms(2,3) b(1,2) by (simp add: word_less_nat_alt unat_of_nat)
  then show ?thesis using m a assms(2,3) by (simp add: vesa_get_pixel_def off Let_def picture_def)
qed

definition set_saved :: "u8 list \<Rightarrow> nat \<Rightarrow> u8 \<times> u8 \<times> u8 \<Rightarrow> u8 list" where
  "set_saved sb i = (\<lambda>(r, g, b). sb[i := 0xFF, i + 1 := r, i + 2 := g, i + 3 := b])"

lemma saved_set_saved:
  assumes "i + 3 < length sb"
  shows "saved (set_saved sb i c) i = (0xFF, c)" "k + 3 < i \<or> i + 3 < k \<Longrightarrow> saved (set_saved sb i c) k = saved sb k"
    "length (set_saved sb i c) = length sb"
  using assms by (auto simp: saved_def set_saved_def split: prod.splits)

lemma save_pixel_inside:
  assumes "screen w h v" "unat x < w" "unat y < h"
  shows "save_pixel x y i v = Ok (v\<lparr>save_buff := set_saved (save_buff v) i (picture w h v (unat x, unat y))\<rparr>)"
  using get_pixel_inside [OF assms, of "save_buff v ! i" "save_buff v ! (i + 1)" "save_buff v ! (i + 2)" "save_buff v ! (i + 3)"]
  by (simp add: save_pixel_def set_saved_def split: prod.splits)

lemma save_buff_frame [simp]:
  "screen w h (v\<lparr>save_buff := sb\<rparr>) = screen w h v" "picture w h (v\<lparr>save_buff := sb\<rparr>) = picture w h v"
  by (simp_all add: screen_def picture_def fun_eq_iff)

text \<open>A state in which only the frame buffer and the saved background differ.\<close>

definition drawn_over :: "vesa \<Rightarrow> vesa \<Rightarrow> bool" where
  "drawn_over v v' \<longleftrightarrow> rest (v'\<lparr>save_buff := save_buff v\<rparr>) = rest v \<and> length (save_buff v') = length (save_buff v)"

definition white :: "u8 \<times> u8 \<times> u8" where
  "white = (0xFF, 0xFF, 0xFF)"

lemma save_and_draw:
  assumes "screen w h v" "unat x < w" "unat y < h" "i + 3 < length (save_buff v)"
  shows "\<exists>v'. andthen (save_pixel x y i v) (\<lambda>v. plot (ucast x) (ucast y) 0xFF 0xFF 0xFF 0xFF v) = Ok v' \<and> screen w h v' \<and> drawn_over v v' \<and>
     picture w h v' = (picture w h v)((unat x, unat y) := white) \<and>
     save_buff v' = set_saved (save_buff v) i (picture w h v (unat x, unat y))"
proof -
  let ?v = "v\<lparr>save_buff := set_saved (save_buff v) i (picture w h v (unat x, unat y))\<rparr>"
  have p: "plot (ucast x) (ucast y) 0xFF 0xFF 0xFF 0xFF = draw_at (unat x, unat y) (0xFF, 0xFF, 0xFF, 0xFF)"
    by (simp add: draw_at_def)
  have "screen w h ?v" using assms(1) by simp
  from draw_at_inside [OF this assms(2,3), of "(0xFF, 0xFF, 0xFF, 0xFF)"] obtain v' where
    v': "draw_at (unat x, unat y) (0xFF, 0xFF, 0xFF, 0xFF) ?v = Ok v'" "rest v' = rest ?v"
      "picture w h v' = (picture w h ?v)((unat x, unat y) := mix (0xFF, 0xFF, 0xFF, 0xFF) (picture w h ?v (unat x, unat y)))"
    by (elim exE conjE)
  have m: "mix (0xFF, 0xFF, 0xFF, 0xFF) c = white" for c by (cases c) (simp add: mix_def white_def)
  have s: "save_buff v' = save_buff ?v" by (rule rest_fields(12) [OF v'(2)])
  have "rest (v'\<lparr>save_buff := save_buff v\<rparr>) = (rest v')\<lparr>save_buff := save_buff v\<rparr>" by (simp add: rest_def)
  also have "\<dots> = rest v" unfolding v'(2) by (simp add: rest_def)
  finally have "drawn_over v v'" using s saved_set_saved(3) [OF assms(4)] by (simp add: drawn_over_def)
  moreover have "screen w h v'" using screen_rest(1) [OF v'(2), of w h] assms(1) by simp
  ultimately show ?thesis
    using v'(1,3) s save_pixel_inside [OF assms(1-3), of i] unfolding p m by simp
qed

lemma drawn_over_trans: "drawn_over a b \<Longrightarrow> drawn_over b c \<Longrightarrow> drawn_over a c"
proof -
  assume ab: "drawn_over a b" and bc: "drawn_over b c"
  have e: "rest (v\<lparr>save_buff := sb\<rparr>) = (rest v)\<lparr>save_buff := sb\<rparr>" for v sb by (simp add: rest_def)
  have "rest (c\<lparr>save_buff := save_buff a\<rparr>) = (rest (c\<lparr>save_buff := save_buff b\<rparr>))\<lparr>save_buff := save_buff a\<rparr>" by (simp add: rest_def)
  also have "\<dots> = rest (b\<lparr>save_buff := save_buff a\<rparr>)" using bc unfolding e by (simp add: drawn_over_def e)
  finally show ?thesis using ab bc by (simp add: drawn_over_def)
qed

lemma drawn_over_refl [simp]: "drawn_over v v"
  by (simp add: drawn_over_def)

lemma drawn_over_rest: "rest v' = rest v \<Longrightarrow> drawn_over v v'"
proof -
  assume r: "rest v' = rest v"
  have "rest (v'\<lparr>save_buff := save_buff v\<rparr>) = (rest v')\<lparr>save_buff := save_buff v\<rparr>" by (simp add: rest_def)
  also have "\<dots> = rest v" unfolding r by (simp add: rest_def)
  finally show ?thesis using rest_fields(12) [OF r] by (simp add: drawn_over_def)
qed

text \<open>After \<open>n\<close> rows of the cursor.\<close>

lemma cursor_rows:
  assumes "screen w h v" "length (save_buff v) = 256" "unat column + 2 \<le> w" "unat line + 16 \<le> h" "n \<le> 16"
  shows "\<exists>v'. for_each [0 ..< n] (\<lambda>i v.
       let y = line + of_nat i
       in andthen (save_pixel column y (8 * i) v) (\<lambda>v.
          andthen (plot (ucast column) (ucast y) 0xFF 0xFF 0xFF 0xFF v) (\<lambda>v.
          andthen (save_pixel (column + 1) y (8 * i + 4) v) (\<lambda>v.
          plot (ucast (column + 1)) (ucast y) 0xFF 0xFF 0xFF 0xFF v)))) v = Ok v' \<and> screen w h v' \<and> drawn_over v v' \<and>
     picture w h v' = (\<lambda>p. if in_box (unat column) (unat line) 2 n p then white else picture w h v p) \<and>
     (\<forall>i < n. \<forall>k < 2. saved (save_buff v') (8 * i + 4 * k) = (0xFF, picture w h v (unat column + k, unat line + i)))"
  using assms(5)
proof (induction n)
  case 0
  then show ?case using assms(1) by (auto simp: in_box_def fun_eq_iff)
next
  case (Suc n)
  let ?c = "unat column" and ?l = "unat line"
  let ?body = "\<lambda>i v. let y = line + of_nat i
       in andthen (save_pixel column y (8 * i) v) (\<lambda>v.
          andthen (plot (ucast column) (ucast y) 0xFF 0xFF 0xFF 0xFF v) (\<lambda>v.
          andthen (save_pixel (column + 1) y (8 * i + 4) v) (\<lambda>v.
          plot (ucast (column + 1)) (ucast y) 0xFF 0xFF 0xFF 0xFF v)))"
  from Suc obtain t where t: "for_each [0 ..< n] ?body v = Ok t" "screen w h t" "drawn_over v t"
    "picture w h t = (\<lambda>p. if in_box ?c ?l 2 n p then white else picture w h v p)"
    "\<forall>i < n. \<forall>k < 2. saved (save_buff t) (8 * i + 4 * k) = (0xFF, picture w h v (?c + k, ?l + i))" by auto
  have len: "length (save_buff t) = 256" using t(3) assms(2) by (simp add: drawn_over_def)
  have u: "unat (line + of_nat n) = ?l + n" "unat (column + 1) = ?c + 1"
    using unat_near [of line n] unat_near [of column 1] assms(3,4) Suc.prems screen_bounds(1,2) [OF assms(1)] by simp_all
  have in1: "?c < w" "?l + n < h" "8 * n + 3 < length (save_buff t)" using assms(3,4) Suc.prems len by simp_all
  from save_and_draw [OF t(2), of column "line + of_nat n" "8 * n", unfolded u(1), OF in1] obtain t1 where
    t1: "andthen (save_pixel column (line + of_nat n) (8 * n) t) (\<lambda>v. plot (ucast column) (ucast (line + of_nat n)) 0xFF 0xFF 0xFF 0xFF v) = Ok t1"
      "screen w h t1" "drawn_over t t1" "picture w h t1 = (picture w h t)((?c, ?l + n) := white)"
      "save_buff t1 = set_saved (save_buff t) (8 * n) (picture w h t (?c, ?l + n))" by (elim exE conjE)
  have in2: "?c + 1 < w" "?l + n < h" "8 * n + 4 + 3 < length (save_buff t1)"
    using assms(3,4) Suc.prems len t1(3) by (simp_all add: drawn_over_def)
  from save_and_draw [OF t1(2), of "column + 1" "line + of_nat n" "8 * n + 4", unfolded u, OF in2] obtain t2 where
    t2: "andthen (save_pixel (column + 1) (line + of_nat n) (8 * n + 4) t1)
           (\<lambda>v. plot (ucast (column + 1)) (ucast (line + of_nat n)) 0xFF 0xFF 0xFF 0xFF v) = Ok t2"
      "screen w h t2" "drawn_over t1 t2" "picture w h t2 = (picture w h t1)((?c + 1, ?l + n) := white)"
      "save_buff t2 = set_saved (save_buff t1) (8 * n + 4) (picture w h t1 (?c + 1, ?l + n))" by (elim exE conjE)
  have "?body n t = Ok t2" using t1(1) t2(1) by (simp add: Let_def outcome_simps) (auto simp: outcome_simps)
  then have "for_each [0 ..< Suc n] ?body v = Ok t2" using t(1) by (simp add: for_each_append for_each_Nil andthen_Ok)
  moreover have "drawn_over v t2" by (rule drawn_over_trans [OF drawn_over_trans [OF t(3) t1(3)] t2(3)])
  moreover have "picture w h t2 = (\<lambda>p. if in_box ?c ?l 2 (Suc n) p then white else picture w h v p)"
    unfolding t2(4) t1(4) t(4) by (auto simp: in_box_def fun_eq_iff)
  moreover have "saved (save_buff t2) (8 * i + 4 * k) = (0xFF, picture w h v (?c + k, ?l + i))" if "i < Suc n" "k < 2" for i k
  proof (cases "i < n")
    case True
    then show ?thesis using t(5) that(2) in1(3) in2(3) unfolding t2(5) t1(5) by (simp add: saved_set_saved)
  next
    case False
    then have "i = n" "k = 0 \<or> k = 1" using that by auto
    then show ?thesis using in1(3) in2(3) unfolding t2(5) t1(5) t1(4) t(4) by (auto simp: saved_set_saved in_box_def)
  qed
  ultimately show ?case using t2(2) by blast
qed

lemma drawn_over_fields:
  assumes "drawn_over v v'"
  shows "vs_con v' = vs_con v" "mode_store v' = mode_store v" "current_mode v' = current_mode v" "vesa_supported v' = vesa_supported v"
    "vs_cursor v' = vs_cursor v" "vs_last_printed v' = vs_last_printed v" "vs_scheme v' = vs_scheme v"
    "vs_last_columns v' = vs_last_columns v" "transparent_char v' = transparent_char v" "vram_size v' = vram_size v"
    "length (save_buff v') = length (save_buff v)"
  using rest_fields [of "v'\<lparr>save_buff := save_buff v\<rparr>" v] assms by (simp_all add: drawn_over_def)

lemma drawn_over_mode:
  assumes "drawn_over v v'"
  shows "the_mode v' = the_mode v" "screen w h v' = screen w h v"
  unfolding the_mode_def screen_def drawn_over_fields [OF assms] by (rule refl)+

lemma cursor_moved:
  assumes "screen w h v" "length (save_buff v) = 256" "unat (cursor_x (vs_cursor v)) + 2 \<le> w" "unat (cursor_y (vs_cursor v)) + 16 \<le> h"
    and new: "unat column + 2 < w" "unat line + 16 \<le> h"
  shows "\<exists>v'. vesa_put_cursor_at line column v = Ok (OS_NO_ERR, v') \<and>
     drawn_over (v\<lparr>vs_cursor := \<lparr>cursor_x = column, cursor_y = line\<rparr>\<rparr>) v' \<and> screen w h v' \<and>
     picture w h v' = (\<lambda>p. if cursor_box v' p then white else behind w h v p) \<and> behind w h v' = behind w h v"
proof -
  let ?cur = "\<lparr>cursor_x = column, cursor_y = line\<rparr>"
  from background_restored [OF assms(1,3,4)] obtain v1 where
    v1: "restore_background v = Ok v1" "rest v1 = rest v" "picture w h v1 = behind w h v" by (elim exE conjE)
  let ?v = "v1\<lparr>vs_cursor := ?cur\<rparr>"
  have s1: "screen w h ?v" using screen_rest(1) [OF v1(2), of w h] assms(1) by (simp add: screen_def)
  from screen_mode [OF s1] obtain m where m: "the_mode ?v = Ok m" "unat (mode_width m) = w" "unat (mode_height m) = h"
    "mode_bpp m = 32" "vesa_supported ?v \<noteq> 0" "current_mode ?v \<noteq> NULL" .
  have "unat (column + 2) = unat column + 2" using unat_near [of column 2] new(1) screen_bounds(1) [OF assms(1)] by simp
  then have c: "column + 2 < ucast (mode_width m)"
    using new(1) m(2) screen_bounds(1) [OF assms(1)] by (simp add: word_less_nat_alt unsigned_ucast_eq take_bit_nat_eq_self)
  have p1: "picture w h ?v = behind w h v" unfolding v1(3) [symmetric] by (simp add: picture_def fun_eq_iff)
  have l1: "length (save_buff ?v) = 256" using rest_fields(12) [OF v1(2)] assms(2) by simp
  have n: "unat column + 2 \<le> w" "(16::nat) \<le> 16" using new(1) by simp_all
  from cursor_rows [OF s1 l1 n(1) new(2) n(2)] obtain v2 where
    v2: "draw_cursor line column ?v = Ok v2" "screen w h v2" "drawn_over ?v v2"
      "picture w h v2 = (\<lambda>p. if in_box (unat column) (unat line) 2 16 p then white else behind w h v p)"
      "\<forall>i < 16. \<forall>k < 2. saved (save_buff v2) (8 * i + 4 * k) = (0xFF, behind w h v (unat column + k, unat line + i))"
    unfolding p1 draw_cursor_def by (elim exE conjE)
  have cur: "vs_cursor v2 = ?cur" using drawn_over_fields(5) [OF v2(3)] by simp
  have box: "cursor_box v2 = in_box (unat column) (unat line) 2 16" by (simp add: cursor_box_def cur)
  have "drawn_over (v\<lparr>vs_cursor := ?cur\<rparr>) ?v"
  proof (rule drawn_over_rest)
    have "rest ?v = (rest v1)\<lparr>vs_cursor := ?cur\<rparr>" by (simp add: rest_def)
    then show "rest ?v = rest (v\<lparr>vs_cursor := ?cur\<rparr>)" unfolding v1(2) by (simp add: rest_def)
  qed
  then have "drawn_over (v\<lparr>vs_cursor := ?cur\<rparr>) v2" by (rule drawn_over_trans [OF _ v2(3)])
  moreover have "behind w h v2 = behind w h v"
  proof
    fix p :: "nat \<times> nat"
    show "behind w h v2 p = behind w h v p"
    proof (cases "in_box (unat column) (unat line) 2 16 p")
      case True
      then have i: "snd p - unat line < 16" "fst p - unat column < 2" and p: "p = (unat column + (fst p - unat column), unat line + (snd p - unat line))"
        by (cases p; simp add: in_box_def; force)+
      have "saved (save_buff v2) (8 * (snd p - unat line) + 4 * (fst p - unat column)) = (0xFF, behind w h v p)"
        using v2(5) i p by simp
      then have "behind w h v2 p = mix (0xFF, behind w h v p) (picture w h v2 p)"
        using True box by (simp add: behind_def [of w h v2] cur)
      then show ?thesis by (cases "behind w h v p") (cases "picture w h v2 p", simp add: mix_def)
    next
      case False
      then show ?thesis using box by (simp add: behind_def [of w h v2] v2(4))
    qed
  qed
  moreover have "vesa_put_cursor_at line column v = Ok (OS_NO_ERR, v2)"
    using v1(1) m(1) c v2(1) by (simp add: vesa_put_cursor_at_def Let_def)
  ultimately show ?thesis using v2(2,4) box by auto
qed

section \<open>Scrolling\<close>

text \<open>A picture moved up by a line of text, with \<open>q\<close> lines on the screen.\<close>

definition scrolled :: "nat \<Rightarrow> (nat \<times> nat \<Rightarrow> u8 \<times> u8 \<times> u8) \<Rightarrow> nat \<times> nat \<Rightarrow> u8 \<times> u8 \<times> u8" where
  "scrolled q f = (\<lambda>(x, y). if y < 16 * (q - 1) then f (x, y + 16) else if y < 16 * q then (0, 0, 0) else f (x, y))"

lemma unat_of_nat_32: "n < 2 ^ 32 \<Longrightarrow> unat (of_nat n :: u32) = n"
  by (simp add: unat_of_nat)

lemma scroll_pass_step:
  assumes "i < q - 1" "i < 256" "q < 2 ^ 31" "q \<le> length (vs_last_columns v)" "64 * (w * q) \<le> vram_size v" "vram_size v < 2 ^ 32"
  shows "scroll_pass (of_nat q) (of_nat (16 * w)) (of_nat (64 * w)) (of_nat i, src, v) =
     Ok (True, of_nat (i + 1), 64 * (w * (i + 1)),
       v\<lparr>vram := \<lambda>a. if 64 * (w * i) \<le> a \<and> a < 64 * (w * (i + 1)) then vram v (a + 64 * w) else vram v a,
         vs_last_columns := (vs_last_columns v)[i := vs_last_columns v ! (i + 1)]\<rparr>)"
proof -
  have "w * (i + 2) \<le> w * q" using assms(1) by (intro mult_le_mono2) simp
  then have e: "64 * (w * i) + 128 * w \<le> vram_size v" using assms(5) by (simp add: algebra_simps)
  have ui: "unat (of_nat i :: u8) = i" using assms(2) by (simp add: unat_of_nat)
  have uq: "unat (of_nat q :: u32) = q" using assms(3) by (intro unat_of_nat_32) simp
  have sq: "sint (of_nat q :: u32) = int q" using sint_small [of "of_nat q"] assms(3) unfolding uq by (simp only: simp_thms)
  have ul: "unat (of_nat (16 * w) :: u32) = 16 * w" "unat (of_nat (64 * w) :: u32) = 64 * w"
    using e assms(6) by (intro unat_of_nat_32; simp)+
  have "unat (ucast (of_nat i :: u8) * of_nat (16 * w) :: u32) = i * (16 * w)"
  proof -
    have "unat (ucast (of_nat i :: u8) :: u32) = i" using ui assms(2) by (simp add: unsigned_ucast_eq take_bit_nat_eq_self)
    moreover have "i * (16 * w) < 2 ^ 32" using e assms(6) by (simp add: algebra_simps)
    ultimately show ?thesis using ul(1) by (simp only: unat_word_ariths) simp
  qed
  then have d: "4 * unat (ucast (of_nat i :: u8) * of_nat (16 * w) :: u32) = 64 * (w * i)" by simp
  have c: "int i < int q - 1" using assms(1) by simp
  have m: "vram_memmove (64 * (w * i)) (64 * (w * i) + 64 * w) (of_nat (64 * w)) v =
      Ok (v\<lparr>vram := \<lambda>a. if 64 * (w * i) \<le> a \<and> a < 64 * (w * (i + 1)) then vram v (a + 64 * w) else vram v a\<rparr>)"
    using e unfolding vram_memmove_def ul by (simp add: algebra_simps fun_eq_iff cong: if_cong)
  show ?thesis unfolding scroll_pass_def prod.case Let_def d ui sq ul
    using c assms(1,4) m by (simp add: set_last_column_def algebra_simps)
qed

lemma scroll_rows_from:
  assumes "i \<le> q - 1" "q \<le> 256" "0 < q" "length (vs_last_columns v) = q" "64 * (w * q) \<le> vram_size v" "vram_size v < 2 ^ 32" "0 < w"
  shows "while_do (scroll_pass (of_nat q) (of_nat (16 * w)) (of_nat (64 * w))) (of_nat i, src, v) =
     Ok (of_nat (q - 1), if i < q - 1 then 64 * (w * (q - 1)) else src,
       v\<lparr>vram := \<lambda>a. if 64 * (w * i) \<le> a \<and> a < 64 * (w * (q - 1)) then vram v (a + 64 * w) else vram v a,
         vs_last_columns := take i (vs_last_columns v) @ drop (i + 1) (vs_last_columns v) @ [vs_last_columns v ! (q - 1)]\<rparr>)"
  using assms(1,4,5,6)
proof (induction "q - 1 - i" arbitrary: i src v)
  case 0
  have i: "i = q - 1" using 0 by simp
  have "i < 256" using i assms(2,3) by simp
  then have "unat (of_nat i :: u8) = i" by (simp add: unat_of_nat)
  moreover have "sint (of_nat q :: u32) = int q" using sint_small [of "of_nat q"] unat_of_nat_32 [of q] assms(2) by simp
  ultimately have s: "scroll_pass (of_nat q) (of_nat (16 * w)) (of_nat (64 * w)) (of_nat i, src, v) = Ok (False, of_nat i, src, v)"
    using i assms(3) unfolding scroll_pass_def prod.case by (simp only: of_nat_diff) simp
  have l: "take i (vs_last_columns v) @ drop (i + 1) (vs_last_columns v) @ [vs_last_columns v ! (q - 1)] = vs_last_columns v"
    using i 0(3) assms(3) take_Suc_conv_app_nth [of "q - 1" "vs_last_columns v"] by simp
  have "(\<lambda>a. if 64 * (w * i) \<le> a \<and> a < 64 * (w * (q - 1)) then vram v (a + 64 * w) else vram v a) = vram v"
    unfolding i by (rule ext, rule if_not_P) simp
  then show ?case using i unfolding while_do_unfold [of _ "(of_nat i, src, v)"] s l by (cases v) simp
next
  case (Suc d)
  let ?lc = "vs_last_columns v" and ?L = "64 * w"
  let ?v = "v\<lparr>vram := \<lambda>a. if 64 * (w * i) \<le> a \<and> a < 64 * (w * (i + 1)) then vram v (a + ?L) else vram v a,
         vs_last_columns := ?lc[i := ?lc ! (i + 1)]\<rparr>"
  have i: "i < q - 1" using Suc.hyps(2) by simp
  have "scroll_pass (of_nat q) (of_nat (16 * w)) (of_nat ?L) (of_nat i, src, v) = Ok (True, of_nat (i + 1), 64 * (w * (i + 1)), ?v)"
    using i assms(2) Suc.prems by (intro scroll_pass_step) simp_all
  note step = this
  have ih: "while_do (scroll_pass (of_nat q) (of_nat (16 * w)) (of_nat (64 * w))) (of_nat (i + 1), 64 * (w * (i + 1)), ?v) =
     Ok (of_nat (q - 1), if i + 1 < q - 1 then 64 * (w * (q - 1)) else 64 * (w * (i + 1)),
       ?v\<lparr>vram := \<lambda>a. if 64 * (w * (i + 1)) \<le> a \<and> a < 64 * (w * (q - 1)) then vram ?v (a + ?L) else vram ?v a,
         vs_last_columns := take (i + 1) (vs_last_columns ?v) @ drop (i + 1 + 1) (vs_last_columns ?v) @ [vs_last_columns ?v ! (q - 1)]\<rparr>)"
    by (rule Suc.hyps(1)) (use Suc.hyps(2) Suc.prems in simp_all)
  have src: "(if i + 1 < q - 1 then 64 * (w * (q - 1)) else 64 * (w * (i + 1))) = 64 * (w * (q - 1))"
  proof (cases "i + 1 < q - 1")
    case False
    then have "q - 1 = i + 1" using i by simp
    then show ?thesis by simp
  qed simp
  have mono: "64 * (w * (i + 1)) \<le> 64 * (w * (q - 1))" using i by (intro mult_le_mono2) simp
  have f: "(\<lambda>a. if 64 * (w * (i + 1)) \<le> a \<and> a < 64 * (w * (q - 1)) then vram ?v (a + ?L) else vram ?v a) =
      (\<lambda>a. if 64 * (w * i) \<le> a \<and> a < 64 * (w * (q - 1)) then vram v (a + ?L) else vram v a)"
    using mono by (auto simp: fun_eq_iff algebra_simps)
  have l: "take (i + 1) (vs_last_columns ?v) @ drop (i + 1 + 1) (vs_last_columns ?v) @ [vs_last_columns ?v ! (q - 1)] =
      take i ?lc @ drop (i + 1) ?lc @ [?lc ! (q - 1)]"
    using i Suc.prems(2) Cons_nth_drop_Suc [of "i + 1" ?lc] by (simp add: take_Suc_conv_app_nth)
  show ?case unfolding while_do_unfold [of _ "(of_nat i, src, v)"] step
    using ih i unfolding src f l by simp
qed

text \<open>Scrolling by one line moves the text up and clears the last line; what is behind the cursor is not moved with it.\<close>

lemma scroll_down_one_line:
  assumes "screen w h v" "h div 16 = q" "2 \<le> q" "q \<le> 256" "0 < w" "length (vs_last_columns v) = q"
  shows "\<exists>v'. scroll_down (of_nat q) (of_nat (16 * w)) (of_nat (64 * w)) 1 v = Ok v' \<and>
     rest v' = rest (v\<lparr>vs_last_columns := tl (vs_last_columns v) @ [last (vs_last_columns v)]\<rparr>) \<and>
     picture w h v' = scrolled q (picture w h v)"
proof -
  note b = screen_bounds [OF assms(1)]
  let ?lc = "vs_last_columns v" and ?L = "64 * w" and ?S = "64 * (w * (q - 1))"
  have "16 * q \<le> h" using assms(2) by (metis div_times_less_eq_dividend mult.commute)
  then have "w * (16 * q) \<le> w * h" by (rule mult_le_mono2)
  then have size: "64 * (w * q) \<le> vram_size v" using b(3) by linarith
  have S: "?S + ?L = 64 * (w * q)" using assms(3) by (simp add: algebra_simps diff_mult_distrib2)
  let ?f = "\<lambda>a. if 64 * (w * 0) \<le> a \<and> a < ?S then vram v (a + ?L) else vram v a"
  let ?v = "v\<lparr>vram := ?f, vs_last_columns := take 0 ?lc @ drop (0 + 1) ?lc @ [?lc ! (q - 1)]\<rparr>"
  have loop: "while_do (scroll_pass (of_nat q) (of_nat (16 * w)) (of_nat ?L)) (0, src, v) = Ok (of_nat (q - 1), ?S, ?v)" for src
    using scroll_rows_from [of 0 q v w src] assms size b(4) by simp
  have ul: "unat (of_nat ?L :: u32) = ?L" using size S b(4) by (intro unat_of_nat_32) simp
  let ?v' = "?v\<lparr>vram := \<lambda>a. if ?S \<le> a \<and> a < ?S + ?L then 0 else ?f a\<rparr>"
  have m: "fast_memset ?S 0 (of_nat ?L) ?v = Ok ?v'" using size unfolding fast_memset_def ul S by (simp add: fun_eq_iff cong: if_cong)
  have one: "[0 ..< unat (1 :: u8)] = [0]" by simp
  have lc: "take 0 ?lc @ drop (0 + 1) ?lc @ [?lc ! (q - 1)] = tl ?lc @ [last ?lc]"
    using assms(3,6) last_conv_nth [of ?lc] by (cases ?lc) (auto simp: drop_Suc)
  have r: "scroll_down (of_nat q) (of_nat (16 * w)) (of_nat ?L) 1 v = Ok ?v'"
    unfolding scroll_down_def one for_each.simps prod.case loop andthen.simps by (rule m)
  have "rest ?v' = rest (v\<lparr>vs_last_columns := tl ?lc @ [last ?lc]\<rparr>)" unfolding lc by (simp add: rest_def)
  moreover have "picture w h ?v' = scrolled q (picture w h v)"
  proof
    fix p :: "nat \<times> nat"
    obtain x y where p: "p = (x, y)" by fastforce
    show "picture w h ?v' p = scrolled q (picture w h v) p"
    proof (cases "x < w \<and> y < h")
      case True
      have up: "point_offset w x y + ?L = point_offset w x (y + 16)" by (simp add: point_offset_def algebra_simps)
      have lt: "point_offset w x y + k < 64 * (w * n) \<longleftrightarrow> y < 16 * n" if "k < 4" for k n
      proof
        assume "y < 16 * n"
        then have "w * (y + 1) \<le> w * (16 * n)" by (intro mult_le_mono2) simp
        then show "point_offset w x y + k < 64 * (w * n)" using that True by (simp add: point_offset_def algebra_simps)
      next
        assume a: "point_offset w x y + k < 64 * (w * n)"
        show "y < 16 * n"
        proof (rule ccontr)
          assume "\<not> y < 16 * n"
          then have "4 * (w * (16 * n)) \<le> 4 * (w * y)" by (intro mult_le_mono2) simp
          also have "\<dots> \<le> point_offset w x y + k" by (simp add: point_offset_def)
          finally have "64 * (w * n) \<le> point_offset w x y + k" by simp
          then show False using a unfolding not_le [symmetric] by (rule notE [rotated])
        qed
      qed
      have px: "vram ?v' (point_offset w x y + k) =
          (if y < 16 * (q - 1) then vram v (point_offset w x (y + 16) + k) else if y < 16 * q then 0 else vram v (point_offset w x y + k))"
        if "k < 4" for k
        using lt [OF that, of "q - 1"] lt [OF that, of q] S up [symmetric] by (auto simp: add.assoc add.commute [of k])
      have yb: "y + 16 < h" if "y < 16 * (q - 1)" using that \<open>16 * q \<le> h\<close> assms(3) by simp
      show ?thesis using True px [of 0] px [of 1] px [of 2] yb unfolding p picture_def scrolled_def by (simp add: Let_def)
    next
      case False
      then show ?thesis using \<open>16 * q \<le> h\<close> unfolding p picture_def scrolled_def by auto
    qed
  qed
  ultimately show ?thesis using r by (intro exI conjI)
qed

section \<open>The invariant of the console\<close>

text \<open>Text cells are 8 by 16 pixels; the cursor is at the corner of a cell, and every remembered column is one that is not
  the last of its line. Between two characters the cursor is not at the last cell either.\<close>

definition cell_ok :: "nat \<Rightarrow> u32 \<Rightarrow> bool" where
  "cell_ok w x \<longleftrightarrow> 8 dvd unat x \<and> unat x + 8 \<le> w"

definition column_ok :: "nat \<Rightarrow> u32 \<Rightarrow> bool" where
  "column_ok w x \<longleftrightarrow> cell_ok w x \<and> unat x + 8 < w"

definition line_ok :: "nat \<Rightarrow> u32 \<Rightarrow> bool" where
  "line_ok h y \<longleftrightarrow> 16 dvd unat y \<and> unat y + 16 \<le> h"

definition vesa_within :: "nat \<Rightarrow> nat \<Rightarrow> vesa \<Rightarrow> bool" where
  "vesa_within w h v \<longleftrightarrow> talks (vs_con v) \<and> screen w h v \<and> 8 dvd w \<and> 16 < w \<and> 32 \<le> h \<and> h div 16 \<le> 256 \<and>
     length (save_buff v) = 256 \<and> length (vs_last_columns v) = h div 16 \<and> (\<forall>c \<in> set (vs_last_columns v). column_ok w c) \<and>
     cell_ok w (cursor_x (vs_cursor v)) \<and> line_ok h (cursor_y (vs_cursor v))"

definition vesa_ok :: "nat \<Rightarrow> nat \<Rightarrow> vesa \<Rightarrow> bool" where
  "vesa_ok w h v \<longleftrightarrow> vesa_within w h v \<and> unat (cursor_x (vs_cursor v)) + 8 < w"

definition vesa_at_corner :: "nat \<Rightarrow> nat \<Rightarrow> vesa \<Rightarrow> bool" where
  "vesa_at_corner w h v \<longleftrightarrow> w \<le> unat (cursor_x (vs_cursor v)) + 16 \<and> h < unat (cursor_y (vs_cursor v)) + 32"

lemma vesa_withinD:
  assumes "vesa_within w h v"
  shows "talks (vs_con v)" "screen w h v" "16 < w" "32 \<le> h" "h div 16 \<le> 256" "length (save_buff v) = 256"
    "length (vs_last_columns v) = h div 16" "\<forall>c \<in> set (vs_last_columns v). column_ok w c"
    "cell_ok w (cursor_x (vs_cursor v))" "line_ok h (cursor_y (vs_cursor v))"
    "unat (cursor_x (vs_cursor v)) + 8 \<le> w" "unat (cursor_y (vs_cursor v)) + 16 \<le> h" "w < 65536" "h < 65536" "8 dvd w"
  using assms screen_bounds [of w h v] by (auto simp: vesa_within_def cell_ok_def line_ok_def)

lemma vesa_okD: "vesa_ok w h v \<Longrightarrow> vesa_within w h v" "vesa_ok w h v \<Longrightarrow> column_ok w (cursor_x (vs_cursor v))"
  by (simp_all add: vesa_ok_def column_ok_def vesa_within_def)

lemma vesa_okI: "vesa_within w h v \<Longrightarrow> column_ok w (cursor_x (vs_cursor v)) \<Longrightarrow> vesa_ok w h v"
  by (simp add: vesa_ok_def column_ok_def)

lemma vesa_within_over:
  assumes "drawn_over v v'"
  shows "vesa_within w h v' = vesa_within w h v"
  unfolding vesa_within_def drawn_over_mode(2) [OF assms] drawn_over_fields [OF assms] by (rule refl)

lemma mode_words:
  assumes "vesa_within w h v"
  obtains m where "the_mode v = Ok m" "unat (mode_width m) = w" "unat (mode_height m) = h" "mode_bpp m = 32"
    "unat (ucast (mode_width m) :: u32) = w" "unat (ucast (mode_height m) :: u32) = h"
proof -
  from screen_mode [OF vesa_withinD(2) [OF assms]] obtain m where m: "the_mode v = Ok m" "unat (mode_width m) = w" "unat (mode_height m) = h"
    "mode_bpp m = 32" "vesa_supported v \<noteq> 0" "current_mode v \<noteq> NULL" .
  moreover have "unat (ucast (mode_width m) :: u32) = w" "unat (ucast (mode_height m) :: u32) = h"
    using m(2,3) vesa_withinD(13,14) [OF assms] by (simp_all add: unsigned_ucast_eq take_bit_nat_eq_self)
  ultimately show ?thesis using that by blast
qed

lemma move_ok:
  assumes "vesa_within w h v" "cell_ok w column" "line_ok h line"
  shows "\<exists>v'. vesa_move_cursor line column v = Ok v' \<and> vesa_within w h v' \<and>
     drawn_over (v\<lparr>vs_cursor := \<lparr>cursor_x = column, cursor_y = line\<rparr>\<rparr>) v' \<and>
     picture w h v' = (\<lambda>p. if cursor_box v' p then white else behind w h v p) \<and> behind w h v' = behind w h v"
proof -
  note o = vesa_withinD [OF assms(1)]
  let ?v = "v\<lparr>vs_cursor := \<lparr>cursor_x = column, cursor_y = line\<rparr>\<rparr>"
  have c: "unat (cursor_x (vs_cursor v)) + 2 \<le> w" "unat column + 2 < w" "unat line + 16 \<le> h"
    using o(11) assms(2,3) by (simp_all add: cell_ok_def line_ok_def)
  from cursor_moved [OF o(2,6) c(1) o(12) c(2,3)] obtain v' where
    v': "vesa_put_cursor_at line column v = Ok (OS_NO_ERR, v')" "drawn_over ?v v'" "screen w h v'"
      "picture w h v' = (\<lambda>p. if cursor_box v' p then white else behind w h v p)" "behind w h v' = behind w h v" by (elim exE conjE)
  have "vesa_within w h ?v" using assms by (simp add: vesa_within_def screen_def)
  then have "vesa_within w h v'" using vesa_within_over [OF v'(2)] by simp
  then show ?thesis using v' by (auto simp: vesa_move_cursor_def)
qed

lemma last_columns_frame [simp]:
  "screen w h (v\<lparr>vs_last_columns := lc\<rparr>) = screen w h v" "behind w h (v\<lparr>vs_last_columns := lc\<rparr>) = behind w h v"
  "picture w h (v\<lparr>vs_last_columns := lc\<rparr>) = picture w h v" "the_mode (v\<lparr>vs_last_columns := lc\<rparr>) = the_mode v"
  by (simp_all add: screen_def behind_def picture_def cursor_box_def the_mode_def fun_eq_iff)

lemma last_column_ok:
  assumes "vesa_within w h v" "column_ok w x"
  shows "set_last_column (text_line v) x v = Ok (v\<lparr>vs_last_columns := (vs_last_columns v)[text_line v := x]\<rparr>)"
    "vesa_within w h (v\<lparr>vs_last_columns := (vs_last_columns v)[text_line v := x]\<rparr>)"
proof -
  note o = vesa_withinD [OF assms(1)]
  have "text_line v = unat (cursor_y (vs_cursor v)) div 16" by (simp add: text_line_def unat_div)
  moreover have "(unat (cursor_y (vs_cursor v)) + 16) div 16 \<le> h div 16" using o(12) by (rule div_le_mono)
  ultimately have "text_line v < h div 16" by simp
  then show "set_last_column (text_line v) x v = Ok (v\<lparr>vs_last_columns := (vs_last_columns v)[text_line v := x]\<rparr>)"
    using o(7) by (simp add: set_last_column_def)
  have "\<forall>c \<in> set ((vs_last_columns v)[text_line v := x]). column_ok w c"
    using o(8) assms(2) set_update_subset_insert [of "vs_last_columns v" "text_line v" x] by blast
  then show "vesa_within w h (v\<lparr>vs_last_columns := (vs_last_columns v)[text_line v := x]\<rparr>)"
    using assms(1) by (simp add: vesa_within_def)
qed

lemma note_ok:
  assumes "vesa_ok w h v"
  shows "\<exists>lc. vesa_note_column v = Ok (v\<lparr>vs_last_columns := lc\<rparr>) \<and> vesa_ok w h (v\<lparr>vs_last_columns := lc\<rparr>)"
  using last_column_ok [OF vesa_okD [OF assms]] assms by (auto simp: vesa_note_column_def vesa_ok_def)

lemma blank_ok:
  assumes "vesa_within w h v" "right \<le> w"
  shows "\<exists>v'. blank_to right v = Ok v' \<and> rest v' = rest v \<and> vesa_within w h v'"
proof -
  from blank_drawn [OF vesa_withinD(2) [OF assms(1)] assms(2) vesa_withinD(12) [OF assms(1)]] obtain v' where
    v': "blank_to right v = Ok v'" "rest v' = rest v" by (elim exE conjE)
  with vesa_within_over [OF drawn_over_rest [OF v'(2)]] assms(1) show ?thesis by auto
qed

lemma zero_column_ok [simp]: "16 < w \<Longrightarrow> column_ok w 0" "16 < w \<Longrightarrow> cell_ok w 0"
  by (simp_all add: column_ok_def cell_ok_def)

lemma last_printed_frame [simp]:
  "screen w h (v\<lparr>vs_last_printed := p\<rparr>) = screen w h v" "behind w h (v\<lparr>vs_last_printed := p\<rparr>) = behind w h v"
  "picture w h (v\<lparr>vs_last_printed := p\<rparr>) = picture w h v" "vesa_within w h (v\<lparr>vs_last_printed := p\<rparr>) = vesa_within w h v"
  "vesa_ok w h (v\<lparr>vs_last_printed := p\<rparr>) = vesa_ok w h v"
  by (simp_all add: screen_def behind_def picture_def cursor_box_def vesa_within_def vesa_ok_def fun_eq_iff)

lemma scroll_words:
  assumes "unat (width :: u32) = w" "unat (height :: u32) = h" "w < 65536" "32 \<le> h" "h < 65536"
  shows "height div font_height = of_nat (h div 16)" "height div font_height \<noteq> 0" "font_height * width = of_nat (16 * w)"
    "4 * (font_height * width) = of_nat (64 * w)"
    "unat (height - height mod (height div font_height * font_height) - font_height) = 16 * (h div 16 - 1)"
proof -
  have wd: "width = of_nat w" "height = of_nat h" using assms(1,2) by (metis of_nat_unat ucast_id)+
  have q: "unat (height div font_height) = h div 16" using assms(2) by (simp add: unat_div)
  have q0: "h div 16 \<noteq> 0" "h div 16 < 4096" using assms(4,5) by (simp_all add: div_eq_0_iff less_mult_imp_div_less)
  show "height div font_height = of_nat (h div 16)" using q q0 by (simp add: word_unat_eq_iff unat_of_nat)
  show "height div font_height \<noteq> 0" using q q0 by (metis unat_0)
  show "font_height * width = of_nat (16 * w)" "4 * (font_height * width) = of_nat (64 * w)" by (simp_all add: wd)
  have "unat (height div font_height * font_height) = 16 * (h div 16)"
    using q q0(2) by (simp add: unat_word_ariths)
  moreover have "h mod (16 * (h div 16)) = h mod 16"
    unfolding mod_mult2_eq by simp
  ultimately have m: "unat (height mod (height div font_height * font_height)) = h mod 16" using assms(2) by (simp add: unat_mod)
  have "h mod 16 < 16" by simp
  then have h: "h mod 16 \<le> h" "16 \<le> h - h mod 16" using assms(4) by arith+
  have d: "unat (height - t - font_height) = h - n - 16" if "unat t = n" "n \<le> h" "16 \<le> h - n" for t n
    using that assms(2) by (simp add: unat_sub_if')
  show "unat (height - height mod (height div font_height * font_height) - font_height) = 16 * (h div 16 - 1)"
    unfolding d [OF m h] by (simp add: minus_mod_eq_mult_div diff_mult_distrib2)
qed

text \<open>The picture behind the cursor after a scroll: what was saved for the cursor goes back to its old place.\<close>

definition behind_scrolled :: "nat \<Rightarrow> nat \<Rightarrow> vesa \<Rightarrow> nat \<times> nat \<Rightarrow> u8 \<times> u8 \<times> u8" where
  "behind_scrolled w h v p =
     (let f = scrolled (h div 16) (picture w h v)
      in if cursor_box v p
         then mix (saved (save_buff v) (8 * (snd p - unat (cursor_y (vs_cursor v))) + 4 * (fst p - unat (cursor_x (vs_cursor v))))) (f p)
         else f p)"

lemma scroll_ok:
  assumes "vesa_within w h v"
  shows "\<exists>v'. vesa_scroll SCROLL_DOWN 1 v = Ok v' \<and> vesa_within w h v' \<and> behind w h v' = behind_scrolled w h v \<and>
     cursor_x (vs_cursor v') = 0 \<and> unat (cursor_y (vs_cursor v')) = 16 * (h div 16 - 1) \<and> vs_scheme v' = vs_scheme v"
proof -
  note o = vesa_withinD [OF assms]
  let ?q = "h div 16" and ?lc = "vs_last_columns v"
  from mode_words [OF assms] obtain m where m: "the_mode v = Ok m" "unat (mode_width m) = w" "unat (mode_height m) = h" "mode_bpp m = 32"
    "unat (ucast (mode_width m) :: u32) = w" "unat (ucast (mode_height m) :: u32) = h" .
  note wd = scroll_words [OF m(5,6) o(13,4,14)]
  have q2: "2 \<le> ?q" using div_le_mono [OF o(4), of 16] by simp
  have w0: "0 < w" using o(3) by simp
  from scroll_down_one_line [OF o(2) refl q2 o(5) w0 o(7)] obtain v1 where
    v1: "scroll_down (of_nat ?q) (of_nat (16 * w)) (of_nat (64 * w)) 1 v = Ok v1"
      "rest v1 = rest (v\<lparr>vs_last_columns := tl ?lc @ [last ?lc]\<rparr>)" "picture w h v1 = scrolled ?q (picture w h v)"
    by (elim exE conjE)
  have bpp: "drop_bit 3 (ucast (mode_bpp m) OR 7) * of_nat (16 * w) = (of_nat (64 * w) :: u32)"
    using m(4) by simp
  have lc: "length (tl ?lc @ [last ?lc]) = ?q" "\<forall>c \<in> set (tl ?lc @ [last ?lc]). column_ok w c"
    using o(7,8) q2 by (cases ?lc; auto)+
  have ok1: "vesa_within w h v1"
    unfolding vesa_within_over [OF drawn_over_rest [OF v1(2)]] using assms lc by (simp add: vesa_within_def)
  have b1: "behind w h v1 = behind_scrolled w h v"
    using v1(3) rest_fields(7,12) [OF v1(2)] by (simp add: behind_def behind_scrolled_def cursor_box_def fun_eq_iff Let_def)
  have "line_ok h (ucast (mode_height m) - ucast (mode_height m) mod (ucast (mode_height m) div font_height * font_height) - font_height)"
    (is "line_ok h ?l")
    using q2 div_times_less_eq_dividend [of h 16] unfolding line_ok_def wd(5) by (simp add: diff_mult_distrib2)
  from move_ok [OF ok1 zero_column_ok(2) [OF o(3)] this] obtain v2 where
    v2: "vesa_move_cursor ?l 0 v1 = Ok v2" "vesa_within w h v2" "drawn_over (v1\<lparr>vs_cursor := \<lparr>cursor_x = 0, cursor_y = ?l\<rparr>\<rparr>) v2"
      "behind w h v2 = behind w h v1" by (elim exE conjE)
  let ?v3 = "v2\<lparr>vs_last_columns := (vs_last_columns v2)[text_line v2 := 0]\<rparr>"
  note l = last_column_ok [OF v2(2) zero_column_ok(1) [OF o(3)]]
  have "\<exists>lp. vesa_scroll SCROLL_DOWN 1 v = Ok (?v3\<lparr>vs_last_printed := lp\<rparr>)"
    using v1(1) v2(1) l(1) wd(2) unfolding vesa_scroll_def m(1) Let_def andthen.simps wd(3) bpp wd(1) [symmetric]
    by (simp add: Let_def) (intro conjI impI; rule exI, rule refl)
  then obtain lp where r: "vesa_scroll SCROLL_DOWN 1 v = Ok (?v3\<lparr>vs_last_printed := lp\<rparr>)" ..
  have "vs_cursor v2 = \<lparr>cursor_x = 0, cursor_y = ?l\<rparr>" using drawn_over_fields(5) [OF v2(3)] by simp
  moreover have "vs_scheme v2 = vs_scheme v" using drawn_over_fields(7) [OF v2(3)] rest_fields(9) [OF v1(2)] by simp
  ultimately show ?thesis using r l(2) wd(5) v2(4) b1 by simp
qed

section \<open>Characters\<close>

lemma behind_draw:
  assumes "rest v' = rest v" "picture w h v' = (\<lambda>p. if B p then mix (k p) (picture w h v p) else picture w h v p)"
    and "\<And>p. B p \<Longrightarrow> \<not> cursor_box v p"
  shows "behind w h v' = (\<lambda>p. if B p then mix (k p) (behind w h v p) else behind w h v p)"
proof
  fix p
  have "cursor_box v' = cursor_box v" using rest_fields(7) [OF assms(1)] by (simp add: cursor_box_def)
  then show "behind w h v' p = (if B p then mix (k p) (behind w h v p) else behind w h v p)"
    using assms(3) [of p] rest_fields(7,12) [OF assms(1)] by (simp add: behind_def assms(2))
qed

lemma within_rest: "rest v' = rest v \<Longrightarrow> vesa_within w h v' = vesa_within w h v"
  by (rule vesa_within_over [OF drawn_over_rest])

lemma below_iff:
  assumes "unat (height :: u32) = h" "16 \<le> h"
  shows "y > height - font_height \<longleftrightarrow> h < unat y + 16"
  using assms by (auto simp: word_less_nat_alt unat_sub_if')

lemma next_line_ok:
  assumes "vesa_within w h v" "unat (cursor_y (vs_cursor v)) + 32 \<le> h"
  shows "\<exists>v'. andthen (blank_to w v) (\<lambda>v. vesa_move_cursor (cursor_y (vs_cursor v) + font_height) 0 v) = Ok v' \<and> vesa_ok w h v' \<and>
     vs_scheme v' = vs_scheme v \<and> vs_cursor v' = \<lparr>cursor_x = 0, cursor_y = cursor_y (vs_cursor v) + font_height\<rparr>"
proof -
  note o = vesa_withinD [OF assms(1)]
  from blank_ok [OF assms(1) order_refl] obtain v1 where
    v1: "blank_to w v = Ok v1" "rest v1 = rest v" "vesa_within w h v1" by (elim exE conjE)
  have c: "vs_cursor v1 = vs_cursor v" by (rule rest_fields(7) [OF v1(2)])
  have "unat (cursor_y (vs_cursor v) + font_height) = unat (cursor_y (vs_cursor v)) + 16"
    using unat_near [of "cursor_y (vs_cursor v)" 16] assms(2) o(14) by simp
  then have "line_ok h (cursor_y (vs_cursor v) + font_height)" using o(10) assms(2) by (simp add: line_ok_def)
  from move_ok [OF v1(3) zero_column_ok(2) [OF o(3)] this] obtain v2 where
    v2: "vesa_move_cursor (cursor_y (vs_cursor v) + font_height) 0 v1 = Ok v2" "vesa_within w h v2"
      "drawn_over (v1\<lparr>vs_cursor := \<lparr>cursor_x = 0, cursor_y = cursor_y (vs_cursor v) + font_height\<rparr>\<rparr>) v2" by (elim exE conjE)
  have k: "vs_cursor v2 = \<lparr>cursor_x = 0, cursor_y = cursor_y (vs_cursor v) + font_height\<rparr>" "vs_scheme v2 = vs_scheme v"
    using drawn_over_fields(5,7) [OF v2(3)] rest_fields(9) [OF v1(2)] by simp_all
  then have "vesa_ok w h v2" using v2(2) o(3) by (simp add: vesa_ok_def)
  then show ?thesis using v1(1) v2(1) k c by simp
qed

text \<open>The steps of a printable character up to the test for the end of the line: the glyph goes to the cell of the cursor
  and the cursor to the next cell.\<close>

definition put_glyph :: "u8 list \<Rightarrow> char \<Rightarrow> vesa \<Rightarrow> vesa outcome" where
  "put_glyph font ch v =
     andthen (vesa_move_cursor (cursor_y (vs_cursor v)) (cursor_x (vs_cursor v) + font_width) v) (\<lambda>v.
     draw_in_scheme font ch (cursor_x (vs_cursor v) - font_width) (cursor_y (vs_cursor v)) v)"

definition with_glyph :: "u8 list \<Rightarrow> char \<Rightarrow> nat \<Rightarrow> nat \<Rightarrow> u32 \<Rightarrow> u32 \<Rightarrow> (nat \<times> nat \<Rightarrow> u8 \<times> u8 \<times> u8) \<Rightarrow> nat \<times> nat \<Rightarrow> u8 \<times> u8 \<times> u8" where
  "with_glyph font ch x y fg bg f p =
     (if in_box x y 8 16 p then mix (ink (if glyph_bit font ch (fst p - x) (snd p - y) then fg else bg)) (f p) else f p)"

lemma next_cell: "8 dvd a \<Longrightarrow> 8 dvd b \<Longrightarrow> a + 8 < b \<Longrightarrow> a + 16 \<le> b" for a b :: nat
  by presburger

lemma glyph_put:
  assumes "vesa_ok w h v" "printable ch" "1536 \<le> length font"
  shows "\<exists>v'. put_glyph font ch v = Ok v' \<and> vesa_within w h v' \<and> vs_scheme v' = vs_scheme v \<and>
     vs_cursor v' = \<lparr>cursor_x = cursor_x (vs_cursor v) + font_width, cursor_y = cursor_y (vs_cursor v)\<rparr> \<and>
     behind w h v' = with_glyph font ch (unat (cursor_x (vs_cursor v))) (unat (cursor_y (vs_cursor v)))
       (foreground (vs_scheme v)) (glyph_background v) (behind w h v)"
proof -
  note ok = vesa_okD [OF assms(1)] and o = vesa_withinD [OF vesa_okD(1) [OF assms(1)]]
  let ?x = "cursor_x (vs_cursor v)" and ?y = "cursor_y (vs_cursor v)"
  let ?cur = "\<lparr>cursor_x = ?x + font_width, cursor_y = ?y\<rparr>"
  have x: "unat (?x + font_width) = unat ?x + 8" using unat_near [of ?x 8] o(11,13) by simp
  have "8 dvd unat ?x" "unat ?x + 8 < w" using ok(2) by (simp_all add: column_ok_def cell_ok_def)
  moreover from next_cell [OF this(1) o(15) this(2)] have "unat ?x + 16 \<le> w" .
  ultimately have "cell_ok w (?x + font_width)" using x by (simp add: cell_ok_def)
  from move_ok [OF ok(1) this o(10)] obtain v1 where
    v1: "vesa_move_cursor ?y (?x + font_width) v = Ok v1" "vesa_within w h v1" "drawn_over (v\<lparr>vs_cursor := ?cur\<rparr>) v1"
      "behind w h v1 = behind w h v" by (elim exE conjE)
  have k: "vs_cursor v1 = ?cur" "vs_scheme v1 = vs_scheme v" "transparent_char v1 = transparent_char v"
    using drawn_over_fields(5,7,9) [OF v1(3)] by simp_all
  from glyph_drawn [OF vesa_withinD(2) [OF v1(2)] assms(2,3) o(11,12), of "foreground (vs_scheme v)" "glyph_background v"] obtain v2 where
    v2: "vesa_drawchar font ch ?x ?y (foreground (vs_scheme v)) (glyph_background v) v1 = Ok v2" "rest v2 = rest v1"
      "picture w h v2 = (\<lambda>p. if in_box (unat ?x) (unat ?y) 8 16 p
         then mix (ink (if glyph_bit font ch (fst p - unat ?x) (snd p - unat ?y) then foreground (vs_scheme v) else glyph_background v)) (picture w h v1 p)
         else picture w h v1 p)" by (elim exE conjE)
  have "\<not> cursor_box v1 p" if "in_box (unat ?x) (unat ?y) 8 16 p" for p
    using that x by (auto simp: cursor_box_def k(1) in_box_def)
  from behind_draw [OF v2(2,3) this] have "behind w h v2 = with_glyph font ch (unat ?x) (unat ?y) (foreground (vs_scheme v)) (glyph_background v) (behind w h v)"
    by (simp add: v1(4) with_glyph_def fun_eq_iff)
  moreover have "draw_in_scheme font ch (cursor_x (vs_cursor v1) - font_width) (cursor_y (vs_cursor v1)) v1 = Ok v2"
    using v2(1) unfolding draw_in_scheme_def glyph_background_def k by simp
  ultimately show ?thesis
    using v1(1,2) v2(2) within_rest [OF v2(2), of w h] rest_fields(7,9) [OF v2(2)] k by (auto simp: put_glyph_def)
qed

text \<open>What returns in a state with a property, or faults.\<close>

definition ok_or_fault :: "'a outcome \<Rightarrow> ('a \<Rightarrow> bool) \<Rightarrow> bool" where
  "ok_or_fault r P \<longleftrightarrow> r = Fault \<or> (\<exists>x. r = Ok x \<and> P x)"

lemma ok_or_fault_simps [simp]: "ok_or_fault (Ok x) P = P x" "ok_or_fault Fault P"
  by (simp_all add: ok_or_fault_def)

lemma ok_or_fault_then: "ok_or_fault r P \<Longrightarrow> (\<And>x. P x \<Longrightarrow> ok_or_fault (f x) Q) \<Longrightarrow> ok_or_fault (andthen r f) Q"
  by (cases r) (simp_all add: ok_or_fault_def)

lemma ok_or_fault_each: "(\<And>x s. P s \<Longrightarrow> ok_or_fault (body x s) P) \<Longrightarrow> P s \<Longrightarrow> ok_or_fault (for_each xs body s) P"
proof (induction xs arbitrary: s)
  case (Cons x xs)
  have "ok_or_fault (body x s) P" using Cons.prems by simp
  then show ?case unfolding for_each.simps by (rule ok_or_fault_then) (rule Cons.IH [OF Cons.prems(1)])
qed simp

lemma then_fault: "ok_or_fault r P \<Longrightarrow> (\<And>x. P x \<Longrightarrow> f x = Fault) \<Longrightarrow> andthen r f = Fault"
  by (auto simp: ok_or_fault_def)

text \<open>Moving the cursor anywhere changes no more than the cursor, the pixels and the saved background.\<close>

definition at_cursor :: "vesa_mode_t \<Rightarrow> cursor_t \<Rightarrow> u32 list \<Rightarrow> vesa \<Rightarrow> bool" where
  "at_cursor m c lc v \<longleftrightarrow> the_mode v = Ok m \<and> vs_cursor v = c \<and> vs_last_columns v = lc"

lemma plot_anywhere: "at_cursor m c lc v \<Longrightarrow> ok_or_fault (plot x y al r g b v) (at_cursor m c lc)"
  by (auto simp: plot_def vesa_draw_pixel_def Let_def at_cursor_def the_mode_def)

lemma plot_saved_anywhere: "at_cursor m c lc v \<Longrightarrow> ok_or_fault (plot_saved sb x y k v) (at_cursor m c lc)"
  unfolding plot_saved_def by (rule plot_anywhere)

lemma save_anywhere: "at_cursor m c lc v \<Longrightarrow> ok_or_fault (save_pixel x y k v) (at_cursor m c lc)"
  by (auto simp: save_pixel_def vesa_get_pixel_def Let_def at_cursor_def the_mode_def)

lemma move_anywhere:
  assumes "at_cursor m c lc v"
  shows "ok_or_fault (vesa_move_cursor line column v) (at_cursor m \<lparr>cursor_x = column, cursor_y = line\<rparr> lc)"
proof -
  let ?c = "\<lparr>cursor_x = column, cursor_y = line\<rparr>"
  have r: "ok_or_fault (restore_background v) (at_cursor m c lc)"
    unfolding restore_background_def Let_def
    by (rule ok_or_fault_each [where P = "at_cursor m c lc", OF _ assms], rule ok_or_fault_then, erule plot_saved_anywhere, erule plot_saved_anywhere)
  have d: "ok_or_fault (draw_cursor line column t) (at_cursor m ?c lc)" if "at_cursor m ?c lc t" for t
    unfolding draw_cursor_def Let_def
    by (rule ok_or_fault_each [where P = "at_cursor m ?c lc", OF _ that])
      (intro ok_or_fault_then [OF save_anywhere ok_or_fault_then [OF plot_anywhere ok_or_fault_then [OF save_anywhere plot_anywhere]]])
  show ?thesis unfolding vesa_move_cursor_def vesa_put_cursor_at_def andthen_assoc
  proof (rule ok_or_fault_then [OF r])
    fix t assume "at_cursor m c lc t"
    then have t: "at_cursor m ?c lc (t\<lparr>vs_cursor := ?c\<rparr>)" by (simp add: at_cursor_def the_mode_def)
    have "the_mode (t\<lparr>vs_cursor := ?c\<rparr>) = Ok m" using t by (simp add: at_cursor_def)
    then show "ok_or_fault (andthen (let v = t\<lparr>vs_cursor := ?c\<rparr> in andthen (the_mode v) (\<lambda>m.
        andthen (if column + 2 < ucast (mode_width m) then draw_cursor line column v else Ok v) (\<lambda>v. Ok (OS_NO_ERR, v)))) (\<lambda>(_, v). Ok v))
        (at_cursor m ?c lc)"
      using d [OF t] t by (auto simp: Let_def ok_or_fault_def)
  qed
qed

text \<open>A printable character: at the bottom right corner the cursor leaves the screen, and the column of a line that is not
  there is written.\<close>

lemma put_printable_unfold:
  assumes "vesa_ok w h v" "the_mode v = Ok m" "unat (mode_width m) = w" "unat (ucast (mode_width m) :: u32) = w" "unat (ucast (mode_height m) :: u32) = h"
  shows "vesa_put_printable font ch v = andthen (put_glyph font ch v) (\<lambda>v.
     andthen (if w \<le> unat (cursor_x (vs_cursor v) + font_width)
              then andthen (blank_to w v) (\<lambda>v. vesa_move_cursor (cursor_y (vs_cursor v) + font_height) 0 v) else Ok v) vesa_note_column)"
proof -
  note o = vesa_withinD [OF vesa_okD(1) [OF assms(1)]]
  have "unat (cursor_x (vs_cursor v)) + 8 < w" using vesa_okD(2) [OF assms(1)] by (simp add: column_ok_def)
  then have f: "\<not> w \<le> unat (cursor_x (vs_cursor v) + font_width)" using unat_near [of "cursor_x (vs_cursor v)" 8] o(13) by simp
  have h: "16 \<le> h" using o(4) by simp
  have b: "\<not> cursor_y (vs_cursor v) > ucast (mode_height m) - font_height"
    using below_iff [OF assms(5) h, of "cursor_y (vs_cursor v)"] o(12) by simp
  have g: "x \<ge> ucast (mode_width m) \<longleftrightarrow> w \<le> unat x" for x :: u32 using assms(4) by (simp add: word_le_nat_alt)
  show ?thesis unfolding vesa_put_printable_def assms(2) andthen.simps Let_def g assms(4) if_not_P [OF f] if_not_P [OF b] put_glyph_def andthen_assoc ..
qed

definition advanced :: "nat \<Rightarrow> cursor_t \<Rightarrow> cursor_t" where
  "advanced w c =
     (if w \<le> unat (cursor_x c) + 16 then \<lparr>cursor_x = 0, cursor_y = cursor_y c + font_height\<rparr>
      else \<lparr>cursor_x = cursor_x c + font_width, cursor_y = cursor_y c\<rparr>)"

lemma printable_ok:
  assumes "vesa_ok w h v" "printable ch" "1536 \<le> length font"
  shows "if vesa_at_corner w h v then vesa_put_printable font ch v = Fault
         else \<exists>v'. vesa_put_printable font ch v = Ok v' \<and> vesa_ok w h v' \<and> vs_cursor v' = advanced w (vs_cursor v)"
proof -
  note o = vesa_withinD [OF vesa_okD(1) [OF assms(1)]]
  let ?x = "cursor_x (vs_cursor v)" and ?y = "cursor_y (vs_cursor v)"
  from mode_words [OF vesa_okD(1) [OF assms(1)]] obtain m where m: "the_mode v = Ok m" "unat (mode_width m) = w" "unat (mode_height m) = h" "mode_bpp m = 32"
    "unat (ucast (mode_width m) :: u32) = w" "unat (ucast (mode_height m) :: u32) = h" .
  from glyph_put [OF assms] obtain v1 where v1: "put_glyph font ch v = Ok v1" "vesa_within w h v1"
    "vs_cursor v1 = \<lparr>cursor_x = ?x + font_width, cursor_y = ?y\<rparr>" by (elim exE conjE)
  have x: "unat (?x + font_width) = unat ?x + 8" "unat (?x + font_width + font_width) = unat ?x + 16"
    using unat_near [of ?x 8] unat_near [of ?x 16] o(11,13) by (simp_all add: add.assoc)
  note u = put_printable_unfold [OF assms(1) m(1,2,5,6), of font ch, unfolded v1(1) andthen.simps v1(3) cursor_t.simps x]
  show ?thesis
  proof (cases "w \<le> unat ?x + 16")
    case False
    have "vesa_ok w h v1" using v1(2,3) x(1) False by (simp add: vesa_ok_def)
    then show ?thesis using note_ok [of w h v1] False v1(3) unfolding u by (auto simp: vesa_at_corner_def advanced_def)
  next
    case full: True
    show ?thesis
    proof (cases "h < unat ?y + 32")
      case False
      then have "unat (cursor_y (vs_cursor v1)) + 32 \<le> h" using v1(3) by simp
      from next_line_ok [OF v1(2) this] obtain v2 where
        "andthen (blank_to w v1) (\<lambda>v. vesa_move_cursor (cursor_y (vs_cursor v) + font_height) 0 v) = Ok v2" "vesa_ok w h v2"
        "vs_cursor v2 = \<lparr>cursor_x = 0, cursor_y = cursor_y (vs_cursor v1) + font_height\<rparr>" by (elim exE conjE)
      then show ?thesis using note_ok [of w h v2] full False v1(3) unfolding u by (auto simp: vesa_at_corner_def advanced_def)
    next
      case True
      from blank_ok [OF v1(2) order_refl] obtain v2 where
        v2: "blank_to w v1 = Ok v2" "rest v2 = rest v1" "vesa_within w h v2" by (elim exE conjE)
      have c2: "vs_cursor v2 = vs_cursor v1" by (rule rest_fields(7) [OF v2(2)])
      from mode_words [OF v2(3)] obtain m2 where m2: "the_mode v2 = Ok m2" "unat (mode_width m2) = w" "unat (mode_height m2) = h" "mode_bpp m2 = 32"
        "unat (ucast (mode_width m2) :: u32) = w" "unat (ucast (mode_height m2) :: u32) = h" .
      have "at_cursor m2 (vs_cursor v2) (vs_last_columns v2) v2" using m2(1) by (simp add: at_cursor_def)
      note mv = move_anywhere [OF this, of "?y + font_height" 0]
      have y: "unat (?y + font_height) = unat ?y + 16" using unat_near [of ?y 16] o(12,14) by simp
      have "h div 16 \<le> (unat ?y + 31) div 16" using True by (intro div_le_mono) simp
      moreover have "(unat ?y + 31) div 16 = (unat ?y + 16) div 16" using o(10) by (auto simp: line_ok_def elim!: dvdE)
      ultimately have line: "h div 16 \<le> unat (?y + font_height) div 16" unfolding y by simp
      have "vesa_note_column t = Fault" if "at_cursor m2 \<lparr>cursor_x = 0, cursor_y = ?y + font_height\<rparr> (vs_last_columns v2) t" for t
        using that line vesa_withinD(7) [OF v2(3)]
        by (simp add: vesa_note_column_def set_last_column_def text_line_def at_cursor_def unat_div)
      then have "andthen (vesa_move_cursor (?y + font_height) 0 v2) vesa_note_column = Fault" using mv by (intro then_fault)
      then show ?thesis using full True v2(1) c2 v1(3) unfolding u by (simp add: vesa_at_corner_def)
    qed
  qed
qed

lemma draw_ok:
  assumes "vesa_within w h v" "printable ch" "1536 \<le> length font" "unat x + 8 \<le> w" "unat y + 16 \<le> h"
  shows "\<exists>v'. draw_in_scheme font ch x y v = Ok v' \<and> rest v' = rest v \<and> vesa_within w h v'"
proof -
  from glyph_drawn [OF vesa_withinD(2) [OF assms(1)] assms(2-5), of "foreground (vs_scheme v)" "glyph_background v"] obtain v' where
    v': "draw_in_scheme font ch x y v = Ok v'" "rest v' = rest v" unfolding draw_in_scheme_def by (elim exE conjE)
  then show ?thesis using within_rest [OF v'(2), of w h] assms(1) by auto
qed

lemma move_and_note:
  assumes "vesa_within w h v" "column_ok w column" "line_ok h line"
  shows "\<exists>v'. andthen (vesa_move_cursor line column v) vesa_note_column = Ok v' \<and> vesa_ok w h v' \<and>
     vs_cursor v' = \<lparr>cursor_x = column, cursor_y = line\<rparr> \<and> behind w h v' = behind w h v"
proof -
  have "cell_ok w column" using assms(2) by (simp add: column_ok_def)
  from move_ok [OF assms(1) this assms(3)] obtain v1 where
    v1: "vesa_move_cursor line column v = Ok v1" "vesa_within w h v1"
      "drawn_over (v\<lparr>vs_cursor := \<lparr>cursor_x = column, cursor_y = line\<rparr>\<rparr>) v1" "behind w h v1 = behind w h v" by (elim exE conjE)
  have c: "vs_cursor v1 = \<lparr>cursor_x = column, cursor_y = line\<rparr>" using drawn_over_fields(5) [OF v1(3)] by simp
  have "vesa_ok w h v1" using v1(2) c assms(2) by (intro vesa_okI) simp_all
  from note_ok [OF this] obtain lc where "vesa_note_column v1 = Ok (v1\<lparr>vs_last_columns := lc\<rparr>)" "vesa_ok w h (v1\<lparr>vs_last_columns := lc\<rparr>)"
    by (elim exE conjE)
  then show ?thesis using v1(1,4) c by simp
qed

lemma space_printable: "printable CHR '' ''"
  by (simp add: printable_def)

lemma erase_ok:
  assumes "vesa_ok w h v" "0 < cursor_x (vs_cursor v)" "1536 \<le> length font"
  shows "\<exists>v'. andthen (draw_in_scheme font CHR '' '' (cursor_x (vs_cursor v)) (cursor_y (vs_cursor v)) v) (\<lambda>t.
     andthen (draw_in_scheme font CHR '' '' (cursor_x (vs_cursor v) - font_width) (cursor_y (vs_cursor v)) t) (\<lambda>t.
     andthen (vesa_move_cursor (cursor_y (vs_cursor v)) (cursor_x (vs_cursor v) - font_width) t) vesa_note_column)) = Ok v' \<and> vesa_ok w h v'"
proof -
  note ok = vesa_okD [OF assms(1)] and o = vesa_withinD [OF vesa_okD(1) [OF assms(1)]]
  let ?x = "cursor_x (vs_cursor v)" and ?y = "cursor_y (vs_cursor v)"
  have "8 dvd unat ?x" "unat ?x \<noteq> 0" using o(9) assms(2) by (auto simp: cell_ok_def word_less_nat_alt)
  then have "8 \<le> unat ?x" by (intro dvd_imp_le) simp_all
  then have x: "unat (?x - font_width) = unat ?x - 8" by (simp add: unat_sub_if')
  have x8: "unat (?x - font_width) + 8 \<le> w" using x o(11) by simp
  have c: "column_ok w (?x - font_width)" using ok(2) x \<open>8 \<le> unat ?x\<close> by (simp add: column_ok_def cell_ok_def dvd_diff_nat)
  from draw_ok [OF ok(1) space_printable assms(3) o(11,12)] obtain v1 where
    v1: "draw_in_scheme font CHR '' '' ?x ?y v = Ok v1" "vesa_within w h v1" by (elim exE conjE)
  from draw_ok [OF v1(2) space_printable assms(3) x8 o(12)] obtain v2 where
    v2: "draw_in_scheme font CHR '' '' (?x - font_width) ?y v1 = Ok v2" "vesa_within w h v2" by (elim exE conjE)
  from move_and_note [OF v2(2) c o(10)] show ?thesis using v1(1) v2(1) by auto
qed

lemma vesa_backspace_ok:
  assumes "vesa_ok w h v" "1536 \<le> length font"
  shows "\<exists>v'. vesa_backspace font v = Ok v' \<and> vesa_ok w h v'"
proof -
  note ok = vesa_okD [OF assms(1)] and o = vesa_withinD [OF vesa_okD(1) [OF assms(1)]]
  let ?x = "cursor_x (vs_cursor v)" and ?y = "cursor_y (vs_cursor v)" and ?lp = "vs_last_printed v"
  show ?thesis
  proof (cases "0 < ?x \<and> (cursor_y ?lp = ?y \<longrightarrow> ?x > cursor_x ?lp) \<and> cursor_y ?lp \<le> ?y")
    case True
    then show ?thesis using erase_ok [OF assms(1) _ assms(2)] by (auto simp: vesa_backspace_def Let_def)
  next
    case no_erase: False
    show ?thesis
    proof (cases "cursor_y ?lp < ?y \<and> ?x = 0")
      case True
      let ?i = "unat (?y div font_height - 1)"
      have "16 dvd unat ?y" "unat ?y \<noteq> 0" using o(10) True by (auto simp: line_ok_def word_less_nat_alt)
      then have y16: "16 \<le> unat ?y" by (intro dvd_imp_le) simp_all
      then have y: "unat (?y - font_height) = unat ?y - 16" by (simp add: unat_sub_if')
      have "1 \<le> unat ?y div 16" using div_le_mono [OF y16, of 16] by simp
      then have "?i = unat ?y div 16 - 1" by (simp add: unat_sub_if' unat_div)
      moreover have "(unat ?y + 16) div 16 \<le> h div 16" using o(12) by (rule div_le_mono)
      ultimately have i: "?i < length (vs_last_columns v)" using o(7) by simp
      let ?c = "vs_last_columns v ! ?i"
      have c: "column_ok w ?c" using o(8) i by simp
      have l: "line_ok h (?y - font_height)" using o(10) y y16 by (simp add: line_ok_def dvd_diff_nat)
      from draw_ok [OF ok(1) space_printable assms(2) o(11,12)] obtain v1 where
        v1: "draw_in_scheme font CHR '' '' ?x ?y v = Ok v1" "rest v1 = rest v" "vesa_within w h v1" by (elim exE conjE)
      have lc1: "vs_last_columns v1 = vs_last_columns v" by (rule rest_fields(10) [OF v1(2)])
      have b: "unat ?c + 8 \<le> w" "unat (?y - font_height) + 16 \<le> h" using c l by (simp_all add: column_ok_def line_ok_def)
      from draw_ok [OF v1(3) space_printable assms(2) b] obtain v2 where
        v2: "draw_in_scheme font CHR '' '' ?c (?y - font_height) v1 = Ok v2" "rest v2 = rest v1" "vesa_within w h v2" by (elim exE conjE)
      have lc2: "vs_last_columns v2 = vs_last_columns v" using rest_fields(10) [OF v2(2)] lc1 by simp
      have "cell_ok w ?c" using c by (simp add: column_ok_def)
      from move_ok [OF v2(3) this l] obtain v3 where v3: "vesa_move_cursor (?y - font_height) ?c v2 = Ok v3" "vesa_within w h v3"
        "drawn_over (v2\<lparr>vs_cursor := \<lparr>cursor_x = ?c, cursor_y = ?y - font_height\<rparr>\<rparr>) v3" by (elim exE conjE)
      have "vs_cursor v3 = \<lparr>cursor_x = ?c, cursor_y = ?y - font_height\<rparr>" using drawn_over_fields(5) [OF v3(3)] by simp
      then have "vesa_ok w h v3" using v3(2) c by (intro vesa_okI) simp_all
      moreover have "vesa_backspace font v = Ok v3"
        using True i v1(1) v2(1) v3(1) lc1 lc2 unfolding vesa_backspace_def Let_def by auto
      ultimately show ?thesis by blast
    next
      case False
      then have "vesa_backspace font v = Ok v" using no_erase unfolding vesa_backspace_def Let_def
        by (auto simp: not_less word_neq_0_conv)
      then show ?thesis using assms(1) by simp
    qed
  qed
qed

lemma vesa_line_feed_ok:
  assumes "vesa_ok w h v"
  shows "\<exists>v'. vesa_line_feed v = Ok v' \<and> vesa_ok w h v'"
proof -
  note ok = vesa_okD [OF assms] and o = vesa_withinD [OF vesa_okD(1) [OF assms]]
  from mode_words [OF ok(1)] obtain m where m: "the_mode v = Ok m" "unat (mode_width m) = w" "unat (mode_height m) = h" "mode_bpp m = 32"
    "unat (ucast (mode_width m) :: u32) = w" "unat (ucast (mode_height m) :: u32) = h" .
  let ?y = "cursor_y (vs_cursor v)"
  from blank_ok [OF ok(1) order_refl] obtain v1 where
    v1: "blank_to w v = Ok v1" "rest v1 = rest v" "vesa_within w h v1" by (elim exE conjE)
  have c1: "vs_cursor v1 = vs_cursor v" by (rule rest_fields(7) [OF v1(2)])
  then have "vesa_ok w h v1" using v1(3) ok(2) by (intro vesa_okI) simp_all
  from note_ok [OF this] obtain lc where
    v2: "vesa_note_column v1 = Ok (v1\<lparr>vs_last_columns := lc\<rparr>)" "vesa_ok w h (v1\<lparr>vs_last_columns := lc\<rparr>)" (is "vesa_ok w h ?v2") by (elim exE conjE)
  have y: "unat (?y + font_height) = unat ?y + 16" using unat_near [of ?y 16] o(12,14) by simp
  have cond: "?y + font_height \<le> ucast (mode_height m) - font_height \<longleftrightarrow> unat ?y + 32 \<le> h"
    using y m(6) o(4) by (simp add: word_le_nat_alt unat_sub_if' le_diff_conv2 add.commute [of 32])
  show ?thesis
  proof (cases "unat ?y + 32 \<le> h")
    case True
    from blank_ok [OF vesa_okD(1) [OF v2(2)], of "min w (unat (cursor_x (vs_cursor v) + font_width))"] obtain v3 where
      v3: "blank_to (min w (unat (cursor_x (vs_cursor v) + font_width))) ?v2 = Ok v3" "rest v3 = rest ?v2" "vesa_within w h v3" by auto
    have c3: "vs_cursor v3 = vs_cursor v" using rest_fields(7) [OF v3(2)] c1 by simp
    have l: "line_ok h (?y + font_height)" using y o(10) True by (simp add: line_ok_def)
    from move_and_note [OF v3(3) zero_column_ok(1) [OF o(3)] l] show ?thesis
      using True m(1,2) v1(1) v2(1) v3(1) c1 c3 cond by (auto simp: vesa_line_feed_def)
  next
    case False
    from scroll_ok [OF vesa_okD(1) [OF v2(2)]] obtain v3 where
      v3: "vesa_scroll SCROLL_DOWN 1 ?v2 = Ok v3" "vesa_within w h v3" "cursor_x (vs_cursor v3) = 0" by (elim exE conjE)
    then have "vesa_ok w h v3" using o(3) by (intro vesa_okI) simp_all
    then show ?thesis using False m(1,2) v1(1) v2(1) v3(1) c1 cond by (auto simp: vesa_line_feed_def)
  qed
qed

lemma clear_ok:
  assumes "vesa_within w h v"
  shows "\<exists>v'. vesa_clear_screen v = Ok v' \<and> rest v' = rest v \<and> vesa_within w h v' \<and> (\<forall>x < w. \<forall>y < h. picture w h v' (x, y) = (0, 0, 0))"
proof -
  note o = vesa_withinD [OF assms] and b = screen_bounds [OF vesa_withinD(2) [OF assms]]
  from mode_words [OF assms] obtain m where m: "the_mode v = Ok m" "unat (mode_width m) = w" "unat (mode_height m) = h" "mode_bpp m = 32"
    "unat (ucast (mode_width m) :: u32) = w" "unat (ucast (mode_height m) :: u32) = h" .
  let ?f = "\<lambda>a. if a < 4 * (w * h) then 0 else vram v a"
  have "ucast (mode_width m) * ucast (mode_height m) * ucast (mode_bpp m div 8) = (of_nat (4 * (w * h)) :: u32)"
  proof -
    have "(ucast (mode_width m) :: u32) = of_nat w" "(ucast (mode_height m) :: u32) = of_nat h"
      using m(5,6) by (metis of_nat_unat ucast_id)+
    then show ?thesis using m(4) by simp
  qed
  moreover have "unat (of_nat (4 * (w * h)) :: u32) = 4 * (w * h)" using b(4) by (intro unat_of_nat_32 le_less_trans [OF b(3)]) simp
  ultimately have r: "vesa_clear_screen v = Ok (v\<lparr>vram := ?f\<rparr>)"
    using m(1) b(3) by (simp add: vesa_clear_screen_def fast_memset_def)
  have "picture w h (v\<lparr>vram := ?f\<rparr>) (x, y) = (0, 0, 0)" if "x < w" "y < h" for x y
    using point_inside [OF that] that by (simp add: picture_def Let_def)
  then show ?thesis using r within_rest [of "v\<lparr>vram := ?f\<rparr>" v w h] assms by auto
qed

lemma con_frame [simp]:
  "screen w h (v\<lparr>vs_con := c\<rparr>) = screen w h v" "behind w h (v\<lparr>vs_con := c\<rparr>) = behind w h v"
  "vs_cursor (v\<lparr>vs_con := c\<rparr>) = vs_cursor v" "vs_scheme (v\<lparr>vs_con := c\<rparr>) = vs_scheme v" "glyph_background (v\<lparr>vs_con := c\<rparr>) = glyph_background v"
  by (simp_all add: screen_def behind_def picture_def cursor_box_def glyph_background_def fun_eq_iff)

lemma vesa_ok_con: "vesa_ok w h v \<Longrightarrow> talks c \<Longrightarrow> vesa_ok w h (v\<lparr>vs_con := c\<rparr>)"
  by (simp add: vesa_ok_def vesa_within_def)

lemma serial_copy_ok:
  assumes "vesa_ok w h v"
  obtains c where "serial_write SERIAL_COM1_BASE b (vs_con v) = Ok c" "vesa_ok w h (v\<lparr>vs_con := c\<rparr>)"
proof -
  from vesa_withinD(1) [OF vesa_okD(1) [OF assms]] have t: "talks (vs_con v)" .
  from serial_copy [OF t] obtain c xs where
    c: "serial_write SERIAL_COM1_BASE b (vs_con v) = Ok c" "wrote_ports (vs_con v) xs c" .
  have "talks c" using t wrote_ports_keeps [OF c(2)] by (subst talks_cong [of _ "vs_con v"])
  from that [OF c(1) vesa_ok_con [OF assms this]] show thesis .
qed

lemma vesa_process_char_ok:
  assumes "vesa_ok w h v" "1536 \<le> length font" "ch \<noteq> CHR 0x09"
  shows "if printable ch \<and> vesa_at_corner w h v then vesa_process_char font ch v = Fault
         else \<exists>v'. vesa_process_char font ch v = Ok v' \<and> vesa_ok w h v'"
proof -
  from serial_copy_ok [OF assms(1)] obtain c where
    c: "serial_write SERIAL_COM1_BASE (of_char ch) (vs_con v) = Ok c" "vesa_ok w h (v\<lparr>vs_con := c\<rparr>)" (is "vesa_ok w h ?v") .
  note o = vesa_withinD [OF vesa_okD(1) [OF c(2)]]
  have k9: "(of_char ch :: nat) \<noteq> 9"
  proof
    assume "(of_char ch :: nat) = 9"
    then have "ch = char_of (9 :: nat)" by (metis char_of_char)
    moreover have "char_of (9 :: nat) = CHR 0x09" by code_simp
    ultimately show False using assms(3) by simp
  qed
  show ?thesis
  proof (cases "printable ch")
    case True
    then have p: "vesa_process_char font ch v = vesa_put_printable font ch ?v" using c(1) by (simp add: vesa_process_char_def printable_def)
    have "vesa_at_corner w h ?v = vesa_at_corner w h v" by (simp add: vesa_at_corner_def)
    then show ?thesis using printable_ok [OF c(2) True assms(2)] True unfolding p by (auto split: if_splits)
  next
    case False
    have "\<exists>v'. andthen (vesa_move_cursor (cursor_y (vs_cursor ?v)) 0 ?v) vesa_note_column = Ok v' \<and> vesa_ok w h v'"
      using move_and_note [OF vesa_okD(1) [OF c(2)] zero_column_ok(1) [OF o(3)] o(10)] by auto
    moreover have "\<exists>v'. vesa_clear_screen ?v = Ok v' \<and> vesa_ok w h v'"
    proof -
      from clear_ok [OF vesa_okD(1) [OF c(2)]] obtain v' where v': "vesa_clear_screen ?v = Ok v'" "rest v' = rest ?v" "vesa_within w h v'" by (elim exE conjE)
      then show ?thesis using rest_fields(7) [OF v'(2)] vesa_okD(2) [OF c(2)] by (auto intro: vesa_okI)
    qed
    moreover have "\<not> (31 < (of_char ch :: nat) \<and> (of_char ch :: nat) < 127)" using False by (simp add: printable_def)
    then have "vesa_process_char font ch v =
        (if (of_char ch :: nat) = 8 then vesa_backspace font ?v else if (of_char ch :: nat) = 10 then vesa_line_feed ?v
         else if (of_char ch :: nat) = 12 then vesa_clear_screen ?v
         else if (of_char ch :: nat) = 13 then andthen (vesa_move_cursor (cursor_y (vs_cursor ?v)) 0 ?v) vesa_note_column else Ok ?v)"
      using k9 unfolding vesa_process_char_def c(1) andthen.simps Let_def by (simp only: if_False)
    ultimately show ?thesis using c(2) False vesa_backspace_ok [OF c(2) assms(2)] vesa_line_feed_ok [OF c(2)] by simp
  qed
qed

section \<open>Properties\<close>

text \<open>The VESA screen is an output in the sense of \<open>Format\<close>.\<close>

definition vesa_out :: "u8 list \<Rightarrow> vesa output_t" where
  "vesa_out font = \<lparr>putc = vesa_put_char font, puts = vesa_put_string font\<rparr>"

lemma vesa_put_string_all: "vesa_put_string font s v = put_all (vesa_put_char font) s v"
  unfolding vesa_put_string_def
proof (induction s arbitrary: v)
  case (Cons x s)
  then show ?case by (cases "vesa_put_char font x v") simp_all
qed simp

interpretation vesa_text: text_output "vesa_out font"
  by unfold_locales (simp add: vesa_out_def vesa_put_string_all)

lemma vesa_complete: "complete (vesa_driver font)"
  by (simp add: complete_def vesa_driver_def)

text \<open>A small screen: 32 by 32 pixels, whose frame buffer is one page.\<close>

definition ex_mode :: vesa_mode_t where
  "ex_mode = \<lparr>mode_width = 32, mode_height = 32, mode_bpp = 32, mode_id = 0x112, mode_framebuffer_phy = 0xE0000000,
     mode_framebuffer = 0xF0000000, mode_next = NULL\<rparr>"

definition ex_vesa :: vesa where
  "ex_vesa =
     \<lparr>vs_con = ready_console 1, mode_store = [0x500 \<mapsto> ex_mode], saved_modes = 0x500, current_mode = 0x500, mode_count = 1,
      vesa_supported = 1, vs_cursor = \<lparr>cursor_x = 0, cursor_y = 0\<rparr>, vs_last_printed = \<lparr>cursor_x = 0, cursor_y = 0\<rparr>,
      vs_scheme = \<lparr>foreground = 0xFFFFFFFF, background = 0xFF000000, vga_color = 0\<rparr>, vs_last_columns = [0, 0],
      transparent_char = 0, save_buff = replicate 256 0, vram = \<lambda>_. 0, vram_size = 4096\<rparr>"

lemma ex_screen: "screen 32 32 ex_vesa"
  by (simp add: screen_def ex_vesa_def ex_mode_def)

lemma ex_vesa_ok: "vesa_ok 32 32 ex_vesa"
proof -
  have "talks (vs_con ex_vesa)" using ready_drains(1) [of "0x3F8" 1] by (auto simp: talks_def ex_vesa_def intro!: exI [of _ 0])
  then show ?thesis using ex_screen by (simp add: vesa_ok_def vesa_within_def ex_vesa_def column_ok_def cell_ok_def line_ok_def)
qed

text \<open>C35. Whatever character but a tabulation is printed, the driver returns and keeps the cursor on a cell of the screen,
  unless a printable character is put in the last cell it uses of the last line: then it writes past the end of
  \<^verbatim>\<open>last_columns\<close>, or already past the end of the frame buffer.\<close>

theorem vesa_put_char_safe:
  assumes "vesa_ok w h v" "1536 \<le> length font" "ch \<noteq> CHR 0x09"
  shows "if printable ch \<and> vesa_at_corner w h v then vesa_put_char font ch v = Fault
         else \<exists>v'. vesa_put_char font ch v = Ok v' \<and> vesa_ok w h v' \<and> vs_last_printed v' = vs_cursor v'"
  using vesa_process_char_ok [OF assms] by (auto simp: vesa_put_char_def split: if_splits)

theorem vesa_put_char_safe_witness:
  "\<exists>v'. vesa_put_char (replicate 1536 0xAA) CHR ''A'' ex_vesa = Ok v' \<and> vesa_ok 32 32 v' \<and> vs_last_printed v' = vs_cursor v'"
  using vesa_put_char_safe [OF ex_vesa_ok, of "replicate 1536 0xAA" "CHR ''A''"] by (simp add: vesa_at_corner_def ex_vesa_def)

text \<open>C34. A printable character away from the right edge is drawn at the cursor, in the colours of the scheme, over the picture
  behind the cursor; no other pixel of that picture changes and the cursor moves on by one cell.\<close>

theorem vesa_put_char_draws:
  assumes "vesa_ok w h v" "1536 \<le> length font" "printable ch" "unat (cursor_x (vs_cursor v)) + 16 < w"
  shows "\<exists>v'. vesa_put_char font ch v = Ok v' \<and> vesa_ok w h v' \<and>
     vs_cursor v' = \<lparr>cursor_x = cursor_x (vs_cursor v) + font_width, cursor_y = cursor_y (vs_cursor v)\<rparr> \<and>
     behind w h v' = with_glyph font ch (unat (cursor_x (vs_cursor v))) (unat (cursor_y (vs_cursor v)))
       (foreground (vs_scheme v)) (glyph_background v) (behind w h v)"
proof -
  from serial_copy_ok [OF assms(1)] obtain c where
    c: "serial_write SERIAL_COM1_BASE (of_char ch) (vs_con v) = Ok c" "vesa_ok w h (v\<lparr>vs_con := c\<rparr>)" (is "vesa_ok w h ?v") .
  note o = vesa_withinD [OF vesa_okD(1) [OF c(2)]]
  have p: "vesa_process_char font ch v = vesa_put_printable font ch ?v" using c(1) assms(3) by (simp add: vesa_process_char_def printable_def)
  from mode_words [OF vesa_okD(1) [OF c(2)]] obtain m where m: "the_mode ?v = Ok m" "unat (mode_width m) = w" "unat (mode_height m) = h"
    "mode_bpp m = 32" "unat (ucast (mode_width m) :: u32) = w" "unat (ucast (mode_height m) :: u32) = h" .
  from glyph_put [OF c(2) assms(3,2)] obtain v1 where v1: "put_glyph font ch ?v = Ok v1" "vesa_within w h v1"
    "vs_cursor v1 = \<lparr>cursor_x = cursor_x (vs_cursor v) + font_width, cursor_y = cursor_y (vs_cursor v)\<rparr>"
    "behind w h v1 = with_glyph font ch (unat (cursor_x (vs_cursor v))) (unat (cursor_y (vs_cursor v)))
       (foreground (vs_scheme v)) (glyph_background v) (behind w h v)" unfolding con_frame by (elim exE conjE)
  have x: "unat (cursor_x (vs_cursor v) + font_width + font_width) = unat (cursor_x (vs_cursor v)) + 16"
    "unat (cursor_x (vs_cursor v) + font_width) = unat (cursor_x (vs_cursor v)) + 8"
    using unat_near [of "cursor_x (vs_cursor v)" 16] unat_near [of "cursor_x (vs_cursor v)" 8] assms(4) o(13) by (simp_all add: add.assoc)
  have "vesa_ok w h v1" using v1(2,3) x(2) assms(4) by (simp add: vesa_ok_def)
  from note_ok [OF this] obtain lc where n: "vesa_note_column v1 = Ok (v1\<lparr>vs_last_columns := lc\<rparr>)" "vesa_ok w h (v1\<lparr>vs_last_columns := lc\<rparr>)"
    by (elim exE conjE)
  have "vesa_put_printable font ch ?v = Ok (v1\<lparr>vs_last_columns := lc\<rparr>)"
    unfolding put_printable_unfold [OF c(2) m(1,2,5,6)] v1(1) andthen.simps v1(3) cursor_t.simps x(1) using assms(4) n(1) by simp
  then show ?thesis using p n(2) v1(3,4) by (simp add: vesa_put_char_def)
qed

theorem vesa_put_char_draws_witness:
  "\<exists>v'. vesa_put_char (replicate 1536 0xAA) CHR ''A'' ex_vesa = Ok v' \<and> vesa_ok 32 32 v' \<and>
     vs_cursor v' = \<lparr>cursor_x = cursor_x (vs_cursor ex_vesa) + font_width, cursor_y = cursor_y (vs_cursor ex_vesa)\<rparr> \<and>
     behind 32 32 v' = with_glyph (replicate 1536 0xAA) CHR ''A'' (unat (cursor_x (vs_cursor ex_vesa))) (unat (cursor_y (vs_cursor ex_vesa)))
       (foreground (vs_scheme ex_vesa)) (glyph_background ex_vesa) (behind 32 32 ex_vesa)"
  by (rule vesa_put_char_draws [OF ex_vesa_ok]) (simp_all add: ex_vesa_def printable_def)

text \<open>Moving the cursor changes nothing but the two columns of pixels that it covers: the picture behind it stays.\<close>

theorem vesa_cursor_keeps_picture:
  assumes "vesa_ok w h v" "unat column + 2 < w" "unat line + 16 \<le> h"
  shows "\<exists>v'. vesa_put_cursor_at line column v = Ok (OS_NO_ERR, v') \<and> behind w h v' = behind w h v \<and>
     picture w h v' = (\<lambda>p. if in_box (unat column) (unat line) 2 16 p then white else behind w h v p)"
proof -
  note o = vesa_withinD [OF vesa_okD(1) [OF assms(1)]]
  have c: "unat (cursor_x (vs_cursor v)) + 2 \<le> w" using o(11) by simp
  from cursor_moved [OF o(2,6) c o(12) assms(2,3)] obtain v' where
    v': "vesa_put_cursor_at line column v = Ok (OS_NO_ERR, v')" "drawn_over (v\<lparr>vs_cursor := \<lparr>cursor_x = column, cursor_y = line\<rparr>\<rparr>) v'"
      "picture w h v' = (\<lambda>p. if cursor_box v' p then white else behind w h v p)" "behind w h v' = behind w h v" by (elim exE conjE)
  have "cursor_box v' = in_box (unat column) (unat line) 2 16" using drawn_over_fields(5) [OF v'(2)] by (simp add: cursor_box_def)
  then show ?thesis using v' by auto
qed

theorem vesa_cursor_keeps_picture_witness:
  "\<exists>v'. vesa_put_cursor_at 16 8 ex_vesa = Ok (OS_NO_ERR, v') \<and> behind 32 32 v' = behind 32 32 ex_vesa \<and>
     picture 32 32 v' = (\<lambda>p. if in_box (unat (8 :: u32)) (unat (16 :: u32)) 2 16 p then white else behind 32 32 ex_vesa p)"
  by (rule vesa_cursor_keeps_picture [OF ex_vesa_ok]) simp_all

text \<open>A rectangle inside the screen is filled with its ink, and nothing else on the screen changes.\<close>

theorem vesa_draw_rectangle_fills:
  assumes "screen w h v" "unat x + unat width \<le> w" "unat y + unat height \<le> h"
  shows "\<exists>v'. vesa_draw_rectangle x y width height al r g b v = Ok (OS_NO_ERR, v') \<and> screen w h v' \<and>
     picture w h v' = (\<lambda>p. if in_box (unat x) (unat y) (unat width) (unat height) p then mix (al, r, g, b) (picture w h v p) else picture w h v p)"
  using rectangle_drawn [OF assms, of al r g b] screen_rest(1) [of _ v w h] assms(1) by (elim exE conjE) auto

theorem vesa_draw_rectangle_fills_witness:
  "\<exists>v'. vesa_draw_rectangle 4 5 10 3 0xFF 1 2 3 ex_vesa = Ok (OS_NO_ERR, v') \<and> screen 32 32 v' \<and>
     picture 32 32 v' = (\<lambda>p. if in_box (unat (4 :: u16)) (unat (5 :: u16)) (unat (10 :: u16)) (unat (3 :: u16)) p
       then mix (0xFF, 1, 2, 3) (picture 32 32 ex_vesa p) else picture 32 32 ex_vesa p)"
  by (rule vesa_draw_rectangle_fills [OF ex_screen]) simp_all

text \<open>A rectangle that does not fit is refused and nothing is drawn.\<close>

lemma vesa_draw_rectangle_refuses:
  assumes "screen w h v" "\<not> (unat x + unat width \<le> w \<and> unat y + unat height \<le> h)"
  shows "vesa_draw_rectangle x y width height al r g b v = Ok (OS_ERR_OUT_OF_BOUND, v)"
proof -
  from screen_mode [OF assms(1)] obtain m where "the_mode v = Ok m" "unat (mode_width m) = w" "unat (mode_height m) = h"
    "mode_bpp m = 32" "vesa_supported v \<noteq> 0" "current_mode v \<noteq> NULL" .
  then show ?thesis using assms(2) by (auto simp: vesa_draw_rectangle_def)
qed

text \<open>An opaque pixel reads back as it was drawn.\<close>

lemma vesa_pixel_reads_back:
  assumes "screen w h v" "x < w" "y < h"
  shows "\<exists>v'. vesa_draw_pixel (of_nat x) (of_nat y) 0xFF r g b v = Ok (OS_NO_ERR, v') \<and>
     vesa_get_pixel (of_nat x) (of_nat y) (Some a0) (Some r0) (Some g0) (Some b0) v' = Ok (OS_NO_ERR, Some 0xFF, Some r, Some g, Some b)"
proof -
  from draw_at_inside [OF assms, of "(0xFF, r, g, b)"] obtain v' where
    v': "plot (of_nat x) (of_nat y) 0xFF r g b v = Ok v'" "rest v' = rest v"
      "picture w h v' = (picture w h v)((x, y) := mix (0xFF, r, g, b) (picture w h v (x, y)))" by (auto simp: draw_at_def)
  have "picture w h v' (x, y) = (r, g, b)" unfolding v'(3) by (cases "picture w h v (x, y)") (simp add: mix_def)
  moreover have "screen w h v'" using screen_rest(1) [OF v'(2)] assms(1) by simp
  ultimately have "vesa_get_pixel (of_nat x) (of_nat y) (Some a0) (Some r0) (Some g0) (Some b0) v' = Ok (OS_NO_ERR, Some 0xFF, Some r, Some g, Some b)"
    using get_pixel_inside [OF _ assms(2,3)] by simp
  moreover from v'(1) obtain e where e: "vesa_draw_pixel (of_nat x) (of_nat y) 0xFF r g b v = Ok (e, v')"
    by (auto simp: plot_def outcome_simps)
  moreover have "e = OS_NO_ERR"
  proof -
    from screen_mode [OF assms(1)] obtain m where m: "the_mode v = Ok m" "unat (mode_width m) = w" "unat (mode_height m) = h"
      "mode_bpp m = 32" "vesa_supported v \<noteq> 0" "current_mode v \<noteq> NULL" .
    have "\<not> (of_nat x > mode_width m \<or> of_nat y > mode_height m)"
      using m(2,3) assms(2,3) screen_bounds(1,2) [OF assms(1)] by (simp add: word_less_nat_alt unat_of_nat)
    then show ?thesis using e m by (auto simp: vesa_draw_pixel_def Let_def split: if_splits)
  qed
  ultimately show ?thesis by blast
qed

text \<open>C36. Scrolling by a line moves every line of text up by one and blacks out the last; what was saved for the cursor is put back
  where the cursor was, on top of the text that has moved there.\<close>

theorem vesa_scroll_shifts:
  assumes "vesa_ok w h v"
  shows "\<exists>v'. vesa_scroll SCROLL_DOWN 1 v = Ok v' \<and> vesa_ok w h v' \<and> behind w h v' = behind_scrolled w h v \<and>
     cursor_x (vs_cursor v') = 0 \<and> unat (cursor_y (vs_cursor v')) = 16 * (h div 16 - 1)"
proof -
  from scroll_ok [OF vesa_okD(1) [OF assms]] obtain v' where v': "vesa_scroll SCROLL_DOWN 1 v = Ok v'" "vesa_within w h v'"
    "behind w h v' = behind_scrolled w h v" "cursor_x (vs_cursor v') = 0" "unat (cursor_y (vs_cursor v')) = 16 * (h div 16 - 1)"
    by (elim exE conjE)
  have "16 < w" using vesa_withinD(3) [OF v'(2)] .
  then have "vesa_ok w h v'" using v'(2,4) by (intro vesa_okI) simp_all
  then show ?thesis using v' by (intro exI conjI)
qed

theorem vesa_scroll_shifts_witness:
  "\<exists>v'. vesa_scroll SCROLL_DOWN 1 ex_vesa = Ok v' \<and> vesa_ok 32 32 v' \<and> behind 32 32 v' = behind_scrolled 32 32 ex_vesa \<and>
     cursor_x (vs_cursor v') = 0 \<and> unat (cursor_y (vs_cursor v')) = 16 * (32 div 16 - 1)"
  by (rule vesa_scroll_shifts [OF ex_vesa_ok])

section \<open>Where the code goes wrong\<close>

text \<open>The bounds of a pixel are tested with \<^verbatim>\<open>>\<close>: the column past the right edge is the first of the next row, and the row past
  the bottom is past the frame buffer.\<close>

lemma vesa_pixel_right_of_screen:
  assumes "screen w h v" "y + 1 < h" "0 < w"
  shows "\<exists>v'. vesa_draw_pixel (of_nat w) (of_nat y) 0xFF r g b v = Ok (OS_NO_ERR, v') \<and>
     picture w h v' = (picture w h v)((0, y + 1) := (r, g, b))"
proof -
  from screen_mode [OF assms(1)] obtain m where m: "the_mode v = Ok m" "unat (mode_width m) = w" "unat (mode_height m) = h"
    "mode_bpp m = 32" "vesa_supported v \<noteq> 0" "current_mode v \<noteq> NULL" .
  note b = screen_bounds [OF assms(1)]
  have e: "point_offset w w y = point_offset w 0 (y + 1)" by (simp add: point_offset_def)
  have a: "point_offset w 0 (y + 1) + 4 \<le> vram_size v" using point_inside [OF assms(3,2)] b(3) by simp
  then have "w * y + w < 2 ^ 32" using b(4) by (simp add: point_offset_def)
  then have off: "pixel_offset m (of_nat w) (of_nat y) = point_offset w 0 (y + 1)"
    unfolding e [symmetric] using m(2) assms(2) b(1,2) by (intro pixel_offset_nat) auto
  have "\<not> (of_nat w > mode_width m \<or> of_nat y > mode_height m)"
    using m(2,3) assms(2) b(1,2) by (simp add: word_less_nat_alt unat_of_nat)
  then show ?thesis using m a picture_write [OF assms(3,2), of v b g r 0]
    by (simp add: vesa_draw_pixel_def off Let_def)
qed

lemma vesa_pixel_below_screen:
  assumes "screen w h v" "vram_size v = 4 * (w * h)" "x < w"
  shows "vesa_draw_pixel (of_nat x) (of_nat h) 0xFF r g b v = Fault"
proof -
  from screen_mode [OF assms(1)] obtain m where m: "the_mode v = Ok m" "unat (mode_width m) = w" "unat (mode_height m) = h"
    "mode_bpp m = 32" "vesa_supported v \<noteq> 0" "current_mode v \<noteq> NULL" .
  note b = screen_bounds [OF assms(1)]
  have "w * h < 2 ^ 30" using assms(2) b(4) by (simp add: mult.commute)
  then have "w * h + x < 2 ^ 32" using assms(3) b(1) by simp
  then have off: "pixel_offset m (of_nat x) (of_nat h) = point_offset w x h" using m(2) assms(3) b(1,2) by (intro pixel_offset_nat) auto
  have "\<not> (of_nat x > mode_width m \<or> of_nat h > mode_height m)"
    using m(2,3) assms(3) b(1,2) by (simp add: word_less_nat_alt unat_of_nat)
  moreover have "\<not> point_offset w x h + 4 \<le> vram_size v" using assms(2) by (simp add: point_offset_def)
  ultimately show ?thesis using m by (simp add: vesa_draw_pixel_def off Let_def)
qed

text \<open>With SSE enabled \<^verbatim>\<open>fast_memcpy\<close> goes past the end of its arrays unless the size is a multiple of 7, and then it leaves the
  last bytes out. Without SSE it copies what it should.\<close>

lemma fast_memcpy_plain:
  assumes "unat sz \<le> length src" "unat sz \<le> length dst"
  shows "fast_memcpy False sz src dst = Ok (take (unat sz) src @ drop (unat sz) dst)"
  using assms by (simp add: fast_memcpy_def copy_bytes_def Let_def)

lemma fast_memcpy_sse_overruns:
  assumes "length src = unat sz" "length dst = unat sz" "16 \<le> unat sz" "unat sz mod 7 \<noteq> 0"
  shows "fast_memcpy True sz src dst = Fault"
proof -
  let ?n = "unat sz"
  have d: "0 < 16 * (?n div 16)" "16 * (?n div 16) \<le> ?n" using assms(3) by (simp_all add: div_greater_zero_iff)
  have c: "copy_bytes 0 (16 * (?n div 16)) src dst = Ok (take (16 * (?n div 16)) src @ drop (16 * (?n div 16)) dst)"
    using d assms(1,2) by (simp add: copy_bytes_def)
  have "copy_bytes (16 * (?n div 16)) ?n src t = Fault" for t using d assms(1,3) by (simp add: copy_bytes_def)
  then show ?thesis using c assms(4) by (simp add: fast_memcpy_def)
qed

lemma fast_memcpy_sse_truncates:
  assumes "unat sz \<le> length src" "unat sz \<le> length dst" "unat sz mod 7 = 0"
  shows "fast_memcpy True sz src dst = Ok (take (16 * (unat sz div 16)) src @ drop (16 * (unat sz div 16)) dst)"
proof -
  have "16 * (unat sz div 16) \<le> unat sz" by simp
  then have "16 * (unat sz div 16) \<le> length src" "16 * (unat sz div 16) \<le> length dst" using assms(1,2) by (meson order_trans)+
  then show ?thesis using assms(3) by (simp add: fast_memcpy_def copy_bytes_def Let_def)
qed

text \<open>A VGA background colour, a number below 16, is always translated to black.\<close>

lemma vesa_vga_background_black:
  assumes "vga_color s \<noteq> 0" "background s < 16"
  shows "\<exists>v'. vesa_set_color_scheme s v = Ok v' \<and> background (vs_scheme v') = 0xFF000000"
proof -
  have "unat (background s) < 16" using assms(2) by (simp add: word_less_nat_alt)
  then have "unat (drop_bit 4 (background s)) = 0" by (simp add: drop_bit_eq_div unat_div)
  then show ?thesis using assms(1) by (simp add: vesa_set_color_scheme_def vga_color_table_def)
qed

text \<open>On a screen of more than 256 lines of text the byte that counts them never reaches the last: scrolling does not end.\<close>

lemma vesa_scroll_tall_screen:
  assumes "256 < q" "q \<le> length (vs_last_columns v)" "q < 2 ^ 31" "64 * (w * q) \<le> vram_size v" "vram_size v < 2 ^ 32"
  shows "while_do (scroll_pass (of_nat q) (of_nat (16 * w)) (of_nat (64 * w))) (0, src, v) = Diverged"
proof (rule while_do_diverges [where I = "\<lambda>(i, _, t). q \<le> length (vs_last_columns t) \<and> vram_size t = vram_size v"])
  fix s :: "u8 \<times> nat \<times> vesa"
  obtain i src t where s: "s = (i, src, t)" by (cases s) auto
  assume "case s of (i, _, t) \<Rightarrow> q \<le> length (vs_last_columns t) \<and> vram_size t = vram_size v"
  then have t: "q \<le> length (vs_last_columns t)" "vram_size t = vram_size v" by (simp_all add: s)
  have i: "unat i < 256" using unsigned_less [of i, where 'a = nat] by simp
  have "scroll_pass (of_nat q) (of_nat (16 * w)) (of_nat (64 * w)) (of_nat (unat i), src, t) =
     Ok (True, of_nat (unat i + 1), 64 * (w * (unat i + 1)),
       t\<lparr>vram := \<lambda>a. if 64 * (w * unat i) \<le> a \<and> a < 64 * (w * (unat i + 1)) then vram t (a + 64 * w) else vram t a,
         vs_last_columns := (vs_last_columns t)[unat i := vs_last_columns t ! (unat i + 1)]\<rparr>)"
    using i t assms by (intro scroll_pass_step) simp_all
  then show "\<exists>s'. scroll_pass (of_nat q) (of_nat (16 * w)) (of_nat (64 * w)) s = Ok (True, s') \<and>
      (case s' of (i, _, t) \<Rightarrow> q \<le> length (vs_last_columns t) \<and> vram_size t = vram_size v)"
    using t by (simp add: s)
qed (use assms(2) in simp)

text \<open>A tabulation that does not fit on its line prints more than half a billion spaces, because \<^verbatim>\<open>diff / font_width\<close> divides
  unsigned numbers, and so runs into the bottom right corner of the screen.\<close>

lemma sint_negative: "2 ^ 31 \<le> unat w \<Longrightarrow> sint w < 0" for w :: u32
proof -
  assume "2 ^ 31 \<le> unat w"
  moreover have "unat w < 2 ^ 32" using unsigned_less [of w, where 'a = nat] by simp
  ultimately have "unat w div 2 ^ 31 = 1" by (intro div_nat_eqI) simp_all
  then have "bit (unat w) 31" by (simp add: bit_iff_odd)
  then show ?thesis using bit_last_iff [of w] by (simp add: bit_unsigned_iff)
qed

lemma tab_spaces_near_edge:
  assumes "unat width = w" "w < unat x + 32" "unat x + 8 < w" "8 dvd unat x" "8 dvd w"
  shows "2 ^ 29 < tab_spaces width x"
proof -
  have w: "w < 65536" using unsigned_less [of width, where 'a = nat] assms(1) by simp
  have uw: "unat (ucast width :: u32) = w" using assms(1) w by (simp add: unsigned_ucast_eq take_bit_nat_eq_self)
  have ux: "unat (x + TAB_WIDTH * font_width) = unat x + 32" using unat_near [of x 32] assms(3) w by simp
  let ?d = "ucast width - (x + TAB_WIDTH * font_width) :: u32"
  let ?k = "unat x + 32 - w"
  have k: "0 < ?k" "?k < 24" using assms(2,3) by simp_all
  have d: "unat ?d = 2 ^ 32 - ?k" using assms(2) unat_sub_if' [of "ucast width" "x + TAB_WIDTH * font_width"] unfolding uw ux by simp
  have "2 ^ 31 \<le> unat ?d" unfolding d using k by simp
  then have s: "sint ?d < 0" by (rule sint_negative)
  have "unat (?d div font_width) = (2 ^ 32 - ?k) div 8" unfolding unat_div d by simp
  moreover have "2 ^ 29 - 3 \<le> (2 ^ 32 - ?k) div 8" "(2 ^ 32 - ?k) div 8 < 2 ^ 29" using k by (simp_all add: less_eq_div_iff_mult_less_eq div_less_iff_less_mult)
  ultimately have u: "2 ^ 29 - 3 \<le> unat (?d div font_width)" "unat (?d div font_width) < 2 ^ 29" by simp_all
  have t: "unat (TAB_WIDTH + ?d div font_width) = unat (?d div font_width) + 4"
    using unat_near [of "?d div font_width" 4] u(2) by (simp add: add.commute)
  then have "sint (TAB_WIDTH + ?d div font_width) = int (unat (?d div font_width) + 4)"
    using sint_small [of "TAB_WIDTH + ?d div font_width"] u(2) by simp
  then have "tab_spaces width x = unat (?d div font_width) + 4" unfolding tab_spaces_def Let_def if_P [OF s] by (simp only: nat_int)
  then show ?thesis using u(1) by simp
qed

lemma process_space_ok:
  assumes "vesa_ok w h v" "1536 \<le> length font"
  shows "if vesa_at_corner w h v then vesa_process_space font v = Fault
         else \<exists>v'. vesa_process_space font v = Ok v' \<and> vesa_ok w h v' \<and> vs_cursor v' = advanced w (vs_cursor v)"
proof -
  from serial_copy_ok [OF assms(1)] obtain c where
    c: "serial_write SERIAL_COM1_BASE 32 (vs_con v) = Ok c" "vesa_ok w h (v\<lparr>vs_con := c\<rparr>)" .
  have "vesa_at_corner w h (v\<lparr>vs_con := c\<rparr>) = vesa_at_corner w h v" by (simp add: vesa_at_corner_def)
  then show ?thesis using printable_ok [OF c(2) space_printable assms(2)] c(1) by (auto simp: vesa_process_space_def split: if_splits)
qed

text \<open>The pixels that are left to the right of the cursor and below it.\<close>

definition room :: "nat \<Rightarrow> nat \<Rightarrow> vesa \<Rightarrow> nat" where
  "room w h v = (h - unat (cursor_y (vs_cursor v))) * w - unat (cursor_x (vs_cursor v))"

lemma room_shrinks:
  assumes "vesa_ok w h v" "\<not> vesa_at_corner w h v" "vs_cursor v' = advanced w (vs_cursor v)"
  shows "room w h v' < room w h v"
proof -
  note o = vesa_withinD [OF vesa_okD(1) [OF assms(1)]]
  let ?x = "cursor_x (vs_cursor v)" and ?y = "cursor_y (vs_cursor v)"
  have u: "unat (?x + font_width) = unat ?x + 8" "unat (?y + font_height) = unat ?y + 16"
    using unat_near [of ?x 8] unat_near [of ?y 16] o(11-14) by simp_all
  have "1 * w \<le> (h - unat ?y) * w" using o(12) by (intro mult_le_mono1) simp
  moreover have "unat ?x + 8 < 1 * w" using assms(1) by (simp add: vesa_ok_def)
  ultimately have big: "unat ?x + 8 < (h - unat ?y) * w" by (rule less_le_trans [rotated])
  show ?thesis
  proof (cases "w \<le> unat ?x + 16")
    case True
    have "h - unat ?y = (h - (unat ?y + 16)) + 16" using o(12) by simp
    then have "(h - unat ?y) * w = (h - (unat ?y + 16)) * w + 16 * w" by (metis add_mult_distrib)
    moreover have "unat ?x < 16 * w" using o(11) by simp
    ultimately show ?thesis using True assms(3) u(2) by (simp add: room_def advanced_def)
  next
    case False
    then show ?thesis using assms(3) u(1) big by (simp add: room_def advanced_def)
  qed
qed

lemma spaces_fault:
  assumes "vesa_ok w h v" "1536 \<le> length font" "room w h v < length xs"
  shows "for_each xs (\<lambda>_. vesa_process_space font) v = Fault"
  using assms(1,3)
proof (induction xs arbitrary: v)
  case (Cons x xs)
  show ?case
  proof (cases "vesa_at_corner w h v")
    case True
    then show ?thesis using process_space_ok [OF Cons.prems(1) assms(2)] by simp
  next
    case False
    then obtain v' where v': "vesa_process_space font v = Ok v'" "vesa_ok w h v'" "vs_cursor v' = advanced w (vs_cursor v)"
      using process_space_ok [OF Cons.prems(1) assms(2)] by auto
    have "room w h v' < length xs" using room_shrinks [OF Cons.prems(1) False v'(3)] Cons.prems(2) by simp
    from Cons.IH [OF v'(2) this] v'(1) show ?thesis by simp
  qed
qed simp

theorem vesa_tab_near_edge:
  assumes "vesa_ok w h v" "1536 \<le> length font" "w < unat (cursor_x (vs_cursor v)) + 32"
  shows "vesa_process_char font CHR 0x09 v = Fault"
proof -
  have tab: "of_char CHR 0x09 = (9 :: nat)" by code_simp
  from serial_copy_ok [OF assms(1)] obtain c where
    c: "serial_write SERIAL_COM1_BASE (of_char CHR 0x09) (vs_con v) = Ok c" "vesa_ok w h (v\<lparr>vs_con := c\<rparr>)" (is "vesa_ok w h ?v") .
  note o = vesa_withinD [OF vesa_okD(1) [OF c(2)]]
  from mode_words [OF vesa_okD(1) [OF c(2)]] obtain m where m: "the_mode ?v = Ok m" "unat (mode_width m) = w" "unat (mode_height m) = h"
    "mode_bpp m = 32" "unat (ucast (mode_width m) :: u32) = w" "unat (ucast (mode_height m) :: u32) = h" .
  have x: "unat (cursor_x (vs_cursor ?v)) + 8 < w" "8 dvd unat (cursor_x (vs_cursor ?v))" "w < unat (cursor_x (vs_cursor ?v)) + 32"
    using vesa_okD(2) [OF c(2)] assms(3) by (simp_all add: column_ok_def cell_ok_def)
  from tab_spaces_near_edge [OF m(2) x(3,1,2) o(15)] have n: "2 ^ 29 < tab_spaces (mode_width m) (cursor_x (vs_cursor ?v))" .
  have "h < 4112" using o(5) by (rule contrapos_pp) (simp add: not_less not_le less_eq_div_iff_mult_less_eq)
  then have "h * w \<le> 4112 * 65536" using o(13) by (intro mult_le_mono) simp_all
  moreover have "room w h ?v \<le> h * w" by (simp add: room_def le_trans [OF diff_le_self mult_le_mono1])
  ultimately have "room w h ?v < tab_spaces (mode_width m) (cursor_x (vs_cursor ?v))" using n by simp
  then have "for_each [0 ..< tab_spaces (mode_width m) (cursor_x (vs_cursor ?v))] (\<lambda>_. vesa_process_space font) ?v = Fault"
    by (intro spaces_fault [OF c(2) assms(2)]) simp
  then have "vesa_tab font ?v = Fault" using m(1) by (simp add: vesa_tab_def)
  then show ?thesis unfolding vesa_process_char_def c(1) andthen.simps Let_def tab by simp
qed

theorem vesa_tab_near_edge_witness:
  "vesa_process_char (replicate 1536 0) CHR 0x09 (ex_vesa\<lparr>vs_cursor := \<lparr>cursor_x = 8, cursor_y = 0\<rparr>\<rparr>) = Fault"
proof (rule vesa_tab_near_edge)
  show "vesa_ok 32 32 (ex_vesa\<lparr>vs_cursor := \<lparr>cursor_x = 8, cursor_y = 0\<rparr>\<rparr>)"
    using ex_vesa_ok by (simp add: vesa_ok_def vesa_within_def screen_def cell_ok_def line_ok_def)
qed simp_all

end
