(* ===== verification/VesaModes.thy ===== *)
theory VesaModes
  imports Vesa AddressSpace
begin

unbundle bit_operations_syntax

text \<open>
  BIOS calls (\<^verbatim>\<open>Sources/arch/x86/bios_call.c\<close>) and the modes of the VESA driver (\<^verbatim>\<open>Sources/arch/x86/vesa.c\<close>), with the traces of
  the configuration (\<^verbatim>\<open>VESA_KERNEL_DEBUG\<close>). The firmware behind \<^verbatim>\<open>__bios_call\<close> is a parameter: a function of the interrupt, the
  registers and the memory it shares with the driver, which are the two VBE structures and the lists of mode
  numbers. So are the addresses given by the linker, what the frame buffer of a card holds when it is mapped, and
  the contents of memory that the code does not initialise.
\<close>

section \<open>State\<close>

record bios_int_regs_t =
  reg_di :: u16
  reg_si :: u16
  reg_bp :: u16
  reg_sp :: u16
  reg_bx :: u16
  reg_dx :: u16
  reg_cx :: u16
  reg_ax :: u16
  reg_gs :: u16
  reg_fs :: u16
  reg_es :: u16
  reg_ds :: u16
  reg_eflags :: u16

text \<open>The fields of the VBE structures that the driver uses.\<close>

record vbe_info_structure_t =
  vbe_signature :: string
  vbe_video_modes :: ptr

record vbe_mode_info_structure_t =
  vbe_attributes :: u16
  vbe_width :: u16
  vbe_height :: u16
  vbe_bpp :: u8
  vbe_memory_model :: u8
  vbe_framebuffer :: ptr

record vbe_mem =
  vbe_info_base :: vbe_info_structure_t
  vbe_mode_info_base :: vbe_mode_info_structure_t
  mode_lists :: "ptr \<rightharpoonup> u16 list"

record vesa_mode_info_t =
  info_width :: u16
  info_height :: u16
  info_bpp :: u16
  info_mode_id :: u16

record vesa_env =
  firmware :: "u32 \<Rightarrow> bios_int_regs_t \<Rightarrow> vbe_mem \<Rightarrow> bios_int_regs_t \<times> vbe_mem"
  vbe_info_addr :: ptr
  vbe_mode_info_addr :: ptr
  bios_call_memory :: ptr
  env_kernel_end :: u32
  video_memory :: "ptr \<Rightarrow> nat \<Rightarrow> u8"
  stale_regs :: bios_int_regs_t
  stale_pointer :: ptr
  stale_mode :: vesa_mode_info_t
  env_font :: "u8 list"
  env_sse :: bool
  env_strs :: "ptr \<rightharpoonup> string"
  env_cur :: "console output_t"

text \<open>The driver, the page tables with the allocators, the memory shared with the firmware, the selected display driver and the
  pointer \<^verbatim>\<open>last_columns\<close>.\<close>

record vesa_sys =
  drv :: vesa
  sys_vm :: vm
  sys_vbe :: vbe_mem
  selected_driver :: "vesa kernel_graphic_driver_t"
  last_columns_ptr :: ptr

definition BIOS_INTERRUPT_VESA :: u32 where "BIOS_INTERRUPT_VESA = 0x10"
definition BIOS_CALL_GET_VESA_INFO :: u16 where "BIOS_CALL_GET_VESA_INFO = 0x4F00"
definition BIOS_CALL_GET_VESA_MODE :: u16 where "BIOS_CALL_GET_VESA_MODE = 0x4F01"
definition BIOS_CALL_SET_VESA_MODE :: u16 where "BIOS_CALL_SET_VESA_MODE = 0x4F02"
definition VESA_FLAG_LINEAR_FB :: u16 where "VESA_FLAG_LINEAR_FB = 0x90"
definition VESA_FLAG_LFB_ENABLE :: u16 where "VESA_FLAG_LFB_ENABLE = 0x4000"
definition MAX_VESA_MODE_COUNT :: u16 where "MAX_VESA_MODE_COUNT = 245"
definition MAX_SUPPORTED_HEIGHT :: u16 where "MAX_SUPPORTED_HEIGHT = 768"
definition MAX_SUPPORTED_WIDTH :: u16 where "MAX_SUPPORTED_WIDTH = 1024"
definition MAX_SUPPORTED_BPP :: u16 where "MAX_SUPPORTED_BPP = 32"
definition sizeof_vesa_mode :: u32 where "sizeof_vesa_mode = 20"

lemmas vesa_consts = BIOS_INTERRUPT_VESA_def BIOS_CALL_GET_VESA_INFO_def BIOS_CALL_GET_VESA_MODE_def BIOS_CALL_SET_VESA_MODE_def
  VESA_FLAG_LINEAR_FB_def VESA_FLAG_LFB_ENABLE_def MAX_VESA_MODE_COUNT_def MAX_SUPPORTED_HEIGHT_def MAX_SUPPORTED_WIDTH_def
  MAX_SUPPORTED_BPP_def sizeof_vesa_mode_def

section \<open>Calls of other components\<close>

definition on_vm :: "(vm \<Rightarrow> (OS_RETURN_E \<times> vm) outcome) \<Rightarrow> vesa_sys \<Rightarrow> (OS_RETURN_E \<times> vesa_sys) outcome" where
  "on_vm f s = andthen (f (sys_vm s)) (\<lambda>(err, m). Ok (err, s\<lparr>sys_vm := m\<rparr>))"

text \<open>The kernel heap is the one of the page allocator.\<close>

definition heap_update :: "kheap \<Rightarrow> vesa_sys \<Rightarrow> vesa_sys" where
  "heap_update k s =
     (let m = sys_vm s; f = frames m in s\<lparr>sys_vm := m\<lparr>frames := f\<lparr>pool := (pool f)\<lparr>mheap := k\<rparr>\<rparr>\<rparr>\<rparr>)"

definition sys_kmalloc :: "u32 \<Rightarrow> vesa_sys \<Rightarrow> ptr \<times> vesa_sys" where
  "sys_kmalloc sz s = (let (p, k) = kmalloc sz (mheap (pool (frames (sys_vm s)))) in (p, heap_update k s))"

definition sys_kfree :: "ptr \<Rightarrow> vesa_sys \<Rightarrow> vesa_sys" where
  "sys_kfree p s = heap_update (kfree p (mheap (pool (frames (sys_vm s))))) s"

text \<open>Freeing pages, whose result is ignored, and allocating them.\<close>

definition free_pages_of :: "vesa_env \<Rightarrow> ptr \<Rightarrow> u32 \<Rightarrow> vesa_sys \<Rightarrow> vesa_sys outcome" where
  "free_pages_of E p n s =
     andthen (memalloc_free_kpages (env_kernel_end E) p n (frames (sys_vm s))) (\<lambda>(_, f). Ok (s\<lparr>sys_vm := (sys_vm s)\<lparr>frames := f\<rparr>\<rparr>))"

definition alloc_pages :: "u32 \<Rightarrow> vesa_sys \<Rightarrow> (ptr \<times> OS_RETURN_E \<times> vesa_sys) outcome" where
  "alloc_pages n s =
     andthen (memalloc_alloc_kpages n (frames (sys_vm s))) (\<lambda>(p, err, f). Ok (p, err, s\<lparr>sys_vm := (sys_vm s)\<lparr>frames := f\<rparr>\<rparr>))"

definition debug_trace :: "vesa_env \<Rightarrow> string \<Rightarrow> u32 list \<Rightarrow> vesa_sys \<Rightarrow> vesa_sys outcome" where
  "debug_trace E fmt args s =
     andthen (kernel_serial_debug (env_strs E) (env_cur E) (Some fmt) args (vs_con (drv s))) (\<lambda>c.
     Ok (s\<lparr>drv := (drv s)\<lparr>vs_con := c\<rparr>\<rparr>))"

definition bios_call :: "vesa_env \<Rightarrow> u32 \<Rightarrow> bios_int_regs_t \<Rightarrow> vesa_sys \<Rightarrow> (OS_RETURN_E \<times> bios_int_regs_t \<times> vesa_sys) outcome" where
  "bios_call E intnum regs s =
     andthen (on_vm (kernel_mmap_hw (bios_call_memory E) (bios_call_memory E) 0x1000 0 1) s) (\<lambda>(err, s).
     if err \<noteq> OS_NO_ERR \<and> err \<noteq> OS_ERR_MAPPING_ALREADY_EXISTS then Ok (err, regs, s)
     else let (int_state, m) = pg_enter (sys_vm s);
              (regs, b) = firmware E intnum regs (sys_vbe s);
              s = s\<lparr>sys_vm := pg_exit int_state m, sys_vbe := b\<rparr>
          in andthen (on_vm (kernel_munmap (bios_call_memory E) 0x1000) s) (\<lambda>(err, s). Ok (err, regs, s)))"

section \<open>Finding the modes\<close>

text \<open>What makes a mode usable, and the structure that is kept for it.\<close>

definition mode_usable :: "vbe_mode_info_structure_t \<Rightarrow> bool" where
  "mode_usable i \<longleftrightarrow> vbe_attributes i AND VESA_FLAG_LINEAR_FB = VESA_FLAG_LINEAR_FB \<and>
     (vbe_memory_model i = 4 \<or> vbe_memory_model i = 6)"

definition kept_mode :: "vesa_env \<Rightarrow> u16 \<Rightarrow> vbe_mode_info_structure_t \<Rightarrow> ptr \<Rightarrow> vesa_mode_t" where
  "kept_mode E num i nx =
     \<lparr>mode_width = vbe_width i, mode_height = vbe_height i, mode_bpp = ucast (vbe_bpp i), mode_id = num,
      mode_framebuffer_phy = vbe_framebuffer i, mode_framebuffer = stale_pointer E, mode_next = nx\<rparr>"

definition add_mode :: "vesa_env \<Rightarrow> u16 \<Rightarrow> vesa_sys \<Rightarrow> vesa_sys" where
  "add_mode E num s =
     (let (new_mode, s) = sys_kmalloc sizeof_vesa_mode s
      in if new_mode = NULL then s
         else let d = drv s
              in s\<lparr>drv := d\<lparr>mode_store := (mode_store d)(new_mode \<mapsto> kept_mode E num (vbe_mode_info_base (sys_vbe s)) (saved_modes d)),
                           saved_modes := new_mode, mode_count := mode_count d + 1\<rparr>\<rparr>)"

text \<open>One pass of the loop over the list of mode numbers; the registers are kept from pass to pass.\<close>

definition mode_pass ::
    "vesa_env \<Rightarrow> ptr \<Rightarrow> u32 \<times> bios_int_regs_t \<times> vesa_sys \<Rightarrow> (bool \<times> u32 \<times> bios_int_regs_t \<times> vesa_sys) outcome" where
  "mode_pass E modes = (\<lambda>(i, regs, s).
     if \<not> mode_count (drv s) < MAX_VESA_MODE_COUNT then Ok (False, i, regs, s)
     else andthen (deref (mode_lists (sys_vbe s)) modes) (\<lambda>ids.
          if \<not> unat i < length ids then Fault
          else let num = ids ! unat i
               in if num = 0xFFFF then Ok (False, i, regs, s)
                  else andthen (bios_call E BIOS_INTERRUPT_VESA
                         (regs\<lparr>reg_ax := BIOS_CALL_GET_VESA_MODE, reg_cx := num, reg_es := 0, reg_di := ucast (vbe_mode_info_addr E)\<rparr>) s)
                         (\<lambda>(_, regs, s).
                       Ok (True, i + 1, regs,
                           if reg_ax regs = 0x004F \<and> mode_usable (vbe_mode_info_base (sys_vbe s)) then add_mode E num s else s))))"

definition reset_driver :: "vesa \<Rightarrow> vesa" where
  "reset_driver d =
     d\<lparr>mode_count := 0, vesa_supported := 0, current_mode := NULL, saved_modes := NULL,
       vs_cursor := \<lparr>cursor_x = 0, cursor_y = 0\<rparr>,
       vs_scheme := \<lparr>foreground = 0xFFFFFFFF, background = 0xFF000000, vga_color = 0\<rparr>\<rparr>"

text \<open>The part of \<^verbatim>\<open>vesa_init\<close> from the first call of the firmware on.\<close>

definition query_modes :: "vesa_env \<Rightarrow> vesa_sys \<Rightarrow> (OS_RETURN_E \<times> vesa_sys) outcome" where
  "query_modes E s =
     (let b = sys_vbe s;
          s = s\<lparr>sys_vbe := b\<lparr>vbe_info_base := (vbe_info_base b)\<lparr>vbe_signature := ''VBE2''\<rparr>\<rparr>\<rparr>
      in andthen (bios_call E BIOS_INTERRUPT_VESA
              ((stale_regs E)\<lparr>reg_ax := BIOS_CALL_GET_VESA_INFO, reg_es := 0, reg_di := ucast (vbe_info_addr E)\<rparr>) s) (\<lambda>(_, regs, s).
         if reg_ax regs \<noteq> 0x004F \<or> take 4 (vbe_signature (vbe_info_base (sys_vbe s))) \<noteq> ''VESA''
         then Ok (OS_ERR_VESA_NOT_SUPPORTED, s)
         else andthen (while_do (mode_pass E (vbe_video_modes (vbe_info_base (sys_vbe s)))) (0, regs, s)) (\<lambda>(_, _, s).
              andthen (on_vm (kernel_munmap (vbe_info_addr E) 0x1000) s) (\<lambda>(_, s).
              andthen (on_vm (kernel_munmap (vbe_mode_info_addr E) 0x1000) s) (\<lambda>(_, s).
              if mode_count (drv s) > 0
              then andthen (debug_trace E (''VESA Initialization end'' @ newline) [] (s\<lparr>drv := (drv s)\<lparr>vesa_supported := 1\<rparr>\<rparr>)) (\<lambda>s.
                   Ok (OS_NO_ERR, s))
              else Ok (OS_ERR_VESA_NOT_SUPPORTED, s))))))"

definition vesa_init :: "vesa_env \<Rightarrow> vesa_sys \<Rightarrow> (OS_RETURN_E \<times> vesa_sys) outcome" where
  "vesa_init E s =
     andthen (debug_trace E (''VESA Initialization start'' @ newline) [] s) (\<lambda>s.
     let s = s\<lparr>drv := reset_driver (drv s)\<rparr>
     in on_ok (on_vm (kernel_mmap_hw (vbe_info_addr E) (vbe_info_addr E) 0x1000 0 0) s) (\<lambda>s.
        on_ok (on_vm (kernel_mmap_hw (vbe_mode_info_addr E) (vbe_mode_info_addr E) 0x1000 0 0) s) (query_modes E)))"

definition vesa_get_vesa_mode_count :: "vesa_sys \<Rightarrow> u16" where
  "vesa_get_vesa_mode_count s = mode_count (drv s)"

section \<open>Listing, selecting and setting a mode\<close>

definition mode_info :: "vesa_mode_t \<Rightarrow> vesa_mode_info_t" where
  "mode_info m = \<lparr>info_width = mode_width m, info_height = mode_height m, info_bpp = mode_bpp m, info_mode_id = mode_id m\<rparr>"

text \<open>The loop of \<^verbatim>\<open>vesa_get_vesa_modes\<close>, on a buffer with as many elements as the caller has there.\<close>

definition list_pass ::
    "(ptr \<rightharpoonup> vesa_mode_t) \<Rightarrow> u32 \<Rightarrow> u32 \<times> ptr \<times> vesa_mode_info_t list \<Rightarrow> (bool \<times> u32 \<times> ptr \<times> vesa_mode_info_t list) outcome" where
  "list_pass ms sz = (\<lambda>(i, cursor, buffer).
     if cursor \<noteq> NULL \<and> i < sz
     then andthen (deref ms cursor) (\<lambda>m.
          if unat i < length buffer then Ok (True, i + 1, mode_next m, buffer[unat i := mode_info m]) else Fault)
     else Ok (False, i, cursor, buffer))"

definition vesa_get_vesa_modes ::
    "vesa_mode_info_t list option \<Rightarrow> u32 \<Rightarrow> vesa \<Rightarrow> (OS_RETURN_E \<times> vesa_mode_info_t list option) outcome" where
  "vesa_get_vesa_modes buffer sz v =
     (if vesa_supported v = 0 \<or> mode_count v = 0 then Ok (OS_ERR_VESA_NOT_SUPPORTED, buffer)
      else case buffer of
             None \<Rightarrow> Ok (OS_ERR_NULL_POINTER, None)
           | Some b \<Rightarrow> andthen (while_do (list_pass (mode_store v) sz) (0, saved_modes v, b)) (\<lambda>(_, _, b). Ok (OS_NO_ERR, Some b)))"

definition same_mode :: "vesa_mode_info_t \<Rightarrow> vesa_mode_t \<Rightarrow> bool" where
  "same_mode i m \<longleftrightarrow> mode_id m = info_mode_id i \<and> mode_width m = info_width i \<and> mode_height m = info_height i \<and> mode_bpp m = info_bpp i"

definition buffer_bytes :: "vesa_mode_t \<Rightarrow> u32" where
  "buffer_bytes m = ucast (mode_width m) * ucast (mode_height m) * ucast (mode_bpp m div 8)"

definition buffer_pages :: "vesa_mode_t \<Rightarrow> u32" where
  "buffer_pages m =
     buffer_bytes m div KERNEL_PAGE_SIZE + (if buffer_bytes m mod KERNEL_PAGE_SIZE \<noteq> 0 then 1 else 0)"

definition set_mode_field :: "ptr \<Rightarrow> (vesa_mode_t \<Rightarrow> vesa_mode_t) \<Rightarrow> vesa_sys \<Rightarrow> vesa_sys outcome" where
  "set_mode_field p f s = andthen (modify (mode_store (drv s)) p f) (\<lambda>ms. Ok (s\<lparr>drv := (drv s)\<lparr>mode_store := ms\<rparr>\<rparr>))"

text \<open>The releases on the error paths.\<close>

definition give_back :: "vesa_env \<Rightarrow> ptr \<Rightarrow> vesa_mode_t \<Rightarrow> OS_RETURN_E \<Rightarrow> vesa_sys \<Rightarrow> (OS_RETURN_E \<times> vesa_sys) outcome" where
  "give_back E cursor m err s =
     andthen (free_pages_of E (mode_framebuffer m) (buffer_pages m) s) (\<lambda>s.
     andthen (set_mode_field cursor (\<lambda>m. m\<lparr>mode_framebuffer := NULL\<rparr>) s) (\<lambda>s. Ok (err, s)))"

definition has_framebuffer :: "vesa \<Rightarrow> bool outcome" where
  "has_framebuffer v =
     (if current_mode v = NULL then Ok False else andthen (the_mode v) (\<lambda>m. Ok (mode_framebuffer m \<noteq> NULL)))"

text \<open>The new array \<^verbatim>\<open>last_columns\<close> and the call that switches the mode, once the frame buffer is mapped.\<close>

definition switch_mode :: "vesa_env \<Rightarrow> vesa_mode_info_t \<Rightarrow> ptr \<Rightarrow> vesa_mode_t \<Rightarrow> vesa_sys \<Rightarrow> (OS_RETURN_E \<times> vesa_sys) outcome" where
  "switch_mode E mode cursor m s =
     (let sz = 4 * ucast (mode_height m) div font_height;
          s = (if last_columns_ptr s \<noteq> NULL then sys_kfree (last_columns_ptr s) s else s);
          (p, s) = sys_kmalloc sz s;
          s = s\<lparr>last_columns_ptr := p\<rparr>
      in if p = NULL then give_back E cursor m OS_ERR_MALLOC (s\<lparr>drv := (drv s)\<lparr>vs_last_columns := []\<rparr>\<rparr>)
         else let s = s\<lparr>drv := (drv s)\<lparr>vs_last_columns := replicate (unat sz div 4) 0\<rparr>\<rparr>
              in andthen (bios_call E BIOS_INTERRUPT_VESA
                   ((stale_regs E)\<lparr>reg_ax := BIOS_CALL_SET_VESA_MODE, reg_bx := mode_id m OR VESA_FLAG_LFB_ENABLE\<rparr>) s) (\<lambda>(_, regs, s).
                 if reg_ax regs \<noteq> 0x004F
                 then andthen (give_back E cursor m OS_ERR_VESA_MODE_NOT_SUPPORTED s) (\<lambda>(err, s).
                      Ok (err, (sys_kfree p s)\<lparr>last_columns_ptr := NULL, drv := (drv s)\<lparr>vs_last_columns := []\<rparr>\<rparr>))
                 else let (_, d) = graphic_set_selected_driver (Some (vesa_driver (env_font E))) (selected_driver s);
                          s = s\<lparr>selected_driver := d, drv := (drv s)\<lparr>current_mode := cursor\<rparr>\<rparr>
                      in andthen (debug_trace E (''VESA Mode set %d (%d)'' @ newline) [ucast (info_mode_id mode), 0] s) (\<lambda>s.
                         Ok (OS_NO_ERR, s))))"

definition vesa_set_vesa_mode :: "vesa_env \<Rightarrow> vesa_mode_info_t \<Rightarrow> vesa_sys \<Rightarrow> (OS_RETURN_E \<times> vesa_sys) outcome" where
  "vesa_set_vesa_mode E mode s =
     (if vesa_supported (drv s) = 0 then Ok (OS_ERR_VESA_NOT_SUPPORTED, s)
      else andthen (returned (walk mode_next (\<lambda>_ m. \<not> same_mode mode m) (mode_store (drv s)) (saved_modes (drv s)))) (\<lambda>cursor.
      if cursor = NULL then Ok (OS_ERR_VESA_MODE_NOT_SUPPORTED, s)
      else andthen (set_mode_field cursor (\<lambda>m. if mode_bpp m = 24 then m\<lparr>mode_bpp := 32\<rparr> else m) s) (\<lambda>s.
           andthen (deref (mode_store (drv s)) cursor) (\<lambda>m.
           andthen (has_framebuffer (drv s)) (\<lambda>used.
           andthen (if used then free_pages_of E (mode_framebuffer m) (buffer_pages m) s else Ok s) (\<lambda>s.
           andthen (alloc_pages (buffer_pages m) s) (\<lambda>(p, err, s).
           andthen (set_mode_field cursor (\<lambda>m. m\<lparr>mode_framebuffer := p\<rparr>) s) (\<lambda>s.
           let m = m\<lparr>mode_framebuffer := p\<rparr>
           in if p = NULL \<or> err \<noteq> OS_NO_ERR then Ok (err, s)
              else let s = s\<lparr>drv := (drv s)\<lparr>vram_size := 0\<rparr>\<rparr>
                   in andthen (on_vm (kernel_mmap_hw p (mode_framebuffer_phy m) (buffer_bytes m) 0 0) s) (\<lambda>(err, s).
                      if err \<noteq> OS_NO_ERR then give_back E cursor m err s
                      else switch_mode E mode cursor m
                             (s\<lparr>drv := (drv s)\<lparr>vram := video_memory E (mode_framebuffer_phy m), vram_size := 4096 * unat (buffer_pages m)\<rparr>\<rparr>))))))))))"

section \<open>From the VGA screen to a VESA mode\<close>

definition mode_within_limits :: "vesa_mode_t \<Rightarrow> bool" where
  "mode_within_limits m \<longleftrightarrow> \<not> (mode_width m > MAX_SUPPORTED_WIDTH \<or> mode_height m > MAX_SUPPORTED_HEIGHT \<or> mode_bpp m > MAX_SUPPORTED_BPP)"

definition at_least :: "vesa_mode_t \<Rightarrow> vesa_mode_info_t \<Rightarrow> bool" where
  "at_least m i \<longleftrightarrow> mode_width m \<ge> info_width i \<and> mode_height m \<ge> info_height i \<and> mode_bpp m \<ge> info_bpp i"

definition select_pass ::
    "(ptr \<rightharpoonup> vesa_mode_t) \<Rightarrow> ptr \<times> vesa_mode_info_t \<Rightarrow> (bool \<times> ptr \<times> vesa_mode_info_t) outcome" where
  "select_pass ms = (\<lambda>(cursor, sel).
     if cursor = NULL then Ok (False, cursor, sel)
     else andthen (deref ms cursor) (\<lambda>m.
          Ok (True, mode_next m, if mode_within_limits m \<and> at_least m sel then mode_info m else sel)))"

definition select_mode :: "vesa_env \<Rightarrow> vesa \<Rightarrow> vesa_mode_info_t outcome" where
  "select_mode E v =
     andthen (while_do (select_pass (mode_store v)) (saved_modes v, (stale_mode E)\<lparr>info_width := 0, info_height := 0, info_bpp := 0\<rparr>))
       (\<lambda>(_, sel). Ok sel)"

text \<open>The cells of the VGA screen as bytes, and a cell read back from the copy.\<close>

definition cell_bytes :: "u16 list \<Rightarrow> u8 list" where
  "cell_bytes cs = concat (map (\<lambda>c. [ucast c, ucast (drop_bit 8 c)]) cs)"

definition copied_cell :: "u8 list \<Rightarrow> nat \<Rightarrow> u16" where
  "copied_cell bs k = ucast (bs ! (2 * k)) OR push_bit 8 (ucast (bs ! (2 * k + 1)))"

definition show_cell :: "u8 list \<Rightarrow> u16 \<Rightarrow> vesa \<Rightarrow> vesa outcome" where
  "show_cell font cell v =
     andthen (vesa_set_color_scheme
        \<lparr>foreground = ucast (drop_bit 8 (cell AND 0x0F00)), background = ucast (drop_bit 12 (cell AND 0xF000)), vga_color = 1\<rparr> v)
       (vesa_process_char font (char_of (unat (cell AND 0x00FF))))"

text \<open>The number of cells of line \<open>i\<close> that are shown before one of the two breaks: all of them above the cursor, those before the
  cursor on its line. The loop over the lines is left after the line of the cursor.\<close>

definition shown_cells :: "cursor_t \<Rightarrow> nat \<Rightarrow> nat" where
  "shown_cells c i =
     (if unat (cursor_y c) < i then 0 else if unat (cursor_y c) = i then min 80 (unat (cursor_x c)) else 80)"

definition show_line :: "u8 list \<Rightarrow> u8 list \<Rightarrow> cursor_t \<Rightarrow> nat \<Rightarrow> vesa \<Rightarrow> vesa outcome" where
  "show_line font bs c i v =
     andthen (for_each [0 ..< shown_cells c i] (\<lambda>j. show_cell font (copied_cell bs (80 * i + j))) v) (\<lambda>v.
     if unat (cursor_y c) = i then Ok v else vesa_process_char font CHR 0x0A v)"

definition show_lines :: "u8 list \<Rightarrow> u8 list \<Rightarrow> cursor_t \<Rightarrow> vesa \<Rightarrow> vesa outcome" where
  "show_lines font bs c v = for_each [0 ..< min 25 (unat (cursor_y c) + 1)] (show_line font bs c) v"

definition on_drv :: "(vesa \<Rightarrow> vesa outcome) \<Rightarrow> vesa_sys \<Rightarrow> vesa_sys outcome" where
  "on_drv f s = andthen (f (drv s)) (\<lambda>d. Ok (s\<lparr>drv := d\<rparr>))"

definition vesa_text_vga_to_vesa :: "vesa_env \<Rightarrow> vesa_sys \<Rightarrow> (OS_RETURN_E \<times> vesa_sys) outcome" where
  "vesa_text_vga_to_vesa E s =
     (let old_colorscheme = vs_scheme (drv s); vga = vs_con (drv s); vga_cursor = screen_cursor vga
      in andthen (fast_memcpy (env_sse E) 4000 (cell_bytes (framebuffer vga)) (replicate 4000 0)) (\<lambda>temp_buffer.
         if vesa_supported (drv s) = 0 \<or> mode_count (drv s) = 0 then Ok (OS_ERR_VESA_NOT_SUPPORTED, s)
         else andthen (select_mode E (drv s)) (\<lambda>sel.
              andthen (debug_trace E (''Selected VESA mode %dx%d %dbits'' @ newline) [ucast (info_width sel), ucast (info_height sel), ucast (info_bpp sel)] s) (\<lambda>s.
              on_ok (vesa_set_vesa_mode E sel s) (\<lambda>s.
              andthen (on_drv vesa_clear_screen s) (\<lambda>s.
              andthen (on_drv (show_lines (env_font E) temp_buffer vga_cursor) s) (\<lambda>s.
              andthen (debug_trace E (''VESA VGA Text to VESA'' @ newline) [] (s\<lparr>drv := (drv s)\<lparr>vs_scheme := old_colorscheme\<rparr>\<rparr>)) (\<lambda>s.
              Ok (OS_NO_ERR, s)))))))))"

section \<open>The list of modes\<close>

text \<open>The structures at \<open>ps\<close> are the list of saved modes.\<close>

definition modes_are :: "vesa \<Rightarrow> ptr list \<Rightarrow> vesa_mode_t list \<Rightarrow> bool" where
  "modes_are v ps ms \<longleftrightarrow> sseg mode_next (mode_store v) ps NULL \<and> hdp ps NULL = saved_modes v \<and> map (mode_store v) ps = map Some ms"

lemma list_loop:
  assumes "sseg mode_next st ps NULL" "map st ps = map Some ms" "unat i + min (unat sz - unat i) (length ps) \<le> length b" "unat i \<le> unat sz"
  shows "\<exists>i' c. while_do (list_pass st sz) (i, hdp ps NULL, b) =
     Ok (i', c, take (unat i) b @ map mode_info (take (unat sz - unat i) ms) @ drop (unat i + min (unat sz - unat i) (length ms)) b)"
  using assms
proof (induction ps arbitrary: i b ms)
  case Nil
  have "while_do (list_pass st sz) (i, NULL, b) = Ok (i, NULL, b)" by (subst while_do_unfold) (simp add: list_pass_def)
  then show ?case using Nil.prems(2) by simp
next
  case (Cons p ps)
  from Cons.prems(2) obtain m ms' where ms: "ms = m # ms'" "st p = Some m" "map st ps = map Some ms'" by (cases ms) auto
  have p: "p \<noteq> NULL" "mode_next m = hdp ps NULL" "sseg mode_next st ps NULL" using Cons.prems(1) ms(2) by auto
  show ?case
  proof (cases "i < sz")
    case False
    then have "unat sz - unat i = 0" by (simp add: word_less_nat_alt)
    moreover have "while_do (list_pass st sz) (i, p, b) = Ok (i, p, b)" using False by (subst while_do_unfold) (simp add: list_pass_def)
    ultimately show ?thesis by simp
  next
    case True
    then have lt: "unat i < unat sz" by (simp add: word_less_nat_alt)
    have i1: "unat (i + 1) = unat i + 1" using unat_near [of i 1] lt unsigned_less [of sz, where 'a = nat] by simp
    have lb: "unat i < length b" using Cons.prems(3) lt by (simp split: if_splits add: min_def)
    let ?b = "b[unat i := mode_info m]"
    have n: "unat (i + 1) + min (unat sz - unat (i + 1)) (length ps) \<le> length ?b" "unat (i + 1) \<le> unat sz"
      using Cons.prems(3) lt i1 by (auto simp: min_def split: if_splits)
    from Cons.IH [OF p(3) ms(3) n] obtain i' c where
      ih: "while_do (list_pass st sz) (i + 1, hdp ps NULL, ?b) = Ok (i', c, take (unat (i + 1)) ?b @
        map mode_info (take (unat sz - unat (i + 1)) ms') @ drop (unat (i + 1) + min (unat sz - unat (i + 1)) (length ms')) ?b)" by (elim exE)
    have "while_do (list_pass st sz) (i, p, b) = while_do (list_pass st sz) (i + 1, hdp ps NULL, ?b)"
      using True p(1,2) ms(2) lb by (subst while_do_unfold) (simp add: list_pass_def deref_def)
    moreover have "take (unat (i + 1)) ?b = take (unat i) b @ [mode_info m]" using lb i1 by (simp add: take_Suc_conv_app_nth)
    moreover have su: "unat sz - unat i = Suc (unat sz - unat (i + 1))" using lt i1 by simp
    then have "take (unat sz - unat i) ms = m # take (unat sz - unat (i + 1)) ms'" using ms(1) by simp
    moreover have "unat (i + 1) + min (unat sz - unat (i + 1)) (length ms') = unat i + min (unat sz - unat i) (length ms)"
      unfolding su i1 ms(1) by simp
    moreover have "drop (unat i + min (unat sz - unat i) (length ms)) ?b = drop (unat i + min (unat sz - unat i) (length ms)) b"
      using lt ms(1) by (simp add: min_def)
    ultimately show ?thesis using ih by simp
  qed
qed

text \<open>What the selection loop does to a list of modes.\<close>

definition pick :: "vesa_mode_t \<Rightarrow> vesa_mode_info_t \<Rightarrow> vesa_mode_info_t" where
  "pick m sel = (if mode_within_limits m \<and> at_least m sel then mode_info m else sel)"

lemma select_loop:
  "sseg mode_next st ps NULL \<Longrightarrow> map st ps = map Some ms \<Longrightarrow>
     while_do (select_pass st) (hdp ps NULL, sel) = Ok (NULL, fold pick ms sel)"
proof (induction ps arbitrary: ms sel)
  case Nil
  then show ?case by (subst while_do_unfold) (simp add: select_pass_def)
next
  case (Cons p ps)
  from Cons.prems(2) obtain m ms' where ms: "ms = m # ms'" "st p = Some m" "map st ps = map Some ms'" by (cases ms) auto
  have p: "p \<noteq> NULL" "mode_next m = hdp ps NULL" "sseg mode_next st ps NULL" using Cons.prems(1) ms(2) by auto
  have "while_do (select_pass st) (p, sel) = while_do (select_pass st) (hdp ps NULL, pick m sel)"
    using p(1,2) ms(2) by (subst while_do_unfold) (simp add: select_pass_def deref_def pick_def)
  then show ?case using Cons.IH [OF p(3) ms(3)] ms(1) by simp
qed

definition info_le :: "vesa_mode_info_t \<Rightarrow> vesa_mode_info_t \<Rightarrow> bool" where
  "info_le i j \<longleftrightarrow> info_width i \<le> info_width j \<and> info_height i \<le> info_height j \<and> info_bpp i \<le> info_bpp j"

lemma at_least_le: "at_least m i \<longleftrightarrow> info_le i (mode_info m)"
  by (simp add: at_least_def info_le_def mode_info_def)

lemma info_le_trans: "info_le a b \<Longrightarrow> info_le b c \<Longrightarrow> info_le a c"
  by (auto simp: info_le_def)

lemma info_le_refl [simp]: "info_le a a"
  by (simp add: info_le_def)

lemma pick_grows: "info_le sel (pick m sel)" "info_le sel (fold pick ms sel)"
proof -
  show "info_le sel (pick m sel)" for m sel by (simp add: pick_def at_least_le)
  then show "info_le sel (fold pick ms sel)" by (induction ms arbitrary: sel) (auto intro: info_le_trans)
qed

lemma picked_maximal:
  "m \<in> set ms \<Longrightarrow> mode_within_limits m \<Longrightarrow> info_le (fold pick ms sel) (mode_info m) \<Longrightarrow> info_le (mode_info m) (fold pick ms sel)"
proof (induction ms arbitrary: sel)
  case (Cons x ms)
  show ?case
  proof (cases "m = x")
    case True
    have "info_le sel (fold pick (x # ms) sel)" by (rule pick_grows(2))
    then have "info_le sel (mode_info m)" using Cons.prems(3) by (rule info_le_trans)
    then have "pick x sel = mode_info m" using True Cons.prems(2) by (simp add: pick_def at_least_le)
    then show ?thesis using pick_grows(2) [of "mode_info m" ms] by simp
  next
    case False
    then show ?thesis using Cons by simp
  qed
qed simp

lemma picked_member: "fold pick ms sel = sel \<or> (\<exists>m \<in> set ms. mode_within_limits m \<and> fold pick ms sel = mode_info m)"
proof (induction ms arbitrary: sel)
  case (Cons x ms)
  from Cons.IH [of "pick x sel"] show ?case by (auto simp: pick_def split: if_splits)
qed simp

section \<open>Properties\<close>

text \<open>The list of modes is copied to the buffer, as far as the buffer goes, and nothing is written beyond.\<close>

theorem vesa_get_modes_copies:
  assumes "modes_are v ps ms" "vesa_supported v \<noteq> 0" "mode_count v \<noteq> 0" "min (unat sz) (length ms) \<le> length b"
  shows "vesa_get_vesa_modes (Some b) sz v =
     Ok (OS_NO_ERR, Some (map mode_info (take (unat sz) ms) @ drop (min (unat sz) (length ms)) b))"
proof -
  have m: "sseg mode_next (mode_store v) ps NULL" "hdp ps NULL = saved_modes v" "map (mode_store v) ps = map Some ms"
    using assms(1) by (simp_all add: modes_are_def)
  have l: "length ps = length ms" using arg_cong [OF m(3), of length] by simp
  have "unat (0 :: u32) + min (unat sz - unat (0 :: u32)) (length ps) \<le> length b" using assms(4) l by simp
  from list_loop [OF m(1,3) this] obtain i c where
    "while_do (list_pass (mode_store v) sz) (0, saved_modes v, b) =
       Ok (i, c, map mode_info (take (unat sz) ms) @ drop (min (unat sz) (length ms)) b)" by (auto simp: m(2))
  then show ?thesis using assms(2,3) by (simp add: vesa_get_vesa_modes_def)
qed

text \<open>C37. The mode selected for the console is one of the saved modes within the limits of the configuration, and no such mode
  is larger; when there is none, the size is zero and the number is whatever was in memory.\<close>

theorem vesa_select_mode_maximal:
  assumes "modes_are v ps ms"
  shows "\<exists>sel. select_mode E v = Ok sel \<and>
     (if \<exists>m \<in> set ms. mode_within_limits m
      then (\<exists>m \<in> set ms. mode_within_limits m \<and> sel = mode_info m) \<and>
           (\<forall>m \<in> set ms. mode_within_limits m \<longrightarrow> info_le sel (mode_info m) \<longrightarrow> info_le (mode_info m) sel)
      else sel = (stale_mode E)\<lparr>info_width := 0, info_height := 0, info_bpp := 0\<rparr>)"
proof -
  let ?z = "(stale_mode E)\<lparr>info_width := 0, info_height := 0, info_bpp := 0\<rparr>"
  have "select_mode E v = Ok (fold pick ms ?z)"
    using select_loop [of "mode_store v" ps ms ?z] assms by (simp add: select_mode_def modes_are_def)
  moreover have "\<exists>m \<in> set ms. mode_within_limits m \<and> fold pick ms ?z = mode_info m" if "m \<in> set ms" "mode_within_limits m" for m
  proof (cases "fold pick ms ?z = ?z")
    case True
    have z: "info_le ?z i" for i by (simp add: info_le_def)
    have "pick m ?z = mode_info m" using z that(2) by (simp add: pick_def at_least_le)
    from that show ?thesis
    proof (induction ms)
      case Nil
      then show ?case by simp
    next
      case (Cons x ms)
      show ?case
      proof (cases "mode_within_limits x")
        case True
        then have "pick x ?z = mode_info x" using z by (simp add: pick_def at_least_le)
        then show ?thesis using picked_member [of ms "mode_info x"] True by auto
      next
        case False
        then have "pick x ?z = ?z" "m \<in> set ms" using Cons.prems by (auto simp: pick_def)
        then show ?thesis using Cons by auto
      qed
    qed
  next
    case False
    then show ?thesis using picked_member [of ms ?z] by blast
  qed
  moreover have "fold pick ms ?z = ?z" if "\<not> (\<exists>m \<in> set ms. mode_within_limits m)"
    using picked_member [of ms ?z] that by blast
  ultimately show ?thesis using picked_maximal [of _ ms ?z] by auto
qed

theorem vesa_select_mode_maximal_witness:
  "\<forall>E. select_mode E (ex_vesa\<lparr>mode_store := [0x500 \<mapsto> ex_mode, 0x600 \<mapsto> ex_mode\<lparr>mode_width := 2048, mode_next := 0x500\<rparr>], saved_modes := 0x600\<rparr>)
     = Ok (mode_info ex_mode)"
proof
  fix E :: vesa_env
  let ?big = "ex_mode\<lparr>mode_width := 2048, mode_next := 0x500\<rparr>"
  let ?v = "ex_vesa\<lparr>mode_store := [0x500 \<mapsto> ex_mode, 0x600 \<mapsto> ?big], saved_modes := 0x600\<rparr>"
  have m: "modes_are ?v [0x600, 0x500] [?big, ex_mode]" by (simp add: modes_are_def ex_vesa_def ex_mode_def)
  have "mode_within_limits ex_mode" "\<not> mode_within_limits ?big" by (simp_all add: ex_mode_def mode_within_limits_def vesa_consts)
  then show "select_mode E ?v = Ok (mode_info ex_mode)" using vesa_select_mode_maximal [OF m, of E] by auto
qed

text \<open>A mode that is not in the list is refused, and nothing changes.\<close>

theorem vesa_set_mode_refuses:
  assumes "modes_are (drv s) ps ms" "\<forall>m \<in> set ms. \<not> same_mode mode m" "vesa_supported (drv s) \<noteq> 0"
  shows "vesa_set_vesa_mode E mode s = Ok (OS_ERR_VESA_MODE_NOT_SUPPORTED, s)"
proof -
  have m: "sseg mode_next (mode_store (drv s)) ps NULL" "hdp ps NULL = saved_modes (drv s)" "map (mode_store (drv s)) ps = map Some ms"
    using assms(1) by (simp_all add: modes_are_def)
  have "\<not> same_mode mode (the (mode_store (drv s) p))" if "p \<in> set ps" for p
  proof -
    have "mode_store (drv s) p \<in> Some ` set ms" using m(3) that by (metis image_eqI list.set_map)
    then show ?thesis using assms(2) by auto
  qed
  then have "dropWhile (\<lambda>x. \<not> same_mode mode (the (mode_store (drv s) x))) ps = []" by simp
  then have "walk mode_next (\<lambda>_ m. \<not> same_mode mode m) (mode_store (drv s)) (saved_modes (drv s)) = Some (Ok NULL)"
    using walk_sseg [OF m(1), of "\<lambda>_ m. \<not> same_mode mode m"] unfolding m(2) by (simp only: hdp.simps)
  then show ?thesis using assms(3) by (simp add: vesa_set_vesa_mode_def)
qed

text \<open>What the calls leave alone.\<close>

lemma on_vm_keeps: "on_vm f s = Ok (err, s') \<Longrightarrow> drv s' = drv s \<and> selected_driver s' = selected_driver s \<and> sys_vbe s' = sys_vbe s"
  by (auto simp: on_vm_def outcome_simps)

lemma bios_call_keeps: "bios_call E n r s = Ok (err, r', s') \<Longrightarrow> drv s' = drv s \<and> selected_driver s' = selected_driver s"
  by (auto simp: bios_call_def outcome_simps Let_def split: if_splits prod.splits dest!: on_vm_keeps)

lemma debug_trace_keeps:
  "debug_trace E fmt args s = Ok s' \<Longrightarrow> \<exists>c. drv s' = (drv s)\<lparr>vs_con := c\<rparr> \<and> selected_driver s' = selected_driver s"
  by (auto simp: debug_trace_def outcome_simps)

lemma kmalloc_keeps [simp]:
  "drv (heap_update k s) = drv s" "selected_driver (heap_update k s) = selected_driver s" "sys_vbe (heap_update k s) = sys_vbe s"
  "drv (snd (sys_kmalloc sz s)) = drv s" "selected_driver (snd (sys_kmalloc sz s)) = selected_driver s" "drv (sys_kfree p s) = drv s"
  "sys_vbe (snd (sys_kmalloc sz s)) = sys_vbe s"
  by (simp_all add: heap_update_def sys_kmalloc_def sys_kfree_def Let_def split: prod.splits)

lemma free_pages_keeps: "free_pages_of E p n s = Ok s' \<Longrightarrow> drv s' = drv s"
  by (auto simp: free_pages_of_def outcome_simps)

lemma alloc_pages_keeps: "alloc_pages n s = Ok (p, err, s') \<Longrightarrow> drv s' = drv s"
  by (auto simp: alloc_pages_def outcome_simps)

text \<open>The driver after \<^verbatim>\<open>vesa_init\<close>: it is usable exactly when it says so, and it keeps at most 245 modes.\<close>

definition modes_bounded :: "vesa_sys \<Rightarrow> bool" where
  "modes_bounded s \<longleftrightarrow> mode_count (drv s) \<le> MAX_VESA_MODE_COUNT \<and> vesa_supported (drv s) = 0 \<and> current_mode (drv s) = NULL"

lemma add_mode_keeps:
  assumes "modes_bounded s" "mode_count (drv s) < MAX_VESA_MODE_COUNT"
  shows "modes_bounded (add_mode E num s)"
proof -
  obtain p t where k: "sys_kmalloc sizeof_vesa_mode s = (p, t)" by fastforce
  have d: "drv t = drv s" using kmalloc_keeps(4) [of sizeof_vesa_mode s] k by simp
  have "mode_count (drv s) + 1 \<le> MAX_VESA_MODE_COUNT" using assms(2) by (rule inc_le)
  then show ?thesis using assms(1) d by (simp add: add_mode_def k Let_def modes_bounded_def)
qed

lemma mode_pass_keeps:
  assumes "mode_pass E modes (i, regs, s) = Ok (go, i', regs', s')" "modes_bounded s"
  shows "modes_bounded s'"
proof (cases "mode_count (drv s) < MAX_VESA_MODE_COUNT")
  case False
  then show ?thesis using assms by (auto simp: mode_pass_def)
next
  case True
  obtain ids where ids: "deref (mode_lists (sys_vbe s)) modes = Ok ids" "unat i < length ids"
    using assms(1) True by (auto simp: mode_pass_def outcome_simps split: if_splits)
  show ?thesis
  proof (cases "ids ! unat i = 0xFFFF")
    case True
    then show ?thesis using assms ids \<open>mode_count (drv s) < MAX_VESA_MODE_COUNT\<close> by (auto simp: mode_pass_def)
  next
    case False
    then obtain e t where b: "bios_call E BIOS_INTERRUPT_VESA
        (regs\<lparr>reg_ax := BIOS_CALL_GET_VESA_MODE, reg_cx := ids ! unat i, reg_es := 0, reg_di := ucast (vbe_mode_info_addr E)\<rparr>) s = Ok (e, regs', t)"
      "s' = (if reg_ax regs' = 0x004F \<and> mode_usable (vbe_mode_info_base (sys_vbe t)) then add_mode E (ids ! unat i) t else t)"
      using assms(1) True ids by (auto simp: mode_pass_def Let_def outcome_simps)
    from bios_call_keeps [OF b(1)] have t: "drv t = drv s" by simp
    then have "modes_bounded t" using assms(2) by (simp add: modes_bounded_def)
    then show ?thesis using b(2) add_mode_keeps [of t E "ids ! unat i"] True t by simp
  qed
qed

theorem vesa_init_result:
  assumes "vesa_init E s = Ok (err, s')"
  shows "mode_count (drv s') \<le> MAX_VESA_MODE_COUNT \<and> current_mode (drv s') = NULL \<and>
     (err = OS_NO_ERR \<longleftrightarrow> vesa_supported (drv s') = 1) \<and> (err = OS_NO_ERR \<longrightarrow> 0 < mode_count (drv s')) \<and>
     (err \<noteq> OS_NO_ERR \<longrightarrow> vesa_supported (drv s') = 0)"
proof -
  from assms obtain s1 where s1: "debug_trace E (''VESA Initialization start'' @ newline) [] s = Ok s1"
    "on_ok (on_vm (kernel_mmap_hw (vbe_info_addr E) (vbe_info_addr E) 0x1000 0 0) (s1\<lparr>drv := reset_driver (drv s1)\<rparr>)) (\<lambda>s.
        on_ok (on_vm (kernel_mmap_hw (vbe_mode_info_addr E) (vbe_mode_info_addr E) 0x1000 0 0) s) (query_modes E)) = Ok (err, s')"
    by (auto simp: vesa_init_def outcome_simps Let_def)
  have b1: "modes_bounded (s1\<lparr>drv := reset_driver (drv s1)\<rparr>)" by (simp add: modes_bounded_def reset_driver_def)
  have keep: "modes_bounded t'" if "on_vm f t = Ok (e, t')" "modes_bounded t" for f t e t'
    using on_vm_keeps [OF that(1)] that(2) by (simp add: modes_bounded_def)
  have early: ?thesis if "modes_bounded s'" "err \<noteq> OS_NO_ERR" using that by (simp add: modes_bounded_def)
  have main: ?thesis if q: "query_modes E t = Ok (err, s')" and t: "modes_bounded t" for t
  proof -
    let ?t = "t\<lparr>sys_vbe := (sys_vbe t)\<lparr>vbe_info_base := (vbe_info_base (sys_vbe t))\<lparr>vbe_signature := ''VBE2''\<rparr>\<rparr>\<rparr>"
    from q obtain e r u where u: "bios_call E BIOS_INTERRUPT_VESA
        ((stale_regs E)\<lparr>reg_ax := BIOS_CALL_GET_VESA_INFO, reg_es := 0, reg_di := ucast (vbe_info_addr E)\<rparr>) ?t = Ok (e, r, u)"
      and q2: "(if reg_ax r \<noteq> 0x004F \<or> take 4 (vbe_signature (vbe_info_base (sys_vbe u))) \<noteq> ''VESA''
         then Ok (OS_ERR_VESA_NOT_SUPPORTED, u)
         else andthen (while_do (mode_pass E (vbe_video_modes (vbe_info_base (sys_vbe u)))) (0, r, u)) (\<lambda>(_, _, s).
              andthen (on_vm (kernel_munmap (vbe_info_addr E) 0x1000) s) (\<lambda>(_, s).
              andthen (on_vm (kernel_munmap (vbe_mode_info_addr E) 0x1000) s) (\<lambda>(_, s).
              if mode_count (drv s) > 0
              then andthen (debug_trace E (''VESA Initialization end'' @ newline) [] (s\<lparr>drv := (drv s)\<lparr>vesa_supported := 1\<rparr>\<rparr>)) (\<lambda>s.
                   Ok (OS_NO_ERR, s))
              else Ok (OS_ERR_VESA_NOT_SUPPORTED, s))))) = Ok (err, s')"
      by (auto simp: query_modes_def Let_def outcome_simps)
    have bu: "modes_bounded u" using bios_call_keeps [OF u] t by (simp add: modes_bounded_def)
    show ?thesis
    proof (cases "reg_ax r \<noteq> 0x004F \<or> take 4 (vbe_signature (vbe_info_base (sys_vbe u))) \<noteq> ''VESA''")
      case True
      then show ?thesis using q2 bu by (auto simp: modes_bounded_def)
    next
      case False
      then obtain i r2 v e3 v3 e4 v4 where
        l: "while_do (mode_pass E (vbe_video_modes (vbe_info_base (sys_vbe u)))) (0, r, u) = Ok (i, r2, v)"
        and v: "on_vm (kernel_munmap (vbe_info_addr E) 0x1000) v = Ok (e3, v3)" "on_vm (kernel_munmap (vbe_mode_info_addr E) 0x1000) v3 = Ok (e4, v4)"
        and r: "(if mode_count (drv v4) > 0
              then andthen (debug_trace E (''VESA Initialization end'' @ newline) [] (v4\<lparr>drv := (drv v4)\<lparr>vesa_supported := 1\<rparr>\<rparr>)) (\<lambda>s.
                   Ok (OS_NO_ERR, s))
              else Ok (OS_ERR_VESA_NOT_SUPPORTED, v4)) = Ok (err, s')"
        using q2 by (auto simp: outcome_simps)
      have "(\<lambda>(_, _, s). modes_bounded s) (i, r2, v)"
        by (rule while_do_keeps [OF l]) (use bu in \<open>auto elim: mode_pass_keeps\<close>)
      then have "modes_bounded v4" using keep [OF v(2) keep [OF v(1)]] by simp
      then show ?thesis using r debug_trace_keeps
        by (cases "mode_count (drv v4) > 0") (fastforce simp: outcome_simps modes_bounded_def)+
    qed
  qed
  from s1(2) obtain e t where t: "on_vm (kernel_mmap_hw (vbe_info_addr E) (vbe_info_addr E) 0x1000 0 0) (s1\<lparr>drv := reset_driver (drv s1)\<rparr>) = Ok (e, t)"
    by (auto simp: on_ok_def outcome_simps)
  have bt: "modes_bounded t" by (rule keep [OF t b1])
  show ?thesis
  proof (cases "e = OS_NO_ERR")
    case False
    then show ?thesis using s1(2) t bt early by simp
  next
    case True
    then obtain e2 t2 where t2: "on_vm (kernel_mmap_hw (vbe_mode_info_addr E) (vbe_mode_info_addr E) 0x1000 0 0) t = Ok (e2, t2)"
      using s1(2) t by (auto simp: on_ok_def outcome_simps)
    have "modes_bounded t2" by (rule keep [OF t2 bt])
    note b2 = this
    have r: "(if e2 \<noteq> OS_NO_ERR then Ok (e2, t2) else query_modes E t2) = Ok (err, s')" using s1(2) True
      unfolding on_ok_def t t2 andthen_Ok by (simp add: t2)
    show ?thesis
    proof (cases "e2 = OS_NO_ERR")
      case True
      with r have "query_modes E t2 = Ok (err, s')" by (simp only: if_False simp_thms)
      from main [OF this b2] show ?thesis .
    next
      case False
      with r have "err = e2" "s' = t2" by simp_all
      with early b2 False show ?thesis by blast
    qed
  qed
qed

end
