(* ===== verification/VgaMap.thy ===== *)
theory VgaMap
  imports Vga AddressSpace
begin

unbundle bit_operations_syntax

text \<open>
  The start of the VGA text driver (\<^verbatim>\<open>Sources/arch/x86/vga_text.c\<close>): where its frame buffer is, and the mapping of the buffer over the
  page tables of theory \<open>Paging\<close>. The list of cells of theory \<open>Vga\<close> stands for the memory at these addresses.
\<close>

definition VGA_TEXT_FRAMEBUFFER :: u32 where "VGA_TEXT_FRAMEBUFFER = 0xB8000"

text \<open>Both functions set \<^verbatim>\<open>vga_framebuffer\<close>, the second component of the result.\<close>

definition vga_init :: "OS_RETURN_E \<times> ptr" where
  "vga_init = (OS_NO_ERR, VGA_TEXT_FRAMEBUFFER)"

definition vga_map_memory :: "vm \<Rightarrow> (OS_RETURN_E \<times> ptr \<times> vm) outcome" where
  "vga_map_memory s =
     (let size = 2 * VGA_TEXT_SCREEN_COL_SIZE * VGA_TEXT_SCREEN_LINE_SIZE; vga_framebuffer = VGA_TEXT_FRAMEBUFFER
      in andthen (kernel_mmap_hw vga_framebuffer VGA_TEXT_FRAMEBUFFER size 0 0 s) (\<lambda>(err, s). Ok (err, vga_framebuffer, s)))"

text \<open>The address of a cell, which has two bytes.\<close>

definition cell_addr :: "ptr \<Rightarrow> u32 \<Rightarrow> u32 \<Rightarrow> ptr" where
  "cell_addr fb line column = fb + 2 * vga_get_framebuffer line column"

lemma cell_in_page: "unat (2 * vga_get_framebuffer line column) < 4000"
proof (cases "line > 24 \<or> column > 79")
  case True
  then show ?thesis by (auto simp: vga_get_framebuffer_def)
next
  case False
  then have "unat line \<le> 24" "unat column \<le> 79" by (simp_all add: word_le_nat_alt word_less_nat_alt not_less)
  then have "unat (2 * (column + line * 80)) = 2 * (unat column + unat line * 80)" by (simp add: unat_word_ariths)
  then show ?thesis using False \<open>unat line \<le> 24\<close> \<open>unat column \<le> 79\<close> by (simp add: vga_get_framebuffer_def)
qed

text \<open>After the mapping every cell of the screen is its own memory, writable, and nothing else below the recursive window has moved.\<close>

theorem vga_map_memory_maps:
  assumes "vm_ok s rs" "bit (pdir s 0) 0" "\<forall>w. in_pages VGA_TEXT_FRAMEBUFFER 1 w \<longrightarrow> translate w s = None"
  shows "\<exists>fb s' rs'. vga_map_memory s = Ok (OS_NO_ERR, fb, s') \<and> vm_ok s' rs' \<and> same_regs s s' \<and> fb = snd vga_init \<and>
     (\<forall>line column. translate (cell_addr fb line column) s' = Some (cell_addr fb line column, True)) \<and>
     (\<forall>w. unat w < 0xFFC00000 \<longrightarrow> \<not> in_pages fb 1 w \<longrightarrow> translate w s' = translate w s)"
proof -
  have fp: "first_page 0xB8000 = 0xB8000" "page_span 0xB8000 4000 = 1" "0xB8000 AND PAGE_ALIGN_MASK = (0xB8000 :: u32)"
    by (simp_all add: first_page_def page_span_def pages_def entry_mask mask_eq_decr_exp)
  have dir: "dir_index w = 0" if "in_pages 0xB8000 1 w" for w
  proof -
    have "unat w div 4194304 = 0" using that by (simp add: in_pages_def)
    then show ?thesis by (simp add: dir_index_def PG_DIR_OFFSET_def drop_bit_eq_div word_unat_eq_iff unat_div)
  qed
  note m = mmap_internal_maps [OF assms(1) first_page_def page_span_def, of "0xB8000" 4000 "0xB8000" 0 0 0 1]
  from m assms(3) obtain err s' rs' where
    r: "kernel_mmap_hw 0xB8000 0xB8000 4000 0 0 s = Ok (err, s')" "vm_ok s' rs'" "same_regs s s'"
    "err = OS_NO_ERR \<and>
      (\<forall>w. dir_index w < 1023 \<longrightarrow> translate w s' = (if in_pages 0xB8000 1 w then Some (0xB8000 + (w - 0xB8000), True) else translate w s)) \<or>
     err = OS_ERR_NO_MORE_FREE_MEM \<and> (\<exists>w. in_pages 0xB8000 1 w \<and> \<not> bit (pdir s (dir_index w)) 0)"
    unfolding fp VGA_TEXT_FRAMEBUFFER_def kernel_mmap_hw_def by auto
  have e: "err = OS_NO_ERR" "\<forall>w. unat w < 0xFFC00000 \<longrightarrow> translate w s' = (if in_pages 0xB8000 1 w then Some (0xB8000 + (w - 0xB8000), True) else translate w s)"
    using r(4) dir assms(2) unfolding below_window by auto
  have c: "in_pages 0xB8000 1 (cell_addr 0xB8000 line column) \<and> unat (cell_addr 0xB8000 line column) < 0xFFC00000" for line column
  proof -
    have "unat (cell_addr 0xB8000 line column) = 0xB8000 + unat (2 * vga_get_framebuffer line column)"
      using cell_in_page [of line column] unfolding cell_addr_def by (subst unat_add_lem [THEN iffD1]) simp_all
    then show ?thesis using cell_in_page [of line column] by (simp add: in_pages_def)
  qed
  have run: "vga_map_memory s = Ok (OS_NO_ERR, 0xB8000, s')" using r(1) e(1) by (simp add: vga_map_memory_def VGA_TEXT_FRAMEBUFFER_def)
  show ?thesis using run r(2,3) e(2) c by (intro exI conjI) (auto simp: vga_init_def VGA_TEXT_FRAMEBUFFER_def)
qed

end
