(* ===== verification/Cpu.thy ===== *)
theory Cpu
  imports Output Apic Pic
begin

unbundle bit_operations_syntax

text \<open>
  The processor itself (\<^verbatim>\<open>Sources/arch/cpu/i386/cpu.c\<close>): detection of its features, SSE, software interrupts and the number of
  the processor that runs the code. What the \<^verbatim>\<open>cpuid\<close> instruction answers is a parameter, a function of the requested
  leaf. The FPU and SSE registers are the 512 bytes that \<^verbatim>\<open>fxsave\<close> stores. The traces of \<^verbatim>\<open>TEST_MODE_ENABLED\<close> are compiled in,
  those of \<^verbatim>\<open>CPU_DEBUG\<close> are not.
\<close>

section \<open>State\<close>

record cpu_info_t =
  cpu_flags :: u32
  cpuid_data :: "u32 list"

record regs_t =
  eax :: u32
  ebx :: u32
  ecx :: u32
  edx :: u32

type_synonym cpuid_t = "u32 \<Rightarrow> regs_t"

record cpu_st =
  cpu_info :: cpu_info_t
  sse_enabled :: u8
  sse_save_region :: "ptr list"
  reg_cr0 :: u32
  reg_cr4 :: u32
  sse_regs :: "u8 list"
  bytes :: "ptr \<Rightarrow> u8"
  cpu_ints :: int_state
  cpu_out :: printer

definition CPU_FLAG_CPU_CPUID_CAPABLE :: u32 where "CPU_FLAG_CPU_CPUID_CAPABLE = 0x00200000"
definition CPUID_GETVENDORSTRING :: u32 where "CPUID_GETVENDORSTRING = 0"
definition CPUID_GETFEATURES :: u32 where "CPUID_GETFEATURES = 1"
definition CPUID_INTELEXTENDED_AVAILABLE :: u32 where "CPUID_INTELEXTENDED_AVAILABLE = 0x80000000"
definition CPUID_INTELFEATURES :: u32 where "CPUID_INTELFEATURES = 0x80000001"
definition EDX_SSE :: u32 where "EDX_SSE = push_bit 25 1"
definition DEVICE_NOT_FOUND_LINE :: u32 where "DEVICE_NOT_FOUND_LINE = 7"

lemmas cpu_consts = CPU_FLAG_CPU_CPUID_CAPABLE_def CPUID_GETVENDORSTRING_def CPUID_GETFEATURES_def CPUID_INTELEXTENDED_AVAILABLE_def
  CPUID_INTELFEATURES_def EDX_SSE_def DEVICE_NOT_FOUND_LINE_def

section \<open>Identification\<close>

definition cpu_get_info :: "cpu_info_t option \<Rightarrow> cpu_st \<Rightarrow> OS_RETURN_E \<times> cpu_info_t option" where
  "cpu_get_info info s = (case info of None \<Rightarrow> (OS_ERR_NULL_POINTER, None) | Some _ \<Rightarrow> (OS_NO_ERR, Some (cpu_info s)))"

definition cpu_is_sse_enabled :: "cpu_st \<Rightarrow> u8" where
  "cpu_is_sse_enabled s = sse_enabled s"

definition cpu_cpuid_capable :: "cpu_info_t \<Rightarrow> u32" where
  "cpu_cpuid_capable i = drop_bit 21 (cpu_flags i AND CPU_FLAG_CPU_CPUID_CAPABLE) AND 1"

definition cpu_get_cpuid_max :: "cpuid_t \<Rightarrow> cpu_info_t \<Rightarrow> u32 \<Rightarrow> u32" where
  "cpu_get_cpuid_max cpuid i ext = (if cpu_cpuid_capable i = 0 then 0 else eax (cpuid ext))"

definition cpu_cpuid :: "cpuid_t \<Rightarrow> cpu_info_t \<Rightarrow> u32 \<Rightarrow> regs_t \<Rightarrow> u32 \<times> regs_t" where
  "cpu_cpuid cpuid i code regs =
     (if cpu_cpuid_capable i = 0 then (0, regs)
      else let maxlevel = cpu_get_cpuid_max cpuid i (code AND 0x80000000)
           in if maxlevel = 0 \<or> maxlevel < code then (0, regs) else (1, cpuid code))"

text \<open>The tests of the two lists of features, in their order: the register, the bit and what is printed.\<close>

datatype feature_reg = ECX | EDX

definition base_features :: "(feature_reg \<times> nat \<times> string) list" where
  "base_features =
     [(ECX, 0, ''SSE3 - ''), (ECX, 1, ''PCLMULQDQ - ''), (ECX, 2, ''DTES64 - ''), (ECX, 3, ''MONITOR - ''), 
      (ECX, 4, ''DS_CPL - ''), (ECX, 5, ''VMX - ''), (ECX, 6, ''SMX - ''), (ECX, 7, ''EST - ''), (ECX, 8, ''TM2 - ''), 
      (ECX, 9, ''SSSE3 - ''), (ECX, 10, ''CNXT_ID - ''), (ECX, 12, ''FMA - ''), (ECX, 13, ''CX16 - ''), 
      (ECX, 14, ''XTPR - ''), (ECX, 15, ''PDCM - ''), (ECX, 17, ''PCID - ''), (ECX, 18, ''DCA - ''), (ECX, 19, ''SSE41 - ''), 
      (ECX, 20, ''SSE42 - ''), (ECX, 21, ''X2APIC - ''), (ECX, 22, ''MOVBE - ''), (ECX, 23, ''POPCNT - ''), 
      (ECX, 24, ''TSC - ''), (ECX, 25, ''AESNI - ''), (ECX, 26, ''XSAVE - ''), (ECX, 27, ''OSXSAVE - ''), 
      (ECX, 28, ''AVX - ''), (ECX, 29, ''F16C - ''), (ECX, 30, ''RDRAND - ''), (EDX, 0, ''FPU - ''), (EDX, 1, ''VME - ''), 
      (EDX, 2, ''DE - ''), (EDX, 3, ''PSE - ''), (EDX, 4, ''TSC - ''), (EDX, 5, ''MSR - ''), (EDX, 6, ''PAE - ''), 
      (EDX, 7, ''MCE - ''), (EDX, 8, ''CX8 - ''), (EDX, 9, ''APIC - ''), (EDX, 11, ''SEP - ''), (EDX, 12, ''MTRR - ''), 
      (EDX, 13, ''PGE - ''), (EDX, 14, ''MCA - ''), (EDX, 15, ''CMOV - ''), (EDX, 16, ''PAT - ''), (EDX, 17, ''PSE36 - ''), 
      (EDX, 18, ''PSN - ''), (EDX, 19, ''CLFLUSH - ''), (EDX, 21, ''DS - ''), (EDX, 22, ''ACPI - ''), (EDX, 23, ''MMX - ''), 
      (EDX, 24, ''FXSR - ''), (EDX, 25, ''SSE - ''), (EDX, 26, ''SSE2 - ''), (EDX, 27, ''SS - ''), (EDX, 28, ''HTT - ''), 
      (EDX, 29, ''TM - ''), (EDX, 31, ''PBE - '')]"

definition extended_features :: "(feature_reg \<times> nat \<times> string) list" where
  "extended_features =
     [(EDX, 11, ''SYSCALL - ''), (EDX, 19, ''MP - ''), (EDX, 20, ''XD - ''), (EDX, 22, ''MMX_EX - ''), 
      (EDX, 24, ''FXSR - ''), (EDX, 25, ''FXSR_OPT - ''), (EDX, 26, ''1GB_PAGE - ''), (EDX, 27, ''RDTSCP - ''), 
      (EDX, 29, ''X64 - ''), (EDX, 30, ''3DNOW_EX - ''), (EDX, 31, ''3DNOW - ''), (ECX, 0, ''LAHF_LM - ''), 
      (ECX, 1, ''CMP_LEG - ''), (ECX, 2, ''SVM - ''), (ECX, 3, ''EXTAPIC - ''), (ECX, 4, ''CR8_LEG - ''), 
      (ECX, 5, ''ABM - ''), (ECX, 6, ''SSE4A - ''), (ECX, 7, ''MISALIGNED_SSE - ''), (ECX, 8, ''PREFETCH - ''), 
      (ECX, 9, ''OSVW - ''), (ECX, 10, ''IBS - ''), (ECX, 11, ''XOP - ''), (ECX, 12, ''SKINIT - ''), (ECX, 13, ''WDT - ''), 
      (ECX, 15, ''LWP - ''), (ECX, 16, ''FMA4 - ''), (ECX, 17, ''TCE - ''), (ECX, 19, ''NODE_ID_MSR - ''), 
      (ECX, 21, ''TMB - ''), (ECX, 22, ''TOPOEX - ''), (ECX, 23, ''PERF_CORE - ''), (ECX, 24, ''PERF_NB - ''), 
      (ECX, 26, ''DBX - ''), (ECX, 27, ''TSC - ''), (ECX, 28, ''PCX_L2I - '')]"

definition has_feature :: "regs_t \<Rightarrow> feature_reg \<Rightarrow> nat \<Rightarrow> bool" where
  "has_feature regs r n = (let x = (case r of ECX \<Rightarrow> ecx regs | EDX \<Rightarrow> edx regs) in x AND push_bit n 1 = push_bit n 1)"

section \<open>Detection\<close>

definition on_out :: "(printer \<Rightarrow> printer outcome) \<Rightarrow> cpu_st \<Rightarrow> cpu_st outcome" where
  "on_out f s = andthen (f (cpu_out s)) (\<lambda>p. Ok (s\<lparr>cpu_out := p\<rparr>))"

definition say :: "string \<Rightarrow> printer \<Rightarrow> printer outcome" where
  "say t = kernel_printf (\<lambda>_. None) (Some t) []"

definition print_features :: "(feature_reg \<times> nat \<times> string) list \<Rightarrow> regs_t \<Rightarrow> printer \<Rightarrow> printer outcome" where
  "print_features fs regs p = for_each fs (\<lambda>(r, n, t) p. if has_feature regs r n then say t p else Ok p) p"

text \<open>A byte of a register, as the argument of \<^verbatim>\<open>%c\<close>: a signed character made an integer.\<close>

definition char_arg :: "u32 \<Rightarrow> nat \<Rightarrow> u32" where
  "char_arg r j = scast (ucast (signed_drop_bit (j * 8) r AND 0xFF) :: u8)"

definition print_chars :: "u32 \<Rightarrow> printer \<Rightarrow> printer outcome" where
  "print_chars r p = for_each [0 ..< 4] (\<lambda>j. kernel_printf (\<lambda>_. None) (Some ''%c'') [char_arg r j]) p"

definition print_vendor :: "colorscheme_t \<Rightarrow> regs_t \<Rightarrow> printer \<Rightarrow> printer outcome" where
  "print_vendor junk regs p =
     andthen (kernel_info junk (\<lambda>_. None) (Some ''CPU Vendor: '') [] p) (\<lambda>p.
     andthen (print_chars (ebx regs) p) (\<lambda>p.
     andthen (print_chars (edx regs) p) (print_chars (ecx regs))))"

definition print_all_features :: "colorscheme_t \<Rightarrow> cpuid_t \<Rightarrow> cpu_info_t \<Rightarrow> regs_t \<Rightarrow> printer \<Rightarrow> printer outcome" where
  "print_all_features junk cpuid i regs p =
     andthen (kernel_info junk (\<lambda>_. None) (Some ''CPU Features: '') [] p) (\<lambda>p.
     andthen (print_features base_features regs p) (\<lambda>p.
     let (_, regs) = cpu_cpuid cpuid i CPUID_INTELEXTENDED_AVAILABLE regs
     in andthen (if eax regs \<ge> CPUID_INTELFEATURES
                 then let (_, regs) = cpu_cpuid cpuid i CPUID_INTELFEATURES regs in print_features extended_features regs p
                 else Ok p) (say ''UTK'')))"

definition save_features :: "regs_t \<Rightarrow> cpu_st \<Rightarrow> cpu_st" where
  "save_features regs s = s\<lparr>cpu_info := (cpu_info s)\<lparr>cpuid_data := [ecx regs, edx regs]\<rparr>\<rparr>"

definition cpu_detect :: "colorscheme_t \<Rightarrow> regs_t \<Rightarrow> cpuid_t \<Rightarrow> u32 \<Rightarrow> cpu_st \<Rightarrow> (OS_RETURN_E \<times> cpu_st) outcome" where
  "cpu_detect junk stale cpuid print s =
     (if cpu_cpuid_capable (cpu_info s) = 1
      then let (ret, regs) = cpu_cpuid cpuid (cpu_info s) CPUID_GETVENDORSTRING stale
           in if ret = 0
              then andthen (if print \<noteq> 0 then on_out (kernel_info junk (\<lambda>_. None) (Some ''Failed to get CPUID data'') []) s else Ok s) (\<lambda>s.
                   Ok (OS_ERR_UNAUTHORIZED_ACTION, s))
              else andthen (if print \<noteq> 0 then on_out (print_vendor junk regs) s else Ok s) (\<lambda>s.
                   andthen (on_out (say newline) s) (\<lambda>s.
                   andthen (if ret \<ge> 1
                            then let (_, regs) = cpu_cpuid cpuid (cpu_info s) CPUID_GETFEATURES regs; s = save_features regs s
                                 in if print \<noteq> 0 then on_out (print_all_features junk cpuid (cpu_info s) regs) s else Ok s
                            else Ok s) (\<lambda>s.
                   andthen (if print \<noteq> 0 then on_out (say newline) s else Ok s) (\<lambda>s. Ok (OS_NO_ERR, s)))))
      else andthen (if print \<noteq> 0 then on_out (kernel_info junk (\<lambda>_. None) (Some (''CPUID not available'' @ newline)) []) s else Ok s) (\<lambda>s.
           Ok (OS_ERR_UNAUTHORIZED_ACTION, s)))"

section \<open>SSE\<close>

definition fxsave :: "ptr \<Rightarrow> cpu_st \<Rightarrow> cpu_st" where
  "fxsave a s = s\<lparr>bytes := \<lambda>x. if unat (x - a) < 512 then sse_regs s ! unat (x - a) else bytes s x\<rparr>"

text \<open>The storage of a thread is the first field of its structure.\<close>

definition fxregs_addr :: "ptr \<Rightarrow> ptr" where
  "fxregs_addr current_thread = (current_thread AND 0xFFFFFFF0) + 16"

definition test_trace :: "string \<Rightarrow> cpu_st \<Rightarrow> cpu_st outcome" where
  "test_trace t s =
     on_out (\<lambda>p. andthen (kernel_serial_debug (\<lambda>_. None) (Output.handlers p) (Some (t @ newline)) [] (con p)) (\<lambda>c. Ok (p\<lparr>con := c\<rparr>))) s"

definition sse_use_exception_handler :: "u32 \<Rightarrow> ptr \<Rightarrow> u32 \<Rightarrow> cpu_st \<Rightarrow> cpu_st outcome" where
  "sse_use_exception_handler cpu_id current_thread int_id s =
     (if int_id \<noteq> DEVICE_NOT_FOUND_LINE then Panic OR_ERR_UNAUTHORIZED_INTERRUPT_LINE
      else let s = s\<lparr>reg_cr0 := reg_cr0 s AND 0xFFFFFFF7\<rparr>
           in if \<not> unat cpu_id < length (sse_save_region s) then Fault
              else let r = sse_save_region s ! unat cpu_id
                   in andthen (if r \<noteq> NULL \<and> r \<noteq> current_thread
                               then test_trace ''[TESTMODE] SSE Context switch SAVE'' (fxsave (fxregs_addr current_thread) s)
                               else Ok s) (\<lambda>s.
                      if r \<noteq> current_thread
                      then let s = fxsave (fxregs_addr current_thread) s
                           in test_trace ''[TESTMODE] SSE Context switch RESTORE''
                                (s\<lparr>sse_save_region := (sse_save_region s)[unat cpu_id := current_thread]\<rparr>)
                      else Ok s))"

text \<open>The FPU and SSE registers after \<^verbatim>\<open>fninit\<close> are an argument.\<close>

definition cpu_enable_sse :: "u8 list \<Rightarrow> ptr \<Rightarrow> cpu_st \<Rightarrow> (OS_RETURN_E \<times> cpu_st) outcome" where
  "cpu_enable_sse fninit h s =
     (if \<not> 1 < length (cpuid_data (cpu_info s)) then Fault
      else if cpuid_data (cpu_info s) ! 1 AND EDX_SSE \<noteq> EDX_SSE then Ok (OS_ERR_UNAUTHORIZED_ACTION, s)
      else let s = s\<lparr>sse_regs := fninit, reg_cr0 := reg_cr0 s AND 0xFFFFFFFB OR 2, reg_cr4 := reg_cr4 s OR 0x600, sse_enabled := 1\<rparr>;
               (err, i) = kernel_exception_register_handler DEVICE_NOT_FOUND_LINE h (cpu_ints s)
           in Ok (err, s\<lparr>cpu_ints := i\<rparr>))"

section \<open>Software interrupts\<close>

text \<open>The switch has one case for each of the 256 interrupts, with the instruction \<^verbatim>\<open>int\<close> of the same number. What the chosen
  handler does is an argument.\<close>

definition current_eflags :: "int_state \<Rightarrow> u32" where
  "current_eflags s = (if eflags_if (int_world s) then CPU_EFLAGS_IF else 0)"

definition cpu_raise_interrupt ::
    "ptr \<Rightarrow> (dispatch \<Rightarrow> int_state \<Rightarrow> int_state outcome) \<Rightarrow> u32 \<Rightarrow> int_state \<Rightarrow> (OS_RETURN_E \<times> int_state) outcome" where
  "cpu_raise_interrupt panic run interrupt_line s =
     (if interrupt_line > MAX_INTERRUPT_LINE then Ok (OS_ERR_UNAUTHORIZED_ACTION, s)
      else andthen (kernel_interrupt_handler panic (current_eflags s) interrupt_line s) (\<lambda>(d, s).
           andthen (run d s) (kernel_interrupt_set_irq_eoi interrupt_line)))"

section \<open>The number of the processor\<close>

text \<open>The loop goes through all the entries of the table, also those that have not been filled.\<close>

primrec find_lapic :: "u32 \<Rightarrow> u32 \<Rightarrow> ptr list \<Rightarrow> vm \<Rightarrow> u32 outcome" where
  "find_lapic lapic_id i [] m = Ok 0"
| "find_lapic lapic_id i (p # ps) m =
     (if p = NULL then Fault
      else andthen (apic_id p m) (\<lambda>a. if ucast a = lapic_id then Ok i else find_lapic lapic_id (i + 1) ps m))"

definition cpu_get_id :: "apic \<Rightarrow> (u32 \<times> apic) outcome" where
  "cpu_get_id s =
     andthen (acpi_check_lapic_id 0 (acpi_st s)) (\<lambda>err.
     if err = OS_ACPI_NOT_INITIALIZED then Ok (0, s)
     else andthen (lapic_get_id s) (\<lambda>(lapic_id, s).
          andthen (find_lapic lapic_id 0 (acpi_get_cpu_lapics (acpi_st s)) (avm (acpi_st s))) (\<lambda>i. Ok (i, s))))"

section \<open>Texts on the screen\<close>

definition vga_text :: "string \<Rightarrow> printer \<Rightarrow> printer outcome" where
  "vga_text t p = on_con (put_all vga_put_char t) (p\<lparr>current_output := GRAPHIC\<rparr>)"

definition on_vga :: "printer \<Rightarrow> bool" where
  "on_vga p \<longleftrightarrow> graphic_driver p = vga_text_driver"

lemma vga_text_append: "andthen (vga_text a p) (vga_text b) = vga_text (a @ b) p"
  by (cases "put_all vga_put_char a (con p)") (simp_all add: vga_text_def on_con_def put_all_append)

lemma vga_text_keeps: "vga_text t p = Ok p' \<Longrightarrow> on_vga p' = on_vga p \<and> current_output p' = GRAPHIC"
  by (auto simp: vga_text_def on_con_def outcome_simps on_vga_def)

lemma tag_then_text_keeps: "tag_then_text fg tag t p = Ok p' \<Longrightarrow> on_vga p' = on_vga p \<and> current_output p' = GRAPHIC"
  by (auto simp: tag_then_text_def Let_def outcome_simps on_vga_def)

lemma say_vga: "on_vga p \<Longrightarrow> CHR ''%'' \<notin> set t \<Longrightarrow> say t p = vga_text t p"
  using vga_display.printf_pieces [of p "[Text t]" "\<lambda>_. None" "[]" t "[]"] by (simp add: on_vga_def say_def vga_text_def)

lemma info_vga:
  "on_vga p \<Longrightarrow> CHR ''%'' \<notin> set t \<Longrightarrow> kernel_info junk (\<lambda>_. None) (Some t) [] p = tag_then_text 3 ''[INFO] '' t p"
  using tagged_print_vga [of p "[Text t]" "\<lambda>_. None" "[]" t "[]" "''[INFO] ''" 3 junk] by (simp add: on_vga_def kernel_info_def)

lemma andthen_same: "(\<And>x. r = Ok x \<Longrightarrow> f x = g x) \<Longrightarrow> andthen r f = andthen r g"
  by (cases r) simp_all

text \<open>Nothing printed is nothing done, once the output is the screen.\<close>

lemma vga_text_Nil: "current_output p = GRAPHIC \<Longrightarrow> vga_text [] p = Ok p"
  by (simp add: vga_text_def on_con_def)

section \<open>What is printed of a processor\<close>

definition features_text :: "(feature_reg \<times> nat \<times> string) list \<Rightarrow> regs_t \<Rightarrow> string" where
  "features_text fs regs = concat (map (\<lambda>(_, _, t). t) (filter (\<lambda>(r, n, _). bit (case r of ECX \<Rightarrow> ecx regs | EDX \<Rightarrow> edx regs) n) fs))"

lemma has_feature_bit: "n < 32 \<Longrightarrow> has_feature regs r n \<longleftrightarrow> bit (case r of ECX \<Rightarrow> ecx regs | EDX \<Rightarrow> edx regs) n"
proof -
  assume n: "n < 32"
  have "x AND push_bit n 1 = push_bit n 1 \<longleftrightarrow> bit x n" for x :: u32
  proof
    assume "x AND push_bit n 1 = push_bit n 1"
    moreover have "bit (push_bit n 1 :: u32) n" using n by (simp add: bit_simps)
    ultimately have "bit (x AND push_bit n 1) n" by (simp only:)
    then show "bit x n" by (simp add: bit_and_iff)
  next
    assume "bit x n"
    then show "x AND push_bit n 1 = push_bit n 1" by (intro bit_eqI) (auto simp: bit_simps)
  qed
  then show ?thesis by (simp add: has_feature_def Let_def)
qed

lemma print_features_vga:
  assumes "on_vga p" "current_output p = GRAPHIC" "\<forall>(r, n, t) \<in> set fs. n < 32 \<and> CHR ''%'' \<notin> set t"
  shows "print_features fs regs p = vga_text (features_text fs regs) p"
  using assms
proof (induction fs arbitrary: p)
  case Nil
  then show ?case by (simp add: print_features_def features_text_def vga_text_Nil)
next
  case (Cons f fs)
  obtain r n t where f: "f = (r, n, t)" by (cases f) auto
  have n: "n < 32" "CHR ''%'' \<notin> set t" and fs: "\<forall>(r, n, t) \<in> set fs. n < 32 \<and> CHR ''%'' \<notin> set t" using Cons.prems(3) f by auto
  have st: "print_features (f # fs) regs p = andthen (if has_feature regs r n then say t p else Ok p) (print_features fs regs)"
    by (cases "if has_feature regs r n then say t p else Ok p") (simp_all add: print_features_def f)
  show ?case
  proof (cases "bit (case r of ECX \<Rightarrow> ecx regs | EDX \<Rightarrow> edx regs) n")
    case True
    have "andthen (vga_text t p) (print_features fs regs) = andthen (vga_text t p) (vga_text (features_text fs regs))"
      by (rule andthen_same, rule Cons.IH) (use vga_text_keeps Cons.prems(1) fs in auto)
    then show ?thesis using True st by (simp add: has_feature_bit n say_vga Cons.prems(1) vga_text_append features_text_def f)
  next
    case False
    then show ?thesis using st Cons.IH [OF Cons.prems(1,2) fs] by (simp add: has_feature_bit n features_text_def f)
  qed
qed

definition bytes_text :: "u32 \<Rightarrow> string" where
  "bytes_text r = map (\<lambda>j. char_of (unat (drop_bit (8 * j) r) mod 256)) [0 ..< 4]"

lemma char_arg_byte: "j < 4 \<Longrightarrow> unat (char_arg r j) mod 256 = unat (drop_bit (8 * j) r) mod 256"
proof -
  assume j: "j < 4"
  have m: "x AND 0xFF = take_bit 8 x" for x :: u32 by (simp add: take_bit_eq_mask mask_eq_exp_minus_1)
  have "take_bit 8 (char_arg r j) = take_bit 8 (drop_bit (8 * j) r)"
    using j unfolding char_arg_def m by (intro bit_eqI) (auto simp: bit_simps mult.commute)
  then have "unat (take_bit 8 (char_arg r j)) = unat (take_bit 8 (drop_bit (8 * j) r))" by simp
  then show ?thesis by (simp add: take_bit_eq_mod unat_mod)
qed

lemma print_chars_vga:
  assumes "on_vga p" "current_output p = GRAPHIC"
  shows "print_chars r p = vga_text (bytes_text r) p"
proof -
  have one: "kernel_printf (\<lambda>_. None) (Some ''%c'') [char_arg r j] q = vga_text [char_of (unat (drop_bit (8 * j) r) mod 256)] q"
    if "on_vga q" "j < 4" for q j
    using vga_display.printf_pieces [of q "[Character]" "\<lambda>_. None" "[char_arg r j]"] that char_arg_byte [of j r]
    by (simp add: on_vga_def vga_text_def)
  have "for_each js (\<lambda>j. kernel_printf (\<lambda>_. None) (Some ''%c'') [char_arg r j]) q =
      vga_text (map (\<lambda>j. char_of (unat (drop_bit (8 * j) r) mod 256)) js) q"
    if "set js \<subseteq> {..<4}" "on_vga q" "current_output q = GRAPHIC" for js q
    using that
  proof (induction js arbitrary: q)
    case Nil
    then show ?case by (simp add: vga_text_Nil)
  next
    case (Cons j js)
    have "for_each (j # js) (\<lambda>j. kernel_printf (\<lambda>_. None) (Some ''%c'') [char_arg r j]) q =
       andthen (vga_text [char_of (unat (drop_bit (8 * j) r) mod 256)] q) (vga_text (map (\<lambda>j. char_of (unat (drop_bit (8 * j) r) mod 256)) js))"
    proof -
      have j: "j < 4" "set js \<subseteq> {..<4}" using Cons.prems(1) by auto
      show ?thesis unfolding for_each.simps one [OF Cons.prems(2) j(1)]
        by (rule andthen_same, rule Cons.IH) (use j(2) Cons.prems vga_text_keeps in auto)
    qed
    then show ?case by (simp add: vga_text_append)
  qed
  moreover have "set [0 ..< 4 :: nat] \<subseteq> {..<4}" by auto
  ultimately show ?thesis using assms unfolding print_chars_def bytes_text_def by blast
qed

definition vendor_text :: "regs_t \<Rightarrow> string" where
  "vendor_text regs = bytes_text (ebx regs) @ bytes_text (edx regs) @ bytes_text (ecx regs)"

definition extended_text :: "cpuid_t \<Rightarrow> string" where
  "extended_text cpuid =
     (if eax (cpuid 0x80000000) \<ge> 0x80000001 then features_text extended_features (cpuid 0x80000001) else [])"

lemma feature_tables:
  "\<forall>(r, n, t) \<in> set base_features. n < 32 \<and> CHR ''%'' \<notin> set t" "\<forall>(r, n, t) \<in> set extended_features. n < 32 \<and> CHR ''%'' \<notin> set t"
  by code_simp+

lemma print_vendor_vga:
  assumes "on_vga p"
  shows "print_vendor junk regs p = andthen (tag_then_text 3 ''[INFO] '' ''CPU Vendor: '' p) (vga_text (vendor_text regs))"
proof -
  have c: "andthen (vga_text t q) (print_chars r) = vga_text (t @ bytes_text r) q" if "on_vga q" for t q r
  proof -
    have "andthen (vga_text t q) (print_chars r) = andthen (vga_text t q) (vga_text (bytes_text r))"
      by (rule andthen_same, rule print_chars_vga) (use vga_text_keeps that in auto)
    then show ?thesis by (simp add: vga_text_append)
  qed
  have "print_vendor junk regs p = andthen (tag_then_text 3 ''[INFO] '' ''CPU Vendor: '' p) (\<lambda>p.
     andthen (andthen (print_chars (ebx regs) p) (print_chars (edx regs))) (print_chars (ecx regs)))"
    using info_vga [OF assms, of "''CPU Vendor: ''" junk] by (simp add: print_vendor_def andthen_assoc)
  also have "\<dots> = andthen (tag_then_text 3 ''[INFO] '' ''CPU Vendor: '' p) (vga_text (vendor_text regs))"
  proof (rule andthen_same)
    fix q assume "tag_then_text 3 ''[INFO] '' ''CPU Vendor: '' p = Ok q"
    then have q: "on_vga q" "current_output q = GRAPHIC" using tag_then_text_keeps assms by auto
    show "andthen (andthen (print_chars (ebx regs) q) (print_chars (edx regs))) (print_chars (ecx regs)) = vga_text (vendor_text regs) q"
      by (simp add: print_chars_vga [OF q] c [OF q(1)] vendor_text_def)
  qed
  finally show ?thesis .
qed

lemma print_all_features_vga:
  assumes "on_vga p" "cpu_cpuid_capable i \<noteq> 0" "eax (cpuid 1) < 0x80000001" "regs = cpuid 1"
  shows "print_all_features junk cpuid i regs p =
     andthen (tag_then_text 3 ''[INFO] '' ''CPU Features: '' p) (vga_text (features_text base_features (cpuid 1) @ extended_text cpuid @ ''UTK''))"
proof -
  let ?r = "snd (cpu_cpuid cpuid i CPUID_INTELEXTENDED_AVAILABLE regs)"
  have ext: "(eax ?r \<ge> CPUID_INTELFEATURES) = (eax (cpuid 0x80000000) \<ge> 0x80000001)"
    using assms(2,3) by (auto simp: cpu_cpuid_def cpu_consts cpu_get_cpuid_max_def Let_def assms(4) word_le_nat_alt word_less_nat_alt)
  have reg: "snd (cpu_cpuid cpuid i CPUID_INTELFEATURES ?r) = cpuid 0x80000001" if "eax (cpuid 0x80000000) \<ge> 0x80000001"
    using assms(2) that by (auto simp: cpu_cpuid_def cpu_consts cpu_get_cpuid_max_def Let_def word_le_nat_alt word_less_nat_alt)
  have e: "andthen (if eax ?r \<ge> CPUID_INTELFEATURES then print_features extended_features (snd (cpu_cpuid cpuid i CPUID_INTELFEATURES ?r)) q else Ok q)
      (say ''UTK'') = vga_text (extended_text cpuid @ ''UTK'') q" if q: "on_vga q" "current_output q = GRAPHIC" for q
  proof (cases "eax (cpuid 0x80000000) \<ge> 0x80000001")
    case True
    have "andthen (vga_text (features_text extended_features (cpuid 0x80000001)) q) (say ''UTK'') =
        andthen (vga_text (features_text extended_features (cpuid 0x80000001)) q) (vga_text ''UTK'')"
      by (rule andthen_same, rule say_vga) (use vga_text_keeps q in auto)
    then show ?thesis using True by (simp add: ext reg print_features_vga [OF q feature_tables(2)] vga_text_append extended_text_def)
  next
    case False
    then show ?thesis using say_vga [OF q(1), of "''UTK''"] by (simp add: ext extended_text_def)
  qed
  have "print_all_features junk cpuid i regs p = andthen (tag_then_text 3 ''[INFO] '' ''CPU Features: '' p) (\<lambda>p.
     andthen (print_features base_features regs p) (\<lambda>p.
     andthen (if eax ?r \<ge> CPUID_INTELFEATURES then print_features extended_features (snd (cpu_cpuid cpuid i CPUID_INTELFEATURES ?r)) p else Ok p)
       (say ''UTK'')))"
    using info_vga [OF assms(1), of "''CPU Features: ''" junk] unfolding print_all_features_def Let_def split_beta by simp
  also have "\<dots> = andthen (tag_then_text 3 ''[INFO] '' ''CPU Features: '' p) (\<lambda>p.
     andthen (vga_text (features_text base_features (cpuid 1)) p) (vga_text (extended_text cpuid @ ''UTK'')))"
  proof (rule andthen_same)
    fix q assume "tag_then_text 3 ''[INFO] '' ''CPU Features: '' p = Ok q"
    then have q: "on_vga q" "current_output q = GRAPHIC" using tag_then_text_keeps assms(1) by auto
    show "andthen (print_features base_features regs q) (\<lambda>p.
     andthen (if eax ?r \<ge> CPUID_INTELFEATURES then print_features extended_features (snd (cpu_cpuid cpuid i CPUID_INTELFEATURES ?r)) p else Ok p)
       (say ''UTK'')) = andthen (vga_text (features_text base_features (cpuid 1)) q) (vga_text (extended_text cpuid @ ''UTK''))"
      unfolding print_features_vga [OF q feature_tables(1)] assms(4) by (rule andthen_same, rule e [unfolded assms(4)]) (use vga_text_keeps q in auto)
  qed
  finally show ?thesis by (simp add: vga_text_append)
qed

section \<open>Properties\<close>

lemma cpuid_base:
  assumes "cpu_cpuid_capable i \<noteq> 0" "eax (cpuid 0) \<noteq> 0"
  shows "cpu_cpuid cpuid i CPUID_GETVENDORSTRING r = (1, cpuid 0)" "cpu_cpuid cpuid i CPUID_GETFEATURES r = (1, cpuid 1)"
  using assms by (simp_all add: cpu_cpuid_def cpu_consts cpu_get_cpuid_max_def Let_def word_less_nat_alt unat_eq_zero)

lemma on_out_text: "on_out f s = andthen (f (cpu_out s)) (\<lambda>p. Ok (s\<lparr>cpu_out := p\<rparr>))"
  by (simp add: on_out_def)

text \<open>On a processor that answers \<^verbatim>\<open>cpuid\<close> (whose signature has its reserved top bits clear) the detection saves the two registers
  of features, and on the VGA screen it prints exactly the vendor string and the names of the features whose bits are set, those
  of the extended leaf when there is one.\<close>

theorem cpu_detect_prints:
  assumes "on_vga (cpu_out s)" "cpu_cpuid_capable (cpu_info s) = 1" "eax (cpuid 0) \<noteq> 0" "eax (cpuid 1) < 0x80000001" "print \<noteq> 0"
  shows "cpu_detect junk stale cpuid print s =
     andthen (tag_then_text 3 ''[INFO] '' ''CPU Vendor: '' (cpu_out s)) (\<lambda>p.
     andthen (vga_text (vendor_text (cpuid 0) @ newline) p) (\<lambda>p.
     andthen (tag_then_text 3 ''[INFO] '' ''CPU Features: '' p) (\<lambda>p.
     andthen (vga_text (features_text base_features (cpuid 1) @ extended_text cpuid @ ''UTK'' @ newline) p) (\<lambda>p.
     Ok (OS_NO_ERR, s\<lparr>cpu_info := (cpu_info s)\<lparr>cpuid_data := [ecx (cpuid 1), edx (cpuid 1)]\<rparr>, cpu_out := p\<rparr>)))))"
proof -
  let ?i = "cpu_info s" and ?s = "save_features (cpuid 1) s"
  have c: "cpu_cpuid_capable ?i \<noteq> 0" "cpu_cpuid_capable (cpu_info ?s) \<noteq> 0" using assms(2) by (simp_all add: save_features_def cpu_cpuid_capable_def)
  have nl: "CHR ''%'' \<notin> set newline" by (simp add: newline_def)
  let ?v = "andthen (andthen (tag_then_text 3 ''[INFO] '' ''CPU Vendor: '' (cpu_out s)) (vga_text (vendor_text (cpuid 0)))) (say newline)"
  let ?f = "\<lambda>p. andthen (andthen (tag_then_text 3 ''[INFO] '' ''CPU Features: '' p)
      (vga_text (features_text base_features (cpuid 1) @ extended_text cpuid @ ''UTK''))) (say newline)"
  have "cpu_detect junk stale cpuid print s = andthen ?v (\<lambda>p.
      andthen (andthen (print_all_features junk cpuid (cpu_info ?s) (cpuid 1) p) (say newline)) (\<lambda>p. Ok (OS_NO_ERR, ?s\<lparr>cpu_out := p\<rparr>)))"
    using assms(2,5) print_vendor_vga [OF assms(1), of junk "cpuid 0"]
    by (simp add: cpu_detect_def cpuid_base [where cpuid = cpuid, OF c(1) assms(3)] on_out_def andthen_assoc save_features_def)
  also have "\<dots> = andthen ?v (\<lambda>p. andthen (?f p) (\<lambda>p. Ok (OS_NO_ERR, ?s\<lparr>cpu_out := p\<rparr>)))"
  proof (rule andthen_same)
    fix p assume "?v = Ok p"
    then have "on_vga p" using assms(1) nl by (auto simp: outcome_simps say_vga dest!: tag_then_text_keeps vga_text_keeps)
    then show "andthen (andthen (print_all_features junk cpuid (cpu_info ?s) (cpuid 1) p) (say newline)) (\<lambda>p. Ok (OS_NO_ERR, ?s\<lparr>cpu_out := p\<rparr>)) =
      andthen (?f p) (\<lambda>p. Ok (OS_NO_ERR, ?s\<lparr>cpu_out := p\<rparr>))"
      using print_all_features_vga [where cpuid = cpuid and p = p and junk = junk, OF _ c(2) assms(4) refl] by simp
  qed
  finally have main: "cpu_detect junk stale cpuid print s = andthen ?v (\<lambda>p. andthen (?f p) (\<lambda>p. Ok (OS_NO_ERR, ?s\<lparr>cpu_out := p\<rparr>)))" .
  have nlv: "andthen (andthen (tag_then_text 3 ''[INFO] '' a p) (vga_text t)) (say newline) =
      andthen (tag_then_text 3 ''[INFO] '' a p) (vga_text (t @ newline))" if "on_vga p" for a t p
  proof -
    have "andthen (tag_then_text 3 ''[INFO] '' a p) (\<lambda>p. andthen (vga_text t p) (say newline)) =
        andthen (tag_then_text 3 ''[INFO] '' a p) (\<lambda>p. andthen (vga_text t p) (vga_text newline))"
      by (rule andthen_same, rule andthen_same, rule say_vga [OF _ nl]) (use vga_text_keeps tag_then_text_keeps that in blast)
    then show ?thesis by (simp add: andthen_assoc vga_text_append)
  qed
  let ?last = "\<lambda>p. Ok (OS_NO_ERR, s\<lparr>cpu_info := (cpu_info s)\<lparr>cpuid_data := [ecx (cpuid 1), edx (cpuid 1)]\<rparr>, cpu_out := p\<rparr>)"
  let ?all = "features_text base_features (cpuid 1) @ extended_text cpuid @ ''UTK''"
  have "cpu_detect junk stale cpuid print s =
      andthen (andthen (tag_then_text 3 ''[INFO] '' ''CPU Vendor: '' (cpu_out s)) (vga_text (vendor_text (cpuid 0) @ newline))) (\<lambda>p.
      andthen (?f p) ?last)"
    unfolding main nlv [OF assms(1)] by (simp add: save_features_def)
  also have "\<dots> = andthen (andthen (tag_then_text 3 ''[INFO] '' ''CPU Vendor: '' (cpu_out s)) (vga_text (vendor_text (cpuid 0) @ newline))) (\<lambda>p.
      andthen (andthen (tag_then_text 3 ''[INFO] '' ''CPU Features: '' p) (vga_text (?all @ newline))) ?last)"
  proof (rule andthen_same)
    fix p assume "andthen (tag_then_text 3 ''[INFO] '' ''CPU Vendor: '' (cpu_out s)) (vga_text (vendor_text (cpuid 0) @ newline)) = Ok p"
    then have "on_vga p" using assms(1) by (auto simp: outcome_simps dest!: tag_then_text_keeps vga_text_keeps)
    then show "andthen (?f p) ?last = andthen (andthen (tag_then_text 3 ''[INFO] '' ''CPU Features: '' p) (vga_text (?all @ newline))) ?last"
      by (simp only: nlv)
  qed
  finally show ?thesis by (simp add: andthen_assoc)
qed

text \<open>A processor with the vendor string of its maker and two features.\<close>

definition ex_cpuid :: cpuid_t where
  "ex_cpuid n =
     (if n = 0 then \<lparr>eax = 1, ebx = 0x756E6547, ecx = 0x6C65746E, edx = 0x49656E69\<rparr>
      else if n = 1 then \<lparr>eax = 0x6A0, ebx = 0, ecx = 1, edx = 0x2000000\<rparr>
      else \<lparr>eax = 0, ebx = 0, ecx = 0, edx = 0\<rparr>)"

definition ex_cpu :: cpu_st where
  "ex_cpu =
     \<lparr>cpu_info = \<lparr>cpu_flags = 0x00200000, cpuid_data = [0, 0]\<rparr>, sse_enabled = 0, sse_save_region = [0, 0, 0, 0],
      reg_cr0 = 8, reg_cr4 = 0, sse_regs = replicate 512 7, bytes = \<lambda>_. 0,
      cpu_ints = \<lparr>kernel_interrupt_handlers = \<lambda>_. \<lparr>enabled = 0, handler = NULL\<rparr>, interrupt_driver = pic_driver, spurious_interrupt = 0,
        int_world = ports (ready_console 1)\<rparr>,
      cpu_out = start_printer\<lparr>con := ready_console 1\<rparr>\<rparr>"

lemma ex_vendor: "vendor_text (ex_cpuid 0) = ''GenuineIntel''"
  by (simp add: vendor_text_def bytes_text_def ex_cpuid_def upt_rec char_of_def bit_Suc_0_iff)

lemma ex_features: "features_text base_features (ex_cpuid 1) = ''SSE3 - SSE - ''"
  by (simp add: features_text_def base_features_def ex_cpuid_def)

lemma ex_extended: "extended_text ex_cpuid = []"
  by (simp add: extended_text_def ex_cpuid_def)

theorem cpu_detect_prints_witness:
  "cpu_detect \<lparr>foreground = 1, background = 2, vga_color = 3\<rparr> (ex_cpuid 2) ex_cpuid 1 ex_cpu =
     andthen (tag_then_text 3 ''[INFO] '' ''CPU Vendor: '' (cpu_out ex_cpu)) (\<lambda>p.
     andthen (vga_text (''GenuineIntel'' @ newline) p) (\<lambda>p.
     andthen (tag_then_text 3 ''[INFO] '' ''CPU Features: '' p) (\<lambda>p.
     andthen (vga_text (''SSE3 - SSE - '' @ [] @ ''UTK'' @ newline) p) (\<lambda>p.
     Ok (OS_NO_ERR, ex_cpu\<lparr>cpu_info := (cpu_info ex_cpu)\<lparr>cpuid_data := [ecx (ex_cpuid 1), edx (ex_cpuid 1)]\<rparr>, cpu_out := p\<rparr>)))))"
proof -
  have "on_vga (cpu_out ex_cpu)" by (simp add: on_vga_def ex_cpu_def start_printer_def)
  moreover have "cpu_cpuid_capable (cpu_info ex_cpu) = 1" by (simp add: cpu_cpuid_capable_def ex_cpu_def cpu_consts)
  moreover have "eax (ex_cpuid 0) \<noteq> 0" "eax (ex_cpuid 1) < 0x80000001" by (simp_all add: ex_cpuid_def)
  ultimately show ?thesis using cpu_detect_prints [of ex_cpu ex_cpuid 1 "\<lparr>foreground = 1, background = 2, vga_color = 3\<rparr>" "ex_cpuid 2"]
    unfolding ex_vendor ex_features ex_extended by simp
qed

text \<open>With \<^verbatim>\<open>print\<close> 0 the line is still ended on the screen.\<close>

lemma cpu_detect_silent:
  assumes "on_vga (cpu_out s)" "cpu_cpuid_capable (cpu_info s) = 1" "eax (cpuid 0) \<noteq> 0"
  shows "cpu_detect junk stale cpuid 0 s = andthen (vga_text newline (cpu_out s)) (\<lambda>p.
     Ok (OS_NO_ERR, s\<lparr>cpu_info := (cpu_info s)\<lparr>cpuid_data := [ecx (cpuid 1), edx (cpuid 1)]\<rparr>, cpu_out := p\<rparr>))"
proof -
  have c: "cpu_cpuid_capable (cpu_info s) \<noteq> 0" using assms(2) by simp
  have "say newline (cpu_out s) = vga_text newline (cpu_out s)" using assms(1) by (intro say_vga) (simp_all add: newline_def)
  then have "cpu_detect junk stale cpuid 0 s = andthen (vga_text newline (cpu_out s)) (\<lambda>p. Ok (OS_NO_ERR, save_features (cpuid 1) (s\<lparr>cpu_out := p\<rparr>)))"
    using assms(2) by (simp add: cpu_detect_def cpuid_base [where cpuid = cpuid, OF c assms(3)] on_out_def andthen_assoc)
  also have "\<dots> = andthen (vga_text newline (cpu_out s)) (\<lambda>p.
     Ok (OS_NO_ERR, s\<lparr>cpu_info := (cpu_info s)\<lparr>cpuid_data := [ecx (cpuid 1), edx (cpuid 1)]\<rparr>, cpu_out := p\<rparr>))" by (rule andthen_same) (simp add: save_features_def)
  finally show ?thesis .
qed

text \<open>A processor that does not answer \<^verbatim>\<open>cpuid\<close> is refused, and nothing is saved.\<close>

lemma cpu_detect_refuses:
  assumes "cpu_cpuid_capable (cpu_info s) \<noteq> 1 \<or> eax (cpuid 0) = 0" "cpu_detect junk stale cpuid print s = Ok (err, s')"
  shows "err = OS_ERR_UNAUTHORIZED_ACTION \<and> cpu_info s' = cpu_info s"
proof -
  have "fst (cpu_cpuid cpuid (cpu_info s) CPUID_GETVENDORSTRING stale) = 0" if "eax (cpuid 0) = 0"
    using that by (simp add: cpu_cpuid_def cpu_consts cpu_get_cpuid_max_def)
  then show ?thesis using assms by (auto simp: cpu_detect_def on_out_def outcome_simps Let_def split: if_splits prod.splits)
qed

text \<open>The line over which the traces go.\<close>

definition line_works :: "nat \<Rightarrow> cpu_st \<Rightarrow> bool" where
  "line_works n s \<longleftrightarrow> drains n 0x3F8 (con (cpu_out s)) \<and> serial_init_done (con (cpu_out s)) \<noteq> 0"

lemma test_trace_returns:
  assumes "line_works n s" "CHR ''%'' \<notin> set t"
  shows "\<exists>c. test_trace t s = Ok (s\<lparr>cpu_out := (cpu_out s)\<lparr>con := c\<rparr>\<rparr>) \<and> line_works n (s\<lparr>cpu_out := (cpu_out s)\<lparr>con := c\<rparr>\<rparr>)"
proof -
  have d: "drains n 0x3F8 (con (cpu_out s))" "serial_init_done (con (cpu_out s)) \<noteq> 0" using assms(1) by (simp_all add: line_works_def)
  have k: "kernel_serial_debug (\<lambda>_. None) cur (Some (t @ newline)) [] = put_all serial_put_char (''[DEBUG] '' @ t @ newline)" for cur
    using serial_debug_pieces [of "[Text (t @ newline)]" "\<lambda>_. None" "[]" "t @ newline" "[]" cur] assms(2) by (simp add: newline_def)
  from serial_text_sends [OF d] obtain c where
    c: "put_all serial_put_char (''[DEBUG] '' @ t @ newline) (con (cpu_out s)) = Ok c"
      "wrote_ports (con (cpu_out s)) (map (Pair 0x3F8) (line_bytes (''[DEBUG] '' @ t @ newline))) c" by blast
  have "line_works n (s\<lparr>cpu_out := (cpu_out s)\<lparr>con := c\<rparr>\<rparr>)"
    using d drains_after [OF c(2)] wrote_ports_keeps(1) [OF c(2)] by (simp add: line_works_def)
  then show ?thesis using c(1) unfolding test_trace_def on_out_def k by auto
qed

text \<open>C39. When a thread that does not own the SSE registers uses them, the handler ends with the thread as owner and the
  trap switched off, but the registers are those of the previous owner: the handler stores them in the place of the new owner,
  over what was kept there, and loads nothing.\<close>

theorem sse_switch_keeps_registers:
  assumes "unat cpu_id < length (sse_save_region s)" "sse_save_region s ! unat cpu_id \<noteq> t" "line_works n s"
  shows "\<exists>s'. sse_use_exception_handler cpu_id t DEVICE_NOT_FOUND_LINE s = Ok s' \<and>
     sse_save_region s' = (sse_save_region s)[unat cpu_id := t] \<and> \<not> bit (reg_cr0 s') 3 \<and> sse_regs s' = sse_regs s \<and>
     (\<forall>i < 512. bytes s' (fxregs_addr t + of_nat i) = sse_regs s ! i) \<and>
     (\<forall>x. 512 \<le> unat (x - fxregs_addr t) \<longrightarrow> bytes s' x = bytes s x)"
proof -
  let ?a = "fxregs_addr t" and ?c = "s\<lparr>reg_cr0 := reg_cr0 s AND 0xFFFFFFF7\<rparr>" and ?r = "sse_save_region s ! unat cpu_id"
  have lw: "line_works n (fxsave ?a v) \<longleftrightarrow> line_works n v" for v by (simp add: line_works_def fxsave_def)
  have c: "line_works n ?c" using assms(3) by (simp add: line_works_def)
  have first: "\<exists>k. (if ?r \<noteq> NULL \<and> ?r \<noteq> t then test_trace ''[TESTMODE] SSE Context switch SAVE'' (fxsave ?a ?c) else Ok ?c) =
      Ok (if ?r \<noteq> NULL then (fxsave ?a ?c)\<lparr>cpu_out := (cpu_out s)\<lparr>con := k\<rparr>\<rparr> else ?c) \<and>
      line_works n (if ?r \<noteq> NULL then (fxsave ?a ?c)\<lparr>cpu_out := (cpu_out s)\<lparr>con := k\<rparr>\<rparr> else ?c)"
    using test_trace_returns [of n "fxsave ?a ?c" "''[TESTMODE] SSE Context switch SAVE''"] c lw assms(2) by (auto simp: fxsave_def)
  then obtain k where k: "(if ?r \<noteq> NULL \<and> ?r \<noteq> t then test_trace ''[TESTMODE] SSE Context switch SAVE'' (fxsave ?a ?c) else Ok ?c) =
      Ok (if ?r \<noteq> NULL then (fxsave ?a ?c)\<lparr>cpu_out := (cpu_out s)\<lparr>con := k\<rparr>\<rparr> else ?c)"
      "line_works n (if ?r \<noteq> NULL then (fxsave ?a ?c)\<lparr>cpu_out := (cpu_out s)\<lparr>con := k\<rparr>\<rparr> else ?c)" by blast
  let ?s1 = "if ?r \<noteq> NULL then (fxsave ?a ?c)\<lparr>cpu_out := (cpu_out s)\<lparr>con := k\<rparr>\<rparr> else ?c"
  let ?s2 = "(fxsave ?a ?s1)\<lparr>sse_save_region := (sse_save_region s)[unat cpu_id := t]\<rparr>"
  have "line_works n ?s2" using k(2) lw by (simp add: line_works_def)
  from test_trace_returns [OF this, of "''[TESTMODE] SSE Context switch RESTORE''"] obtain e where
    e: "test_trace ''[TESTMODE] SSE Context switch RESTORE'' ?s2 = Ok (?s2\<lparr>cpu_out := (cpu_out ?s2)\<lparr>con := e\<rparr>\<rparr>)" by auto
  let ?s' = "?s2\<lparr>cpu_out := (cpu_out ?s2)\<lparr>con := e\<rparr>\<rparr>"
  have r1: "sse_save_region (fxsave ?a ?s1) = sse_save_region s" "sse_regs ?s1 = sse_regs s"
    by (simp_all add: fxsave_def)
  have run: "sse_use_exception_handler cpu_id t DEVICE_NOT_FOUND_LINE s = Ok ?s'"
    using assms(1,2) k(1) e r1(1) by (simp add: sse_use_exception_handler_def Let_def)
  have "\<not> bit (reg_cr0 s AND 0xFFFFFFF7) 3" by (simp add: bit_and_iff)
  then have cr: "\<not> bit (reg_cr0 ?s') 3" by (simp add: fxsave_def)
  have img: "bytes ?s' (?a + of_nat i) = sse_regs s ! i" if "i < 512" for i
    using that by (simp add: fxsave_def unsigned_of_nat take_bit_nat_eq_self)
  have oth: "bytes ?s' x = bytes s x" if "512 \<le> unat (x - ?a)" for x using that by (simp add: fxsave_def)
  show ?thesis using run cr img oth r1 by (intro exI [of _ ?s']) (auto simp: fxsave_def)
qed

theorem sse_switch_keeps_registers_witness:
  "\<exists>s'. sse_use_exception_handler 2 0x5008 DEVICE_NOT_FOUND_LINE ex_cpu = Ok s' \<and>
     sse_save_region s' = (sse_save_region ex_cpu)[unat (2 :: u32) := 0x5008] \<and> \<not> bit (reg_cr0 s') 3 \<and> sse_regs s' = sse_regs ex_cpu \<and>
     (\<forall>i < 512. bytes s' (fxregs_addr 0x5008 + of_nat i) = sse_regs ex_cpu ! i) \<and>
     (\<forall>x. 512 \<le> unat (x - fxregs_addr 0x5008) \<longrightarrow> bytes s' x = bytes ex_cpu x)"
  by (rule sse_switch_keeps_registers) (simp_all add: ex_cpu_def line_works_def start_printer_def, rule ready_drains)

text \<open>With the PIC a software interrupt of any line above 15 is taken, and then reported as an error, because the interrupt line is
  given to the controller as if it were an interrupt request.\<close>

theorem cpu_raise_interrupt_reports_error:
  assumes "interrupt_driver s = pic_driver" "15 < interrupt_line" "interrupt_line \<le> MAX_INTERRUPT_LINE"
    and "kernel_interrupt_handler panic (current_eflags s) interrupt_line s = Ok (d, s1)" "run d s1 = Ok s2" "interrupt_driver s2 = pic_driver"
  shows "cpu_raise_interrupt panic run interrupt_line s = Ok (OS_ERR_NO_SUCH_IRQ_LINE, s2)"
  using assms by (simp add: cpu_raise_interrupt_def kernel_interrupt_set_irq_eoi_def pic_driver_def pic_set_irq_eoi_def PIC_MAX_IRQ_LINE_def)

text \<open>The table of local APICs: the first entry with the number of the processor gives its index.\<close>

lemma find_lapic_first:
  assumes "\<forall>i < j. \<exists>a. ps ! i \<noteq> NULL \<and> apic_id (ps ! i) m = Ok a \<and> ucast a \<noteq> lid" "j < length ps" "ps ! j \<noteq> NULL"
    "apic_id (ps ! j) m = Ok b" "ucast b = lid"
  shows "find_lapic lid k ps m = Ok (k + of_nat j)"
  using assms
proof (induction ps arbitrary: j k)
  case (Cons p ps)
  show ?case
  proof (cases j)
    case 0
    then show ?thesis using Cons.prems by simp
  next
    case (Suc i)
    obtain a where a: "p \<noteq> NULL" "apic_id p m = Ok a" "ucast a \<noteq> lid" using Cons.prems(1) Suc by fastforce
    have "find_lapic lid (k + 1) ps m = Ok (k + 1 + of_nat i)"
    proof (rule Cons.IH)
      show "\<forall>x < i. \<exists>a. ps ! x \<noteq> NULL \<and> apic_id (ps ! x) m = Ok a \<and> ucast a \<noteq> lid"
        using Cons.prems(1) Suc by (metis Suc_less_eq nth_Cons_Suc)
    qed (use Cons.prems(2-5) Suc in auto)
    then show ?thesis using a Suc by (simp add: algebra_simps)
  qed
qed simp

lemma find_lapic_missing:
  assumes "\<forall>i < j. \<exists>a. ps ! i \<noteq> NULL \<and> apic_id (ps ! i) m = Ok a \<and> ucast a \<noteq> lid" "j < length ps" "ps ! j = NULL"
  shows "find_lapic lid k ps m = Fault"
  using assms
proof (induction ps arbitrary: j k)
  case (Cons p ps)
  show ?case
  proof (cases j)
    case 0
    then show ?thesis using Cons.prems by simp
  next
    case (Suc i)
    obtain a where a: "p \<noteq> NULL" "apic_id p m = Ok a" "ucast a \<noteq> lid" using Cons.prems(1) Suc by fastforce
    have "find_lapic lid (k + 1) ps m = Fault"
    proof (rule Cons.IH)
      show "\<forall>x < i. \<exists>a. ps ! x \<noteq> NULL \<and> apic_id (ps ! x) m = Ok a \<and> ucast a \<noteq> lid"
        using Cons.prems(1) Suc by (metis Suc_less_eq nth_Cons_Suc)
    qed (use Cons.prems(2-3) Suc in auto)
    then show ?thesis using a by simp
  qed
qed simp

text \<open>\<^verbatim>\<open>cpu_get_id\<close> gives the index of the first local APIC with the number of the running one. When there is none, as when the
  APIC is not available and its number is \<^verbatim>\<open>-1\<close>, it runs into the first entry that has not been filled.\<close>

theorem cpu_get_id_index:
  assumes "acpi_check_lapic_id 0 (acpi_st s) = Ok err" "err \<noteq> OS_ACPI_NOT_INITIALIZED" "lapic_get_id s = Ok (lid, s')"
    and "\<forall>i < j. \<exists>a. cpu_lapic (acpi_st s') ! i \<noteq> NULL \<and> apic_id (cpu_lapic (acpi_st s') ! i) (avm (acpi_st s')) = Ok a \<and> ucast a \<noteq> lid"
    and "j < length (cpu_lapic (acpi_st s'))"
  shows "cpu_lapic (acpi_st s') ! j \<noteq> NULL \<Longrightarrow> apic_id (cpu_lapic (acpi_st s') ! j) (avm (acpi_st s')) = Ok b \<Longrightarrow> ucast b = lid \<Longrightarrow>
      cpu_get_id s = Ok (of_nat j, s')"
    and "cpu_lapic (acpi_st s') ! j = NULL \<Longrightarrow> cpu_get_id s = Fault"
proof -
  assume "cpu_lapic (acpi_st s') ! j \<noteq> NULL" "apic_id (cpu_lapic (acpi_st s') ! j) (avm (acpi_st s')) = Ok b" "ucast b = lid"
  from find_lapic_first [OF assms(4,5) this, of 0] show "cpu_get_id s = Ok (of_nat j, s')"
    using assms(1-3) by (simp add: cpu_get_id_def acpi_get_cpu_lapics_def)
next
  assume "cpu_lapic (acpi_st s') ! j = NULL"
  from find_lapic_missing [OF assms(4,5) this, of 0] show "cpu_get_id s = Fault"
    using assms(1-3) by (simp add: cpu_get_id_def acpi_get_cpu_lapics_def)
qed

end
