(* ===== verification/Panic.thy ===== *)
theory Panic
  imports Cpu VesaModes Election Rtc
begin

unbundle bit_operations_syntax

text \<open>
  The panic screen (\<^verbatim>\<open>Sources/arch/cpu/i386/panic.c\<close>). The function does not return: its value is the state in which the processor
  is halted for ever. The control registers, which it reads by assembly, are arguments. The state puts together the
  controllers with the page tables and the interrupt state (theory \<open>Apic\<close>), the displays (theory \<open>VesaModes\<close>, whose
  \<open>vs_con\<close> is the text console), the scheduler and the 16-bit writes to ports.
\<close>

section \<open>State\<close>

record cpu_state_t =
  st_esp :: u32
  st_ebp :: u32
  st_edi :: u32
  st_esi :: u32
  st_edx :: u32
  st_ecx :: u32
  st_ebx :: u32
  st_eax :: u32
  st_ss :: u32
  st_gs :: u32
  st_fs :: u32
  st_es :: u32
  st_ds :: u32

record stack_state_t =
  st_error_code :: u32
  st_eip :: u32
  st_cs :: u32
  st_eflags :: u32

definition cpu_set_next_thread_instruction :: "cpu_state_t \<Rightarrow> u32 \<Rightarrow> stack_state_t \<Rightarrow> stack_state_t" where
  "cpu_set_next_thread_instruction cpu_state next_inst stack_state = stack_state\<lparr>st_eip := next_inst\<rparr>"

record control_regs =
  CR0 :: u32
  CR2 :: u32
  CR3 :: u32
  CR4 :: u32

text \<open>Which driver is selected, told by its function \<^verbatim>\<open>clear_screen\<close>.\<close>

datatype selected = VGA_SELECTED | SERIAL_SELECTED | OTHER_SELECTED

record panic_st =
  pn_apic :: apic
  pn_vesa :: vesa_sys
  pn_selected :: selected
  pn_output :: handler
  pn_sched :: sched_state
  panic_code :: u32
  nmi_panic_code :: u32
  pn_outw :: "(u16 \<times> u16) list"

definition PANIC_NMI_CODE :: u32 where "PANIC_NMI_CODE = 0xFFFFFFFF"
definition BIOS_INTERRUPT_VGA :: u32 where "BIOS_INTERRUPT_VGA = 0x10"
definition BIOS_CALL_SET_VGA_TEXT_MODE :: u16 where "BIOS_CALL_SET_VGA_TEXT_MODE = 3"

text \<open>Printing on the selected display; a display that is neither text driver does not occur after the switch.\<close>

definition text_driver :: "selected \<Rightarrow> console kernel_graphic_driver_t" where
  "text_driver d = (if d = VGA_SELECTED then vga_text_driver else serial_text_driver)"

definition pn_con :: "panic_st \<Rightarrow> console" where
  "pn_con s = vs_con (drv (pn_vesa s))"

definition pn_printer :: "panic_st \<Rightarrow> printer" where
  "pn_printer s = \<lparr>graphic_driver = text_driver (pn_selected s), current_output = pn_output s, con = pn_con s\<rparr>"

definition set_pn_con :: "console \<Rightarrow> panic_st \<Rightarrow> panic_st" where
  "set_pn_con c s = s\<lparr>pn_vesa := (pn_vesa s)\<lparr>drv := (drv (pn_vesa s))\<lparr>vs_con := c\<rparr>\<rparr>\<rparr>"

definition on_printer :: "(printer \<Rightarrow> printer outcome) \<Rightarrow> panic_st \<Rightarrow> panic_st outcome" where
  "on_printer f s = andthen (f (pn_printer s)) (\<lambda>p. Ok (set_pn_con (con p) (s\<lparr>pn_output := current_output p\<rparr>)))"

definition panic_colour :: "u32 \<Rightarrow> panic_st \<Rightarrow> panic_st outcome" where
  "panic_colour fg s =
     andthen (graphic_set_color_scheme (text_driver (pn_selected s)) \<lparr>foreground = fg, background = 0, vga_color = 1\<rparr> (pn_con s)) (\<lambda>c.
     Ok (set_pn_con c s))"

section \<open>Stopping the other processors\<close>

definition on_apic :: "(apic \<Rightarrow> apic outcome) \<Rightarrow> panic_st \<Rightarrow> panic_st outcome" where
  "on_apic f s = andthen (f (pn_apic s)) (\<lambda>a. Ok (s\<lparr>pn_apic := a\<rparr>))"

definition clear_interrupt :: "apic \<Rightarrow> apic" where
  "clear_interrupt a =
     (let m = avm (acpi_st a); i = pg_ints m in set_vm (m\<lparr>pg_ints := i\<lparr>int_world := cpu_clear_interrupt (int_world i)\<rparr>\<rparr>) a)"

definition kill_one :: "u32 list \<Rightarrow> ptr list \<Rightarrow> u32 \<Rightarrow> nat \<Rightarrow> apic \<Rightarrow> apic outcome" where
  "kill_one ids lapics current i a =
     (if \<not> (i < length ids \<and> i < length lapics) then Fault
      else if ids ! i \<noteq> current
      then if lapics ! i = NULL then Fault
           else andthen (apic_id (lapics ! i) (avm (acpi_st a))) (\<lambda>n.
                andthen (lapic_send_ipi (ucast n) PANIC_INT_LINE a) (\<lambda>(_, a). Ok a))
      else Ok a)"

definition kill_others :: "u32 \<Rightarrow> apic \<Rightarrow> apic outcome" where
  "kill_others current a =
     (let n = acpi_get_detected_cpu_count (acpi_st a)
      in if n \<le> 4
         then for_each [0 ..< unat n] (kill_one (acpi_get_cpu_ids (acpi_st a)) (acpi_get_cpu_lapics (acpi_st a)) current) a
         else Ok a)"

text \<open>The return to the text mode, by the firmware, over the page tables of the controllers.\<close>

definition vga_switch :: "vesa_env \<Rightarrow> panic_st \<Rightarrow> panic_st outcome" where
  "vga_switch E s =
     (if pn_selected s \<noteq> OTHER_SELECTED then Ok s
      else andthen (bios_call E BIOS_INTERRUPT_VGA ((stale_regs E)\<lparr>reg_ax := BIOS_CALL_SET_VGA_TEXT_MODE\<rparr>)
                      ((pn_vesa s)\<lparr>sys_vm := avm (acpi_st (pn_apic s))\<rparr>)) (\<lambda>(_, _, v).
           Ok (s\<lparr>pn_vesa := v, pn_apic := set_vm (sys_vm v) (pn_apic s), pn_selected := VGA_SELECTED\<rparr>)))"

section \<open>The screen\<close>

definition reason :: "u32 \<Rightarrow> string" where
  "reason int_id =
     (case map_of
        [(0, ''Division by zero                        ''), (1, ''Single-step interrupt                   ''),
         (2, ''Non maskable interrupt                  ''), (3, ''Breakpoint                              ''),
         (4, ''Overflow                                ''), (5, ''Bounds                                  ''),
         (6, ''Invalid Opcode                          ''), (7, ''Coprocessor not available               ''),
         (8, ''Double fault                            ''), (9, ''Coprocessor Segment Overrun             ''),
         (10, ''Invalid Task State Segment              ''), (11, ''Segment not present                     ''),
         (12, ''Stack Fault                             ''), (13, ''General protection fault                ''),
         (14, ''Page fault                              ''), (16, ''Math Fault                              ''),
         (17, ''Alignment Check                         ''), (18, ''Machine Check                           ''),
         (19, ''SIMD Floating-Point Exception           ''), (20, ''Virtualization Exception                ''),
         (21, ''Control Protection Exception            ''), (PANIC_INT_LINE, ''Panic generated by the kernel           '')] int_id of
        Some t \<Rightarrow> t
      | None \<Rightarrow> ''Unknown reason                          '')"

text \<open>The flags, as the code takes them from the saved register.\<close>

definition flag :: "u32 \<Rightarrow> u32 \<Rightarrow> nat \<Rightarrow> u32" where
  "flag eflags m n = scast (ucast (drop_bit n (eflags AND m)) :: u8)"

definition first_row :: "u32 \<Rightarrow> u32 list" where
  "first_row f = [flag f 0x1 0, flag f 0x4 2, flag f 0x10 4, flag f 0x40 6, flag f 0x80 7, flag f 0x100 8, flag f 0x200 9, flag f 0x400 10]"

definition second_row :: "u32 \<Rightarrow> u32 list" where
  "second_row f = [flag f 0x800 11, flag f 0x4000 14, flag f 0x10000 16, flag f 0x20000 17, flag f 0x40000 18, flag f 0x8000 19,
     flag f 0x100000 20, flag f 0x200000 21]"

definition privilege :: "u32 \<Rightarrow> u32" where
  "privilege f = flag f 0x1000 12 OR push_bit 1 (flag f 0x2000 13)"

text \<open>The calls of \<^verbatim>\<open>kernel_printf\<close> in their order: first those before the registers are read.\<close>

definition head_calls :: "u32 \<Rightarrow> (string \<times> u32 list) list" where
  "head_calls int_id =
     [(newline @ ''##############################    KERNEL PANIC    ##########'' @ ''####################'' @ newline, []),
      (''  '', []),
      (reason int_id, [])]"

definition body_calls :: "u32 \<Rightarrow> u32 \<Rightarrow> cpu_state_t \<Rightarrow> stack_state_t \<Rightarrow> control_regs \<Rightarrow> (string \<times> u32 list) list" where
  "body_calls int_id error_code c st r =
     [(''        INT ID: 0x%02X                 '' @ newline, [int_id]),
      (''  Instruction [EIP]: 0x%p                   Error code: '' @ ''0x%p       '' @ newline, [st_eip st, error_code]),
      (''                                                            '' @ ''                   '' @ newline, []),
      (''---------------------------------- CPU STATE ---------------'' @ ''--------------------'' @ newline, []),
      (''  EAX: 0x%p  |  EBX: 0x%p  |  ECX: 0x%p  |  EDX: '' @ ''0x%p  '' @ newline, [st_eax c, st_ebx c, st_ecx c, st_edx c]),
      (''  ESI: 0x%p  |  EDI: 0x%p  |  EBP: 0x%p  |  ESP: '' @ ''0x%p  '' @ newline, [st_esi c, st_edi c, st_ebp c, st_esp c]),
      (''  CR0: 0x%p  |  CR2: 0x%p  |  CR3: 0x%p  |  CR4: '' @ ''0x%p  '' @ newline @ newline, [CR0 r, CR2 r, CR3 r, CR4 r]),
      (''  CS: 0x%04X  |  DS: 0x%04X  |  SS: 0x%04X                  '' @ ''                   '' @ newline,
        [st_cs st AND 0xFFFF, st_ds c AND 0xFFFF, st_ss c AND 0xFFFF]),
      (''  ES: 0x%04X  |  FS: 0x%04X  |  GS: 0x%04X                  '' @ ''                   '' @ newline,
        [st_es c AND 0xFFFF, st_fs c AND 0xFFFF, st_gs c AND 0xFFFF]),
      (''                                                            '' @ ''                   '' @ newline, []),
      (''  CF: %d  |  PF: %d  |  AF: %d  |  ZF: %d  |  SF: %d  | '' @ '' TF: %d  |  IF: %d  |  DF: %d '' @ newline, first_row (st_eflags st)),
      (''  OF: %d  |  NT: %d  |  RF: %d  |  VM: %d  | '' @ '' AC: %d  |  VF: %d  |  VP: %d  |  '' @ ''ID: %d'' @ newline, second_row (st_eflags st)),
      (''  IO: %d  |  EFLAGS: 0x%p'' @ newline @ newline, [privilege (st_eflags st), st_eflags st]),
      (''------------------------------- ADDITIONAL INFO ------------'' @ ''--------------------'' @ newline, [])]"

definition core_call :: "u32 \<Rightarrow> u32 \<Rightarrow> u32 \<Rightarrow> (string \<times> u32 list)" where
  "core_call cpu_id thread daytime =
     (''  Core ID: %u  |  Thread:  %u  |  Time of panic: '' @ ''%02u:%02u:%02u'' @ newline,
      [cpu_id, thread, daytime div 3600, daytime div 60 mod 60, daytime mod 60])"

definition print_call :: "string \<times> u32 list \<Rightarrow> panic_st \<Rightarrow> panic_st outcome" where
  "print_call = (\<lambda>(fmt, args). on_printer (kernel_printf (\<lambda>_. None) (Some fmt) args))"

definition panic_screen :: "u32 \<Rightarrow> u32 \<Rightarrow> cpu_state_t \<Rightarrow> stack_state_t \<Rightarrow> control_regs \<Rightarrow> u32 \<Rightarrow> panic_st \<Rightarrow> panic_st outcome" where
  "panic_screen cpu_id daytime c st r int_id s =
     (let error_code = (if int_id = PANIC_INT_LINE then panic_code s else st_error_code st)
      in andthen (for_each (head_calls int_id @ body_calls int_id error_code c st r) print_call s) (\<lambda>s.
         andthen (sched_get_tid (unat cpu_id) (pn_sched s)) (\<lambda>thread.
         andthen (print_call (core_call cpu_id thread daytime) s) (\<lambda>s.
         andthen (print_call (''  Error: '', []) s) (\<lambda>s.
         andthen (on_printer (\<lambda>p. andthen (perror (\<lambda>_. None) error_code p) (\<lambda>(_, p). Ok p)) s) (\<lambda>s.
         andthen (print_call (newline, []) s) (\<lambda>s.
         andthen (print_call (newline @ ''         THE KERNEL HAS BEEN PUT IN SLEEP MODE |'' @ '' PLEASE RESTART MANUALLY       '', []) s) (\<lambda>s.
         andthen (panic_colour 0 s) (print_call ('' '', []))))))))))"

text \<open>What remains when the test mode has asked for it: a message, and the port that ends the emulator.\<close>

definition panic_test_exit :: "panic_st \<Rightarrow> panic_st outcome" where
  "panic_test_exit s = andthen (print_call (newline @ ''[TESTMODE] PANIC'' @ newline, []) s) (\<lambda>s. Ok (s\<lparr>pn_outw := (0x604, 0x2000) # pn_outw s\<rparr>))"

definition panic :: "vesa_env \<Rightarrow> control_regs \<Rightarrow> cpu_state_t \<Rightarrow> u32 \<Rightarrow> stack_state_t \<Rightarrow> panic_st \<Rightarrow> panic_st outcome" where
  "panic E r c int_id st s =
     (let daytime = rtc_get_current_daytime (pg_ints (avm (acpi_st (pn_apic s))))
      in if nmi_panic_code s = PANIC_NMI_CODE then on_apic (\<lambda>a. Ok (clear_interrupt a)) s
         else andthen (cpu_get_id (pn_apic s)) (\<lambda>(cpu_id, a).
              andthen (on_apic (kill_others cpu_id) (s\<lparr>pn_apic := clear_interrupt a, nmi_panic_code := PANIC_NMI_CODE\<rparr>)) (\<lambda>s.
              andthen (vga_switch E s) (\<lambda>s.
              andthen (panic_colour 3 s) (\<lambda>s.
              if panic_code s = 666 then panic_test_exit s
              else andthen (panic_screen cpu_id daytime c st r int_id s) (on_apic (\<lambda>a. Ok (clear_interrupt a))))))))"

text \<open>The call of \<^verbatim>\<open>kernel_panic\<close>: the interrupt it raises runs the handler of the line, whatever the interrupt flag.\<close>

definition kernel_panic ::
    "(u32 \<Rightarrow> panic_st \<Rightarrow> panic_st outcome) \<Rightarrow> u32 \<Rightarrow> panic_st \<Rightarrow> panic_st outcome" where
  "kernel_panic interrupt error_code s = interrupt PANIC_INT_LINE (s\<lparr>panic_code := error_code\<rparr>)"

section \<open>The text of the screen\<close>













section \<open>Printing on the VGA screen\<close>


lemma set_pn_con_simps [simp]:
  "pn_con (set_pn_con k s) = k" "set_pn_con k (set_pn_con j s) = set_pn_con k s" "pn_selected (set_pn_con k s) = pn_selected s"
  "pn_con (s\<lparr>pn_output := o'\<rparr>) = pn_con s" "pn_sched (set_pn_con k s) = pn_sched s" "panic_code (set_pn_con k s) = panic_code s"
  "pn_output (set_pn_con k s) = pn_output s"
  "(set_pn_con k s)\<lparr>pn_output := o'\<rparr> = set_pn_con k (s\<lparr>pn_output := o'\<rparr>)" "pn_apic (set_pn_con k s) = pn_apic s"
  "(set_pn_con k s)\<lparr>pn_apic := a\<rparr> = set_pn_con k (s\<lparr>pn_apic := a\<rparr>)"
  by (simp_all add: pn_con_def set_pn_con_def)








section \<open>What the screen must say\<close>

















lemma vif_zero: "flag f 0x8000 19 = 0"
proof -
  have "drop_bit 19 (f AND 0x8000) = 0"
    by (intro bit_eqI) (auto simp: bit_simps bit_and_iff dest: bit_imp_le_length)
  then show ?thesis by (simp add: flag_def)
qed















section \<open>Properties\<close>











text \<open>A processor that is interrupted by the panic of another one only halts.\<close>

lemma panic_second: "nmi_panic_code s = PANIC_NMI_CODE \<Longrightarrow> panic E r c int_id st s = Ok (s\<lparr>pn_apic := clear_interrupt (pn_apic s)\<rparr>)"
  by (simp add: panic_def on_apic_def)

lemma panic_halts_masked: "\<not> eflags_if (int_world (pg_ints (avm (acpi_st (clear_interrupt a)))))"
  by (simp add: clear_interrupt_def Let_def set_vm_def cpu_clear_interrupt_def)

text \<open>The flag printed as VF is always 0: it is taken from bit 15 of the register, which is shifted by 19.\<close>

lemma panic_vif_zero: "second_row f ! 5 = 0"
  by (simp add: second_row_def vif_zero)

end
