(* ===== verification/Smp.thy ===== *)
theory Smp
  imports Cpu
begin

unbundle bit_operations_syntax

text \<open>
  The start of the other processors (\<^verbatim>\<open>Sources/arch/cpu/i386/cpu.c\<close>, \<^verbatim>\<open>cpu_smp_init\<close> and \<^verbatim>\<open>cpu_ap_core_init\<close>), as seen by one processor.
  What the others do to \<^verbatim>\<open>init_cpu_count\<close>, which is volatile, is a parameter: the value of a reading is a function of the commands
  sent so far and of the number of readings so far. The assembly that copies their start-up code to low memory
  changes nothing of the modelled state. An active wait is a sequence of ticks of the main timer, as in theory \<open>Time\<close>.
\<close>

section \<open>State\<close>

record smp =
  smp_apic :: apic
  smp_time :: time_state
  smp_out :: printer
  booted :: "mmio_event list \<Rightarrow> nat \<Rightarrow> u32"
  looks :: nat
  main_core_id :: u32
  smp_cpu_count :: u32
  init_seq_end :: u32

definition read_booted :: "smp \<Rightarrow> u32 \<times> smp" where
  "read_booted s = (booted s (mmio_log (smp_apic s)) (looks s), s\<lparr>looks := looks s + 1\<rparr>)"

definition cpu_get_booted_cpu_count :: "smp \<Rightarrow> u32 \<times> smp" where
  "cpu_get_booted_cpu_count s = read_booted s"

definition smp_info :: "colorscheme_t \<Rightarrow> string \<Rightarrow> u32 list \<Rightarrow> smp \<Rightarrow> smp outcome" where
  "smp_info junk fmt args s = andthen (kernel_info junk (\<lambda>_. None) (Some fmt) args (smp_out s)) (\<lambda>p. Ok (s\<lparr>smp_out := p\<rparr>))"

text \<open>An error is printed and stops the system.\<close>

definition die_on_error :: "colorscheme_t \<Rightarrow> string \<Rightarrow> u32 list \<Rightarrow> (OS_RETURN_E \<times> smp) outcome \<Rightarrow> smp outcome" where
  "die_on_error junk fmt args r =
     andthen r (\<lambda>(err, s).
     if err \<noteq> OS_NO_ERR
     then andthen (kernel_error junk (\<lambda>_. None) (Some fmt) (os_code err # args) (smp_out s)) (\<lambda>_. Panic err)
     else Ok s)"

section \<open>The main processor\<close>

definition tick_pass :: "nat \<Rightarrow> time_state \<Rightarrow> (bool \<times> time_state) outcome" where
  "tick_pass cpu_id t = (if active_wait t > 0 then andthen (time_main_timer_tick cpu_id t) (\<lambda>t. Ok (True, t)) else Ok (False, t))"

definition time_wait_no_sched :: "nat \<Rightarrow> u32 \<Rightarrow> time_state \<Rightarrow> time_state outcome" where
  "time_wait_no_sched cpu_id ms t =
     (if schedule_routine t \<noteq> NULL then Ok t else while_do (tick_pass cpu_id) (t\<lparr>active_wait := ms\<rparr>))"

definition wait_ms :: "u32 \<Rightarrow> smp \<Rightarrow> smp outcome" where
  "wait_ms ms s =
     (let s = s\<lparr>smp_apic := ap_exit 1 (smp_apic s)\<rparr>
      in andthen (time_wait_no_sched (unat (main_core_id s)) ms (smp_time s)) (\<lambda>t.
         Ok (s\<lparr>smp_time := t, smp_apic := ints_disable (smp_apic s)\<rparr>)))"

definition with_apic :: "(apic \<Rightarrow> (OS_RETURN_E \<times> apic) outcome) \<Rightarrow> smp \<Rightarrow> (OS_RETURN_E \<times> smp) outcome" where
  "with_apic f s = andthen (f (smp_apic s)) (\<lambda>(err, a). Ok (err, s\<lparr>smp_apic := a\<rparr>))"

definition lapic_of :: "nat \<Rightarrow> smp \<Rightarrow> u32 outcome" where
  "lapic_of i s =
     (let ps = acpi_get_cpu_lapics (acpi_st (smp_apic s))
      in if \<not> i < length ps \<or> ps ! i = NULL then Fault
         else andthen (apic_id (ps ! i) (avm (acpi_st (smp_apic s)))) (\<lambda>a. Ok (ucast a)))"

definition startup :: "colorscheme_t \<Rightarrow> ptr \<Rightarrow> nat \<Rightarrow> smp \<Rightarrow> smp outcome" where
  "startup junk init_ap_code i s =
     andthen (lapic_of i s) (\<lambda>dest.
     die_on_error junk (''Cannot send STARTUP IPI [%d]'' @ newline) [] (with_apic (lapic_send_ipi_startup dest (drop_bit 12 init_ap_code)) s))"

definition boot_wait :: "u32 \<Rightarrow> smp \<Rightarrow> (bool \<times> smp) outcome" where
  "boot_wait current s = (let (n, s) = read_booted s in Ok (n = current, s))"

definition start_one :: "colorscheme_t \<Rightarrow> ptr \<Rightarrow> nat \<Rightarrow> smp \<Rightarrow> smp outcome" where
  "start_one junk init_ap_code i s =
     (let (current_cpu_init, s) = read_booted s
      in if of_nat i = main_core_id s then Ok s
         else andthen (lapic_of i s) (\<lambda>dest.
              andthen (die_on_error junk (''Cannot send INIT IPI [%d]'' @ newline) [] (with_apic (lapic_send_ipi_init dest) s)) (\<lambda>s.
              andthen (wait_ms 20 s) (\<lambda>s.
              andthen (startup junk init_ap_code i s) (\<lambda>s.
              andthen (wait_ms 30 s) (\<lambda>s.
              let (n, s) = read_booted s
              in andthen (if current_cpu_init = n then startup junk init_ap_code i s else Ok s) (while_do (boot_wait current_cpu_init))))))))"

definition all_wait :: "u32 \<Rightarrow> smp \<Rightarrow> (bool \<times> smp) outcome" where
  "all_wait n s = (let (m, s) = read_booted s in Ok (m < n, s))"

definition cpu_smp_init :: "colorscheme_t \<Rightarrow> ptr \<Rightarrow> smp \<Rightarrow> (OS_RETURN_E \<times> smp) outcome" where
  "cpu_smp_init junk init_ap_code s =
     (let n = acpi_get_detected_cpu_count (acpi_st (smp_apic s)); s = s\<lparr>smp_cpu_count := n\<rparr>
      in if sint n \<le> 1 then Ok (OS_NO_ERR, s)
         else andthen (smp_info junk (''Init %d CPU cores'' @ newline) [n] (s\<lparr>init_seq_end := 0\<rparr>)) (\<lambda>s.
              andthen (cpu_get_id (smp_apic s)) (\<lambda>(me, a).
              andthen (smp_info junk (''Main core ID %d'' @ newline) [me] (s\<lparr>smp_apic := a, main_core_id := me\<rparr>)) (\<lambda>s.
              andthen (kernel_mmap_hw init_ap_code init_ap_code 0x1000 0 1 (avm (acpi_st (smp_apic s)))) (\<lambda>(err, m).
              let s = s\<lparr>smp_apic := set_vm m (smp_apic s)\<rparr>
              in if err \<noteq> OS_NO_ERR then Ok (err, s)
                 else andthen (for_each [0 ..< unat n] (start_one junk init_ap_code) s) (\<lambda>s.
                      andthen (while_do (all_wait n) (s\<lparr>init_seq_end := 1\<rparr>)) (\<lambda>s. Ok (OS_NO_ERR, s))))))))"

section \<open>Another processor\<close>

text \<open>\<^verbatim>\<open>cpu_ap_core_init\<close> up to the increment of \<^verbatim>\<open>init_cpu_count\<close>, whose new value is the result. Then the processor waits for \<^verbatim>\<open>init_seq_end\<close> and
  goes on with \<^verbatim>\<open>sched_init_ap\<close>, which is in theory \<open>Scheduler\<close>.\<close>

definition ap_boot :: "colorscheme_t \<Rightarrow> u32 \<Rightarrow> smp \<Rightarrow> (u32 \<times> smp) outcome" where
  "ap_boot junk init_cpu_count s =
     andthen (cpu_get_id (smp_apic s)) (\<lambda>(me, a).
     andthen (die_on_error junk (''Local APIC Initialization error %d [CPU %d]'' @ newline) [me] (with_apic lapic_init (s\<lparr>smp_apic := a\<rparr>))) (\<lambda>s.
     andthen (die_on_error junk (''Local APIC TIMER Initialization error %d [CPU %d]'' @ newline) [me] (with_apic lapic_ap_timer_init s)) (\<lambda>s.
     andthen (smp_info junk (''CPU %d booted, idling...'' @ newline) [me] s) (\<lambda>s. Ok (init_cpu_count + 1, s)))))"

section \<open>Waiting\<close>

lemma tick_wait:
  assumes "runs_at f t" "f \<le> 1000" "schedule_routine t = NULL"
  shows "\<exists>t'. while_do (tick_pass c) t = Ok t' \<and> runs_at f t' \<and> schedule_routine t' = NULL"
proof (rule while_do_total [where I = "\<lambda>t. runs_at f t \<and> schedule_routine t = NULL" and \<mu> = "\<lambda>t. unat (active_wait t)"])
  show "runs_at f t \<and> schedule_routine t = NULL" using assms by simp
next
  fix t assume t: "runs_at f t \<and> schedule_routine t = NULL"
  show "\<exists>go t'. tick_pass c t = Ok (go, t') \<and>
      (if go then (runs_at f t' \<and> schedule_routine t' = NULL) \<and> unat (active_wait t') < unat (active_wait t)
       else runs_at f t' \<and> schedule_routine t' = NULL)"
  proof (cases "active_wait t > 0")
    case True
    from after_ticks_step [of f t c 1] t obtain t' where
      t': "time_main_timer_tick c t = Ok t'" "runs_at f t'" "schedule_routine t' = NULL"
        "unat (active_wait t') = unat (active_wait t) - unat (1000 div f)"
      by (auto simp: outcome_simps)
    have "0 < unat f" "unat f \<le> 1000" using t assms(2) by (simp_all add: runs_at_def word_less_nat_alt word_le_nat_alt)
    then have "0 < unat (1000 div f)" by (simp add: unat_div div_greater_zero_iff)
    then show ?thesis using t' True by (auto simp: tick_pass_def word_less_nat_alt)
  next
    case False
    then show ?thesis using t by (intro exI [of _ False] exI [of _ t]) (simp add: tick_pass_def)
  qed
qed

text \<open>A machine with other interrupt states and other commands sent.\<close>

definition with_log :: "int_state \<Rightarrow> mmio_event list \<Rightarrow> apic \<Rightarrow> apic" where
  "with_log i l a = a\<lparr>acpi_st := (acpi_st a)\<lparr>avm := (avm (acpi_st a))\<lparr>pg_ints := i\<rparr>\<rparr>, mmio_log := l\<rparr>"

lemma with_log_same: "a = with_log (pg_ints (avm (acpi_st a))) (mmio_log a) a"
  by (simp add: with_log_def)

lemma with_log_ints: "ap_exit 1 (with_log i l a) = with_log (kernel_interrupt_restore 1 i) l a"
  "ints_disable (with_log i l a) = with_log (snd (kernel_interrupt_disable i)) l a"
  by (simp_all add: with_log_def ap_exit_def pg_exit_def set_vm_def ints_disable_def ap_enter_def pg_enter_def split: prod.splits)

definition machine :: "u32 \<Rightarrow> u32 \<Rightarrow> apic \<Rightarrow> bool" where
  "machine lo hi a \<longleftrightarrow> \<not> apic_missing a \<and> lo \<noteq> hi \<and>
     bus_addr (lapic_base_addr a + LAPIC_ICRHI) a = Some (hi, True) \<and> bus_addr (lapic_base_addr a + LAPIC_ICRLO) a = Some (lo, True) \<and>
     (\<forall>l. \<exists>n. clears_after n lo (a\<lparr>mmio_log := l\<rparr>))"

lemma send_with_log:
  assumes "machine lo hi a" "acpi_check_lapic_id dest (acpi_st a) = Ok OS_NO_ERR"
  shows "\<exists>n. send_command dest command (with_log i l a) =
     Ok (OS_NO_ERR, with_log i (replicate (Suc n) (MRead lo) @ MWrite lo command # MWrite hi (push_bit 24 dest) # l) a)"
proof -
  let ?l = "MWrite lo command # MWrite hi (push_bit 24 dest) # l"
  from assms(1) obtain n where n: "clears_after n lo (a\<lparr>mmio_log := ?l\<rparr>)" unfolding machine_def by blast
  have m: "\<not> apic_missing a" "bus_addr (lapic_base_addr a + LAPIC_ICRHI) a = Some (hi, True)"
    "bus_addr (lapic_base_addr a + LAPIC_ICRLO) a = Some (lo, True)" using assms(1) by (simp_all add: machine_def)
  have b: "bus_addr v (with_log i l a) = bus_addr v a" for v by (simp add: with_log_def)
  have "send_command dest command (with_log i l a) =
      Ok (OS_NO_ERR, (with_log i l a)\<lparr>mmio_log := replicate (Suc n) (MRead lo) @ MWrite lo command # MWrite hi (push_bit 24 dest) # mmio_log (with_log i l a)\<rparr>)"
  proof (rule send_command_delivers)
    show "\<not> apic_missing (with_log i l a)" using m(1)
      by (auto simp: with_log_def apic_missing_def acpi_get_io_apic_available_def acpi_get_lapic_available_def split: if_splits)
    show "acpi_check_lapic_id dest (acpi_st (with_log i l a)) = Ok OS_NO_ERR" using assms(2) by (simp add: with_log_def)
    show "bus_addr (lapic_base_addr (with_log i l a) + LAPIC_ICRHI) (with_log i l a) = Some (hi, True)"
      "bus_addr (lapic_base_addr (with_log i l a) + LAPIC_ICRLO) (with_log i l a) = Some (lo, True)"
      using m(2,3) unfolding b by (simp_all add: with_log_def)
    show "clears_after n lo ((with_log i l a)\<lparr>mmio_log := MWrite lo command # MWrite hi (push_bit 24 dest) # mmio_log (with_log i l a)\<rparr>)"
      using n by (simp add: clears_after_def with_log_def)
  qed
  then show ?thesis by (intro exI [of _ n]) (simp add: with_log_def)
qed

section \<open>The processors that have been started\<close>

text \<open>The destinations of the start-up commands in a sequence of accesses, the latest first.\<close>

fun started :: "u32 \<Rightarrow> u32 \<Rightarrow> mmio_event list \<Rightarrow> u32 set" where
  "started lo hi (MWrite a x # MWrite b d # l) =
     (if a = lo \<and> b = hi \<and> x AND 0x700 = ICR_STARTUP then insert (drop_bit 24 d) (started lo hi l) else started lo hi (MWrite b d # l))"
| "started lo hi (_ # l) = started lo hi l"
| "started lo hi [] = {}"

lemma started_reads: "started lo hi (replicate n (MRead a) @ l) = started lo hi l"
  by (induction n) simp_all

lemma started_hi: "lo \<noteq> hi \<Longrightarrow> started lo hi (MWrite hi x # l) = started lo hi l"
  by (cases l rule: list.exhaust; cases "hd l") auto

lemma started_command:
  assumes "lo \<noteq> hi"
  shows "started lo hi (replicate n (MRead lo) @ MWrite lo x # MWrite hi d # l) =
     (if x AND 0x700 = ICR_STARTUP then insert (drop_bit 24 d) (started lo hi l) else started lo hi l)"
  using started_hi [OF assms] by (simp add: started_reads)

text \<open>What the other processors do: every started one counts itself once, at some time, and the main one is counted already.\<close>

definition aps_boot :: "u32 \<Rightarrow> u32 \<Rightarrow> (mmio_event list \<Rightarrow> nat \<Rightarrow> u32) \<Rightarrow> bool" where
  "aps_boot lo hi bt \<longleftrightarrow>
     (\<forall>l e n n'. n \<le> n' \<longrightarrow> bt l n \<le> bt (e @ l) n') \<and>
     (\<forall>l n. 1 \<le> unat (bt l n) \<and> unat (bt l n) \<le> 1 + card (started lo hi l)) \<and>
     (\<forall>l n. \<exists>n' \<ge> n. unat (bt l n') = 1 + card (started lo hi l))"

lemma aps_boot_full:
  assumes "aps_boot lo hi bt" "unat (bt l n) = 1 + card (started lo hi l)" "n \<le> n'" "started lo hi (e @ l) = started lo hi l"
  shows "unat (bt (e @ l) n') = 1 + card (started lo hi l)"
proof -
  have "bt l n \<le> bt (e @ l) n'" using assms(1,3) by (auto simp: aps_boot_def)
  moreover have "unat (bt (e @ l) n') \<le> 1 + card (started lo hi (e @ l))" using assms(1) by (simp add: aps_boot_def)
  ultimately show ?thesis using assms(2,4) by (simp add: word_le_nat_alt)
qed

lemma boot_wait_ends:
  assumes "looks s \<le> n" "booted s (mmio_log (smp_apic s)) n \<noteq> cur"
  shows "\<exists>m. looks s \<le> m \<and> booted s (mmio_log (smp_apic s)) m \<noteq> cur \<and> while_do (boot_wait cur) s = Ok (s\<lparr>looks := m + 1\<rparr>)"
  using assms
proof (induction "n - looks s" arbitrary: s)
  case 0
  then have "looks s = n" by simp
  then have "while_do (boot_wait cur) s = Ok (s\<lparr>looks := n + 1\<rparr>)"
    using 0(3) by (subst while_do_unfold) (simp add: boot_wait_def read_booted_def)
  then show ?case using 0 \<open>looks s = n\<close> by auto
next
  case (Suc k)
  show ?case
  proof (cases "booted s (mmio_log (smp_apic s)) (looks s) = cur")
    case False
    then have "while_do (boot_wait cur) s = Ok (s\<lparr>looks := looks s + 1\<rparr>)" by (subst while_do_unfold) (simp add: boot_wait_def read_booted_def)
    then show ?thesis using False by auto
  next
    case True
    let ?s = "s\<lparr>looks := looks s + 1\<rparr>"
    have "while_do (boot_wait cur) s = while_do (boot_wait cur) ?s" using True by (subst while_do_unfold) (simp add: boot_wait_def read_booted_def)
    moreover have "\<exists>m. looks ?s \<le> m \<and> booted ?s (mmio_log (smp_apic ?s)) m \<noteq> cur \<and> while_do (boot_wait cur) ?s = Ok (?s\<lparr>looks := m + 1\<rparr>)"
      using Suc.hyps(2) Suc.prems by (intro Suc.hyps(1)) auto
    then obtain m where m: "looks ?s \<le> m" "booted ?s (mmio_log (smp_apic ?s)) m \<noteq> cur" "while_do (boot_wait cur) ?s = Ok (?s\<lparr>looks := m + 1\<rparr>)"
      by (elim exE conjE)
    ultimately show ?thesis by (intro exI [of _ m]) simp
  qed
qed

section \<open>The start of one processor\<close>

text \<open>The state between two processors: those in \<open>S\<close> have been started and counted.\<close>

definition smp_inv :: "u32 \<Rightarrow> u32 \<Rightarrow> apic \<Rightarrow> u32 \<Rightarrow> nat \<Rightarrow> u32 set \<Rightarrow> smp \<Rightarrow> bool" where
  "smp_inv lo hi a f mc S s \<longleftrightarrow>
     (\<exists>i l. smp_apic s = with_log i l a \<and> started lo hi l = S \<and> unat (booted s l (looks s)) = 1 + card S) \<and>
     aps_boot lo hi (booted s) \<and> runs_at f (smp_time s) \<and> schedule_routine (smp_time s) = NULL \<and> main_core_id s = of_nat mc"

text \<open>The machine knows the processor \<open>i\<close>, whose local APIC has the number \<open>d\<close>.\<close>

definition knows :: "apic \<Rightarrow> nat \<Rightarrow> u8 \<Rightarrow> bool" where
  "knows a i d \<longleftrightarrow> i < length (cpu_lapic (acpi_st a)) \<and> cpu_lapic (acpi_st a) ! i \<noteq> NULL \<and>
     apic_id (cpu_lapic (acpi_st a) ! i) (avm (acpi_st a)) = Ok d \<and> acpi_check_lapic_id (ucast d) (acpi_st a) = Ok OS_NO_ERR"

lemma lapic_of_known: "knows a i d \<Longrightarrow> smp_apic s = with_log j l a \<Longrightarrow> lapic_of i s = Ok (ucast d)"
  by (simp add: lapic_of_def knows_def with_log_def acpi_get_cpu_lapics_def apic_id_def)

lemma wait_ms_with_log:
  assumes "smp_apic s = with_log i l a" "runs_at f (smp_time s)" "f \<le> 1000" "schedule_routine (smp_time s) = NULL"
  shows "\<exists>i' t. wait_ms ms s = Ok (s\<lparr>smp_time := t, smp_apic := with_log i' l a\<rparr>) \<and> runs_at f t \<and> schedule_routine t = NULL"
proof -
  have "runs_at f ((smp_time s)\<lparr>active_wait := ms\<rparr>)" using assms(2) by (simp add: runs_at_def)
  from tick_wait [OF this assms(3)] assms(4) obtain t where
    t: "while_do (tick_pass (unat (main_core_id s))) ((smp_time s)\<lparr>active_wait := ms\<rparr>) = Ok t" "runs_at f t" "schedule_routine t = NULL" by auto
  show ?thesis using t assms(1,4) by (intro exI conjI) (simp_all add: wait_ms_def time_wait_no_sched_def with_log_ints)
qed

lemma destination: "drop_bit 24 (push_bit 24 (ucast (d :: u8) :: u32)) = ucast d"
  by (intro bit_eqI) (auto simp: bit_simps dest: bit_imp_le_length)

lemma startup_with_log:
  assumes "machine lo hi a" "knows a i d" "smp_apic s = with_log j l a"
  shows "\<exists>e. startup junk code i s = Ok (s\<lparr>smp_apic := with_log j (e @ l) a\<rparr>) \<and> started lo hi (e @ l) = insert (ucast d) (started lo hi l)"
proof -
  let ?cmd = "(drop_bit 12 code AND 0xFF) OR ICR_STARTUP OR ICR_PHYSICAL OR ICR_ASSERT OR ICR_EDGE OR ICR_NO_SHORTHAND"
  from send_with_log [OF assms(1), of "ucast d" ?cmd j l] assms(2) obtain n where
    n: "send_command (ucast d) ?cmd (with_log j l a) =
       Ok (OS_NO_ERR, with_log j (replicate (Suc n) (MRead lo) @ MWrite lo ?cmd # MWrite hi (push_bit 24 (ucast d)) # l) a)" by (auto simp: knows_def)
  have c: "?cmd AND 0x700 = ICR_STARTUP"
  proof -
    have "(0xFF :: u32) AND 0x700 = 0" by simp
    then have "(drop_bit 12 code AND 0xFF) AND 0x700 = 0" by (metis and.assoc and_zero_eq)
    then show ?thesis by (simp add: lapic_consts bit.conj_disj_distrib2)
  qed
  have "started lo hi (replicate (Suc n) (MRead lo) @ MWrite lo ?cmd # MWrite hi (push_bit 24 (ucast d)) # l) =
      insert (ucast d) (started lo hi l)"
    using assms(1) c by (subst started_command) (auto simp: machine_def destination)
  moreover have "startup junk code i s = Ok (s\<lparr>smp_apic := with_log j ((replicate (Suc n) (MRead lo) @ [MWrite lo ?cmd, MWrite hi (push_bit 24 (ucast d))]) @ l) a\<rparr>)"
    using n lapic_of_known [OF assms(2,3)] assms(3)
    by (simp add: startup_def die_on_error_def with_apic_def lapic_send_ipi_startup_def)
  ultimately show ?thesis by (intro exI [of _ "replicate (Suc n) (MRead lo) @ [MWrite lo ?cmd, MWrite hi (push_bit 24 (ucast d))]"]) simp
qed

lemma init_with_log:
  assumes "machine lo hi a" "knows a i d" "smp_apic s = with_log j l a"
  shows "\<exists>e. die_on_error junk fmt args (with_apic (lapic_send_ipi_init (ucast d)) s) = Ok (s\<lparr>smp_apic := with_log j (e @ l) a\<rparr>) \<and>
     started lo hi (e @ l) = started lo hi l"
proof -
  let ?cmd = "ICR_INIT OR ICR_PHYSICAL OR ICR_ASSERT OR ICR_EDGE OR ICR_NO_SHORTHAND"
  from send_with_log [OF assms(1), of "ucast d" ?cmd j l] assms(2) obtain n where
    n: "send_command (ucast d) ?cmd (with_log j l a) =
       Ok (OS_NO_ERR, with_log j (replicate (Suc n) (MRead lo) @ MWrite lo ?cmd # MWrite hi (push_bit 24 (ucast d)) # l) a)" by (auto simp: knows_def)
  have "started lo hi (replicate (Suc n) (MRead lo) @ MWrite lo ?cmd # MWrite hi (push_bit 24 (ucast d)) # l) = started lo hi l"
    using assms(1) by (subst started_command) (auto simp: machine_def lapic_consts)
  then show ?thesis using n assms(3)
    by (intro exI [of _ "replicate (Suc n) (MRead lo) @ [MWrite lo ?cmd, MWrite hi (push_bit 24 (ucast d))]"])
       (simp add: die_on_error_def with_apic_def lapic_send_ipi_init_def)
qed

lemma start_one_boots:
  assumes "smp_inv lo hi a f mc S s" "machine lo hi a" "knows a i d" "f \<le> 1000" "of_nat i \<noteq> (of_nat mc :: u32)"
    and "ucast d \<notin> S" "finite S"
  shows "\<exists>s'. start_one junk code i s = Ok s' \<and> smp_inv lo hi a f mc (insert (ucast d) S) s'"
proof -
  let ?k = "ucast d :: u32" and ?b = "booted s" and ?n = "looks s"
  from assms(1) obtain j l where j: "smp_apic s = with_log j l a" "started lo hi l = S" "unat (?b l ?n) = 1 + card S"
    and inv: "aps_boot lo hi ?b" "runs_at f (smp_time s)" "schedule_routine (smp_time s) = NULL" "main_core_id s = of_nat mc"
    unfolding smp_inv_def by blast
  have log: "mmio_log (with_log x y a) = y" for x y by (simp add: with_log_def)
  let ?cur = "?b l ?n" and ?s0 = "s\<lparr>looks := ?n + 1\<rparr>"
  from init_with_log [OF assms(2,3), of ?s0 j l junk "''Cannot send INIT IPI [%d]'' @ newline" "[]"] j(1) obtain e1 where
    1: "die_on_error junk (''Cannot send INIT IPI [%d]'' @ newline) [] (with_apic (lapic_send_ipi_init (ucast d)) ?s0) = Ok (?s0\<lparr>smp_apic := with_log j (e1 @ l) a\<rparr>)"
      "started lo hi (e1 @ l) = S" using j(2) by auto
  let ?s1 = "?s0\<lparr>smp_apic := with_log j (e1 @ l) a\<rparr>"
  from wait_ms_with_log [of ?s1 j "e1 @ l" a f 20] inv assms(4) obtain j2 t2 where
    2: "wait_ms 20 ?s1 = Ok (?s1\<lparr>smp_time := t2, smp_apic := with_log j2 (e1 @ l) a\<rparr>)" "runs_at f t2" "schedule_routine t2 = NULL" by auto
  let ?s2 = "?s1\<lparr>smp_time := t2, smp_apic := with_log j2 (e1 @ l) a\<rparr>"
  from startup_with_log [OF assms(2,3), of ?s2 j2 "e1 @ l" junk code] obtain e3 where
    3: "startup junk code i ?s2 = Ok (?s2\<lparr>smp_apic := with_log j2 (e3 @ e1 @ l) a\<rparr>)" "started lo hi (e3 @ e1 @ l) = insert ?k S"
    using 1(2) by auto
  let ?s3 = "?s2\<lparr>smp_apic := with_log j2 (e3 @ e1 @ l) a\<rparr>"
  from wait_ms_with_log [of ?s3 j2 "e3 @ e1 @ l" a f 30] 2(2,3) assms(4) obtain j4 t4 where
    4: "wait_ms 30 ?s3 = Ok (?s3\<lparr>smp_time := t4, smp_apic := with_log j4 (e3 @ e1 @ l) a\<rparr>)" "runs_at f t4" "schedule_routine t4 = NULL" by auto
  let ?s4 = "?s3\<lparr>smp_time := t4, smp_apic := with_log j4 (e3 @ e1 @ l) a\<rparr>"
  let ?s5 = "?s4\<lparr>looks := ?n + 2\<rparr>"
  have "\<exists>e6. (if ?cur = ?b (e3 @ e1 @ l) (?n + 1) then startup junk code i ?s5 else Ok ?s5) = Ok (?s5\<lparr>smp_apic := with_log j4 (e6 @ e3 @ e1 @ l) a\<rparr>) \<and>
      started lo hi (e6 @ e3 @ e1 @ l) = insert ?k S"
  proof (cases "?cur = ?b (e3 @ e1 @ l) (?n + 1)")
    case True
    then show ?thesis using startup_with_log [OF assms(2,3), of ?s5 j4 "e3 @ e1 @ l" junk code] 3(2) by auto
  next
    case False
    then show ?thesis using 3(2) by (intro exI [of _ "[]"]) simp
  qed
  then obtain e6 where
    6: "(if ?cur = ?b (e3 @ e1 @ l) (?n + 1) then startup junk code i ?s5 else Ok ?s5) = Ok (?s5\<lparr>smp_apic := with_log j4 (e6 @ e3 @ e1 @ l) a\<rparr>)"
      "started lo hi (e6 @ e3 @ e1 @ l) = insert ?k S" by blast
  let ?l = "e6 @ e3 @ e1 @ l" and ?s6 = "?s5\<lparr>smp_apic := with_log j4 (e6 @ e3 @ e1 @ l) a\<rparr>"
  have card: "card (insert ?k S) = 1 + card S" using assms(6,7) by simp
  from inv(1) obtain n' where n': "?n + 2 \<le> n'" "unat (?b ?l n') = 1 + card (started lo hi ?l)" unfolding aps_boot_def by blast
  have "?b ?l n' \<noteq> ?cur" using n'(2) j(3) 6(2) card by auto
  with boot_wait_ends [of ?s6 n' ?cur] n'(1) log obtain m where
    m: "?n + 2 \<le> m" "?b ?l m \<noteq> ?cur" "while_do (boot_wait ?cur) ?s6 = Ok (?s6\<lparr>looks := m + 1\<rparr>)" by auto
  have "unat (?b ?l m) = 1 + card (insert ?k S)"
  proof -
    have "\<forall>l e n n'. n \<le> n' \<longrightarrow> ?b l n \<le> ?b (e @ l) n'" "\<forall>l n. unat (?b l n) \<le> 1 + card (started lo hi l)"
      using inv(1) by (auto simp: aps_boot_def)
    note mono = this(1) [rule_format, of ?n m l "e6 @ e3 @ e1"] and bound = this(2) [rule_format, of ?l m]
    have "?cur \<le> ?b ?l m" using mono m(1) by simp
    moreover have "unat (?b ?l m) \<le> 1 + card (insert ?k S)" using bound 6(2) by simp
    moreover have "unat (?b ?l m) \<noteq> unat ?cur" using m(2) by (simp add: word_unat_eq_iff)
    ultimately show ?thesis using j(3) card unfolding word_le_nat_alt by linarith
  qed
  then have full: "unat (?b ?l (m + 1)) = 1 + card (insert ?k S)"
    using aps_boot_full [OF inv(1), of ?l m "m + 1" "[]"] 6(2) by simp
  have run: "start_one junk code i s = Ok (?s6\<lparr>looks := m + 1\<rparr>)"
  proof -
    have r: "read_booted s = (?cur, ?s0)" "read_booted ?s4 = (?b (e3 @ e1 @ l) (?n + 1), ?s5)" using j(1) by (simp_all add: read_booted_def log)
    have k: "lapic_of i ?s0 = Ok (ucast d)" using lapic_of_known [OF assms(3), of ?s0 j l] j(1) by simp
    have ne: "(of_nat i = main_core_id ?s0) = False" using inv(4) assms(5) by simp
    show ?thesis unfolding start_one_def r Let_def prod.case ne if_False k andthen.simps 1(1) 2(1) 3(1) 4(1) r(2) prod.case 6(1) m(3) ..
  qed
  have "smp_inv lo hi a f mc (insert ?k S) (?s6\<lparr>looks := m + 1\<rparr>)" unfolding smp_inv_def
  proof (intro conjI)
    show "\<exists>i l. smp_apic (?s6\<lparr>looks := m + 1\<rparr>) = with_log i l a \<and> started lo hi l = insert ?k S \<and>
        unat (booted (?s6\<lparr>looks := m + 1\<rparr>) l (looks (?s6\<lparr>looks := m + 1\<rparr>))) = 1 + card (insert ?k S)"
      using full 6(2) by (intro exI [of _ j4] exI [of _ ?l]) simp
  qed (use inv 4(2,3) in simp_all)
  with run show ?thesis by blast
qed

lemma start_one_skips:
  assumes "smp_inv lo hi a f mc S s" "of_nat i = (of_nat mc :: u32)"
  shows "start_one junk code i s = Ok (s\<lparr>looks := looks s + 1\<rparr>) \<and> smp_inv lo hi a f mc S (s\<lparr>looks := looks s + 1\<rparr>)"
proof -
  from assms(1) obtain j l where j: "smp_apic s = with_log j l a" "started lo hi l = S" "unat (booted s l (looks s)) = 1 + card S"
    and inv: "aps_boot lo hi (booted s)" "runs_at f (smp_time s)" "schedule_routine (smp_time s) = NULL" "main_core_id s = of_nat mc"
    unfolding smp_inv_def by blast
  have "unat (booted s l (looks s + 1)) = 1 + card S"
    using aps_boot_full [OF inv(1), of l "looks s" "looks s + 1" "[]"] j(2,3) by simp
  then have "smp_inv lo hi a f mc S (s\<lparr>looks := looks s + 1\<rparr>)" unfolding smp_inv_def using j inv by auto
  moreover have "start_one junk code i s = Ok (s\<lparr>looks := looks s + 1\<rparr>)" using assms(2) inv(4) by (simp add: start_one_def read_booted_def)
  ultimately show ?thesis by simp
qed

definition key :: "u8 \<Rightarrow> u32" where "key d = ucast d"

lemma key_inj: "key d = key d' \<Longrightarrow> d = d'"
proof -
  assume "key d = key d'"
  then have "unat (ucast d :: u32) = unat (ucast d' :: u32)" by (simp add: key_def)
  then show ?thesis by (simp add: unsigned_ucast_eq take_bit_nat_eq_self unsigned_less [where 'a = nat, THEN less_trans] word_unat_eq_iff)
qed

lemma start_all_boots:
  assumes "machine lo hi a" "f \<le> 1000" "\<forall>i < n. knows a i (ids i)" "inj_on ids {..<n}" "n \<le> 256" "mc < n"
    and "smp_inv lo hi a f mc {} s" "m \<le> n"
  shows "\<exists>s'. for_each [0 ..< m] (start_one junk code) s = Ok s' \<and> smp_inv lo hi a f mc ((key \<circ> ids) ` ({..<m} - {mc})) s'"
  using assms(8)
proof (induction m)
  case 0
  then show ?case using assms(7) by simp
next
  case (Suc m)
  then obtain t where t: "for_each [0 ..< m] (start_one junk code) s = Ok t" "smp_inv lo hi a f mc ((key \<circ> ids) ` ({..<m} - {mc})) t" by auto
  have eq: "(of_nat m = (of_nat mc :: u32)) \<longleftrightarrow> m = mc"
  proof
    assume "of_nat m = (of_nat mc :: u32)"
    then have "unat (of_nat m :: u32) = unat (of_nat mc :: u32)" by simp
    then show "m = mc" using Suc.prems assms(5,6) by (simp add: unsigned_of_nat take_bit_nat_eq_self)
  qed simp
  have "\<exists>s'. start_one junk code m t = Ok s' \<and> smp_inv lo hi a f mc ((key \<circ> ids) ` ({..<Suc m} - {mc})) s'"
  proof (cases "m = mc")
    case True
    have "{..<Suc m} - {mc} = {..<m} - {mc}" using True by auto
    then show ?thesis using start_one_skips [OF t(2), of m junk code] True by auto
  next
    case False
    have set: "(key \<circ> ids) ` ({..<Suc m} - {mc}) = insert (key (ids m)) ((key \<circ> ids) ` ({..<m} - {mc}))" using False by (auto simp: lessThan_Suc)
    have "key (ids m) \<notin> (key \<circ> ids) ` ({..<m} - {mc})"
    proof
      assume "key (ids m) \<in> (key \<circ> ids) ` ({..<m} - {mc})"
      then obtain x where x: "x < m" "key (ids m) = key (ids x)" by auto
      from key_inj [OF x(2)] have "m = x" using assms(4) Suc.prems x(1) by (auto dest!: inj_onD)
      then show False using x(1) by simp
    qed
    moreover have "knows a m (ids m)" using assms(3) Suc.prems by simp
    ultimately show ?thesis using start_one_boots [OF t(2) assms(1) _ assms(2), of m "ids m" junk code] eq False unfolding set
      by (simp add: key_def)
  qed
  then show ?case using t(1) by (auto simp: for_each_append)
qed

section \<open>Properties\<close>

lemma all_counted:
  assumes "smp_inv lo hi a f mc S s" "1 + card S = n" "n \<le> 256"
  shows "booted s (mmio_log (smp_apic s)) (looks s) = of_nat n" "booted s (mmio_log (smp_apic s)) (looks s + 1) = of_nat n"
    "while_do (all_wait (of_nat n)) s = Ok (s\<lparr>looks := looks s + 1\<rparr>)"
proof -
  from assms(1) obtain j l where j: "smp_apic s = with_log j l a" "started lo hi l = S" "unat (booted s l (looks s)) = 1 + card S" "aps_boot lo hi (booted s)"
    unfolding smp_inv_def by blast
  have "unat (booted s l (looks s + 1)) = 1 + card S" using aps_boot_full [OF j(4), of l "looks s" "looks s + 1" "[]"] j(2,3) by simp
  then show 1: "booted s (mmio_log (smp_apic s)) (looks s) = of_nat n" "booted s (mmio_log (smp_apic s)) (looks s + 1) = of_nat n"
    using j(1,3) assms(2,3) by (simp_all add: with_log_def word_unat_eq_iff unsigned_of_nat take_bit_nat_eq_self)
  show "while_do (all_wait (of_nat n)) s = Ok (s\<lparr>looks := looks s + 1\<rparr>)"
    using 1(1) by (subst while_do_unfold) (simp add: all_wait_def read_booted_def)
qed

text \<open>C38. The start of the other processors ends: when every processor that gets its start-up command counts itself at some
  time, the device takes every command and the timer runs, the call returns without error after having sent the start-up
  command to exactly the processors of the table other than its own, all of them are counted and the sequence is marked as ended.\<close>

theorem cpu_smp_init_boots:
  assumes "acpi_get_detected_cpu_count (acpi_st (smp_apic s)) = of_nat n" "1 < n" "n \<le> 256"
    and "kernel_info junk (\<lambda>_. None) (Some (''Init %d CPU cores'' @ newline)) [of_nat n] (smp_out s) = Ok p1"
    and "cpu_get_id (smp_apic s) = Ok (of_nat mc, a1)" "mc < n"
    and "kernel_info junk (\<lambda>_. None) (Some (''Main core ID %d'' @ newline)) [of_nat mc] p1 = Ok p2"
    and "kernel_mmap_hw code code 0x1000 0 1 (avm (acpi_st a1)) = Ok (OS_NO_ERR, m)"
    and "machine lo hi (set_vm m a1)" "\<forall>i < n. knows (set_vm m a1) i (ids i)" "inj_on ids {..<n}"
    and "started lo hi (mmio_log a1) = {}" "aps_boot lo hi (booted s)"
    and "runs_at f (smp_time s)" "f \<le> 1000" "schedule_routine (smp_time s) = NULL"
  shows "\<exists>s'. cpu_smp_init junk code s = Ok (OS_NO_ERR, s') \<and> init_seq_end s' = 1 \<and>
     started lo hi (mmio_log (smp_apic s')) = (key \<circ> ids) ` ({..<n} - {mc}) \<and> fst (read_booted s') = of_nat n"
proof -
  let ?a = "set_vm m a1" and ?S = "(key \<circ> ids) ` ({..<n} - {mc})"
  let ?s = "s\<lparr>smp_cpu_count := of_nat n, init_seq_end := 0, main_core_id := of_nat mc, smp_out := p2, smp_apic := ?a\<rparr>"
  have "unat (booted s (mmio_log a1) (looks s)) = 1"
  proof -
    have "\<forall>l n. 1 \<le> unat (booted s l n) \<and> unat (booted s l n) \<le> 1 + card (started lo hi l)" using assms(13) by (simp add: aps_boot_def)
    from this [rule_format, of "mmio_log a1" "looks s"] show ?thesis using assms(12) by simp
  qed
  moreover have "?a = with_log (pg_ints (avm (acpi_st ?a))) (mmio_log a1) ?a" by (simp add: with_log_def set_vm_def)
  ultimately have "smp_inv lo hi ?a f mc {} ?s" unfolding smp_inv_def using assms(12-14,16) by auto
  from start_all_boots [OF assms(9,15,10,11,3,6) this le_refl, of junk code] obtain t where
    t: "for_each [0 ..< n] (start_one junk code) ?s = Ok t" "smp_inv lo hi ?a f mc ?S t" by auto
  let ?t = "t\<lparr>init_seq_end := 1\<rparr>"
  have it: "smp_inv lo hi ?a f mc ?S ?t" using t(2) by (simp add: smp_inv_def)
  have "inj_on (key \<circ> ids) ({..<n} - {mc})" using assms(11) key_inj by (auto simp: inj_on_def)
  from card_image [OF this] have "card ?S = n - 1" using assms(6) by (simp only: card_Diff_singleton card_lessThan lessThan_iff)
  then have "1 + card ?S = n" using assms(6) by linarith
  note c = all_counted [OF it this assms(3)]
  have "unat (of_nat n :: u32) = n" using assms(3) by (simp add: unsigned_of_nat take_bit_nat_eq_self)
  moreover have "\<not> sint (of_nat n :: u32) \<le> 1" using assms(2,3) by (simp add: signed_of_nat signed_take_bit_int_eq_self)
  ultimately have run: "cpu_smp_init junk code s = Ok (OS_NO_ERR, ?t\<lparr>looks := looks t + 1\<rparr>)"
    using assms(1,4,5,7,8) t(1) c(3) by (simp add: cpu_smp_init_def smp_info_def Let_def)
  have log: "started lo hi (mmio_log (smp_apic (?t\<lparr>looks := looks t + 1\<rparr>))) = ?S"
    using it by (auto simp: smp_inv_def with_log_def)
  have cnt: "fst (read_booted (?t\<lparr>looks := looks t + 1\<rparr>)) = of_nat n" using c(2) by (simp add: read_booted_def)
  show ?thesis using run log cnt by (intro exI conjI) simp_all
qed

text \<open>With one processor, or when the tables were not read and the count is \<^verbatim>\<open>-1\<close>, nothing is done.\<close>

lemma cpu_smp_init_alone:
  "cpu_count (acpi_st (smp_apic s)) \<le> 1 \<Longrightarrow>
     cpu_smp_init junk code s = Ok (OS_NO_ERR, s\<lparr>smp_cpu_count := acpi_get_detected_cpu_count (acpi_st (smp_apic s))\<rparr>)"
proof -
  assume "cpu_count (acpi_st (smp_apic s)) \<le> 1"
  then have "cpu_count (acpi_st (smp_apic s)) = 0 \<or> cpu_count (acpi_st (smp_apic s)) = 1" by (auto simp: word_le_nat_alt word_unat_eq_iff)
  then show ?thesis by (auto simp: cpu_smp_init_def acpi_get_detected_cpu_count_def)
qed

section \<open>An example machine\<close>

text \<open>Two processors, with the local APICs 7 and 8, before paging is enabled; a processor counts itself as soon as it gets its command.\<close>

definition counts_at_once :: "mmio_event list \<Rightarrow> nat \<Rightarrow> u32" where
  "counts_at_once l n = of_nat (1 + card (started 0xFEE00300 0xFEE00310 l))"

definition mute :: "console kernel_graphic_driver_t" where
  "mute = vga_text_driver\<lparr>set_color_scheme := Some (\<lambda>_. Ok), save_color_scheme := Some (\<lambda>b c. Ok (OS_NO_ERR, b, c)),
     put_string := Some (put_all (\<lambda>_. Ok)), put_char := Some (\<lambda>_. Ok)\<rparr>"

definition ex_smp_apic :: apic where
  "ex_smp_apic = ex_apic\<lparr>acpi_st := ex_acpi\<lparr>cpu_count := 2, cpu_lapic := [0x102C, 0x2000, 0, 0], io_apic_count := 1, io_apic_tables := [0x1034],
       avm := ex_vm\<lparr>cr0 := 0, phys := ex_madt(0x2000 := 0x08010800, 0xFFFFF000 := 3)\<rparr>\<rparr>,
     mmio_device := (\<lambda>l a. if a = 0xFEE00020 then 0x07000000 else 0)\<rparr>"

definition ex_smp :: smp where
  "ex_smp = \<lparr>smp_apic = ex_smp_apic, smp_time = time_example, smp_out = start_printer\<lparr>graphic_driver := mute\<rparr>, booted = counts_at_once, looks = 0,
     main_core_id = 0, smp_cpu_count = 0, init_seq_end = 0\<rparr>"

lemma started_small: "started lo hi l \<subseteq> of_nat ` {..<256}"
proof (induction lo hi l rule: started.induct)
  case (1 lo hi a x b d l)
  have "unat (drop_bit 24 d) < 256"
    using unsigned_less [of d, where 'a = nat] by (simp add: drop_bit_eq_div unat_div less_mult_imp_div_less)
  then have "drop_bit 24 d \<in> of_nat ` {..<256}" by (intro image_eqI [of _ _ "unat (drop_bit 24 d)"]) simp_all
  then show ?case using 1 by (auto split: if_splits)
qed simp_all

lemma started_count: "finite (started lo hi l)" "card (started lo hi l) \<le> 256"
  using finite_subset [OF started_small] card_mono [OF _ started_small, of lo hi l] card_image_le [of "{..<256}" "of_nat :: nat \<Rightarrow> u32"] by auto

lemma started_grows: "lo \<noteq> hi \<Longrightarrow> started lo hi l \<subseteq> started lo hi (e @ l)"
proof (induction e)
  case (Cons x e)
  have "started lo hi k \<subseteq> started lo hi (x # k)" for k
  proof (cases x)
    case (MWrite a v)
    then show ?thesis using started_hi [OF Cons.prems] by (cases k rule: list.exhaust; cases "hd k") auto
  qed simp
  then show ?case using Cons by auto
qed simp

lemma counts_at_once_boots: "aps_boot 0xFEE00300 0xFEE00310 counts_at_once"
proof -
  have u: "unat (counts_at_once l n) = 1 + card (started 0xFEE00300 0xFEE00310 l)" for l n
    using started_count(2) [of "0xFEE00300" "0xFEE00310" l] unfolding counts_at_once_def
    by (simp only: unsigned_of_nat) (simp add: take_bit_nat_eq_self)
  have "card (started 0xFEE00300 0xFEE00310 l) \<le> card (started 0xFEE00300 0xFEE00310 (e @ l))" for l e
    using started_grows [of "0xFEE00300" "0xFEE00310" l e] by (intro card_mono started_count) simp
  then show ?thesis using u by (auto simp: aps_boot_def word_le_nat_alt)
qed

lemma mute_info:
  assumes "graphic_driver p = mute" "\<forall>x \<in> set ps. piece_ok x" "texts_of (\<lambda>_. None) ps args = Some (t, rest)"
  shows "kernel_info junk (\<lambda>_. None) (Some (concat (map fmt_of ps))) args p = Ok (p\<lparr>current_output := GRAPHIC\<rparr>)"
proof -
  have D: "display mute (\<lambda>_. Ok)" by unfold_locales (simp_all add: mute_def)
  have a: "put_all (\<lambda>_. Ok) t c = Ok c" for t and c :: console by (induction t) simp_all
  have 1: "tag_printf (\<lambda>_. None) (Some ''[INFO] '') [] q = Ok q" "kprint_fmt (\<lambda>_. None) (concat (map fmt_of ps)) args q = Ok q"
    if "graphic_driver q = mute" "current_output q = GRAPHIC" for q
    using display.kprint_tag [OF D that, of "''[INFO] ''"] display.kprint_pieces [OF D that assms(2,3)] by (simp_all add: on_con_def a)
  have 2: "graphic_save_color_scheme mute b c = Ok (OS_NO_ERR, b, c)" "graphic_set_color_scheme mute x c = Ok c" for b x c
    by (simp_all add: graphic_defs mute_def)
  show ?thesis by (simp add: kernel_info_def tagged_print_def Let_def assms(1) 1 2 on_con_def)
qed

definition ex_mapped :: vm where
  "ex_mapped = ex_vm\<lparr>cr0 := 0, phys := ex_madt(0x2000 := 0x08010800, 0xFFFFF000 := 3, 0xFFC00020 := 0x8213)\<rparr>"

lemma ex_smp_mmap: "\<exists>i. kernel_mmap_hw 0x8000 0x8000 0x1000 0 1 (avm (acpi_st ex_smp_apic)) = Ok (OS_NO_ERR, ex_mapped\<lparr>pg_ints := i\<rparr>)"
proof -
  define v where "v = avm (acpi_st ex_smp_apic)"
  have v: "cr0 v = 0" "phys v = ex_madt(0x2000 := 0x08010800, 0xFFFFF000 := 3)" by (simp_all add: v_def ex_smp_apic_def)
  have i: "(0x8000 :: u32) AND PAGE_ALIGN_MASK = 0x8000" "dir_index 0x8000 = 0" "table_index 0x8000 = 8"
    by (simp_all add: dir_index_def table_index_def paging_consts KERNEL_PAGE_SIZE_def PAGE_ALIGN_MASK_def)
  have f: "map_flags 0 0 1 = 0x213" by (simp add: map_flags_def paging_consts)
  have a: "PAGING_RECUR_PG_DIR = 0xFFFFF000" "PAGING_RECUR_PG_TABLE = 0xFFC00000" by (simp_all add: paging_consts)
  have e: "ex_madt 0xFFC00020 = 0" by (simp add: ex_madt_def)
  have m: "while_do (mapped_pass s) (0, 0x8000, 0x1000) = Ok (0, 0x9000, 0)" if "cr0 s = 0" "phys s = phys v" for s
    using that v(2) i e by (subst while_do_unfold, simp add: mapped_pass_def vload_def a KERNEL_PAGE_SIZE_def PAGE_FLAG_PRESENT_def)
      (subst while_do_unfold, simp add: mapped_pass_def)
  have n: "while_do (map_pass 0x213) (OS_NO_ERR, 0x8000, 0x8000, 0x1000, s) = Ok (OS_NO_ERR, 0x9000, 0x9000, 0, s\<lparr>phys := (phys s)(0xFFC00020 := 0x8213)\<rparr>)"
    if "cr0 s = 0" "phys s = phys v" for s
    using that v(2) i by (subst while_do_unfold, simp add: map_pass_def page_table_def vload_def vstore_def a KERNEL_PAGE_SIZE_def PAGE_FLAG_PRESENT_def)
      (subst while_do_unfold, simp add: map_pass_def)
  have "\<exists>j. kernel_mmap_hw 0x8000 0x8000 0x1000 0 1 v = Ok (OS_NO_ERR, v\<lparr>phys := (phys v)(0xFFC00020 := 0x8213), pg_ints := j\<rparr>)"
    by (simp add: kernel_mmap_hw_def kernel_mmap_internal_def is_mapped_def pg_enter_def pg_exit_def i f m n v(1) split: prod.splits) blast
  then show ?thesis by (simp add: v_def ex_mapped_def ex_smp_apic_def)
qed

lemma ex_smp_bus: "bus_addr v ex_smp_apic = Some (v, True)"
  by (simp add: bus_addr_def ex_smp_apic_def)

lemma ex_smp_id: "cpu_get_id ex_smp_apic = Ok (0, ex_smp_apic\<lparr>mmio_log := [MRead 0xFEE00020]\<rparr>)"
proof -
  let ?a = "ex_smp_apic\<lparr>mmio_log := [MRead 0xFEE00020]\<rparr>"
  have 1: "acpi_check_lapic_id 0 (acpi_st ex_smp_apic) = Ok OS_ERR_NO_SUCH_LAPIC_ID" by code_simp
  have "acpi_get_io_apic_available (acpi_st ex_smp_apic) = 1" "acpi_get_lapic_available (acpi_st ex_smp_apic) = 1" by code_simp+
  then have 2: "lapic_get_id ex_smp_apic = Ok (7, ?a)"
    by (simp add: lapic_get_id_def lapic_read_def mmio_read_at [OF ex_smp_bus]) (simp add: ex_smp_apic_def ex_apic_def LAPIC_ID_def)
  have 3: "apic_id (cpu_lapic (acpi_st ?a) ! 0) (avm (acpi_st ?a)) = Ok 7" by code_simp
  from cpu_get_id_index(1) [OF 1 _ 2, of 0, OF _ _ _ _ 3] show ?thesis by (simp add: ex_smp_apic_def)
qed

lemma ex_smp_machine: "machine 0xFEE00300 0xFEE00310 (set_vm (ex_mapped\<lparr>pg_ints := i\<rparr>) (ex_smp_apic\<lparr>mmio_log := l\<rparr>))"
proof -
  let ?a = "set_vm (ex_mapped\<lparr>pg_ints := i\<rparr>) (ex_smp_apic\<lparr>mmio_log := l\<rparr>)"
  have b: "bus_addr v ?a = Some (v, True)" for v by (simp add: bus_addr_def set_vm_def ex_mapped_def)
  have "\<not> apic_missing ?a"
    by (simp add: apic_missing_def acpi_get_io_apic_available_def acpi_get_lapic_available_def set_vm_def ex_smp_apic_def ex_acpi_def)
  moreover have "lapic_base_addr ?a = 0xFEE00000" "mmio_device ?a = (\<lambda>l a. if a = 0xFEE00020 then 0x07000000 else 0)"
    by (simp_all add: set_vm_def ex_smp_apic_def ex_apic_def)
  ultimately show ?thesis unfolding machine_def b by (simp add: clears_after_def lapic_consts) (intro exI [of _ 0], simp)
qed

lemma ex_smp_knows: "n < 2 \<Longrightarrow> knows (set_vm (ex_mapped\<lparr>pg_ints := i\<rparr>) (ex_smp_apic\<lparr>mmio_log := l\<rparr>)) n (if n = 0 then 7 else 8)"
proof -
  assume "n < 2"
  then have n: "n = 0 \<or> n = 1" by auto
  let ?a = "set_vm (ex_mapped\<lparr>pg_ints := i\<rparr>) (ex_smp_apic\<lparr>mmio_log := l\<rparr>)"
  have l: "cpu_lapic (acpi_st ?a) = [0x102C, 0x2000, 0, 0]" "avm (acpi_st ?a) = ex_mapped\<lparr>pg_ints := i\<rparr>" "cpu_count (acpi_st ?a) = 2"
    "acpi_initialized (acpi_st ?a) = 1" by (simp_all add: set_vm_def ex_smp_apic_def ex_apic_def ex_acpi_def)
  have c: "vbyte v (ex_mapped\<lparr>pg_ints := i\<rparr>) = vbyte v ex_mapped" for v by (simp add: vbyte_def phys_byte_def ex_mapped_def)
  have d: "vbyte 0x102F ex_mapped = Ok 7" "vbyte 0x2003 ex_mapped = Ok 8" by code_simp+
  have "acpi_check_lapic_id (ucast (7 :: u8)) (acpi_st ?a) = Ok OS_NO_ERR" "acpi_check_lapic_id (ucast (8 :: u8)) (acpi_st ?a) = Ok OS_NO_ERR"
    using l d by (simp_all add: acpi_check_lapic_id_def apic_id_def c)
  then show ?thesis using n l d by (elim disjE) (simp_all add: knows_def apic_id_def c)
qed

theorem cpu_smp_init_boots_witness:
  "\<exists>s'. cpu_smp_init \<lparr>foreground = 1, background = 2, vga_color = 3\<rparr> 0x8000 ex_smp = Ok (OS_NO_ERR, s') \<and> init_seq_end s' = 1 \<and>
     started 0xFEE00300 0xFEE00310 (mmio_log (smp_apic s')) = {8} \<and> fst (read_booted s') = 2"
proof -
  let ?p = "smp_out ex_smp" and ?j = "\<lparr>foreground = 1, background = 2, vga_color = 3\<rparr> :: colorscheme_t"
  let ?ids = "\<lambda>n :: nat. if n = 0 then 7 else (8 :: u8)"
  obtain i where i: "kernel_mmap_hw 0x8000 0x8000 0x1000 0 1 (avm (acpi_st (ex_smp_apic\<lparr>mmio_log := [MRead 0xFEE00020]\<rparr>))) = Ok (OS_NO_ERR, ex_mapped\<lparr>pg_ints := i\<rparr>)"
    using ex_smp_mmap by auto
  have 1: "kernel_info ?j (\<lambda>_. None) (Some (''Init %d CPU cores'' @ newline)) [of_nat 2] ?p = Ok (?p\<lparr>current_output := GRAPHIC\<rparr>)"
    using mute_info [of ?p "[Text ''Init '', Dec False 0, Text ('' CPU cores'' @ newline)]" "[2]"]
    by (simp add: ex_smp_def width_fmt_def width_text.simps [of 0] newline_def)
  have 2: "kernel_info ?j (\<lambda>_. None) (Some (''Main core ID %d'' @ newline)) [of_nat 0] (?p\<lparr>current_output := GRAPHIC\<rparr>) =
      Ok (?p\<lparr>current_output := GRAPHIC\<rparr>\<lparr>current_output := GRAPHIC\<rparr>)"
    using mute_info [of "?p\<lparr>current_output := GRAPHIC\<rparr>" "[Text ''Main core ID '', Dec False 0, Text newline]" "[0]"]
    by (simp add: ex_smp_def width_fmt_def width_text.simps [of 0] newline_def)
  have 3: "cpu_get_id (smp_apic ex_smp) = Ok (of_nat 0, ex_smp_apic\<lparr>mmio_log := [MRead 0xFEE00020]\<rparr>)" using ex_smp_id by (simp add: ex_smp_def)
  have 4: "acpi_get_detected_cpu_count (acpi_st (smp_apic ex_smp)) = of_nat 2"
    by (simp add: acpi_get_detected_cpu_count_def ex_smp_def ex_smp_apic_def)
  have 5: "inj_on ?ids {..<2}" by (auto simp: inj_on_def)
  have 6: "(key \<circ> ?ids) ` ({..<2} - {0}) = {8}"
  proof -
    have "{..<2} - {0} = {1 :: nat}" by auto
    then show ?thesis by (simp add: key_def)
  qed
  have r: "runs_at 200 (smp_time ex_smp)" "aps_boot 0xFEE00300 0xFEE00310 (booted ex_smp)" "schedule_routine (smp_time ex_smp) = NULL"
    using time_example_runs counts_at_once_boots by (simp_all add: ex_smp_def time_example_def)
  from cpu_smp_init_boots [OF 4 _ _ 1 3 _ 2 i ex_smp_machine _ 5 _ r(2,1) _ r(3)] ex_smp_knows show ?thesis unfolding 6 by simp
qed

end
