(* ===== verification/Spec2Isabelle.thy ===== *)
theory Spec2Isabelle
  imports Kheap KernelQueue Critical Pic Time Scheduler Election Blocking Semaphore Mutex Mailbox UserQueue Memalloc Conversion FaultHandlers
    AddressSpace TimerStart StrLib Output Keyboard Apic Ata Meminfo CpuTables Vesa VesaModes VgaMap Cpu Panic Smp
begin

text \<open>
  Verification of the UTK kernel, the i386 kernel under \<^verbatim>\<open>src/Kernel\<close>. Paths below are relative to
  \<^verbatim>\<open>src/Kernel/Sources\<close>; headers are under \<^verbatim>\<open>src/Kernel/Includes\<close> and the configuration in
  \<^verbatim>\<open>src/Kernel/Config/i386/config.h\<close> (four CPUs, spinlocks compiled in, VGA display at start, the traces of the
  serial and VESA drivers and the copy of the displayed characters to the serial line compiled in, the other traces not; the
  calls of the self tests are left out).

  \<^bold>\<open>The program and its parts.\<close> The memory side is the kernel heap (\<^verbatim>\<open>memory/kheap.c\<close>), the allocator of
  physical frames and virtual pages (\<^verbatim>\<open>memory/memalloc.c\<close>), paging (\<^verbatim>\<open>arch/cpu/i386/paging.c\<close>) and the page
  fault handlers (\<^verbatim>\<open>memory/paging.c\<close>). Interrupts and exceptions are dispatched by \<^verbatim>\<open>interrupt/interrupts.c\<close> and
  \<^verbatim>\<open>interrupt/exceptions.c\<close> through a controller driver such as \<^verbatim>\<open>arch/x86/pic.c\<close>; timers (\<^verbatim>\<open>arch/x86/pit.c\<close>, \<^verbatim>\<open>arch/x86/rtc.c\<close>) drive
  \<^verbatim>\<open>time/time_management.c\<close>, whose tick calls the scheduler (\<^verbatim>\<open>core/scheduler.c\<close>). The scheduler keeps threads in
  kernel queues (\<^verbatim>\<open>core/kernel_queue.c\<close>); semaphores and mutexes (\<^verbatim>\<open>sync\<close>) block threads through it, and
  mailboxes and message queues (\<^verbatim>\<open>comm\<close>) are built on semaphores. Critical sections
  (\<^verbatim>\<open>sync/critical.h\<close>) protect all of them on several CPUs. The library (\<^verbatim>\<open>lib\<close>) gives memory and
  string functions, 64-bit division and number formatting. Formatted output (\<^verbatim>\<open>io/kernel_output.c\<close>) prints
  through a table of functions filled by the serial driver (\<^verbatim>\<open>arch/x86/serial.c\<close>) or by the display selected in
  \<^verbatim>\<open>io/graphic.c\<close>, which is the VGA text driver (\<^verbatim>\<open>arch/x86/vga_text.c\<close>) until the VESA driver (\<^verbatim>\<open>arch/x86/vesa.c\<close>), which
  sets its modes through calls of the firmware (\<^verbatim>\<open>arch/x86/bios_call.c\<close>), takes over its text; the keyboard (\<^verbatim>\<open>arch/x86/keyboard.c\<close>) echoes
  to it. Start-up reads the memory map of the boot loader (\<^verbatim>\<open>memory/meminfo.c\<close>) and the ACPI tables
  (\<^verbatim>\<open>arch/x86/acpi.c\<close>), which give the CPUs and the interrupt controllers driven by \<^verbatim>\<open>arch/x86/io_apic.c\<close> and
  \<^verbatim>\<open>arch/x86/lapic.c\<close>, fills the descriptor tables (\<^verbatim>\<open>arch/cpu/i386/cpu_settings.c\<close>), detects the features of the processor and
  starts the other ones (\<^verbatim>\<open>arch/cpu/i386/cpu.c\<close>). An error that cannot be handled ends in the panic screen
  (\<^verbatim>\<open>arch/cpu/i386/panic.c\<close>). Blocks are read and
  written by the ATA driver (\<^verbatim>\<open>arch/x86/ata_pio.c\<close>).

  \<^bold>\<open>Conventions.\<close> Machine integers are words of their width, and arithmetic wraps as in C. Objects live in
  stores addressed by 32-bit pointers; using a pointer that is not a live object is \<open>Fault\<close>,
  \<^verbatim>\<open>kernel_panic\<close> is \<open>Panic\<close>, a loop that does not end is \<open>Diverged\<close> and a return is \<open>Ok\<close> (type \<open>outcome\<close> of
  \<open>Prelude\<close>). Every error code is a value of \<open>OS_RETURN_E\<close>. Loops over linked lists and other loops without
  an obvious bound are \<open>walk\<close>, \<open>trail\<close> and \<open>while_do\<close> of \<open>Prelude\<close>, built with a partial function into the option
  order, so no fuel is chosen anywhere and every theorem that says \<open>= Ok ...\<close> includes that the loop ends.
  Bounds that appear come from the code: the 128-byte scratch array of \<^verbatim>\<open>uitoa\<close>, the 1024 entries of a
  page table, the 64 priorities, \<open>2^30\<close> elements of a message queue (where the size in bytes would wrap), the 2000 cells and 25 lines of the VGA
  screen, the 100 entries of the copied memory map, the 512 bytes of a sector.
  The body of a critical section is one step; theory \<open>Critical\<close> proves when that is justified, that is, when the section is not
  nested and not left in the middle. A
  call that may switch threads is cut there: \<open>Yielded v\<close> (the thread is switched out and the call returns
  \<open>v\<close> when it is elected again) or \<open>Switched\<close> (more code runs then, in a definition named \<open>..._resume\<close>), so
  that histories of several threads are sequences of such steps.

  \<^bold>\<open>Theories.\<close>
    \<^item> \<open>Prelude\<close>: outcomes, stores, linked segments, loops and their rules. \<open>Fifo\<close>, \<open>HandlerTable\<close>, \<open>Channel\<close>: the
      contracts of a queue, of a table of handlers and of a bounded channel (with the histories of its calls), as locales with what their
      clients may conclude; they are interpreted by \<open>KernelQueue\<close>, by \<open>Interrupts\<close> (twice) and by \<open>Mailbox\<close> and
      \<open>UserQueue\<close>.
    \<^item> \<open>Kheap\<close> (\<^verbatim>\<open>memory/kheap.c\<close>): \<open>list_init\<close> to \<open>remove_from\<close>, the list macros, \<open>memory_chunk_*\<close>, \<open>kheap_init\<close>,
      \<open>kmalloc\<close>, \<open>kfree\<close> on a raw memory of links. Lemmas: rings, size classes, the wrap of the request size.
    \<^item> \<open>KernelQueue\<close> (\<^verbatim>\<open>core/kernel_queue.c\<close>): all operations; \<open>kq_rel s L\<close> relates the pointer structure to lists and
      each operation refines a list operation.
    \<^item> \<open>Memalloc\<close> (\<^verbatim>\<open>memory/memalloc.c\<close>): \<open>add_free\<close>, \<open>get_block\<close>, the four allocation operations and
      \<open>memalloc_init\<close>; \<open>frames_are s zs rs\<close> relates the list of areas to ranges, and the properties speak about
      the set of free addresses.
    \<^item> \<open>FaultHandlers\<close> (\<^verbatim>\<open>memory/paging.c\<close>, \<^verbatim>\<open>paging_fault_general_handler\<close>), \<open>Paging\<close> (\<^verbatim>\<open>arch/cpu/i386/paging.c\<close>: the
      model, over the two-level page walk of the processor) and \<open>AddressSpace\<close> (its invariant \<open>vm_ok\<close> and what
      mapping and unmapping do to the translation of every address).
    \<^item> \<open>Io\<close> (ports and the interrupt flag, against an arbitrary device), \<open>Interrupts\<close>, \<open>Pic\<close>, \<open>Time\<close>: the dispatcher,
      registration, the 8259A driver as sequences of port accesses, ticks, uptime and waits.
    \<^item> \<open>TimerDriver\<close> (the specification of a timer and the contract of a \<^verbatim>\<open>kernel_timer_t\<close>, a locale with what the time
      manager may conclude), interpreted by \<open>Pit\<close> (\<^verbatim>\<open>arch/x86/pit.c\<close>) and \<open>Rtc\<close> (\<^verbatim>\<open>arch/x86/rtc.c\<close>, also reading the clock);
      \<open>TimerStart\<close>: starting both and the time manager (\<^verbatim>\<open>arch/cpu/i386/kernel_kickstart.c\<close>).
    \<^item> \<open>Critical\<close> (\<^verbatim>\<open>sync/critical.h\<close>): the macros as a step relation, one memory access per step; mutual
      exclusion by rule induction, and the failure of nesting.
    \<^item> \<open>Thread\<close>, \<open>Scheduler\<close> (\<^verbatim>\<open>core/thread.h\<close>, \<^verbatim>\<open>core/scheduler.c\<close>): every operation of the scheduler;
      \<open>Election\<close>: which thread is elected, that the election ends, and when it panics; \<open>Blocking\<close>: what blocking and
      unblocking promise to the synchronisation objects.
    \<^item> \<open>Semaphore\<close>, \<open>Mutex\<close> (\<^verbatim>\<open>sync\<close>): all operations, and invariants over histories (conservation of the level,
      exclusion, restored priority). \<open>Mailbox\<close>, \<open>UserQueue\<close> (\<^verbatim>\<open>comm\<close>): all operations, and that in every
      interleaving of the calls of the threads of one CPU each message is delivered once and in order. On several CPUs this
      does not follow: both call \<^verbatim>\<open>sem_post\<close>, which switches threads, inside their critical sections.
    \<^item> \<open>Conversion\<close> (\<^verbatim>\<open>lib/udivmoddi4.c\<close>, \<^verbatim>\<open>lib/uitoa.c\<close>, \<^verbatim>\<open>lib/itoa.c\<close>): division and digits. \<open>MemLib\<close> and \<open>StrLib\<close> (the rest of
      \<^verbatim>\<open>lib\<close>): the functions on a memory of bytes, with the string instructions they use; each is related to a
      function on lists.
    \<^item> \<open>Format\<close> (the interpreter of format strings, over the functions of an arbitrary output, whose contract is the
      locale \<open>text_output\<close>), interpreted by \<open>Serial\<close>, \<open>Vga\<close> and \<open>Vesa\<close>; \<open>Console\<close>: the structure of a display driver; \<open>VgaMap\<close>: the
      mapping of the VGA buffer; \<open>Output\<close>: the contract of a display (locale \<open>display\<close>, which gives \<open>text_output\<close>), interpreted on both text
      drivers, the choice of the display and the print functions on top of it; \<open>Keyboard\<close>: key codes,
      the buffer and the echo, and, for a reader that waits (which the code as configured never has), that a typed line is what it gets.
    \<^item> \<open>Acpi\<close>: search and walk of the tables through the page tables, and the queries; that every address kept lies
      in a table, and which inputs make the walk not end. \<open>Apic\<close>: both controllers and the timer of the local one,
      as accesses to memory-mapped registers of an arbitrary device. \<open>Meminfo\<close>, \<open>CpuTables\<close>: the memory map, and the
      descriptors, decoded again by the layout of the processor. \<open>Ata\<close>: port accesses of two widths, and which
      accesses the transfer of a sector makes.
    \<^item> \<open>Canvas\<close>: the contract of a device on which points are drawn one at a time, a locale with what nested loops of
      drawing leave, interpreted by \<open>Vesa\<close> (drawing, cursor, scrolling and the driver on the bytes of the frame buffer, also a text output).
      \<open>VesaModes\<close>: the calls of the firmware, the list, choice and setting of modes, and the move of the console.
    \<^item> \<open>Cpu\<close>: detection, SSE, software interrupts and the number of the running processor. \<open>Panic\<close>: the whole panic
      screen, with the text it shows, specified by the values it must contain. \<open>Smp\<close>: the start of the other processors, and that it ends.

  \<^bold>\<open>Not modelled.\<close> The bodies of the idle and init threads and most of \<^verbatim>\<open>kernel_kickstart.c\<close> (they start the rest
  of the system and its tests); the translation cache of the processor; the interrupt stubs and the other assembly files;
  the firmware, the \<^verbatim>\<open>cpuid\<close> instruction and what other processors do to a volatile counter are parameters; the second frame buffer of
  the VESA driver, whose code is empty in this configuration; \<^verbatim>\<open>lib/div64.c\<close>, which
  is third-party code; the former kernel under \<^verbatim>\<open>src/old_version\<close>, the boot loader and the test programs. The
  file-scope variables of these parts do not occur in the modelled code.
\<close>

end
